(* ===== verification/Prelude.thy ===== *)
theory Prelude
  imports Main "HOL-Library.Word"
begin

text \<open>
  Shared vocabulary of the development.

  \<^item> The results of Go code: a value, a returned \<^verbatim>\<open>error\<close>, a run-time panic (nil
    dereference, index out of range, division by zero, an explicit \<^verbatim>\<open>panic\<close>) or a loop that
    never returns.  The library code (\<^verbatim>\<open>*big.Int\<close>, \<^verbatim>\<open>[]byte\<close>, slices) is written on top of it.
  \<^item> State-passing code returns the state together with the result: an early
    \<^verbatim>\<open>return err\<close> keeps the assignments made before it.
  \<^item> Slices indexed by a Go \<^verbatim>\<open>int\<close>: reading or writing outside the range panics.
\<close>

section \<open>Collections of the development\<close>

named_theorems go_simps \<open>unfolding rules of the result monad\<close>
named_theorems mod_simps_go \<open>rewriting rules for residues\<close>

section \<open>Results\<close>

datatype 'a res = Ok 'a | Err string | Panic string | Hang

type_synonym ('s, 'a) st = "'s \<times> 'a res"

fun bindr :: "'a res \<Rightarrow> ('a \<Rightarrow> 'b res) \<Rightarrow> 'b res" where
  "bindr (Ok a) f = f a"
| "bindr (Err e) f = Err e"
| "bindr (Panic p) f = Panic p"
| "bindr Hang f = Hang"

fun mapr :: "('a \<Rightarrow> 'b) \<Rightarrow> 'a res \<Rightarrow> 'b res" where
  "mapr f (Ok a) = Ok (f a)"
| "mapr f (Err e) = Err e"
| "mapr f (Panic p) = Panic p"
| "mapr f Hang = Hang"

text \<open>\<^verbatim>\<open>tryr r s k\<close> runs \<open>k\<close> on the value of \<open>r\<close>, or stops in state \<open>s\<close>.\<close>

fun tryr :: "'a res \<Rightarrow> 's \<Rightarrow> ('a \<Rightarrow> ('s, 'b) st) \<Rightarrow> ('s, 'b) st" where
  "tryr (Ok a) s k = k a"
| "tryr (Err e) s k = (s, Err e)"
| "tryr (Panic p) s k = (s, Panic p)"
| "tryr Hang s k = (s, Hang)"

text \<open>Dereferencing a pointer: \<^verbatim>\<open>nil\<close> panics.\<close>

fun deref :: "'a option \<Rightarrow> 'a res" where
  "deref (Some a) = Ok a"
| "deref None = Panic ''nil pointer dereference''"

fun ofOption :: "string \<Rightarrow> 'a option \<Rightarrow> 'a res" where
  "ofOption e (Some a) = Ok a"
| "ofOption e None = Err e"

fun is_Ok :: "'a res \<Rightarrow> bool" where
  "is_Ok (Ok a) = True"
| "is_Ok _ = False"

lemma bindr_Ok_iff [simp]: "bindr r f = Ok b \<longleftrightarrow> (\<exists>a. r = Ok a \<and> f a = Ok b)"
  by (cases r) auto

lemma mapr_Ok_iff [simp]: "mapr f r = Ok b \<longleftrightarrow> (\<exists>a. r = Ok a \<and> b = f a)"
  by (cases r) auto

lemma tryr_Ok_iff [simp]: "tryr r s k = (s', Ok b) \<longleftrightarrow> (\<exists>a. r = Ok a \<and> k a = (s', Ok b))"
  by (cases r) auto

lemma deref_Ok_iff [simp]: "deref x = Ok a \<longleftrightarrow> x = Some a"
  by (cases x) auto

lemma ofOption_Ok_iff [simp]: "ofOption e x = Ok a \<longleftrightarrow> x = Some a"
  by (cases x) auto

lemma is_Ok_iff: "is_Ok r \<longleftrightarrow> (\<exists>a. r = Ok a)"
  by (cases r) auto

lemma bindr_assoc: "bindr (bindr r f) g = bindr r (\<lambda>a. bindr (f a) g)"
  by (cases r) auto

text \<open>Running a fallible function over a slice, left to right, stopping at the first failure.\<close>

fun mapM :: "('a \<Rightarrow> 'b res) \<Rightarrow> 'a list \<Rightarrow> 'b list res" where
  "mapM f [] = Ok []"
| "mapM f (x # xs) = bindr (f x) (\<lambda>y. bindr (mapM f xs) (\<lambda>ys. Ok (y # ys)))"

fun foldM :: "('b \<Rightarrow> 'a \<Rightarrow> 'b res) \<Rightarrow> 'b \<Rightarrow> 'a list \<Rightarrow> 'b res" where
  "foldM f b [] = Ok b"
| "foldM f b (x # xs) = bindr (f b x) (\<lambda>b'. foldM f b' xs)"

lemma mapM_Ok_iff: "mapM f xs = Ok ys \<longleftrightarrow> list_all2 (\<lambda>x y. f x = Ok y) xs ys"
proof (induction xs arbitrary: ys)
  case Nil
  then show ?case by auto
next
  case (Cons x xs)
  then show ?case by (cases ys) auto
qed

lemma mapM_Ok_map: "(\<And>x. x \<in> set xs \<Longrightarrow> f x = Ok (g x)) \<Longrightarrow> mapM f xs = Ok (map g xs)"
  by (induction xs) auto

lemma mapM_Ok_length: "mapM f xs = Ok ys \<Longrightarrow> length ys = length xs"
  by (auto simp: mapM_Ok_iff dest: list_all2_lengthD)

lemma mapM_Ok_nth: "mapM f xs = Ok ys \<Longrightarrow> i < length xs \<Longrightarrow> f (xs ! i) = Ok (ys ! i)"
  by (auto simp: mapM_Ok_iff dest: list_all2_nthD)

lemma foldM_cong:
  "xs = ys \<Longrightarrow> (\<And>b x. x \<in> set ys \<Longrightarrow> f b x = g b x) \<Longrightarrow> foldM f b xs = foldM g b ys"
proof (induction ys arbitrary: xs b)
  case (Cons y ys)
  then show ?case by (cases "g b y") auto
qed simp

lemma foldM_append: "foldM f b (xs @ ys) = bindr (foldM f b xs) (\<lambda>b'. foldM f b' ys)"
  by (induction xs arbitrary: b) (auto simp: bindr_assoc)

lemma foldM_Ok_fold: "(\<And>b x. x \<in> set xs \<Longrightarrow> f b x = Ok (g x b)) \<Longrightarrow> foldM f b xs = Ok (fold g xs b)"
  by (induction xs arbitrary: b) auto

section \<open>Slices\<close>

definition slice_get :: "'a list \<Rightarrow> int \<Rightarrow> 'a res" where
  "slice_get xs i = (if 0 \<le> i \<and> i < int (length xs) then Ok (xs ! nat i)
     else Panic ''index out of range'')"

definition slice_set :: "'a list \<Rightarrow> int \<Rightarrow> 'a \<Rightarrow> 'a list res" where
  "slice_set xs i v = (if 0 \<le> i \<and> i < int (length xs) then Ok (xs[nat i := v])
     else Panic ''index out of range'')"

lemma slice_get_Ok_iff: "slice_get xs i = Ok v \<longleftrightarrow> 0 \<le> i \<and> i < int (length xs) \<and> v = xs ! nat i"
  by (auto simp: slice_get_def)

lemma slice_set_Ok_iff:
  "slice_set xs i v = Ok ys \<longleftrightarrow> 0 \<le> i \<and> i < int (length xs) \<and> ys = xs[nat i := v]"
  by (auto simp: slice_set_def)

lemma slice_set_length: "slice_set xs i v = Ok ys \<Longrightarrow> length ys = length xs"
  by (auto simp: slice_set_Ok_iff)

lemma slice_get_set_same: "slice_set xs i v = Ok ys \<Longrightarrow> slice_get ys i = Ok v"
  by (auto simp: slice_set_Ok_iff slice_get_Ok_iff)

lemma slice_get_set_other: "slice_set xs i v = Ok ys \<Longrightarrow> j \<noteq> i \<Longrightarrow> slice_get ys j = slice_get xs j"
  by (auto simp: slice_set_Ok_iff slice_get_def nat_eq_iff)

section \<open>Bytes and bit lengths\<close>

type_synonym byte = "8 word"

definition byte_of :: "nat \<Rightarrow> byte" where
  "byte_of n = word_of_nat n"

text \<open>\<^verbatim>\<open>[]byte(s)\<close> of a string.\<close>

definition string_bytes :: "string \<Rightarrow> byte list" where
  "string_bytes s = map (\<lambda>c. byte_of (of_char c)) s"

lemma string_bytes_append [simp]: "string_bytes (s @ t) = string_bytes s @ string_bytes t"
  by (simp add: string_bytes_def)

lemma length_string_bytes [simp]: "length (string_bytes s) = length s"
  by (simp add: string_bytes_def)

lemma unat_byte_of [simp]: "unat (byte_of n) = n mod 256"
  by (simp add: byte_of_def unat_of_nat)

lemma uint_byte_of [simp]: "uint (byte_of n) = int (n mod 256)"
  by (metis unat_byte_of int_nat_eq uint_nat)

lemma byte_of_unat [simp]: "byte_of (unat b) = b"
  by (simp add: byte_of_def)

lemma unat_byte_less [simp]: "unat (b :: byte) < 256"
  using unsigned_less [where w = b and ?'a = nat] by simp

end
