(* ===== verification/BigInt.thy ===== *)
theory BigInt
  imports Prelude
begin

text \<open>
  The part of Go's \<^verbatim>\<open>math/big\<close> that the program uses, on \<open>int\<close>.

  \<^item> \<open>Bytes\<close>/\<open>SetBytes\<close>: big-endian magnitude without leading zeros;
  \<^item> \<open>BitLen\<close>;
  \<^item> \<open>Mod\<close>, \<open>Div\<close>: Euclidean division, which panics on a zero divisor;
  \<^item> \<open>ModInverse\<close>: \<^verbatim>\<open>nil\<close> (\<open>None\<close>) when the argument is not a unit;
  \<^item> \<open>Exp\<close>: modular exponentiation, with negative exponents through \<open>ModInverse\<close>.
\<close>

section \<open>Bytes\<close>

fun bytes_nat :: "nat \<Rightarrow> byte list" where
  "bytes_nat n = (if n = 0 then [] else bytes_nat (n div 256) @ [byte_of n])"

declare bytes_nat.simps [simp del]

definition Bytes :: "int \<Rightarrow> byte list" where
  "Bytes x = bytes_nat (nat \<bar>x\<bar>)"

definition SetBytes :: "byte list \<Rightarrow> int" where
  "SetBytes bs = foldl (\<lambda>a b. a * 256 + uint b) 0 bs"

lemma bytes_nat_0 [simp]: "bytes_nat 0 = []"
  by (simp add: bytes_nat.simps)

lemma foldl_bytes: "foldl (\<lambda>a b. a * 256 + uint b) k bs = k * 256 ^ length bs + SetBytes bs"
proof (induction bs arbitrary: k)
  case Nil
  then show ?case by (simp add: SetBytes_def)
next
  case (Cons b bs)
  have "foldl (\<lambda>a b. a * 256 + uint b) k (b # bs)
      = (k * 256 + uint b) * 256 ^ length bs + SetBytes bs"
    by (simp add: Cons.IH)
  moreover have "SetBytes (b # bs) = uint b * 256 ^ length bs + SetBytes bs"
    using Cons.IH [of "uint b"] by (simp add: SetBytes_def)
  ultimately show ?case by (simp add: algebra_simps)
qed

lemma SetBytes_Nil [simp]: "SetBytes [] = 0"
  by (simp add: SetBytes_def)

lemma SetBytes_Cons: "SetBytes (b # bs) = uint b * 256 ^ length bs + SetBytes bs"
  using foldl_bytes [of "uint b" bs] by (simp add: SetBytes_def)

lemma SetBytes_append: "SetBytes (as @ bs) = SetBytes as * 256 ^ length bs + SetBytes bs"
  using foldl_bytes [of "SetBytes as" bs] by (simp add: SetBytes_def)

lemma SetBytes_single [simp]: "SetBytes [b] = uint b"
  by (simp add: SetBytes_Cons)

lemma SetBytes_nonneg [simp]: "0 \<le> SetBytes bs"
  by (induction bs) (auto simp: SetBytes_Cons)

lemma SetBytes_less: "SetBytes bs < 256 ^ length bs"
proof (induction bs rule: rev_induct)
  case Nil
  then show ?case by simp
next
  case (snoc b bs)
  have "uint b < 256" using unsigned_less [where w = b and ?'a = int] by simp
  with snoc show ?case by (simp add: SetBytes_append)
qed

lemma SetBytes_inj: "SetBytes as = SetBytes bs \<Longrightarrow> length as = length bs \<Longrightarrow> as = bs"
proof (induction as arbitrary: bs rule: rev_induct)
  case (snoc x xs)
  obtain ys y where bs: "bs = ys @ [y]" using snoc.prems(2) by (cases bs rule: rev_cases) auto
  have eq: "SetBytes xs * 256 + uint x = SetBytes ys * 256 + uint y"
    using snoc.prems(1) bs by (simp add: SetBytes_append)
  have "0 \<le> uint x" "uint x < 256" "0 \<le> uint y" "uint y < 256"
    using unsigned_less [where w = x and ?'a = int] unsigned_less [where w = y and ?'a = int] by auto
  then have "(SetBytes xs * 256 + uint x) div 256 = SetBytes xs" "(SetBytes ys * 256 + uint y) div 256 = SetBytes ys"
    by simp_all
  with eq have "SetBytes xs = SetBytes ys" by simp
  with eq have xy: "uint x = uint y" by simp
  from \<open>SetBytes xs = SetBytes ys\<close> have "xs = ys" using snoc.IH snoc.prems(2) bs by simp
  moreover have "x = y" using xy by (simp add: word_uint_eq_iff)
  ultimately show ?case using bs by simp
qed simp

lemma SetBytes_bytes_nat: "SetBytes (bytes_nat n) = int n"
proof (induction n rule: bytes_nat.induct)
  case (1 n)
  show ?case
  proof (cases "n = 0")
    case False
    have "SetBytes (bytes_nat n) = SetBytes (bytes_nat (n div 256)) * 256 + uint (byte_of n)"
      using False by (simp add: bytes_nat.simps [of n] SetBytes_append)
    also have "\<dots> = int n"
      using 1 [OF False] by (simp add: zdiv_int zmod_int)
    finally show ?thesis .
  qed simp
qed

lemma SetBytes_Bytes [simp]: "SetBytes (Bytes x) = \<bar>x\<bar>"
  by (simp add: Bytes_def SetBytes_bytes_nat)

lemma Bytes_0 [simp]: "Bytes 0 = []"
  by (simp add: Bytes_def)

lemma Bytes_abs [simp]: "Bytes \<bar>x\<bar> = Bytes x"
  by (simp add: Bytes_def)

lemma bytes_nat_snoc:
  "0 < m \<or> 0 < unat b \<Longrightarrow> bytes_nat (256 * m + unat b) = bytes_nat m @ [b]"
proof -
  assume pos: "0 < m \<or> 0 < unat b"
  have b: "unat b < 256" by simp
  have "(256 * m + unat b) div 256 = m" using b by simp
  moreover have "byte_of (256 * m + unat b) = b"
    by (metis b byte_of_unat mod_less mod_mult_self4 unat_byte_of word_unat_eq_iff)
  ultimately show ?thesis using pos by (subst bytes_nat.simps) auto
qed

lemma Bytes_SetBytes: "bs \<noteq> [] \<Longrightarrow> hd bs \<noteq> 0 \<Longrightarrow> Bytes (SetBytes bs) = bs"
proof (induction bs rule: rev_induct)
  case Nil
  then show ?case by simp
next
  case (snoc b bs)
  let ?m = "nat (SetBytes bs)"
  have eq: "nat (SetBytes (bs @ [b])) = 256 * ?m + unat b"
    by (simp add: SetBytes_append nat_add_distrib nat_mult_distrib flip: unat_eq_nat_uint)
  show ?case
  proof (cases "bs = []")
    case True
    with snoc.prems have "0 < unat b" by (simp add: unat_gt_0)
    with True show ?thesis using bytes_nat_snoc [of 0 b] by (simp add: Bytes_def)
  next
    case False
    with snoc have IH: "Bytes (SetBytes bs) = bs" by simp
    with False have "SetBytes bs \<noteq> 0" by auto
    then have "0 < ?m" using SetBytes_nonneg [of bs] by linarith
    then have "bytes_nat (256 * ?m + unat b) = bs @ [b]"
      using bytes_nat_snoc [of ?m b] IH by (simp add: Bytes_def)
    with eq show ?thesis by (simp add: Bytes_def)
  qed
qed

lemma length_bytes_nat_le: "n < 256 ^ k \<Longrightarrow> length (bytes_nat n) \<le> k"
proof (induction k arbitrary: n)
  case 0
  then show ?case by simp
next
  case (Suc k)
  then have "n div 256 < 256 ^ k" by (simp add: less_mult_imp_div_less mult.commute)
  then have "length (bytes_nat (n div 256)) \<le> k" by (rule Suc.IH)
  then show ?case by (subst bytes_nat.simps) simp
qed

lemma length_Bytes_le: "\<bar>x\<bar> < 256 ^ k \<Longrightarrow> length (Bytes x) \<le> k"
proof -
  assume "\<bar>x\<bar> < 256 ^ k"
  then have "nat \<bar>x\<bar> < 256 ^ k" by (simp add: nat_less_iff)
  then show ?thesis by (simp add: Bytes_def length_bytes_nat_le)
qed

lemma hd_bytes_nat: "0 < n \<Longrightarrow> hd (bytes_nat n) \<noteq> 0"
proof (induction n rule: bytes_nat.induct)
  case (1 n)
  show ?case
  proof (cases "n div 256 = 0")
    case True
    then have "byte_of n \<noteq> 0"
      using 1(2) unat_byte_of [of n] by (metis mod_less div_eq_0_iff less_numeral_extra(3)
        unat_0 zero_neq_numeral)
    with True 1(2) show ?thesis by (simp add: bytes_nat.simps [of n])
  next
    case False
    with 1 have "hd (bytes_nat (n div 256)) \<noteq> 0" by simp
    moreover from False have "bytes_nat (n div 256) \<noteq> []"
      by (subst bytes_nat.simps) simp
    ultimately show ?thesis using 1(2) by (simp add: bytes_nat.simps [of n])
  qed
qed

section \<open>Bit lengths\<close>

fun bitlen_nat :: "nat \<Rightarrow> nat" where
  "bitlen_nat n = (if n = 0 then 0 else Suc (bitlen_nat (n div 2)))"

declare bitlen_nat.simps [simp del]

definition BitLen :: "int \<Rightarrow> nat" where
  "BitLen x = bitlen_nat (nat \<bar>x\<bar>)"

lemma bitlen_nat_less: "n < 2 ^ bitlen_nat n"
proof (induction n rule: bitlen_nat.induct)
  case (1 n)
  show ?case
  proof (cases "n = 0")
    case False
    with 1 have "n div 2 < 2 ^ bitlen_nat (n div 2)" by simp
    with False show ?thesis by (subst bitlen_nat.simps) simp
  qed (simp add: bitlen_nat.simps)
qed

lemma BitLen_bound: "\<bar>x\<bar> < 2 ^ BitLen x"
proof -
  have "int (nat \<bar>x\<bar>) < int (2 ^ BitLen x)"
    unfolding BitLen_def of_nat_less_iff by (rule bitlen_nat_less)
  then show ?thesis by simp
qed

section \<open>Euclidean division\<close>

definition bigMod :: "int \<Rightarrow> int \<Rightarrow> int" where
  "bigMod x y = x mod \<bar>y\<bar>"

definition Mod :: "int \<Rightarrow> int \<Rightarrow> int res" where
  "Mod x y = (if y = 0 then Panic ''division by zero'' else Ok (bigMod x y))"

definition bigDiv :: "int \<Rightarrow> int \<Rightarrow> int" where
  "bigDiv x y = sgn y * (x div \<bar>y\<bar>)"

definition Div :: "int \<Rightarrow> int \<Rightarrow> int res" where
  "Div x y = (if y = 0 then Panic ''division by zero'' else Ok (bigDiv x y))"

lemma bigMod_pos [simp]: "0 < y \<Longrightarrow> bigMod x y = x mod y"
  by (simp add: bigMod_def)

lemma bigDiv_pos [simp]: "0 < y \<Longrightarrow> bigDiv x y = x div y"
  by (simp add: bigDiv_def)

lemma Mod_pos [simp]: "0 < y \<Longrightarrow> Mod x y = Ok (x mod y)"
  by (simp add: Mod_def)

lemma Div_pos [simp]: "0 < y \<Longrightarrow> Div x y = Ok (x div y)"
  by (simp add: Div_def)

lemma bigDiv_bigMod: "y \<noteq> 0 \<Longrightarrow> y * bigDiv x y + bigMod x y = x"
  by (simp add: bigDiv_def bigMod_def abs_sgn mult.assoc [symmetric] sgn_if)

lemma bigMod_range: "y \<noteq> 0 \<Longrightarrow> 0 \<le> bigMod x y \<and> bigMod x y < \<bar>y\<bar>"
  by (simp add: bigMod_def)

section \<open>Inverses and exponentiation\<close>

function egcd :: "int \<Rightarrow> int \<Rightarrow> int \<times> int \<times> int" where
  "egcd a b = (if b \<le> 0 then (a, 1, 0)
     else (case egcd b (a mod b) of (g, x, y) \<Rightarrow> (g, y, x - (a div b) * y)))"
  by pat_completeness auto
termination
  by (relation "measure (\<lambda>(a, b). nat b)") auto

declare egcd.simps [simp del]

lemma egcd_bezout: "egcd a b = (g, x, y) \<Longrightarrow> a * x + b * y = g"
proof (induction a b arbitrary: g x y rule: egcd.induct)
  case (1 a b)
  show ?case
  proof (cases "b \<le> 0")
    case True
    with 1(2) show ?thesis by (simp add: egcd.simps)
  next
    case False
    obtain g' x' y' where rec: "egcd b (a mod b) = (g', x', y')" by (metis prod_cases3)
    with False 1(2) have eq: "g = g' \<and> x = y' \<and> y = x' - (a div b) * y'"
      by (auto simp: egcd.simps [of a b])
    from rec False 1(1) have IH: "b * x' + (a mod b) * y' = g'" by simp
    have "a * y' + b * (x' - (a div b) * y') = b * x' + (a - b * (a div b)) * y'"
      by (simp add: algebra_simps)
    also have "\<dots> = g'" using IH by (simp add: minus_mult_div_eq_mod)
    finally show ?thesis using eq by simp
  qed
qed

lemma egcd_gcd: "0 \<le> a \<Longrightarrow> 0 \<le> b \<Longrightarrow> fst (egcd a b) = gcd a b"
proof (induction a b rule: egcd.induct)
  case (1 a b)
  show ?case
  proof (cases "b \<le> 0")
    case True
    with 1 show ?thesis by (simp add: egcd.simps)
  next
    case False
    then have "fst (egcd b (a mod b)) = gcd b (a mod b)" using 1 by simp
    with False show ?thesis
      by (simp add: egcd.simps [of a b] case_prod_beta gcd_red_int [symmetric])
  qed
qed

definition ModInverse :: "int \<Rightarrow> int \<Rightarrow> int option" where
  "ModInverse g n =
     (case egcd (bigMod g n) \<bar>n\<bar> of (d, x, y) \<Rightarrow> if d = 1 then Some (bigMod x n) else None)"

lemma ModInverse_None_iff: "0 < n \<Longrightarrow> ModInverse g n = None \<longleftrightarrow> gcd g n \<noteq> 1"
proof -
  assume n: "0 < n"
  have "fst (egcd (g mod n) n) = gcd (g mod n) n" using n by (intro egcd_gcd) auto
  also have "\<dots> = gcd g n" by (simp add: gcd.commute gcd_red_int [symmetric])
  finally show ?thesis using n by (auto simp: ModInverse_def case_prod_beta)
qed

lemma ModInverse_Some:
  assumes n: "0 < n" and inv: "ModInverse g n = Some u"
  shows "(g * u) mod n = 1 mod n" and "0 \<le> u" and "u < n"
proof -
  obtain d x y where e: "egcd (g mod n) n = (d, x, y)" by (metis prod_cases3)
  with n inv have d: "d = 1" and u: "u = x mod n"
    by (auto simp: ModInverse_def split: if_splits)
  have "(g mod n) * x + n * y = 1" using egcd_bezout [OF e] d by simp
  then have "((g mod n) * x + n * y) mod n = 1 mod n" by simp
  then have "(g mod n * x) mod n = 1 mod n" by simp
  then show "(g * u) mod n = 1 mod n" by (simp add: u mod_simps)
  show "0 \<le> u" "u < n" using u n by simp_all
qed

lemma ModInverse_coprime: "0 < n \<Longrightarrow> gcd g n = 1 \<Longrightarrow> \<exists>u. ModInverse g n = Some u"
  using ModInverse_None_iff [of n g] by auto

function powmod :: "int \<Rightarrow> nat \<Rightarrow> int \<Rightarrow> int" where
  "powmod b e m = (if e = 0 then 1 mod m
     else let h = powmod (b * b mod m) (e div 2) m
          in if even e then h else b * h mod m)"
  by pat_completeness auto
termination
  by (relation "measure (\<lambda>(b, e, m). e)") auto

declare powmod.simps [simp del]

lemma powmod_eq [simp]: "powmod b e m = b ^ e mod m"
proof (induction b e m rule: powmod.induct)
  case (1 b e m)
  show ?case
  proof (cases "e = 0")
    case True
    then show ?thesis by (simp add: powmod.simps)
  next
    case False
    have half: "powmod (b * b mod m) (e div 2) m = (b ^ 2) ^ (e div 2) mod m"
      using 1 [OF False] by (simp add: power_mod power2_eq_square)
    show ?thesis
    proof (cases "even e")
      case True
      then show ?thesis using False half
        by (simp add: powmod.simps [of b e] Let_def flip: power_mult)
    next
      case odd: False
      then have "b ^ e = b * (b ^ 2) ^ (e div 2)"
        by (metis odd_two_times_div_two_succ power_mult power_Suc Suc_eq_plus1)
      then show ?thesis using False odd half
        by (simp add: powmod.simps [of b e] Let_def mod_mult_right_eq)
    qed
  qed
qed

definition Exp :: "int \<Rightarrow> int \<Rightarrow> int \<Rightarrow> int option" where
  "Exp x y m =
     (if m = 0 then Some (if y \<le> 0 then 1 else x ^ nat y)
      else if y < 0 then map_option (\<lambda>i. powmod i (nat (- y)) \<bar>m\<bar>) (ModInverse x m)
      else Some (powmod x (nat y) \<bar>m\<bar>))"

lemma Exp_nonneg [simp]: "0 \<le> y \<Longrightarrow> 0 < m \<Longrightarrow> Exp x y m = Some (x ^ nat y mod m)"
  by (simp add: Exp_def)

lemma Exp_range: "0 < m \<Longrightarrow> Exp x y m = Some z \<Longrightarrow> 0 \<le> z \<and> z < m"
  by (auto simp: Exp_def split: if_splits)

lemma Exp_neg_Some:
  assumes "0 < m" "y < 0" "Exp x y m = Some z"
  shows "(x ^ nat (- y) * z) mod m = 1 mod m"
proof -
  obtain i where i: "ModInverse x m = Some i" and z: "z = i ^ nat (- y) mod m"
    using assms by (auto simp: Exp_def)
  have "(x ^ nat (- y) * z) mod m = (x * i mod m) ^ nat (- y) mod m"
    by (simp add: z mod_simps power_mult_distrib power_mod)
  also have "\<dots> = (1 mod m) ^ nat (- y) mod m"
    using ModInverse_Some(1) [OF assms(1) i] by simp
  also have "\<dots> = 1 mod m" by (simp add: power_mod)
  finally show ?thesis .
qed

section \<open>Code equations on binary numbers\<close>

text \<open>The same functions by recursion on \<open>int\<close>, for evaluation.\<close>

function bytes_int :: "int \<Rightarrow> byte list" where
  "bytes_int n = (if n \<le> 0 then [] else bytes_int (n div 256) @ [word_of_int n])"
  by pat_completeness auto
termination
  by (relation "measure nat") auto

declare bytes_int.simps [simp del]

lemma bytes_int_eq: "0 \<le> n \<Longrightarrow> bytes_int n = bytes_nat (nat n)"
proof (induction n rule: bytes_int.induct)
  case (1 n)
  show ?case
  proof (cases "n \<le> 0")
    case True
    with 1 show ?thesis by (simp add: bytes_int.simps)
  next
    case False
    then have IH: "bytes_int (n div 256) = bytes_nat (nat (n div 256))" using 1 by simp
    have "nat n div 256 = nat (n div 256)" using False by (simp add: nat_div_distrib)
    moreover have "word_of_int n = byte_of (nat n)" using False by (simp add: byte_of_def of_nat_nat)
    moreover have "nat n \<noteq> 0" using False by simp
    ultimately show ?thesis
      using False by (subst bytes_int.simps, subst bytes_nat.simps) (simp add: IH)
  qed
qed

lemma Bytes_code [code]: "Bytes x = bytes_int \<bar>x\<bar>"
  by (simp add: Bytes_def bytes_int_eq)

function bitlen_int :: "int \<Rightarrow> nat" where
  "bitlen_int n = (if n \<le> 0 then 0 else Suc (bitlen_int (n div 2)))"
  by pat_completeness auto
termination
  by (relation "measure nat") auto

declare bitlen_int.simps [simp del]

lemma bitlen_int_eq: "0 \<le> n \<Longrightarrow> bitlen_int n = bitlen_nat (nat n)"
proof (induction n rule: bitlen_int.induct)
  case (1 n)
  show ?case
  proof (cases "n \<le> 0")
    case True
    with 1 show ?thesis by (simp add: bitlen_int.simps bitlen_nat.simps)
  next
    case False
    then have "bitlen_int (n div 2) = bitlen_nat (nat (n div 2))" using 1 by simp
    moreover have "nat n div 2 = nat (n div 2)" using False by (simp add: nat_div_distrib)
    moreover have "nat n \<noteq> 0" using False by simp
    ultimately show ?thesis using False by (subst bitlen_int.simps, subst bitlen_nat.simps) simp
  qed
qed

lemma BitLen_code [code]: "BitLen x = bitlen_int \<bar>x\<bar>"
  by (simp add: BitLen_def bitlen_int_eq)

function powmod_int :: "int \<Rightarrow> int \<Rightarrow> int \<Rightarrow> int" where
  "powmod_int b e m = (if e \<le> 0 then 1 mod m
     else let h = powmod_int (b * b mod m) (e div 2) m
          in if even e then h else b * h mod m)"
  by pat_completeness auto
termination
  by (relation "measure (\<lambda>(b, e, m). nat e)") auto

declare powmod_int.simps [simp del]

lemma powmod_int_eq: "0 \<le> e \<Longrightarrow> powmod_int b e m = powmod b (nat e) m"
proof (induction b e m rule: powmod_int.induct)
  case (1 b e m)
  show ?case
  proof (cases "e \<le> 0")
    case True
    with 1 show ?thesis by (simp add: powmod_int.simps)
  next
    case False
    then have IH: "powmod_int (b * b mod m) (e div 2) m = powmod (b * b mod m) (nat (e div 2)) m"
      using 1 by (simp del: powmod_eq)
    have "nat e div 2 = nat (e div 2)" "nat e \<noteq> 0" "even (nat e) = even e"
      using False by (simp_all add: nat_div_distrib even_nat_iff)
    then show ?thesis
      using False by (subst powmod_int.simps, subst powmod.simps) (simp add: IH Let_def del: powmod_eq)
  qed
qed

lemma Exp_code [code]:
  "Exp x y m =
     (if m = 0 then Some (if y \<le> 0 then 1 else x ^ nat y)
      else if y < 0 then map_option (\<lambda>i. powmod_int i (- y) \<bar>m\<bar>) (ModInverse x m)
      else Some (powmod_int x y \<bar>m\<bar>))"
  by (simp add: Exp_def powmod_int_eq cong: option.map_cong)

end
