(* ===== verification/NumberTheory.thy ===== *)
theory NumberTheory
  imports BigInt
begin

text \<open>
  Number theory the cryptographic components rest on, over \<open>int\<close>: residues, primes, the
  theorem of Fermat, its lift to the square of a modulus, and the exponent of the group of
  units modulo the square of an RSA modulus.
\<close>

section \<open>Residues\<close>

text \<open>\<open>eqm m a b\<close>: \<open>a\<close> and \<open>b\<close> are congruent modulo \<open>m\<close>.\<close>

definition eqm :: "int \<Rightarrow> int \<Rightarrow> int \<Rightarrow> bool" where
  "eqm m a b \<longleftrightarrow> m dvd a - b"

lemma eqm_mod_iff: "eqm m a b \<longleftrightarrow> a mod m = b mod m"
  by (simp add: eqm_def mod_eq_dvd_iff)

lemma eqm_refl [simp, intro!]: "eqm m a a"
  by (simp add: eqm_def)

lemma eqm_sym: "eqm m a b \<Longrightarrow> eqm m b a"
  by (simp add: eqm_mod_iff)

lemma eqm_trans [trans]: "eqm m a b \<Longrightarrow> eqm m b c \<Longrightarrow> eqm m a c"
  by (simp add: eqm_mod_iff)

lemma eqm_eq_trans [trans]: "eqm m a b \<Longrightarrow> b = c \<Longrightarrow> eqm m a c"
  by simp

lemma eq_eqm_trans [trans]: "a = b \<Longrightarrow> eqm m b c \<Longrightarrow> eqm m a c"
  by simp

lemma eqm_add: "eqm m a b \<Longrightarrow> eqm m c d \<Longrightarrow> eqm m (a + c) (b + d)"
  unfolding eqm_mod_iff by (metis mod_add_cong)

lemma eqm_diff: "eqm m a b \<Longrightarrow> eqm m c d \<Longrightarrow> eqm m (a - c) (b - d)"
  unfolding eqm_mod_iff by (metis mod_diff_cong)

lemma eqm_mult: "eqm m a b \<Longrightarrow> eqm m c d \<Longrightarrow> eqm m (a * c) (b * d)"
  unfolding eqm_mod_iff by (metis mod_mult_cong)

lemma eqm_minus: "eqm m a b \<Longrightarrow> eqm m (- a) (- b)"
  using eqm_diff [of m 0 0 a b] by simp

lemma eqm_power: "eqm m a b \<Longrightarrow> eqm m (a ^ n) (b ^ n)"
  unfolding eqm_mod_iff by (metis power_mod)

lemma eqm_mod_left [simp]: "eqm m (a mod m) b \<longleftrightarrow> eqm m a b"
  by (simp add: eqm_mod_iff)

lemma eqm_mod_right [simp]: "eqm m a (b mod m) \<longleftrightarrow> eqm m a b"
  by (simp add: eqm_mod_iff)

lemma eqm_mod_self: "eqm m (a mod m) a"
  by simp

lemma eqm_sum: "(\<And>i. i \<in> A \<Longrightarrow> eqm m (f i) (g i)) \<Longrightarrow> eqm m (sum f A) (sum g A)"
  by (induction A rule: infinite_finite_induct) (auto intro: eqm_add)

lemma eqm_prod: "(\<And>i. i \<in> A \<Longrightarrow> eqm m (f i) (g i)) \<Longrightarrow> eqm m (prod f A) (prod g A)"
  by (induction A rule: infinite_finite_induct) (auto intro: eqm_mult)

lemma eqm_dvd_modulus: "eqm m a b \<Longrightarrow> k dvd m \<Longrightarrow> eqm k a b"
  unfolding eqm_def by (rule dvd_trans)

lemma eqm_0_iff: "eqm m a 0 \<longleftrightarrow> m dvd a"
  by (simp add: eqm_def)

lemma eqm_imp_mod_eq: "eqm m a b \<Longrightarrow> a mod m = b mod m"
  by (simp add: eqm_mod_iff)

lemma mod_eq_imp_eqm: "a mod m = b mod m \<Longrightarrow> eqm m a b"
  by (simp add: eqm_mod_iff)

lemma eqm_eq_in_range: "eqm m a b \<Longrightarrow> 0 \<le> a \<Longrightarrow> a < m \<Longrightarrow> 0 \<le> b \<Longrightarrow> b < m \<Longrightarrow> a = b"
  by (simp add: eqm_mod_iff)

lemma eqm_crt: "eqm m a b \<Longrightarrow> eqm n a b \<Longrightarrow> coprime m n \<Longrightarrow> eqm (m * n) a b"
  unfolding eqm_def by (rule divides_mult)

lemma eqm_cancel_unit:
  assumes "eqm m (u * v) 1" and "eqm m (u * a) (u * b)"
  shows "eqm m a b"
proof -
  have "eqm m (v * (u * a)) (v * (u * b))" by (intro eqm_mult eqm_refl assms(2))
  then have "eqm m ((u * v) * a) ((u * v) * b)" by (simp add: ac_simps)
  moreover have "eqm m ((u * v) * a) (1 * a)" and "eqm m ((u * v) * b) (1 * b)"
    by (intro eqm_mult eqm_refl assms(1))+
  ultimately show ?thesis by (metis eqm_sym eqm_trans mult_1)
qed

lemma ModInverse_eqm: "0 < n \<Longrightarrow> ModInverse g n = Some u \<Longrightarrow> eqm n (g * u) 1"
  by (simp add: eqm_mod_iff ModInverse_Some(1))

lemma unit_imp_coprime: "eqm m (a * u) 1 \<Longrightarrow> coprime a m"
proof -
  assume "eqm m (a * u) 1"
  then obtain k where "a * u - 1 = m * k" by (auto simp: eqm_def elim: dvdE)
  then have "a * u - m * k = 1" by simp
  then show ?thesis
    by (metis coprimeI dvd_diff dvd_mult2)
qed

lemmas eqm_intros = eqm_add eqm_diff eqm_mult eqm_minus eqm_power eqm_refl

section \<open>Primes\<close>

definition is_prime :: "int \<Rightarrow> bool" where
  "is_prime p \<longleftrightarrow> 1 < p \<and> (\<forall>d \<in> {2..<p}. \<not> d dvd p)"

lemma is_prime_gt_1: "is_prime p \<Longrightarrow> 1 < p"
  by (simp add: is_prime_def)

lemma is_prime_divisor: "is_prime p \<Longrightarrow> d dvd p \<Longrightarrow> 0 < d \<Longrightarrow> d = 1 \<or> d = p"
proof -
  assume p: "is_prime p" and d: "d dvd p" "0 < d"
  from p have "0 < p" by (simp add: is_prime_def)
  with d have "d \<le> p" by (intro zdvd_imp_le)
  with p d show ?thesis by (force simp: is_prime_def)
qed

lemma prime_coprime: "is_prime p \<Longrightarrow> \<not> p dvd a \<Longrightarrow> coprime p a"
proof -
  assume p: "is_prime p" and na: "\<not> p dvd a"
  have "gcd p a dvd p" "0 < gcd p a" using is_prime_gt_1 [OF p] by auto
  then have "gcd p a = 1 \<or> gcd p a = p" by (rule is_prime_divisor [OF p])
  with na show ?thesis by (metis coprime_iff_gcd_eq_1 gcd_dvd2)
qed

lemma prime_dvd_mult: "is_prime p \<Longrightarrow> p dvd a * b \<Longrightarrow> p dvd a \<or> p dvd b"
  using prime_coprime coprime_dvd_mult_right_iff by blast

lemma distinct_primes_coprime: "is_prime p \<Longrightarrow> is_prime q \<Longrightarrow> p \<noteq> q \<Longrightarrow> coprime p q"
proof (rule prime_coprime)
  assume p: "is_prime p" and q: "is_prime q" and "p \<noteq> q"
  show "\<not> p dvd q"
    using is_prime_divisor [OF q, of p] is_prime_gt_1 [OF p] \<open>p \<noteq> q\<close> by auto
qed

section \<open>Fermat\<close>

lemma prime_dvd_choose:
  assumes p: "is_prime (int p)" and k: "0 < k" "k < p"
  shows "int p dvd int (p choose k)"
proof -
  have "k * (p choose k) = p * ((p - 1) choose (k - 1))"
    using k by (intro times_binomial_minus1_eq) simp
  then have "int k * int (p choose k) = int p * int ((p - 1) choose (k - 1))"
    by (metis of_nat_mult)
  then have "int p dvd int k * int (p choose k)" by simp
  moreover have "\<not> int p dvd int k"
    using k by (simp add: nat_dvd_not_less)
  ultimately show ?thesis using prime_dvd_mult [OF p] by blast
qed

lemma prime_power_Suc:
  assumes p: "is_prime (int p)"
  shows "eqm (int p) ((a + 1) ^ p) (a ^ p + 1)"
proof -
  have p0: "0 < p" using is_prime_gt_1 [OF p] by simp
  let ?f = "\<lambda>k. of_nat (p choose k) * a ^ k * 1 ^ (p - k)"
  have split: "{..p} = insert 0 (insert p {1..<p})" using p0 by auto
  have "(a + 1) ^ p = sum ?f {..p}" by (rule binomial_ring)
  also have "\<dots> = 1 + (a ^ p + sum ?f {1..<p})"
    unfolding split using p0 by (subst sum.insert) auto
  finally have eq: "(a + 1) ^ p - (a ^ p + 1) = sum ?f {1..<p}" by simp
  have "int p dvd sum ?f {1..<p}"
    by (intro dvd_sum dvd_mult2 prime_dvd_choose [OF p]) auto
  then show ?thesis unfolding eqm_def eq .
qed

lemma fermat_nat:
  assumes p: "is_prime (int p)"
  shows "eqm (int p) (int n ^ p) (int n)"
proof (induction n)
  case 0
  then show ?case using is_prime_gt_1 [OF p] by (simp add: power_0_left)
next
  case (Suc n)
  have "eqm (int p) ((int n + 1) ^ p) (int n ^ p + 1)" by (rule prime_power_Suc [OF p])
  also have "eqm (int p) (int n ^ p + 1) (int n + 1)" by (intro eqm_intros Suc)
  finally show ?case by (simp add: add.commute)
qed

lemma fermat:
  assumes p: "is_prime p"
  shows "eqm p (a ^ nat p) a"
proof -
  have p0: "0 < p" using is_prime_gt_1 [OF p] by simp
  let ?n = "nat (a mod p)"
  have n: "int ?n = a mod p" using p0 by simp
  have "eqm p (int ?n ^ nat p) (int ?n)"
    using fermat_nat [of "nat p" ?n] p p0 by simp
  moreover have "eqm p (a ^ nat p) (int ?n ^ nat p)"
    unfolding n by (intro eqm_power) simp
  ultimately have "eqm p (a ^ nat p) (int ?n)" by (rule eqm_trans [rotated])
  then show ?thesis unfolding n by simp
qed

lemma fermat_unit:
  assumes p: "is_prime p" and a: "\<not> p dvd a"
  shows "eqm p (a ^ nat (p - 1)) 1"
proof -
  have p1: "1 < p" by (rule is_prime_gt_1 [OF p])
  have "nat p = Suc (nat (p - 1))" using p1 by simp
  then have "eqm p (a * a ^ nat (p - 1)) (a * 1)" using fermat [OF p, of a] by simp
  then have "p dvd a * (a ^ nat (p - 1) - 1)" by (simp add: eqm_def algebra_simps)
  with prime_dvd_mult [OF p] a show ?thesis by (auto simp: eqm_def)
qed

section \<open>Squares of moduli\<close>

lemma power_first_order:
  assumes "m dvd (a - b :: int)"
  shows "m ^ 2 dvd a ^ n - (b ^ n + int n * b ^ (n - 1) * (a - b))"
proof (induction n)
  case 0
  then show ?case by simp
next
  case (Suc n)
  let ?d = "a - b"
  have d2: "m ^ 2 dvd ?d * ?d"
    using mult_dvd_mono [OF assms assms] by (simp add: power2_eq_square)
  have bn: "int n * b ^ (n - 1) * b = int n * b ^ n"
    by (cases n) auto
  have "a ^ Suc n - (b ^ Suc n + int (Suc n) * b ^ (Suc n - 1) * ?d)
      = a * (a ^ n - (b ^ n + int n * b ^ (n - 1) * ?d))
        + (int n * b ^ (n - 1) * b - int n * b ^ n) * ?d + int n * b ^ (n - 1) * (?d * ?d)"
    by (simp add: algebra_simps)
  also have "\<dots> = a * (a ^ n - (b ^ n + int n * b ^ (n - 1) * ?d))
        + int n * b ^ (n - 1) * (?d * ?d)"
    using bn by simp
  also have "m ^ 2 dvd \<dots>"
    by (intro dvd_add dvd_mult Suc d2)
  finally show ?case .
qed

lemma eqm_power_lift:
  assumes m: "0 \<le> m" and ab: "eqm m a b"
  shows "eqm (m ^ 2) (a ^ nat m) (b ^ nat m)"
proof -
  have d: "m dvd a - b" using ab by (simp add: eqm_def)
  have "m ^ 2 dvd int (nat m) * b ^ (nat m - 1) * (a - b)"
    using mult_dvd_mono [OF dvd_mult2 [OF dvd_refl [of m], of "b ^ (nat m - 1)"] d] m
    by (simp add: power2_eq_square)
  with power_first_order [OF d, of "nat m"] show ?thesis
    unfolding eqm_def by (metis (no_types, lifting) add_diff_eq diff_add_eq dvd_add_right_iff
        diff_diff_eq diff_add_cancel)
qed

lemma one_plus_power: "eqm (n ^ 2) ((1 + n) ^ k) (1 + int k * n)"
  using power_first_order [of n "1 + n" 1 k] by (simp add: eqm_def)

lemma euler_prime_square:
  assumes p: "is_prime p" and r: "\<not> p dvd r"
  shows "eqm (p ^ 2) (r ^ nat (p * (p - 1))) 1"
proof -
  have p1: "1 < p" by (rule is_prime_gt_1 [OF p])
  have "eqm (p ^ 2) ((r ^ nat (p - 1)) ^ nat p) (1 ^ nat p)"
    using p1 by (intro eqm_power_lift fermat_unit [OF p r]) simp
  moreover have "nat (p * (p - 1)) = nat (p - 1) * nat p"
    using p1 by (simp add: nat_mult_distrib)
  ultimately show ?thesis by (simp add: power_mult)
qed

lemma eqm_power_multiple: "eqm m (r ^ e) 1 \<Longrightarrow> e dvd f \<Longrightarrow> eqm m (r ^ f) 1"
proof -
  assume r: "eqm m (r ^ e) 1" and "e dvd f"
  then obtain k where "f = e * k" by (auto elim: dvdE)
  then have "r ^ f = (r ^ e) ^ k" by (simp add: power_mult)
  also have "eqm m ((r ^ e) ^ k) (1 ^ k)" by (intro eqm_power r)
  finally show ?thesis by simp
qed

lemma nat_dvd_of_int_dvd: "0 \<le> a \<Longrightarrow> (a::int) dvd b \<Longrightarrow> 0 \<le> b \<Longrightarrow> nat a dvd nat b"
  by (simp add: nat_dvd_iff)

lemma rsa_square_exponent:
  assumes p: "is_prime p" and q: "is_prime q" and "p \<noteq> q" and r: "coprime r (p * q)"
  shows "eqm ((p * q) ^ 2) (r ^ nat (p * q * ((p - 1) * (q - 1)))) 1"
proof -
  let ?e = "p * q * ((p - 1) * (q - 1))"
  have p1: "1 < p" and q1: "1 < q" by (rule is_prime_gt_1, fact)+
  have np: "\<not> p dvd r" and nq: "\<not> q dvd r"
    using r p1 q1 by (auto dest: coprime_common_divisor [of r "p * q" p]
        coprime_common_divisor [of r "p * q" q])
  have "eqm (p ^ 2) (r ^ nat ?e) 1"
  proof (rule eqm_power_multiple [OF euler_prime_square [OF p np]])
    show "nat (p * (p - 1)) dvd nat ?e"
      using p1 q1 by (intro nat_dvd_of_int_dvd) (auto simp: ac_simps)
  qed
  moreover have "eqm (q ^ 2) (r ^ nat ?e) 1"
  proof (rule eqm_power_multiple [OF euler_prime_square [OF q nq]])
    show "nat (q * (q - 1)) dvd nat ?e"
      using p1 q1 by (intro nat_dvd_of_int_dvd) (auto simp: ac_simps)
  qed
  moreover have "coprime (p ^ 2) (q ^ 2)"
    using distinct_primes_coprime [OF p q \<open>p \<noteq> q\<close>] by simp
  ultimately show ?thesis
    using eqm_crt by (simp add: power_mult_distrib)
qed

section \<open>Exponentiation with integer exponents\<close>

text \<open>
  \<open>pw m x y\<close> is the result of \<^verbatim>\<open>Exp(x, y, m)\<close> where it is not \<^verbatim>\<open>nil\<close>: for non-negative exponents, and
  for negative ones when \<open>x\<close> is a unit modulo \<open>m\<close>.
\<close>

definition pw :: "int \<Rightarrow> int \<Rightarrow> int \<Rightarrow> int" where
  "pw m x y = the (Exp x y m)"

lemma Exp_pw_nonneg: "0 < m \<Longrightarrow> 0 \<le> y \<Longrightarrow> Exp x y m = Some (pw m x y)"
  by (simp add: pw_def)

lemma Exp_pw:
  assumes "0 < m" "coprime x m" shows "Exp x y m = Some (pw m x y)"
proof (cases "0 \<le> y")
  case True
  then show ?thesis using assms by (simp add: pw_def)
next
  case False
  obtain u where "ModInverse x m = Some u" using ModInverse_coprime [OF assms(1), of x] assms(2) by auto
  then show ?thesis using False assms(1) by (simp add: pw_def Exp_def)
qed

lemma pw_range:
  assumes "0 < m" "coprime x m \<or> 0 \<le> y" shows "0 \<le> pw m x y \<and> pw m x y < m"
  using Exp_range [OF assms(1)] Exp_pw [OF assms(1)] Exp_pw_nonneg [OF assms(1)] assms(2) by blast

lemma pw_nonneg: "0 < m \<Longrightarrow> 0 \<le> y \<Longrightarrow> eqm m (pw m x y) (x ^ nat y)"
  by (simp add: pw_def)

lemma coprime_power: "coprime x m \<Longrightarrow> coprime (x ^ n) (m :: int)"
  by simp

lemma eqm_cancel_coprime:
  assumes "0 < m" "coprime u m" "eqm m (u * a) (u * b)" shows "eqm m a b"
proof -
  obtain v where "ModInverse u m = Some v" using ModInverse_coprime [OF assms(1), of u] assms(2) by auto
  then have "eqm m (u * v) 1" by (rule ModInverse_eqm [OF assms(1)])
  then show ?thesis using assms(3) by (rule eqm_cancel_unit)
qed

text \<open>Clearing denominators.\<close>

lemma pw_shift:
  assumes m: "0 < m" and x: "coprime x m" and j: "0 \<le> int j + y"
  shows "eqm m (x ^ j * pw m x y) (x ^ nat (int j + y))"
proof (cases "0 \<le> y")
  case True
  have "eqm m (x ^ j * pw m x y) (x ^ j * x ^ nat y)" by (intro eqm_mult eqm_refl pw_nonneg m True)
  then show ?thesis using True by (simp add: nat_add_distrib power_add)
next
  case False
  have "eqm m (x ^ nat (- y) * pw m x y) 1"
    using Exp_neg_Some [OF m _ Exp_pw [OF m x]] False by (simp add: eqm_mod_iff)
  then have "eqm m (x ^ nat (int j + y) * (x ^ nat (- y) * pw m x y)) (x ^ nat (int j + y) * 1)"
    by (intro eqm_mult eqm_refl)
  moreover have "x ^ nat (int j + y) * x ^ nat (- y) = x ^ j"
    using False j by (simp flip: power_add nat_add_distrib)
  ultimately show ?thesis by (simp add: mult.assoc [symmetric])
qed

lemma pw_add:
  assumes m: "0 < m" and x: "coprime x m"
  shows "eqm m (pw m x (a + b)) (pw m x a * pw m x b)"
proof (rule eqm_cancel_coprime [OF m])
  let ?j = "nat \<bar>a\<bar>" and ?k = "nat \<bar>b\<bar>"
  show "coprime (x ^ (?j + ?k)) m" using x by simp
  have "eqm m (x ^ (?j + ?k) * pw m x (a + b)) (x ^ nat (int (?j + ?k) + (a + b)))"
    by (rule pw_shift [OF m x]) simp
  also have "nat (int (?j + ?k) + (a + b)) = nat (int ?j + a) + nat (int ?k + b)" by simp
  also have "x ^ (nat (int ?j + a) + nat (int ?k + b)) = x ^ nat (int ?j + a) * x ^ nat (int ?k + b)"
    by (rule power_add)
  also have "eqm m \<dots> ((x ^ ?j * pw m x a) * (x ^ ?k * pw m x b))"
    by (intro eqm_mult eqm_sym [OF pw_shift [OF m x]]) simp_all
  also have "\<dots> = x ^ (?j + ?k) * (pw m x a * pw m x b)" by (simp add: power_add algebra_simps)
  finally show "eqm m (x ^ (?j + ?k) * pw m x (a + b)) (x ^ (?j + ?k) * (pw m x a * pw m x b))" .
qed

lemma pw_0: "0 < m \<Longrightarrow> eqm m (pw m x 0) 1"
  using pw_nonneg [of m 0 x] by simp

lemma pw_scale_nat:
  assumes m: "0 < m" and x: "coprime x m"
  shows "eqm m (pw m x (int n * a)) (pw m x a ^ n)"
proof (induction n)
  case 0
  then show ?case using pw_0 [OF m] by simp
next
  case (Suc n)
  have "eqm m (pw m x (a + int n * a)) (pw m x a * pw m x (int n * a))" by (rule pw_add [OF m x])
  also have "eqm m \<dots> (pw m x a * pw m x a ^ n)" by (intro eqm_mult eqm_refl Suc)
  finally show ?case by (simp add: algebra_simps)
qed

lemma pw_scale:
  "0 < m \<Longrightarrow> coprime x m \<Longrightarrow> 0 \<le> e \<Longrightarrow> eqm m (pw m x (e * a)) (pw m x a ^ nat e)"
  using pw_scale_nat [of m x "nat e" a] by simp

lemma pw_unit:
  assumes m: "0 < m" and x: "coprime x m" shows "coprime (pw m x a) m"
proof (rule unit_imp_coprime)
  have "eqm m (pw m x (a + - a)) (pw m x a * pw m x (- a))" by (rule pw_add [OF m x])
  then show "eqm m (pw m x a * pw m x (- a)) 1" using pw_0 [OF m, of x] by (simp add: eqm_mod_iff)
qed

text \<open>A congruent base gives a congruent power.\<close>

lemma pw_cong_nonneg: "0 < m \<Longrightarrow> 0 \<le> y \<Longrightarrow> eqm m x x' \<Longrightarrow> eqm m (pw m x y) (x' ^ nat y)"
  using pw_nonneg [of m y x] eqm_power [of m x x' "nat y"] eqm_trans by blast

end
