(* ===== verification/Curve.thy ===== *)
theory Curve
  imports NumberTheory
begin

text \<open>
  \<^verbatim>\<open>crypto/secp256k1/curve.go\<close>: the group operations of secp256k1 used by every protocol
  round.  Point addition and doubling are computed in Go, in Jacobian coordinates; scalar
  multiplication is delegated to the C library through \<^verbatim>\<open>smpc_secp256k1_ext_scalar_mul\<close> of
  \<^verbatim>\<open>ext.h\<close>, whose multiplication \<^verbatim>\<open>secp256k1_ecmult_const\<close> is the field \<open>ecmult_const\<close> of the
  curve record.

  A pair of \<^verbatim>\<open>*big.Int\<close> coordinates is \<open>(int \<times> int) option\<close>: the operations return both
  coordinates or \<^verbatim>\<open>nil, nil\<close>, and using a \<^verbatim>\<open>nil\<close> coordinate panics.
\<close>

section \<open>readBits\<close>

fun Bits :: "nat \<Rightarrow> nat list" where
  "Bits n = (if n = 0 then [] else (n mod 2 ^ 64) # Bits (n div 2 ^ 64))"

declare Bits.simps [simp del]

text \<open>The inner loop writes at most \<^verbatim>\<open>wordBytes\<close> bytes of one word, downwards from index \<open>i\<close>.\<close>

fun put_word :: "nat \<Rightarrow> nat \<Rightarrow> nat \<Rightarrow> byte list \<Rightarrow> nat \<times> byte list" where
  "put_word 0 i d buf = (i, buf)"
| "put_word (Suc k) i d buf =
     (if i = 0 then (i, buf) else put_word k (i - 1) (d div 256) (buf[i - 1 := byte_of d]))"

fun put_words :: "nat list \<Rightarrow> nat \<Rightarrow> byte list \<Rightarrow> byte list" where
  "put_words [] i buf = buf"
| "put_words (d # ds) i buf = (case put_word 8 i d buf of (i', buf') \<Rightarrow> put_words ds i' buf')"

definition readBits :: "int \<Rightarrow> byte list \<Rightarrow> byte list" where
  "readBits bigint buf = put_words (Bits (nat \<bar>bigint\<bar>)) (length buf) buf"

section \<open>The curve\<close>

record Curve =
  cP :: int
  cN :: int
  cB :: int
  cGx :: int
  cGy :: int
  BitSize :: nat
  ecmult_const :: "int \<times> int \<Rightarrow> int \<Rightarrow> int \<times> int"

type_synonym point = "(int \<times> int) option"

definition S256 :: "(int \<times> int \<Rightarrow> int \<Rightarrow> int \<times> int) \<Rightarrow> Curve" where
  "S256 mul = \<lparr>
     cP = 0xFFFFFFFFFFFFFFFFFFFFFFFFFFFFFFFFFFFFFFFFFFFFFFFFFFFFFFFEFFFFFC2F,
     cN = 0xFFFFFFFFFFFFFFFFFFFFFFFFFFFFFFFEBAAEDCE6AF48A03BBFD25E8CD0364141,
     cB = 7,
     cGx = 0x79BE667EF9DCBBAC55A06295CE870B07029BFCDB2DCE28D959F2815B16F81798,
     cGy = 0x483ADA7726A3C4655DA4FBFC0E1108A8FD17B448A68554199C47D08FFB10D4B8,
     BitSize = 256, ecmult_const = mul\<rparr>"

definition IsOnCurve :: "Curve \<Rightarrow> int \<Rightarrow> int \<Rightarrow> bool" where
  "IsOnCurve E x y =
     (let y2 = (y * y) mod cP E;
          x3 = x * x * x;
          x3 = (x3 + cB E) mod cP E
      in x3 = y2)"

definition affineFromJacobian :: "Curve \<Rightarrow> int \<times> int \<times> int \<Rightarrow> point" where
  "affineFromJacobian E J =
     (case J of (x, y, z) \<Rightarrow>
        case ModInverse z (cP E) of
          None \<Rightarrow> None
        | Some zinv \<Rightarrow>
            let zinvsq = zinv * zinv;
                xOut = (x * zinvsq) mod cP E;
                zinvsq = zinvsq * zinv;
                yOut = (y * zinvsq) mod cP E
            in Some (xOut, yOut))"

text \<open>\<open>addP v\<close> is the idiom \<^verbatim>\<open>if v.Sign() == -1 { v.Add(v, P) }\<close>.\<close>

definition addP :: "Curve \<Rightarrow> int \<Rightarrow> int" where
  "addP E v = (if v < 0 then v + cP E else v)"

definition addJacobian :: "Curve \<Rightarrow> int \<times> int \<times> int \<Rightarrow> int \<times> int \<times> int \<Rightarrow> int \<times> int \<times> int" where
  "addJacobian E J1 J2 =
     (case (J1, J2) of ((x1, y1, z1), (x2, y2, z2)) \<Rightarrow>
        let z1z1 = (z1 * z1) mod cP E;
            z2z2 = (z2 * z2) mod cP E;
            u1 = (x1 * z2z2) mod cP E;
            u2 = (x2 * z1z1) mod cP E;
            h = addP E (u2 - u1);
            i = h * 2;
            i = i * i;
            j = h * i;
            s1 = (y1 * z2 * z2z2) mod cP E;
            s2 = (y2 * z1 * z1z1) mod cP E;
            r = addP E (s2 - s1);
            r = r * 2;
            v = u1 * i;
            x3 = (r * r - j - v - v) mod cP E;
            v = v - x3;
            y3 = (r * v - s1 * j * 2) mod cP E;
            z3 = z1 + z2;
            z3 = addP E (z3 * z3 - z1z1);
            z3 = addP E (z3 - z2z2);
            z3 = (z3 * h) mod cP E
        in (x3, y3, z3))"

definition Add :: "Curve \<Rightarrow> point \<Rightarrow> point \<Rightarrow> point res" where
  "Add E p q =
     bindr (deref p) (\<lambda>(x1, y1). bindr (deref q) (\<lambda>(x2, y2).
       Ok (affineFromJacobian E (addJacobian E (x1, y1, 1) (x2, y2, 1)))))"

text \<open>
  The comparison \<^verbatim>\<open>x1.Cmp(x2) == 0 && y1.Cmp(y2) == 0\<close> of two points.  \<^verbatim>\<open>Cmp\<close> first compares the pointers, so two
  points that are \<^verbatim>\<open>nil\<close> are equal; comparing \<^verbatim>\<open>nil\<close> with a number panics.
\<close>

fun same_point :: "point \<Rightarrow> point \<Rightarrow> bool res" where
  "same_point (Some A) (Some B) = Ok (A = B)"
| "same_point None None = Ok True"
| "same_point _ _ = Panic ''nil pointer dereference''"

definition doubleJacobian :: "Curve \<Rightarrow> int \<times> int \<times> int \<Rightarrow> int \<times> int \<times> int" where
  "doubleJacobian E J =
     (case J of (x, y, z) \<Rightarrow>
        let a = x * x;
            b = y * y;
            c = b * b;
            d = x + b;
            d = (d * d - a - c) * 2;
            e = 3 * a;
            f = e * e;
            x3 = (f - 2 * d) mod cP E;
            y3 = (e * (d - x3) - 8 * c) mod cP E;
            z3 = (2 * (y * z)) mod cP E
        in (x3, y3, z3))"

definition Double :: "Curve \<Rightarrow> point \<Rightarrow> point res" where
  "Double E p = bindr (deref p) (\<lambda>(x1, y1).
     Ok (affineFromJacobian E (doubleJacobian E (x1, y1, 1))))"

section \<open>Scalar multiplication\<close>

definition pad32 :: "byte list \<Rightarrow> byte list" where
  "pad32 bs = replicate (32 - length bs) 0 @ bs"

text \<open>
  \<^verbatim>\<open>smpc_secp256k1_ext_scalar_mul\<close>: the 64 bytes of the point are overwritten by the product
  and 1 is returned, or the point is kept and 0 is returned when the scalar is zero or not below
  the group order.
\<close>

definition smpc_secp256k1_ext_scalar_mul :: "Curve \<Rightarrow> byte list \<Rightarrow> byte list \<Rightarrow> byte list \<times> int" where
  "smpc_secp256k1_ext_scalar_mul E pt scalar =
     (let feX = SetBytes (take 32 pt) mod cP E;
          feY = SetBytes (drop 32 pt) mod cP E;
          s = SetBytes scalar
      in if cN E \<le> s \<or> s = 0 then (pt, 0)
         else case ecmult_const E (feX, feY) s of
                (x, y) \<Rightarrow> (pad32 (Bytes (x mod cP E)) @ pad32 (Bytes (y mod cP E)), 1))"

definition ScalarMult :: "Curve \<Rightarrow> point \<Rightarrow> byte list \<Rightarrow> point res" where
  "ScalarMult E B scalar =
     (if 32 < length scalar then Panic ''can't handle scalars > 256 bits''
      else bindr (deref B) (\<lambda>(Bx, By).
        let padded = pad32 scalar;
            pt = readBits Bx (replicate 32 0) @ readBits By (replicate 32 0)
        in case smpc_secp256k1_ext_scalar_mul E pt padded of
             (pt', r) \<Rightarrow>
               let x = SetBytes (take 32 pt'); y = SetBytes (drop 32 pt')
               in Ok (if r \<noteq> 1 then None else Some (x, y))))"

definition ScalarBaseMult :: "Curve \<Rightarrow> byte list \<Rightarrow> point res" where
  "ScalarBaseMult E k = ScalarMult E (Some (cGx E, cGy E)) k"

section \<open>Serialisation\<close>

definition byteLen :: "Curve \<Rightarrow> nat" where
  "byteLen E = (BitSize E + 7) div 8"

definition Marshal :: "Curve \<Rightarrow> int \<Rightarrow> int \<Rightarrow> byte list" where
  "Marshal E x y = 4 # readBits x (replicate (byteLen E) 0) @ readBits y (replicate (byteLen E) 0)"

definition Unmarshal :: "Curve \<Rightarrow> byte list \<Rightarrow> point" where
  "Unmarshal E data =
     (if length data \<noteq> 1 + 2 * byteLen E then None
      else if hd data \<noteq> 4 then None
      else Some (SetBytes (take (byteLen E) (tl data)), SetBytes (drop (byteLen E) (tl data))))"

section \<open>Lemmas on readBits\<close>

lemma SetBytes_update:
  assumes "i < length buf" "buf ! i = 0"
  shows "SetBytes (buf[i := b]) = SetBytes buf + uint b * 256 ^ (length buf - Suc i)"
proof -
  have "buf[i := b] = take i buf @ b # drop (Suc i) buf" by (simp add: upd_conv_take_nth_drop assms(1))
  moreover have "buf = take i buf @ 0 # drop (Suc i) buf" using assms by (metis id_take_nth_drop)
  then have "SetBytes buf = SetBytes (take i buf @ 0 # drop (Suc i) buf)" by simp
  ultimately show ?thesis using assms(1)
    by (simp add: SetBytes_append SetBytes_Cons algebra_simps)
qed

text \<open>Writing the low \<open>min k i\<close> bytes of \<open>d\<close> below index \<open>i\<close> of a buffer that is zero there.\<close>

lemma put_word_spec:
  "i \<le> length buf \<Longrightarrow> (\<forall>j < i. buf ! j = 0) \<Longrightarrow> put_word k i d buf = (i', buf') \<Longrightarrow>
   i' = i - k \<and> length buf' = length buf \<and> (\<forall>j < i'. buf' ! j = 0) \<and>
   SetBytes buf' = SetBytes buf + int (d mod 256 ^ min k i) * 256 ^ (length buf - i)"
proof (induction k i d buf rule: put_word.induct)
  case (1 i d buf)
  then show ?case by simp
next
  case (2 k i d buf)
  show ?case
  proof (cases "i = 0")
    case True
    with 2 show ?thesis by simp
  next
    case False
    let ?b = "buf[i - 1 := byte_of d]"
    have IH: "i' = i - 1 - k \<and> length buf' = length ?b \<and> (\<forall>j < i'. buf' ! j = 0) \<and>
        SetBytes buf' = SetBytes ?b + int (d div 256 mod 256 ^ min k (i - 1)) * 256 ^ (length ?b - (i - 1))"
      using 2 False by (intro "2.IH") auto
    have "SetBytes ?b = SetBytes buf + int (d mod 256) * 256 ^ (length buf - i)"
      using SetBytes_update [of "i - 1" buf "byte_of d"] 2 False by simp
    moreover have "length ?b - (i - 1) = Suc (length buf - i)" using 2 False by simp
    moreover have "d mod 256 ^ Suc (min k (i - 1)) = d mod 256 + 256 * (d div 256 mod 256 ^ min k (i - 1))"
      by (simp add: mod_mult2_eq add.commute)
    moreover have "min (Suc k) i = Suc (min k (i - 1))" using False by simp
    ultimately show ?thesis using IH by (simp add: algebra_simps)
  qed
qed

fun words_val :: "nat list \<Rightarrow> nat" where
  "words_val [] = 0"
| "words_val (d # ds) = d + 256 ^ 8 * words_val ds"

lemma Bits_0 [simp]: "Bits 0 = []"
  by (simp add: Bits.simps)

lemma words_val_Bits: "words_val (Bits n) = n"
proof (induction n rule: Bits.induct)
  case (1 n)
  then show ?case by (cases "n = 0") (simp_all add: Bits.simps [of n])
qed

lemma Bits_less: "d \<in> set (Bits n) \<Longrightarrow> d < 256 ^ 8"
proof (induction n rule: Bits.induct)
  case (1 n)
  then show ?case by (cases "n = 0") (auto simp: Bits.simps [of n])
qed

lemma mod_split_min:
  fixes d w :: nat
  assumes "d < 256 ^ 8"
  shows "(d + 256 ^ 8 * w) mod 256 ^ i =
    d mod 256 ^ min 8 i + 256 ^ min 8 i * (w mod 256 ^ (i - 8))"
proof (cases "8 \<le> i")
  case True
  then have "(256::nat) ^ i = 256 ^ 8 * 256 ^ (i - 8)" by (metis le_add_diff_inverse power_add)
  then have "(d + 256 ^ 8 * w) mod 256 ^ i =
      256 ^ 8 * ((d + 256 ^ 8 * w) div 256 ^ 8 mod 256 ^ (i - 8)) + (d + 256 ^ 8 * w) mod 256 ^ 8"
    by (simp only: mod_mult2_eq)
  also have "(d + 256 ^ 8 * w) div 256 ^ 8 = w" using assms by simp
  also have "(d + 256 ^ 8 * w) mod 256 ^ 8 = d" using assms by simp
  finally show ?thesis using True assms by simp
next
  case False
  then have "(256::nat) ^ 8 = 256 ^ i * 256 ^ (8 - i)"
    by (metis le_add_diff_inverse linorder_not_le less_imp_le power_add)
  then have "(d + 256 ^ 8 * w) mod 256 ^ i = d mod 256 ^ i" by (simp only: mult.assoc mod_mult_self2)
  then show ?thesis using False by simp
qed

lemma put_words_spec:
  "i \<le> length buf \<Longrightarrow> (\<forall>j < i. buf ! j = 0) \<Longrightarrow> (\<forall>d \<in> set ds. d < 256 ^ 8) \<Longrightarrow>
   length (put_words ds i buf) = length buf \<and>
   SetBytes (put_words ds i buf) =
     SetBytes buf + int (words_val ds mod 256 ^ i) * 256 ^ (length buf - i)"
proof (induction ds i buf rule: put_words.induct)
  case (1 i buf)
  then show ?case by simp
next
  case (2 d ds i buf)
  obtain i' buf' where p: "put_word 8 i d buf = (i', buf')" by force
  have w: "i' = i - 8" "length buf' = length buf" "\<forall>j < i'. buf' ! j = 0"
    "SetBytes buf' = SetBytes buf + int (d mod 256 ^ min 8 i) * 256 ^ (length buf - i)"
    using put_word_spec [OF 2(2,3) p] by auto
  have IH: "length (put_words ds i' buf') = length buf' \<and>
      SetBytes (put_words ds i' buf') =
        SetBytes buf' + int (words_val ds mod 256 ^ i') * 256 ^ (length buf' - i')"
    using 2 w p by (intro "2.IH" [OF p [symmetric]]) auto
  have "length buf - i' = length buf - i + min 8 i" using w(1) 2(2) by simp
  then have len: "(256::int) ^ (length buf - i') = 256 ^ (length buf - i) * 256 ^ min 8 i"
    by (simp only: power_add)
  have "words_val (d # ds) mod 256 ^ i =
      d mod 256 ^ min 8 i + 256 ^ min 8 i * (words_val ds mod 256 ^ i')"
    using mod_split_min [of d "words_val ds" i] 2(4) by (simp add: w(1))
  then have "int (words_val (d # ds) mod 256 ^ i) * 256 ^ (length buf - i) =
      int (d mod 256 ^ min 8 i) * 256 ^ (length buf - i) +
      int (words_val ds mod 256 ^ i') * 256 ^ (length buf - i')"
    unfolding len by (simp only: of_nat_add of_nat_mult of_nat_power of_nat_numeral) (simp only: algebra_simps)
  with IH w p show ?case by (simp del: words_val.simps)
qed

lemma SetBytes_replicate_0 [simp]: "SetBytes (replicate k 0) = 0"
  by (induction k) (auto simp: SetBytes_Cons)

lemma length_readBits [simp]: "length (readBits x (replicate k 0)) = k"
  using put_words_spec [of k "replicate k 0" "Bits (nat \<bar>x\<bar>)"] Bits_less
  by (simp add: readBits_def)

lemma SetBytes_readBits: "SetBytes (readBits x (replicate k 0)) = \<bar>x\<bar> mod 256 ^ k"
  using put_words_spec [of k "replicate k 0" "Bits (nat \<bar>x\<bar>)"] Bits_less
  by (simp add: readBits_def words_val_Bits zmod_int)

lemma SetBytes_pad32 [simp]: "SetBytes (pad32 bs) = SetBytes bs"
  by (simp add: pad32_def SetBytes_append)

lemma length_pad32: "length bs \<le> 32 \<Longrightarrow> length (pad32 bs) = 32"
  by (simp add: pad32_def)

text \<open>Evaluation of \<^verbatim>\<open>readBits\<close> on binary numbers.\<close>

function bits_int :: "int \<Rightarrow> int list" where
  "bits_int n = (if n \<le> 0 then [] else (n mod 2 ^ 64) # bits_int (n div 2 ^ 64))"
  by pat_completeness auto
termination
  by (relation "measure nat") auto

declare bits_int.simps [simp del]

lemma bits_int_eq: "0 \<le> n \<Longrightarrow> bits_int n = map int (Bits (nat n))"
proof (induction n rule: bits_int.induct)
  case (1 n)
  show ?case
  proof (cases "n \<le> 0")
    case True
    with 1 show ?thesis by (simp add: bits_int.simps)
  next
    case False
    have "bits_int (n div 2 ^ 64) = map int (Bits (nat (n div 2 ^ 64)))"
      using 1 False by simp
    moreover have "nat n div 2 ^ 64 = nat (n div 2 ^ 64)" "int (nat n mod 2 ^ 64) = n mod 2 ^ 64" "nat n \<noteq> 0"
      using False by (simp_all add: nat_div_distrib zmod_int)
    ultimately show ?thesis using False by (subst bits_int.simps, subst Bits.simps) simp
  qed
qed

fun put_word_int :: "nat \<Rightarrow> nat \<Rightarrow> int \<Rightarrow> byte list \<Rightarrow> nat \<times> byte list" where
  "put_word_int 0 i d buf = (i, buf)"
| "put_word_int (Suc k) i d buf =
     (if i = 0 then (i, buf) else put_word_int k (i - 1) (d div 256) (buf[i - 1 := word_of_int d]))"

lemma put_word_int_eq: "put_word_int k i (int d) buf = put_word k i d buf"
proof (induction k i d buf rule: put_word.induct)
  case (2 k i d buf)
  have "int d div 256 = int (d div 256)" by (simp add: zdiv_int)
  then show ?case using 2 by (simp add: byte_of_def)
qed simp

fun put_words_int :: "int list \<Rightarrow> nat \<Rightarrow> byte list \<Rightarrow> byte list" where
  "put_words_int [] i buf = buf"
| "put_words_int (d # ds) i buf = (case put_word_int 8 i d buf of (i', buf') \<Rightarrow> put_words_int ds i' buf')"

lemma put_words_int_eq: "put_words_int (map int ds) i buf = put_words ds i buf"
  by (induction ds i buf rule: put_words.induct) (simp_all add: put_word_int_eq split: prod.splits)

lemma readBits_code [code]: "readBits x buf = put_words_int (bits_int \<bar>x\<bar>) (length buf) buf"
  by (simp add: readBits_def bits_int_eq put_words_int_eq)

section \<open>The affine group law\<close>

text \<open>The chord and tangent formulas, with the inverse of the denominator as an argument.\<close>

definition chord :: "int \<Rightarrow> int \<times> int \<Rightarrow> int \<times> int \<Rightarrow> int \<Rightarrow> int \<times> int" where
  "chord p A B w =
     (let l = (snd B - snd A) * w;
          x3 = (l * l - fst A - fst B) mod p
      in (x3, (l * (fst A - x3) - snd A) mod p))"

definition tangent :: "int \<Rightarrow> int \<times> int \<Rightarrow> int \<Rightarrow> int \<times> int" where
  "tangent p A w =
     (let l = 3 * (fst A * fst A) * w;
          x3 = (l * l - 2 * fst A) mod p
      in (x3, (l * (fst A - x3) - snd A) mod p))"

definition affine_add :: "int \<Rightarrow> int \<times> int \<Rightarrow> int \<times> int \<Rightarrow> point" where
  "affine_add p A B = map_option (chord p A B) (ModInverse (fst B - fst A) p)"

definition affine_double :: "int \<Rightarrow> int \<times> int \<Rightarrow> point" where
  "affine_double p A = map_option (tangent p A) (ModInverse (2 * snd A) p)"

lemma eqm_addP: "eqm (cP E) (addP E v) v"
  by (simp add: addP_def eqm_def)

lemma affineFromJacobian_eq:
  assumes p: "0 < cP E" and z: "eqm (cP E) (z * zi) 1"
    and x: "eqm (cP E) x (X * (z * z))" and y: "eqm (cP E) y (Y * (z * z * z))"
  shows "affineFromJacobian E (x, y, z) = Some (X mod cP E, Y mod cP E)"
proof -
  have "gcd z (cP E) = 1" using unit_imp_coprime [OF z] by simp
  then obtain u where u: "ModInverse z (cP E) = Some u"
    using ModInverse_coprime [OF p, of z] by auto
  have zu: "eqm (cP E) (z * u) 1" by (rule ModInverse_eqm [OF p u])
  have "eqm (cP E) (x * (u * u)) ((X * (z * z)) * (u * u))" by (intro eqm_intros x)
  also have "(X * (z * z)) * (u * u) = X * ((z * u) * (z * u))" by (simp add: algebra_simps)
  also have "eqm (cP E) \<dots> (X * (1 * 1))" by (intro eqm_intros zu)
  finally have x': "eqm (cP E) (x * (u * u)) X" by simp
  have "eqm (cP E) (y * (u * u * u)) ((Y * (z * z * z)) * (u * u * u))" by (intro eqm_intros y)
  also have "(Y * (z * z * z)) * (u * u * u) = Y * ((z * u) * (z * u) * (z * u))"
    by (simp add: algebra_simps)
  also have "eqm (cP E) \<dots> (Y * (1 * 1 * 1))" by (intro eqm_intros zu)
  finally have y': "eqm (cP E) (y * (u * u * u)) Y" by simp
  show ?thesis using u x' y' by (simp add: affineFromJacobian_def Let_def eqm_mod_iff)
qed

lemma ModInverse_cong_None:
  assumes "0 < n" "eqm n a b" shows "ModInverse a n = None \<longleftrightarrow> ModInverse b n = None"
proof -
  have "gcd a n = gcd b n" using assms(2) by (metis eqm_mod_iff gcd.commute gcd_red_int)
  then show ?thesis using ModInverse_None_iff [OF assms(1)] by simp
qed

text \<open>What \<^verbatim>\<open>addJacobian\<close> computes when both \<open>z\<close> coordinates are 1.\<close>

lemma addJacobian_1:
  assumes p: "1 < cP E" and "addJacobian E (x1, y1, 1) (x2, y2, 1) = (x3, y3, z3)"
  shows "eqm (cP E) z3 (2 * (x2 - x1))"
    and "eqm (cP E) x3 (4 * (y2 - y1) ^ 2 - 4 * (x2 - x1) ^ 3 - 8 * x1 * (x2 - x1) ^ 2)"
    and "eqm (cP E) y3 (2 * (y2 - y1) * (4 * x1 * (x2 - x1) ^ 2 - x3) - 8 * y1 * (x2 - x1) ^ 3)"
proof -
  define h where "h = addP E (x2 mod cP E - x1 mod cP E)"
  define r where "r = addP E (y2 mod cP E - y1 mod cP E)"
  have h: "eqm (cP E) h (x2 - x1)"
    unfolding h_def by (rule eqm_trans [OF eqm_addP]) (simp add: eqm_diff)
  have r: "eqm (cP E) r (y2 - y1)"
    unfolding r_def by (rule eqm_trans [OF eqm_addP]) (simp add: eqm_diff)
  have one: "(1::int) mod cP E = 1" using p by simp
  note eq = assms(2) [unfolded addJacobian_def Let_def prod.case mult_1_right one,
    folded h_def r_def, unfolded prod.inject]
  have res: "x3 = (r * 2 * (r * 2) - h * (h * 2 * (h * 2)) - (x1 mod cP E) * (h * 2 * (h * 2)) -
        (x1 mod cP E) * (h * 2 * (h * 2))) mod cP E"
    "y3 = (r * 2 * ((x1 mod cP E) * (h * 2 * (h * 2)) - x3) -
        (y1 mod cP E) * (h * (h * 2 * (h * 2))) * 2) mod cP E"
    "z3 = (addP E (addP E ((1 + 1) * (1 + 1) - 1) - 1) * h) mod cP E"
    using eq by (elim conjE, simp only:)+
  have three: "addP E (addP E ((1 + 1) * (1 + 1) - 1) - 1) = 2" by (simp add: addP_def)
  show "eqm (cP E) z3 (2 * (x2 - x1))"
    unfolding res(3) three eqm_mod_left by (intro eqm_intros h)
  have "eqm (cP E) x3 ((y2 - y1) * 2 * ((y2 - y1) * 2) - (x2 - x1) * ((x2 - x1) * 2 * ((x2 - x1) * 2)) -
      x1 * ((x2 - x1) * 2 * ((x2 - x1) * 2)) - x1 * ((x2 - x1) * 2 * ((x2 - x1) * 2)))"
    unfolding res(1) eqm_mod_left by (intro eqm_intros h r eqm_mod_self)
  then show "eqm (cP E) x3 (4 * (y2 - y1) ^ 2 - 4 * (x2 - x1) ^ 3 - 8 * x1 * (x2 - x1) ^ 2)"
    by (simp add: power2_eq_square power3_eq_cube algebra_simps)
  have "eqm (cP E) y3 ((y2 - y1) * 2 * (x1 * ((x2 - x1) * 2 * ((x2 - x1) * 2)) - x3) -
      y1 * ((x2 - x1) * ((x2 - x1) * 2 * ((x2 - x1) * 2))) * 2)"
    unfolding res(2) eqm_mod_left by (intro eqm_intros h r eqm_mod_self)
  then show "eqm (cP E) y3 (2 * (y2 - y1) * (4 * x1 * (x2 - x1) ^ 2 - x3) - 8 * y1 * (x2 - x1) ^ 3)"
    by (simp add: power2_eq_square power3_eq_cube algebra_simps)
qed

text \<open>The doubled difference is a unit exactly when the difference is, \<open>P\<close> being odd.\<close>

lemma unit_double:
  assumes p: "1 < p" "odd p" shows "ModInverse (2 * a) p = None \<longleftrightarrow> ModInverse a p = None"
proof -
  have "coprime 2 p" using p(2) by simp
  then have "gcd (2 * a) p = gcd a p" by (simp add: gcd_mult_left_left_cancel coprime_commute)
  then show ?thesis using p ModInverse_None_iff by simp
qed

lemma Add_affine:
  assumes p: "1 < cP E" "odd (cP E)"
  shows "Add E (Some A) (Some B) = Ok (affine_add (cP E) A B)"
proof -
  obtain x1 y1 x2 y2 where AB: "A = (x1, y1)" "B = (x2, y2)" by (metis surj_pair)
  obtain x3 y3 z3 where J: "addJacobian E (x1, y1, 1) (x2, y2, 1) = (x3, y3, z3)"
    by (metis prod_cases3)
  note f = addJacobian_1 [OF p(1) J]
  let ?h = "x2 - x1" and ?d = "y2 - y1"
  have p0: "0 < cP E" using p(1) by simp
  have z3: "ModInverse z3 (cP E) = None \<longleftrightarrow> ModInverse ?h (cP E) = None"
    unfolding ModInverse_cong_None [OF p0 f(1)] by (rule unit_double [OF p])
  show ?thesis
  proof (cases "ModInverse ?h (cP E)")
    case None
    then have "ModInverse z3 (cP E) = None" using z3 by simp
    with None show ?thesis
      by (simp add: Add_def AB J affineFromJacobian_def affine_add_def)
  next
    case (Some w)
    have hw: "eqm (cP E) (?h * w) 1" using p(1) by (intro ModInverse_eqm Some) simp
    obtain v where v: "ModInverse z3 (cP E) = Some v"
      using z3 Some by fastforce
    have zv: "eqm (cP E) (z3 * v) 1" using p(1) by (intro ModInverse_eqm v) simp
    let ?l = "?d * w"
    let ?X = "(?l * ?l - x1 - x2) mod cP E"
    have lh: "eqm (cP E) (?l * ?h) ?d"
      using eqm_mult [OF eqm_refl [of _ ?d] hw] by (simp add: algebra_simps)
    have zz: "eqm (cP E) (z3 * z3) (4 * ?h ^ 2)"
      using eqm_mult [OF f(1) f(1)] by (simp add: power2_eq_square algebra_simps)
    have zzz: "eqm (cP E) (z3 * z3 * z3) (8 * ?h ^ 3)"
      using eqm_mult [OF eqm_mult [OF f(1) f(1)] f(1)]
      by (simp add: power3_eq_cube algebra_simps)
    have "eqm (cP E) (?X * (z3 * z3)) ((?l * ?l - x1 - x2) * (4 * ?h ^ 2))"
      by (intro eqm_mult zz) simp
    also have "(?l * ?l - x1 - x2) * (4 * ?h ^ 2) =
        4 * ((?l * ?h) * (?l * ?h)) - 4 * (x1 + x2) * ?h ^ 2"
      by (simp add: power2_eq_square algebra_simps)
    also have "eqm (cP E) \<dots> (4 * (?d * ?d) - 4 * (x1 + x2) * ?h ^ 2)"
      by (intro eqm_intros lh)
    also have "4 * (?d * ?d) - 4 * (x1 + x2) * ?h ^ 2 = 4 * ?d ^ 2 - 4 * ?h ^ 3 - 8 * x1 * ?h ^ 2"
      by (simp add: power2_eq_square power3_eq_cube algebra_simps)
    finally have X: "eqm (cP E) x3 (?X * (z3 * z3))" by (meson eqm_sym eqm_trans f(2))
    have "eqm (cP E) ((?l * (x1 - ?X) - y1) * (z3 * z3 * z3)) ((?l * (x1 - ?X) - y1) * (8 * ?h ^ 3))"
      by (intro eqm_mult zzz eqm_refl)
    also have "(?l * (x1 - ?X) - y1) * (8 * ?h ^ 3) =
        2 * (?l * ?h) * (4 * x1 * ?h ^ 2 - ?X * (4 * ?h ^ 2)) - 8 * y1 * ?h ^ 3"
      by (simp add: power2_eq_square power3_eq_cube algebra_simps)
    also have "eqm (cP E) \<dots> (2 * ?d * (4 * x1 * ?h ^ 2 - x3) - 8 * y1 * ?h ^ 3)"
    proof (intro eqm_intros lh)
      have "eqm (cP E) (?X * (4 * ?h ^ 2)) (?X * (z3 * z3))" by (intro eqm_intros eqm_sym [OF zz])
      then show "eqm (cP E) (?X * (4 * ?h ^ 2)) x3" by (meson eqm_sym eqm_trans X)
    qed
    finally have Y: "eqm (cP E) y3 ((?l * (x1 - ?X) - y1) * (z3 * z3 * z3))"
      by (meson eqm_sym eqm_trans f(3))
    have "affineFromJacobian E (x3, y3, z3) = Some (?X mod cP E, (?l * (x1 - ?X) - y1) mod cP E)"
      using p(1) by (intro affineFromJacobian_eq [OF _ zv X Y]) simp
    then show ?thesis using Some by (simp add: Add_def AB J affine_add_def chord_def Let_def)
  qed
qed

lemma doubleJacobian_1:
  assumes "doubleJacobian E (x, y, 1) = (x3, y3, z3)"
  shows "eqm (cP E) z3 (2 * y)"
    and "eqm (cP E) x3 (9 * x ^ 4 - 8 * x * y ^ 2)"
    and "eqm (cP E) y3 (3 * x ^ 2 * (4 * x * y ^ 2 - x3) - 8 * y ^ 4)"
proof -
  note eq = assms [unfolded doubleJacobian_def Let_def prod.case mult_1_right, unfolded prod.inject]
  have d: "((x + y * y) * (x + y * y) - x * x - y * y * (y * y)) * 2 = 4 * x * y ^ 2"
    by (simp add: power2_eq_square algebra_simps)
  have res: "x3 = (3 * (x * x) * (3 * (x * x)) - 2 * (4 * x * y ^ 2)) mod cP E"
    "y3 = (3 * (x * x) * (4 * x * y ^ 2 - x3) - 8 * (y * y * (y * y))) mod cP E"
    "z3 = (2 * y) mod cP E"
    using eq by (elim conjE, simp only: d)+
  show "eqm (cP E) z3 (2 * y)" unfolding res(3) by simp
  show "eqm (cP E) x3 (9 * x ^ 4 - 8 * x * y ^ 2)"
    unfolding res(1) eqm_mod_left by (simp add: eval_nat_numeral algebra_simps)
  show "eqm (cP E) y3 (3 * x ^ 2 * (4 * x * y ^ 2 - x3) - 8 * y ^ 4)"
    unfolding res(2) eqm_mod_left by (simp add: eval_nat_numeral algebra_simps)
qed

lemma Double_affine:
  assumes p: "1 < cP E"
  shows "Double E (Some A) = Ok (affine_double (cP E) A)"
proof -
  obtain x y where A: "A = (x, y)" by (metis surj_pair)
  obtain x3 y3 z3 where J: "doubleJacobian E (x, y, 1) = (x3, y3, z3)" by (metis prod_cases3)
  note f = doubleJacobian_1 [OF J]
  have p0: "0 < cP E" using p by simp
  note z3 = ModInverse_cong_None [OF p0 f(1)]
  show ?thesis
  proof (cases "ModInverse (2 * y) (cP E)")
    case None
    with z3 show ?thesis by (simp add: Double_def A J affineFromJacobian_def affine_double_def)
  next
    case (Some w)
    then obtain v where v: "ModInverse z3 (cP E) = Some v" using z3 by fastforce
    have zv: "eqm (cP E) (z3 * v) 1" by (intro ModInverse_eqm v p0)
    have hw: "eqm (cP E) ((2 * y) * w) 1" by (intro ModInverse_eqm Some p0)
    let ?l = "3 * (x * x) * w"
    let ?X = "(?l * ?l - 2 * x) mod cP E"
    have lh: "eqm (cP E) (?l * (2 * y)) (3 * x ^ 2)"
      using eqm_mult [OF eqm_refl [of _ "3 * (x * x)"] hw] by (simp add: power2_eq_square algebra_simps)
    have zz: "eqm (cP E) (z3 * z3) ((2 * y) * (2 * y))" by (intro eqm_mult f(1))
    have "eqm (cP E) (?X * (z3 * z3)) ((?l * ?l - 2 * x) * ((2 * y) * (2 * y)))"
      by (intro eqm_mult zz) simp
    also have "(?l * ?l - 2 * x) * ((2 * y) * (2 * y)) = (?l * (2 * y)) * (?l * (2 * y)) - 8 * x * y ^ 2"
      by (simp add: power2_eq_square algebra_simps)
    also have "eqm (cP E) \<dots> ((3 * x ^ 2) * (3 * x ^ 2) - 8 * x * y ^ 2)" by (intro eqm_intros lh)
    also have "(3 * x ^ 2) * (3 * x ^ 2) - 8 * x * y ^ 2 = 9 * x ^ 4 - 8 * x * y ^ 2"
      by (simp add: eval_nat_numeral algebra_simps)
    finally have X: "eqm (cP E) x3 (?X * (z3 * z3))" by (meson eqm_sym eqm_trans f(2))
    have "eqm (cP E) ((?l * (x - ?X) - y) * (z3 * z3 * z3))
        ((?l * (x - ?X) - y) * ((2 * y) * (2 * y) * (2 * y)))"
      by (intro eqm_mult eqm_refl f(1))
    also have "(?l * (x - ?X) - y) * ((2 * y) * (2 * y) * (2 * y)) =
        (?l * (2 * y)) * (4 * x * y ^ 2 - ?X * ((2 * y) * (2 * y))) - 8 * y ^ 4"
      by (simp add: eval_nat_numeral algebra_simps)
    also have "eqm (cP E) \<dots> (3 * x ^ 2 * (4 * x * y ^ 2 - x3) - 8 * y ^ 4)"
    proof (intro eqm_diff eqm_mult [OF lh] eqm_refl)
      have "eqm (cP E) (?X * ((2 * y) * (2 * y))) (?X * (z3 * z3))"
        by (intro eqm_mult [OF eqm_refl] eqm_sym [OF zz])
      then show "eqm (cP E) (?X * ((2 * y) * (2 * y))) x3" by (meson eqm_sym eqm_trans X)
    qed
    finally have Y: "eqm (cP E) y3 ((?l * (x - ?X) - y) * (z3 * z3 * z3))"
      by (meson eqm_sym eqm_trans f(3))
    have "affineFromJacobian E (x3, y3, z3) = Some (?X mod cP E, (?l * (x - ?X) - y) mod cP E)"
      by (intro affineFromJacobian_eq [OF p0 zv X Y])
    then show ?thesis using Some by (simp add: Double_def A J affine_double_def tangent_def Let_def)
  qed
qed

section \<open>The operations stay on the curve\<close>

lemma IsOnCurve_eqm: "IsOnCurve E x y \<longleftrightarrow> eqm (cP E) (y * y) (x * x * x + cB E)"
  by (auto simp: IsOnCurve_def Let_def eqm_mod_iff)

text \<open>
  The line \<open>l * X + c\<close> meets the cubic in points whose abscissas have sum \<open>l ^ 2\<close>: if the
  remainder \<open>al * X + be\<close> of the cubic modulo the monic polynomial with these roots vanishes,
  the third point is on the curve.
\<close>

lemma third_point:
  assumes "eqm p (- 2 * l * c - (x1 * x2 + x1 * x3 + x2 * x3)) 0"
    and "eqm p (b - c * c + x1 * x2 * x3) 0" and "eqm p (x1 + x2 + x3) (l * l)"
  shows "eqm p ((l * x3 + c) * (l * x3 + c)) (x3 * x3 * x3 + b)"
proof -
  let ?al = "- 2 * l * c - (x1 * x2 + x1 * x3 + x2 * x3)" and ?be = "b - c * c + x1 * x2 * x3"
  have "eqm p ((x1 + x2 + x3 - l * l) * (x3 * x3) + (?al * x3 + ?be)) (0 * (x3 * x3) + (0 * x3 + 0))"
  proof (intro eqm_add eqm_mult assms(1,2) eqm_refl)
    show "eqm p (x1 + x2 + x3 - l * l) 0" using assms(3) by (simp add: eqm_def)
  qed
  moreover have "(x1 + x2 + x3 - l * l) * (x3 * x3) + (?al * x3 + ?be) =
      (x3 * x3 * x3 + b) - (l * x3 + c) * (l * x3 + c)"
    by (simp add: algebra_simps)
  ultimately have "eqm p ((x3 * x3 * x3 + b) - (l * x3 + c) * (l * x3 + c)) (0 * (x3 * x3) + (0 * x3 + 0))"
    by (simp only:)
  then show ?thesis by (simp add: eqm_def dvd_diff_commute)
qed

lemma chord_on_curve:
  assumes A: "IsOnCurve E x1 y1" and B: "IsOnCurve E x2 y2"
    and w: "eqm (cP E) ((x2 - x1) * w) 1" and C: "chord (cP E) (x1, y1) (x2, y2) w = (x3, y3)"
  shows "IsOnCurve E x3 y3"
proof -
  let ?p = "cP E"
  define l where "l = (y2 - y1) * w"
  define c where "c = y1 - l * x1"
  have C': "x3 = (l * l - x1 - x2) mod ?p" "y3 = (l * (x1 - x3) - y1) mod ?p"
    using C by (auto simp: chord_def Let_def l_def)
  have x3: "eqm ?p (x1 + x2 + x3) (l * l)"
    using eqm_add [OF eqm_refl [of ?p "x1 + x2"] eqm_mod_self [of ?p "l * l - x1 - x2"]]
    by (simp add: C'(1))
  have lh: "eqm ?p (l * (x2 - x1)) (y2 - y1)"
    using eqm_mult [OF eqm_refl [of ?p "y2 - y1"] w] by (simp add: l_def algebra_simps)
  then have y2: "eqm ?p (l * x2 + c) y2"
    using eqm_add [OF lh eqm_refl [of ?p y1]] by (simp add: c_def algebra_simps)
  let ?al = "- 2 * l * c - (x1 * x2 + x1 * x3 + x2 * x3)" and ?be = "cB E - c * c + x1 * x2 * x3"
  have f: "eqm ?p (?al * X + ?be) 0"
    if X: "X = x1 \<or> X = x2" and Y: "eqm ?p (l * X + c) Y" "eqm ?p (Y * Y) (X * X * X + cB E)" for X Y
  proof -
    have "eqm ?p ((l * X + c) * (l * X + c)) (X * X * X + cB E)"
      using eqm_mult [OF Y(1) Y(1)] Y(2) by (rule eqm_trans)
    then have "eqm ?p ((X * X * X + cB E) - (l * X + c) * (l * X + c) + (l * l - (x1 + x2 + x3)) * (X * X))
        (0 + 0 * (X * X))"
      using x3 by (intro eqm_add eqm_mult eqm_refl) (simp_all add: eqm_def dvd_diff_commute)
    moreover have "(X * X * X + cB E) - (l * X + c) * (l * X + c) + (l * l - (x1 + x2 + x3)) * (X * X) =
        (X - x1) * (X - x2) * (X - x3) + (?al * X + ?be)"
      by (simp add: algebra_simps)
    moreover have "(X - x1) * (X - x2) * (X - x3) = 0" using X by auto
    ultimately show ?thesis by (simp only:) simp
  qed
  have f1: "eqm ?p (?al * x1 + ?be) 0"
    using A by (intro f [where Y = y1]) (auto simp: c_def IsOnCurve_eqm)
  have f2: "eqm ?p (?al * x2 + ?be) 0"
    using B y2 by (intro f [where Y = y2]) (auto simp: IsOnCurve_eqm)
  have "eqm ?p ((x2 - x1) * ?al) ((x2 - x1) * 0)"
    using eqm_diff [OF f2 f1] by (simp add: algebra_simps)
  then have al: "eqm ?p ?al 0" by (rule eqm_cancel_unit [OF w])
  have be: "eqm ?p ?be 0" using eqm_diff [OF f1 eqm_mult [OF al eqm_refl [of ?p x1]]] by simp
  have "eqm ?p ((l * x3 + c) * (l * x3 + c)) (x3 * x3 * x3 + cB E)"
    by (rule third_point [OF al be x3])
  moreover have "eqm ?p y3 (- (l * x3 + c))" by (simp add: C'(2) c_def algebra_simps)
  from eqm_mult [OF this this] have "eqm ?p (y3 * y3) ((l * x3 + c) * (l * x3 + c))"
    by (simp only: minus_mult_minus)
  ultimately show ?thesis unfolding IsOnCurve_eqm by (metis eqm_trans)
qed

lemma tangent_on_curve:
  assumes A: "IsOnCurve E x1 y1" and w: "eqm (cP E) ((2 * y1) * w) 1"
    and C: "tangent (cP E) (x1, y1) w = (x3, y3)"
  shows "IsOnCurve E x3 y3"
proof -
  let ?p = "cP E"
  define l where "l = 3 * (x1 * x1) * w"
  define c where "c = y1 - l * x1"
  have C': "x3 = (l * l - 2 * x1) mod ?p" "y3 = (l * (x1 - x3) - y1) mod ?p"
    using C by (auto simp: tangent_def Let_def l_def)
  have x3: "eqm ?p (x1 + x1 + x3) (l * l)"
    using eqm_add [OF eqm_refl [of ?p "2 * x1"] eqm_mod_self [of ?p "l * l - 2 * x1"]]
    by (simp add: C'(1))
  have lh: "eqm ?p (2 * l * y1) (3 * (x1 * x1))"
    using eqm_mult [OF eqm_refl [of ?p "3 * (x1 * x1)"] w] by (simp add: l_def algebra_simps)
  let ?al = "- 2 * l * c - (x1 * x1 + x1 * x3 + x1 * x3)" and ?be = "cB E - c * c + x1 * x1 * x3"
  have "eqm ?p (3 * (x1 * x1) - 2 * l * y1 + (l * l - (x1 + x1 + x3)) * (2 * x1)) (0 + 0 * (2 * x1))"
    using lh x3 by (intro eqm_add eqm_mult eqm_refl) (simp_all add: eqm_def dvd_diff_commute)
  moreover have "3 * (x1 * x1) - 2 * l * y1 + (l * l - (x1 + x1 + x3)) * (2 * x1) = ?al"
    by (simp add: c_def algebra_simps)
  ultimately have al: "eqm ?p ?al 0" by (simp only:) simp
  have "eqm ?p ((x1 * x1 * x1 + cB E) - y1 * y1 + (l * l - (x1 + x1 + x3)) * (x1 * x1))
      (0 + 0 * (x1 * x1))"
    using A x3 by (intro eqm_add eqm_mult eqm_refl) (simp_all add: IsOnCurve_eqm eqm_def dvd_diff_commute)
  moreover have "(x1 * x1 * x1 + cB E) - y1 * y1 + (l * l - (x1 + x1 + x3)) * (x1 * x1) = ?al * x1 + ?be"
    by (simp add: c_def algebra_simps)
  ultimately have "eqm ?p (?al * x1 + ?be) 0" by (simp only:) simp
  then have be: "eqm ?p ?be 0" using eqm_diff [OF _ eqm_mult [OF al eqm_refl [of ?p x1]]] by fastforce
  have "eqm ?p ((l * x3 + c) * (l * x3 + c)) (x3 * x3 * x3 + cB E)"
    by (rule third_point [OF al be x3])
  moreover have "eqm ?p y3 (- (l * x3 + c))" by (simp add: C'(2) c_def algebra_simps)
  from eqm_mult [OF this this] have "eqm ?p (y3 * y3) ((l * x3 + c) * (l * x3 + c))"
    by (simp only: minus_mult_minus)
  ultimately show ?thesis unfolding IsOnCurve_eqm by (metis eqm_trans)
qed

section \<open>Scalar multiplication as the protocols use it\<close>

text \<open>
  \<open>ec_laws\<close> states what the protocols rely on of the C library and of the curve: the base point
  has prime order \<open>N\<close>, \<open>ecmult_const\<close> multiplies its multiples as the affine group law does, and the
  opposite of a multiple has the same abscissa.
\<close>

definition mulG :: "Curve \<Rightarrow> int \<Rightarrow> int \<times> int" where
  "mulG E k = ecmult_const E (cGx E, cGy E) k"

definition in_field :: "Curve \<Rightarrow> int \<times> int \<Rightarrow> bool" where
  "in_field E A \<longleftrightarrow> 0 \<le> fst A \<and> fst A < cP E \<and> 0 \<le> snd A \<and> snd A < cP E"

definition ec_laws :: "Curve \<Rightarrow> bool" where
  "ec_laws E \<longleftrightarrow>
     1 < cP E \<and> odd (cP E) \<and> cP E \<le> 2 ^ 256 \<and> is_prime (cN E) \<and> cN E \<le> 2 ^ 256 \<and>
     in_field E (cGx E, cGy E) \<and> mulG E 1 = (cGx E, cGy E) \<and>
     (\<forall>a \<in> {0<..<cN E}. in_field E (mulG E a) \<and> IsOnCurve E (fst (mulG E a)) (snd (mulG E a)) \<and>
       mulG E (cN E - a) = (fst (mulG E a), cP E - snd (mulG E a)) \<and>
       (\<forall>k \<in> {0<..<cN E}.
          ecmult_const E (mulG E a) k = mulG E (a * k mod cN E) \<and>
          (mulG E a = mulG E k \<longrightarrow> a = k) \<and>
          (a \<noteq> k \<and> a + k \<noteq> cN E \<longrightarrow>
             affine_add (cP E) (mulG E a) (mulG E k) = Some (mulG E ((a + k) mod cN E)))))"

lemma ec_lawsD:
  assumes "ec_laws E"
  shows "1 < cP E" "odd (cP E)" "cP E \<le> 2 ^ 256" "is_prime (cN E)" "cN E \<le> 2 ^ 256"
    "in_field E (cGx E, cGy E)" "mulG E 1 = (cGx E, cGy E)"
    "0 < a \<Longrightarrow> a < cN E \<Longrightarrow> in_field E (mulG E a)"
    "0 < a \<Longrightarrow> a < cN E \<Longrightarrow> 0 < k \<Longrightarrow> k < cN E \<Longrightarrow>
       ecmult_const E (mulG E a) k = mulG E (a * k mod cN E)"
    "0 < a \<Longrightarrow> a < cN E \<Longrightarrow> 0 < k \<Longrightarrow> k < cN E \<Longrightarrow> mulG E a = mulG E k \<Longrightarrow> a = k"
    "0 < a \<Longrightarrow> a < cN E \<Longrightarrow> 0 < k \<Longrightarrow> k < cN E \<Longrightarrow> a \<noteq> k \<Longrightarrow> a + k \<noteq> cN E \<Longrightarrow>
       affine_add (cP E) (mulG E a) (mulG E k) = Some (mulG E ((a + k) mod cN E))"
    "0 < a \<Longrightarrow> a < cN E \<Longrightarrow> IsOnCurve E (fst (mulG E a)) (snd (mulG E a))"
    "0 < a \<Longrightarrow> a < cN E \<Longrightarrow> mulG E (cN E - a) = (fst (mulG E a), cP E - snd (mulG E a))"
  using assms unfolding ec_laws_def by simp_all

lemma length_Bytes_32: "0 \<le> x \<Longrightarrow> x < 2 ^ 256 \<Longrightarrow> length (Bytes x) \<le> 32"
  by (rule length_Bytes_le) simp

lemma SetBytes_readBits_32: "0 \<le> x \<Longrightarrow> x < 2 ^ 256 \<Longrightarrow> SetBytes (readBits x (replicate 32 0)) = x"
  by (simp add: SetBytes_readBits)

text \<open>The exact outcome of \<^verbatim>\<open>ScalarMult\<close> on a point of the field and a scalar of at most 32 bytes.\<close>

lemma ScalarMult_eq:
  assumes A: "in_field E A" and p: "cP E \<le> 2 ^ 256" and k: "0 \<le> k" "k < 2 ^ 256"
    and r: "0 < k \<Longrightarrow> k < cN E \<Longrightarrow> in_field E (ecmult_const E A k)"
  shows "ScalarMult E (Some A) (Bytes k) =
    Ok (if cN E \<le> k \<or> k = 0 then None else Some (ecmult_const E A k))"
proof -
  obtain x y where A': "A = (x, y)" by (metis surj_pair)
  have xy: "0 \<le> x" "x < 2 ^ 256" "x mod cP E = x" "0 \<le> y" "y < 2 ^ 256" "y mod cP E = y"
    using A p by (auto simp: A' in_field_def)
  have scal: "SetBytes (pad32 (Bytes k)) = k" using k by simp
  have len: "\<not> 32 < length (Bytes k)" using length_Bytes_32 [OF k] by simp
  let ?pt = "readBits x (replicate 32 0) @ readBits y (replicate 32 0)"
  have pt: "SetBytes (take 32 ?pt) mod cP E = x" "SetBytes (drop 32 ?pt) mod cP E = y"
    using xy SetBytes_readBits_32 [of x] SetBytes_readBits_32 [of y] by simp_all
  show ?thesis
  proof (cases "cN E \<le> k \<or> k = 0")
    case True
    then show ?thesis using len scal
      by (simp add: ScalarMult_def A' smpc_secp256k1_ext_scalar_mul_def Let_def)
  next
    case False
    obtain x' y' where m: "ecmult_const E (x, y) k = (x', y')" by (metis surj_pair)
    have f: "0 \<le> x'" "x' < 2 ^ 256" "x' mod cP E = x'" "0 \<le> y'" "y' < 2 ^ 256" "y' mod cP E = y'"
      using r False k p m by (auto simp: A' in_field_def)
    have "smpc_secp256k1_ext_scalar_mul E ?pt (pad32 (Bytes k)) = (pad32 (Bytes x') @ pad32 (Bytes y'), 1)"
      using False m f scal pt by (simp add: smpc_secp256k1_ext_scalar_mul_def Let_def)
    moreover have "length (pad32 (Bytes x')) = 32" using f by (intro length_pad32 length_Bytes_32)
    ultimately show ?thesis using False len m f by (simp add: ScalarMult_def A' Let_def)
  qed
qed

lemma ScalarMult_mulG:
  assumes E: "ec_laws E" and a: "0 < a" "a < cN E" and k: "0 < k" "k < cN E"
  shows "ScalarMult E (Some (mulG E a)) (Bytes k) = Ok (Some (mulG E (a * k mod cN E)))"
proof -
  note L = ec_lawsD [OF E]
  have ak: "0 < a * k mod cN E" "a * k mod cN E < cN E"
  proof -
    have "\<not> cN E dvd a * k" using a k prime_dvd_mult [OF L(4), of a k] zdvd_not_zless by blast
    then have "a * k mod cN E \<noteq> 0" by (simp add: dvd_eq_mod_eq_0)
    moreover have "0 < cN E" using a by simp
    ultimately show "0 < a * k mod cN E" "a * k mod cN E < cN E"
      using pos_mod_sign [of "cN E" "a * k"] pos_mod_bound [of "cN E" "a * k"] by linarith+
  qed
  have "ecmult_const E (mulG E a) k = mulG E (a * k mod cN E)" using L(9) a k by blast
  then show ?thesis using ScalarMult_eq [of E "mulG E a" k] L(3,5) L(8) [of a] L(8) [OF ak] a k by simp
qed

lemma ScalarBaseMult_mulG:
  assumes E: "ec_laws E" and k: "0 < k" "k < cN E"
  shows "ScalarBaseMult E (Bytes k) = Ok (Some (mulG E k))"
proof -
  note L = ec_lawsD [OF E]
  have "1 < cN E" by (rule is_prime_gt_1 [OF L(4)])
  then have "ScalarMult E (Some (mulG E 1)) (Bytes k) = Ok (Some (mulG E (1 * k mod cN E)))"
    using k by (intro ScalarMult_mulG E) auto
  then show ?thesis using k L(7) by (simp add: ScalarBaseMult_def)
qed

lemma Add_mulG:
  assumes E: "ec_laws E" and a: "0 < a" "a < cN E" and b: "0 < b" "b < cN E" "a \<noteq> b" "a + b \<noteq> cN E"
  shows "Add E (Some (mulG E a)) (Some (mulG E b)) = Ok (Some (mulG E ((a + b) mod cN E)))"
  using ec_lawsD [OF E] a b by (simp add: Add_affine)

text \<open>
  A small curve on which \<open>ec_laws\<close> holds: \<open>y\<^sup>2 = x\<^sup>3 + 3\<close> over the field of 7 elements, a group of
  prime order 13 with base point \<open>(1, 2)\<close>; multiplication looks discrete logarithms up in the
  table of multiples.
\<close>

definition toy_points :: "(int \<times> int) list" where
  "toy_points = [(1, 2), (6, 3), (2, 2), (4, 5), (3, 3), (5, 3), (5, 4), (3, 4), (4, 2), (2, 5), (6, 4), (1, 5)]"

fun toy_log :: "(int \<times> int) list \<Rightarrow> int \<times> int \<Rightarrow> int" where
  "toy_log [] A = 0"
| "toy_log (B # Bs) A = (if A = B then 1 else 1 + toy_log Bs A)"

definition toy_curve :: Curve where
  "toy_curve = \<lparr>cP = 7, cN = 13, cB = 3, cGx = 1, cGy = 2, BitSize = 3,
     ecmult_const = (\<lambda>A k. (((0, 0) # toy_points) ! nat (toy_log toy_points A * k mod 13)))\<rparr>"

lemma toy_curve_laws: "ec_laws toy_curve"
  by code_simp

section \<open>Properties\<close>

text \<open>C32: on two points of the curve the Jacobian addition computes the affine chord law (the sum,
  or \<^verbatim>\<open>nil\<close> when the difference of the abscissas is not invertible), and the sum is on the curve.\<close>

theorem Add_correct:
  assumes "1 < cP E" "odd (cP E)" "IsOnCurve E x1 y1" "IsOnCurve E x2 y2"
  shows "Add E (Some (x1, y1)) (Some (x2, y2)) = Ok (affine_add (cP E) (x1, y1) (x2, y2)) \<and>
    (case affine_add (cP E) (x1, y1) (x2, y2) of None \<Rightarrow> gcd (x2 - x1) (cP E) \<noteq> 1
     | Some (x3, y3) \<Rightarrow> IsOnCurve E x3 y3)"
proof (cases "ModInverse (x2 - x1) (cP E)")
  case None
  then have "gcd (x2 - x1) (cP E) \<noteq> 1" using ModInverse_None_iff [of "cP E" "x2 - x1"] assms(1) by simp
  then show ?thesis
    unfolding Add_affine [OF assms(1,2)] affine_add_def using None by simp
next
  case (Some w)
  obtain x3 y3 where c: "chord (cP E) (x1, y1) (x2, y2) w = (x3, y3)" by (metis surj_pair)
  have "eqm (cP E) ((x2 - x1) * w) 1" using assms(1) by (intro ModInverse_eqm Some) simp
  then have "IsOnCurve E x3 y3" by (rule chord_on_curve [OF assms(3,4) _ c])
  then show ?thesis unfolding Add_affine [OF assms(1,2)] affine_add_def using Some c by simp
qed

theorem Add_correct_witness:
  "Add toy_curve (Some (1, 2)) (Some (6, 3)) = Ok (affine_add (cP toy_curve) (1, 2) (6, 3))"
  using Add_correct [of toy_curve 1 2 6 3] by (simp add: toy_curve_def IsOnCurve_def)

text \<open>\<^verbatim>\<open>Add\<close> has no doubling case: for two points with the same abscissa, in particular for
  \<open>P + P\<close>, it returns \<^verbatim>\<open>nil, nil\<close>, and the next addition that uses the result panics.\<close>

theorem Add_same_x:
  assumes "1 < cP E" "odd (cP E)"
  shows "Add E (Some (x, y1)) (Some (x, y2)) = Ok None \<and>
    Add E None (Some B) = Panic ''nil pointer dereference''"
proof -
  have "ModInverse 0 (cP E) = None" using ModInverse_None_iff [of "cP E" 0] assms(1) by simp
  then have "affine_add (cP E) (x, y1) (x, y2) = None" by (simp add: affine_add_def)
  then show ?thesis by (simp add: Add_affine [OF assms]) (simp add: Add_def)
qed

theorem Add_same_x_witness: "Add toy_curve (Some (1, 2)) (Some (1, 2)) = Ok None"
  using Add_same_x [of toy_curve 1 2 2 "(1, 2)"] by (simp add: toy_curve_def)

text \<open>\<^verbatim>\<open>Double\<close> computes the tangent law, and the double of a point of the curve is on the curve.\<close>

theorem Double_correct:
  assumes "1 < cP E" "IsOnCurve E x y"
  shows "Double E (Some (x, y)) = Ok (affine_double (cP E) (x, y)) \<and>
    (case affine_double (cP E) (x, y) of None \<Rightarrow> gcd (2 * y) (cP E) \<noteq> 1
     | Some (x3, y3) \<Rightarrow> IsOnCurve E x3 y3)"
proof (cases "ModInverse (2 * y) (cP E)")
  case None
  then have "gcd (2 * y) (cP E) \<noteq> 1" using ModInverse_None_iff [of "cP E" "2 * y"] assms(1) by simp
  then show ?thesis
    unfolding Double_affine [OF assms(1)] affine_double_def using None by simp
next
  case (Some w)
  obtain x3 y3 where c: "tangent (cP E) (x, y) w = (x3, y3)" by (metis surj_pair)
  have "eqm (cP E) (2 * y * w) 1" using assms(1) by (intro ModInverse_eqm Some) simp
  then have "IsOnCurve E x3 y3" by (rule tangent_on_curve [OF assms(2) _ c])
  then show ?thesis unfolding Double_affine [OF assms(1)] affine_double_def using Some c by simp
qed

theorem Double_correct_witness:
  "Double toy_curve (Some (1, 2)) = Ok (affine_double (cP toy_curve) (1, 2))"
  using Double_correct [of toy_curve 1 2] by (simp add: toy_curve_def IsOnCurve_def)

text \<open>The outcome of \<^verbatim>\<open>ScalarMult\<close> for every non-negative scalar: a panic when it has more than
  256 bits, \<^verbatim>\<open>nil\<close> for zero and for scalars not below the group order, and the multiple otherwise.\<close>

theorem ScalarMult_outcome:
  assumes "in_field E A" "cP E \<le> 2 ^ 256" "0 \<le> k"
    and "0 < k \<and> k < cN E \<longrightarrow> in_field E (ecmult_const E A k)"
  shows "ScalarMult E (Some A) (Bytes k) =
    (if 2 ^ 256 \<le> k then Panic ''can't handle scalars > 256 bits''
     else if k = 0 \<or> cN E \<le> k then Ok None else Ok (Some (ecmult_const E A k)))"
proof (cases "2 ^ 256 \<le> k")
  case True
  have "32 < length (Bytes k)"
  proof (rule ccontr)
    assume "\<not> 32 < length (Bytes k)"
    then have "(256::int) ^ length (Bytes k) \<le> 256 ^ 32" by (intro power_increasing) auto
    then show False using SetBytes_less [of "Bytes k"] assms(3) True by simp
  qed
  with True show ?thesis by (simp add: ScalarMult_def)
next
  case False
  then show ?thesis using ScalarMult_eq [of E A k] assms by auto
qed

theorem ScalarMult_outcome_witness:
  "ScalarMult toy_curve (Some (1, 2)) (Bytes 2) = Ok (Some (ecmult_const toy_curve (1, 2) 2))"
proof -
  have "in_field toy_curve (1, 2)" "in_field toy_curve (ecmult_const toy_curve (1, 2) 2)"
    "cP toy_curve = 7" "cN toy_curve = 13"
    by code_simp+
  then show ?thesis using ScalarMult_outcome [of toy_curve "(1, 2)" 2] by simp
qed

text \<open>\<^verbatim>\<open>Unmarshal\<close> recovers the coordinates that \<^verbatim>\<open>Marshal\<close> wrote when they fit the field size,
  and rejects every string of another length.\<close>

theorem Unmarshal_Marshal:
  assumes "0 \<le> x" "x < 256 ^ byteLen E" "0 \<le> y" "y < 256 ^ byteLen E"
  shows "Unmarshal E (Marshal E x y) = Some (x, y) \<and>
    (length data \<noteq> length (Marshal E x y) \<longrightarrow> Unmarshal E data = None)"
  using assms by (simp add: Unmarshal_def Marshal_def SetBytes_readBits)

theorem Unmarshal_Marshal_witness: "Unmarshal toy_curve (Marshal toy_curve 6 3) = Some (6, 3)"
  using Unmarshal_Marshal [of 6 toy_curve 3 "[]"] by (simp add: toy_curve_def byteLen_def)

end
