(* ===== verification/RandomInt.thy ===== *)
theory RandomInt
  imports NumberTheory
begin

text \<open>
  \<^verbatim>\<open>internal/common/math/random/random.go\<close> and \<^verbatim>\<open>smpc-lib/crypto/ec2/safeprime.go\<close>:
  sampling by rejection and the pool of safe primes.

  The operating system's entropy is a tape of integers: one \<^verbatim>\<open>rand.Int(rand.Reader, max)\<close>
  takes the next element and reduces it modulo \<open>max\<close>, so every sequence of outcomes in
  \<^verbatim>\<open>[0, max)\<close> is the outcome of some tape; on the empty tape the reader fails.  A rejection
  loop that never sees an acceptable value does not return (\<open>Hang\<close>).
  \<^verbatim>\<open>ProbablyPrime\<close> and the outcomes of \<^verbatim>\<open>rand.Prime\<close> are arguments.
\<close>

type_synonym tape = "int list"

fun rand_Int :: "int \<Rightarrow> tape \<Rightarrow> int option \<times> tape" where
  "rand_Int maxi [] = (None, [])"
| "rand_Int maxi (x # xs) = (Some (x mod maxi), xs)"

text \<open>
  \<^verbatim>\<open>GetRandomInt(length)\<close>: a value below \<open>2 ^ length - 1\<close>, or \<^verbatim>\<open>nil\<close> when the reader fails;
  \<^verbatim>\<open>rand.Int\<close> panics on the bound 0.
\<close>

definition GetRandomInt :: "nat \<Rightarrow> tape \<Rightarrow> (int option \<times> tape) res" where
  "GetRandomInt len tape =
     (let maxi = 2 ^ len - 1
      in if maxi \<le> 0 then Panic ''crypto/rand: argument to Int is <= 0'' else Ok (rand_Int maxi tape))"

text \<open>The loops: an empty tape makes every further \<^verbatim>\<open>GetRandomInt\<close> return \<^verbatim>\<open>nil\<close>.\<close>

fun GetRandomIntFromZn :: "int \<Rightarrow> tape \<Rightarrow> (int \<times> tape) res" where
  "GetRandomIntFromZn n [] = bindr (GetRandomInt (BitLen n) []) (\<lambda>_. Hang)"
| "GetRandomIntFromZn n (x # xs) =
     bindr (GetRandomInt (BitLen n) (x # xs)) (\<lambda>(rndNumZn, rest).
       case rndNumZn of
         Some r \<Rightarrow> if r < n \<and> 0 \<le> r then Ok (r, rest) else GetRandomIntFromZn n xs
       | None \<Rightarrow> GetRandomIntFromZn n xs)"

fun GetRandomIntFromZnStar :: "int \<Rightarrow> tape \<Rightarrow> (int \<times> tape) res" where
  "GetRandomIntFromZnStar n [] = bindr (GetRandomInt (BitLen n) []) (\<lambda>_. Hang)"
| "GetRandomIntFromZnStar n (x # xs) =
     bindr (GetRandomInt (BitLen n) (x # xs)) (\<lambda>(rndNumZnStar, rest).
       case rndNumZnStar of
         Some r \<Rightarrow> if r < n \<and> 1 \<le> r \<and> gcd r n = 1 then Ok (r, rest)
                    else GetRandomIntFromZnStar n xs
       | None \<Rightarrow> GetRandomIntFromZnStar n xs)"

lemma GetRandomIntFromZn_range:
  "GetRandomIntFromZn n tape = Ok (r, rest) \<Longrightarrow> 0 \<le> r \<and> r < n"
  by (induction n tape rule: GetRandomIntFromZn.induct)
    (auto split: prod.splits option.splits if_splits)

lemma GetRandomIntFromZnStar_range:
  "GetRandomIntFromZnStar n tape = Ok (r, rest) \<Longrightarrow> 1 \<le> r \<and> r < n \<and> gcd r n = 1"
  by (induction n tape rule: GetRandomIntFromZnStar.induct)
    (auto split: prod.splits option.splits if_splits)

lemma BitLen_pos: "0 < n \<Longrightarrow> 0 < BitLen n"
  by (simp add: BitLen_def bitlen_nat.simps)

lemma GetRandomInt_pos:
  "0 < len \<Longrightarrow> GetRandomInt len tape = Ok (rand_Int (2 ^ len - 1) tape)"
proof -
  assume "0 < len"
  then have "(2::int) ^ 1 \<le> 2 ^ len" by (intro power_increasing) auto
  then show ?thesis by (simp add: GetRandomInt_def Let_def)
qed

text \<open>
  Every value a caller may hope for is the outcome of a tape: sampling \<open>r\<close> from \<open>Z_n\<close>
  succeeds at once when the reader delivers \<open>r\<close>, except for the one value
  \<open>2 ^ BitLen n - 1\<close>, which \<^verbatim>\<open>GetRandomInt\<close> never returns.
\<close>

lemma GetRandomIntFromZn_hit:
  assumes "0 \<le> r" "r < n" "r < 2 ^ BitLen n - 1"
  shows "GetRandomIntFromZn n (r # rest) = Ok (r, rest)"
  using assms BitLen_pos [of n] by (simp add: GetRandomInt_pos)

lemma GetRandomIntFromZnStar_hit:
  assumes "1 \<le> r" "r < n" "gcd r n = 1" "r < 2 ^ BitLen n - 1"
  shows "GetRandomIntFromZnStar n (r # rest) = Ok (r, rest)"
  using assms BitLen_pos [of n] by (simp add: GetRandomInt_pos)

text \<open>
  The loop returns as soon as the tape holds an acceptable value, whatever precedes it.
\<close>

lemma GetRandomIntFromZn_returns:
  assumes "0 \<le> r" "r < n" "r < 2 ^ BitLen n - 1" "r \<in> set tape"
  shows "\<exists>v rest. GetRandomIntFromZn n tape = Ok (v, rest)"
  using assms(4)
proof (induction tape)
  case Nil
  then show ?case by simp
next
  case (Cons x xs)
  have pos: "0 < BitLen n" using assms(1,2) by (intro BitLen_pos) simp
  show ?case
  proof (cases "x = r")
    case True
    then show ?thesis using GetRandomIntFromZn_hit [OF assms(1-3)] by blast
  next
    case False
    with Cons have "\<exists>v rest. GetRandomIntFromZn n xs = Ok (v, rest)" by simp
    then show ?thesis using pos by (auto simp: GetRandomInt_pos)
  qed
qed

declare GetRandomIntFromZn.simps [simp del] GetRandomIntFromZnStar.simps [simp del]

section \<open>Safe primes\<close>

record SafePrime =
  sp_q :: "int option"
  sp_p :: "int option"

text \<open>
  \<^verbatim>\<open>GetSafeRandomPrimeInt\<close>: \<open>draws\<close> are the outcomes of \<^verbatim>\<open>rand.Prime(rand.Reader, 1023)\<close>,
  \<open>None\<close> for a reader error.
\<close>

fun GetSafeRandomPrimeInt :: "(int \<Rightarrow> bool) \<Rightarrow> int option list \<Rightarrow>
    ((int option \<times> int option) \<times> int option list) option" where
  "GetSafeRandomPrimeInt pp [] = None"
| "GetSafeRandomPrimeInt pp (None # draws) = Some ((None, None), draws)"
| "GetSafeRandomPrimeInt pp (Some q # draws) =
     (let p = q * 2 + 1
      in if pp p then Some ((Some q, Some p), draws) else GetSafeRandomPrimeInt pp draws)"

definition GetP :: "int \<Rightarrow> int" where
  "GetP q = q * 2 + 1"

definition probablyPrime :: "(int \<Rightarrow> bool) \<Rightarrow> int option \<Rightarrow> bool" where
  "probablyPrime pp x = (case x of None \<Rightarrow> False | Some v \<Rightarrow> pp v)"

definition CheckValidate :: "(int \<Rightarrow> bool) \<Rightarrow> SafePrime \<Rightarrow> bool" where
  "CheckValidate pp sp =
     (case (sp_p sp, sp_q sp) of
        (Some p, Some q) \<Rightarrow>
          if p < 2 ^ 1024 then probablyPrime pp (Some q) \<and> GetP q = p \<and> probablyPrime pp (Some p)
          else False
      | _ \<Rightarrow> False)"

text \<open>
  \<^verbatim>\<open>GenRandomSafePrime\<close>: fill the channel \<^verbatim>\<open>SafePrimeCh\<close> (capacity 4, a queue) with validated
  safe primes; the loop ends when four are queued and never returns when the draws run out.
\<close>

function GenRandomSafePrime :: "(int \<Rightarrow> bool) \<Rightarrow> SafePrime list \<Rightarrow> int option list \<Rightarrow>
    (SafePrime list \<times> int option list) option" where
  "GenRandomSafePrime pp ch draws =
     (if length ch < 4 then
        (case GetSafeRandomPrimeInt pp draws of
           None \<Rightarrow> None
         | Some ((q, p), draws') \<Rightarrow>
             if length draws' < length draws then
               (let sp = \<lparr>sp_q = q, sp_p = p\<rparr>;
                    ch' = (if CheckValidate pp sp then ch @ [sp] else ch)
                in if length ch' = 4 then Some (ch', draws') else GenRandomSafePrime pp ch' draws')
             else None)
      else if length ch = 4 then Some (ch, draws) else None)"
  by pat_completeness auto
termination
  by (relation "measure (\<lambda>(pp, ch, draws). length draws)") auto

declare GenRandomSafePrime.simps [simp del]

definition GetRandomPrime :: "(int \<Rightarrow> bool) \<Rightarrow> int option list \<Rightarrow>
    ((int option \<times> int option) \<times> int option list) option" where
  "GetRandomPrime pp draws =
     (case GetSafeRandomPrimeInt pp draws of
        None \<Rightarrow> None
      | Some ((q, p), rest) \<Rightarrow>
          if CheckValidate pp \<lparr>sp_q = q, sp_p = p\<rparr> then Some ((q, p), rest)
          else Some ((None, None), rest))"

text \<open>\<open>valid_sp\<close>: what the pool promises of its elements.\<close>

definition valid_sp :: "(int \<Rightarrow> bool) \<Rightarrow> SafePrime \<Rightarrow> bool" where
  "valid_sp pp sp \<longleftrightarrow> (\<exists>q. sp_q sp = Some q \<and> sp_p sp = Some (q * 2 + 1) \<and>
     pp q \<and> pp (q * 2 + 1) \<and> q * 2 + 1 < 2 ^ 1024)"

lemma CheckValidate_iff: "CheckValidate pp sp \<longleftrightarrow> valid_sp pp sp"
  by (auto simp: CheckValidate_def valid_sp_def GetP_def probablyPrime_def
      split: option.splits if_splits)

lemma GetSafeRandomPrimeInt_consumes:
  "GetSafeRandomPrimeInt pp draws = Some (r, rest) \<Longrightarrow> length rest < length draws"
  by (induction pp draws rule: GetSafeRandomPrimeInt.induct) (auto simp: Let_def split: if_splits)

lemma GenRandomSafePrime_pool:
  "GenRandomSafePrime pp ch draws = Some (ch', rest) \<Longrightarrow> \<forall>sp \<in> set ch. valid_sp pp sp \<Longrightarrow>
   length ch' = 4 \<and> (\<forall>sp \<in> set ch'. valid_sp pp sp)"
proof (induction pp ch draws rule: GenRandomSafePrime.induct)
  case (1 pp ch draws)
  show ?case
  proof (cases "length ch < 4")
    case False
    with "1.prems" show ?thesis by (auto simp: GenRandomSafePrime.simps split: if_splits)
  next
    case True
    with "1.prems"(1) obtain q p draws' where
        g: "GetSafeRandomPrimeInt pp draws = Some ((q, p), draws')"
      by (subst (asm) GenRandomSafePrime.simps) (auto split: option.splits)
    have lt: "length draws' < length draws" by (rule GetSafeRandomPrimeInt_consumes [OF g])
    let ?sp = "\<lparr>sp_q = q, sp_p = p\<rparr>"
    let ?ch = "if CheckValidate pp ?sp then ch @ [?sp] else ch"
    have ok: "\<forall>sp \<in> set ?ch. valid_sp pp sp"
      using "1.prems"(2) by (auto simp: CheckValidate_iff)
    have step: "GenRandomSafePrime pp ch draws =
        (if length ?ch = 4 then Some (?ch, draws') else GenRandomSafePrime pp ?ch draws')"
      using True g lt by (subst GenRandomSafePrime.simps) (simp add: Let_def)
    show ?thesis
    proof (cases "length ?ch = 4")
      case True
      with step "1.prems"(1) ok show ?thesis by auto
    next
      case False
      with step "1.prems"(1) have "GenRandomSafePrime pp ?ch draws' = Some (ch', rest)" by simp
      then show ?thesis using "1.IH" [OF True g _ _ lt _ _ False] ok by auto
    qed
  qed
qed

end
