(* ===== verification/Strings.thy ===== *)
theory Strings
  imports BigInt
begin

text \<open>
  The text formats of the messages: decimal numbers (\<^verbatim>\<open>fmt.Sprintf("%v", x)\<close> of a
  \<^verbatim>\<open>*big.Int\<close> and \<^verbatim>\<open>SetString(s, 10)\<close>), hexadecimal strings (\<^verbatim>\<open>encoding/hex\<close>),
  \<^verbatim>\<open>strings.Join\<close> and \<^verbatim>\<open>strings.Split\<close> with a one-character separator, and
  \<^verbatim>\<open>strings.ToLower\<close>.
\<close>

section \<open>Decimal numbers\<close>

definition digit :: "nat \<Rightarrow> char" where
  "digit d = char_of (48 + d)"

definition digit_val :: "char \<Rightarrow> nat option" where
  "digit_val c = (let n = of_char c in if 48 \<le> n \<and> n \<le> 57 then Some (n - 48) else None)"

lemma digit_val_digit [simp]: "d < 10 \<Longrightarrow> digit_val (digit d) = Some d"
  by (simp add: digit_val_def digit_def)

fun show_nat :: "nat \<Rightarrow> string" where
  "show_nat n = (if n < 10 then [digit n] else show_nat (n div 10) @ [digit (n mod 10)])"

declare show_nat.simps [simp del]

definition show_int :: "int \<Rightarrow> string" where
  "show_int i = (if i < 0 then CHR ''-'' # show_nat (nat (- i)) else show_nat (nat i))"

fun parse_digits :: "nat \<Rightarrow> string \<Rightarrow> nat option" where
  "parse_digits acc [] = Some acc"
| "parse_digits acc (c # cs) =
     (case digit_val c of None \<Rightarrow> None | Some d \<Rightarrow> parse_digits (10 * acc + d) cs)"

definition parse_nat :: "string \<Rightarrow> nat option" where
  "parse_nat s = (if s = [] then None else parse_digits 0 s)"

definition SetString10 :: "string \<Rightarrow> int option" where
  "SetString10 s =
     (case s of
        [] \<Rightarrow> None
      | c # cs \<Rightarrow>
          if c = CHR ''-'' then map_option (\<lambda>n. - int n) (parse_nat cs)
          else if c = CHR ''+'' then map_option int (parse_nat cs)
          else map_option int (parse_nat s))"

lemma parse_digits_append:
  "parse_digits a (s @ t) = (case parse_digits a s of None \<Rightarrow> None | Some b \<Rightarrow> parse_digits b t)"
  by (induction s arbitrary: a) (auto split: option.splits)

lemma show_nat_ne [simp]: "show_nat n \<noteq> []"
  by (subst show_nat.simps) simp

lemma parse_show_nat: "parse_digits 0 (show_nat n) = Some n"
proof (induction n rule: show_nat.induct)
  case (1 n)
  show ?case
  proof (cases "n < 10")
    case True
    then show ?thesis by (subst show_nat.simps) simp
  next
    case False
    with 1 have "parse_digits 0 (show_nat (n div 10)) = Some (n div 10)" by simp
    with False show ?thesis by (subst show_nat.simps) (simp add: parse_digits_append)
  qed
qed

lemma digit_range: "d < 10 \<Longrightarrow> of_char (digit d) = 48 + d"
  by (simp add: digit_def)

lemma set_show_nat: "c \<in> set (show_nat n) \<Longrightarrow> 48 \<le> (of_char c :: nat) \<and> (of_char c :: nat) \<le> 57"
proof (induction n rule: show_nat.induct)
  case (1 n)
  show ?case
  proof (cases "n < 10")
    case True
    with 1 show ?thesis by (simp add: show_nat.simps [of n] digit_range)
  next
    case False
    with 1 show ?thesis by (auto simp: show_nat.simps [of n] digit_range)
  qed
qed

lemma show_nat_no_sign: "hd (show_nat n) \<noteq> CHR ''-''" "hd (show_nat n) \<noteq> CHR ''+''"
proof -
  have "48 \<le> (of_char (hd (show_nat n)) :: nat)" using set_show_nat [of "hd (show_nat n)" n] by simp
  then show "hd (show_nat n) \<noteq> CHR ''-''" "hd (show_nat n) \<noteq> CHR ''+''" by auto
qed

lemma SetString10_show_int [simp]: "SetString10 (show_int i) = Some i"
proof (cases "i < 0")
  case True
  then show ?thesis by (simp add: SetString10_def show_int_def parse_nat_def parse_show_nat)
next
  case False
  obtain c cs where s: "show_nat (nat i) = c # cs" by (metis show_nat_ne neq_Nil_conv)
  then have "c \<noteq> CHR ''-''" "c \<noteq> CHR ''+''" using show_nat_no_sign [of "nat i"] by auto
  moreover have "parse_digits 0 (c # cs) = Some (nat i)" using parse_show_nat [of "nat i"] s by simp
  ultimately show ?thesis
    using False s by (simp add: SetString10_def show_int_def parse_nat_def del: parse_digits.simps)
qed

lemma show_int_inj: "show_int i = show_int j \<Longrightarrow> i = j"
  by (metis SetString10_show_int option.inject)

lemma show_int_inject [simp]: "show_int i = show_int j \<longleftrightarrow> i = j"
  using show_int_inj by blast

lemma set_show_int:
  "c \<in> set (show_int i) \<Longrightarrow> c = CHR ''-'' \<or> (48 \<le> (of_char c :: nat) \<and> (of_char c :: nat) \<le> 57)"
  using set_show_nat by (fastforce simp: show_int_def split: if_splits)

lemma show_int_ne [simp]: "show_int i \<noteq> []"
  by (simp add: show_int_def)

text \<open>\<^verbatim>\<open>strings.ToLower\<close> on ASCII.\<close>

definition to_lower_char :: "char \<Rightarrow> char" where
  "to_lower_char c = (let n = of_char c in if 65 \<le> n \<and> n \<le> 90 then char_of (n + 32 :: nat) else c)"

definition ToLower :: "string \<Rightarrow> string" where
  "ToLower s = map to_lower_char s"

lemma ToLower_show_int [simp]: "ToLower (show_int i) = show_int i"
proof -
  have "to_lower_char c = c" if "c \<in> set (show_int i)" for c
    using set_show_int [OF that] by (auto simp: to_lower_char_def Let_def)
  then show ?thesis by (simp add: ToLower_def map_idI)
qed

section \<open>Hexadecimal strings\<close>

definition hex_digit :: "nat \<Rightarrow> char" where
  "hex_digit d = (if d < 10 then char_of (48 + d) else char_of (87 + d))"

definition hex_val :: "char \<Rightarrow> nat option" where
  "hex_val c = (let n = of_char c in
     if 48 \<le> n \<and> n \<le> 57 then Some (n - 48)
     else if 97 \<le> n \<and> n \<le> 102 then Some (n - 87)
     else if 65 \<le> n \<and> n \<le> 70 then Some (n - 55) else None)"

lemma hex_val_digit [simp]: "d < 16 \<Longrightarrow> hex_val (hex_digit d) = Some d"
  by (simp add: hex_val_def hex_digit_def Let_def)

definition EncodeToString :: "byte list \<Rightarrow> string" where
  "EncodeToString bs = concat (map (\<lambda>b. [hex_digit (unat b div 16), hex_digit (unat b mod 16)]) bs)"

fun DecodeString :: "string \<Rightarrow> byte list res" where
  "DecodeString [] = Ok []"
| "DecodeString [c] = Err ''encoding/hex: odd length hex string''"
| "DecodeString (a # b # s) =
     (case (hex_val a, hex_val b) of
        (Some x, Some y) \<Rightarrow> bindr (DecodeString s) (\<lambda>bs. Ok (byte_of (16 * x + y) # bs))
      | _ \<Rightarrow> Err ''encoding/hex: invalid byte'')"

lemma DecodeString_EncodeToString [simp]: "DecodeString (EncodeToString bs) = Ok bs"
proof (induction bs)
  case Nil
  then show ?case by (simp add: EncodeToString_def)
next
  case (Cons b bs)
  have b: "unat b < 256" by simp
  then have "unat b div 16 < 16" "unat b mod 16 < 16" by linarith+
  with Cons show ?case by (simp add: EncodeToString_def)
qed

lemma length_EncodeToString [simp]: "length (EncodeToString bs) = 2 * length bs"
  by (induction bs) (auto simp: EncodeToString_def)

lemma EncodeToString_inj: "EncodeToString as = EncodeToString bs \<Longrightarrow> as = bs"
  by (metis DecodeString_EncodeToString res.inject(1))

text \<open>\<^verbatim>\<open>string(bs)\<close> of a byte slice.\<close>

definition bytes_string :: "byte list \<Rightarrow> string" where
  "bytes_string bs = map (\<lambda>b. char_of (unat b)) bs"

lemma bytes_string_string_bytes [simp]: "bytes_string (string_bytes s) = s"
proof -
  have "char_of (unat (byte_of (of_char c))) = c" for c
  proof -
    have "(of_char c :: nat) < 256" by (rule nat_of_char_less_256)
    then show ?thesis by simp
  qed
  then show ?thesis by (simp add: bytes_string_def string_bytes_def comp_def)
qed

section \<open>Join and Split\<close>

fun Join :: "string list \<Rightarrow> char \<Rightarrow> string" where
  "Join [] sep = []"
| "Join [s] sep = s"
| "Join (s # t # ss) sep = s @ sep # Join (t # ss) sep"

fun Split :: "string \<Rightarrow> char \<Rightarrow> string list" where
  "Split [] sep = [[]]"
| "Split (c # cs) sep =
     (if c = sep then [] # Split cs sep
      else (case Split cs sep of [] \<Rightarrow> [[c]] | s # ss \<Rightarrow> (c # s) # ss))"

lemma Split_ne [simp]: "Split s sep \<noteq> []"
  by (cases s) (auto split: list.splits)

lemma Split_no_sep: "sep \<notin> set s \<Longrightarrow> Split s sep = [s]"
  by (induction s) auto

lemma Split_append_sep: "sep \<notin> set s \<Longrightarrow> Split (s @ sep # t) sep = s # Split t sep"
  by (induction s) auto

lemma Split_Join:
  "ss \<noteq> [] \<Longrightarrow> (\<And>s. s \<in> set ss \<Longrightarrow> sep \<notin> set s) \<Longrightarrow> Split (Join ss sep) sep = ss"
  by (induction ss sep rule: Join.induct) (auto simp: Split_no_sep Split_append_sep)

end
