(* ===== verification/IntUtil.thy ===== *)
theory IntUtil
  imports RandomInt Strings "HOL-Library.AList"
begin

text \<open>
  \<^verbatim>\<open>smpc-lib/crypto/ec2/int.go\<close>: modular arithmetic on \<^verbatim>\<open>*big.Int\<close>, the domain-separated
  hash, rejection sampling, the extended Euclidean algorithm, square roots modulo \<open>p * q\<close>,
  the perfect-power test and the duplicate test on party identifiers.
\<close>

section \<open>modInt\<close>

definition modInt_Add :: "int \<Rightarrow> int \<Rightarrow> int \<Rightarrow> int res" where
  "modInt_Add mi x y = Mod (x + y) mi"

definition modInt_Sub :: "int \<Rightarrow> int \<Rightarrow> int \<Rightarrow> int res" where
  "modInt_Sub mi x y = Mod (x - y) mi"

definition modInt_Div :: "int \<Rightarrow> int \<Rightarrow> int \<Rightarrow> int res" where
  "modInt_Div mi x y = bindr (Div x y) (\<lambda>i. Mod i mi)"

definition modInt_Mul :: "int \<Rightarrow> int \<Rightarrow> int \<Rightarrow> int res" where
  "modInt_Mul mi x y = Mod (x * y) mi"

definition modInt_Exp :: "int \<Rightarrow> int \<Rightarrow> int \<Rightarrow> int option" where
  "modInt_Exp mi x y = Exp x y mi"

definition modInt_Neg :: "int \<Rightarrow> int \<Rightarrow> int res" where
  "modInt_Neg mi x = Mod (- x) mi"

definition modInt_Inverse :: "int \<Rightarrow> int \<Rightarrow> int option" where
  "modInt_Inverse mi g = ModInverse g mi"

section \<open>The hash with delimiters\<close>

definition hashInputDelimiter :: byte where
  "hashInputDelimiter = 36"

text \<open>\<^verbatim>\<open>binary.LittleEndian.PutUint64\<close>\<close>

fun put_bytes :: "nat \<Rightarrow> nat \<Rightarrow> byte list" where
  "put_bytes 0 v = []"
| "put_bytes (Suc k) v = byte_of v # put_bytes k (v div 256)"

definition PutUint64 :: "nat \<Rightarrow> byte list" where
  "PutUint64 n = put_bytes 8 n"

definition sha_input :: "int list \<Rightarrow> byte list" where
  "sha_input ins = PutUint64 (length ins) @ concat (map (\<lambda>n. Bytes n @ [hashInputDelimiter]) ins)"

text \<open>\<open>sha\<close> is \<^verbatim>\<open>crypto.SHA512_256\<close> on a whole input.\<close>

definition Sha512_256 :: "(byte list \<Rightarrow> byte list) \<Rightarrow> int list \<Rightarrow> int option" where
  "Sha512_256 sha ins = (if ins = [] then None else Some (SetBytes (sha (sha_input ins))))"

section \<open>Sampling\<close>

definition mustGetRandomIntMaxBits :: int where
  "mustGetRandomIntMaxBits = 5000"

definition MustGetRandomInt :: "int \<Rightarrow> tape \<Rightarrow> (int \<times> tape) res" where
  "MustGetRandomInt bits tape =
     (if bits \<le> 0 \<or> mustGetRandomIntMaxBits < bits
      then Panic ''MustGetRandomInt: bits should be positive, non-zero and less than 5000''
      else case rand_Int (2 ^ nat bits - 1) tape of
             (None, rest) \<Rightarrow> Panic ''rand.Int failure in MustGetRandomInt!''
           | (Some n, rest) \<Rightarrow> Ok (n, rest))"

definition IsNumberInMultiplicativeGroup :: "int option \<Rightarrow> int option \<Rightarrow> bool" where
  "IsNumberInMultiplicativeGroup n v =
     (case (n, v) of
        (Some n, Some v) \<Rightarrow> \<not> n \<le> 0 \<and> v < n \<and> 1 \<le> v \<and> gcd v n = 1
      | _ \<Rightarrow> False)"

fun relprime_loop :: "int \<Rightarrow> tape \<Rightarrow> (int \<times> tape) res" where
  "relprime_loop n [] = MustGetRandomInt (int (BitLen n)) []"
| "relprime_loop n (x # xs) =
     bindr (MustGetRandomInt (int (BitLen n)) (x # xs)) (\<lambda>(t, rest).
       if IsNumberInMultiplicativeGroup (Some n) (Some t) then Ok (t, rest)
       else relprime_loop n xs)"

definition GetRandomPositiveRelativelyPrimeInt ::
    "int option \<Rightarrow> tape \<Rightarrow> (int option \<times> tape) res" where
  "GetRandomPositiveRelativelyPrimeInt n tape =
     (case n of
        None \<Rightarrow> Ok (None, tape)
      | Some n \<Rightarrow> if n \<le> 0 then Ok (None, tape)
                   else mapr (\<lambda>(t, rest). (Some t, rest)) (relprime_loop n tape))"

fun positive_loop :: "int \<Rightarrow> tape \<Rightarrow> (int \<times> tape) res" where
  "positive_loop upper [] = MustGetRandomInt (int (BitLen upper)) []"
| "positive_loop upper (x # xs) =
     bindr (MustGetRandomInt (int (BitLen upper)) (x # xs)) (\<lambda>(t, rest).
       if t < upper \<and> 0 \<le> t then Ok (t, rest) else positive_loop upper xs)"

definition GetRandomPositiveInt :: "int option \<Rightarrow> tape \<Rightarrow> (int option \<times> tape) res" where
  "GetRandomPositiveInt upper tape =
     (case upper of
        None \<Rightarrow> Ok (None, tape)
      | Some u \<Rightarrow> if u \<le> 0 then Ok (None, tape)
                   else mapr (\<lambda>(t, rest). (Some t, rest)) (positive_loop u tape))"

section \<open>Euclid and square roots\<close>

function euclid_loop :: "int \<Rightarrow> int \<Rightarrow> int \<Rightarrow> int \<Rightarrow> int \<Rightarrow> int \<Rightarrow> int \<times> int \<times> int" where
  "euclid_loop a b x2 x1 y2 y1 =
     (if b \<le> 0 then (a, x2, y2)
      else let q = bigDiv a b;
               qb = q * b;
               r = a - qb;
               qx1 = q * x1;
               x = x2 - qx1;
               qy1 = q * y1;
               y = y2 - qy1
           in euclid_loop b r x1 x y1 y)"
  by pat_completeness auto
termination
  by (relation "measure (\<lambda>(a, b, x2, x1, y2, y1). nat b)") (auto simp: minus_div_mult_eq_mod)

declare euclid_loop.simps [simp del]

definition EuclideanAlgorithm :: "int option \<Rightarrow> int option \<Rightarrow> (int \<times> int \<times> int) option" where
  "EuclideanAlgorithm a b =
     (case (a, b) of
        (Some a, Some b) \<Rightarrow>
          if a < b then None
          else if b = 0 then Some (a, 1, 0)
          else Some (euclid_loop a b 1 0 0 1)
      | _ \<Rightarrow> None)"

text \<open>
  \<open>ms\<close> is \<^verbatim>\<open>ModSqrt\<close>: it panics on an even modulus and returns \<^verbatim>\<open>nil\<close> for a non-residue.
\<close>

definition GetTheQuadraticResidueInt :: "(int \<Rightarrow> int \<Rightarrow> int option res) \<Rightarrow>
    int option \<Rightarrow> int option \<Rightarrow> int option \<Rightarrow> int option \<Rightarrow> (int \<times> int \<times> int \<times> int) option res" where
  "GetTheQuadraticResidueInt ms roh N p q =
     (case (roh, N, p, q) of
        (Some roh, Some N, Some p, Some q) \<Rightarrow>
          if p < q then Ok None else
          bindr (ms roh p) (\<lambda>r. case r of None \<Rightarrow> Ok None | Some r \<Rightarrow>
          bindr (ms roh q) (\<lambda>s. case s of None \<Rightarrow> Ok None | Some s \<Rightarrow>
          bindr (deref (EuclideanAlgorithm (Some p) (Some q))) (\<lambda>(g, c, d).
          if g \<noteq> 1 then Ok None else
          let tmp1 = q * d * r;
              tmp2 = p * c * s
          in bindr (Mod (tmp1 + tmp2) N) (\<lambda>x.
             bindr (Mod (x * -1) N) (\<lambda>negx.
             bindr (Mod (tmp1 - tmp2) N) (\<lambda>y.
             bindr (Mod (y * -1) N) (\<lambda>negy.
               Ok (Some (x, negx, y, negy)))))))))
      | _ \<Rightarrow> Ok None)"

section \<open>Perfect powers\<close>

text \<open>The inner loop of \<^verbatim>\<open>IsPerfectPower\<close> searches the exponent \<open>mid\<close> with \<open>(2 ^ mid) ^ b = N\<close>.\<close>

function perfect_search :: "int \<Rightarrow> int \<Rightarrow> int \<Rightarrow> int \<Rightarrow> int option" where
  "perfect_search N b low high =
     (if high - 1 \<le> low then None
      else let mid = (low + high) div 2;
               ab = (2 ^ nat mid) ^ nat b
           in if N < ab then perfect_search N b low mid
              else if ab < N then perfect_search N b mid high
              else let a = 2 ^ nat mid; T = a ^ nat b
                   in if T = N then Some a else None)"
  by pat_completeness auto
termination
  by (relation "measure (\<lambda>(N, b, low, high). nat (high - low))") auto

declare perfect_search.simps [simp del]

function perfect_bases :: "int \<Rightarrow> int \<Rightarrow> int \<Rightarrow> int option" where
  "perfect_bases N log2n b =
     (if log2n < b then None
      else case perfect_search N b 1 (bigDiv log2n b) of
             Some a \<Rightarrow> Some a
           | None \<Rightarrow> perfect_bases N log2n (b + 1))"
  by pat_completeness auto
termination
  by (relation "measure (\<lambda>(N, log2n, b). nat (log2n + 1 - b))") auto

declare perfect_bases.simps [simp del]

definition IsPerfectPower :: "int option \<Rightarrow> int option" where
  "IsPerfectPower Ntilde =
     (case Ntilde of None \<Rightarrow> None | Some N \<Rightarrow> perfect_bases N (int (BitLen N)) 2)"

lemma perfect_search_Some:
  "perfect_search N b low high = Some a \<Longrightarrow> 0 < low \<Longrightarrow>
   \<exists>k. 1 < k \<and> a = 2 ^ k \<and> N = a ^ nat b"
proof (induction N b low high rule: perfect_search.induct)
  case (1 N b low high)
  have run: "\<not> high - 1 \<le> low"
    using "1.prems" by (subst (asm) perfect_search.simps) (auto split: if_splits)
  define mid where "mid = (low + high) div 2"
  have mid: "low < mid" using run by (simp add: mid_def)
  note step = "1.prems"(1) [unfolded perfect_search.simps [of N b low high] Let_def]
  consider "N < (2 ^ nat mid) ^ nat b" | "(2 ^ nat mid) ^ nat b < N" | "(2 ^ nat mid) ^ nat b = N"
    by linarith
  then show ?case
  proof cases
    case 1
    with step run have "perfect_search N b low mid = Some a" by (simp add: mid_def)
    then show ?thesis using "1.IH"(1) [OF run mid_def refl] 1 "1.prems"(2) by simp
  next
    case 2
    with step run have "perfect_search N b mid high = Some a" by (simp add: mid_def)
    then show ?thesis using "1.IH"(2) [OF run mid_def refl] 2 "1.prems"(2) mid by simp
  next
    case 3
    with step run have "a = 2 ^ nat mid" by (simp add: mid_def)
    moreover have "1 < nat mid" using mid "1.prems"(2) by linarith
    ultimately show ?thesis using 3 by blast
  qed
qed

lemma perfect_bases_Some:
  "perfect_bases N l b = Some a \<Longrightarrow> 2 \<le> b \<Longrightarrow> \<exists>k c. 1 < k \<and> 2 \<le> c \<and> a = 2 ^ k \<and> N = a ^ c"
proof (induction N l b rule: perfect_bases.induct)
  case (1 N l b)
  show ?case
  proof (cases "perfect_search N b 1 (bigDiv l b)")
    case None
    then show ?thesis using 1 by (auto simp: perfect_bases.simps [of N l b] split: if_splits)
  next
    case (Some a')
    then have "a' = a" using 1(2) by (simp add: perfect_bases.simps [of N l b] split: if_splits)
    moreover have "2 \<le> nat b" using 1(3) by linarith
    ultimately show ?thesis using perfect_search_Some [OF Some] by force
  qed
qed

lemma IsPerfectPower_Some:
  "IsPerfectPower (Some N) = Some a \<Longrightarrow> \<exists>k c. 1 < k \<and> 2 \<le> c \<and> a = 2 ^ k \<and> N = a ^ c"
  by (auto simp: IsPerfectPower_def dest: perfect_bases_Some)

lemma IsPerfectPower_smaller: "IsPerfectPower (Some N) = Some a \<Longrightarrow> 0 < a \<and> a < N"
proof -
  assume "IsPerfectPower (Some N) = Some a"
  then obtain k c where k: "1 < (k :: nat)" and c: "2 \<le> (c :: nat)" and a: "a = 2 ^ k" "N = a ^ c"
    using IsPerfectPower_Some by blast
  have "1 < a" using k a by simp
  moreover have "a ^ 1 < a ^ c" using \<open>1 < a\<close> c by (intro power_strict_increasing) auto
  ultimately show ?thesis using a by simp
qed

text \<open>\<open>pp\<close> is \<^verbatim>\<open>ProbablyPrime(PrimeTestTimes)\<close>.\<close>

function IsPerfectPowerOfPrime :: "(int \<Rightarrow> bool) \<Rightarrow> int option \<Rightarrow> bool" where
  "IsPerfectPowerOfPrime pp Ntilde =
     (case IsPerfectPower Ntilde of
        None \<Rightarrow> False
      | Some a \<Rightarrow> if pp a then True else IsPerfectPowerOfPrime pp (Some a))"
  by pat_completeness auto
termination
proof (relation "measure (\<lambda>(pp, n). case n of None \<Rightarrow> 0 | Some N \<Rightarrow> nat N)")
  fix pp :: "int \<Rightarrow> bool" and n :: "int option" and a
  assume "IsPerfectPower n = Some a"
  then show "((pp, Some a), (pp, n)) \<in> measure (\<lambda>(pp, n). case n of None \<Rightarrow> 0 | Some N \<Rightarrow> nat N)"
    by (cases n) (auto simp: IsPerfectPower_def [of None] dest: IsPerfectPower_smaller)
qed simp

declare IsPerfectPowerOfPrime.simps [simp del]

definition CheckPrime :: "(int \<Rightarrow> bool) \<Rightarrow> int option \<Rightarrow> bool" where
  "CheckPrime pp Ntilde =
     (case Ntilde of
        None \<Rightarrow> False
      | Some N \<Rightarrow>
          if N \<le> 0 then False
          else if bigMod N 2 = 0 then False
          else if pp N then False
          else \<not> IsPerfectPowerOfPrime pp (Some N))"

section \<open>Duplicates and concatenation\<close>

definition fmt_v :: "int option \<Rightarrow> string" where
  "fmt_v x = (case x of None \<Rightarrow> ''<nil>'' | Some i \<Rightarrow> show_int i)"

definition ContainsDuplicate :: "int option list \<Rightarrow> bool res" where
  "ContainsDuplicate ids =
     (if ids = [] then Err ''input param error''
      else let numMap = fold (\<lambda>v m. AList.update (ToLower (fmt_v v)) (1::int) m) ids []
           in Ok (length numMap \<noteq> length ids))"

text \<open>The second argument of \<^verbatim>\<open>joinInt\<close> only sizes the buffer: \<^verbatim>\<open>make\<close> panics on a negative capacity.\<close>

definition joinInt :: "int list \<Rightarrow> int \<Rightarrow> int option res" where
  "joinInt ins diff =
     (if ins = [] then Ok None
      else let ptrs = map Bytes ins; bzSize = sum_list (map (int \<circ> length) ptrs)
           in if bzSize + diff < 0 then Panic ''makeslice: cap out of range''
              else Ok (Some (SetBytes (concat ptrs))))"

section \<open>Lemmas on the hash input\<close>

lemma length_put_bytes [simp]: "length (put_bytes k v) = k"
  by (induction k arbitrary: v) auto

lemma length_PutUint64 [simp]: "length (PutUint64 n) = 8"
  by (simp add: PutUint64_def)

lemma append_delimiter_inj:
  "d \<notin> set as \<Longrightarrow> d \<notin> set bs \<Longrightarrow> as @ d # r = bs @ d # r' \<Longrightarrow> as = bs \<and> r = r'"
proof (induction as arbitrary: bs)
  case Nil
  then show ?case by (cases bs) auto
next
  case (Cons a as)
  then show ?case by (cases bs) auto
qed

lemma delimited_concat_inj:
  assumes "\<forall>x \<in> set xs. d \<notin> set (f x)" "\<forall>y \<in> set ys. d \<notin> set (f y)"
    and "concat (map (\<lambda>x. f x @ [d]) xs) = concat (map (\<lambda>y. f y @ [d]) ys)"
  shows "map f xs = map f ys"
  using assms
proof (induction xs arbitrary: ys)
  case Nil
  then show ?case by (cases ys) auto
next
  case (Cons x xs)
  then obtain y ys' where ys: "ys = y # ys'" by (cases ys) auto
  let ?r = "concat (map (\<lambda>x. f x @ [d]) xs)" and ?r' = "concat (map (\<lambda>y. f y @ [d]) ys')"
  have eq: "f x @ d # ?r = f y @ d # ?r'" using Cons.prems(3) ys by simp
  have "d \<notin> set (f x)" "d \<notin> set (f y)" using Cons.prems ys by auto
  then have "f x = f y \<and> ?r = ?r'" using eq by (rule append_delimiter_inj)
  moreover from this have "map f xs = map f ys'" using Cons.IH [of ys'] Cons.prems(1,2) ys by simp
  ultimately show ?case using ys by simp
qed

lemma Bytes_inj: "0 \<le> x \<Longrightarrow> 0 \<le> y \<Longrightarrow> Bytes x = Bytes y \<Longrightarrow> x = y"
  by (metis SetBytes_Bytes abs_of_nonneg)

lemma map_Bytes_inj:
  "\<forall>x \<in> set xs. 0 \<le> x \<Longrightarrow> \<forall>y \<in> set ys. 0 \<le> y \<Longrightarrow> map Bytes xs = map Bytes ys \<Longrightarrow> xs = ys"
  by (rule map_inj_on) (auto intro!: inj_onI Bytes_inj)

section \<open>Lemmas on sampling\<close>

lemma relprime_loop_range:
  "relprime_loop n tape = Ok (t, rest) \<Longrightarrow> 0 < n \<Longrightarrow> 1 \<le> t \<and> t < n \<and> gcd t n = 1"
  by (induction n tape rule: relprime_loop.induct)
    (auto simp: IsNumberInMultiplicativeGroup_def MustGetRandomInt_def split: if_splits prod.splits)

lemma MustGetRandomInt_hit:
  "0 < bits \<Longrightarrow> bits \<le> mustGetRandomIntMaxBits \<Longrightarrow> 0 \<le> r \<Longrightarrow> r < 2 ^ nat bits - 1 \<Longrightarrow>
   MustGetRandomInt bits (r # rest) = Ok (r, rest)"
  by (simp add: MustGetRandomInt_def)

lemma MustGetRandomInt_Cons:
  "0 < bits \<Longrightarrow> bits \<le> mustGetRandomIntMaxBits \<Longrightarrow>
   MustGetRandomInt bits (x # xs) = Ok (x mod (2 ^ nat bits - 1), xs)"
  by (simp add: MustGetRandomInt_def)

lemma relprime_loop_returns:
  assumes "1 \<le> r" "r < n" "gcd r n = 1" "r < 2 ^ BitLen n - 1" "int (BitLen n) \<le> 5000"
    and "r \<in> set tape"
  shows "\<exists>t rest. relprime_loop n tape = Ok (t, rest)"
  using assms(6)
proof (induction tape)
  case Nil
  then show ?case by simp
next
  case (Cons x xs)
  have pos: "0 < int (BitLen n)" using assms(1,2) BitLen_pos [of n] by simp
  show ?case
  proof (cases "x = r")
    case True
    then show ?thesis using assms(1-5) pos
      by (simp add: MustGetRandomInt_hit mustGetRandomIntMaxBits_def IsNumberInMultiplicativeGroup_def)
  next
    case False
    then show ?thesis using Cons assms(5) pos
      by (simp add: MustGetRandomInt_Cons mustGetRandomIntMaxBits_def)
  qed
qed

section \<open>Lemmas on Euclid's algorithm\<close>

lemma euclid_loop_bezout:
  assumes "A * x2 + B * y2 = a" "A * x1 + B * y1 = b" "euclid_loop a b x2 x1 y2 y1 = (g, x, y)"
  shows "A * x + B * y = g"
  using assms
proof (induction a b x2 x1 y2 y1 rule: euclid_loop.induct)
  case (1 a b x2 x1 y2 y1)
  show ?case
  proof (cases "b \<le> 0")
    case True
    with 1 show ?thesis by (simp add: euclid_loop.simps)
  next
    case False
    let ?q = "bigDiv a b"
    have "A * (x2 - ?q * x1) + B * (y2 - ?q * y1) = (A * x2 + B * y2) - ?q * (A * x1 + B * y1)"
      by (simp add: algebra_simps)
    also have "\<dots> = a - ?q * b" using "1.prems" by simp
    finally show ?thesis
      using "1.IH" [OF False refl refl refl refl refl refl refl] "1.prems" False
      by (simp add: euclid_loop.simps [of a b] Let_def)
  qed
qed

lemma euclid_loop_gcd: "0 \<le> a \<Longrightarrow> 0 \<le> b \<Longrightarrow> fst (euclid_loop a b x2 x1 y2 y1) = gcd a b"
proof (induction a b x2 x1 y2 y1 rule: euclid_loop.induct)
  case (1 a b x2 x1 y2 y1)
  show ?case
  proof (cases "b \<le> 0")
    case True
    with 1 show ?thesis by (simp add: euclid_loop.simps)
  next
    case False
    then have r: "a - bigDiv a b * b = a mod b" by (simp add: minus_div_mult_eq_mod)
    have "fst (euclid_loop b (a - bigDiv a b * b) x1 (x2 - bigDiv a b * x1) y1 (y2 - bigDiv a b * y1))
        = gcd b (a mod b)"
      using "1.IH" [OF False refl refl refl refl refl refl refl] "1.prems" False unfolding r by simp
    with False show ?thesis
      by (simp add: euclid_loop.simps [of a b] Let_def gcd_red_int [symmetric])
  qed
qed

lemma EuclideanAlgorithm_spec:
  "0 \<le> b \<Longrightarrow> b \<le> a \<Longrightarrow>
   \<exists>x y. EuclideanAlgorithm (Some a) (Some b) = Some (gcd a b, x, y) \<and> a * x + b * y = gcd a b"
proof -
  assume b: "0 \<le> b" and a: "b \<le> a"
  obtain g x y where e: "euclid_loop a b 1 0 0 1 = (g, x, y)" by (metis prod_cases3)
  have "a * x + b * y = g" by (rule euclid_loop_bezout [OF _ _ e]) auto
  moreover have "g = gcd a b" using euclid_loop_gcd [of a b 1 0 0 1] a b e by simp
  ultimately show ?thesis using a b e by (auto simp: EuclideanAlgorithm_def)
qed

section \<open>Lemmas on square roots and duplicates\<close>

lemma crt_square:
  assumes "eqm p (r * r) roh" "eqm q (s * s) roh" "p * c + q * d = 1" "u = 1 \<or> u = (-1::int)"
  shows "eqm (p * q) ((q * d * r + u * (p * c * s)) ^ 2) roh"
proof (rule eqm_crt)
  have u: "u * u = 1" using assms(4) by auto
  have "eqm p (q * d) 1" using assms(3) by (simp add: eqm_def) (metis add_diff_cancel_right' dvd_minus_iff dvd_triv_left minus_diff_eq)
  then have "eqm p ((q * d) * (q * d) * (r * r)) (1 * 1 * roh)" by (intro eqm_mult assms(1))
  moreover have "eqm p ((q * d * r + u * (p * c * s)) ^ 2) ((q * d) * (q * d) * (r * r))"
    by (simp add: eqm_def power2_eq_square algebra_simps)
  ultimately show "eqm p ((q * d * r + u * (p * c * s)) ^ 2) roh" using eqm_trans by fastforce
  have "eqm q (p * c) 1" using assms(3) by (simp add: eqm_def) (metis add_diff_cancel_left' dvd_minus_iff dvd_triv_left minus_diff_eq)
  then have "eqm q ((p * c) * (p * c) * (s * s)) (1 * 1 * roh)" by (intro eqm_mult assms(2))
  moreover have "(q * d * r + u * (p * c * s)) ^ 2 =
      q * (q * d * r * (d * r) + 2 * u * d * r * (p * c * s)) + (u * u) * ((p * c) * (p * c) * (s * s))"
    by (simp add: power2_eq_square algebra_simps)
  then have "eqm q ((q * d * r + u * (p * c * s)) ^ 2) ((p * c) * (p * c) * (s * s))"
    unfolding u by (simp add: eqm_def)
  ultimately show "eqm q ((q * d * r + u * (p * c * s)) ^ 2) roh" using eqm_trans by fastforce
  show "coprime p q" using assms(3) by (metis coprimeI dvd_add dvd_mult2 )
qed

lemma keys_fold_update:
  "set (map fst (fold (\<lambda>v m. AList.update (f v) (1::int) m) xs m0)) = set (map fst m0) \<union> f ` set xs"
  by (induction xs arbitrary: m0) (auto simp: dom_update)

lemma distinct_fold_update:
  "distinct (map fst m0) \<Longrightarrow>
   distinct (map fst (fold (\<lambda>v m. AList.update (f v) (1::int) m) xs m0))"
  by (induction xs arbitrary: m0) (auto simp: distinct_update)

lemma length_fold_update:
  "length (fold (\<lambda>v m. AList.update (f v) (1::int) m) xs []) = card (f ` set xs)"
  using keys_fold_update [of f xs "[]"] distinct_fold_update [of "[]" f xs]
  by (metis distinct_card distinct.simps(1) length_map list.set(1) list.simps(8) sup_bot_left)

lemma ToLower_nil: "ToLower ''<nil>'' = ''<nil>''"
  by (simp add: ToLower_def to_lower_char_def)

lemma show_int_not_nil: "show_int i \<noteq> ''<nil>''"
proof
  assume "show_int i = ''<nil>''"
  then have "CHR ''<'' \<in> set (show_int i)" by simp
  from set_show_int [OF this] show False by simp
qed

lemma fmt_v_inj: "ToLower (fmt_v x) = ToLower (fmt_v y) \<Longrightarrow> x = y"
  using show_int_not_nil show_int_not_nil [symmetric]
  by (cases x; cases y) (simp_all add: fmt_v_def ToLower_nil)

section \<open>Properties\<close>

text \<open>On inputs none of whose bytes is the delimiter, the byte string hashed by
  \<^verbatim>\<open>Sha512_256\<close> determines the list of (non-negative) integers.\<close>

theorem sha_input_injective:
  assumes "\<forall>x \<in> set xs. 0 \<le> x \<and> hashInputDelimiter \<notin> set (Bytes x)"
    and "\<forall>y \<in> set ys. 0 \<le> y \<and> hashInputDelimiter \<notin> set (Bytes y)"
    and "sha_input xs = sha_input ys"
  shows "xs = ys"
proof -
  have "concat (map (\<lambda>n. Bytes n @ [hashInputDelimiter]) xs) =
      concat (map (\<lambda>n. Bytes n @ [hashInputDelimiter]) ys)"
    using assms(3) by (simp add: sha_input_def append_eq_append_conv)
  then have "map Bytes xs = map Bytes ys"
    using assms(1,2) by (intro delimited_concat_inj [where d = hashInputDelimiter]) auto
  then show ?thesis using assms(1,2) by (intro map_Bytes_inj) auto
qed

theorem sha_input_injective_witness: "[1::int, 1 + 1] = [1, 2]"
  by (rule sha_input_injective)
    (simp_all add: Bytes_def bytes_nat.simps byte_of_def hashInputDelimiter_def)

text \<open>The delimiter does not separate arguments that contain its byte: moving a block
  across the boundary of two arguments gives two different argument lists with the same digest,
  whatever the hash function, although the prefix is said to prevent collisions.\<close>

theorem Sha512_256_collision:
  assumes "a \<noteq> []" "hd a \<noteq> 0" "b \<noteq> []" "hd b \<noteq> 0" "c \<noteq> []" "hd c \<noteq> 0"
  shows "Sha512_256 sha [SetBytes (a @ hashInputDelimiter # b), SetBytes c] =
           Sha512_256 sha [SetBytes a, SetBytes (b @ hashInputDelimiter # c)] \<and>
         [SetBytes (a @ hashInputDelimiter # b), SetBytes c] \<noteq>
           [SetBytes a, SetBytes (b @ hashInputDelimiter # c)]"
proof -
  have eqs: "Bytes (SetBytes (a @ hashInputDelimiter # b)) = a @ hashInputDelimiter # b"
    "Bytes (SetBytes c) = c" "Bytes (SetBytes a) = a"
    "Bytes (SetBytes (b @ hashInputDelimiter # c)) = b @ hashInputDelimiter # c"
    using assms by (simp_all add: Bytes_SetBytes)
  then have "SetBytes (a @ hashInputDelimiter # b) \<noteq> SetBytes a"
    by (metis append_self_conv list.distinct(1))
  with eqs show ?thesis by (simp add: Sha512_256_def sha_input_def)
qed

theorem Sha512_256_collision_witness:
  "Sha512_256 (\<lambda>bs. bs) [SetBytes [1, 36, 1], SetBytes [1]] =
     Sha512_256 (\<lambda>bs. bs) [SetBytes [1], SetBytes [1, 36, 1]]"
  using Sha512_256_collision [of "[1]" "[1]" "[1]" "\<lambda>bs. bs"]
  by (simp add: hashInputDelimiter_def)

text \<open>On non-negative arguments in the required order \<^verbatim>\<open>EuclideanAlgorithm\<close> returns the
  greatest common divisor with Bezout coefficients.\<close>

theorem EuclideanAlgorithm_correct:
  assumes "0 \<le> b" "b \<le> a"
  shows "\<exists>x y. EuclideanAlgorithm (Some a) (Some b) = Some (gcd a b, x, y) \<and> a * x + b * y = gcd a b"
  using assms by (rule EuclideanAlgorithm_spec)

theorem EuclideanAlgorithm_correct_witness:
  "\<exists>x y. EuclideanAlgorithm (Some 240) (Some 46) = Some (gcd 240 46, x, y) \<and> 240 * x + 46 * y = gcd 240 46"
  using EuclideanAlgorithm_correct [of 46 240] by simp

text \<open>When \<^verbatim>\<open>ModSqrt\<close> returns square roots modulo the coprime factors \<open>q \<le> p\<close>, the four
  numbers of \<^verbatim>\<open>GetTheQuadraticResidueInt\<close> are in \<open>[0, p * q)\<close> and each is a square root of \<open>roh\<close>
  modulo \<open>p * q\<close>, and the code does return them.\<close>

theorem GetTheQuadraticResidueInt_roots:
  assumes "0 < q" "q \<le> p" "gcd p q = 1"
    and "ms roh p = Ok (Some r)" "eqm p (r * r) roh"
    and "ms roh q = Ok (Some s)" "eqm q (s * s) roh"
  shows "\<exists>x nx y ny.
    GetTheQuadraticResidueInt ms (Some roh) (Some (p * q)) (Some p) (Some q) = Ok (Some (x, nx, y, ny)) \<and>
    (\<forall>z \<in> {x, nx, y, ny}. 0 \<le> z \<and> z < p * q \<and> z ^ 2 mod (p * q) = roh mod (p * q))"
proof -
  obtain c d where e: "EuclideanAlgorithm (Some p) (Some q) = Some (1, c, d)" and cd: "p * c + q * d = 1"
    using EuclideanAlgorithm_spec [of q p] assms(1-3) by auto
  have N: "0 < p * q" using assms(1,2) by simp
  define u v where "u = q * d * r + p * c * s" and "v = q * d * r - p * c * s"
  have "eqm (p * q) (u ^ 2) roh" "eqm (p * q) (v ^ 2) roh"
    using crt_square [OF assms(5,7) cd, of 1] crt_square [OF assms(5,7) cd, of "-1"]
    by (simp_all add: u_def v_def)
  moreover have "eqm (p * q) ((- (w mod (p * q)) mod (p * q)) ^ 2) (w ^ 2)"
    "eqm (p * q) ((w mod (p * q)) ^ 2) (w ^ 2)" for w
  proof -
    have "eqm (p * q) (- (w mod (p * q)) mod (p * q)) (- w)"
      by (simp add: eqm_minus)
    from eqm_power [OF this, of 2] show "eqm (p * q) ((- (w mod (p * q)) mod (p * q)) ^ 2) (w ^ 2)"
      by simp
    show "eqm (p * q) ((w mod (p * q)) ^ 2) (w ^ 2)" by (intro eqm_power) simp
  qed
  ultimately have "\<forall>z \<in> {u mod (p * q), - (u mod (p * q)) mod (p * q), v mod (p * q),
      - (v mod (p * q)) mod (p * q)}. 0 \<le> z \<and> z < p * q \<and> z ^ 2 mod (p * q) = roh mod (p * q)"
    using N by (auto intro: eqm_imp_mod_eq eqm_trans)
  moreover have "GetTheQuadraticResidueInt ms (Some roh) (Some (p * q)) (Some p) (Some q) =
      Ok (Some (u mod (p * q), - (u mod (p * q)) mod (p * q), v mod (p * q), - (v mod (p * q)) mod (p * q)))"
    using assms N e by (simp add: GetTheQuadraticResidueInt_def Let_def u_def v_def)
  ultimately show ?thesis by blast
qed

theorem GetTheQuadraticResidueInt_roots_witness:
  "\<exists>x nx y ny.
    GetTheQuadraticResidueInt (\<lambda>a p. Ok (Some 2)) (Some 4) (Some (7 * 5)) (Some 7) (Some 5) =
      Ok (Some (x, nx, y, ny)) \<and>
    (\<forall>z \<in> {x, nx, y, ny}. 0 \<le> z \<and> z < 7 * 5 \<and> z ^ 2 mod (7 * 5) = 4 mod (7 * 5))"
proof -
  have "gcd 7 (5::int) = 1" by code_simp
  then show ?thesis by (rule GetTheQuadraticResidueInt_roots [rotated 2, where r = 2 and s = 2])
      (simp_all add: eqm_mod_iff)
qed

text \<open>\<^verbatim>\<open>IsPerfectPower\<close> only recognises powers of two, so for the odd numbers that reach it
  \<^verbatim>\<open>CheckPrime\<close> only tests primality: every odd composite number is accepted, odd prime powers
  included, although \<^verbatim>\<open>CheckPrime\<close> is documented to reject them.\<close>

theorem CheckPrime_iff: "CheckPrime pp (Some N) \<longleftrightarrow> 0 < N \<and> odd N \<and> \<not> pp N"
proof -
  have "IsPerfectPower (Some N) = None" if "odd N"
  proof (rule ccontr)
    assume "IsPerfectPower (Some N) \<noteq> None"
    then obtain a where "IsPerfectPower (Some N) = Some a" by blast
    then obtain k c where "1 < (k :: nat)" "2 \<le> (c :: nat)" "N = (2 ^ k) ^ c"
      using IsPerfectPower_Some by blast
    then show False using that by simp
  qed
  then have "odd N \<Longrightarrow> \<not> IsPerfectPowerOfPrime pp (Some N)"
    by (simp add: IsPerfectPowerOfPrime.simps)
  then show ?thesis by (auto simp: CheckPrime_def even_iff_mod_2_eq_zero)
qed

text \<open>\<^verbatim>\<open>ContainsDuplicate\<close> answers whether a non-empty list of identifiers has a repetition.\<close>

theorem ContainsDuplicate_iff:
  "ContainsDuplicate ids = (if ids = [] then Err ''input param error'' else Ok (\<not> distinct ids))"
proof -
  have "card ((\<lambda>v. ToLower (fmt_v v)) ` set ids) = card (set ids)"
    by (intro card_image inj_onI) (rule fmt_v_inj)
  moreover have "card (set ids) = length ids \<longleftrightarrow> distinct ids"
    by (metis card_distinct distinct_card)
  ultimately show ?thesis by (simp add: ContainsDuplicate_def length_fold_update)
qed

end
