(* ===== verification/Vss2.thy ===== *)
theory Vss2
  imports Curve IntUtil
begin

text \<open>
  \<^verbatim>\<open>smpc-lib/crypto/ec2/vss2.go\<close>: Feldman's verifiable secret sharing over the scalars modulo the
  group order.  \<open>Vss2Init\<close> draws the polynomial and commits to its coefficients, \<open>Vss2\<close>
  evaluates it at the identifiers of the parties, \<open>Verify2\<close> checks a share against the
  commitments and \<open>Combine2\<close> interpolates at 0.
\<close>

section \<open>The code\<close>

record ShareStruct2 =
  ss_ID :: "int option"
  ss_Share :: "int option"

definition GetSharesID :: "ShareStruct2 option \<Rightarrow> int option" where
  "GetSharesID ss = (case ss of None \<Rightarrow> None | Some ss \<Rightarrow> ss_ID ss)"

text \<open>A point is stored in \<^verbatim>\<open>PolyG\<close> as the slice of its two coordinates.\<close>

definition pair_slice :: "point \<Rightarrow> int option list" where
  "pair_slice p = (case p of None \<Rightarrow> [None, None] | Some (x, y) \<Rightarrow> [Some x, Some y])"

definition slice_pair :: "int option list \<Rightarrow> point res" where
  "slice_pair s = bindr (slice_get s 0) (\<lambda>x. bindr (slice_get s 1) (\<lambda>y.
     Ok (case (x, y) of (Some x, Some y) \<Rightarrow> Some (x, y) | _ \<Rightarrow> None)))"

fun poly_coeffs :: "Curve \<Rightarrow> nat \<Rightarrow> tape \<Rightarrow> ((int list \<times> int option list list) \<times> tape) res" where
  "poly_coeffs E 0 tape = Ok (([], []), tape)"
| "poly_coeffs E (Suc k) tape =
     bindr (GetRandomIntFromZn (cN E) tape) (\<lambda>(rndInt, tape).
     bindr (ScalarBaseMult E (Bytes rndInt)) (\<lambda>pt.
     bindr (poly_coeffs E k tape) (\<lambda>((poly, polyG), tape).
       Ok ((rndInt # poly, pair_slice pt # polyG), tape))))"

definition Vss2Init :: "Curve \<Rightarrow> int option \<Rightarrow> int \<Rightarrow> tape \<Rightarrow>
    ((int list \<times> int option list list) \<times> tape) res" where
  "Vss2Init E secret t tape =
     (case secret of
        None \<Rightarrow> Err ''param error''
      | Some secret \<Rightarrow>
          if t \<le> 1 then Err ''param error''
          else bindr (ScalarBaseMult E (Bytes secret)) (\<lambda>pt.
               bindr (poly_coeffs E (nat (t - 1)) tape) (\<lambda>((poly, polyG), tape).
                 Ok ((secret # poly, pair_slice pt # polyG), tape))))"

text \<open>Horner's rule from the last coefficient; the empty slice is \<^verbatim>\<open>nil\<close>.\<close>

definition calculatePolynomial2 :: "Curve \<Rightarrow> int list \<Rightarrow> int option \<Rightarrow> int res" where
  "calculatePolynomial2 E poly idv =
     (if poly = [] then Err ''param error''
      else case idv of
        None \<Rightarrow> Err ''param error''
      | Some idv \<Rightarrow>
          let idnum = idv mod cN E
          in if idnum = 0 \<or> idv = 0
             then Err ''id can not be equal to 0 or 0 modulo the order of the curve''
             else Ok (fold (\<lambda>c result. (result * idv + c) mod cN E) (rev (butlast poly)) (last poly)))"

definition Vss2 :: "Curve \<Rightarrow> int list \<Rightarrow> int option list \<Rightarrow> ShareStruct2 list res" where
  "Vss2 E poly ids =
     (if ids = [] then Err ''param error''
      else case ContainsDuplicate ids of
        Ok False \<Rightarrow>
          mapM (\<lambda>idv. bindr (calculatePolynomial2 E poly idv) (\<lambda>shareVal.
            Ok \<lparr>ss_ID = idv, ss_Share = Some shareVal\<rparr>)) ids
      | _ \<Rightarrow> Err ''param error'')"

text \<open>One iteration of the loop of \<^verbatim>\<open>Verify2\<close>; the state is the running point and \<^verbatim>\<open>idVal\<close>.\<close>

definition Verify2_step :: "Curve \<Rightarrow> int option \<Rightarrow> point \<times> int option \<Rightarrow> int option list \<Rightarrow>
    (point \<times> int option) res" where
  "Verify2_step E ID st g =
     (case st of (computePoint, idVal) \<Rightarrow>
        bindr (slice_pair g) (\<lambda>gi.
        bindr (deref idVal) (\<lambda>v.
        bindr (ScalarMult E gi (Bytes v)) (\<lambda>pt.
        bindr (Add E computePoint pt) (\<lambda>c.
        bindr (deref ID) (\<lambda>idv. Ok (c, Some ((v * idv) mod cN E))))))))"

definition Verify2 :: "Curve \<Rightarrow> ShareStruct2 \<Rightarrow> int option list list \<Rightarrow> bool res" where
  "Verify2 E share PolyG =
     bindr (slice_get PolyG 0) (\<lambda>g0.
     bindr (slice_pair g0) (\<lambda>p0.
     bindr (foldM (Verify2_step E (ss_ID share)) (p0, ss_ID share) (tl PolyG)) (\<lambda>(computePoint, _).
     bindr (deref (ss_Share share)) (\<lambda>sh.
     bindr (ScalarBaseMult E (Bytes sh)) (\<lambda>originalPoint.
       same_point computePoint originalPoint)))))"

text \<open>The inner loop of \<^verbatim>\<open>Combine2\<close>: the coefficient of share \<open>i\<close>.\<close>

definition Combine2_times :: "Curve \<Rightarrow> int option list \<Rightarrow> nat \<Rightarrow> int option \<Rightarrow> int res" where
  "Combine2_times E xSet i ID =
     foldM (\<lambda>times j.
       if j \<noteq> i then
         bindr (deref (xSet ! j)) (\<lambda>xj.
         bindr (deref ID) (\<lambda>idv.
         let sub = xj - idv
         in case ModInverse sub (cN E) of
              None \<Rightarrow> Err ''calc times fail''
            | Some subInverse \<Rightarrow> Ok ((times * (xj * subInverse)) mod cN E)))
       else Ok times) 1 [0..<length xSet]"

definition Combine2 :: "Curve \<Rightarrow> ShareStruct2 list \<Rightarrow> int res" where
  "Combine2 E shares =
     (if shares = [] then Err ''param error''
      else
        (let xSet = map ss_ID shares
         in foldM (\<lambda>secret i.
              bindr (Combine2_times E xSet i (ss_ID (shares ! i))) (\<lambda>times.
              bindr (deref (ss_Share (shares ! i))) (\<lambda>s.
                Ok ((secret + s * times) mod cN E)))) 0 [0..<length shares]))"

section \<open>Polynomial functions\<close>

text \<open>\<open>polyf n D\<close>: \<open>D\<close> is given by a polynomial with at most \<open>n\<close> coefficients.\<close>

fun polyf :: "nat \<Rightarrow> (int \<Rightarrow> int) \<Rightarrow> bool" where
  "polyf 0 D \<longleftrightarrow> (\<forall>z. D z = 0)"
| "polyf (Suc n) D \<longleftrightarrow> (\<exists>c Q. polyf n Q \<and> (\<forall>z. D z = c + z * Q z))"

lemma polyf_zero: "polyf n (\<lambda>z. 0)"
  by (induction n) (simp, force)

lemma polyf_mono: "polyf n D \<Longrightarrow> n \<le> m \<Longrightarrow> polyf m D"
proof (induction n arbitrary: D m)
  case 0
  then have "D = (\<lambda>z. 0)" by auto
  then show ?case using polyf_zero by simp
next
  case (Suc n)
  obtain c Q where Q: "polyf n Q" "\<forall>z. D z = c + z * Q z" using Suc.prems(1) by auto
  obtain k where k: "m = Suc k" "n \<le> k" using Suc.prems(2) by (cases m) auto
  have "polyf k Q" by (rule Suc.IH [OF Q(1) k(2)])
  then show ?case unfolding k(1) polyf.simps(2) using Q(2) by blast
qed

lemma polyf_add: "polyf n D \<Longrightarrow> polyf n F \<Longrightarrow> polyf n (\<lambda>z. D z + F z)"
proof (induction n arbitrary: D F)
  case (Suc n)
  obtain c Q where "polyf n Q" "\<forall>z. D z = c + z * Q z" using Suc.prems(1) by auto
  moreover obtain d R where "polyf n R" "\<forall>z. F z = d + z * R z" using Suc.prems(2) by auto
  ultimately have "polyf n (\<lambda>z. Q z + R z)" "\<forall>z. D z + F z = (c + d) + z * (Q z + R z)"
    by (auto simp: Suc.IH algebra_simps)
  then show ?case unfolding polyf.simps(2) by blast
qed simp

lemma polyf_scale: "polyf n D \<Longrightarrow> polyf n (\<lambda>z. k * D z)"
proof (induction n arbitrary: D)
  case (Suc n)
  then obtain c Q where "polyf n Q" "\<forall>z. D z = c + z * Q z" by auto
  then have "polyf n (\<lambda>z. k * Q z)" "\<forall>z. k * D z = (k * c) + z * (k * Q z)"
    by (auto simp: Suc.IH algebra_simps)
  then show ?case unfolding polyf.simps(2) by blast
qed simp

lemma polyf_shift: "polyf n D \<Longrightarrow> polyf (Suc n) (\<lambda>z. z * D z)"
  by (simp only: polyf.simps(2)) (metis add_0)

lemma polyf_linear: "polyf n D \<Longrightarrow> polyf (Suc n) (\<lambda>z. (a - z) * D z)"
proof -
  assume D: "polyf n D"
  have "polyf (Suc n) (\<lambda>z. a * D z + (- 1) * (z * D z))"
    by (intro polyf_add polyf_scale polyf_shift polyf_mono [OF D]) (use D in auto)
  then show ?thesis by (simp add: algebra_simps)
qed

lemma polyf_sum: "(\<And>i. i \<in> A \<Longrightarrow> polyf n (D i)) \<Longrightarrow> polyf n (\<lambda>z. \<Sum>i\<in>A. D i z)"
  by (induction A rule: infinite_finite_induct) (auto simp: polyf_zero polyf_add)

lemma polyf_factor: "polyf (Suc n) D \<Longrightarrow> \<exists>Q. polyf n Q \<and> (\<forall>z. D z - D a = (z - a) * Q z)"
proof (induction n arbitrary: D)
  case 0
  then obtain c Q where "\<forall>z. Q z = (0::int)" "\<forall>z. D z = c + z * Q z" by auto
  then show ?case by (intro exI [of _ "\<lambda>z. 0"]) auto
next
  case (Suc n)
  then obtain c Q where Q: "polyf (Suc n) Q" "\<forall>z. D z = c + z * Q z" by (metis polyf.simps(2))
  from Suc.IH [OF Q(1)] obtain R where R: "polyf n R" "\<forall>z. Q z - Q a = (z - a) * R z" by blast
  have "polyf (Suc n) (\<lambda>z. Q z + a * R z)"
    by (intro polyf_add polyf_scale Q(1) polyf_mono [OF R(1)]) simp
  moreover have "D z - D a = (z - a) * (Q z + a * R z)" for z
  proof -
    have "D z - D a = (z - a) * Q z + a * (Q z - Q a)" by (simp add: Q(2) algebra_simps)
    then show ?thesis by (simp add: R(2) algebra_simps)
  qed
  ultimately show ?case by blast
qed

text \<open>Identifiers whose differences are invertible modulo \<open>m\<close>.\<close>

definition unit_diffs :: "int \<Rightarrow> int list \<Rightarrow> bool" where
  "unit_diffs m xs \<longleftrightarrow> (\<forall>i < length xs. \<forall>j < length xs. i \<noteq> j \<longrightarrow> coprime (xs ! i - xs ! j) m)"

lemma coprime_cancel: "coprime u m \<Longrightarrow> eqm m (u * a) 0 \<Longrightarrow> eqm m a 0"
  by (simp add: eqm_0_iff coprime_commute coprime_dvd_mult_right_iff)

lemma unit_diffs_Cons:
  "unit_diffs m (a # xs) \<Longrightarrow> unit_diffs m xs \<and> (\<forall>x \<in> set xs. coprime (x - a) m)"
proof -
  assume u: "unit_diffs m (a # xs)"
  have "coprime (xs ! i - xs ! j) m" if "i < length xs" "j < length xs" "i \<noteq> j" for i j
    using u that unfolding unit_diffs_def by (metis Suc_less_eq length_Cons nth_Cons_Suc old.nat.inject)
  moreover have "coprime (xs ! i - a) m" if "i < length xs" for i
    using u that unfolding unit_diffs_def
    by (metis Suc_less_eq length_Cons nat.distinct(1) nth_Cons_0 nth_Cons_Suc zero_less_Suc)
  ultimately show ?thesis by (auto simp: unit_diffs_def in_set_conv_nth)
qed

text \<open>A polynomial with as many roots as coefficients vanishes.\<close>

lemma polyf_roots:
  "polyf n D \<Longrightarrow> unit_diffs m xs \<Longrightarrow> n \<le> length xs \<Longrightarrow> (\<And>x. x \<in> set xs \<Longrightarrow> eqm m (D x) 0) \<Longrightarrow>
   eqm m (D z) 0"
proof (induction n arbitrary: D xs z)
  case 0
  then show ?case by simp
next
  case (Suc n)
  then obtain a ys where xs: "xs = a # ys" by (cases xs) auto
  obtain Q where Q: "polyf n Q" "\<forall>z. D z - D a = (z - a) * Q z"
    using polyf_factor [OF Suc.prems(1)] by blast
  have "eqm m (Q x) 0" if x: "x \<in> set ys" for x
  proof (rule coprime_cancel)
    show "coprime (x - a) m" using unit_diffs_Cons Suc.prems(2) xs x by blast
    have "eqm m (D x - D a) (0 - 0)" using Suc.prems(4) xs x by (intro eqm_diff) auto
    then show "eqm m ((x - a) * Q x) 0" using Q(2) by simp
  qed
  then have "eqm m (Q z) 0"
    using Suc.IH [OF Q(1), of ys] unit_diffs_Cons Suc.prems(2,3) xs by auto
  then have "eqm m ((z - a) * Q z + D a) ((z - a) * 0 + 0)"
    using Suc.prems(4) xs by (intro eqm_add eqm_mult eqm_refl) auto
  then show ?case using Q(2) by (metis add_0 diff_add_cancel mult_zero_right)
qed

section \<open>Interpolation\<close>

definition basis_poly :: "int list \<Rightarrow> (nat \<Rightarrow> nat \<Rightarrow> int) \<Rightarrow> nat \<Rightarrow> int \<Rightarrow> int" where
  "basis_poly xs w i z = (\<Prod>j \<in> {..<length xs} - {i}. (xs ! j - z) * w i j)"

lemma polyf_prod:
  "finite A \<Longrightarrow> polyf (Suc (card A)) (\<lambda>z. \<Prod>j \<in> A. (a j - z) * (k j :: int))"
proof (induction A rule: finite_induct)
  case empty
  have "\<exists>c Q. (\<forall>z. Q z = 0) \<and> (\<forall>z. (1::int) = c + z * Q z)"
    by (intro exI [of _ 1] exI [of _ "\<lambda>z. 0"]) simp
  then show ?case by simp
next
  case (insert b A)
  have "polyf (Suc (Suc (card A))) (\<lambda>z. k b * ((a b - z) * (\<Prod>j \<in> A. (a j - z) * k j)))"
    by (rule polyf_scale [OF polyf_linear [OF insert.IH]])
  moreover have "card (insert b A) = Suc (card A)" using insert.hyps by simp
  moreover have "(\<lambda>z. \<Prod>j \<in> insert b A. (a j - z) * k j) =
      (\<lambda>z. k b * ((a b - z) * (\<Prod>j \<in> A. (a j - z) * k j)))"
    using insert.hyps by (simp add: mult.assoc mult.left_commute fun_eq_iff)
  ultimately show ?case by (simp only:)
qed

lemma polyf_basis: "i < length xs \<Longrightarrow> polyf (length xs) (basis_poly xs w i)"
  using polyf_prod [of "{..<length xs} - {i}" "\<lambda>j. xs ! j" "w i"]
  by (cases "length xs") (auto simp: basis_poly_def [abs_def])

lemma basis_poly_other: "i < length xs \<Longrightarrow> k < length xs \<Longrightarrow> i \<noteq> k \<Longrightarrow> basis_poly xs w i (xs ! k) = 0"
  unfolding basis_poly_def by (intro prod_zero) auto

lemma basis_poly_same:
  assumes "\<And>j. j < length xs \<Longrightarrow> j \<noteq> i \<Longrightarrow> eqm m ((xs ! j - xs ! i) * w i j) 1"
  shows "eqm m (basis_poly xs w i (xs ! i)) 1"
proof -
  have "eqm m (\<Prod>j \<in> {..<length xs} - {i}. (xs ! j - xs ! i) * w i j)
      (\<Prod>j \<in> {..<length xs} - {i}. 1)"
    by (rule eqm_prod) (use assms in auto)
  then show ?thesis by (simp add: basis_poly_def)
qed

lemma interpolation:
  assumes f: "polyf t f" "t \<le> length xs" and u: "unit_diffs m xs"
    and w: "\<And>i j. i < length xs \<Longrightarrow> j < length xs \<Longrightarrow> j \<noteq> i \<Longrightarrow> eqm m ((xs ! j - xs ! i) * w i j) 1"
    and s: "\<And>i. i < length xs \<Longrightarrow> eqm m (s i) (f (xs ! i))"
  shows "eqm m (\<Sum>i<length xs. s i * basis_poly xs w i z) (f z)"
proof -
  let ?D = "\<lambda>z. (\<Sum>i<length xs. s i * basis_poly xs w i z) + (- 1) * f z"
  have "polyf (length xs) ?D"
    by (intro polyf_add polyf_sum polyf_scale polyf_basis polyf_mono [OF f]) auto
  moreover have "eqm m (?D x) 0" if x: "x \<in> set xs" for x
  proof -
    obtain k where k: "k < length xs" "x = xs ! k" using x by (auto simp: in_set_conv_nth)
    have "(\<Sum>i<length xs. s i * basis_poly xs w i x) =
        s k * basis_poly xs w k x + (\<Sum>i \<in> {..<length xs} - {k}. s i * basis_poly xs w i x)"
      using k(1) by (intro sum.remove) auto
    also have "(\<Sum>i \<in> {..<length xs} - {k}. s i * basis_poly xs w i x) = 0"
      using k by (intro sum.neutral) (auto simp: basis_poly_other)
    finally have eq: "?D x = s k * basis_poly xs w k x + (- 1) * f x" by simp
    have "eqm m (s k * basis_poly xs w k x + (- 1) * f x) (f x * 1 + (- 1) * f x)"
      unfolding k(2) by (intro eqm_add eqm_mult eqm_refl s k(1) basis_poly_same w)
    then show ?thesis unfolding eq by simp
  qed
  ultimately have "eqm m (?D z) 0" by (rule polyf_roots [OF _ u order_refl])
  then show ?thesis by (simp add: eqm_def)
qed

section \<open>Combine2 interpolates\<close>

lemma foldM_times:
  assumes N: "0 < cN E" and w: "\<And>j. j \<in> set js \<Longrightarrow> j \<noteq> i \<Longrightarrow> ModInverse (xs ! j - xs ! i) (cN E) = Some (w j)"
    and "distinct js"
  shows "\<exists>v. foldM (\<lambda>times j. if j \<noteq> i then (let sub = xs ! j - xs ! i
          in case ModInverse sub (cN E) of None \<Rightarrow> Err ''calc times fail''
             | Some subInverse \<Rightarrow> Ok ((times * (xs ! j * subInverse)) mod cN E)) else Ok times) t js = Ok v \<and>
      eqm (cN E) v (t * (\<Prod>j \<in> set js - {i}. xs ! j * w j))"
  using w assms(3)
proof (induction js arbitrary: t)
  case Nil
  then show ?case by simp
next
  case (Cons j js)
  show ?case
  proof (cases "j = i")
    case True
    then have "set (j # js) - {i} = set js - {i}" by auto
    then show ?thesis using Cons True by simp
  next
    case False
    let ?t = "(t * (xs ! j * w j)) mod cN E"
    obtain v where v: "foldM (\<lambda>times j. if j \<noteq> i then (let sub = xs ! j - xs ! i
          in case ModInverse sub (cN E) of None \<Rightarrow> Err ''calc times fail''
             | Some subInverse \<Rightarrow> Ok ((times * (xs ! j * subInverse)) mod cN E)) else Ok times) ?t js = Ok v"
      and eq: "eqm (cN E) v (?t * (\<Prod>j \<in> set js - {i}. xs ! j * w j))"
      using Cons.IH [of ?t] Cons.prems by auto
    have "set (j # js) - {i} = insert j (set js - {i})" "j \<notin> set js - {i}"
      using False Cons.prems(2) by auto
    then have "(\<Prod>j \<in> set (j # js) - {i}. xs ! j * w j) = (xs ! j * w j) * (\<Prod>j \<in> set js - {i}. xs ! j * w j)"
      by simp
    moreover have "eqm (cN E) (?t * (\<Prod>j \<in> set js - {i}. xs ! j * w j))
        ((t * (xs ! j * w j)) * (\<Prod>j \<in> set js - {i}. xs ! j * w j))"
      by (intro eqm_mult eqm_refl) simp
    ultimately have "eqm (cN E) v (t * (\<Prod>j \<in> set (j # js) - {i}. xs ! j * w j))"
      using eqm_trans [OF eq] by (simp add: mult.assoc)
    moreover have "ModInverse (xs ! j - xs ! i) (cN E) = Some (w j)" using False Cons.prems by simp
    ultimately show ?thesis using False v by (simp add: Let_def)
  qed
qed

lemma Combine2_times_Some:
  "Combine2_times E (map Some xs) i (Some x) =
     foldM (\<lambda>times j. if j \<noteq> i then (let sub = xs ! j - x in case ModInverse sub (cN E) of None \<Rightarrow> Err ''calc times fail''
       | Some subInverse \<Rightarrow> Ok ((times * (xs ! j * subInverse)) mod cN E)) else Ok times) 1 [0..<length xs]"
  unfolding Combine2_times_def by (auto intro!: foldM_cong)

lemma Combine2_times_ok:
  assumes N: "0 < cN E" and i: "i < length xs"
    and w: "\<And>j. j < length xs \<Longrightarrow> j \<noteq> i \<Longrightarrow> ModInverse (xs ! j - xs ! i) (cN E) = Some (w i j)"
  shows "\<exists>v. Combine2_times E (map Some xs) i (Some (xs ! i)) = Ok v \<and> eqm (cN E) v (basis_poly xs w i 0)"
  using foldM_times [of E "[0..<length xs]" i xs "w i" 1] assms
  by (auto simp: Combine2_times_Some basis_poly_def atLeast_upt [symmetric] lessThan_atLeast0)

lemma foldM_sum:
  assumes "0 < m" "\<And>i. i \<in> set is \<Longrightarrow> \<exists>v. T i = Ok v \<and> eqm m v (b i)"
    "\<And>i. i \<in> set is \<Longrightarrow> S i = Some (s i)"
  shows "foldM (\<lambda>acc i. bindr (T i) (\<lambda>times. bindr (deref (S i)) (\<lambda>s. Ok ((acc + s * times) mod m)))) (a mod m) is =
    Ok ((a + (\<Sum>i\<leftarrow>is. s i * b i)) mod m)"
  using assms(2,3)
proof (induction "is" arbitrary: a)
  case Nil
  then show ?case by simp
next
  case (Cons i js)
  obtain v where v: "T i = Ok v" "eqm m v (b i)" using Cons.prems(1) by auto
  have "eqm m (a mod m + s i * v) (a + s i * b i)" by (intro eqm_add eqm_mult v(2) eqm_refl) simp
  then have step: "(a mod m + s i * v) mod m = (a + s i * b i) mod m" by (rule eqm_imp_mod_eq)
  have "foldM (\<lambda>acc i. bindr (T i) (\<lambda>times. bindr (deref (S i)) (\<lambda>s. Ok ((acc + s * times) mod m))))
      ((a + s i * b i) mod m) js = Ok ((a + s i * b i + (\<Sum>i\<leftarrow>js. s i * b i)) mod m)"
    using Cons.prems by (intro Cons.IH) auto
  then show ?case using v Cons.prems(2) [of i] step by (simp add: add.assoc)
qed

lemma Combine2_interpolates:
  assumes N: "1 < cN E" and f: "polyf t f" "t \<le> length xs" and ne: "xs \<noteq> []"
    and u: "unit_diffs (cN E) xs"
    and s: "\<And>x. x \<in> set xs \<Longrightarrow> eqm (cN E) (s x) (f x)"
  shows "Combine2 E (map (\<lambda>x. \<lparr>ss_ID = Some x, ss_Share = Some (s x)\<rparr>) xs) = Ok (f 0 mod cN E)"
proof -
  let ?sh = "map (\<lambda>x. \<lparr>ss_ID = Some x, ss_Share = Some (s x)\<rparr>) xs"
  define w where "w i j = the (ModInverse (xs ! j - xs ! i) (cN E))" for i j
  have w: "ModInverse (xs ! j - xs ! i) (cN E) = Some (w i j)"
    if "i < length xs" "j < length xs" "j \<noteq> i" for i j
  proof -
    have "gcd (xs ! j - xs ! i) (cN E) = 1" using u that by (simp add: unit_diffs_def)
    then obtain v where "ModInverse (xs ! j - xs ! i) (cN E) = Some v"
      using ModInverse_coprime [of "cN E" "xs ! j - xs ! i"] N by auto
    then show ?thesis by (simp add: w_def)
  qed
  have "foldM (\<lambda>secret i. bindr (Combine2_times E (map Some xs) i (Some (xs ! i))) (\<lambda>times.
      bindr (deref (ss_Share (?sh ! i))) (\<lambda>s. Ok ((secret + s * times) mod cN E)))) (0 mod cN E) [0..<length xs] =
      Ok ((0 + (\<Sum>i\<leftarrow>[0..<length xs]. s (xs ! i) * basis_poly xs w i 0)) mod cN E)"
    using N w by (intro foldM_sum Combine2_times_ok) auto
  moreover have "foldM (\<lambda>secret i. bindr (Combine2_times E (map ss_ID ?sh) i (ss_ID (?sh ! i))) (\<lambda>times.
      bindr (deref (ss_Share (?sh ! i))) (\<lambda>s. Ok ((secret + s * times) mod cN E)))) 0 [0..<length ?sh] =
      foldM (\<lambda>secret i. bindr (Combine2_times E (map Some xs) i (Some (xs ! i))) (\<lambda>times.
      bindr (deref (ss_Share (?sh ! i))) (\<lambda>s. Ok ((secret + s * times) mod cN E)))) 0 [0..<length xs]"
    by (auto simp: comp_def intro!: foldM_cong)
  ultimately have "Combine2 E ?sh = Ok ((\<Sum>i<length xs. s (xs ! i) * basis_poly xs w i 0) mod cN E)"
    using ne by (simp add: Combine2_def Let_def sum_list_distinct_conv_sum_set lessThan_atLeast0)
  moreover have "eqm (cN E) (\<Sum>i<length xs. s (xs ! i) * basis_poly xs w i 0) (f 0)"
    using N w s by (intro interpolation [OF f u]) (auto intro: ModInverse_eqm)
  ultimately show ?thesis by (simp add: eqm_imp_mod_eq)
qed

section \<open>Shares are values of the polynomial\<close>

definition peval :: "int list \<Rightarrow> int \<Rightarrow> int" where
  "peval poly z = foldr (\<lambda>c r. c + z * r) poly 0"

lemma peval_simps [simp]: "peval [] z = 0" "peval (c # cs) z = c + z * peval cs z"
  by (simp_all add: peval_def)

lemma polyf_peval: "polyf (length poly) (peval poly)"
proof (induction poly)
  case (Cons c cs)
  have "polyf (length cs) (peval cs)" "\<forall>z. peval (c # cs) z = c + z * peval cs z"
    using Cons by simp_all
  then show ?case unfolding length_Cons polyf.simps(2) by blast
qed simp

lemma peval_0: "poly \<noteq> [] \<Longrightarrow> peval poly 0 = hd poly"
  by (cases poly) auto

lemma peval_append: "peval (cs @ ds) z = peval cs z + z ^ length cs * peval ds z"
  by (induction cs) (auto simp: algebra_simps)

lemma horner_eqm:
  "eqm m (fold (\<lambda>c result. (result * z + c) mod m) (rev cs) r) (peval (cs @ [r]) z)"
proof (induction cs)
  case (Cons c cs)
  let ?h = "fold (\<lambda>c result. (result * z + c) mod m) (rev cs) r"
  have "eqm m (?h * z + c) (peval (cs @ [r]) z * z + c)" by (intro eqm_add eqm_mult Cons eqm_refl)
  then show ?case by (simp add: algebra_simps)
qed simp

lemma calculatePolynomial2_eqm:
  "calculatePolynomial2 E poly (Some x) = Ok v \<Longrightarrow> eqm (cN E) v (peval poly x)"
  using horner_eqm [of "cN E" x "butlast poly" "last poly"]
  by (auto simp: calculatePolynomial2_def Let_def split: if_splits)

lemma calculatePolynomial2_Ok:
  "poly \<noteq> [] \<Longrightarrow> x mod cN E \<noteq> 0 \<Longrightarrow> \<exists>v. calculatePolynomial2 E poly (Some x) = Ok v"
  by (auto simp: calculatePolynomial2_def Let_def)

lemma ContainsDuplicate_eq:
  "ids \<noteq> [] \<Longrightarrow> ContainsDuplicate ids = Ok (\<not> distinct ids)"
proof -
  assume ne: "ids \<noteq> []"
  have "card ((\<lambda>v. ToLower (fmt_v v)) ` set ids) = card (set ids)"
    by (intro card_image inj_onI) (rule fmt_v_inj)
  moreover have "card (set ids) = length ids \<longleftrightarrow> distinct ids"
    by (metis card_distinct distinct_card)
  ultimately show ?thesis using ne by (simp add: ContainsDuplicate_def length_fold_update)
qed

definition the_share :: "Curve \<Rightarrow> int list \<Rightarrow> int \<Rightarrow> int" where
  "the_share E poly x = (case calculatePolynomial2 E poly (Some x) of Ok v \<Rightarrow> v | _ \<Rightarrow> 0)"

lemma Vss2_Ok:
  assumes "poly \<noteq> []" "ids \<noteq> []" "distinct ids" "\<forall>x \<in> set ids. x mod cN E \<noteq> 0"
  shows "Vss2 E poly (map Some ids) =
    Ok (map (\<lambda>x. \<lparr>ss_ID = Some x, ss_Share = Some (the_share E poly x)\<rparr>) ids)"
proof -
  have "ContainsDuplicate (map Some ids) = Ok False"
    using assms(2,3) ContainsDuplicate_eq [of "map Some ids"] by (simp add: distinct_map)
  moreover have "bindr (calculatePolynomial2 E poly (Some x)) (\<lambda>v. Ok \<lparr>ss_ID = Some x, ss_Share = Some v\<rparr>) =
      Ok \<lparr>ss_ID = Some x, ss_Share = Some (the_share E poly x)\<rparr>" if "x \<in> set ids" for x
    using calculatePolynomial2_Ok [OF assms(1), of x E] assms(4) that by (auto simp: the_share_def)
  ultimately show ?thesis using assms(2)
    by (simp add: Vss2_def mapM_Ok_iff list_all2_map1 list_all2_map2 list_all2_same)
qed

lemma the_share_eqm:
  "poly \<noteq> [] \<Longrightarrow> x mod cN E \<noteq> 0 \<Longrightarrow> eqm (cN E) (the_share E poly x) (peval poly x)"
  using calculatePolynomial2_Ok [of poly x E] calculatePolynomial2_eqm [of E poly x]
  by (auto simp: the_share_def)

lemma unit_diffs_prime:
  assumes "is_prime n" "distinct xs" "inj_on (\<lambda>x. x mod n) (set xs)"
  shows "unit_diffs n xs"
  unfolding unit_diffs_def
proof (intro allI impI)
  fix i j assume ij: "i < length xs" "j < length xs" "i \<noteq> j"
  then have "xs ! i \<noteq> xs ! j" using assms(2) by (simp add: nth_eq_iff_index_eq)
  then have "xs ! i mod n \<noteq> xs ! j mod n" using assms(3) ij by (auto dest: inj_onD)
  then have "\<not> n dvd xs ! i - xs ! j" by (simp add: mod_eq_dvd_iff)
  then show "coprime (xs ! i - xs ! j) n"
    using prime_coprime [OF assms(1)] coprime_commute by blast
qed

section \<open>Verification of a share\<close>

lemma slice_pair_pair_slice [simp]: "slice_pair (pair_slice p) = Ok p"
  by (cases p) (auto simp: slice_pair_def pair_slice_def slice_get_def)

text \<open>
  \<open>feldman_chain\<close>: no addition of the verification loop meets two equal or two opposite points, for
  which \<^verbatim>\<open>Add\<close> returns \<^verbatim>\<open>nil\<close>.  \<open>acc\<close> is the discrete logarithm of the running point.
\<close>

fun feldman_chain :: "int \<Rightarrow> int \<Rightarrow> int \<Rightarrow> int \<Rightarrow> int list \<Rightarrow> bool" where
  "feldman_chain n x acc idp [] = True"
| "feldman_chain n x acc idp (c # cs) =
     (let t = c * idp mod n
      in acc \<noteq> t \<and> acc + t \<noteq> n \<and> feldman_chain n x ((acc + t) mod n) (idp * x mod n) cs)"

definition commitments :: "Curve \<Rightarrow> int list \<Rightarrow> int option list list" where
  "commitments E poly = map (\<lambda>c. pair_slice (Some (mulG E c))) poly"

lemma prime_mult_range:
  assumes "is_prime n" "0 < a" "a < n" "0 < b" "b < n"
  shows "0 < a * b mod n" "a * b mod n < n"
proof -
  have "\<not> n dvd a * b" using assms prime_dvd_mult [OF assms(1), of a b] zdvd_not_zless by blast
  then have "a * b mod n \<noteq> 0" by (simp add: dvd_eq_mod_eq_0)
  then show "0 < a * b mod n" "a * b mod n < n"
    using assms pos_mod_sign [of n "a * b"] pos_mod_bound [of n "a * b"] by linarith+
qed

lemma sum_range:
  assumes "0 < a" "a < n" "0 < b" "b < n" "a + b \<noteq> (n::int)"
  shows "0 < (a + b) mod n" "(a + b) mod n < n"
proof -
  have "(a + b) mod n = (if a + b < n then a + b else a + b - n)"
  proof (cases "a + b < n")
    case False
    then have "(a + b - n) mod n = a + b - n" using assms by (intro mod_pos_pos_trivial) auto
    moreover have "(a + b - n) mod n = (a + b) mod n" by (rule minus_mod_self2)
    ultimately show ?thesis using False by simp
  qed (use assms in simp)
  then show "0 < (a + b) mod n" "(a + b) mod n < n" using assms by (auto split: if_splits)
qed

lemma Verify2_loop:
  assumes E: "ec_laws E" and x: "0 < x" "x < cN E"
  shows "0 < acc \<Longrightarrow> acc < cN E \<Longrightarrow> 0 < idp \<Longrightarrow> idp < cN E \<Longrightarrow> \<forall>c \<in> set cs. 0 < c \<and> c < cN E \<Longrightarrow>
    feldman_chain (cN E) x acc idp cs \<Longrightarrow>
    \<exists>v. foldM (Verify2_step E (Some x)) (Some (mulG E acc), Some idp) (commitments E cs) =
      Ok (Some (mulG E ((acc + idp * peval cs x) mod cN E)), v) \<and>
      0 < (acc + idp * peval cs x) mod cN E"
proof (induction cs arbitrary: acc idp)
  case Nil
  then show ?case by (simp add: commitments_def)
next
  case (Cons c cs)
  note p = ec_lawsD(4) [OF E]
  let ?n = "cN E" and ?t = "c * idp mod cN E"
  have t: "0 < ?t" "?t < ?n" using prime_mult_range [OF p] Cons.prems by auto
  have chain: "acc \<noteq> ?t" "acc + ?t \<noteq> ?n" "feldman_chain ?n x ((acc + ?t) mod ?n) (idp * x mod ?n) cs"
    using Cons.prems(6) by (auto simp: Let_def)
  have acc': "0 < (acc + ?t) mod ?n" "(acc + ?t) mod ?n < ?n"
    using sum_range [OF Cons.prems(1,2) t chain(2)] by auto
  have idp': "0 < idp * x mod ?n" "idp * x mod ?n < ?n" using prime_mult_range [OF p Cons.prems(3,4) x] by auto
  have "Verify2_step E (Some x) (Some (mulG E acc), Some idp) (pair_slice (Some (mulG E c))) =
      Ok (Some (mulG E ((acc + ?t) mod ?n)), Some (idp * x mod ?n))"
    using Cons.prems t chain by (simp add: Verify2_step_def ScalarMult_mulG [OF E] Add_mulG [OF E])
  moreover have "((acc + ?t) mod ?n + (idp * x mod ?n) * peval cs x) mod ?n = (acc + idp * peval (c # cs) x) mod ?n"
  proof (rule eqm_imp_mod_eq)
    have "eqm ?n ((acc + ?t) mod ?n + (idp * x mod ?n) * peval cs x) (acc + c * idp + idp * x * peval cs x)"
      by (intro eqm_add eqm_mult eqm_refl) (simp_all add: eqm_add)
    then show "eqm ?n ((acc + ?t) mod ?n + (idp * x mod ?n) * peval cs x) (acc + idp * peval (c # cs) x)"
      by (simp add: algebra_simps)
  qed
  ultimately show ?case
    using Cons.IH [OF acc' idp' _ chain(3)] Cons.prems(5) by (simp add: commitments_def)
qed

lemma Verify2_value:
  assumes E: "ec_laws E" and x: "0 < x" "x < cN E" and sh: "0 < sh" "sh < cN E"
    and poly: "\<forall>c \<in> set (a0 # cs). 0 < c \<and> c < cN E" and chain: "feldman_chain (cN E) x a0 x cs"
  shows "Verify2 E \<lparr>ss_ID = Some x, ss_Share = Some sh\<rparr> (commitments E (a0 # cs)) =
    Ok (sh = peval (a0 # cs) x mod cN E)"
proof -
  let ?v = "(a0 + x * peval cs x) mod cN E"
  obtain v where loop: "foldM (Verify2_step E (Some x)) (Some (mulG E a0), Some x) (commitments E cs) =
      Ok (Some (mulG E ?v), v)" and pos: "0 < ?v"
    using Verify2_loop [OF E x, of a0 x cs] poly chain x by auto
  have lt: "?v < cN E" using sh by simp
  have "(mulG E ?v = mulG E sh) = (sh = ?v)"
    using ec_lawsD(10) [OF E pos lt sh] by auto
  then show ?thesis
    using loop sh
    by (simp add: Verify2_def commitments_def slice_get_def ScalarBaseMult_mulG [OF E] prod_eq_iff
      case_prod_beta)
qed

lemma poly_coeffs_spec:
  assumes E: "ec_laws E"
  shows "poly_coeffs E k tape = Ok ((cs, gs), rest) \<Longrightarrow>
    length cs = k \<and> (\<forall>c \<in> set cs. 0 \<le> c \<and> c < cN E) \<and>
    (0 \<notin> set cs \<longrightarrow> gs = commitments E cs)"
proof (induction k arbitrary: tape cs gs)
  case 0
  then show ?case by (simp add: commitments_def)
next
  case (Suc k)
  then obtain r t1 pt cs' gs' where r: "GetRandomIntFromZn (cN E) tape = Ok (r, t1)"
    and pt: "ScalarBaseMult E (Bytes r) = Ok pt" and rec: "poly_coeffs E k t1 = Ok ((cs', gs'), rest)"
    and eq: "cs = r # cs'" "gs = pair_slice pt # gs'"
    by (auto split: prod.splits)
  have "0 \<le> r" "r < cN E" using GetRandomIntFromZn_range [OF r] by auto
  moreover have "r \<noteq> 0 \<Longrightarrow> pt = Some (mulG E r)"
    using ScalarBaseMult_mulG [OF E, of r] pt calculation by auto
  ultimately show ?case using Suc.IH [OF rec] eq by (auto simp: commitments_def)
qed

section \<open>Properties\<close>

text \<open>C27: secret sharing is correct: from the shares that \<^verbatim>\<open>Vss2\<close> gives to parties with distinct
  residues, any selection of at least as many shares as the polynomial has coefficients is
  combined by \<^verbatim>\<open>Combine2\<close> to the secret modulo the group order, whatever their order.\<close>

theorem Combine2_Vss2:
  assumes "is_prime (cN E)" "poly \<noteq> []" "Vss2 E poly (map Some ids) = Ok shares"
    and "inj_on (\<lambda>x. x mod cN E) (set ids)"
    and "set sel \<subseteq> set shares" "distinct sel" "sel \<noteq> []" "length poly \<le> length sel"
  shows "Combine2 E sel = Ok (hd poly mod cN E)"
proof -
  let ?sh = "\<lambda>x. \<lparr>ss_ID = Some x, ss_Share = Some (the_share E poly x)\<rparr>"
  have ne: "ids \<noteq> []" using assms(3) by (auto simp: Vss2_def)
  have dist: "distinct ids"
    using assms(3) ContainsDuplicate_eq [of "map Some ids"] ne by (auto simp: Vss2_def distinct_map split: bool.splits)
  have nz: "x mod cN E \<noteq> 0" if x: "x \<in> set ids" for x
  proof -
    have "\<exists>v. calculatePolynomial2 E poly (Some x) = Ok v"
      using assms(3) ne x ContainsDuplicate_eq [of "map Some ids"]
      by (auto simp: Vss2_def mapM_Ok_iff list_all2_map1 in_set_conv_nth dest: list_all2_nthD split: bool.splits)
    then show ?thesis by (auto simp: calculatePolynomial2_def Let_def split: if_splits)
  qed
  have sh: "shares = map ?sh ids" using Vss2_Ok [OF assms(2) ne dist] nz assms(3) by simp
  obtain xs where xs: "sel = map ?sh xs" "set xs \<subseteq> set ids"
  proof
    show "sel = map ?sh (map (\<lambda>s. the (ss_ID s)) sel)" using assms(5) sh by (auto simp: map_idI intro!: map_idI [symmetric])
    show "set (map (\<lambda>s. the (ss_ID s)) sel) \<subseteq> set ids" using assms(5) sh by auto
  qed
  have "distinct xs" using assms(6) xs(1) by (simp add: distinct_map)
  then have "unit_diffs (cN E) xs"
    using assms(4) xs(2) by (intro unit_diffs_prime assms(1)) (auto intro: inj_on_subset)
  then have "Combine2 E (map ?sh xs) = Ok (peval poly 0 mod cN E)"
    using assms(2,7,8) xs nz is_prime_gt_1 [OF assms(1)]
    by (intro Combine2_interpolates [OF _ polyf_peval]) (auto intro: the_share_eqm)
  then show ?thesis using xs(1) peval_0 [OF assms(2)] by simp
qed

theorem Combine2_Vss2_witness:
  "Combine2 toy_curve [\<lparr>ss_ID = Some 3, ss_Share = Some 8\<rparr>, \<lparr>ss_ID = Some 1, ss_Share = Some 12\<rparr>] =
    Ok (hd [1, 11] mod cN toy_curve)"
proof (rule Combine2_Vss2 [where ids = "[1, 2, 3]" and shares = "[\<lparr>ss_ID = Some 1, ss_Share = Some 12\<rparr>,
    \<lparr>ss_ID = Some 2, ss_Share = Some 10\<rparr>, \<lparr>ss_ID = Some 3, ss_Share = Some 8\<rparr>]"])
  show "is_prime (cN toy_curve)" by code_simp
  show "Vss2 toy_curve [1, 11] (map Some [1, 2, 3]) = Ok [\<lparr>ss_ID = Some 1, ss_Share = Some 12\<rparr>,
    \<lparr>ss_ID = Some 2, ss_Share = Some 10\<rparr>, \<lparr>ss_ID = Some 3, ss_Share = Some 8\<rparr>]" by code_simp
  show "inj_on (\<lambda>x. x mod cN toy_curve) (set [1, 2, 3])" by (simp add: toy_curve_def)
qed simp_all

lemma Combine2_sum:
  assumes "is_prime (cN E)" "\<forall>poly \<in> set polys. poly \<noteq> [] \<and> length poly \<le> length xs"
    and "xs \<noteq> []" "distinct xs" "inj_on (\<lambda>x. x mod cN E) (set xs)" "\<forall>x \<in> set xs. x mod cN E \<noteq> 0"
  shows "Combine2 E (map (\<lambda>x. \<lparr>ss_ID = Some x,
      ss_Share = Some ((\<Sum>poly\<leftarrow>polys. the_share E poly x) mod cN E)\<rparr>) xs) =
    Ok ((\<Sum>poly\<leftarrow>polys. hd poly) mod cN E)"
proof -
  let ?f = "\<lambda>z. \<Sum>poly\<leftarrow>polys. peval poly z"
  have f: "polyf (length xs) ?f"
    using assms(2)
  proof (induction polys)
    case (Cons poly polys)
    then show ?case by (auto intro!: polyf_add polyf_mono [OF polyf_peval])
  qed (simp add: polyf_zero)
  have s: "eqm (cN E) ((\<Sum>poly\<leftarrow>polys. the_share E poly x) mod cN E) (?f x)" if "x \<in> set xs" for x
    using assms(2) unfolding eqm_mod_left
  proof (induction polys)
    case (Cons poly polys)
    then show ?case using assms(6) that by (auto intro!: eqm_add the_share_eqm)
  qed simp
  have "?f 0 = (\<Sum>poly\<leftarrow>polys. hd poly)" using assms(2) by (induction polys) (auto simp: peval_0)
  then show ?thesis
    using Combine2_interpolates [OF is_prime_gt_1 [OF assms(1)] f order_refl assms(3)
      unit_diffs_prime [OF assms(1,4,5)] s] by simp
qed

text \<open>Joint key generation: when every party sums, at its own identifier, the shares of all
  polynomials of at most \<open>t\<close> coefficients, any \<open>t\<close> or more of the sums are combined to the sum of
  the constant coefficients: the distributed secret key of the rounds of \<^verbatim>\<open>keygen\<close>.\<close>

theorem Combine2_sum_of_polynomials:
  assumes "is_prime (cN E)" "\<forall>poly \<in> set polys. poly \<noteq> [] \<and> length poly \<le> length xs"
    and "xs \<noteq> []" "distinct xs" "inj_on (\<lambda>x. x mod cN E) (set xs)" "\<forall>x \<in> set xs. x mod cN E \<noteq> 0"
  shows "Combine2 E (map (\<lambda>x. \<lparr>ss_ID = Some x,
      ss_Share = Some ((\<Sum>poly\<leftarrow>polys. the_share E poly x) mod cN E)\<rparr>) xs) =
    Ok ((\<Sum>poly\<leftarrow>polys. hd poly) mod cN E)"
  by (rule Combine2_sum [OF assms])

theorem Combine2_sum_of_polynomials_witness:
  "Combine2 toy_curve (map (\<lambda>x. \<lparr>ss_ID = Some x,
      ss_Share = Some ((\<Sum>poly\<leftarrow>[[1, 11], [5, 2]]. the_share toy_curve poly x) mod cN toy_curve)\<rparr>) [2, 3]) =
    Ok ((\<Sum>poly\<leftarrow>[[1, 11], [5, 2]]. hd poly) mod cN toy_curve)"
proof (rule Combine2_sum_of_polynomials)
  show "is_prime (cN toy_curve)" by code_simp
qed (simp_all add: toy_curve_def)

text \<open>C28: a party's polynomial and commitments come from \<^verbatim>\<open>Vss2Init\<close>: on non-zero coefficients
  \<^verbatim>\<open>Verify2\<close> accepts a non-zero share for party \<open>x\<close> exactly when it is the value of the polynomial
  at \<open>x\<close>, provided that no addition of its loop meets equal or opposite points.\<close>

theorem Verify2_Vss2Init:
  assumes "ec_laws E" "Vss2Init E (Some secret) t tape = Ok ((poly, polyG), rest)"
    and "0 < secret" "secret < cN E" "0 \<notin> set poly"
    and "0 < x" "x < cN E" "0 < sh" "sh < cN E" "feldman_chain (cN E) x secret x (tl poly)"
  shows "Verify2 E \<lparr>ss_ID = Some x, ss_Share = Some sh\<rparr> polyG = Ok (sh = peval poly x mod cN E) \<and>
    hd poly = secret \<and> int (length poly) = t"
proof -
  obtain cs gs where t: "\<not> t \<le> 1" and pc: "poly_coeffs E (nat (t - 1)) tape = Ok ((cs, gs), rest)"
    and poly: "poly = secret # cs" "polyG = pair_slice (Some (mulG E secret)) # gs"
    using assms(2) ScalarBaseMult_mulG [OF assms(1,3,4)]
    by (auto simp: Vss2Init_def split: if_splits prod.splits)
  note c = poly_coeffs_spec [OF assms(1) pc]
  have "polyG = commitments E poly" using c poly assms(5) by (simp add: commitments_def)
  moreover have "\<forall>a \<in> set (secret # cs). 0 < a \<and> a < cN E"
    using c assms(3-5) poly by (auto simp: less_le)
  ultimately show ?thesis
    using Verify2_value [OF assms(1,6-9), of secret cs] assms(10) poly c t by auto
qed

theorem Verify2_Vss2Init_witness:
  "Verify2 toy_curve \<lparr>ss_ID = Some 3, ss_Share = Some 8\<rparr> (map (map Some) [[1, 2], [6, 4]]) =
     Ok (8 = peval [1, 11] 3 mod cN toy_curve)"
proof -
  have n: "cN toy_curve = 13" by (simp add: toy_curve_def)
  have "mulG toy_curve 1 = (1, 2)" "mulG toy_curve 11 = (6, 4)" by code_simp+
  then have g: "ScalarBaseMult toy_curve (Bytes 1) = Ok (Some (1, 2))"
    "ScalarBaseMult toy_curve (Bytes 11) = Ok (Some (6, 4))"
    using ScalarBaseMult_mulG [OF toy_curve_laws, of 1] ScalarBaseMult_mulG [OF toy_curve_laws, of 11] n
    by simp_all
  have "BitLen 13 = 4" by code_simp
  then have r: "GetRandomIntFromZn 13 [11] = Ok (11, [])" using GetRandomIntFromZn_hit [of 11 13 "[]"] by simp
  have "nat (2 - 1) = Suc 0" by simp
  then have "Vss2Init toy_curve (Some 1) 2 [11] = Ok (([1, 11], map (map Some) [[1, 2], [6, 4]]), [])"
    using g r n by (simp add: Vss2Init_def pair_slice_def)
  moreover note n
  moreover have "feldman_chain 13 3 1 3 [11]" by code_simp
  ultimately show ?thesis
    using Verify2_Vss2Init [OF toy_curve_laws, of 1 2 "[11]" "[1, 11]" "map (map Some) [[1, 2], [6, 4]]" "[]" 3 8]
    by simp
qed

text \<open>\<^verbatim>\<open>Vss2\<close> succeeds exactly on non-empty lists of distinct identifiers that are non-zero
  modulo the group order; every other list is answered with an error, never a share.\<close>

theorem Vss2_Ok_iff:
  assumes "poly \<noteq> []"
  shows "is_Ok (Vss2 E poly (map Some ids)) \<longleftrightarrow>
    ids \<noteq> [] \<and> distinct ids \<and> (\<forall>x \<in> set ids. x mod cN E \<noteq> 0)"
proof
  assume "ids \<noteq> [] \<and> distinct ids \<and> (\<forall>x \<in> set ids. x mod cN E \<noteq> 0)"
  then show "is_Ok (Vss2 E poly (map Some ids))" using Vss2_Ok [OF assms] by simp
next
  assume "is_Ok (Vss2 E poly (map Some ids))"
  then obtain shares where ok: "Vss2 E poly (map Some ids) = Ok shares" by (auto simp: is_Ok_iff)
  then have ne: "ids \<noteq> []" by (auto simp: Vss2_def)
  have dist: "distinct ids"
    using ok ContainsDuplicate_eq [of "map Some ids"] ne by (auto simp: Vss2_def distinct_map split: bool.splits)
  have "calculatePolynomial2 E poly (Some x) = Err e \<Longrightarrow> x \<notin> set ids" for x e
    using ok ne dist ContainsDuplicate_eq [of "map Some ids"]
    by (auto simp: Vss2_def distinct_map mapM_Ok_iff list_all2_map1 in_set_conv_nth dest!: list_all2_nthD)
  then have "\<forall>x \<in> set ids. x mod cN E \<noteq> 0" using assms by (auto simp: calculatePolynomial2_def Let_def)
  then show "ids \<noteq> [] \<and> distinct ids \<and> (\<forall>x \<in> set ids. x mod cN E \<noteq> 0)" using ne dist by simp
qed

theorem Vss2_Ok_iff_witness:
  "is_Ok (Vss2 toy_curve [1, 11] (map Some [1, 2, 3])) \<longleftrightarrow>
    [1, 2, 3] \<noteq> ([] :: int list) \<and> distinct [1, 2, 3 :: int] \<and> (\<forall>x \<in> set [1, 2, 3]. x mod cN toy_curve \<noteq> 0)"
  by (rule Vss2_Ok_iff) simp

end
