(* ===== verification/Commit.thy ===== *)
theory Commit
  imports Vss2
begin

text \<open>
  \<^verbatim>\<open>smpc-lib/crypto/ec2/commit.go\<close>: hash commitments to lists of curve points.  The hash
  \<^verbatim>\<open>sha3.New256\<close> of a whole input is the argument \<open>H\<close>; \<^verbatim>\<open>Sum\<close> does not reset the state, so the
  second digest is taken over everything written so far.
\<close>

section \<open>The code\<close>

record Commitment =
  com_C :: "int option"
  com_D :: "int option list"

definition hello :: "byte list" where
  "hello = string_bytes ''hello multichain''"

text \<open>The bytes written for the random number and the secrets.\<close>

definition commit_input :: "int list \<Rightarrow> byte list" where
  "commit_input D = Bytes (hd D) @ concat (map (\<lambda>secret. hello @ Bytes secret @ hello) (tl D))"

definition commit_digest :: "(byte list \<Rightarrow> byte list) \<Rightarrow> int list \<Rightarrow> int" where
  "commit_digest H D =
     (let written = commit_input D;
          digestKeccak256 = H written;
          digest = H (written @ digestKeccak256 @ hello)
      in SetBytes digest)"

definition Commit :: "(byte list \<Rightarrow> byte list) \<Rightarrow> int option list \<Rightarrow> tape \<Rightarrow>
    (Commitment option \<times> tape) res" where
  "Commit H secrets tape =
     (if secrets = [] then Ok (None, tape)
      else bindr (GetRandomInt 256 tape) (\<lambda>(rnd, tape).
        case rnd of
          None \<Rightarrow> Ok (None, tape)
        | Some rnd \<Rightarrow>
            bindr (mapM deref secrets) (\<lambda>ss.
              Ok (Some \<lparr>com_C = Some (commit_digest H (rnd # ss)), com_D = Some rnd # secrets\<rparr>, tape))))"

fun checkPairs :: "Curve \<Rightarrow> int option list \<Rightarrow> bool" where
  "checkPairs E (x # y # rest) =
     (case (x, y) of (Some x, Some y) \<Rightarrow> IsOnCurve E x y \<and> checkPairs E rest | _ \<Rightarrow> False)"
| "checkPairs E _ = True"

definition checkPointOnCurve :: "Curve \<Rightarrow> int option list \<Rightarrow> bool" where
  "checkPointOnCurve E secrets =
     (if length secrets = 0 \<or> length secrets mod 2 \<noteq> 0 then False else checkPairs E secrets)"

definition Verify :: "Curve \<Rightarrow> (byte list \<Rightarrow> byte list) \<Rightarrow> Commitment \<Rightarrow> bool res" where
  "Verify E H commitment =
     (case com_C commitment of
        None \<Rightarrow> Ok False
      | Some C \<Rightarrow>
          if length (com_D commitment) < 1 then Ok False
          else bindr (mapM deref (com_D commitment)) (\<lambda>D.
            if commit_digest H D \<noteq> C then Ok False
            else if \<not> checkPointOnCurve E (tl (com_D commitment)) then Ok False
            else Ok True))"

definition DeCommit :: "Curve \<Rightarrow> (byte list \<Rightarrow> byte list) \<Rightarrow> Commitment \<Rightarrow> (bool \<times> int option list) res" where
  "DeCommit E H commitment =
     bindr (Verify E H commitment) (\<lambda>ok. Ok (if ok then (True, tl (com_D commitment)) else (False, [])))"

section \<open>Lemmas\<close>

lemma mapM_deref_Some [simp]: "mapM deref (map Some xs) = Ok xs"
  by (induction xs) auto

lemma mapM_deref_Ok: "mapM deref xs = Ok ys \<Longrightarrow> xs = map Some ys"
  by (induction xs arbitrary: ys) auto

lemma mapM_deref_Ok_iff [simp]: "mapM deref xs = Ok ys \<longleftrightarrow> xs = map Some ys"
  using mapM_deref_Ok by auto

lemma Verify_iff:
  "Verify E H \<lparr>com_C = Some C, com_D = map Some D\<rparr> =
     Ok (D \<noteq> [] \<and> commit_digest H D = C \<and> checkPointOnCurve E (map Some (tl D)))"
  by (cases D) (auto simp: Verify_def)

lemma Commit_Ok:
  "Commit H (map Some ss) tape = Ok (Some c, rest) \<Longrightarrow>
   \<exists>rnd. c = \<lparr>com_C = Some (commit_digest H (rnd # ss)), com_D = map Some (rnd # ss)\<rparr>"
  by (auto simp: Commit_def split: if_splits option.splits prod.splits)

lemma DeCommit_Commit:
  assumes c: "Commit H (map Some ss) tape = Ok (Some c, rest)" and good: "checkPointOnCurve E (map Some ss)"
  shows "Verify E H c = Ok True \<and> DeCommit E H c = Ok (True, map Some ss)"
proof -
  obtain rnd where rnd: "c = \<lparr>com_C = Some (commit_digest H (rnd # ss)), com_D = map Some (rnd # ss)\<rparr>"
    using Commit_Ok [OF c] by blast
  then have "Verify E H c = Ok True" using good by (simp only: Verify_iff list.sel) simp
  then show ?thesis using rnd by (simp add: DeCommit_def)
qed

lemma Commit_succeeds:
  assumes "ss \<noteq> []"
  shows "\<exists>c. Commit H (map Some ss) (x # tape) = Ok (Some c, tape)"
proof -
  have "GetRandomInt 256 (x # tape) = Ok (Some (x mod (2 ^ 256 - 1)), tape)"
    using GetRandomInt_pos [of 256 "x # tape"] by simp
  then show ?thesis using assms by (simp add: Commit_def)
qed

text \<open>
  What the rounds rely on: an honest commitment opens to the committed list.  The client lemma
  is the loop of a round that opens the commitments of all parties.
\<close>

locale commitment_scheme =
  fixes good :: "'m \<Rightarrow> bool"
    and commit :: "'m \<Rightarrow> tape \<Rightarrow> ('c option \<times> tape) res"
    and decommit :: "'c \<Rightarrow> (bool \<times> 'm) res"
  assumes correct: "good m \<Longrightarrow> commit m tape = Ok (Some c, rest) \<Longrightarrow> decommit c = Ok (True, m)"
begin

definition honest :: "'m \<Rightarrow> 'c \<Rightarrow> bool" where
  "honest m c \<longleftrightarrow> good m \<and> (\<exists>tape rest. commit m tape = Ok (Some c, rest))"

lemma open_all:
  "list_all2 honest ms cs \<Longrightarrow> mapM decommit cs = Ok (map (\<lambda>m. (True, m)) ms)"
  by (induction ms cs rule: list_all2_induct) (auto simp: honest_def dest: correct)

end

interpretation point_commitment: commitment_scheme
  "\<lambda>ss. checkPointOnCurve E (map Some ss)" "\<lambda>ss. Commit H (map Some ss)"
  "\<lambda>c. mapr (\<lambda>(ok, ss). (ok, map the ss)) (DeCommit E H c)"
  for E :: Curve and H :: "byte list \<Rightarrow> byte list"
  by unfold_locales (auto dest!: DeCommit_Commit [of _ _ _ _ _ E] simp: comp_def)

section \<open>Properties\<close>

text \<open>C33: commitments are correct: what \<^verbatim>\<open>Commit\<close> returns for a non-empty list of curve points is
  verified, and opening it gives back the list; with entropy available \<^verbatim>\<open>Commit\<close> does return.\<close>

theorem Commit_DeCommit:
  assumes "checkPointOnCurve E (map Some ss)"
  shows "\<exists>c. Commit H (map Some ss) (x # tape) = Ok (Some c, tape) \<and>
    Verify E H c = Ok True \<and> DeCommit E H c = Ok (True, map Some ss)"
proof -
  have "ss \<noteq> []" using assms by (auto simp: checkPointOnCurve_def)
  then show ?thesis using Commit_succeeds [of ss H x tape] DeCommit_Commit [OF _ assms] by blast
qed

theorem Commit_DeCommit_witness:
  "\<exists>c. Commit (\<lambda>bs. bs) (map Some [1, 2, 6, 3]) [5] = Ok (Some c, []) \<and>
    Verify toy_curve (\<lambda>bs. bs) c = Ok True \<and> DeCommit toy_curve (\<lambda>bs. bs) c = Ok (True, map Some [1, 2, 6, 3])"
proof (rule Commit_DeCommit)
  show "checkPointOnCurve toy_curve (map Some [1, 2, 6, 3])" by code_simp
qed

text \<open>\<^verbatim>\<open>Verify\<close> accepts only openings of the committed digest: two accepted openings of the same
  commitment hash the same bytes, unless they exhibit a collision of the hash function.\<close>

theorem Verify_collision:
  assumes "Verify E H \<lparr>com_C = Some C, com_D = map Some D\<rparr> = Ok True"
    and "Verify E H \<lparr>com_C = Some C, com_D = map Some D'\<rparr> = Ok True"
    and "\<forall>bs. length (H bs) = 32"
  shows "commit_input D = commit_input D' \<or> (\<exists>a b. a \<noteq> b \<and> H a = H b)"
proof -
  let ?w = "\<lambda>D. commit_input D @ H (commit_input D) @ hello"
  have "H (?w D) = H (?w D')"
    using assms Verify_iff [of E H C D] Verify_iff [of E H C D'] SetBytes_inj
    by (auto simp: commit_digest_def Let_def)
  then have "?w D = ?w D' \<or> (\<exists>a b. a \<noteq> b \<and> H a = H b)" by blast
  moreover have "?w D = ?w D' \<Longrightarrow> commit_input D = commit_input D'"
    using assms(3) by (metis append_eq_append_conv length_append)
  ultimately show ?thesis by blast
qed

theorem Verify_collision_witness:
  "commit_input [7, 1, 2] = commit_input [7, 1, 2] \<or>
    (\<exists>a b. a \<noteq> b \<and> (\<lambda>bs :: byte list. replicate 32 (0 :: byte)) a = (\<lambda>bs. replicate 32 0) b)"
proof -
  have "checkPointOnCurve toy_curve (map Some [1, 2])" by code_simp
  then have v: "Verify toy_curve (\<lambda>bs. replicate 32 0) \<lparr>com_C = Some 0, com_D = map Some [7, 1, 2]\<rparr> = Ok True"
    by (simp add: Verify_iff commit_digest_def Let_def del: list.map)
  show ?thesis by (rule Verify_collision [OF v v]) simp
qed

text \<open>C39: the commitment is not binding: the random number is not bounded and not separated from the
  secrets, so for every hash function a commitment to two points also opens, with another random
  number, to the second point alone.\<close>

theorem Commit_not_binding:
  assumes "IsOnCurve E s1 s2" "IsOnCurve E s3 s4"
    and "rnd' = SetBytes (Bytes rnd @ hello @ Bytes s1 @ hello @ hello @ Bytes s2 @ hello)"
    and "C = commit_digest H [rnd, s1, s2, s3, s4]"
  shows "DeCommit E H \<lparr>com_C = Some C, com_D = map Some [rnd, s1, s2, s3, s4]\<rparr> = Ok (True, map Some [s1, s2, s3, s4]) \<and>
    DeCommit E H \<lparr>com_C = Some C, com_D = map Some [rnd', s3, s4]\<rparr> = Ok (True, map Some [s3, s4])"
proof -
  let ?b = "Bytes rnd @ hello @ Bytes s1 @ hello @ hello @ Bytes s2 @ hello"
  have h: "hello \<noteq> []" "hd hello \<noteq> 0" by (simp_all add: hello_def string_bytes_def byte_of_def)
  have "?b \<noteq> []" using h by simp
  moreover have "hd ?b \<noteq> 0"
  proof (cases "rnd = 0")
    case True
    then show ?thesis using h by simp
  next
    case False
    then have "0 < nat \<bar>rnd\<bar>" by simp
    then have "hd (Bytes rnd) \<noteq> 0" unfolding Bytes_def by (rule hd_bytes_nat)
    moreover have "Bytes rnd \<noteq> []" using False SetBytes_Bytes [of rnd] by force
    ultimately show ?thesis by simp
  qed
  ultimately have "Bytes rnd' = ?b" unfolding assms(3) by (rule Bytes_SetBytes)
  then have "commit_input [rnd', s3, s4] = commit_input [rnd, s1, s2, s3, s4]" by (simp add: commit_input_def)
  then have "commit_digest H [rnd', s3, s4] = C" using assms(4) by (simp add: commit_digest_def)
  moreover have "checkPointOnCurve E (map Some [s1, s2, s3, s4])" "checkPointOnCurve E (map Some [s3, s4])"
    using assms(1,2) by (simp_all add: checkPointOnCurve_def)
  ultimately show ?thesis using assms(4) by (simp add: DeCommit_def Verify_iff map_tl [symmetric] del: list.map)
qed

theorem Commit_not_binding_witness:
  "DeCommit toy_curve (\<lambda>bs. bs) \<lparr>com_C = Some (commit_digest (\<lambda>bs. bs) [7, 1, 2, 6, 3]),
      com_D = map Some [7, 1, 2, 6, 3]\<rparr> = Ok (True, map Some [1, 2, 6, 3]) \<and>
   DeCommit toy_curve (\<lambda>bs. bs) \<lparr>com_C = Some (commit_digest (\<lambda>bs. bs) [7, 1, 2, 6, 3]),
      com_D = map Some [SetBytes (Bytes 7 @ hello @ Bytes 1 @ hello @ hello @ Bytes 2 @ hello), 6, 3]\<rparr> =
     Ok (True, map Some [6, 3])"
proof (rule Commit_not_binding)
  show "IsOnCurve toy_curve 1 2" "IsOnCurve toy_curve 6 3" by code_simp+
qed simp_all

end
