(* ===== verification/Schnorr.thy ===== *)
theory Schnorr
  imports Commit
begin

text \<open>
  \<^verbatim>\<open>smpc-lib/crypto/ec2/schnorrZK.go\<close>: the Schnorr proofs of knowledge of a discrete logarithm,
  used for the secret contributions (\<^verbatim>\<open>ZkU\<close>) and for the key shares (\<^verbatim>\<open>ZkXi\<close>), made
  non-interactive with \<^verbatim>\<open>Sha512_256\<close> (argument \<open>sha\<close>).
\<close>

section \<open>The code\<close>

text \<open>\<^verbatim>\<open>Sha512_256(args...)\<close> on pointers: hashing \<^verbatim>\<open>nil\<close> panics.\<close>

definition sha_call :: "(byte list \<Rightarrow> byte list) \<Rightarrow> int option list \<Rightarrow> int res" where
  "sha_call sha args = bindr (mapM deref args) (\<lambda>ins. deref (Sha512_256 sha ins))"

record ZkUProof =
  zku_E :: "int option"
  zku_S :: "int option"

definition ZkUProve :: "Curve \<Rightarrow> (byte list \<Rightarrow> byte list) \<Rightarrow> int \<Rightarrow> tape \<Rightarrow> (ZkUProof \<times> tape) res" where
  "ZkUProve E sha u tape =
     bindr (GetRandomIntFromZn (cN E) tape) (\<lambda>(r, tape).
     bindr (ScalarBaseMult E (Bytes r)) (\<lambda>rG.
     bindr (ScalarBaseMult E (Bytes u)) (\<lambda>uG.
     bindr (sha_call sha (pair_slice rG @ pair_slice uG)) (\<lambda>e.
       let s = e * u;
           s = r + s;
           s = s mod cN E
       in Ok (\<lparr>zku_E = Some e, zku_S = Some s\<rparr>, tape)))))"

definition ZkUVerify :: "Curve \<Rightarrow> (byte list \<Rightarrow> byte list) \<Rightarrow> int option list \<Rightarrow> ZkUProof option \<Rightarrow> bool res" where
  "ZkUVerify E sha uG zkUProof =
     (if uG = [] then Ok False
      else case zkUProof of
        None \<Rightarrow> Ok False
      | Some pr \<Rightarrow>
          (case (zku_E pr, zku_S pr) of
             (Some pe, Some ps) \<Rightarrow>
               if \<not> checkPointOnCurve E uG then Ok False
               else bindr (ScalarBaseMult E (Bytes ps)) (\<lambda>sG.
                    let minusE = (- 1 * pe) mod cN E
                    in bindr (slice_pair uG) (\<lambda>U.
                       bindr (ScalarMult E U (Bytes minusE)) (\<lambda>eU.
                       bindr (Add E sG eU) (\<lambda>rG.
                       bindr (sha_call sha (pair_slice rG @ pair_slice U)) (\<lambda>e.
                         Ok (e = pe))))))
           | _ \<Rightarrow> Ok False))"

record ZkXiProof =
  zkx_E :: "int option"
  zkx_S :: "int option"

definition ZkXiProve :: "Curve \<Rightarrow> (byte list \<Rightarrow> byte list) \<Rightarrow> int \<Rightarrow> tape \<Rightarrow> (ZkXiProof \<times> tape) res" where
  "ZkXiProve E sha sku1 tape =
     bindr (GetRandomIntFromZn (cN E) tape) (\<lambda>(r, tape).
     bindr (ScalarBaseMult E (Bytes r)) (\<lambda>rG.
     bindr (ScalarBaseMult E (Bytes sku1)) (\<lambda>xG.
     bindr (sha_call sha (pair_slice rG @ pair_slice xG)) (\<lambda>e.
       let s = e * sku1;
           s = r + s;
           s = s mod cN E
       in Ok (\<lparr>zkx_E = Some e, zkx_S = Some s\<rparr>, tape)))))"

definition ZkXiVerify :: "Curve \<Rightarrow> (byte list \<Rightarrow> byte list) \<Rightarrow> int option list \<Rightarrow> ZkXiProof option \<Rightarrow> bool res" where
  "ZkXiVerify E sha xiG zkXiProof =
     (if xiG = [] then Ok False
      else case zkXiProof of
        None \<Rightarrow> Ok False
      | Some pr \<Rightarrow>
          (case (zkx_E pr, zkx_S pr) of
             (Some pe, Some ps) \<Rightarrow>
               if \<not> checkPointOnCurve E xiG then Ok False
               else bindr (ScalarBaseMult E (Bytes ps)) (\<lambda>sG.
                    let minusE = (- 1 * pe) mod cN E
                    in bindr (slice_pair xiG) (\<lambda>X.
                       bindr (ScalarMult E X (Bytes minusE)) (\<lambda>eX.
                       bindr (Add E sG eX) (\<lambda>rG.
                       bindr (sha_call sha (pair_slice rG @ pair_slice X)) (\<lambda>e.
                         Ok (e = pe))))))
           | _ \<Rightarrow> Ok False))"

section \<open>Non-interactive proofs as an interface\<close>

text \<open>
  The contract of the proofs the rounds exchange: a proof produced by the prover for a good
  instance is accepted.  The client lemma is the verification loop of a round over the proofs of
  all parties.
\<close>

locale zk_proof =
  fixes prove :: "'x \<Rightarrow> 'w \<Rightarrow> tape \<Rightarrow> ('p \<times> tape) res"
    and verify :: "'x \<Rightarrow> 'p \<Rightarrow> bool res"
    and good :: "'x \<Rightarrow> 'w \<Rightarrow> tape \<Rightarrow> bool"
  assumes complete: "good x w tape \<Longrightarrow> prove x w tape = Ok (p, rest) \<Longrightarrow> verify x p = Ok True"
begin

definition honest_proof :: "'x \<Rightarrow> 'p \<Rightarrow> bool" where
  "honest_proof x p \<longleftrightarrow> (\<exists>w tape rest. good x w tape \<and> prove x w tape = Ok (p, rest))"

lemma verify_all: "list_all2 honest_proof xs ps \<Longrightarrow>
    mapM (\<lambda>(x, p). verify x p) (zip xs ps) = Ok (replicate (length xs) True)"
  by (induction xs ps rule: list_all2_induct) (auto simp: honest_proof_def dest: complete)

end

section \<open>Completeness\<close>

lemma sha_call_Some: "xs \<noteq> [] \<Longrightarrow> sha_call sha (map Some xs) = Ok (SetBytes (sha (sha_input xs)))"
  by (simp add: sha_call_def Sha512_256_def)

text \<open>
  The instance \<open>u\<close> and the random number \<open>r\<close> for which the verification meets no degenerate
  addition; \<open>e\<close> is the challenge.
\<close>

definition schnorr_challenge :: "Curve \<Rightarrow> (byte list \<Rightarrow> byte list) \<Rightarrow> int \<Rightarrow> int \<Rightarrow> int" where
  "schnorr_challenge E sha u r =
     SetBytes (sha (sha_input [fst (mulG E r), snd (mulG E r), fst (mulG E u), snd (mulG E u)]))"

definition schnorr_good :: "Curve \<Rightarrow> (byte list \<Rightarrow> byte list) \<Rightarrow> int \<Rightarrow> int \<Rightarrow> bool" where
  "schnorr_good E sha u r \<longleftrightarrow> 0 < u \<and> u < cN E \<and> 0 < r \<and> r < cN E \<and>
     (let e = schnorr_challenge E sha u r in
        e mod cN E \<noteq> 0 \<and> (r + e * u) mod cN E \<noteq> 0 \<and> (r + 2 * (e * u)) mod cN E \<noteq> 0)"

lemma pair_slice_Some [simp]: "pair_slice (Some A) = map Some [fst A, snd A]"
  by (cases A) (simp add: pair_slice_def)

lemma checkPointOnCurve_mulG:
  "ec_laws E \<Longrightarrow> 0 < u \<Longrightarrow> u < cN E \<Longrightarrow> checkPointOnCurve E (pair_slice (Some (mulG E u)))"
  using ec_lawsD(12) [of E u] by (simp add: checkPointOnCurve_def)

text \<open>The verifier recovers the point \<open>r * G\<close>.\<close>

lemma schnorr_recover:
  assumes E: "ec_laws E" and g: "schnorr_good E sha u r"
  defines "e \<equiv> schnorr_challenge E sha u r"
  shows "ScalarBaseMult E (Bytes ((r + e * u) mod cN E)) = Ok (Some (mulG E ((r + e * u) mod cN E)))"
    and "ScalarMult E (Some (mulG E u)) (Bytes ((- 1 * e) mod cN E)) = Ok (Some (mulG E (u * ((- 1 * e) mod cN E) mod cN E)))"
    and "Add E (Some (mulG E ((r + e * u) mod cN E))) (Some (mulG E (u * ((- 1 * e) mod cN E) mod cN E))) =
      Ok (Some (mulG E r))"
proof -
  let ?n = "cN E" and ?s = "(r + e * u) mod cN E" and ?k = "(- 1 * e) mod cN E"
  let ?t = "u * ?k mod ?n"
  have g': "0 < u" "u < ?n" "0 < r" "r < ?n" "e mod ?n \<noteq> 0" "?s \<noteq> 0" "(r + 2 * (e * u)) mod ?n \<noteq> 0"
    using g by (auto simp: schnorr_good_def e_def Let_def)
  have n: "0 < ?n" using g' by simp
  have range: "a \<noteq> 0 \<Longrightarrow> 0 < a \<and> a < ?n" if "a = b mod ?n" for a b
    using that n pos_mod_sign [of ?n b] pos_mod_bound [of ?n b] by linarith
  have s: "0 < ?s" "?s < ?n" using range [OF refl g'(6)] by auto
  have "?k \<noteq> 0" using g'(5) by (simp add: zmod_zminus1_not_zero dvd_eq_mod_eq_0 [symmetric])
  then have k: "0 < ?k" "?k < ?n" using range [OF refl] by auto
  have t: "0 < ?t" "?t < ?n" using prime_mult_range [OF ec_lawsD(4) [OF E] g'(1,2) k] by auto
  show "ScalarBaseMult E (Bytes ?s) = Ok (Some (mulG E ?s))" by (rule ScalarBaseMult_mulG [OF E s])
  show "ScalarMult E (Some (mulG E u)) (Bytes ?k) = Ok (Some (mulG E ?t))"
    by (rule ScalarMult_mulG [OF E g'(1,2) k])
  have tk: "eqm ?n ?t (- (e * u))"
    using eqm_mult [OF eqm_refl [of ?n u] eqm_mod_self [of ?n "- 1 * e"]] by (simp add: algebra_simps)
  have "eqm ?n (?s + ?t) ((r + e * u) + - (e * u))" by (intro eqm_add tk) simp
  then have sum: "(?s + ?t) mod ?n = r" using g'(3,4) by (simp add: eqm_mod_iff)
  have "?s \<noteq> ?t"
  proof
    assume "?s = ?t"
    then have "eqm ?n (r + e * u) (- (e * u))" using tk by (metis eqm_mod_left)
    then have "eqm ?n (r + e * u + e * u) (- (e * u) + e * u)" by (intro eqm_add eqm_refl)
    then show False using g'(7) by (simp add: eqm_mod_iff algebra_simps)
  qed
  moreover have "?s + ?t \<noteq> ?n" using sum g'(3) by auto
  ultimately have "Add E (Some (mulG E ?s)) (Some (mulG E ?t)) = Ok (Some (mulG E ((?s + ?t) mod ?n)))"
    by (intro Add_mulG E s t)
  then show "Add E (Some (mulG E ?s)) (Some (mulG E ?t)) = Ok (Some (mulG E r))" using sum by simp
qed

lemma ZkU_complete:
  assumes E: "ec_laws E" and r: "GetRandomIntFromZn (cN E) tape = Ok (r, rest)" and g: "schnorr_good E sha u r"
  shows "\<exists>p. ZkUProve E sha u tape = Ok (p, rest) \<and>
    ZkUVerify E sha (pair_slice (Some (mulG E u))) (Some p) = Ok True"
proof -
  have ur: "0 < u" "u < cN E" "0 < r" "r < cN E" using g by (auto simp: schnorr_good_def)
  let ?e = "schnorr_challenge E sha u r"
  let ?p = "\<lparr>zku_E = Some ?e, zku_S = Some ((r + ?e * u) mod cN E)\<rparr>"
  have sha: "sha_call sha [Some (fst (mulG E r)), Some (snd (mulG E r)), Some (fst (mulG E u)), Some (snd (mulG E u))] = Ok ?e"
    using sha_call_Some [of "[fst (mulG E r), snd (mulG E r), fst (mulG E u), snd (mulG E u)]" sha]
    by (simp add: schnorr_challenge_def)
  have "ZkUProve E sha u tape = Ok (?p, rest)"
    using r sha ScalarBaseMult_mulG [OF E ur(1,2)] ScalarBaseMult_mulG [OF E ur(3,4)]
    by (simp add: ZkUProve_def Let_def)
  moreover have "ZkUVerify E sha (pair_slice (Some (mulG E u))) (Some ?p) = Ok True"
    using schnorr_recover [OF E g] sha checkPointOnCurve_mulG [OF E ur(1,2)] slice_pair_pair_slice [of "Some (mulG E u)"]
    by (simp add: ZkUVerify_def Let_def)
  ultimately show ?thesis by blast
qed

lemma ZkXi_as_ZkU:
  "ZkXiProve E sha u tape = mapr (\<lambda>(p, rest). (\<lparr>zkx_E = zku_E p, zkx_S = zku_S p\<rparr>, rest)) (ZkUProve E sha u tape)"
  "ZkXiVerify E sha uG (Some \<lparr>zkx_E = zku_E p, zkx_S = zku_S p\<rparr>) = ZkUVerify E sha uG (Some p)"
proof -
  have bind_map: "bindr r (\<lambda>a. mapr f (g a)) = mapr f (bindr r g)" for r :: "'x res" and f :: "'y \<Rightarrow> 'z" and g
    by (cases r) auto
  show "ZkXiProve E sha u tape = mapr (\<lambda>(p, rest). (\<lparr>zkx_E = zku_E p, zkx_S = zku_S p\<rparr>, rest)) (ZkUProve E sha u tape)"
    unfolding ZkXiProve_def ZkUProve_def
    by (simp add: bind_map [symmetric] Let_def case_prod_unfold)
  show "ZkXiVerify E sha uG (Some \<lparr>zkx_E = zku_E p, zkx_S = zku_S p\<rparr>) = ZkUVerify E sha uG (Some p)"
    by (simp add: ZkXiVerify_def ZkUVerify_def)
qed

lemma ZkXi_complete:
  assumes "ec_laws E" "GetRandomIntFromZn (cN E) tape = Ok (r, rest)" "schnorr_good E sha u r"
  shows "\<exists>p. ZkXiProve E sha u tape = Ok (p, rest) \<and>
    ZkXiVerify E sha (pair_slice (Some (mulG E u))) (Some p) = Ok True"
proof -
  obtain p where "ZkUProve E sha u tape = Ok (p, rest)"
    "ZkUVerify E sha (pair_slice (Some (mulG E u))) (Some p) = Ok True"
    using ZkU_complete [OF assms] by blast
  then show ?thesis using ZkXi_as_ZkU by (intro exI [of _ "\<lparr>zkx_E = zku_E p, zkx_S = zku_S p\<rparr>"]) simp
qed

definition schnorr_instance :: "Curve \<Rightarrow> (byte list \<Rightarrow> byte list) \<Rightarrow> int option list \<Rightarrow> int \<Rightarrow> tape \<Rightarrow> bool" where
  "schnorr_instance E sha uG u tape \<longleftrightarrow> ec_laws E \<and> uG = pair_slice (Some (mulG E u)) \<and>
     (\<exists>r rest. GetRandomIntFromZn (cN E) tape = Ok (r, rest) \<and> schnorr_good E sha u r)"

interpretation zku: zk_proof "\<lambda>uG u. ZkUProve E sha u" "\<lambda>uG p. ZkUVerify E sha uG (Some p)" "schnorr_instance E sha"
  for E :: Curve and sha :: "byte list \<Rightarrow> byte list"
proof
  fix x w tape p rest
  assume "schnorr_instance E sha x w tape" "ZkUProve E sha w tape = Ok (p, rest)"
  then show "ZkUVerify E sha x (Some p) = Ok True"
    using ZkU_complete [of E tape _ _ sha w] by (force simp: schnorr_instance_def)
qed

interpretation zkxi: zk_proof "\<lambda>uG u. ZkXiProve E sha u" "\<lambda>uG p. ZkXiVerify E sha uG (Some p)" "schnorr_instance E sha"
  for E :: Curve and sha :: "byte list \<Rightarrow> byte list"
proof
  fix x w tape p rest
  assume "schnorr_instance E sha x w tape" "ZkXiProve E sha w tape = Ok (p, rest)"
  then show "ZkXiVerify E sha x (Some p) = Ok True"
    using ZkXi_complete [of E tape _ _ sha w] by (force simp: schnorr_instance_def)
qed

section \<open>Properties\<close>

text \<open>C34: the Schnorr proofs of a party that knows \<open>u\<close> are produced and accepted against \<open>u * G\<close>, for
  the secret contributions and for the key shares, whenever the random number leads to no
  degenerate point (zero challenge, response or doubling, for which the code panics).\<close>

theorem Schnorr_complete:
  assumes "ec_laws E" "GetRandomIntFromZn (cN E) tape = Ok (r, rest)" "schnorr_good E sha u r"
  shows "(\<exists>p. ZkUProve E sha u tape = Ok (p, rest) \<and>
      ZkUVerify E sha (pair_slice (Some (mulG E u))) (Some p) = Ok True) \<and>
    (\<exists>p. ZkXiProve E sha u tape = Ok (p, rest) \<and>
      ZkXiVerify E sha (pair_slice (Some (mulG E u))) (Some p) = Ok True)"
  using ZkU_complete [OF assms] ZkXi_complete [OF assms] by blast

theorem Schnorr_complete_witness:
  "(\<exists>p. ZkUProve toy_curve (\<lambda>bs. [3]) 5 [4] = Ok (p, []) \<and>
      ZkUVerify toy_curve (\<lambda>bs. [3]) (pair_slice (Some (mulG toy_curve 5))) (Some p) = Ok True) \<and>
    (\<exists>p. ZkXiProve toy_curve (\<lambda>bs. [3]) 5 [4] = Ok (p, []) \<and>
      ZkXiVerify toy_curve (\<lambda>bs. [3]) (pair_slice (Some (mulG toy_curve 5))) (Some p) = Ok True)"
proof (rule Schnorr_complete [OF toy_curve_laws])
  have "BitLen 13 = 4" by code_simp
  then show "GetRandomIntFromZn (cN toy_curve) [4] = Ok (4, [])"
    using GetRandomIntFromZn_hit [of 4 13 "[]"] by (simp add: toy_curve_def)
  show "schnorr_good toy_curve (\<lambda>bs. [3]) 5 4"
    by (simp add: schnorr_good_def schnorr_challenge_def toy_curve_def)
qed

end
