(* ===== verification/Paillier.thy ===== *)
theory Paillier
  imports IntUtil
begin

text \<open>
  \<^verbatim>\<open>smpc-lib/crypto/ec2/paillier.go\<close>: the Paillier cryptosystem, the additively homomorphic
  encryption of the multiplicative-to-additive share conversions.
\<close>

section \<open>The code\<close>

record PublicKey =
  pk_Length :: string
  pk_N :: int
  pk_G :: int
  pk_N2 :: int

record PrivateKey =
  sk_Length :: string
  sk_PublicKey :: PublicKey
  sk_L :: int
  sk_U :: int

text \<open>The part shared by \<^verbatim>\<open>GenerateKeyPair\<close> and \<^verbatim>\<open>CreatPair\<close>: the keys for the factors \<open>p\<close> and \<open>q\<close>.\<close>

definition keys_of_primes :: "int \<Rightarrow> int \<Rightarrow> int \<Rightarrow> (PublicKey \<times> PrivateKey) option" where
  "keys_of_primes len p q =
     (let n = p * q;
          n2 = n * n;
          g = n + 1;
          pMinus1 = p - 1;
          qMinus1 = q - 1;
          l = pMinus1 * qMinus1
      in case ModInverse l n of
           None \<Rightarrow> None
         | Some u \<Rightarrow>
             let publicKey = \<lparr>pk_Length = show_int len, pk_N = n, pk_G = g, pk_N2 = n2\<rparr>
             in Some (publicKey, \<lparr>sk_Length = show_int len, sk_PublicKey = publicKey, sk_L = l, sk_U = u\<rparr>))"

text \<open>
  The channel \<^verbatim>\<open>SafePrimeCh\<close> is a queue: receiving from the empty queue blocks; the two safe
  primes are sent back after use.
\<close>

definition GenerateKeyPair :: "int \<Rightarrow> SafePrime list \<Rightarrow>
    (SafePrime list, (PublicKey \<times> PrivateKey \<times> int \<times> int) option) st" where
  "GenerateKeyPair len ch =
     (if len \<le> 0 then (ch, Ok None)
      else case ch of
        sp1 # sp2 # rest \<Rightarrow>
          (case (sp_p sp1, sp_p sp2) of
             (Some p, Some q) \<Rightarrow>
               (let ch' = rest @ [sp1, sp2]
                in case keys_of_primes len p q of
                     None \<Rightarrow> (ch', Ok None)
                   | Some (pub, priv) \<Rightarrow> (ch', Ok (Some (pub, priv, p, q))))
           | _ \<Rightarrow> (rest, Ok None))
      | _ \<Rightarrow> ([], Hang))"

definition CreatPair :: "(int \<Rightarrow> bool) \<Rightarrow> int \<Rightarrow> int option list \<Rightarrow>
    ((PublicKey \<times> PrivateKey) option \<times> int option list) option" where
  "CreatPair pp len draws =
     (if len \<le> 0 then Some (None, draws)
      else case GetRandomPrime pp draws of
        None \<Rightarrow> None
      | Some ((_, p), draws) \<Rightarrow>
          (case GetRandomPrime pp draws of
             None \<Rightarrow> None
           | Some ((_, q), draws) \<Rightarrow>
               (case (p, q) of
                  (Some p, Some q) \<Rightarrow> Some (keys_of_primes len p q, draws)
                | _ \<Rightarrow> Some (None, draws))))"

definition Encrypt :: "PublicKey \<Rightarrow> int option \<Rightarrow> tape \<Rightarrow> ((int \<times> int) \<times> tape) res" where
  "Encrypt publicKey mBigInt tape =
     (case mBigInt of
        None \<Rightarrow> Err ''param error''
      | Some m \<Rightarrow>
          if pk_N publicKey < m then Err ''[ERROR]: message is too long''
          else bindr (GetRandomIntFromZnStar (pk_N publicKey) tape) (\<lambda>(rndStar, tape).
               bindr (deref (Exp (pk_G publicKey) m (pk_N2 publicKey))) (\<lambda>Gm.
               bindr (deref (Exp rndStar (pk_N publicKey) (pk_N2 publicKey))) (\<lambda>RN.
               bindr (Mod (Gm * RN) (pk_N2 publicKey)) (\<lambda>cipher.
                 Ok ((cipher, rndStar), tape))))))"

definition Decrypt :: "PrivateKey option \<Rightarrow> int option \<Rightarrow> int res" where
  "Decrypt privateKey cipherBigInt =
     (case (privateKey, cipherBigInt) of
        (Some sk, Some c) \<Rightarrow>
          let pk = sk_PublicKey sk
          in if pk_N2 pk < c then Err ''[ERROR]: message is too long''
             else bindr (deref (Exp c (sk_L sk) (pk_N2 pk))) (\<lambda>cL.
                  bindr (Div (cL - 1) (pk_N pk)) (\<lambda>d.
                    Mod (d * sk_U sk) (pk_N pk)))
      | _ \<Rightarrow> Err ''param error'')"

definition HomoAdd :: "PublicKey option \<Rightarrow> int option \<Rightarrow> int option \<Rightarrow> int option res" where
  "HomoAdd publicKey c1 c2 =
     (case (publicKey, c1, c2) of
        (Some pk, Some c1, Some c2) \<Rightarrow> mapr Some (Mod (c1 * c2) (pk_N2 pk))
      | _ \<Rightarrow> Ok None)"

definition HomoMul :: "PublicKey option \<Rightarrow> int option \<Rightarrow> int option \<Rightarrow> int option" where
  "HomoMul publicKey cipher k =
     (case (publicKey, cipher, k) of
        (Some pk, Some c, Some k) \<Rightarrow> Exp c k (pk_N2 pk)
      | _ \<Rightarrow> None)"

section \<open>Well-formed keys and ciphertexts\<close>

text \<open>A key pair for the distinct primes \<open>p\<close> and \<open>q\<close>.\<close>

definition paillier_keys :: "PublicKey \<Rightarrow> PrivateKey \<Rightarrow> int \<Rightarrow> int \<Rightarrow> bool" where
  "paillier_keys pk sk p q \<longleftrightarrow> is_prime p \<and> is_prime q \<and> p \<noteq> q \<and>
     pk_N pk = p * q \<and> pk_G pk = p * q + 1 \<and> pk_N2 pk = p * q * (p * q) \<and>
     sk_PublicKey sk = pk \<and> sk_L sk = (p - 1) * (q - 1) \<and> ModInverse (sk_L sk) (p * q) = Some (sk_U sk)"

text \<open>\<open>encrypts n c m\<close>: \<open>c\<close> is a ciphertext of \<open>m\<close> for the modulus \<open>n\<close>.\<close>

definition encrypts :: "int \<Rightarrow> int \<Rightarrow> int \<Rightarrow> bool" where
  "encrypts n c m \<longleftrightarrow> 0 \<le> c \<and> c < n * n \<and>
     (\<exists>r. coprime r n \<and> eqm (n * n) c ((1 + m * n) * r ^ nat n))"

lemma paillier_keys_pos:
  "paillier_keys pk sk p q \<Longrightarrow> 1 < p \<and> 1 < q \<and> 0 < p * q \<and> 1 < p * q \<and> 0 < p * q * (p * q)"
proof -
  assume "paillier_keys pk sk p q"
  then have "1 < p" "1 < q" by (auto simp: paillier_keys_def is_prime_gt_1)
  moreover from this have "1 * 1 < p * q" by (intro mult_strict_mono) auto
  ultimately show ?thesis by auto
qed

lemma keys_of_primes_ok:
  "keys_of_primes len p q = Some (pk, sk) \<Longrightarrow> is_prime p \<Longrightarrow> is_prime q \<Longrightarrow> p \<noteq> q \<Longrightarrow>
   paillier_keys pk sk p q"
  by (auto simp: keys_of_primes_def paillier_keys_def Let_def split: option.splits)

lemma power_one_plus: "eqm (n * n) ((1 + m * n) ^ k) (1 + int k * m * n)"
proof -
  have "n ^ 2 dvd (1 + m * n) ^ k - (1 ^ k + int k * 1 ^ (k - 1) * (1 + m * n - 1))"
    by (rule power_first_order) simp
  then show ?thesis by (simp add: eqm_def power2_eq_square mult.assoc)
qed

text \<open>Powers of \<open>1 + n\<close>, with negative exponents.\<close>

lemma Exp_generator:
  assumes n: "1 < n"
  shows "\<exists>z. Exp (n + 1) m (n * n) = Some z \<and> eqm (n * n) z (1 + m * n)"
proof (cases "0 \<le> m")
  case True
  then have "eqm (n * n) ((n + 1) ^ nat m) (1 + m * n)"
    using power_one_plus [of n 1 "nat m"] by (simp add: add.commute)
  then show ?thesis using True n by (simp add: eqm_mod_iff)
next
  case False
  have nn: "0 < n * n" using n by simp
  have "coprime (n + 1) (n * n)" by simp
  then obtain i where i: "ModInverse (n + 1) (n * n) = Some i"
    using ModInverse_coprime [OF nn, of "n + 1"] by auto
  then have "Exp (n + 1) m (n * n) \<noteq> None" using False nn by (simp add: Exp_def)
  then obtain z where z: "Exp (n + 1) m (n * n) = Some z" by blast
  have "eqm (n * n) ((n + 1) ^ nat (- m) * z) 1"
    using Exp_neg_Some [OF nn _ z] False by (simp add: eqm_mod_iff)
  moreover have pw: "eqm (n * n) ((n + 1) ^ nat (- m)) (1 - m * n)"
    using power_one_plus [of n 1 "nat (- m)"] False by (simp add: add.commute)
  have inv: "eqm (n * n) ((1 - m * n) * (1 + m * n)) 1"
    by (simp add: eqm_def algebra_simps)
  have "eqm (n * n) ((1 - m * n) * z) ((n + 1) ^ nat (- m) * z)"
    by (intro eqm_mult eqm_refl eqm_sym [OF pw])
  then have "eqm (n * n) ((1 - m * n) * z) ((1 - m * n) * (1 + m * n))"
    using calculation inv by (meson eqm_sym eqm_trans)
  then have "eqm (n * n) z (1 + m * n)" by (rule eqm_cancel_unit [OF inv])
  with z show ?thesis by blast
qed

lemma Encrypt_encrypts:
  assumes k: "paillier_keys pk sk p q" and m: "m \<le> p * q"
    and e: "Encrypt pk (Some m) tape = Ok ((c, r), rest)"
  shows "encrypts (p * q) c m"
proof -
  let ?n = "p * q"
  note pos = paillier_keys_pos [OF k]
  have pk: "pk_N pk = ?n" "pk_G pk = ?n + 1" "pk_N2 pk = ?n * ?n" using k by (auto simp: paillier_keys_def)
  obtain z where z: "Exp (?n + 1) m (?n * ?n) = Some z" "eqm (?n * ?n) z (1 + m * ?n)"
    using Exp_generator [of ?n m] pos by blast
  have r: "GetRandomIntFromZnStar ?n tape = Ok (r, rest)" and c: "c = (z * (r ^ nat ?n mod (?n * ?n))) mod (?n * ?n)"
    using e m pk z pos by (auto simp: Encrypt_def split: if_splits)
  have "coprime r ?n" using GetRandomIntFromZnStar_range [OF r] by (simp add: coprime_iff_gcd_eq_1)
  moreover have "eqm (?n * ?n) c ((1 + m * ?n) * r ^ nat ?n)"
    unfolding c eqm_mod_left by (intro eqm_mult z(2)) simp
  moreover have "0 \<le> c \<and> c < ?n * ?n" using c pos by simp
  ultimately show ?thesis by (auto simp: encrypts_def)
qed

lemma Encrypt_succeeds:
  assumes k: "paillier_keys pk sk p q" and m: "m \<le> p * q"
    and r: "GetRandomIntFromZnStar (p * q) tape = Ok (r, rest)"
  shows "\<exists>c. Encrypt pk (Some m) tape = Ok ((c, r), rest)"
proof -
  note pos = paillier_keys_pos [OF k]
  have pk: "pk_N pk = p * q" "pk_G pk = p * q + 1" "pk_N2 pk = p * q * (p * q)"
    using k by (auto simp: paillier_keys_def)
  obtain z where z: "Exp (p * q + 1) m (p * q * (p * q)) = Some z" using Exp_generator [of "p * q" m] pos by blast
  show ?thesis using m pk z pos r by (simp add: Encrypt_def)
qed

lemma Decrypt_encrypts:
  assumes k: "paillier_keys pk sk p q" and e: "encrypts (p * q) c m"
  shows "Decrypt (Some sk) (Some c) = Ok (m mod (p * q))"
proof -
  let ?n = "p * q" and ?l = "(p - 1) * (q - 1)"
  note pos = paillier_keys_pos [OF k]
  have l0: "0 \<le> ?l" using pos by simp
  obtain r where r: "coprime r ?n" and c: "eqm (?n * ?n) c ((1 + m * ?n) * r ^ nat ?n)"
    using e by (auto simp: encrypts_def)
  have "eqm (?n * ?n) (c ^ nat ?l) (((1 + m * ?n) * r ^ nat ?n) ^ nat ?l)" by (rule eqm_power [OF c])
  also have "((1 + m * ?n) * r ^ nat ?n) ^ nat ?l = (1 + m * ?n) ^ nat ?l * r ^ nat (?n * ?l)"
    using pos by (simp add: power_mult_distrib nat_mult_distrib flip: power_mult)
  also have "eqm (?n * ?n) \<dots> ((1 + int (nat ?l) * m * ?n) * 1)"
    using rsa_square_exponent [of p q r] r k
    by (intro eqm_mult power_one_plus) (auto simp: paillier_keys_def power2_eq_square)
  finally have cl: "eqm (?n * ?n) (c ^ nat ?l) (1 + ?l * m * ?n)" using l0 by simp
  define cL where "cL = c ^ nat ?l mod (?n * ?n)"
  have "eqm (?n * ?n) cL (1 + ?l * m * ?n)" using cl by (simp add: cL_def)
  then have "?n * ?n dvd cL - (1 + ?l * m * ?n)" by (simp add: eqm_def)
  then obtain t where "cL - (1 + ?l * m * ?n) = (?n * ?n) * t" by (auto elim: dvdE)
  then have t: "cL - 1 = (?l * m + ?n * t) * ?n" by (simp add: algebra_simps)
  have "(cL - 1) div ?n = ?l * m + ?n * t" unfolding t using pos by (simp del: mult_cancel_right)
  moreover have "((?l * m + ?n * t) * sk_U sk) mod ?n = m mod ?n"
  proof (rule eqm_imp_mod_eq)
    have u: "eqm ?n (?l * sk_U sk) 1"
      using k pos by (intro ModInverse_eqm) (auto simp: paillier_keys_def)
    have "eqm ?n ((?l * sk_U sk) * m + ?n * (t * sk_U sk)) (1 * m + 0)"
      by (intro eqm_add eqm_mult u eqm_refl) (simp add: eqm_def)
    then show "eqm ?n ((?l * m + ?n * t) * sk_U sk) m" by (simp add: algebra_simps)
  qed
  ultimately show ?thesis using k e pos l0
    by (simp add: Decrypt_def Let_def paillier_keys_def encrypts_def cL_def)
qed

lemma HomoAdd_encrypts:
  assumes k: "paillier_keys pk sk p q" and e: "encrypts (p * q) c1 m1" "encrypts (p * q) c2 m2"
  shows "\<exists>c. HomoAdd (Some pk) (Some c1) (Some c2) = Ok (Some c) \<and> encrypts (p * q) c (m1 + m2)"
proof -
  let ?n = "p * q"
  note pos = paillier_keys_pos [OF k]
  obtain r1 r2 where r: "coprime r1 ?n" "coprime r2 ?n"
    and c: "eqm (?n * ?n) c1 ((1 + m1 * ?n) * r1 ^ nat ?n)" "eqm (?n * ?n) c2 ((1 + m2 * ?n) * r2 ^ nat ?n)"
    using e by (auto simp: encrypts_def)
  have "eqm (?n * ?n) (c1 * c2) (((1 + m1 * ?n) * r1 ^ nat ?n) * ((1 + m2 * ?n) * r2 ^ nat ?n))"
    by (intro eqm_mult c)
  also have "\<dots> = ((1 + m1 * ?n) * (1 + m2 * ?n)) * (r1 * r2) ^ nat ?n"
    by (simp add: power_mult_distrib algebra_simps)
  also have "eqm (?n * ?n) \<dots> ((1 + (m1 + m2) * ?n) * (r1 * r2) ^ nat ?n)"
  proof (intro eqm_mult eqm_refl)
    have "(1 + m1 * ?n) * (1 + m2 * ?n) - (1 + (m1 + m2) * ?n) = ?n * ?n * (m1 * m2)"
      by (simp add: algebra_simps)
    then show "eqm (?n * ?n) ((1 + m1 * ?n) * (1 + m2 * ?n)) (1 + (m1 + m2) * ?n)" by (simp add: eqm_def)
  qed
  finally have "encrypts ?n (c1 * c2 mod (?n * ?n)) (m1 + m2)"
    using r pos by (auto simp: encrypts_def intro!: exI [of _ "r1 * r2"])
  then show ?thesis using k pos by (simp add: HomoAdd_def paillier_keys_def)
qed

lemma HomoMul_encrypts:
  assumes k: "paillier_keys pk sk p q" and e: "encrypts (p * q) c m" and a: "0 \<le> a"
  shows "\<exists>c'. HomoMul (Some pk) (Some c) (Some a) = Some c' \<and> encrypts (p * q) c' (a * m)"
proof -
  let ?n = "p * q"
  note pos = paillier_keys_pos [OF k]
  obtain r where r: "coprime r ?n" and c: "eqm (?n * ?n) c ((1 + m * ?n) * r ^ nat ?n)"
    using e by (auto simp: encrypts_def)
  have "eqm (?n * ?n) (c ^ nat a) (((1 + m * ?n) * r ^ nat ?n) ^ nat a)" by (rule eqm_power [OF c])
  also have "\<dots> = (1 + m * ?n) ^ nat a * (r ^ nat a) ^ nat ?n"
    by (simp add: power_mult_distrib mult.commute flip: power_mult)
  also have "eqm (?n * ?n) \<dots> ((1 + int (nat a) * m * ?n) * (r ^ nat a) ^ nat ?n)"
    by (intro eqm_mult power_one_plus eqm_refl)
  finally have "encrypts ?n (c ^ nat a mod (?n * ?n)) (a * m)"
    using r pos a by (auto simp: encrypts_def intro!: exI [of _ "r ^ nat a"])
  then show ?thesis using k pos a by (simp add: HomoMul_def paillier_keys_def)
qed

section \<open>Additively homomorphic encryption as an interface\<close>

text \<open>
  What the share-conversion protocols rely on: a relation between ciphertexts and the integers
  they stand for, kept by the two homomorphic operations and inverted by decryption.
\<close>

locale homomorphic_encryption =
  fixes valid :: "'k \<Rightarrow> bool"
    and modulus :: "'k \<Rightarrow> int"
    and rel :: "'k \<Rightarrow> int \<Rightarrow> int \<Rightarrow> bool"
    and dec :: "'k \<Rightarrow> int \<Rightarrow> int res"
    and hadd :: "'k \<Rightarrow> int \<Rightarrow> int \<Rightarrow> int option res"
    and hmul :: "'k \<Rightarrow> int \<Rightarrow> int \<Rightarrow> int option"
  assumes modulus_pos: "valid k \<Longrightarrow> 0 < modulus k"
    and dec_rel: "valid k \<Longrightarrow> rel k c m \<Longrightarrow> dec k c = Ok (m mod modulus k)"
    and hadd_rel: "valid k \<Longrightarrow> rel k c1 m1 \<Longrightarrow> rel k c2 m2 \<Longrightarrow>
      \<exists>c. hadd k c1 c2 = Ok (Some c) \<and> rel k c (m1 + m2)"
    and hmul_rel: "valid k \<Longrightarrow> rel k c m \<Longrightarrow> 0 \<le> a \<Longrightarrow>
      \<exists>c'. hmul k c a = Some c' \<and> rel k c' (a * m)"
begin

lemma affine:
  assumes "valid k" "rel k c m" "rel k cb b" "0 \<le> a"
  shows "\<exists>c1 c2. hmul k c a = Some c1 \<and> hadd k c1 cb = Ok (Some c2) \<and>
    dec k c2 = Ok ((a * m + b) mod modulus k)"
proof -
  obtain c1 where c1: "hmul k c a = Some c1" "rel k c1 (a * m)" using hmul_rel assms by blast
  obtain c2 where "hadd k c1 cb = Ok (Some c2)" "rel k c2 (a * m + b)"
    using hadd_rel [OF assms(1) c1(2) assms(3)] by blast
  then show ?thesis using c1(1) dec_rel [OF assms(1)] by blast
qed

text \<open>
  The additive shares: when \<open>a * m + b\<close> does not exceed the modulus, subtracting \<open>b\<close> from the
  decryption gives \<open>a * m\<close>, in the integers and so modulo every \<open>n\<close>.
\<close>

lemma additive_shares:
  assumes "valid k" "rel k c m" "rel k cb b" "0 \<le> a" "0 \<le> m" "0 \<le> b" "a * m + b < modulus k"
  shows "\<exists>c1 c2 alpha. hmul k c a = Some c1 \<and> hadd k c1 cb = Ok (Some c2) \<and>
    dec k c2 = Ok alpha \<and> (alpha + (- b)) mod n = (a * m) mod n"
proof -
  have "0 \<le> a * m + b" using assms by simp
  then have "(a * m + b) mod modulus k = a * m + b" using assms(7) by simp
  then show ?thesis using affine [OF assms(1-4)] by fastforce
qed

end

interpretation paillier: homomorphic_encryption
  "\<lambda>(pk, sk, p, q). paillier_keys pk sk p q" "\<lambda>(pk, sk, p, q). p * q"
  "\<lambda>(pk, sk, p, q). encrypts (p * q)" "\<lambda>(pk, sk, p, q) c. Decrypt (Some sk) (Some c)"
  "\<lambda>(pk, sk, p, q) c1 c2. HomoAdd (Some pk) (Some c1) (Some c2)"
  "\<lambda>(pk, sk, p, q) c a. HomoMul (Some pk) (Some c) (Some a)"
proof (unfold_locales, goal_cases)
  case (1 k)
  then show ?case using paillier_keys_pos by (cases k) auto
next
  case (2 k c m)
  then show ?case using Decrypt_encrypts by (cases k) auto
next
  case (3 k c1 m1 c2 m2)
  then show ?case using HomoAdd_encrypts by (cases k) simp
next
  case (4 k c m a)
  then show ?case using HomoMul_encrypts by (cases k) simp
qed

section \<open>Properties\<close>

lemma GenerateKeyPair_keys:
  "GenerateKeyPair len ch = (ch', Ok (Some (pk, sk, p, q))) \<Longrightarrow> is_prime p \<Longrightarrow> is_prime q \<Longrightarrow> p \<noteq> q \<Longrightarrow>
   paillier_keys pk sk p q"
  by (auto simp: GenerateKeyPair_def keys_of_primes_ok Let_def split: if_splits list.splits option.splits)

lemma GenerateKeyPair_pool:
  "0 < len \<Longrightarrow> fst (GenerateKeyPair len (\<lparr>sp_q = q1, sp_p = Some p1\<rparr> # \<lparr>sp_q = q2, sp_p = Some p2\<rparr> # rest)) =
   rest @ [\<lparr>sp_q = q1, sp_p = Some p1\<rparr>, \<lparr>sp_q = q2, sp_p = Some p2\<rparr>]"
  by (simp add: GenerateKeyPair_def Let_def split: option.splits)

text \<open>C29: decryption inverts encryption: with a key pair of \<^verbatim>\<open>GenerateKeyPair\<close> for distinct primes, a
  message accepted by \<^verbatim>\<open>Encrypt\<close> (negative messages and the modulus itself included) is recovered
  modulo \<open>N\<close>; the message \<open>N\<close>, which the length check lets through, comes back as 0.\<close>

theorem Decrypt_Encrypt:
  assumes "GenerateKeyPair len ch = (ch', Ok (Some (pk, sk, p, q)))" "is_prime p" "is_prime q" "p \<noteq> q"
    and "Encrypt pk (Some m) tape = Ok ((c, r), rest)"
  shows "Decrypt (Some sk) (Some c) = Ok (m mod pk_N pk)"
proof -
  have k: "paillier_keys pk sk p q" by (rule GenerateKeyPair_keys [OF assms(1-4)])
  then have N: "pk_N pk = p * q" by (simp add: paillier_keys_def)
  then have "m \<le> p * q" using assms(5) by (auto simp: Encrypt_def split: if_splits)
  from Encrypt_encrypts [OF k this assms(5)] show ?thesis using Decrypt_encrypts [OF k] N by simp
qed

definition toy_pool :: "SafePrime list" where
  "toy_pool = [\<lparr>sp_q = Some 2, sp_p = Some 5\<rparr>, \<lparr>sp_q = Some 3, sp_p = Some 7\<rparr>]"

definition toy_pk :: PublicKey where
  "toy_pk = \<lparr>pk_Length = ''2048'', pk_N = 35, pk_G = 36, pk_N2 = 1225\<rparr>"

definition toy_sk :: PrivateKey where
  "toy_sk = \<lparr>sk_Length = ''2048'', sk_PublicKey = toy_pk, sk_L = 24, sk_U = 19\<rparr>"

lemma toy_GenerateKeyPair: "GenerateKeyPair 2048 toy_pool = (toy_pool, Ok (Some (toy_pk, toy_sk, 5, 7)))"
  by code_simp

lemma toy_primes: "is_prime 5" "is_prime 7"
  by code_simp+

theorem Decrypt_Encrypt_witness: "Decrypt (Some toy_sk) (Some 193) = Ok (10 mod pk_N toy_pk)"
proof (rule Decrypt_Encrypt [OF toy_GenerateKeyPair toy_primes])
  show "Encrypt toy_pk (Some 10) [2] = Ok ((193, 2), [])" by code_simp
qed simp

text \<open>The conversion of a product into a sum: multiplying the ciphertext of \<open>k\<close> by \<open>a\<close> and adding
  the ciphertext of \<open>b\<close> succeeds and decrypts to \<open>a * k + b\<close> modulo \<open>N\<close>.\<close>

theorem Homo_affine:
  assumes "GenerateKeyPair len ch = (ch', Ok (Some (pk, sk, p, q)))" "is_prime p" "is_prime q" "p \<noteq> q"
    and "Encrypt pk (Some k) tape = Ok ((ck, rk), tape')" "Encrypt pk (Some b) tape' = Ok ((cb, rb), tape'')"
    and "0 \<le> a"
  shows "\<exists>c1 c2. HomoMul (Some pk) (Some ck) (Some a) = Some c1 \<and>
    HomoAdd (Some pk) (Some c1) (Some cb) = Ok (Some c2) \<and>
    Decrypt (Some sk) (Some c2) = Ok ((a * k + b) mod pk_N pk)"
proof -
  have kp: "paillier_keys pk sk p q" by (rule GenerateKeyPair_keys [OF assms(1-4)])
  then have N: "pk_N pk = p * q" by (simp add: paillier_keys_def)
  then have "k \<le> p * q" "b \<le> p * q" using assms(5,6) by (auto simp: Encrypt_def split: if_splits)
  then show ?thesis
    using paillier.affine [of "(pk, sk, p, q)" ck k cb b a] kp N assms(5-7)
    by (simp add: Encrypt_encrypts)
qed

theorem Homo_affine_witness:
  "\<exists>c1 c2. HomoMul (Some toy_pk) (Some 1062) (Some 3) = Some c1 \<and>
    HomoAdd (Some toy_pk) (Some c1) (Some 368) = Ok (Some c2) \<and>
    Decrypt (Some toy_sk) (Some c2) = Ok ((3 * 4 + 20) mod pk_N toy_pk)"
proof (rule Homo_affine [OF toy_GenerateKeyPair toy_primes])
  show "Encrypt toy_pk (Some 4) [3, 2] = Ok ((1062, 3), [2])" by code_simp
  show "Encrypt toy_pk (Some 20) [2] = Ok ((368, 2), [])" by code_simp
qed simp_all

text \<open>\<^verbatim>\<open>GenerateKeyPair\<close> returns the safe primes to the pool: with the pool of four that
  \<^verbatim>\<open>GenRandomSafePrime\<close> fills, every second call uses the same two primes, so the third key pair
  of a process is the first one again.\<close>

theorem GenerateKeyPair_reuses_primes:
  assumes "0 < len" "ch = [\<lparr>sp_q = q1, sp_p = Some p1\<rparr>, \<lparr>sp_q = q2, sp_p = Some p2\<rparr>,
      \<lparr>sp_q = q3, sp_p = Some p3\<rparr>, \<lparr>sp_q = q4, sp_p = Some p4\<rparr>]"
  shows "GenerateKeyPair len (fst (GenerateKeyPair len (fst (GenerateKeyPair len ch)))) = GenerateKeyPair len ch"
  using assms by (simp add: GenerateKeyPair_pool)

theorem GenerateKeyPair_reuses_primes_witness:
  "GenerateKeyPair 2048 (fst (GenerateKeyPair 2048 (fst (GenerateKeyPair 2048 (toy_pool @ toy_pool))))) =
    GenerateKeyPair 2048 (toy_pool @ toy_pool)"
  by (rule GenerateKeyPair_reuses_primes) (simp_all add: toy_pool_def)

end
