(* ===== verification/Ntilde.thy ===== *)
theory Ntilde
  imports Schnorr Paillier
begin

text \<open>
  \<^verbatim>\<open>smpc-lib/crypto/ec2/ntilde.go\<close> and \<^verbatim>\<open>ntildeZK.go\<close>: the auxiliary modulus \<open>Ntilde\<close> with its two
  generators, and the proof that each generator is a power of the other, repeated for 128
  one-bit challenges.
\<close>

section \<open>ntilde.go\<close>

record NtildeH1H2 =
  nt_Ntilde :: int
  nt_H1 :: int
  nt_H2 :: int

text \<open>The common part of \<^verbatim>\<open>GenerateNtildeH1H2\<close> and \<^verbatim>\<open>CreateNt\<close> once the safe primes are known.\<close>

definition ntilde_of_primes :: "int \<Rightarrow> int \<Rightarrow> int \<Rightarrow> int \<Rightarrow> tape \<Rightarrow>
    ((NtildeH1H2 \<times> int \<times> int) option \<times> tape) res" where
  "ntilde_of_primes P Q p q tape =
     (let NTildei = P * Q;
          modPQ = p * q
      in bindr (GetRandomPositiveRelativelyPrimeInt (Some NTildei) tape) (\<lambda>(f1, tape).
         bindr (GetRandomPositiveRelativelyPrimeInt (Some NTildei) tape) (\<lambda>(alpha, tape).
         bindr (deref alpha) (\<lambda>alpha.
         case modInt_Inverse modPQ alpha of
           None \<Rightarrow> Ok (None, tape)
         | Some beta \<Rightarrow>
             bindr (deref f1) (\<lambda>f1.
             bindr (modInt_Mul NTildei f1 f1) (\<lambda>h1i.
             bindr (deref (modInt_Exp NTildei h1i alpha)) (\<lambda>h2i.
               Ok (Some (\<lparr>nt_Ntilde = NTildei, nt_H1 = h1i, nt_H2 = h2i\<rparr>, alpha, beta), tape))))))))"

definition GenerateNtildeH1H2 :: "int \<Rightarrow> SafePrime list \<times> tape \<Rightarrow>
    (SafePrime list \<times> tape, (NtildeH1H2 \<times> int \<times> int \<times> int \<times> int \<times> int \<times> int) option) st" where
  "GenerateNtildeH1H2 len st =
     (case st of (ch, tape) \<Rightarrow>
        if len \<le> 0 then ((ch, tape), Ok None)
        else case ch of
          sp1 # sp2 # rest \<Rightarrow>
            (case (sp_p sp1, sp_p sp2) of
               (Some P, Some Q) \<Rightarrow>
                 (let ch' = rest @ [sp1, sp2]
                  in tryr (deref (sp_q sp1)) (ch', tape) (\<lambda>p.
                     tryr (deref (sp_q sp2)) (ch', tape) (\<lambda>q.
                     tryr (ntilde_of_primes P Q p q tape) (ch', tape) (\<lambda>(r, tape).
                       ((ch', tape), Ok (map_option (\<lambda>(nt, alpha, beta). (nt, alpha, beta, p, q, P, Q)) r))))))
             | _ \<Rightarrow> ((rest, tape), Ok None))
        | _ \<Rightarrow> (([], tape), Hang))"

definition CreateNt :: "(int \<Rightarrow> bool) \<Rightarrow> int \<Rightarrow> int option list \<Rightarrow> tape \<Rightarrow>
    (((NtildeH1H2 \<times> int \<times> int \<times> int \<times> int) option \<times> tape) res \<times> int option list) option" where
  "CreateNt pp len draws tape =
     (if len \<le> 0 then Some (Ok (None, tape), draws)
      else case GetRandomPrime pp draws of
        None \<Rightarrow> None
      | Some ((p, P), draws) \<Rightarrow>
          (case GetRandomPrime pp draws of
             None \<Rightarrow> None
           | Some ((q, Q), draws) \<Rightarrow>
               (case (p, q, P, Q) of
                  (Some p, Some q, Some P, Some Q) \<Rightarrow>
                    Some (mapr (\<lambda>(r, tape). (map_option (\<lambda>(nt, alpha, beta). (nt, alpha, beta, p, q)) r, tape))
                      (ntilde_of_primes P Q p q tape), draws)
                | _ \<Rightarrow> Some (Ok (None, tape), draws))))"

section \<open>ntildeZK.go\<close>

definition Iterations :: nat where
  "Iterations = 128"

record NtildeProof =
  np_Alpha :: "int option list"
  np_T :: "int option list"

definition Bit :: "int \<Rightarrow> nat \<Rightarrow> int" where
  "Bit c i = (c div 2 ^ i) mod 2"

text \<open>The first loop of \<^verbatim>\<open>NewNtildeProof\<close>: the random exponents and the commitments.\<close>

fun ntilde_commits :: "nat \<Rightarrow> int \<Rightarrow> int \<Rightarrow> int \<Rightarrow> tape \<Rightarrow> ((int list \<times> int list) \<times> tape) res" where
  "ntilde_commits 0 h1 pMulQ N tape = Ok (([], []), tape)"
| "ntilde_commits (Suc k) h1 pMulQ N tape =
     bindr (GetRandomPositiveInt (Some pMulQ) tape) (\<lambda>(a, tape).
     bindr (deref a) (\<lambda>a.
     bindr (deref (modInt_Exp N h1 a)) (\<lambda>alpha.
     bindr (ntilde_commits k h1 pMulQ N tape) (\<lambda>((as, alphas), tape).
       Ok ((a # as, alpha # alphas), tape)))))"

definition NewNtildeProof :: "(byte list \<Rightarrow> byte list) \<Rightarrow> int \<Rightarrow> int \<Rightarrow> int \<Rightarrow> int \<Rightarrow> int \<Rightarrow> int \<Rightarrow> tape \<Rightarrow>
    (NtildeProof \<times> tape) res" where
  "NewNtildeProof sha h1 h2 x p q N tape =
     (let pMulQ = p * q
      in bindr (ntilde_commits Iterations h1 pMulQ N tape) (\<lambda>((a, alpha), tape).
         bindr (deref (Sha512_256 sha ([h1, h2, N] @ alpha))) (\<lambda>c.
         bindr (mapM (\<lambda>i. bindr (modInt_Mul pMulQ (Bit c i) x) (\<lambda>m. modInt_Add pMulQ (a ! i) m)) [0..<Iterations]) (\<lambda>t.
           Ok (\<lparr>np_Alpha = map Some alpha, np_T = map Some t\<rparr>, tape)))))"

text \<open>One iteration of \<^verbatim>\<open>Verify\<close>.\<close>

definition ntilde_check :: "int \<Rightarrow> int \<Rightarrow> int \<Rightarrow> int \<Rightarrow> NtildeProof \<Rightarrow> nat \<Rightarrow> bool res" where
  "ntilde_check h1 h2 N c p i =
     (case (np_Alpha p ! i, np_T p ! i) of
        (Some al, Some t) \<Rightarrow>
          bindr (deref (modInt_Exp N h2 (Bit c i))) (\<lambda>h2ExpCi.
          bindr (modInt_Mul N al h2ExpCi) (\<lambda>alphaIMulH2ExpCi.
          bindr (deref (modInt_Exp N h1 t)) (\<lambda>h1ExpTi.
            Ok (h1ExpTi = alphaIMulH2ExpCi))))
      | _ \<Rightarrow> Ok False)"

text \<open>A loop that stops with \<^verbatim>\<open>return false\<close> at the first failing check.\<close>

fun all_checks :: "('a \<Rightarrow> bool res) \<Rightarrow> 'a list \<Rightarrow> bool res" where
  "all_checks f [] = Ok True"
| "all_checks f (x # xs) = bindr (f x) (\<lambda>ok. if ok then all_checks f xs else Ok False)"

definition NtildeProof_Verify :: "(byte list \<Rightarrow> byte list) \<Rightarrow> NtildeProof option \<Rightarrow>
    int option \<Rightarrow> int option \<Rightarrow> int option \<Rightarrow> bool res" where
  "NtildeProof_Verify sha p h1 h2 N =
     (case (p, h1, h2, N) of
        (Some p, Some h1, Some h2, Some N) \<Rightarrow>
          bindr (Mod h1 N) (\<lambda>h1modn.
          bindr (Mod h2 N) (\<lambda>h2modn.
          if h1modn = 0 \<or> h2modn = 0 then Ok False
          else if h1modn = 1 \<or> h2modn = 1 then Ok False
          else if h1modn = h2modn then Ok False
          else bindr (sha_call sha ([Some h1, Some h2, Some N] @ np_Alpha p)) (\<lambda>c.
            all_checks (ntilde_check h1 h2 N c p) [0..<Iterations])))
      | _ \<Rightarrow> Ok False)"

section \<open>Lemmas\<close>

lemma all_checks_True: "(\<And>x. x \<in> set xs \<Longrightarrow> f x = Ok True) \<Longrightarrow> all_checks f xs = Ok True"
  by (induction xs) auto

lemma positive_loop_hit:
  assumes "0 \<le> r" "r < u" "r < 2 ^ BitLen u - 1" "int (BitLen u) \<le> 5000"
  shows "GetRandomPositiveInt (Some u) (r # rest) = Ok (Some r, rest)"
  using assms BitLen_pos [of u]
  by (simp add: GetRandomPositiveInt_def MustGetRandomInt_hit mustGetRandomIntMaxBits_def)

lemma relprime_hit:
  assumes "1 \<le> r" "r < n" "gcd r n = 1" "r < 2 ^ BitLen n - 1" "int (BitLen n) \<le> 5000"
  shows "GetRandomPositiveRelativelyPrimeInt (Some n) (r # rest) = Ok (Some r, rest)"
  using assms BitLen_pos [of n]
  by (simp add: GetRandomPositiveRelativelyPrimeInt_def MustGetRandomInt_hit mustGetRandomIntMaxBits_def
    IsNumberInMultiplicativeGroup_def)

lemma GetRandomPositiveInt_range:
  assumes "GetRandomPositiveInt (Some u) tape = Ok (Some r, rest)" shows "0 \<le> r \<and> r < u"
proof -
  have "positive_loop u tape = Ok (r, rest) \<Longrightarrow> 0 \<le> r \<and> r < u"
    by (induction u tape rule: positive_loop.induct)
      (auto simp: MustGetRandomInt_def split: if_splits prod.splits)
  then show ?thesis using assms by (auto simp: GetRandomPositiveInt_def split: if_splits)
qed

lemma ntilde_commits_spec:
  assumes N: "0 < N"
  shows "ntilde_commits k h1 pq N tape = Ok ((as, als), rest) \<Longrightarrow>
    length as = k \<and> length als = k \<and> (\<forall>i < k. 0 \<le> as ! i \<and> als ! i = h1 ^ nat (as ! i) mod N)"
proof (induction k arbitrary: tape as als)
  case 0
  then show ?case by simp
next
  case (Suc k)
  then obtain a t1 as' als' where a: "GetRandomPositiveInt (Some pq) tape = Ok (Some a, t1)"
    and rec: "ntilde_commits k h1 pq N t1 = Ok ((as', als'), rest)"
    and eq: "as = a # as'" and al: "\<exists>z. Exp h1 a N = Some z \<and> als = z # als'"
    by (auto simp: modInt_Exp_def split: prod.splits)
  have "0 \<le> a" using GetRandomPositiveInt_range [OF a] by simp
  then have "als = (h1 ^ nat a mod N) # als'" using al N by simp
  then show ?case using Suc.IH [OF rec] eq \<open>0 \<le> a\<close> by (auto simp: nth_Cons split: nat.splits)
qed

lemma Bit_range: "Bit c i = 0 \<or> Bit c i = 1"
  by (auto simp: Bit_def)

text \<open>The response exponent is reduced modulo \<open>p * q\<close>, an exponent of the base.\<close>

lemma power_mod_exponent:
  assumes m: "0 < m" and h: "eqm N (h ^ nat m) 1" and e: "0 \<le> e"
  shows "eqm N (h ^ nat (e mod m)) (h ^ nat e)"
proof -
  have "nat e = nat m * nat (e div m) + nat (e mod m)"
    using m e by (metis mult_div_mod_eq nat_add_distrib nat_mult_distrib pos_imp_zdiv_nonneg_iff pos_mod_sign
      less_imp_le zero_le_mult_iff)
  then have "h ^ nat e = (h ^ nat m) ^ nat (e div m) * h ^ nat (e mod m)" by (simp add: power_add power_mult)
  also have "eqm N \<dots> (1 ^ nat (e div m) * h ^ nat (e mod m))" by (intro eqm_mult eqm_power h eqm_refl)
  finally show ?thesis by (simp add: eqm_sym)
qed

lemma NtildeProof_complete:
  assumes N: "0 < N" and pq: "0 < p * q" and x: "0 \<le> x"
    and h: "eqm N (h1 ^ nat (p * q)) 1" "eqm N h2 (h1 ^ nat x)"
    and nt: "h1 mod N \<notin> {0, 1}" "h2 mod N \<notin> {0, 1}" "h1 mod N \<noteq> h2 mod N"
    and pf: "NewNtildeProof sha h1 h2 x p q N tape = Ok (pr, rest)"
  shows "NtildeProof_Verify sha (Some pr) (Some h1) (Some h2) (Some N) = Ok True"
proof -
  obtain as als ts where c: "ntilde_commits Iterations h1 (p * q) N tape = Ok ((as, als), rest)"
    and t: "mapM (\<lambda>i. bindr (modInt_Mul (p * q) (Bit (SetBytes (sha (sha_input ([h1, h2, N] @ als)))) i) x)
        (\<lambda>m. modInt_Add (p * q) (as ! i) m)) [0..<Iterations] = Ok ts"
    and pr: "pr = \<lparr>np_Alpha = map Some als, np_T = map Some ts\<rparr>"
    using pf by (auto simp: NewNtildeProof_def Let_def Sha512_256_def split: prod.splits)
  define ch where "ch = SetBytes (sha (sha_input ([h1, h2, N] @ als)))"
  note cs = ntilde_commits_spec [OF N c]
  have len: "length ts = Iterations" using mapM_Ok_length [OF t] by simp
  have ti: "ts ! i = (as ! i + (Bit ch i * x) mod (p * q)) mod (p * q)" if "i < Iterations" for i
    using mapM_Ok_nth [OF t, of i] that pq by (auto simp: modInt_Mul_def modInt_Add_def ch_def)
  have "ntilde_check h1 h2 N ch pr i = Ok True" if i: "i < Iterations" for i
  proof -
    let ?b = "Bit ch i"
    have b0: "0 \<le> ?b" using Bit_range [of ch i] by auto
    have a: "0 \<le> as ! i" "als ! i = h1 ^ nat (as ! i) mod N" using cs i by auto
    have "ts ! i = (as ! i + ?b * x) mod (p * q)" using ti [OF i] by (simp add: mod_simps)
    moreover have "0 \<le> as ! i + ?b * x" using a b0 x by simp
    ultimately have "eqm N (h1 ^ nat (ts ! i)) (h1 ^ nat (as ! i + ?b * x))"
      using power_mod_exponent [OF pq h(1)] by simp
    also have "h1 ^ nat (as ! i + ?b * x) = h1 ^ nat (as ! i) * (h1 ^ nat x) ^ nat ?b"
      using a b0 x by (simp add: nat_add_distrib nat_mult_distrib power_add power_mult mult.commute)
    also have "eqm N \<dots> ((h1 ^ nat (as ! i) mod N) * (h2 ^ nat ?b mod N))"
      using eqm_power [OF eqm_sym [OF h(2)], of "nat ?b"] by (intro eqm_mult) simp_all
    finally have "h1 ^ nat (ts ! i) mod N = (h1 ^ nat (as ! i) mod N * (h2 ^ nat ?b mod N)) mod N"
      by (simp add: eqm_mod_iff)
    moreover have "0 \<le> ts ! i" using ti [OF i] pq by simp
    ultimately show ?thesis using i cs len a b0 N
      by (simp add: ntilde_check_def pr modInt_Exp_def modInt_Mul_def)
  qed
  moreover have "sha_call sha ([Some h1, Some h2, Some N] @ np_Alpha pr) = Ok ch"
    using sha_call_Some [of "[h1, h2, N] @ als" sha] by (simp add: pr ch_def)
  moreover have "all_checks (ntilde_check h1 h2 N ch pr) [0..<Iterations] = Ok True"
    using calculation(1) by (intro all_checks_True) auto
  ultimately show ?thesis using nt N by (simp add: NtildeProof_Verify_def)
qed

lemma ntilde_commits_succeeds:
  assumes N: "0 < N" and "int (BitLen u) \<le> 5000"
  shows "\<forall>a \<in> set as. 0 \<le> a \<and> a < u \<and> a < 2 ^ BitLen u - 1 \<Longrightarrow>
    \<exists>als. ntilde_commits (length as) h1 u N (as @ rest) = Ok ((as, als), rest)"
proof (induction as)
  case (Cons a as)
  then obtain als where "ntilde_commits (length as) h1 u N (as @ rest) = Ok ((as, als), rest)" by auto
  moreover have "GetRandomPositiveInt (Some u) (a # as @ rest) = Ok (Some a, as @ rest)"
    using Cons.prems assms(2) by (intro positive_loop_hit) auto
  ultimately show ?case using N Cons.prems by (simp add: modInt_Exp_def)
qed simp

lemma NewNtildeProof_succeeds:
  assumes N: "0 < N" and pq: "0 < p * q" "int (BitLen (p * q)) \<le> 5000" and "length as = Iterations"
    and "\<forall>a \<in> set as. 0 \<le> a \<and> a < p * q \<and> a < 2 ^ BitLen (p * q) - 1"
  shows "\<exists>pr. NewNtildeProof sha h1 h2 x p q N (as @ rest) = Ok (pr, rest)"
proof -
  obtain als where c: "ntilde_commits Iterations h1 (p * q) N (as @ rest) = Ok ((as, als), rest)"
    using ntilde_commits_succeeds [OF N pq(2) assms(5), of h1 rest] assms(4) by auto
  let ?c = "SetBytes (sha (sha_input (h1 # h2 # N # als)))"
  have "mapM (\<lambda>i. bindr (modInt_Mul (p * q) (Bit ?c i) x) (\<lambda>m. modInt_Add (p * q) (as ! i) m)) [0..<Iterations] =
      Ok (map (\<lambda>i. (as ! i + (Bit ?c i * x) mod (p * q)) mod (p * q)) [0..<Iterations])"
    using pq by (intro mapM_Ok_map) (simp add: modInt_Mul_def modInt_Add_def)
  then show ?thesis using c by (simp add: NewNtildeProof_def Let_def Sha512_256_def)
qed

section \<open>The generators\<close>

text \<open>Squares have order dividing \<open>p * q\<close> modulo the product of the safe primes \<open>2p+1\<close> and \<open>2q+1\<close>.\<close>

lemma square_order:
  assumes P: "is_prime P" "P = 2 * p + 1" and Q: "is_prime Q" "Q = 2 * q + 1" and ne: "P \<noteq> Q"
    and f: "coprime f (P * Q)"
  shows "eqm (P * Q) ((f * f) ^ nat (p * q)) 1"
proof (rule eqm_crt)
  have pos: "0 < p" "0 < q" using is_prime_gt_1 [OF P(1)] is_prime_gt_1 [OF Q(1)] P(2) Q(2) by auto
  have half: "eqm R ((f * f) ^ nat (r * s)) 1"
    if "is_prime R" "R = 2 * r + 1" "coprime f R" "0 < r" "0 < s" for R r s
  proof -
    have "\<not> R dvd f" using that(1,3) is_prime_gt_1 [OF that(1)] by (metis coprime_absorb_right
      not_is_unit_0 zdvd1_eq abs_of_pos less_irrefl zero_less_one less_trans)
    then have "eqm R (f ^ nat (R - 1)) 1" by (rule fermat_unit [OF that(1)])
    then have "eqm R (f ^ nat (2 * r)) 1" using that(2) by simp
    moreover have "(f * f) ^ nat (r * s) = (f ^ nat (2 * r)) ^ nat s"
    proof -
      have "(f * f) ^ nat (r * s) = f ^ (2 * (nat r * nat s))"
        unfolding power2_eq_square [symmetric] power_mult [symmetric] using that(4) by (simp add: nat_mult_distrib)
      then show ?thesis using that(4) by (simp add: nat_mult_distrib mult.assoc flip: power_mult)
    qed
    ultimately show ?thesis using eqm_power [of R "f ^ nat (2 * r)" 1 "nat s"] by simp
  qed
  show "eqm P ((f * f) ^ nat (p * q)) 1" using half [OF P _ pos] f by simp
  show "eqm Q ((f * f) ^ nat (p * q)) 1" using half [OF Q _ pos(2,1)] f by (simp add: mult.commute)
  show "coprime P Q" by (rule distinct_primes_coprime [OF P(1) Q(1) ne])
qed

lemma ntilde_of_primes_spec:
  assumes P: "is_prime P" "P = 2 * p + 1" and Q: "is_prime Q" "Q = 2 * q + 1" and ne: "P \<noteq> Q"
    and g: "ntilde_of_primes P Q p q tape = Ok (Some (nt, alpha, beta), rest)"
  shows "nt_Ntilde nt = P * Q" "0 < alpha" "0 \<le> beta"
    and "eqm (P * Q) (nt_H1 nt ^ nat (p * q)) 1" "eqm (P * Q) (nt_H2 nt ^ nat (p * q)) 1"
    and "eqm (P * Q) (nt_H2 nt) (nt_H1 nt ^ nat alpha)" "eqm (P * Q) (nt_H1 nt) (nt_H2 nt ^ nat beta)"
proof -
  have pos: "1 < P" "1 < Q" using is_prime_gt_1 [OF P(1)] is_prime_gt_1 [OF Q(1)] by auto
  then have PQ: "0 < P * Q" and pq: "0 < p * q" using P(2) Q(2) by auto
  obtain f t1 t2 h1 where f: "GetRandomPositiveRelativelyPrimeInt (Some (P * Q)) tape = Ok (Some f, t1)"
    and al: "GetRandomPositiveRelativelyPrimeInt (Some (P * Q)) t1 = Ok (Some alpha, t2)"
    and be: "ModInverse alpha (p * q) = Some beta" and h1: "h1 = (f * f) mod (P * Q)"
    and nt: "nt_Ntilde nt = P * Q" "nt_H1 nt = h1" "Exp h1 alpha (P * Q) = Some (nt_H2 nt)"
    using g PQ by (auto simp: ntilde_of_primes_def Let_def modInt_Inverse_def modInt_Mul_def modInt_Exp_def
      split: prod.splits option.splits)
  have r: "1 \<le> t \<and> gcd t (P * Q) = 1" if "GetRandomPositiveRelativelyPrimeInt (Some (P * Q)) tp = Ok (Some t, rs)" for t tp rs
    using that relprime_loop_range [of "P * Q" tp t rs] PQ
    by (auto simp: GetRandomPositiveRelativelyPrimeInt_def split: if_splits)
  have a1: "1 \<le> alpha" using r [OF al] by simp
  have cf: "coprime f (P * Q)" using r [OF f] by (simp add: coprime_iff_gcd_eq_1)
  show "nt_Ntilde nt = P * Q" "0 < alpha" "0 \<le> beta" using nt a1 ModInverse_Some(2) [OF pq be] by auto
  have o1: "eqm (P * Q) (h1 ^ nat (p * q)) 1"
  proof -
    have "eqm (P * Q) (h1 ^ nat (p * q)) ((f * f) ^ nat (p * q))" unfolding h1 by (intro eqm_power) simp
    also have "eqm (P * Q) \<dots> 1" by (rule square_order [OF P Q ne cf])
    finally show ?thesis .
  qed
  then show "eqm (P * Q) (nt_H1 nt ^ nat (p * q)) 1" using nt by simp
  show h2: "eqm (P * Q) (nt_H2 nt) (nt_H1 nt ^ nat alpha)"
  proof -
    have "nt_H2 nt = h1 ^ nat alpha mod (P * Q)" using nt(3) a1 PQ by simp
    then show ?thesis using nt(2) by simp
  qed
  have "eqm (P * Q) (nt_H2 nt ^ nat (p * q)) ((h1 ^ nat alpha) ^ nat (p * q))"
    using h2 nt by (intro eqm_power) simp
  also have "(h1 ^ nat alpha) ^ nat (p * q) = (h1 ^ nat (p * q)) ^ nat alpha" by (simp add: mult.commute flip: power_mult)
  also have "eqm (P * Q) \<dots> (1 ^ nat alpha)" by (intro eqm_power o1)
  finally show "eqm (P * Q) (nt_H2 nt ^ nat (p * q)) 1" by simp
  have "eqm (P * Q) (nt_H2 nt ^ nat beta) ((h1 ^ nat alpha) ^ nat beta)" using h2 nt by (intro eqm_power) simp
  also have "(h1 ^ nat alpha) ^ nat beta = h1 ^ nat (alpha * beta)"
    using a1 by (simp add: nat_mult_distrib flip: power_mult)
  also have "eqm (P * Q) \<dots> (h1 ^ nat (alpha * beta mod (p * q)))"
    using a1 ModInverse_Some(2) [OF pq be] by (intro eqm_sym [OF power_mod_exponent [OF pq o1]]) simp
  also have "alpha * beta mod (p * q) = 1 mod (p * q)" by (rule ModInverse_Some(1) [OF pq be])
  also have "eqm (P * Q) (h1 ^ nat (1 mod (p * q))) (h1 ^ nat 1)" by (rule power_mod_exponent [OF pq o1]) simp
  finally show "eqm (P * Q) (nt_H1 nt) (nt_H2 nt ^ nat beta)" using nt by (simp add: eqm_sym)
qed

definition nontrivial_generators :: "NtildeH1H2 \<Rightarrow> bool" where
  "nontrivial_generators nt \<longleftrightarrow> nt_H1 nt mod nt_Ntilde nt \<notin> {0, 1} \<and> nt_H2 nt mod nt_Ntilde nt \<notin> {0, 1} \<and>
     nt_H1 nt mod nt_Ntilde nt \<noteq> nt_H2 nt mod nt_Ntilde nt"

text \<open>The instance of \<open>zk_proof\<close>: the statement is \<open>(h1, h2, N)\<close>, the witness \<open>(x, p, q)\<close>.\<close>

definition ntilde_instance :: "int \<times> int \<times> int \<Rightarrow> int \<times> int \<times> int \<Rightarrow> tape \<Rightarrow> bool" where
  "ntilde_instance X W tape \<longleftrightarrow>
     (case (X, W) of ((h1, h2, N), (x, p, q)) \<Rightarrow>
        0 < N \<and> 0 < p * q \<and> 0 \<le> x \<and> eqm N (h1 ^ nat (p * q)) 1 \<and> eqm N h2 (h1 ^ nat x) \<and>
        h1 mod N \<notin> {0, 1} \<and> h2 mod N \<notin> {0, 1} \<and> h1 mod N \<noteq> h2 mod N)"

interpretation ntilde: zk_proof
  "\<lambda>(h1, h2, N) (x, p, q). NewNtildeProof sha h1 h2 x p q N"
  "\<lambda>(h1, h2, N) pr. NtildeProof_Verify sha (Some pr) (Some h1) (Some h2) (Some N)" ntilde_instance
  for sha :: "byte list \<Rightarrow> byte list"
proof (unfold_locales, goal_cases)
  case (1 x w tape p rest)
  then show ?case
    by (cases x; cases w) (auto simp: ntilde_instance_def intro!: NtildeProof_complete)
qed

section \<open>Properties\<close>

text \<open>For the auxiliary modulus generated from two distinct safe primes, whose generators are not
  among the trivial values the verifier refuses, the proofs in both directions (\<open>H2\<close> is a power of
  \<open>H1\<close> with exponent \<open>alpha\<close>, \<open>H1\<close> a power of \<open>H2\<close> with exponent \<open>beta\<close>) are produced and accepted.\<close>

theorem NtildeProofs_accepted:
  assumes "GenerateNtildeH1H2 len (ch, tape) = (st, Ok (Some (nt, alpha, beta, p, q, P, Q)))"
    and "is_prime P" "P = 2 * p + 1" "is_prime Q" "Q = 2 * q + 1" "P \<noteq> Q" "nontrivial_generators nt"
    and "int (BitLen (p * q)) \<le> 5000" "length as = Iterations"
    and "\<forall>a \<in> set as. 0 \<le> a \<and> a < p * q \<and> a < 2 ^ BitLen (p * q) - 1"
  shows "(\<exists>pr. NewNtildeProof sha (nt_H1 nt) (nt_H2 nt) alpha p q (nt_Ntilde nt) (as @ rest) = Ok (pr, rest) \<and>
      NtildeProof_Verify sha (Some pr) (Some (nt_H1 nt)) (Some (nt_H2 nt)) (Some (nt_Ntilde nt)) = Ok True) \<and>
    (\<exists>pr. NewNtildeProof sha (nt_H2 nt) (nt_H1 nt) beta p q (nt_Ntilde nt) (as @ rest) = Ok (pr, rest) \<and>
      NtildeProof_Verify sha (Some pr) (Some (nt_H2 nt)) (Some (nt_H1 nt)) (Some (nt_Ntilde nt)) = Ok True)"
proof -
  obtain t where g: "ntilde_of_primes P Q p q tape = Ok (Some (nt, alpha, beta), t)"
    using assms(1) by (auto simp: GenerateNtildeH1H2_def Let_def split: if_splits list.splits option.splits prod.splits)
  note spec = ntilde_of_primes_spec [OF assms(2-6) g]
  have pos: "1 < P" "1 < Q" using is_prime_gt_1 assms(2,4) by auto
  then have N: "0 < nt_Ntilde nt" and pq: "0 < p * q" using spec(1) assms(3,5) by auto
  have s: "\<exists>pr. NewNtildeProof sha h1 h2 x p q (nt_Ntilde nt) (as @ rest) = Ok (pr, rest)" for h1 h2 x
    by (rule NewNtildeProof_succeeds [OF N pq assms(8-10)])
  have i1: "ntilde_instance (nt_H1 nt, nt_H2 nt, nt_Ntilde nt) (alpha, p, q) (as @ rest)"
    and i2: "ntilde_instance (nt_H2 nt, nt_H1 nt, nt_Ntilde nt) (beta, p, q) (as @ rest)"
    using spec assms(7) N pq by (auto simp: ntilde_instance_def nontrivial_generators_def)
  show ?thesis
    using s [of "nt_H1 nt" "nt_H2 nt" alpha] s [of "nt_H2 nt" "nt_H1 nt" beta]
      ntilde.complete [OF i1, of sha] ntilde.complete [OF i2, of sha] by auto
qed

definition toy_nt :: NtildeH1H2 where
  "toy_nt = \<lparr>nt_Ntilde = 35, nt_H1 = 4, nt_H2 = 9\<rparr>"

lemma toy_GenerateNtildeH1H2:
  "GenerateNtildeH1H2 2048 (toy_pool, [2, 11]) = ((toy_pool, []), Ok (Some (toy_nt, 11, 5, 2, 3, 5, 7)))"
proof -
  have bl: "BitLen 35 = 6" by code_simp
  have "gcd (2::int) 35 = 1" "gcd (11::int) 35 = 1" by code_simp+
  then have "GetRandomPositiveRelativelyPrimeInt (Some 35) [2, 11] = Ok (Some 2, [11])"
    "GetRandomPositiveRelativelyPrimeInt (Some 35) [11] = Ok (Some 11, [])"
    using bl by (simp_all add: relprime_hit)
  moreover have "ModInverse 11 6 = Some 5" "Exp 4 11 35 = Some 9" by code_simp+
  ultimately show ?thesis
    by (simp add: GenerateNtildeH1H2_def toy_pool_def ntilde_of_primes_def toy_nt_def
      modInt_Inverse_def modInt_Mul_def modInt_Exp_def Let_def)
qed

theorem NtildeProofs_accepted_witness:
  "(\<exists>pr. NewNtildeProof (\<lambda>bs. bs) 4 9 11 2 3 35 (replicate Iterations 1 @ []) = Ok (pr, []) \<and>
      NtildeProof_Verify (\<lambda>bs. bs) (Some pr) (Some 4) (Some 9) (Some 35) = Ok True) \<and>
    (\<exists>pr. NewNtildeProof (\<lambda>bs. bs) 9 4 5 2 3 35 (replicate Iterations 1 @ []) = Ok (pr, []) \<and>
      NtildeProof_Verify (\<lambda>bs. bs) (Some pr) (Some 9) (Some 4) (Some 35) = Ok True)"
proof -
  have "BitLen 6 = 3" by code_simp
  moreover have "nontrivial_generators toy_nt" by (simp add: nontrivial_generators_def toy_nt_def)
  ultimately show ?thesis
    using NtildeProofs_accepted [OF toy_GenerateNtildeH1H2 toy_primes(1) _ toy_primes(2), of "replicate Iterations 1" "\<lambda>bs. bs" "[]"]
    by (simp add: toy_nt_def)
qed

end
