(* ===== verification/ModulusZK.thy ===== *)
theory ModulusZK
  imports Ntilde
begin

text \<open>
  \<^verbatim>\<open>smpc-lib/crypto/ec2/squarefreeZK.go\<close> and \<^verbatim>\<open>hvZK.go\<close>: the proofs that a modulus is square-free
  and that it is a product of two primes.  Both derive their challenges by chaining
  \<^verbatim>\<open>Sha512_256\<close>, one goroutine per challenge.

  The goroutines of \<^verbatim>\<open>CalcX\<close> write to distinct slots, so they are run one after the other.  Those
  of \<^verbatim>\<open>CalcRoh\<close> share a \<^verbatim>\<open>SafeMap\<close> and a channel; their accesses are steps of an interleaving, and
  the schedule is an argument.  A chain that never meets an acceptable challenge does not
  return: the loops are partial functions whose value \<open>None\<close> is that case.
\<close>

section \<open>The challenges of the square-free proof\<close>

definition squarefree_m :: nat where
  "squarefree_m = 8"

definition squarefree_alpha :: int where
  "squarefree_alpha = 65537"

definition strnum :: int where
  "strnum = SetBytes (string_bytes ''productoftwoprimesproof'')"

definition byte_count :: "int \<Rightarrow> int" where
  "byte_count x = int (length (Bytes x))"

text \<open>One goroutine of \<^verbatim>\<open>CalcX\<close>; the state is \<^verbatim>\<open>tmp\<close>, \<^verbatim>\<open>inlen\<close> and \<^verbatim>\<open>try\<close>.\<close>

partial_function (option) calcX_loop :: "(byte list \<Rightarrow> byte list) \<Rightarrow> int \<Rightarrow> int \<Rightarrow> int \<Rightarrow> int \<Rightarrow>
    int list \<Rightarrow> int \<Rightarrow> int \<Rightarrow> int option res option" where
  "calcX_loop sha n num index l tmp inlen tr =
     (case Sha512_256 sha [tr, num, strnum, index] of
        None \<Rightarrow> Some (deref None)
      | Some tr \<Rightarrow>
          if l < inlen + byte_count tr \<and> l - inlen \<le> 0 then Some (Ok None)
          else
            let over = l < inlen + byte_count tr;
                diff = (if over then l - inlen else 0);
                tmp = (if over then tmp else tmp @ [tr]);
                inlen = (if over then inlen else inlen + byte_count tr)
            in if over \<or> inlen = l then
                 (case joinInt tmp diff of
                    Ok (Some X) \<Rightarrow>
                      if IsNumberInMultiplicativeGroup (Some n) (Some (X mod n)) then Some (Ok (Some (X mod n)))
                      else calcX_loop sha n num index l [] 0 tr
                  | r \<Rightarrow> Some r)
               else calcX_loop sha n num index l tmp inlen tr)"

fun returned :: "'a res option \<Rightarrow> 'a res" where
  "returned None = Hang"
| "returned (Some r) = r"

definition CalcX :: "(byte list \<Rightarrow> byte list) \<Rightarrow> int option \<Rightarrow> int option \<Rightarrow> int list option res" where
  "CalcX sha n num =
     (case (n, num) of
        (Some n, Some num) \<Rightarrow>
          if n \<le> 0 \<or> num < 0 then Ok None
          else
            let num = num mod n; l = byte_count n
            in bindr (mapM (\<lambda>i. returned (calcX_loop sha n num (int i) l [] 0 n)) [0..<squarefree_m]) (\<lambda>roh.
                 Ok (if None \<in> set roh then None else Some (map the roh)))
      | _ \<Rightarrow> Ok None)"

section \<open>The square-free proof\<close>

record SquareFreeProof =
  sf_Sigma :: "int option list"

definition SquareFreeProve :: "(byte list \<Rightarrow> byte list) \<Rightarrow> int option \<Rightarrow> int option \<Rightarrow> int option \<Rightarrow>
    SquareFreeProof option res" where
  "SquareFreeProve sha n num l =
     (case (n, num, l) of
        (Some n, Some num, Some l) \<Rightarrow>
          if num < 0 then Ok None
          else bindr (CalcX sha (Some n) (Some num)) (\<lambda>X.
            case X of
              None \<Rightarrow> Ok None
            | Some X \<Rightarrow>
                (case ModInverse n l of
                  None \<Rightarrow> Ok None
                | Some M \<Rightarrow> Ok (Some \<lparr>sf_Sigma = map (\<lambda>v. Exp v M n) X\<rparr>)))
      | _ \<Rightarrow> Ok None)"

text \<open>The trial divisions of \<^verbatim>\<open>SquareFreeVerify\<close>; \<open>pp\<close> is \<^verbatim>\<open>ProbablyPrime(PrimeTestTimes)\<close>.\<close>

definition small_factor :: "(int \<Rightarrow> bool) \<Rightarrow> int \<Rightarrow> bool" where
  "small_factor pp n = (\<exists>i \<in> {2..<squarefree_alpha}. pp i \<and> n mod i = 0)"

definition sigma_root :: "int \<Rightarrow> int \<times> int \<Rightarrow> bool res" where
  "sigma_root n = (\<lambda>(sigma, v). bindr (deref (Exp sigma n n)) (\<lambda>yn. bindr (Mod v n) (\<lambda>xn. Ok (yn = xn))))"

definition SquareFreeVerify :: "(byte list \<Rightarrow> byte list) \<Rightarrow> (int \<Rightarrow> bool) \<Rightarrow> int option \<Rightarrow> int option \<Rightarrow>
    SquareFreeProof option \<Rightarrow> bool res" where
  "SquareFreeVerify sha pp n num pr =
     (case (n, num, pr) of
        (Some n, Some num, Some pr) \<Rightarrow>
          if sf_Sigma pr = [] \<or> num < 0 then Ok False
          else if length (sf_Sigma pr) \<noteq> squarefree_m then Ok False
          else bindr (CalcX sha (Some n) (Some num)) (\<lambda>X.
            case X of
              None \<Rightarrow> Ok False
            | Some X \<Rightarrow>
                if n \<le> 0 then Ok False
                else if small_factor pp n then Ok False
                else bindr (all_checks (\<lambda>v. bindr (deref v) (\<lambda>v. Ok (\<not> v \<le> 0 \<and> v < n))) (sf_Sigma pr)) (\<lambda>inrange.
                  if \<not> inrange then Ok False
                  else bindr (mapM deref (sf_Sigma pr)) (\<lambda>sigma. all_checks (sigma_root n) (zip sigma X))))
      | _ \<Rightarrow> Ok False)"

section \<open>The challenges of the proof for two primes\<close>

text \<open>\<^verbatim>\<open>big.Jacobi\<close> for a positive second argument, by quadratic reciprocity.\<close>

function jacobi :: "int \<Rightarrow> int \<Rightarrow> int" where
  "jacobi a n =
     (if n \<le> 1 then 1
      else if a \<le> 0 then 0
      else if n \<le> a then jacobi (a mod n) n
      else if even a then (if n mod 8 = 3 \<or> n mod 8 = 5 then - jacobi (a div 2) n else jacobi (a div 2) n)
      else if a mod 4 = 3 \<and> n mod 4 = 3 then - jacobi n a
      else jacobi n a)"
  by pat_completeness auto
termination
proof (relation "inv_image (less_than <*lex*> less_than) (\<lambda>(a, n). (nat n, nat a))", goal_cases)
  case 1
  show ?case by (intro wf_inv_image wf_lex_prod wf_less_than)
next
  case (2 a n)
  then have "a mod n < n" by simp
  with 2 have "a mod n < a" by linarith
  with 2 show ?case by simp
qed auto

declare jacobi.simps [simp del]

definition Jacobi :: "int \<Rightarrow> int \<Rightarrow> int res" where
  "Jacobi x y =
     (if even y then Panic ''big: invalid 2nd argument to Int.Jacobi: need odd integer''
      else Ok (jacobi (x mod y) y))"

text \<open>\<^verbatim>\<open>128 * 32 * math.Log(2)\<close> rounded up is 2840.\<close>

definition GetHoeffdingBound :: nat where
  "GetHoeffdingBound = 2840"

text \<open>The tests a joined value has to pass, \<open>None\<close> for \<^verbatim>\<open>continue\<close>.\<close>

definition roh_accept :: "int \<Rightarrow> int list \<Rightarrow> int \<Rightarrow> int option res" where
  "roh_accept n tmp diff =
     bindr (joinInt tmp diff) (\<lambda>roh.
       case roh of
         None \<Rightarrow> Ok None
       | Some roh \<Rightarrow>
           let roh = roh mod n
           in if \<not> IsNumberInMultiplicativeGroup (Some n) (Some roh) then Ok None
              else bindr (Jacobi roh n) (\<lambda>sym. Ok (if sym \<noteq> 1 then None else Some roh)))"

partial_function (option) roh_loop :: "(byte list \<Rightarrow> byte list) \<Rightarrow> int \<Rightarrow> int \<Rightarrow> int \<Rightarrow> int \<Rightarrow>
    int list \<Rightarrow> int \<Rightarrow> int \<Rightarrow> int option res option" where
  "roh_loop sha n num index l tmp inlen tr =
     (case Sha512_256 sha [tr, num, strnum, index] of
        None \<Rightarrow> Some (deref None)
      | Some tr \<Rightarrow>
          if l < inlen + byte_count tr then
            (let diff = l - inlen
             in if 0 < diff then
                  (case roh_accept n tmp diff of
                     Ok None \<Rightarrow> roh_loop sha n num index l [] 0 tr
                   | r \<Rightarrow> Some r)
                else Some (Ok None))
          else
            (let tmp = tmp @ [tr]; inlen = inlen + byte_count tr
             in if inlen = l then
                  (case roh_accept n tmp 0 of
                     Ok None \<Rightarrow> roh_loop sha n num index l [] 0 tr
                   | r \<Rightarrow> Some r)
                else roh_loop sha n num index l tmp inlen tr))"

subsection \<open>The shared map and the channel\<close>

text \<open>
  A goroutine with the challenge \<open>roh\<close> first looks its decimal form up in the map (\<open>AtRead\<close>),
  stops if it is there, and otherwise (\<open>AtWrite\<close>) writes it and sends the challenge.  The
  goroutine that found no challenge (\<open>None\<close>) does neither.
\<close>

datatype roh_pc = AtRead | AtWrite | Finished

record roh_shared =
  rs_tmp2 :: "string \<rightharpoonup> string"
  rs_data :: "(nat \<times> int) list"
  rs_pc :: "roh_pc list"

definition ReadMap :: "(string \<rightharpoonup> string) \<Rightarrow> string \<Rightarrow> bool" where
  "ReadMap m key = (m key \<noteq> None)"

definition WriteMap :: "(string \<rightharpoonup> string) \<Rightarrow> string \<Rightarrow> string \<Rightarrow> (string \<rightharpoonup> string)" where
  "WriteMap m key v = m(key \<mapsto> v)"

definition roh_key :: "int \<Rightarrow> string" where
  "roh_key roh = ToLower (show_int roh)"

definition roh_step :: "int option list \<Rightarrow> roh_shared \<Rightarrow> nat \<Rightarrow> roh_shared" where
  "roh_step rohs s i =
     (if length rohs \<le> i then s
      else case rohs ! i of
        None \<Rightarrow> s
      | Some roh \<Rightarrow>
          (case rs_pc s ! i of
             AtRead \<Rightarrow>
               if ReadMap (rs_tmp2 s) (roh_key roh) then s\<lparr>rs_pc := (rs_pc s)[i := Finished]\<rparr>
               else s\<lparr>rs_pc := (rs_pc s)[i := AtWrite]\<rparr>
           | AtWrite \<Rightarrow>
               s\<lparr>rs_tmp2 := WriteMap (rs_tmp2 s) (roh_key roh) ''ok'', rs_data := rs_data s @ [(i, roh)],
                 rs_pc := (rs_pc s)[i := Finished]\<rparr>
           | Finished \<Rightarrow> s))"

definition roh_init :: "nat \<Rightarrow> roh_shared" where
  "roh_init m = \<lparr>rs_tmp2 = Map.empty, rs_data = [], rs_pc = replicate m AtRead\<rparr>"

definition roh_run :: "int option list \<Rightarrow> nat list \<Rightarrow> roh_shared" where
  "roh_run rohs sched = foldl (roh_step rohs) (roh_init (length rohs)) sched"

text \<open>After \<^verbatim>\<open>wg.Wait()\<close>: the channel is emptied into the slice.\<close>

definition roh_collect :: "nat \<Rightarrow> (nat \<times> int) list \<Rightarrow> int option list option" where
  "roh_collect m data =
     (if length data \<noteq> m then None
      else Some (foldl (\<lambda>rohs (i, roh). rohs[i := Some roh]) (replicate m None) data))"

definition CalcRoh :: "(byte list \<Rightarrow> byte list) \<Rightarrow> nat list \<Rightarrow> int option \<Rightarrow> int option \<Rightarrow>
    int option list option res" where
  "CalcRoh sha sched n num =
     (case (n, num) of
        (Some n, Some num) \<Rightarrow>
          if n \<le> 0 \<or> num < 0 then Ok None
          else
            let num = num mod n; l = byte_count n; m = GetHoeffdingBound
            in bindr (mapM (\<lambda>i. returned (roh_loop sha n num (int i) l [] 0 n)) [0..<m]) (\<lambda>rohs.
                 Ok (roh_collect m (rs_data (roh_run rohs sched))))
      | _ \<Rightarrow> Ok None)"

section \<open>The proof for two primes\<close>

record HvProof =
  hv_Sigma :: "int option list"

definition hv_sigma :: "(int \<Rightarrow> int \<Rightarrow> int option res) \<Rightarrow> int \<Rightarrow> int \<Rightarrow> int \<Rightarrow> int option \<Rightarrow> int option res" where
  "hv_sigma ms n p q v =
     bindr (if q \<le> p then GetTheQuadraticResidueInt ms v (Some n) (Some p) (Some q)
            else GetTheQuadraticResidueInt ms v (Some n) (Some q) (Some p)) (\<lambda>r.
       case r of
         None \<Rightarrow> Ok (Some 0)
       | Some (x, _, _, _) \<Rightarrow>
           bindr (Mod (x * x) n) (\<lambda>x2. bindr (deref v) (\<lambda>v. Ok (Some (if x2 = v then \<bar>x\<bar> else 0)))))"

definition HvProve :: "(byte list \<Rightarrow> byte list) \<Rightarrow> nat list \<Rightarrow> (int \<Rightarrow> int \<Rightarrow> int option res) \<Rightarrow>
    int option \<Rightarrow> int option \<Rightarrow> int option \<Rightarrow> int option \<Rightarrow> HvProof option res" where
  "HvProve sha sched ms n num p q =
     (case (n, num, p, q) of
        (Some n, Some num, Some p, Some q) \<Rightarrow>
          if num < 0 then Ok None
          else bindr (CalcRoh sha sched (Some n) (Some num)) (\<lambda>ROH.
            case ROH of
              None \<Rightarrow> Ok None
            | Some ROH \<Rightarrow> bindr (mapM (hv_sigma ms n p q) ROH) (\<lambda>sigma. Ok (Some \<lparr>hv_Sigma = sigma\<rparr>)))
      | _ \<Rightarrow> Ok None)"

text \<open>The loop of \<^verbatim>\<open>HvVerify\<close> over the roots: the number of non-zero ones, \<open>None\<close> for \<^verbatim>\<open>return false\<close>.\<close>

fun hv_count :: "int \<Rightarrow> (int option \<times> int option) list \<Rightarrow> nat \<Rightarrow> nat option res" where
  "hv_count n [] count = Ok (Some count)"
| "hv_count n ((vv, roh) # rest) count =
     bindr (deref vv) (\<lambda>vv.
       if vv = 0 then hv_count n rest count
       else bindr (Mod (vv * vv) n) (\<lambda>t. bindr (deref roh) (\<lambda>roh.
              if t \<noteq> roh then Ok None else hv_count n rest (count + 1))))"

definition HvVerify :: "(byte list \<Rightarrow> byte list) \<Rightarrow> nat list \<Rightarrow> (int \<Rightarrow> bool) \<Rightarrow> int option \<Rightarrow> int option \<Rightarrow>
    HvProof option \<Rightarrow> bool res" where
  "HvVerify sha sched pp n num pr =
     (case (n, num, pr) of
        (Some n, Some num, Some pr) \<Rightarrow>
          if hv_Sigma pr = [] \<or> num < 0 then Ok False
          else bindr (CalcRoh sha sched (Some n) (Some num)) (\<lambda>ROH.
            case ROH of
              None \<Rightarrow> Ok False
            | Some ROH \<Rightarrow>
                if length (hv_Sigma pr) \<noteq> length ROH then Ok False
                else if \<not> CheckPrime pp (Some n) then Ok False
                else bindr (hv_count n (zip (hv_Sigma pr) ROH) 0) (\<lambda>count.
                  case count of
                    None \<Rightarrow> Ok False
                  | Some count \<Rightarrow> Ok (\<not> count < 3 * GetHoeffdingBound div 8)))
      | _ \<Rightarrow> Ok False)"

section \<open>Completeness of the square-free proof\<close>

lemma group_member:
  "IsNumberInMultiplicativeGroup (Some n) (Some v) \<longleftrightarrow> 0 < n \<and> 1 \<le> v \<and> v < n \<and> gcd v n = 1"
  by (auto simp: IsNumberInMultiplicativeGroup_def)

lemma calcX_loop_unit:
  assumes "calcX_loop sha n num index l tmp inlen tr = Some r"
  shows "r = Ok (Some X) \<longrightarrow> 1 \<le> X \<and> X < n \<and> gcd X n = 1"
proof (rule calcX_loop.raw_induct [where P = "\<lambda>sha n num index l tmp inlen tr r.
    r = Ok (Some X) \<longrightarrow> 1 \<le> X \<and> X < n \<and> gcd X n = 1", OF _ assms], goal_cases)
  case (1 loop sha n num index l tmp inlen tr r)
  note IH = 1(1)
  show ?case
  proof
    assume r: "r = Ok (Some X)"
    obtain t where t: "Sha512_256 sha [tr, num, strnum, index] = Some t" by (simp add: Sha512_256_def)
    define over where "over \<longleftrightarrow> l < inlen + byte_count t"
    define tmp' where "tmp' = (if over then tmp else tmp @ [t])"
    define inlen' where "inlen' = (if over then inlen else inlen + byte_count t)"
    define diff where "diff = (if over then l - inlen else 0)"
    note step = 1(2) [unfolded t option.case Let_def r, folded over_def, folded tmp'_def inlen'_def diff_def]
    have "\<not> (over \<and> l - inlen \<le> 0)" using step by auto
    note step = step [unfolded if_not_P [OF this]]
    show "1 \<le> X \<and> X < n \<and> gcd X n = 1"
    proof (cases "over \<or> inlen' = l")
      case False
      then have "loop sha n num index l tmp' inlen' t = Some (Ok (Some X))" using step by simp
      then show ?thesis using IH by blast
    next
      case True
      note step = step [unfolded if_P [OF True]]
      obtain Y where Y: "joinInt tmp' diff = Ok (Some Y)"
        using step by (auto split: res.splits option.splits)
      show ?thesis
      proof (cases "IsNumberInMultiplicativeGroup (Some n) (Some (Y mod n))")
        case True
        then show ?thesis using step Y by (auto simp: group_member)
      next
        case False
        then have "loop sha n num index l [] 0 t = Some (Ok (Some X))" using step Y by simp
        then show ?thesis using IH by blast
      qed
    qed
  qed
qed

lemma CalcX_units:
  assumes "CalcX sha (Some n) (Some num) = Ok (Some X)"
  shows "length X = squarefree_m \<and> 0 < n \<and> (\<forall>v \<in> set X. 1 \<le> v \<and> v < n \<and> gcd v n = 1)"
proof -
  obtain roh where n: "0 < n" and roh: "mapM (\<lambda>i. returned (calcX_loop sha n (num mod n) (int i) (byte_count n) [] 0 n))
      [0..<squarefree_m] = Ok roh" and X: "None \<notin> set roh" "X = map the roh"
    using assms by (auto simp: CalcX_def Let_def split: if_splits)
  have "1 \<le> the v \<and> the v < n \<and> gcd (the v) n = 1" if mem: "v \<in> set roh" for v
  proof -
    obtain i where i: "i < length roh" "v = roh ! i" using mem by (auto simp: in_set_conv_nth)
    then have "returned (calcX_loop sha n (num mod n) (int i) (byte_count n) [] 0 n) = Ok v"
      using mapM_Ok_nth [OF roh, of i] mapM_Ok_length [OF roh] by simp
    moreover obtain x where "v = Some x" using X(1) mem by (cases v) auto
    ultimately show ?thesis
      using calcX_loop_unit [of sha n "num mod n" "int i" "byte_count n" "[]" 0 n _ x]
      by (cases "calcX_loop sha n (num mod n) (int i) (byte_count n) [] 0 n") fastforce+
  qed
  then show ?thesis using n X mapM_Ok_length [OF roh] by auto
qed

lemma euler_two_primes:
  assumes p: "is_prime p" and q: "is_prime q" and "p \<noteq> q" and r: "coprime r (p * q)"
  shows "eqm (p * q) (r ^ nat ((p - 1) * (q - 1))) 1"
proof -
  have p1: "1 < p" and q1: "1 < q" by (rule is_prime_gt_1, fact)+
  have np: "\<not> p dvd r" and nq: "\<not> q dvd r"
    using r p1 q1 by (auto dest: coprime_common_divisor [of r "p * q" p]
        coprime_common_divisor [of r "p * q" q])
  have "eqm p (r ^ nat ((p - 1) * (q - 1))) 1"
    using p1 q1 by (intro eqm_power_multiple [OF fermat_unit [OF p np]] nat_dvd_of_int_dvd) auto
  moreover have "eqm q (r ^ nat ((p - 1) * (q - 1))) 1"
    using p1 q1 by (intro eqm_power_multiple [OF fermat_unit [OF q nq]] nat_dvd_of_int_dvd) auto
  ultimately show ?thesis using eqm_crt distinct_primes_coprime [OF p q \<open>p \<noteq> q\<close>] by blast
qed

text \<open>Raising to \<open>M\<close> and then to \<open>n\<close> is the identity on units when \<open>n * M\<close> is 1 modulo the group order.\<close>

lemma nth_root_inverts:
  assumes p: "is_prime p" and q: "is_prime q" and "p \<noteq> q"
    and n: "n = p * q" and M: "ModInverse n ((p - 1) * (q - 1)) = Some M" and v: "gcd v n = 1"
  shows "\<exists>s. Exp v M n = Some s \<and> 0 < s \<and> s < n \<and> eqm n (s ^ nat n) v"
proof -
  let ?l = "(p - 1) * (q - 1)"
  have p1: "1 < p" and q1: "1 < q" by (rule is_prime_gt_1, fact)+
  have n1: "1 < n" using p1 q1 n by (simp add: less_1_mult)
  have l: "0 < ?l" using p1 q1 by simp
  have M0: "0 \<le> M" and M1: "n * M mod ?l = 1 mod ?l"
    using ModInverse_Some [OF l M] ModInverse_eqm [OF l M] by (auto simp: eqm_mod_iff)
  have cop: "coprime v n" using v by (simp add: coprime_iff_gcd_eq_1)
  obtain s where s: "Exp v M n = Some s" "0 \<le> s" "s < n" "eqm n s (v ^ nat M)"
    using Exp_pw_nonneg [of n M v] pw_range [of n v M] pw_nonneg [of n M v] n1 M0 by auto
  have "coprime (v ^ nat M) n" using cop by simp
  then have "\<not> n dvd v ^ nat M" using n1 coprime_common_divisor [of "v ^ nat M" n n] by auto
  then have "s \<noteq> 0" using s(4) eqm_sym eqm_0_iff by blast
  have "?l \<noteq> 1"
  proof
    assume "?l = 1"
    then have "p - 1 = 1" "q - 1 = 1" using p1 q1 by (auto simp: zmult_eq_1_iff)
    then show False using \<open>p \<noteq> q\<close> by simp
  qed
  then have "n * M mod ?l = 1" using M1 l by simp
  define k where "k = n * M div ?l"
  have nM: "n * M = 1 + ?l * k" using \<open>n * M mod ?l = 1\<close> unfolding k_def by (metis mod_mult_div_eq)
  have "0 \<le> k" using n1 M0 l by (simp add: k_def pos_imp_zdiv_nonneg_iff)
  then have exp: "nat (n * M) = Suc (nat (?l * k))" unfolding nM using l by (simp add: nat_add_distrib)
  have "eqm n (v ^ nat (?l * k)) 1"
    unfolding n using cop [unfolded n] l \<open>0 \<le> k\<close>
    by (intro eqm_power_multiple [OF euler_two_primes [OF p q \<open>p \<noteq> q\<close>]] nat_dvd_of_int_dvd) auto
  then have "eqm n (v * v ^ nat (?l * k)) (v * 1)" by (intro eqm_mult eqm_refl)
  then have "eqm n (v ^ nat (n * M)) v" by (simp only: exp power_Suc mult_1_right)
  then have "eqm n (s ^ nat n) v"
    using eqm_power [OF s(4), of "nat n"] n1 M0
    by (metis eqm_trans mult.commute nat_mult_distrib order.strict_implies_order power_mult zero_le_one order.strict_trans)
  then show ?thesis using s \<open>s \<noteq> 0\<close> by auto
qed

lemma option_case_SomeE:
  assumes "(case x of None \<Rightarrow> Ok None | Some y \<Rightarrow> f y) = Ok (Some z)"
  obtains y where "x = Some y" "f y = Ok (Some z)"
  using assms by (cases x) auto

text \<open>No number below the two prime factors divides their product.\<close>

lemma no_small_factor:
  assumes p: "is_prime p" and q: "is_prime q" and "squarefree_alpha \<le> p" "squarefree_alpha \<le> q"
  shows "\<not> small_factor pp (p * q)"
proof -
  have "\<not> i dvd p * q" if i: "i \<in> {2..<squarefree_alpha}" for i
  proof
    assume dvd: "i dvd p * q"
    have "\<not> p dvd i" using i assms(3) zdvd_imp_le [of p i] by auto
    then have "coprime p i" using prime_coprime p by blast
    then have "i dvd q" using dvd by (metis coprime_commute coprime_dvd_mult_right_iff)
    then have "i = 1 \<or> i = q" using is_prime_divisor [OF q, of i] i by auto
    then show False using i assms(4) by auto
  qed
  then show ?thesis by (auto simp: small_factor_def mod_eq_0_iff_dvd)
qed

text \<open>The square-free proof of the owner of the factors is accepted: for \<open>n = p * q\<close> with different
  primes above the trial-division bound and \<open>l = (p - 1) * (q - 1)\<close>, a proof returned by
  \<open>SquareFreeProve\<close> for a seed \<open>num\<close> passes \<open>SquareFreeVerify\<close> with the same seed, whatever hash
  function is used and whatever the primality test answers.\<close>

theorem SquareFree_complete:
  assumes p: "is_prime p" and q: "is_prime q" and "p \<noteq> q"
    and big: "squarefree_alpha \<le> p" "squarefree_alpha \<le> q"
    and pr: "SquareFreeProve sha (Some (p * q)) (Some num) (Some ((p - 1) * (q - 1))) = Ok (Some pr)"
  shows "SquareFreeVerify sha pp (Some (p * q)) (Some num) (Some pr) = Ok True"
proof -
  let ?n = "p * q"
  obtain X M where num: "0 \<le> num" and X: "CalcX sha (Some ?n) (Some num) = Ok (Some X)"
    and M: "ModInverse ?n ((p - 1) * (q - 1)) = Some M" and Sigma: "sf_Sigma pr = map (\<lambda>v. Exp v M ?n) X"
    using pr unfolding SquareFreeProve_def option.case prod.case
    by (auto split: if_splits elim!: option_case_SomeE)
  note units = CalcX_units [OF X]
  then have n0: "0 < ?n" "p \<noteq> 0" "q \<noteq> 0" by auto
  have root: "\<exists>s. Exp v M ?n = Some s \<and> 0 < s \<and> s < ?n \<and> eqm ?n (s ^ nat ?n) v" if "v \<in> set X" for v
    using nth_root_inverts [OF p q \<open>p \<noteq> q\<close> refl M] units that by blast
  define sig where "sig v = the (Exp v M ?n)" for v
  have sig: "Exp v M ?n = Some (sig v)" "0 < sig v" "sig v < ?n" "eqm ?n (sig v ^ nat ?n) v"
    if "v \<in> set X" for v
    using root [OF that] by (auto simp: sig_def)
  have Sigma': "sf_Sigma pr = map Some (map sig X)" using Sigma sig(1) by simp
  have range: "all_checks (\<lambda>v. bindr (deref v) (\<lambda>v. Ok (\<not> v \<le> 0 \<and> v < ?n))) (sf_Sigma pr) = Ok True"
    unfolding Sigma' by (rule all_checks_True) (use sig(2,3) in force)
  have roots: "all_checks (sigma_root ?n) (zip (map sig X) X) = Ok True"
  proof (rule all_checks_True)
    fix x assume "x \<in> set (zip (map sig X) X)"
    then obtain v where v: "v \<in> set X" "x = (sig v, v)" by (auto simp: zip_map1 zip_same)
    then show "sigma_root ?n x = Ok True"
      using sig(4) [OF v(1)] n0 by (simp add: sigma_root_def Mod_def eqm_mod_iff)
  qed
  have "length (sf_Sigma pr) = squarefree_m" "sf_Sigma pr \<noteq> []"
    using units Sigma by (auto simp: squarefree_m_def)
  then show ?thesis
    using num X n0 no_small_factor [OF p q big] range roots mapM_deref_Some [of "map sig X"]
    by (simp add: SquareFreeVerify_def Sigma' del: map_map)
qed

text \<open>Primality by trial division up to the square root.\<close>

definition no_divisor_below :: "int \<Rightarrow> int \<Rightarrow> bool" where
  "no_divisor_below b p = list_all (\<lambda>d. p mod d \<noteq> 0) [2..b - 1]"

lemma is_prime_trial:
  assumes "1 < p" "p < b * b" "0 < b" "no_divisor_below b p" shows "is_prime p"
proof -
  have small: "\<not> d dvd p" if "d \<in> {2..<b}" for d
    using assms(4) that by (simp add: no_divisor_below_def list_all_iff dvd_eq_mod_eq_0)
  have "\<not> d dvd p" if d: "d \<in> {2..<p}" for d
  proof
    assume dvd: "d dvd p"
    then obtain e where e: "p = d * e" by (auto elim: dvdE)
    have "1 < e" using d e by (metis assms(1) atLeastLessThan_iff dvd linorder_cases mult.right_neutral
          not_less_iff_gr_or_eq zero_less_mult_iff zmult_zless_mono2_lemma less_trans zero_less_numeral
          order_less_le_trans int_one_le_iff_zero_less le_less)
    show False
    proof (cases "d < b")
      case True
      then show False using small d dvd by auto
    next
      case False
      then have "e < b" using assms e d
        by (meson linorder_not_le mult_mono order.strict_trans1 order_less_irrefl order.trans zero_le_numeral less_imp_le atLeastLessThan_iff)
      then show False using small [of e] \<open>1 < e\<close> e by auto
    qed
  qed
  then show ?thesis using assms(1) by (simp add: is_prime_def)
qed

lemma prime_65537: "is_prime 65537" and prime_65539: "is_prime 65539"
  by (rule is_prime_trial [where b = 257], simp, simp, simp, code_simp)+

lemma toy_calcX_loop:
  "calcX_loop (\<lambda>_. [1, 0, 0, 0, 2]) 4295229443 7 i 5 [] 0 4295229443 = Some (Ok (Some 4294967298))"
proof -
  have "Sha512_256 (\<lambda>_. [1, 0, 0, 0, 2]) [4295229443, 7, strnum, i] = Some 4294967298"
    by (simp add: Sha512_256_def SetBytes_def)
  moreover have "byte_count 4294967298 = 5" "joinInt [4294967298] 0 = Ok (Some 4294967298)"
    "IsNumberInMultiplicativeGroup (Some 4295229443) (Some 4294967298)"
    by code_simp+
  ultimately show ?thesis by (subst calcX_loop.simps) simp
qed

theorem SquareFree_complete_witness:
  "SquareFreeVerify (\<lambda>_. [1, 0, 0, 0, 2]) is_prime (Some (65537 * 65539)) (Some 7)
     (Some \<lparr>sf_Sigma = replicate 8 (Exp 4294967298 1431743147 4295229443)\<rparr>) = Ok True"
proof (rule SquareFree_complete [OF prime_65537 prime_65539])
  have "byte_count 4295229443 = 5" "ModInverse 4295229443 4295098368 = Some 1431743147" by code_simp+
  then show "SquareFreeProve (\<lambda>_. [1, 0, 0, 0, 2]) (Some (65537 * 65539)) (Some 7)
      (Some ((65537 - 1) * (65539 - 1))) =
      Ok (Some \<lparr>sf_Sigma = replicate 8 (Exp 4294967298 1431743147 4295229443)\<rparr>)"
    by (simp add: SquareFreeProve_def CalcX_def Let_def toy_calcX_loop squarefree_m_def upt_rec
        eval_nat_numeral del: Exp_nonneg)
qed (simp_all add: squarefree_alpha_def)

section \<open>The interleavings of \<^verbatim>\<open>CalcRoh\<close>\<close>

text \<open>What every interleaving keeps.\<close>

definition roh_inv :: "int option list \<Rightarrow> roh_shared \<Rightarrow> bool" where
  "roh_inv rohs s \<longleftrightarrow> length (rs_pc s) = length rohs \<and> distinct (map fst (rs_data s)) \<and>
     (\<forall>i r. (i, r) \<in> set (rs_data s) \<longrightarrow> i < length rohs \<and> rohs ! i = Some r \<and> rs_pc s ! i = Finished) \<and>
     dom (rs_tmp2 s) = roh_key ` snd ` set (rs_data s)"

lemma roh_inv_init: "roh_inv rohs (roh_init (length rohs))"
  by (simp add: roh_inv_def roh_init_def)

lemma roh_inv_step: "roh_inv rohs s \<Longrightarrow> roh_inv rohs (roh_step rohs s i)"
  unfolding roh_inv_def roh_step_def
  by (auto simp: ReadMap_def WriteMap_def nth_list_update split: option.splits roh_pc.splits if_splits)

lemma roh_inv_run: "roh_inv rohs (roh_run rohs sched)"
  by (induction sched rule: rev_induct) (auto simp: roh_run_def roh_inv_init roh_inv_step)

text \<open>Without duplicates nobody finds its key in the map, so a finished goroutine has sent.\<close>

definition roh_sent :: "int option list \<Rightarrow> roh_shared \<Rightarrow> bool" where
  "roh_sent rohs s \<longleftrightarrow> (\<forall>i < length rohs. rs_pc s ! i = Finished \<longrightarrow> i \<in> fst ` set (rs_data s))"

lemma roh_key_inj: "roh_key a = roh_key b \<Longrightarrow> a = b"
  unfolding roh_key_def by (metis ToLower_show_int show_int_inject)

lemma roh_sent_step:
  assumes inv: "roh_inv rohs s" and d: "distinct rohs" and sent: "roh_sent rohs s"
  shows "roh_sent rohs (roh_step rohs s i)"
proof (cases "i < length rohs \<and> rs_pc s ! i = AtRead \<and> rohs ! i \<noteq> None")
  case True
  then obtain r where r: "rohs ! i = Some r" by auto
  have "\<not> ReadMap (rs_tmp2 s) (roh_key r)"
  proof
    assume "ReadMap (rs_tmp2 s) (roh_key r)"
    then have "roh_key r \<in> dom (rs_tmp2 s)" by (auto simp: ReadMap_def)
    then obtain j r' where j: "(j, r') \<in> set (rs_data s)" "roh_key r' = roh_key r"
      using inv by (auto simp: roh_inv_def)
    then have "j < length rohs" "rohs ! j = Some r" "rs_pc s ! j = Finished"
      using inv roh_key_inj [OF j(2)] by (auto simp: roh_inv_def)
    then show False using r d True nth_eq_iff_index_eq [OF d, of i j] by auto
  qed
  then show ?thesis
    using True r sent inv by (auto simp: roh_sent_def roh_step_def roh_inv_def nth_list_update)
next
  case False
  then show ?thesis
    using sent inv unfolding roh_sent_def roh_inv_def roh_step_def
    by (auto simp: nth_list_update split: option.splits roh_pc.splits)
qed

lemma roh_sent_run: "distinct rohs \<Longrightarrow> roh_sent rohs (roh_run rohs sched)"
proof (induction sched rule: rev_induct)
  case Nil
  then show ?case by (simp add: roh_sent_def roh_run_def roh_init_def)
next
  case (snoc i sched)
  then show ?case using roh_sent_step [OF roh_inv_run [of rohs sched]] by (simp add: roh_run_def)
qed

text \<open>A goroutine that is scheduled twice has finished.\<close>

lemma roh_progress:
  assumes "i < length rohs" "rohs ! i \<noteq> None"
  shows "(1 \<le> count_list sched i \<longrightarrow> rs_pc (roh_run rohs sched) ! i \<noteq> AtRead) \<and>
     (2 \<le> count_list sched i \<longrightarrow> rs_pc (roh_run rohs sched) ! i = Finished)"
proof (induction sched rule: rev_induct)
  case Nil
  then show ?case by simp
next
  case (snoc j sched)
  let ?s = "roh_run rohs sched"
  have len: "length (rs_pc ?s) = length rohs" using roh_inv_run [of rohs sched] by (simp add: roh_inv_def)
  have run: "roh_run rohs (sched @ [j]) = roh_step rohs ?s j" by (simp add: roh_run_def)
  show ?case
  proof (cases "j = i")
    case True
    then show ?thesis
      using snoc assms len unfolding run
      by (auto simp: roh_step_def split: option.splits roh_pc.splits)
  next
    case False
    then have "rs_pc (roh_step rohs ?s j) ! i = rs_pc ?s ! i"
      by (auto simp: roh_step_def split: option.splits roh_pc.splits)
    then show ?thesis using snoc False unfolding run by simp
  qed
qed

lemma collect_length: "length (foldl (\<lambda>xs (i, v). xs[i := Some v]) xs data) = length xs"
  by (induction data arbitrary: xs) auto

lemma collect_nth_other:
  "i \<notin> fst ` set data \<Longrightarrow> foldl (\<lambda>xs (i, v). xs[i := Some v]) xs data ! i = xs ! i"
  by (induction data arbitrary: xs) auto

lemma collect_nth:
  "(i, r) \<in> set data \<Longrightarrow> distinct (map fst data) \<Longrightarrow> i < length xs \<Longrightarrow>
   foldl (\<lambda>xs (i, v). xs[i := Some v]) xs data ! i = Some r"
proof (induction data arbitrary: xs)
  case (Cons x data)
  then show ?case by (cases x) (auto simp: collect_nth_other)
qed simp

lemma roh_collect_run:
  assumes "roh_inv rohs s" "length (rs_data s) = length rohs"
  shows "roh_collect (length rohs) (rs_data s) = Some rohs"
proof -
  have "fst ` set (rs_data s) \<subseteq> {..<length rohs}" and d: "distinct (map fst (rs_data s))"
    using assms(1) by (auto simp: roh_inv_def)
  moreover have "card (fst ` set (rs_data s)) = length rohs"
    using d assms(2) distinct_card [OF d] by simp
  ultimately have all: "fst ` set (rs_data s) = {..<length rohs}"
    by (metis card_lessThan card_subset_eq finite_lessThan)
  have "foldl (\<lambda>xs (i, v). xs[i := Some v]) (replicate (length rohs) None) (rs_data s) = rohs" (is "?c = _")
  proof (rule nth_equalityI)
    show "length ?c = length rohs" by (simp add: collect_length)
  next
    fix i assume "i < length ?c"
    then have i: "i < length rohs" by (simp add: collect_length)
    then have "i \<in> fst ` set (rs_data s)" using all by simp
    then obtain r where r: "(i, r) \<in> set (rs_data s)" by auto
    then have "rohs ! i = Some r" using assms(1) by (auto simp: roh_inv_def)
    then show "?c ! i = rohs ! i" using collect_nth [OF r d] i by simp
  qed
  then show ?thesis using assms(2) by (simp add: roh_collect_def)
qed

text \<open>C38: the concurrent derivation of the challenges does not depend on the interleaving of the
  goroutines as long as the challenges differ: every schedule that runs each goroutine to its end
  delivers exactly the challenges in their order, and no schedule ever delivers anything else
  than these challenges.\<close>

theorem CalcRoh_interleaving:
  assumes "distinct rohs" "None \<notin> set rohs" "\<forall>i < length rohs. 2 \<le> count_list sched i"
  shows "roh_collect (length rohs) (rs_data (roh_run rohs sched)) = Some rohs \<and>
    (\<forall>other. roh_collect (length rohs) (rs_data (roh_run rohs other)) \<in> {None, Some rohs})"
proof
  let ?s = "roh_run rohs sched"
  note inv = roh_inv_run [of rohs]
  have "\<forall>i < length rohs. i \<in> fst ` set (rs_data ?s)"
    using assms roh_progress [of _ rohs sched] roh_sent_run [OF assms(1), of sched]
    by (metis nth_mem roh_sent_def)
  then have "{..<length rohs} \<subseteq> fst ` set (rs_data ?s)" by auto
  then have "length rohs \<le> length (rs_data ?s)"
    using card_mono [of "fst ` set (rs_data ?s)" "{..<length rohs}"] card_image_le [of "set (rs_data ?s)" fst]
      card_length [of "rs_data ?s"] by simp
  moreover have "length (rs_data ?s) \<le> length rohs"
  proof -
    have d: "distinct (map fst (rs_data ?s))" and sub: "fst ` set (rs_data ?s) \<subseteq> {..<length rohs}"
      using inv [of sched] by (auto simp: roh_inv_def)
    show ?thesis using distinct_card [OF d] card_mono [OF _ sub] by simp
  qed
  ultimately show "roh_collect (length rohs) (rs_data ?s) = Some rohs"
    using roh_collect_run [OF inv] by simp
  show "\<forall>other. roh_collect (length rohs) (rs_data (roh_run rohs other)) \<in> {None, Some rohs}"
    using roh_collect_run [OF inv] by (auto simp: roh_collect_def)
qed

theorem CalcRoh_interleaving_witness:
  "roh_collect 2 (rs_data (roh_run [Some 4, Some 9] [1, 0, 0, 1])) = Some [Some 4, Some 9]"
proof -
  have "i < 2 \<Longrightarrow> 2 \<le> count_list [1, 0, 0, 1] i" for i :: nat by (cases "i = 0") auto
  then show ?thesis
    using CalcRoh_interleaving [of "[Some 4, Some 9]" "[1, 0, 0, 1]"] by (simp add: numeral_2_eq_2)
qed

text \<open>With equal challenges the outcome is a race between the lookup and the insertion: when two
  goroutines derive the same challenge, the schedule that runs one after the other makes
  \<open>CalcRoh\<close> fail, and the schedule in which both look the key up before either inserts it makes it
  succeed.\<close>

theorem CalcRoh_race:
  "roh_collect 2 (rs_data (roh_run [Some r, Some r] [0, 0, 1, 1])) = None \<and>
   roh_collect 2 (rs_data (roh_run [Some r, Some r] [0, 1, 0, 1])) = Some [Some r, Some r]"
  by (simp add: roh_run_def roh_init_def roh_step_def roh_collect_def ReadMap_def WriteMap_def numeral_2_eq_2)

end
