(* ===== verification/KgMessage.thy ===== *)
theory KgMessage
  imports ModulusZK Strings
begin

text \<open>
  \<^verbatim>\<open>smpc-lib/ecdsa/keygen/message.go\<close>: the messages of the key generation.  A pointer that may be
  \<^verbatim>\<open>nil\<close> is an option; the structures behind non-nil pointers to keys and moduli have all their
  numbers, as their \<^verbatim>\<open>UnmarshalJSON\<close> methods reject missing ones.
\<close>

section \<open>Messages\<close>

record KGRoundMessage =
  FromID :: string
  FromIndex :: int
  ToID :: "string list"

definition new_KGRoundMessage :: KGRoundMessage where
  "new_KGRoundMessage = \<lparr>FromID = [], FromIndex = 0, ToID = []\<rparr>"

definition SetFromID :: "string \<Rightarrow> KGRoundMessage \<Rightarrow> KGRoundMessage" where
  "SetFromID fid kg = kg\<lparr>FromID := fid\<rparr>"

definition SetFromIndex :: "int \<Rightarrow> KGRoundMessage \<Rightarrow> KGRoundMessage" where
  "SetFromIndex index kg = kg\<lparr>FromIndex := index\<rparr>"

definition AppendToID :: "string \<Rightarrow> KGRoundMessage \<Rightarrow> KGRoundMessage" where
  "AppendToID toid kg = kg\<lparr>ToID := ToID kg @ [toid]\<rparr>"

datatype KGMessage =
  KGRound0Message (kg_base: KGRoundMessage)
| KGRound1Message (kg_base: KGRoundMessage) (ComC: "int option") (ComCBip32: "int option")
    (U1PaillierPk: "PublicKey option")
| KGRound2Message (kg_base: KGRoundMessage) (kg_ID: "int option") (kg_Share: "int option")
| KGRound2Message1 (kg_base: KGRoundMessage) (kg_C1: "int option")
| KGRound2Message2 (kg_base: KGRoundMessage) (Num2: "int option") (SfPf2: "SquareFreeProof option")
| KGRound3Message (kg_base: KGRoundMessage) (ComU1GD: "int option list") (ComC1GD: "int option list")
    (U1PolyGG: "int option list list")
| KGRound3Message1 (kg_base: KGRoundMessage) (kg_Y: "int option")
| KGRound4Message (kg_base: KGRoundMessage) (U1NtildeH1H2: "NtildeH1H2 option")
    (NtildeProof1: "NtildeProof option") (NtildeProof2: "NtildeProof option") (ComXiC: "int option")
| KGRound5Message (kg_base: KGRoundMessage) (ComXiGD: "int option list")
| KGRound5Message1 (kg_base: KGRoundMessage) (Num51: "int option") (HvPf: "HvProof option")
| KGRound5Message2 (kg_base: KGRoundMessage) (Num52: "int option") (SfPf52: "SquareFreeProof option")
| KGRound6Message (kg_base: KGRoundMessage) (U1zkXiProof: "ZkXiProof option") (CheckPubkeyStatus: bool)

definition GetFromID :: "KGMessage \<Rightarrow> string" where
  "GetFromID msg = FromID (kg_base msg)"

definition GetFromIndex :: "KGMessage \<Rightarrow> int" where
  "GetFromIndex msg = FromIndex (kg_base msg)"

definition GetToID :: "KGMessage \<Rightarrow> string list" where
  "GetToID msg = ToID (kg_base msg)"

fun IsBroadcast :: "KGMessage \<Rightarrow> bool" where
  "IsBroadcast (KGRound2Message _ _ _) = False"
| "IsBroadcast (KGRound3Message1 _ _) = False"
| "IsBroadcast _ = True"

fun GetMsgType :: "KGMessage \<Rightarrow> string" where
  "GetMsgType (KGRound0Message _) = ''KGRound0Message''"
| "GetMsgType (KGRound1Message _ _ _ _) = ''KGRound1Message''"
| "GetMsgType (KGRound2Message _ _ _) = ''KGRound2Message''"
| "GetMsgType (KGRound2Message1 _ _) = ''KGRound2Message1''"
| "GetMsgType (KGRound2Message2 _ _ _) = ''KGRound2Message2''"
| "GetMsgType (KGRound3Message _ _ _ _) = ''KGRound3Message''"
| "GetMsgType (KGRound3Message1 _ _) = ''KGRound3Message1''"
| "GetMsgType (KGRound4Message _ _ _ _ _) = ''KGRound4Message''"
| "GetMsgType (KGRound5Message _ _) = ''KGRound5Message''"
| "GetMsgType (KGRound5Message1 _ _ _) = ''KGRound5Message1''"
| "GetMsgType (KGRound5Message2 _ _ _) = ''KGRound5Message2''"
| "GetMsgType (KGRound6Message _ _ _) = ''KGRound6Message''"

text \<open>The type assertions \<^verbatim>\<open>msg.(*KGRoundXMessage)\<close> of the rounds, on a slot that may be \<^verbatim>\<open>nil\<close>.\<close>

definition asserted :: "(KGMessage \<Rightarrow> bool) \<Rightarrow> string \<Rightarrow> KGMessage option \<Rightarrow> KGMessage res" where
  "asserted P e slot = (case slot of Some msg \<Rightarrow> if P msg then Ok msg else Err e | None \<Rightarrow> Err e)"

lemma asserted_Ok_iff: "asserted P e slot = Ok msg \<longleftrightarrow> slot = Some msg \<and> P msg"
  by (auto simp: asserted_def split: option.splits)

end
