(* ===== verification/DNode.thy ===== *)
theory DNode
  imports Prelude
begin

text \<open>
  \<^verbatim>\<open>smpc-lib/smpc/dnode.go\<close>: the driver shared by key generation and signing.  The interface
  \<^verbatim>\<open>DNode\<close> together with the current \<^verbatim>\<open>Round\<close> is a record of operations on the state \<open>'s\<close> of a
  node; a round object is identified by its number, and \<open>None\<close> is \<^verbatim>\<open>nil\<close>.  \<open>BaseUpdate\<close> calls
  itself after every advance; its fuel bounds the depth of this recursion, and \<open>None\<close> says that
  the fuel was not enough.  The mutex of the node is held throughout, so the operations are
  sequential.
\<close>

section \<open>Sequencing\<close>

fun bindst :: "('s, 'a) st \<Rightarrow> ('s \<Rightarrow> 'a \<Rightarrow> ('s, 'b) st) \<Rightarrow> ('s, 'b) st" where
  "bindst (s, Ok a) k = k s a"
| "bindst (s, Err e) k = (s, Err e)"
| "bindst (s, Panic p) k = (s, Panic p)"
| "bindst (s, Hang) k = (s, Hang)"

lemma bindst_Ok_iff [simp]:
  "bindst r k = (s', Ok b) \<longleftrightarrow> (\<exists>s a. r = (s, Ok a) \<and> k s a = (s', Ok b))"
  by (cases "(r, k)" rule: bindst.cases) auto

lemma fst_bindst:
  assumes "P (fst r)" "\<And>s a. r = (s, Ok a) \<Longrightarrow> P (fst (k s a))"
  shows "P (fst (bindst r k))"
  using assms by (cases "(r, k)" rule: bindst.cases) auto

lemma fst_tryr:
  assumes "P s" "\<And>a. r = Ok a \<Longrightarrow> P (fst (k a))"
  shows "P (fst (tryr r s k))"
  using assms by (cases r) auto

section \<open>What a piece of code may change\<close>

text \<open>
  A reflexive relation between the states before and after a piece of code, and its composition in
  the form the methods are written.
\<close>

locale framing =
  fixes fr :: "'s \<Rightarrow> 's \<Rightarrow> bool"
  assumes fr_refl: "fr p p"
begin

lemma fr_bindst:
  assumes "fr p (fst r)" "\<And>s a. fr p s \<Longrightarrow> fr p (fst (k s a))"
  shows "fr p (fst (bindst r k))"
  using assms by (cases "(r, k)" rule: bindst.cases) auto

lemma fr_tryr:
  assumes "fr p s" "\<And>a. r = Ok a \<Longrightarrow> fr p (fst (k a))"
  shows "fr p (fst (tryr r s k))"
  using assms by (cases r) auto

lemma fr_if:
  "fr p (fst a) \<Longrightarrow> fr p (fst b) \<Longrightarrow> fr p (fst (if c then a else b))"
  by simp

lemma fr_prod:
  "(\<And>a b. fr p (fst (f a b))) \<Longrightarrow> fr p (fst (case x of (a, b) \<Rightarrow> f a b))"
  by (cases x) simp

lemma fr_option:
  "fr p (fst a) \<Longrightarrow> (\<And>x. fr p (fst (f x))) \<Longrightarrow> fr p (fst (case y of None \<Rightarrow> a | Some x \<Rightarrow> f x))"
  by (cases y) auto

lemma fr_res:
  "(\<And>x. fr p (fst (f x))) \<Longrightarrow> (\<And>x. fr p (fst (g x))) \<Longrightarrow> (\<And>x. fr p (fst (h x))) \<Longrightarrow> fr p (fst a) \<Longrightarrow>
   fr p (fst (case y of Ok x \<Rightarrow> f x | Err x \<Rightarrow> g x | Panic x \<Rightarrow> h x | Hang \<Rightarrow> a))"
  by (cases y) auto

lemma fr_bool:
  "fr p (fst a) \<Longrightarrow> fr p (fst b) \<Longrightarrow> fr p (fst (case y of True \<Rightarrow> a | False \<Rightarrow> b))"
  by (cases y) auto

lemma fr_ret: "fr p s \<Longrightarrow> fr p (fst (s, r))"
  by simp

lemmas fr_intros = fr_refl fr_bindst fr_tryr fr_if fr_prod fr_option fr_res fr_bool fr_ret

end

section \<open>Slices of messages\<close>

text \<open>
  The nodes of all protocols keep one slice of message slots per type of message.  \<open>slots_grow\<close>: no
  slice changes its length, a filled slot stays filled, and what is new in a slice has its type.
\<close>

definition slots_grow :: "('m \<Rightarrow> 't \<Rightarrow> 'm option list) \<Rightarrow> ('m \<Rightarrow> string) \<Rightarrow> 't \<Rightarrow> 't \<Rightarrow> bool" where
  "slots_grow slots ty t t' \<longleftrightarrow>
     (\<forall>kind. length (slots kind t') = length (slots kind t) \<and>
       (\<forall>j < length (slots kind t). slots kind t ! j \<noteq> None \<longrightarrow> slots kind t' ! j \<noteq> None) \<and>
       (\<forall>m. Some m \<in> set (slots kind t') \<longrightarrow> Some m \<in> set (slots kind t) \<or> ty m = ty kind))"

lemma slots_grow_refl [simp]: "slots_grow slots ty t t"
  by (simp add: slots_grow_def)

lemma slots_grow_trans: "slots_grow slots ty t t' \<Longrightarrow> slots_grow slots ty t' t'' \<Longrightarrow> slots_grow slots ty t t''"
  unfolding slots_grow_def by metis

lemma slots_grow_filled:
  "slots_grow slots ty t t' \<Longrightarrow> j < length (slots kind t) \<and> slots kind t ! j \<noteq> None \<Longrightarrow>
   j < length (slots kind t') \<and> slots kind t' ! j \<noteq> None"
  by (simp add: slots_grow_def)

lemma slots_grow_typed:
  "slots_grow slots ty t t' \<Longrightarrow> (\<And>m. Some m \<in> set (slots kind t) \<Longrightarrow> ty m = ty kind) \<Longrightarrow>
   Some m \<in> set (slots kind t') \<Longrightarrow> ty m = ty kind"
  unfolding slots_grow_def by metis

locale slot_store =
  fixes slots :: "'m \<Rightarrow> 't \<Rightarrow> 'm option list" and upd :: "'m \<Rightarrow> 'm option list \<Rightarrow> 't \<Rightarrow> 't" and ty :: "'m \<Rightarrow> string"
  assumes slots_upd: "slots m (upd m ms t) = ms"
    and slots_other: "ty k \<noteq> ty m \<Longrightarrow> slots k (upd m ms t) = slots k t"
    and slots_same: "ty k = ty m \<Longrightarrow> slots k = slots m"
begin

lemma grow_put:
  assumes "slice_set (slots msg t) index (Some msg) = Ok ms"
  shows "slots_grow slots ty t (upd msg ms t)"
proof -
  have ms: "ms = (slots msg t)[nat index := Some msg]" using assms by (simp add: slice_set_Ok_iff)
  have "length (slots kind (upd msg ms t)) = length (slots kind t) \<and>
       (\<forall>j < length (slots kind t). slots kind t ! j \<noteq> None \<longrightarrow> slots kind (upd msg ms t) ! j \<noteq> None) \<and>
       (\<forall>m. Some m \<in> set (slots kind (upd msg ms t)) \<longrightarrow> Some m \<in> set (slots kind t) \<or> ty m = ty kind)" for kind
  proof (cases "ty kind = ty msg")
    case True
    moreover have "Some m \<in> set ms \<Longrightarrow> Some m \<in> set (slots msg t) \<or> m = msg" for m
      unfolding ms using set_update_subset_insert [of "slots msg t" "nat index" "Some msg"] by auto
    moreover have "ms ! j \<noteq> None" if "j < length (slots msg t)" "slots msg t ! j \<noteq> None" for j
      using that by (cases "j = nat index") (simp_all add: ms)
    ultimately show ?thesis using ms slots_same [OF True] by (auto simp: slots_upd)
  qed (simp add: slots_other)
  then show ?thesis by (simp add: slots_grow_def)
qed

end

section \<open>The interface\<close>

record ('s, 'm) DNode =
  dn_DNodeID :: "'s \<Rightarrow> string"
  dn_Round :: "'s \<Rightarrow> nat option"
  dn_rnd :: "nat option \<Rightarrow> 's \<Rightarrow> 's"
  dn_Finalize :: "'s \<Rightarrow> bool"
  dn_FinalizeRound :: "'s \<Rightarrow> 's \<times> nat option"
  dn_FirstRound :: "'s \<Rightarrow> 's \<times> nat option"
  dn_StoreMessage :: "'s \<Rightarrow> 'm \<Rightarrow> ('s, bool) st"
  dn_Start :: "'s \<Rightarrow> ('s, unit) st"
  dn_Update :: "'s \<Rightarrow> ('s, bool) st"
  dn_CanProceed :: "'s \<Rightarrow> bool"
  dn_NextRound :: "'s \<Rightarrow> 's \<times> nat option"
  dn_ResetOK :: "'s \<Rightarrow> 's"

section \<open>The driver\<close>

definition setRound :: "('s, 'm) DNode \<Rightarrow> 's \<Rightarrow> nat option \<Rightarrow> ('s, unit) st" where
  "setRound D s round =
     (if dn_Round D s \<noteq> None then (s, Err ''a round is already set on this party'')
      else (dn_rnd D round s, Ok ()))"

definition advance :: "('s, 'm) DNode \<Rightarrow> 's \<Rightarrow> 's" where
  "advance D s = (case dn_NextRound D s of (s', round) \<Rightarrow> dn_rnd D round s')"

text \<open>\<^verbatim>\<open>p.Round().Start()\<close>: a method call on a \<^verbatim>\<open>nil\<close> interface panics.\<close>

definition startRound :: "('s, 'm) DNode \<Rightarrow> 's \<Rightarrow> ('s, unit) st" where
  "startRound D s =
     (if dn_Round D s = None then (s, Panic ''nil pointer dereference'') else dn_Start D s)"

definition BaseStart :: "('s, 'm) DNode \<Rightarrow> 's \<Rightarrow> ('s, unit) st" where
  "BaseStart D s =
     (if dn_DNodeID D s = [] then (s, Err ''could not start. this smpc node has an invalid DNodeID: '')
      else if dn_Round D s \<noteq> None
      then (s, Err ''could not start. this smpc node is in an unexpected state. use the constructor and Start()'')
      else case (if dn_Finalize D s then dn_FinalizeRound D s else dn_FirstRound D s) of
        (s', round) \<Rightarrow> bindst (setRound D s' round) (\<lambda>s _. startRound D s))"

text \<open>The part of \<^verbatim>\<open>BaseUpdate\<close> under \<^verbatim>\<open>CanProceed\<close>, up to the recursive call.\<close>

definition proceed_again :: "('s, 'm) DNode \<Rightarrow> 's \<Rightarrow> ('s, unit) st" where
  "proceed_again D s =
     (if dn_CanProceed D s
      then (let s' = advance D s in if dn_Round D s' \<noteq> None then dn_Start D s' else (s', Ok ()))
      else (s, Ok ()))"

definition resetRound :: "('s, 'm) DNode \<Rightarrow> 's \<Rightarrow> ('s, unit) st" where
  "resetRound D s =
     (if dn_Round D s = None then (s, Panic ''nil pointer dereference'') else (dn_ResetOK D s, Ok ()))"

definition proceed :: "('s, 'm) DNode \<Rightarrow> 's \<Rightarrow> ('s, unit) st" where
  "proceed D s =
     (let s = advance D s
      in if dn_Round D s = None then (s, Ok ())
         else bindst (dn_Start D s) (\<lambda>s _.
           case dn_Update D s of
             (s, Ok _) \<Rightarrow> bindst (proceed_again D s) (\<lambda>s _. resetRound D s)
           | (s, Err _) \<Rightarrow> resetRound D s
           | (s, Panic p) \<Rightarrow> (s, Panic p)
           | (s, Hang) \<Rightarrow> (s, Hang)))"

fun BaseUpdate :: "nat \<Rightarrow> ('s, 'm) DNode \<Rightarrow> 's \<Rightarrow> 'm \<Rightarrow> ('s, bool) st option" where
  "BaseUpdate 0 D s msg = None"
| "BaseUpdate (Suc fuel) D s msg =
     (if dn_Round D s = None then Some (s, Ok True)
      else case dn_StoreMessage D s msg of
        (s, Ok ok) \<Rightarrow>
          if \<not> ok then Some (s, Ok False)
          else (case dn_Update D s of
            (s, Ok _) \<Rightarrow>
              if dn_CanProceed D s
              then (case proceed D s of
                (s, Ok _) \<Rightarrow> BaseUpdate fuel D s msg
              | (s, Err e) \<Rightarrow> Some (s, Err e)
              | (s, Panic p) \<Rightarrow> Some (s, Panic p)
              | (s, Hang) \<Rightarrow> Some (s, Hang))
              else Some (s, Ok True)
          | (s, Err e) \<Rightarrow> Some (s, Err e)
          | (s, Panic p) \<Rightarrow> Some (s, Panic p)
          | (s, Hang) \<Rightarrow> Some (s, Hang))
      | (s, Err e) \<Rightarrow> Some (s, Err e)
      | (s, Panic p) \<Rightarrow> Some (s, Panic p)
      | (s, Hang) \<Rightarrow> Some (s, Hang))"

declare BaseUpdate.simps [simp del]

text \<open>More fuel does not change a result.\<close>

lemma BaseUpdate_mono:
  "BaseUpdate fuel D s msg = Some r \<Longrightarrow> fuel \<le> fuel' \<Longrightarrow> BaseUpdate fuel' D s msg = Some r"
proof (induction fuel arbitrary: fuel' s)
  case 0
  then show ?case by (simp add: BaseUpdate.simps)
next
  case (Suc fuel)
  obtain k where k: "fuel' = Suc k" "fuel \<le> k" using Suc.prems(2) by (cases fuel') auto
  obtain s1 r1 where st: "dn_StoreMessage D s msg = (s1, r1)" by (cases "dn_StoreMessage D s msg")
  obtain s2 r2 where up: "dn_Update D s1 = (s2, r2)" by (cases "dn_Update D s1")
  obtain s3 r3 where pr: "proceed D s2 = (s3, r3)" by (cases "proceed D s2")
  show ?case
    using Suc.prems(1) Suc.IH [OF _ k(2), of s3] st up pr unfolding k(1)
    by (auto simp: BaseUpdate.simps split: res.splits if_splits)
qed

text \<open>The states a node passes through: any sequence of deliveries.\<close>

inductive deliveries :: "('s, 'm) DNode \<Rightarrow> 's \<Rightarrow> 's \<Rightarrow> bool" for D where
  stop: "deliveries D s s"
| deliver: "deliveries D s s' \<Longrightarrow> BaseUpdate fuel D s' msg = Some (s'', r) \<Longrightarrow> deliveries D s s''"


section \<open>The contract of a round machine\<close>

text \<open>
  What the driver relies on: the number of rounds left, \<open>rank\<close>, is lowered by every advance and
  changed by no other operation; \<open>inv\<close> is kept by every operation.  The conclusions: every
  delivery returns once the fuel exceeds the rank, and keeps the invariant.
\<close>

locale round_machine =
  fixes D :: "('s, 'm) DNode" and rank :: "'s \<Rightarrow> nat"
  assumes rank_store: "rank (fst (dn_StoreMessage D s msg)) = rank s"
    and rank_start: "rank (fst (dn_Start D s)) = rank s"
    and rank_update: "rank (fst (dn_Update D s)) = rank s"
    and rank_reset: "rank (dn_ResetOK D s) = rank s"
    and rank_advance: "dn_Round D s \<noteq> None \<Longrightarrow> rank (advance D s) < rank s"
    and round_store: "dn_Round D (fst (dn_StoreMessage D s msg)) = dn_Round D s"
    and round_start: "dn_Round D (fst (dn_Start D s)) = dn_Round D s"
    and round_update: "dn_Round D (fst (dn_Update D s)) = dn_Round D s"
begin

lemma rank_proceed_again: "dn_Round D s \<noteq> None \<Longrightarrow> rank (fst (proceed_again D s)) \<le> rank s"
  using rank_advance [of s] by (auto simp: proceed_again_def Let_def rank_start)

lemma rank_resetRound: "rank (fst (resetRound D s)) = rank s"
  by (simp add: resetRound_def rank_reset)

lemma rank_proceed:
  assumes "dn_Round D s \<noteq> None" "proceed D s = (s', Ok u)"
  shows "rank s' < rank s"
proof (cases "dn_Round D (advance D s) = None")
  case True
  then show ?thesis using assms rank_advance [of s] by (auto simp: proceed_def Let_def)
next
  case False
  obtain s1 where s1: "dn_Start D (advance D s) = (s1, Ok ())"
    using assms False by (auto simp: proceed_def Let_def)
  obtain s2 r where s2: "dn_Update D s1 = (s2, r)" by (cases "dn_Update D s1")
  have "dn_Round D s1 \<noteq> None" using False s1 round_start [of "advance D s"] by simp
  then have live: "dn_Round D s2 \<noteq> None" using s2 round_update [of s1] by simp
  have "rank s2 = rank (advance D s)" using s1 s2 rank_start [of "advance D s"] rank_update [of s1] by simp
  then have less: "rank s2 < rank s" using assms rank_advance [of s] by simp
  show ?thesis
  proof (cases r)
    case (Ok a)
    obtain s3 where s3: "proceed_again D s2 = (s3, Ok ())" "resetRound D s3 = (s', Ok u)"
      using assms False s1 s2 Ok by (auto simp: proceed_def Let_def)
    then have "rank s3 \<le> rank s2" using rank_proceed_again [OF live] by simp
    then show ?thesis using s3 rank_resetRound [of s3] less by simp
  next
    case (Err e)
    then have "resetRound D s2 = (s', Ok u)" using assms False s1 s2 by (simp add: proceed_def Let_def)
    then show ?thesis using rank_resetRound [of s2] less by simp
  qed (use assms False s1 s2 in \<open>simp_all add: proceed_def Let_def\<close>)
qed

lemma update_returns: "rank s < fuel \<Longrightarrow> \<exists>r. BaseUpdate fuel D s msg = Some r"
proof (induction fuel arbitrary: s)
  case 0
  then show ?case by simp
next
  case (Suc fuel)
  obtain s1 r1 where st: "dn_StoreMessage D s msg = (s1, r1)" by (cases "dn_StoreMessage D s msg")
  obtain s2 r2 where up: "dn_Update D s1 = (s2, r2)" by (cases "dn_Update D s1")
  obtain s3 r3 where pr: "proceed D s2 = (s3, r3)" by (cases "proceed D s2")
  have rank2: "rank s2 = rank s" using rank_store [of s msg] rank_update [of s1] st up by simp
  have "\<exists>r. BaseUpdate fuel D s3 msg = Some r" if "r3 = Ok u" "dn_Round D s \<noteq> None" for u
  proof (rule Suc.IH)
    have "dn_Round D s2 \<noteq> None" using that round_store [of s msg] round_update [of s1] st up by simp
    then show "rank s3 < fuel" using rank_proceed [of s2 s3 u] pr that rank2 Suc.prems by simp
  qed
  then show ?case using st up pr by (auto simp: BaseUpdate.simps split: res.splits)
qed

end

locale invariant_machine = round_machine D rank
  for D :: "('s, 'm) DNode" and rank :: "'s \<Rightarrow> nat" +
  fixes inv :: "'s \<Rightarrow> bool"
  assumes inv_store: "inv s \<Longrightarrow> inv (fst (dn_StoreMessage D s msg))"
    and inv_start: "inv s \<Longrightarrow> inv (fst (dn_Start D s))"
    and inv_update: "inv s \<Longrightarrow> inv (fst (dn_Update D s))"
    and inv_reset: "inv s \<Longrightarrow> inv (dn_ResetOK D s)"
    and inv_advance: "inv s \<Longrightarrow> dn_CanProceed D s \<Longrightarrow> inv (advance D s)"
begin

lemma inv_proceed:
  assumes "inv s" "dn_CanProceed D s" shows "inv (fst (proceed D s))"
proof -
  have again: "inv (fst (proceed_again D t))" if "inv t" for t
    using that inv_start inv_advance [of t] by (auto simp: proceed_again_def Let_def)
  have reset: "inv (fst (resetRound D t))" if "inv t" for t
    using that inv_reset by (simp add: resetRound_def)
  have tail: "inv (fst (case dn_Update D t of
             (s, Ok _) \<Rightarrow> bindst (proceed_again D s) (\<lambda>s _. resetRound D s)
           | (s, Err _) \<Rightarrow> resetRound D s
           | (s, Panic p) \<Rightarrow> (s, Panic p)
           | (s, Hang) \<Rightarrow> (s, Hang)))" if t: "inv t" for t
  proof -
    obtain s2 r where u: "dn_Update D t = (s2, r)" by (cases "dn_Update D t")
    then have s2: "inv s2" using inv_update [OF t] by simp
    have "inv (fst (bindst (proceed_again D s2) (\<lambda>s _. resetRound D s)))"
    proof (rule fst_bindst)
      show "inv (fst (proceed_again D s2))" by (rule again [OF s2])
    next
      fix s3 a assume "proceed_again D s2 = (s3, Ok a)"
      then show "inv (fst (resetRound D s3))" using again [OF s2] reset by simp
    qed
    then show ?thesis using u s2 reset by (cases r) auto
  qed
  have adv: "inv (advance D s)" using assms by (rule inv_advance)
  show ?thesis
  proof (cases "dn_Round D (advance D s) = None")
    case True
    then show ?thesis using adv by (simp add: proceed_def Let_def)
  next
    case False
    note def = proceed_def [of D s, unfolded Let_def if_not_P [OF False]]
    show ?thesis
      unfolding def
    proof (rule fst_bindst)
      show "inv (fst (dn_Start D (advance D s)))" by (rule inv_start [OF adv])
    next
      fix t a assume "dn_Start D (advance D s) = (t, Ok a)"
      then show "inv (fst (case dn_Update D t of
             (s, Ok _) \<Rightarrow> bindst (proceed_again D s) (\<lambda>s _. resetRound D s)
           | (s, Err _) \<Rightarrow> resetRound D s
           | (s, Panic p) \<Rightarrow> (s, Panic p)
           | (s, Hang) \<Rightarrow> (s, Hang)))"
        using tail [of t] inv_start [OF adv] by (metis fst_conv)
    qed
  qed
qed

lemma inv_delivery: "inv s \<Longrightarrow> BaseUpdate fuel D s msg = Some (s', r) \<Longrightarrow> inv s'"
proof (induction fuel arbitrary: s)
  case 0
  then show ?case by (simp add: BaseUpdate.simps)
next
  case (Suc fuel)
  obtain s1 r1 where st: "dn_StoreMessage D s msg = (s1, r1)" by (cases "dn_StoreMessage D s msg")
  obtain s2 r2 where up: "dn_Update D s1 = (s2, r2)" by (cases "dn_Update D s1")
  obtain s3 r3 where pr: "proceed D s2 = (s3, r3)" by (cases "proceed D s2")
  have i1: "inv s1" using inv_store [OF Suc.prems(1), of msg] st by simp
  then have i2: "inv s2" using inv_update [of s1] up by simp
  then have i3: "dn_CanProceed D s2 \<Longrightarrow> inv s3" using inv_proceed [of s2] pr by simp
  show ?case
    using Suc.prems Suc.IH [of s3] i1 i2 i3 st up pr
    by (auto simp: BaseUpdate.simps split: res.splits if_splits)
qed

lemma inv_deliveries: "deliveries D s s' \<Longrightarrow> inv s \<Longrightarrow> inv s'"
  by (induction rule: deliveries.induct) (auto intro: inv_delivery)

end

end
