(* ===== verification/Keygen.thy ===== *)
theory Keygen
  imports KgMessage DNode
begin

text \<open>
  \<^verbatim>\<open>smpc-lib/ecdsa/keygen/local_dnode.go\<close>, \<^verbatim>\<open>rounds.go\<close> and \<^verbatim>\<open>save_data.go\<close>: the state of a node
  during the key generation and the storing of messages.

  All rounds share one \<^verbatim>\<open>base\<close> object, so its fields are part of the state; \<^verbatim>\<open>round.Save\<close> and
  \<^verbatim>\<open>round.temp\<close> point to \<^verbatim>\<open>p.data\<close> and \<^verbatim>\<open>p.temp\<close>.  The channels \<^verbatim>\<open>out\<close> and \<^verbatim>\<open>end\<close> are the lists of
  what was sent.  The randomness (\<open>p_tape\<close>) and the pool of safe primes (\<open>p_primes\<close>) are part of
  the state, and the functions a node uses that are not written here are collected in \<open>KgEnv\<close>.
\<close>

section \<open>The state\<close>

record KgEnv =
  ke_E :: Curve
  ke_H :: "byte list \<Rightarrow> byte list"
  ke_sha :: "byte list \<Rightarrow> byte list"
  ke_pp :: "int \<Rightarrow> bool"
  ke_ms :: "int \<Rightarrow> int \<Rightarrow> int option res"
  ke_sched :: "nat list"

record NtildePrivData =
  npd_Alpha :: int
  npd_Beta :: int
  npd_Q1 :: int
  npd_Q2 :: int

record LocalDNodeSaveData =
  sd_Pkx :: "int option"
  sd_Pky :: "int option"
  sd_C :: "int option"
  sd_SkU1 :: "int option"
  sd_U1PaillierSk :: "PrivateKey option"
  sd_U1PaillierPk :: "PublicKey option list"
  sd_U1NtildePrivData :: "NtildePrivData option"
  sd_U1NtildeH1H2 :: "NtildeH1H2 option list"
  sd_IDs :: "int option list"
  sd_CurDNodeID :: "int option"

type_synonym slots = "KGMessage option list"

record localTempData =
  kgRound0Messages :: slots
  kgRound1Messages :: slots
  kgRound2Messages :: slots
  kgRound2Messages1 :: slots
  kgRound2Messages2 :: slots
  kgRound3Messages :: slots
  kgRound3Messages1 :: slots
  kgRound4Messages :: slots
  kgRound5Messages :: slots
  kgRound5Messages1 :: slots
  kgRound5Messages2 :: slots
  kgRound6Messages :: slots
  t_u1 :: "int option"
  t_u1Poly :: "int list option"
  t_u1PolyG :: "int option list list option"
  t_commitU1G :: "Commitment option"
  t_c1 :: "int option"
  t_commitC1G :: "Commitment option"
  t_u1PaillierPk :: "PublicKey option"
  t_u1PaillierSk :: "PrivateKey option"
  t_p :: "int option"
  t_q :: "int option"
  t_u1Shares :: "ShareStruct2 list"
  t_p1 :: "int option"
  t_p2 :: "int option"
  t_commitXiG :: "Commitment option"

record LocalDNode =
  p_ID :: string
  p_rnd :: "nat option"
  p_DNodeCountInGroup :: int
  p_ThresHold :: int
  p_PaillierKeyLength :: int
  p_temp :: localTempData
  p_data :: LocalDNodeSaveData
  p_out :: "KGMessage list"
  p_end :: "LocalDNodeSaveData list"
  r_ok :: "bool list"
  r_started :: bool
  r_number :: nat
  r_dnodeid :: string
  r_dnodecount :: int
  r_threshold :: int
  r_paillierkeylength :: int
  p_tape :: tape
  p_primes :: "SafePrime list"

section \<open>Construction\<close>

definition NewLocalDNodeSaveData :: "int \<Rightarrow> LocalDNodeSaveData" where
  "NewLocalDNodeSaveData DNodeCount =
     \<lparr>sd_Pkx = None, sd_Pky = None, sd_C = None, sd_SkU1 = None, sd_U1PaillierSk = None,
      sd_U1PaillierPk = replicate (nat DNodeCount) None, sd_U1NtildePrivData = None,
      sd_U1NtildeH1H2 = replicate (nat DNodeCount) None, sd_IDs = [], sd_CurDNodeID = None\<rparr>"

definition new_localTempData :: "int \<Rightarrow> localTempData" where
  "new_localTempData n =
     (let none = replicate (nat n) None
      in \<lparr>kgRound0Messages = [], kgRound1Messages = none, kgRound2Messages = none, kgRound2Messages1 = none,
          kgRound2Messages2 = none, kgRound3Messages = none, kgRound3Messages1 = none, kgRound4Messages = none,
          kgRound5Messages = none, kgRound5Messages1 = none, kgRound5Messages2 = none, kgRound6Messages = none,
          t_u1 = None, t_u1Poly = None, t_u1PolyG = None, t_commitU1G = None, t_c1 = None, t_commitC1G = None,
          t_u1PaillierPk = None, t_u1PaillierSk = None, t_p = None, t_q = None, t_u1Shares = [],
          t_p1 = None, t_p2 = None, t_commitXiG = None\<rparr>)"

definition NewLocalDNode :: "KgEnv \<Rightarrow> int \<Rightarrow> int \<Rightarrow> int \<Rightarrow> tape \<Rightarrow> SafePrime list \<Rightarrow> LocalDNode res" where
  "NewLocalDNode env DNodeCountInGroup threshold paillierkeylength tape primes =
     (if DNodeCountInGroup < 0 then Panic ''makeslice: len out of range''
      else bindr (GetRandomIntFromZn (cN (ke_E env)) tape) (\<lambda>(uid, tape).
        Ok \<lparr>p_ID = show_int uid, p_rnd = None, p_DNodeCountInGroup = DNodeCountInGroup, p_ThresHold = threshold,
            p_PaillierKeyLength = paillierkeylength, p_temp = new_localTempData DNodeCountInGroup,
            p_data = NewLocalDNodeSaveData DNodeCountInGroup, p_out = [], p_end = [],
            r_ok = [], r_started = False, r_number = 0, r_dnodeid = [], r_dnodecount = 0, r_threshold = 0,
            r_paillierkeylength = 0, p_tape = tape, p_primes = primes\<rparr>))"

definition SetDNodeID :: "string \<Rightarrow> LocalDNode \<Rightarrow> LocalDNode" where
  "SetDNodeID idn p = p\<lparr>p_ID := EncodeToString (string_bytes idn)\<rparr>"

text \<open>\<^verbatim>\<open>newRound0\<close>: the \<^verbatim>\<open>base\<close> object of the rounds.\<close>

definition newRound0 :: "LocalDNode \<Rightarrow> LocalDNode \<times> nat option" where
  "newRound0 p =
     (p\<lparr>r_ok := replicate (nat (p_DNodeCountInGroup p)) False, r_started := False, r_number := 0,
        r_dnodeid := p_ID p, r_dnodecount := p_DNodeCountInGroup p, r_threshold := p_ThresHold p,
        r_paillierkeylength := p_PaillierKeyLength p\<rparr>, Some 0)"

section \<open>Storing messages\<close>

definition CheckFull :: "slots \<Rightarrow> bool" where
  "CheckFull msg = (if length msg = 0 then False else list_all (\<lambda>v. v \<noteq> None) msg)"

definition getFullCount :: "slots \<Rightarrow> nat" where
  "getFullCount msg = (if length msg = 0 then 0 else length (filter (\<lambda>v. v \<noteq> None) msg))"

definition find :: "slots \<Rightarrow> KGMessage \<Rightarrow> bool" where
  "find l msg = list_ex (\<lambda>v. case v of None \<Rightarrow> False
     | Some v \<Rightarrow> GetMsgType v = GetMsgType msg \<and> GetFromID v = GetFromID msg) l"

text \<open>The slice a message belongs to.\<close>

fun slots_of :: "KGMessage \<Rightarrow> localTempData \<Rightarrow> slots" where
  "slots_of (KGRound0Message _) = kgRound0Messages"
| "slots_of (KGRound1Message _ _ _ _) = kgRound1Messages"
| "slots_of (KGRound2Message _ _ _) = kgRound2Messages"
| "slots_of (KGRound2Message1 _ _) = kgRound2Messages1"
| "slots_of (KGRound2Message2 _ _ _) = kgRound2Messages2"
| "slots_of (KGRound3Message _ _ _ _) = kgRound3Messages"
| "slots_of (KGRound3Message1 _ _) = kgRound3Messages1"
| "slots_of (KGRound4Message _ _ _ _ _) = kgRound4Messages"
| "slots_of (KGRound5Message _ _) = kgRound5Messages"
| "slots_of (KGRound5Message1 _ _ _) = kgRound5Messages1"
| "slots_of (KGRound5Message2 _ _ _) = kgRound5Messages2"
| "slots_of (KGRound6Message _ _ _) = kgRound6Messages"

fun slots_update :: "KGMessage \<Rightarrow> slots \<Rightarrow> localTempData \<Rightarrow> localTempData" where
  "slots_update (KGRound0Message _) ms t = t\<lparr>kgRound0Messages := ms\<rparr>"
| "slots_update (KGRound1Message _ _ _ _) ms t = t\<lparr>kgRound1Messages := ms\<rparr>"
| "slots_update (KGRound2Message _ _ _) ms t = t\<lparr>kgRound2Messages := ms\<rparr>"
| "slots_update (KGRound2Message1 _ _) ms t = t\<lparr>kgRound2Messages1 := ms\<rparr>"
| "slots_update (KGRound2Message2 _ _ _) ms t = t\<lparr>kgRound2Messages2 := ms\<rparr>"
| "slots_update (KGRound3Message _ _ _ _) ms t = t\<lparr>kgRound3Messages := ms\<rparr>"
| "slots_update (KGRound3Message1 _ _) ms t = t\<lparr>kgRound3Messages1 := ms\<rparr>"
| "slots_update (KGRound4Message _ _ _ _ _) ms t = t\<lparr>kgRound4Messages := ms\<rparr>"
| "slots_update (KGRound5Message _ _) ms t = t\<lparr>kgRound5Messages := ms\<rparr>"
| "slots_update (KGRound5Message1 _ _ _) ms t = t\<lparr>kgRound5Messages1 := ms\<rparr>"
| "slots_update (KGRound5Message2 _ _ _) ms t = t\<lparr>kgRound5Messages2 := ms\<rparr>"
| "slots_update (KGRound6Message _ _ _) ms t = t\<lparr>kgRound6Messages := ms\<rparr>"

definition DulMessage :: "LocalDNode \<Rightarrow> KGMessage \<Rightarrow> bool" where
  "DulMessage p msg = find (slots_of msg (p_temp p)) msg"

definition full_now :: "LocalDNode \<Rightarrow> slots \<Rightarrow> bool" where
  "full_now p ms = (int (length ms) = p_DNodeCountInGroup p \<and> CheckFull ms)"

text \<open>\<^verbatim>\<open>p.temp.kgRoundXMessages[index] = msg\<close>\<close>

definition put_slot :: "LocalDNode \<Rightarrow> KGMessage \<Rightarrow> (LocalDNode, slots) st" where
  "put_slot p msg =
     tryr (slice_set (slots_of msg (p_temp p)) (GetFromIndex msg) (Some msg)) p (\<lambda>ms.
       (p\<lparr>p_temp := slots_update msg ms (p_temp p)\<rparr>, Ok ms))"

text \<open>The checks of a round 4 message before it is stored.\<close>

definition check_ntilde :: "KgEnv \<Rightarrow> NtildeH1H2 option \<Rightarrow> NtildeProof option \<Rightarrow> NtildeProof option \<Rightarrow> unit res" where
  "check_ntilde env nt pf1 pf2 =
     bindr (deref nt) (\<lambda>nt.
     let H1 = nt_H1 nt; H2 = nt_H2 nt; Ntilde = nt_Ntilde nt
     in bindr (Mod H1 Ntilde) (\<lambda>h1modn.
        bindr (Mod H2 Ntilde) (\<lambda>h2modn.
        if h1modn = 0 \<or> h2modn = 0 then Err ''h1 or h2 is equal 0 mod Ntilde''
        else if h1modn = 1 \<or> h2modn = 1 then Err ''h1 or h2 is equal 1 mod Ntilde''
        else if h1modn = h2modn then Err ''h1 and h2 were equal mod Ntilde''
        else bindr (NtildeProof_Verify (ke_sha env) pf1 (Some H1) (Some H2) (Some Ntilde)) (\<lambda>ok1.
             if \<not> ok1 then Err ''ntilde zk proof check fail''
             else bindr (NtildeProof_Verify (ke_sha env) pf2 (Some H2) (Some H1) (Some Ntilde)) (\<lambda>ok2.
               if \<not> ok2 then Err ''ntilde zk proof check fail'' else Ok ())))))"

definition StoreMessage :: "KgEnv \<Rightarrow> LocalDNode \<Rightarrow> KGMessage \<Rightarrow> (LocalDNode, bool) st" where
  "StoreMessage env p msg =
     (case msg of
        KGRound0Message _ \<Rightarrow>
          if \<not> find (kgRound0Messages (p_temp p)) msg then
            (let p = (if int (length (kgRound0Messages (p_temp p))) < p_DNodeCountInGroup p
                      then p\<lparr>p_temp := (p_temp p)\<lparr>kgRound0Messages := kgRound0Messages (p_temp p) @ [Some msg]\<rparr>\<rparr>
                      else p)
             in (p, Ok (int (length (kgRound0Messages (p_temp p))) = p_DNodeCountInGroup p)))
          else (p, Ok False)
      | KGRound1Message _ _ _ pk \<Rightarrow>
          if find (kgRound1Messages (p_temp p)) msg then (p, Ok False)
          else bindst (put_slot p msg) (\<lambda>p ms.
               tryr (slice_set (sd_U1PaillierPk (p_data p)) (GetFromIndex msg) pk) p (\<lambda>pks.
               let p = p\<lparr>p_data := (p_data p)\<lparr>sd_U1PaillierPk := pks\<rparr>\<rparr>
               in (p, Ok (full_now p ms))))
      | KGRound4Message _ nt pf1 pf2 _ \<Rightarrow>
          if find (kgRound4Messages (p_temp p)) msg then (p, Ok False)
          else tryr (check_ntilde env nt pf1 pf2) p (\<lambda>_.
               tryr (slice_set (sd_U1NtildeH1H2 (p_data p)) (GetFromIndex msg) nt) p (\<lambda>nts.
               let p = p\<lparr>p_data := (p_data p)\<lparr>sd_U1NtildeH1H2 := nts\<rparr>\<rparr>
               in bindst (put_slot p msg) (\<lambda>p ms. (p, Ok (full_now p ms)))))
      | _ \<Rightarrow>
          if find (slots_of msg (p_temp p)) msg then (p, Ok False)
          else bindst (put_slot p msg) (\<lambda>p ms. (p, Ok (full_now p ms))))"

section \<open>rounds.go\<close>

definition CanProceed :: "LocalDNode \<Rightarrow> bool" where
  "CanProceed p = (if \<not> r_started p then False else list_all (\<lambda>ok. ok) (r_ok p))"

definition ResetOK :: "LocalDNode \<Rightarrow> LocalDNode" where
  "ResetOK p = p\<lparr>r_ok := map (\<lambda>_. False) (r_ok p)\<rparr>"

text \<open>\<^verbatim>\<open>sort.Sort(ids)\<close>: comparing with \<^verbatim>\<open>nil\<close> panics, and a slice of length below 2 is not compared.\<close>

definition sort_ids :: "int option list \<Rightarrow> int option list res" where
  "sort_ids ids =
     (if length ids < 2 then Ok ids else bindr (mapM deref ids) (\<lambda>xs. Ok (map Some (sort xs))))"

definition decode_id :: "string \<Rightarrow> int option res" where
  "decode_id s = bindr (DecodeString s) (\<lambda>uidtmp. Ok (SetString10 (bytes_string uidtmp)))"

definition GetIDs :: "LocalDNode \<Rightarrow> int option list res" where
  "GetIDs p =
     bindr (mapM (\<lambda>v. bindr (deref v) (\<lambda>v. decode_id (GetFromID v))) (kgRound0Messages (p_temp p))) sort_ids"

definition GetDNodeIDIndex :: "LocalDNode \<Rightarrow> string \<Rightarrow> int res" where
  "GetDNodeIDIndex p idn =
     (if idn = [] \<or> int (length (kgRound0Messages (p_temp p))) \<noteq> r_dnodecount p then Ok (-1)
      else bindr (decode_id idn) (\<lambda>idtmp.
        if r_dnodecount p \<le> 0 then Err ''get dnode index fail,no found in kgRound0Messages''
        else bindr (deref idtmp) (\<lambda>v.
          if 1 \<le> v \<and> v \<le> r_dnodecount p then Ok (v - 1)
          else Err ''get dnode index fail,no found in kgRound0Messages'')))"

section \<open>Lemmas\<close>

named_theorems kg_frame \<open>the fields an operation leaves alone\<close>

lemma slots_of_update [simp]: "slots_of msg (slots_update msg ms t) = ms"
  by (cases msg) auto

lemma length_slots_update_other: "GetMsgType m \<noteq> GetMsgType msg \<Longrightarrow> slots_of m (slots_update msg ms t) = slots_of m t"
  by (cases msg; cases m) auto

lemma find_iff: "find l msg \<longleftrightarrow> (\<exists>v. Some v \<in> set l \<and> GetMsgType v = GetMsgType msg \<and> GetFromID v = GetFromID msg)"
  by (auto simp: find_def list_ex_iff split: option.splits)

lemma CheckFull_iff: "CheckFull ms \<longleftrightarrow> ms \<noteq> [] \<and> None \<notin> set ms"
  by (auto simp: CheckFull_def list_all_iff) (metis not_None_eq)

lemma getFullCount_full: "CheckFull ms \<longleftrightarrow> ms \<noteq> [] \<and> getFullCount ms = length ms"
proof -
  have "length (filter (\<lambda>v. v \<noteq> None) ms) = length ms \<longleftrightarrow> None \<notin> set ms"
    by (metis (mono_tags, lifting) filter_True filter_id_conv length_filter_less less_irrefl)
  then show ?thesis by (auto simp: CheckFull_iff getFullCount_def)
qed

text \<open>Frame and effect of storing.\<close>

lemma put_slot_Ok_iff:
  "put_slot p msg = (p', Ok ms) \<longleftrightarrow>
     0 \<le> GetFromIndex msg \<and> GetFromIndex msg < int (length (slots_of msg (p_temp p))) \<and>
     ms = (slots_of msg (p_temp p))[nat (GetFromIndex msg) := Some msg] \<and>
     p' = p\<lparr>p_temp := slots_update msg ms (p_temp p)\<rparr>"
  by (auto simp: put_slot_def slice_set_Ok_iff)

end
