(* ===== verification/MtA.thy ===== *)
theory MtA
  imports Ntilde
begin

text \<open>
  The zero-knowledge proofs of the share-conversion protocol MtA (GG18, appendix A):
  \<^verbatim>\<open>MtARangeProof.go\<close> (the initiator's plaintext is small), \<^verbatim>\<open>MtARespZKProof.go\<close> and
  \<^verbatim>\<open>MtAwcRespZKProof.go\<close> (the responder's multiplier is small, and in the second case is the
  discrete logarithm of a public point).
\<close>

section \<open>Shared idioms\<close>

definition N3 :: "Curve \<Rightarrow> int" where
  "N3 E = cN E * cN E * cN E"

text \<open>\<^verbatim>\<open>x^a * y^b mod m\<close> with two calls of \<^verbatim>\<open>Exp\<close>.\<close>

definition exp2 :: "int \<Rightarrow> int \<Rightarrow> int \<Rightarrow> int \<Rightarrow> int \<Rightarrow> int res" where
  "exp2 x a y b md = bindr (deref (Exp x a md)) (\<lambda>z. bindr (deref (Exp y b md)) (\<lambda>w. Mod (z * w) md))"

text \<open>\<^verbatim>\<open>x^a * y mod m\<close>.\<close>

definition exp1 :: "int \<Rightarrow> int \<Rightarrow> int \<Rightarrow> int \<Rightarrow> int res" where
  "exp1 x a y md = bindr (deref (Exp x a md)) (\<lambda>z. Mod (z * y) md)"

text \<open>Some of the values is 0 or 1 modulo its modulus.\<close>

definition trivial_residue :: "(int \<times> int) list \<Rightarrow> bool res" where
  "trivial_residue xs = bindr (mapM (\<lambda>(x, md). Mod x md) xs) (\<lambda>rs. Ok (list_ex (\<lambda>r. r = 0 \<or> r = 1) rs))"

section \<open>MtARangeProof.go\<close>

record MtARangeProof =
  ra_Z :: "int option"
  ra_U :: "int option"
  ra_W :: "int option"
  ra_S :: "int option"
  ra_S1 :: "int option"
  ra_S2 :: "int option"

text \<open>The computation after the four random values have been drawn.\<close>

definition range_core :: "Curve \<Rightarrow> (byte list \<Rightarrow> byte list) \<Rightarrow> int \<Rightarrow> int \<Rightarrow> int \<Rightarrow> PublicKey \<Rightarrow> NtildeH1H2 \<Rightarrow>
    int \<Rightarrow> int \<Rightarrow> int \<Rightarrow> int \<Rightarrow> MtARangeProof res" where
  "range_core E sha c m r pk nt alpha beta gamma rho =
     bindr (exp2 (nt_H1 nt) m (nt_H2 nt) rho (nt_Ntilde nt)) (\<lambda>z.
     bindr (exp2 (pk_G pk) alpha beta (pk_N pk) (pk_N2 pk)) (\<lambda>u.
     bindr (exp2 (nt_H1 nt) alpha (nt_H2 nt) gamma (nt_Ntilde nt)) (\<lambda>w.
     bindr (deref (Sha512_256 sha [z, u, w, c, pk_N pk])) (\<lambda>e.
     bindr (Mod e (cN E)) (\<lambda>e.
     bindr (exp1 r e beta (pk_N pk)) (\<lambda>s.
       let s1 = e * m + alpha;
           s2 = e * rho + gamma
       in Ok \<lparr>ra_Z = Some z, ra_U = Some u, ra_W = Some w, ra_S = Some s, ra_S1 = Some s1, ra_S2 = Some s2\<rparr>))))))"

definition MtARangeProofProve :: "Curve \<Rightarrow> (byte list \<Rightarrow> byte list) \<Rightarrow> int \<Rightarrow> int \<Rightarrow> int \<Rightarrow> PublicKey \<Rightarrow> NtildeH1H2 \<Rightarrow>
    tape \<Rightarrow> (MtARangeProof \<times> tape) res" where
  "MtARangeProofProve E sha c m r pk nt tape =
     (let N3Ntilde = N3 E * nt_Ntilde nt;
          NNtilde = cN E * nt_Ntilde nt
      in bindr (GetRandomIntFromZn (N3 E) tape) (\<lambda>(alpha, tape).
         bindr (GetRandomIntFromZnStar (pk_N pk) tape) (\<lambda>(beta, tape).
         bindr (GetRandomIntFromZn N3Ntilde tape) (\<lambda>(gamma, tape).
         bindr (GetRandomIntFromZn NNtilde tape) (\<lambda>(rho, tape).
         bindr (range_core E sha c m r pk nt alpha beta gamma rho) (\<lambda>p. Ok (p, tape)))))))"

definition MtARangeProofVerify :: "Curve \<Rightarrow> (byte list \<Rightarrow> byte list) \<Rightarrow> MtARangeProof option \<Rightarrow> int option \<Rightarrow>
    PublicKey option \<Rightarrow> NtildeH1H2 option \<Rightarrow> bool res" where
  "MtARangeProofVerify E sha p c publicKey ntildeH1H2 =
     (case (c, publicKey, ntildeH1H2, p) of
        (Some c, Some pk, Some nt, Some p) \<Rightarrow>
          (case (ra_S1 p, ra_Z p, ra_W p, ra_U p, ra_S p) of
             (Some S1, Some Z, Some W, Some U, Some S) \<Rightarrow>
               if pk_N2 pk \<noteq> pk_N pk * pk_N pk then Ok False
               else if pk_G pk \<noteq> pk_N pk + 1 then Ok False
               else if N3 E < S1 then Ok False
               else if nt_Ntilde nt \<le> Z then Ok False
               else if nt_Ntilde nt \<le> W then Ok False
               else if pk_N2 pk \<le> U then Ok False
               else if pk_N2 pk \<le> c then Ok False
               else if pk_N pk \<le> S then Ok False
               else bindr (trivial_residue [(Z, nt_Ntilde nt), (W, nt_Ntilde nt), (U, pk_N2 pk), (c, pk_N2 pk), (S, pk_N pk)]) (\<lambda>tr.
               if tr then Ok False
               else if S1 = 0 \<or> S1 = 1 then Ok False
               else bindr (deref (ra_S2 p)) (\<lambda>S2.
               if S2 = 0 \<or> S2 = 1 then Ok False
               else let G = pk_N pk + 1;
                        N2 = pk_N pk * pk_N pk
               in bindr (deref (Sha512_256 sha [Z, U, W, c, pk_N pk])) (\<lambda>e.
                  bindr (Mod e (cN E)) (\<lambda>e.
                  bindr (exp2 G S1 S (pk_N pk) N2) (\<lambda>u2.
                  bindr (exp1 c e U N2) (\<lambda>ceU.
                  if ceU \<noteq> u2 then Ok False
                  else bindr (exp2 (nt_H1 nt) S1 (nt_H2 nt) S2 (nt_Ntilde nt)) (\<lambda>w2.
                       bindr (exp1 Z e W (nt_Ntilde nt)) (\<lambda>zeW.
                       if zeW \<noteq> w2 then Ok False else Ok True))))))))
           | _ \<Rightarrow> Ok False)
      | _ \<Rightarrow> Ok False)"

section \<open>MtARespZKProof.go\<close>

record MtARespZKProof =
  rp_Z :: "int option"
  rp_ZBar :: "int option"
  rp_T :: "int option"
  rp_V :: "int option"
  rp_W :: "int option"
  rp_S :: "int option"
  rp_S1 :: "int option"
  rp_S2 :: "int option"
  rp_T1 :: "int option"
  rp_T2 :: "int option"

text \<open>The seven random values, in the order in which they are drawn.\<close>

record resp_rand =
  rr_alpha :: int
  rr_rho :: int
  rr_rhoBar :: int
  rr_sigma :: int
  rr_beta :: int
  rr_gamma :: int
  rr_delta :: int

definition resp_samples :: "Curve \<Rightarrow> PublicKey \<Rightarrow> NtildeH1H2 \<Rightarrow> tape \<Rightarrow> (resp_rand \<times> tape) res" where
  "resp_samples E pk nt tape =
     (let q3Ntilde = N3 E * nt_Ntilde nt;
          qNtilde = cN E * nt_Ntilde nt
      in bindr (GetRandomIntFromZn (N3 E) tape) (\<lambda>(alpha, tape).
         bindr (GetRandomIntFromZn qNtilde tape) (\<lambda>(rho, tape).
         bindr (GetRandomIntFromZn q3Ntilde tape) (\<lambda>(rhoBar, tape).
         bindr (GetRandomIntFromZn qNtilde tape) (\<lambda>(sigma, tape).
         bindr (GetRandomIntFromZnStar (pk_N pk) tape) (\<lambda>(beta, tape).
         bindr (GetRandomIntFromZnStar (pk_N pk) tape) (\<lambda>(gamma, tape).
         bindr (GetRandomIntFromZn qNtilde tape) (\<lambda>(delta, tape).
           Ok (\<lparr>rr_alpha = alpha, rr_rho = rho, rr_rhoBar = rhoBar, rr_sigma = sigma,
                rr_beta = beta, rr_gamma = gamma, rr_delta = delta\<rparr>, tape)))))))))"

text \<open>The commitments \<^verbatim>\<open>z, zBar, t, v, w\<close>, computed alike by both responder proofs.\<close>

definition resp_commits :: "int \<Rightarrow> int \<Rightarrow> int \<Rightarrow> PublicKey \<Rightarrow> NtildeH1H2 \<Rightarrow> resp_rand \<Rightarrow>
    (int \<times> int \<times> int \<times> int \<times> int) res" where
  "resp_commits x y c1 pk nt rr =
     bindr (exp2 (nt_H1 nt) x (nt_H2 nt) (rr_rho rr) (nt_Ntilde nt)) (\<lambda>z.
     bindr (exp2 (nt_H1 nt) (rr_alpha rr) (nt_H2 nt) (rr_rhoBar rr) (nt_Ntilde nt)) (\<lambda>zBar.
     bindr (exp2 (nt_H1 nt) y (nt_H2 nt) (rr_sigma rr) (nt_Ntilde nt)) (\<lambda>t.
     bindr (exp2 (pk_G pk) (rr_gamma rr) (rr_beta rr) (pk_N pk) (pk_N2 pk)) (\<lambda>v.
     bindr (exp1 c1 (rr_alpha rr) v (pk_N2 pk)) (\<lambda>v.
     bindr (exp2 (nt_H1 nt) (rr_gamma rr) (nt_H2 nt) (rr_delta rr) (nt_Ntilde nt)) (\<lambda>w.
       Ok (z, zBar, t, v, w)))))))"

definition MtARespZKProofProve :: "Curve \<Rightarrow> (byte list \<Rightarrow> byte list) \<Rightarrow> int \<Rightarrow> int \<Rightarrow> int \<Rightarrow> int \<Rightarrow> int \<Rightarrow>
    PublicKey \<Rightarrow> NtildeH1H2 \<Rightarrow> tape \<Rightarrow> (MtARespZKProof \<times> tape) res" where
  "MtARespZKProofProve E sha x y r c1 c2 pk nt tape =
     bindr (resp_samples E pk nt tape) (\<lambda>(rr, tape).
     bindr (resp_commits x y c1 pk nt rr) (\<lambda>(z, zBar, t, v, w).
     bindr (deref (Sha512_256 sha [z, zBar, t, v, w, c1, c2, pk_N pk])) (\<lambda>e.
     bindr (Mod e (cN E)) (\<lambda>e.
     bindr (exp1 r e (rr_beta rr) (pk_N pk)) (\<lambda>s.
       let s1 = e * x + rr_alpha rr;
           s2 = e * rr_rho rr + rr_rhoBar rr;
           t1 = e * y + rr_gamma rr;
           t2 = e * rr_sigma rr + rr_delta rr
       in Ok (\<lparr>rp_Z = Some z, rp_ZBar = Some zBar, rp_T = Some t, rp_V = Some v, rp_W = Some w,
               rp_S = Some s, rp_S1 = Some s1, rp_S2 = Some s2, rp_T1 = Some t1, rp_T2 = Some t2\<rparr>, tape))))))"

text \<open>The range and triviality checks of both responder proofs, on the values the code tests for \<^verbatim>\<open>nil\<close>.\<close>

definition resp_checks :: "Curve \<Rightarrow> int \<Rightarrow> int \<Rightarrow> PublicKey \<Rightarrow> NtildeH1H2 \<Rightarrow>
    int \<Rightarrow> int \<Rightarrow> int \<Rightarrow> int \<Rightarrow> int \<Rightarrow> int \<Rightarrow> int \<Rightarrow> int option \<Rightarrow> int option \<Rightarrow> int option \<Rightarrow> bool res" where
  "resp_checks E c1 c2 pk nt S1 Z ZBar T W V S S2 T1 T2 =
     (if pk_N2 pk \<noteq> pk_N pk * pk_N pk then Ok False
      else if pk_G pk \<noteq> pk_N pk + 1 then Ok False
      else if N3 E < S1 then Ok False
      else if nt_Ntilde nt \<le> Z then Ok False
      else if nt_Ntilde nt \<le> ZBar then Ok False
      else if nt_Ntilde nt \<le> T then Ok False
      else if nt_Ntilde nt \<le> W then Ok False
      else if pk_N2 pk \<le> V then Ok False
      else if pk_N2 pk \<le> c1 then Ok False
      else if pk_N2 pk \<le> c2 then Ok False
      else if pk_N pk \<le> S then Ok False
      else bindr (trivial_residue [(c1, pk_N2 pk), (c2, pk_N2 pk), (Z, nt_Ntilde nt), (ZBar, nt_Ntilde nt),
             (T, nt_Ntilde nt), (V, pk_N2 pk), (W, nt_Ntilde nt), (S, pk_N pk)]) (\<lambda>tr.
      if tr then Ok False
      else if S1 = 0 \<or> S1 = 1 then Ok False
      else bindr (deref S2) (\<lambda>S2. if S2 = 0 \<or> S2 = 1 then Ok False
      else bindr (deref T1) (\<lambda>T1. if T1 = 0 \<or> T1 = 1 then Ok False
      else bindr (deref T2) (\<lambda>T2. if T2 = 0 \<or> T2 = 1 then Ok False else Ok True)))))"

text \<open>The three equations of both responder proofs for the challenge \<open>e\<close>.\<close>

definition resp_equations :: "int \<Rightarrow> int \<Rightarrow> PublicKey \<Rightarrow> NtildeH1H2 \<Rightarrow>
    int \<Rightarrow> int \<Rightarrow> int \<Rightarrow> int \<Rightarrow> int \<Rightarrow> int \<Rightarrow> int \<Rightarrow> int \<Rightarrow> int \<Rightarrow> int \<Rightarrow> int \<Rightarrow> bool res" where
  "resp_equations c1 c2 pk nt e S1 Z ZBar T W V S S2 T1 T2 =
     (let G = pk_N pk + 1;
          N2 = pk_N pk * pk_N pk
      in bindr (exp2 (nt_H1 nt) S1 (nt_H2 nt) S2 (nt_Ntilde nt)) (\<lambda>s12.
         bindr (exp1 Z e ZBar (nt_Ntilde nt)) (\<lambda>zzbar.
         if s12 \<noteq> zzbar then Ok False
         else bindr (exp2 (nt_H1 nt) T1 (nt_H2 nt) T2 (nt_Ntilde nt)) (\<lambda>h12.
              bindr (exp1 T e W (nt_Ntilde nt)) (\<lambda>tw.
              if h12 \<noteq> tw then Ok False
              else bindr (exp2 G T1 S (pk_N pk) N2) (\<lambda>cs.
                   bindr (exp1 c1 S1 cs N2) (\<lambda>cs.
                   bindr (exp1 c2 e V N2) (\<lambda>cv.
                   if cs \<noteq> cv then Ok False else Ok True))))))))"

definition MtARespZKProofVerify :: "Curve \<Rightarrow> (byte list \<Rightarrow> byte list) \<Rightarrow> MtARespZKProof option \<Rightarrow> int option \<Rightarrow> int option \<Rightarrow>
    PublicKey option \<Rightarrow> NtildeH1H2 option \<Rightarrow> bool res" where
  "MtARespZKProofVerify E sha p c1 c2 publicKey ntildeH1H2 =
     (case (c1, c2, publicKey, ntildeH1H2, p) of
        (Some c1, Some c2, Some pk, Some nt, Some p) \<Rightarrow>
          (case (rp_S1 p, rp_Z p, rp_ZBar p, rp_T p, rp_W p, rp_V p, rp_S p) of
             (Some S1, Some Z, Some ZBar, Some T, Some W, Some V, Some S) \<Rightarrow>
               bindr (resp_checks E c1 c2 pk nt S1 Z ZBar T W V S (rp_S2 p) (rp_T1 p) (rp_T2 p)) (\<lambda>ok.
               if \<not> ok then Ok False
               else bindr (deref (Sha512_256 sha [Z, ZBar, T, V, W, c1, c2, pk_N pk])) (\<lambda>e.
                    bindr (Mod e (cN E)) (\<lambda>e.
                    bindr (deref (rp_S2 p)) (\<lambda>S2.
                    bindr (deref (rp_T1 p)) (\<lambda>T1.
                    bindr (deref (rp_T2 p)) (\<lambda>T2.
                      resp_equations c1 c2 pk nt e S1 Z ZBar T W V S S2 T1 T2))))))
           | _ \<Rightarrow> Ok False)
      | _ \<Rightarrow> Ok False)"

section \<open>MtAwcRespZKProof.go\<close>

record MtAwcRespZKProof =
  rw_Ux :: "int option"
  rw_Uy :: "int option"
  rw_resp :: MtARespZKProof

definition MtAwcRespZKProofProve :: "Curve \<Rightarrow> (byte list \<Rightarrow> byte list) \<Rightarrow> int \<Rightarrow> int \<Rightarrow> int \<Rightarrow> int \<Rightarrow> int \<Rightarrow>
    PublicKey \<Rightarrow> NtildeH1H2 \<Rightarrow> tape \<Rightarrow> (MtAwcRespZKProof \<times> tape) res" where
  "MtAwcRespZKProofProve E sha x y r c1 c2 pk nt tape =
     bindr (resp_samples E pk nt tape) (\<lambda>(rr, tape).
     bindr (Mod (rr_alpha rr) (cN E)) (\<lambda>tmp.
     bindr (ScalarBaseMult E (Bytes tmp)) (\<lambda>u.
     bindr (Mod x (cN E)) (\<lambda>xtmp.
     let xtmp = (if xtmp < 0 then cN E + xtmp else xtmp)
     in bindr (ScalarBaseMult E (Bytes xtmp)) (\<lambda>X.
     bindr (resp_commits x y c1 pk nt rr) (\<lambda>(z, zBar, t, v, w).
     bindr (sha_call sha (pair_slice u @ pair_slice X @ map Some [z, zBar, t, v, w, c1, c2, pk_N pk])) (\<lambda>e.
     bindr (Mod e (cN E)) (\<lambda>e.
     bindr (exp1 r e (rr_beta rr) (pk_N pk)) (\<lambda>s.
       let s1 = e * x + rr_alpha rr;
           s2 = e * rr_rho rr + rr_rhoBar rr;
           t1 = e * y + rr_gamma rr;
           t2 = e * rr_sigma rr + rr_delta rr
       in Ok (\<lparr>rw_Ux = map_option fst u, rw_Uy = map_option snd u,
               rw_resp = \<lparr>rp_Z = Some z, rp_ZBar = Some zBar, rp_T = Some t, rp_V = Some v, rp_W = Some w,
                 rp_S = Some s, rp_S1 = Some s1, rp_S2 = Some s2, rp_T1 = Some t1, rp_T2 = Some t2\<rparr>\<rparr>, tape))))))))))"

text \<open>The check on the curve: \<open>s1 * G = e * X + U\<close>, all on the curve; \<^verbatim>\<open>nil\<close> coordinates panic.\<close>

definition awc_curve_check :: "Curve \<Rightarrow> point \<Rightarrow> point \<Rightarrow> int \<Rightarrow> int \<Rightarrow> bool res" where
  "awc_curve_check E X U e S1 =
     bindr (Mod S1 (cN E)) (\<lambda>tmp.
     let tmp = (if tmp < 0 then cN E + tmp else tmp)
     in bindr (ScalarBaseMult E (Bytes tmp)) (\<lambda>s1G.
        bindr (ScalarMult E X (Bytes e)) (\<lambda>exG.
        bindr (Add E exG U) (\<lambda>uexG.
        bindr (deref s1G) (\<lambda>(sx, sy).
        if \<not> IsOnCurve E sx sy then Ok False
        else bindr (deref uexG) (\<lambda>(ux, uy).
          Ok (\<not> (\<not> IsOnCurve E ux uy \<or> sx \<noteq> ux \<or> sy \<noteq> uy)))))))) "

definition MtAwcRespZKProofVefify :: "Curve \<Rightarrow> (byte list \<Rightarrow> byte list) \<Rightarrow> MtAwcRespZKProof option \<Rightarrow> int option list \<Rightarrow>
    int option \<Rightarrow> int option \<Rightarrow> PublicKey option \<Rightarrow> NtildeH1H2 option \<Rightarrow> bool res" where
  "MtAwcRespZKProofVefify E sha pw' xG c1 c2 publicKey ntildeH1H2 =
     (if xG = [] then Ok False
      else case (c1, c2, publicKey, ntildeH1H2, pw') of
        (Some c1, Some c2, Some pk, Some nt, Some pw') \<Rightarrow>
          (let p = rw_resp pw' in
           case (rp_S1 p, rp_Z p, rp_ZBar p, rp_T p, rp_W p, rp_V p, rp_S p) of
             (Some S1, Some Z, Some ZBar, Some T, Some W, Some V, Some S) \<Rightarrow>
               bindr (resp_checks E c1 c2 pk nt S1 Z ZBar T W V S (rp_S2 p) (rp_T1 p) (rp_T2 p)) (\<lambda>ok.
               if \<not> ok then Ok False
               else if length xG \<noteq> 2 \<or> None \<in> set xG then Ok False
               else if \<not> checkPointOnCurve E xG then Ok False
               else bindr (sha_call sha ([rw_Ux pw', rw_Uy pw'] @ xG @ map Some [Z, ZBar, T, V, W, c1, c2, pk_N pk])) (\<lambda>e.
                    bindr (Mod e (cN E)) (\<lambda>e.
                    bindr (slice_pair xG) (\<lambda>X.
                    bindr (slice_pair [rw_Ux pw', rw_Uy pw']) (\<lambda>U.
                    bindr (awc_curve_check E X U e S1) (\<lambda>ok.
                    if \<not> ok then Ok False
                    else bindr (deref (rp_S2 p)) (\<lambda>S2.
                         bindr (deref (rp_T1 p)) (\<lambda>T1.
                         bindr (deref (rp_T2 p)) (\<lambda>T2.
                           resp_equations c1 c2 pk nt e S1 Z ZBar T W V S S2 T1 T2)))))))))
           | _ \<Rightarrow> Ok False)
      | _ \<Rightarrow> Ok False)"

section \<open>The algebra of the proofs\<close>

lemma exp2_Ok:
  assumes "0 < md" "coprime x md \<or> 0 \<le> a" "coprime y md \<or> 0 \<le> b"
  shows "exp2 x a y b md = Ok ((pw md x a * pw md y b) mod md)"
  using assms Exp_pw [OF assms(1)] Exp_pw_nonneg [OF assms(1)] by (auto simp: exp2_def)

lemma exp1_Ok:
  assumes "0 < md" "coprime x md \<or> 0 \<le> a" shows "exp1 x a y md = Ok ((pw md x a * y) mod md)"
  using assms Exp_pw [OF assms(1)] Exp_pw_nonneg [OF assms(1)] by (auto simp: exp1_def)

text \<open>A commitment \<open>z\<close> raised to the challenge times a commitment \<open>w\<close> opens to the responses.\<close>

lemma pedersen_response:
  assumes md: "0 < md" and h: "coprime h1 md" "coprime h2 md" and e: "0 \<le> e"
    and z: "eqm md z (pw md h1 a * pw md h2 r)" and w: "eqm md w (pw md h1 b * pw md h2 g)"
  shows "eqm md (pw md z e * w) (pw md h1 (e * a + b) * pw md h2 (e * r + g))"
proof -
  have "eqm md (pw md z e * w) ((pw md h1 a * pw md h2 r) ^ nat e * (pw md h1 b * pw md h2 g))"
    by (intro eqm_mult w pw_cong_nonneg [OF md e z])
  also have "\<dots> = (pw md h1 a ^ nat e * pw md h1 b) * (pw md h2 r ^ nat e * pw md h2 g)"
    by (simp add: power_mult_distrib algebra_simps)
  also have "eqm md \<dots> ((pw md h1 (e * a) * pw md h1 b) * (pw md h2 (e * r) * pw md h2 g))"
    by (intro eqm_mult eqm_refl eqm_sym [OF pw_scale [OF md _ e]] h)
  also have "eqm md \<dots> (pw md h1 (e * a + b) * pw md h2 (e * r + g))"
    by (intro eqm_mult eqm_sym [OF pw_add [OF md]] h)
  finally show ?thesis .
qed

text \<open>The response \<open>s = r^e * beta mod n\<close> enters the Paillier equation through its \<open>n\<close>-th power.\<close>

lemma paillier_response:
  assumes n: "0 < n" and e: "0 \<le> e" and s: "s = (pw n r e * beta) mod n"
  shows "eqm (n * n) (pw (n * n) s n) (pw (n * n) r n ^ nat e * pw (n * n) beta n)"
proof -
  have nn: "0 < n * n" using n by simp
  have "eqm n s (r ^ nat e * beta)"
    unfolding s eqm_mod_left by (intro eqm_mult pw_nonneg n e eqm_refl)
  then have "eqm (n ^ 2) (s ^ nat n) ((r ^ nat e * beta) ^ nat n)" using n by (intro eqm_power_lift) simp_all
  then have s': "eqm (n * n) (s ^ nat n) ((r ^ nat n) ^ nat e * beta ^ nat n)"
    by (simp add: power2_eq_square power_mult_distrib mult.commute flip: power_mult)
  have "eqm (n * n) (pw (n * n) s n) (s ^ nat n)" using pw_nonneg [OF nn, of n s] n by simp
  also note s'
  also have "eqm (n * n) ((r ^ nat n) ^ nat e * beta ^ nat n) (pw (n * n) r n ^ nat e * pw (n * n) beta n)"
    using n by (intro eqm_mult eqm_power eqm_sym [OF pw_nonneg [OF nn]]) simp_all
  finally show ?thesis .
qed

lemma coprime_generator: "coprime (n + 1) (n * n :: int)"
  by simp

text \<open>The ciphertext raised to the challenge times a ciphertext of the masks opens to the responses.\<close>

lemma cipher_response:
  assumes n: "0 < n" and e: "0 \<le> e" and s: "s = (pw n r e * beta) mod n"
    and c: "eqm (n * n) c (pw (n * n) (n + 1) m * pw (n * n) r n)"
    and u: "eqm (n * n) u (pw (n * n) (n + 1) a * pw (n * n) beta n)"
  shows "eqm (n * n) (pw (n * n) c e * u) (pw (n * n) (n + 1) (e * m + a) * pw (n * n) s n)"
proof -
  let ?N = "n * n" and ?G = "n + 1"
  have nn: "0 < ?N" using n by simp
  note G = coprime_generator [of n]
  have "eqm ?N (pw ?N c e * u) ((pw ?N ?G m * pw ?N r n) ^ nat e * (pw ?N ?G a * pw ?N beta n))"
    by (intro eqm_mult u pw_cong_nonneg [OF nn e c])
  also have "\<dots> = (pw ?N ?G m ^ nat e * pw ?N ?G a) * (pw ?N r n ^ nat e * pw ?N beta n)"
    by (simp add: power_mult_distrib algebra_simps)
  also have "eqm ?N \<dots> ((pw ?N ?G (e * m) * pw ?N ?G a) * pw ?N s n)"
    by (intro eqm_mult eqm_refl eqm_sym [OF pw_scale [OF nn G e]] eqm_sym [OF paillier_response [OF n e s]])
  also have "eqm ?N \<dots> (pw ?N ?G (e * m + a) * pw ?N s n)"
    by (intro eqm_mult eqm_refl eqm_sym [OF pw_add [OF nn G]])
  finally show ?thesis .
qed

section \<open>Well-formed parameters\<close>

definition wf_pk :: "PublicKey \<Rightarrow> bool" where
  "wf_pk pk \<longleftrightarrow> 1 < pk_N pk \<and> pk_N2 pk = pk_N pk * pk_N pk \<and> pk_G pk = pk_N pk + 1"

definition wf_nt :: "NtildeH1H2 \<Rightarrow> bool" where
  "wf_nt nt \<longleftrightarrow> 0 < nt_Ntilde nt \<and> coprime (nt_H1 nt) (nt_Ntilde nt) \<and> coprime (nt_H2 nt) (nt_Ntilde nt)"

text \<open>\<open>cipher_of pk c m r\<close>: the ciphertext of \<open>m\<close> with the randomness \<open>r\<close>, as \<^verbatim>\<open>Encrypt\<close> computes it.\<close>

definition cipher_of :: "PublicKey \<Rightarrow> int \<Rightarrow> int \<Rightarrow> int \<Rightarrow> bool" where
  "cipher_of pk c m r \<longleftrightarrow> 0 \<le> c \<and> c < pk_N2 pk \<and>
     eqm (pk_N2 pk) c (pw (pk_N2 pk) (pk_G pk) m * pw (pk_N2 pk) r (pk_N pk))"

lemma Encrypt_cipher_of:
  assumes "wf_pk pk" "Encrypt pk (Some m) tape = Ok ((c, r), rest)"
  shows "cipher_of pk c m r"
proof -
  have N2: "0 < pk_N2 pk" and cop: "coprime (pk_G pk) (pk_N2 pk)" "0 \<le> pk_N pk"
    using assms(1) coprime_generator [of "pk_N pk"] by (auto simp: wf_pk_def)
  have "c = (pw (pk_N2 pk) (pk_G pk) m * pw (pk_N2 pk) r (pk_N pk)) mod pk_N2 pk"
    using assms(2) Exp_pw [OF N2 cop(1)] Exp_pw_nonneg [OF N2 cop(2)] N2
    by (auto simp: Encrypt_def split: if_splits)
  then show ?thesis using N2 by (simp add: cipher_of_def)
qed

lemma trivial_residue_pos:
  "\<forall>(x, md) \<in> set xs. 0 < md \<Longrightarrow> trivial_residue xs = Ok (\<exists>(x, md) \<in> set xs. x mod md = 0 \<or> x mod md = 1)"
proof -
  assume pos: "\<forall>(x, md) \<in> set xs. 0 < md"
  have "mapM (\<lambda>(x, md). Mod x md) xs = Ok (map (\<lambda>(x, md). x mod md) xs)"
    using pos by (intro mapM_Ok_map) auto
  then show ?thesis by (simp add: trivial_residue_def list_ex_iff case_prod_unfold)
qed

section \<open>The range proof\<close>

definition range_regular :: "MtARangeProof \<Rightarrow> int \<Rightarrow> PublicKey \<Rightarrow> NtildeH1H2 \<Rightarrow> bool" where
  "range_regular p c pk nt \<longleftrightarrow>
     the (ra_S1 p) \<notin> {0, 1} \<and> the (ra_S2 p) \<notin> {0, 1} \<and>
     \<not> (\<exists>(x, md) \<in> set [(the (ra_Z p), nt_Ntilde nt), (the (ra_W p), nt_Ntilde nt), (the (ra_U p), pk_N2 pk),
          (c, pk_N2 pk), (the (ra_S p), pk_N pk)]. x mod md = 0 \<or> x mod md = 1)"

definition range_nontrivial :: "Curve \<Rightarrow> MtARangeProof \<Rightarrow> int \<Rightarrow> PublicKey \<Rightarrow> NtildeH1H2 \<Rightarrow> bool" where
  "range_nontrivial E p c pk nt \<longleftrightarrow> the (ra_S1 p) \<le> N3 E \<and> range_regular p c pk nt"

lemma range_core_eq:
  fixes m rho alpha beta gamma c r :: int and sha :: "byte list \<Rightarrow> byte list"
  assumes "wf_pk pk" "wf_nt nt" "0 < cN E"
  defines "Nt \<equiv> nt_Ntilde nt" and "N2 \<equiv> pk_N2 pk"
  defines "z \<equiv> (pw Nt (nt_H1 nt) m * pw Nt (nt_H2 nt) rho) mod Nt"
    and "u \<equiv> (pw N2 (pk_G pk) alpha * pw N2 beta (pk_N pk)) mod N2"
    and "w \<equiv> (pw Nt (nt_H1 nt) alpha * pw Nt (nt_H2 nt) gamma) mod Nt"
  defines "e \<equiv> SetBytes (sha (sha_input [z, u, w, c, pk_N pk])) mod cN E"
  shows "range_core E sha c m r pk nt alpha beta gamma rho =
    Ok \<lparr>ra_Z = Some z, ra_U = Some u, ra_W = Some w, ra_S = Some ((pw (pk_N pk) r e * beta) mod pk_N pk),
      ra_S1 = Some (e * m + alpha), ra_S2 = Some (e * rho + gamma)\<rparr>"
proof -
  have pos: "0 < Nt" "0 < N2" "0 < pk_N pk" "coprime (nt_H1 nt) Nt" "coprime (nt_H2 nt) Nt" "coprime (pk_G pk) N2"
    using assms(1,2) coprime_generator [of "pk_N pk"] by (auto simp: wf_pk_def wf_nt_def Nt_def N2_def)
  have e0: "0 \<le> e" using assms(3) by (simp add: e_def)
  have ex: "exp2 (nt_H1 nt) m (nt_H2 nt) rho Nt = Ok z" "exp2 (pk_G pk) alpha beta (pk_N pk) N2 = Ok u"
    "exp2 (nt_H1 nt) alpha (nt_H2 nt) gamma Nt = Ok w" "exp1 r e beta (pk_N pk) = Ok ((pw (pk_N pk) r e * beta) mod pk_N pk)"
    using pos e0 by (simp_all add: exp2_Ok exp1_Ok z_def u_def w_def)
  have "Sha512_256 sha [z, u, w, c, pk_N pk] = Some (SetBytes (sha (sha_input [z, u, w, c, pk_N pk])))"
    by (simp add: Sha512_256_def)
  then show ?thesis
    unfolding range_core_def
    using ex [unfolded Nt_def N2_def] assms(3)
    by (simp add: Let_def flip: e_def)
qed

lemma range_verify:
  assumes wf: "wf_pk pk" "wf_nt nt" "0 < cN E" and c: "cipher_of pk c m r"
    and p: "range_core E sha c m r pk nt alpha beta gamma rho = Ok p"
  shows "MtARangeProofVerify E sha (Some p) (Some c) (Some pk) (Some nt) = Ok (range_nontrivial E p c pk nt)"
proof -
  let ?Nt = "nt_Ntilde nt" and ?n = "pk_N pk"
  let ?N2 = "?n * ?n"
  have pk: "pk_N2 pk = ?N2" "pk_G pk = ?n + 1" "0 < ?n" and N2: "0 < ?N2"
    and Nt: "0 < ?Nt" and h: "coprime (nt_H1 nt) ?Nt" "coprime (nt_H2 nt) ?Nt"
    using wf by (auto simp: wf_pk_def wf_nt_def)
  define z where "z = (pw ?Nt (nt_H1 nt) m * pw ?Nt (nt_H2 nt) rho) mod ?Nt"
  define u where "u = (pw ?N2 (?n + 1) alpha * pw ?N2 beta ?n) mod ?N2"
  define w where "w = (pw ?Nt (nt_H1 nt) alpha * pw ?Nt (nt_H2 nt) gamma) mod ?Nt"
  define e where "e = SetBytes (sha (sha_input [z, u, w, c, ?n])) mod cN E"
  define s where "s = (pw ?n r e * beta) mod ?n"
  have p': "p = \<lparr>ra_Z = Some z, ra_U = Some u, ra_W = Some w, ra_S = Some s,
      ra_S1 = Some (e * m + alpha), ra_S2 = Some (e * rho + gamma)\<rparr>"
    using range_core_eq [OF wf, of sha c m r alpha beta gamma rho] p
    unfolding pk z_def [symmetric] u_def [symmetric] w_def [symmetric] e_def [symmetric] s_def [symmetric] by simp
  have e0: "0 \<le> e" using wf(3) by (simp add: e_def)
  have lt: "z < ?Nt" "w < ?Nt" "u < ?N2" "s < ?n" "c < ?N2"
    using Nt N2 pk c by (simp_all add: z_def w_def u_def s_def cipher_of_def)
  have c': "eqm ?N2 c (pw ?N2 (?n + 1) m * pw ?N2 r ?n)" using c pk by (simp add: cipher_of_def)
  have eq1: "(pw ?N2 c e * u) mod ?N2 = (pw ?N2 (?n + 1) (e * m + alpha) * pw ?N2 s ?n) mod ?N2"
    by (rule eqm_imp_mod_eq, rule cipher_response [OF pk(3) e0 s_def c']) (simp add: u_def)
  have eq2: "(pw ?Nt z e * w) mod ?Nt = (pw ?Nt (nt_H1 nt) (e * m + alpha) * pw ?Nt (nt_H2 nt) (e * rho + gamma)) mod ?Nt"
    by (rule eqm_imp_mod_eq, rule pedersen_response [OF Nt h e0]) (simp_all add: z_def w_def)
  have tr: "trivial_residue [(z, ?Nt), (w, ?Nt), (u, ?N2), (c, ?N2), (s, ?n)] =
      Ok (\<exists>(x, md) \<in> set [(z, ?Nt), (w, ?Nt), (u, ?N2), (c, ?N2), (s, ?n)]. x mod md = 0 \<or> x mod md = 1)"
    using Nt N2 pk by (intro trivial_residue_pos) auto
  have ex: "exp2 (?n + 1) (e * m + alpha) s ?n ?N2 = Ok ((pw ?N2 c e * u) mod ?N2)" "exp1 c e u ?N2 = Ok ((pw ?N2 c e * u) mod ?N2)"
    "exp2 (nt_H1 nt) (e * m + alpha) (nt_H2 nt) (e * rho + gamma) ?Nt = Ok ((pw ?Nt z e * w) mod ?Nt)"
    "exp1 z e w ?Nt = Ok ((pw ?Nt z e * w) mod ?Nt)"
    using N2 Nt h e0 pk coprime_generator [of ?n] eq1 eq2 by (simp_all add: exp2_Ok exp1_Ok)
  have "Sha512_256 sha [z, u, w, c, ?n] = Some (SetBytes (sha (sha_input [z, u, w, c, ?n])))"
    by (simp add: Sha512_256_def)
  then show ?thesis
    unfolding MtARangeProofVerify_def p' range_nontrivial_def range_regular_def
    using lt tr ex wf(3) pk
    by (simp add: Let_def flip: e_def)
qed

section \<open>The responder's proofs\<close>

text \<open>\<open>resp_cipher\<close>: the responder's ciphertext \<open>c2 = c1^x * G^y * r^N\<close>.\<close>

definition resp_cipher :: "PublicKey \<Rightarrow> int \<Rightarrow> int \<Rightarrow> int \<Rightarrow> int \<Rightarrow> int \<Rightarrow> bool" where
  "resp_cipher pk c1 c2 x y r \<longleftrightarrow> coprime c1 (pk_N2 pk) \<and> c1 < pk_N2 pk \<and> 0 \<le> c2 \<and> c2 < pk_N2 pk \<and>
     eqm (pk_N2 pk) c2 (pw (pk_N2 pk) c1 x * (pw (pk_N2 pk) (pk_G pk) y * pw (pk_N2 pk) r (pk_N pk)))"

definition resp_nontrivial :: "Curve \<Rightarrow> MtARespZKProof \<Rightarrow> int \<Rightarrow> int \<Rightarrow> PublicKey \<Rightarrow> NtildeH1H2 \<Rightarrow> bool" where
  "resp_nontrivial E p c1 c2 pk nt \<longleftrightarrow>
     the (rp_S1 p) \<le> N3 E \<and> the (rp_S1 p) \<notin> {0, 1} \<and> the (rp_S2 p) \<notin> {0, 1} \<and>
     the (rp_T1 p) \<notin> {0, 1} \<and> the (rp_T2 p) \<notin> {0, 1} \<and>
     \<not> (\<exists>(x, md) \<in> set [(c1, pk_N2 pk), (c2, pk_N2 pk), (the (rp_Z p), nt_Ntilde nt), (the (rp_ZBar p), nt_Ntilde nt),
          (the (rp_T p), nt_Ntilde nt), (the (rp_V p), pk_N2 pk), (the (rp_W p), nt_Ntilde nt), (the (rp_S p), pk_N pk)].
          x mod md = 0 \<or> x mod md = 1)"

lemma resp_checks_eq:
  assumes "wf_pk pk" "wf_nt nt" and "Z < nt_Ntilde nt" "ZBar < nt_Ntilde nt" "T < nt_Ntilde nt" "W < nt_Ntilde nt"
    and "V < pk_N2 pk" "c1 < pk_N2 pk" "c2 < pk_N2 pk" "S < pk_N pk"
    and "p = \<lparr>rp_Z = Some Z, rp_ZBar = Some ZBar, rp_T = Some T, rp_V = Some V, rp_W = Some W,
      rp_S = Some S, rp_S1 = Some S1, rp_S2 = Some S2, rp_T1 = Some T1, rp_T2 = Some T2\<rparr>"
  shows "resp_checks E c1 c2 pk nt S1 Z ZBar T W V S (Some S2) (Some T1) (Some T2) = Ok (resp_nontrivial E p c1 c2 pk nt)"
proof -
  let ?xs = "[(c1, pk_N2 pk), (c2, pk_N2 pk), (Z, nt_Ntilde nt), (ZBar, nt_Ntilde nt),
             (T, nt_Ntilde nt), (V, pk_N2 pk), (W, nt_Ntilde nt), (S, pk_N pk)]"
  have tr: "trivial_residue ?xs = Ok (\<exists>(x, md) \<in> set ?xs. x mod md = 0 \<or> x mod md = 1)"
    using assms(1,2) by (intro trivial_residue_pos) (auto simp: wf_pk_def wf_nt_def)
  show ?thesis
    unfolding resp_checks_def tr resp_nontrivial_def assms(11)
    using assms(1-10) by (simp add: wf_pk_def)
qed

text \<open>What the commitments are, and that the three equations hold for every challenge.\<close>

lemma resp_commits_eq:
  assumes "wf_pk pk" "wf_nt nt" "coprime c1 (pk_N2 pk)"
  shows "resp_commits x y c1 pk nt rr =
    Ok ((pw (nt_Ntilde nt) (nt_H1 nt) x * pw (nt_Ntilde nt) (nt_H2 nt) (rr_rho rr)) mod nt_Ntilde nt,
        (pw (nt_Ntilde nt) (nt_H1 nt) (rr_alpha rr) * pw (nt_Ntilde nt) (nt_H2 nt) (rr_rhoBar rr)) mod nt_Ntilde nt,
        (pw (nt_Ntilde nt) (nt_H1 nt) y * pw (nt_Ntilde nt) (nt_H2 nt) (rr_sigma rr)) mod nt_Ntilde nt,
        (pw (pk_N2 pk) c1 (rr_alpha rr) *
          ((pw (pk_N2 pk) (pk_G pk) (rr_gamma rr) * pw (pk_N2 pk) (rr_beta rr) (pk_N pk)) mod pk_N2 pk)) mod pk_N2 pk,
        (pw (nt_Ntilde nt) (nt_H1 nt) (rr_gamma rr) * pw (nt_Ntilde nt) (nt_H2 nt) (rr_delta rr)) mod nt_Ntilde nt)"
proof -
  have pos: "0 < nt_Ntilde nt" "0 < pk_N2 pk" "0 \<le> pk_N pk" "coprime (nt_H1 nt) (nt_Ntilde nt)"
    "coprime (nt_H2 nt) (nt_Ntilde nt)" "coprime (pk_G pk) (pk_N2 pk)"
    using assms(1,2) coprime_generator [of "pk_N pk"] by (auto simp: wf_pk_def wf_nt_def)
  show ?thesis unfolding resp_commits_def using pos assms(3) by (simp add: exp2_Ok exp1_Ok)
qed

lemma resp_equations_hold:
  assumes wf: "wf_pk pk" "wf_nt nt" and c2: "resp_cipher pk c1 c2 x y r" and e: "0 \<le> e"
    and cm: "resp_commits x y c1 pk nt rr = Ok (z, zBar, t, v, w)"
    and s: "s = (pw (pk_N pk) r e * rr_beta rr) mod pk_N pk"
  shows "resp_equations c1 c2 pk nt e (e * x + rr_alpha rr) z zBar t w v s
    (e * rr_rho rr + rr_rhoBar rr) (e * y + rr_gamma rr) (e * rr_sigma rr + rr_delta rr) = Ok True"
proof -
  let ?Nt = "nt_Ntilde nt" and ?n = "pk_N pk"
  let ?N2 = "?n * ?n"
  have pk: "pk_N2 pk = ?N2" "pk_G pk = ?n + 1" "0 < ?n" and N2: "0 < ?N2"
    and Nt: "0 < ?Nt" and h: "coprime (nt_H1 nt) ?Nt" "coprime (nt_H2 nt) ?Nt"
    using wf by (auto simp: wf_pk_def wf_nt_def)
  have c1: "coprime c1 ?N2" and c2': "eqm ?N2 c2 (pw ?N2 c1 x * (pw ?N2 (?n + 1) y * pw ?N2 r ?n))"
    using c2 pk by (auto simp: resp_cipher_def)
  let ?u = "pw ?N2 (?n + 1) (rr_gamma rr) * pw ?N2 (rr_beta rr) ?n"
  have vals: "z = (pw ?Nt (nt_H1 nt) x * pw ?Nt (nt_H2 nt) (rr_rho rr)) mod ?Nt"
    "zBar = (pw ?Nt (nt_H1 nt) (rr_alpha rr) * pw ?Nt (nt_H2 nt) (rr_rhoBar rr)) mod ?Nt"
    "t = (pw ?Nt (nt_H1 nt) y * pw ?Nt (nt_H2 nt) (rr_sigma rr)) mod ?Nt"
    "v = (pw ?N2 c1 (rr_alpha rr) * (?u mod ?N2)) mod ?N2"
    "w = (pw ?Nt (nt_H1 nt) (rr_gamma rr) * pw ?Nt (nt_H2 nt) (rr_delta rr)) mod ?Nt"
    using cm unfolding resp_commits_eq [OF wf c1 [folded pk(1)]] pk by simp_all
  have eq1: "(pw ?Nt z e * zBar) mod ?Nt =
      (pw ?Nt (nt_H1 nt) (e * x + rr_alpha rr) * pw ?Nt (nt_H2 nt) (e * rr_rho rr + rr_rhoBar rr)) mod ?Nt"
    by (rule eqm_imp_mod_eq, rule pedersen_response [OF Nt h e]) (simp_all add: vals)
  have eq2: "(pw ?Nt t e * w) mod ?Nt =
      (pw ?Nt (nt_H1 nt) (e * y + rr_gamma rr) * pw ?Nt (nt_H2 nt) (e * rr_sigma rr + rr_delta rr)) mod ?Nt"
    by (rule eqm_imp_mod_eq, rule pedersen_response [OF Nt h e]) (simp_all add: vals)
  let ?c = "pw ?N2 (?n + 1) y * pw ?N2 r ?n"
  let ?g = "pw ?N2 (?n + 1) (e * y + rr_gamma rr) * pw ?N2 s ?n"
  have g: "eqm ?N2 (?c ^ nat e * ?u) ?g"
  proof -
    have "eqm ?N2 (pw ?N2 ?c e * ?u) ?g" by (rule cipher_response [OF pk(3) e s]) simp_all
    moreover have "eqm ?N2 (pw ?N2 ?c e) (?c ^ nat e)" by (rule pw_nonneg [OF N2 e])
    ultimately show ?thesis by (meson eqm_mult eqm_refl eqm_sym eqm_trans)
  qed
  have "eqm ?N2 (pw ?N2 c2 e * v) ((pw ?N2 c1 x * ?c) ^ nat e * (pw ?N2 c1 (rr_alpha rr) * ?u))"
    by (intro eqm_mult pw_cong_nonneg [OF N2 e c2']) (simp add: vals eqm_mult)
  also have "\<dots> = (pw ?N2 c1 x ^ nat e * pw ?N2 c1 (rr_alpha rr)) * (?c ^ nat e * ?u)"
    by (simp add: power_mult_distrib algebra_simps)
  also have "eqm ?N2 \<dots> ((pw ?N2 c1 (e * x) * pw ?N2 c1 (rr_alpha rr)) * ?g)"
    by (intro eqm_mult eqm_sym [OF pw_scale [OF N2 c1 e]] eqm_refl g)
  also have "eqm ?N2 \<dots> (pw ?N2 c1 (e * x + rr_alpha rr) * (?g mod ?N2))"
    by (intro eqm_mult eqm_sym [OF pw_add [OF N2 c1]]) simp
  finally have eq3: "(pw ?N2 c2 e * v) mod ?N2 = (pw ?N2 c1 (e * x + rr_alpha rr) * (?g mod ?N2)) mod ?N2"
    by (rule eqm_imp_mod_eq)
  show ?thesis
    unfolding resp_equations_def
    using N2 Nt h c1 e pk eq1 eq2 eq3 coprime_generator [of ?n] by (simp add: exp2_Ok exp1_Ok Let_def)
qed

lemma resp_commits_range:
  assumes "wf_pk pk" "wf_nt nt" "coprime c1 (pk_N2 pk)" "resp_commits x y c1 pk nt rr = Ok (z, zBar, t, v, w)"
  shows "z < nt_Ntilde nt" "zBar < nt_Ntilde nt" "t < nt_Ntilde nt" "w < nt_Ntilde nt" "v < pk_N2 pk"
proof -
  have "0 < nt_Ntilde nt" "0 < pk_N2 pk" using assms(1,2) by (auto simp: wf_pk_def wf_nt_def)
  then show "z < nt_Ntilde nt" "zBar < nt_Ntilde nt" "t < nt_Ntilde nt" "w < nt_Ntilde nt" "v < pk_N2 pk"
    using assms(4) resp_commits_eq [OF assms(1-3), of x y rr] by auto
qed

lemma MtAResp_verify:
  assumes wf: "wf_pk pk" "wf_nt nt" "0 < cN E" and c2: "resp_cipher pk c1 c2 x y r"
    and p: "MtARespZKProofProve E sha x y r c1 c2 pk nt tape = Ok (p, rest)"
  shows "MtARespZKProofVerify E sha (Some p) (Some c1) (Some c2) (Some pk) (Some nt) = Ok (resp_nontrivial E p c1 c2 pk nt)"
proof -
  have cop: "coprime c1 (pk_N2 pk)" "c1 < pk_N2 pk" "c2 < pk_N2 pk" using c2 by (auto simp: resp_cipher_def)
  have n: "0 < pk_N pk" using wf(1) by (simp add: wf_pk_def)
  obtain rr tp z zBar t v w where cm: "resp_commits x y c1 pk nt rr = Ok (z, zBar, t, v, w)"
    and pr: "bindr (deref (Sha512_256 sha [z, zBar, t, v, w, c1, c2, pk_N pk])) (\<lambda>e.
     bindr (Mod e (cN E)) (\<lambda>e.
     bindr (exp1 r e (rr_beta rr) (pk_N pk)) (\<lambda>s.
       Ok (\<lparr>rp_Z = Some z, rp_ZBar = Some zBar, rp_T = Some t, rp_V = Some v, rp_W = Some w,
               rp_S = Some s, rp_S1 = Some (e * x + rr_alpha rr), rp_S2 = Some (e * rr_rho rr + rr_rhoBar rr),
               rp_T1 = Some (e * y + rr_gamma rr), rp_T2 = Some (e * rr_sigma rr + rr_delta rr)\<rparr>, tp)))) = Ok (p, rest)"
    using p unfolding MtARespZKProofProve_def Let_def by (auto split: prod.splits)
  define e where "e = SetBytes (sha (sha_input [z, zBar, t, v, w, c1, c2, pk_N pk])) mod cN E"
  define s where "s = (pw (pk_N pk) r e * rr_beta rr) mod pk_N pk"
  have e0: "0 \<le> e" using wf(3) by (simp add: e_def)
  have sha: "Sha512_256 sha [z, zBar, t, v, w, c1, c2, pk_N pk] = Some (SetBytes (sha (sha_input [z, zBar, t, v, w, c1, c2, pk_N pk])))"
    by (simp add: Sha512_256_def)
  have "exp1 r e (rr_beta rr) (pk_N pk) = Ok s" using n e0 by (simp add: exp1_Ok s_def)
  then have p': "p = \<lparr>rp_Z = Some z, rp_ZBar = Some zBar, rp_T = Some t, rp_V = Some v, rp_W = Some w,
      rp_S = Some s, rp_S1 = Some (e * x + rr_alpha rr), rp_S2 = Some (e * rr_rho rr + rr_rhoBar rr),
      rp_T1 = Some (e * y + rr_gamma rr), rp_T2 = Some (e * rr_sigma rr + rr_delta rr)\<rparr>"
    using pr sha wf(3) by (simp flip: e_def)
  note ck = resp_checks_eq [OF wf(1,2) resp_commits_range [OF wf(1,2) cop(1) cm] cop(2,3) _ p', of E]
  note eqs = resp_equations_hold [OF wf(1,2) c2 e0 cm s_def]
  have "s < pk_N pk" using n by (simp add: s_def)
  then show ?thesis
    unfolding MtARespZKProofVerify_def using ck eqs sha wf(3) by (simp add: p' flip: e_def)
qed

text \<open>The challenge of the proof with check, recomputed from the proof and the public points.\<close>

definition awc_challenge :: "Curve \<Rightarrow> (byte list \<Rightarrow> byte list) \<Rightarrow> int \<times> int \<Rightarrow> MtAwcRespZKProof \<Rightarrow> int \<Rightarrow> int \<Rightarrow> PublicKey \<Rightarrow> int" where
  "awc_challenge E sha X p c1 c2 pk =
     SetBytes (sha (sha_input [the (rw_Ux p), the (rw_Uy p), fst X, snd X, the (rp_Z (rw_resp p)), the (rp_ZBar (rw_resp p)),
       the (rp_T (rw_resp p)), the (rp_V (rw_resp p)), the (rp_W (rw_resp p)), c1, c2, pk_N pk])) mod cN E"

text \<open>No point of the check on the curve is the neutral element, and no addition meets equal points.\<close>

definition awc_regular :: "Curve \<Rightarrow> int \<Rightarrow> int \<Rightarrow> int \<Rightarrow> bool" where
  "awc_regular E x e S1 \<longleftrightarrow> e \<noteq> 0 \<and> S1 mod cN E \<noteq> 0 \<and> (S1 - e * x) mod cN E \<noteq> 0 \<and> (S1 - 2 * (e * x)) mod cN E \<noteq> 0"

lemma awc_curve_check_ok:
  assumes E: "ec_laws E" and x: "0 < x" "x < cN E" and e: "0 \<le> e" "e < cN E"
    and reg: "awc_regular E x e (e * x + alpha)"
  shows "awc_curve_check E (Some (mulG E x)) (Some (mulG E (alpha mod cN E))) e (e * x + alpha) = Ok True"
proof -
  let ?n = "cN E"
  note L = ec_lawsD [OF E]
  have n: "0 < ?n" using x by simp
  have r: "0 < b mod ?n \<and> b mod ?n < ?n" if "b mod ?n \<noteq> 0" for b
    using that n pos_mod_sign [of ?n b] pos_mod_bound [of ?n b] by linarith
  have al: "alpha mod ?n \<noteq> 0" and s: "(e * x + alpha) mod ?n \<noteq> 0" and d: "(alpha - e * x) mod ?n \<noteq> 0"
    and e0: "0 < e" using reg e by (auto simp: awc_regular_def)
  have ex: "0 < e * x mod ?n" "e * x mod ?n < ?n" using prime_mult_range [OF L(4) e0 e(2) x] by auto
  have a: "0 < alpha mod ?n" "alpha mod ?n < ?n" using r [OF al] by auto
  have "e * x mod ?n \<noteq> alpha mod ?n"
  proof
    assume "e * x mod ?n = alpha mod ?n"
    then have "?n dvd alpha - e * x" by (metis mod_eq_dvd_iff)
    then show False using d by (simp add: dvd_eq_mod_eq_0)
  qed
  moreover have "e * x mod ?n + alpha mod ?n \<noteq> ?n"
  proof
    assume "e * x mod ?n + alpha mod ?n = ?n"
    then have "(e * x mod ?n + alpha mod ?n) mod ?n = 0" by simp
    then show False using s by (simp add: mod_simps)
  qed
  ultimately have "Add E (Some (mulG E (e * x mod ?n))) (Some (mulG E (alpha mod ?n))) =
      Ok (Some (mulG E ((e * x mod ?n + alpha mod ?n) mod ?n)))"
    by (intro Add_mulG [OF E] ex a)
  moreover have "ScalarMult E (Some (mulG E x)) (Bytes e) = Ok (Some (mulG E (e * x mod ?n)))"
    using ScalarMult_mulG [OF E x e0 e(2)] by (simp add: mult.commute)
  moreover have "ScalarBaseMult E (Bytes ((e * x + alpha) mod ?n)) = Ok (Some (mulG E ((e * x + alpha) mod ?n)))"
    using r [OF s] by (intro ScalarBaseMult_mulG [OF E]) auto
  moreover have "\<not> (e * x + alpha) mod ?n < 0" using n by (simp add: not_less)
  moreover have "IsOnCurve E (fst (mulG E ((e * x + alpha) mod ?n))) (snd (mulG E ((e * x + alpha) mod ?n)))"
    using r [OF s] by (intro L(12)) auto
  ultimately show ?thesis
    unfolding awc_curve_check_def using n by (simp add: Let_def mod_simps case_prod_unfold)
qed

lemma MtAwc_verify:
  assumes wf: "wf_pk pk" "wf_nt nt" "ec_laws E" and x: "0 < x" "x < cN E" and c2: "resp_cipher pk c1 c2 x y r"
    and p: "MtAwcRespZKProofProve E sha x y r c1 c2 pk nt tape = Ok (p, rest)"
    and reg: "awc_regular E x (awc_challenge E sha (mulG E x) p c1 c2 pk) (the (rp_S1 (rw_resp p)))"
  shows "MtAwcRespZKProofVefify E sha (Some p) (pair_slice (Some (mulG E x))) (Some c1) (Some c2) (Some pk) (Some nt) =
    Ok (resp_nontrivial E (rw_resp p) c1 c2 pk nt)"
proof -
  let ?q = "cN E"
  have q: "0 < ?q" using x by simp
  have cop: "coprime c1 (pk_N2 pk)" "c1 < pk_N2 pk" "c2 < pk_N2 pk" using c2 by (auto simp: resp_cipher_def)
  have n: "0 < pk_N pk" using wf(1) by (simp add: wf_pk_def)
  have xm: "x mod ?q = x" "\<not> x < 0" using x by auto
  have X: "ScalarBaseMult E (Bytes x) = Ok (Some (mulG E x))" by (rule ScalarBaseMult_mulG [OF wf(3) x])
  obtain rr tp u z zBar t v w where cm: "resp_commits x y c1 pk nt rr = Ok (z, zBar, t, v, w)"
    and u: "ScalarBaseMult E (Bytes (rr_alpha rr mod ?q)) = Ok u"
    and pr: "bindr (sha_call sha (pair_slice u @ pair_slice (Some (mulG E x)) @ map Some [z, zBar, t, v, w, c1, c2, pk_N pk])) (\<lambda>e.
     bindr (Mod e ?q) (\<lambda>e.
     bindr (exp1 r e (rr_beta rr) (pk_N pk)) (\<lambda>s.
       Ok (\<lparr>rw_Ux = map_option fst u, rw_Uy = map_option snd u,
            rw_resp = \<lparr>rp_Z = Some z, rp_ZBar = Some zBar, rp_T = Some t, rp_V = Some v, rp_W = Some w,
               rp_S = Some s, rp_S1 = Some (e * x + rr_alpha rr), rp_S2 = Some (e * rr_rho rr + rr_rhoBar rr),
               rp_T1 = Some (e * y + rr_gamma rr), rp_T2 = Some (e * rr_sigma rr + rr_delta rr)\<rparr>\<rparr>, tp)))) = Ok (p, rest)"
    using p q xm X unfolding MtAwcRespZKProofProve_def Let_def by (auto split: prod.splits)
  obtain U where U: "u = Some U" using pr by (cases u) (auto simp: sha_call_def pair_slice_def)
  define e where "e = SetBytes (sha (sha_input [fst U, snd U, fst (mulG E x), snd (mulG E x), z, zBar, t, v, w, c1, c2, pk_N pk])) mod ?q"
  define s where "s = (pw (pk_N pk) r e * rr_beta rr) mod pk_N pk"
  have e0: "0 \<le> e" "e < ?q" using q by (simp_all add: e_def)
  have sha: "sha_call sha (map Some [fst U, snd U, fst (mulG E x), snd (mulG E x), z, zBar, t, v, w, c1, c2, pk_N pk]) =
      Ok (SetBytes (sha (sha_input [fst U, snd U, fst (mulG E x), snd (mulG E x), z, zBar, t, v, w, c1, c2, pk_N pk])))"
    by (rule sha_call_Some) simp
  have "exp1 r e (rr_beta rr) (pk_N pk) = Ok s" using n e0 by (simp add: exp1_Ok s_def)
  then have p': "p = \<lparr>rw_Ux = Some (fst U), rw_Uy = Some (snd U),
      rw_resp = \<lparr>rp_Z = Some z, rp_ZBar = Some zBar, rp_T = Some t, rp_V = Some v, rp_W = Some w,
      rp_S = Some s, rp_S1 = Some (e * x + rr_alpha rr), rp_S2 = Some (e * rr_rho rr + rr_rhoBar rr),
      rp_T1 = Some (e * y + rr_gamma rr), rp_T2 = Some (e * rr_sigma rr + rr_delta rr)\<rparr>\<rparr>"
    using pr sha q by (simp add: U flip: e_def)
  have reg': "awc_regular E x e (e * x + rr_alpha rr)"
    using reg by (simp add: p' awc_challenge_def e_def)
  have "rr_alpha rr mod ?q \<noteq> 0" using reg' by (simp add: awc_regular_def)
  then have "0 < rr_alpha rr mod ?q" "rr_alpha rr mod ?q < ?q"
    using q pos_mod_sign [of ?q "rr_alpha rr"] pos_mod_bound [of ?q "rr_alpha rr"] by linarith+
  then have "U = mulG E (rr_alpha rr mod ?q)" using u U ScalarBaseMult_mulG [OF wf(3)] by simp
  then have cc: "awc_curve_check E (Some (mulG E x)) (Some U) e (e * x + rr_alpha rr) = Ok True"
    using awc_curve_check_ok [OF wf(3) x e0 reg'] by simp
  have "s < pk_N pk" using n by (simp add: s_def)
  note ck = resp_checks_eq [OF wf(1,2) resp_commits_range [OF wf(1,2) cop(1) cm] cop(2,3) this refl, of E]
  note eqs = resp_equations_hold [OF wf(1,2) c2 e0(1) cm s_def]
  have pairs: "slice_pair [Some a, Some b] = Ok (Some (a, b))" for a b
    by (simp add: slice_pair_def slice_get_def)
  show ?thesis
    unfolding MtAwcRespZKProofVefify_def
    using ck eqs sha q cc checkPointOnCurve_mulG [OF wf(3) x] by (simp add: p' Let_def pairs flip: e_def)
qed

section \<open>The proofs as instances of the interface\<close>

definition range_instance :: "Curve \<Rightarrow> (byte list \<Rightarrow> byte list) \<Rightarrow> int \<times> PublicKey \<times> NtildeH1H2 \<Rightarrow> int \<times> int \<Rightarrow> tape \<Rightarrow> bool" where
  "range_instance E sha X W tape \<longleftrightarrow>
     (case (X, W) of ((c, pk, nt), (m, r)) \<Rightarrow>
        wf_pk pk \<and> wf_nt nt \<and> 0 < cN E \<and> cipher_of pk c m r \<and>
        (\<forall>p rest. MtARangeProofProve E sha c m r pk nt tape = Ok (p, rest) \<longrightarrow> range_nontrivial E p c pk nt))"

lemma MtARange_verify:
  assumes "wf_pk pk" "wf_nt nt" "0 < cN E" "cipher_of pk c m r"
    and "MtARangeProofProve E sha c m r pk nt tape = Ok (p, rest)"
  shows "MtARangeProofVerify E sha (Some p) (Some c) (Some pk) (Some nt) = Ok (range_nontrivial E p c pk nt)"
  using assms range_verify by (auto simp: MtARangeProofProve_def Let_def split: prod.splits)

interpretation mta_range: zk_proof
  "\<lambda>(c, pk, nt) (m, r). MtARangeProofProve E sha c m r pk nt"
  "\<lambda>(c, pk, nt) p. MtARangeProofVerify E sha (Some p) (Some c) (Some pk) (Some nt)" "range_instance E sha"
  for E :: Curve and sha :: "byte list \<Rightarrow> byte list"
proof (unfold_locales, goal_cases)
  case (1 x w tape p rest)
  then show ?case using MtARange_verify by (cases x; cases w) (auto simp: range_instance_def)
qed

definition resp_instance :: "Curve \<Rightarrow> (byte list \<Rightarrow> byte list) \<Rightarrow> int \<times> int \<times> PublicKey \<times> NtildeH1H2 \<Rightarrow>
    int \<times> int \<times> int \<Rightarrow> tape \<Rightarrow> bool" where
  "resp_instance E sha X W tape \<longleftrightarrow>
     (case (X, W) of ((c1, c2, pk, nt), (x, y, r)) \<Rightarrow>
        wf_pk pk \<and> wf_nt nt \<and> 0 < cN E \<and> resp_cipher pk c1 c2 x y r \<and>
        (\<forall>p rest. MtARespZKProofProve E sha x y r c1 c2 pk nt tape = Ok (p, rest) \<longrightarrow> resp_nontrivial E p c1 c2 pk nt))"

interpretation mta_resp: zk_proof
  "\<lambda>(c1, c2, pk, nt) (x, y, r). MtARespZKProofProve E sha x y r c1 c2 pk nt"
  "\<lambda>(c1, c2, pk, nt) p. MtARespZKProofVerify E sha (Some p) (Some c1) (Some c2) (Some pk) (Some nt)" "resp_instance E sha"
  for E :: Curve and sha :: "byte list \<Rightarrow> byte list"
proof (unfold_locales, goal_cases)
  case (1 x w tape p rest)
  then show ?case using MtAResp_verify by (cases x; cases w) (auto simp: resp_instance_def)
qed

text \<open>The ciphertext that the responder builds with the homomorphic operations.\<close>

lemma resp_cipher_homo:
  assumes wf: "wf_pk pk" and c1: "coprime c1 (pk_N2 pk)" "c1 < pk_N2 pk"
    and m: "HomoMul (Some pk) (Some c1) (Some x) = Some c1x" and y: "Encrypt pk (Some y) tape = Ok ((cy, r), rest)"
    and a: "HomoAdd (Some pk) (Some c1x) (Some cy) = Ok (Some c2)"
  shows "resp_cipher pk c1 c2 x y r"
proof -
  have N2: "0 < pk_N2 pk" using wf by (auto simp: wf_pk_def)
  have "c1x = pw (pk_N2 pk) c1 x" using m Exp_pw [OF N2 c1(1)] by (simp add: HomoMul_def)
  moreover have "c2 = (c1x * cy) mod pk_N2 pk" using a N2 by (simp add: HomoAdd_def)
  moreover have "eqm (pk_N2 pk) cy (pw (pk_N2 pk) (pk_G pk) y * pw (pk_N2 pk) r (pk_N pk))"
    using Encrypt_cipher_of [OF wf y] by (simp add: cipher_of_def)
  ultimately show ?thesis using c1 N2 by (simp add: resp_cipher_def eqm_mult)
qed

lemma wf_pk_keys: "paillier_keys pk sk p q \<Longrightarrow> wf_pk pk"
  using paillier_keys_pos by (auto simp: paillier_keys_def wf_pk_def)

lemma encrypts_coprime: "0 < n \<Longrightarrow> encrypts n c m \<Longrightarrow> coprime c (n * n)"
proof -
  assume n: "0 < n" and e: "encrypts n c m"
  then obtain r where r: "coprime r n" and c: "eqm (n * n) c ((1 + m * n) * r ^ nat n)" by (auto simp: encrypts_def)
  have "n dvd c - (1 + m * n) * r ^ nat n" using c by (auto simp: eqm_def intro: dvd_trans)
  then have "eqm n c ((1 + m * n) * r ^ nat n)" by (simp add: eqm_def)
  moreover have "eqm n ((1 + m * n) * r ^ nat n) (1 * r ^ nat n)" by (intro eqm_mult) (simp_all add: eqm_def)
  ultimately have "eqm n c (r ^ nat n)" using eqm_trans by fastforce
  then have "gcd c n = gcd (r ^ nat n) n" by (metis eqm_mod_iff gcd.commute gcd_red_int)
  moreover have "gcd (r ^ nat n) n = 1" using r by simp
  ultimately show ?thesis by (simp add: coprime_iff_gcd_eq_1 [symmetric])
qed

section \<open>Properties\<close>

text \<open>C35: the initiator's range proof is complete: the verifier of \<^verbatim>\<open>MtARangeProof\<close> accepts the proof
  for the ciphertext of \<open>m\<close> exactly when the bound on \<^verbatim>\<open>S1\<close> holds and none of the tested values is
  trivial; its two equations always hold.\<close>

theorem MtARange_complete:
  assumes "wf_pk pk" "wf_nt nt" "0 < cN E" "Encrypt pk (Some m) tape = Ok ((c, r), tape')"
    and "MtARangeProofProve E sha c m r pk nt tape' = Ok (p, rest)"
  shows "MtARangeProofVerify E sha (Some p) (Some c) (Some pk) (Some nt) = Ok (range_nontrivial E p c pk nt)"
  using MtARange_verify [OF assms(1-3) Encrypt_cipher_of [OF assms(1,4)] assms(5)] .

definition toy_sha :: "byte list \<Rightarrow> byte list" where
  "toy_sha bs = [3]"

lemma toy_wf: "wf_pk toy_pk" "wf_nt toy_nt" "0 < cN toy_curve"
proof -
  have "gcd (4::int) 35 = 1" "gcd (9::int) 35 = 1" by code_simp+
  then show "wf_nt toy_nt" by (simp add: wf_nt_def toy_nt_def coprime_iff_gcd_eq_1)
qed (simp_all add: wf_pk_def toy_pk_def toy_curve_def)

theorem MtARange_complete_witness:
  "MtARangeProofVerify toy_curve toy_sha (Some \<lparr>ra_Z = Some 9, ra_U = Some 432, ra_W = Some 9, ra_S = Some 24,
      ra_S1 = Some 1030, ra_S2 = Some 71204\<rparr>) (Some 193) (Some toy_pk) (Some toy_nt) = Ok True"
proof -
  have "Encrypt toy_pk (Some 10) [2, 1000, 3, 70001, 401] = Ok ((193, 2), [1000, 3, 70001, 401])"
    "MtARangeProofProve toy_curve toy_sha 193 10 2 toy_pk toy_nt [1000, 3, 70001, 401] =
      Ok (\<lparr>ra_Z = Some 9, ra_U = Some 432, ra_W = Some 9, ra_S = Some 24, ra_S1 = Some 1030, ra_S2 = Some 71204\<rparr>, [])"
    by code_simp+
  moreover have "range_nontrivial toy_curve \<lparr>ra_Z = Some 9, ra_U = Some 432, ra_W = Some 9, ra_S = Some 24,
      ra_S1 = Some 1030, ra_S2 = Some 71204\<rparr> 193 toy_pk toy_nt"
    by (simp add: range_nontrivial_def range_regular_def N3_def toy_curve_def toy_pk_def toy_nt_def)
  ultimately show ?thesis using MtARange_complete [OF toy_wf] by simp
qed

text \<open>C35: the verifier bounds \<^verbatim>\<open>S1\<close> only from above: for every plaintext \<open>C40: m \<le> 0\<close>, however large its
  absolute value, the bound is satisfied and the proof is accepted when its values are not trivial,
  although the proof is documented to convince the verifier that \<open>m\<close> is in \<open>[-q^3, q^3]\<close>.\<close>

theorem MtARange_no_lower_bound:
  assumes "wf_pk pk" "wf_nt nt" "0 < cN E" "Encrypt pk (Some m) tape = Ok ((c, r), tape')"
    and "MtARangeProofProve E sha c m r pk nt tape' = Ok (p, rest)" "m \<le> 0"
  shows "MtARangeProofVerify E sha (Some p) (Some c) (Some pk) (Some nt) = Ok (range_regular p c pk nt)"
proof -
  obtain alpha t1 beta t2 gamma t3 rho where al: "GetRandomIntFromZn (N3 E) tape' = Ok (alpha, t1)"
    and core: "range_core E sha c m r pk nt alpha beta gamma rho = Ok p"
    using assms(5) by (auto simp: MtARangeProofProve_def Let_def split: prod.splits)
  obtain e where "0 \<le> e" "the (ra_S1 p) = e * m + alpha"
  proof
    show "0 \<le> SetBytes (sha (sha_input [the (ra_Z p), the (ra_U p), the (ra_W p), c, pk_N pk])) mod cN E"
      using assms(3) by simp
    show "the (ra_S1 p) = SetBytes (sha (sha_input [the (ra_Z p), the (ra_U p), the (ra_W p), c, pk_N pk])) mod cN E * m + alpha"
      using core range_core_eq [OF assms(1-3), of sha c m r alpha beta gamma rho] by auto
  qed
  moreover have "alpha < N3 E" using GetRandomIntFromZn_range [OF al] by simp
  moreover have "e * m \<le> 0" using calculation(1) assms(6) by (simp add: mult_nonneg_nonpos)
  ultimately have "the (ra_S1 p) \<le> N3 E" by simp
  then show ?thesis
    using MtARange_verify [OF assms(1-3) Encrypt_cipher_of [OF assms(1,4)] assms(5)]
    by (simp add: range_nontrivial_def)
qed

theorem MtARange_no_lower_bound_witness:
  "-5000 < - N3 toy_curve \<and>
   MtARangeProofVerify toy_curve toy_sha (Some \<lparr>ra_Z = Some 9, ra_U = Some 432, ra_W = Some 9, ra_S = Some 24,
      ra_S1 = Some (- 14000), ra_S2 = Some 71204\<rparr>) (Some 718) (Some toy_pk) (Some toy_nt) = Ok True"
proof -
  have "Encrypt toy_pk (Some (-5000)) [2, 1000, 3, 70001, 401] = Ok ((718, 2), [1000, 3, 70001, 401])"
    "MtARangeProofProve toy_curve toy_sha 718 (-5000) 2 toy_pk toy_nt [1000, 3, 70001, 401] =
      Ok (\<lparr>ra_Z = Some 9, ra_U = Some 432, ra_W = Some 9, ra_S = Some 24, ra_S1 = Some (- 14000), ra_S2 = Some 71204\<rparr>, [])"
    by code_simp+
  moreover have "range_regular \<lparr>ra_Z = Some 9, ra_U = Some 432, ra_W = Some 9, ra_S = Some 24,
      ra_S1 = Some (- 14000), ra_S2 = Some 71204\<rparr> 718 toy_pk toy_nt"
    by (simp add: range_regular_def toy_pk_def toy_nt_def)
  moreover have "-5000 < - N3 toy_curve" by (simp add: N3_def toy_curve_def)
  ultimately show ?thesis using MtARange_no_lower_bound [OF toy_wf] by simp
qed

text \<open>C36: the whole conversion: the initiator encrypts \<open>k\<close>, the responder multiplies the ciphertext by
  \<open>x\<close>, adds the ciphertext of \<open>y\<close> and proves it; the proof is accepted (up to the triviality tests),
  and the decryption minus \<open>y\<close> is the product \<open>x * k\<close> modulo every group order \<open>n\<close>, when
  \<open>x * k + y\<close> is below the Paillier modulus.\<close>

theorem MtA_conversion:
  assumes "GenerateKeyPair len ch = (ch', Ok (Some (pk, sk, P, Q)))" "is_prime P" "is_prime Q" "P \<noteq> Q"
    and "wf_nt nt" "0 < cN E"
    and "Encrypt pk (Some k) t0 = Ok ((c1, r1), t1)" "HomoMul (Some pk) (Some c1) (Some x) = Some c1x"
    and "Encrypt pk (Some y) t1 = Ok ((cy, r), t2)" "HomoAdd (Some pk) (Some c1x) (Some cy) = Ok (Some c2)"
    and "MtARespZKProofProve E sha x y r c1 c2 pk nt t2 = Ok (p, rest)"
    and "0 \<le> x" "0 \<le> k" "0 \<le> y" "x * k + y < pk_N pk"
  shows "MtARespZKProofVerify E sha (Some p) (Some c1) (Some c2) (Some pk) (Some nt) = Ok (resp_nontrivial E p c1 c2 pk nt) \<and>
    (\<exists>alpha. Decrypt (Some sk) (Some c2) = Ok alpha \<and> (alpha + (- y)) mod n = (x * k) mod n)"
proof -
  have kp: "paillier_keys pk sk P Q" by (rule GenerateKeyPair_keys [OF assms(1-4)])
  note pos = paillier_keys_pos [OF kp]
  have N: "pk_N pk = P * Q" "pk_N2 pk = P * Q * (P * Q)" using kp by (auto simp: paillier_keys_def)
  have le: "k \<le> P * Q" "y \<le> P * Q" using assms(7,9) N by (auto simp: Encrypt_def split: if_splits)
  have e1: "encrypts (P * Q) c1 k" and ey: "encrypts (P * Q) cy y"
    using Encrypt_encrypts [OF kp] le assms(7,9) by auto
  have "resp_cipher pk c1 c2 x y r"
    using encrypts_coprime [OF _ e1] e1 pos N
    by (intro resp_cipher_homo [OF wf_pk_keys [OF kp] _ _ assms(8,9,10)]) (auto simp: encrypts_def)
  moreover have "\<exists>alpha. Decrypt (Some sk) (Some c2) = Ok alpha \<and> (alpha + (- y)) mod n = (x * k) mod n"
    using paillier.additive_shares [of "(pk, sk, P, Q)" c1 k cy y x n] kp e1 ey assms(8,10,12-15) N by auto
  ultimately show ?thesis using MtAResp_verify [OF wf_pk_keys [OF kp] assms(5,6) _ assms(11)] by simp
qed

theorem MtA_conversion_witness:
  "\<exists>alpha. Decrypt (Some toy_sk) (Some 171) = Ok alpha \<and> (alpha + (- 7)) mod 13 = (5 * 4) mod 13"
proof -
  let ?p = "\<lparr>rp_Z = Some 4, rp_ZBar = Some 9, rp_T = Some 16, rp_V = Some 587, rp_W = Some 29, rp_S = Some 11,
    rp_S1 = Some 1015, rp_S2 = Some 71201, rp_T1 = Some 25, rp_T2 = Some 1606\<rparr>"
  have "Encrypt toy_pk (Some 4) [2, 3, 1000, 400, 70001, 401, 3, 4, 403] = Ok ((88, 2), [3, 1000, 400, 70001, 401, 3, 4, 403])"
    "HomoMul (Some toy_pk) (Some 88) (Some 5) = Some 793"
    "Encrypt toy_pk (Some 7) [3, 1000, 400, 70001, 401, 3, 4, 403] = Ok ((1097, 3), [1000, 400, 70001, 401, 3, 4, 403])"
    "HomoAdd (Some toy_pk) (Some 793) (Some 1097) = Ok (Some 171)"
    "MtARespZKProofProve toy_curve toy_sha 5 7 3 88 171 toy_pk toy_nt [1000, 400, 70001, 401, 3, 4, 403] = Ok (?p, [])"
    by code_simp+
  from MtA_conversion [OF toy_GenerateKeyPair toy_primes _ toy_wf(2,3) this, of 13] show ?thesis
    by (simp add: toy_pk_def)
qed

text \<open>The responder's proof with check is complete: for a ciphertext built with the multiplier \<open>x\<close>
  and the public point \<open>x * G\<close>, the proof is accepted up to the bound and triviality tests, when the
  points of the check are not degenerate.\<close>

theorem MtAwc_complete:
  assumes "wf_pk pk" "wf_nt nt" "ec_laws E" "0 < x" "x < cN E" "coprime c1 (pk_N2 pk)" "c1 < pk_N2 pk"
    and "HomoMul (Some pk) (Some c1) (Some x) = Some c1x" "Encrypt pk (Some y) tape = Ok ((cy, r), tape')"
    and "HomoAdd (Some pk) (Some c1x) (Some cy) = Ok (Some c2)"
    and "MtAwcRespZKProofProve E sha x y r c1 c2 pk nt tape' = Ok (p, rest)"
    and "awc_regular E x (awc_challenge E sha (mulG E x) p c1 c2 pk) (the (rp_S1 (rw_resp p)))"
  shows "MtAwcRespZKProofVefify E sha (Some p) (pair_slice (Some (mulG E x))) (Some c1) (Some c2) (Some pk) (Some nt) =
    Ok (resp_nontrivial E (rw_resp p) c1 c2 pk nt)"
  by (rule MtAwc_verify [OF assms(1-5) resp_cipher_homo [OF assms(1,6-10)] assms(11,12)])

theorem MtAwc_complete_witness:
  "MtAwcRespZKProofVefify toy_curve toy_sha (Some \<lparr>rw_Ux = Some 1, rw_Uy = Some 5,
      rw_resp = \<lparr>rp_Z = Some 4, rp_ZBar = Some 9, rp_T = Some 16, rp_V = Some 587, rp_W = Some 29, rp_S = Some 11,
        rp_S1 = Some 1015, rp_S2 = Some 71201, rp_T1 = Some 25, rp_T2 = Some 1606\<rparr>\<rparr>)
      (pair_slice (Some (mulG toy_curve 5))) (Some 88) (Some 171) (Some toy_pk) (Some toy_nt) = Ok True"
proof -
  let ?p = "\<lparr>rw_Ux = Some 1, rw_Uy = Some 5,
      rw_resp = \<lparr>rp_Z = Some 4, rp_ZBar = Some 9, rp_T = Some 16, rp_V = Some 587, rp_W = Some 29, rp_S = Some 11,
        rp_S1 = Some 1015, rp_S2 = Some 71201, rp_T1 = Some 25, rp_T2 = Some 1606\<rparr>\<rparr>"
  have ev: "HomoMul (Some toy_pk) (Some 88) (Some 5) = Some 793"
    "Encrypt toy_pk (Some 7) [3, 1000, 400, 70001, 401, 3, 4, 403] = Ok ((1097, 3), [1000, 400, 70001, 401, 3, 4, 403])"
    "HomoAdd (Some toy_pk) (Some 793) (Some 1097) = Ok (Some 171)"
    "MtAwcRespZKProofProve toy_curve toy_sha 5 7 3 88 171 toy_pk toy_nt [1000, 400, 70001, 401, 3, 4, 403] = Ok (?p, [])"
    by code_simp+
  have "gcd (88::int) 1225 = 1" by code_simp
  then have cop: "coprime 88 (pk_N2 toy_pk)" by (simp add: toy_pk_def coprime_iff_gcd_eq_1)
  have reg: "awc_regular toy_curve 5 (awc_challenge toy_curve toy_sha (mulG toy_curve 5) ?p 88 171 toy_pk) (the (rp_S1 (rw_resp ?p)))"
    by (simp add: awc_regular_def awc_challenge_def toy_sha_def toy_curve_def)
  have "resp_nontrivial toy_curve (rw_resp ?p) 88 171 toy_pk toy_nt"
    by (simp add: resp_nontrivial_def N3_def toy_curve_def toy_pk_def toy_nt_def)
  then show ?thesis
    using MtAwc_complete [OF toy_wf(1,2) toy_curve_laws _ _ cop _ ev reg]
    by (simp add: toy_curve_def toy_pk_def del: pair_slice_Some)
qed

end
