(* ===== verification/Ecdsa.thy ===== *)
theory Ecdsa
  imports Vss2
begin

text \<open>
  \<^verbatim>\<open>smpc-lib/smpc/common.go\<close> and the end of the signing request in \<^verbatim>\<open>smpc/reqsign.go\<close>: verification
  of an ECDSA signature, the recovery identifier, the choice of the smaller \<open>s\<close> and the text form of
  a signature.  The C functions behind \<^verbatim>\<open>Get_ecdsa_sign_v\<close> and \<^verbatim>\<open>RecoverPubkey\<close> are arguments.
\<close>

section \<open>Verification\<close>

text \<open>\<^verbatim>\<open>SetString(s, 16)\<close>\<close>

fun parse_hex :: "nat \<Rightarrow> string \<Rightarrow> nat option" where
  "parse_hex acc [] = Some acc"
| "parse_hex acc (c # cs) =
     (case hex_val c of None \<Rightarrow> None | Some d \<Rightarrow> parse_hex (16 * acc + d) cs)"

definition SetString16 :: "string \<Rightarrow> int option" where
  "SetString16 s =
     (case s of
        [] \<Rightarrow> None
      | c # cs \<Rightarrow>
          if c = CHR ''-'' then (if cs = [] then None else map_option (\<lambda>n. - int n) (parse_hex 0 cs))
          else if c = CHR ''+'' then (if cs = [] then None else map_option int (parse_hex 0 cs))
          else map_option int (parse_hex 0 s))"

definition IsInfinityPoint :: "int option \<Rightarrow> int option \<Rightarrow> bool" where
  "IsInfinityPoint x y =
     (case (x, y) of (Some x, Some y) \<Rightarrow> x = 0 \<and> y \<noteq> 0 | _ \<Rightarrow> False)"

definition smpc_Verify2 :: "Curve \<Rightarrow> int option \<Rightarrow> int option \<Rightarrow> int \<Rightarrow> string \<Rightarrow> int option \<Rightarrow> int option \<Rightarrow> bool res" where
  "smpc_Verify2 E r s v message pkx pky =
     (case (r, s, pkx, pky) of
        (Some r, Some s, Some pkx, Some pky) \<Rightarrow>
          if message = [] then Ok False
          else if \<not> IsOnCurve E pkx pky then Ok False
          else if IsInfinityPoint (Some pkx) (Some pky) then Ok False
          else
            let nSubOne = cN E - 1
            in if r < 1 \<or> nSubOne < r then Ok False
               else if s < 1 \<or> nSubOne < s then Ok False
               else
                 (case ModInverse s (cN E) of
                    None \<Rightarrow> Ok False
                  | Some ss \<Rightarrow>
                      bindr (deref (SetString16 message)) (\<lambda>z.
                      let u1 = (z * ss) mod cN E;
                          u2 = (r * ss) mod cN E;
                          u1 = (if u1 < 0 then u1 + cP E else u1)
                      in bindr (ScalarBaseMult E (readBits u1 (replicate 32 0))) (\<lambda>ug.
                         let u2 = (if u2 < 0 then u2 + cP E else u2)
                         in bindr (ScalarMult E (Some (pkx, pky)) (readBits u2 (replicate 32 0))) (\<lambda>upk.
                            bindr (Add E ug upk) (\<lambda>xxx.
                            bindr (deref xxx) (\<lambda>(x, _).
                              let xR = x mod cN E in Ok (xR = r)))))))
      | _ \<Rightarrow> Ok False)"

definition DECDSASignVerifyRSV :: "Curve \<Rightarrow> int option \<Rightarrow> int option \<Rightarrow> int \<Rightarrow> string \<Rightarrow> int option \<Rightarrow> int option \<Rightarrow> bool res" where
  "DECDSASignVerifyRSV E r s v message pkx pky = smpc_Verify2 E r s v message pkx pky"

section \<open>The recovery identifier\<close>

text \<open>\<^verbatim>\<open>secp256.go\<close>: \<open>recover\<close> is \<^verbatim>\<open>secp256k1_ext_ecdsa_recover\<close>, which writes 65 bytes or fails.\<close>

definition checkSignature :: "byte list \<Rightarrow> unit res" where
  "checkSignature sig =
     (if length sig \<noteq> 65 then Err ''invalid signature length''
      else if 4 \<le> unat (sig ! 64) then Err ''invalid signature recovery id'' else Ok ())"

definition RecoverPubkey :: "(byte list \<Rightarrow> byte list \<Rightarrow> byte list option) \<Rightarrow> byte list \<Rightarrow> byte list \<Rightarrow> byte list res" where
  "RecoverPubkey recover msg sig =
     (if length msg \<noteq> 32 then Err ''invalid message length, need 32 bytes''
      else bindr (checkSignature sig) (\<lambda>_. ofOption ''recovery failed'' (recover sig msg)))"

text \<open>\<^verbatim>\<open>MathReadBits\<close> and \<^verbatim>\<open>ReadBits\<close> have the body of \<^verbatim>\<open>readBits\<close>.  \<open>copy(padded[32-len(scalar):], ...)\<close> panics
  for more than 32 bytes.\<close>

definition Get_ecdsa_sign_v :: "(byte list \<Rightarrow> byte list \<Rightarrow> int) \<Rightarrow> int \<Rightarrow> int \<Rightarrow> int res" where
  "Get_ecdsa_sign_v sign_v rx ry =
     (if 32 < length (Bytes rx) then Panic ''slice bounds out of range''
      else Ok (sign_v (readBits ry (replicate 32 0)) (pad32 (Bytes rx))))"

definition strip0x :: "string \<Rightarrow> string res" where
  "strip0x s =
     (if length s < 2 then Panic ''slice bounds out of range''
      else Ok (if take 2 s = ''0x'' then drop 2 s else s))"

fun recid_loop :: "(byte list \<Rightarrow> byte list \<Rightarrow> byte list option) \<Rightarrow> byte list \<Rightarrow> byte list \<Rightarrow> string \<Rightarrow> int \<Rightarrow> nat list \<Rightarrow> int res" where
  "recid_loop recover hashBytes rsvBytes1 pubkeyhex recid [] = Ok recid"
| "recid_loop recover hashBytes rsvBytes1 pubkeyhex recid (j # js) =
     (let pkr = RecoverPubkey recover hashBytes (rsvBytes1 @ [byte_of j]);
          pkr2 = EncodeToString (case pkr of Ok bs \<Rightarrow> bs | _ \<Rightarrow> [])
      in bindr (strip0x pkr2) (\<lambda>pkr2.
           if is_Ok pkr \<and> ToLower pkr2 = ToLower pubkeyhex then Ok (int j)
           else recid_loop recover hashBytes rsvBytes1 pubkeyhex recid js))"

definition DECDSASignCalcv :: "Curve \<Rightarrow> (byte list \<Rightarrow> byte list \<Rightarrow> int) \<Rightarrow> (byte list \<Rightarrow> byte list \<Rightarrow> byte list option) \<Rightarrow>
    int option \<Rightarrow> int option \<Rightarrow> int option \<Rightarrow> int option \<Rightarrow> int option \<Rightarrow> int option \<Rightarrow> byte list option \<Rightarrow> bool \<Rightarrow> int res" where
  "DECDSASignCalcv E sign_v recover r deltaGammaGy pkx pky R S hashBytes invert =
     (case (r, deltaGammaGy, pkx, pky, R, S, hashBytes) of
        (Some r, Some deltaGammaGy, Some pkx, Some pky, Some R, Some S, Some hashBytes) \<Rightarrow>
          bindr (Get_ecdsa_sign_v sign_v r deltaGammaGy) (\<lambda>recid.
          let recid = (if invert then (if even recid then recid + 1 else recid - 1) else recid);
              ys = Marshal E pkx pky
          in bindr (strip0x (EncodeToString ys)) (\<lambda>pubkeyhex.
             recid_loop recover hashBytes (Bytes R @ Bytes S) pubkeyhex recid [0..<4]))
      | _ \<Rightarrow> Ok (-1))"

section \<open>The signature\<close>

text \<open>The part of \<^verbatim>\<open>SignEC3\<close> that replaces \<open>s\<close> by the smaller of \<open>s\<close> and \<open>N - s\<close>.\<close>

definition justify_s :: "Curve \<Rightarrow> int \<Rightarrow> bool \<times> int" where
  "justify_s E s =
     (let halfN = cN E div 2 in if halfN < s then (True, cN E - s) else (False, s))"

definition hex_upper :: "nat \<Rightarrow> char" where
  "hex_upper d = (if d < 10 then char_of (48 + d) else char_of (55 + d))"

definition ToolDecimalByteSlice2HexString :: "byte list \<Rightarrow> string" where
  "ToolDecimalByteSlice2HexString bs =
     concat (map (\<lambda>v. [hex_upper (unat v div 16), hex_upper (unat v mod 16)]) bs)"

text \<open>The byte slice of \<^verbatim>\<open>GetSignString\<close>; \<^verbatim>\<open>byte(v)\<close> keeps the low eight bits.\<close>

definition sign_bytes :: "int \<Rightarrow> int \<Rightarrow> int \<Rightarrow> byte list" where
  "sign_bytes r s v =
     (let rr = Bytes r; sss = Bytes s; bv = word_of_int v
      in if length rr = 31 \<and> length sss = 32 then
           0 # readBits r (replicate 31 0) @ readBits s (replicate 32 0) @ [bv]
         else if length rr = 31 \<and> length sss = 31 then
           0 # readBits r (replicate 31 0) @ 0 # readBits s (replicate 31 0) @ [bv]
         else if length rr = 32 \<and> length sss = 31 then
           readBits r (replicate 32 0) @ 0 # readBits s (replicate 31 0) @ [bv]
         else readBits r (replicate (length rr) 0) @ readBits s (replicate (length sss) 0) @ [bv])"

definition GetSignString :: "int option \<Rightarrow> int option \<Rightarrow> int \<Rightarrow> string" where
  "GetSignString r s v =
     (case (r, s) of
        (Some r, Some s) \<Rightarrow> ToolDecimalByteSlice2HexString (sign_bytes r s v)
      | _ \<Rightarrow> [])"

section \<open>Lemmas\<close>

lemma readBits_32:
  assumes "0 \<le> k" "k < 2 ^ 256" shows "readBits k (replicate 32 0) = pad32 (Bytes k)"
proof (rule SetBytes_inj)
  show "SetBytes (readBits k (replicate 32 0)) = SetBytes (pad32 (Bytes k))"
    using assms by (simp add: SetBytes_readBits_32)
  show "length (readBits k (replicate 32 0)) = length (pad32 (Bytes k))"
    using length_pad32 [OF length_Bytes_32 [OF assms]] by simp
qed

lemma readBits_exact: "readBits k (replicate (length (Bytes k)) 0) = Bytes k"
proof (rule SetBytes_inj)
  have "\<bar>k\<bar> < 256 ^ length (Bytes k)" using SetBytes_less [of "Bytes k"] by simp
  then show "SetBytes (readBits k (replicate (length (Bytes k)) 0)) = SetBytes (Bytes k)"
    by (simp add: SetBytes_readBits)
qed simp

lemma pad32_pad32 [simp]: "length bs \<le> 32 \<Longrightarrow> pad32 (pad32 bs) = pad32 bs"
  by (simp add: pad32_def)

lemma ScalarMult_readBits:
  assumes "0 \<le> k" "k < 2 ^ 256"
  shows "ScalarMult E A (readBits k (replicate 32 0)) = ScalarMult E A (Bytes k)"
    and "ScalarBaseMult E (readBits k (replicate 32 0)) = ScalarBaseMult E (Bytes k)"
  using readBits_32 [OF assms] length_Bytes_32 [OF assms]
  by (simp_all add: ScalarBaseMult_def ScalarMult_def length_pad32)

text \<open>
  The equation of an ECDSA signature: \<open>s\<close> times the logarithm of the point whose abscissa is \<open>r\<close> is
  \<open>m + r * x\<close>.
\<close>

definition ecdsa_signature :: "Curve \<Rightarrow> int \<Rightarrow> int \<Rightarrow> int \<Rightarrow> int \<Rightarrow> int \<Rightarrow> bool" where
  "ecdsa_signature E x m \<rho> r s \<longleftrightarrow> 0 < s \<and> s < cN E \<and> 0 < \<rho> \<and> \<rho> < cN E \<and> r = fst (mulG E \<rho>) \<and> eqm (cN E) (s * \<rho>) (m + r * x)"

lemma ecdsa_signature_neg:
  assumes E: "ec_laws E" and s: "ecdsa_signature E x m \<rho> r s"
  shows "ecdsa_signature E x m (cN E - \<rho>) r (cN E - s)"
proof -
  have "eqm (cN E) ((cN E - s) * (cN E - \<rho>)) (s * \<rho>)"
  proof -
    have "(cN E - s) * (cN E - \<rho>) - s * \<rho> = cN E * (cN E - s - \<rho>)" by (simp add: algebra_simps)
    then show ?thesis by (simp add: eqm_def)
  qed
  then show ?thesis
    using s ec_lawsD(13) [OF E, of \<rho>] by (auto simp: ecdsa_signature_def intro: eqm_trans)
qed

lemma justify_s_signature:
  assumes "ec_laws E" "ecdsa_signature E x m \<rho> r s"
  obtains \<rho>' where "ecdsa_signature E x m \<rho>' r (snd (justify_s E s))"
  using assms ecdsa_signature_neg [OF assms] by (cases "cN E div 2 < s") (auto simp: justify_s_def Let_def)

text \<open>The multiples \<open>u1\<close> and \<open>u2\<close> of the verification.\<close>

lemma verify_scalars:
  assumes E: "ec_laws E" and sig: "ecdsa_signature E x m \<rho> r s" and x: "0 < x" "x < cN E" and r: "0 < r" "r < cN E"
    and m: "m mod cN E \<noteq> 0" "(m - r * x) mod cN E \<noteq> 0" and ss: "ModInverse s (cN E) = Some ss"
  defines "u1 \<equiv> m * ss mod cN E" and "u2 \<equiv> r * ss mod cN E"
  shows "0 < u1" "u1 < cN E" "0 < u2" "u2 < cN E"
    and "Add E (Some (mulG E u1)) (Some (mulG E (x * u2 mod cN E))) = Ok (Some (mulG E \<rho>))"
proof -
  let ?n = "cN E" let ?t = "x * u2 mod ?n"
  note L = ec_lawsD [OF E]
  have n: "1 < ?n" by (rule is_prime_gt_1 [OF L(4)])
  have g: "0 < \<rho>" "\<rho> < ?n" "eqm ?n (s * \<rho>) (m + r * x)" using sig by (auto simp: ecdsa_signature_def)
  have inv: "eqm ?n (s * ss) 1" by (rule ModInverse_eqm [OF _ ss]) (use n in simp)
  have ss_range: "0 \<le> ss" "ss < ?n" using ModInverse_Some [OF _ ss] n by auto
  have "ss \<noteq> 0" using inv n by (auto simp: eqm_mod_iff)
  then have ss0: "0 < ss" using ss_range by simp
  have nz: "0 < a * ss mod ?n \<and> a * ss mod ?n < ?n" if "a mod ?n \<noteq> 0" for a
  proof -
    have "a mod ?n * ss mod ?n = a * ss mod ?n" by (simp add: mod_mult_left_eq)
    moreover have "0 < a mod ?n" "a mod ?n < ?n"
      using that n pos_mod_sign [of ?n a] pos_mod_bound [of ?n a] by linarith+
    ultimately show ?thesis using prime_mult_range [OF L(4), of "a mod ?n" ss] ss0 ss_range by simp
  qed
  show u1: "0 < u1" "u1 < ?n" using nz [OF m(1)] by (auto simp: u1_def)
  show u2: "0 < u2" "u2 < ?n" using nz [of r] r by (auto simp: u2_def)
  have t: "0 < ?t" "?t < ?n" using prime_mult_range [OF L(4) x u2] by auto
  have e1: "eqm ?n u1 (m * ss)" "eqm ?n u2 (r * ss)" by (simp_all add: u1_def u2_def)
  have e2: "eqm ?n ?t (r * x * ss)"
    using eqm_trans [OF eqm_mod_self eqm_mult [OF eqm_refl [of ?n x] e1(2)]] by (simp add: algebra_simps)
  have "eqm ?n (u1 + ?t) ((m + r * x) * ss)" using eqm_add [OF e1(1) e2] by (simp add: algebra_simps)
  also have "eqm ?n \<dots> (s * \<rho> * ss)" by (rule eqm_mult [OF eqm_sym [OF g(3)] eqm_refl])
  also have "s * \<rho> * ss = \<rho> * (s * ss)" by simp
  also have "eqm ?n \<dots> (\<rho> * 1)" by (rule eqm_mult [OF eqm_refl inv])
  finally have sum: "(u1 + ?t) mod ?n = \<rho>" using g by (simp add: eqm_mod_iff)
  have "u1 \<noteq> ?t"
  proof
    assume "u1 = ?t"
    then have "eqm ?n (m * ss) (r * x * ss)" using e1(1) e2 by (metis eqm_sym eqm_trans)
    then have "eqm ?n ((m - r * x) * ss) 0" by (simp add: eqm_def algebra_simps)
    then show False using nz [OF m(2)] by (simp add: eqm_mod_iff)
  qed
  moreover have "u1 + ?t \<noteq> ?n" using sum g by auto
  ultimately show "Add E (Some (mulG E u1)) (Some (mulG E ?t)) = Ok (Some (mulG E \<rho>))"
    using Add_mulG [OF E u1 t] sum by simp
qed

lemma Verify2_signature:
  assumes E: "ec_laws E" and sig: "ecdsa_signature E x m \<rho> r s" and x: "0 < x" "x < cN E" "fst (mulG E x) \<noteq> 0"
    and r: "0 < r" "r < cN E" and m: "m mod cN E \<noteq> 0" "(m - r * x) mod cN E \<noteq> 0" "SetString16 message = Some m"
  shows "smpc_Verify2 E (Some r) (Some s) v message (Some (fst (mulG E x))) (Some (snd (mulG E x))) = Ok True"
proof -
  let ?n = "cN E"
  note L = ec_lawsD [OF E]
  have s: "0 < s" "s < ?n" "r = fst (mulG E \<rho>)" using sig by (auto simp: ecdsa_signature_def)
  have "gcd s ?n = 1" using prime_coprime [OF L(4), of s] s zdvd_not_zless [of s ?n] by (simp add: coprime_iff_gcd_eq_1 gcd.commute)
  then obtain ss where ss: "ModInverse s ?n = Some ss" using ModInverse_coprime [of ?n s] s by auto
  note V = verify_scalars [OF E sig x(1,2) r m(1,2) ss]
  have big: "0 \<le> u" "u < 2 ^ 256" if "0 < u" "u < ?n" for u using that L(5) by auto
  have "IsOnCurve E (fst (mulG E x)) (snd (mulG E x))" using L(12) x by blast
  moreover have "message \<noteq> []" using m(3) by (auto simp: SetString16_def)
  moreover have "ScalarBaseMult E (readBits (m * ss mod ?n) (replicate 32 0)) = Ok (Some (mulG E (m * ss mod ?n)))"
    using ScalarMult_readBits(2) [OF big [OF V(1,2)]] ScalarBaseMult_mulG [OF E V(1,2)] by simp
  moreover have "ScalarMult E (Some (mulG E x)) (readBits (r * ss mod ?n) (replicate 32 0)) =
      Ok (Some (mulG E (x * (r * ss mod ?n) mod ?n)))"
    using ScalarMult_readBits(1) [OF big [OF V(3,4)]] ScalarMult_mulG [OF E x(1,2) V(3,4)] by simp
  moreover have "r mod ?n = r" using r by simp
  ultimately show ?thesis
    using V(1,3,5) s r ss x(3) m(3)
    by (simp add: smpc_Verify2_def IsInfinityPoint_def Let_def case_prod_unfold)
qed

section \<open>Properties\<close>

text \<open>C30: a signature is accepted: when \<open>r\<close> is the abscissa of a point with logarithm \<open>\<rho>\<close> and
  \<open>s * \<rho> = m + r * x\<close> modulo the order, then \<^verbatim>\<open>Verify2\<close> accepts \<open>(r, s)\<close> for the key \<open>x * G\<close> and the
  hexadecimal text of \<open>m\<close>, and it accepts the pair with the smaller of \<open>s\<close> and \<open>N - s\<close> as well (unless
  \<open>m\<close> is zero modulo the order, or \<open>m = r * x\<close>, where the point addition of the code fails).\<close>

theorem signature_accepted:
  assumes "ec_laws E" "ecdsa_signature E x m \<rho> r s" "0 < x" "x < cN E" "fst (mulG E x) \<noteq> 0"
    and "0 < r" "r < cN E" "m mod cN E \<noteq> 0" "(m - r * x) mod cN E \<noteq> 0" "SetString16 message = Some m"
  shows "smpc_Verify2 E (Some r) (Some s) v message (Some (fst (mulG E x))) (Some (snd (mulG E x))) = Ok True \<and>
    smpc_Verify2 E (Some r) (Some (snd (justify_s E s))) v message (Some (fst (mulG E x))) (Some (snd (mulG E x))) = Ok True"
proof -
  obtain \<rho>' where "ecdsa_signature E x m \<rho>' r (snd (justify_s E s))"
    using justify_s_signature [OF assms(1,2)] by blast
  then show ?thesis using Verify2_signature [OF assms(1) _ assms(3-)] assms(2) by blast
qed

theorem signature_accepted_witness:
  "smpc_Verify2 toy_curve (Some 6) (Some 9) 0 ''1b'' (Some 3) (Some 3) = Ok True \<and>
   smpc_Verify2 toy_curve (Some 6) (Some 4) 0 ''1b'' (Some 3) (Some 3) = Ok True"
proof -
  have vals: "cN toy_curve = 13" "mulG toy_curve 5 = (3, 3)" "mulG toy_curve 2 = (6, 3)" "justify_s toy_curve 9 = (True, 4)"
    "SetString16 ''1b'' = Some 27"
    by code_simp+
  then have "ecdsa_signature toy_curve 5 27 2 6 9" by (simp add: ecdsa_signature_def eqm_def)
  then show ?thesis
    using signature_accepted [OF toy_curve_laws, of 5 27 2 6 9 "''1b''" 0] vals by simp
qed

text \<open>The recovery identifier is computed from the unpadded bytes of \<open>R\<close> and \<open>S\<close>: when they have together
  not exactly 64 bytes, \<^verbatim>\<open>DECDSASignCalcv\<close> panics, whatever the C library does, because the empty
  result of the failed \<^verbatim>\<open>RecoverPubkey\<close> is sliced.\<close>

theorem DECDSASignCalcv_short:
  assumes "length (Bytes R) + length (Bytes S) \<noteq> 64" "length (Bytes r) \<le> 32"
  shows "DECDSASignCalcv E sign_v recover (Some r) (Some ry) (Some pkx) (Some pky) (Some R) (Some S) (Some hashBytes) invert =
    Panic ''slice bounds out of range''"
proof -
  have "\<not> is_Ok (RecoverPubkey recover hashBytes (Bytes R @ Bytes S @ [byte_of 0]))"
    using assms(1) by (auto simp: RecoverPubkey_def checkSignature_def)
  moreover have "[0..<4] = 0 # [1..<4]" by (simp add: upt_rec)
  ultimately have "recid_loop recover hashBytes (Bytes R @ Bytes S) k d [0..<4] = Panic ''slice bounds out of range''" for k d
    by (auto simp: Let_def strip0x_def EncodeToString_def is_Ok_iff split: res.splits)
  moreover have "\<exists>k. strip0x (EncodeToString (Marshal E pkx pky)) = Ok k"
    by (simp add: strip0x_def Marshal_def)
  ultimately show ?thesis
    using assms(2) by (auto simp: DECDSASignCalcv_def Get_ecdsa_sign_v_def)
qed

theorem DECDSASignCalcv_short_witness:
  "DECDSASignCalcv toy_curve (\<lambda>_ _. 0) (\<lambda>sig msg. Some (replicate 65 4)) (Some 6) (Some 3) (Some 3) (Some 3) (Some 6) (Some 8)
     (Some (replicate 32 0)) False = Panic ''slice bounds out of range''"
  by (rule DECDSASignCalcv_short) code_simp+

text \<open>The text form of a signature has the 65 bytes of \<open>r\<close>, \<open>s\<close> (each padded to 32 bytes) and the recovery
  identifier exactly when \<open>r\<close> and \<open>s\<close> need 31 or 32 bytes; shorter numbers are not padded.\<close>

theorem GetSignString_padding:
  assumes "0 \<le> r" "r < 2 ^ 256" "0 \<le> s" "s < 2 ^ 256"
  shows "GetSignString (Some r) (Some s) v =
    ToolDecimalByteSlice2HexString
      (if length (Bytes r) \<in> {31, 32} \<and> length (Bytes s) \<in> {31, 32}
       then pad32 (Bytes r) @ pad32 (Bytes s) @ [word_of_int v] else Bytes r @ Bytes s @ [word_of_int v]) \<and>
    (length (GetSignString (Some r) (Some s) v) = 130 \<longleftrightarrow> length (Bytes r) \<in> {31, 32} \<and> length (Bytes s) \<in> {31, 32})"
proof -
  have len: "length (Bytes r) \<le> 32" "length (Bytes s) \<le> 32" using assms by (auto intro: length_Bytes_32)
  have exact: "length (Bytes k) = n \<Longrightarrow> readBits k (replicate n 0) = Bytes k" for k n
    using readBits_exact [of k] by simp
  have pad: "length (Bytes k) = 31 \<Longrightarrow> pad32 (Bytes k) = 0 # Bytes k" "length (Bytes k) = 32 \<Longrightarrow> pad32 (Bytes k) = Bytes k" for k
    by (simp_all add: pad32_def)
  have hex: "length (ToolDecimalByteSlice2HexString bs) = 2 * length bs" for bs
    by (induction bs) (auto simp: ToolDecimalByteSlice2HexString_def)
  have bytes: "sign_bytes r s v =
      (if length (Bytes r) \<in> {31, 32} \<and> length (Bytes s) \<in> {31, 32}
       then pad32 (Bytes r) @ pad32 (Bytes s) @ [word_of_int v] else Bytes r @ Bytes s @ [word_of_int v])"
    by (auto simp: sign_bytes_def Let_def exact pad readBits_exact)
  moreover have "length (sign_bytes r s v) = 65 \<longleftrightarrow> length (Bytes r) \<in> {31, 32} \<and> length (Bytes s) \<in> {31, 32}"
    using len by (auto simp: bytes length_pad32)
  ultimately show ?thesis by (simp add: GetSignString_def hex)
qed

theorem GetSignString_padding_witness:
  "GetSignString (Some 6) (Some 8) 1 = ''060801''"
proof -
  have "length (Bytes 6) = 1" by code_simp
  then have "GetSignString (Some 6) (Some 8) 1 = ToolDecimalByteSlice2HexString (Bytes 6 @ Bytes 8 @ [word_of_int 1])"
    using GetSignString_padding [of 6 8 1] by simp
  also have "\<dots> = ''060801''" by code_simp
  finally show ?thesis .
qed

end
