(* ===== verification/SignZK.thy ===== *)
theory SignZK
  imports MtA Ecdsa
begin

text \<open>
  \<^verbatim>\<open>smpc-lib/crypto/ec2/tZK.go\<close>, \<^verbatim>\<open>stZK.go\<close> and \<^verbatim>\<open>pdl_w_slack_proof.go\<close>: the proofs of the signing
  phase.  \<open>h\<close> is the second generator, derived by \<^verbatim>\<open>CalcHPoint\<close>; the hash \<^verbatim>\<open>sha256\<close> and
  \<^verbatim>\<open>ModSqrt\<close> are arguments.  A point is \<open>None\<close> when its coordinates are \<^verbatim>\<open>nil\<close>.
\<close>

section \<open>The second generator\<close>

definition decompressPoint :: "Curve \<Rightarrow> (int \<Rightarrow> int \<Rightarrow> int option res) \<Rightarrow> int \<Rightarrow> nat \<Rightarrow> (int \<times> int) res" where
  "decompressPoint E ms x sign =
     (let x3 = x * x;
          x3 = x3 * x;
          y2 = x3 + 7
      in bindr (ms y2 (cP E)) (\<lambda>y.
         case y of
           None \<Rightarrow> Err ''invalid point''
         | Some y \<Rightarrow>
             let y = (if (if even y then 0 else 1) \<noteq> sign mod 2 then (- y) mod cP E else y)
             in Ok (x, y)))"

text \<open>The loop: \<open>i\<close> hashes were made, \<open>h\<close> is the last point; \<open>fuel\<close> is \<open>10 - i\<close>.\<close>

fun hpoint_loop :: "Curve \<Rightarrow> (byte list \<Rightarrow> byte list) \<Rightarrow> (int \<Rightarrow> int \<Rightarrow> int option res) \<Rightarrow> nat \<Rightarrow> nat \<Rightarrow> byte list \<Rightarrow> point \<Rightarrow>
    point res" where
  "hpoint_loop E sha256 ms 0 i bz h =
     (if i < 3 \<or> h = None then Err ''too many rounds (max: 10)'' else Ok h)"
| "hpoint_loop E sha256 ms (Suc fuel) i bz h =
     (if i < 3 \<or> h = None then
        (let bz = sha256 bz
         in if 2 \<le> i
            then (case decompressPoint E ms (SetBytes bz) 2 of
                    Ok A \<Rightarrow> hpoint_loop E sha256 ms fuel (Suc i) bz (Some A)
                  | Err e \<Rightarrow> hpoint_loop E sha256 ms fuel (Suc i) bz None
                  | Panic p \<Rightarrow> Panic p
                  | Hang \<Rightarrow> Hang)
            else hpoint_loop E sha256 ms fuel (Suc i) bz h)
      else Ok h)"

definition CalcHPoint :: "Curve \<Rightarrow> (byte list \<Rightarrow> byte list) \<Rightarrow> (int \<Rightarrow> int \<Rightarrow> int option res) \<Rightarrow> point res" where
  "CalcHPoint E sha256 ms = hpoint_loop E sha256 ms 10 0 (Marshal E (cGx E) (cGy E)) None"

section \<open>The proof for T\<close>

record TProof =
  tp_AlphaX :: int
  tp_AlphaY :: int
  tp_T :: int
  tp_U :: int

definition TProve :: "Curve \<Rightarrow> (byte list \<Rightarrow> byte list) \<Rightarrow> point \<Rightarrow> point \<Rightarrow> int \<Rightarrow> int \<Rightarrow> tape \<Rightarrow> (TProof option \<times> tape) res" where
  "TProve E sha t1 h sigma1 l1 tape =
     (if t1 = None \<or> h = None then Ok (None, tape)
      else
        bindr (GetRandomIntFromZn (cN E) tape) (\<lambda>(a, tape).
        bindr (GetRandomIntFromZn (cN E) tape) (\<lambda>(b, tape).
        bindr (ScalarBaseMult E (Bytes a)) (\<lambda>aG.
        bindr (ScalarMult E h (Bytes b)) (\<lambda>bH.
        bindr (Add E aG bH) (\<lambda>alpha.
        bindr (ScalarBaseMult E (Bytes 1)) (\<lambda>G.
        bindr (sha_call sha (pair_slice t1 @ pair_slice h @ pair_slice G @ pair_slice alpha)) (\<lambda>e.
        bindr (deref alpha) (\<lambda>(alphaX, alphaY).
          let e = e mod cN E;
              t = (a + e * sigma1) mod cN E;
              u = (b + e * l1) mod cN E
          in Ok (Some \<lparr>tp_AlphaX = alphaX, tp_AlphaY = alphaY, tp_T = t, tp_U = u\<rparr>, tape))))))))))"

text \<open>A residue that the verifiers refuse.\<close>

definition is01 :: "int \<Rightarrow> bool" where
  "is01 x \<longleftrightarrow> x = 0 \<or> x = 1"

definition TVerify :: "Curve \<Rightarrow> (byte list \<Rightarrow> byte list) \<Rightarrow> point \<Rightarrow> point \<Rightarrow> TProof option \<Rightarrow> bool res" where
  "TVerify E sha t1 h proof =
     (case (t1, h, proof) of
        (Some (t1X, t1Y), Some (hx, hy), Some pr) \<Rightarrow>
          let alpha = (tp_AlphaX pr, tp_AlphaY pr)
          in if \<not> checkPointOnCurve E [Some (fst alpha), Some (snd alpha), Some t1X, Some t1Y, Some hx, Some hy] then Ok False
             else if IsInfinityPoint (Some (fst alpha)) (Some (snd alpha)) \<or> IsInfinityPoint (Some t1X) (Some t1Y) \<or>
                     IsInfinityPoint (Some hx) (Some hy) then Ok False
             else if is01 (tp_T pr mod cN E) \<or> is01 (tp_U pr mod cN E) then Ok False
             else
               bindr (ScalarBaseMult E (Bytes 1)) (\<lambda>G.
               bindr (sha_call sha (pair_slice t1 @ pair_slice h @ pair_slice G @ pair_slice (Some alpha))) (\<lambda>e.
               let e = e mod cN E
               in bindr (ScalarBaseMult E (Bytes (tp_T pr))) (\<lambda>tG.
                  bindr (ScalarMult E h (Bytes (tp_U pr))) (\<lambda>uH.
                  bindr (Add E tG uH) (\<lambda>tGu.
                  bindr (ScalarMult E t1 (Bytes e)) (\<lambda>et1.
                  bindr (Add E (Some alpha) et1) (\<lambda>ate. same_point tGu ate)))))))
      | _ \<Rightarrow> Ok False)"

section \<open>The proof for S and T\<close>

record STProof =
  st_AlphaX :: int
  st_AlphaY :: int
  st_BetaX :: int
  st_BetaY :: int
  st_T :: int
  st_U :: int

definition calculateTAndU :: "int \<Rightarrow> int \<Rightarrow> int \<Rightarrow> int \<Rightarrow> int \<Rightarrow> int \<Rightarrow> (int \<times> int) res" where
  "calculateTAndU q a e sigma1 b l1 =
     bindr (modInt_Add q a (e * sigma1)) (\<lambda>t. bindr (modInt_Add q b (e * l1)) (\<lambda>u. Ok (t, u)))"

definition NewSTProof :: "Curve \<Rightarrow> (byte list \<Rightarrow> byte list) \<Rightarrow> point \<Rightarrow> point \<Rightarrow> point \<Rightarrow> point \<Rightarrow> int \<Rightarrow> int \<Rightarrow> tape \<Rightarrow>
    (STProof option \<times> tape) res" where
  "NewSTProof E sha T1 S1 R hG sigma1 l1 tape =
     (if T1 = None \<or> S1 = None \<or> R = None \<or> hG = None then Ok (None, tape)
      else
        bindr (ScalarBaseMult E (Bytes 1)) (\<lambda>G.
        bindr (GetRandomIntFromZn (cN E) tape) (\<lambda>(a, tape).
        bindr (GetRandomIntFromZn (cN E) tape) (\<lambda>(b, tape).
        bindr (ScalarMult E R (Bytes a)) (\<lambda>alpha.
        bindr (ScalarBaseMult E (Bytes a)) (\<lambda>aG.
        bindr (ScalarMult E hG (Bytes b)) (\<lambda>bHG.
        bindr (Add E aG bHG) (\<lambda>beta.
        bindr (sha_call sha (pair_slice T1 @ pair_slice S1 @ pair_slice R @ pair_slice hG @ pair_slice G @
                 pair_slice alpha @ pair_slice beta)) (\<lambda>e.
        bindr (calculateTAndU (cN E) a (e mod cN E) sigma1 b l1) (\<lambda>(t, u).
        bindr (deref alpha) (\<lambda>(alphax, alphay).
        bindr (deref beta) (\<lambda>(betaX, betaY).
          Ok (Some \<lparr>st_AlphaX = alphax, st_AlphaY = alphay, st_BetaX = betaX, st_BetaY = betaY, st_T = t, st_U = u\<rparr>,
              tape)))))))))))))"

definition STVerify :: "Curve \<Rightarrow> (byte list \<Rightarrow> byte list) \<Rightarrow> point \<Rightarrow> point \<Rightarrow> point \<Rightarrow> point \<Rightarrow> STProof option \<Rightarrow> bool res" where
  "STVerify E sha S1 T1 R hG stpf =
     (case (S1, T1, R, hG, stpf) of
        (Some (S1X, S1Y), Some (T1X, T1Y), Some (Rx, Ry), Some (hGx, hGy), Some pr) \<Rightarrow>
          let alpha = (st_AlphaX pr, st_AlphaY pr); beta = (st_BetaX pr, st_BetaY pr);
              tmp = [Some S1X, Some S1Y, Some T1X, Some T1Y, Some Rx, Some Ry, Some hGx, Some hGy,
                     Some (fst alpha), Some (snd alpha), Some (fst beta), Some (snd beta)]
          in if \<not> checkPointOnCurve E tmp then Ok False
             else if IsInfinityPoint (Some S1X) (Some S1Y) \<or> IsInfinityPoint (Some T1X) (Some T1Y) \<or>
                     IsInfinityPoint (Some Rx) (Some Ry) \<or> IsInfinityPoint (Some hGx) (Some hGy) \<or>
                     IsInfinityPoint (Some (fst alpha)) (Some (snd alpha)) \<or> IsInfinityPoint (Some (fst beta)) (Some (snd beta))
             then Ok False
             else if is01 (st_T pr mod cN E) \<or> is01 (st_U pr mod cN E) then Ok False
             else
               bindr (ScalarBaseMult E (Bytes 1)) (\<lambda>G.
               bindr (sha_call sha (pair_slice T1 @ pair_slice S1 @ pair_slice R @ pair_slice hG @ pair_slice G @
                        pair_slice (Some alpha) @ pair_slice (Some beta))) (\<lambda>e.
               let e = e mod cN E
               in bindr (ScalarMult E R (Bytes (st_T pr))) (\<lambda>tR.
                  bindr (ScalarMult E S1 (Bytes e)) (\<lambda>eS.
                  bindr (Add E (Some alpha) eS) (\<lambda>aSc.
                  bindr (same_point tR aSc) (\<lambda>eq1.
                  if \<not> eq1 then Ok False
                  else
                    bindr (ScalarBaseMult E (Bytes (st_T pr))) (\<lambda>tG.
                    bindr (ScalarMult E hG (Bytes (st_U pr))) (\<lambda>uHG.
                    bindr (ScalarMult E T1 (Bytes e)) (\<lambda>eT1.
                    bindr (Add E tG uHG) (\<lambda>tGuH.
                    bindr (Add E (Some beta) eT1) (\<lambda>betaT. same_point betaT tGuH)))))))))))
      | _ \<Rightarrow> Ok False)"

section \<open>The proof of consistency of R and the ciphertext\<close>

record PDLwSlackStatement =
  pd_CipherText :: int
  pd_PK :: PublicKey
  pd_K1R :: point
  pd_R :: point
  pd_H1 :: int
  pd_H2 :: int
  pd_NTilde :: int

record PDLwSlackProof =
  pd_Z :: int
  pd_U1X :: int
  pd_U1Y :: int
  pd_U2 :: int
  pd_U3 :: int
  pd_S1 :: int
  pd_S2 :: int
  pd_S3 :: int

definition commitmentUnknownOrder :: "int \<Rightarrow> int \<Rightarrow> int \<Rightarrow> int \<Rightarrow> int \<Rightarrow> int res" where
  "commitmentUnknownOrder h1 h2 NTilde x r =
     bindr (deref (modInt_Exp NTilde h1 x)) (\<lambda>h1X.
     bindr (deref (modInt_Exp NTilde h2 r)) (\<lambda>h2R. modInt_Mul NTilde h1X h2R))"

text \<open>The arguments of the challenge.\<close>

definition pdl_args :: "PDLwSlackStatement \<Rightarrow> int \<Rightarrow> point \<Rightarrow> int \<Rightarrow> int \<Rightarrow> int option list" where
  "pdl_args st z u1G u2 u3 =
     (let N = pk_N (pd_PK st) in
      pair_slice (pd_R st) @ pair_slice (pd_K1R st) @ [Some (pd_CipherText st), Some z] @ pair_slice u1G @
      [Some u2, Some u3, Some N, Some (N + 1), Some (N * N), Some (pd_H1 st), Some (pd_H2 st), Some (pd_NTilde st)])"

definition NewPDLwSlackProof :: "Curve \<Rightarrow> (byte list \<Rightarrow> byte list) \<Rightarrow> int \<Rightarrow> int \<Rightarrow> PDLwSlackStatement \<Rightarrow> tape \<Rightarrow>
    (PDLwSlackProof \<times> tape) res" where
  "NewPDLwSlackProof E sha K1 K1Ra st tape =
     (let q = cN E; q3 = q * q * q; NT = pd_NTilde st; N = pk_N (pd_PK st); nAddOne = N + 1; N2 = N * N
      in bindr (GetRandomIntFromZn q3 tape) (\<lambda>(alpha, tape).
         let alpha = alpha mod q
         in bindr (GetRandomIntFromZn nAddOne tape) (\<lambda>(tmp, tape).
            let beta = 1 + tmp mod q
            in bindr (GetRandomIntFromZn (q * NT) tape) (\<lambda>(rho, tape).
               let rho = rho mod q
               in bindr (GetRandomIntFromZn (q3 * NT) tape) (\<lambda>(gamma, tape).
                  let gamma = gamma mod q
                  in bindr (commitmentUnknownOrder (pd_H1 st) (pd_H2 st) NT K1 rho) (\<lambda>z.
                     bindr (ScalarMult E (pd_R st) (Bytes alpha)) (\<lambda>u1G.
                     bindr (commitmentUnknownOrder nAddOne beta N2 alpha N) (\<lambda>u2.
                     bindr (commitmentUnknownOrder (pd_H1 st) (pd_H2 st) NT alpha gamma) (\<lambda>u3.
                     bindr (sha_call sha (pdl_args st z u1G u2 u3)) (\<lambda>e.
                     let e = e mod q;
                         s1 = e * K1 + alpha;
                         s3 = e * rho + gamma
                     in bindr (commitmentUnknownOrder K1Ra beta N e 1) (\<lambda>s2.
                        bindr (deref u1G) (\<lambda>(u1x, u1y).
                          Ok (\<lparr>pd_Z = z, pd_U1X = u1x, pd_U1Y = u1y, pd_U2 = u2, pd_U3 = u3, pd_S1 = s1, pd_S2 = s2,
                               pd_S3 = s3\<rparr>, tape)))))))))))))"

definition pdl_infinity :: "point \<Rightarrow> bool" where
  "pdl_infinity A = IsInfinityPoint (map_option fst A) (map_option snd A)"

definition PDLwSlackVerify :: "Curve \<Rightarrow> (byte list \<Rightarrow> byte list) \<Rightarrow> PDLwSlackStatement \<Rightarrow> PDLwSlackProof option \<Rightarrow> bool res" where
  "PDLwSlackVerify E sha st proof =
     (case proof of
        None \<Rightarrow> Ok False
      | Some p \<Rightarrow>
          if pdl_infinity (pd_R st) \<or> pdl_infinity (pd_K1R st) \<or> pdl_infinity (Some (pd_U1X p, pd_U1Y p)) then Ok False
          else
            let q = cN E; NT = pd_NTilde st; N = pk_N (pd_PK st); N2 = N * N
            in bindr (trivial_residue [(pd_CipherText st, N2)]) (\<lambda>b. if b then Ok False else
               bindr (trivial_residue [(pd_H1 st, NT), (pd_H2 st, NT)]) (\<lambda>b. if b then Ok False else
               bindr (trivial_residue [(pd_Z p, NT)]) (\<lambda>b. if b then Ok False else
               bindr (trivial_residue [(pd_U2 p, N2)]) (\<lambda>b. if b then Ok False else
               bindr (trivial_residue [(pd_U3 p, NT)]) (\<lambda>b. if b then Ok False else
               bindr (trivial_residue [(pd_S2 p, N)]) (\<lambda>b. if b then Ok False else
               let nOne = N + 1
               in bindr (sha_call sha (pdl_args st (pd_Z p) (Some (pd_U1X p, pd_U1Y p)) (pd_U2 p) (pd_U3 p))) (\<lambda>e.
                  let e = e mod q;
                      eNeg = - e;
                      tmp = pd_S1 p mod q
                  in bindr (ScalarMult E (pd_R st) (Bytes tmp)) (\<lambda>gS1.
                     let eFeNeg = q - e
                     in bindr (ScalarMult E (pd_K1R st) (Bytes eFeNeg)) (\<lambda>yMinusE.
                        bindr (Add E gS1 yMinusE) (\<lambda>u1Test.
                        bindr (deref u1Test) (\<lambda>(u1TestX, u1TestY).
                        if \<not> IsOnCurve E u1TestX u1TestY then Ok False
                        else
                          bindr (commitmentUnknownOrder nOne (pd_S2 p) N2 (pd_S1 p) N) (\<lambda>u2TestTmp.
                          bindr (commitmentUnknownOrder u2TestTmp (pd_CipherText st) N2 1 eNeg) (\<lambda>u2Test.
                          bindr (commitmentUnknownOrder (pd_H1 st) (pd_H2 st) NT (pd_S1 p) (pd_S3 p)) (\<lambda>u3TestTmp.
                          bindr (commitmentUnknownOrder u3TestTmp (pd_Z p) NT 1 eNeg) (\<lambda>u3Test.
                            Ok (pd_U1X p = u1TestX \<and> pd_U1Y p = u1TestY \<and> pd_U2 p = u2Test \<and> pd_U3 p = u3Test)))))))))))))))))"

section \<open>Completeness of the proofs for S and T\<close>

text \<open>Logarithms whose points can be added.\<close>

definition addable :: "Curve \<Rightarrow> int \<Rightarrow> int \<Rightarrow> bool" where
  "addable E a b \<longleftrightarrow> 0 < a \<and> a < cN E \<and> 0 < b \<and> b < cN E \<and> a \<noteq> b \<and> a + b \<noteq> cN E"

lemma Add_addable: "ec_laws E \<Longrightarrow> addable E a b \<Longrightarrow> Add E (Some (mulG E a)) (Some (mulG E b)) = Ok (Some (mulG E ((a + b) mod cN E)))"
  by (simp add: addable_def Add_mulG)

lemma addable_sum: "addable E a b \<Longrightarrow> 0 < (a + b) mod cN E \<and> (a + b) mod cN E < cN E"
  using sum_range [of a "cN E" b] by (simp add: addable_def)

definition coords :: "Curve \<Rightarrow> int list \<Rightarrow> int list" where
  "coords E ks = concat (map (\<lambda>k. [fst (mulG E k), snd (mulG E k)]) ks)"

lemma sha_call_coords:
  "ks \<noteq> [] \<Longrightarrow> sha_call sha (concat (map (\<lambda>k. pair_slice (Some (mulG E k))) ks)) = Ok (SetBytes (sha (sha_input (coords E ks))))"
proof -
  have "concat (map (\<lambda>k. pair_slice (Some (mulG E k))) ks) = map Some (coords E ks)"
    by (induction ks) (auto simp: coords_def)
  moreover assume "ks \<noteq> []"
  then have "coords E ks \<noteq> []" by (cases ks) (auto simp: coords_def)
  ultimately show ?thesis by (simp add: sha_call_Some)
qed

text \<open>
  What the prover of \<open>T\<close> needs: \<open>h = \<eta> * G\<close>, the random numbers \<open>a\<close> and \<open>b\<close>, and no degenerate point on the
  way; \<open>e\<close> is the challenge.
\<close>

definition t_good :: "Curve \<Rightarrow> int \<Rightarrow> int \<Rightarrow> int \<Rightarrow> int \<Rightarrow> int \<Rightarrow> int \<Rightarrow> bool" where
  "t_good E \<eta> \<sigma> l a b e \<longleftrightarrow>
     (let n = cN E; \<alpha> = (a + \<eta> * b mod n) mod n; \<tau> = (\<sigma> + \<eta> * l) mod n;
          t = (a + e * \<sigma>) mod n; u = (b + e * l) mod n
      in 0 < \<eta> \<and> \<eta> < n \<and> 0 < b \<and> b < n \<and> addable E a (\<eta> * b mod n) \<and> 0 < \<tau> \<and> 0 < e \<and> e < n \<and>
         \<not> is01 t \<and> \<not> is01 u \<and> addable E t (\<eta> * u mod n) \<and> addable E \<alpha> (\<tau> * e mod n) \<and>
         fst (mulG E \<alpha>) \<noteq> 0 \<and> fst (mulG E \<tau>) \<noteq> 0 \<and> fst (mulG E \<eta>) \<noteq> 0)"

lemma is01_range: "\<not> is01 (x mod n) \<Longrightarrow> 0 < n \<Longrightarrow> 0 < x mod n \<and> x mod n < n"
proof -
  assume "\<not> is01 (x mod n)" "0 < n"
  then show ?thesis using pos_mod_sign [of n x] pos_mod_bound [of n x] by (simp add: is01_def order_less_le)
qed

lemma t_equation:
  "(((a + e * \<sigma>) mod n) + \<eta> * ((b + e * l) mod n) mod n) mod n =
   (((a + \<eta> * b mod n) mod n) + ((\<sigma> + \<eta> * l) mod n) * e mod n) mod (n :: int)"
proof -
  have "eqm n (((a + e * \<sigma>) mod n) + \<eta> * ((b + e * l) mod n) mod n) ((a + e * \<sigma>) + \<eta> * (b + e * l))"
    by (intro eqm_add eqm_mod_self eqm_trans [OF eqm_mod_self] eqm_mult eqm_refl)
  also have "(a + e * \<sigma>) + \<eta> * (b + e * l) = (a + \<eta> * b) + (\<sigma> + \<eta> * l) * e" by (simp add: algebra_simps)
  also have "eqm n \<dots> (((a + \<eta> * b mod n) mod n) + ((\<sigma> + \<eta> * l) mod n) * e mod n)"
    by (intro eqm_sym [OF eqm_add] eqm_mod_self eqm_trans [OF eqm_mod_self] eqm_mult eqm_refl eqm_add)
  finally show ?thesis by (simp add: eqm_mod_iff)
qed

lemma checkPairs_mulG:
  "ec_laws E \<Longrightarrow> \<forall>k \<in> set ks. 0 < k \<and> k < cN E \<Longrightarrow> ks \<noteq> [] \<Longrightarrow> checkPointOnCurve E (map Some (coords E ks))"
proof -
  assume E: "ec_laws E" and ks: "\<forall>k \<in> set ks. 0 < k \<and> k < cN E" "ks \<noteq> []"
  have "length (coords E ks) mod 2 = 0" by (induction ks) (auto simp: coords_def)
  moreover have "coords E ks \<noteq> []" using ks(2) by (cases ks) (auto simp: coords_def)
  moreover have "checkPairs E (map Some (coords E ks))"
    using ks(1) ec_lawsD(12) [OF E] by (induction ks) (auto simp: coords_def)
  ultimately show ?thesis by (simp add: checkPointOnCurve_def)
qed

text \<open>The verifications on points with known logarithms.\<close>

lemma TVerify_logs:
  assumes E: "ec_laws E" and r: "\<forall>k \<in> set [\<alpha>, \<tau>, \<eta>]. 0 < k \<and> k < cN E \<and> fst (mulG E k) \<noteq> 0"
    and tu: "0 < t" "t < cN E" "\<not> is01 t" "0 < u" "u < cN E" "\<not> is01 u" and e: "0 < e" "e < cN E"
    and sha: "SetBytes (sha (sha_input (coords E [\<tau>, \<eta>, 1, \<alpha>]))) mod cN E = e"
    and uh: "uh = \<eta> * u mod cN E" and te: "te = \<tau> * e mod cN E"
    and add: "addable E t uh" "addable E \<alpha> te" "(t + uh) mod cN E = (\<alpha> + te) mod cN E"
  shows "TVerify E sha (Some (mulG E \<tau>)) (Some (mulG E \<eta>))
    (Some \<lparr>tp_AlphaX = fst (mulG E \<alpha>), tp_AlphaY = snd (mulG E \<alpha>), tp_T = t, tp_U = u\<rparr>) = Ok True"
proof -
  have n: "1 < cN E" by (rule is_prime_gt_1 [OF ec_lawsD(4) [OF E]])
  have "sha_call sha [Some (fst (mulG E \<tau>)), Some (snd (mulG E \<tau>)), Some (fst (mulG E \<eta>)), Some (snd (mulG E \<eta>)),
      Some (fst (mulG E 1)), Some (snd (mulG E 1)), Some (fst (mulG E \<alpha>)), Some (snd (mulG E \<alpha>))] =
      Ok (SetBytes (sha (sha_input (coords E [\<tau>, \<eta>, 1, \<alpha>]))))"
    using sha_call_coords [of "[\<tau>, \<eta>, 1, \<alpha>]" sha E] by simp
  moreover have "checkPointOnCurve E [Some (fst (mulG E \<alpha>)), Some (snd (mulG E \<alpha>)), Some (fst (mulG E \<tau>)),
      Some (snd (mulG E \<tau>)), Some (fst (mulG E \<eta>)), Some (snd (mulG E \<eta>))]"
    using checkPairs_mulG [OF E, of "[\<alpha>, \<tau>, \<eta>]"] r by (simp add: coords_def)
  moreover have "ScalarBaseMult E (Bytes 1) = Ok (Some (mulG E 1))" using n by (intro ScalarBaseMult_mulG E) auto
  moreover have "ScalarBaseMult E (Bytes t) = Ok (Some (mulG E t))" by (rule ScalarBaseMult_mulG [OF E tu(1,2)])
  moreover have "ScalarMult E (Some (mulG E \<eta>)) (Bytes u) = Ok (Some (mulG E uh))"
    unfolding uh using r tu(4,5) by (intro ScalarMult_mulG E) auto
  moreover have "ScalarMult E (Some (mulG E \<tau>)) (Bytes e) = Ok (Some (mulG E te))"
    unfolding te using r e by (intro ScalarMult_mulG E) auto
  moreover have "Add E (Some (mulG E t)) (Some (mulG E uh)) = Ok (Some (mulG E ((\<alpha> + te) mod cN E)))"
    "Add E (Some (mulG E \<alpha>)) (Some (mulG E te)) = Ok (Some (mulG E ((\<alpha> + te) mod cN E)))"
    using Add_addable [OF E add(1)] Add_addable [OF E add(2)] add(3) by simp_all
  moreover have "t mod cN E = t" "u mod cN E = u" using tu by simp_all
  ultimately show ?thesis
    using r tu(3,6) sha by (simp add: TVerify_def Let_def case_prod_unfold IsInfinityPoint_def)
qed

lemma TProve_logs:
  assumes E: "ec_laws E" and tape: "GetRandomIntFromZn (cN E) tape = Ok (a, tape')" "GetRandomIntFromZn (cN E) tape' = Ok (b, rest)"
    and h: "0 < \<eta>" "\<eta> < cN E" "0 < b" "b < cN E" and bh: "bh = \<eta> * b mod cN E" and add: "addable E a bh" "\<alpha> = (a + bh) mod cN E"
    and e: "SetBytes (sha (sha_input (coords E [\<tau>, \<eta>, 1, \<alpha>]))) mod cN E = e"
  shows "TProve E sha (Some (mulG E \<tau>)) (Some (mulG E \<eta>)) \<sigma> l tape =
    Ok (Some \<lparr>tp_AlphaX = fst (mulG E \<alpha>), tp_AlphaY = snd (mulG E \<alpha>), tp_T = (a + e * \<sigma>) mod cN E,
      tp_U = (b + e * l) mod cN E\<rparr>, rest)"
proof -
  have n: "1 < cN E" by (rule is_prime_gt_1 [OF ec_lawsD(4) [OF E]])
  have a: "0 < a" "a < cN E" using add(1) by (simp_all add: addable_def)
  have "sha_call sha [Some (fst (mulG E \<tau>)), Some (snd (mulG E \<tau>)), Some (fst (mulG E \<eta>)), Some (snd (mulG E \<eta>)),
      Some (fst (mulG E 1)), Some (snd (mulG E 1)), Some (fst (mulG E \<alpha>)), Some (snd (mulG E \<alpha>))] =
      Ok (SetBytes (sha (sha_input (coords E [\<tau>, \<eta>, 1, \<alpha>]))))"
    using sha_call_coords [of "[\<tau>, \<eta>, 1, \<alpha>]" sha E] by simp
  moreover have "ScalarBaseMult E (Bytes 1) = Ok (Some (mulG E 1))" using n by (intro ScalarBaseMult_mulG E) auto
  moreover have "ScalarMult E (Some (mulG E \<eta>)) (Bytes b) = Ok (Some (mulG E bh))"
    unfolding bh by (rule ScalarMult_mulG [OF E h])
  moreover have "Add E (Some (mulG E a)) (Some (mulG E bh)) = Ok (Some (mulG E \<alpha>))"
    using Add_addable [OF E add(1)] add(2) by simp
  ultimately show ?thesis
    using tape e ScalarBaseMult_mulG [OF E a] by (simp add: TProve_def Let_def case_prod_unfold)
qed

lemma T_complete:
  assumes E: "ec_laws E" and tape: "GetRandomIntFromZn (cN E) tape = Ok (a, tape')" "GetRandomIntFromZn (cN E) tape' = Ok (b, rest)"
    and e: "e = SetBytes (sha (sha_input (coords E [(\<sigma> + \<eta> * l) mod cN E, \<eta>, 1, (a + \<eta> * b mod cN E) mod cN E]))) mod cN E"
    and g: "t_good E \<eta> \<sigma> l a b e"
  shows "\<exists>p. TProve E sha (Some (mulG E ((\<sigma> + \<eta> * l) mod cN E))) (Some (mulG E \<eta>)) \<sigma> l tape = Ok (Some p, rest) \<and>
    TVerify E sha (Some (mulG E ((\<sigma> + \<eta> * l) mod cN E))) (Some (mulG E \<eta>)) (Some p) = Ok True"
proof -
  define n bh \<alpha> \<tau> t u where defs: "n = cN E" "bh = \<eta> * b mod cN E" "\<alpha> = (a + bh) mod cN E" "\<tau> = (\<sigma> + \<eta> * l) mod cN E"
    "t = (a + e * \<sigma>) mod cN E" "u = (b + e * l) mod cN E"
  have n: "0 < n" using is_prime_gt_1 [OF ec_lawsD(4) [OF E]] by (simp add: defs)
  have g': "0 < \<eta>" "\<eta> < n" "0 < b" "b < n" "addable E a bh" "0 < \<tau>" "0 < e" "e < n" "\<not> is01 t" "\<not> is01 u"
    "addable E t (\<eta> * u mod n)" "addable E \<alpha> (\<tau> * e mod n)" "fst (mulG E \<alpha>) \<noteq> 0" "fst (mulG E \<tau>) \<noteq> 0" "fst (mulG E \<eta>) \<noteq> 0"
    using g unfolding t_good_def defs Let_def by blast+
  have ranges: "0 < \<alpha>" "\<alpha> < n" "\<tau> < n" "0 < t" "t < n" "0 < u" "u < n"
    using addable_sum [OF g'(5)] is01_range [of "a + e * \<sigma>" n] is01_range [of "b + e * l" n] g'(9,10) n by (simp_all add: defs)
  have e': "SetBytes (sha (sha_input (coords E [\<tau>, \<eta>, 1, \<alpha>]))) mod cN E = e" using e by (simp add: defs)
  have sum: "(t + \<eta> * u mod n) mod n = (\<alpha> + \<tau> * e mod n) mod n" using t_equation [of a e \<sigma> n \<eta> b l] by (simp only: defs)
  have "TProve E sha (Some (mulG E \<tau>)) (Some (mulG E \<eta>)) \<sigma> l tape =
      Ok (Some \<lparr>tp_AlphaX = fst (mulG E \<alpha>), tp_AlphaY = snd (mulG E \<alpha>), tp_T = t, tp_U = u\<rparr>, rest)"
    unfolding defs(5,6) by (rule TProve_logs [where sha = sha, OF E tape _ _ _ _ defs(2) g'(5) defs(3) e']) (use g' defs(1) in simp_all)
  moreover have "TVerify E sha (Some (mulG E \<tau>)) (Some (mulG E \<eta>))
      (Some \<lparr>tp_AlphaX = fst (mulG E \<alpha>), tp_AlphaY = snd (mulG E \<alpha>), tp_T = t, tp_U = u\<rparr>) = Ok True"
    by (rule TVerify_logs [where sha = sha, OF E _ _ _ _ _ _ _ _ _ e' refl refl]) (use g' ranges sum defs(1) in simp_all)
  ultimately show ?thesis unfolding defs(4) by blast
qed

lemma STVerify_logs:
  assumes E: "ec_laws E" and r: "\<forall>k \<in> set [s1, \<tau>, \<rho>, \<eta>, \<alpha>, \<beta>]. 0 < k \<and> k < cN E \<and> fst (mulG E k) \<noteq> 0"
    and tu: "0 < t" "t < cN E" "\<not> is01 t" "0 < u" "u < cN E" "\<not> is01 u" and e: "0 < e" "e < cN E"
    and sha: "SetBytes (sha (sha_input (coords E [\<tau>, s1, \<rho>, \<eta>, 1, \<alpha>, \<beta>]))) mod cN E = e"
    and prods: "tr = \<rho> * t mod cN E" "es = s1 * e mod cN E" "uh = \<eta> * u mod cN E" "te = \<tau> * e mod cN E"
    and add: "addable E \<alpha> es" "tr = (\<alpha> + es) mod cN E" "addable E t uh" "addable E \<beta> te" "(t + uh) mod cN E = (\<beta> + te) mod cN E"
  shows "STVerify E sha (Some (mulG E s1)) (Some (mulG E \<tau>)) (Some (mulG E \<rho>)) (Some (mulG E \<eta>))
    (Some \<lparr>st_AlphaX = fst (mulG E \<alpha>), st_AlphaY = snd (mulG E \<alpha>), st_BetaX = fst (mulG E \<beta>), st_BetaY = snd (mulG E \<beta>),
      st_T = t, st_U = u\<rparr>) = Ok True"
proof -
  have n: "1 < cN E" by (rule is_prime_gt_1 [OF ec_lawsD(4) [OF E]])
  have "sha_call sha [Some (fst (mulG E \<tau>)), Some (snd (mulG E \<tau>)), Some (fst (mulG E s1)), Some (snd (mulG E s1)),
      Some (fst (mulG E \<rho>)), Some (snd (mulG E \<rho>)), Some (fst (mulG E \<eta>)), Some (snd (mulG E \<eta>)),
      Some (fst (mulG E 1)), Some (snd (mulG E 1)), Some (fst (mulG E \<alpha>)), Some (snd (mulG E \<alpha>)),
      Some (fst (mulG E \<beta>)), Some (snd (mulG E \<beta>))] =
      Ok (SetBytes (sha (sha_input (coords E [\<tau>, s1, \<rho>, \<eta>, 1, \<alpha>, \<beta>]))))"
    using sha_call_coords [of "[\<tau>, s1, \<rho>, \<eta>, 1, \<alpha>, \<beta>]" sha E] by simp
  moreover have "checkPointOnCurve E [Some (fst (mulG E s1)), Some (snd (mulG E s1)), Some (fst (mulG E \<tau>)), Some (snd (mulG E \<tau>)),
      Some (fst (mulG E \<rho>)), Some (snd (mulG E \<rho>)), Some (fst (mulG E \<eta>)), Some (snd (mulG E \<eta>)),
      Some (fst (mulG E \<alpha>)), Some (snd (mulG E \<alpha>)), Some (fst (mulG E \<beta>)), Some (snd (mulG E \<beta>))]"
    using checkPairs_mulG [OF E, of "[s1, \<tau>, \<rho>, \<eta>, \<alpha>, \<beta>]"] r by (simp add: coords_def)
  moreover have "ScalarBaseMult E (Bytes 1) = Ok (Some (mulG E 1))" using n by (intro ScalarBaseMult_mulG E) auto
  moreover have "ScalarBaseMult E (Bytes t) = Ok (Some (mulG E t))" by (rule ScalarBaseMult_mulG [OF E tu(1,2)])
  moreover have "ScalarMult E (Some (mulG E \<rho>)) (Bytes t) = Ok (Some (mulG E ((\<alpha> + es) mod cN E)))"
    unfolding add(2) [symmetric] prods(1) using r tu(1,2) by (intro ScalarMult_mulG E) auto
  moreover have "ScalarMult E (Some (mulG E s1)) (Bytes e) = Ok (Some (mulG E es))"
    unfolding prods using r e by (intro ScalarMult_mulG E) auto
  moreover have "ScalarMult E (Some (mulG E \<eta>)) (Bytes u) = Ok (Some (mulG E uh))"
    unfolding prods using r tu(4,5) by (intro ScalarMult_mulG E) auto
  moreover have "ScalarMult E (Some (mulG E \<tau>)) (Bytes e) = Ok (Some (mulG E te))"
    unfolding prods using r e by (intro ScalarMult_mulG E) auto
  moreover have "Add E (Some (mulG E t)) (Some (mulG E uh)) = Ok (Some (mulG E ((\<beta> + te) mod cN E)))"
    "Add E (Some (mulG E \<beta>)) (Some (mulG E te)) = Ok (Some (mulG E ((\<beta> + te) mod cN E)))"
    using Add_addable [OF E add(3)] Add_addable [OF E add(4)] add(5) by simp_all
  moreover note Add_addable [OF E add(1)]
  moreover have "t mod cN E = t" "u mod cN E = u" using tu by simp_all
  ultimately show ?thesis
    using r tu(3,6) sha by (simp add: STVerify_def Let_def case_prod_unfold IsInfinityPoint_def)
qed

lemma NewSTProof_logs:
  assumes E: "ec_laws E" and tape: "GetRandomIntFromZn (cN E) tape = Ok (a, tape')" "GetRandomIntFromZn (cN E) tape' = Ok (b, rest)"
    and h: "0 < \<eta>" "\<eta> < cN E" "0 < b" "b < cN E" and \<rho>: "0 < \<rho>" "\<rho> < cN E"
    and prods: "\<alpha> = \<rho> * a mod cN E" "bh = \<eta> * b mod cN E" and add: "addable E a bh" "\<beta> = (a + bh) mod cN E"
    and e: "SetBytes (sha (sha_input (coords E [\<tau>, s1, \<rho>, \<eta>, 1, \<alpha>, \<beta>]))) mod cN E = e"
  shows "NewSTProof E sha (Some (mulG E \<tau>)) (Some (mulG E s1)) (Some (mulG E \<rho>)) (Some (mulG E \<eta>)) \<sigma> l tape =
    Ok (Some \<lparr>st_AlphaX = fst (mulG E \<alpha>), st_AlphaY = snd (mulG E \<alpha>), st_BetaX = fst (mulG E \<beta>), st_BetaY = snd (mulG E \<beta>),
      st_T = (a + e * \<sigma>) mod cN E, st_U = (b + e * l) mod cN E\<rparr>, rest)"
proof -
  have n: "1 < cN E" by (rule is_prime_gt_1 [OF ec_lawsD(4) [OF E]])
  have a: "0 < a" "a < cN E" using add(1) by (simp_all add: addable_def)
  have "sha_call sha [Some (fst (mulG E \<tau>)), Some (snd (mulG E \<tau>)), Some (fst (mulG E s1)), Some (snd (mulG E s1)),
      Some (fst (mulG E \<rho>)), Some (snd (mulG E \<rho>)), Some (fst (mulG E \<eta>)), Some (snd (mulG E \<eta>)),
      Some (fst (mulG E 1)), Some (snd (mulG E 1)), Some (fst (mulG E \<alpha>)), Some (snd (mulG E \<alpha>)),
      Some (fst (mulG E \<beta>)), Some (snd (mulG E \<beta>))] =
      Ok (SetBytes (sha (sha_input (coords E [\<tau>, s1, \<rho>, \<eta>, 1, \<alpha>, \<beta>]))))"
    using sha_call_coords [of "[\<tau>, s1, \<rho>, \<eta>, 1, \<alpha>, \<beta>]" sha E] by simp
  moreover have "ScalarBaseMult E (Bytes 1) = Ok (Some (mulG E 1))" using n by (intro ScalarBaseMult_mulG E) auto
  moreover have "ScalarMult E (Some (mulG E \<eta>)) (Bytes b) = Ok (Some (mulG E bh))"
    unfolding prods by (rule ScalarMult_mulG [OF E h])
  moreover have "ScalarMult E (Some (mulG E \<rho>)) (Bytes a) = Ok (Some (mulG E \<alpha>))"
    unfolding prods by (rule ScalarMult_mulG [OF E \<rho> a])
  moreover have "Add E (Some (mulG E a)) (Some (mulG E bh)) = Ok (Some (mulG E \<beta>))"
    using Add_addable [OF E add(1)] add(2) by simp
  ultimately show ?thesis
    using tape e n ScalarBaseMult_mulG [OF E a]
    by (simp add: NewSTProof_def calculateTAndU_def modInt_Add_def Let_def case_prod_unfold)
qed

definition st_good :: "Curve \<Rightarrow> int \<Rightarrow> int \<Rightarrow> int \<Rightarrow> int \<Rightarrow> int \<Rightarrow> int \<Rightarrow> int \<Rightarrow> bool" where
  "st_good E \<rho> \<eta> \<sigma> l a b e \<longleftrightarrow>
     (let n = cN E; \<alpha> = \<rho> * a mod n; s1 = \<rho> * \<sigma> mod n
      in t_good E \<eta> \<sigma> l a b e \<and> 0 < \<rho> \<and> \<rho> < n \<and> 0 < s1 \<and> addable E \<alpha> (s1 * e mod n) \<and>
         fst (mulG E \<alpha>) \<noteq> 0 \<and> fst (mulG E s1) \<noteq> 0 \<and> fst (mulG E \<rho>) \<noteq> 0)"

lemma st_equation: "\<rho> * ((a + e * \<sigma>) mod n) mod n = (\<rho> * a mod n + (\<rho> * \<sigma> mod n) * e mod n) mod (n :: int)"
proof -
  have "eqm n (\<rho> * ((a + e * \<sigma>) mod n)) (\<rho> * (a + e * \<sigma>))" by (intro eqm_mult eqm_refl eqm_mod_self)
  also have "\<rho> * (a + e * \<sigma>) = \<rho> * a + (\<rho> * \<sigma>) * e" by (simp add: algebra_simps)
  also have "eqm n \<dots> (\<rho> * a mod n + (\<rho> * \<sigma> mod n) * e mod n)"
    by (intro eqm_sym [OF eqm_add] eqm_mod_self eqm_trans [OF eqm_mod_self] eqm_mult eqm_refl)
  finally show ?thesis by (simp add: eqm_mod_iff)
qed

lemma ST_complete:
  assumes E: "ec_laws E" and tape: "GetRandomIntFromZn (cN E) tape = Ok (a, tape')" "GetRandomIntFromZn (cN E) tape' = Ok (b, rest)"
    and e: "e = SetBytes (sha (sha_input (coords E [(\<sigma> + \<eta> * l) mod cN E, \<rho> * \<sigma> mod cN E, \<rho>, \<eta>, 1, \<rho> * a mod cN E,
        (a + \<eta> * b mod cN E) mod cN E]))) mod cN E"
    and g: "st_good E \<rho> \<eta> \<sigma> l a b e"
  shows "\<exists>p. NewSTProof E sha (Some (mulG E ((\<sigma> + \<eta> * l) mod cN E))) (Some (mulG E (\<rho> * \<sigma> mod cN E))) (Some (mulG E \<rho>))
      (Some (mulG E \<eta>)) \<sigma> l tape = Ok (Some p, rest) \<and>
    STVerify E sha (Some (mulG E (\<rho> * \<sigma> mod cN E))) (Some (mulG E ((\<sigma> + \<eta> * l) mod cN E))) (Some (mulG E \<rho>))
      (Some (mulG E \<eta>)) (Some p) = Ok True"
proof -
  define n bh \<alpha> \<beta> \<tau> t u s1 where defs: "n = cN E" "bh = \<eta> * b mod cN E" "\<alpha> = \<rho> * a mod cN E" "\<beta> = (a + bh) mod cN E"
    "\<tau> = (\<sigma> + \<eta> * l) mod cN E" "t = (a + e * \<sigma>) mod cN E" "u = (b + e * l) mod cN E" "s1 = \<rho> * \<sigma> mod cN E"
  have n: "0 < n" using is_prime_gt_1 [OF ec_lawsD(4) [OF E]] by (simp add: defs)
  have gt: "0 < \<eta>" "\<eta> < n" "0 < b" "b < n" "addable E a bh" "0 < \<tau>" "0 < e" "e < n" "\<not> is01 t" "\<not> is01 u"
    "addable E t (\<eta> * u mod n)" "addable E \<beta> (\<tau> * e mod n)" "fst (mulG E \<beta>) \<noteq> 0" "fst (mulG E \<tau>) \<noteq> 0" "fst (mulG E \<eta>) \<noteq> 0"
    using g unfolding st_good_def t_good_def defs Let_def by blast+
  have gs: "0 < \<rho>" "\<rho> < n" "0 < s1" "addable E \<alpha> (s1 * e mod n)" "fst (mulG E \<alpha>) \<noteq> 0" "fst (mulG E s1) \<noteq> 0" "fst (mulG E \<rho>) \<noteq> 0"
    using g unfolding st_good_def defs Let_def by blast+
  have ranges: "0 < \<beta>" "\<beta> < n" "\<tau> < n" "0 < t" "t < n" "0 < u" "u < n" "s1 < n" "0 < \<alpha>" "\<alpha> < n"
    using addable_sum [OF gt(5)] is01_range [of "a + e * \<sigma>" n] is01_range [of "b + e * l" n] gt(9,10) gs(4) n
    by (simp_all add: defs addable_def)
  have e': "SetBytes (sha (sha_input (coords E [\<tau>, s1, \<rho>, \<eta>, 1, \<alpha>, \<beta>]))) mod cN E = e" using e by (simp add: defs)
  have sum: "(t + \<eta> * u mod n) mod n = (\<beta> + \<tau> * e mod n) mod n" "\<rho> * t mod n = (\<alpha> + s1 * e mod n) mod n"
    using t_equation [of a e \<sigma> n \<eta> b l] st_equation [of \<rho> a e \<sigma> n] by (simp_all only: defs)
  let ?p = "\<lparr>st_AlphaX = fst (mulG E \<alpha>), st_AlphaY = snd (mulG E \<alpha>), st_BetaX = fst (mulG E \<beta>), st_BetaY = snd (mulG E \<beta>),
      st_T = t, st_U = u\<rparr>"
  have "NewSTProof E sha (Some (mulG E \<tau>)) (Some (mulG E s1)) (Some (mulG E \<rho>)) (Some (mulG E \<eta>)) \<sigma> l tape = Ok (Some ?p, rest)"
    unfolding defs(6,7) by (rule NewSTProof_logs [where sha = sha, OF E tape _ _ _ _ _ _ defs(3,2) gt(5) defs(4) e'])
      (use gt gs defs(1) in simp_all)
  moreover have "STVerify E sha (Some (mulG E s1)) (Some (mulG E \<tau>)) (Some (mulG E \<rho>)) (Some (mulG E \<eta>)) (Some ?p) = Ok True"
  proof (rule STVerify_logs [where sha = sha, OF E _ _ _ _ _ _ _ _ _ e' refl refl refl refl])
    show "\<forall>k \<in> set [s1, \<tau>, \<rho>, \<eta>, \<alpha>, \<beta>]. 0 < k \<and> k < cN E \<and> fst (mulG E k) \<noteq> 0"
      using gt(1,2,6,13-15) gs(1-3,5-7) ranges unfolding defs(1) by simp
  qed (fact gt(7-12) [unfolded defs(1)] gs(4) [unfolded defs(1)] ranges(4-7) [unfolded defs(1)] sum [unfolded defs(1)])+
  ultimately show ?thesis unfolding defs(5,8) by blast
qed

section \<open>Completeness of the consistency proof\<close>

lemma cuo_Ok:
  assumes "0 < md" "coprime h1 md \<or> 0 \<le> x" "coprime h2 md \<or> 0 \<le> r"
  shows "commitmentUnknownOrder h1 h2 md x r = Ok ((pw md h1 x * pw md h2 r) mod md)"
  using assms Exp_pw [OF assms(1)] Exp_pw_nonneg [OF assms(1)]
  by (auto simp: commitmentUnknownOrder_def modInt_Exp_def modInt_Mul_def)

lemma pw_1: "0 < md \<Longrightarrow> eqm md (pw md x 1) x"
  using pw_nonneg [of md 1 x] by simp

text \<open>The verifier divides by the power of the commitment.\<close>

lemma cuo_divide:
  assumes md: "0 < md" and z: "coprime z md" and w: "0 \<le> w" "w < md" and v: "eqm md (pw md z e * w) v"
  shows "commitmentUnknownOrder (v mod md) z md 1 (- e) = Ok w"
proof -
  have "eqm md (pw md (v mod md) 1 * pw md z (- e)) (v * pw md z (- e))"
    by (intro eqm_mult eqm_refl eqm_trans [OF pw_1 [OF md]] eqm_mod_self)
  also have "eqm md \<dots> (pw md z e * w * pw md z (- e))" by (intro eqm_mult eqm_refl eqm_sym [OF v])
  also have "pw md z e * w * pw md z (- e) = w * (pw md z e * pw md z (- e))" by simp
  also have "eqm md \<dots> (w * pw md z (e + - e))" by (intro eqm_mult eqm_refl eqm_sym [OF pw_add [OF md z]])
  also have "eqm md \<dots> (w * 1)" using pw_0 [OF md, of z] by (intro eqm_mult eqm_refl) simp
  finally have "(pw md (v mod md) 1 * pw md z (- e)) mod md = w" using w by (simp add: eqm_mod_iff)
  then show ?thesis using cuo_Ok [of md "v mod md" 1 z "- e"] md z by simp
qed

definition pdl_challenge :: "Curve \<Rightarrow> (byte list \<Rightarrow> byte list) \<Rightarrow> PDLwSlackStatement \<Rightarrow> PDLwSlackProof \<Rightarrow> int" where
  "pdl_challenge E sha st p =
     SetBytes (sha (sha_input (map the (pdl_args st (pd_Z p) (Some (pd_U1X p, pd_U1Y p)) (pd_U2 p) (pd_U3 p))))) mod cN E"

text \<open>The values the verifier refuses do not occur, and no addition is degenerate; \<open>R = \<rho> * G\<close>.\<close>

definition pdl_regular :: "Curve \<Rightarrow> (byte list \<Rightarrow> byte list) \<Rightarrow> int \<Rightarrow> int \<Rightarrow> PDLwSlackStatement \<Rightarrow> PDLwSlackProof \<Rightarrow> bool" where
  "pdl_regular E sha \<rho> K1 st p \<longleftrightarrow>
     (let N = pk_N (pd_PK st); NT = pd_NTilde st; e = pdl_challenge E sha st p; q = cN E in
      \<not> pdl_infinity (pd_R st) \<and> \<not> pdl_infinity (pd_K1R st) \<and> \<not> pdl_infinity (Some (pd_U1X p, pd_U1Y p)) \<and>
      (\<forall>(x, md) \<in> set [(pd_CipherText st, N * N), (pd_H1 st, NT), (pd_H2 st, NT), (pd_Z p, NT), (pd_U2 p, N * N),
         (pd_U3 p, NT), (pd_S2 p, N)]. \<not> is01 (x mod md)) \<and>
      0 < e \<and> 0 < pd_S1 p mod q \<and>
      addable E (\<rho> * (pd_S1 p mod q) mod q) ((\<rho> * K1 mod q) * (q - e) mod q))"

text \<open>What a proof returned by the prover consists of.\<close>

lemma NewPDL_Ok:
  assumes "NewPDLwSlackProof E sha K1 r st tape = Ok (p, rest)" "0 < cN E"
  defines "N \<equiv> pk_N (pd_PK st)" and "NT \<equiv> pd_NTilde st" and "e \<equiv> pdl_challenge E sha st p"
  obtains \<alpha> beta rh g where "0 \<le> \<alpha>" "\<alpha> < cN E" "0 \<le> beta" "0 \<le> rh" "0 \<le> g" "0 \<le> e" "e < cN E"
    "commitmentUnknownOrder (pd_H1 st) (pd_H2 st) NT K1 rh = Ok (pd_Z p)"
    "ScalarMult E (pd_R st) (Bytes \<alpha>) = Ok (Some (pd_U1X p, pd_U1Y p))"
    "commitmentUnknownOrder (N + 1) beta (N * N) \<alpha> N = Ok (pd_U2 p)"
    "commitmentUnknownOrder (pd_H1 st) (pd_H2 st) NT \<alpha> g = Ok (pd_U3 p)"
    "sha_call sha (pdl_args st (pd_Z p) (Some (pd_U1X p, pd_U1Y p)) (pd_U2 p) (pd_U3 p)) =
       Ok (SetBytes (sha (sha_input (map the (pdl_args st (pd_Z p) (Some (pd_U1X p, pd_U1Y p)) (pd_U2 p) (pd_U3 p))))))"
    "pd_S1 p = e * K1 + \<alpha>" "commitmentUnknownOrder r beta N e 1 = Ok (pd_S2 p)" "pd_S3 p = e * rh + g"
proof -
  have sha: "sha_call sha args = Ok h \<Longrightarrow> h = SetBytes (sha (sha_input (map the args)))" for args h
    by (auto simp: sha_call_def Sha512_256_def mapM_deref_Ok_iff split: if_splits)
  obtain \<alpha> t1 tmp t2 rh t3 g z u1x u1y u2 u3 h s2 where run:
    "z = pd_Z p" "u1x = pd_U1X p" "u1y = pd_U1Y p" "u2 = pd_U2 p" "u3 = pd_U3 p" "s2 = pd_S2 p"
    "commitmentUnknownOrder (pd_H1 st) (pd_H2 st) NT K1 (rh mod cN E) = Ok z"
    "ScalarMult E (pd_R st) (Bytes (\<alpha> mod cN E)) = Ok (Some (u1x, u1y))"
    "commitmentUnknownOrder (N + 1) (1 + tmp mod cN E) (N * N) (\<alpha> mod cN E) N = Ok u2"
    "commitmentUnknownOrder (pd_H1 st) (pd_H2 st) NT (\<alpha> mod cN E) (g mod cN E) = Ok u3"
    "sha_call sha (pdl_args st z (Some (u1x, u1y)) u2 u3) = Ok h"
    "commitmentUnknownOrder r (1 + tmp mod cN E) N (h mod cN E) 1 = Ok s2"
    "pd_S1 p = h mod cN E * K1 + \<alpha> mod cN E" "pd_S3 p = h mod cN E * (rh mod cN E) + g mod cN E"
    using assms(1) unfolding NewPDLwSlackProof_def Let_def N_def NT_def by (auto simp: Let_def)
  have h: "h mod cN E = e" using sha [OF run(11)] run(1-5) by (simp add: e_def pdl_challenge_def)
  show thesis
  proof (rule that [of "\<alpha> mod cN E" "1 + tmp mod cN E" "rh mod cN E" "g mod cN E"])
    show "0 \<le> e" "e < cN E" using assms(2) by (simp_all flip: h)
    show "0 \<le> 1 + tmp mod cN E" using pos_mod_sign [OF assms(2), of tmp] by linarith
  qed (use run h assms(2) sha [OF run(11)] in simp_all)
qed

text \<open>The three equations of the verifier.\<close>

lemma pdl_point:
  assumes E: "ec_laws E" and r: "0 < \<rho>" "\<rho> < cN E" "0 < \<rho> * K1 mod cN E" and \<alpha>: "0 < \<alpha>" "\<alpha> < cN E" and e: "0 < e" "e < cN E"
    and s1: "s1 = (e * K1 + \<alpha>) mod cN E" "0 < s1"
    and add: "addable E (\<rho> * s1 mod cN E) ((\<rho> * K1 mod cN E) * (cN E - e) mod cN E)"
  shows "\<exists>gS1 yE. ScalarMult E (Some (mulG E \<rho>)) (Bytes s1) = Ok gS1 \<and>
    ScalarMult E (Some (mulG E (\<rho> * K1 mod cN E))) (Bytes (cN E - e)) = Ok yE \<and>
    Add E gS1 yE = Ok (Some (mulG E (\<rho> * \<alpha> mod cN E)))"
proof -
  let ?n = "cN E"
  have n: "0 < ?n" using r by simp
  have "s1 < ?n" "\<rho> * K1 mod ?n < ?n" using n by (simp_all add: s1)
  then have mults: "ScalarMult E (Some (mulG E \<rho>)) (Bytes s1) = Ok (Some (mulG E (\<rho> * s1 mod ?n)))"
    "ScalarMult E (Some (mulG E (\<rho> * K1 mod ?n))) (Bytes (?n - e)) = Ok (Some (mulG E ((\<rho> * K1 mod ?n) * (?n - e) mod ?n)))"
    using r e s1(2) by (auto intro!: ScalarMult_mulG [OF E])
  have "eqm ?n (\<rho> * s1 mod ?n + (\<rho> * K1 mod ?n) * (?n - e) mod ?n) (\<rho> * (e * K1 + \<alpha>) + (\<rho> * K1) * (?n - e))"
    unfolding s1 by (intro eqm_add eqm_trans [OF eqm_mod_self] eqm_mult eqm_refl eqm_mod_self)
  also have "\<rho> * (e * K1 + \<alpha>) + (\<rho> * K1) * (?n - e) = \<rho> * \<alpha> + ?n * (\<rho> * K1)" by (simp add: algebra_simps)
  also have "eqm ?n \<dots> (\<rho> * \<alpha>)" by (simp add: eqm_def)
  finally have "(\<rho> * s1 mod ?n + (\<rho> * K1 mod ?n) * (?n - e) mod ?n) mod ?n = \<rho> * \<alpha> mod ?n" by (simp only: eqm_mod_iff)
  then show ?thesis using mults Add_addable [OF E add] by simp
qed

lemma pdl_cipher:
  assumes pk: "1 < N" and r: "coprime r N" and c: "eqm (N * N) c (pw (N * N) (N + 1) K1 * pw (N * N) r N)"
    and pos: "0 \<le> \<alpha>" "0 \<le> beta" "0 \<le> e"
    and u2: "commitmentUnknownOrder (N + 1) beta (N * N) \<alpha> N = Ok u2" and s2: "commitmentUnknownOrder r beta N e 1 = Ok s2"
  shows "\<exists>v. commitmentUnknownOrder (N + 1) s2 (N * N) (e * K1 + \<alpha>) N = Ok v \<and> commitmentUnknownOrder v c (N * N) 1 (- e) = Ok u2"
proof -
  have N: "0 < N" "0 < N * N" "0 \<le> N" using pk by simp_all
  have u2': "u2 = (pw (N * N) (N + 1) \<alpha> * pw (N * N) beta N) mod (N * N)"
    using u2 cuo_Ok [of "N * N" "N + 1" \<alpha> beta N] N pos coprime_generator [of N] by simp
  have "s2 = (pw N r e * pw N beta 1) mod N" using s2 cuo_Ok [of N r e beta 1] N r by simp
  also have "\<dots> = (pw N r e * beta) mod N"
    using eqm_mult [OF eqm_refl [of N "pw N r e"] pw_1 [OF N(1), of beta]] by (simp add: eqm_mod_iff)
  finally have s2': "s2 = (pw N r e * beta) mod N" .
  let ?v = "pw (N * N) (N + 1) (e * K1 + \<alpha>) * pw (N * N) s2 N"
  have "commitmentUnknownOrder (N + 1) s2 (N * N) (e * K1 + \<alpha>) N = Ok (?v mod (N * N))"
    using cuo_Ok [of "N * N" "N + 1" "e * K1 + \<alpha>" s2 N] N coprime_generator [of N] by simp
  moreover have "coprime c (N * N)"
  proof -
    have "coprime (pw (N * N) r N) (N * N)" using pw_unit [OF N(2), of r] r by simp
    moreover have "coprime (pw (N * N) (N + 1) K1) (N * N)" by (rule pw_unit [OF N(2) coprime_generator])
    ultimately have "coprime (pw (N * N) (N + 1) K1 * pw (N * N) r N) (N * N)" by simp
    then show ?thesis using c by (metis coprime_mod_left_iff eqm_mod_iff N(2) less_irrefl)
  qed
  then have "commitmentUnknownOrder (?v mod (N * N)) c (N * N) 1 (- e) = Ok u2"
    using N by (intro cuo_divide cipher_response [OF N(1) pos(3) s2' c]) (simp_all add: u2')
  ultimately show ?thesis by blast
qed

lemma pdl_pedersen:
  assumes NT: "0 < NT" "coprime h1 NT" "coprime h2 NT" and e: "0 \<le> e"
    and z: "commitmentUnknownOrder h1 h2 NT K1 rh = Ok z" and u3: "commitmentUnknownOrder h1 h2 NT \<alpha> g = Ok u3"
  shows "\<exists>v. commitmentUnknownOrder h1 h2 NT (e * K1 + \<alpha>) (e * rh + g) = Ok v \<and> commitmentUnknownOrder v z NT 1 (- e) = Ok u3"
proof -
  have zu: "z = (pw NT h1 K1 * pw NT h2 rh) mod NT" "u3 = (pw NT h1 \<alpha> * pw NT h2 g) mod NT"
    using z u3 NT by (simp_all add: cuo_Ok)
  have "coprime z NT" using pw_unit [OF NT(1,2)] pw_unit [OF NT(1,3)] NT(1) by (simp add: zu)
  then have "commitmentUnknownOrder ((pw NT h1 (e * K1 + \<alpha>) * pw NT h2 (e * rh + g)) mod NT) z NT 1 (- e) = Ok u3"
    using NT by (intro cuo_divide pedersen_response [OF NT e]) (simp_all add: zu)
  then show ?thesis using NT by (simp add: cuo_Ok)
qed

lemma trivial_residue_not01:
  "0 < md \<Longrightarrow> \<not> is01 (x mod md) \<Longrightarrow> trivial_residue [(x, md)] = Ok False"
  "0 < md \<Longrightarrow> \<not> is01 (x mod md) \<Longrightarrow> \<not> is01 (y mod md) \<Longrightarrow> trivial_residue [(x, md), (y, md)] = Ok False"
  by (simp_all add: trivial_residue_pos is01_def)

lemma PDL_complete:
  assumes E: "ec_laws E" and run: "NewPDLwSlackProof E sha K1 r st tape = Ok (p, rest)"
    and pk: "wf_pk (pd_PK st)" "coprime r (pk_N (pd_PK st))" "cipher_of (pd_PK st) (pd_CipherText st) K1 r"
    and nt: "0 < pd_NTilde st" "coprime (pd_H1 st) (pd_NTilde st)" "coprime (pd_H2 st) (pd_NTilde st)"
    and R: "pd_R st = Some (mulG E \<rho>)" "0 < \<rho>" "\<rho> < cN E" "pd_K1R st = Some (mulG E (\<rho> * K1 mod cN E))" "0 < \<rho> * K1 mod cN E"
    and reg: "pdl_regular E sha \<rho> K1 st p"
  shows "PDLwSlackVerify E sha st (Some p) = Ok True"
proof -
  define N NT e where defs: "N = pk_N (pd_PK st)" "NT = pd_NTilde st" "e = pdl_challenge E sha st p"
  have q: "0 < cN E" using R by simp
  obtain \<alpha> beta rh g where S: "0 \<le> \<alpha>" "\<alpha> < cN E" "0 \<le> beta" "0 \<le> rh" "0 \<le> g" "0 \<le> e" "e < cN E"
    "commitmentUnknownOrder (pd_H1 st) (pd_H2 st) NT K1 rh = Ok (pd_Z p)"
    "ScalarMult E (pd_R st) (Bytes \<alpha>) = Ok (Some (pd_U1X p, pd_U1Y p))"
    "commitmentUnknownOrder (N + 1) beta (N * N) \<alpha> N = Ok (pd_U2 p)"
    "commitmentUnknownOrder (pd_H1 st) (pd_H2 st) NT \<alpha> g = Ok (pd_U3 p)"
    "sha_call sha (pdl_args st (pd_Z p) (Some (pd_U1X p, pd_U1Y p)) (pd_U2 p) (pd_U3 p)) =
       Ok (SetBytes (sha (sha_input (map the (pdl_args st (pd_Z p) (Some (pd_U1X p, pd_U1Y p)) (pd_U2 p) (pd_U3 p))))))"
    "pd_S1 p = e * K1 + \<alpha>" "commitmentUnknownOrder r beta N e 1 = Ok (pd_S2 p)" "pd_S3 p = e * rh + g"
    by (rule NewPDL_Ok [OF run q]) (auto simp: defs)
  have G: "\<not> pdl_infinity (pd_R st)" "\<not> pdl_infinity (pd_K1R st)" "\<not> pdl_infinity (Some (pd_U1X p, pd_U1Y p))"
    "\<not> is01 (pd_CipherText st mod (N * N))" "\<not> is01 (pd_H1 st mod NT)" "\<not> is01 (pd_H2 st mod NT)" "\<not> is01 (pd_Z p mod NT)"
    "\<not> is01 (pd_U2 p mod (N * N))" "\<not> is01 (pd_U3 p mod NT)" "\<not> is01 (pd_S2 p mod N)" "0 < e" "0 < pd_S1 p mod cN E"
    "addable E (\<rho> * (pd_S1 p mod cN E) mod cN E) ((\<rho> * K1 mod cN E) * (cN E - e) mod cN E)"
    using reg unfolding pdl_regular_def Let_def defs by simp_all
  have wf: "1 < N" "eqm (N * N) (pd_CipherText st) (pw (N * N) (N + 1) K1 * pw (N * N) r N)"
    using pk by (simp_all add: wf_pk_def cipher_of_def defs)
  have "\<alpha> \<noteq> 0"
    using S(9) R ScalarMult_eq [of E "mulG E \<rho>" 0] ec_lawsD(3,8) [OF E] by auto
  then have \<alpha>: "0 < \<alpha>" using S(1) by simp
  have u1: "mulG E (\<rho> * \<alpha> mod cN E) = (pd_U1X p, pd_U1Y p)"
    using S(9) ScalarMult_mulG [OF E R(2,3) \<alpha> S(2)] R(1) by simp
  have "0 < \<rho> * \<alpha> mod cN E" using prime_mult_range [OF ec_lawsD(4) [OF E] R(2,3) \<alpha> S(2)] by simp
  then have on: "IsOnCurve E (pd_U1X p) (pd_U1Y p)" using ec_lawsD(12) [OF E, of "\<rho> * \<alpha> mod cN E"] u1 q by simp
  obtain gS1 yE where pts: "ScalarMult E (pd_R st) (Bytes (pd_S1 p mod cN E)) = Ok gS1"
    "ScalarMult E (pd_K1R st) (Bytes (cN E - e)) = Ok yE" "Add E gS1 yE = Ok (Some (pd_U1X p, pd_U1Y p))"
    using pdl_point [OF E R(2,3,5) \<alpha> S(2) G(11) S(7) _ _ G(13)] S(13) G(12) R u1 by auto
  obtain v2 where v2: "commitmentUnknownOrder (N + 1) (pd_S2 p) (N * N) (pd_S1 p) N = Ok v2"
    "commitmentUnknownOrder v2 (pd_CipherText st) (N * N) 1 (- e) = Ok (pd_U2 p)"
    using pdl_cipher [OF wf(1) _ wf(2) S(1,3,6,10,14)] pk(2) S(13) by (auto simp: defs)
  obtain v3 where v3: "commitmentUnknownOrder (pd_H1 st) (pd_H2 st) NT (pd_S1 p) (pd_S3 p) = Ok v3"
    "commitmentUnknownOrder v3 (pd_Z p) NT 1 (- e) = Ok (pd_U3 p)"
    using pdl_pedersen [OF _ _ _ S(6,8,11)] nt S(13,15) by (auto simp: defs)
  note tr = trivial_residue_not01
  have t: "trivial_residue [(pd_CipherText st, N * N)] = Ok False" "trivial_residue [(pd_H1 st, NT), (pd_H2 st, NT)] = Ok False"
    "trivial_residue [(pd_Z p, NT)] = Ok False" "trivial_residue [(pd_U2 p, N * N)] = Ok False"
    "trivial_residue [(pd_U3 p, NT)] = Ok False" "trivial_residue [(pd_S2 p, N)] = Ok False"
    using G nt wf(1) by (auto intro!: tr simp: defs)
  show ?thesis
    unfolding PDLwSlackVerify_def option.case defs [symmetric]
    using G(1-3) t S(12) defs(3) [unfolded pdl_challenge_def] pts v2 v3 on by (simp add: Let_def)
qed

section \<open>The second generator is on the curve\<close>

text \<open>The documented behaviour of \<^verbatim>\<open>ModSqrt\<close>: it returns a root in the field or \<^verbatim>\<open>nil\<close>.\<close>

definition sqrt_laws :: "(int \<Rightarrow> int \<Rightarrow> int option res) \<Rightarrow> int \<Rightarrow> bool" where
  "sqrt_laws ms p \<longleftrightarrow> (\<forall>y. ms y p = Ok None \<or> (\<exists>r. ms y p = Ok (Some r) \<and> 0 \<le> r \<and> r < p \<and> eqm p (r * r) y))"

lemma decompressPoint_cases:
  assumes "sqrt_laws ms (cP E)" "odd (cP E)" "cB E = 7"
  shows "decompressPoint E ms x 2 = Err ''invalid point'' \<or>
    (\<exists>y. decompressPoint E ms x 2 = Ok (x, y) \<and> even y \<and> IsOnCurve E x y)"
proof (cases "ms (x * x * x + 7) (cP E) = Ok None")
  case True
  then show ?thesis by (simp add: decompressPoint_def)
next
  case False
  then obtain r where r: "ms (x * x * x + 7) (cP E) = Ok (Some r)" "0 \<le> r" "r < cP E" "eqm (cP E) (r * r) (x * x * x + 7)"
    using assms(1) by (auto simp: sqrt_laws_def)
  show ?thesis
  proof (cases "even r")
    case True
    then show ?thesis using r assms(3) by (simp add: decompressPoint_def IsOnCurve_eqm)
  next
    case False
    then have "(- r) mod cP E = cP E - r" using r(2,3) by (subst zmod_zminus1_eq_if) (auto simp: odd_pos)
    moreover have "(cP E - r) * (cP E - r) - r * r = cP E * (cP E - 2 * r)" by (simp add: algebra_simps)
    then have "eqm (cP E) ((cP E - r) * (cP E - r)) (x * x * x + 7)"
      using r(4) eqm_trans [of "cP E" _ "r * r"] by (simp add: eqm_def)
    ultimately show ?thesis using r(1) False assms by (simp add: decompressPoint_def IsOnCurve_eqm)
  qed
qed

lemma hpoint_loop_cases:
  assumes "sqrt_laws ms (cP E)" "odd (cP E)" "cB E = 7"
  shows "i + fuel = 10 \<Longrightarrow> (\<And>x y. h = Some (x, y) \<Longrightarrow> 3 \<le> i \<and> x = SetBytes ((sha256 ^^ i) bz0) \<and> even y \<and> IsOnCurve E x y) \<Longrightarrow>
     bz = (sha256 ^^ i) bz0 \<Longrightarrow>
     hpoint_loop E sha256 ms fuel i bz h = Err ''too many rounds (max: 10)'' \<or>
     (\<exists>k x y. 3 \<le> k \<and> k \<le> 10 \<and> x = SetBytes ((sha256 ^^ k) bz0) \<and> even y \<and> IsOnCurve E x y \<and>
        hpoint_loop E sha256 ms fuel i bz h = Ok (Some (x, y)))"
proof (induction fuel arbitrary: i bz h)
  case 0
  then show ?case by (cases h) (auto intro!: exI [of _ "10::nat"])
next
  case (Suc fuel)
  show ?case
  proof (cases "i < 3 \<or> h = None")
    case False
    then show ?thesis using Suc.prems by (cases h) (auto intro!: exI [of _ i])
  next
    case True
    then have hN: "h = None" using Suc.prems(2) by (cases h) auto
    have bz: "sha256 bz = (sha256 ^^ Suc i) bz0" using Suc.prems(3) by simp
    show ?thesis
    proof (cases "2 \<le> i")
      case False
      then show ?thesis using True hN Suc.IH [of "Suc i" None "sha256 bz"] Suc.prems(1) bz by simp
    next
      case i: True
      show ?thesis
        using decompressPoint_cases [OF assms, of "SetBytes (sha256 bz)"]
      proof
        assume "decompressPoint E ms (SetBytes (sha256 bz)) 2 = Err ''invalid point''"
        then show ?thesis using True i Suc.IH [of "Suc i" None "sha256 bz"] Suc.prems(1) bz by simp
      next
        assume "\<exists>y. decompressPoint E ms (SetBytes (sha256 bz)) 2 = Ok (SetBytes (sha256 bz), y) \<and> even y \<and>
          IsOnCurve E (SetBytes (sha256 bz)) y"
        then obtain y where y: "decompressPoint E ms (SetBytes (sha256 bz)) 2 = Ok (SetBytes (sha256 bz), y)" "even y"
          "IsOnCurve E (SetBytes (sha256 bz)) y" by blast
        then show ?thesis
          using True i Suc.IH [of "Suc i" "Some (SetBytes (sha256 bz), y)" "sha256 bz"] Suc.prems(1) bz
          by (simp add: Let_def)
      qed
    qed
  qed
qed

section \<open>Properties\<close>

text \<open>\<^verbatim>\<open>CalcHPoint\<close> ends after at most ten hashes, with its error or with a point of the curve that has
  an even ordinate and an iterated hash of the encoded base point as abscissa; it never panics.\<close>

theorem CalcHPoint_on_curve:
  assumes "sqrt_laws ms (cP E)" "odd (cP E)" "cB E = 7"
  shows "CalcHPoint E sha256 ms = Err ''too many rounds (max: 10)'' \<or>
    (\<exists>k x y. 3 \<le> k \<and> k \<le> 10 \<and> x = SetBytes ((sha256 ^^ k) (Marshal E (cGx E) (cGy E))) \<and> even y \<and> IsOnCurve E x y \<and>
       CalcHPoint E sha256 ms = Ok (Some (x, y)))"
  unfolding CalcHPoint_def by (rule hpoint_loop_cases [OF assms]) simp_all

text \<open>Square roots modulo 11 by search, on the curve \<open>y\<^sup>2 = x\<^sup>3 + 7\<close>.\<close>

definition toy_sqrt :: "int \<Rightarrow> int \<Rightarrow> int option res" where
  "toy_sqrt y p = Ok (List.find (\<lambda>r. (r * r) mod p = y mod p) [0..p - 1])"

definition toy_curve7 :: Curve where
  "toy_curve7 = \<lparr>cP = 11, cN = 12, cB = 7, cGx = 3, cGy = 1, BitSize = 4, ecmult_const = (\<lambda>A k. A)\<rparr>"

theorem CalcHPoint_on_curve_witness:
  "CalcHPoint toy_curve7 (\<lambda>bs. [2]) toy_sqrt = Ok (Some (2, 2)) \<and> IsOnCurve toy_curve7 2 2"
proof -
  have "sqrt_laws toy_sqrt (cP toy_curve7)"
    unfolding sqrt_laws_def
  proof
    fix y
    show "toy_sqrt y (cP toy_curve7) = Ok None \<or>
      (\<exists>r. toy_sqrt y (cP toy_curve7) = Ok (Some r) \<and> 0 \<le> r \<and> r < cP toy_curve7 \<and> eqm (cP toy_curve7) (r * r) y)"
    proof (cases "List.find (\<lambda>r. (r * r) mod 11 = y mod 11) [0..10]")
      case (Some r)
      then have "r \<in> set [0..10]" "(r * r) mod 11 = y mod 11" by (auto simp only: find_Some_iff nth_mem)
      then show ?thesis using Some by (simp add: toy_sqrt_def toy_curve7_def eqm_mod_iff)
    qed (simp add: toy_sqrt_def toy_curve7_def)
  qed
  then have "CalcHPoint toy_curve7 (\<lambda>bs. [2]) toy_sqrt = Err ''too many rounds (max: 10)'' \<or>
    (\<exists>k x y. 3 \<le> k \<and> k \<le> 10 \<and> x = SetBytes (((\<lambda>bs. [2]) ^^ k) (Marshal toy_curve7 (cGx toy_curve7) (cGy toy_curve7))) \<and>
       even y \<and> IsOnCurve toy_curve7 x y \<and> CalcHPoint toy_curve7 (\<lambda>bs. [2]) toy_sqrt = Ok (Some (x, y)))"
    by (rule CalcHPoint_on_curve) (simp_all add: toy_curve7_def)
  moreover have "CalcHPoint toy_curve7 (\<lambda>bs. [2]) toy_sqrt = Ok (Some (2, 2))" by code_simp
  ultimately show ?thesis by auto
qed

text \<open>The proofs for the points \<open>T = \<sigma> * G + l * h\<close> and \<open>S = \<sigma> * R\<close> of the signing phase are produced and accepted
  whenever the random numbers lead to no degenerate point and no refused response.\<close>

theorem T_and_ST_complete:
  assumes "ec_laws E" "GetRandomIntFromZn (cN E) tape = Ok (a, tape')" "GetRandomIntFromZn (cN E) tape' = Ok (b, rest)"
    and T: "T = (\<sigma> + \<eta> * l) mod cN E" and S: "S = \<rho> * \<sigma> mod cN E"
    and eT: "eT = SetBytes (sha (sha_input (coords E [T, \<eta>, 1, (a + \<eta> * b mod cN E) mod cN E]))) mod cN E"
    and eS: "eS = SetBytes (sha (sha_input (coords E [T, S, \<rho>, \<eta>, 1, \<rho> * a mod cN E, (a + \<eta> * b mod cN E) mod cN E]))) mod cN E"
    and "t_good E \<eta> \<sigma> l a b eT" "st_good E \<rho> \<eta> \<sigma> l a b eS"
  shows "(\<exists>p. TProve E sha (Some (mulG E T)) (Some (mulG E \<eta>)) \<sigma> l tape = Ok (Some p, rest) \<and>
      TVerify E sha (Some (mulG E T)) (Some (mulG E \<eta>)) (Some p) = Ok True) \<and>
    (\<exists>p. NewSTProof E sha (Some (mulG E T)) (Some (mulG E S)) (Some (mulG E \<rho>)) (Some (mulG E \<eta>)) \<sigma> l tape = Ok (Some p, rest) \<and>
      STVerify E sha (Some (mulG E S)) (Some (mulG E T)) (Some (mulG E \<rho>)) (Some (mulG E \<eta>)) (Some p) = Ok True)"
  using T_complete [where sha = sha, OF assms(1-3) eT [unfolded T] assms(8)]
    ST_complete [where sha = sha, OF assms(1-3) eS [unfolded T S] assms(9)] unfolding T S by blast

theorem T_and_ST_complete_witness:
  "(\<exists>p. TProve toy_curve toy_sha (Some (mulG toy_curve 10)) (Some (mulG toy_curve 6)) 5 3 [7, 2] = Ok (Some p, []) \<and>
      TVerify toy_curve toy_sha (Some (mulG toy_curve 10)) (Some (mulG toy_curve 6)) (Some p) = Ok True) \<and>
    (\<exists>p. NewSTProof toy_curve toy_sha (Some (mulG toy_curve 10)) (Some (mulG toy_curve 9)) (Some (mulG toy_curve 7))
        (Some (mulG toy_curve 6)) 5 3 [7, 2] = Ok (Some p, []) \<and>
      STVerify toy_curve toy_sha (Some (mulG toy_curve 9)) (Some (mulG toy_curve 10)) (Some (mulG toy_curve 7))
        (Some (mulG toy_curve 6)) (Some p) = Ok True)"
proof (rule T_and_ST_complete [OF toy_curve_laws])
  show "GetRandomIntFromZn (cN toy_curve) [7, 2] = Ok (7, [2])" "GetRandomIntFromZn (cN toy_curve) [2] = Ok (2, [])"
    by code_simp+
  show "(10::int) = (5 + 6 * 3) mod cN toy_curve" "(9::int) = 7 * 5 mod cN toy_curve" by (simp_all add: toy_curve_def)
  show "t_good toy_curve 6 5 3 7 2 3" "st_good toy_curve 7 6 5 3 7 2 3" by code_simp+
qed (simp_all add: toy_sha_def toy_curve_def)

text \<open>C31: the proof that \<open>k * R\<close> and the Paillier ciphertext of \<open>k\<close> are consistent, when the prover returns it, is
  accepted: for the ciphertext of \<open>k\<close> with the stored randomness, a well-formed key and auxiliary
  modulus, up to the values the verifier refuses and degenerate additions.\<close>

theorem PDLwSlack_complete:
  assumes "ec_laws E" "NewPDLwSlackProof E sha K1 r st tape = Ok (p, rest)"
    and "wf_pk (pd_PK st)" "coprime r (pk_N (pd_PK st))" "cipher_of (pd_PK st) (pd_CipherText st) K1 r"
    and "0 < pd_NTilde st" "coprime (pd_H1 st) (pd_NTilde st)" "coprime (pd_H2 st) (pd_NTilde st)"
    and "pd_R st = Some (mulG E \<rho>)" "0 < \<rho>" "\<rho> < cN E" "pd_K1R st = Some (mulG E (\<rho> * K1 mod cN E))" "0 < \<rho> * K1 mod cN E"
    and "pdl_regular E sha \<rho> K1 st p"
  shows "PDLwSlackVerify E sha st (Some p) = Ok True"
  by (rule PDL_complete [OF assms])

definition toy_statement :: PDLwSlackStatement where
  "toy_statement = \<lparr>pd_CipherText = 193, pd_PK = toy_pk, pd_K1R = Some (mulG toy_curve 7), pd_R = Some (mulG toy_curve 2),
     pd_H1 = 4, pd_H2 = 9, pd_NTilde = 35\<rparr>"

definition toy_pdl :: PDLwSlackProof where
  "toy_pdl = \<lparr>pd_Z = 29, pd_U1X = fst (mulG toy_curve 4), pd_U1Y = snd (mulG toy_curve 4), pd_U2 = 53, pd_U3 = 4,
     pd_S1 = 32, pd_S2 = 16, pd_S3 = 4\<rparr>"

theorem PDLwSlack_complete_witness: "PDLwSlackVerify toy_curve toy_sha toy_statement (Some toy_pdl) = Ok True"
proof (rule PDLwSlack_complete [OF toy_curve_laws])
  show "NewPDLwSlackProof toy_curve toy_sha 10 2 toy_statement [2, 1, 1, 1] = Ok (toy_pdl, [])" by code_simp
  have "Encrypt toy_pk (Some 10) [2] = Ok ((193, 2), [])" by code_simp
  then have "cipher_of toy_pk 193 10 2" by (rule Encrypt_cipher_of [OF toy_wf(1)])
  then show "cipher_of (pd_PK toy_statement) (pd_CipherText toy_statement) 10 2" by (simp add: toy_statement_def)
  have "gcd (2::int) 35 = 1" "gcd (4::int) 35 = 1" "gcd (9::int) 35 = 1" by code_simp+
  then show "coprime 2 (pk_N (pd_PK toy_statement))" "coprime (pd_H1 toy_statement) (pd_NTilde toy_statement)"
    "coprime (pd_H2 toy_statement) (pd_NTilde toy_statement)"
    by (simp_all add: toy_statement_def toy_pk_def coprime_iff_gcd_eq_1)
  show "pdl_regular toy_curve toy_sha 2 10 toy_statement toy_pdl" by code_simp
qed (simp_all add: toy_statement_def toy_wf, simp_all add: toy_curve_def)

end
