(* ===== verification/Signing.thy ===== *)
theory Signing
  imports Keygen SignZK
begin

text \<open>
  \<^verbatim>\<open>smpc-lib/ecdsa/signing/message.go\<close>, \<^verbatim>\<open>local_dnode.go\<close>, \<^verbatim>\<open>rounds.go\<close> and \<^verbatim>\<open>signature_data.go\<close>: the messages
  and the state of a node during signing.  A pair of coordinates is a \<open>point\<close>, \<open>None\<close> when one of
  them is \<^verbatim>\<open>nil\<close>.  The rounds 1 to 9 compute the presigning data; a node created with \<^verbatim>\<open>finalize\<close> runs
  the rounds 10 and 11, which compute the signature.  The identifiers \<^verbatim>\<open>idsign\<close> of the signers are
  built from node indices and are never \<^verbatim>\<open>nil\<close>.
\<close>

section \<open>Messages\<close>

record SignRoundMessage =
  sm_FromID :: string
  sm_FromIndex :: int
  sm_ToID :: "string list"

definition sm_SetFromID :: "string \<Rightarrow> SignRoundMessage \<Rightarrow> SignRoundMessage" where
  "sm_SetFromID fid srm = srm\<lparr>sm_FromID := fid\<rparr>"

definition sm_SetFromIndex :: "int \<Rightarrow> SignRoundMessage \<Rightarrow> SignRoundMessage" where
  "sm_SetFromIndex index srm = srm\<lparr>sm_FromIndex := index\<rparr>"

definition sm_AppendToID :: "string \<Rightarrow> SignRoundMessage \<Rightarrow> SignRoundMessage" where
  "sm_AppendToID toid srm = srm\<lparr>sm_ToID := sm_ToID srm @ [toid]\<rparr>"

datatype SignMessage =
  SignRound1Message (sm_base: SignRoundMessage) (C11: "int option") (ComWiC: "int option")
| SignRound2Message (sm_base: SignRoundMessage) (U1u1MtAZK1Proof: "MtARangeProof option")
| SignRound3Message (sm_base: SignRoundMessage) (Kc: "int option") (ComWiD: "int option list")
| SignRound4Message (sm_base: SignRoundMessage) (U1KGamma1Cipher: "int option") (U1u1MtAZK2Proof: "MtARespZKProof option")
| SignRound4Message1 (sm_base: SignRoundMessage) (U1Kw1Cipher: "int option") (U1u1MtAZK3Proof: "MtAwcRespZKProof option")
| SignRound5Message (sm_base: SignRoundMessage) (Delta1: "int option") (m_T1: point) (Tpf: "TProof option")
| SignRound6Message (sm_base: SignRoundMessage) (CommU1D: "int option list") (U1GammaZKProof: "ZkUProof option")
| SignRound7Message (sm_base: SignRoundMessage) (m_K1R: point) (PdlwSlackPf: "PDLwSlackProof option")
| SignRound8Message (sm_base: SignRoundMessage) (m_S1: point) (STpf: "STProof option")
| SignRound9Message (sm_base: SignRoundMessage) (Us1: "int option")

definition sm_GetFromID :: "SignMessage \<Rightarrow> string" where
  "sm_GetFromID msg = sm_FromID (sm_base msg)"

definition sm_GetFromIndex :: "SignMessage \<Rightarrow> int" where
  "sm_GetFromIndex msg = sm_FromIndex (sm_base msg)"

fun sm_IsBroadcast :: "SignMessage \<Rightarrow> bool" where
  "sm_IsBroadcast (SignRound2Message _ _) = False"
| "sm_IsBroadcast (SignRound4Message _ _ _) = False"
| "sm_IsBroadcast (SignRound4Message1 _ _ _) = False"
| "sm_IsBroadcast _ = True"

fun sm_GetMsgType :: "SignMessage \<Rightarrow> string" where
  "sm_GetMsgType (SignRound1Message _ _ _) = ''SignRound1Message''"
| "sm_GetMsgType (SignRound2Message _ _) = ''SignRound2Message''"
| "sm_GetMsgType (SignRound3Message _ _ _) = ''SignRound3Message''"
| "sm_GetMsgType (SignRound4Message _ _ _) = ''SignRound4Message''"
| "sm_GetMsgType (SignRound4Message1 _ _ _) = ''SignRound4Message1''"
| "sm_GetMsgType (SignRound5Message _ _ _ _) = ''SignRound5Message''"
| "sm_GetMsgType (SignRound6Message _ _ _) = ''SignRound6Message''"
| "sm_GetMsgType (SignRound7Message _ _ _) = ''SignRound7Message''"
| "sm_GetMsgType (SignRound8Message _ _ _) = ''SignRound8Message''"
| "sm_GetMsgType (SignRound9Message _ _) = ''SignRound9Message''"

text \<open>\<^verbatim>\<open>msg, _ := slot.(*SignRoundXMessage)\<close> followed by an access: a failed assertion is a \<^verbatim>\<open>nil\<close> pointer.\<close>

definition got :: "(SignMessage \<Rightarrow> bool) \<Rightarrow> SignMessage option \<Rightarrow> SignMessage res" where
  "got P slot = (case slot of Some msg \<Rightarrow> if P msg then Ok msg else deref None | None \<Rightarrow> deref None)"

section \<open>The state\<close>

record SgEnv =
  se_E :: Curve
  se_H :: "byte list \<Rightarrow> byte list"
  se_sha :: "byte list \<Rightarrow> byte list"
  se_sha256 :: "byte list \<Rightarrow> byte list"
  se_ms :: "int \<Rightarrow> int \<Rightarrow> int option res"

record PrePubData =
  pre_K1 :: "int option"
  pre_R :: "int option"
  pre_Ry :: "int option"
  pre_Sigma1 :: "int option"

type_synonym sign_slots = "SignMessage option list"

record SignTempData =
  signRound1Messages :: sign_slots
  signRound2Messages :: sign_slots
  signRound3Messages :: sign_slots
  signRound4Messages :: sign_slots
  signRound4Messages1 :: sign_slots
  signRound5Messages :: sign_slots
  signRound6Messages :: sign_slots
  signRound7Messages :: sign_slots
  signRound8Messages :: sign_slots
  signRound9Messages :: sign_slots
  t_w1 :: "int option"
  t_u1K :: "int option"
  t_u1Gamma :: "int option"
  t_commitU1GammaG :: "Commitment option"
  t_commitwiG :: "Commitment option"
  t_ukc :: "int option"
  t_ukc2 :: "int option"
  t_betaU1Star :: "int list"
  t_betaU1 :: "int list"
  t_vU1Star :: "int list"
  t_vU1 :: "int list"
  t_alpha1 :: "int option list"
  t_uu1 :: "int option list"
  t_delta1 :: "int option"
  t_sigma1 :: "int option"
  t_t1 :: point
  t_l1 :: "int option"
  t_deltaSum :: "int option"
  t_deltaGammaG :: point

record SignDNode =
  s_ID :: string
  s_rnd :: "nat option"
  s_ThresHold :: int
  s_PaillierKeyLength :: int
  s_temp :: SignTempData
  s_save :: LocalDNodeSaveData
  s_idsign :: "int list"
  s_out :: "SignMessage list"
  s_end :: "PrePubData list"
  s_finalize :: bool
  s_predata :: "PrePubData option"
  s_txhash :: "int option"
  s_finalizeend :: "int list"
  b_ok :: "bool list"
  b_started :: bool
  b_number :: nat
  b_kgid :: string
  b_threshold :: int
  b_paillierkeylength :: int
  s_tape :: tape

section \<open>Construction\<close>

definition new_SignTempData :: "int \<Rightarrow> SignTempData" where
  "new_SignTempData n =
     (let none = replicate (nat n) None
      in \<lparr>signRound1Messages = none, signRound2Messages = none, signRound3Messages = none, signRound4Messages = none,
          signRound4Messages1 = none, signRound5Messages = none, signRound6Messages = none, signRound7Messages = none,
          signRound8Messages = none, signRound9Messages = none,
          t_w1 = None, t_u1K = None, t_u1Gamma = None, t_commitU1GammaG = None, t_commitwiG = None, t_ukc = None,
          t_ukc2 = None, t_betaU1Star = [], t_betaU1 = [], t_vU1Star = [], t_vU1 = [], t_alpha1 = [], t_uu1 = [],
          t_delta1 = None, t_sigma1 = None, t_t1 = None, t_l1 = None, t_deltaSum = None, t_deltaGammaG = None\<rparr>)"

definition sign_NewLocalDNode :: "LocalDNodeSaveData \<Rightarrow> int list \<Rightarrow> int option \<Rightarrow> int \<Rightarrow> int \<Rightarrow> bool \<Rightarrow>
    PrePubData option \<Rightarrow> int option \<Rightarrow> tape \<Rightarrow> SignDNode res" where
  "sign_NewLocalDNode save idsign kgid threshold paillierkeylength finalize predata txhash tape =
     (if threshold < 0 then Panic ''makeslice: len out of range''
      else Ok \<lparr>s_ID = fmt_v kgid, s_rnd = None, s_ThresHold = threshold, s_PaillierKeyLength = paillierkeylength,
               s_temp = new_SignTempData threshold, s_save = save, s_idsign = idsign, s_out = [], s_end = [],
               s_finalize = finalize, s_predata = predata, s_txhash = txhash, s_finalizeend = [],
               b_ok = [], b_started = False, b_number = 0, b_kgid = [], b_threshold = 0, b_paillierkeylength = 0,
               s_tape = tape\<rparr>)"

definition sign_SetDNodeID :: "string \<Rightarrow> SignDNode \<Rightarrow> SignDNode" where
  "sign_SetDNodeID idn p = p\<lparr>s_ID := EncodeToString (string_bytes idn)\<rparr>"

text \<open>The \<^verbatim>\<open>base\<close> object made by \<^verbatim>\<open>newRound1\<close> and \<^verbatim>\<open>newRound10\<close>.\<close>

definition new_base :: "SignDNode \<Rightarrow> SignDNode" where
  "new_base p =
     p\<lparr>b_ok := replicate (nat (s_ThresHold p)) False, b_started := False, b_number := 0, b_kgid := s_ID p,
       b_threshold := s_ThresHold p, b_paillierkeylength := s_PaillierKeyLength p\<rparr>"

definition newRound1 :: "SignDNode \<Rightarrow> SignDNode \<times> nat option" where
  "newRound1 p = (new_base p, Some 1)"

definition newRound10 :: "SignDNode \<Rightarrow> SignDNode \<times> nat option" where
  "newRound10 p = (new_base p, Some 10)"

section \<open>Storing messages\<close>

definition sign_CheckFull :: "sign_slots \<Rightarrow> bool" where
  "sign_CheckFull msg = (if length msg = 0 then False else list_all (\<lambda>v. v \<noteq> None) msg)"

definition sign_find :: "sign_slots \<Rightarrow> SignMessage \<Rightarrow> bool" where
  "sign_find l msg = list_ex (\<lambda>v. case v of None \<Rightarrow> False
     | Some v \<Rightarrow> sm_GetMsgType v = sm_GetMsgType msg \<and> sm_GetFromID v = sm_GetFromID msg) l"

fun sign_slots_of :: "SignMessage \<Rightarrow> SignTempData \<Rightarrow> sign_slots" where
  "sign_slots_of (SignRound1Message _ _ _) = signRound1Messages"
| "sign_slots_of (SignRound2Message _ _) = signRound2Messages"
| "sign_slots_of (SignRound3Message _ _ _) = signRound3Messages"
| "sign_slots_of (SignRound4Message _ _ _) = signRound4Messages"
| "sign_slots_of (SignRound4Message1 _ _ _) = signRound4Messages1"
| "sign_slots_of (SignRound5Message _ _ _ _) = signRound5Messages"
| "sign_slots_of (SignRound6Message _ _ _) = signRound6Messages"
| "sign_slots_of (SignRound7Message _ _ _) = signRound7Messages"
| "sign_slots_of (SignRound8Message _ _ _) = signRound8Messages"
| "sign_slots_of (SignRound9Message _ _) = signRound9Messages"

fun sign_slots_update :: "SignMessage \<Rightarrow> sign_slots \<Rightarrow> SignTempData \<Rightarrow> SignTempData" where
  "sign_slots_update (SignRound1Message _ _ _) ms t = t\<lparr>signRound1Messages := ms\<rparr>"
| "sign_slots_update (SignRound2Message _ _) ms t = t\<lparr>signRound2Messages := ms\<rparr>"
| "sign_slots_update (SignRound3Message _ _ _) ms t = t\<lparr>signRound3Messages := ms\<rparr>"
| "sign_slots_update (SignRound4Message _ _ _) ms t = t\<lparr>signRound4Messages := ms\<rparr>"
| "sign_slots_update (SignRound4Message1 _ _ _) ms t = t\<lparr>signRound4Messages1 := ms\<rparr>"
| "sign_slots_update (SignRound5Message _ _ _ _) ms t = t\<lparr>signRound5Messages := ms\<rparr>"
| "sign_slots_update (SignRound6Message _ _ _) ms t = t\<lparr>signRound6Messages := ms\<rparr>"
| "sign_slots_update (SignRound7Message _ _ _) ms t = t\<lparr>signRound7Messages := ms\<rparr>"
| "sign_slots_update (SignRound8Message _ _ _) ms t = t\<lparr>signRound8Messages := ms\<rparr>"
| "sign_slots_update (SignRound9Message _ _) ms t = t\<lparr>signRound9Messages := ms\<rparr>"

definition sign_DulMessage :: "SignDNode \<Rightarrow> SignMessage \<Rightarrow> bool" where
  "sign_DulMessage p msg = sign_find (sign_slots_of msg (s_temp p)) msg"

definition sign_full_now :: "SignDNode \<Rightarrow> sign_slots \<Rightarrow> bool" where
  "sign_full_now p ms = (int (length ms) = s_ThresHold p \<and> sign_CheckFull ms)"

definition sign_put_at :: "int \<Rightarrow> SignMessage \<Rightarrow> SignDNode \<Rightarrow> (SignDNode, sign_slots) st" where
  "sign_put_at index msg p =
     tryr (slice_set (sign_slots_of msg (s_temp p)) index (Some msg)) p (\<lambda>ms.
       (p\<lparr>s_temp := sign_slots_update msg ms (s_temp p)\<rparr>, Ok ms))"

text \<open>The check of a round 5 message.\<close>

definition check_tproof :: "SgEnv \<Rightarrow> SignMessage \<Rightarrow> unit res" where
  "check_tproof env msg =
     (case msg of
        SignRound5Message _ _ t1 tpf \<Rightarrow>
          bindr (CalcHPoint (se_E env) (se_sha256 env) (se_ms env)) (\<lambda>h.
          bindr (TVerify (se_E env) (se_sha env) t1 h tpf) (\<lambda>ok.
            if \<not> ok then Err ''verify tproof fail'' else Ok ()))
      | _ \<Rightarrow> Ok ())"

definition sign_StoreMessage :: "SgEnv \<Rightarrow> SignDNode \<Rightarrow> SignMessage \<Rightarrow> (SignDNode, bool) st" where
  "sign_StoreMessage env p msg =
     (if sign_find (sign_slots_of msg (s_temp p)) msg then (p, Ok False)
      else tryr (check_tproof env msg) p (\<lambda>_.
           bindst (sign_put_at (sm_GetFromIndex msg) msg p) (\<lambda>p ms. (p, Ok (sign_full_now p ms)))))"

section \<open>rounds.go\<close>

definition sign_CanProceed :: "SignDNode \<Rightarrow> bool" where
  "sign_CanProceed p = (if \<not> b_started p then False else list_all (\<lambda>ok. ok) (b_ok p))"

definition sign_ResetOK :: "SignDNode \<Rightarrow> SignDNode" where
  "sign_ResetOK p = p\<lparr>b_ok := map (\<lambda>_. False) (b_ok p)\<rparr>"

fun index_of :: "int option \<Rightarrow> int list \<Rightarrow> int \<Rightarrow> int option res" where
  "index_of idtmp [] k = Ok None"
| "index_of idtmp (v # vs) k = bindr (deref idtmp) (\<lambda>i. if v = i then Ok (Some k) else index_of idtmp vs (k + 1))"

definition sign_GetDNodeIDIndex :: "SignDNode \<Rightarrow> string \<Rightarrow> int res" where
  "sign_GetDNodeIDIndex p idn =
     (if idn = [] then Ok (-1)
      else bindr (decode_id idn) (\<lambda>idtmp.
           bindr (index_of idtmp (s_idsign p) 0) (\<lambda>k.
             ofOption ''get dnode index fail,no found in kgRound0Messages'' k)))"

section \<open>Lemmas\<close>

lemma sign_slots_of_update [simp]: "sign_slots_of msg (sign_slots_update msg ms t) = ms"
  by (cases msg) auto

lemma sign_slots_update_other:
  "sm_GetMsgType m \<noteq> sm_GetMsgType msg \<Longrightarrow> sign_slots_of m (sign_slots_update msg ms t) = sign_slots_of m t"
  by (cases msg; cases m) auto

lemma sign_find_iff:
  "sign_find l msg \<longleftrightarrow> (\<exists>v. Some v \<in> set l \<and> sm_GetMsgType v = sm_GetMsgType msg \<and> sm_GetFromID v = sm_GetFromID msg)"
  by (auto simp: sign_find_def list_ex_iff split: option.splits)

lemma got_Ok_iff: "got P slot = Ok msg \<longleftrightarrow> slot = Some msg \<and> P msg"
  by (auto simp: got_def split: option.splits)

lemma sign_put_at_Ok_iff:
  "sign_put_at index msg p = (p', Ok ms) \<longleftrightarrow>
     0 \<le> index \<and> index < int (length (sign_slots_of msg (s_temp p))) \<and>
     ms = (sign_slots_of msg (s_temp p))[nat index := Some msg] \<and>
     p' = p\<lparr>s_temp := sign_slots_update msg ms (s_temp p)\<rparr>"
  by (auto simp: sign_put_at_def slice_set_Ok_iff)

lemma index_of_Ok:
  "index_of (Some x) vs k = Ok (Some j) \<Longrightarrow> k \<le> j \<and> j < k + int (length vs) \<and> vs ! nat (j - k) = x"
proof (induction vs arbitrary: k)
  case Nil
  then show ?case by simp
next
  case (Cons v vs)
  show ?case
  proof (cases "v = x")
    case True
    then show ?thesis using Cons.prems by auto
  next
    case False
    then have "index_of (Some x) vs (k + 1) = Ok (Some j)" using Cons.prems by simp
    then have j: "k + 1 \<le> j" "j < k + 1 + int (length vs)" "vs ! nat (j - (k + 1)) = x" using Cons.IH by auto
    then have "nat (j - k) = Suc (nat (j - (k + 1)))" by simp
    then show ?thesis using j by simp
  qed
qed

lemma index_of_found:
  assumes "distinct vs" "i < length vs" shows "index_of (Some (vs ! i)) vs k = Ok (Some (k + int i))"
  using assms
proof (induction vs arbitrary: i k)
  case (Cons v vs)
  then show ?case by (cases i) auto
qed simp

end
