(* ===== verification/KeygenRounds.thy ===== *)
theory KeygenRounds
  imports Keygen
begin

text \<open>
  \<^verbatim>\<open>smpc-lib/ecdsa/keygen/round_0.go\<close> to \<^verbatim>\<open>round_7.go\<close>: the eight rounds of the key generation, and
  the node as an instance of the driver's interface.
\<close>

section \<open>Shared steps\<close>

text \<open>\<^verbatim>\<open>new(KGRoundMessage)\<close> with \<^verbatim>\<open>SetFromID\<close> and \<^verbatim>\<open>SetFromIndex\<close>.\<close>

definition kg_from :: "LocalDNode \<Rightarrow> int \<Rightarrow> KGRoundMessage" where
  "kg_from p index = SetFromIndex index (SetFromID (r_dnodeid p) new_KGRoundMessage)"

text \<open>\<^verbatim>\<open>round.out <- kg\<close>\<close>

definition send :: "KGMessage \<Rightarrow> LocalDNode \<Rightarrow> LocalDNode" where
  "send kg p = p\<lparr>p_out := p_out p @ [kg]\<rparr>"

text \<open>\<^verbatim>\<open>round.temp.kgRoundXMessages[index] = kg\<close>, alone and followed by \<^verbatim>\<open>round.out <- kg\<close>.\<close>

definition put_own :: "int \<Rightarrow> KGMessage \<Rightarrow> LocalDNode \<Rightarrow> (LocalDNode, unit) st" where
  "put_own index kg p =
     tryr (slice_set (slots_of kg (p_temp p)) index (Some kg)) p (\<lambda>ms.
       (p\<lparr>p_temp := slots_update kg ms (p_temp p)\<rparr>, Ok ()))"

definition put_send :: "int \<Rightarrow> KGMessage \<Rightarrow> LocalDNode \<Rightarrow> (LocalDNode, unit) st" where
  "put_send index kg p = bindst (put_own index kg p) (\<lambda>p _. (send kg p, Ok ()))"

text \<open>The common head of the \<^verbatim>\<open>Start\<close> methods.\<close>

definition begin_round :: "nat \<Rightarrow> LocalDNode \<Rightarrow> (LocalDNode, unit) st" where
  "begin_round n p =
     (if r_started p then (p, Err ''round already started'')
      else (ResetOK (p\<lparr>r_number := n, r_started := True\<rparr>), Ok ()))"

definition set_temp :: "(localTempData \<Rightarrow> localTempData) \<Rightarrow> LocalDNode \<Rightarrow> LocalDNode" where
  "set_temp f p = p\<lparr>p_temp := f (p_temp p)\<rparr>"

definition set_save :: "(LocalDNodeSaveData \<Rightarrow> LocalDNodeSaveData) \<Rightarrow> LocalDNode \<Rightarrow> LocalDNode" where
  "set_save f p = p\<lparr>p_data := f (p_data p)\<rparr>"

text \<open>A sampling function on the node's tape.\<close>

definition sample :: "LocalDNode \<Rightarrow> (tape \<Rightarrow> ('a \<times> tape) res) \<Rightarrow> (LocalDNode, 'a) st" where
  "sample p f = tryr (f (p_tape p)) p (\<lambda>(a, tape). (p\<lparr>p_tape := tape\<rparr>, Ok a))"

text \<open>A result whose error is dropped with \<^verbatim>\<open>_\<close> and whose \<^verbatim>\<open>nil\<close> value is then dereferenced.\<close>

fun drop_err :: "'a res \<Rightarrow> 'a res" where
  "drop_err (Err e) = deref None"
| "drop_err r = r"

section \<open>Round 0\<close>

definition round0_Start :: "LocalDNode \<Rightarrow> (LocalDNode, unit) st" where
  "round0_Start p =
     bindst (begin_round 0 p) (\<lambda>p _.
       let kg = KGRound0Message (kg_from p (-1));
           p = set_temp (\<lambda>t. t\<lparr>kgRound0Messages := kgRound0Messages t @ [Some kg]\<rparr>) p
       in (send kg p, Ok ()))"

section \<open>Round 1\<close>

text \<open>The secrets of a commitment: the point of the secret and the commitments to the other coefficients.\<close>

definition commit_secrets :: "point \<Rightarrow> int option list list \<Rightarrow> int option list" where
  "commit_secrets G PolyG = pair_slice G @ concat (map (\<lambda>g. [g ! 0, g ! 1]) (tl PolyG))"

definition round1_keys :: "KgEnv \<Rightarrow> LocalDNode \<Rightarrow> (LocalDNode, (PublicKey \<times> PrivateKey \<times> int \<times> int) option) st" where
  "round1_keys env p =
     (case GenerateKeyPair (r_paillierkeylength p) (p_primes p) of
        (primes, r) \<Rightarrow> (p\<lparr>p_primes := primes\<rparr>, r))"

definition round1_Start :: "KgEnv \<Rightarrow> LocalDNode \<Rightarrow> (LocalDNode, unit) st" where
  "round1_Start env p =
     (let E = ke_E env in
      bindst (begin_round 1 p) (\<lambda>p _.
      bindst (sample p (GetRandomIntFromZn (cN E))) (\<lambda>p u1.
      bindst (sample p (GetRandomIntFromZn (cN E))) (\<lambda>p c1.
      if r_threshold p \<le> 1 \<or> r_dnodecount p < r_threshold p then (p, Err ''round one fail'')
      else
      bindst (sample p (\<lambda>t. drop_err (Vss2Init E (Some u1) (r_threshold p) t))) (\<lambda>p (u1Poly, u1PolyG).
      bindst (sample p (\<lambda>t. drop_err (Vss2Init E (Some c1) (r_threshold p) t))) (\<lambda>p (_, c1PolyG).
      tryr (ScalarBaseMult E (Bytes u1)) p (\<lambda>u1G.
      bindst (sample p (Commit (ke_H env) (commit_secrets u1G u1PolyG))) (\<lambda>p commitU1G.
      tryr (ScalarBaseMult E (Bytes c1)) p (\<lambda>c1G.
      bindst (sample p (Commit (ke_H env) (commit_secrets c1G c1PolyG))) (\<lambda>p commitC1G.
      bindst (round1_keys env p) (\<lambda>p keys.
      case (keys, commitU1G, commitC1G) of
        (None, _, _) \<Rightarrow> (p, Err '' Error generating Paillier pubkey/private data '')
      | (Some (u1PaillierPk, u1PaillierSk, pp, qq), Some comU, Some comC) \<Rightarrow>
          let p = set_temp (\<lambda>t. t\<lparr>t_u1 := Some u1, t_u1Poly := Some u1Poly, t_u1PolyG := Some u1PolyG,
                    t_commitU1G := Some comU, t_c1 := Some c1, t_commitC1G := Some comC,
                    t_u1PaillierPk := Some u1PaillierPk, t_u1PaillierSk := Some u1PaillierSk,
                    t_p := Some pp, t_q := Some qq\<rparr>) p
          in tryr (GetDNodeIDIndex p (r_dnodeid p)) p (\<lambda>index.
             let kg = KGRound1Message (kg_from p index) (com_C comU) (com_C comC) (Some u1PaillierPk);
                 p = set_save (\<lambda>d. d\<lparr>sd_U1PaillierSk := Some u1PaillierSk\<rparr>) p
             in tryr (slice_set (sd_U1PaillierPk (p_data p)) index (Some u1PaillierPk)) p (\<lambda>pks.
                put_send index kg (set_save (\<lambda>d. d\<lparr>sd_U1PaillierPk := pks\<rparr>) p)))
      | _ \<Rightarrow> (p, Err '' Error generating commitment/bip32-commitment data ''))))))))))))"

section \<open>Round 2\<close>

definition paillierBitsLen :: nat where
  "paillierBitsLen = 2048"

text \<open>The check of the Paillier moduli of all parties.\<close>

definition check_paillier :: "KGMessage option \<Rightarrow> unit res" where
  "check_paillier slot =
     bindr (asserted is_KGRound1Message ''error kg round1 message'' slot) (\<lambda>m.
       case U1PaillierPk m of
         None \<Rightarrow> Err ''error kg round1 message''
       | Some paiPk \<Rightarrow> if BitLen (pk_N paiPk) \<noteq> paillierBitsLen then Err ''got paillier N with not enough bits''
                        else Ok ())"

text \<open>
  The double loop that distributes the shares: for the identifier at position \<open>k\<close> the first share with
  this identifier is kept (own position) or sent.
\<close>

definition share_message :: "LocalDNode \<Rightarrow> int \<Rightarrow> ShareStruct2 \<Rightarrow> KGMessage" where
  "share_message p curIndex v = KGRound2Message (kg_from p curIndex) (ss_ID v) (ss_Share v)"

definition to_id :: "int option \<Rightarrow> string" where
  "to_id i = EncodeToString (string_bytes (fmt_v i))"

fun give_share :: "int \<Rightarrow> int \<Rightarrow> int option \<Rightarrow> ShareStruct2 list \<Rightarrow> LocalDNode \<Rightarrow> (LocalDNode, unit) st" where
  "give_share curIndex k idv [] p = (p, Ok ())"
| "give_share curIndex k idv (v # vs) p =
     (case GetSharesID (Some v) of
        None \<Rightarrow> give_share curIndex k idv vs p
      | Some vv \<Rightarrow>
          tryr (deref idv) p (\<lambda>i.
            if vv = i \<and> k = curIndex then
              put_own k (share_message p curIndex v) p
            else if vv = i then
              (send (KGRound2Message (AppendToID (to_id idv) (kg_from p curIndex)) (ss_ID v) (ss_Share v)) p, Ok ())
            else give_share curIndex k idv vs p))"

fun give_shares :: "int \<Rightarrow> ShareStruct2 list \<Rightarrow> int \<Rightarrow> int option list \<Rightarrow> LocalDNode \<Rightarrow> (LocalDNode, unit) st" where
  "give_shares curIndex shares k [] p = (p, Ok ())"
| "give_shares curIndex shares k (i # is) p =
     bindst (give_share curIndex k i shares p) (\<lambda>p _. give_shares curIndex shares (k + 1) is p)"

definition round2_Start :: "KgEnv \<Rightarrow> LocalDNode \<Rightarrow> (LocalDNode, unit) st" where
  "round2_Start env p =
     (let E = ke_E env in
      bindst (begin_round 2 p) (\<lambda>p _.
      tryr (GetDNodeIDIndex p (r_dnodeid p)) p (\<lambda>curIndex.
      tryr (GetIDs p) p (\<lambda>ids.
      let p = set_save (\<lambda>d. d\<lparr>sd_IDs := ids, sd_CurDNodeID := SetString10 (r_dnodeid p)\<rparr>) p
      in tryr (mapM check_paillier (kgRound1Messages (p_temp p))) p (\<lambda>_.
      tryr (deref (sd_U1PaillierSk (p_data p))) p (\<lambda>sk.
      let N = pk_N (sk_PublicKey sk)
      in bindst (sample p (MustGetRandomInt (int (BitLen N)))) (\<lambda>p num.
      tryr (SquareFreeProve (ke_sha env) (Some N) (Some num) (Some (sk_L sk))) p (\<lambda>sfProof.
      if sfProof = None then (p, Err ''get square free proof fail'')
      else bindst (put_send curIndex (KGRound2Message2 (kg_from p curIndex) (Some num) sfProof) p) (\<lambda>p _.
      case ContainsDuplicate ids of
        Ok False \<Rightarrow>
          if r_dnodecount p < int (length ids) then (p, Err ''node id error'')
          else tryr (deref (t_u1Poly (p_temp p))) p (\<lambda>poly.
               tryr (Vss2 E poly ids) p (\<lambda>u1Shares.
               bindst (give_shares curIndex u1Shares 0 ids (set_temp (\<lambda>t. t\<lparr>t_u1Shares := u1Shares\<rparr>) p)) (\<lambda>p _.
               put_send curIndex (KGRound2Message1 (kg_from p curIndex) (t_c1 (p_temp p))) p)))
      | _ \<Rightarrow> (p, Err ''node id error''))))))))))"

section \<open>Round 3\<close>

definition check_squarefree :: "KgEnv \<Rightarrow> LocalDNode \<Rightarrow> nat \<Rightarrow> unit res" where
  "check_squarefree env p k =
     bindr (slice_get (kgRound1Messages (p_temp p)) (int k)) (\<lambda>s1.
     bindr (asserted is_KGRound1Message ''round.Start get round1 msg fail'' s1) (\<lambda>msg1.
     case U1PaillierPk msg1 of
       None \<Rightarrow> Err ''error kg round1 message''
     | Some paiPk \<Rightarrow>
         bindr (slice_get (kgRound2Messages2 (p_temp p)) (int k)) (\<lambda>s22.
         bindr (asserted is_KGRound2Message2 ''round.Start get round2 msg 2 fail'' s22) (\<lambda>msg22.
         bindr (SquareFreeVerify (ke_sha env) (ke_pp env) (Some (pk_N paiPk)) (Num2 msg22) (SfPf2 msg22)) (\<lambda>ok.
           if \<not> ok then Err ''check that a zero-knowledge proof that paillier.N is a square-free integer fail''
           else Ok ())))))"

definition round3_Start :: "KgEnv \<Rightarrow> LocalDNode \<Rightarrow> (LocalDNode, unit) st" where
  "round3_Start env p =
     bindst (begin_round 3 p) (\<lambda>p _.
     tryr (GetDNodeIDIndex p (r_dnodeid p)) p (\<lambda>curIndex.
     tryr (GetIDs p) p (\<lambda>ids.
     tryr (mapM (check_squarefree env p) [0..<length ids]) p (\<lambda>_.
     tryr (deref (t_commitU1G (p_temp p))) p (\<lambda>commitU1G.
     tryr (deref (t_commitC1G (p_temp p))) p (\<lambda>commitC1G.
     tryr (deref (t_u1PolyG (p_temp p))) p (\<lambda>u1PolyG.
       put_send curIndex (KGRound3Message (kg_from p curIndex) (com_D commitU1G) (com_D commitC1G) u1PolyG) p)))))))"

section \<open>Round 4\<close>

text \<open>The first loop: share, commitments and the point for bip32 of party \<open>k\<close>.\<close>

definition round4_check :: "KgEnv \<Rightarrow> LocalDNode \<Rightarrow> nat \<Rightarrow> unit res" where
  "round4_check env p k =
     (let E = ke_E env; H = ke_H env; t = p_temp p in
      bindr (slice_get (kgRound2Messages t) (int k)) (\<lambda>s2.
      bindr (asserted is_KGRound2Message ''round.Start get round2 msg fail'' s2) (\<lambda>msg2.
      let ushare = \<lparr>ss_ID = kg_ID msg2, ss_Share = kg_Share msg2\<rparr>
      in bindr (slice_get (kgRound3Messages t) (int k)) (\<lambda>s3.
      bindr (asserted is_KGRound3Message ''round.Start get round3 msg fail'' s3) (\<lambda>msg3.
      bindr (Verify2 E ushare (U1PolyGG msg3)) (\<lambda>okShare.
      if \<not> okShare then Err ''verify share data fail''
      else
      bindr (slice_get (kgRound1Messages t) (int k)) (\<lambda>s1.
      bindr (asserted is_KGRound1Message ''round.Start get round1 msg fail'' s1) (\<lambda>msg1.
      bindr (Verify E H \<lparr>com_C = ComC msg1, com_D = ComU1GD msg3\<rparr>) (\<lambda>okCommit.
      if \<not> okCommit then Err ''verify commitment fail''
      else
      let deCommitBip32 = \<lparr>com_C = ComCBip32 msg1, com_D = ComC1GD msg3\<rparr>
      in bindr (Verify E H deCommitBip32) (\<lambda>okBip32.
      if \<not> okBip32 then Err ''verify commitment fail''
      else
      bindr (DeCommit E H deCommitBip32) (\<lambda>(_, c1G).
      bindr (slice_get (kgRound2Messages1 t) (int k)) (\<lambda>s21.
      bindr (asserted is_KGRound2Message1 ''round.Start get round2.1 msg fail'' s21) (\<lambda>msg21.
      bindr (deref (kg_C1 msg21)) (\<lambda>c1.
      bindr (ScalarBaseMult E (Bytes c1)) (\<lambda>cGVerify.
      bindr (slice_get c1G 0) (\<lambda>x. bindr (deref x) (\<lambda>x.
      bindr (slice_get c1G 1) (\<lambda>y. bindr (deref y) (\<lambda>y.
      bindr (deref cGVerify) (\<lambda>(vx, vy).
        if x = vx \<and> y = vy then Ok () else Err ''verify threshold bip32 fail''))))))))))))))))))))"

text \<open>
  What the second and third loops read of party \<open>k\<close>: the opened point, the share and the number for
  bip32.  The assertions of these loops drop their \<^verbatim>\<open>ok\<close>; a failed one is a \<^verbatim>\<open>nil\<close> pointer.
\<close>

definition party_values :: "KgEnv \<Rightarrow> LocalDNode \<Rightarrow> nat \<Rightarrow> (point \<times> int \<times> int) res" where
  "party_values env p k =
     (let t = p_temp p in
      drop_err (
      bindr (slice_get (kgRound2Messages t) (int k)) (\<lambda>s2. bindr (asserted is_KGRound2Message [] s2) (\<lambda>msg2.
      bindr (slice_get (kgRound3Messages t) (int k)) (\<lambda>s3. bindr (asserted is_KGRound3Message [] s3) (\<lambda>msg3.
      bindr (slice_get (kgRound1Messages t) (int k)) (\<lambda>s1. bindr (asserted is_KGRound1Message [] s1) (\<lambda>msg1.
      bindr (DeCommit (ke_E env) (ke_H env) \<lparr>com_C = ComC msg1, com_D = ComU1GD msg3\<rparr>) (\<lambda>(_, u1G).
      bindr (slice_pair u1G) (\<lambda>pt.
      bindr (slice_get (kgRound2Messages1 t) (int k)) (\<lambda>s21. bindr (asserted is_KGRound2Message1 [] s21) (\<lambda>msg21.
      bindr (deref (kg_Share msg2)) (\<lambda>share.
      bindr (deref (kg_C1 msg21)) (\<lambda>c1. Ok (pt, share, c1)))))))))))))))"

text \<open>The public key, the share of the private key and the chain code before their reduction.\<close>

fun add_party :: "KgEnv \<Rightarrow> LocalDNode \<Rightarrow> point \<times> int \<times> int \<Rightarrow> nat \<Rightarrow> (point \<times> int \<times> int) res" where
  "add_party env p (pk, skU1, c) k =
     bindr (party_values env p k) (\<lambda>(pt, share, c1).
     bindr (Add (ke_E env) pk pt) (\<lambda>pk. Ok (pk, skU1 + share, c + c1)))"

definition round4_sums :: "KgEnv \<Rightarrow> LocalDNode \<Rightarrow> nat \<Rightarrow> (point \<times> int \<times> int) res" where
  "round4_sums env p n =
     (if n = 0 then deref None
      else bindr (party_values env p 0) (\<lambda>v. foldM (add_party env p) v [1..<n]))"

definition round4_keys :: "KgEnv \<Rightarrow> LocalDNode \<Rightarrow> nat \<Rightarrow> (LocalDNode, int) st" where
  "round4_keys env p n =
     tryr (round4_sums env p n) p (\<lambda>(pk, skU1, c).
       let c = c mod cN (ke_E env); skU1 = skU1 mod cN (ke_E env)
       in (set_save (\<lambda>d. d\<lparr>sd_SkU1 := Some skU1, sd_Pkx := map_option fst pk, sd_Pky := map_option snd pk,
             sd_C := Some c\<rparr>) p, Ok skU1))"

definition round4_ntilde :: "LocalDNode \<Rightarrow>
    (LocalDNode, (NtildeH1H2 \<times> int \<times> int \<times> int \<times> int \<times> int \<times> int) option) st" where
  "round4_ntilde p =
     (case GenerateNtildeH1H2 2048 (p_primes p, p_tape p) of
        ((primes, tape), r) \<Rightarrow> (p\<lparr>p_primes := primes, p_tape := tape\<rparr>, r))"

text \<open>The commitment to the share, the auxiliary modulus with its proofs and the message.\<close>

definition round4_proofs :: "KgEnv \<Rightarrow> int \<Rightarrow> Commitment \<Rightarrow> NtildeH1H2 \<times> int \<times> int \<times> int \<times> int \<times> int \<times> int \<Rightarrow>
    LocalDNode \<Rightarrow> (LocalDNode, unit) st" where
  "round4_proofs env curIndex commitXiG r p =
     (case r of (nt, alpha, beta, pp, qq, p1, p2) \<Rightarrow>
        let p = set_save (\<lambda>d. d\<lparr>sd_U1NtildePrivData :=
                  Some \<lparr>npd_Alpha = alpha, npd_Beta = beta, npd_Q1 = pp, npd_Q2 = qq\<rparr>\<rparr>) p;
            p = set_temp (\<lambda>t. t\<lparr>t_p1 := Some p1, t_p2 := Some p2\<rparr>) p
        in bindst (sample p (NewNtildeProof (ke_sha env) (nt_H1 nt) (nt_H2 nt) alpha pp qq (nt_Ntilde nt))) (\<lambda>p pf1.
           bindst (sample p (NewNtildeProof (ke_sha env) (nt_H2 nt) (nt_H1 nt) beta pp qq (nt_Ntilde nt))) (\<lambda>p pf2.
           tryr (slice_set (sd_U1NtildeH1H2 (p_data p)) curIndex (Some nt)) p (\<lambda>nts.
             put_send curIndex (KGRound4Message (kg_from p curIndex) (Some nt) (Some pf1) (Some pf2) (com_C commitXiG))
               (set_save (\<lambda>d. d\<lparr>sd_U1NtildeH1H2 := nts\<rparr>) p)))))"

definition round4_publish :: "KgEnv \<Rightarrow> int \<Rightarrow> int \<Rightarrow> LocalDNode \<Rightarrow> (LocalDNode, unit) st" where
  "round4_publish env curIndex skU1 p =
     tryr (ScalarBaseMult (ke_E env) (Bytes skU1)) p (\<lambda>xiG.
     bindst (sample p (Commit (ke_H env) (pair_slice xiG))) (\<lambda>p commitXiG.
     case commitXiG of
       None \<Rightarrow> (p, Err ''error generating commitment for sku1'')
     | Some commitXiG \<Rightarrow>
         bindst (round4_ntilde (set_temp (\<lambda>t. t\<lparr>t_commitXiG := Some commitXiG\<rparr>) p)) (\<lambda>p r.
         case r of
           None \<Rightarrow> (p, Err ''gen ntilde h1 h2 fail'')
         | Some r \<Rightarrow> round4_proofs env curIndex commitXiG r p)))"

definition round4_Start :: "KgEnv \<Rightarrow> LocalDNode \<Rightarrow> (LocalDNode, unit) st" where
  "round4_Start env p =
     bindst (begin_round 4 p) (\<lambda>p _.
     tryr (GetDNodeIDIndex p (r_dnodeid p)) p (\<lambda>curIndex.
     tryr (GetIDs p) p (\<lambda>ids.
     tryr (mapM (round4_check env p) [0..<length ids]) p (\<lambda>_.
     bindst (round4_keys env p (length ids)) (\<lambda>p skU1. round4_publish env curIndex skU1 p)))))"

section \<open>Round 5\<close>

definition ntildeBitsLen :: nat where
  "ntildeBitsLen = 2048"

definition check_ntilde_bits :: "KGMessage option \<Rightarrow> unit res" where
  "check_ntilde_bits slot =
     bindr (asserted is_KGRound4Message ''error kg round4 message'' slot) (\<lambda>m.
       case U1NtildeH1H2 m of
         None \<Rightarrow> Err ''error kg round4 message''
       | Some nt \<Rightarrow> if BitLen (nt_Ntilde nt) \<noteq> ntildeBitsLen then Err ''got ntilde with not enough bits'' else Ok ())"

definition round5_Start :: "KgEnv \<Rightarrow> LocalDNode \<Rightarrow> (LocalDNode, unit) st" where
  "round5_Start env p =
     bindst (begin_round 5 p) (\<lambda>p _.
     tryr (GetDNodeIDIndex p (r_dnodeid p)) p (\<lambda>curIndex.
     tryr (mapM check_ntilde_bits (kgRound4Messages (p_temp p))) p (\<lambda>_.
     tryr (slice_get (kgRound4Messages (p_temp p)) curIndex) p (\<lambda>slot.
     tryr (drop_err (asserted is_KGRound4Message [] slot)) p (\<lambda>msg4.
     tryr (deref (U1NtildeH1H2 msg4)) p (\<lambda>nt.
     let ntilde = nt_Ntilde nt
     in bindst (sample p (MustGetRandomInt (int (BitLen ntilde)))) (\<lambda>p num.
     tryr (deref (t_p1 (p_temp p))) p (\<lambda>p1.
     tryr (deref (t_p2 (p_temp p))) p (\<lambda>p2.
     let l = (p1 - 1) * (p2 - 1)
     in tryr (SquareFreeProve (ke_sha env) (Some ntilde) (Some num) (Some l)) p (\<lambda>sfProof.
     if sfProof = None then (p, Err ''get square free proof fail'')
     else bindst (put_send curIndex (KGRound5Message2 (kg_from p curIndex) (Some num) sfProof) p) (\<lambda>p _.
     bindst (sample p (MustGetRandomInt (int (BitLen ntilde)))) (\<lambda>p num.
     tryr (HvProve (ke_sha env) (ke_sched env) (ke_ms env) (Some ntilde) (Some num) (Some p1) (Some p2)) p (\<lambda>hvProof.
     if hvProof = None then (p, Err ''get hvzk proof fail'')
     else bindst (put_send curIndex (KGRound5Message1 (kg_from p curIndex) (Some num) hvProof) p) (\<lambda>p _.
     tryr (deref (t_commitXiG (p_temp p))) p (\<lambda>commitXiG.
       put_send curIndex (KGRound5Message (kg_from p curIndex) (com_D commitXiG)) p)))))))))))))))"

section \<open>Round 6\<close>

definition round6_commit :: "KgEnv \<Rightarrow> LocalDNode \<Rightarrow> nat \<Rightarrow> unit res" where
  "round6_commit env p k =
     bindr (slice_get (kgRound5Messages (p_temp p)) (int k)) (\<lambda>s5.
     bindr (asserted is_KGRound5Message ''round.Start get round5 msg fail'' s5) (\<lambda>msg5.
     bindr (slice_get (kgRound4Messages (p_temp p)) (int k)) (\<lambda>s4.
     bindr (asserted is_KGRound4Message ''round.Start get round4 msg fail'' s4) (\<lambda>msg4.
     bindr (Verify (ke_E env) (ke_H env) \<lparr>com_C = ComXiC msg4, com_D = ComXiGD msg5\<rparr>) (\<lambda>ok.
       if \<not> ok then Err ''verify commitment fail'' else Ok ())))))"

definition round6_squarefree :: "KgEnv \<Rightarrow> LocalDNode \<Rightarrow> nat \<Rightarrow> unit res" where
  "round6_squarefree env p k =
     bindr (slice_get (kgRound4Messages (p_temp p)) (int k)) (\<lambda>s4.
     bindr (asserted is_KGRound4Message ''round.Start get round4 msg fail'' s4) (\<lambda>msg4.
     bindr (deref (U1NtildeH1H2 msg4)) (\<lambda>nt.
     bindr (slice_get (kgRound5Messages2 (p_temp p)) (int k)) (\<lambda>s52.
     bindr (asserted is_KGRound5Message2 ''round.Start get round5 msg 2 fail'' s52) (\<lambda>msg52.
     bindr (SquareFreeVerify (ke_sha env) (ke_pp env) (Some (nt_Ntilde nt)) (Num52 msg52) (SfPf52 msg52)) (\<lambda>ok.
       if \<not> ok then Err ''check that a zero-knowledge proof that ntilde is a square-free integer fail'' else Ok ()))))))"

definition round6_hv :: "KgEnv \<Rightarrow> LocalDNode \<Rightarrow> nat \<Rightarrow> unit res" where
  "round6_hv env p k =
     bindr (slice_get (kgRound4Messages (p_temp p)) (int k)) (\<lambda>s4.
     bindr (asserted is_KGRound4Message ''round.Start get round 4 msg fail'' s4) (\<lambda>msg4.
     bindr (deref (U1NtildeH1H2 msg4)) (\<lambda>nt.
     bindr (slice_get (kgRound5Messages1 (p_temp p)) (int k)) (\<lambda>s51.
     bindr (asserted is_KGRound5Message1 ''round.Start get round 5-1 msg fail'' s51) (\<lambda>msg51.
     bindr (HvVerify (ke_sha env) (ke_sched env) (ke_pp env) (Some (nt_Ntilde nt)) (Num51 msg51) (HvPf msg51)) (\<lambda>ok.
       if \<not> ok then Err ''check that a zero-knowledge proof that ntilde is a valid RSA modulus from two safe primes fail''
       else Ok ()))))))"

definition round6_Start :: "KgEnv \<Rightarrow> LocalDNode \<Rightarrow> (LocalDNode, unit) st" where
  "round6_Start env p =
     bindst (begin_round 6 p) (\<lambda>p _.
     tryr (GetDNodeIDIndex p (r_dnodeid p)) p (\<lambda>curIndex.
     tryr (GetIDs p) p (\<lambda>ids.
     tryr (mapM (round6_commit env p) [0..<length ids]) p (\<lambda>_.
     tryr (mapM (round6_squarefree env p) [0..<length ids]) p (\<lambda>_.
     tryr (mapM (round6_hv env p) [0..<length ids]) p (\<lambda>_.
     let p = set_temp (\<lambda>t. t\<lparr>t_p1 := None, t_p2 := None\<rparr>) p
     in tryr (deref (sd_SkU1 (p_data p))) p (\<lambda>SkU1.
     bindst (sample p (ZkXiProve (ke_E env) (ke_sha env) SkU1)) (\<lambda>p u1zkXiProof.
       put_send curIndex (KGRound6Message (kg_from p curIndex) (Some u1zkXiProof) True) p))))))))"

section \<open>Round 7\<close>

definition round7_check :: "KgEnv \<Rightarrow> LocalDNode \<Rightarrow> nat \<Rightarrow> unit res" where
  "round7_check env p k =
     bindr (slice_get (kgRound5Messages (p_temp p)) (int k)) (\<lambda>s5.
     bindr (asserted is_KGRound5Message ''round.Start get round5 msg fail'' s5) (\<lambda>msg5.
     bindr (slice_get (kgRound4Messages (p_temp p)) (int k)) (\<lambda>s4.
     bindr (asserted is_KGRound4Message ''round.Start get round4 msg fail'' s4) (\<lambda>msg4.
     bindr (DeCommit (ke_E env) (ke_H env) \<lparr>com_C = ComXiC msg4, com_D = ComXiGD msg5\<rparr>) (\<lambda>(_, xiG).
     bindr (slice_get (kgRound6Messages (p_temp p)) (int k)) (\<lambda>s6.
     bindr (asserted is_KGRound6Message ''round.Start get round6 msg fail'' s6) (\<lambda>msg6.
     bindr (ZkXiVerify (ke_E env) (ke_sha env) xiG (U1zkXiProof msg6)) (\<lambda>ok.
       if \<not> ok then Err ''verify zkx fail'' else Ok ()))))))))"

definition round7_Start :: "KgEnv \<Rightarrow> LocalDNode \<Rightarrow> (LocalDNode, unit) st" where
  "round7_Start env p =
     bindst (begin_round 7 p) (\<lambda>p _.
     tryr (GetIDs p) p (\<lambda>ids.
     tryr (mapM (round7_check env p) [0..<length ids]) p (\<lambda>_.
       (p\<lparr>p_end := p_end p @ [p_data p]\<rparr>, Ok ()))))"

section \<open>CanAccept, Update and NextRound\<close>

fun CanAccept :: "nat \<Rightarrow> KGMessage \<Rightarrow> bool" where
  "CanAccept 0 msg = (if is_KGRound0Message msg then IsBroadcast msg else False)"
| "CanAccept (Suc 0) msg = (if is_KGRound1Message msg then IsBroadcast msg else False)"
| "CanAccept (Suc (Suc 0)) msg =
     (if is_KGRound2Message msg then \<not> IsBroadcast msg
      else if is_KGRound2Message1 msg then IsBroadcast msg
      else if is_KGRound2Message2 msg then IsBroadcast msg else False)"
| "CanAccept (Suc (Suc (Suc 0))) msg = (if is_KGRound3Message msg then IsBroadcast msg else False)"
| "CanAccept (Suc (Suc (Suc (Suc 0)))) msg = (if is_KGRound4Message msg then IsBroadcast msg else False)"
| "CanAccept (Suc (Suc (Suc (Suc (Suc 0))))) msg =
     (if is_KGRound5Message msg then IsBroadcast msg
      else if is_KGRound5Message1 msg then IsBroadcast msg
      else if is_KGRound5Message2 msg then IsBroadcast msg else False)"
| "CanAccept (Suc (Suc (Suc (Suc (Suc (Suc 0)))))) msg = (if is_KGRound6Message msg then IsBroadcast msg else False)"
| "CanAccept _ msg = False"

text \<open>The slices \<^verbatim>\<open>Update\<close> looks at, the one it ranges over first.\<close>

fun update_slots :: "nat \<Rightarrow> localTempData \<Rightarrow> slots list" where
  "update_slots 0 t = [kgRound0Messages t]"
| "update_slots (Suc 0) t = [kgRound1Messages t]"
| "update_slots (Suc (Suc 0)) t = [kgRound2Messages t, kgRound2Messages1 t, kgRound2Messages2 t]"
| "update_slots (Suc (Suc (Suc 0))) t = [kgRound3Messages t]"
| "update_slots (Suc (Suc (Suc (Suc 0)))) t = [kgRound4Messages t]"
| "update_slots (Suc (Suc (Suc (Suc (Suc 0))))) t = [kgRound5Messages1 t, kgRound5Messages t, kgRound5Messages2 t]"
| "update_slots (Suc (Suc (Suc (Suc (Suc (Suc 0)))))) t = [kgRound6Messages t]"
| "update_slots _ t = []"

fun all_accepted :: "nat \<Rightarrow> slots list \<Rightarrow> nat \<Rightarrow> bool res" where
  "all_accepted n [] j = Ok True"
| "all_accepted n (ms # mss) j =
     bindr (slice_get ms (int j)) (\<lambda>slot.
       case slot of
         None \<Rightarrow> Ok False
       | Some msg \<Rightarrow> if \<not> CanAccept n msg then Ok False else all_accepted n mss j)"

fun update_loop :: "nat \<Rightarrow> nat list \<Rightarrow> LocalDNode \<Rightarrow> (LocalDNode, bool) st" where
  "update_loop n [] p = (p, Ok True)"
| "update_loop n (j # js) p =
     tryr (slice_get (r_ok p) (int j)) p (\<lambda>okj.
       if okj then update_loop n js p
       else tryr (all_accepted n (update_slots n (p_temp p)) j) p (\<lambda>b.
         if \<not> b then (p, Ok False)
         else update_loop n js (p\<lparr>r_ok := (r_ok p)[j := True]\<rparr>)))"

definition kg_Update :: "LocalDNode \<Rightarrow> (LocalDNode, bool) st" where
  "kg_Update p =
     (case p_rnd p of
        None \<Rightarrow> (p, Panic ''nil pointer dereference'')
      | Some n \<Rightarrow>
          (case update_slots n (p_temp p) of
             [] \<Rightarrow> (p, Ok False)
           | ms # _ \<Rightarrow> update_loop n [0..<length ms] p))"

definition kg_NextRound :: "LocalDNode \<Rightarrow> LocalDNode \<times> nat option" where
  "kg_NextRound p =
     (case p_rnd p of
        None \<Rightarrow> (p, None)
      | Some n \<Rightarrow> if n < 7 then (p\<lparr>r_started := False\<rparr>, Some (n + 1)) else (p, None))"

definition kg_Start :: "KgEnv \<Rightarrow> LocalDNode \<Rightarrow> (LocalDNode, unit) st" where
  "kg_Start env p =
     (case p_rnd p of
        None \<Rightarrow> (p, Panic ''nil pointer dereference'')
      | Some n \<Rightarrow>
          if n = 0 then round0_Start p
          else if n = 1 then round1_Start env p
          else if n = 2 then round2_Start env p
          else if n = 3 then round3_Start env p
          else if n = 4 then round4_Start env p
          else if n = 5 then round5_Start env p
          else if n = 6 then round6_Start env p
          else round7_Start env p)"

definition kg_node :: "KgEnv \<Rightarrow> (LocalDNode, KGMessage) DNode" where
  "kg_node env =
     \<lparr>dn_DNodeID = p_ID, dn_Round = p_rnd, dn_rnd = (\<lambda>r p. p\<lparr>p_rnd := r\<rparr>),
      dn_Finalize = (\<lambda>_. False), dn_FinalizeRound = (\<lambda>p. (p, None)), dn_FirstRound = newRound0,
      dn_StoreMessage = StoreMessage env, dn_Start = kg_Start env, dn_Update = kg_Update,
      dn_CanProceed = CanProceed, dn_NextRound = kg_NextRound, dn_ResetOK = ResetOK\<rparr>"

end
