(* ===== verification/SigningRounds.thy ===== *)
theory SigningRounds
  imports Signing KeygenRounds
begin

text \<open>
  \<^verbatim>\<open>smpc-lib/ecdsa/signing/round_1.go\<close> to \<^verbatim>\<open>round_11.go\<close>: the rounds of signing, and the node as an
  instance of the driver's interface.
\<close>

section \<open>Shared steps\<close>

definition sign_from :: "SignDNode \<Rightarrow> int \<Rightarrow> SignRoundMessage" where
  "sign_from p index =
     sm_SetFromIndex index (sm_SetFromID (b_kgid p) \<lparr>sm_FromID = [], sm_FromIndex = 0, sm_ToID = []\<rparr>)"

definition sign_send :: "SignMessage \<Rightarrow> SignDNode \<Rightarrow> SignDNode" where
  "sign_send srm p = p\<lparr>s_out := s_out p @ [srm]\<rparr>"

definition sign_put_own :: "int \<Rightarrow> SignMessage \<Rightarrow> SignDNode \<Rightarrow> (SignDNode, unit) st" where
  "sign_put_own index srm p = bindst (sign_put_at index srm p) (\<lambda>p _. (p, Ok ()))"

definition sign_put_send :: "int \<Rightarrow> SignMessage \<Rightarrow> SignDNode \<Rightarrow> (SignDNode, unit) st" where
  "sign_put_send index srm p = bindst (sign_put_own index srm p) (\<lambda>p _. (sign_send srm p, Ok ()))"

definition sign_begin :: "nat \<Rightarrow> SignDNode \<Rightarrow> (SignDNode, unit) st" where
  "sign_begin n p =
     (if b_started p then (p, Err ''round already started'')
      else (sign_ResetOK (p\<lparr>b_number := n, b_started := True\<rparr>), Ok ()))"

definition sign_set :: "(SignTempData \<Rightarrow> SignTempData) \<Rightarrow> SignDNode \<Rightarrow> SignDNode" where
  "sign_set f p = p\<lparr>s_temp := f (s_temp p)\<rparr>"

definition sign_sample :: "SignDNode \<Rightarrow> (tape \<Rightarrow> ('a \<times> tape) res) \<Rightarrow> (SignDNode, 'a) st" where
  "sign_sample p f = tryr (f (s_tape p)) p (\<lambda>(a, tape). (p\<lparr>s_tape := tape\<rparr>, Ok a))"

text \<open>A call whose error is dropped with \<^verbatim>\<open>_\<close>; its results are then \<^verbatim>\<open>nil\<close>.\<close>

fun opt_err :: "'a res \<Rightarrow> 'a option res" where
  "opt_err (Ok a) = Ok (Some a)"
| "opt_err (Err e) = Ok None"
| "opt_err (Panic p) = Panic p"
| "opt_err Hang = Hang"

text \<open>The position of an identifier in \<^verbatim>\<open>round.save.IDs\<close>, \<open>-1\<close> when it is not there; comparing with \<^verbatim>\<open>nil\<close> panics.\<close>

fun saved_index :: "int option \<Rightarrow> int option list \<Rightarrow> int \<Rightarrow> int res" where
  "saved_index v [] k = Ok (-1)"
| "saved_index v (x # xs) k =
     bindr (deref x) (\<lambda>x. bindr (deref v) (\<lambda>i. if x = i then Ok k else saved_index v xs (k + 1)))"

definition id_index :: "SignDNode \<Rightarrow> int \<Rightarrow> int res" where
  "id_index p v = saved_index (Some v) (sd_IDs (s_save p)) 0"

definition old_index :: "SignDNode \<Rightarrow> int res" where
  "old_index p = saved_index (sd_CurDNodeID (s_save p)) (sd_IDs (s_save p)) 0"

text \<open>Keep the own message, or address it to the signer \<open>v\<close> and send it.\<close>

definition deliver_to :: "int \<Rightarrow> nat \<Rightarrow> int \<Rightarrow> (SignRoundMessage \<Rightarrow> SignMessage) \<Rightarrow> SignDNode \<Rightarrow> (SignDNode, unit) st" where
  "deliver_to curIndex k v mk p =
     (if int k = curIndex then sign_put_own curIndex (mk (sign_from p curIndex)) p
      else (sign_send (mk (sm_AppendToID (to_id (Some v)) (sign_from p curIndex))) p, Ok ()))"

fun for_signers :: "(nat \<Rightarrow> int \<Rightarrow> SignDNode \<Rightarrow> (SignDNode, unit) st) \<Rightarrow> nat \<Rightarrow> int list \<Rightarrow> SignDNode \<Rightarrow> (SignDNode, unit) st" where
  "for_signers f k [] p = (p, Ok ())"
| "for_signers f k (v # vs) p = bindst (f k v p) (\<lambda>p _. for_signers f (Suc k) vs p)"

section \<open>Round 1\<close>

definition lambda_step :: "Curve \<Rightarrow> int \<Rightarrow> int \<Rightarrow> int \<Rightarrow> nat \<times> int \<Rightarrow> int res" where
  "lambda_step E curIndex self lambda1 kv =
     (case kv of (k, v) \<Rightarrow>
        if int k = curIndex then Ok lambda1
        else case ModInverse (v - self) (cN E) of
               None \<Rightarrow> Err ''calc times fail''
             | Some subInverse \<Rightarrow>
                 let times = subInverse * v
                 in Ok ((lambda1 * times) mod cN E))"

definition round1_w1 :: "Curve \<Rightarrow> int list \<Rightarrow> int \<Rightarrow> int option \<Rightarrow> int res" where
  "round1_w1 E idsign curIndex SkU1 =
     (if 0 \<le> curIndex \<and> curIndex < int (length idsign) then
        (let self = idsign ! nat curIndex
         in bindr (foldM (lambda_step E curIndex self) 1 (enumerate 0 idsign)) (\<lambda>lambda1.
            bindr (deref SkU1) (\<lambda>sk. Ok ((lambda1 * sk) mod cN E))))
      else Err ''round start fail,self uid is nil'')"

definition sign_round1_Start :: "SgEnv \<Rightarrow> SignDNode \<Rightarrow> (SignDNode, unit) st" where
  "sign_round1_Start env p =
     (let E = se_E env in
      bindst (sign_begin 1 p) (\<lambda>p _.
      tryr (sign_GetDNodeIDIndex p (b_kgid p)) p (\<lambda>curIndex.
      tryr (round1_w1 E (s_idsign p) curIndex (sd_SkU1 (s_save p))) p (\<lambda>w1.
      let p = sign_set (\<lambda>t. t\<lparr>t_w1 := Some w1\<rparr>) p
      in bindst (sign_sample p (GetRandomIntFromZn (cN E))) (\<lambda>p u1K.
         bindst (sign_sample p (GetRandomIntFromZn (cN E))) (\<lambda>p u1Gamma.
         tryr (ScalarBaseMult E (Bytes u1Gamma)) p (\<lambda>u1GammaG.
         bindst (sign_sample p (Commit (se_H env) (pair_slice u1GammaG))) (\<lambda>p commitU1GammaG.
         case commitU1GammaG of
           None \<Rightarrow> (p, Err '' Error generating commitment data in signing round 1'')
         | Some commitU1GammaG \<Rightarrow>
             tryr (ScalarBaseMult E (Bytes w1)) p (\<lambda>wiG.
             bindst (sign_sample p (Commit (se_H env) (pair_slice wiG))) (\<lambda>p commitwiG.
             case commitwiG of
               None \<Rightarrow> (p, Err '' Error generating commitment data for wi'')
             | Some commitwiG \<Rightarrow>
                 let p = sign_set (\<lambda>t. t\<lparr>t_commitwiG := Some commitwiG, t_u1K := Some u1K, t_u1Gamma := Some u1Gamma,
                           t_commitU1GammaG := Some commitU1GammaG\<rparr>) p
                 in sign_put_send curIndex
                      (SignRound1Message (sign_from p curIndex) (com_C commitU1GammaG) (com_C commitwiG)) p)))))))))) "

section \<open>Round 2\<close>

definition round2_prove :: "SgEnv \<Rightarrow> int \<Rightarrow> PublicKey \<Rightarrow> nat \<Rightarrow> int \<Rightarrow> SignDNode \<Rightarrow> (SignDNode, unit) st" where
  "round2_prove env curIndex pk k v p =
     tryr (id_index p v) p (\<lambda>index.
     tryr (slice_get (sd_U1NtildeH1H2 (s_save p)) index) p (\<lambda>u1nt.
     tryr (deref u1nt) p (\<lambda>nt.
     tryr (deref (t_ukc (s_temp p))) p (\<lambda>ukc.
     tryr (deref (t_u1K (s_temp p))) p (\<lambda>u1K.
     tryr (deref (t_ukc2 (s_temp p))) p (\<lambda>ukc2.
     bindst (sign_sample p (MtARangeProofProve (se_E env) (se_sha env) ukc u1K ukc2 pk nt)) (\<lambda>p pf.
       deliver_to curIndex k v (\<lambda>b. SignRound2Message b (Some pf)) p)))))))"

definition sign_round2_Start :: "SgEnv \<Rightarrow> SignDNode \<Rightarrow> (SignDNode, unit) st" where
  "sign_round2_Start env p =
     bindst (sign_begin 2 p) (\<lambda>p _.
     tryr (sign_GetDNodeIDIndex p (b_kgid p)) p (\<lambda>curIndex.
     tryr (old_index p) p (\<lambda>oldindex.
     if oldindex = -1 then (p, Err ''error old index'')
     else
       tryr (slice_get (sd_U1PaillierPk (s_save p)) oldindex) p (\<lambda>u1PaillierPk.
       case u1PaillierPk of
         None \<Rightarrow> (p, Err ''error paillier pk for current node'')
       | Some pk \<Rightarrow>
           bindst (sign_sample p (\<lambda>t. bindr (opt_err (Encrypt pk (t_u1K (s_temp p)) t)) (\<lambda>r.
               Ok (case r of None \<Rightarrow> (None, t) | Some (c, t) \<Rightarrow> (Some c, t))))) (\<lambda>p enc.
           let p = sign_set (\<lambda>t. t\<lparr>t_ukc := map_option fst enc, t_ukc2 := map_option snd enc\<rparr>) p
           in for_signers (round2_prove env curIndex pk) 0 (s_idsign p) p)))))"

section \<open>Round 3\<close>

definition sign_round3_Start :: "SignDNode \<Rightarrow> (SignDNode, unit) st" where
  "sign_round3_Start p =
     bindst (sign_begin 3 p) (\<lambda>p _.
     tryr (sign_GetDNodeIDIndex p (b_kgid p)) p (\<lambda>curIndex.
     tryr (deref (t_commitwiG (s_temp p))) p (\<lambda>commitwiG.
       sign_put_send curIndex (SignRound3Message (sign_from p curIndex) (t_ukc (s_temp p)) (com_D commitwiG)) p)))"

section \<open>Round 4\<close>

definition sign_round4_check :: "SgEnv \<Rightarrow> SignDNode \<Rightarrow> int \<Rightarrow> int \<Rightarrow> nat \<times> int \<Rightarrow> unit res" where
  "sign_round4_check env p curIndex oldindex kv =
     (case kv of (k, v) \<Rightarrow>
        bindr (id_index p v) (\<lambda>index.
        bindr (slice_get (signRound2Messages (s_temp p)) (int k)) (\<lambda>s2.
        bindr (slice_get (signRound3Messages (s_temp p)) (int k)) (\<lambda>s3.
        bindr (slice_get (sd_U1PaillierPk (s_save p)) index) (\<lambda>pk.
        bindr (slice_get (sd_U1NtildeH1H2 (s_save p)) (if int k = curIndex then index else oldindex)) (\<lambda>nt.
        bindr (got is_SignRound2Message s2) (\<lambda>msg2.
        bindr (got is_SignRound3Message s3) (\<lambda>msg3.
        bindr (MtARangeProofVerify (se_E env) (se_sha env) (U1u1MtAZK1Proof msg2) (Kc msg3) pk nt) (\<lambda>u1rlt1.
        if \<not> u1rlt1 then Err ''verify mtazk1 proof fail''
        else
          bindr (slice_get (signRound1Messages (s_temp p)) (int k)) (\<lambda>s1.
          bindr (got is_SignRound1Message s1) (\<lambda>msg1.
          bindr (Verify (se_E env) (se_H env) \<lparr>com_C = ComWiC msg1, com_D = ComWiD msg3\<rparr>) (\<lambda>ok.
            if \<not> ok then Err ''verify commit for wi fail'' else Ok ()))))))))))))"

text \<open>\<^verbatim>\<open>NSubN2\<close>, the bound of the masks.\<close>

definition mask_bound :: "Curve \<Rightarrow> int \<Rightarrow> int" where
  "mask_bound E len = 2 ^ nat (len - len div 10) - cN E * cN E"

fun sample_masks :: "int \<Rightarrow> nat \<Rightarrow> tape \<Rightarrow> (int list \<times> tape) res" where
  "sample_masks b 0 t = Ok ([], t)"
| "sample_masks b (Suc n) t =
     bindr (GetRandomIntFromZn b t) (\<lambda>(x, t). bindr (sample_masks b n t) (\<lambda>(xs, t). Ok (x # xs, t)))"

text \<open>
  The response to signer \<open>k\<close>: the ciphertext of \<open>k\<close> times the own factor plus the mask.  For the own
  index the proof is made with \<^verbatim>\<open>round.temp.ukc\<close> and the key at \<^verbatim>\<open>oldindex\<close>.
\<close>

definition respond :: "SignDNode \<Rightarrow> int \<Rightarrow> int \<Rightarrow> nat \<Rightarrow> int \<Rightarrow> int option \<Rightarrow> int list \<Rightarrow>
    (SignDNode, (int \<times> int \<times> int \<times> int \<times> PublicKey \<times> NtildeH1H2)) st" where
  "respond p curIndex oldindex k v factor masks =
     tryr (id_index p v) p (\<lambda>index.
     tryr (slice_get (sd_U1PaillierPk (s_save p)) index) p (\<lambda>pk.
     tryr (slice_get (signRound3Messages (s_temp p)) (int k)) p (\<lambda>s3.
     tryr (got is_SignRound3Message s3) p (\<lambda>msg3.
     tryr (deref pk) p (\<lambda>pk.
     tryr (slice_get masks (int k)) p (\<lambda>mask.
     bindst (sign_sample p (\<lambda>t. bindr (opt_err (Encrypt pk (Some mask) t)) (\<lambda>r.
         Ok (case r of None \<Rightarrow> (None, t) | Some (c, t) \<Rightarrow> (Some c, t))))) (\<lambda>p enc.
     tryr (HomoAdd (Some pk) (HomoMul (Some pk) (Kc msg3) factor) (map_option fst enc)) p (\<lambda>cipher.
     tryr (slice_get (sd_U1PaillierPk (s_save p)) oldindex) p (\<lambda>oldpk.
     tryr (slice_get (sd_U1NtildeH1H2 (s_save p)) oldindex) p (\<lambda>nt.
     tryr (deref nt) p (\<lambda>nt.
     tryr (deref (if int k = curIndex then oldpk else Some pk)) p (\<lambda>pfpk.
     tryr (deref (map_option snd enc)) p (\<lambda>rnd.
     tryr (deref (if int k = curIndex then t_ukc (s_temp p) else Kc msg3)) p (\<lambda>c1.
     tryr (deref cipher) p (\<lambda>c2. (p, Ok (mask, rnd, c1, c2, pfpk, nt)))))))))))))))))"

definition round4_gamma :: "SgEnv \<Rightarrow> int \<Rightarrow> int \<Rightarrow> nat \<Rightarrow> int \<Rightarrow> SignDNode \<Rightarrow> (SignDNode, unit) st" where
  "round4_gamma env curIndex oldindex k v p =
     bindst (respond p curIndex oldindex k v (t_u1Gamma (s_temp p)) (t_betaU1Star (s_temp p))) (\<lambda>p (mask, rnd, c1, c2, pk, nt).
     tryr (deref (t_u1Gamma (s_temp p))) p (\<lambda>u1Gamma.
     bindst (sign_sample p (MtARespZKProofProve (se_E env) (se_sha env) u1Gamma mask rnd c1 c2 pk nt)) (\<lambda>p pf.
       deliver_to curIndex k v (\<lambda>b. SignRound4Message b (Some c2) (Some pf)) p)))"

definition round4_w :: "SgEnv \<Rightarrow> int \<Rightarrow> int \<Rightarrow> nat \<Rightarrow> int \<Rightarrow> SignDNode \<Rightarrow> (SignDNode, unit) st" where
  "round4_w env curIndex oldindex k v p =
     bindst (respond p curIndex oldindex k v (t_w1 (s_temp p)) (t_vU1Star (s_temp p))) (\<lambda>p (mask, rnd, c1, c2, pk, nt).
     tryr (deref (t_w1 (s_temp p))) p (\<lambda>w1.
     bindst (sign_sample p (MtAwcRespZKProofProve (se_E env) (se_sha env) w1 mask rnd c1 c2 pk nt)) (\<lambda>p pf.
       deliver_to curIndex k v (\<lambda>b. SignRound4Message1 b (Some c2) (Some pf)) p)))"

definition sign_round4_Start :: "SgEnv \<Rightarrow> SignDNode \<Rightarrow> (SignDNode, unit) st" where
  "sign_round4_Start env p =
     bindst (sign_begin 4 p) (\<lambda>p _.
     tryr (sign_GetDNodeIDIndex p (b_kgid p)) p (\<lambda>curIndex.
     tryr (old_index p) p (\<lambda>oldindex.
     tryr (mapM (sign_round4_check env p curIndex oldindex) (enumerate 0 (s_idsign p))) p (\<lambda>_.
     let NSubN2 = mask_bound (se_E env) (b_paillierkeylength p)
     in bindst (sign_sample p (sample_masks NSubN2 (nat (b_threshold p)))) (\<lambda>p betaU1Star.
        bindst (sign_sample p (sample_masks NSubN2 (nat (b_threshold p)))) (\<lambda>p vU1Star.
        let p = sign_set (\<lambda>t. t\<lparr>t_betaU1Star := betaU1Star, t_betaU1 := map (\<lambda>x. - 1 * x) betaU1Star,
                  t_vU1Star := vU1Star, t_vU1 := map (\<lambda>x. - 1 * x) vU1Star\<rparr>) p
        in bindst (for_signers (round4_gamma env curIndex oldindex) 0 (s_idsign p) p) (\<lambda>p _.
           for_signers (round4_w env curIndex oldindex) 0 (s_idsign p) p)))))))"

section \<open>Round 5\<close>

text \<open>The loop over the signers: the responses are verified and decrypted.\<close>

definition round5_open :: "SgEnv \<Rightarrow> SignDNode \<Rightarrow> int \<Rightarrow> nat \<times> int \<Rightarrow> (int option \<times> int option) res" where
  "round5_open env p oldindex kv =
     (case kv of (k, v) \<Rightarrow>
        bindr (id_index p v) (\<lambda>index.
        bindr (slice_get (sd_U1PaillierPk (s_save p)) oldindex) (\<lambda>pk.
        bindr (slice_get (sd_U1NtildeH1H2 (s_save p)) index) (\<lambda>nt.
        bindr (slice_get (signRound4Messages (s_temp p)) (int k)) (\<lambda>s4.
        bindr (got is_SignRound4Message s4) (\<lambda>msg4.
        bindr (MtARespZKProofVerify (se_E env) (se_sha env) (U1u1MtAZK2Proof msg4) (t_ukc (s_temp p)) (U1KGamma1Cipher msg4) pk nt) (\<lambda>rlt111.
        if \<not> rlt111 then Err ''verify mkg fail''
        else
          bindr (slice_get (signRound1Messages (s_temp p)) (int k)) (\<lambda>s1.
          bindr (slice_get (signRound3Messages (s_temp p)) (int k)) (\<lambda>s3.
          bindr (got is_SignRound1Message s1) (\<lambda>msg1.
          bindr (got is_SignRound3Message s3) (\<lambda>msg3.
          bindr (DeCommit (se_E env) (se_H env) \<lparr>com_C = ComWiC msg1, com_D = ComWiD msg3\<rparr>) (\<lambda>(_, xG).
          bindr (slice_get (signRound4Messages1 (s_temp p)) (int k)) (\<lambda>s41.
          bindr (got is_SignRound4Message1 s41) (\<lambda>msg41.
          bindr (MtAwcRespZKProofVefify (se_E env) (se_sha env) (U1u1MtAZK3Proof msg41) xG (t_ukc (s_temp p)) (U1Kw1Cipher msg41) pk nt) (\<lambda>rlt112.
          if \<not> rlt112 then Err ''verify mkw fail''
          else
            bindr (opt_err (Decrypt (sd_U1PaillierSk (s_save p)) (U1KGamma1Cipher msg4))) (\<lambda>alpha1U1.
            bindr (opt_err (Decrypt (sd_U1PaillierSk (s_save p)) (U1Kw1Cipher msg41))) (\<lambda>u1U1.
              Ok (alpha1U1, u1U1))))))))))))))))))"

text \<open>\<^verbatim>\<open>make([]*big.Int, threshold)\<close> filled at the indices of the signers: a signer beyond the threshold panics.\<close>

definition fill :: "int \<Rightarrow> 'a option list \<Rightarrow> 'a option list res" where
  "fill n xs = (if int (length xs) \<le> n then Ok (xs @ replicate (nat n - length xs) None) else Panic ''index out of range'')"

definition sum_shares :: "Curve \<Rightarrow> int \<Rightarrow> int option list \<Rightarrow> int list \<Rightarrow> int res" where
  "sum_shares E threshold alphas betas =
     bindr (slice_get alphas 0) (\<lambda>a0.
     bindr (mapM (\<lambda>i. bindr (slice_get alphas (int i)) deref) [1..<nat threshold]) (\<lambda>as.
     bindr (mapM (\<lambda>i. slice_get betas (int i)) [0..<nat threshold]) (\<lambda>bs.
     bindr (deref a0) (\<lambda>a0. Ok ((a0 + sum_list as + sum_list bs) mod cN E)))))"

definition sign_round5_Start :: "SgEnv \<Rightarrow> SignDNode \<Rightarrow> (SignDNode, unit) st" where
  "sign_round5_Start env p =
     (let E = se_E env in
      bindst (sign_begin 5 p) (\<lambda>p _.
      tryr (sign_GetDNodeIDIndex p (b_kgid p)) p (\<lambda>curIndex.
      tryr (old_index p) p (\<lambda>oldindex.
      tryr (mapM (round5_open env p oldindex) (enumerate 0 (s_idsign p))) p (\<lambda>opened.
      tryr (fill (b_threshold p) (map fst opened)) p (\<lambda>alpha1.
      tryr (fill (b_threshold p) (map snd opened)) p (\<lambda>uu1.
      let p = sign_set (\<lambda>t. t\<lparr>t_alpha1 := alpha1, t_uu1 := uu1\<rparr>) p
      in tryr (sum_shares E (b_threshold p) alpha1 (t_betaU1 (s_temp p))) p (\<lambda>delta1.
         let p = sign_set (\<lambda>t. t\<lparr>t_delta1 := Some delta1\<rparr>) p
         in tryr (sum_shares E (b_threshold p) uu1 (t_vU1 (s_temp p))) p (\<lambda>sigma1.
            let p = sign_set (\<lambda>t. t\<lparr>t_sigma1 := Some sigma1\<rparr>) p
            in bindst (sign_sample p (GetRandomIntFromZn (cN E))) (\<lambda>p l1.
               tryr (CalcHPoint E (se_sha256 env) (se_ms env)) p (\<lambda>h.
               tryr (ScalarMult E h (Bytes l1)) p (\<lambda>l1G.
               tryr (ScalarBaseMult E (Bytes sigma1)) p (\<lambda>sigmaG.
               tryr (Add E sigmaG l1G) p (\<lambda>t1.
               bindst (sign_sample p (TProve E (se_sha env) t1 h sigma1 l1)) (\<lambda>p tProof.
               if tProof = None then (p, Err ''prove Ti proof fail'')
               else
                 let p = sign_set (\<lambda>t. t\<lparr>t_t1 := t1, t_l1 := Some l1\<rparr>) p
                 in sign_put_send curIndex (SignRound5Message (sign_from p curIndex) (Some delta1) t1 tProof) p)))))))))))))))"

section \<open>Round 6\<close>

text \<open>The sum of a number over the messages of all signers.\<close>

definition sum_messages :: "(SignMessage \<Rightarrow> bool) \<Rightarrow> (SignMessage \<Rightarrow> int option) \<Rightarrow> sign_slots \<Rightarrow> nat \<Rightarrow> int res" where
  "sum_messages P f ms n =
     bindr (slice_get ms 0) (\<lambda>s0.
     bindr (got P s0) (\<lambda>m0.
     bindr (mapM (\<lambda>k. bindr (slice_get ms (int k)) (\<lambda>s. bindr (got P s) (\<lambda>m. deref (f m)))) [1..<n]) (\<lambda>xs.
     bindr (deref (f m0)) (\<lambda>x0. Ok (x0 + sum_list xs)))))"

definition sign_round6_Start :: "SgEnv \<Rightarrow> SignDNode \<Rightarrow> (SignDNode, unit) st" where
  "sign_round6_Start env p =
     (let E = se_E env in
      bindst (sign_begin 6 p) (\<lambda>p _.
      tryr (sign_GetDNodeIDIndex p (b_kgid p)) p (\<lambda>curIndex.
      tryr (sum_messages is_SignRound5Message Delta1 (signRound5Messages (s_temp p)) (length (s_idsign p))) p (\<lambda>deltaSum.
      let p = sign_set (\<lambda>t. t\<lparr>t_deltaSum := Some (deltaSum mod cN E)\<rparr>) p
      in tryr (deref (t_u1Gamma (s_temp p))) p (\<lambda>u1Gamma.
         bindst (sign_sample p (ZkUProve E (se_sha env) u1Gamma)) (\<lambda>p u1GammaZKProof.
         tryr (deref (t_commitU1GammaG (s_temp p))) p (\<lambda>commitU1GammaG.
           sign_put_send curIndex (SignRound6Message (sign_from p curIndex) (com_D commitU1GammaG) (Some u1GammaZKProof)) p)))))))"

section \<open>Round 7\<close>

definition gamma_point :: "SgEnv \<Rightarrow> SignDNode \<Rightarrow> nat \<Rightarrow> (int option list \<times> ZkUProof option \<times> bool) res" where
  "gamma_point env p k =
     bindr (slice_get (signRound1Messages (s_temp p)) (int k)) (\<lambda>s1.
     bindr (slice_get (signRound6Messages (s_temp p)) (int k)) (\<lambda>s6.
     bindr (got is_SignRound1Message s1) (\<lambda>msg1.
     bindr (got is_SignRound6Message s6) (\<lambda>msg6.
     let deCommit = \<lparr>com_C = C11 msg1, com_D = CommU1D msg6\<rparr>
     in bindr (Verify (se_E env) (se_H env) deCommit) (\<lambda>ok.
        bindr (DeCommit (se_E env) (se_H env) deCommit) (\<lambda>(_, u1GammaG). Ok (u1GammaG, U1GammaZKProof msg6, ok)))))))"

definition round7_verify :: "SgEnv \<Rightarrow> SignDNode \<Rightarrow> nat \<Rightarrow> unit res" where
  "round7_verify env p k =
     bindr (gamma_point env p k) (\<lambda>(u1GammaG, pf, ok).
     if \<not> ok then Err ''verify commit fail''
     else bindr (ZkUVerify (se_E env) (se_sha env) u1GammaG pf) (\<lambda>ok.
            if \<not> ok then Err ''verify zkuproof fail'' else Ok ()))"

definition sum_points :: "Curve \<Rightarrow> point list \<Rightarrow> point res" where
  "sum_points E pts = (case pts of [] \<Rightarrow> Ok None | A # As \<Rightarrow> foldM (Add E) A As)"

definition round7_gammas :: "SgEnv \<Rightarrow> SignDNode \<Rightarrow> nat \<Rightarrow> point res" where
  "round7_gammas env p n =
     bindr (mapM (\<lambda>k. bindr (gamma_point env p k) (\<lambda>(u1GammaG, _, _). slice_pair u1GammaG)) [0..<n]) (sum_points (se_E env))"

definition round7_R :: "SgEnv \<Rightarrow> SignDNode \<Rightarrow> point \<Rightarrow> point res" where
  "round7_R env p GammaGSum =
     bindr (deref (t_deltaSum (s_temp p))) (\<lambda>deltaSum.
     case ModInverse deltaSum (cN (se_E env)) of
       None \<Rightarrow> Err ''calc deltaSum Inverse fail''
     | Some deltaSumInverse \<Rightarrow>
         bindr (ScalarMult (se_E env) GammaGSum (Bytes deltaSumInverse)) (\<lambda>deltaGammaG.
         bindr (deref deltaGammaG) (\<lambda>(r, _). if r = 0 then Err ''r == 0'' else Ok deltaGammaG)))"

definition sign_round7_Start :: "SgEnv \<Rightarrow> SignDNode \<Rightarrow> (SignDNode, unit) st" where
  "sign_round7_Start env p =
     (let E = se_E env in
      bindst (sign_begin 7 p) (\<lambda>p _.
      tryr (sign_GetDNodeIDIndex p (b_kgid p)) p (\<lambda>curIndex.
      tryr (mapM (round7_verify env p) [0..<length (s_idsign p)]) p (\<lambda>_.
      tryr (round7_gammas env p (length (s_idsign p))) p (\<lambda>GammaGSum.
      tryr (round7_R env p GammaGSum) p (\<lambda>deltaGammaG.
      let p = sign_set (\<lambda>t. t\<lparr>t_deltaGammaG := deltaGammaG\<rparr>) p
      in tryr (deref (t_u1K (s_temp p))) p (\<lambda>u1K.
         tryr (ScalarMult E deltaGammaG (Bytes u1K)) p (\<lambda>bigRK1G.
         tryr (old_index p) p (\<lambda>oldindex.
         if oldindex = -1 then (p, Err ''error old index'')
         else
           tryr (slice_get (sd_U1PaillierPk (s_save p)) oldindex) p (\<lambda>pk.
           case pk of
             None \<Rightarrow> (p, Err ''error paillier pk for current node'')
           | Some pk \<Rightarrow>
               tryr (slice_get (sd_U1NtildeH1H2 (s_save p)) oldindex) p (\<lambda>nt.
               case nt of
                 None \<Rightarrow> (p, Err ''error ntilde for current node'')
               | Some nt \<Rightarrow>
                   tryr (deref (t_ukc (s_temp p))) p (\<lambda>ukc.
                   tryr (deref (t_ukc2 (s_temp p))) p (\<lambda>ukc2.
                   let st = \<lparr>pd_CipherText = ukc, pd_PK = pk, pd_K1R = bigRK1G, pd_R = deltaGammaG,
                             pd_H1 = nt_H1 nt, pd_H2 = nt_H2 nt, pd_NTilde = nt_Ntilde nt\<rparr>
                   in bindst (sign_sample p (NewPDLwSlackProof E (se_sha env) u1K ukc2 st)) (\<lambda>p pf.
                        sign_put_send curIndex (SignRound7Message (sign_from p curIndex) bigRK1G (Some pf)) p))))))))))))))"

section \<open>Round 8\<close>

definition round8_verify :: "SgEnv \<Rightarrow> SignDNode \<Rightarrow> nat \<times> int \<Rightarrow> point res" where
  "round8_verify env p kv =
     (case kv of (k, v) \<Rightarrow>
        bindr (id_index p v) (\<lambda>index.
        if index = -1 then Err ''get node uid error''
        else
          bindr (slice_get (sd_U1PaillierPk (s_save p)) index) (\<lambda>paiPk.
          case paiPk of
            None \<Rightarrow> Err ''get paillier public key fail''
          | Some paiPk \<Rightarrow>
              bindr (slice_get (sd_U1NtildeH1H2 (s_save p)) index) (\<lambda>nt.
              case nt of
                None \<Rightarrow> Err ''get ntilde fail''
              | Some nt \<Rightarrow>
                  bindr (slice_get (signRound7Messages (s_temp p)) (int k)) (\<lambda>s7.
                  bindr (slice_get (signRound3Messages (s_temp p)) (int k)) (\<lambda>s3.
                  bindr (got is_SignRound7Message s7) (\<lambda>msg7.
                  bindr (got is_SignRound3Message s3) (\<lambda>msg3.
                  if PdlwSlackPf msg7 = None then Err ''failed to verify ZK proof of consistency between R_i and E_i(k_i)''
                  else
                    bindr (deref (Kc msg3)) (\<lambda>c.
                    let st = \<lparr>pd_CipherText = c, pd_PK = paiPk, pd_K1R = m_K1R msg7, pd_R = t_deltaGammaG (s_temp p),
                              pd_H1 = nt_H1 nt, pd_H2 = nt_H2 nt, pd_NTilde = nt_Ntilde nt\<rparr>
                    in bindr (PDLwSlackVerify (se_E env) (se_sha env) st (PdlwSlackPf msg7)) (\<lambda>ok.
                       if \<not> ok then Err ''failed to verify ZK proof of consistency between R_i and E_i(k_i)''
                       else Ok (m_K1R msg7))))))))))) "

text \<open>The loop verifies and adds in the same pass.\<close>

definition round8_step :: "SgEnv \<Rightarrow> SignDNode \<Rightarrow> point \<Rightarrow> nat \<times> int \<Rightarrow> point res" where
  "round8_step env p acc kv =
     bindr (round8_verify env p kv) (\<lambda>K. if fst kv = 0 then Ok K else Add (se_E env) acc K)"

definition sign_round8_Start :: "SgEnv \<Rightarrow> SignDNode \<Rightarrow> (SignDNode, unit) st" where
  "sign_round8_Start env p =
     (let E = se_E env in
      bindst (sign_begin 8 p) (\<lambda>p _.
      tryr (sign_GetDNodeIDIndex p (b_kgid p)) p (\<lambda>curIndex.
      tryr (foldM (round8_step env p) None (enumerate 0 (s_idsign p))) p (\<lambda>K1R.
      tryr (same_point K1R (Some (cGx E, cGy E))) p (\<lambda>eq.
      if \<not> eq then (p, Err ''consistency check failed: g != R products'')
      else
        tryr (deref (t_sigma1 (s_temp p))) p (\<lambda>sigma1.
        tryr (ScalarMult E (t_deltaGammaG (s_temp p)) (Bytes sigma1)) p (\<lambda>S1.
        tryr (CalcHPoint E (se_sha256 env) (se_ms env)) p (\<lambda>h.
        case t_l1 (s_temp p) of
          None \<Rightarrow> (p, Err ''new stproof fail'')
        | Some l1 \<Rightarrow>
            bindst (sign_sample p (NewSTProof E (se_sha env) (t_t1 (s_temp p)) S1 (t_deltaGammaG (s_temp p)) h sigma1 l1)) (\<lambda>p stProof.
            if stProof = None then (p, Err ''new stproof fail'')
            else sign_put_send curIndex (SignRound8Message (sign_from p curIndex) S1 stProof) p)))))))))"

section \<open>Round 9\<close>

definition round9_step :: "SgEnv \<Rightarrow> SignDNode \<Rightarrow> point \<Rightarrow> point \<Rightarrow> nat \<Rightarrow> point res" where
  "round9_step env p h acc k =
     bindr (slice_get (signRound8Messages (s_temp p)) (int k)) (\<lambda>s8.
     bindr (slice_get (signRound5Messages (s_temp p)) (int k)) (\<lambda>s5.
     bindr (got is_SignRound8Message s8) (\<lambda>msg8.
     bindr (got is_SignRound5Message s5) (\<lambda>msg5.
     bindr (STVerify (se_E env) (se_sha env) (m_S1 msg8) (m_T1 msg5) (t_deltaGammaG (s_temp p)) h (STpf msg8)) (\<lambda>ok.
       if \<not> ok then Err ''STProof verify fail''
       else if k = 0 then Ok (m_S1 msg8)
       else Add (se_E env) acc (m_S1 msg8))))))"

definition saved_key :: "SignDNode \<Rightarrow> point" where
  "saved_key p = (case (sd_Pkx (s_save p), sd_Pky (s_save p)) of (Some x, Some y) \<Rightarrow> Some (x, y) | _ \<Rightarrow> None)"

definition sign_round9_Start :: "SgEnv \<Rightarrow> SignDNode \<Rightarrow> (SignDNode, unit) st" where
  "sign_round9_Start env p =
     bindst (sign_begin 9 p) (\<lambda>p _.
     tryr (CalcHPoint (se_E env) (se_sha256 env) (se_ms env)) p (\<lambda>h.
     tryr (foldM (round9_step env p h) None [0..<length (s_idsign p)]) p (\<lambda>s1.
     tryr (same_point s1 (saved_key p)) p (\<lambda>eq.
     if \<not> eq then (p, Err ''consistency check failed; pubkey != products'')
     else
       let R = t_deltaGammaG (s_temp p);
           pre = \<lparr>pre_K1 = t_u1K (s_temp p), pre_R = map_option fst R, pre_Ry = map_option snd R, pre_Sigma1 = t_sigma1 (s_temp p)\<rparr>
       in (p\<lparr>s_end := s_end p @ [pre]\<rparr>, Ok ())))))"

section \<open>Rounds 10 and 11\<close>

definition sign_round10_Start :: "SgEnv \<Rightarrow> SignDNode \<Rightarrow> (SignDNode, unit) st" where
  "sign_round10_Start env p =
     bindst (sign_begin 10 p) (\<lambda>p _.
     tryr (sign_GetDNodeIDIndex p (b_kgid p)) p (\<lambda>curIndex.
     tryr (deref (s_predata p)) p (\<lambda>predata.
     tryr (deref (s_txhash p)) p (\<lambda>txhash.
     tryr (deref (pre_K1 predata)) p (\<lambda>K1.
     tryr (deref (pre_R predata)) p (\<lambda>R.
     tryr (deref (pre_Sigma1 predata)) p (\<lambda>Sigma1.
     let mk1 = txhash * K1;
         rSigma1 = R * Sigma1;
         us1 = (mk1 + rSigma1) mod cN (se_E env)
     in sign_put_send curIndex (SignRound9Message (sign_from p curIndex) (Some us1)) p)))))))"

definition sign_round11_Start :: "SgEnv \<Rightarrow> SignDNode \<Rightarrow> (SignDNode, unit) st" where
  "sign_round11_Start env p =
     bindst (sign_begin 11 p) (\<lambda>p _.
     tryr (sum_messages is_SignRound9Message Us1 (signRound9Messages (s_temp p)) (length (s_idsign p))) p (\<lambda>s.
       (p\<lparr>s_finalizeend := s_finalizeend p @ [s mod cN (se_E env)]\<rparr>, Ok ())))"

section \<open>CanAccept, Update and NextRound\<close>

definition sign_CanAccept :: "nat \<Rightarrow> SignMessage \<Rightarrow> bool" where
  "sign_CanAccept n msg =
     (if n = 1 then is_SignRound1Message msg \<and> sm_IsBroadcast msg
      else if n = 2 then is_SignRound2Message msg \<and> \<not> sm_IsBroadcast msg
      else if n = 3 then is_SignRound3Message msg \<and> sm_IsBroadcast msg
      else if n = 4 then (is_SignRound4Message msg \<or> is_SignRound4Message1 msg) \<and> \<not> sm_IsBroadcast msg
      else if n = 5 then is_SignRound5Message msg \<and> sm_IsBroadcast msg
      else if n = 6 then is_SignRound6Message msg \<and> sm_IsBroadcast msg
      else if n = 7 then is_SignRound7Message msg \<and> sm_IsBroadcast msg
      else if n = 8 then is_SignRound8Message msg \<and> sm_IsBroadcast msg
      else if n = 10 then is_SignRound9Message msg \<and> sm_IsBroadcast msg
      else False)"

definition sign_update_slots :: "nat \<Rightarrow> SignTempData \<Rightarrow> sign_slots list" where
  "sign_update_slots n t =
     (if n = 1 then [signRound1Messages t]
      else if n = 2 then [signRound2Messages t]
      else if n = 3 then [signRound3Messages t]
      else if n = 4 then [signRound4Messages t, signRound4Messages1 t]
      else if n = 5 then [signRound5Messages t]
      else if n = 6 then [signRound6Messages t]
      else if n = 7 then [signRound7Messages t]
      else if n = 8 then [signRound8Messages t]
      else if n = 10 then [signRound9Messages t]
      else [])"

fun sign_all_accepted :: "nat \<Rightarrow> sign_slots list \<Rightarrow> nat \<Rightarrow> bool res" where
  "sign_all_accepted n [] j = Ok True"
| "sign_all_accepted n (ms # mss) j =
     bindr (slice_get ms (int j)) (\<lambda>slot.
       case slot of
         None \<Rightarrow> Ok False
       | Some msg \<Rightarrow> if \<not> sign_CanAccept n msg then Ok False else sign_all_accepted n mss j)"

fun sign_update_loop :: "nat \<Rightarrow> nat list \<Rightarrow> SignDNode \<Rightarrow> (SignDNode, bool) st" where
  "sign_update_loop n [] p = (p, Ok True)"
| "sign_update_loop n (j # js) p =
     tryr (slice_get (b_ok p) (int j)) p (\<lambda>okj.
       if okj then sign_update_loop n js p
       else tryr (sign_all_accepted n (sign_update_slots n (s_temp p)) j) p (\<lambda>b.
         if \<not> b then (p, Ok False)
         else sign_update_loop n js (p\<lparr>b_ok := (b_ok p)[j := True]\<rparr>)))"

definition sign_Update :: "SignDNode \<Rightarrow> (SignDNode, bool) st" where
  "sign_Update p =
     (case s_rnd p of
        None \<Rightarrow> (p, Panic ''nil pointer dereference'')
      | Some n \<Rightarrow>
          (case sign_update_slots n (s_temp p) of
             [] \<Rightarrow> (p, Ok False)
           | ms # _ \<Rightarrow> sign_update_loop n [0..<length ms] p))"

definition sign_NextRound :: "SignDNode \<Rightarrow> SignDNode \<times> nat option" where
  "sign_NextRound p =
     (case s_rnd p of
        None \<Rightarrow> (p, None)
      | Some n \<Rightarrow> if n < 9 \<or> n = 10 then (p\<lparr>b_started := False\<rparr>, Some (n + 1)) else (p, None))"

definition sign_Start :: "SgEnv \<Rightarrow> SignDNode \<Rightarrow> (SignDNode, unit) st" where
  "sign_Start env p =
     (case s_rnd p of
        None \<Rightarrow> (p, Panic ''nil pointer dereference'')
      | Some n \<Rightarrow>
          if n = 1 then sign_round1_Start env p
          else if n = 2 then sign_round2_Start env p
          else if n = 3 then sign_round3_Start p
          else if n = 4 then sign_round4_Start env p
          else if n = 5 then sign_round5_Start env p
          else if n = 6 then sign_round6_Start env p
          else if n = 7 then sign_round7_Start env p
          else if n = 8 then sign_round8_Start env p
          else if n = 9 then sign_round9_Start env p
          else if n = 10 then sign_round10_Start env p
          else sign_round11_Start env p)"

definition sign_node :: "SgEnv \<Rightarrow> (SignDNode, SignMessage) DNode" where
  "sign_node env =
     \<lparr>dn_DNodeID = s_ID, dn_Round = s_rnd, dn_rnd = (\<lambda>r p. p\<lparr>s_rnd := r\<rparr>),
      dn_Finalize = s_finalize, dn_FinalizeRound = newRound10, dn_FirstRound = newRound1,
      dn_StoreMessage = sign_StoreMessage env, dn_Start = sign_Start env, dn_Update = sign_Update,
      dn_CanProceed = sign_CanProceed, dn_NextRound = sign_NextRound, dn_ResetOK = sign_ResetOK\<rparr>"

end
