(* ===== verification/SigningInv.thy ===== *)
theory SigningInv
  imports SigningRounds
begin

text \<open>
  Invariants of signing.  \<open>sg_frame\<close> relates the states before and after a piece of code that neither
  moves to another round nor touches the flags; every \<^verbatim>\<open>Start\<close> is such a piece after its common head.
  From it follow the contract of the driver and the invariant \<open>sg_inv\<close>.
\<close>

section \<open>What a piece of a round may change\<close>

definition sg_grows :: "SignTempData \<Rightarrow> SignTempData \<Rightarrow> bool" where
  "sg_grows t t' \<longleftrightarrow> slots_grow sign_slots_of sm_GetMsgType t t'"

text \<open>The parts of a node that only \<^verbatim>\<open>FirstRound\<close>, \<^verbatim>\<open>FinalizeRound\<close>, \<^verbatim>\<open>Start\<close> and \<^verbatim>\<open>NextRound\<close> write.\<close>

definition sg_frame :: "SignDNode \<Rightarrow> SignDNode \<Rightarrow> bool" where
  "sg_frame p p' \<longleftrightarrow> s_rnd p' = s_rnd p \<and> s_ID p' = s_ID p \<and> s_ThresHold p' = s_ThresHold p \<and>
     s_PaillierKeyLength p' = s_PaillierKeyLength p \<and> s_save p' = s_save p \<and> s_idsign p' = s_idsign p \<and>
     s_finalize p' = s_finalize p \<and> s_predata p' = s_predata p \<and> s_txhash p' = s_txhash p \<and>
     b_ok p' = b_ok p \<and> b_started p' = b_started p \<and> b_number p' = b_number p \<and> b_kgid p' = b_kgid p \<and>
     b_threshold p' = b_threshold p \<and> b_paillierkeylength p' = b_paillierkeylength p \<and>
     sg_grows (s_temp p) (s_temp p')"

named_theorems sg_intros \<open>the pieces of a signing round keep the frame\<close>

lemma sg_grows_refl [simp]: "sg_grows t t"
  by (simp add: sg_grows_def)

lemma sg_grows_trans: "sg_grows t t' \<Longrightarrow> sg_grows t' t'' \<Longrightarrow> sg_grows t t''"
  unfolding sg_grows_def by (rule slots_grow_trans)

lemma sg_frame_refl [simp]: "sg_frame p p"
  by (simp add: sg_frame_def)

interpretation sgf: framing sg_frame
  by unfold_locales (rule sg_frame_refl)

declare sgf.fr_intros [sg_intros]

interpretation sgs: slot_store sign_slots_of sign_slots_update sm_GetMsgType
proof
  show "sign_slots_of k = sign_slots_of m" if "sm_GetMsgType k = sm_GetMsgType m" for k m
    using that by (cases k; cases m) auto
qed (simp_all add: sign_slots_update_other)

lemma sg_grows_put:
  "slice_set (sign_slots_of msg t) index (Some msg) = Ok ms \<Longrightarrow> sg_grows t (sign_slots_update msg ms t)"
  unfolding sg_grows_def by (rule sgs.grow_put)

lemma sg_frame_temp:
  assumes "sg_frame p s" "sg_grows (s_temp s) t" shows "sg_frame p (s\<lparr>s_temp := t\<rparr>)"
  using assms sg_grows_trans by (fastforce simp: sg_frame_def)

lemma sg_frame_set [sg_intros]:
  assumes "sg_frame p s" "\<And>kind. sign_slots_of kind (f (s_temp s)) = sign_slots_of kind (s_temp s)"
  shows "sg_frame p (sign_set f s)"
  unfolding sign_set_def using assms by (intro sg_frame_temp) (simp_all add: sg_grows_def slots_grow_def)

lemma sg_frame_send [sg_intros]: "sg_frame p s \<Longrightarrow> sg_frame p (sign_send msg s)"
  by (simp add: sg_frame_def sign_send_def)

lemma sg_frame_out [sg_intros]: "sg_frame p s \<Longrightarrow> sg_frame p (s\<lparr>s_end := x\<rparr>)"
  "sg_frame p s \<Longrightarrow> sg_frame p (s\<lparr>s_finalizeend := y\<rparr>)"
  by (simp_all add: sg_frame_def)

lemma sg_frame_put_at [sg_intros]:
  assumes "sg_frame p s" shows "sg_frame p (fst (sign_put_at index msg s))"
  using assms sg_grows_put [of msg "s_temp s" index]
  by (cases "slice_set (sign_slots_of msg (s_temp s)) index (Some msg)") (auto simp: sign_put_at_def intro: sg_frame_temp)

lemma sg_frame_put_own [sg_intros]: "sg_frame p s \<Longrightarrow> sg_frame p (fst (sign_put_own index msg s))"
  unfolding sign_put_own_def by (intro sg_intros)

lemma sg_frame_put_send [sg_intros]: "sg_frame p s \<Longrightarrow> sg_frame p (fst (sign_put_send index msg s))"
  unfolding sign_put_send_def by (intro sg_intros)

lemma sg_frame_sample [sg_intros]: "sg_frame p s \<Longrightarrow> sg_frame p (fst (sign_sample s f))"
  by (cases "f (s_tape s)") (auto simp: sign_sample_def sg_frame_def)

lemma sg_frame_deliver [sg_intros]: "sg_frame p s \<Longrightarrow> sg_frame p (fst (deliver_to curIndex k v mk s))"
  unfolding deliver_to_def by (intro sg_intros)

lemma sg_frame_for_signers:
  assumes "\<And>k v s. sg_frame p s \<Longrightarrow> sg_frame p (fst (f k v s))" "sg_frame p s"
  shows "sg_frame p (fst (for_signers f k vs s))"
  using assms(2) by (induction vs arbitrary: k s) (auto intro!: sg_intros assms(1))

lemma sign_slots_of_temp [simp]:
  "sign_slots_of kind (t\<lparr>t_w1 := x1\<rparr>) = sign_slots_of kind t"
  "sign_slots_of kind (t\<lparr>t_u1K := x2\<rparr>) = sign_slots_of kind t"
  "sign_slots_of kind (t\<lparr>t_u1Gamma := x3\<rparr>) = sign_slots_of kind t"
  "sign_slots_of kind (t\<lparr>t_commitU1GammaG := x4\<rparr>) = sign_slots_of kind t"
  "sign_slots_of kind (t\<lparr>t_commitwiG := x5\<rparr>) = sign_slots_of kind t"
  "sign_slots_of kind (t\<lparr>t_ukc := x6\<rparr>) = sign_slots_of kind t"
  "sign_slots_of kind (t\<lparr>t_ukc2 := x7\<rparr>) = sign_slots_of kind t"
  "sign_slots_of kind (t\<lparr>t_betaU1Star := x8\<rparr>) = sign_slots_of kind t"
  "sign_slots_of kind (t\<lparr>t_betaU1 := x9\<rparr>) = sign_slots_of kind t"
  "sign_slots_of kind (t\<lparr>t_vU1Star := x10\<rparr>) = sign_slots_of kind t"
  "sign_slots_of kind (t\<lparr>t_vU1 := x11\<rparr>) = sign_slots_of kind t"
  "sign_slots_of kind (t\<lparr>t_alpha1 := x12\<rparr>) = sign_slots_of kind t"
  "sign_slots_of kind (t\<lparr>t_uu1 := x13\<rparr>) = sign_slots_of kind t"
  "sign_slots_of kind (t\<lparr>t_delta1 := x14\<rparr>) = sign_slots_of kind t"
  "sign_slots_of kind (t\<lparr>t_sigma1 := x15\<rparr>) = sign_slots_of kind t"
  "sign_slots_of kind (t\<lparr>t_t1 := x16\<rparr>) = sign_slots_of kind t"
  "sign_slots_of kind (t\<lparr>t_l1 := x17\<rparr>) = sign_slots_of kind t"
  "sign_slots_of kind (t\<lparr>t_deltaSum := x18\<rparr>) = sign_slots_of kind t"
  "sign_slots_of kind (t\<lparr>t_deltaGammaG := x19\<rparr>) = sign_slots_of kind t"
  by (cases kind; simp)+

section \<open>The Start methods\<close>

definition sign_begun :: "nat \<Rightarrow> SignDNode \<Rightarrow> SignDNode" where
  "sign_begun n p = sign_ResetOK (p\<lparr>b_number := n, b_started := True\<rparr>)"

lemma sg_frame_begin:
  assumes "\<And>s. sg_frame (sign_begun n p) s \<Longrightarrow> sg_frame (sign_begun n p) (fst (k s ()))"
  shows "if b_started p then fst (bindst (sign_begin n p) k) = p
         else sg_frame (sign_begun n p) (fst (bindst (sign_begin n p) k))"
  using assms [of "sign_begun n p"] by (simp add: sign_begin_def sign_begun_def)

lemma sg_frame_respond [sg_intros]: "sg_frame p s \<Longrightarrow> sg_frame p (fst (respond s curIndex oldindex k v factor masks))"
  unfolding respond_def by (intro sg_intros)

lemma sg_frame_round2_prove: "sg_frame p s \<Longrightarrow> sg_frame p (fst (round2_prove env curIndex pk k v s))"
  unfolding round2_prove_def by (intro sg_intros)

lemma sg_frame_round4_gamma: "sg_frame p s \<Longrightarrow> sg_frame p (fst (round4_gamma env curIndex oldindex k v s))"
  unfolding round4_gamma_def by (intro sg_intros)

lemma sg_frame_round4_w: "sg_frame p s \<Longrightarrow> sg_frame p (fst (round4_w env curIndex oldindex k v s))"
  unfolding round4_w_def by (intro sg_intros)

lemmas sg_loops [sg_intros] = sg_frame_for_signers [OF sg_frame_round2_prove]
  sg_frame_for_signers [OF sg_frame_round4_gamma] sg_frame_for_signers [OF sg_frame_round4_w]

lemma sg_frame_round1:
  "if b_started p then fst (sign_round1_Start env p) = p else sg_frame (sign_begun 1 p) (fst (sign_round1_Start env p))"
  unfolding sign_round1_Start_def Let_def by (rule sg_frame_begin) (intro sg_intros; simp)

lemma sg_frame_round2:
  "if b_started p then fst (sign_round2_Start env p) = p else sg_frame (sign_begun 2 p) (fst (sign_round2_Start env p))"
  unfolding sign_round2_Start_def Let_def by (rule sg_frame_begin) (intro sg_intros; simp)

lemma sg_frame_round3:
  "if b_started p then fst (sign_round3_Start p) = p else sg_frame (sign_begun 3 p) (fst (sign_round3_Start p))"
  unfolding sign_round3_Start_def Let_def by (rule sg_frame_begin) (intro sg_intros)

lemma sg_frame_round4:
  "if b_started p then fst (sign_round4_Start env p) = p else sg_frame (sign_begun 4 p) (fst (sign_round4_Start env p))"
  unfolding sign_round4_Start_def Let_def by (rule sg_frame_begin) (intro sg_intros; simp)

lemma sg_frame_round5:
  "if b_started p then fst (sign_round5_Start env p) = p else sg_frame (sign_begun 5 p) (fst (sign_round5_Start env p))"
  unfolding sign_round5_Start_def Let_def by (rule sg_frame_begin) (intro sg_intros; simp)

lemma sg_frame_round6:
  "if b_started p then fst (sign_round6_Start env p) = p else sg_frame (sign_begun 6 p) (fst (sign_round6_Start env p))"
  unfolding sign_round6_Start_def Let_def by (rule sg_frame_begin) (intro sg_intros; simp)

lemma sg_frame_round7:
  "if b_started p then fst (sign_round7_Start env p) = p else sg_frame (sign_begun 7 p) (fst (sign_round7_Start env p))"
  unfolding sign_round7_Start_def Let_def by (rule sg_frame_begin) (intro sg_intros; simp)

lemma sg_frame_round8:
  "if b_started p then fst (sign_round8_Start env p) = p else sg_frame (sign_begun 8 p) (fst (sign_round8_Start env p))"
  unfolding sign_round8_Start_def Let_def by (rule sg_frame_begin) (intro sg_intros)

lemma sg_frame_round9:
  "if b_started p then fst (sign_round9_Start env p) = p else sg_frame (sign_begun 9 p) (fst (sign_round9_Start env p))"
  unfolding sign_round9_Start_def Let_def by (rule sg_frame_begin) (intro sg_intros)

lemma sg_frame_round10:
  "if b_started p then fst (sign_round10_Start env p) = p else sg_frame (sign_begun 10 p) (fst (sign_round10_Start env p))"
  unfolding sign_round10_Start_def Let_def by (rule sg_frame_begin) (intro sg_intros)

lemma sg_frame_round11:
  "if b_started p then fst (sign_round11_Start env p) = p else sg_frame (sign_begun 11 p) (fst (sign_round11_Start env p))"
  unfolding sign_round11_Start_def Let_def by (rule sg_frame_begin) (intro sg_intros)

lemma sg_frame_StoreMessage: "sg_frame p (fst (sign_StoreMessage env p msg))"
  unfolding sign_StoreMessage_def by (intro sg_intros)

section \<open>The invariant\<close>

text \<open>The kinds of messages a round waits for, each by a blank message.\<close>

definition sign_kinds :: "nat \<Rightarrow> SignMessage list" where
  "sign_kinds m =
     (let b = \<lparr>sm_FromID = [], sm_FromIndex = 0, sm_ToID = []\<rparr>
      in if m = 1 then [SignRound1Message b None None]
         else if m = 2 then [SignRound2Message b None]
         else if m = 3 then [SignRound3Message b None []]
         else if m = 4 then [SignRound4Message b None None, SignRound4Message1 b None None]
         else if m = 5 then [SignRound5Message b None None None]
         else if m = 6 then [SignRound6Message b [] None]
         else if m = 7 then [SignRound7Message b None None]
         else if m = 8 then [SignRound8Message b None None]
         else if m = 10 then [SignRound9Message b None] else [])"

lemma sign_update_slots_kinds: "sign_update_slots m t = map (\<lambda>kind. sign_slots_of kind t) (sign_kinds m)"
  by (simp add: sign_update_slots_def sign_kinds_def Let_def)

lemma sign_kinds_accepted:
  "kind \<in> set (sign_kinds m) \<Longrightarrow> sm_GetMsgType msg = sm_GetMsgType kind \<Longrightarrow> sign_CanAccept m msg"
  by (cases msg) (auto simp: sign_kinds_def sign_CanAccept_def Let_def split: if_splits)

definition sg_filled :: "nat \<Rightarrow> nat \<Rightarrow> SignTempData \<Rightarrow> bool" where
  "sg_filled m j t \<longleftrightarrow> (\<forall>ms \<in> set (sign_update_slots m t). j < length ms \<and> ms ! j \<noteq> None)"

definition sg_shape :: "int \<Rightarrow> SignTempData \<Rightarrow> bool" where
  "sg_shape n t \<longleftrightarrow> (\<forall>kind. length (sign_slots_of kind t) = nat n \<and>
     (\<forall>m. Some m \<in> set (sign_slots_of kind t) \<longrightarrow> sm_GetMsgType m = sm_GetMsgType kind))"

text \<open>The rounds before \<open>n\<close> in the same run: presigning and finalising are separate runs.\<close>

definition before :: "nat \<Rightarrow> nat \<Rightarrow> bool" where
  "before m n \<longleftrightarrow> m < n \<and> (9 < n \<longrightarrow> 9 < m)"

definition sg_inv :: "int \<Rightarrow> SignDNode \<Rightarrow> bool" where
  "sg_inv c p \<longleftrightarrow> s_ThresHold p = c \<and> sg_shape c (s_temp p) \<and>
     (\<forall>n. s_rnd p = Some n \<longrightarrow>
        length (b_ok p) = nat c \<and> b_threshold p = c \<and>
        (b_started p \<longrightarrow> (\<forall>j < length (b_ok p). b_ok p ! j \<longrightarrow> sg_filled n j (s_temp p))) \<and>
        (\<forall>m j. before m n \<and> j < nat c \<longrightarrow> sg_filled m j (s_temp p)))"

lemma sg_filled_grows: "sg_grows t t' \<Longrightarrow> sg_filled m j t \<Longrightarrow> sg_filled m j t'"
  using slots_grow_filled by (fastforce simp: sg_filled_def sg_grows_def sign_update_slots_kinds)

lemma sg_frame_inv:
  assumes "sg_frame p p'" "sg_inv c p" shows "sg_inv c p'"
proof -
  note f = assms(1) [unfolded sg_frame_def]
  have grows: "sg_grows (s_temp p) (s_temp p')" using f by blast
  have "sg_shape c (s_temp p')"
    using f grows assms(2) unfolding sg_inv_def sg_shape_def sg_grows_def slots_grow_def by metis
  then show ?thesis using f assms(2) sg_filled_grows [OF grows] by (auto simp: sg_inv_def)
qed

section \<open>Update, Start and NextRound\<close>

lemma sign_all_accepted_True:
  "sign_all_accepted n mss j = Ok True \<Longrightarrow> ms \<in> set mss \<Longrightarrow> j < length ms \<and> ms ! j \<noteq> None"
  by (induction n mss j rule: sign_all_accepted.induct)
    (auto simp: slice_get_Ok_iff split: option.splits if_splits)

lemma sign_update_loop_effect:
  "\<exists>ok. fst (sign_update_loop n js p) = p\<lparr>b_ok := ok\<rparr> \<and> length ok = length (b_ok p) \<and>
     (\<forall>j < length ok. ok ! j \<longrightarrow> b_ok p ! j \<or> sg_filled n j (s_temp p))"
proof (induction js arbitrary: p)
  case Nil
  show ?case by (intro exI [of _ "b_ok p"]) simp
next
  case (Cons j js)
  let ?p = "p\<lparr>b_ok := (b_ok p)[j := True]\<rparr>"
  have halt: "fst (sign_update_loop n (j # js) p) = p"
    if "slice_get (b_ok p) (int j) \<noteq> Ok True"
      "\<not> (slice_get (b_ok p) (int j) = Ok False \<and> sign_all_accepted n (sign_update_slots n (s_temp p)) j = Ok True)"
    using that by (cases "slice_get (b_ok p) (int j)"; cases "sign_all_accepted n (sign_update_slots n (s_temp p)) j") auto
  consider (skip) "slice_get (b_ok p) (int j) = Ok True"
    | (accept) "slice_get (b_ok p) (int j) = Ok False" "sign_all_accepted n (sign_update_slots n (s_temp p)) j = Ok True"
    | (stop) "fst (sign_update_loop n (j # js) p) = p"
    using halt by blast
  then show ?case
  proof cases
    case skip
    then show ?thesis using Cons [of p] by simp
  next
    case accept
    then have fill: "sg_filled n j (s_temp p)" using sign_all_accepted_True by (auto simp: sg_filled_def)
    obtain ok where ok: "fst (sign_update_loop n js ?p) = p\<lparr>b_ok := ok\<rparr>" "length ok = length (b_ok p)"
      "\<forall>i < length ok. ok ! i \<longrightarrow> (b_ok p)[j := True] ! i \<or> sg_filled n i (s_temp p)"
      using Cons [of ?p] by auto
    then have "\<forall>i < length ok. ok ! i \<longrightarrow> b_ok p ! i \<or> sg_filled n i (s_temp p)"
      using fill by (metis nth_list_update_neq)
    then show ?thesis using accept ok(1,2) by (intro exI [of _ ok]) simp
  next
    case stop
    then show ?thesis by (intro exI [of _ "b_ok p"]) simp
  qed
qed

text \<open>\<^verbatim>\<open>Update\<close> sets flags only, and only for slots that are filled.\<close>

lemma sign_Update_effect:
  "\<exists>ok. fst (sign_Update p) = p\<lparr>b_ok := ok\<rparr> \<and> length ok = length (b_ok p) \<and>
     (\<forall>j < length ok. ok ! j \<longrightarrow> b_ok p ! j \<or> (\<forall>n. s_rnd p = Some n \<longrightarrow> sg_filled n j (s_temp p)))"
proof -
  consider (same) "fst (sign_Update p) = p"
    | (loop) n js where "s_rnd p = Some n" "fst (sign_Update p) = fst (sign_update_loop n js p)"
    by (fastforce simp: sign_Update_def split: option.splits list.splits)
  then show ?thesis
  proof cases
    case same
    then show ?thesis by (intro exI [of _ "b_ok p"]) simp
  next
    case loop
    then show ?thesis using sign_update_loop_effect [of n js p] by simp
  qed
qed

lemma inv_sign_Update:
  assumes "sg_inv c p" shows "sg_inv c (fst (sign_Update p))"
proof -
  obtain ok where ok: "fst (sign_Update p) = p\<lparr>b_ok := ok\<rparr>" "length ok = length (b_ok p)"
    "\<forall>j < length ok. ok ! j \<longrightarrow> b_ok p ! j \<or> (\<forall>n. s_rnd p = Some n \<longrightarrow> sg_filled n j (s_temp p))"
    using sign_Update_effect by blast
  then show ?thesis using assms by (auto simp: sg_inv_def)
qed

lemma inv_sign_ResetOK: "sg_inv c p \<Longrightarrow> sg_inv c (sign_ResetOK p)"
  by (auto simp: sg_inv_def sign_ResetOK_def)

lemma inv_sign_begun: "sg_inv c p \<Longrightarrow> sg_inv c (sign_begun n p)"
  by (auto simp: sg_inv_def sign_begun_def sign_ResetOK_def)

lemma sign_Start_frame:
  "fst (sign_Start env p) = p \<or> (\<exists>n. sg_frame (sign_begun n p) (fst (sign_Start env p)))"
proof (cases "s_rnd p")
  case None
  then show ?thesis by (simp add: sign_Start_def)
next
  case (Some n)
  show ?thesis
    using Some sg_frame_round1 [of p env] sg_frame_round2 [of p env] sg_frame_round3 [of p] sg_frame_round4 [of p env]
      sg_frame_round5 [of p env] sg_frame_round6 [of p env] sg_frame_round7 [of p env] sg_frame_round8 [of p env]
      sg_frame_round9 [of p env] sg_frame_round10 [of p env] sg_frame_round11 [of p env]
    unfolding sign_Start_def by (cases "b_started p") (simp_all, metis+)
qed

lemma inv_sign_Start: "sg_inv c p \<Longrightarrow> sg_inv c (fst (sign_Start env p))"
  using sign_Start_frame [of env p] inv_sign_begun sg_frame_inv by metis

lemma advance_sign:
  "advance (sign_node env) p = (case s_rnd p of
     None \<Rightarrow> p
   | Some n \<Rightarrow> if n < 9 \<or> n = 10 then p\<lparr>b_started := False, s_rnd := Some (n + 1)\<rparr> else p\<lparr>s_rnd := None\<rparr>)"
  by (simp add: advance_def sign_node_def sign_NextRound_def split: option.splits)

lemma before_Suc: "n < 9 \<or> n = 10 \<Longrightarrow> before m (Suc n) \<longleftrightarrow> m = n \<or> before m n"
  by (auto simp: before_def)

lemma inv_sign_advance:
  assumes "sg_inv c p" "sign_CanProceed p" shows "sg_inv c (advance (sign_node env) p)"
proof (cases "s_rnd p")
  case None
  then show ?thesis using assms by (simp add: advance_sign)
next
  case (Some n)
  have "\<forall>j < length (b_ok p). b_ok p ! j" "b_started p"
    using assms(2) by (auto simp: sign_CanProceed_def list_all_length split: if_splits)
  then have "\<forall>j < nat c. sg_filled n j (s_temp p)" using assms(1) Some by (auto simp: sg_inv_def)
  then show ?thesis
    using assms(1) Some by (auto simp: advance_sign sg_inv_def before_Suc)
qed

section \<open>The driver's contract\<close>

definition sg_rank :: "SignDNode \<Rightarrow> nat" where
  "sg_rank p = (case s_rnd p of None \<Rightarrow> 0 | Some n \<Rightarrow> if n \<le> 9 then Suc (9 - n) else Suc (11 - n))"

lemma sg_rank_less: "sg_rank p < 11"
  by (auto simp: sg_rank_def split: option.splits)

lemma rnd_sign_StoreMessage: "s_rnd (fst (sign_StoreMessage env p msg)) = s_rnd p"
  using sg_frame_StoreMessage [of p env msg] by (simp add: sg_frame_def)

lemma rnd_sign_Update: "s_rnd (fst (sign_Update p)) = s_rnd p"
  using sign_Update_effect [of p] by auto

lemma rnd_sign_Start: "s_rnd (fst (sign_Start env p)) = s_rnd p"
  using sign_Start_frame [of env p] by (auto simp: sg_frame_def sign_begun_def sign_ResetOK_def)

interpretation sg: invariant_machine "sign_node env" sg_rank "sg_inv c" for env :: SgEnv and c :: int
proof
  fix p :: SignDNode and msg
  show "sg_rank (fst (dn_StoreMessage (sign_node env) p msg)) = sg_rank p"
    "dn_Round (sign_node env) (fst (dn_StoreMessage (sign_node env) p msg)) = dn_Round (sign_node env) p"
    by (simp_all add: sign_node_def sg_rank_def rnd_sign_StoreMessage)
  show "sg_rank (fst (dn_Start (sign_node env) p)) = sg_rank p"
    "dn_Round (sign_node env) (fst (dn_Start (sign_node env) p)) = dn_Round (sign_node env) p"
    by (simp_all add: sign_node_def sg_rank_def rnd_sign_Start)
  show "sg_rank (fst (dn_Update (sign_node env) p)) = sg_rank p"
    "dn_Round (sign_node env) (fst (dn_Update (sign_node env) p)) = dn_Round (sign_node env) p"
    by (simp_all add: sign_node_def sg_rank_def rnd_sign_Update)
  show "sg_rank (dn_ResetOK (sign_node env) p) = sg_rank p"
    by (simp add: sign_node_def sg_rank_def sign_ResetOK_def)
  show "sg_rank (advance (sign_node env) p) < sg_rank p" if "dn_Round (sign_node env) p \<noteq> None"
  proof -
    have "s_rnd p \<noteq> None" using that by (simp add: sign_node_def)
    then show ?thesis by (auto simp: advance_sign sg_rank_def)
  qed
  show "sg_inv c (fst (dn_StoreMessage (sign_node env) p msg))" if "sg_inv c p"
    using sg_frame_inv [OF sg_frame_StoreMessage that] by (simp add: sign_node_def)
  show "sg_inv c (fst (dn_Start (sign_node env) p))" if "sg_inv c p"
    using inv_sign_Start [OF that] by (simp add: sign_node_def)
  show "sg_inv c (fst (dn_Update (sign_node env) p))" if "sg_inv c p"
    using inv_sign_Update [OF that] by (simp add: sign_node_def)
  show "sg_inv c (dn_ResetOK (sign_node env) p)" if "sg_inv c p"
    using inv_sign_ResetOK [OF that] by (simp add: sign_node_def)
  show "sg_inv c (advance (sign_node env) p)" if "sg_inv c p" "dn_CanProceed (sign_node env) p"
    using inv_sign_advance [OF that(1)] that(2) by (simp add: sign_node_def)
qed

section \<open>A started node\<close>

lemma sg_inv_new:
  assumes "sign_NewLocalDNode save idsign kgid th len fin pre txhash tape = Ok p"
  shows "sg_inv th (new_base (sign_SetDNodeID idn p)\<lparr>s_rnd := Some n\<rparr>) \<longleftrightarrow>
    (\<forall>m j. before m n \<and> j < nat th \<longrightarrow> sg_filled m j (new_SignTempData th))"
proof -
  have p: "s_temp p = new_SignTempData th" "s_ThresHold p = th" "0 \<le> th"
    using assms by (auto simp: sign_NewLocalDNode_def split: if_splits)
  have "length (sign_slots_of kind (new_SignTempData th)) = nat th \<and>
     (\<forall>m. Some m \<in> set (sign_slots_of kind (new_SignTempData th)) \<longrightarrow> sm_GetMsgType m = sm_GetMsgType kind)" for kind
    by (cases kind) (auto simp: new_SignTempData_def Let_def)
  then have "sg_shape th (new_SignTempData th)" by (simp add: sg_shape_def)
  then show ?thesis using p by (auto simp: sg_inv_def new_base_def sign_SetDNodeID_def)
qed

lemma no_round_before_first: "before m 1 \<Longrightarrow> sg_filled m j t" "before m 10 \<Longrightarrow> sg_filled m j t"
  by (auto simp: before_def sg_filled_def sign_update_slots_def)

lemma sg_inv_started:
  assumes "sign_NewLocalDNode save idsign kgid th len fin pre txhash tape = Ok p"
    and "BaseStart (sign_node env) (sign_SetDNodeID idn p) = (s, Ok ())"
  shows "sg_inv th s"
proof -
  let ?q = "sign_SetDNodeID idn p"
  have q: "s_rnd ?q = None" "s_finalize ?q = fin"
    using assms(1) by (auto simp: sign_NewLocalDNode_def sign_SetDNodeID_def split: if_splits)
  let ?n = "if fin then 10 else (1 :: nat)"
  have "s = fst (sign_Start env ((new_base ?q)\<lparr>s_rnd := Some ?n\<rparr>))"
    using assms(2) q
    by (auto simp: BaseStart_def setRound_def startRound_def sign_node_def newRound1_def newRound10_def new_base_def
        split: if_splits)
  moreover have "sg_inv th ((new_base ?q)\<lparr>s_rnd := Some ?n\<rparr>)"
    using sg_inv_new [OF assms(1)] no_round_before_first by auto
  ultimately show ?thesis using inv_sign_Start by blast
qed

lemma sg_gate:
  assumes "sg_inv c p" "s_rnd p = Some n" "before m n" "ms \<in> set (sign_update_slots m (s_temp p))"
  shows "length ms = nat c \<and> (\<forall>slot \<in> set ms. \<exists>msg. slot = Some msg \<and> sign_CanAccept m msg)"
proof -
  obtain kind where kind: "kind \<in> set (sign_kinds m)" "ms = sign_slots_of kind (s_temp p)"
    using assms(4) by (auto simp: sign_update_slots_kinds)
  have len: "length ms = nat c" and types: "\<forall>msg. Some msg \<in> set ms \<longrightarrow> sm_GetMsgType msg = sm_GetMsgType kind"
    using assms(1) kind(2) by (simp_all add: sg_inv_def sg_shape_def)
  have "\<exists>msg. slot = Some msg \<and> sign_CanAccept m msg" if slot: "slot \<in> set ms" for slot
  proof -
    obtain j where "j < nat c" "slot = ms ! j" using slot len unfolding in_set_conv_nth by metis
    then have "slot \<noteq> None" using assms by (auto simp: sg_inv_def sg_filled_def)
    then show ?thesis using slot types sign_kinds_accepted [OF kind(1)] by blast
  qed
  then show ?thesis using len by blast
qed

end
