(* ===== verification/KeygenInv.thy ===== *)
theory KeygenInv
  imports KeygenRounds
begin

text \<open>
  Invariants of the key generation.  \<open>frame\<close> relates the states before and after a piece of code that
  neither moves to another round nor touches the flags: slots are only filled, with messages of
  their type, and no slice changes its length.  Every \<^verbatim>\<open>Start\<close> is such a piece after its common head.
  From it follow the contract of the driver and the invariant \<open>kg_inv\<close>.
\<close>

section \<open>What a piece of a round may change\<close>

definition grows :: "localTempData \<Rightarrow> localTempData \<Rightarrow> bool" where
  "grows t t' \<longleftrightarrow> kgRound0Messages t' = kgRound0Messages t \<and> slots_grow slots_of GetMsgType t t'"

definition frame :: "LocalDNode \<Rightarrow> LocalDNode \<Rightarrow> bool" where
  "frame p p' \<longleftrightarrow> p_rnd p' = p_rnd p \<and> p_ID p' = p_ID p \<and> p_DNodeCountInGroup p' = p_DNodeCountInGroup p \<and>
     r_ok p' = r_ok p \<and> r_started p' = r_started p \<and> r_dnodecount p' = r_dnodecount p \<and>
     grows (p_temp p) (p_temp p') \<and>
     length (sd_U1PaillierPk (p_data p')) = length (sd_U1PaillierPk (p_data p)) \<and>
     length (sd_U1NtildeH1H2 (p_data p')) = length (sd_U1NtildeH1H2 (p_data p))"

named_theorems frame_intros \<open>the pieces of a round keep the frame\<close>

lemma grows_refl [simp]: "grows t t"
  by (simp add: grows_def)

lemma grows_trans: "grows t t' \<Longrightarrow> grows t' t'' \<Longrightarrow> grows t t''"
  unfolding grows_def using slots_grow_trans by metis

lemma frame_refl [simp, frame_intros]: "frame p p"
  by (simp add: frame_def)

lemma frame_trans: "frame p p' \<Longrightarrow> frame p' p'' \<Longrightarrow> frame p p''"
  unfolding frame_def using grows_trans by metis

interpretation kgf: framing frame
  by unfold_locales (rule frame_refl)

declare kgf.fr_intros [frame_intros]

text \<open>The elementary steps.\<close>

interpretation kgs: slot_store slots_of slots_update GetMsgType
proof
  show "slots_of k = slots_of m" if "GetMsgType k = GetMsgType m" for k m
    using that by (cases k; cases m) auto
qed (simp_all add: length_slots_update_other)

lemma grows_put:
  assumes "slice_set (slots_of kg t) index (Some kg) = Ok ms" "GetMsgType kg \<noteq> ''KGRound0Message''"
  shows "grows t (slots_update kg ms t)"
proof -
  have "kgRound0Messages (slots_update kg ms t) = kgRound0Messages t" using assms(2) by (cases kg) auto
  then show ?thesis using kgs.grow_put [OF assms(1)] by (simp add: grows_def)
qed

lemma frame_temp:
  assumes "frame p s" "grows (p_temp s) t" shows "frame p (s\<lparr>p_temp := t\<rparr>)"
  using assms grows_trans by (fastforce simp: frame_def)

lemma frame_set_temp [frame_intros]:
  assumes "frame p s" "\<And>kind. slots_of kind (f (p_temp s)) = slots_of kind (p_temp s)"
  shows "frame p (set_temp f s)"
proof -
  have "kgRound0Messages (f (p_temp s)) = kgRound0Messages (p_temp s)"
    using assms(2) [of "KGRound0Message undefined"] by simp
  then show ?thesis unfolding set_temp_def using assms by (intro frame_temp) (simp_all add: grows_def slots_grow_def)
qed

lemma frame_set_save [frame_intros]:
  assumes "frame p s" "length (sd_U1PaillierPk (f (p_data s))) = length (sd_U1PaillierPk (p_data s))"
    "length (sd_U1NtildeH1H2 (f (p_data s))) = length (sd_U1NtildeH1H2 (p_data s))"
  shows "frame p (set_save f s)"
  using assms by (simp add: frame_def set_save_def)

lemma frame_send [frame_intros]: "frame p s \<Longrightarrow> frame p (send kg s)"
  by (simp add: frame_def send_def)

lemma frame_put_own [frame_intros]:
  assumes "frame p s" "GetMsgType kg \<noteq> ''KGRound0Message''"
  shows "frame p (fst (put_own index kg s))"
  using assms grows_put [of kg "p_temp s" index]
  by (cases "slice_set (slots_of kg (p_temp s)) index (Some kg)") (auto simp: put_own_def intro: frame_temp)

lemma frame_put_send [frame_intros]:
  "frame p s \<Longrightarrow> GetMsgType kg \<noteq> ''KGRound0Message'' \<Longrightarrow> frame p (fst (put_send index kg s))"
  unfolding put_send_def by (intro frame_intros) simp

lemma frame_sample [frame_intros]: "frame p s \<Longrightarrow> frame p (fst (sample s f))"
  by (cases "f (p_tape s)") (auto simp: sample_def frame_def)

lemma frame_primes [frame_intros]: "frame p s \<Longrightarrow> frame p (s\<lparr>p_primes := primes\<rparr>)"
  by (simp add: frame_def)

lemma frame_tape [frame_intros]: "frame p s \<Longrightarrow> frame p (s\<lparr>p_tape := tape\<rparr>)"
  by (simp add: frame_def)

section \<open>The Start methods\<close>

definition begun :: "nat \<Rightarrow> LocalDNode \<Rightarrow> LocalDNode" where
  "begun n p = ResetOK (p\<lparr>r_number := n, r_started := True\<rparr>)"

lemma frame_begin:
  assumes "\<And>s. frame (begun n p) s \<Longrightarrow> frame (begun n p) (fst (k s ()))"
  shows "if r_started p then fst (bindst (begin_round n p) k) = p
         else frame (begun n p) (fst (bindst (begin_round n p) k))"
  using assms [of "begun n p"] by (simp add: begin_round_def begun_def)

lemma frame_give_share [frame_intros]: "frame p s \<Longrightarrow> frame p (fst (give_share c k i vs s))"
proof (induction vs arbitrary: s)
  case (Cons v vs)
  then show ?case
    unfolding give_share.simps by (intro frame_intros) (auto simp: share_message_def)
qed simp

lemma frame_give_shares [frame_intros]: "frame p s \<Longrightarrow> frame p (fst (give_shares c shares k is s))"
  by (induction "is" arbitrary: k s) (auto intro!: frame_intros)

lemma frame_round1_keys [frame_intros]: "frame p s \<Longrightarrow> frame p (fst (round1_keys env s))"
  unfolding round1_keys_def by (intro frame_intros)

lemma frame_round4_keys [frame_intros]: "frame p s \<Longrightarrow> frame p (fst (round4_keys env s n))"
  unfolding round4_keys_def Let_def by (intro frame_intros) auto

lemma frame_round4_ntilde [frame_intros]: "frame p s \<Longrightarrow> frame p (fst (round4_ntilde s))"
  unfolding round4_ntilde_def by (intro frame_intros)

lemma slots_of_temp [simp]:
  "slots_of kind (t\<lparr>t_u1 := x0\<rparr>) = slots_of kind t"
  "slots_of kind (t\<lparr>t_u1Poly := x1\<rparr>) = slots_of kind t"
  "slots_of kind (t\<lparr>t_u1PolyG := x2\<rparr>) = slots_of kind t"
  "slots_of kind (t\<lparr>t_commitU1G := x3\<rparr>) = slots_of kind t"
  "slots_of kind (t\<lparr>t_c1 := x4\<rparr>) = slots_of kind t"
  "slots_of kind (t\<lparr>t_commitC1G := x5\<rparr>) = slots_of kind t"
  "slots_of kind (t\<lparr>t_u1PaillierPk := x6\<rparr>) = slots_of kind t"
  "slots_of kind (t\<lparr>t_u1PaillierSk := x7\<rparr>) = slots_of kind t"
  "slots_of kind (t\<lparr>t_p := x8\<rparr>) = slots_of kind t"
  "slots_of kind (t\<lparr>t_q := x9\<rparr>) = slots_of kind t"
  "slots_of kind (t\<lparr>t_u1Shares := x10\<rparr>) = slots_of kind t"
  "slots_of kind (t\<lparr>t_p1 := x11\<rparr>) = slots_of kind t"
  "slots_of kind (t\<lparr>t_p2 := x12\<rparr>) = slots_of kind t"
  "slots_of kind (t\<lparr>t_commitXiG := x13\<rparr>) = slots_of kind t"
  by (cases kind; simp)+


lemma frame_round4_publish [frame_intros]:
  "frame p s \<Longrightarrow> frame p (fst (round4_publish env curIndex skU1 s))"
  unfolding round4_publish_def round4_proofs_def Let_def
  by (intro frame_intros; simp add: slice_set_Ok_iff set_save_def set_temp_def)

lemma round0_Start_effect:
  "if r_started p then fst (round0_Start p) = p
   else fst (round0_Start p) = send (KGRound0Message (kg_from p (-1)))
     (set_temp (\<lambda>t. t\<lparr>kgRound0Messages := kgRound0Messages t @ [Some (KGRound0Message (kg_from p (-1)))]\<rparr>) (begun 0 p))"
  by (simp add: round0_Start_def begin_round_def begun_def Let_def kg_from_def ResetOK_def)

lemma frame_round1:
  "if r_started p then fst (round1_Start env p) = p else frame (begun 1 p) (fst (round1_Start env p))"
  unfolding round1_Start_def Let_def
  by (rule frame_begin) (intro frame_intros; simp add: slice_set_Ok_iff set_save_def set_temp_def)

lemma frame_round2:
  "if r_started p then fst (round2_Start env p) = p else frame (begun 2 p) (fst (round2_Start env p))"
  unfolding round2_Start_def Let_def
  by (rule frame_begin) (intro frame_intros; simp add: slice_set_Ok_iff set_save_def set_temp_def)

lemma frame_round3:
  "if r_started p then fst (round3_Start env p) = p else frame (begun 3 p) (fst (round3_Start env p))"
  unfolding round3_Start_def Let_def
  by (rule frame_begin) (intro frame_intros; simp add: slice_set_Ok_iff set_save_def set_temp_def)

lemma frame_round4:
  "if r_started p then fst (round4_Start env p) = p else frame (begun 4 p) (fst (round4_Start env p))"
  unfolding round4_Start_def Let_def
  by (rule frame_begin) (intro frame_intros; simp add: slice_set_Ok_iff set_save_def set_temp_def)

lemma frame_round5:
  "if r_started p then fst (round5_Start env p) = p else frame (begun 5 p) (fst (round5_Start env p))"
  unfolding round5_Start_def Let_def
  by (rule frame_begin) (intro frame_intros; simp add: slice_set_Ok_iff set_save_def set_temp_def)

lemma frame_round6:
  "if r_started p then fst (round6_Start env p) = p else frame (begun 6 p) (fst (round6_Start env p))"
  unfolding round6_Start_def Let_def
  by (rule frame_begin) (intro frame_intros; simp add: slice_set_Ok_iff set_save_def set_temp_def)

lemma frame_round7:
  "if r_started p then fst (round7_Start env p) = p else frame (begun 7 p) (fst (round7_Start env p))"
  unfolding round7_Start_def Let_def
  by (rule frame_begin) (intro frame_intros; simp add: frame_def)

section \<open>Storing a message\<close>

lemma frame_put_slot [frame_intros]:
  "frame p s \<Longrightarrow> GetMsgType msg \<noteq> ''KGRound0Message'' \<Longrightarrow> frame p (fst (put_slot s msg))"
  using grows_put [of msg "p_temp s" "GetFromIndex msg"]
  by (cases "slice_set (slots_of msg (p_temp s)) (GetFromIndex msg) (Some msg)")
    (auto simp: put_slot_def intro: frame_temp)

lemma frame_data:
  "frame p s \<Longrightarrow> length (sd_U1PaillierPk d) = length (sd_U1PaillierPk (p_data s)) \<Longrightarrow>
   length (sd_U1NtildeH1H2 d) = length (sd_U1NtildeH1H2 (p_data s)) \<Longrightarrow> frame p (s\<lparr>p_data := d\<rparr>)"
  by (simp add: frame_def)

lemma frame_StoreMessage:
  assumes "GetMsgType msg \<noteq> ''KGRound0Message''"
  shows "frame p (fst (StoreMessage env p msg))"
proof (cases msg)
  case (KGRound0Message b)
  then show ?thesis using assms by simp
next
  case (KGRound1Message b c c' pk)
  then show ?thesis
    unfolding StoreMessage_def KGMessage.case Let_def
    by (simp only: KGMessage.case, intro frame_intros frame_data) (auto simp: slice_set_Ok_iff)
next
  case (KGRound4Message b nt pf1 pf2 c)
  then show ?thesis
    unfolding StoreMessage_def KGMessage.case Let_def
    by (simp only: KGMessage.case, intro frame_intros frame_data) (auto simp: slice_set_Ok_iff)
qed (use assms in \<open>simp_all only: StoreMessage_def KGMessage.case,
    (intro frame_intros frame_put_slot; simp)+\<close>)

definition store0 :: "LocalDNode \<Rightarrow> KGMessage \<Rightarrow> LocalDNode" where
  "store0 p msg = p\<lparr>p_temp := (p_temp p)\<lparr>kgRound0Messages := kgRound0Messages (p_temp p) @ [Some msg]\<rparr>\<rparr>"

lemma StoreMessage_round0:
  "fst (StoreMessage env p (KGRound0Message b)) =
     (if \<not> find (kgRound0Messages (p_temp p)) (KGRound0Message b) \<and>
         int (length (kgRound0Messages (p_temp p))) < p_DNodeCountInGroup p
      then store0 p (KGRound0Message b) else p)"
  by (simp add: StoreMessage_def store0_def Let_def)

section \<open>The invariant\<close>

text \<open>Slot \<open>j\<close> of every slice that round \<open>m\<close> waits for is filled.\<close>

definition filled :: "nat \<Rightarrow> nat \<Rightarrow> localTempData \<Rightarrow> bool" where
  "filled m j t \<longleftrightarrow> (\<forall>ms \<in> set (update_slots m t). j < length ms \<and> ms ! j \<noteq> None)"

definition shape :: "int \<Rightarrow> localTempData \<Rightarrow> bool" where
  "shape n t \<longleftrightarrow> (\<forall>kind. (GetMsgType kind \<noteq> ''KGRound0Message'' \<longrightarrow> length (slots_of kind t) = nat n) \<and>
     (\<forall>m. Some m \<in> set (slots_of kind t) \<longrightarrow> GetMsgType m = GetMsgType kind))"

definition senders :: "localTempData \<Rightarrow> string list" where
  "senders t = map (\<lambda>v. case v of None \<Rightarrow> [] | Some m \<Rightarrow> GetFromID m) (kgRound0Messages t)"

definition round0_ok :: "int \<Rightarrow> localTempData \<Rightarrow> bool" where
  "round0_ok n t \<longleftrightarrow> None \<notin> set (kgRound0Messages t) \<and> distinct (senders t) \<and>
     length (kgRound0Messages t) \<le> max 1 (nat n)"

definition kg_inv :: "int \<Rightarrow> LocalDNode \<Rightarrow> bool" where
  "kg_inv c p \<longleftrightarrow> p_DNodeCountInGroup p = c \<and> shape (p_DNodeCountInGroup p) (p_temp p) \<and> round0_ok (p_DNodeCountInGroup p) (p_temp p) \<and>
     length (sd_U1PaillierPk (p_data p)) = nat (p_DNodeCountInGroup p) \<and>
     length (sd_U1NtildeH1H2 (p_data p)) = nat (p_DNodeCountInGroup p) \<and>
     (p_rnd p = Some 0 \<longrightarrow> r_started p) \<and>
     (\<forall>n. p_rnd p = Some n \<longrightarrow>
        n \<le> 7 \<and> length (r_ok p) = nat (p_DNodeCountInGroup p) \<and> r_dnodecount p = p_DNodeCountInGroup p \<and>
        (r_started p \<longrightarrow> (\<forall>j < length (r_ok p). r_ok p ! j \<longrightarrow> filled n j (p_temp p))) \<and>
        (\<forall>m < n. \<forall>j < nat (p_DNodeCountInGroup p). filled m j (p_temp p)))"

text \<open>The kinds of messages a round waits for, each by a blank message.\<close>

definition round_kinds :: "nat \<Rightarrow> KGMessage list" where
  "round_kinds m =
     (let b = new_KGRoundMessage
      in if m = 0 then [KGRound0Message b]
         else if m = 1 then [KGRound1Message b None None None]
         else if m = 2 then [KGRound2Message b None None, KGRound2Message1 b None, KGRound2Message2 b None None]
         else if m = 3 then [KGRound3Message b [] [] []]
         else if m = 4 then [KGRound4Message b None None None None]
         else if m = 5 then [KGRound5Message1 b None None, KGRound5Message b [], KGRound5Message2 b None None]
         else if m = 6 then [KGRound6Message b None False] else [])"

lemma update_slots_kinds: "update_slots m t = map (\<lambda>kind. slots_of kind t) (round_kinds m)"
  by (cases "(m, t)" rule: update_slots.cases) (auto simp: round_kinds_def)

lemma filled_grows: "grows t t' \<Longrightarrow> filled m j t \<Longrightarrow> filled m j t'"
  using slots_grow_filled by (fastforce simp: filled_def grows_def update_slots_kinds)

lemma frame_inv:
  assumes "frame p p'" "kg_inv c p" shows "kg_inv c p'"
proof -
  note f = assms(1) [unfolded frame_def]
  have grows: "grows (p_temp p) (p_temp p')" using f by blast
  have "shape (p_DNodeCountInGroup p') (p_temp p')"
    using f grows assms(2) unfolding kg_inv_def shape_def grows_def slots_grow_def by metis
  moreover have "kgRound0Messages (p_temp p') = kgRound0Messages (p_temp p)"
    using grows by (simp add: grows_def)
  ultimately show ?thesis
    using f assms(2) filled_grows [OF grows] by (auto simp: kg_inv_def round0_ok_def senders_def)
qed

text \<open>A further round 0 message.\<close>

definition new_sender :: "localTempData \<Rightarrow> KGMessage \<Rightarrow> bool" where
  "new_sender t m \<longleftrightarrow> GetFromID m \<notin> set (senders t)"

lemma slots_of_round0_update:
  "slots_of kind (t\<lparr>kgRound0Messages := ms\<rparr>) =
     (if GetMsgType kind = ''KGRound0Message'' then ms else slots_of kind t)"
  by (cases kind) auto

lemma filled_append: "filled m j t \<Longrightarrow> filled m j (t\<lparr>kgRound0Messages := kgRound0Messages t @ [x]\<rparr>)"
  by (auto simp: filled_def update_slots_kinds slots_of_round0_update nth_append round_kinds_def Let_def split: if_splits)

lemma shape_round0:
  assumes "shape n t" "GetMsgType m = ''KGRound0Message''"
  shows "shape n (t\<lparr>kgRound0Messages := kgRound0Messages t @ [Some m]\<rparr>)"
proof -
  have "Some m' \<in> set (kgRound0Messages t) \<Longrightarrow> GetMsgType m' = ''KGRound0Message''" for m'
    using assms(1) by (force simp: shape_def dest: spec [of _ "KGRound0Message undefined"])
  then show ?thesis using assms by (auto simp: shape_def slots_of_round0_update)
qed

lemma round0_ok_append:
  assumes "round0_ok n t" "new_sender t m" "length (kgRound0Messages t) < max 1 (nat n)"
  shows "round0_ok n (t\<lparr>kgRound0Messages := kgRound0Messages t @ [Some m]\<rparr>)"
  using assms by (auto simp: round0_ok_def senders_def new_sender_def)

lemma in_senders:
  assumes "None \<notin> set (kgRound0Messages t)"
  shows "x \<in> set (senders t) \<longleftrightarrow> (\<exists>v. Some v \<in> set (kgRound0Messages t) \<and> GetFromID v = x)"
proof
  assume "x \<in> set (senders t)"
  then obtain w where w: "w \<in> set (kgRound0Messages t)" "x = (case w of None \<Rightarrow> [] | Some m \<Rightarrow> GetFromID m)"
    by (auto simp: senders_def)
  then have "w \<noteq> None" using assms by metis
  then show "\<exists>v. Some v \<in> set (kgRound0Messages t) \<and> GetFromID v = x" using w by auto
next
  assume "\<exists>v. Some v \<in> set (kgRound0Messages t) \<and> GetFromID v = x"
  then show "x \<in> set (senders t)" by (force simp: senders_def)
qed

lemma find_round0:
  assumes "shape n t" "round0_ok n t" "GetMsgType m = ''KGRound0Message''"
  shows "find (kgRound0Messages t) m \<longleftrightarrow> \<not> new_sender t m"
proof -
  have "Some v \<in> set (kgRound0Messages t) \<Longrightarrow> GetMsgType v = ''KGRound0Message''" for v
    using assms(1) by (force simp: shape_def dest: spec [of _ "KGRound0Message undefined"])
  then show ?thesis
    using assms(2,3) by (auto simp: find_iff new_sender_def round0_ok_def in_senders)
qed

lemma inv_StoreMessage:
  assumes "kg_inv c p" shows "kg_inv c (fst (StoreMessage env p msg))"
proof (cases "GetMsgType msg = ''KGRound0Message''")
  case False
  then show ?thesis using frame_inv [OF frame_StoreMessage] assms by blast
next
  case True
  then obtain b where b: "msg = KGRound0Message b" by (cases msg) auto
  show ?thesis
  proof (cases "\<not> find (kgRound0Messages (p_temp p)) msg \<and>
         int (length (kgRound0Messages (p_temp p))) < p_DNodeCountInGroup p")
    case store: True
    then have "new_sender (p_temp p) msg"
      using find_round0 [OF _ _ True] assms by (auto simp: kg_inv_def)
    moreover have "length (kgRound0Messages (p_temp p)) < max 1 (nat (p_DNodeCountInGroup p))"
      using store by linarith
    ultimately have "kg_inv c (store0 p msg)"
      using assms filled_append shape_round0 [OF _ True] round0_ok_append
      by (auto simp: kg_inv_def store0_def)
    then show ?thesis using store b by (simp add: StoreMessage_round0)
  qed (use assms b in \<open>auto simp: StoreMessage_round0\<close>)
qed

section \<open>Update, Start and NextRound\<close>

lemma all_accepted_True:
  "all_accepted n mss j = Ok True \<Longrightarrow> ms \<in> set mss \<Longrightarrow> j < length ms \<and> ms ! j \<noteq> None"
  by (induction n mss j rule: all_accepted.induct)
    (auto simp: slice_get_Ok_iff split: option.splits if_splits)

text \<open>The loop sets flags only, and only for slots that are filled.\<close>

lemma update_loop_effect:
  "\<exists>ok. fst (update_loop n js p) = p\<lparr>r_ok := ok\<rparr> \<and> length ok = length (r_ok p) \<and>
     (\<forall>j < length ok. ok ! j \<longrightarrow> r_ok p ! j \<or> filled n j (p_temp p))"
proof (induction js arbitrary: p)
  case Nil
  show ?case by (intro exI [of _ "r_ok p"]) simp
next
  case (Cons j js)
  show ?case
  proof (cases "slice_get (r_ok p) (int j)")
    case (Ok okj)
    show ?thesis
    proof (cases okj)
      case True
      then show ?thesis using Cons [of p] Ok by simp
    next
      case False
      show ?thesis
      proof (cases "all_accepted n (update_slots n (p_temp p)) j = Ok True")
        case acc: True
        then have fill: "filled n j (p_temp p)" using all_accepted_True by (auto simp: filled_def)
        have "j < length (r_ok p)" using Ok by (simp add: slice_get_Ok_iff)
        moreover obtain ok where ok: "fst (update_loop n js (p\<lparr>r_ok := (r_ok p)[j := True]\<rparr>)) = p\<lparr>r_ok := ok\<rparr>"
          "length ok = length (r_ok p)"
          "\<forall>i < length ok. ok ! i \<longrightarrow> (r_ok p)[j := True] ! i \<or> filled n i (p_temp p)"
          using Cons [of "p\<lparr>r_ok := (r_ok p)[j := True]\<rparr>"] by auto
        ultimately have "\<forall>i < length ok. ok ! i \<longrightarrow> r_ok p ! i \<or> filled n i (p_temp p)"
          using fill by (metis nth_list_update_neq)
        then show ?thesis using Ok False acc ok(1,2) by (intro exI [of _ ok]) simp
      next
        case False
        then show ?thesis
          using Ok \<open>\<not> okj\<close>
          by (intro exI [of _ "r_ok p"]) (cases "all_accepted n (update_slots n (p_temp p)) j", auto)
      qed
    qed
  qed (intro exI [of _ "r_ok p"], simp)+
qed

lemma inv_kg_Update:
  assumes "kg_inv c p" shows "kg_inv c (fst (kg_Update p))"
proof (cases "p_rnd p")
  case None
  then show ?thesis using assms by (simp add: kg_Update_def)
next
  case (Some n)
  show ?thesis
  proof (cases "update_slots n (p_temp p)")
    case Nil
    then show ?thesis using assms Some by (simp add: kg_Update_def)
  next
    case (Cons ms mss)
    obtain ok where ok: "fst (update_loop n [0..<length ms] p) = p\<lparr>r_ok := ok\<rparr>" "length ok = length (r_ok p)"
      "\<forall>j < length ok. ok ! j \<longrightarrow> r_ok p ! j \<or> filled n j (p_temp p)"
      using update_loop_effect by blast
    then have "kg_inv c (p\<lparr>r_ok := ok\<rparr>)" using assms Some by (fastforce simp: kg_inv_def)
    then show ?thesis using ok(1) Some Cons by (simp add: kg_Update_def)
  qed
qed

lemma inv_ResetOK: "kg_inv c p \<Longrightarrow> kg_inv c (ResetOK p)"
  by (auto simp: kg_inv_def ResetOK_def)

lemma inv_begun: "kg_inv c p \<Longrightarrow> kg_inv c (begun n p)"
  by (auto simp: kg_inv_def begun_def ResetOK_def)

lemma kg_Start_frame:
  assumes "p_rnd p = Some n" "n \<noteq> 0"
  shows "if r_started p then fst (kg_Start env p) = p
         else \<exists>n'. frame (begun n' p) (fst (kg_Start env p))"
  using assms frame_round1 [of p env] frame_round2 [of p env] frame_round3 [of p env] frame_round4 [of p env]
    frame_round5 [of p env] frame_round6 [of p env] frame_round7 [of p env]
  by (auto simp: kg_Start_def split: if_splits)

lemma inv_kg_Start:
  assumes "kg_inv c p" shows "kg_inv c (fst (kg_Start env p))"
proof (cases "p_rnd p")
  case None
  then show ?thesis using assms by (simp add: kg_Start_def)
next
  case (Some n)
  show ?thesis
  proof (cases "n = 0")
    case True
    then have "r_started p" using assms Some by (simp add: kg_inv_def)
    then show ?thesis using assms Some True round0_Start_effect [of p] by (simp add: kg_Start_def)
  next
    case False
    show ?thesis
      using kg_Start_frame [OF Some False, of env] assms inv_begun frame_inv by (metis (full_types))
  qed
qed

lemma advance_kg:
  "advance (kg_node env) p = (case p_rnd p of
     None \<Rightarrow> p | Some n \<Rightarrow> if n < 7 then p\<lparr>r_started := False, p_rnd := Some (n + 1)\<rparr> else p\<lparr>p_rnd := None\<rparr>)"
  by (simp add: advance_def kg_node_def kg_NextRound_def split: option.splits)

lemma inv_kg_advance:
  assumes "kg_inv c p" "CanProceed p" shows "kg_inv c (advance (kg_node env) p)"
proof (cases "p_rnd p")
  case None
  then show ?thesis using assms by (simp add: advance_kg)
next
  case (Some n)
  have "\<forall>j < length (r_ok p). r_ok p ! j" "r_started p"
    using assms(2) by (auto simp: CanProceed_def list_all_length split: if_splits)
  then have "\<forall>j < nat (p_DNodeCountInGroup p). filled n j (p_temp p)"
    using assms(1) Some by (auto simp: kg_inv_def)
  then show ?thesis
    using assms(1) Some by (auto simp: advance_kg kg_inv_def less_Suc_eq)
qed

section \<open>The driver's contract\<close>

definition kg_rank :: "LocalDNode \<Rightarrow> nat" where
  "kg_rank p = (case p_rnd p of None \<Rightarrow> 0 | Some n \<Rightarrow> Suc (7 - n))"

lemma frame_rnd: "frame p p' \<Longrightarrow> p_rnd p' = p_rnd p"
  by (simp add: frame_def)

lemma rnd_StoreMessage: "p_rnd (fst (StoreMessage env p msg)) = p_rnd p"
proof (cases "GetMsgType msg = ''KGRound0Message''")
  case False
  then show ?thesis using frame_rnd [OF frame_StoreMessage] by blast
next
  case True
  then obtain b where "msg = KGRound0Message b" by (cases msg) auto
  then show ?thesis by (simp add: StoreMessage_round0 store0_def)
qed

lemma rnd_kg_Update: "p_rnd (fst (kg_Update p)) = p_rnd p"
proof -
  have "p_rnd (fst (update_loop n js p)) = p_rnd p" for n js
    using update_loop_effect [of n js p] by auto
  then show ?thesis by (simp add: kg_Update_def split: option.splits list.splits)
qed

lemma rnd_begun [simp]: "p_rnd (begun n p) = p_rnd p"
  by (simp add: begun_def ResetOK_def)

lemma rnd_kg_Start: "p_rnd (fst (kg_Start env p)) = p_rnd p"
proof (cases "p_rnd p")
  case None
  then show ?thesis by (simp add: kg_Start_def)
next
  case (Some n)
  show ?thesis
  proof (cases "n = 0")
    case True
    then show ?thesis
      using Some round0_Start_effect [of p] by (simp add: kg_Start_def send_def set_temp_def split: if_splits)
  next
    case False
    show ?thesis using kg_Start_frame [OF Some False, of env] frame_rnd by (metis (full_types) rnd_begun)
  qed
qed

interpretation kg: invariant_machine "kg_node env" kg_rank "kg_inv c" for env :: KgEnv and c :: int
proof
  fix p :: LocalDNode and msg
  show "kg_rank (fst (dn_StoreMessage (kg_node env) p msg)) = kg_rank p"
    "dn_Round (kg_node env) (fst (dn_StoreMessage (kg_node env) p msg)) = dn_Round (kg_node env) p"
    by (simp_all add: kg_node_def kg_rank_def rnd_StoreMessage)
  show "kg_rank (fst (dn_Start (kg_node env) p)) = kg_rank p"
    "dn_Round (kg_node env) (fst (dn_Start (kg_node env) p)) = dn_Round (kg_node env) p"
    by (simp_all add: kg_node_def kg_rank_def rnd_kg_Start)
  show "kg_rank (fst (dn_Update (kg_node env) p)) = kg_rank p"
    "dn_Round (kg_node env) (fst (dn_Update (kg_node env) p)) = dn_Round (kg_node env) p"
    by (simp_all add: kg_node_def kg_rank_def rnd_kg_Update)
  show "kg_rank (dn_ResetOK (kg_node env) p) = kg_rank p"
    by (simp add: kg_node_def kg_rank_def ResetOK_def)
  show "kg_rank (advance (kg_node env) p) < kg_rank p" if "dn_Round (kg_node env) p \<noteq> None"
  proof -
    have "p_rnd p \<noteq> None" using that by (simp add: kg_node_def)
    then show ?thesis by (auto simp: advance_kg kg_rank_def)
  qed
  show "kg_inv c (fst (dn_StoreMessage (kg_node env) p msg))" if "kg_inv c p"
    using inv_StoreMessage [OF that] by (simp add: kg_node_def)
  show "kg_inv c (fst (dn_Start (kg_node env) p))" if "kg_inv c p"
    using inv_kg_Start [OF that] by (simp add: kg_node_def)
  show "kg_inv c (fst (dn_Update (kg_node env) p))" if "kg_inv c p"
    using inv_kg_Update [OF that] by (simp add: kg_node_def)
  show "kg_inv c (dn_ResetOK (kg_node env) p)" if "kg_inv c p"
    using inv_ResetOK [OF that] by (simp add: kg_node_def)
  show "kg_inv c (advance (kg_node env) p)" if "kg_inv c p" "dn_CanProceed (kg_node env) p"
    using inv_kg_advance [OF that(1)] that(2) by (simp add: kg_node_def)
qed

section \<open>Properties\<close>

lemma BaseStart_round: "BaseStart (kg_node env) p = (s, Ok ()) \<Longrightarrow> p_rnd s \<noteq> None"
proof -
  assume start: "BaseStart (kg_node env) p = (s, Ok ())"
  then obtain q where "q = (fst (newRound0 p))\<lparr>p_rnd := Some 0\<rparr>" "kg_Start env q = (s, Ok ())"
    by (auto simp: BaseStart_def setRound_def startRound_def kg_node_def newRound0_def split: if_splits)
  then show ?thesis using rnd_kg_Start [of env q] by simp
qed

text \<open>A new node, started by \<^verbatim>\<open>BaseStart\<close>, satisfies the invariant.\<close>

lemma inv_started:
  assumes "NewLocalDNode env count th len tape primes = Ok p"
    and "BaseStart (kg_node env) (SetDNodeID idn p) = (s, r)" "p_rnd s \<noteq> None"
  shows "kg_inv count s"
proof -
  let ?q = "SetDNodeID idn p"
  have q: "p_rnd ?q = None" "p_DNodeCountInGroup ?q = count" "p_temp ?q = new_localTempData count"
    "p_data ?q = NewLocalDNodeSaveData count" "0 \<le> count"
    using assms(1) by (auto simp: NewLocalDNode_def SetDNodeID_def split: if_splits)
  let ?n = "(fst (newRound0 ?q))\<lparr>p_rnd := Some 0\<rparr>"
  have "fst (BaseStart (kg_node env) ?q) = fst (kg_Start env ?n)"
    using assms(2,3) q(1)
    by (auto simp: BaseStart_def setRound_def startRound_def kg_node_def newRound0_def split: if_splits)
  then have s: "s = fst (round0_Start ?n)" using assms(2) by (simp add: kg_Start_def newRound0_def)
  let ?kg = "KGRound0Message (kg_from ?n (-1))"
  have s': "s = send ?kg (set_temp (\<lambda>t. t\<lparr>kgRound0Messages := kgRound0Messages t @ [Some ?kg]\<rparr>) (begun 0 ?n))"
    unfolding s using round0_Start_effect [of ?n] by (simp add: newRound0_def)
  have "shape count (new_localTempData count)"
    unfolding shape_def
  proof (intro allI conjI impI)
    fix kind show "GetMsgType kind \<noteq> ''KGRound0Message'' \<Longrightarrow> length (slots_of kind (new_localTempData count)) = nat count"
      by (cases kind) (auto simp: new_localTempData_def Let_def)
    fix m show "Some m \<in> set (slots_of kind (new_localTempData count)) \<Longrightarrow> GetMsgType m = GetMsgType kind"
      by (cases kind) (auto simp: new_localTempData_def Let_def)
  qed
  then have "shape count (p_temp s)" "round0_ok count (p_temp s)"
    using q shape_round0 [of count "new_localTempData count" ?kg]
    by (simp_all add: s' send_def set_temp_def begun_def ResetOK_def newRound0_def round0_ok_def senders_def)
      (simp_all add: new_localTempData_def Let_def)
  then show ?thesis
    using q by (auto simp: kg_inv_def s' send_def set_temp_def begun_def ResetOK_def newRound0_def
        NewLocalDNodeSaveData_def)
qed

lemma round_kinds_accepted:
  "kind \<in> set (round_kinds m) \<Longrightarrow> GetMsgType msg = GetMsgType kind \<Longrightarrow> CanAccept m msg"
  by (cases msg) (auto simp: round_kinds_def Let_def eval_nat_numeral split: if_splits)

lemma gate_of_inv:
  assumes "kg_inv c p" "1 \<le> c" "p_rnd p = Some n" "m < n" "ms \<in> set (update_slots m (p_temp p))"
  shows "length ms = nat c \<and> (\<forall>slot \<in> set ms. \<exists>msg. slot = Some msg \<and> CanAccept m msg)"
proof -
  obtain kind where kind: "kind \<in> set (round_kinds m)" "ms = slots_of kind (p_temp p)"
    using assms(5) by (auto simp: update_slots_kinds)
  have fill: "\<forall>j < nat c. j < length ms \<and> ms ! j \<noteq> None"
    using assms by (auto simp: kg_inv_def filled_def)
  have "length ms \<le> nat c"
  proof (cases "GetMsgType kind = ''KGRound0Message''")
    case True
    then have "ms = kgRound0Messages (p_temp p)" using kind(2) by (cases kind) auto
    then show ?thesis using assms(1,2) by (auto simp: kg_inv_def round0_ok_def)
  next
    case False
    then show ?thesis using assms(1) kind(2) by (simp add: kg_inv_def shape_def)
  qed
  moreover have "nat c \<le> length ms"
    using fill assms(2) by (cases "nat c") auto
  moreover have "CanAccept m msg" if "Some msg \<in> set ms" for msg
    using round_kinds_accepted [OF kind(1)] assms(1) kind(2) that by (auto simp: kg_inv_def shape_def)
  ultimately show ?thesis using fill by (auto simp: in_set_conv_nth) (metis in_set_conv_nth option.exhaust)
qed

end
