(* ===== verification/KeygenCorrect.thy ===== *)
theory KeygenCorrect
  imports KeygenInv
begin

text \<open>
  What the key generation computes: round 4 sums the opened points and the received shares, so the
  shares of the nodes are shares of the discrete logarithm of the public key.
\<close>

section \<open>Inversion of the steps\<close>

lemma sample_Ok_iff:
  "sample p f = (s, Ok a) \<longleftrightarrow> (\<exists>tape. f (p_tape p) = Ok (a, tape) \<and> s = p\<lparr>p_tape := tape\<rparr>)"
  by (auto simp: sample_def)

lemma put_send_Ok_iff:
  "put_send index kg p = (s, Ok u) \<longleftrightarrow>
     (\<exists>ms. slice_set (slots_of kg (p_temp p)) index (Some kg) = Ok ms \<and>
        s = send kg (p\<lparr>p_temp := slots_update kg ms (p_temp p)\<rparr>))"
  by (auto simp: put_send_def put_own_def)

lemma drop_err_Ok_iff [simp]: "drop_err r = Ok a \<longleftrightarrow> r = Ok a"
  by (cases r) auto

lemma begin_round_Ok_iff: "begin_round n p = (s, Ok u) \<longleftrightarrow> \<not> r_started p \<and> s = begun n p"
  by (auto simp: begin_round_def begun_def)

lemma round4_ntilde_data: "round4_ntilde p = (s, r) \<Longrightarrow> p_data s = p_data p"
  by (auto simp: round4_ntilde_def split: prod.splits)

definition keys_of :: "LocalDNode \<Rightarrow> int option \<times> int option \<times> int option \<times> int option" where
  "keys_of p = (sd_SkU1 (p_data p), sd_Pkx (p_data p), sd_Pky (p_data p), sd_C (p_data p))"

lemma round4_proofs_keys:
  assumes "round4_proofs env i com r p = (p', Ok ())" shows "keys_of p' = keys_of p"
  using assms unfolding round4_proofs_def Let_def
  by (auto simp: keys_of_def sample_Ok_iff put_send_Ok_iff set_save_def set_temp_def send_def split: prod.splits)

lemma round4_publish_keys:
  assumes "round4_publish env i sk p = (p', Ok ())" shows "keys_of p' = keys_of p"
proof -
  obtain com tape p2 r where
    p2: "round4_ntilde (set_temp (\<lambda>t. t\<lparr>t_commitXiG := Some com\<rparr>) (p\<lparr>p_tape := tape\<rparr>)) = (p2, Ok (Some r))"
      "round4_proofs env i com r p2 = (p', Ok ())"
    using assms unfolding round4_publish_def
    by (auto simp: sample_Ok_iff split: option.splits)
  have "keys_of p2 = keys_of p" using round4_ntilde_data [OF p2(1)] by (simp add: keys_of_def set_temp_def)
  then show ?thesis using round4_proofs_keys [OF p2(2)] by simp
qed

lemma round4_Start_Ok:
  assumes "round4_Start env p = (p', Ok ())"
  shows "\<exists>ids pk skU1 c. GetIDs p = Ok ids \<and> round4_sums env (begun 4 p) (length ids) = Ok (pk, skU1, c) \<and>
    (\<forall>k < length ids. round4_check env (begun 4 p) k = Ok ()) \<and>
    keys_of p' = (Some (skU1 mod cN (ke_E env)), map_option fst pk, map_option snd pk, Some (c mod cN (ke_E env)))"
proof -
  obtain curIndex ids us q sk where ids: "GetIDs (begun 4 p) = Ok ids"
    and us: "mapM (round4_check env (begun 4 p)) [0..<length ids] = Ok us"
    and q: "round4_keys env (begun 4 p) (length ids) = (q, Ok sk)" "round4_publish env curIndex sk q = (p', Ok ())"
    using assms unfolding round4_Start_def by (auto simp: begin_round_Ok_iff)
  have "GetIDs p = Ok ids" using ids by (simp add: GetIDs_def begun_def ResetOK_def)
  moreover obtain pk skU1 c where "round4_sums env (begun 4 p) (length ids) = Ok (pk, skU1, c)"
    "keys_of q = (Some (skU1 mod cN (ke_E env)), map_option fst pk, map_option snd pk, Some (c mod cN (ke_E env)))"
    using q(1) by (auto simp: round4_keys_def Let_def keys_of_def set_save_def)
  moreover have "\<forall>k < length ids. round4_check env (begun 4 p) k = Ok ()"
    using mapM_Ok_nth [OF us] by auto
  ultimately show ?thesis using round4_publish_keys [OF q(2)] by auto
qed

section \<open>The sums\<close>

text \<open>No addition of the public key's loop meets equal or opposite points.\<close>

fun no_clash :: "Curve \<Rightarrow> int \<Rightarrow> int list \<Rightarrow> bool" where
  "no_clash E a [] = True"
| "no_clash E a (b # bs) = (0 < b \<and> b < cN E \<and> a \<noteq> b \<and> a + b \<noteq> cN E \<and> no_clash E ((a + b) mod cN E) bs)"

lemma no_clash_step:
  assumes E: "ec_laws E" and "0 < a" "a < cN E" "no_clash E a (b # bs)"
  shows "Add E (Some (mulG E a)) (Some (mulG E b)) = Ok (Some (mulG E ((a + b) mod cN E)))"
    "0 < (a + b) mod cN E" "(a + b) mod cN E < cN E"
proof -
  have b: "0 < b" "b < cN E" "a \<noteq> b" "a + b \<noteq> cN E" using assms(4) by auto
  show "Add E (Some (mulG E a)) (Some (mulG E b)) = Ok (Some (mulG E ((a + b) mod cN E)))"
    by (rule Add_mulG [OF E assms(2,3) b])
  show "(a + b) mod cN E < cN E" using assms(2,3) by simp
  show "0 < (a + b) mod cN E"
  proof (cases "a + b < cN E")
    case True
    then show ?thesis using assms(2) b by simp
  next
    case False
    then have "(a + b - cN E) mod cN E = a + b - cN E" using assms(3) b by (intro mod_pos_pos_trivial) auto
    then have "(a + b) mod cN E = a + b - cN E" by simp
    then show ?thesis using False b by linarith
  qed
qed

lemma foldM_add_party:
  assumes E: "ec_laws (ke_E env)"
  shows "(\<And>k pt share c1. k \<in> set ks \<Longrightarrow> party_values env p k = Ok (pt, share, c1) \<Longrightarrow>
       pt = Some (mulG (ke_E env) (u k)) \<and> share = sh k \<and> c1 = ch k) \<Longrightarrow>
     0 < a \<Longrightarrow> a < cN (ke_E env) \<Longrightarrow> no_clash (ke_E env) a (map u ks) \<Longrightarrow>
     foldM (add_party env p) (Some (mulG (ke_E env) a), s, c) ks = Ok (pk, s', c') \<Longrightarrow>
     s' = s + sum_list (map sh ks) \<and> c' = c + sum_list (map ch ks) \<and> pk = Some (mulG (ke_E env) ((a + sum_list (map u ks)) mod cN (ke_E env)))"
proof (induction ks arbitrary: a s c)
  case Nil
  then show ?case by simp
next
  case (Cons k ks)
  let ?N = "cN (ke_E env)"
  obtain pt share c1 pk1 where v: "party_values env p k = Ok (pt, share, c1)"
    "Add (ke_E env) (Some (mulG (ke_E env) a)) pt = Ok pk1"
    "foldM (add_party env p) (pk1, s + share, c + c1) ks = Ok (pk, s', c')"
    using Cons.prems(5) by auto
  have pt: "pt = Some (mulG (ke_E env) (u k))" "share = sh k" "c1 = ch k" using Cons.prems(1) v(1) by auto
  note step = no_clash_step [OF E Cons.prems(2,3) Cons.prems(4) [unfolded list.map]]
  have "s' = s + share + sum_list (map sh ks) \<and> c' = c + c1 + sum_list (map ch ks) \<and>
     pk = Some (mulG (ke_E env) (((a + u k) mod ?N + sum_list (map u ks)) mod ?N))"
    using Cons.IH [OF Cons.prems(1) step(2,3)] Cons.prems(4) v(2,3) pt(1) step(1) by simp
  then show ?case using pt(2,3) by (simp add: mod_add_left_eq add.assoc)
qed

text \<open>
  The messages a node with identifier \<open>x\<close> holds before round 4 when party \<open>k\<close> shares the polynomial
  \<open>polys ! k\<close> and contributes the number \<open>cs ! k\<close> to the chain code: the share at \<open>x\<close>, the number, and an
  opening that starts with the point of the constant coefficient.  Nothing is assumed of the rest of the messages.
\<close>

definition honest_view :: "KgEnv \<Rightarrow> int list list \<Rightarrow> int list \<Rightarrow> int \<Rightarrow> LocalDNode \<Rightarrow> bool" where
  "honest_view env polys cs x p \<longleftrightarrow> length (kgRound0Messages (p_temp p)) = length polys \<and>
     (\<forall>k < length polys.
        (\<exists>b. kgRound2Messages1 (p_temp p) ! k = Some (KGRound2Message1 b (Some (cs ! k)))) \<and>
        (\<exists>b. kgRound2Messages (p_temp p) ! k = Some (KGRound2Message b (Some x) (Some (the_share (ke_E env) (polys ! k) x)))) \<and>
        (\<exists>b r rest cd pg. kgRound3Messages (p_temp p) ! k = Some (KGRound3Message b
           (Some r # pair_slice (Some (mulG (ke_E env) (hd (polys ! k)))) @ rest) cd pg)))"

lemma length_GetIDs: "GetIDs p = Ok ids \<Longrightarrow> length ids = length (kgRound0Messages (p_temp p))"
  unfolding GetIDs_def sort_ids_def by (auto dest!: mapM_Ok_length split: if_splits)

lemma party_values_honest:
  assumes "honest_view env polys cs x p" "k < length polys" "party_values env p k = Ok (pt, share, c1)"
  shows "pt = Some (mulG (ke_E env) (hd (polys ! k))) \<and> share = the_share (ke_E env) (polys ! k) x \<and> c1 = cs ! k"
proof -
  obtain b1 where m1: "kgRound2Messages1 (p_temp p) ! k = Some (KGRound2Message1 b1 (Some (cs ! k)))"
    using assms(1,2) unfolding honest_view_def by metis
  obtain b2 b3 r rest cd pg where m:
    "kgRound2Messages (p_temp p) ! k = Some (KGRound2Message b2 (Some x) (Some (the_share (ke_E env) (polys ! k) x)))"
    "kgRound3Messages (p_temp p) ! k = Some (KGRound3Message b3
       (Some r # pair_slice (Some (mulG (ke_E env) (hd (polys ! k)))) @ rest) cd pg)"
    using assms(1,2) unfolding honest_view_def by metis
  obtain gx gy where g: "mulG (ke_E env) (hd (polys ! k)) = (gx, gy)" by (metis surj_pair)
  show ?thesis
    using assms(3) m m1 g
    by (auto simp: party_values_def Let_def slice_get_Ok_iff asserted_Ok_iff pair_slice_def slice_pair_def
        DeCommit_def split: if_splits)
qed

lemma round4_sums_honest:
  assumes "ec_laws (ke_E env)" "honest_view env polys cs x p" "polys \<noteq> []"
    and "0 < hd (hd polys)" "hd (hd polys) < cN (ke_E env)" "no_clash (ke_E env) (hd (hd polys)) (map hd (tl polys))"
    and "round4_sums env p (length polys) = Ok (pk, skU1, c)" "length cs = length polys"
  shows "skU1 = (\<Sum>poly\<leftarrow>polys. the_share (ke_E env) poly x) \<and> c = sum_list cs \<and>
    pk = Some (mulG (ke_E env) ((\<Sum>poly\<leftarrow>polys. hd poly) mod cN (ke_E env)))"
proof -
  let ?E = "ke_E env" and ?ks = "[1..<length polys]"
  obtain pt share c1 where v: "party_values env p 0 = Ok (pt, share, c1)"
    "foldM (add_party env p) (pt, share, c1) ?ks = Ok (pk, skU1, c)"
    using assms(3,7) by (auto simp: round4_sums_def split: if_splits)
  have pt: "pt = Some (mulG ?E (hd (hd polys)))" "share = the_share ?E (hd polys) x" "c1 = cs ! 0"
    using party_values_honest [OF assms(2) _ v(1)] assms(3) by (auto simp: hd_conv_nth)
  have chain: "map ((!) cs) ?ks = tl cs"
    using assms(8) by (intro nth_equalityI) (auto simp: nth_tl)
  have tl: "map (\<lambda>k. polys ! k) ?ks = tl polys"
    by (rule nth_equalityI) (auto simp: nth_tl)
  have maps: "map (\<lambda>k. f (polys ! k)) ?ks = map f (tl polys)" for f :: "int list \<Rightarrow> int"
    using arg_cong [OF tl, of "map f"] by (simp add: comp_def)
  have "skU1 = share + sum_list (map (\<lambda>k. the_share ?E (polys ! k) x) ?ks) \<and> c = c1 + sum_list (map ((!) cs) ?ks) \<and>
    pk = Some (mulG ?E ((hd (hd polys) + sum_list (map (\<lambda>k. hd (polys ! k)) ?ks)) mod cN ?E))"
    using v(2) pt(1) maps [of hd] assms(4-6) party_values_honest [OF assms(2)]
    by (intro foldM_add_party [OF assms(1), where a = "hd (hd polys)" and c = c1 and c' = c and p = p]) auto
  then have "skU1 = the_share ?E (hd polys) x + sum_list (map (\<lambda>poly. the_share ?E poly x) (tl polys))"
    "c = cs ! 0 + sum_list (tl cs)"
    "pk = Some (mulG ?E ((hd (hd polys) + sum_list (map hd (tl polys))) mod cN ?E))"
    using maps [of "\<lambda>poly. the_share ?E poly x"] maps [of hd] pt(2,3) chain by simp_all
  then show ?thesis using assms(3,8) by (cases polys; cases cs) auto
qed

text \<open>C1: the key generation is correct: let the parties share polynomials of at most \<open>t\<close> coefficients,
  and let at least \<open>t\<close> nodes with different identifiers, each holding its shares and openings of the
  constant coefficients and the chain code contributions, complete the \<^verbatim>\<open>Start\<close> of round 4.  Then the private
  shares they save are combined by \<open>Combine2\<close> to the sum of the constant coefficients modulo the order, and every
  one of them saves as public key the point that \<^verbatim>\<open>ScalarBaseMult\<close> computes for this sum and as chain code the
  sum of the contributions modulo the order (provided no addition of the public key's loop meets equal or
  opposite points).\<close>

theorem keygen_correct:
  assumes E: "E = ke_E env" and X: "X = (\<Sum>poly\<leftarrow>polys. hd poly) mod cN E"
    and "ec_laws E" "polys \<noteq> []" "\<forall>poly \<in> set polys. poly \<noteq> [] \<and> length poly \<le> length nodes"
    and "0 < hd (hd polys)" "hd (hd polys) < cN E" "no_clash E (hd (hd polys)) (map hd (tl polys))" "X \<noteq> 0"
    and "\<forall>(x, p, p') \<in> set nodes. honest_view env polys cs x p \<and> round4_Start env p = (p', Ok ())"
    and "nodes \<noteq> []" "distinct (map fst nodes)" "inj_on (\<lambda>x. x mod cN E) (fst ` set nodes)"
    and "\<forall>x \<in> fst ` set nodes. x mod cN E \<noteq> 0" "length cs = length polys"
  shows "Combine2 E (map (\<lambda>(x, p, p'). \<lparr>ss_ID = Some x, ss_Share = sd_SkU1 (p_data p')\<rparr>) nodes) = Ok X \<and>
    (\<forall>(x, p, p') \<in> set nodes. \<exists>px py. sd_Pkx (p_data p') = Some px \<and> sd_Pky (p_data p') = Some py \<and>
       ScalarBaseMult E (Bytes X) = Ok (Some (px, py)) \<and> sd_C (p_data p') = Some (sum_list cs mod cN E))"
proof -
  have node: "sd_SkU1 (p_data p') = Some ((\<Sum>poly\<leftarrow>polys. the_share E poly x) mod cN E) \<and>
      sd_Pkx (p_data p') = Some (fst (mulG E X)) \<and> sd_Pky (p_data p') = Some (snd (mulG E X)) \<and>
      sd_C (p_data p') = Some (sum_list cs mod cN E)"
    if "(x, p, p') \<in> set nodes" for x p p'
  proof -
    have view: "honest_view env polys cs x p" "round4_Start env p = (p', Ok ())" using assms(10) that by auto
    then obtain ids pk skU1 c where r: "GetIDs p = Ok ids" "round4_sums env (begun 4 p) (length ids) = Ok (pk, skU1, c)"
      "keys_of p' = (Some (skU1 mod cN E), map_option fst pk, map_option snd pk, Some (c mod cN E))"
      using round4_Start_Ok [of env p p'] E by auto
    have "length ids = length polys" using length_GetIDs [OF r(1)] view(1) by (simp add: honest_view_def)
    moreover have "honest_view env polys cs x (begun 4 p)"
      using view(1) by (simp add: honest_view_def begun_def ResetOK_def)
    ultimately have "skU1 = (\<Sum>poly\<leftarrow>polys. the_share E poly x)" "pk = Some (mulG E X)" "c = sum_list cs"
      using round4_sums_honest [of env polys cs x "begun 4 p" pk skU1 c] r(2) assms by auto
    then show ?thesis using r(3) by (simp add: keys_of_def)
  qed
  have shares: "map (\<lambda>(x, p, p'). \<lparr>ss_ID = Some x, ss_Share = sd_SkU1 (p_data p')\<rparr>) nodes =
    map (\<lambda>x. \<lparr>ss_ID = Some x, ss_Share = Some ((\<Sum>poly\<leftarrow>polys. the_share E poly x) mod cN E)\<rparr>) (map fst nodes)"
    using node by auto
  have "Combine2 E (map (\<lambda>x. \<lparr>ss_ID = Some x,
      ss_Share = Some ((\<Sum>poly\<leftarrow>polys. the_share E poly x) mod cN E)\<rparr>) (map fst nodes)) = Ok X"
    unfolding X using assms ec_lawsD(4) [OF assms(3)] by (intro Combine2_sum) auto
  then have "Combine2 E (map (\<lambda>(x, p, p'). \<lparr>ss_ID = Some x, ss_Share = sd_SkU1 (p_data p')\<rparr>) nodes) = Ok X"
    by (simp only: shares)
  moreover have "ScalarBaseMult E (Bytes X) = Ok (Some (mulG E X))"
  proof (rule ScalarBaseMult_mulG [OF assms(3)])
    have "0 < cN E" using is_prime_gt_1 [OF ec_lawsD(4) [OF assms(3)]] by simp
    then have "0 \<le> X" "X < cN E" unfolding X E by simp_all
    then show "0 < X" "X < cN E" using assms(9) by simp_all
  qed
  moreover have "\<exists>px py. sd_Pkx (p_data p') = Some px \<and> sd_Pky (p_data p') = Some py \<and>
       Ok (Some (mulG E X)) = Ok (Some (px, py)) \<and> sd_C (p_data p') = Some (sum_list cs mod cN E)" if "(x, p, p') \<in> set nodes" for x p p'
    using node [OF that] by simp
  ultimately show ?thesis by auto
qed

section \<open>A small run\<close>

text \<open>
  Two parties with identifiers 1 and 2 on the curve of order 13 share \<open>1 + 11 z\<close> and \<open>5 + 3 z\<close>.
\<close>

definition toy_env :: KgEnv where
  "toy_env = \<lparr>ke_E = toy_curve, ke_H = (\<lambda>_. [5]), ke_sha = (\<lambda>_. [3]), ke_pp = is_prime,
     ke_ms = (\<lambda>_ _. Ok None), ke_sched = []\<rparr>"

definition toy_from :: "int \<Rightarrow> int \<Rightarrow> KGRoundMessage" where
  "toy_from x index = \<lparr>FromID = to_id (Some x), FromIndex = index, ToID = []\<rparr>"

definition toy_temp :: "int \<Rightarrow> int \<Rightarrow> int \<Rightarrow> localTempData" where
  "toy_temp x s1 s2 = (new_localTempData 2)\<lparr>
     kgRound0Messages := [Some (KGRound0Message (toy_from 1 (-1))), Some (KGRound0Message (toy_from 2 (-1)))],
     kgRound1Messages := [Some (KGRound1Message (toy_from 1 0) (Some 5) (Some 5) (Some toy_pk)),
                          Some (KGRound1Message (toy_from 2 1) (Some 5) (Some 5) (Some toy_pk))],
     kgRound2Messages := [Some (KGRound2Message (toy_from 1 0) (Some x) (Some s1)),
                          Some (KGRound2Message (toy_from 2 1) (Some x) (Some s2))],
     kgRound2Messages1 := [Some (KGRound2Message1 (toy_from 1 0) (Some 4)),
                           Some (KGRound2Message1 (toy_from 2 1) (Some 4))],
     kgRound3Messages := [Some (KGRound3Message (toy_from 1 0) (map Some [7, 1, 2, 6, 4]) (map Some [7, 4, 5])
                            [map Some [1, 2], map Some [6, 4]]),
                          Some (KGRound3Message (toy_from 2 1) (map Some [7, 3, 3, 2, 2]) (map Some [7, 4, 5])
                            [map Some [3, 3], map Some [2, 2]])]\<rparr>"

definition toy_node :: "int \<Rightarrow> int \<Rightarrow> int \<Rightarrow> LocalDNode" where
  "toy_node x s1 s2 =
     \<lparr>p_ID = to_id (Some x), p_rnd = Some 4, p_DNodeCountInGroup = 2, p_ThresHold = 2, p_PaillierKeyLength = 2048,
      p_temp = toy_temp x s1 s2, p_data = NewLocalDNodeSaveData 2, p_out = [], p_end = [],
      r_ok = [True, True], r_started = False, r_number = 3, r_dnodeid = to_id (Some x), r_dnodecount = 2,
      r_threshold = 2, r_paillierkeylength = 2048, p_tape = 9 # 2 # 11 # replicate Iterations 1 @ replicate Iterations 1, p_primes = toy_pool\<rparr>"

lemma toy_Ntilde:
  "GenerateNtildeH1H2 2048 (toy_pool, 2 # 11 # rest) = ((toy_pool, rest), Ok (Some (toy_nt, 11, 5, 2, 3, 5, 7)))"
proof -
  have bl: "BitLen 35 = 6" by code_simp
  have "gcd (2::int) 35 = 1" "gcd (11::int) 35 = 1" by code_simp+
  then have "GetRandomPositiveRelativelyPrimeInt (Some 35) (2 # 11 # rest) = Ok (Some 2, 11 # rest)"
    "GetRandomPositiveRelativelyPrimeInt (Some 35) (11 # rest) = Ok (Some 11, rest)"
    using bl by (simp_all add: relprime_hit)
  moreover have "ModInverse 11 6 = Some 5" "Exp 4 11 35 = Some 9" by code_simp+
  ultimately show ?thesis
    by (simp add: GenerateNtildeH1H2_def toy_pool_def ntilde_of_primes_def toy_nt_def
      modInt_Inverse_def modInt_Mul_def modInt_Exp_def Let_def)
qed

lemma toy_NtildeProof: "\<exists>pr. NewNtildeProof sha h1 h2 x 2 3 35 (replicate Iterations 1 @ rest) = Ok (pr, rest)"
proof (rule NewNtildeProof_succeeds)
  have "BitLen 6 = 3" by code_simp
  then show "int (BitLen (2 * 3)) \<le> 5000" "\<forall>a \<in> set (replicate Iterations 1). 0 \<le> a \<and> a < 2 * 3 \<and> a < 2 ^ BitLen (2 * 3) - (1::int)"
    by auto
qed auto

lemma toy_publish:
  assumes "p_tape q = 9 # 2 # 11 # replicate Iterations 1 @ replicate Iterations 1 @ rest" "p_primes q = toy_pool"
    and "length (sd_U1NtildeH1H2 (p_data q)) = 2" "length (kgRound4Messages (p_temp q)) = 2" "i \<in> {0, 1}"
    and "ScalarBaseMult toy_curve (Bytes sk) = Ok (Some (x, y))"
  shows "\<exists>q'. round4_publish toy_env i sk q = (q', Ok ())"
proof -
  obtain pr1 where "NewNtildeProof (\<lambda>_. [3]) 4 9 11 2 3 35 (replicate Iterations 1 @ replicate Iterations 1 @ rest) =
      Ok (pr1, replicate Iterations 1 @ rest)"
    using toy_NtildeProof by blast
  moreover obtain pr2 where "NewNtildeProof (\<lambda>_. [3]) 9 4 5 2 3 35 (replicate Iterations 1 @ rest) = Ok (pr2, rest)"
    using toy_NtildeProof by blast
  moreover have "Commit (\<lambda>_. [5]) [Some x, Some y] (9 # t) =
      Ok (Some \<lparr>com_C = Some 5, com_D = [Some 9, Some x, Some y]\<rparr>, t)" for t
    by (simp add: Commit_def GetRandomInt_pos commit_digest_def SetBytes_def)
  ultimately show ?thesis
    using assms
    by (auto simp: round4_publish_def toy_env_def sample_def pair_slice_def round4_ntilde_def set_temp_def toy_Ntilde
        round4_proofs_def toy_nt_def set_save_def slice_set_def put_send_def put_own_def)
qed

lemma toy_steps:
  "GetIDs (begun 4 (toy_node x s1 s2)) = Ok [Some 1, Some 2]"
  "GetDNodeIDIndex (begun 4 (toy_node 1 12 8)) (to_id (Some 1)) = Ok 0"
  "GetDNodeIDIndex (begun 4 (toy_node 2 10 11)) (to_id (Some 2)) = Ok 1"
  by code_simp+

lemma toy_checks:
  "round4_check toy_env (begun 4 (toy_node 1 12 8)) 0 = Ok ()"
  "round4_check toy_env (begun 4 (toy_node 1 12 8)) 1 = Ok ()"
  "round4_check toy_env (begun 4 (toy_node 2 10 11)) 0 = Ok ()"
  "round4_check toy_env (begun 4 (toy_node 2 10 11)) 1 = Ok ()"
  by code_simp+

lemma toy_sums:
  "round4_sums toy_env (begun 4 (toy_node 1 12 8)) 2 = Ok (Some (5, 3), 20, 8)"
  "round4_sums toy_env (begun 4 (toy_node 2 10 11)) 2 = Ok (Some (5, 3), 21, 8)"
  by code_simp+

lemma toy_round4:
  "\<exists>q. round4_Start toy_env (toy_node 1 12 8) = (q, Ok ())"
  "\<exists>q. round4_Start toy_env (toy_node 2 10 11) = (q, Ok ())"
proof -
  have run: "\<exists>q. round4_Start toy_env (toy_node x s1 s2) = (q, Ok ())"
    if "GetDNodeIDIndex (begun 4 (toy_node x s1 s2)) (to_id (Some x)) = Ok i" "i \<in> {0, 1}"
      "round4_check toy_env (begun 4 (toy_node x s1 s2)) 0 = Ok ()" "round4_check toy_env (begun 4 (toy_node x s1 s2)) 1 = Ok ()"
      "round4_sums toy_env (begun 4 (toy_node x s1 s2)) 2 = Ok (Some (5, 3), sk, 8)"
      "ScalarBaseMult toy_curve (Bytes (sk mod 13)) = Ok (Some (x', y'))"
    for x s1 s2 i sk x' y'
  proof -
    define p where "p = begun 4 (toy_node x s1 s2)"
    have p: "begin_round 4 (toy_node x s1 s2) = (p, Ok ())" "r_dnodeid p = to_id (Some x)" "p_primes p = toy_pool"
      "p_tape p = 9 # 2 # 11 # replicate Iterations 1 @ replicate Iterations 1 @ []"
      "p_data p = NewLocalDNodeSaveData 2" "length (kgRound4Messages (p_temp p)) = 2"
      by (simp_all add: p_def begin_round_def begun_def ResetOK_def toy_node_def toy_temp_def new_localTempData_def Let_def)
    have "\<exists>q. round4_publish toy_env i (sk mod 13) (set_save (\<lambda>d. d\<lparr>sd_SkU1 := Some (sk mod 13), sd_Pkx := Some 5,
        sd_Pky := Some 3, sd_C := Some 8\<rparr>) p) = (q, Ok ())"
      using that p by (intro toy_publish) (auto simp: set_save_def NewLocalDNodeSaveData_def)
    moreover have "cN (ke_E toy_env) = 13" by (simp add: toy_env_def toy_curve_def)
    ultimately show ?thesis
      using that p toy_steps(1) [of x s1 s2, folded p_def]
      by (simp add: round4_Start_def round4_keys_def Let_def p_def [symmetric] upt_rec numeral_2_eq_2)
  qed
  have "ScalarBaseMult toy_curve (Bytes (20 mod 13)) = Ok (Some (5, 4))"
    "ScalarBaseMult toy_curve (Bytes (21 mod 13)) = Ok (Some (3, 4))"
    by code_simp+
  then show "\<exists>q. round4_Start toy_env (toy_node 1 12 8) = (q, Ok ())"
    "\<exists>q. round4_Start toy_env (toy_node 2 10 11) = (q, Ok ())"
    using run [OF toy_steps(2) _ toy_checks(1,2) toy_sums(1)] run [OF toy_steps(3) _ toy_checks(3,4) toy_sums(2)] by auto
qed

lemma toy_view:
  "honest_view toy_env [[1, 11], [5, 3]] [4, 4] 1 (toy_node 1 12 8)"
  "honest_view toy_env [[1, 11], [5, 3]] [4, 4] 2 (toy_node 2 10 11)"
proof -
  have "the_share toy_curve [1, 11] 1 = 12" "the_share toy_curve [5, 3] 1 = 8" "the_share toy_curve [1, 11] 2 = 10"
    "the_share toy_curve [5, 3] 2 = 11" "mulG toy_curve 1 = (1, 2)" "mulG toy_curve 5 = (3, 3)"
    by code_simp+
  then show "honest_view toy_env [[1, 11], [5, 3]] [4, 4] 1 (toy_node 1 12 8)"
    "honest_view toy_env [[1, 11], [5, 3]] [4, 4] 2 (toy_node 2 10 11)"
    by (auto simp: honest_view_def toy_env_def toy_node_def toy_temp_def less_Suc_eq pair_slice_def)
qed

theorem keygen_correct_witness:
  "Combine2 toy_curve
     [\<lparr>ss_ID = Some 1, ss_Share = sd_SkU1 (p_data (fst (round4_Start toy_env (toy_node 1 12 8))))\<rparr>,
      \<lparr>ss_ID = Some 2, ss_Share = sd_SkU1 (p_data (fst (round4_Start toy_env (toy_node 2 10 11))))\<rparr>] = Ok 6 \<and>
   sd_C (p_data (fst (round4_Start toy_env (toy_node 1 12 8)))) = Some 8"
proof -
  let ?p1 = "toy_node 1 12 8" and ?p2 = "toy_node 2 10 11"
  have e: "toy_curve = ke_E toy_env" "cN toy_curve = 13" by (simp_all add: toy_env_def toy_curve_def)
  have "round4_Start toy_env ?p1 = (fst (round4_Start toy_env ?p1), Ok ())"
    "round4_Start toy_env ?p2 = (fst (round4_Start toy_env ?p2), Ok ())"
    using toy_round4 by (metis fst_conv)+
  then show ?thesis
    using keygen_correct [OF e(1), where X = 6 and polys = "[[1, 11], [5, 3]]" and cs = "[4, 4]" and
      nodes = "[(1, ?p1, fst (round4_Start toy_env ?p1)), (2, ?p2, fst (round4_Start toy_env ?p2))]"]
      toy_curve_laws toy_view
    by (simp add: e(2)) blast
qed

end
