(* ===== verification/KeygenProps.thy ===== *)
theory KeygenProps
  imports KeygenCorrect
begin

text \<open>
  Properties of the key generation as a whole: the gating of the rounds, termination of the
  deliveries, the storing of messages and the numbering of the parties.
\<close>

section \<open>Gating\<close>

lemma kg_rank_less: "kg_rank p < 9"
  by (cases "p_rnd p") (simp_all add: kg_rank_def)

text \<open>C10: the rounds are gated: in every state a started node can reach by deliveries, when it is in
  round \<open>n\<close> it has for every earlier round \<open>m\<close> and every slice round \<open>m\<close> waits for exactly one
  message per party, each of a type round \<open>m\<close> accepts; the senders of the round 0 messages are
  pairwise different, and there are never more of them than parties.\<close>

theorem rounds_are_gated:
  assumes "NewLocalDNode env count th len tape primes = Ok p" "1 \<le> count"
    and "BaseStart (kg_node env) (SetDNodeID idn p) = (s, Ok ())" "deliveries (kg_node env) s s'"
  shows "(\<forall>n m ms. p_rnd s' = Some n \<and> m < n \<and> ms \<in> set (update_slots m (p_temp s')) \<longrightarrow>
       length ms = nat count \<and> (\<forall>slot \<in> set ms. \<exists>msg. slot = Some msg \<and> CanAccept m msg)) \<and>
     distinct (senders (p_temp s')) \<and> length (senders (p_temp s')) \<le> nat count"
proof -
  have "p_rnd s \<noteq> None" using BaseStart_round [OF assms(3)] by (simp add: kg_node_def)
  then have inv: "kg_inv count s'"
    using inv_started [OF assms(1,3)] kg.inv_deliveries [OF assms(4)] by blast
  then have "distinct (senders (p_temp s'))" "length (senders (p_temp s')) \<le> nat count"
    using assms(2) by (auto simp: kg_inv_def round0_ok_def senders_def)
  then show ?thesis using gate_of_inv [OF inv assms(2)] by blast
qed

definition toy_new :: LocalDNode where
  "toy_new = (case NewLocalDNode toy_env 2 2 2048 [3, 4, 5, 6, 7, 8, 9] toy_pool of Ok p \<Rightarrow> p | _ \<Rightarrow> toy_node 1 12 8)"

definition toy_start :: LocalDNode where
  "toy_start = fst (BaseStart (kg_node toy_env) (SetDNodeID ''1'' toy_new))"

definition toy_after :: LocalDNode where
  "toy_after = fst (the (BaseUpdate 9 (kg_node toy_env) toy_start (KGRound0Message (toy_from 2 (-1)))))"

text \<open>The delivery of the second round 0 message starts round 1.\<close>

theorem rounds_are_gated_witness:
  "p_rnd toy_after = Some 1 \<and> length (kgRound0Messages (p_temp toy_after)) = 2 \<and>
   distinct (senders (p_temp toy_after))"
proof -
  have new: "NewLocalDNode toy_env 2 2 2048 [3, 4, 5, 6, 7, 8, 9] toy_pool = Ok toy_new"
  proof -
    have "is_Ok (NewLocalDNode toy_env 2 2 2048 [3, 4, 5, 6, 7, 8, 9] toy_pool)" by code_simp
    then show ?thesis by (auto simp: toy_new_def is_Ok_iff)
  qed
  have "snd (BaseStart (kg_node toy_env) (SetDNodeID ''1'' toy_new)) = Ok ()" by code_simp
  then have start: "BaseStart (kg_node toy_env) (SetDNodeID ''1'' toy_new) = (toy_start, Ok ())"
    by (simp add: toy_start_def prod_eq_iff)
  obtain r where "BaseUpdate 9 (kg_node toy_env) toy_start (KGRound0Message (toy_from 2 (-1))) = Some (toy_after, r)"
    using kg.update_returns [OF kg_rank_less, of toy_env toy_start] unfolding toy_after_def
    by (metis option.sel prod.collapse)
  then have run: "deliveries (kg_node toy_env) toy_start toy_after" by (rule deliver [OF stop])
  have "p_rnd toy_after = Some 1" by code_simp
  moreover have "kgRound0Messages (p_temp toy_after) \<in> set (update_slots 0 (p_temp toy_after))" by simp
  ultimately show ?thesis
    using rounds_are_gated [OF new _ start run] by fastforce
qed

section \<open>The recursion of a delivery is bounded\<close>

text \<open>For every state and every message the recursion of \<^verbatim>\<open>BaseUpdate\<close> has depth at most 9: with fuel 9 or
  more there is a result and it does not depend on the fuel. The result may be a panic or a \<^verbatim>\<open>Start\<close> that never
  returns, such as the search for a prime in an empty pool.\<close>

lemma Update_returns: "\<exists>r. \<forall>k. BaseUpdate (9 + k) (kg_node env) p msg = Some r"
proof -
  obtain r where r: "BaseUpdate 9 (kg_node env) p msg = Some r"
    using kg.update_returns [OF kg_rank_less] by blast
  show ?thesis using BaseUpdate_mono [OF r] by (intro exI [of _ r]) simp
qed

section \<open>Storing messages\<close>

text \<open>The messages that are stored without further checks.\<close>

definition plain :: "KGMessage \<Rightarrow> bool" where
  "plain msg \<longleftrightarrow> \<not> is_KGRound0Message msg \<and> \<not> is_KGRound1Message msg \<and> \<not> is_KGRound4Message msg"

lemma StoreMessage_plain:
  "plain msg \<Longrightarrow> StoreMessage env p msg =
     (if find (slots_of msg (p_temp p)) msg then (p, Ok False)
      else bindst (put_slot p msg) (\<lambda>p ms. (p, Ok (full_now p ms))))"
  by (cases msg) (auto simp: StoreMessage_def plain_def)

lemma StoreMessage_known:
  "\<not> is_KGRound0Message msg \<Longrightarrow> find (slots_of msg (p_temp p)) msg \<Longrightarrow> StoreMessage env p msg = (p, Ok False)"
  by (cases msg) (simp_all add: StoreMessage_def)

lemma StoreMessage_stores:
  assumes "\<not> is_KGRound0Message msg" "\<not> find (slots_of msg (p_temp p)) msg" "StoreMessage env p msg = (p', Ok b)"
  shows "0 \<le> GetFromIndex msg \<and> GetFromIndex msg < int (length (slots_of msg (p_temp p))) \<and>
    slots_of msg (p_temp p') = (slots_of msg (p_temp p))[nat (GetFromIndex msg) := Some msg]"
  using assms by (cases msg) (auto simp: StoreMessage_def put_slot_Ok_iff slice_set_Ok_iff Let_def)

text \<open>C37: \<^verbatim>\<open>StoreMessage\<close> trusts the index a message claims, in all rounds but round 0, whose messages are appended.
  A message of a sender that is already in the slice is ignored.  Otherwise, when the message is stored, it is stored in
  the slot of its \<^verbatim>\<open>FromIndex\<close> and replaces whatever is there, the message of another party included; and a
  \<^verbatim>\<open>FromIndex\<close> outside the slice is a run-time panic, except that a round 4 message whose proofs do not hold is an error
  before that.  Outside of the rounds 1 and 4, which also write the saved data, an index inside the slice is enough.\<close>

theorem StoreMessage_trusts_index:
  assumes "\<not> is_KGRound0Message msg" "i = GetFromIndex msg" "ms = slots_of msg (p_temp p)"
  shows "if find ms msg then StoreMessage env p msg = (p, Ok False)
    else
      (\<forall>p' b. StoreMessage env p msg = (p', Ok b) \<longrightarrow> slots_of msg (p_temp p') = ms[nat i := Some msg] \<and> 0 \<le> i \<and> i < int (length ms)) \<and>
      (0 \<le> i \<and> i < int (length ms) \<or> is_KGRound4Message msg \<or> StoreMessage env p msg = (p, Panic ''index out of range'')) \<and>
      (plain msg \<and> 0 \<le> i \<and> i < int (length ms) \<longrightarrow> is_Ok (snd (StoreMessage env p msg)))"
proof (cases "find ms msg")
  case True
  then show ?thesis using StoreMessage_known assms by simp
next
  case False
  have "StoreMessage env p msg = (p, Panic ''index out of range'')"
    if "\<not> (0 \<le> i \<and> i < int (length ms))" "\<not> is_KGRound4Message msg"
    using that False assms by (cases msg) (auto simp: StoreMessage_def put_slot_def slice_set_def)
  moreover have "is_Ok (snd (StoreMessage env p msg))" if "plain msg" "0 \<le> i" "i < int (length ms)"
    using that False assms by (simp add: StoreMessage_plain put_slot_def slice_set_def)
  moreover have "\<forall>p' b. StoreMessage env p msg = (p', Ok b) \<longrightarrow> slots_of msg (p_temp p') = ms[nat i := Some msg] \<and> 0 \<le> i \<and> i < int (length ms)"
    using StoreMessage_stores [OF assms(1), of p env] False assms(2,3) by simp
  ultimately show ?thesis unfolding if_not_P [OF False] by blast
qed

text \<open>A message of the sender 3 that claims the slot of party 1.\<close>

definition toy_stray :: KGMessage where
  "toy_stray = KGRound2Message1 (toy_from 3 0) (Some 9)"

theorem StoreMessage_trusts_index_witness:
  "kgRound2Messages1 (p_temp (toy_node 1 12 8)) ! 0 = Some (KGRound2Message1 (toy_from 1 0) (Some 4)) \<and>
   kgRound2Messages1 (p_temp (fst (StoreMessage toy_env (toy_node 1 12 8) toy_stray))) ! 0 = Some toy_stray"
proof
  show "kgRound2Messages1 (p_temp (toy_node 1 12 8)) ! 0 = Some (KGRound2Message1 (toy_from 1 0) (Some 4))"
    by (simp add: toy_node_def toy_temp_def)
  have "\<not> find (slots_of toy_stray (p_temp (toy_node 1 12 8))) toy_stray" by code_simp
  then show "kgRound2Messages1 (p_temp (fst (StoreMessage toy_env (toy_node 1 12 8) toy_stray))) ! 0 = Some toy_stray"
    using StoreMessage_trusts_index [of toy_stray 0 "slots_of toy_stray (p_temp (toy_node 1 12 8))" "toy_node 1 12 8" toy_env]
    unfolding is_Ok_iff by (cases "StoreMessage toy_env (toy_node 1 12 8) toy_stray")
      (auto simp: plain_def toy_stray_def GetFromIndex_def toy_from_def toy_node_def toy_temp_def)
qed

text \<open>Storing is idempotent: a message other than a round 0 message that was stored is ignored when it
  arrives again, whatever other nodes claim in between about other slots: the second call changes
  nothing and returns \<^verbatim>\<open>false\<close>.\<close>

theorem StoreMessage_idempotent:
  assumes "\<not> is_KGRound0Message msg" "StoreMessage env p msg = (p', Ok b)"
  shows "StoreMessage env p' msg = (p', Ok False)"
proof -
  have "find (slots_of msg (p_temp p')) msg"
  proof (cases "find (slots_of msg (p_temp p)) msg")
    case True
    then have "p' = p" using assms by (cases msg) (auto simp: StoreMessage_def)
    then show ?thesis using True by simp
  next
    case False
    then have "Some msg \<in> set (slots_of msg (p_temp p'))"
      using assms by (cases msg) (auto simp: StoreMessage_def put_slot_Ok_iff slice_set_Ok_iff Let_def set_update_memI)
    then show ?thesis by (auto simp: find_iff)
  qed
  then show ?thesis using assms(1) by (cases msg) (auto simp: StoreMessage_def)
qed

theorem StoreMessage_idempotent_witness:
  "StoreMessage toy_env (fst (StoreMessage toy_env (toy_node 1 12 8) toy_stray)) toy_stray =
     (fst (StoreMessage toy_env (toy_node 1 12 8) toy_stray), Ok False)"
proof (rule StoreMessage_idempotent)
  show "\<not> is_KGRound0Message toy_stray" by (simp add: toy_stray_def)
  have "snd (StoreMessage toy_env (toy_node 1 12 8) toy_stray) = Ok True" by code_simp
  then show "StoreMessage toy_env (toy_node 1 12 8) toy_stray =
      (fst (StoreMessage toy_env (toy_node 1 12 8) toy_stray), Ok True)" by (simp add: prod_eq_iff)
qed

section \<open>The numbering of the parties\<close>

lemma decode_to_id [simp]: "decode_id (to_id (Some x)) = Ok (Some x)"
  by (simp add: decode_id_def to_id_def fmt_v_def)

lemma to_id_inj: "to_id (Some x) = to_id (Some y) \<Longrightarrow> x = y"
  using decode_to_id by (metis option.inject res.inject(1))

lemma decode_senders:
  assumes "None \<notin> set (kgRound0Messages (p_temp p))"
  shows "mapM (\<lambda>v. bindr (deref v) (\<lambda>v. decode_id (GetFromID v))) (kgRound0Messages (p_temp p)) =
    mapM decode_id (senders (p_temp p))"
proof -
  have "None \<notin> set ms \<Longrightarrow> mapM (\<lambda>v. bindr (deref v) (\<lambda>v. decode_id (GetFromID v))) ms =
    mapM decode_id (map (\<lambda>v. case v of None \<Rightarrow> [] | Some m \<Rightarrow> GetFromID m) ms)" for ms :: slots
    by (induction ms) (auto split: option.splits)
  then show ?thesis using assms by (simp add: senders_def)
qed

lemma sort_range:
  assumes "distinct xs" "set xs = {1..int n}" shows "sort xs = map int [1..<Suc n]"
proof (rule sorted_distinct_set_unique)
  have "sorted [1..<Suc n]" by (rule sorted_upt)
  then show "sorted (map int [1..<Suc n])" by (simp add: sorted_map del: upt_Suc)
  have "x \<in> int ` {1..<Suc n}" if "x \<in> {1..int n}" for x
    using that by (intro image_eqI [of _ _ "nat x"]) auto
  then show "set (sort xs) = set (map int [1..<Suc n])" using assms(2) by (auto simp del: upt_Suc)
qed (use assms in \<open>simp_all add: distinct_map\<close>)

text \<open>The parties are numbered consistently: when the round 0 messages carry, in any order, the
  encoded identifiers \<open>1, \<dots>, n\<close>, then \<^verbatim>\<open>GetIDs\<close> returns \<open>1, \<dots>, n\<close> in ascending order, and
  \<^verbatim>\<open>GetDNodeIDIndex\<close> returns for every identifier its position in this list.\<close>

theorem ids_and_indices:
  assumes "2 \<le> n" "distinct (senders (p_temp p))" "set (senders (p_temp p)) = (\<lambda>x. to_id (Some x)) ` {1..int n}"
    and "None \<notin> set (kgRound0Messages (p_temp p))" "r_dnodecount p = int n"
  shows "GetIDs p = Ok (map (\<lambda>i. Some (int i)) [1..<Suc n]) \<and>
    (\<forall>i < n. GetDNodeIDIndex p (to_id (Some (int (Suc i)))) = Ok (int i))"
proof -
  obtain xs where xs: "senders (p_temp p) = map (\<lambda>x. to_id (Some x)) xs"
    using assms(3) by (metis (no_types, lifting) ex_map_conv imageE)
  have inj: "inj (\<lambda>x. to_id (Some x))" by (rule injI) (rule to_id_inj)
  have "distinct xs" using assms(2) xs by (simp add: distinct_map)
  moreover have "set xs = {1..int n}" using assms(3) xs inj_image_eq_iff [OF inj] by auto
  ultimately have sort: "sort xs = map int [1..<Suc n]" by (rule sort_range)
  then have len: "length xs = n" by (metis length_sort length_map length_upt diff_Suc_1)
  have "mapM decode_id (senders (p_temp p)) = Ok (map Some xs)"
    unfolding xs by (induction xs) auto
  then have "GetIDs p = Ok (map Some (sort xs))"
    using assms(1) len by (simp add: GetIDs_def decode_senders [OF assms(4)] sort_ids_def)
  moreover have "length (kgRound0Messages (p_temp p)) = n"
    using arg_cong [OF xs, of length] len by (simp add: senders_def)
  moreover have "to_id (Some x) \<noteq> []" for x
  proof -
    have "length (to_id (Some x)) = 2 * length (show_int x)" by (simp add: to_id_def fmt_v_def length_EncodeToString)
    then show ?thesis using show_int_ne by fastforce
  qed
  ultimately show ?thesis using assms(5) sort by (auto simp: GetDNodeIDIndex_def comp_def)
qed

theorem ids_and_indices_witness:
  "GetIDs (begun 4 (toy_node 2 10 11)) = Ok [Some 1, Some 2] \<and>
   GetDNodeIDIndex (begun 4 (toy_node 2 10 11)) (to_id (Some 2)) = Ok 1"
proof -
  let ?p = "begun 4 (toy_node 2 10 11)"
  have "senders (p_temp ?p) = [to_id (Some 1), to_id (Some 2)]" "r_dnodecount ?p = int 2"
    "None \<notin> set (kgRound0Messages (p_temp ?p))"
    by (simp_all add: senders_def begun_def ResetOK_def toy_node_def toy_temp_def toy_from_def GetFromID_def)
  moreover have "{1..int 2} = {1, 2}" by auto
  moreover have "to_id (Some 1) \<noteq> to_id (Some 2)" using to_id_inj by force
  ultimately have "GetIDs ?p = Ok (map (\<lambda>i. Some (int i)) [1..<Suc 2]) \<and>
    (\<forall>i < 2. GetDNodeIDIndex ?p (to_id (Some (int (Suc i)))) = Ok (int i))"
    by (intro ids_and_indices) auto
  then show ?thesis by (auto simp: upt_rec dest: spec [of _ 1])
qed

end
