(* ===== verification/SigningCorrect.thy ===== *)
theory SigningCorrect
  imports SigningInv KeygenProps
begin

text \<open>
  Correctness of signing: the weights of round 1 add up to the key, the share conversion of the
  rounds 4 and 5 turns products of sums into sums, round 7 computes the point of the signature, and the
  rounds 10 and 11 compute a signature that the verification accepts.
\<close>

section \<open>Round 1: the weights\<close>

lemma foldM_map: "foldM f b (map g xs) = foldM (\<lambda>b x. f b (g x)) b xs"
  by (induction xs arbitrary: b) auto

lemma enumerate_map: "enumerate 0 xs = map (\<lambda>k. (k, xs ! k)) [0..<length xs]"
  by (rule nth_equalityI) (simp_all add: nth_enumerate_eq)

text \<open>The loop of round 1 is the inner loop of \<^verbatim>\<open>Combine2\<close>.\<close>

lemma lambda_Combine2_times:
  "foldM (lambda_step E (int i) (xs ! i)) 1 (enumerate 0 xs) = Combine2_times E (map Some xs) i (Some (xs ! i))"
proof -
  have "lambda_step E (int i) (xs ! i) b (j, xs ! j) =
      (if j \<noteq> i then (let sub = xs ! j - xs ! i in case ModInverse sub (cN E) of
             None \<Rightarrow> Err ''calc times fail''
           | Some subInverse \<Rightarrow> Ok ((b * (xs ! j * subInverse)) mod cN E)) else Ok b)" for b j
    by (auto simp: lambda_step_def Let_def mult.commute split: option.splits)
  then show ?thesis unfolding enumerate_map foldM_map Combine2_times_Some by simp
qed

text \<open>The weights are additive shares of the key.\<close>

lemma weights_add_up:
  assumes "1 < cN E" "poly \<noteq> []" "length poly \<le> length idsign" "unit_diffs (cN E) idsign"
    and "\<And>i. i < length idsign \<Longrightarrow> eqm (cN E) (sk i) (peval poly (idsign ! i))"
  shows "\<exists>w. (\<forall>i < length idsign. round1_w1 E idsign (int i) (Some (sk i)) = Ok (w i)) \<and>
     (\<Sum>i < length idsign. w i) mod cN E = hd poly mod cN E"
proof -
  let ?N = "cN E"
  define inv where "inv i j = the (ModInverse (idsign ! j - idsign ! i) ?N)" for i j
  have inv: "ModInverse (idsign ! j - idsign ! i) ?N = Some (inv i j)"
    if "i < length idsign" "j < length idsign" "j \<noteq> i" for i j
  proof -
    have "gcd (idsign ! j - idsign ! i) ?N = 1" using assms(4) that by (simp add: unit_diffs_def)
    then show ?thesis using ModInverse_coprime [of ?N "idsign ! j - idsign ! i"] assms(1) by (auto simp: inv_def)
  qed
  have "\<exists>v. Combine2_times E (map Some idsign) i (Some (idsign ! i)) = Ok v \<and> eqm ?N v (basis_poly idsign inv i 0)"
    if "i < length idsign" for i
    using Combine2_times_ok [of E i idsign inv] inv that assms(1) by simp
  then obtain l where l: "Combine2_times E (map Some idsign) i (Some (idsign ! i)) = Ok (l i)" "eqm ?N (l i) (basis_poly idsign inv i 0)"
    if "i < length idsign" for i by metis
  define w where "w i = (l i * sk i) mod ?N" for i
  have "round1_w1 E idsign (int i) (Some (sk i)) = Ok (w i)" if "i < length idsign" for i
    using that by (simp add: round1_w1_def lambda_Combine2_times l w_def)
  moreover have "eqm ?N (\<Sum>i < length idsign. w i) (hd poly)"
  proof -
    have "eqm ?N (\<Sum>i < length idsign. w i) (\<Sum>i < length idsign. sk i * basis_poly idsign inv i 0)"
    proof (rule eqm_sum)
      fix i assume "i \<in> {..<length idsign}"
      then have "eqm ?N (l i * sk i) (basis_poly idsign inv i 0 * sk i)" by (intro eqm_mult eqm_refl l(2)) simp
      then show "eqm ?N (w i) (sk i * basis_poly idsign inv i 0)" by (simp add: w_def mult.commute)
    qed
    also have "eqm ?N \<dots> (peval poly 0)"
      using assms inv by (intro interpolation [OF polyf_peval]) (auto intro: ModInverse_eqm)
    finally show ?thesis using assms(2) by (simp add: peval_0)
  qed
  ultimately show ?thesis by (auto dest: eqm_imp_mod_eq)
qed

section \<open>Round 4: the responses\<close>

lemma for_signers_inv:
  assumes "for_signers f k vs p = (p', Ok ())" "I k p"
    and "\<And>j s s'. k \<le> j \<Longrightarrow> j < k + length vs \<Longrightarrow> I j s \<Longrightarrow> f j (vs ! (j - k)) s = (s', Ok ()) \<Longrightarrow> I (Suc j) s'"
  shows "I (k + length vs) p'"
  using assms
proof (induction vs arbitrary: k p)
  case Nil
  then show ?case by simp
next
  case (Cons v vs)
  obtain q where q: "f k v p = (q, Ok ())" "for_signers f (Suc k) vs q = (p', Ok ())"
    using Cons.prems(1) by auto
  have "I (Suc k) q" using Cons.prems(3) [of k p q] Cons.prems(2) q(1) by simp
  then have "I (Suc k + length vs) p'"
  proof (rule Cons.IH [OF q(2)])
    fix j s s' assume j: "Suc k \<le> j" "j < Suc k + length vs" "I j s" "f j (vs ! (j - Suc k)) s = (s', Ok ())"
    then have "(v # vs) ! (j - k) = vs ! (j - Suc k)" by (simp add: Suc_diff_Suc [symmetric])
    then show "I (Suc j) s'" using Cons.prems(3) [of j s s'] j by simp
  qed
  then show ?case by simp
qed

lemma deliver_to_Ok_iff:
  "deliver_to curIndex k v mk p = (p', Ok ()) \<longleftrightarrow>
     (if int k = curIndex
      then (let msg = mk (sign_from p curIndex); ms = sign_slots_of msg (s_temp p)
            in k < length ms \<and> p' = p\<lparr>s_temp := sign_slots_update msg (ms[k := Some msg]) (s_temp p)\<rparr>)
      else p' = sign_send (mk (sm_AppendToID (to_id (Some v)) (sign_from p curIndex))) p)"
  by (auto simp: deliver_to_def sign_put_own_def sign_put_at_Ok_iff Let_def)

lemma sign_sample_Ok_iff:
  "sign_sample p f = (p', Ok a) \<longleftrightarrow> (\<exists>tape. f (s_tape p) = Ok (a, tape) \<and> p' = p\<lparr>s_tape := tape\<rparr>)"
  by (auto simp: sign_sample_def)

text \<open>\<open>keyed p j n\<close>: the saved Paillier key of the signer at position \<open>j\<close> is a well-formed key with
  modulus \<open>n\<close>; \<open>asks p j n k\<close>: the round 3 message of that signer has a ciphertext of \<open>k\<close> under it.\<close>

definition keyed :: "SignDNode \<Rightarrow> nat \<Rightarrow> int \<Rightarrow> bool" where
  "keyed p j n \<longleftrightarrow> (\<exists>index pk sk pr qr. id_index p (s_idsign p ! j) = Ok index \<and>
     slice_get (sd_U1PaillierPk (s_save p)) index = Ok (Some pk) \<and> paillier_keys pk sk pr qr \<and> n = pr * qr)"

definition asks :: "SignDNode \<Rightarrow> nat \<Rightarrow> int \<Rightarrow> int \<Rightarrow> bool" where
  "asks p j n k \<longleftrightarrow> (\<exists>b c d. slice_get (signRound3Messages (s_temp p)) (int j) = Ok (Some (SignRound3Message b (Some c) d)) \<and>
     encrypts n c k)"

lemma opt_err_sample:
  assumes "sign_sample p (\<lambda>t. bindr (opt_err (f t)) (\<lambda>r. Ok (case r of None \<Rightarrow> (None, t) | Some (c, t) \<Rightarrow> (Some c, t)))) = (p', Ok (Some c))"
  shows "\<exists>tape. f (s_tape p) = Ok (c, tape) \<and> p' = p\<lparr>s_tape := tape\<rparr>"
  using assms by (cases "f (s_tape p)") (auto simp: sign_sample_def split: prod.splits)

lemma respond_Ok:
  assumes "respond p curIndex oldindex k v (Some a) masks = (p', Ok (beta, rnd, c1, c2, pfpk, nt))"
    and "keyed p k n" "asks p k n x" "v = s_idsign p ! k" "0 \<le> a" "masks ! k \<le> n"
  shows "\<exists>tape. p' = p\<lparr>s_tape := tape\<rparr> \<and> beta = masks ! k \<and> encrypts n c2 (a * x + masks ! k)"
proof -
  obtain index pk sk pr qr where pk: "id_index p v = Ok index" "slice_get (sd_U1PaillierPk (s_save p)) index = Ok (Some pk)"
    "paillier_keys pk sk pr qr" "n = pr * qr" using assms(2,4) by (auto simp: keyed_def)
  obtain b c d where c: "slice_get (signRound3Messages (s_temp p)) (int k) = Ok (Some (SignRound3Message b (Some c) d))"
    "encrypts n c x" using assms(3) by (auto simp: asks_def)
  obtain ce tape where enc: "Encrypt pk (Some (masks ! k)) (s_tape p) = Ok (ce, tape)" "p' = p\<lparr>s_tape := tape\<rparr>"
    and beta: "beta = masks ! k"
    and add: "HomoAdd (Some pk) (HomoMul (Some pk) (Some c) (Some a)) (Some (fst ce)) = Ok (Some c2)"
    using assms(1) pk(1,2) c(1)
    by (auto simp: respond_def got_def slice_get_Ok_iff dest!: opt_err_sample)
  have "encrypts n (fst ce) (masks ! k)"
    using Encrypt_encrypts [OF pk(3), of "masks ! k" "s_tape p" "fst ce" "snd ce" tape] enc(1) assms(6) pk(4) by simp
  moreover obtain cm where "HomoMul (Some pk) (Some c) (Some a) = Some cm" "encrypts n cm (a * x)"
    using HomoMul_encrypts [OF pk(3), of c x a] c(2) assms(5) pk(4) by auto
  ultimately have "encrypts n c2 (a * x + masks ! k)"
    using HomoAdd_encrypts [OF pk(3), of cm "a * x" "fst ce" "masks ! k"] add pk(4) by auto
  then show ?thesis using enc(2) beta by blast
qed

text \<open>
  A loop that makes one message for every signer: the own message goes into the slice that \<open>g\<close> reads
  and \<open>u\<close> writes, the others are sent.  \<open>good j\<close> is what the loop body guarantees of the message for
  the signer at position \<open>j\<close>.
\<close>

definition made :: "(sign_slots \<Rightarrow> SignTempData \<Rightarrow> SignTempData) \<Rightarrow> (SignTempData \<Rightarrow> sign_slots) \<Rightarrow> (nat \<Rightarrow> SignMessage \<Rightarrow> bool) \<Rightarrow>
    int \<Rightarrow> nat \<Rightarrow> int \<Rightarrow> SignDNode \<Rightarrow> SignDNode \<Rightarrow> bool" where
  "made u g good curIndex j v s s' \<longleftrightarrow> (\<exists>m tape. good j m \<and>
     (if int j = curIndex
      then j < length (g (s_temp s)) \<and> s' = s\<lparr>s_temp := u ((g (s_temp s))[j := Some m]) (s_temp s), s_tape := tape\<rparr>
      else sm_ToID (sm_base m) = [to_id (Some v)] \<and> s' = s\<lparr>s_out := s_out s @ [m], s_tape := tape\<rparr>))"

definition handed :: "(SignTempData \<Rightarrow> sign_slots) \<Rightarrow> (nat \<Rightarrow> SignMessage \<Rightarrow> bool) \<Rightarrow> int \<Rightarrow> int list \<Rightarrow> nat \<Rightarrow> SignMessage list \<Rightarrow> SignDNode \<Rightarrow> bool" where
  "handed g good curIndex ids k sent s \<longleftrightarrow>
     (\<forall>m \<in> set sent. \<exists>i < length ids. sm_ToID (sm_base m) = [to_id (Some (ids ! i))] \<and> good i m) \<and>
     (0 \<le> curIndex \<and> curIndex < int k \<longrightarrow> (\<exists>m. slice_get (g (s_temp s)) curIndex = Ok (Some m) \<and> good (nat curIndex) m))"

lemma for_signers_made:
  assumes run: "for_signers f 0 ids p = (p', Ok ())"
    and gu: "\<And>ms t. g (u ms t) = ms" "\<And>ms ms' t. u ms' (u ms t) = u ms' t" "\<And>t. u (g t) t = t"
    and step: "\<And>j ms out tape s s'. j < length ids \<Longrightarrow> s = p\<lparr>s_temp := u ms (s_temp p), s_out := out, s_tape := tape\<rparr> \<Longrightarrow>
      f j (ids ! j) s = (s', Ok ()) \<Longrightarrow> made u g good curIndex j (ids ! j) s s'"
  shows "\<exists>ms sent tape. p' = p\<lparr>s_temp := u ms (s_temp p), s_out := s_out p @ sent, s_tape := tape\<rparr> \<and>
     handed g good curIndex ids (length ids) sent p'"
proof -
  define I where "I k s \<longleftrightarrow> (\<exists>ms sent tape. s = p\<lparr>s_temp := u ms (s_temp p), s_out := s_out p @ sent, s_tape := tape\<rparr> \<and>
     handed g good curIndex ids k sent s)" for k s
  have "I (0 + length ids) p'"
  proof (rule for_signers_inv [where f = f and k = 0 and vs = ids and p = p and I = I])
    show "for_signers f 0 ids p = (p', Ok ())" by (rule run)
    show "I 0 p" unfolding I_def by (rule exI [of _ "g (s_temp p)"], rule exI [of _ "[]"], rule exI [of _ "s_tape p"])
        (auto simp: handed_def gu)
  next
    fix j s s' assume j: "0 \<le> j" "j < 0 + length ids" "I j s" "f j (ids ! (j - 0)) s = (s', Ok ())"
    obtain ms sent tape where s: "s = p\<lparr>s_temp := u ms (s_temp p), s_out := s_out p @ sent, s_tape := tape\<rparr>"
      and h: "handed g good curIndex ids j sent s" using j(3) unfolding I_def by blast
    obtain m tape' where m: "good j m" and s': "if int j = curIndex
      then j < length (g (s_temp s)) \<and> s' = s\<lparr>s_temp := u ((g (s_temp s))[j := Some m]) (s_temp s), s_tape := tape'\<rparr>
      else sm_ToID (sm_base m) = [to_id (Some (ids ! j))] \<and> s' = s\<lparr>s_out := s_out s @ [m], s_tape := tape'\<rparr>"
      using step [OF _ s, of j s'] j(2,4) unfolding made_def by auto
    show "I (Suc j) s'"
    proof (cases "int j = curIndex")
      case True
      then have "s' = p\<lparr>s_temp := u (ms[j := Some m]) (s_temp p), s_out := s_out p @ sent, s_tape := tape'\<rparr>" "j < length ms"
        using s' unfolding s by (simp_all add: gu)
      moreover have "handed g good curIndex ids (Suc j) sent s'"
        using h m True calculation by (auto simp: handed_def gu slice_get_Ok_iff)
      ultimately show ?thesis unfolding I_def by blast
    next
      case False
      then have eq: "s' = p\<lparr>s_temp := u ms (s_temp p), s_out := s_out p @ (sent @ [m]), s_tape := tape'\<rparr>"
        using s' unfolding s by simp
      moreover have "s_temp s' = s_temp s" unfolding eq s by simp
      then have "handed g good curIndex ids (Suc j) (sent @ [m]) s'"
        using h m False s' j(2) by (auto simp: handed_def)
      ultimately show ?thesis unfolding I_def by blast
    qed
  qed
  then show ?thesis by (simp add: I_def)
qed

definition carries :: "(SignMessage \<Rightarrow> bool) \<Rightarrow> (SignMessage \<Rightarrow> int option) \<Rightarrow> (nat \<Rightarrow> int) \<Rightarrow> (nat \<Rightarrow> int) \<Rightarrow> nat \<Rightarrow> SignMessage \<Rightarrow> bool" where
  "carries P cipher n x j m \<longleftrightarrow> P m \<and> (\<exists>c. cipher m = Some c \<and> encrypts (n j) c (x j))"

lemma round4_gamma_made:
  assumes "round4_gamma env curIndex oldindex j v s = (s', Ok ())" "t_u1Gamma (s_temp s) = Some a"
    and "keyed s j (n j)" "asks s j (n j) (x j)" "v = s_idsign s ! j" "0 \<le> a" "t_betaU1Star (s_temp s) ! j \<le> n j"
    and "y j = a * x j + t_betaU1Star (s_temp s) ! j"
  shows "made (\<lambda>ms t. t\<lparr>signRound4Messages := ms\<rparr>) signRound4Messages (carries is_SignRound4Message U1KGamma1Cipher n y)
    curIndex j v s s'"
proof -
  obtain s1 beta rnd c1 c2 pk nt pf tape' where r: "respond s curIndex oldindex j v (Some a) (t_betaU1Star (s_temp s)) = (s1, Ok (beta, rnd, c1, c2, pk, nt))"
    and d: "deliver_to curIndex j v (\<lambda>b. SignRound4Message b (Some c2) (Some pf)) (s1\<lparr>s_tape := tape'\<rparr>) = (s', Ok ())"
    using assms(1,2) by (auto simp: round4_gamma_def sign_sample_Ok_iff)
  obtain tape where s1: "s1 = s\<lparr>s_tape := tape\<rparr>" and e: "encrypts (n j) c2 (y j)"
    using respond_Ok [OF r assms(3-7)] assms(8) by auto
  define m where "m = SignRound4Message (if int j = curIndex then sign_from s curIndex
      else sm_AppendToID (to_id (Some v)) (sign_from s curIndex)) (Some c2) (Some pf)"
  have "carries is_SignRound4Message U1KGamma1Cipher n y j m" using e by (simp add: carries_def m_def)
  then show ?thesis
    using d s1 unfolding made_def
    by (intro exI [of _ m] exI [of _ tape'])
      (auto simp: deliver_to_Ok_iff Let_def m_def sign_send_def sign_from_def sm_SetFromIndex_def sm_SetFromID_def sm_AppendToID_def)
qed

lemma round4_w_made:
  assumes "round4_w env curIndex oldindex j v s = (s', Ok ())" "t_w1 (s_temp s) = Some a"
    and "keyed s j (n j)" "asks s j (n j) (x j)" "v = s_idsign s ! j" "0 \<le> a" "t_vU1Star (s_temp s) ! j \<le> n j"
    and "y j = a * x j + t_vU1Star (s_temp s) ! j"
  shows "made (\<lambda>ms t. t\<lparr>signRound4Messages1 := ms\<rparr>) signRound4Messages1 (carries is_SignRound4Message1 U1Kw1Cipher n y)
    curIndex j v s s'"
proof -
  obtain s1 beta rnd c1 c2 pk nt pf tape' where r: "respond s curIndex oldindex j v (Some a) (t_vU1Star (s_temp s)) = (s1, Ok (beta, rnd, c1, c2, pk, nt))"
    and d: "deliver_to curIndex j v (\<lambda>b. SignRound4Message1 b (Some c2) (Some pf)) (s1\<lparr>s_tape := tape'\<rparr>) = (s', Ok ())"
    using assms(1,2) by (auto simp: round4_w_def sign_sample_Ok_iff)
  obtain tape where s1: "s1 = s\<lparr>s_tape := tape\<rparr>" and e: "encrypts (n j) c2 (y j)"
    using respond_Ok [OF r assms(3-7)] assms(8) by auto
  define m where "m = SignRound4Message1 (if int j = curIndex then sign_from s curIndex
      else sm_AppendToID (to_id (Some v)) (sign_from s curIndex)) (Some c2) (Some pf)"
  have "carries is_SignRound4Message1 U1Kw1Cipher n y j m" using e by (simp add: carries_def m_def)
  then show ?thesis
    using d s1 unfolding made_def
    by (intro exI [of _ m] exI [of _ tape'])
      (auto simp: deliver_to_Ok_iff Let_def m_def sign_send_def sign_from_def sm_SetFromIndex_def sm_SetFromID_def sm_AppendToID_def)
qed

lemma sample_masks_range:
  "sample_masks b n t = Ok (xs, t') \<Longrightarrow> length xs = n \<and> (\<forall>x \<in> set xs. 0 \<le> x \<and> x < b)"
proof (induction n arbitrary: t xs)
  case 0
  then show ?case by simp
next
  case (Suc n)
  then obtain x t1 ys where "GetRandomIntFromZn b t = Ok (x, t1)" "sample_masks b n t1 = Ok (ys, t')" "xs = x # ys"
    by auto
  then show ?case using Suc.IH [of t1 ys] GetRandomIntFromZn_range by fastforce
qed

lemma keyed_asks_cong:
  assumes "s_idsign s = s_idsign p" "s_save s = s_save p"
  shows "keyed s j n = keyed p j n"
  using assms by (simp add: keyed_def id_index_def)

text \<open>What the responses of round 4 stand for.\<close>

lemma round4_Start_sends:
  assumes run: "sign_round4_Start env p = (p', Ok ())"
    and own: "t_u1Gamma (s_temp p) = Some \<gamma>" "t_w1 (s_temp p) = Some w" "0 \<le> \<gamma>" "0 \<le> w"
    and th: "nat (b_threshold p) = length (s_idsign p)"
    and peers: "\<And>j. j < length (s_idsign p) \<Longrightarrow> keyed p j (n j) \<and> asks p j (n j) (k j) \<and>
      mask_bound (se_E env) (b_paillierkeylength p) \<le> n j"
  obtains curIndex \<beta> \<nu> sent sent1 where
    "sign_GetDNodeIDIndex p (b_kgid p) = Ok curIndex"
    "length \<beta> = length (s_idsign p)" "length \<nu> = length (s_idsign p)"
    "\<forall>x \<in> set \<beta> \<union> set \<nu>. 0 \<le> x \<and> x < mask_bound (se_E env) (b_paillierkeylength p)"
    "t_betaU1 (s_temp p') = map uminus \<beta>" "t_vU1 (s_temp p') = map uminus \<nu>" "s_out p' = s_out p @ sent @ sent1"
    "handed signRound4Messages (carries is_SignRound4Message U1KGamma1Cipher n (\<lambda>j. \<gamma> * k j + \<beta> ! j))
       curIndex (s_idsign p) (length (s_idsign p)) sent p'"
    "handed signRound4Messages1 (carries is_SignRound4Message1 U1Kw1Cipher n (\<lambda>j. w * k j + \<nu> ! j))
       curIndex (s_idsign p) (length (s_idsign p)) sent1 p'"
proof -
  let ?N = "mask_bound (se_E env) (b_paillierkeylength p)" and ?n = "length (s_idsign p)"
  let ?q = "sign_ResetOK (p\<lparr>b_number := 4, b_started := True\<rparr>)"
  have q: "s_idsign ?q = s_idsign p" "s_save ?q = s_save p" "s_temp ?q = s_temp p" "b_kgid ?q = b_kgid p" "s_out ?q = s_out p"
    "b_threshold ?q = b_threshold p" "b_paillierkeylength ?q = b_paillierkeylength p"
    by (simp_all add: sign_ResetOK_def)
  obtain curIndex oldindex \<beta> \<nu> t1 t2 s1 where cur: "sign_GetDNodeIDIndex ?q (b_kgid ?q) = Ok curIndex"
    and \<beta>: "sample_masks ?N (nat (b_threshold p)) (s_tape ?q) = Ok (\<beta>, t1)"
    and \<nu>: "sample_masks ?N (nat (b_threshold p)) t1 = Ok (\<nu>, t2)"
    and loops: "for_signers (round4_gamma env curIndex oldindex) 0 (s_idsign p)
        (sign_set (\<lambda>t. t\<lparr>t_betaU1Star := \<beta>, t_betaU1 := map (\<lambda>x. - 1 * x) \<beta>, t_vU1Star := \<nu>, t_vU1 := map (\<lambda>x. - 1 * x) \<nu>\<rparr>)
          (?q\<lparr>s_tape := t2\<rparr>)) = (s1, Ok ())"
      "for_signers (round4_w env curIndex oldindex) 0 (s_idsign s1) s1 = (p', Ok ())"
    using run q
    by (auto simp: sign_round4_Start_def sign_begin_def sign_sample_Ok_iff Let_def sign_set_def split: if_splits)
  define s0 where "s0 = sign_set (\<lambda>t. t\<lparr>t_betaU1Star := \<beta>, t_betaU1 := map (\<lambda>x. - 1 * x) \<beta>, t_vU1Star := \<nu>,
      t_vU1 := map (\<lambda>x. - 1 * x) \<nu>\<rparr>) (?q\<lparr>s_tape := t2\<rparr>)"
  have s0: "s_idsign s0 = s_idsign p" "s_save s0 = s_save p" "s_out s0 = s_out p" "signRound3Messages (s_temp s0) = signRound3Messages (s_temp p)"
    "t_u1Gamma (s_temp s0) = Some \<gamma>" "t_w1 (s_temp s0) = Some w" "t_betaU1Star (s_temp s0) = \<beta>" "t_vU1Star (s_temp s0) = \<nu>"
    "t_betaU1 (s_temp s0) = map uminus \<beta>" "t_vU1 (s_temp s0) = map uminus \<nu>"
    using q own by (simp_all add: s0_def sign_set_def sign_ResetOK_def)
  note R = sample_masks_range [OF \<beta>] sample_masks_range [OF \<nu>]
  have len: "length \<beta> = ?n" "length \<nu> = ?n" using R th by simp_all
  have small: "\<beta> ! j \<le> n j" "\<nu> ! j \<le> n j" if "j < ?n" for j
    using R len that peers [OF that] by (metis nth_mem order.trans less_imp_le)+
  have peer: "keyed s j (n j)" "asks s j (n j) (k j)" if "j < ?n" "s_idsign s = s_idsign p" "s_save s = s_save p"
    "signRound3Messages (s_temp s) = signRound3Messages (s_temp p)" for s j
    using peers [OF that(1)] that(2-4) by (simp_all add: keyed_def id_index_def asks_def)
  obtain ms sent t3 where s1: "s1 = s0\<lparr>s_temp := (s_temp s0)\<lparr>signRound4Messages := ms\<rparr>, s_out := s_out s0 @ sent, s_tape := t3\<rparr>"
    and h1: "handed signRound4Messages (carries is_SignRound4Message U1KGamma1Cipher n (\<lambda>j. \<gamma> * k j + \<beta> ! j)) curIndex (s_idsign p) ?n sent s1"
    using for_signers_made [where g = signRound4Messages and u = "\<lambda>ms t. t\<lparr>signRound4Messages := ms\<rparr>" and
        good = "carries is_SignRound4Message U1KGamma1Cipher n (\<lambda>j. \<gamma> * k j + \<beta> ! j)" and curIndex = curIndex, OF loops(1) [folded s0_def]]
      round4_gamma_made [where a = \<gamma> and n = n and x = k and y = "\<lambda>j. \<gamma> * k j + \<beta> ! j"] peer small own(3) s0
    by auto
  have "s_idsign s1 = s_idsign p" using s0 by (simp add: s1)
  then obtain ms1 sent1 t4 where p': "p' = s1\<lparr>s_temp := (s_temp s1)\<lparr>signRound4Messages1 := ms1\<rparr>, s_out := s_out s1 @ sent1, s_tape := t4\<rparr>"
    and h2: "handed signRound4Messages1 (carries is_SignRound4Message1 U1Kw1Cipher n (\<lambda>j. w * k j + \<nu> ! j)) curIndex (s_idsign p) ?n sent1 p'"
    using for_signers_made [where g = signRound4Messages1 and u = "\<lambda>ms t. t\<lparr>signRound4Messages1 := ms\<rparr>" and
        good = "carries is_SignRound4Message1 U1Kw1Cipher n (\<lambda>j. w * k j + \<nu> ! j)" and curIndex = curIndex, OF loops(2)]
      round4_w_made [where a = w and n = n and x = k and y = "\<lambda>j. w * k j + \<nu> ! j"] peer small own(4) s0
    by (auto simp: s1)
  show ?thesis
  proof (rule that)
    show "sign_GetDNodeIDIndex p (b_kgid p) = Ok curIndex" using cur unfolding sign_GetDNodeIDIndex_def q(1,4) .
    show "length \<beta> = ?n" "length \<nu> = ?n" by (fact len)+
    show "\<forall>x \<in> set \<beta> \<union> set \<nu>. 0 \<le> x \<and> x < ?N" using R by blast
    show "t_betaU1 (s_temp p') = map uminus \<beta>" "t_vU1 (s_temp p') = map uminus \<nu>" "s_out p' = s_out p @ sent @ sent1"
      using s0 by (simp_all add: p' s1)
    show "handed signRound4Messages (carries is_SignRound4Message U1KGamma1Cipher n (\<lambda>j. \<gamma> * k j + \<beta> ! j))
       curIndex (s_idsign p) ?n sent p'" using h1 by (simp add: handed_def p')
    show "handed signRound4Messages1 (carries is_SignRound4Message1 U1Kw1Cipher n (\<lambda>j. w * k j + \<nu> ! j))
       curIndex (s_idsign p) ?n sent1 p'" by (rule h2)
  qed
qed

section \<open>Round 5: the shares of the products\<close>

text \<open>\<open>holds g P cipher p x\<close>: for every signer the slice \<open>g\<close> has a message whose ciphertext decrypts to \<open>x j\<close>
  with the own key.\<close>

definition holds :: "(SignTempData \<Rightarrow> sign_slots) \<Rightarrow> (SignMessage \<Rightarrow> bool) \<Rightarrow> (SignMessage \<Rightarrow> int option) \<Rightarrow> SignDNode \<Rightarrow> (nat \<Rightarrow> int) \<Rightarrow> bool" where
  "holds g P cipher p x \<longleftrightarrow> (\<forall>j < length (s_idsign p). \<exists>m. slice_get (g (s_temp p)) (int j) = Ok (Some m) \<and> P m \<and>
     Decrypt (sd_U1PaillierSk (s_save p)) (cipher m) = Ok (x j))"

lemma sum_upt: "sum_list (map f [0..<n]) = sum f {..<n}"
  by (simp add: sum_list_distinct_conv_sum_set lessThan_atLeast0)

lemma round5_open_Ok:
  assumes "round5_open env p oldindex (j, v) = Ok ab" "j < length (s_idsign p)"
    and "holds signRound4Messages is_SignRound4Message U1KGamma1Cipher p a"
    and "holds signRound4Messages1 is_SignRound4Message1 U1Kw1Cipher p b"
  shows "ab = (Some (a j), Some (b j))"
proof -
  obtain m m1 where "slice_get (signRound4Messages (s_temp p)) (int j) = Ok (Some m)"
      "Decrypt (sd_U1PaillierSk (s_save p)) (U1KGamma1Cipher m) = Ok (a j)" "is_SignRound4Message m"
    and "slice_get (signRound4Messages1 (s_temp p)) (int j) = Ok (Some m1)"
      "Decrypt (sd_U1PaillierSk (s_save p)) (U1Kw1Cipher m1) = Ok (b j)" "is_SignRound4Message1 m1"
    using assms(2-4) unfolding holds_def by blast
  then show ?thesis using assms(1) by (auto simp: round5_open_def got_Ok_iff split: if_splits)
qed

lemma mapM_round5_open:
  assumes "mapM (round5_open env p oldindex) (enumerate 0 (s_idsign p)) = Ok opened"
    and "holds signRound4Messages is_SignRound4Message U1KGamma1Cipher p a"
    and "holds signRound4Messages1 is_SignRound4Message1 U1Kw1Cipher p b"
  shows "opened = map (\<lambda>j. (Some (a j), Some (b j))) [0..<length (s_idsign p)]"
proof (rule nth_equalityI)
  show len: "length opened = length (map (\<lambda>j. (Some (a j), Some (b j))) [0..<length (s_idsign p)])"
    using mapM_Ok_length [OF assms(1)] by simp
  fix j assume "j < length opened"
  then have j: "j < length (s_idsign p)" using len by simp
  then have "round5_open env p oldindex (j, s_idsign p ! j) = Ok (opened ! j)"
    using mapM_Ok_nth [OF assms(1), of j] by (simp add: nth_enumerate_eq)
  then show "opened ! j = map (\<lambda>j. (Some (a j), Some (b j))) [0..<length (s_idsign p)] ! j"
    using round5_open_Ok [OF _ j assms(2,3)] j by simp
qed

lemma sum_shares_Ok:
  assumes "sum_shares E (int n) (map (\<lambda>j. Some (a j)) [0..<n]) betas = Ok d"
  shows "d = ((\<Sum>j<n. a j) + (\<Sum>j<n. betas ! j)) mod cN E"
proof -
  obtain a0 as bs where a0: "slice_get (map (\<lambda>j. Some (a j)) [0..<n]) 0 = Ok (Some a0)"
    and as: "mapM (\<lambda>i. bindr (slice_get (map (\<lambda>j. Some (a j)) [0..<n]) (int i)) deref) [1..<n] = Ok as"
    and bs: "mapM (\<lambda>i. slice_get betas (int i)) [0..<n] = Ok bs" and d: "d = (a0 + sum_list as + sum_list bs) mod cN E"
    using assms by (auto simp: sum_shares_def)
  have n: "0 < n" "a0 = a 0" using a0 by (auto simp: slice_get_Ok_iff)
  have "mapM (\<lambda>i. bindr (slice_get (map (\<lambda>j. Some (a j)) [0..<n]) (int i)) deref) [1..<n] = Ok (map a [1..<n])"
    by (rule mapM_Ok_map) (auto simp: slice_get_Ok_iff)
  then have "as = map a [1..<n]" using as by simp
  moreover have "bs = map (\<lambda>j. betas ! j) [0..<n]"
  proof (rule nth_equalityI)
    show len: "length bs = length (map (\<lambda>j. betas ! j) [0..<n])" using mapM_Ok_length [OF bs] by simp
    fix i assume "i < length bs"
    then show "bs ! i = map (\<lambda>j. betas ! j) [0..<n] ! i"
      using mapM_Ok_nth [OF bs, of i] len by (simp add: slice_get_Ok_iff)
  qed
  moreover have "a 0 + sum_list (map a [1..<n]) = sum_list (map a [0..<n])" using n by (simp add: upt_conv_Cons)
  ultimately show ?thesis unfolding d n(2) by (simp add: sum_upt)
qed

lemma round5_Start_shares:
  assumes run: "sign_round5_Start env p = (p', Ok ())" and th: "b_threshold p = int (length (s_idsign p))"
    and a: "holds signRound4Messages is_SignRound4Message U1KGamma1Cipher p a"
    and b: "holds signRound4Messages1 is_SignRound4Message1 U1Kw1Cipher p b"
  shows "t_delta1 (s_temp p') = Some (((\<Sum>j<length (s_idsign p). a j) + (\<Sum>j<length (s_idsign p). t_betaU1 (s_temp p) ! j)) mod cN (se_E env))"
    and "t_sigma1 (s_temp p') = Some (((\<Sum>j<length (s_idsign p). b j) + (\<Sum>j<length (s_idsign p). t_vU1 (s_temp p) ! j)) mod cN (se_E env))"
proof -
  let ?n = "length (s_idsign p)"
  let ?q = "sign_ResetOK (p\<lparr>b_number := 5, b_started := True\<rparr>)"
  have q: "s_idsign ?q = s_idsign p" "s_save ?q = s_save p" "s_temp ?q = s_temp p" "b_threshold ?q = int ?n"
    using th by (simp_all add: sign_ResetOK_def)
  have a': "holds signRound4Messages is_SignRound4Message U1KGamma1Cipher ?q a"
    and b': "holds signRound4Messages1 is_SignRound4Message1 U1Kw1Cipher ?q b"
    using a b unfolding holds_def q .
  obtain oldindex opened alpha1 uu1 delta1 sigma1 where
    op: "mapM (round5_open env ?q oldindex) (enumerate 0 (s_idsign ?q)) = Ok opened"
    and al: "fill (int ?n) (map fst opened) = Ok alpha1" and uu: "fill (int ?n) (map snd opened) = Ok uu1"
    and d: "sum_shares (se_E env) (int ?n) alpha1 (t_betaU1 (s_temp ?q)) = Ok delta1"
    and s: "sum_shares (se_E env) (int ?n) uu1 (t_vU1 (s_temp ?q)) = Ok sigma1"
    and res: "t_delta1 (s_temp p') = Some delta1" "t_sigma1 (s_temp p') = Some sigma1"
    using run q
    by (auto simp: sign_round5_Start_def sign_begin_def sign_sample_Ok_iff Let_def sign_set_def sign_put_send_def
        sign_put_own_def sign_put_at_Ok_iff sign_send_def split: if_splits)
  note opened = mapM_round5_open [OF op a' b', unfolded q]
  have "alpha1 = map (\<lambda>j. Some (a j)) [0..<?n]" "uu1 = map (\<lambda>j. Some (b j)) [0..<?n]"
    using al uu by (auto simp: fill_def opened)
  then show "t_delta1 (s_temp p') = Some (((\<Sum>j<?n. a j) + (\<Sum>j<?n. t_betaU1 (s_temp p) ! j)) mod cN (se_E env))"
    "t_sigma1 (s_temp p') = Some (((\<Sum>j<?n. b j) + (\<Sum>j<?n. t_vU1 (s_temp p) ! j)) mod cN (se_E env))"
    using sum_shares_Ok d s unfolding res q by blast+
qed

section \<open>The exchange of rounds 4 and 5\<close>

text \<open>\<open>received ids g P p p' q i j\<close>: node \<open>j\<close>, in the state \<open>q\<close>, has in slot \<open>i\<close> the message of the kind \<open>P\<close> that
  node \<open>i\<close> made for it in the step from \<open>p\<close> to \<open>p'\<close>; the own message stays in the own slot.\<close>

definition received :: "int list \<Rightarrow> (SignTempData \<Rightarrow> sign_slots) \<Rightarrow> (SignMessage \<Rightarrow> bool) \<Rightarrow> SignDNode \<Rightarrow> SignDNode \<Rightarrow> SignDNode \<Rightarrow> nat \<Rightarrow> nat \<Rightarrow> bool" where
  "received ids g P p p' q i j \<longleftrightarrow> (\<exists>m. slice_get (g (s_temp q)) (int i) = Ok (Some m) \<and> P m \<and>
     (if i = j then slice_get (g (s_temp p')) (int i) = Ok (Some m)
      else m \<in> set (drop (length (s_out p)) (s_out p')) \<and> sm_ToID (sm_base m) = [to_id (Some (ids ! j))]))"

text \<open>A signer before round 4: its position, the nonce behind its ciphertext, its factors and its view of the others.\<close>

definition signer :: "int list \<Rightarrow> (nat \<Rightarrow> int) \<Rightarrow> (nat \<Rightarrow> int) \<Rightarrow> int \<Rightarrow> int \<Rightarrow> nat \<Rightarrow> SignDNode \<Rightarrow> bool" where
  "signer ids n k \<gamma> w i p \<longleftrightarrow> s_idsign p = ids \<and> b_kgid p = to_id (Some (ids ! i)) \<and> b_threshold p = int (length ids) \<and>
     t_u1K (s_temp p) = Some (k i) \<and> t_u1Gamma (s_temp p) = Some \<gamma> \<and> t_w1 (s_temp p) = Some w \<and> 0 \<le> k i \<and> 0 \<le> \<gamma> \<and> 0 \<le> w \<and>
     (\<forall>j < length ids. keyed p j (n j) \<and> asks p j (n j) (k j))"

lemma handed_good:
  assumes h: "handed g good (int i) ids (length ids) sent p'" and ids: "distinct ids" "i < length ids" "j < length ids"
    and m: "if i = j then slice_get (g (s_temp p')) (int i) = Ok (Some m) else m \<in> set sent \<and> sm_ToID (sm_base m) = [to_id (Some (ids ! j))]"
  shows "good j m"
proof (cases "i = j")
  case True
  then show ?thesis using h m ids(2) by (auto simp: handed_def)
next
  case False
  then obtain i' where "i' < length ids" "to_id (Some (ids ! i')) = to_id (Some (ids ! j))" "good i' m"
    using h m by (fastforce simp: handed_def)
  then show ?thesis using to_id_inj ids by (metis nth_eq_iff_index_eq)
qed

lemma to_id_not_Nil: "to_id (Some x) \<noteq> []"
proof
  assume "to_id (Some x) = []"
  moreover have "decode_id [] = Ok None" by code_simp
  ultimately show False using decode_to_id [of x] by simp
qed

lemma own_position:
  assumes "distinct ids" "i < length ids" "s_idsign p = ids"
  shows "sign_GetDNodeIDIndex p (to_id (Some (ids ! i))) = Ok (int i)"
  using index_of_found [OF assms(1,2), of 0] assms(3) decode_to_id
  by (simp add: sign_GetDNodeIDIndex_def to_id_not_Nil)

lemma exchange_sum:
  fixes k c :: "nat \<Rightarrow> int" and \<beta> :: "nat \<Rightarrow> int list"
  assumes "\<And>i. i < n \<Longrightarrow> d i = ((\<Sum>j<n. c j * k i + \<beta> j ! i) + (\<Sum>j<n. - (\<beta> i ! j))) mod m"
  shows "eqm m (\<Sum>i<n. d i) ((\<Sum>i<n. k i) * (\<Sum>i<n. c i))"
proof -
  have "eqm m (\<Sum>i<n. d i) (\<Sum>i<n. (\<Sum>j<n. c j * k i + \<beta> j ! i) + (\<Sum>j<n. - (\<beta> i ! j)))"
    by (rule eqm_sum) (simp add: assms)
  also have "(\<Sum>i<n. (\<Sum>j<n. c j * k i + \<beta> j ! i) + (\<Sum>j<n. - (\<beta> i ! j))) =
      (\<Sum>i<n. \<Sum>j<n. c j * k i) + ((\<Sum>i<n. \<Sum>j<n. \<beta> j ! i) - (\<Sum>i<n. \<Sum>j<n. \<beta> i ! j))"
    by (simp add: sum.distrib sum_negf sum_subtractf)
  also have "(\<Sum>i<n. \<Sum>j<n. \<beta> j ! i) = (\<Sum>i<n. \<Sum>j<n. \<beta> i ! j)" by (rule sum.swap)
  also have "(\<Sum>i<n. \<Sum>j<n. c j * k i) = (\<Sum>i<n. k i) * (\<Sum>i<n. c i)"
    by (subst sum_product) (simp only: mult.commute)
  finally show ?thesis by simp
qed

text \<open>What the messages of one signer stand for.\<close>

definition answers :: "int list \<Rightarrow> (SignTempData \<Rightarrow> sign_slots) \<Rightarrow> (SignMessage \<Rightarrow> bool) \<Rightarrow> (SignMessage \<Rightarrow> int option) \<Rightarrow>
    SignDNode \<Rightarrow> SignDNode \<Rightarrow> nat \<Rightarrow> (nat \<Rightarrow> int) \<Rightarrow> (nat \<Rightarrow> int) \<Rightarrow> bool" where
  "answers ids g P cipher p p' i n x \<longleftrightarrow> (\<forall>j < length ids. \<forall>m. P m \<longrightarrow>
     (if i = j then slice_get (g (s_temp p')) (int i) = Ok (Some m)
      else m \<in> set (drop (length (s_out p)) (s_out p')) \<and> sm_ToID (sm_base m) = [to_id (Some (ids ! j))]) \<longrightarrow>
     (\<exists>c. cipher m = Some c \<and> encrypts (n j) c (x j)))"

lemma received_holds:
  assumes "\<And>i. i < length ids \<Longrightarrow> received ids g P (p i) (p' i) q i j"
    and "\<And>i. i < length ids \<Longrightarrow> answers ids g P cipher (p i) (p' i) i n (x i)" "j < length ids"
    and "sd_U1PaillierSk (s_save q) = Some sk" "paillier_keys pk sk pr qr" "n j = pr * qr" "s_idsign q = ids"
    and "\<And>i. i < length ids \<Longrightarrow> 0 \<le> x i j \<and> x i j < n j"
  shows "holds g P cipher q (\<lambda>i. x i j)"
  unfolding holds_def
proof (intro allI impI)
  fix i assume "i < length (s_idsign q)"
  then have i: "i < length ids" using assms(7) by simp
  obtain m where m: "slice_get (g (s_temp q)) (int i) = Ok (Some m)" "P m"
    "if i = j then slice_get (g (s_temp (p' i))) (int i) = Ok (Some m)
     else m \<in> set (drop (length (s_out (p i))) (s_out (p' i))) \<and> sm_ToID (sm_base m) = [to_id (Some (ids ! j))]"
    using assms(1) [OF i] unfolding received_def by blast
  obtain c where "cipher m = Some c" "encrypts (n j) c (x i j)"
    using assms(2) [OF i, unfolded answers_def, rule_format, OF assms(3) m(2,3)] by blast
  then have "Decrypt (sd_U1PaillierSk (s_save q)) (cipher m) = Ok (x i j)"
    using Decrypt_encrypts [OF assms(5)] assms(4,6) assms(8) [OF i] by simp
  then show "\<exists>m. slice_get (g (s_temp q)) (int i) = Ok (Some m) \<and> P m \<and>
     Decrypt (sd_U1PaillierSk (s_save q)) (cipher m) = Ok (x i j)" using m(1,2) by blast
qed

lemma handed_answers:
  assumes "handed g (carries P cipher n x) (int i) ids (length ids) sent p'" "distinct ids" "i < length ids"
    and "s_out p' = s_out p @ as @ sent @ bs" "\<forall>m \<in> set as \<union> set bs. \<not> P m"
  shows "answers ids g P cipher p p' i n x"
  unfolding answers_def
proof (intro allI impI)
  fix j m assume j: "j < length ids" and m: "P m" "if i = j then slice_get (g (s_temp p')) (int i) = Ok (Some m)
      else m \<in> set (drop (length (s_out p)) (s_out p')) \<and> sm_ToID (sm_base m) = [to_id (Some (ids ! j))]"
  then have "if i = j then slice_get (g (s_temp p')) (int i) = Ok (Some m)
      else m \<in> set sent \<and> sm_ToID (sm_base m) = [to_id (Some (ids ! j))]"
    using assms(4,5) by (auto split: if_splits)
  then have "carries P cipher n x j m" by (rule handed_good [OF assms(1-3) j])
  then show "\<exists>c. cipher m = Some c \<and> encrypts (n j) c (x j)" by (simp add: carries_def)
qed

lemma handed_kind: "handed g (carries P cipher n x) i ids k sent p' \<Longrightarrow> m \<in> set sent \<Longrightarrow> P m"
  by (auto simp: handed_def carries_def)

lemma signer_answers:
  assumes "distinct ids" "i < length ids" "signer ids n k \<gamma> w i p" "sign_round4_Start env p = (p', Ok ())"
    and "\<And>j. j < length ids \<Longrightarrow> mask_bound (se_E env) (b_paillierkeylength p) \<le> n j"
  shows "\<exists>\<beta> \<nu>. length \<beta> = length ids \<and> length \<nu> = length ids \<and>
     (\<forall>x \<in> set \<beta> \<union> set \<nu>. 0 \<le> x \<and> x < mask_bound (se_E env) (b_paillierkeylength p)) \<and>
     t_betaU1 (s_temp p') = map uminus \<beta> \<and> t_vU1 (s_temp p') = map uminus \<nu> \<and>
     answers ids signRound4Messages is_SignRound4Message U1KGamma1Cipher p p' i n (\<lambda>j. \<gamma> * k j + \<beta> ! j) \<and>
     answers ids signRound4Messages1 is_SignRound4Message1 U1Kw1Cipher p p' i n (\<lambda>j. w * k j + \<nu> ! j)"
proof -
  have sg: "s_idsign p = ids" "b_kgid p = to_id (Some (ids ! i))" "nat (b_threshold p) = length ids"
    "t_u1Gamma (s_temp p) = Some \<gamma>" "t_w1 (s_temp p) = Some w" "0 \<le> \<gamma>" "0 \<le> w"
    "\<And>j. j < length ids \<Longrightarrow> keyed p j (n j) \<and> asks p j (n j) (k j)"
    using assms(3) by (auto simp: signer_def)
  have cur: "sign_GetDNodeIDIndex p (b_kgid p) = Ok (int i)"
    using own_position [OF assms(1,2) sg(1)] sg(2) by simp
  show ?thesis
  proof (rule round4_Start_sends [OF assms(4) sg(4-7), unfolded sg(1), of n k])
    show "nat (b_threshold p) = length ids" by (rule sg(3))
    show "keyed p j (n j) \<and> asks p j (n j) (k j) \<and> mask_bound (se_E env) (b_paillierkeylength p) \<le> n j"
      if "j < length ids" for j using sg(8) assms(5) that by blast
  next
    fix c \<beta> \<nu> sent sent1
    assume "sign_GetDNodeIDIndex p (b_kgid p) = Ok c" "length \<beta> = length ids" "length \<nu> = length ids"
      and r: "\<forall>x\<in>set \<beta> \<union> set \<nu>. 0 \<le> x \<and> x < mask_bound (se_E env) (b_paillierkeylength p)"
      "t_betaU1 (s_temp p') = map uminus \<beta>" "t_vU1 (s_temp p') = map uminus \<nu>" and out: "s_out p' = s_out p @ sent @ sent1"
      and h: "handed signRound4Messages (carries is_SignRound4Message U1KGamma1Cipher n (\<lambda>j. \<gamma> * k j + \<beta> ! j)) c ids (length ids) sent p'"
      "handed signRound4Messages1 (carries is_SignRound4Message1 U1Kw1Cipher n (\<lambda>j. w * k j + \<nu> ! j)) c ids (length ids) sent1 p'"
    then have c: "c = int i" using cur by simp
    have "\<forall>m \<in> set [] \<union> set sent1. \<not> is_SignRound4Message m" "\<forall>m \<in> set sent \<union> set []. \<not> is_SignRound4Message1 m"
      using handed_kind [OF h(1)] handed_kind [OF h(2)] by (auto dest: SignMessage.distinct_disc)
    then show ?thesis
      using handed_answers [OF h(1) [unfolded c] assms(1,2), of p "[]" sent1]
        handed_answers [OF h(2) [unfolded c] assms(1,2), of p sent "[]"] out r \<open>length \<beta> = length ids\<close> \<open>length \<nu> = length ids\<close>
      by auto
  qed
qed

text \<open>C3: the share conversion: when the signers run the rounds 4 and 5 on ciphertexts of their nonces
  \<open>k\<close> and every message reaches the slot of its sender, the numbers \<^verbatim>\<open>delta1\<close> add up to the product of the
  sums of the nonces and of the \<open>\<gamma>\<close>, and the numbers \<^verbatim>\<open>sigma1\<close> to the product of the sums of the nonces
  and of the weights \<open>w\<close>, modulo the group order.  The masks leave room for the products below the
  Paillier moduli.\<close>

theorem presigning_products:
  assumes ids: "distinct ids" and N: "N = length ids"
    and before: "\<And>i. i < N \<Longrightarrow> signer ids n k (\<gamma> i) (w i) i (p i) \<and> sign_round4_Start env (p i) = (p' i, Ok ())"
    and room: "\<And>i j. i < N \<Longrightarrow> j < N \<Longrightarrow> 0 \<le> mask_bound (se_E env) (b_paillierkeylength (p i)) \<and>
      \<gamma> i * k j + mask_bound (se_E env) (b_paillierkeylength (p i)) \<le> n j \<and>
      w i * k j + mask_bound (se_E env) (b_paillierkeylength (p i)) \<le> n j"
    and transport: "\<And>i j. i < N \<Longrightarrow> j < N \<Longrightarrow> received ids signRound4Messages is_SignRound4Message (p i) (p' i) (q j) i j \<and>
      received ids signRound4Messages1 is_SignRound4Message1 (p i) (p' i) (q j) i j"
    and same: "\<And>j. j < N \<Longrightarrow> s_idsign (q j) = ids \<and> b_threshold (q j) = int N \<and>
      t_betaU1 (s_temp (q j)) = t_betaU1 (s_temp (p' j)) \<and> t_vU1 (s_temp (q j)) = t_vU1 (s_temp (p' j))"
    and keys: "\<And>j. j < N \<Longrightarrow> sd_U1PaillierSk (s_save (q j)) = Some (sk j) \<and> paillier_keys (pk j) (sk j) (pr j) (qr j) \<and> n j = pr j * qr j"
    and after: "\<And>j. j < N \<Longrightarrow> sign_round5_Start env (q j) = (q' j, Ok ())"
  shows "eqm (cN (se_E env)) (\<Sum>j<N. the (t_delta1 (s_temp (q' j)))) ((\<Sum>j<N. k j) * (\<Sum>j<N. \<gamma> j)) \<and>
    eqm (cN (se_E env)) (\<Sum>j<N. the (t_sigma1 (s_temp (q' j)))) ((\<Sum>j<N. k j) * (\<Sum>j<N. w j))"
proof -
  let ?M = "\<lambda>i. mask_bound (se_E env) (b_paillierkeylength (p i))"
  have pos: "0 \<le> \<gamma> i" "0 \<le> w i" "0 \<le> k i" if "i < N" for i using before [OF that] by (simp_all add: signer_def)
  have room': "?M i \<le> n j" if "i < N" "j < N" for i j
    using room [OF that] mult_nonneg_nonneg [OF pos(1) [OF that(1)] pos(3) [OF that(2)]] by simp
  have "\<forall>i < N. \<exists>\<beta> \<nu>. length \<beta> = N \<and> length \<nu> = N \<and> (\<forall>x \<in> set \<beta> \<union> set \<nu>. 0 \<le> x \<and> x < ?M i) \<and>
     t_betaU1 (s_temp (p' i)) = map uminus \<beta> \<and> t_vU1 (s_temp (p' i)) = map uminus \<nu> \<and>
     answers ids signRound4Messages is_SignRound4Message U1KGamma1Cipher (p i) (p' i) i n (\<lambda>j. \<gamma> i * k j + \<beta> ! j) \<and>
     answers ids signRound4Messages1 is_SignRound4Message1 U1Kw1Cipher (p i) (p' i) i n (\<lambda>j. w i * k j + \<nu> ! j)"
    using signer_answers [OF ids] before room' unfolding N by blast
  then obtain \<beta> \<nu> where "\<forall>i < N. length (\<beta> i) = N \<and> length (\<nu> i) = N \<and> (\<forall>x \<in> set (\<beta> i) \<union> set (\<nu> i). 0 \<le> x \<and> x < ?M i) \<and>
     t_betaU1 (s_temp (p' i)) = map uminus (\<beta> i) \<and> t_vU1 (s_temp (p' i)) = map uminus (\<nu> i) \<and>
     answers ids signRound4Messages is_SignRound4Message U1KGamma1Cipher (p i) (p' i) i n (\<lambda>j. \<gamma> i * k j + \<beta> i ! j) \<and>
     answers ids signRound4Messages1 is_SignRound4Message1 U1Kw1Cipher (p i) (p' i) i n (\<lambda>j. w i * k j + \<nu> i ! j)"
    unfolding choice_iff' by blast
  then have len: "\<And>i. i < N \<Longrightarrow> length (\<beta> i) = N \<and> length (\<nu> i) = N"
    and range: "\<And>i. i < N \<Longrightarrow> \<forall>x \<in> set (\<beta> i) \<union> set (\<nu> i). 0 \<le> x \<and> x < ?M i"
    and neg: "\<And>i. i < N \<Longrightarrow> t_betaU1 (s_temp (p' i)) = map uminus (\<beta> i)" "\<And>i. i < N \<Longrightarrow> t_vU1 (s_temp (p' i)) = map uminus (\<nu> i)"
    and ans: "\<And>i. i < N \<Longrightarrow> answers ids signRound4Messages is_SignRound4Message U1KGamma1Cipher (p i) (p' i) i n (\<lambda>j. \<gamma> i * k j + \<beta> i ! j)"
      "\<And>i. i < N \<Longrightarrow> answers ids signRound4Messages1 is_SignRound4Message1 U1Kw1Cipher (p i) (p' i) i n (\<lambda>j. w i * k j + \<nu> i ! j)"
    by blast+
  have mem: "\<beta> i ! j \<in> set (\<beta> i) \<union> set (\<nu> i)" "\<nu> i ! j \<in> set (\<beta> i) \<union> set (\<nu> i)" if "i < N" "j < N" for i j
    using len [OF that(1)] that(2) by auto
  have small: "0 \<le> \<gamma> i * k j + \<beta> i ! j \<and> \<gamma> i * k j + \<beta> i ! j < n j" "0 \<le> w i * k j + \<nu> i ! j \<and> w i * k j + \<nu> i ! j < n j"
    if "i < N" "j < N" for i j
  proof -
    have "0 \<le> \<gamma> i * k j" "0 \<le> w i * k j" using pos that by simp_all
    moreover have "0 \<le> \<beta> i ! j \<and> \<beta> i ! j < ?M i" "0 \<le> \<nu> i ! j \<and> \<nu> i ! j < ?M i"
      using range [OF that(1)] mem [OF that] by blast+
    ultimately show "0 \<le> \<gamma> i * k j + \<beta> i ! j \<and> \<gamma> i * k j + \<beta> i ! j < n j"
      "0 \<le> w i * k j + \<nu> i ! j \<and> w i * k j + \<nu> i ! j < n j" using room [OF that] by linarith+
  qed
  have d: "the (t_delta1 (s_temp (q' j))) = ((\<Sum>i<N. \<gamma> i * k j + \<beta> i ! j) + (\<Sum>i<N. - (\<beta> j ! i))) mod cN (se_E env)"
    and s: "the (t_sigma1 (s_temp (q' j))) = ((\<Sum>i<N. w i * k j + \<nu> i ! j) + (\<Sum>i<N. - (\<nu> j ! i))) mod cN (se_E env)"
    if j: "j < N" for j
  proof -
    note kj = keys [OF j] and sj = same [OF j]
    have h1: "holds signRound4Messages is_SignRound4Message U1KGamma1Cipher (q j) (\<lambda>i. \<gamma> i * k j + \<beta> i ! j)"
      by (rule received_holds [where x = "\<lambda>i j. \<gamma> i * k j + \<beta> i ! j", OF _ ans(1) [unfolded N]])
        (use transport [OF _ j] small(1) [OF _ j] kj sj j in \<open>auto simp: N\<close>)
    have h2: "holds signRound4Messages1 is_SignRound4Message1 U1Kw1Cipher (q j) (\<lambda>i. w i * k j + \<nu> i ! j)"
      by (rule received_holds [where x = "\<lambda>i j. w i * k j + \<nu> i ! j", OF _ ans(2) [unfolded N]])
        (use transport [OF _ j] small(2) [OF _ j] kj sj j in \<open>auto simp: N\<close>)
    have th: "b_threshold (q j) = int (length (s_idsign (q j)))" "length (s_idsign (q j)) = N" using sj N by simp_all
    have "(\<Sum>i<N. t_betaU1 (s_temp (q j)) ! i) = (\<Sum>i<N. - (\<beta> j ! i))" "(\<Sum>i<N. t_vU1 (s_temp (q j)) ! i) = (\<Sum>i<N. - (\<nu> j ! i))"
      using sj neg [OF j] len [OF j] by (auto intro!: sum.cong)
    then show "the (t_delta1 (s_temp (q' j))) = ((\<Sum>i<N. \<gamma> i * k j + \<beta> i ! j) + (\<Sum>i<N. - (\<beta> j ! i))) mod cN (se_E env)"
      "the (t_sigma1 (s_temp (q' j))) = ((\<Sum>i<N. w i * k j + \<nu> i ! j) + (\<Sum>i<N. - (\<nu> j ! i))) mod cN (se_E env)"
      using round5_Start_shares [OF after [OF j] th(1) h1 h2] unfolding th(2) by simp_all
  qed
  show ?thesis
    using exchange_sum [where c = \<gamma> and k = k and \<beta> = \<beta>, OF d] exchange_sum [where c = w and k = k and \<beta> = \<nu>, OF s] by blast
qed

section \<open>Round 7: the point of the signature\<close>

lemma Add_mulG_None:
  assumes E: "ec_laws E" and a: "0 < a" "a < cN E" and b: "0 < b" "b < cN E" and "a = b \<or> a + b = cN E"
  shows "Add E (Some (mulG E a)) (Some (mulG E b)) = Ok None"
proof -
  note L = ec_lawsD [OF E]
  have x: "fst (mulG E b) = fst (mulG E a)"
  proof (cases "a = b")
    case False
    then have "b = cN E - a" using assms(6) by simp
    then show ?thesis using L(13) [OF a] by simp
  qed simp
  have inv: "ModInverse 0 (cP E) = None" using ModInverse_None_iff [of "cP E" 0] L(1) by simp
  obtain x y y' where "mulG E a = (x, y)" "mulG E b = (x, y')" using x by (metis prod.collapse)
  then show ?thesis using Add_affine [OF L(1,2)] inv by (simp add: affine_add_def)
qed

text \<open>A sum of multiples of the base point, when it is a point, is the multiple by the sum.\<close>

lemma foldM_Add:
  assumes E: "ec_laws E"
  shows "0 < a \<Longrightarrow> a < cN E \<Longrightarrow> \<forall>b \<in> set bs. 0 < b \<and> b < cN E \<Longrightarrow>
    foldM (Add E) (Some (mulG E a)) (map (\<lambda>b. Some (mulG E b)) bs) = Ok (Some P) \<Longrightarrow>
    0 < (a + sum_list bs) mod cN E \<and> P = mulG E ((a + sum_list bs) mod cN E)"
proof (induction bs arbitrary: a)
  case Nil
  then show ?case by simp
next
  case (Cons b bs)
  have ok: "a \<noteq> b \<and> a + b \<noteq> cN E"
  proof (rule ccontr)
    assume "\<not> (a \<noteq> b \<and> a + b \<noteq> cN E)"
    then have "Add E (Some (mulG E a)) (Some (mulG E b)) = Ok None" using Add_mulG_None [OF E] Cons.prems by auto
    then show False using Cons.prems(4) by (cases bs) (auto simp: Add_def)
  qed
  let ?c = "(a + b) mod cN E"
  have c: "0 < ?c" "?c < cN E" using sum_range Cons.prems ok by auto
  have "Add E (Some (mulG E a)) (Some (mulG E b)) = Ok (Some (mulG E ?c))"
    using Add_mulG [OF E] Cons.prems ok by auto
  then have "0 < (?c + sum_list bs) mod cN E \<and> P = mulG E ((?c + sum_list bs) mod cN E)"
    using Cons.IH [OF c] Cons.prems by auto
  moreover have "(?c + sum_list bs) mod cN E = (a + sum_list (b # bs)) mod cN E"
    by (simp add: mod_add_left_eq add.assoc)
  ultimately show ?case by simp
qed

lemma sum_points_mulG:
  assumes E: "ec_laws E" and n: "0 < n" and g: "\<And>i. i < n \<Longrightarrow> 0 < \<gamma> i \<and> \<gamma> i < cN E"
    and s: "sum_points E (map (\<lambda>i. Some (mulG E (\<gamma> i))) [0..<n]) = Ok (Some P)"
  shows "0 < (\<Sum>i<n. \<gamma> i) mod cN E" "P = mulG E ((\<Sum>i<n. \<gamma> i) mod cN E)"
proof -
  have upt: "[0..<n] = 0 # [1..<n]" using n by (simp add: upt_conv_Cons)
  have "foldM (Add E) (Some (mulG E (\<gamma> 0))) (map (\<lambda>b. Some (mulG E b)) (map \<gamma> [1..<n])) = Ok (Some P)"
    using s by (simp add: sum_points_def upt comp_def)
  then have "0 < (\<gamma> 0 + sum_list (map \<gamma> [1..<n])) mod cN E \<and> P = mulG E ((\<gamma> 0 + sum_list (map \<gamma> [1..<n])) mod cN E)"
    using g n by (intro foldM_Add [OF E]) auto
  moreover have "\<gamma> 0 + sum_list (map \<gamma> [1..<n]) = (\<Sum>i<n. \<gamma> i)" unfolding sum_upt [symmetric] upt by simp
  ultimately show "0 < (\<Sum>i<n. \<gamma> i) mod cN E" "P = mulG E ((\<Sum>i<n. \<gamma> i) mod cN E)" by simp_all
qed

lemma round7_gammas_mulG:
  assumes E: "ec_laws (se_E env)" and n: "0 < n"
    and g: "\<And>i. i < n \<Longrightarrow> gamma_point env p i = Ok (pair_slice (Some (mulG (se_E env) (\<gamma> i))), pf i, ok i) \<and> 0 < \<gamma> i \<and> \<gamma> i < cN (se_E env)"
    and s: "round7_gammas env p n = Ok (Some P)"
  shows "0 < (\<Sum>i<n. \<gamma> i) mod cN (se_E env)" "P = mulG (se_E env) ((\<Sum>i<n. \<gamma> i) mod cN (se_E env))"
proof -
  have "mapM (\<lambda>k. bindr (gamma_point env p k) (\<lambda>(u1GammaG, _, _). slice_pair u1GammaG)) [0..<n] =
      Ok (map (\<lambda>i. Some (mulG (se_E env) (\<gamma> i))) [0..<n])"
    using g by (intro mapM_Ok_map) (auto simp: slice_pair_def slice_get_def)
  then have "sum_points (se_E env) (map (\<lambda>i. Some (mulG (se_E env) (\<gamma> i))) [0..<n]) = Ok (Some P)"
    using s by (simp add: round7_gammas_def)
  then show "0 < (\<Sum>i<n. \<gamma> i) mod cN (se_E env)" "P = mulG (se_E env) ((\<Sum>i<n. \<gamma> i) mod cN (se_E env))"
    using sum_points_mulG [OF E n] g by blast+
qed

lemma round7_R_mulG:
  assumes E: "ec_laws (se_E env)" and R: "round7_R env p (Some (mulG (se_E env) g)) = Ok R"
    and g: "0 < g" "g < cN (se_E env)" and d: "t_deltaSum (s_temp p) = Some \<delta>"
  shows "\<exists>\<rho>. 0 < \<rho> \<and> \<rho> < cN (se_E env) \<and> R = Some (mulG (se_E env) \<rho>) \<and> eqm (cN (se_E env)) (\<rho> * \<delta>) g"
proof -
  let ?N = "cN (se_E env)"
  note L = ec_lawsD [OF E]
  have N: "1 < ?N" by (rule is_prime_gt_1 [OF L(4)])
  obtain i where i: "ModInverse \<delta> ?N = Some i" "ScalarMult (se_E env) (Some (mulG (se_E env) g)) (Bytes i) = Ok R"
    using R d by (auto simp: round7_R_def split: option.splits prod.splits if_splits)
  have inv: "eqm ?N (\<delta> * i) 1" by (rule ModInverse_eqm [OF _ i(1)]) (use N in simp)
  have range: "0 \<le> i" "i < ?N" using ModInverse_Some [OF _ i(1)] N by auto
  have "i \<noteq> 0" using inv N by (auto simp: eqm_mod_iff)
  then have pos: "0 < i" using range by simp
  let ?\<rho> = "g * i mod ?N"
  have \<rho>: "0 < ?\<rho>" "?\<rho> < ?N" using prime_mult_range [OF L(4) g pos range(2)] by auto
  have "R = Some (mulG (se_E env) ?\<rho>)" using i(2) ScalarMult_mulG [OF E g pos range(2)] by simp
  moreover have "eqm ?N (?\<rho> * \<delta>) (g * i * \<delta>)" by (intro eqm_mult eqm_refl) simp
  then have "eqm ?N (?\<rho> * \<delta>) (g * (\<delta> * i))" by (simp add: ac_simps)
  then have "eqm ?N (?\<rho> * \<delta>) (g * 1)" using eqm_trans [OF _ eqm_mult [OF eqm_refl inv]] by blast
  ultimately show ?thesis using \<rho> by auto
qed

lemma round7_Start_R:
  assumes "sign_round7_Start env p = (p', Ok ())"
  obtains s P where "s_temp s = s_temp p" "round7_gammas env s (length (s_idsign p)) = Ok P" "round7_R env s P = Ok (t_deltaGammaG (s_temp p'))"
proof -
  let ?q = "sign_ResetOK (p\<lparr>b_number := 7, b_started := True\<rparr>)"
  have q: "s_idsign ?q = s_idsign p" "s_temp ?q = s_temp p" by (simp_all add: sign_ResetOK_def)
  obtain P R where "round7_gammas env ?q (length (s_idsign ?q)) = Ok P" "round7_R env ?q P = Ok R" "t_deltaGammaG (s_temp p') = R"
    using assms
    by (auto simp: sign_round7_Start_def sign_begin_def sign_sample_Ok_iff Let_def sign_set_def sign_put_send_def
        sign_put_own_def sign_put_at_Ok_iff sign_send_def split: if_splits option.splits)
  then show ?thesis using that [of ?q P] q by simp
qed

lemma gamma_point_cong: "s_temp s = s_temp p \<Longrightarrow> gamma_point env s = gamma_point env p"
  by (simp add: gamma_point_def fun_eq_iff)

text \<open>C4: round 7 computes the point of the signature: when the commitments of the signers open to the
  multiples of the base point by their \<open>\<gamma>\<close>, and the sum of the \<^verbatim>\<open>delta1\<close> is the product of the sums of the nonces
  \<open>k\<close> and of the \<open>\<gamma>\<close>, the point \<open>R\<close> is a multiple by a number \<open>\<rho>\<close> that inverts the sum of the nonces; a
  number \<open>\<sigma>\<close> that is the product of the sum of the nonces with \<open>x\<close>, times \<open>\<rho>\<close>, is \<open>x\<close>.\<close>

theorem round7_inverts_nonce:
  assumes "ec_laws (se_E env)" "sign_round7_Start env p = (p', Ok ())" "0 < length (s_idsign p)"
    and "\<And>i. i < length (s_idsign p) \<Longrightarrow> gamma_point env p i = Ok (pair_slice (Some (mulG (se_E env) (\<gamma> i))), pf i, ok i) \<and>
      0 < \<gamma> i \<and> \<gamma> i < cN (se_E env)"
    and "t_deltaSum (s_temp p) = Some \<delta>" "eqm (cN (se_E env)) \<delta> (k * (\<Sum>i<length (s_idsign p). \<gamma> i))"
  shows "\<exists>\<rho>. 0 < \<rho> \<and> \<rho> < cN (se_E env) \<and> t_deltaGammaG (s_temp p') = Some (mulG (se_E env) \<rho>) \<and>
     eqm (cN (se_E env)) (k * \<rho>) 1 \<and>
     (\<forall>\<sigma> x. eqm (cN (se_E env)) \<sigma> (k * x) \<longrightarrow> eqm (cN (se_E env)) (\<sigma> * \<rho>) x)"
proof -
  let ?N = "cN (se_E env)" and ?g = "\<Sum>i<length (s_idsign p). \<gamma> i"
  obtain s P where s: "s_temp s = s_temp p" "round7_gammas env s (length (s_idsign p)) = Ok P"
    "round7_R env s P = Ok (t_deltaGammaG (s_temp p'))"
    using round7_Start_R [OF assms(2)] .
  have "P \<noteq> None" using s(3) assms(5) s(1) by (auto simp: round7_R_def ScalarMult_def split: option.splits if_splits)
  then obtain Q where Q: "P = Some Q" by blast
  have g: "0 < ?g mod ?N" "Q = mulG (se_E env) (?g mod ?N)"
    using round7_gammas_mulG [OF assms(1,3), of s \<gamma> pf ok Q] assms(4) s(2) by (simp_all add: gamma_point_cong [OF s(1)] Q)
  have N: "0 < ?N" using is_prime_gt_1 [OF ec_lawsD(4) [OF assms(1)]] by simp
  obtain \<rho> where \<rho>: "0 < \<rho>" "\<rho> < ?N" "t_deltaGammaG (s_temp p') = Some (mulG (se_E env) \<rho>)" "eqm ?N (\<rho> * \<delta>) (?g mod ?N)"
    using round7_R_mulG [OF assms(1) s(3) [unfolded Q g(2)] g(1)] s(1) assms(5) N by auto
  have "eqm ?N (?g * (k * \<rho>)) (\<delta> * \<rho>)"
    using eqm_sym [OF eqm_mult [OF assms(6) eqm_refl [of ?N \<rho>]]] by (simp add: ac_simps)
  also have "eqm ?N (\<delta> * \<rho>) (?g * 1)" using \<rho>(4) by (simp add: mult.commute)
  finally have gk: "eqm ?N (?g * (k * \<rho>)) (?g * 1)" .
  have "\<not> ?N dvd ?g" using g(1) by (metis dvd_imp_mod_0 less_irrefl)
  then have co: "coprime ?g ?N" using prime_coprime [OF ec_lawsD(4) [OF assms(1)]] coprime_commute by blast
  have inv: "eqm ?N (k * \<rho>) 1" by (rule eqm_cancel_coprime [OF N co gk])
  have "eqm ?N (\<sigma> * \<rho>) x" if "eqm ?N \<sigma> (k * x)" for \<sigma> x
  proof -
    have "eqm ?N (\<sigma> * \<rho>) (x * (k * \<rho>))" using eqm_mult [OF that eqm_refl [of ?N \<rho>]] by (simp add: ac_simps)
    also have "eqm ?N \<dots> (x * 1)" by (rule eqm_mult [OF eqm_refl inv])
    finally show ?thesis by simp
  qed
  then show ?thesis using \<rho>(1-3) inv by blast
qed

section \<open>Round 1 of all signers\<close>

lemma round1_Start_weight:
  assumes run: "sign_round1_Start env p = (p', Ok ())" and ids: "distinct ids" "i < length ids" "s_idsign p = ids"
    and p: "b_kgid p = to_id (Some (ids ! i))" "sd_SkU1 (s_save p) = Some sk"
  shows "\<exists>w. round1_w1 (se_E env) ids (int i) (Some sk) = Ok w \<and> t_w1 (s_temp p') = Some w"
proof -
  let ?q = "sign_ResetOK (p\<lparr>b_number := 1, b_started := True\<rparr>)"
  have q: "s_idsign ?q = ids" "b_kgid ?q = to_id (Some (ids ! i))" "s_save ?q = s_save p"
    using ids p by (simp_all add: sign_ResetOK_def)
  have cur: "sign_GetDNodeIDIndex ?q (b_kgid ?q) = Ok (int i)" using own_position [OF ids(1,2) q(1)] q(2) by simp
  then obtain w where w: "round1_w1 (se_E env) ids (int i) (Some sk) = Ok w"
    using run p(2) q by (auto simp: sign_round1_Start_def sign_begin_def Let_def split: if_splits)
  then have "t_w1 (s_temp p') = Some w"
    using run p(2) q cur
    by (auto simp: sign_round1_Start_def sign_begin_def Let_def sign_put_send_def sign_put_own_def sign_put_at_Ok_iff
        sign_send_def sign_sample_Ok_iff sign_set_def split: if_splits option.splits)
  then show ?thesis using w by blast
qed

text \<open>C5: round 1 turns the shares of a key into additive shares: when the saved keys of the signers are
  values of a polynomial with at most as many coefficients as there are signers, and round 1 completes at
  all signers, the weights they keep add up to the shared key modulo the group order.\<close>

theorem round1_weights:
  assumes key: "1 < cN (se_E env)" "poly \<noteq> []" "length poly \<le> length ids" "unit_diffs (cN (se_E env)) ids" "distinct ids"
    and run: "\<And>i. i < length ids \<Longrightarrow> sign_round1_Start env (p i) = (p' i, Ok ()) \<and> s_idsign (p i) = ids \<and>
      b_kgid (p i) = to_id (Some (ids ! i)) \<and> sd_SkU1 (s_save (p i)) = Some (sk i) \<and>
      eqm (cN (se_E env)) (sk i) (peval poly (ids ! i))"
  shows "\<exists>w. (\<forall>i < length ids. t_w1 (s_temp (p' i)) = Some (w i)) \<and>
     (\<Sum>i < length ids. w i) mod cN (se_E env) = hd poly mod cN (se_E env)"
proof -
  obtain w where w: "\<forall>i < length ids. round1_w1 (se_E env) ids (int i) (Some (sk i)) = Ok (w i)"
    "(\<Sum>i < length ids. w i) mod cN (se_E env) = hd poly mod cN (se_E env)"
    using weights_add_up [OF key(1-4), of sk] run by blast
  have "t_w1 (s_temp (p' i)) = Some (w i)" if "i < length ids" for i
    using round1_Start_weight [of env "p i" "p' i" ids i "sk i"] run [OF that] key(5) that w(1) by auto
  then show ?thesis using w(2) by blast
qed

section \<open>Rounds 10 and 11: the signature\<close>

lemma round10_Start_share:
  assumes run: "sign_round10_Start env p = (p', Ok ())" and ids: "distinct ids" "i < length ids" "s_idsign p = ids"
    and id: "b_kgid p = to_id (Some (ids ! i))"
    and pre: "s_predata p = Some \<lparr>pre_K1 = Some k, pre_R = Some r, pre_Ry = ry, pre_Sigma1 = Some \<sigma>\<rparr>" "s_txhash p = Some m"
  shows "\<exists>b. slice_get (signRound9Messages (s_temp p')) (int i) = Ok (Some (SignRound9Message b (Some ((m * k + r * \<sigma>) mod cN (se_E env)))))"
proof -
  let ?q = "sign_ResetOK (p\<lparr>b_number := 10, b_started := True\<rparr>)"
  have q: "s_idsign ?q = ids" "b_kgid ?q = to_id (Some (ids ! i))" "s_predata ?q = s_predata p" "s_txhash ?q = s_txhash p"
    using ids(3) id by (simp_all add: sign_ResetOK_def)
  have "sign_GetDNodeIDIndex ?q (b_kgid ?q) = Ok (int i)" using own_position [OF ids(1,2) q(1)] q(2) by simp
  then show ?thesis
    using run pre q(3,4)
    by (auto simp: sign_round10_Start_def sign_begin_def Let_def sign_put_send_def sign_put_own_def sign_put_at_Ok_iff
        sign_send_def slice_get_Ok_iff split: if_splits)
qed

lemma sum_messages_Ok:
  assumes n: "0 < n" and ms: "\<And>i. i < n \<Longrightarrow> \<exists>m. slice_get ms (int i) = Ok (Some m) \<and> P m \<and> f m = Some (x i)"
  shows "sum_messages P f ms n = Ok (\<Sum>i<n. x i)"
proof -
  have all: "mapM (\<lambda>k. bindr (slice_get ms (int k)) (\<lambda>s. bindr (got P s) (\<lambda>m. deref (f m)))) [1..<n] = Ok (map x [1..<n])"
    using ms by (intro mapM_Ok_map) (fastforce simp: got_def)
  obtain m where m: "slice_get ms 0 = Ok (Some m)" "P m" "f m = Some (x 0)" using ms [OF n] by auto
  have "x 0 + sum_list (map x [1..<n]) = (\<Sum>i<n. x i)" unfolding sum_upt [symmetric] using n by (simp add: upt_conv_Cons)
  then show ?thesis using all m by (simp add: sum_messages_def got_def)
qed

lemma signature_equation:
  assumes "eqm N (K * \<rho>) 1" "eqm N (\<Sigma> * \<rho>) x"
  shows "eqm N ((m * K + r * \<Sigma>) mod N * \<rho>) (m + r * x)"
proof -
  have "eqm N ((m * K + r * \<Sigma>) mod N * \<rho>) ((m * K + r * \<Sigma>) * \<rho>)" by (intro eqm_mult eqm_refl) simp
  also have "(m * K + r * \<Sigma>) * \<rho> = m * (K * \<rho>) + r * (\<Sigma> * \<rho>)" by (simp add: algebra_simps)
  also have "eqm N \<dots> (m * 1 + r * x)" by (intro eqm_add eqm_mult eqm_refl assms)
  finally show ?thesis by simp
qed

text \<open>C2: finalising produces a valid signature: from presigning data with nonces \<open>k\<close> whose sum is inverted by
  the logarithm \<open>\<rho>\<close> of the point \<open>R\<close>, and with \<^verbatim>\<open>sigma\<close> numbers whose sum times \<open>\<rho>\<close> is the private key \<open>x\<close>, the
  rounds 10 and 11 hand over one number \<open>s\<close>; unless \<open>s\<close> is 0, the pair of the abscissa of \<open>R\<close> and of \<open>s\<close>
  (or of \<open>N - s\<close>, whichever is smaller) is accepted by the verification for the public key of \<open>x\<close>.\<close>

theorem signing_correct:
  assumes E: "ec_laws (se_E env)" and ids: "distinct ids" "0 < length ids"
    and share: "\<And>i. i < length ids \<Longrightarrow> sign_round10_Start env (p i) = (p' i, Ok ()) \<and> s_idsign (p i) = ids \<and>
      b_kgid (p i) = to_id (Some (ids ! i)) \<and> s_txhash (p i) = Some m \<and>
      s_predata (p i) = Some \<lparr>pre_K1 = Some (k i), pre_R = Some r, pre_Ry = ry, pre_Sigma1 = Some (\<sigma> i)\<rparr>"
    and transport: "\<And>i. i < length ids \<Longrightarrow>
      slice_get (signRound9Messages (s_temp q)) (int i) = slice_get (signRound9Messages (s_temp (p' i))) (int i)"
    and final: "\<not> b_started q" "s_idsign q = ids" "s_finalizeend q = []"
    and presign: "0 < \<rho>" "\<rho> < cN (se_E env)" "r = fst (mulG (se_E env) \<rho>)"
      "eqm (cN (se_E env)) ((\<Sum>i<length ids. k i) * \<rho>) 1" "eqm (cN (se_E env)) ((\<Sum>i<length ids. \<sigma> i) * \<rho>) x"
    and key: "0 < x" "x < cN (se_E env)" "fst (mulG (se_E env) x) \<noteq> 0"
    and msg: "SetString16 message = Some m" "m mod cN (se_E env) \<noteq> 0" "(m - r * x) mod cN (se_E env) \<noteq> 0"
    and r: "0 < r" "r < cN (se_E env)"
  shows "\<exists>q' s. sign_round11_Start env q = (q', Ok ()) \<and> s_finalizeend q' = [s] \<and> (s = 0 \<or>
     DECDSASignVerifyRSV (se_E env) (Some r) (Some (snd (justify_s (se_E env) s))) v message
       (Some (fst (mulG (se_E env) x))) (Some (snd (mulG (se_E env) x))) = Ok True)"
proof -
  let ?N = "cN (se_E env)" and ?n = "length ids"
  let ?s = "(\<Sum>i<?n. (m * k i + r * \<sigma> i) mod ?N) mod ?N"
  have N: "0 < ?N" using key by simp
  let ?q = "sign_ResetOK (q\<lparr>b_number := 11, b_started := True\<rparr>)"
  have q: "length (s_idsign ?q) = ?n" using final(2) by (simp add: sign_ResetOK_def)
  have "\<exists>msg. slice_get (signRound9Messages (s_temp ?q)) (int i) = Ok (Some msg) \<and> is_SignRound9Message msg \<and>
      Us1 msg = Some ((m * k i + r * \<sigma> i) mod ?N)" if i: "i < ?n" for i
    using round10_Start_share [of env "p i" "p' i" ids i "k i" r ry "\<sigma> i" m] share [OF i] transport [OF i] ids(1) i
    by (auto simp: sign_ResetOK_def)
  then have "sum_messages is_SignRound9Message Us1 (signRound9Messages (s_temp ?q)) (length (s_idsign ?q)) =
      Ok (\<Sum>i<?n. (m * k i + r * \<sigma> i) mod ?N)"
    unfolding q by (rule sum_messages_Ok [OF ids(2)])
  then have run: "sign_round11_Start env q = (?q\<lparr>s_finalizeend := s_finalizeend ?q @ [?s]\<rparr>, Ok ())"
    using final(1) by (simp add: sign_round11_Start_def sign_begin_def)
  have "eqm ?N (\<Sum>i<?n. (m * k i + r * \<sigma> i) mod ?N) (\<Sum>i<?n. m * k i + r * \<sigma> i)" by (rule eqm_sum) simp
  also have "(\<Sum>i<?n. m * k i + r * \<sigma> i) = m * (\<Sum>i<?n. k i) + r * (\<Sum>i<?n. \<sigma> i)"
    by (simp add: sum.distrib sum_distrib_left)
  finally have s: "?s = (m * (\<Sum>i<?n. k i) + r * (\<Sum>i<?n. \<sigma> i)) mod ?N" by (rule eqm_imp_mod_eq)
  have "DECDSASignVerifyRSV (se_E env) (Some r) (Some (snd (justify_s (se_E env) ?s))) v message
       (Some (fst (mulG (se_E env) x))) (Some (snd (mulG (se_E env) x))) = Ok True" if "?s \<noteq> 0"
  proof -
    have "0 \<le> ?s" "?s < ?N" using N by simp_all
    moreover have "eqm ?N (?s * \<rho>) (m + r * x)" unfolding s by (rule signature_equation [OF presign(4,5)])
    ultimately have "ecdsa_signature (se_E env) x m \<rho> r ?s"
      unfolding ecdsa_signature_def using that presign(1-3) by linarith
    then obtain \<rho>' where "ecdsa_signature (se_E env) x m \<rho>' r (snd (justify_s (se_E env) ?s))"
      using justify_s_signature [OF E] by blast
    then show ?thesis
      unfolding DECDSASignVerifyRSV_def by (rule Verify2_signature [OF E _ key r msg(2,3,1)])
  qed
  then show ?thesis using run final(3) by (intro exI conjI) (auto simp: sign_ResetOK_def)
qed

end
