(* ===== verification/SigningProps.thy ===== *)
theory SigningProps
  imports SigningCorrect
begin

text \<open>
  Two signers on the small curve, on which the theorems about signing are applied, and the gating and
  termination of the deliveries to a signing node.
\<close>

section \<open>Two signers\<close>

text \<open>Two signers with the identifiers 1 and 2 and the shares 8 and 11 of the key 5, on the curve of order 13.\<close>

definition toy_pk2 :: PublicKey where
  "toy_pk2 = \<lparr>pk_Length = ''8'', pk_N = 323, pk_G = 324, pk_N2 = 104329\<rparr>"

definition toy_sk2 :: PrivateKey where
  "toy_sk2 = \<lparr>sk_Length = ''8'', sk_PublicKey = toy_pk2, sk_L = 288, sk_U = 203\<rparr>"

definition toy_sg :: SgEnv where
  "toy_sg = \<lparr>se_E = toy_curve, se_H = toy_sha, se_sha = toy_sha, se_sha256 = toy_sha, se_ms = (\<lambda>_ _. Ok (Some 3))\<rparr>"

definition toy_hd :: "nat \<Rightarrow> string list \<Rightarrow> SignRoundMessage" where
  "toy_hd i to = \<lparr>sm_FromID = to_id (Some (int i + 1)), sm_FromIndex = int i, sm_ToID = to\<rparr>"

definition toy_to :: "nat \<Rightarrow> nat \<Rightarrow> SignRoundMessage" where
  "toy_to i j = toy_hd i (if i = j then [] else [to_id (Some (int j + 1))])"

definition toy_save2 :: "nat \<Rightarrow> LocalDNodeSaveData" where
  "toy_save2 i = (NewLocalDNodeSaveData 2)\<lparr>sd_SkU1 := Some (if i = 0 then 8 else 11), sd_U1PaillierSk := Some toy_sk2,
     sd_U1PaillierPk := [Some toy_pk2, Some toy_pk2], sd_U1NtildeH1H2 := [Some toy_nt, Some toy_nt],
     sd_IDs := [Some 1, Some 2], sd_CurDNodeID := Some (int i + 1), sd_Pkx := Some 3, sd_Pky := Some 3\<rparr>"

definition toy_sign :: "nat \<Rightarrow> SignTempData \<Rightarrow> tape \<Rightarrow> SignDNode" where
  "toy_sign i t tape =
     \<lparr>s_ID = to_id (Some (int i + 1)), s_rnd = Some 4, s_ThresHold = 2, s_PaillierKeyLength = 8, s_temp = t,
      s_save = toy_save2 i, s_idsign = [1, 2], s_out = [], s_end = [], s_finalize = False, s_predata = None, s_txhash = None,
      s_finalizeend = [], b_ok = [False, False], b_started = False, b_number = 0, b_kgid = to_id (Some (int i + 1)),
      b_threshold = 2, b_paillierkeylength = 8, s_tape = tape\<rparr>"

definition toy_sign1 :: "nat \<Rightarrow> SignDNode" where
  "toy_sign1 i = toy_sign i (new_SignTempData 2) [3, 2, 5, 7]"

lemma toy_round1: "snd (sign_round1_Start toy_sg (toy_sign1 0)) = Ok ()" "snd (sign_round1_Start toy_sg (toy_sign1 1)) = Ok ()"
  by code_simp+

theorem round1_weights_witness:
  "\<exists>w. (\<forall>i < 2. t_w1 (s_temp (fst (sign_round1_Start toy_sg (toy_sign1 i)))) = Some (w i)) \<and> (\<Sum>i < 2. w i) mod 13 = 5"
proof -
  have c: "cN (se_E toy_sg) = 13" by code_simp
  let ?sk = "\<lambda>i :: nat. if i = 0 then 8 else 11 :: int"
  have "peval [5, 3] 1 = 8" "peval [5, 3] 2 = 11" by code_simp+
  then have run: "sign_round1_Start toy_sg (toy_sign1 i) = (fst (sign_round1_Start toy_sg (toy_sign1 i)), Ok ()) \<and>
      s_idsign (toy_sign1 i) = [1, 2] \<and> b_kgid (toy_sign1 i) = to_id (Some ([1, 2] ! i)) \<and>
      sd_SkU1 (s_save (toy_sign1 i)) = Some (?sk i) \<and> eqm (cN (se_E toy_sg)) (?sk i) (peval [5, 3] ([1, 2] ! i))"
    if "i < length [1, 2 :: int]" for i
    using that toy_round1 by (auto simp: less_Suc_eq prod_eq_iff toy_sign1_def toy_sign_def toy_save2_def)
  have "unit_diffs 13 [1, 2]" by (auto simp: unit_diffs_def less_Suc_eq)
  then show ?thesis
    using round1_weights [of toy_sg "[5, 3]" "[1, 2]", OF _ _ _ _ _ run] unfolding c by (simp add: numeral_2_eq_2)
qed

definition toy_range :: "int \<Rightarrow> int \<Rightarrow> int \<Rightarrow> int \<Rightarrow> int \<Rightarrow> int \<Rightarrow> MtARangeProof option" where
  "toy_range z u w s s1 s2 = Some \<lparr>ra_Z = Some z, ra_U = Some u, ra_W = Some w, ra_S = Some s, ra_S1 = Some s1, ra_S2 = Some s2\<rparr>"

text \<open>The nonces are 3 and 4, the \<open>\<gamma>\<close> 2 and 6, the weights 3 and 2.\<close>

definition toy_temp4 :: "nat \<Rightarrow> SignTempData" where
  "toy_temp4 i = (new_SignTempData 2)\<lparr>
     signRound1Messages := map (\<lambda>j. Some (SignRound1Message (toy_hd j []) (Some 3) (Some 3))) [0, 1],
     signRound2Messages :=
       (if i = 0 then [Some (SignRound2Message (toy_to 0 0) (toy_range 9 84449 9 24 1009 71201)),
                       Some (SignRound2Message (toy_to 1 0) (toy_range 11 10036 11 135 1013 71209))]
        else [Some (SignRound2Message (toy_to 0 1) (toy_range 11 42717 9 32 1010 71205)),
              Some (SignRound2Message (toy_to 1 1) (toy_range 29 14849 9 54 1015 71213))]),
     signRound3Messages := [Some (SignRound3Message (toy_hd 0 []) (Some 637) [Some 6, Some 2, Some 2]),
                            Some (SignRound3Message (toy_hd 1 []) (Some 63131) [Some 8, Some 6, Some 3])],
     t_w1 := Some (if i = 0 then 3 else 2), t_u1K := Some (if i = 0 then 3 else 4), t_u1Gamma := Some (if i = 0 then 2 else 6),
     t_ukc := Some (if i = 0 then 637 else 63131), t_ukc2 := Some (if i = 0 then 2 else 3)\<rparr>"

definition toy_sign4 :: "nat \<Rightarrow> SignDNode" where
  "toy_sign4 i = toy_sign i (toy_temp4 i)
     ((if i = 0 then [10, 20, 30, 40] else [12, 21, 31, 42]) @
      concat (map (\<lambda>r. [r, 1000, 400, 70001, 401, 3, 4, 403]) [2, 3, 4, 5]))"

definition toy_resp :: "int \<Rightarrow> int \<Rightarrow> int \<Rightarrow> int \<Rightarrow> int \<Rightarrow> int \<Rightarrow> MtARespZKProof" where
  "toy_resp z t v s s1 t1 = \<lparr>rp_Z = Some z, rp_ZBar = Some 9, rp_T = Some t, rp_V = Some v, rp_W = Some 29, rp_S = Some s,
     rp_S1 = Some s1, rp_S2 = Some 71201, rp_T1 = Some t1, rp_T2 = Some 1606\<rparr>"

text \<open>The messages of round 4 from the signer at position \<open>i\<close> to the one at \<open>j\<close>.\<close>

definition toy_g :: "nat \<Rightarrow> nat \<Rightarrow> SignMessage" where
  "toy_g i j =
     (case if i = 0 then (if j = 0 then (72915, toy_resp 11 9 69030 24 1006 34) else (77551, toy_resp 11 29 19268 81 1006 64))
           else (if j = 0 then (17457, toy_resp 16 4 69030 24 1018 40) else (73122, toy_resp 16 11 19268 81 1018 67)) of
        (c, pf) \<Rightarrow> SignRound4Message (toy_to i j) (Some c) (Some pf))"

definition toy_w :: "nat \<Rightarrow> nat \<Rightarrow> SignMessage" where
  "toy_w i j =
     (case if i = 0 then (if j = 0 then (1998, toy_resp 9 4 69030 192 1009 94) else (43026, toy_resp 9 9 19268 52 1009 124))
           else (if j = 0 then (86019, toy_resp 11 16 69030 192 1006 97) else (66169, toy_resp 11 4 19268 52 1006 130)) of
        (c, pf) \<Rightarrow> SignRound4Message1 (toy_to i j) (Some c) (Some \<lparr>rw_Ux = Some 1, rw_Uy = Some 5, rw_resp = pf\<rparr>))"

definition toy_masks :: "nat \<Rightarrow> SignTempData \<Rightarrow> SignTempData" where
  "toy_masks i t = (if i = 0 then t\<lparr>t_betaU1Star := [10, 20], t_betaU1 := [-10, -20], t_vU1Star := [30, 40], t_vU1 := [-30, -40]\<rparr>
     else t\<lparr>t_betaU1Star := [12, 21], t_betaU1 := [-12, -21], t_vU1Star := [31, 42], t_vU1 := [-31, -42]\<rparr>)"

definition toy_sign4' :: "nat \<Rightarrow> SignDNode" where
  "toy_sign4' i = (toy_sign4 i)\<lparr>b_number := 4, b_started := True, s_tape := [], s_out := [toy_g i (1 - i), toy_w i (1 - i)],
     s_temp := toy_masks i ((toy_temp4 i)\<lparr>signRound4Messages := [None, None][i := Some (toy_g i i)],
       signRound4Messages1 := [None, None][i := Some (toy_w i i)]\<rparr>)\<rparr>"

definition toy_sign5 :: "nat \<Rightarrow> SignDNode" where
  "toy_sign5 i = toy_sign i (toy_masks i ((toy_temp4 i)\<lparr>signRound4Messages := [Some (toy_g 0 i), Some (toy_g 1 i)],
     signRound4Messages1 := [Some (toy_w 0 i), Some (toy_w 1 i)]\<rparr>)) (if i = 0 then [3, 2, 6] else [5, 6, 5])"

lemma toy_round4_0: "sign_round4_Start toy_sg (toy_sign4 0) = (toy_sign4' 0, Ok ())"
  by code_simp

lemma toy_round4_1: "sign_round4_Start toy_sg (toy_sign4 1) = (toy_sign4' 1, Ok ())"
  by code_simp

definition toy_shares :: "nat \<Rightarrow> unit res \<times> int option \<times> int option" where
  "toy_shares i = (case sign_round5_Start toy_sg (toy_sign5 i) of (q, r) \<Rightarrow> (r, t_delta1 (s_temp q), t_sigma1 (s_temp q)))"

lemma toy_round5_0: "toy_shares 0 = (Ok (), Some 3, Some 6)"
  by code_simp

lemma toy_round5_1: "toy_shares 1 = (Ok (), Some 1, Some 3)"
  by code_simp

lemma toy_keys2: "paillier_keys toy_pk2 toy_sk2 17 19"
proof -
  have "is_prime 17" "is_prime 19" "ModInverse 288 323 = Some 203" by code_simp+
  then show ?thesis by (simp add: paillier_keys_def toy_pk2_def toy_sk2_def)
qed

lemma toy_shares_result: "snd (sign_round5_Start toy_sg (toy_sign5 i)) = fst (toy_shares i)"
  by (simp add: toy_shares_def split: prod.split)

lemma less_2: "(i :: nat) < 2 \<longleftrightarrow> i = 0 \<or> i = 1"
  by auto

lemma toy_encrypts: "encrypts 323 637 3" "encrypts 323 63131 4"
proof -
  have "Encrypt toy_pk2 (Some 3) [2] = Ok ((637, 2), [])" "Encrypt toy_pk2 (Some 4) [3] = Ok ((63131, 3), [])" by code_simp+
  then show "encrypts 323 637 3" "encrypts 323 63131 4" using Encrypt_encrypts [OF toy_keys2] by force+
qed

lemma toy_peers:
  assumes "i < 2" "j < 2" shows "keyed (toy_sign4 i) j 323 \<and> asks (toy_sign4 i) j 323 (if j = 0 then 3 else 4)"
proof
  have "id_index (toy_sign4 i) (s_idsign (toy_sign4 i) ! j) = Ok (int j)"
    "slice_get (sd_U1PaillierPk (s_save (toy_sign4 i))) (int j) = Ok (Some toy_pk2)"
    using assms by (auto simp: less_2 toy_sign4_def toy_sign_def toy_save2_def id_index_def slice_get_def)
  then show "keyed (toy_sign4 i) j 323" using toy_keys2 unfolding keyed_def by force
  show "asks (toy_sign4 i) j 323 (if j = 0 then 3 else 4)"
    using assms toy_encrypts by (auto simp: less_2 asks_def toy_sign4_def toy_sign_def toy_temp4_def slice_get_def)
qed

lemma toy_received:
  assumes "i < 2" "j < 2"
  shows "received [1, 2] signRound4Messages is_SignRound4Message (toy_sign4 i) (toy_sign4' i) (toy_sign5 j) i j \<and>
    received [1, 2] signRound4Messages1 is_SignRound4Message1 (toy_sign4 i) (toy_sign4' i) (toy_sign5 j) i j"
  using assms
  by (auto simp: less_2 received_def toy_sign4_def toy_sign4'_def toy_sign5_def toy_sign_def toy_masks_def slice_get_def
      toy_g_def toy_w_def toy_to_def toy_hd_def)

theorem presigning_products_witness:
  "eqm 13 (\<Sum>j<2. the (t_delta1 (s_temp (fst (sign_round5_Start toy_sg (toy_sign5 j)))))) ((3 + 4) * (2 + 6)) \<and>
   eqm 13 (\<Sum>j<2. the (t_sigma1 (s_temp (fst (sign_round5_Start toy_sg (toy_sign5 j)))))) ((3 + 4) * (3 + 2))"
proof -
  let ?k = "\<lambda>i :: nat. if i = 0 then 3 else 4 :: int" and ?\<gamma> = "\<lambda>i :: nat. if i = 0 then 2 else 6 :: int"
    and ?w = "\<lambda>i :: nat. if i = 0 then 3 else 2 :: int" and ?M = "mask_bound (se_E toy_sg) 8"
  have M: "?M = 87" and N: "cN (se_E toy_sg) = 13" by code_simp+
  have len: "b_paillierkeylength (toy_sign4 i) = 8" for i by (simp add: toy_sign4_def toy_sign_def)
  have before: "signer [1, 2] (\<lambda>_. 323) ?k (?\<gamma> i) (?w i) i (toy_sign4 i) \<and> sign_round4_Start toy_sg (toy_sign4 i) = (toy_sign4' i, Ok ())"
    if "i < 2" for i
  proof -
    have f: "s_idsign (toy_sign4 i) = [1, 2]" "b_kgid (toy_sign4 i) = to_id (Some ([1, 2] ! i))" "b_threshold (toy_sign4 i) = 2"
      "t_u1K (s_temp (toy_sign4 i)) = Some (?k i)" "t_u1Gamma (s_temp (toy_sign4 i)) = Some (?\<gamma> i)" "t_w1 (s_temp (toy_sign4 i)) = Some (?w i)"
      using that by (auto simp: less_2 toy_sign4_def toy_sign_def toy_temp4_def)
    have "signer [1, 2] (\<lambda>_. 323) ?k (?\<gamma> i) (?w i) i (toy_sign4 i)"
      unfolding signer_def f using toy_peers [OF that] by simp
    then show ?thesis using that toy_round4_0 toy_round4_1 unfolding less_2 by metis
  qed
  have same: "s_idsign (toy_sign5 j) = [1, 2] \<and> b_threshold (toy_sign5 j) = int 2 \<and>
      t_betaU1 (s_temp (toy_sign5 j)) = t_betaU1 (s_temp (toy_sign4' j)) \<and> t_vU1 (s_temp (toy_sign5 j)) = t_vU1 (s_temp (toy_sign4' j))" for j
    by (auto simp: toy_sign5_def toy_sign4'_def toy_sign_def toy_masks_def)
  have keys: "sd_U1PaillierSk (s_save (toy_sign5 j)) = Some toy_sk2 \<and> paillier_keys toy_pk2 toy_sk2 17 19 \<and> 323 = (17 :: int) * 19" for j
    using toy_keys2 by (simp add: toy_sign5_def toy_sign_def toy_save2_def)
  have after: "sign_round5_Start toy_sg (toy_sign5 j) = (fst (sign_round5_Start toy_sg (toy_sign5 j)), Ok ())" if "j < 2" for j
    using that toy_shares_result [of j] toy_round5_0 toy_round5_1 unfolding less_2 by (metis fst_conv prod.collapse)
  have "eqm (cN (se_E toy_sg)) (\<Sum>j<2. the (t_delta1 (s_temp (fst (sign_round5_Start toy_sg (toy_sign5 j)))))) ((\<Sum>j<2. ?k j) * (\<Sum>j<2. ?\<gamma> j)) \<and>
    eqm (cN (se_E toy_sg)) (\<Sum>j<2. the (t_sigma1 (s_temp (fst (sign_round5_Start toy_sg (toy_sign5 j)))))) ((\<Sum>j<2. ?k j) * (\<Sum>j<2. ?w j))"
  proof (rule presigning_products [where ids = "[1, 2]" and n = "\<lambda>_. 323" and p = toy_sign4 and p' = toy_sign4' and q = toy_sign5
        and sk = "\<lambda>_. toy_sk2" and pk = "\<lambda>_. toy_pk2" and pr = "\<lambda>_. 17" and qr = "\<lambda>_. 19"])
    show "distinct [1, 2 :: int]" "2 = length [1, 2 :: int]" by simp_all
  next
    fix i :: nat assume i: "i < 2"
    show "signer [1, 2] (\<lambda>_. 323) ?k (?\<gamma> i) (?w i) i (toy_sign4 i) \<and> sign_round4_Start toy_sg (toy_sign4 i) = (toy_sign4' i, Ok ())"
      by (rule before [OF i])
  next
    fix i j :: nat assume i: "i < 2" and j: "j < 2"
    show "0 \<le> mask_bound (se_E toy_sg) (b_paillierkeylength (toy_sign4 i)) \<and>
      ?\<gamma> i * ?k j + mask_bound (se_E toy_sg) (b_paillierkeylength (toy_sign4 i)) \<le> 323 \<and>
      ?w i * ?k j + mask_bound (se_E toy_sg) (b_paillierkeylength (toy_sign4 i)) \<le> 323"
      unfolding len M using i j by simp
  qed (erule (1) toy_received, rule same, rule keys, erule after)
  then show ?thesis unfolding N by (simp add: numeral_2_eq_2)
qed

text \<open>The signer at position 0 before round 7: \<open>k\<close> is 3 of 7, \<open>\<gamma>\<close> 2 of 8, and the sum of the \<^verbatim>\<open>delta1\<close> 4.\<close>

definition toy_sign7 :: SignDNode where
  "toy_sign7 = toy_sign 0 ((toy_temp4 0)\<lparr>
     signRound6Messages := [Some (SignRound6Message (toy_hd 0 []) [Some 5, Some 6, Some 3] (Some \<lparr>zku_E = Some 3, zku_S = Some 9\<rparr>)),
                            Some (SignRound6Message (toy_hd 1 []) [Some 7, Some 5, Some 3] (Some \<lparr>zku_E = Some 3, zku_S = Some 9\<rparr>))],
     t_deltaSum := Some 4\<rparr>) [1000, 3, 70001, 400, 1001]"

lemma toy_round7: "snd (sign_round7_Start toy_sg toy_sign7) = Ok ()"
  by code_simp

lemma toy_gamma: "gamma_point toy_sg toy_sign7 0 = Ok ([Some 6, Some 3], Some \<lparr>zku_E = Some 3, zku_S = Some 9\<rparr>, True)"
  "gamma_point toy_sg toy_sign7 1 = Ok ([Some 5, Some 3], Some \<lparr>zku_E = Some 3, zku_S = Some 9\<rparr>, True)"
  by code_simp+

lemma toy_mulG: "mulG toy_curve 2 = (6, 3)" "mulG toy_curve 6 = (5, 3)"
  by code_simp+

theorem round7_inverts_nonce_witness:
  "\<exists>\<rho>. 0 < \<rho> \<and> \<rho> < 13 \<and> t_deltaGammaG (s_temp (fst (sign_round7_Start toy_sg toy_sign7))) = Some (mulG toy_curve \<rho>) \<and>
     eqm 13 (7 * \<rho>) 1"
proof -
  have c: "se_E toy_sg = toy_curve" "cN toy_curve = 13" by (simp add: toy_sg_def) code_simp
  have f: "s_idsign toy_sign7 = [1, 2]" "t_deltaSum (s_temp toy_sign7) = Some 4" by (simp_all add: toy_sign7_def toy_sign_def)
  let ?\<gamma> = "\<lambda>i :: nat. if i = 0 then 2 else 6 :: int"
  have run: "sign_round7_Start toy_sg toy_sign7 = (fst (sign_round7_Start toy_sg toy_sign7), Ok ())"
    using toy_round7 by (simp add: prod_eq_iff)
  have d: "eqm 13 4 (7 * (2 + 6))" by (simp add: eqm_def)
  have "gamma_point toy_sg toy_sign7 i = Ok (pair_slice (Some (mulG toy_curve (?\<gamma> i))), Some \<lparr>zku_E = Some 3, zku_S = Some 9\<rparr>, True) \<and>
      0 < ?\<gamma> i \<and> ?\<gamma> i < 13" if "i < length [1, 2 :: int]" for i
    using that toy_gamma by (auto simp: less_Suc_eq toy_mulG pair_slice_def)
  then show ?thesis
    using round7_inverts_nonce [of toy_sg toy_sign7 _ ?\<gamma> "\<lambda>_. Some \<lparr>zku_E = Some 3, zku_S = Some 9\<rparr>" "\<lambda>_. True" 4 7, OF _ run] d
    unfolding c f by (fastforce simp: toy_curve_laws numeral_2_eq_2)
qed

text \<open>The signers before round 10, with the message hash 27, and a signer with the messages of both.\<close>

definition toy_pre :: "nat \<Rightarrow> PrePubData" where
  "toy_pre i = \<lparr>pre_K1 = Some (if i = 0 then 3 else 4), pre_R = Some 6, pre_Ry = Some 3, pre_Sigma1 = Some (if i = 0 then 6 else 3)\<rparr>"

definition toy_sign10 :: "nat \<Rightarrow> SignDNode" where
  "toy_sign10 i = (toy_sign i (new_SignTempData 2) [])\<lparr>s_finalize := True, s_predata := Some (toy_pre i), s_txhash := Some 27, s_rnd := Some 10\<rparr>"

definition toy_us1 :: "nat \<Rightarrow> SignMessage" where
  "toy_us1 i = SignRound9Message (toy_hd i []) (Some (if i = 0 then 0 else 9))"

definition toy_sign11 :: SignDNode where
  "toy_sign11 = (toy_sign 0 ((new_SignTempData 2)\<lparr>signRound9Messages := [Some (toy_us1 0), Some (toy_us1 1)]\<rparr>) [])
     \<lparr>s_finalize := True, s_predata := Some (toy_pre 0), s_txhash := Some 27, s_rnd := Some 11\<rparr>"

lemma toy_round10: 
  "snd (sign_round10_Start toy_sg (toy_sign10 0)) = Ok ()" "snd (sign_round10_Start toy_sg (toy_sign10 1)) = Ok ()"
  "slice_get (signRound9Messages (s_temp (fst (sign_round10_Start toy_sg (toy_sign10 0))))) 0 = Ok (Some (toy_us1 0))"
  "slice_get (signRound9Messages (s_temp (fst (sign_round10_Start toy_sg (toy_sign10 1))))) 1 = Ok (Some (toy_us1 1))"
  by code_simp+

theorem signing_correct_witness:
  "\<exists>q' s. sign_round11_Start toy_sg toy_sign11 = (q', Ok ()) \<and> s_finalizeend q' = [s] \<and> (s = 0 \<or>
     DECDSASignVerifyRSV toy_curve (Some 6) (Some (snd (justify_s toy_curve s))) 0 ''1b'' (Some 3) (Some 3) = Ok True)"
proof -
  let ?p' = "\<lambda>i. fst (sign_round10_Start toy_sg (toy_sign10 i))"
  let ?k = "\<lambda>i :: nat. if i = 0 then 3 else 4 :: int" and ?\<sigma> = "\<lambda>i :: nat. if i = 0 then 6 else 3 :: int"
  have c: "se_E toy_sg = toy_curve" "cN toy_curve = 13" by (simp add: toy_sg_def) code_simp
  have key: "mulG toy_curve 5 = (3, 3)" "SetString16 ''1b'' = Some 27" by code_simp+
  have share: "sign_round10_Start toy_sg (toy_sign10 i) = (?p' i, Ok ()) \<and> s_idsign (toy_sign10 i) = [1, 2] \<and>
      b_kgid (toy_sign10 i) = to_id (Some ([1, 2] ! i)) \<and> s_txhash (toy_sign10 i) = Some 27 \<and>
      s_predata (toy_sign10 i) = Some \<lparr>pre_K1 = Some (?k i), pre_R = Some 6, pre_Ry = Some 3, pre_Sigma1 = Some (?\<sigma> i)\<rparr>"
    if "i < length [1, 2 :: int]" for i
  proof -
    have "snd (sign_round10_Start toy_sg (toy_sign10 i)) = Ok ()" using that toy_round10(1,2) by (auto simp: less_Suc_eq)
    then have "sign_round10_Start toy_sg (toy_sign10 i) = (?p' i, Ok ())" by (simp add: prod_eq_iff)
    moreover have "s_idsign (toy_sign10 i) = [1, 2]" "b_kgid (toy_sign10 i) = to_id (Some ([1, 2] ! i))"
      "s_txhash (toy_sign10 i) = Some 27" "s_predata (toy_sign10 i) = Some (toy_pre i)"
      using that by (auto simp: less_Suc_eq toy_sign10_def toy_sign_def)
    ultimately show ?thesis unfolding toy_pre_def by blast
  qed
  have transport: "slice_get (signRound9Messages (s_temp toy_sign11)) (int i) = slice_get (signRound9Messages (s_temp (?p' i))) (int i)"
    if "i < length [1, 2 :: int]" for i
  proof -
    have "slice_get (signRound9Messages (s_temp toy_sign11)) (int i) = Ok (Some (toy_us1 i))"
      using that by (auto simp: less_Suc_eq toy_sign11_def toy_sign_def slice_get_def)
    then show ?thesis using that toy_round10(3,4) by (auto simp: less_Suc_eq)
  qed
  have final: "\<not> b_started toy_sign11" "s_idsign toy_sign11 = [1, 2]" "s_finalizeend toy_sign11 = []"
    by (simp_all add: toy_sign11_def toy_sign_def)
  have "\<exists>q' s. sign_round11_Start toy_sg toy_sign11 = (q', Ok ()) \<and> s_finalizeend q' = [s] \<and> (s = 0 \<or>
     DECDSASignVerifyRSV (se_E toy_sg) (Some 6) (Some (snd (justify_s (se_E toy_sg) s))) 0 ''1b''
       (Some (fst (mulG (se_E toy_sg) 5))) (Some (snd (mulG (se_E toy_sg) 5))) = Ok True)"
    by (rule signing_correct [where \<rho> = 2, OF _ _ _ share transport final])
      (unfold c key toy_mulG, simp_all add: toy_curve_laws numeral_2_eq_2 eqm_def)
  then show ?thesis unfolding c key by simp
qed

section \<open>Gating and termination\<close>

text \<open>C11: the rounds of signing are gated: in every state a started node can reach by deliveries, when it is in
  round \<open>n\<close> it has for every earlier round \<open>m\<close> of the same phase (the presigning rounds up to 9, the finalising
  rounds 10 and 11) and every slice round \<open>m\<close> waits for exactly one message per signer, each of a type
  round \<open>m\<close> accepts.\<close>

theorem sign_rounds_gated:
  assumes "sign_NewLocalDNode save idsign kgid th len fin pre txhash tape = Ok p"
    and "BaseStart (sign_node env) (sign_SetDNodeID idn p) = (s, Ok ())" "deliveries (sign_node env) s s'"
    and "s_rnd s' = Some n" "m < n" "n \<le> 9 \<or> 9 < m" "ms \<in> set (sign_update_slots m (s_temp s'))"
  shows "length ms = nat th \<and> (\<forall>slot \<in> set ms. \<exists>msg. slot = Some msg \<and> sign_CanAccept m msg)"
proof (rule sg_gate [OF _ assms(4) _ assms(7)])
  show "sg_inv th s'" by (rule sg.inv_deliveries [OF assms(3) sg_inv_started [OF assms(1,2)]])
  show "before m n" using assms(5,6) by (auto simp: before_def)
qed

definition toy_final :: SignDNode where
  "toy_final = (case sign_NewLocalDNode (toy_save2 0) [1, 2] (Some 1) 2 8 True (Some (toy_pre 0)) (Some 27) [] of
     Ok p \<Rightarrow> fst (BaseStart (sign_node toy_sg) (sign_SetDNodeID ''1'' p)) | _ \<Rightarrow> toy_sign10 0)"

definition toy_final' :: SignDNode where
  "toy_final' = fst (the (BaseUpdate 11 (sign_node toy_sg) toy_final (toy_us1 1)))"

text \<open>The delivery of the second share starts round 11.\<close>

theorem sign_rounds_gated_witness:
  "s_rnd toy_final' = Some 11 \<and> length (signRound9Messages (s_temp toy_final')) = 2"
proof -
  let ?new = "sign_NewLocalDNode (toy_save2 0) [1, 2] (Some 1) 2 8 True (Some (toy_pre 0)) (Some 27) []"
  obtain p where p: "?new = Ok p" by (simp add: sign_NewLocalDNode_def)
  have "(case ?new of Ok p \<Rightarrow> snd (BaseStart (sign_node toy_sg) (sign_SetDNodeID ''1'' p)) | _ \<Rightarrow> Err []) = Ok ()" by code_simp
  then have start: "BaseStart (sign_node toy_sg) (sign_SetDNodeID ''1'' p) = (toy_final, Ok ())"
    unfolding toy_final_def p by (simp add: prod_eq_iff)
  obtain r where "BaseUpdate 11 (sign_node toy_sg) toy_final (toy_us1 1) = Some (toy_final', r)"
    using sg.update_returns [OF sg_rank_less, of toy_sg toy_final] unfolding toy_final'_def
    by (metis option.sel prod.collapse)
  then have run: "deliveries (sign_node toy_sg) toy_final toy_final'" by (rule deliver [OF stop])
  have "s_rnd toy_final' = Some 11" by code_simp
  then show ?thesis
    using sign_rounds_gated [OF p start run, of 11 10 "signRound9Messages (s_temp toy_final')"] by (simp add: sign_update_slots_def)
qed

text \<open>The recursion of \<^verbatim>\<open>Update\<close> of a signing node is bounded for every state and every message: with fuel 11
  or more there is a result and it does not depend on the fuel.\<close>

lemma sign_Update_returns: "\<exists>r. \<forall>k. BaseUpdate (11 + k) (sign_node env) p msg = Some r"
proof -
  obtain r where r: "BaseUpdate 11 (sign_node env) p msg = Some r"
    using sg.update_returns [OF sg_rank_less] by blast
  show ?thesis using BaseUpdate_mono [OF r] by (intro exI [of _ r]) simp
qed

end
