(* ===== verification/Reshare.thy ===== *)
theory Reshare
  imports SigningRounds
begin

text \<open>
  \<^verbatim>\<open>smpc-lib/ecdsa/reshare/message.go\<close>, \<^verbatim>\<open>local_dnode.go\<close> and \<^verbatim>\<open>rounds.go\<close>: the messages and the state of a
  node that takes part in the resharing of a key from an old group to a new one.  As in the key
  generation all rounds share one \<^verbatim>\<open>base\<close> object (fields \<open>d_\<close>), the channels are the lists of what was
  sent, and the functions not written here are those of \<open>KgEnv\<close>.
\<close>

section \<open>Messages\<close>

record ReRoundMessage =
  rm_FromID :: string
  rm_FromIndex :: int
  rm_ToID :: "string list"

definition new_ReRoundMessage :: ReRoundMessage where
  "new_ReRoundMessage = \<lparr>rm_FromID = [], rm_FromIndex = 0, rm_ToID = []\<rparr>"

definition rm_SetFromID :: "string \<Rightarrow> ReRoundMessage \<Rightarrow> ReRoundMessage" where
  "rm_SetFromID fid re = re\<lparr>rm_FromID := fid\<rparr>"

definition rm_SetFromIndex :: "int \<Rightarrow> ReRoundMessage \<Rightarrow> ReRoundMessage" where
  "rm_SetFromIndex index re = re\<lparr>rm_FromIndex := index\<rparr>"

definition rm_AppendToID :: "string \<Rightarrow> ReRoundMessage \<Rightarrow> ReRoundMessage" where
  "rm_AppendToID toid re = re\<lparr>rm_ToID := rm_ToID re @ [toid]\<rparr>"

datatype ReMessage =
  ReRound0Message (re_base: ReRoundMessage)
| ReRound1Message (re_base: ReRoundMessage) (re_ComC: "int option")
| ReRound2Message (re_base: ReRoundMessage) (re_ID: "int option") (re_Share: "int option")
| ReRound2Message1 (re_base: ReRoundMessage) (re_ComD: "int option list") (re_SkP1PolyG: "int option list list")
| ReRound3Message (re_base: ReRoundMessage) (re_U1PaillierPk: "PublicKey option")
| ReRound4Message (re_base: ReRoundMessage) (re_U1NtildeH1H2: "NtildeH1H2 option")
    (re_NtildeProof1: "NtildeProof option") (re_NtildeProof2: "NtildeProof option")
| ReRound5Message (re_base: ReRoundMessage) (NewSkOk: string)

definition re_GetFromID :: "ReMessage \<Rightarrow> string" where
  "re_GetFromID msg = rm_FromID (re_base msg)"

definition re_GetFromIndex :: "ReMessage \<Rightarrow> int" where
  "re_GetFromIndex msg = rm_FromIndex (re_base msg)"

definition re_GetToID :: "ReMessage \<Rightarrow> string list" where
  "re_GetToID msg = rm_ToID (re_base msg)"

fun re_IsBroadcast :: "ReMessage \<Rightarrow> bool" where
  "re_IsBroadcast (ReRound2Message _ _ _) = False"
| "re_IsBroadcast _ = True"

fun re_GetMsgType :: "ReMessage \<Rightarrow> string" where
  "re_GetMsgType (ReRound0Message _) = ''ReRound0Message''"
| "re_GetMsgType (ReRound1Message _ _) = ''ReRound1Message''"
| "re_GetMsgType (ReRound2Message _ _ _) = ''ReRound2Message''"
| "re_GetMsgType (ReRound2Message1 _ _ _) = ''ReRound2Message1''"
| "re_GetMsgType (ReRound3Message _ _) = ''ReRound3Message''"
| "re_GetMsgType (ReRound4Message _ _ _ _) = ''ReRound4Message''"
| "re_GetMsgType (ReRound5Message _ _) = ''ReRound5Message''"

text \<open>The type assertions on a slot that may be \<^verbatim>\<open>nil\<close>.\<close>

definition re_asserted :: "(ReMessage \<Rightarrow> bool) \<Rightarrow> string \<Rightarrow> ReMessage option \<Rightarrow> ReMessage res" where
  "re_asserted P e slot = (case slot of Some msg \<Rightarrow> if P msg then Ok msg else Err e | None \<Rightarrow> Err e)"

lemma re_asserted_Ok_iff: "re_asserted P e slot = Ok msg \<longleftrightarrow> slot = Some msg \<and> P msg"
  by (auto simp: re_asserted_def split: option.splits)

section \<open>The state\<close>

type_synonym re_slots = "ReMessage option list"

record ReTempData =
  reshareRound0Messages :: re_slots
  reshareRound1Messages :: re_slots
  reshareRound2Messages :: re_slots
  reshareRound2Messages1 :: re_slots
  reshareRound3Messages :: re_slots
  reshareRound4Messages :: re_slots
  reshareRound5Messages :: re_slots
  rt_w1 :: "int option"
  rt_comd :: "int option list"
  rt_skP1Poly :: "int list option"
  rt_skP1PolyG :: "int option list list"
  rt_skP1Shares :: "ShareStruct2 list"
  rt_pkx :: "int option"
  rt_pky :: "int option"
  rt_newskU1 :: "int option"
  rt_u1PaillierSk :: "PrivateKey option"
  rt_u1PaillierPk :: "PublicKey option"
  rt_u1NtildeH1H2 :: "NtildeH1H2 option"
  rt_u1NtildePrivData :: "NtildePrivData option"

record ReDNode =
  q_ID :: string
  q_rnd :: "nat option"
  q_DNodeCountInGroup :: int
  q_ThresHold :: int
  q_PaillierKeyLength :: int
  q_temp :: ReTempData
  q_data :: LocalDNodeSaveData
  q_out :: "ReMessage list"
  q_end :: "LocalDNodeSaveData list"
  q_oldnode :: bool
  q_oldindex :: int
  q_firstround :: bool
  d_ok :: "bool list"
  d_started :: bool
  d_number :: nat
  d_dnodeid :: string
  d_dnodecount :: int
  d_threshold :: int
  d_paillierkeylength :: int
  d_oldnode :: bool
  d_oldindex :: int
  d_idreshare :: "int list"
  q_tape :: tape
  q_primes :: "SafePrime list"

section \<open>Construction\<close>

definition new_ReTempData :: "int \<Rightarrow> int \<Rightarrow> ReTempData" where
  "new_ReTempData threshold count =
     (let ts = replicate (nat threshold) None; cs = replicate (nat count) None
      in \<lparr>reshareRound0Messages = [], reshareRound1Messages = ts, reshareRound2Messages = ts,
          reshareRound2Messages1 = ts, reshareRound3Messages = cs, reshareRound4Messages = cs,
          reshareRound5Messages = cs, rt_w1 = None, rt_comd = [], rt_skP1Poly = None, rt_skP1PolyG = [],
          rt_skP1Shares = [], rt_pkx = None, rt_pky = None, rt_newskU1 = None, rt_u1PaillierSk = None,
          rt_u1PaillierPk = None, rt_u1NtildeH1H2 = None, rt_u1NtildePrivData = None\<rparr>)"

definition re_NewLocalDNode :: "KgEnv \<Rightarrow> int \<Rightarrow> int \<Rightarrow> int \<Rightarrow> LocalDNodeSaveData option \<Rightarrow> bool \<Rightarrow> int \<Rightarrow>
    tape \<Rightarrow> SafePrime list \<Rightarrow> ReDNode res" where
  "re_NewLocalDNode env DNodeCountInGroup threshold paillierkeylength sd oldnode oldindex tape primes =
     bindr (case sd of
        Some sd \<Rightarrow> Ok (fmt_v (sd_CurDNodeID sd), tape)
      | None \<Rightarrow> bindr (GetRandomIntFromZn (cN (ke_E env)) tape) (\<lambda>(uid, tape). Ok (show_int uid, tape))) (\<lambda>(idn, tape).
     if DNodeCountInGroup < 0 \<or> threshold < 0 then Panic ''makeslice: len out of range''
     else
       Ok \<lparr>q_ID = idn, q_rnd = None, q_DNodeCountInGroup = DNodeCountInGroup, q_ThresHold = threshold,
           q_PaillierKeyLength = paillierkeylength, q_temp = new_ReTempData threshold DNodeCountInGroup,
           q_data = (case sd of Some sd \<Rightarrow> sd | None \<Rightarrow> NewLocalDNodeSaveData DNodeCountInGroup),
           q_out = [], q_end = [], q_oldnode = oldnode, q_oldindex = oldindex, q_firstround = False,
           d_ok = [], d_started = False, d_number = 0, d_dnodeid = [], d_dnodecount = 0, d_threshold = 0,
           d_paillierkeylength = 0, d_oldnode = False, d_oldindex = 0, d_idreshare = [],
           q_tape = tape, q_primes = primes\<rparr>)"

definition re_SetDNodeID :: "string \<Rightarrow> ReDNode \<Rightarrow> ReDNode" where
  "re_SetDNodeID idn p = p\<lparr>q_ID := EncodeToString (string_bytes idn)\<rparr>"

text \<open>\<^verbatim>\<open>FirstRound\<close> with \<^verbatim>\<open>newRound0\<close>.\<close>

definition re_FirstRound :: "ReDNode \<Rightarrow> ReDNode \<times> nat option" where
  "re_FirstRound p =
     (p\<lparr>d_ok := replicate (nat (q_DNodeCountInGroup p)) False, d_started := False, d_number := 0,
        d_dnodeid := q_ID p, d_dnodecount := q_DNodeCountInGroup p, d_threshold := q_ThresHold p,
        d_paillierkeylength := q_PaillierKeyLength p, d_oldnode := q_oldnode p, d_oldindex := q_oldindex p,
        d_idreshare := [], q_firstround := True\<rparr>, Some 0)"

section \<open>Storing messages\<close>

definition re_CheckFull :: "re_slots \<Rightarrow> bool" where
  "re_CheckFull msg = (if length msg = 0 then False else list_all (\<lambda>v. v \<noteq> None) msg)"

definition re_find :: "re_slots \<Rightarrow> ReMessage \<Rightarrow> bool" where
  "re_find l msg = list_ex (\<lambda>v. case v of None \<Rightarrow> False
     | Some v \<Rightarrow> re_GetMsgType v = re_GetMsgType msg \<and> re_GetFromID v = re_GetFromID msg) l"

fun re_slots_of :: "ReMessage \<Rightarrow> ReTempData \<Rightarrow> re_slots" where
  "re_slots_of (ReRound0Message _) = reshareRound0Messages"
| "re_slots_of (ReRound1Message _ _) = reshareRound1Messages"
| "re_slots_of (ReRound2Message _ _ _) = reshareRound2Messages"
| "re_slots_of (ReRound2Message1 _ _ _) = reshareRound2Messages1"
| "re_slots_of (ReRound3Message _ _) = reshareRound3Messages"
| "re_slots_of (ReRound4Message _ _ _ _) = reshareRound4Messages"
| "re_slots_of (ReRound5Message _ _) = reshareRound5Messages"

fun re_slots_update :: "ReMessage \<Rightarrow> re_slots \<Rightarrow> ReTempData \<Rightarrow> ReTempData" where
  "re_slots_update (ReRound0Message _) ms t = t\<lparr>reshareRound0Messages := ms\<rparr>"
| "re_slots_update (ReRound1Message _ _) ms t = t\<lparr>reshareRound1Messages := ms\<rparr>"
| "re_slots_update (ReRound2Message _ _ _) ms t = t\<lparr>reshareRound2Messages := ms\<rparr>"
| "re_slots_update (ReRound2Message1 _ _ _) ms t = t\<lparr>reshareRound2Messages1 := ms\<rparr>"
| "re_slots_update (ReRound3Message _ _) ms t = t\<lparr>reshareRound3Messages := ms\<rparr>"
| "re_slots_update (ReRound4Message _ _ _ _) ms t = t\<lparr>reshareRound4Messages := ms\<rparr>"
| "re_slots_update (ReRound5Message _ _) ms t = t\<lparr>reshareRound5Messages := ms\<rparr>"

definition re_DulMessage :: "ReDNode \<Rightarrow> ReMessage \<Rightarrow> bool" where
  "re_DulMessage p msg = re_find (re_slots_of msg (q_temp p)) msg"

text \<open>\<^verbatim>\<open>p.temp.reshareRoundXMessages[index] = msg\<close>\<close>

definition re_put_slot :: "int \<Rightarrow> ReMessage \<Rightarrow> ReDNode \<Rightarrow> (ReDNode, re_slots) st" where
  "re_put_slot index msg p =
     tryr (slice_set (re_slots_of msg (q_temp p)) index (Some msg)) p (\<lambda>ms.
       (p\<lparr>q_temp := re_slots_update msg ms (q_temp p)\<rparr>, Ok ms))"

definition re_set_save :: "(LocalDNodeSaveData \<Rightarrow> LocalDNodeSaveData) \<Rightarrow> ReDNode \<Rightarrow> ReDNode" where
  "re_set_save f p = p\<lparr>q_data := f (q_data p)\<rparr>"

definition re_set_temp :: "(ReTempData \<Rightarrow> ReTempData) \<Rightarrow> ReDNode \<Rightarrow> ReDNode" where
  "re_set_temp f p = p\<lparr>q_temp := f (q_temp p)\<rparr>"

text \<open>The checks of a round 4 message; \<^verbatim>\<open>||\<close> evaluates the second proof only when the first one holds.\<close>

definition re_check_ntilde :: "KgEnv \<Rightarrow> NtildeH1H2 option \<Rightarrow> NtildeProof option \<Rightarrow> NtildeProof option \<Rightarrow> unit res" where
  "re_check_ntilde env nt pf1 pf2 =
     bindr (deref nt) (\<lambda>nt.
     let H1 = nt_H1 nt; H2 = nt_H2 nt; Ntilde = nt_Ntilde nt
     in if H1 = H2 then Err ''h1 and h2 were equal for this mpc node''
        else bindr (NtildeProof_Verify (ke_sha env) pf1 (Some H1) (Some H2) (Some Ntilde)) (\<lambda>ok1.
             if \<not> ok1 then Err ''ntilde zk proof check fail''
             else bindr (NtildeProof_Verify (ke_sha env) pf2 (Some H2) (Some H1) (Some Ntilde)) (\<lambda>ok2.
               if \<not> ok2 then Err ''ntilde zk proof check fail'' else Ok ())))"

text \<open>The check of all round 5 messages; a failed type assertion panics.\<close>

definition re_check_newskok :: "ReMessage option \<Rightarrow> unit res" where
  "re_check_newskok slot =
     (case slot of
        Some (ReRound5Message _ ok) \<Rightarrow> if ok \<noteq> ''TRUE'' then Err ''check newsk ok fail'' else Ok ()
      | _ \<Rightarrow> Panic ''interface conversion'')"

definition re_full :: "int \<Rightarrow> re_slots \<Rightarrow> bool" where
  "re_full n ms = (int (length ms) = n \<and> re_CheckFull ms)"

definition re_StoreMessage :: "KgEnv \<Rightarrow> ReDNode \<Rightarrow> ReMessage \<Rightarrow> (ReDNode, bool) st" where
  "re_StoreMessage env p msg =
     (let index = re_GetFromIndex msg in
      case msg of
        ReRound0Message _ \<Rightarrow>
          if \<not> re_find (reshareRound0Messages (q_temp p)) msg then
            (let p = (if int (length (reshareRound0Messages (q_temp p))) < q_DNodeCountInGroup p
                      then re_set_temp (\<lambda>t. t\<lparr>reshareRound0Messages := reshareRound0Messages t @ [Some msg]\<rparr>) p
                      else p)
             in (p, Ok (int (length (reshareRound0Messages (q_temp p))) = q_DNodeCountInGroup p)))
          else (p, Ok False)
      | ReRound3Message _ pk \<Rightarrow>
          if re_find (reshareRound3Messages (q_temp p)) msg then (p, Ok False)
          else bindst (re_put_slot index msg p) (\<lambda>p ms.
               tryr (slice_set (sd_U1PaillierPk (q_data p)) index pk) p (\<lambda>pks.
               let p = re_set_save (\<lambda>d. d\<lparr>sd_U1PaillierPk := pks\<rparr>) p
               in (p, Ok (re_full (q_DNodeCountInGroup p) ms))))
      | ReRound4Message _ nt pf1 pf2 \<Rightarrow>
          if re_find (reshareRound4Messages (q_temp p)) msg then (p, Ok False)
          else tryr (re_check_ntilde env nt pf1 pf2) p (\<lambda>_.
               bindst (re_put_slot index msg p) (\<lambda>p ms.
               tryr (slice_set (sd_U1NtildeH1H2 (q_data p)) index nt) p (\<lambda>nts.
               let p = re_set_save (\<lambda>d. d\<lparr>sd_U1NtildeH1H2 := nts\<rparr>) p
               in (p, Ok (re_full (q_DNodeCountInGroup p) ms)))))
      | ReRound5Message _ _ \<Rightarrow>
          if re_find (reshareRound5Messages (q_temp p)) msg then (p, Ok False)
          else bindst (re_put_slot index msg p) (\<lambda>p ms.
               if re_full (q_DNodeCountInGroup p) ms
               then tryr (mapM re_check_newskok ms) p (\<lambda>_. (p, Ok True))
               else (p, Ok False))
      | _ \<Rightarrow>
          if re_find (re_slots_of msg (q_temp p)) msg then (p, Ok False)
          else bindst (re_put_slot index msg p) (\<lambda>p ms. (p, Ok (re_full (q_ThresHold p) ms))))"

text \<open>What the service does with every message before \<^verbatim>\<open>Update\<close>.\<close>

definition CheckReshareMsg0 :: "ReDNode \<Rightarrow> ReMessage \<Rightarrow> ReDNode \<times> bool" where
  "CheckReshareMsg0 p msg =
     (case msg of
        ReRound0Message _ \<Rightarrow>
          (let p = (if int (length (reshareRound0Messages (q_temp p))) = q_DNodeCountInGroup p - 1
                    then re_set_temp (\<lambda>t. t\<lparr>reshareRound0Messages := reshareRound0Messages t @ [Some msg]\<rparr>) p
                    else p)
           in (p, int (length (reshareRound0Messages (q_temp p))) = q_DNodeCountInGroup p))
      | _ \<Rightarrow> (p, False))"

definition SetIDReshare :: "int list \<Rightarrow> ReDNode \<Rightarrow> ReDNode" where
  "SetIDReshare ids p = (if q_firstround p then p\<lparr>d_idreshare := ids\<rparr> else p)"

section \<open>rounds.go\<close>

definition re_CanProceed :: "ReDNode \<Rightarrow> bool" where
  "re_CanProceed p = (if \<not> d_started p then False else list_all (\<lambda>ok. ok) (d_ok p))"

definition re_ResetOK :: "ReDNode \<Rightarrow> ReDNode" where
  "re_ResetOK p = p\<lparr>d_ok := map (\<lambda>_. False) (d_ok p)\<rparr>"

definition re_GetIDs :: "ReDNode \<Rightarrow> int option list res" where
  "re_GetIDs p =
     bindr (mapM (\<lambda>v. bindr (deref v) (\<lambda>v. decode_id (re_GetFromID v))) (reshareRound0Messages (q_temp p))) sort_ids"

text \<open>The first position of a number in a slice of numbers; comparing with \<^verbatim>\<open>nil\<close> panics.\<close>

fun id_position :: "int \<Rightarrow> int option list \<Rightarrow> int option \<Rightarrow> int option res" where
  "id_position k [] x = Ok None"
| "id_position k (v # vs) x =
     bindr (deref v) (\<lambda>v. bindr (deref x) (\<lambda>y. if v = y then Ok (Some k) else id_position (k + 1) vs x))"

definition re_GetDNodeIDIndex :: "ReDNode \<Rightarrow> string \<Rightarrow> int res" where
  "re_GetDNodeIDIndex p idn =
     (if idn = [] then Ok (-1)
      else bindr (decode_id idn) (\<lambda>idtmp.
           bindr (id_position 0 (map Some (d_idreshare p)) idtmp) (\<lambda>k.
             case k of Some k \<Rightarrow> Ok k
             | None \<Rightarrow> Err ''get dnode index fail,no found in kgRound0Messages'')))"

section \<open>Lemmas\<close>

lemma re_slots_of_update [simp]: "re_slots_of msg (re_slots_update msg ms t) = ms"
  by (cases msg) auto

lemma re_slots_update_other: "re_GetMsgType m \<noteq> re_GetMsgType msg \<Longrightarrow> re_slots_of m (re_slots_update msg ms t) = re_slots_of m t"
  by (cases msg; cases m) auto

lemma re_slots_of_eq: "re_GetMsgType m = re_GetMsgType msg \<Longrightarrow> re_slots_of m = re_slots_of msg"
  by (cases msg; cases m) auto

lemma re_find_iff: "re_find l msg \<longleftrightarrow>
    (\<exists>v. Some v \<in> set l \<and> re_GetMsgType v = re_GetMsgType msg \<and> re_GetFromID v = re_GetFromID msg)"
  by (auto simp: re_find_def list_ex_iff split: option.splits)

lemma re_CheckFull_iff: "re_CheckFull ms \<longleftrightarrow> ms \<noteq> [] \<and> None \<notin> set ms"
  by (auto simp: re_CheckFull_def list_all_iff) (metis not_None_eq)

lemma id_position_None: "x \<notin> set xs \<Longrightarrow> id_position k (map Some xs) (Some x) = Ok None"
  by (induction xs arbitrary: k) auto

lemma id_position_distinct:
  "distinct xs \<Longrightarrow> i < length xs \<Longrightarrow> id_position k (map Some xs) (Some (xs ! i)) = Ok (Some (k + int i))"
proof (induction xs arbitrary: k i)
  case (Cons x xs)
  then show ?case by (cases i) (auto simp: nth_eq_iff_index_eq)
qed simp

end
