(* ===== verification/ReshareRounds.thy ===== *)
theory ReshareRounds
  imports Reshare
begin

text \<open>
  \<^verbatim>\<open>smpc-lib/ecdsa/reshare/round_0.go\<close> to \<^verbatim>\<open>round_6.go\<close>: the seven rounds of the resharing, and the node as
  an instance of the driver's interface.
\<close>

section \<open>Shared steps\<close>

definition re_from :: "ReDNode \<Rightarrow> int \<Rightarrow> ReRoundMessage" where
  "re_from p index = rm_SetFromIndex index (rm_SetFromID (d_dnodeid p) new_ReRoundMessage)"

definition re_send :: "ReMessage \<Rightarrow> ReDNode \<Rightarrow> ReDNode" where
  "re_send re p = p\<lparr>q_out := q_out p @ [re]\<rparr>"

text \<open>\<^verbatim>\<open>round.temp.reshareRoundXMessages[index] = re\<close> followed by \<^verbatim>\<open>round.out <- re\<close>.\<close>

definition re_put_send :: "int \<Rightarrow> ReMessage \<Rightarrow> ReDNode \<Rightarrow> (ReDNode, unit) st" where
  "re_put_send index re p = bindst (re_put_slot index re p) (\<lambda>p _. (re_send re p, Ok ()))"

text \<open>The common head of the \<^verbatim>\<open>Start\<close> methods.\<close>

definition re_begin :: "nat \<Rightarrow> ReDNode \<Rightarrow> (ReDNode, unit) st" where
  "re_begin n p =
     (if d_started p then (p, Err ''round already started'')
      else (re_ResetOK (p\<lparr>d_number := n, d_started := True\<rparr>), Ok ()))"

definition re_sample :: "ReDNode \<Rightarrow> (tape \<Rightarrow> ('a \<times> tape) res) \<Rightarrow> (ReDNode, 'a) st" where
  "re_sample p f = tryr (f (q_tape p)) p (\<lambda>(a, tape). (p\<lparr>q_tape := tape\<rparr>, Ok a))"

section \<open>Round 0\<close>

definition re_round0_Start :: "ReDNode \<Rightarrow> (ReDNode, unit) st" where
  "re_round0_Start p =
     bindst (re_begin 0 p) (\<lambda>p _.
       let re = ReRound0Message (re_from p (-1));
           p = re_set_temp (\<lambda>t. t\<lparr>reshareRound0Messages := reshareRound0Messages t @ [Some re]\<rparr>) p
       in (re_send re p, Ok ()))"

section \<open>Round 1\<close>

text \<open>The weight is computed by the loop of signing's round 1 on \<^verbatim>\<open>round.idreshare\<close>.\<close>

definition re_round1_Start :: "KgEnv \<Rightarrow> ReDNode \<Rightarrow> (ReDNode, unit) st" where
  "re_round1_Start env p =
     (let E = ke_E env in
      bindst (re_begin 1 p) (\<lambda>p _.
      if \<not> d_oldnode p then (p, Ok ())
      else if d_threshold p \<le> 1 \<or> d_dnodecount p < d_threshold p then (p, Err ''threshold value error'')
      else
      tryr (re_GetDNodeIDIndex p (d_dnodeid p)) p (\<lambda>index.
      tryr (round1_w1 E (d_idreshare p) index (sd_SkU1 (q_data p))) p (\<lambda>w1.
      let p = re_set_temp (\<lambda>t. t\<lparr>rt_w1 := Some w1\<rparr>) p
      in bindst (re_sample p (\<lambda>t. drop_err (Vss2Init E (Some w1) (d_threshold p) t))) (\<lambda>p (skP1Poly, skP1PolyG).
         tryr (ScalarBaseMult E (Bytes w1)) p (\<lambda>skP1G.
         bindst (re_sample p (Commit (ke_H env) (commit_secrets skP1G skP1PolyG))) (\<lambda>p commitSkP1G.
         case commitSkP1G of
           None \<Rightarrow> (p, Err '' Error generating commitment data in reshare round 1'')
         | Some com \<Rightarrow>
             re_put_send index (ReRound1Message (re_from p index) (com_C com))
               (re_set_temp (\<lambda>t. t\<lparr>rt_comd := com_D com, rt_skP1Poly := Some skP1Poly, rt_skP1PolyG := skP1PolyG\<rparr>) p))))))))"

section \<open>Round 2\<close>

text \<open>
  The double loop that distributes the shares.  The own share goes to the position of the node in
  the old group, the others carry this position as \<^verbatim>\<open>FromIndex\<close>.
\<close>

fun re_give_share :: "int \<Rightarrow> int \<Rightarrow> int \<Rightarrow> int option \<Rightarrow> ShareStruct2 list \<Rightarrow> ReDNode \<Rightarrow> (ReDNode, unit) st" where
  "re_give_share curIndexReshare curIndex k idv [] p = (p, Ok ())"
| "re_give_share curIndexReshare curIndex k idv (v # vs) p =
     (case GetSharesID (Some v) of
        None \<Rightarrow> re_give_share curIndexReshare curIndex k idv vs p
      | Some vv \<Rightarrow>
          tryr (deref idv) p (\<lambda>i.
            if vv = i \<and> k = curIndex then
              bindst (re_put_slot curIndexReshare (ReRound2Message (re_from p curIndexReshare) (ss_ID v) (ss_Share v)) p)
                (\<lambda>p _. (p, Ok ()))
            else if vv = i then
              (re_send (ReRound2Message (rm_AppendToID (to_id idv) (re_from p curIndexReshare)) (ss_ID v) (ss_Share v)) p, Ok ())
            else re_give_share curIndexReshare curIndex k idv vs p))"

fun re_give_shares :: "int \<Rightarrow> int \<Rightarrow> ShareStruct2 list \<Rightarrow> int \<Rightarrow> int option list \<Rightarrow> ReDNode \<Rightarrow> (ReDNode, unit) st" where
  "re_give_shares curIndexReshare curIndex shares k [] p = (p, Ok ())"
| "re_give_shares curIndexReshare curIndex shares k (i # is) p =
     bindst (re_give_share curIndexReshare curIndex k i shares p) (\<lambda>p _.
       re_give_shares curIndexReshare curIndex shares (k + 1) is p)"

definition re_round2_Start :: "KgEnv \<Rightarrow> ReDNode \<Rightarrow> (ReDNode, unit) st" where
  "re_round2_Start env p =
     bindst (re_begin 2 p) (\<lambda>p _.
     tryr (re_GetIDs p) p (\<lambda>ids.
     let p = re_set_save (\<lambda>d. d\<lparr>sd_IDs := ids, sd_CurDNodeID := SetString10 (d_dnodeid p)\<rparr>) p
     in if \<not> d_oldnode p then (p, Ok ())
        else case ContainsDuplicate ids of
          Ok False \<Rightarrow>
            if d_dnodecount p < int (length ids) then (p, Err ''node id error'')
            else tryr (deref (rt_skP1Poly (q_temp p))) p (\<lambda>poly.
                 tryr (Vss2 (ke_E env) poly ids) p (\<lambda>skP1Shares.
                 let p = re_set_temp (\<lambda>t. t\<lparr>rt_skP1Shares := skP1Shares\<rparr>) p
                 in tryr (re_GetDNodeIDIndex p (d_dnodeid p)) p (\<lambda>curIndexReshare.
                    tryr (id_position 0 (sd_IDs (q_data p)) (sd_CurDNodeID (q_data p))) p (\<lambda>curIndex.
                    case curIndex of
                      None \<Rightarrow> (p, Err ''get current node index fail'')
                    | Some curIndex \<Rightarrow>
                        bindst (re_give_shares curIndexReshare curIndex skP1Shares 0 ids p) (\<lambda>p _.
                        re_put_send curIndexReshare
                          (ReRound2Message1 (re_from p curIndexReshare) (rt_comd (q_temp p)) (rt_skP1PolyG (q_temp p))) p)))))
        | _ \<Rightarrow> (p, Err ''node id error'')))"

section \<open>Round 3\<close>

text \<open>The first loop: the share and the commitment of the old node at position \<open>k\<close>.\<close>

definition re_round3_check :: "KgEnv \<Rightarrow> ReDNode \<Rightarrow> nat \<Rightarrow> unit res" where
  "re_round3_check env p k =
     (let E = ke_E env; t = q_temp p in
      bindr (slice_get (reshareRound2Messages t) (int k)) (\<lambda>s2.
      bindr (re_asserted is_ReRound2Message ''round.Start get round2 msg fail'' s2) (\<lambda>msg2.
      let ushare = \<lparr>ss_ID = re_ID msg2, ss_Share = re_Share msg2\<rparr>
      in bindr (slice_get (reshareRound2Messages1 t) (int k)) (\<lambda>s21.
         bindr (re_asserted is_ReRound2Message1 ''round.Start get round2-1 msg fail'' s21) (\<lambda>msg21.
         bindr (Verify2 E ushare (re_SkP1PolyG msg21)) (\<lambda>okShare.
         if \<not> okShare then Err ''verify share data fail''
         else
         bindr (slice_get (reshareRound1Messages t) (int k)) (\<lambda>s1.
         bindr (re_asserted is_ReRound1Message ''round.Start get round1 msg fail'' s1) (\<lambda>msg1.
         bindr (Verify E (ke_H env) \<lparr>com_C = re_ComC msg1, com_D = re_ComD msg21\<rparr>) (\<lambda>okCommit.
         if \<not> okCommit then Err ''verify commitment fail'' else Ok ())))))))))"

text \<open>What the other loops read of it; a failed assertion is a \<^verbatim>\<open>nil\<close> pointer.\<close>

definition re_values :: "KgEnv \<Rightarrow> ReDNode \<Rightarrow> nat \<Rightarrow> (point \<times> int) res" where
  "re_values env p k =
     (let t = q_temp p in
      drop_err (
      bindr (slice_get (reshareRound2Messages1 t) (int k)) (\<lambda>s21. bindr (re_asserted is_ReRound2Message1 [] s21) (\<lambda>msg21.
      bindr (slice_get (reshareRound1Messages t) (int k)) (\<lambda>s1. bindr (re_asserted is_ReRound1Message [] s1) (\<lambda>msg1.
      bindr (slice_get (reshareRound2Messages t) (int k)) (\<lambda>s2. bindr (re_asserted is_ReRound2Message [] s2) (\<lambda>msg2.
      bindr (DeCommit (ke_E env) (ke_H env) \<lparr>com_C = re_ComC msg1, com_D = re_ComD msg21\<rparr>) (\<lambda>(_, u1G).
      bindr (slice_pair u1G) (\<lambda>pt.
      bindr (deref (re_Share msg2)) (\<lambda>share. Ok (pt, share))))))))))))"

fun re_add :: "KgEnv \<Rightarrow> ReDNode \<Rightarrow> point \<times> int \<Rightarrow> nat \<Rightarrow> (point \<times> int) res" where
  "re_add env p (pk, newskU1) k =
     bindr (re_values env p k) (\<lambda>(pt, share).
     bindr (Add (ke_E env) pk pt) (\<lambda>pk. Ok (pk, newskU1 + share)))"

definition re_sums :: "KgEnv \<Rightarrow> ReDNode \<Rightarrow> nat \<Rightarrow> (point \<times> int) res" where
  "re_sums env p n =
     (if n = 0 then deref None
      else bindr (re_values env p 0) (\<lambda>v. foldM (re_add env p) v [1..<n]))"

definition re_round3_keys :: "KgEnv \<Rightarrow> ReDNode \<Rightarrow> (ReDNode, unit) st" where
  "re_round3_keys env p =
     tryr (re_sums env p (length (reshareRound1Messages (q_temp p)))) p (\<lambda>(pk, newskU1).
       let newskU1 = newskU1 mod cN (ke_E env);
           p = re_set_save (\<lambda>d. d\<lparr>sd_SkU1 := Some newskU1, sd_Pkx := map_option fst pk, sd_Pky := map_option snd pk\<rparr>) p
       in (re_set_temp (\<lambda>t. t\<lparr>rt_pkx := map_option fst pk, rt_pky := map_option snd pk, rt_newskU1 := Some newskU1\<rparr>) p,
           Ok ()))"

text \<open>The position of the own identifier in \<^verbatim>\<open>round.Save.IDs\<close>, as the rounds 3 to 6 look it up.\<close>

definition re_cur_index :: "ReDNode \<Rightarrow> int res" where
  "re_cur_index p =
     (case SetString10 (d_dnodeid p) of
        None \<Rightarrow> Err ''get id big number fail''
      | Some idtmp \<Rightarrow>
          bindr (id_position 0 (sd_IDs (q_data p)) (Some idtmp)) (\<lambda>k.
            case k of Some k \<Rightarrow> Ok k | None \<Rightarrow> Err ''get cur index fail''))"

text \<open>An old node keeps its Paillier key, a new node generates one; a failed generation leaves \<^verbatim>\<open>nil\<close>.\<close>

definition re_paillier :: "KgEnv \<Rightarrow> ReDNode \<Rightarrow> (ReDNode, PrivateKey option \<times> PublicKey option) st" where
  "re_paillier env p =
     (if d_oldnode p \<and> d_oldindex p \<noteq> -1
      then tryr (slice_get (sd_U1PaillierPk (q_data p)) (d_oldindex p)) p (\<lambda>pk.
             (p, Ok (sd_U1PaillierSk (q_data p), pk)))
      else case GenerateKeyPair (d_paillierkeylength p) (q_primes p) of
        (primes, r) \<Rightarrow> tryr r (p\<lparr>q_primes := primes\<rparr>) (\<lambda>r.
          (p\<lparr>q_primes := primes\<rparr>, Ok (case r of None \<Rightarrow> (None, None) | Some (pk, sk, _, _) \<Rightarrow> (Some sk, Some pk)))))"

definition re_round3_Start :: "KgEnv \<Rightarrow> ReDNode \<Rightarrow> (ReDNode, unit) st" where
  "re_round3_Start env p =
     bindst (re_begin 3 p) (\<lambda>p _.
     tryr (mapM (re_round3_check env p) [0..<length (reshareRound1Messages (q_temp p))]) p (\<lambda>_.
     bindst (re_round3_keys env p) (\<lambda>p _.
     tryr (re_cur_index p) p (\<lambda>curIndex.
     bindst (re_paillier env p) (\<lambda>p (sk, pk).
       re_put_send curIndex (ReRound3Message (re_from p curIndex) pk)
         (re_set_temp (\<lambda>t. t\<lparr>rt_u1PaillierSk := sk, rt_u1PaillierPk := pk\<rparr>) p))))))"

section \<open>Round 4\<close>

text \<open>An old node keeps its auxiliary modulus, a new node generates one.\<close>

definition re_ntilde :: "ReDNode \<Rightarrow> (ReDNode, NtildeH1H2 \<times> NtildePrivData) st" where
  "re_ntilde p =
     (if d_oldnode p \<and> d_oldindex p \<noteq> -1
      then tryr (slice_get (sd_U1NtildeH1H2 (q_data p)) (d_oldindex p)) p (\<lambda>nt.
           tryr (deref (sd_U1NtildePrivData (q_data p))) p (\<lambda>priv.
           tryr (deref nt) p (\<lambda>nt. (p, Ok (nt, priv)))))
      else case GenerateNtildeH1H2 2048 (q_primes p, q_tape p) of
        ((primes, tape), r) \<Rightarrow>
          tryr r (p\<lparr>q_primes := primes, q_tape := tape\<rparr>) (\<lambda>r.
            case r of
              None \<Rightarrow> (p\<lparr>q_primes := primes, q_tape := tape\<rparr>, Err ''gen ntilde h1 h2 fail'')
            | Some (nt, alpha, beta, pp, qq, _, _) \<Rightarrow>
                (p\<lparr>q_primes := primes, q_tape := tape\<rparr>,
                 Ok (nt, \<lparr>npd_Alpha = alpha, npd_Beta = beta, npd_Q1 = pp, npd_Q2 = qq\<rparr>))))"

definition re_round4_Start :: "KgEnv \<Rightarrow> ReDNode \<Rightarrow> (ReDNode, unit) st" where
  "re_round4_Start env p =
     bindst (re_begin 4 p) (\<lambda>p _.
     tryr (re_cur_index p) p (\<lambda>curIndex.
     bindst (re_ntilde p) (\<lambda>p (nt, priv).
     bindst (re_sample p (NewNtildeProof (ke_sha env) (nt_H1 nt) (nt_H2 nt) (npd_Alpha priv) (npd_Q1 priv) (npd_Q2 priv) (nt_Ntilde nt))) (\<lambda>p pf1.
     bindst (re_sample p (NewNtildeProof (ke_sha env) (nt_H2 nt) (nt_H1 nt) (npd_Beta priv) (npd_Q1 priv) (npd_Q2 priv) (nt_Ntilde nt))) (\<lambda>p pf2.
       re_put_send curIndex (ReRound4Message (re_from p curIndex) (Some nt) (Some pf1) (Some pf2))
         (re_set_temp (\<lambda>t. t\<lparr>rt_u1NtildeH1H2 := Some nt, rt_u1NtildePrivData := Some priv\<rparr>) p))))))"

section \<open>Rounds 5 and 6\<close>

definition re_round5_Start :: "ReDNode \<Rightarrow> (ReDNode, unit) st" where
  "re_round5_Start p =
     bindst (re_begin 5 p) (\<lambda>p _.
     tryr (re_cur_index p) p (\<lambda>curIndex.
       re_put_send curIndex (ReRound5Message (re_from p curIndex) ''TRUE'') p))"

definition re_round6_Start :: "ReDNode \<Rightarrow> (ReDNode, unit) st" where
  "re_round6_Start p =
     bindst (re_begin 6 p) (\<lambda>p _.
     tryr (re_cur_index p) p (\<lambda>curIndex.
     let t = q_temp p;
         p = re_set_save (\<lambda>d. d\<lparr>sd_SkU1 := rt_newskU1 t, sd_Pkx := rt_pkx t, sd_Pky := rt_pky t,
               sd_U1PaillierSk := rt_u1PaillierSk t\<rparr>) p
     in tryr (slice_set (sd_U1PaillierPk (q_data p)) curIndex (rt_u1PaillierPk t)) p (\<lambda>pks.
        let p = re_set_save (\<lambda>d. d\<lparr>sd_U1PaillierPk := pks\<rparr>) p
        in tryr (slice_set (sd_U1NtildeH1H2 (q_data p)) curIndex (rt_u1NtildeH1H2 t)) p (\<lambda>nts.
           let p = re_set_save (\<lambda>d. d\<lparr>sd_U1NtildeH1H2 := nts, sd_U1NtildePrivData := rt_u1NtildePrivData t\<rparr>) p
           in (p\<lparr>q_end := q_end p @ [q_data p]\<rparr>, Ok ())))))"

section \<open>CanAccept, Update and NextRound\<close>

definition re_CanAccept :: "nat \<Rightarrow> ReMessage \<Rightarrow> bool" where
  "re_CanAccept n msg =
     (if n = 0 then (if is_ReRound0Message msg then re_IsBroadcast msg else False)
      else if n = 1 then (if is_ReRound1Message msg then re_IsBroadcast msg else False)
      else if n = 2 then (if is_ReRound2Message msg then \<not> re_IsBroadcast msg
                          else if is_ReRound2Message1 msg then re_IsBroadcast msg else False)
      else if n = 3 then (if is_ReRound3Message msg then re_IsBroadcast msg else False)
      else if n = 4 then (if is_ReRound4Message msg then re_IsBroadcast msg else False)
      else if n = 5 then (if is_ReRound5Message msg then re_IsBroadcast msg else False)
      else False)"

text \<open>The slices \<^verbatim>\<open>Update\<close> looks at, the one it ranges over first.\<close>

definition re_update_slots :: "nat \<Rightarrow> ReTempData \<Rightarrow> re_slots list" where
  "re_update_slots n t =
     (if n = 0 then [reshareRound0Messages t]
      else if n = 1 then [reshareRound1Messages t]
      else if n = 2 then [reshareRound2Messages t, reshareRound2Messages1 t]
      else if n = 3 then [reshareRound3Messages t]
      else if n = 4 then [reshareRound4Messages t]
      else if n = 5 then [reshareRound5Messages t]
      else [])"

fun re_all_accepted :: "nat \<Rightarrow> re_slots list \<Rightarrow> nat \<Rightarrow> bool res" where
  "re_all_accepted n [] j = Ok True"
| "re_all_accepted n (ms # mss) j =
     bindr (slice_get ms (int j)) (\<lambda>slot.
       case slot of
         None \<Rightarrow> Ok False
       | Some msg \<Rightarrow> if \<not> re_CanAccept n msg then Ok False else re_all_accepted n mss j)"

text \<open>After the last position, a round other than round 0 marks all flags: there may be more flags
  (one per node of the new group) than messages (one per node of the old group).\<close>

definition re_mark :: "nat \<Rightarrow> nat \<Rightarrow> nat \<Rightarrow> bool list \<Rightarrow> bool list" where
  "re_mark n len j ok =
     (let ok = ok[j := True] in if n \<noteq> 0 \<and> j = len - 1 then map (\<lambda>_. True) ok else ok)"

fun re_update_loop :: "nat \<Rightarrow> nat \<Rightarrow> nat list \<Rightarrow> ReDNode \<Rightarrow> (ReDNode, bool) st" where
  "re_update_loop n len [] p = (p, Ok True)"
| "re_update_loop n len (j # js) p =
     tryr (slice_get (d_ok p) (int j)) p (\<lambda>okj.
       if okj then re_update_loop n len js p
       else tryr (re_all_accepted n (re_update_slots n (q_temp p)) j) p (\<lambda>b.
         if \<not> b then (p, Ok False)
         else re_update_loop n len js (p\<lparr>d_ok := re_mark n len j (d_ok p)\<rparr>)))"

definition re_Update :: "ReDNode \<Rightarrow> (ReDNode, bool) st" where
  "re_Update p =
     (case q_rnd p of
        None \<Rightarrow> (p, Panic ''nil pointer dereference'')
      | Some n \<Rightarrow>
          (case re_update_slots n (q_temp p) of
             [] \<Rightarrow> (p, Ok False)
           | ms # _ \<Rightarrow> re_update_loop n (length ms) [0..<length ms] p))"

definition re_NextRound :: "ReDNode \<Rightarrow> ReDNode \<times> nat option" where
  "re_NextRound p =
     (case q_rnd p of
        None \<Rightarrow> (p, None)
      | Some n \<Rightarrow> if n < 6 then (p\<lparr>d_started := False\<rparr>, Some (n + 1)) else (p, None))"

definition re_Start :: "KgEnv \<Rightarrow> ReDNode \<Rightarrow> (ReDNode, unit) st" where
  "re_Start env p =
     (case q_rnd p of
        None \<Rightarrow> (p, Panic ''nil pointer dereference'')
      | Some n \<Rightarrow>
          if n = 0 then re_round0_Start p
          else if n = 1 then re_round1_Start env p
          else if n = 2 then re_round2_Start env p
          else if n = 3 then re_round3_Start env p
          else if n = 4 then re_round4_Start env p
          else if n = 5 then re_round5_Start p
          else re_round6_Start p)"

definition re_node :: "KgEnv \<Rightarrow> (ReDNode, ReMessage) DNode" where
  "re_node env =
     \<lparr>dn_DNodeID = q_ID, dn_Round = q_rnd, dn_rnd = (\<lambda>r p. p\<lparr>q_rnd := r\<rparr>),
      dn_Finalize = (\<lambda>_. False), dn_FinalizeRound = (\<lambda>p. (p, None)), dn_FirstRound = re_FirstRound,
      dn_StoreMessage = re_StoreMessage env, dn_Start = re_Start env, dn_Update = re_Update,
      dn_CanProceed = re_CanProceed, dn_NextRound = re_NextRound, dn_ResetOK = re_ResetOK\<rparr>"

end
