(* ===== verification/ReshareInv.thy ===== *)
theory ReshareInv
  imports ReshareRounds
begin

text \<open>
  Invariants of the resharing, along the lines of the key generation: \<open>re_frame\<close> relates the states before
  and after a piece of code that neither moves to another round nor touches the flags, and \<open>re_inv\<close> is the
  invariant of the reachable states.
\<close>

section \<open>What a piece of a round may change\<close>

definition re_grows :: "ReTempData \<Rightarrow> ReTempData \<Rightarrow> bool" where
  "re_grows t t' \<longleftrightarrow> reshareRound0Messages t' = reshareRound0Messages t \<and> slots_grow re_slots_of re_GetMsgType t t'"

definition re_frame :: "ReDNode \<Rightarrow> ReDNode \<Rightarrow> bool" where
  "re_frame p p' \<longleftrightarrow> q_rnd p' = q_rnd p \<and> q_ID p' = q_ID p \<and> q_DNodeCountInGroup p' = q_DNodeCountInGroup p \<and>
     q_ThresHold p' = q_ThresHold p \<and> q_firstround p' = q_firstround p \<and> d_ok p' = d_ok p \<and> d_started p' = d_started p \<and>
     re_grows (q_temp p) (q_temp p')"

named_theorems re_intros \<open>the pieces of a resharing round keep the frame\<close>

lemma re_frame_refl [simp]: "re_frame p p"
  by (simp add: re_frame_def re_grows_def)

interpretation ref: framing re_frame
  by unfold_locales (rule re_frame_refl)

declare ref.fr_intros [re_intros]

interpretation res: slot_store re_slots_of re_slots_update re_GetMsgType
  by unfold_locales (simp, erule re_slots_update_other, erule re_slots_of_eq)

lemma re_frame_temp:
  assumes "re_frame p s" "re_grows (q_temp s) t" shows "re_frame p (s\<lparr>q_temp := t\<rparr>)"
  using assms slots_grow_trans by (fastforce simp: re_frame_def re_grows_def)

lemma re_frame_set_temp [re_intros]:
  assumes "re_frame p s" "\<And>kind. re_slots_of kind (f (q_temp s)) = re_slots_of kind (q_temp s)"
  shows "re_frame p (re_set_temp f s)"
proof -
  have "reshareRound0Messages (f (q_temp s)) = reshareRound0Messages (q_temp s)"
    using assms(2) [of "ReRound0Message undefined"] by simp
  then show ?thesis
    unfolding re_set_temp_def using assms by (intro re_frame_temp) (simp_all add: re_grows_def slots_grow_def)
qed

lemma re_frame_simple [re_intros]:
  "re_frame p s \<Longrightarrow> re_frame p (re_set_save f s)"
  "re_frame p s \<Longrightarrow> re_frame p (re_send msg s)"
  "re_frame p s \<Longrightarrow> re_frame p (s\<lparr>q_primes := primes\<rparr>)"
  "re_frame p s \<Longrightarrow> re_frame p (s\<lparr>q_primes := primes, q_tape := tape\<rparr>)"
  "re_frame p s \<Longrightarrow> re_frame p (s\<lparr>q_end := e\<rparr>)"
  by (simp_all add: re_frame_def re_set_save_def re_send_def)

lemma re_frame_put_slot [re_intros]:
  assumes "re_frame p s" "re_GetMsgType msg \<noteq> ''ReRound0Message''"
  shows "re_frame p (fst (re_put_slot index msg s))"
proof -
  have "reshareRound0Messages (re_slots_update msg ms t) = reshareRound0Messages t" for ms t
    using assms(2) by (cases msg) auto
  then show ?thesis
    using assms(1) res.grow_put [of msg "q_temp s" index]
    by (cases "slice_set (re_slots_of msg (q_temp s)) index (Some msg)")
      (auto simp: re_put_slot_def re_grows_def intro: re_frame_temp)
qed

lemma re_frame_put_send [re_intros]:
  "re_frame p s \<Longrightarrow> re_GetMsgType msg \<noteq> ''ReRound0Message'' \<Longrightarrow> re_frame p (fst (re_put_send index msg s))"
  unfolding re_put_send_def by (intro re_intros)

lemma re_frame_sample [re_intros]: "re_frame p s \<Longrightarrow> re_frame p (fst (re_sample s f))"
  by (cases "f (q_tape s)") (auto simp: re_sample_def re_frame_def)

lemma re_slots_of_temp [simp]:
  "re_slots_of kind (t\<lparr>rt_w1 := x1\<rparr>) = re_slots_of kind t"
  "re_slots_of kind (t\<lparr>rt_comd := x2\<rparr>) = re_slots_of kind t"
  "re_slots_of kind (t\<lparr>rt_skP1Poly := x3\<rparr>) = re_slots_of kind t"
  "re_slots_of kind (t\<lparr>rt_skP1PolyG := x4\<rparr>) = re_slots_of kind t"
  "re_slots_of kind (t\<lparr>rt_skP1Shares := x5\<rparr>) = re_slots_of kind t"
  "re_slots_of kind (t\<lparr>rt_pkx := x6\<rparr>) = re_slots_of kind t"
  "re_slots_of kind (t\<lparr>rt_pky := x7\<rparr>) = re_slots_of kind t"
  "re_slots_of kind (t\<lparr>rt_newskU1 := x8\<rparr>) = re_slots_of kind t"
  "re_slots_of kind (t\<lparr>rt_u1PaillierSk := x9\<rparr>) = re_slots_of kind t"
  "re_slots_of kind (t\<lparr>rt_u1PaillierPk := x10\<rparr>) = re_slots_of kind t"
  "re_slots_of kind (t\<lparr>rt_u1NtildeH1H2 := x11\<rparr>) = re_slots_of kind t"
  "re_slots_of kind (t\<lparr>rt_u1NtildePrivData := x12\<rparr>) = re_slots_of kind t"
  by (cases kind; simp)+

section \<open>The Start methods\<close>

definition re_begun :: "nat \<Rightarrow> ReDNode \<Rightarrow> ReDNode" where
  "re_begun n p = re_ResetOK (p\<lparr>d_number := n, d_started := True\<rparr>)"

lemma re_begin_Ok_iff: "re_begin n p = (s, Ok u) \<longleftrightarrow> \<not> d_started p \<and> s = re_begun n p"
  by (auto simp: re_begin_def re_begun_def)

lemma re_frame_begin:
  assumes "\<And>s. re_frame (re_begun n p) s \<Longrightarrow> re_frame (re_begun n p) (fst (k s ()))"
  shows "if d_started p then fst (bindst (re_begin n p) k) = p
         else re_frame (re_begun n p) (fst (bindst (re_begin n p) k))"
  using assms [of "re_begun n p"] by (simp add: re_begin_def re_begun_def)

lemma re_frame_give_share [re_intros]: "re_frame p s \<Longrightarrow> re_frame p (fst (re_give_share c' c k i vs s))"
proof (induction vs arbitrary: s)
  case (Cons v vs)
  then show ?case unfolding re_give_share.simps by (intro re_intros) auto
qed simp

lemma re_frame_give_shares [re_intros]: "re_frame p s \<Longrightarrow> re_frame p (fst (re_give_shares c' c shares k is s))"
  by (induction "is" arbitrary: k s) (auto intro!: re_intros)

lemma re_frame_keys [re_intros]: "re_frame p s \<Longrightarrow> re_frame p (fst (re_round3_keys env s))"
  unfolding re_round3_keys_def Let_def by (intro re_intros) auto

lemma re_frame_paillier [re_intros]: "re_frame p s \<Longrightarrow> re_frame p (fst (re_paillier env s))"
  unfolding re_paillier_def by (intro re_intros)

lemma re_frame_ntilde [re_intros]: "re_frame p s \<Longrightarrow> re_frame p (fst (re_ntilde s))"
  unfolding re_ntilde_def by (intro re_intros)

lemma re_round0_effect:
  "if d_started p then fst (re_round0_Start p) = p
   else fst (re_round0_Start p) = re_send (ReRound0Message (re_from p (-1)))
     (re_set_temp (\<lambda>t. t\<lparr>reshareRound0Messages := reshareRound0Messages t @ [Some (ReRound0Message (re_from p (-1)))]\<rparr>) (re_begun 0 p))"
  by (simp add: re_round0_Start_def re_begin_def re_begun_def Let_def re_from_def re_ResetOK_def)

lemma re_frame_rounds:
  "if d_started p then fst (re_round1_Start env p) = p else re_frame (re_begun 1 p) (fst (re_round1_Start env p))"
  "if d_started p then fst (re_round2_Start env p) = p else re_frame (re_begun 2 p) (fst (re_round2_Start env p))"
  "if d_started p then fst (re_round3_Start env p) = p else re_frame (re_begun 3 p) (fst (re_round3_Start env p))"
  "if d_started p then fst (re_round4_Start env p) = p else re_frame (re_begun 4 p) (fst (re_round4_Start env p))"
  "if d_started p then fst (re_round5_Start p) = p else re_frame (re_begun 5 p) (fst (re_round5_Start p))"
  "if d_started p then fst (re_round6_Start p) = p else re_frame (re_begun 6 p) (fst (re_round6_Start p))"
  unfolding re_round1_Start_def re_round2_Start_def re_round3_Start_def re_round4_Start_def re_round5_Start_def
    re_round6_Start_def Let_def
  by (rule re_frame_begin, (intro re_intros; simp))+

section \<open>Storing a message\<close>

lemma re_frame_StoreMessage:
  assumes "re_GetMsgType msg \<noteq> ''ReRound0Message''"
  shows "re_frame p (fst (re_StoreMessage env p msg))"
  using assms
  by (cases msg) (simp_all only: re_StoreMessage_def ReMessage.case Let_def re_GetMsgType.simps, (intro re_intros; simp)+)

definition re_store0 :: "ReDNode \<Rightarrow> ReMessage \<Rightarrow> ReDNode" where
  "re_store0 p msg = re_set_temp (\<lambda>t. t\<lparr>reshareRound0Messages := reshareRound0Messages t @ [Some msg]\<rparr>) p"

lemma re_StoreMessage_round0:
  "fst (re_StoreMessage env p (ReRound0Message b)) =
     (if \<not> re_find (reshareRound0Messages (q_temp p)) (ReRound0Message b) \<and>
         int (length (reshareRound0Messages (q_temp p))) < q_DNodeCountInGroup p
      then re_store0 p (ReRound0Message b) else p)"
  by (simp add: re_StoreMessage_def re_store0_def Let_def)

section \<open>The invariant\<close>

text \<open>
  The slot \<open>j\<close> of every slice that round \<open>m\<close> waits for is filled, if there is such a slot; the slice of
  round 0 grows with the messages, so there it has to exist.
\<close>

definition re_filled :: "nat \<Rightarrow> nat \<Rightarrow> ReTempData \<Rightarrow> bool" where
  "re_filled m j t \<longleftrightarrow> (\<forall>ms \<in> set (re_update_slots m t). (m = 0 \<longrightarrow> j < length ms) \<and> (j < length ms \<longrightarrow> ms ! j \<noteq> None))"

text \<open>The messages of the rounds 1 and 2 come from the old group, the others from the new group.\<close>

definition re_size :: "int \<Rightarrow> int \<Rightarrow> ReMessage \<Rightarrow> nat" where
  "re_size th c kind = (if is_ReRound1Message kind \<or> is_ReRound2Message kind \<or> is_ReRound2Message1 kind then nat th else nat c)"

definition re_shape :: "int \<Rightarrow> int \<Rightarrow> ReTempData \<Rightarrow> bool" where
  "re_shape th c t \<longleftrightarrow> (\<forall>kind. (re_GetMsgType kind \<noteq> ''ReRound0Message'' \<longrightarrow> length (re_slots_of kind t) = re_size th c kind) \<and>
     (\<forall>m. Some m \<in> set (re_slots_of kind t) \<longrightarrow> re_GetMsgType m = re_GetMsgType kind))"

definition re_round0_ok :: "int \<Rightarrow> ReTempData \<Rightarrow> bool" where
  "re_round0_ok c t \<longleftrightarrow> None \<notin> set (reshareRound0Messages t) \<and> length (reshareRound0Messages t) \<le> max 1 (nat c)"

definition re_inv :: "int \<Rightarrow> int \<Rightarrow> ReDNode \<Rightarrow> bool" where
  "re_inv th c p \<longleftrightarrow> q_DNodeCountInGroup p = c \<and> q_ThresHold p = th \<and> re_shape th c (q_temp p) \<and> re_round0_ok c (q_temp p) \<and>
     (q_rnd p = Some 0 \<longrightarrow> d_started p) \<and>
     (\<forall>n. q_rnd p = Some n \<longrightarrow>
        length (d_ok p) = nat c \<and>
        (d_started p \<longrightarrow> (\<forall>j < length (d_ok p). d_ok p ! j \<longrightarrow> re_filled n j (q_temp p))) \<and>
        (\<forall>m < n. \<forall>j < nat c. re_filled m j (q_temp p)))"

definition re_kinds :: "nat \<Rightarrow> ReMessage list" where
  "re_kinds m =
     (let b = new_ReRoundMessage
      in if m = 0 then [ReRound0Message b]
         else if m = 1 then [ReRound1Message b None]
         else if m = 2 then [ReRound2Message b None None, ReRound2Message1 b [] []]
         else if m = 3 then [ReRound3Message b None]
         else if m = 4 then [ReRound4Message b None None None]
         else if m = 5 then [ReRound5Message b []] else [])"

lemma re_update_slots_kinds: "re_update_slots m t = map (\<lambda>kind. re_slots_of kind t) (re_kinds m)"
  by (simp add: re_update_slots_def re_kinds_def Let_def)

lemma re_kinds_accepted:
  "kind \<in> set (re_kinds m) \<Longrightarrow> re_GetMsgType msg = re_GetMsgType kind \<Longrightarrow> re_CanAccept m msg"
  by (cases msg) (auto simp: re_kinds_def re_CanAccept_def Let_def split: if_splits)

lemma re_kinds_size:
  assumes "re_shape th c t" "m \<noteq> 0" "ms \<in> set (re_update_slots m t)"
  shows "length ms = (if m \<le> 2 then nat th else nat c)"
proof -
  obtain kind where kind: "kind \<in> set (re_kinds m)" "ms = re_slots_of kind t"
    using assms(3) by (auto simp: re_update_slots_kinds)
  have "re_GetMsgType kind \<noteq> ''ReRound0Message'' \<and> re_size th c kind = (if m \<le> 2 then nat th else nat c)"
    using kind(1) assms(2) by (auto simp: re_kinds_def re_size_def Let_def split: if_splits)
  then show ?thesis using assms(1) kind(2) by (simp add: re_shape_def)
qed

lemma re_filled_grows: "re_grows t t' \<Longrightarrow> re_filled m j t \<Longrightarrow> re_filled m j t'"
  by (fastforce simp: re_filled_def re_grows_def slots_grow_def re_update_slots_kinds)

lemma re_frame_inv:
  assumes "re_frame p p'" "re_inv th c p" shows "re_inv th c p'"
proof -
  note f = assms(1) [unfolded re_frame_def]
  have grows: "re_grows (q_temp p) (q_temp p')" using f by blast
  have "re_shape th c (q_temp p')"
    using f grows assms(2) unfolding re_inv_def re_shape_def re_grows_def slots_grow_def by metis
  moreover have "re_round0_ok c (q_temp p')"
    using grows assms(2) by (simp add: re_inv_def re_grows_def re_round0_ok_def)
  ultimately show ?thesis using f assms(2) re_filled_grows [OF grows] by (auto simp: re_inv_def)
qed

text \<open>A further round 0 message.\<close>

lemma re_slots_of_round0_update:
  "re_slots_of kind (t\<lparr>reshareRound0Messages := ms\<rparr>) =
     (if re_GetMsgType kind = ''ReRound0Message'' then ms else re_slots_of kind t)"
  by (cases kind) auto

lemma re_filled_append: "re_filled m j t \<Longrightarrow> re_filled m j (t\<lparr>reshareRound0Messages := reshareRound0Messages t @ [Some x]\<rparr>)"
  by (auto simp: re_filled_def re_update_slots_def nth_append split: if_splits)

lemma re_shape_append:
  assumes "re_shape th c t" "re_GetMsgType m = ''ReRound0Message''"
  shows "re_shape th c (t\<lparr>reshareRound0Messages := reshareRound0Messages t @ [Some m]\<rparr>)"
proof -
  have "Some m' \<in> set (reshareRound0Messages t) \<Longrightarrow> re_GetMsgType m' = ''ReRound0Message''" for m'
    using assms(1) by (force simp: re_shape_def dest: spec [of _ "ReRound0Message undefined"])
  then show ?thesis using assms by (auto simp: re_shape_def re_slots_of_round0_update)
qed

lemma re_inv_store0:
  assumes "re_inv th c p" "re_GetMsgType m = ''ReRound0Message''" "length (reshareRound0Messages (q_temp p)) < max 1 (nat c)"
  shows "re_inv th c (re_store0 p m)"
  using assms re_filled_append [where x = m] re_shape_append [OF _ assms(2)]
  by (auto simp: re_inv_def re_store0_def re_set_temp_def re_round0_ok_def)

lemma re_inv_StoreMessage:
  assumes "re_inv th c p" shows "re_inv th c (fst (re_StoreMessage env p msg))"
proof (cases "re_GetMsgType msg = ''ReRound0Message''")
  case False
  then show ?thesis using re_frame_inv [OF re_frame_StoreMessage] assms by blast
next
  case True
  then obtain b where b: "msg = ReRound0Message b" by (cases msg) auto
  have "int (length (reshareRound0Messages (q_temp p))) < q_DNodeCountInGroup p \<Longrightarrow> re_inv th c (re_store0 p msg)"
    using assms True by (intro re_inv_store0) (auto simp: re_inv_def)
  then show ?thesis using assms by (simp add: b re_StoreMessage_round0)
qed

lemma re_inv_CheckReshareMsg0:
  assumes "re_inv th c p" shows "re_inv th c (fst (CheckReshareMsg0 p msg))"
proof (cases msg)
  case (ReRound0Message b)
  have "int (length (reshareRound0Messages (q_temp p))) = c - 1 \<Longrightarrow> re_inv th c (re_store0 p msg)"
    using assms ReRound0Message by (intro re_inv_store0) auto
  then show ?thesis
    using assms ReRound0Message by (auto simp: CheckReshareMsg0_def Let_def re_store0_def re_inv_def)
qed (use assms in \<open>simp_all add: CheckReshareMsg0_def\<close>)

lemma re_inv_SetIDReshare: "re_inv th c p \<Longrightarrow> re_inv th c (SetIDReshare ids p)"
  by (simp add: re_inv_def SetIDReshare_def)

section \<open>Update, Start and NextRound\<close>

lemma re_all_accepted_True:
  "re_all_accepted n mss j = Ok True \<Longrightarrow> ms \<in> set mss \<Longrightarrow> j < length ms \<and> ms ! j \<noteq> None"
  by (induction n mss j rule: re_all_accepted.induct)
    (auto simp: slice_get_Ok_iff split: option.splits if_splits)

text \<open>
  The loop sets flags only.  It has passed all earlier positions when it marks all flags, so flags
  still say that their slots are filled.
\<close>

lemma re_update_loop_effect:
  assumes "\<forall>i < a. i < length (d_ok p) \<longrightarrow> d_ok p ! i" and "n \<noteq> 0 \<Longrightarrow> \<forall>ms \<in> set (re_update_slots n (q_temp p)). length ms = len"
    and flags: "\<forall>i < length (d_ok p). d_ok p ! i \<longrightarrow> re_filled n i (q_temp p)"
  shows "\<exists>ok. fst (re_update_loop n len [a..<len] p) = p\<lparr>d_ok := ok\<rparr> \<and> length ok = length (d_ok p) \<and>
     (\<forall>i < length ok. ok ! i \<longrightarrow> re_filled n i (q_temp p))"
  using assms
proof (induction "len - a" arbitrary: a p)
  case 0
  then show ?case by (intro exI [of _ "d_ok p"]) simp
next
  case (Suc k)
  have upt: "[a..<len] = a # [Suc a..<len]" "k = len - Suc a" using Suc.hyps(2) by (simp_all add: upt_rec)
  let ?ok = "re_mark n len a (d_ok p)"
  have IH: "\<exists>ok'. fst (re_update_loop n len [Suc a..<len] (p\<lparr>d_ok := ok\<rparr>)) = p\<lparr>d_ok := ok'\<rparr> \<and> length ok' = length (d_ok p) \<and>
     (\<forall>i < length ok'. ok' ! i \<longrightarrow> re_filled n i (q_temp p))"
    if "\<forall>i < Suc a. i < length ok \<longrightarrow> ok ! i" "\<forall>i < length ok. ok ! i \<longrightarrow> re_filled n i (q_temp p)" "length ok = length (d_ok p)" for ok
    using Suc.hyps(1) [OF upt(2), of "p\<lparr>d_ok := ok\<rparr>"] that Suc.prems(2) by simp
  have halt: "fst (re_update_loop n len [a..<len] p) = p"
    if "slice_get (d_ok p) (int a) \<noteq> Ok True"
      "\<not> (slice_get (d_ok p) (int a) = Ok False \<and> re_all_accepted n (re_update_slots n (q_temp p)) a = Ok True)"
    using that unfolding upt(1)
    by (cases "slice_get (d_ok p) (int a)"; cases "re_all_accepted n (re_update_slots n (q_temp p)) a") auto
  consider (skip) "slice_get (d_ok p) (int a) = Ok True"
    | (accept) "slice_get (d_ok p) (int a) = Ok False" "re_all_accepted n (re_update_slots n (q_temp p)) a = Ok True"
    | (stop) "fst (re_update_loop n len [a..<len] p) = p"
    using halt by blast
  then show ?case
  proof cases
    case skip
    then have "\<forall>i < Suc a. i < length (d_ok p) \<longrightarrow> d_ok p ! i"
      using Suc.prems(1) by (auto simp: less_Suc_eq slice_get_Ok_iff)
    then show ?thesis using skip IH [of "d_ok p"] Suc.prems(3) unfolding upt(1) by simp
  next
    case accept
    have fill: "re_filled n a (q_temp p)" using re_all_accepted_True [OF accept(2)] by (auto simp: re_filled_def)
    have len: "length ?ok = length (d_ok p)" by (simp add: re_mark_def Let_def)
    have "\<forall>i < Suc a. i < length ?ok \<longrightarrow> ?ok ! i"
      using Suc.prems(1) len by (auto simp: re_mark_def Let_def less_Suc_eq nth_list_update)
    moreover have "re_filled n i (q_temp p)" if "i < length ?ok" "?ok ! i" for i
    proof (cases "i < a \<or> i = a \<or> \<not> (n \<noteq> 0 \<and> a = len - 1)")
      case True
      then show ?thesis
        using that Suc.prems(1,3) fill by (cases "i = a") (auto simp: re_mark_def Let_def split: if_splits)
    next
      case False
      then have "n \<noteq> 0" "len \<le> i" using Suc.hyps(2) by auto
      then show ?thesis using Suc.prems(2) by (auto simp: re_filled_def)
    qed
    ultimately show ?thesis using accept IH [of ?ok] len unfolding upt(1) by simp
  next
    case stop
    then show ?thesis using Suc.prems(3) by (intro exI [of _ "d_ok p"]) simp
  qed
qed

definition re_flags :: "ReDNode \<Rightarrow> ReDNode \<Rightarrow> bool" where
  "re_flags p p' \<longleftrightarrow> (\<exists>ok. p' = p\<lparr>d_ok := ok\<rparr> \<and> length ok = length (d_ok p))"

interpretation reu: framing re_flags
proof
  show "re_flags p p" for p unfolding re_flags_def by (rule exI [of _ "d_ok p"]) simp
qed

lemma re_update_loop_flags: "re_flags p s \<Longrightarrow> re_flags p (fst (re_update_loop n len js s))"
proof (induction js arbitrary: s)
  case (Cons j js)
  have "re_flags p (s\<lparr>d_ok := re_mark n len j (d_ok s)\<rparr>)"
    using Cons.prems by (auto simp: re_flags_def re_mark_def Let_def)
  then show ?case unfolding re_update_loop.simps using Cons by (intro reu.fr_intros)
qed simp

lemma re_Update_flags: "\<exists>ok. fst (re_Update p) = p\<lparr>d_ok := ok\<rparr> \<and> length ok = length (d_ok p)"
  unfolding re_flags_def [symmetric] re_Update_def
  by (auto intro: reu.fr_refl re_update_loop_flags split: option.split list.split)

lemma re_inv_Update:
  assumes "re_inv th c p" shows "re_inv th c (fst (re_Update p))"
proof -
  obtain ok where ok: "fst (re_Update p) = p\<lparr>d_ok := ok\<rparr>" "length ok = length (d_ok p)"
    using re_Update_flags by blast
  have "re_filled n i (q_temp p)" if "q_rnd p = Some n" "d_started p" "i < length ok" "ok ! i" for n i
  proof (cases "re_update_slots n (q_temp p)")
    case Nil
    then show ?thesis by (simp add: re_filled_def)
  next
    case (Cons ms mss)
    have "\<forall>ms' \<in> set (re_update_slots n (q_temp p)). length ms' = length ms" if "n \<noteq> 0"
      using re_kinds_size [OF _ that] assms Cons by (metis list.set_intros(1) re_inv_def)
    moreover have "\<forall>i < length (d_ok p). d_ok p ! i \<longrightarrow> re_filled n i (q_temp p)"
      using assms that(1,2) by (auto simp: re_inv_def)
    ultimately obtain ok' where "fst (re_update_loop n (length ms) [0..<length ms] p) = p\<lparr>d_ok := ok'\<rparr>"
      "\<forall>i < length ok'. ok' ! i \<longrightarrow> re_filled n i (q_temp p)"
      using re_update_loop_effect [of 0 p n "length ms"] by blast
    moreover have "fst (re_Update p) = fst (re_update_loop n (length ms) [0..<length ms] p)"
      using that Cons by (simp add: re_Update_def)
    ultimately show ?thesis using ok that by (metis ReDNode.select_convs(13) ReDNode.surjective ReDNode.update_convs(13))
  qed
  then show ?thesis using ok assms by (auto simp: re_inv_def)
qed

lemma re_inv_ResetOK: "re_inv th c p \<Longrightarrow> re_inv th c (re_ResetOK p)"
  by (auto simp: re_inv_def re_ResetOK_def)

lemma re_inv_begun: "re_inv th c p \<Longrightarrow> re_inv th c (re_begun n p)"
  by (auto simp: re_inv_def re_begun_def re_ResetOK_def)

lemma re_Start_frame:
  "fst (re_Start env p) = p \<or> (\<exists>n. re_frame (re_begun n p) (fst (re_Start env p))) \<or>
   q_rnd p = Some 0 \<and> \<not> d_started p"
proof (cases "q_rnd p")
  case None
  then show ?thesis by (simp add: re_Start_def)
next
  case (Some n)
  show ?thesis
    using Some re_round0_effect [of p] re_frame_rounds(1-4) [of p env] re_frame_rounds(5,6) [of p]
    unfolding re_Start_def by (cases "d_started p") (simp_all, metis+)
qed

lemma re_inv_Start: "re_inv th c p \<Longrightarrow> re_inv th c (fst (re_Start env p))"
  using re_Start_frame [of env p] re_inv_begun re_frame_inv by (metis re_inv_def)

lemma rnd_re_Start: "q_rnd (fst (re_Start env p)) = q_rnd p"
  using re_Start_frame [of env p] re_round0_effect [of p]
  by (auto simp: re_frame_def re_begun_def re_ResetOK_def re_Start_def re_send_def re_set_temp_def)

lemma rnd_re_StoreMessage: "q_rnd (fst (re_StoreMessage env p msg)) = q_rnd p"
proof (cases "re_GetMsgType msg = ''ReRound0Message''")
  case True
  then obtain b where "msg = ReRound0Message b" by (cases msg) auto
  then show ?thesis by (simp add: re_StoreMessage_round0 re_store0_def re_set_temp_def)
next
  case False
  then show ?thesis using re_frame_StoreMessage [of msg p env] by (simp add: re_frame_def)
qed

lemma rnd_re_Update: "q_rnd (fst (re_Update p)) = q_rnd p"
  using re_Update_flags [of p] by auto

lemma advance_re:
  "advance (re_node env) p = (case q_rnd p of
     None \<Rightarrow> p
   | Some n \<Rightarrow> if n < 6 then p\<lparr>d_started := False, q_rnd := Some (n + 1)\<rparr> else p\<lparr>q_rnd := None\<rparr>)"
  by (simp add: advance_def re_node_def re_NextRound_def split: option.splits)

lemma re_inv_advance:
  assumes "re_inv th c p" "re_CanProceed p" shows "re_inv th c (advance (re_node env) p)"
proof (cases "q_rnd p")
  case None
  then show ?thesis using assms by (simp add: advance_re)
next
  case (Some n)
  have "\<forall>j < length (d_ok p). d_ok p ! j" "d_started p"
    using assms(2) by (auto simp: re_CanProceed_def list_all_length split: if_splits)
  then have "\<forall>j < nat c. re_filled n j (q_temp p)" using assms(1) Some by (auto simp: re_inv_def)
  then show ?thesis using assms(1) Some by (auto simp: advance_re re_inv_def less_Suc_eq)
qed

section \<open>The driver's contract\<close>

definition re_rank :: "ReDNode \<Rightarrow> nat" where
  "re_rank p = (case q_rnd p of None \<Rightarrow> 0 | Some n \<Rightarrow> Suc (6 - n))"

lemma re_rank_less: "re_rank p < 8"
  by (auto simp: re_rank_def split: option.splits)

interpretation re: invariant_machine "re_node env" re_rank "re_inv th c" for env :: KgEnv and th c :: int
proof
  fix p :: ReDNode and msg
  show "re_rank (fst (dn_StoreMessage (re_node env) p msg)) = re_rank p"
    "dn_Round (re_node env) (fst (dn_StoreMessage (re_node env) p msg)) = dn_Round (re_node env) p"
    by (simp_all add: re_node_def re_rank_def rnd_re_StoreMessage)
  show "re_rank (fst (dn_Start (re_node env) p)) = re_rank p"
    "dn_Round (re_node env) (fst (dn_Start (re_node env) p)) = dn_Round (re_node env) p"
    by (simp_all add: re_node_def re_rank_def rnd_re_Start)
  show "re_rank (fst (dn_Update (re_node env) p)) = re_rank p"
    "dn_Round (re_node env) (fst (dn_Update (re_node env) p)) = dn_Round (re_node env) p"
    by (simp_all add: re_node_def re_rank_def rnd_re_Update)
  show "re_rank (dn_ResetOK (re_node env) p) = re_rank p"
    by (simp add: re_node_def re_rank_def re_ResetOK_def)
  show "re_rank (advance (re_node env) p) < re_rank p" if "dn_Round (re_node env) p \<noteq> None"
  proof -
    have "q_rnd p \<noteq> None" using that by (simp add: re_node_def)
    then show ?thesis by (auto simp: advance_re re_rank_def)
  qed
  show "re_inv th c (fst (dn_StoreMessage (re_node env) p msg))" if "re_inv th c p"
    using re_inv_StoreMessage [OF that] by (simp add: re_node_def)
  show "re_inv th c (fst (dn_Start (re_node env) p))" if "re_inv th c p"
    using re_inv_Start [OF that] by (simp add: re_node_def)
  show "re_inv th c (fst (dn_Update (re_node env) p))" if "re_inv th c p"
    using re_inv_Update [OF that] by (simp add: re_node_def)
  show "re_inv th c (dn_ResetOK (re_node env) p)" if "re_inv th c p"
    using re_inv_ResetOK [OF that] by (simp add: re_node_def)
  show "re_inv th c (advance (re_node env) p)" if "re_inv th c p" "dn_CanProceed (re_node env) p"
    using re_inv_advance [OF that(1)] that(2) by (simp add: re_node_def)
qed

section \<open>The states of a node in service\<close>

text \<open>
  Between \<^verbatim>\<open>Start\<close> and the end the service calls \<^verbatim>\<open>CheckReshareMsg0\<close>, \<^verbatim>\<open>SetIDReshare\<close> and \<^verbatim>\<open>Update\<close>, in any order.
\<close>

inductive re_runs :: "KgEnv \<Rightarrow> ReDNode \<Rightarrow> ReDNode \<Rightarrow> bool" for env where
  re_stay: "re_runs env s s"
| re_update: "re_runs env s s' \<Longrightarrow> BaseUpdate fuel (re_node env) s' msg = Some (s'', r) \<Longrightarrow> re_runs env s s''"
| re_check0: "re_runs env s s' \<Longrightarrow> re_runs env s (fst (CheckReshareMsg0 s' msg))"
| re_ids: "re_runs env s s' \<Longrightarrow> re_runs env s (SetIDReshare ids s')"

lemma re_inv_runs: "re_runs env s s' \<Longrightarrow> re_inv th c s \<Longrightarrow> re_inv th c s'"
  by (induction rule: re_runs.induct) (auto intro: re.inv_delivery re_inv_CheckReshareMsg0 re_inv_SetIDReshare)

lemma re_shape_new: "re_shape th c (new_ReTempData th c)"
proof -
  have "(re_GetMsgType kind \<noteq> ''ReRound0Message'' \<longrightarrow> length (re_slots_of kind (new_ReTempData th c)) = re_size th c kind) \<and>
     (\<forall>m. Some m \<in> set (re_slots_of kind (new_ReTempData th c)) \<longrightarrow> re_GetMsgType m = re_GetMsgType kind)" for kind
    by (cases kind) (auto simp: new_ReTempData_def Let_def re_size_def)
  then show ?thesis by (simp add: re_shape_def)
qed

lemma re_inv_started:
  assumes "re_NewLocalDNode env c th len sd old oldindex tape primes = Ok p"
    and "BaseStart (re_node env) (re_SetDNodeID idn p) = (s, Ok ())"
  shows "re_inv th c s"
proof -
  let ?q = "fst (re_FirstRound (re_SetDNodeID idn p))\<lparr>q_rnd := Some 0\<rparr>"
  let ?m = "ReRound0Message (re_from ?q (-1))"
  have p: "q_temp p = new_ReTempData th c" "q_ThresHold p = th" "q_DNodeCountInGroup p = c" "q_rnd p = None"
    using assms(1) by (auto simp: re_NewLocalDNode_def split: if_splits)
  have "s = fst (re_round0_Start ?q)"
    using assms(2) p(4)
    by (auto simp: BaseStart_def setRound_def startRound_def re_node_def re_FirstRound_def re_SetDNodeID_def re_Start_def
        split: if_splits)
  moreover have "\<not> d_started ?q" by (simp add: re_FirstRound_def)
  ultimately have s: "s = re_send ?m (re_store0 (re_begun 0 ?q) ?m)"
    using re_round0_effect [of ?q] unfolding re_store0_def by simp
  have "re_inv th c (re_begun 0 ?q)"
    using p re_shape_new by (auto simp: re_inv_def re_begun_def re_ResetOK_def re_FirstRound_def re_SetDNodeID_def
        re_round0_ok_def new_ReTempData_def Let_def)
  moreover have "reshareRound0Messages (q_temp (re_begun 0 ?q)) = []"
    using p by (simp add: re_begun_def re_ResetOK_def re_FirstRound_def re_SetDNodeID_def new_ReTempData_def Let_def)
  ultimately have "re_inv th c (re_store0 (re_begun 0 ?q) ?m)" by (intro re_inv_store0) simp_all
  then show ?thesis unfolding s by (intro re_frame_inv [OF re_frame_simple(2)]) simp_all
qed

lemma re_gate:
  assumes "re_inv th c p" "1 \<le> c" "th \<le> c" "q_rnd p = Some n" "m < n" "ms \<in> set (re_update_slots m (q_temp p))"
  shows "length ms = nat (if m \<in> {1, 2} then th else c) \<and> (\<forall>slot \<in> set ms. \<exists>msg. slot = Some msg \<and> re_CanAccept m msg)"
proof -
  obtain kind where kind: "kind \<in> set (re_kinds m)" "ms = re_slots_of kind (q_temp p)"
    using assms(6) by (auto simp: re_update_slots_kinds)
  have filled: "re_filled m j (q_temp p)" if "j < nat c" for j
    using assms(1,4,5) that by (auto simp: re_inv_def)
  have len: "length ms = nat (if m \<in> {1, 2} then th else c)"
  proof (cases "m = 0")
    case True
    then have "ms = reshareRound0Messages (q_temp p)" using assms(6) by (simp add: re_update_slots_def)
    moreover have "nat c - 1 < length ms" using filled [of "nat c - 1"] assms(2,6) True by (auto simp: re_filled_def)
    ultimately show ?thesis using assms(1,2) True by (auto simp: re_inv_def re_round0_ok_def)
  next
    case False
    then show ?thesis using re_kinds_size [OF _ False assms(6)] assms(1) by (auto simp: re_inv_def)
  qed
  have "\<exists>msg. slot = Some msg \<and> re_CanAccept m msg" if slot: "slot \<in> set ms" for slot
  proof -
    obtain j where j: "j < length ms" "slot = ms ! j" using slot unfolding in_set_conv_nth by metis
    then have "j < nat c" using len assms(3) by (auto split: if_splits)
    then have "slot \<noteq> None" using filled j assms(6) by (auto simp: re_filled_def)
    moreover have "re_GetMsgType msg = re_GetMsgType kind" if "Some msg \<in> set ms" for msg
      using assms(1) that kind(2) by (auto simp: re_inv_def re_shape_def)
    ultimately show ?thesis using slot re_kinds_accepted [OF kind(1)] by blast
  qed
  then show ?thesis using len by blast
qed

end
