(* ===== verification/ReshareProps.thy ===== *)
theory ReshareProps
  imports ReshareInv KeygenProps
begin

text \<open>
  Gating and termination of the resharing, and two reasons why a resharing does not succeed: the
  last message of round 0 is stored before the driver sees it, and the own identifier is looked up by
  the decimal reading of a hexadecimal text.
\<close>

section \<open>Two nodes\<close>

text \<open>
  Nodes of a new group with the identifiers 1 and 2 on the curve of order 13, before round 3: the old nodes
  share their weights 3 and 2 by \<open>3 + 4 z\<close> and \<open>2 + 3 z\<close>.
\<close>

definition toy_rehd :: "int \<Rightarrow> int \<Rightarrow> ReRoundMessage" where
  "toy_rehd x i = \<lparr>rm_FromID = to_id (Some x), rm_FromIndex = i, rm_ToID = []\<rparr>"

definition toy_retemp :: "int \<Rightarrow> int \<Rightarrow> int \<Rightarrow> ReTempData" where
  "toy_retemp x s1 s2 = (new_ReTempData 2 2)\<lparr>
     reshareRound0Messages := [Some (ReRound0Message (toy_rehd 1 (-1))), Some (ReRound0Message (toy_rehd 2 (-1)))],
     reshareRound1Messages := [Some (ReRound1Message (toy_rehd 1 0) (Some 5)), Some (ReRound1Message (toy_rehd 2 1) (Some 5))],
     reshareRound2Messages := [Some (ReRound2Message (toy_rehd 1 0) (Some x) (Some s1)),
                               Some (ReRound2Message (toy_rehd 2 1) (Some x) (Some s2))],
     reshareRound2Messages1 := [Some (ReRound2Message1 (toy_rehd 1 0) (map Some [7, 2, 2, 4, 5]) [map Some [2, 2], map Some [4, 5]]),
                                Some (ReRound2Message1 (toy_rehd 2 1) (map Some [7, 6, 3, 2, 2]) [map Some [6, 3], map Some [2, 2]])]\<rparr>"

definition toy_renode :: "int \<Rightarrow> int \<Rightarrow> int \<Rightarrow> ReDNode" where
  "toy_renode x s1 s2 =
     \<lparr>q_ID = to_id (Some x), q_rnd = Some 3, q_DNodeCountInGroup = 2, q_ThresHold = 2, q_PaillierKeyLength = 2048,
      q_temp = toy_retemp x s1 s2, q_data = (NewLocalDNodeSaveData 2)\<lparr>sd_IDs := [Some 1, Some 2]\<rparr>, q_out = [], q_end = [],
      q_oldnode = False, q_oldindex = -1, q_firstround = True, d_ok = [True, True], d_started = False, d_number = 2,
      d_dnodeid = to_id (Some x), d_dnodecount = 2, d_threshold = 2, d_paillierkeylength = 2048, d_oldnode = False,
      d_oldindex = -1, d_idreshare = [], q_tape = [], q_primes = toy_pool\<rparr>"

section \<open>Gating and termination\<close>

text \<open>C12: the rounds of the resharing are gated by the number of messages: in every state a started node can reach by
  the calls of the service, when it is in round \<open>n\<close> it has for every earlier round \<open>m\<close> and every slice round \<open>m\<close> waits
  for as many messages as there are senders (the old group in the rounds 1 and 2, the new group otherwise), no slot is
  empty and each message is of a type round \<open>m\<close> accepts.  The senders of the messages need not be different, see
  \<open>round0_counts_a_sender_twice\<close>.\<close>

theorem reshare_rounds_gated:
  assumes "re_NewLocalDNode env c th len sd old oldindex tape primes = Ok p" "1 \<le> c" "th \<le> c"
    and "BaseStart (re_node env) (re_SetDNodeID idn p) = (s, Ok ())" "re_runs env s s'"
    and "q_rnd s' = Some n" "m < n" "ms \<in> set (re_update_slots m (q_temp s'))"
  shows "length ms = nat (if m \<in> {1, 2} then th else c) \<and> (\<forall>slot \<in> set ms. \<exists>msg. slot = Some msg \<and> re_CanAccept m msg)"
  by (rule re_gate [OF re_inv_runs [OF assms(5) re_inv_started [OF assms(1,4)]] assms(2,3,6-8)])

definition toy_re :: ReDNode where
  "toy_re = (case re_NewLocalDNode toy_env 2 2 2048 None False (-1) [3, 4, 5] toy_pool of
     Ok p \<Rightarrow> fst (BaseStart (re_node toy_env) (re_SetDNodeID ''1'' p)) | _ \<Rightarrow> toy_renode 1 7 5)"

definition toy_re0 :: ReMessage where
  "toy_re0 = ReRound0Message (toy_rehd 2 (-1))"

definition toy_re1 :: ReDNode where
  "toy_re1 = fst (the (BaseUpdate 8 (re_node toy_env) toy_re toy_re0))"

theorem reshare_rounds_gated_witness:
  "q_rnd toy_re1 = Some 1 \<and> length (reshareRound0Messages (q_temp toy_re1)) = 2"
proof -
  let ?new = "re_NewLocalDNode toy_env 2 2 2048 None False (-1) [3, 4, 5] toy_pool"
  have "is_Ok ?new" by code_simp
  then obtain p where p: "?new = Ok p" by (auto simp: is_Ok_iff)
  have "(case ?new of Ok p \<Rightarrow> snd (BaseStart (re_node toy_env) (re_SetDNodeID ''1'' p)) | _ \<Rightarrow> Err []) = Ok ()" by code_simp
  then have start: "BaseStart (re_node toy_env) (re_SetDNodeID ''1'' p) = (toy_re, Ok ())"
    unfolding toy_re_def p by (simp add: prod_eq_iff)
  obtain r where "BaseUpdate 8 (re_node toy_env) toy_re toy_re0 = Some (toy_re1, r)"
    using re.update_returns [OF re_rank_less, of toy_env toy_re] unfolding toy_re1_def
    by (metis option.sel prod.collapse)
  then have run: "re_runs toy_env toy_re toy_re1" by (rule re_update [OF re_stay])
  have "q_rnd toy_re1 = Some 1" by code_simp
  then show ?thesis
    using reshare_rounds_gated [OF p _ _ start run, of 1 0 "reshareRound0Messages (q_temp toy_re1)"]
    by (simp add: re_update_slots_def)
qed

text \<open>
  \<^verbatim>\<open>CheckReshareMsg0\<close> appends a round 0 message without looking for its sender: when a node of a group of two is handed
  its own message it has a full slice.  The message of the other node is then not stored, but it takes the node to
  round 1.
\<close>

definition toy_re_own :: ReMessage where
  "toy_re_own = ReRound0Message (toy_rehd 1 (-1))"

definition toy_re_twice :: ReDNode where
  "toy_re_twice = fst (the (BaseUpdate 8 (re_node toy_env) (fst (CheckReshareMsg0 toy_re toy_re_own)) toy_re0))"

lemma round0_counts_a_sender_twice:
  "re_runs toy_env toy_re toy_re_twice \<and> q_rnd toy_re_twice = Some 1 \<and>
   map (map_option re_GetFromID) (reshareRound0Messages (q_temp toy_re_twice)) = [Some (to_id (Some 1)), Some (to_id (Some 1))]"
proof (intro conjI)
  let ?p = "fst (CheckReshareMsg0 toy_re toy_re_own)"
  obtain r where "BaseUpdate 8 (re_node toy_env) ?p toy_re0 = Some (toy_re_twice, r)"
    using re.update_returns [OF re_rank_less, of toy_env ?p] unfolding toy_re_twice_def by (metis option.sel prod.collapse)
  then show "re_runs toy_env toy_re toy_re_twice" by (rule re_update [OF re_check0 [OF re_stay]])
  show "q_rnd toy_re_twice = Some 1" by code_simp
  show "map (map_option re_GetFromID) (reshareRound0Messages (q_temp toy_re_twice)) = [Some (to_id (Some 1)), Some (to_id (Some 1))]"
    by code_simp
qed

text \<open>The recursion of \<^verbatim>\<open>Update\<close> of a resharing node is bounded for every state and every message: with fuel
  8 or more there is a result and it does not depend on the fuel.\<close>

lemma reshare_Update_returns: "\<exists>r. \<forall>k. BaseUpdate (8 + k) (re_node env) p msg = Some r"
proof -
  obtain r where r: "BaseUpdate 8 (re_node env) p msg = Some r"
    using re.update_returns [OF re_rank_less] by blast
  show ?thesis using BaseUpdate_mono [OF r] by (intro exI [of _ r]) simp
qed

section \<open>The last message of round 0\<close>

text \<open>C25: a resharing does not leave round 0: the service passes the last missing round 0 message to
  \<^verbatim>\<open>CheckReshareMsg0\<close>, which stores it, then sets the identifiers and calls \<^verbatim>\<open>Update\<close>, which takes the message
  for a duplicate and returns false with the node unchanged, although all messages of the round are
  there; without the call of \<^verbatim>\<open>CheckReshareMsg0\<close> the message would have completed the round.\<close>

theorem reshare_stuck_in_round0:
  assumes "q_rnd p = Some 0" "is_ReRound0Message msg" "int (length (reshareRound0Messages (q_temp p))) = q_DNodeCountInGroup p - 1"
    and "\<not> re_DulMessage p msg" "p' = SetIDReshare ids (fst (CheckReshareMsg0 p msg))"
  shows "snd (CheckReshareMsg0 p msg) \<and> int (length (reshareRound0Messages (q_temp p'))) = q_DNodeCountInGroup p' \<and>
    BaseUpdate (Suc fuel) (re_node env) p' msg = Some (p', Ok False) \<and> snd (re_StoreMessage env p msg) = Ok True"
proof -
  obtain b where b: "msg = ReRound0Message b" using assms(2) by (cases msg) auto
  let ?p = "re_store0 p msg"
  have check: "CheckReshareMsg0 p msg = (?p, True)"
    using assms(3) by (simp add: b CheckReshareMsg0_def re_store0_def re_set_temp_def Let_def)
  have p': "q_temp p' = q_temp ?p" "q_DNodeCountInGroup p' = q_DNodeCountInGroup p" "q_rnd p' = Some 0"
    using assms(1,5) by (simp_all add: check SetIDReshare_def re_store0_def re_set_temp_def)
  then have "re_StoreMessage env p' msg = (p', Ok False)"
    by (simp add: b re_StoreMessage_def re_find_def re_store0_def re_set_temp_def)
  then have "BaseUpdate (Suc fuel) (re_node env) p' msg = Some (p', Ok False)"
    using p'(3) by (simp add: BaseUpdate.simps re_node_def)
  moreover have "snd (re_StoreMessage env p msg) = Ok True"
    using assms(3,4) by (simp add: b re_StoreMessage_def re_DulMessage_def re_set_temp_def Let_def)
  moreover have "int (length (reshareRound0Messages (q_temp p'))) = q_DNodeCountInGroup p'"
    using assms(3) p' by (simp add: re_store0_def re_set_temp_def)
  ultimately show ?thesis by (simp add: check)
qed

theorem reshare_stuck_in_round0_witness:
  "q_rnd (SetIDReshare [1, 2] (fst (CheckReshareMsg0 toy_re toy_re0))) = Some 0 \<and>
   BaseUpdate 8 (re_node toy_env) (SetIDReshare [1, 2] (fst (CheckReshareMsg0 toy_re toy_re0))) toy_re0 =
     Some (SetIDReshare [1, 2] (fst (CheckReshareMsg0 toy_re toy_re0)), Ok False)"
proof -
  have f: "q_rnd toy_re = Some 0" "int (length (reshareRound0Messages (q_temp toy_re))) = q_DNodeCountInGroup toy_re - 1"
    "\<not> re_DulMessage toy_re toy_re0" "q_rnd (SetIDReshare [1, 2] (fst (CheckReshareMsg0 toy_re toy_re0))) = Some 0"
    by code_simp+
  have "is_ReRound0Message toy_re0" by (simp add: toy_re0_def)
  then have "BaseUpdate (Suc 7) (re_node toy_env) (SetIDReshare [1, 2] (fst (CheckReshareMsg0 toy_re toy_re0))) toy_re0 =
     Some (SetIDReshare [1, 2] (fst (CheckReshareMsg0 toy_re toy_re0)), Ok False)"
    using reshare_stuck_in_round0 [of toy_re toy_re0, OF f(1) _ f(2,3) refl] by blast
  then show ?thesis using f(4) by simp
qed

section \<open>The own identifier\<close>

lemma hex_digit_val: "d < 10 \<Longrightarrow> digit_val (hex_digit d) = Some d"
  by (simp add: hex_digit_def digit_val_def)

lemma decimal_nibbles:
  assumes "48 \<le> (n :: nat)" "n \<le> 57" shows "n div 16 = 3" "n mod 16 = n - 48"
proof -
  show div: "n div 16 = 3" by (rule div_nat_eqI) (use assms in simp_all)
  show "n mod 16 = n - 48" by (simp add: minus_mult_div_eq_mod [symmetric] div)
qed

text \<open>The hexadecimal text of a decimal text has a 3 before every digit.\<close>

lemma parse_hex_of_decimal:
  assumes "\<forall>c \<in> set s. 48 \<le> (of_char c :: nat) \<and> (of_char c :: nat) \<le> 57"
  shows "\<exists>n. parse_digits a (EncodeToString (string_bytes s)) = Some n \<and> a \<le> n \<and> (s \<noteq> [] \<longrightarrow> 30 \<le> n)"
  using assms
proof (induction s arbitrary: a)
  case Nil
  then show ?case by (simp add: EncodeToString_def string_bytes_def)
next
  case (Cons c s)
  let ?d = "(of_char c :: nat) - 48"
  have c: "48 \<le> (of_char c :: nat)" "(of_char c :: nat) \<le> 57" using Cons.prems by auto
  obtain n where n: "parse_digits (10 * (10 * a + 3) + ?d) (EncodeToString (string_bytes s)) = Some n" "10 * (10 * a + 3) + ?d \<le> n"
    using Cons by fastforce
  note div = decimal_nibbles [OF c]
  have "digit_val (hex_digit 3) = Some 3" "digit_val (hex_digit ?d) = Some ?d" using c by (simp_all add: hex_digit_val)
  then have "parse_digits a (EncodeToString (string_bytes (c # s))) = Some n"
    using n(1) unfolding EncodeToString_def string_bytes_def by (simp add: div)
  then show ?case using n(2) by auto
qed

lemma SetString10_to_id:
  assumes "0 \<le> x" shows "\<exists>n. SetString10 (to_id (Some x)) = Some n \<and> 30 \<le> n"
proof -
  let ?s = "show_nat (nat x)"
  have s: "to_id (Some x) = EncodeToString (string_bytes ?s)" using assms by (simp add: to_id_def fmt_v_def show_int_def)
  obtain n where n: "parse_digits 0 (EncodeToString (string_bytes ?s)) = Some n" "30 \<le> n"
    using parse_hex_of_decimal [of ?s 0] set_show_nat by auto
  obtain c cs where c: "?s = c # cs" by (metis show_nat_ne neq_Nil_conv)
  then have "48 \<le> (of_char c :: nat)" "(of_char c :: nat) \<le> 57" using set_show_nat [of c "nat x"] by auto
  then have "of_char c div 16 = (3 :: nat)" by (rule decimal_nibbles(1))
  then obtain ds where ds: "EncodeToString (string_bytes ?s) = hex_digit 3 # ds"
    by (simp add: c EncodeToString_def string_bytes_def)
  have "hex_digit 3 \<noteq> CHR ''-''" "hex_digit 3 \<noteq> CHR ''+''" by code_simp+
  then have "SetString10 (to_id (Some x)) = Some (int n)"
    using n(1) unfolding s SetString10_def ds by (simp add: parse_nat_def del: parse_digits.simps)
  then show ?thesis using n(2) by auto
qed

lemma id_position_above: "\<forall>v \<in> set ids. \<exists>i. v = Some i \<and> i < n \<Longrightarrow> id_position k ids (Some n) = Ok None"
proof (induction ids arbitrary: k)
  case (Cons v ids)
  then obtain i where "v = Some i" "i \<noteq> n" by force
  then show ?case using Cons by simp
qed simp

lemma re_cur_index_fails:
  assumes "d_dnodeid p = to_id (Some x)" "0 \<le> x" "\<forall>v \<in> set (sd_IDs (q_data p)). \<exists>i. v = Some i \<and> i < 30"
  shows "re_cur_index p = Err ''get cur index fail''"
proof -
  obtain n where n: "SetString10 (d_dnodeid p) = Some n" "30 \<le> n" using SetString10_to_id assms(1,2) by auto
  have "id_position 0 (sd_IDs (q_data p)) (Some n) = Ok None" using assms(3) n(2) by (intro id_position_above) force
  then show ?thesis using n(1) by (simp add: re_cur_index_def)
qed

text \<open>C26: a resharing among nodes with identifiers below 30 fails: the identifiers are \<open>1\<close>, \<open>2\<close>, and so on, the own one
  is kept as the hexadecimal text of its decimal text, and the rounds read this text as a
  decimal number, which is at least 30.  So round 2 of an old node and the rounds 4 to 6 of every node do not
  complete; round 3 ends with an error as well, after it has replaced the saved key.\<close>

theorem reshare_fails_in_small_groups:
  assumes "d_dnodeid p = to_id (Some x)" "0 \<le> x"
  shows "(\<forall>ids. re_GetIDs p = Ok ids \<and> (\<forall>v \<in> set ids. \<exists>i. v = Some i \<and> i < 30) \<and> d_oldnode p \<longrightarrow>
       snd (re_round2_Start env p) \<noteq> Ok ()) \<and>
     ((\<forall>v \<in> set (sd_IDs (q_data p)). \<exists>i. v = Some i \<and> i < 30) \<longrightarrow>
       snd (re_round3_Start env p) \<noteq> Ok () \<and> snd (re_round4_Start env p) \<noteq> Ok () \<and>
       snd (re_round5_Start p) \<noteq> Ok () \<and> snd (re_round6_Start p) \<noteq> Ok ())"
proof -
  obtain n where n: "SetString10 (to_id (Some x)) = Some n" "30 \<le> n" using SetString10_to_id assms(2) by auto
  have round2: "snd (re_round2_Start env p) \<noteq> Ok ()"
    if ids: "re_GetIDs p = Ok ids" "\<forall>v \<in> set ids. \<exists>i. v = Some i \<and> i < 30" "d_oldnode p" for ids
  proof
    assume ok: "snd (re_round2_Start env p) = Ok ()"
    have "re_GetIDs (re_begun 2 p) = Ok ids" "d_oldnode (re_begun 2 p)" "d_dnodeid (re_begun 2 p) = to_id (Some x)"
      using ids assms(1) by (simp_all add: re_GetIDs_def re_begun_def re_ResetOK_def)
    moreover have "id_position 0 ids (Some n) = Ok None" using ids(2) n(2) by (intro id_position_above) force
    moreover obtain q where "re_round2_Start env p = (q, Ok ())" using ok by (metis prod.collapse)
    ultimately show False
      using n(1) unfolding re_round2_Start_def Let_def
      by (auto simp: re_begin_Ok_iff re_set_save_def re_set_temp_def split: res.splits bool.splits if_splits)
  qed
  have later: "snd (re_round3_Start env p) \<noteq> Ok () \<and> snd (re_round4_Start env p) \<noteq> Ok () \<and>
       snd (re_round5_Start p) \<noteq> Ok () \<and> snd (re_round6_Start p) \<noteq> Ok ()"
    if small: "\<forall>v \<in> set (sd_IDs (q_data p)). \<exists>i. v = Some i \<and> i < 30"
  proof -
    have fails: "re_cur_index q = Err ''get cur index fail''"
      if "d_dnodeid q = d_dnodeid p" "sd_IDs (q_data q) = sd_IDs (q_data p)" for q
      using re_cur_index_fails [OF _ assms(2), of q] assms(1) that small by simp
    have keys: "d_dnodeid q' = d_dnodeid q \<and> sd_IDs (q_data q') = sd_IDs (q_data q)" if "re_round3_keys env q = (q', Ok ())" for q q'
      using that by (auto simp: re_round3_keys_def Let_def re_set_save_def re_set_temp_def)
    have begun: "d_dnodeid (re_begun m p) = d_dnodeid p" "sd_IDs (q_data (re_begun m p)) = sd_IDs (q_data p)" for m
      by (simp_all add: re_begun_def re_ResetOK_def)
    have no: "snd r \<noteq> Ok ()" if "\<And>q. r \<noteq> (q, Ok ())" for r :: "ReDNode \<times> unit res"
      using that by (metis prod.collapse)
    show ?thesis
      unfolding re_round3_Start_def re_round4_Start_def re_round5_Start_def re_round6_Start_def Let_def
      by (intro conjI no) (auto simp: re_begin_Ok_iff fails begun dest!: keys)
  qed
  show ?thesis using round2 later by blast
qed

theorem reshare_fails_in_small_groups_witness:
  "snd (re_round3_Start toy_env (toy_renode 1 7 5)) \<noteq> Ok () \<and> snd (re_round5_Start (toy_renode 1 7 5)) \<noteq> Ok ()"
  using reshare_fails_in_small_groups [of "toy_renode 1 7 5" 1 toy_env] by (simp add: toy_renode_def)

end
