(* ===== verification/ReshareCorrect.thy ===== *)
theory ReshareCorrect
  imports ReshareProps SigningCorrect
begin

text \<open>
  What the resharing computes: the weights of the old nodes are additive shares of the key, round 3 sums
  the shares of the weights, so the new nodes hold shares of the same key.
\<close>

section \<open>Round 3\<close>

text \<open>After the keys are computed round 3 does not touch the saved data again.\<close>

definition same_data :: "ReDNode \<Rightarrow> ReDNode \<Rightarrow> bool" where
  "same_data p p' \<longleftrightarrow> q_data p' = q_data p"

interpretation red: framing same_data
  by unfold_locales (simp add: same_data_def)

lemma same_data_pieces:
  "same_data p s \<Longrightarrow> same_data p (fst (re_paillier env s))"
  "same_data p s \<Longrightarrow> same_data p (fst (re_put_send index msg s))"
  "same_data p s \<Longrightarrow> same_data p (re_set_temp f s)"
proof -
  assume s: "same_data p s"
  have simple: "same_data p (s\<lparr>q_primes := x\<rparr>)" "same_data p (s\<lparr>q_temp := t\<rparr>)" for x t
    using s by (simp_all add: same_data_def)
  show "same_data p (fst (re_paillier env s))"
    unfolding re_paillier_def using s simple by (intro red.fr_intros)
  have "same_data p (fst (re_put_slot index msg s))" for index msg
    unfolding re_put_slot_def using s simple by (intro red.fr_intros)
  then show "same_data p (fst (re_put_send index msg s))"
    unfolding re_put_send_def by (intro red.fr_intros) (simp_all add: same_data_def re_send_def)
  show "same_data p (re_set_temp f s)" using simple by (simp add: re_set_temp_def)
qed

lemma re_round3_Start_keys:
  assumes "re_round3_Start env p = (p', r)" "rt_newskU1 (q_temp p) = None" "rt_newskU1 (q_temp p') \<noteq> None"
  shows "\<exists>pk sk. re_sums env (re_begun 3 p) (length (reshareRound1Messages (q_temp p))) = Ok (pk, sk) \<and>
     sd_SkU1 (q_data p') = Some (sk mod cN (ke_E env)) \<and>
     sd_Pkx (q_data p') = map_option fst pk \<and> sd_Pky (q_data p') = map_option snd pk"
proof -
  let ?q = "re_begun 3 p"
  have temp: "q_temp ?q = q_temp p" by (simp add: re_begun_def re_ResetOK_def)
  define tail where "tail q = tryr (re_cur_index q) q (\<lambda>curIndex.
     bindst (re_paillier env q) (\<lambda>p (sk, pk).
       re_put_send curIndex (ReRound3Message (re_from p curIndex) pk)
         (re_set_temp (\<lambda>t. t\<lparr>rt_u1PaillierSk := sk, rt_u1PaillierPk := pk\<rparr>) p)))" for q
  have tail: "same_data q (fst (tail q))" for q
    unfolding tail_def by (intro red.fr_intros same_data_pieces)
  have started: "\<not> d_started p" using assms by (auto simp: re_round3_Start_def re_begin_def)
  then have run: "(p', r) = tryr (mapM (re_round3_check env ?q) [0..<length (reshareRound1Messages (q_temp p))]) ?q (\<lambda>_.
      bindst (re_round3_keys env ?q) (\<lambda>q _. tail q))"
    using assms(1) by (simp add: re_round3_Start_def re_begin_def re_begun_def [symmetric] temp tail_def)
  obtain q where q: "re_round3_keys env ?q = (q, Ok ())" "(p', r) = tail q"
  proof (cases "mapM (re_round3_check env ?q) [0..<length (reshareRound1Messages (q_temp p))]")
    case (Ok us)
    then have b: "(p', r) = bindst (re_round3_keys env ?q) (\<lambda>q _. tail q)" using run by simp
    show ?thesis
    proof (cases "re_sums env ?q (length (reshareRound1Messages (q_temp ?q)))")
      case (Ok v)
      then obtain q where "re_round3_keys env ?q = (q, Ok ())" by (cases v) (simp add: re_round3_keys_def Let_def)
      then show ?thesis using b that by simp
    qed (use b assms(2,3) temp in \<open>simp_all add: re_round3_keys_def\<close>)
  qed (use run assms(2,3) temp in simp_all)
  obtain pk sk where "re_sums env ?q (length (reshareRound1Messages (q_temp p))) = Ok (pk, sk)"
    "sd_SkU1 (q_data q) = Some (sk mod cN (ke_E env))" "sd_Pkx (q_data q) = map_option fst pk" "sd_Pky (q_data q) = map_option snd pk"
    using q(1) temp by (auto simp: re_round3_keys_def Let_def re_set_save_def re_set_temp_def)
  moreover have "q_data p' = q_data q" using q(2) tail [of q] by (metis fst_conv same_data_def)
  ultimately show ?thesis by auto
qed

lemma foldM_re_add:
  assumes E: "ec_laws (ke_E env)"
  shows "(\<And>k pt share. k \<in> set ks \<Longrightarrow> re_values env p k = Ok (pt, share) \<Longrightarrow>
       pt = Some (mulG (ke_E env) (u k)) \<and> share = sh k) \<Longrightarrow>
     0 < a \<Longrightarrow> a < cN (ke_E env) \<Longrightarrow> no_clash (ke_E env) a (map u ks) \<Longrightarrow>
     foldM (re_add env p) (Some (mulG (ke_E env) a), s) ks = Ok (pk, s') \<Longrightarrow>
     s' = s + sum_list (map sh ks) \<and> pk = Some (mulG (ke_E env) ((a + sum_list (map u ks)) mod cN (ke_E env)))"
proof (induction ks arbitrary: a s)
  case Nil
  then show ?case by simp
next
  case (Cons k ks)
  let ?N = "cN (ke_E env)"
  obtain pt share pk1 where v: "re_values env p k = Ok (pt, share)"
    "Add (ke_E env) (Some (mulG (ke_E env) a)) pt = Ok pk1" "foldM (re_add env p) (pk1, s + share) ks = Ok (pk, s')"
    using Cons.prems(5) by auto
  have pt: "pt = Some (mulG (ke_E env) (u k))" "share = sh k" using Cons.prems(1) v(1) by auto
  note step = no_clash_step [OF E Cons.prems(2,3) Cons.prems(4) [unfolded list.map]]
  have "s' = s + share + sum_list (map sh ks) \<and>
     pk = Some (mulG (ke_E env) (((a + u k) mod ?N + sum_list (map u ks)) mod ?N))"
    using Cons.IH [OF Cons.prems(1) step(2,3)] Cons.prems(4) v(2,3) pt(1) step(1) by simp
  then show ?case using pt(2) by (simp add: mod_add_left_eq add.assoc)
qed

text \<open>
  The messages a node with identifier \<open>x\<close> of the new group holds before round 3 when the old node at position
  \<open>k\<close> shares the polynomial \<open>polys ! k\<close>.
\<close>

definition re_view :: "KgEnv \<Rightarrow> int list list \<Rightarrow> int \<Rightarrow> ReDNode \<Rightarrow> bool" where
  "re_view env polys x p \<longleftrightarrow> length (reshareRound1Messages (q_temp p)) = length polys \<and>
     (\<forall>k < length polys.
        (\<exists>b. reshareRound2Messages (q_temp p) ! k = Some (ReRound2Message b (Some x) (Some (the_share (ke_E env) (polys ! k) x)))) \<and>
        (\<exists>b r rest pg. reshareRound2Messages1 (q_temp p) ! k = Some (ReRound2Message1 b
           (Some r # pair_slice (Some (mulG (ke_E env) (hd (polys ! k)))) @ rest) pg)))"

lemma re_values_view:
  assumes "re_view env polys x p" "k < length polys" "re_values env p k = Ok (pt, share)"
  shows "pt = Some (mulG (ke_E env) (hd (polys ! k))) \<and> share = the_share (ke_E env) (polys ! k) x"
proof -
  obtain b2 b3 r rest pg where m:
    "reshareRound2Messages (q_temp p) ! k = Some (ReRound2Message b2 (Some x) (Some (the_share (ke_E env) (polys ! k) x)))"
    "reshareRound2Messages1 (q_temp p) ! k = Some (ReRound2Message1 b3
       (Some r # pair_slice (Some (mulG (ke_E env) (hd (polys ! k)))) @ rest) pg)"
    using assms(1,2) unfolding re_view_def by metis
  obtain gx gy where g: "mulG (ke_E env) (hd (polys ! k)) = (gx, gy)" by (metis surj_pair)
  show ?thesis
    using assms(3) m g
    by (auto simp: re_values_def Let_def slice_get_Ok_iff re_asserted_Ok_iff pair_slice_def slice_pair_def
        DeCommit_def split: if_splits)
qed

lemma re_sums_view:
  assumes "ec_laws (ke_E env)" "re_view env polys x p" "polys \<noteq> []"
    and "0 < hd (hd polys)" "hd (hd polys) < cN (ke_E env)" "no_clash (ke_E env) (hd (hd polys)) (map hd (tl polys))"
    and "re_sums env p (length polys) = Ok (pk, sk)"
  shows "sk = (\<Sum>poly\<leftarrow>polys. the_share (ke_E env) poly x) \<and>
    pk = Some (mulG (ke_E env) ((\<Sum>poly\<leftarrow>polys. hd poly) mod cN (ke_E env)))"
proof -
  let ?E = "ke_E env" and ?ks = "[1..<length polys]"
  obtain pt share where v: "re_values env p 0 = Ok (pt, share)" "foldM (re_add env p) (pt, share) ?ks = Ok (pk, sk)"
    using assms(3,7) by (auto simp: re_sums_def split: if_splits)
  have pt: "pt = Some (mulG ?E (hd (hd polys)))" "share = the_share ?E (hd polys) x"
    using re_values_view [OF assms(2) _ v(1)] assms(3) by (auto simp: hd_conv_nth)
  have tl: "map (\<lambda>k. polys ! k) ?ks = tl polys"
    by (rule nth_equalityI) (auto simp: nth_tl)
  have maps: "map (\<lambda>k. f (polys ! k)) ?ks = map f (tl polys)" for f :: "int list \<Rightarrow> int"
    using arg_cong [OF tl, of "map f"] by (simp add: comp_def)
  have "sk = share + sum_list (map (\<lambda>k. the_share ?E (polys ! k) x) ?ks) \<and>
    pk = Some (mulG ?E ((hd (hd polys) + sum_list (map (\<lambda>k. hd (polys ! k)) ?ks)) mod cN ?E))"
    using v(2) pt(1) maps [of hd] assms(4-6) re_values_view [OF assms(2)]
    by (intro foldM_re_add [OF assms(1), where a = "hd (hd polys)" and p = p]) auto
  then have "sk = the_share ?E (hd polys) x + sum_list (map (\<lambda>poly. the_share ?E poly x) (tl polys))"
    "pk = Some (mulG ?E ((hd (hd polys) + sum_list (map hd (tl polys))) mod cN ?E))"
    using maps [of "\<lambda>poly. the_share ?E poly x"] maps [of hd] pt(2) by simp_all
  then show ?thesis using assms(3) by (cases polys) auto
qed

section \<open>The key stays\<close>

text \<open>C6: resharing keeps the key: let the old nodes hold shares of a key, the values of a polynomial with at
  most as many coefficients as there are old nodes, and let each share the weight that round 1 computes from
  its share by a polynomial of at most \<open>t\<close> coefficients.  Then the shares that round 3 saves at any \<open>t\<close> or more
  nodes of the new group are combined by \<open>Combine2\<close> to the same key, and every one of these nodes saves
  the public key of this key (provided no addition on the way meets equal or opposite points).  This holds
  for every run of round 3 that gets as far as the computation of the key, also when it fails afterwards.\<close>

theorem reshare_keeps_key:
  assumes E: "E = ke_E env" "ec_laws E" and X: "X = hd key mod cN E" "X \<noteq> 0"
    and old: "key \<noteq> []" "length key \<le> length ids" "unit_diffs (cN E) ids" "length polys = length ids"
    and weight: "\<And>i. i < length ids \<Longrightarrow> eqm (cN E) (sk i) (peval key (ids ! i)) \<and>
      round1_w1 E ids (int i) (Some (sk i)) = Ok (hd (polys ! i))"
    and new: "\<forall>poly \<in> set polys. poly \<noteq> [] \<and> length poly \<le> length nodes"
      "0 < hd (hd polys)" "hd (hd polys) < cN E" "no_clash E (hd (hd polys)) (map hd (tl polys))"
    and run: "\<And>x p p'. (x, p, p') \<in> set nodes \<Longrightarrow> re_view env polys x p \<and> p' = fst (re_round3_Start env p) \<and>
      rt_newskU1 (q_temp p) = None \<and> rt_newskU1 (q_temp p') \<noteq> None"
    and nodes: "nodes \<noteq> []" "distinct (map fst nodes)" "inj_on (\<lambda>x. x mod cN E) (fst ` set nodes)"
      "\<forall>x \<in> fst ` set nodes. x mod cN E \<noteq> 0"
  shows "Combine2 E (map (\<lambda>(x, p, p'). \<lparr>ss_ID = Some x, ss_Share = sd_SkU1 (q_data p')\<rparr>) nodes) = Ok X \<and>
    (\<forall>(x, p, p') \<in> set nodes. sd_Pkx (q_data p') = Some (fst (mulG E X)) \<and> sd_Pky (q_data p') = Some (snd (mulG E X)))"
proof -
  have N: "1 < cN E" by (rule is_prime_gt_1 [OF ec_lawsD(4) [OF E(2)]])
  obtain w where w: "\<forall>i < length ids. round1_w1 E ids (int i) (Some (sk i)) = Ok (w i)"
    "(\<Sum>i < length ids. w i) mod cN E = hd key mod cN E"
    using weights_add_up [OF N old(1-3), of sk] weight by blast
  have "map hd polys = map w [0..<length ids]"
    using w(1) weight old(4) by (intro nth_equalityI) auto
  then have "(\<Sum>poly\<leftarrow>polys. hd poly) = (\<Sum>i < length ids. w i)"
    by (simp add: interv_sum_list_conv_sum_set_nat atLeast0LessThan)
  then have sum: "(\<Sum>poly\<leftarrow>polys. hd poly) mod cN E = X" using w(2) X(1) by simp
  have "polys \<noteq> []" using old by auto
  have node: "sd_SkU1 (q_data p') = Some ((\<Sum>poly\<leftarrow>polys. the_share E poly x) mod cN E) \<and>
      sd_Pkx (q_data p') = Some (fst (mulG E X)) \<and> sd_Pky (q_data p') = Some (snd (mulG E X))"
    if "(x, p, p') \<in> set nodes" for x p p'
  proof -
    note run' = run [OF that]
    have view: "re_view env polys x p" using run' by blast
    obtain pk s where r: "re_sums env (re_begun 3 p) (length (reshareRound1Messages (q_temp p))) = Ok (pk, s)"
      "sd_SkU1 (q_data p') = Some (s mod cN E)" "sd_Pkx (q_data p') = map_option fst pk" "sd_Pky (q_data p') = map_option snd pk"
      using re_round3_Start_keys [of env p p'] run' E(1) by (metis prod.collapse)
    have "re_view env polys x (re_begun 3 p)"
      using view by (simp add: re_view_def re_begun_def re_ResetOK_def)
    moreover have "re_sums env (re_begun 3 p) (length polys) = Ok (pk, s)" using r(1) view by (simp add: re_view_def)
    ultimately have "s = (\<Sum>poly\<leftarrow>polys. the_share E poly x)" "pk = Some (mulG E X)"
      using re_sums_view [of env polys x "re_begun 3 p" pk s] \<open>polys \<noteq> []\<close> new(2-4) E sum by auto
    then show ?thesis using r(2-4) by simp
  qed
  have shares: "map (\<lambda>(x, p, p'). \<lparr>ss_ID = Some x, ss_Share = sd_SkU1 (q_data p')\<rparr>) nodes =
    map (\<lambda>x. \<lparr>ss_ID = Some x, ss_Share = Some ((\<Sum>poly\<leftarrow>polys. the_share E poly x) mod cN E)\<rparr>) (map fst nodes)"
    using node by auto
  have "Combine2 E (map (\<lambda>x. \<lparr>ss_ID = Some x,
      ss_Share = Some ((\<Sum>poly\<leftarrow>polys. the_share E poly x) mod cN E)\<rparr>) (map fst nodes)) = Ok X"
    unfolding sum [symmetric] using new(1) nodes ec_lawsD(4) [OF E(2)] by (intro Combine2_sum) auto
  then show ?thesis using node unfolding shares by auto
qed

lemma toy_reshare:
  "rt_newskU1 (q_temp (fst (re_round3_Start toy_env (toy_renode 1 7 5)))) = Some 12"
  "rt_newskU1 (q_temp (fst (re_round3_Start toy_env (toy_renode 2 11 8)))) = Some 6"
  "snd (re_round3_Start toy_env (toy_renode 1 7 5)) = Err ''get cur index fail''"
  by code_simp+

lemma toy_reshare_view:
  "re_view toy_env [[3, 4], [2, 3]] 1 (toy_renode 1 7 5)" "re_view toy_env [[3, 4], [2, 3]] 2 (toy_renode 2 11 8)"
proof -
  have "the_share toy_curve [3, 4] 1 = 7" "the_share toy_curve [2, 3] 1 = 5" "the_share toy_curve [3, 4] 2 = 11"
    "the_share toy_curve [2, 3] 2 = 8" "mulG toy_curve 3 = (2, 2)" "mulG toy_curve 2 = (6, 3)"
    by code_simp+
  then show "re_view toy_env [[3, 4], [2, 3]] 1 (toy_renode 1 7 5)" "re_view toy_env [[3, 4], [2, 3]] 2 (toy_renode 2 11 8)"
    by (auto simp: re_view_def toy_env_def toy_renode_def toy_retemp_def new_ReTempData_def Let_def less_Suc_eq pair_slice_def)
qed

theorem reshare_keeps_key_witness:
  "Combine2 toy_curve
     [\<lparr>ss_ID = Some 1, ss_Share = sd_SkU1 (q_data (fst (re_round3_Start toy_env (toy_renode 1 7 5))))\<rparr>,
      \<lparr>ss_ID = Some 2, ss_Share = sd_SkU1 (q_data (fst (re_round3_Start toy_env (toy_renode 2 11 8))))\<rparr>] = Ok 5"
proof -
  let ?p1 = "toy_renode 1 7 5" and ?p2 = "toy_renode 2 11 8" and ?sk = "\<lambda>i :: nat. if i = 0 then 8 else 11 :: int"
  let ?nodes = "[(1 :: int, ?p1, fst (re_round3_Start toy_env ?p1)), (2, ?p2, fst (re_round3_Start toy_env ?p2))]"
  have c: "cN toy_curve = 13" "ke_E toy_env = toy_curve" by (simp_all add: toy_env_def toy_curve_def)
  have w: "round1_w1 toy_curve [1, 2] 0 (Some 8) = Ok 3" "round1_w1 toy_curve [1, 2] 1 (Some 11) = Ok 2"
    "peval [5, 3] 1 = 8" "peval [5, 3] 2 = 11" by code_simp+
  have none: "rt_newskU1 (q_temp (toy_renode x a b)) = None" for x a b
    by (simp add: toy_renode_def toy_retemp_def new_ReTempData_def Let_def)
  have "Combine2 toy_curve (map (\<lambda>(x, p, p'). \<lparr>ss_ID = Some x, ss_Share = sd_SkU1 (q_data p')\<rparr>) ?nodes) = Ok 5 \<and>
    (\<forall>(x, p, p') \<in> set ?nodes. sd_Pkx (q_data p') = Some (fst (mulG toy_curve 5)) \<and> sd_Pky (q_data p') = Some (snd (mulG toy_curve 5)))"
  proof (rule reshare_keeps_key [where env = toy_env and key = "[5, 3]" and ids = "[1, 2]" and sk = ?sk and polys = "[[3, 4], [2, 3]]"])
    show "eqm (cN toy_curve) (?sk i) (peval [5, 3] ([1, 2] ! i)) \<and>
      round1_w1 toy_curve [1, 2] (int i) (Some (?sk i)) = Ok (hd ([[3, 4], [2, 3]] ! i))" if "i < length [1, 2 :: int]" for i
      using that w by (auto simp: less_Suc_eq)
    show "re_view toy_env [[3, 4], [2, 3]] x p \<and> p' = fst (re_round3_Start toy_env p) \<and>
      rt_newskU1 (q_temp p) = None \<and> rt_newskU1 (q_temp p') \<noteq> None" if "(x, p, p') \<in> set ?nodes" for x p p'
      using that toy_reshare_view toy_reshare none by auto
    show "unit_diffs (cN toy_curve) [1, 2]" unfolding c by (auto simp: unit_diffs_def less_Suc_eq)
  qed (simp_all add: c toy_curve_laws)
  then show ?thesis by simp
qed

end
