(* ===== verification/EdScalar.thy ===== *)
theory EdScalar
  imports NumberTheory
begin

text \<open>
  The scalars of \<^verbatim>\<open>smpc-lib/crypto/ed/edwards25519.go\<close>: \<^verbatim>\<open>ScMulAdd\<close>, \<^verbatim>\<open>ScMulSub\<close>, \<^verbatim>\<open>ScReduce\<close> and the
  functions built on them.  A scalar is an array of 32 bytes in little-endian order.  The three functions split
  their arguments into limbs of 21 bits, multiply, and reduce modulo the order of the base point by a straight
  line of carries and folds on \<^verbatim>\<open>int64\<close> variables \<^verbatim>\<open>s0\<close> to \<^verbatim>\<open>s23\<close>; the variables are a list of words, and
  the repeated groups of statements are the steps of \<open>sc_step\<close>.  The proofs run the steps on unbounded integers
  and show with an analysis of intervals that no word overflows.
\<close>

unbundle bit_operations_syntax

section \<open>Loading and storing\<close>

type_synonym int64 = "64 word"
type_synonym limbs = "int64 list"

definition load3 :: "byte list \<Rightarrow> int64" where
  "load3 bs = ucast (bs ! 0) OR push_bit 8 (ucast (bs ! 1)) OR push_bit 16 (ucast (bs ! 2))"

definition load4 :: "byte list \<Rightarrow> int64" where
  "load4 bs = ucast (bs ! 0) OR push_bit 8 (ucast (bs ! 1)) OR push_bit 16 (ucast (bs ! 2)) OR
     push_bit 24 (ucast (bs ! 3))"

text \<open>\<^verbatim>\<open>2097151 & (load(a[k:]) >> n)\<close>, for both loads.\<close>

definition limb3 :: "byte list \<Rightarrow> nat \<Rightarrow> nat \<Rightarrow> int64" where
  "limb3 a k n = 2097151 AND signed_drop_bit n (load3 (drop k a))"

definition limb4 :: "byte list \<Rightarrow> nat \<Rightarrow> nat \<Rightarrow> int64" where
  "limb4 a k n = 2097151 AND signed_drop_bit n (load4 (drop k a))"

text \<open>The first eleven limbs are masked, the last one has what is left.\<close>

definition low_limbs :: "byte list \<Rightarrow> limbs" where
  "low_limbs a =
     [limb3 a 0 0, limb4 a 2 5, limb3 a 5 2, limb4 a 7 7, limb4 a 10 4, limb3 a 13 1, limb4 a 15 6,
      limb3 a 18 3, limb3 a 21 0, limb4 a 23 5, limb3 a 26 2]"

definition sc_limbs :: "byte list \<Rightarrow> limbs" where
  "sc_limbs a = low_limbs a @ [signed_drop_bit 7 (load4 (drop 28 a))]"

definition sc_limbs64 :: "byte list \<Rightarrow> limbs" where
  "sc_limbs64 s = low_limbs s @
     [limb4 s 28 7, limb4 s 31 4, limb3 s 34 1, limb4 s 36 6, limb3 s 39 3, limb3 s 42 0, limb4 s 44 5,
      limb3 s 47 2, limb4 s 49 7, limb4 s 52 4, limb3 s 55 1, limb4 s 57 6, signed_drop_bit 3 (load4 (drop 60 s))]"

definition to_byte :: "int64 \<Rightarrow> byte" where
  "to_byte x = ucast x"

definition byte1 :: "limbs \<Rightarrow> nat \<Rightarrow> nat \<Rightarrow> byte" where
  "byte1 s i n = to_byte (signed_drop_bit n (s ! i))"

definition byte2 :: "limbs \<Rightarrow> nat \<Rightarrow> nat \<Rightarrow> nat \<Rightarrow> byte" where
  "byte2 s i n k = to_byte (signed_drop_bit n (s ! i) OR push_bit k (s ! Suc i))"

definition sc_bytes :: "limbs \<Rightarrow> byte list" where
  "sc_bytes s =
     [byte1 s 0 0, byte1 s 0 8, byte2 s 0 16 5, byte1 s 1 3, byte1 s 1 11, byte2 s 1 19 2, byte1 s 2 6,
      byte2 s 2 14 7, byte1 s 3 1, byte1 s 3 9, byte2 s 3 17 4, byte1 s 4 4, byte1 s 4 12, byte2 s 4 20 1,
      byte1 s 5 7, byte2 s 5 15 6, byte1 s 6 2, byte1 s 6 10, byte2 s 6 18 3, byte1 s 7 5, byte1 s 7 13,
      byte1 s 8 0, byte1 s 8 8, byte2 s 8 16 5, byte1 s 9 3, byte1 s 9 11, byte2 s 9 19 2, byte1 s 10 6,
      byte2 s 10 14 7, byte1 s 11 1, byte1 s 11 9, byte1 s 11 17]"

section \<open>The steps of the reduction\<close>

text \<open>
  \<open>Round i\<close>: \<^verbatim>\<open>carry[i] = (si + (1 << 20)) >> 21\<close>, which goes to the next limb.  \<open>Floor i\<close>: the same without the
  rounding.  \<open>Fold i\<close>: the limb \<open>i\<close>, of weight \<open>2 ^ (21 * i)\<close>, is multiplied into the limbs from \<open>i - 12\<close> on.
\<close>

datatype sc_op = Round nat | Floor nat | Fold nat

text \<open>\<^verbatim>\<open>sj += v\<close> and \<^verbatim>\<open>sj -= v\<close>.\<close>

definition add_limb :: "nat \<Rightarrow> int64 \<Rightarrow> limbs \<Rightarrow> limbs" where
  "add_limb j v s = s[j := s ! j + v]"

definition sub_limb :: "nat \<Rightarrow> int64 \<Rightarrow> limbs \<Rightarrow> limbs" where
  "sub_limb j v s = s[j := s ! j - v]"

fun sc_step :: "sc_op \<Rightarrow> limbs \<Rightarrow> limbs" where
  "sc_step (Round i) s =
     (let carry = signed_drop_bit 21 (s ! i + push_bit 20 1)
      in sub_limb i (push_bit 21 carry) (add_limb (Suc i) carry s))"
| "sc_step (Floor i) s =
     (let carry = signed_drop_bit 21 (s ! i)
      in sub_limb i (push_bit 21 carry) (add_limb (Suc i) carry s))"
| "sc_step (Fold i) s =
     (let x = s ! i;
          s = add_limb (i - 12) (x * 666643) s;
          s = add_limb (i - 11) (x * 470296) s;
          s = add_limb (i - 10) (x * 654183) s;
          s = sub_limb (i - 9) (x * 997805) s;
          s = add_limb (i - 8) (x * 136657) s;
          s = sub_limb (i - 7) (x * 683901) s
      in s[i := 0])"

definition carry_ops :: "sc_op list" where
  "carry_ops =
     map Round [0, 2, 4, 6, 8, 10, 12, 14, 16, 18, 20, 22, 1, 3, 5, 7, 9, 11, 13, 15, 17, 19, 21]"

definition reduce_ops :: "sc_op list" where
  "reduce_ops =
     map Fold [23, 22, 21, 20, 19, 18] @ map Round [6, 8, 10, 12, 14, 16, 7, 9, 11, 13, 15] @
     map Fold [17, 16, 15, 14, 13, 12] @ map Round [0, 2, 4, 6, 8, 10, 1, 3, 5, 7, 9, 11] @
     [Fold 12] @ map Floor [0, 1, 2, 3, 4, 5, 6, 7, 8, 9, 10, 11] @
     [Fold 12] @ map Floor [0, 1, 2, 3, 4, 5, 6, 7, 8, 9, 10]"

section \<open>The functions\<close>

text \<open>\<^verbatim>\<open>sk := ck + a0*bk + ... + ak*b0\<close>, over the limbs that exist, and \<^verbatim>\<open>s23 := 0\<close>.\<close>

definition limb_product :: "limbs \<Rightarrow> limbs \<Rightarrow> nat \<Rightarrow> int64" where
  "limb_product a b k = (\<Sum>i\<leftarrow>[0..<12]. if i \<le> k \<and> k - i < 12 then a ! i * b ! (k - i) else 0)"

definition product_limbs :: "limbs \<Rightarrow> limbs \<Rightarrow> limbs \<Rightarrow> limbs" where
  "product_limbs a b c = map (\<lambda>k. (if k < 12 then c ! k else 0) + limb_product a b k) [0..<23] @ [0]"

definition ScMulAdd :: "byte list \<Rightarrow> byte list \<Rightarrow> byte list \<Rightarrow> byte list" where
  "ScMulAdd a b c =
     (let s = product_limbs (sc_limbs a) (sc_limbs b) (sc_limbs c)
      in sc_bytes (fold sc_step reduce_ops (fold sc_step carry_ops s)))"

definition ScMulSub :: "byte list \<Rightarrow> byte list \<Rightarrow> byte list \<Rightarrow> byte list" where
  "ScMulSub a b c =
     (let s = product_limbs (sc_limbs a) (sc_limbs b) (map uminus (sc_limbs c))
      in sc_bytes (fold sc_step reduce_ops (fold sc_step carry_ops s)))"

definition ScReduce :: "byte list \<Rightarrow> byte list" where
  "ScReduce s = sc_bytes (fold sc_step reduce_ops (sc_limbs64 s))"

definition sc_zero :: "byte list" where
  "sc_zero = replicate 32 0"

definition sc_one :: "byte list" where
  "sc_one = 1 # replicate 31 0"

definition ScMul :: "byte list \<Rightarrow> byte list \<Rightarrow> byte list" where
  "ScMul a b = ScMulAdd a b sc_zero"

definition ScAdd :: "byte list \<Rightarrow> byte list \<Rightarrow> byte list" where
  "ScAdd a b = ScMulAdd a sc_one b"

definition ScSub :: "byte list \<Rightarrow> byte list \<Rightarrow> byte list" where
  "ScSub a b = ScMulSub a sc_one b"

definition GetBigIntOrder :: int where
  "GetBigIntOrder = 2 ^ 252 + 0x14def9dea2f79cd6 * 2 ^ 64 + 0x5812631a5cf5d3ed"

text \<open>\<^verbatim>\<open>copy(x[32-len(b):], b)\<close> for a slice \<^verbatim>\<open>b\<close> of at most 32 bytes.\<close>

definition pad_scalar :: "byte list \<Rightarrow> byte list" where
  "pad_scalar b = replicate (32 - length b) 0 @ b"

definition GetBytesOrder :: "byte list" where
  "GetBytesOrder = rev (pad_scalar (Bytes GetBigIntOrder))"

definition ScModInverse :: "byte list \<Rightarrow> byte list" where
  "ScModInverse a =
     (case ModInverse (SetBytes (rev a)) GetBigIntOrder of
        None \<Rightarrow> replicate 32 0
      | Some aInv \<Rightarrow> rev (pad_scalar (Bytes aInv)))"

definition order_words :: "64 word list" where
  "order_words = [0x5812631a5cf5d3ed, 0x14def9dea2f79cd6, 0, 0x1000000000000000]"

definition Uint64 :: "byte list \<Rightarrow> 64 word" where
  "Uint64 bs = word_of_int (\<Sum>i\<leftarrow>[0..<8]. uint (bs ! i) * 256 ^ i)"

fun ScMinimal_from :: "nat \<Rightarrow> byte list \<Rightarrow> bool" where
  "ScMinimal_from i scalar =
     (let v = Uint64 (drop (i * 8) scalar)
      in if v > order_words ! i then False
         else if v < order_words ! i then True
         else if i = 0 then False
         else ScMinimal_from (i - 1) scalar)"

declare ScMinimal_from.simps [simp del]

definition ScMinimal :: "byte list \<Rightarrow> bool" where
  "ScMinimal scalar = ScMinimal_from 3 scalar"


section \<open>The steps on unbounded integers\<close>

text \<open>The limbs \<open>xs\<close> of 21 bits represent \<open>val21 xs\<close>.\<close>

fun val21 :: "int list \<Rightarrow> int" where
  "val21 [] = 0"
| "val21 (x # xs) = x + 2 ^ 21 * val21 xs"

definition add_at :: "nat \<Rightarrow> int \<Rightarrow> int list \<Rightarrow> int list" where
  "add_at i v s = s[i := s ! i + v]"

fun zstep :: "sc_op \<Rightarrow> int list \<Rightarrow> int list" where
  "zstep (Round i) s = (let c = (s ! i + 2 ^ 20) div 2 ^ 21 in add_at i (- (c * 2 ^ 21)) (add_at (Suc i) c s))"
| "zstep (Floor i) s = (let c = s ! i div 2 ^ 21 in add_at i (- (c * 2 ^ 21)) (add_at (Suc i) c s))"
| "zstep (Fold i) s =
     (let x = s ! i
      in (add_at (i - 7) (x * - 683901) (add_at (i - 8) (x * 136657) (add_at (i - 9) (x * - 997805)
         (add_at (i - 10) (x * 654183) (add_at (i - 11) (x * 470296) (add_at (i - 12) (x * 666643) s))))))[i := 0])"

fun op_index :: "sc_op \<Rightarrow> nat" where
  "op_index (Round i) = i" | "op_index (Floor i) = i" | "op_index (Fold i) = i"

text \<open>The step stays within the limbs.\<close>

fun op_fits :: "nat \<Rightarrow> sc_op \<Rightarrow> bool" where
  "op_fits n (Fold i) \<longleftrightarrow> 12 \<le> i \<and> i < n"
| "op_fits n (Round i) \<longleftrightarrow> Suc i < n"
| "op_fits n (Floor i) \<longleftrightarrow> Suc i < n"

lemma length_add_at [simp]: "length (add_at i v s) = length s"
  by (simp add: add_at_def)

lemma length_zstep [simp]: "length (zstep op s) = length s"
  by (cases op) (simp_all add: Let_def)

lemma val21_update: "i < length s \<Longrightarrow> val21 (s[i := v]) = val21 s + (v - s ! i) * 2097152 ^ i"
proof (induction s arbitrary: i)
  case (Cons x s)
  show ?case
  proof (cases i)
    case (Suc j)
    then have "val21 (s[j := v]) = val21 s + (v - s ! j) * 2097152 ^ j" using Cons by simp
    then show ?thesis using Suc by (simp only: list_update.simps val21.simps nat.case nth_Cons_Suc) (simp add: algebra_simps)
  qed simp
qed simp

lemma val21_add_at [simp]: "i < length s \<Longrightarrow> val21 (add_at i v s) = val21 s + v * 2097152 ^ i"
  by (simp add: add_at_def val21_update)

lemma nth_add_at: "i < length s \<Longrightarrow> add_at i v s ! j = (if i = j then s ! j + v else s ! j)"
  by (auto simp: add_at_def)

lemma zstep_carry:
  assumes "op = Round i \<or> op = Floor i" "Suc i < length s"
  shows "val21 (zstep op s) = val21 s"
  using assms by (auto simp: Let_def)

lemma zstep_fold:
  assumes "12 \<le> i" "i < length s"
  shows "val21 (zstep (Fold i) s) = val21 s - GetBigIntOrder * (s ! i * 2097152 ^ (i - 12))"
proof -
  obtain k where i: "i = k + 12" using assms(1) by (metis add.commute le_Suc_ex)
  have m: "i - 12 = k" "i - 11 = k + 1" "i - 10 = k + 2" "i - 9 = k + 3" "i - 8 = k + 4" "i - 7 = k + 5"
    using i by auto
  define z where "z = s ! i * 2097152 ^ k"
  have "val21 (zstep (Fold i) s) =
      val21 s + s ! i * 666643 * 2097152 ^ k + s ! i * 470296 * 2097152 ^ (k + 1) + s ! i * 654183 * 2097152 ^ (k + 2)
        + s ! i * - 997805 * 2097152 ^ (k + 3) + s ! i * 136657 * 2097152 ^ (k + 4) + s ! i * - 683901 * 2097152 ^ (k + 5)
        - s ! i * 2097152 ^ (k + 12)"
    using assms(2) unfolding m zstep.simps Let_def by (simp add: val21_update nth_add_at i)
  also have "\<dots> = val21 s + 666643 * z + 470296 * 2097152 * z + 654183 * 2097152 ^ 2 * z
      - 997805 * 2097152 ^ 3 * z + 136657 * 2097152 ^ 4 * z - 683901 * 2097152 ^ 5 * z - 2097152 ^ 12 * z"
    by (simp add: z_def power_add)
  also have "\<dots> = val21 s - GetBigIntOrder * z" by (simp add: GetBigIntOrder_def)
  finally show ?thesis by (simp add: z_def m)
qed

lemma zstep_mod:
  assumes "op_fits (length s) op"
  shows "val21 (zstep op s) mod GetBigIntOrder = val21 s mod GetBigIntOrder"
proof (cases op)
  case (Fold i)
  then have "12 \<le> i" "i < length s" using assms by auto
  then show ?thesis unfolding Fold zstep_fold [OF \<open>12 \<le> i\<close> \<open>i < length s\<close>] by (metis mod_mult_self2 minus_mult_right uminus_add_conv_diff add.commute)
qed (use assms in \<open>auto simp: zstep_carry simp del: zstep.simps\<close>)

lemma run_mod:
  assumes "list_all (op_fits (length s)) ops"
  shows "length (fold zstep ops s) = length s \<and> val21 (fold zstep ops s) mod GetBigIntOrder = val21 s mod GetBigIntOrder"
  using assms by (induction ops arbitrary: s) (auto simp: zstep_mod)

section \<open>Words\<close>

definition in_word :: "int \<Rightarrow> bool" where
  "in_word x \<longleftrightarrow> - (2 ^ 63) \<le> x \<and> x < 2 ^ 63"

lemma signed_drop_bit_of_int:
  assumes "in_word x"
  shows "signed_drop_bit n (word_of_int x :: int64) = word_of_int (x div 2 ^ n)"
proof -
  have "sint (word_of_int x :: int64) = x"
    using assms by (simp add: in_word_def signed_take_bit_int_eq_self sint_sbintrunc')
  then show ?thesis
    by (metis drop_bit_eq_div of_int_sint scast_id sint_signed_drop_bit_eq)
qed

lemma push_bit_of_int: "push_bit n (word_of_int x :: int64) = word_of_int (x * 2 ^ n)"
  by (simp add: push_bit_eq_mult)

fun op_safe :: "sc_op \<Rightarrow> int list \<Rightarrow> bool" where
  "op_safe (Round i) s \<longleftrightarrow> in_word (s ! i + 2 ^ 20)"
| "op_safe (Floor i) s \<longleftrightarrow> in_word (s ! i)"
| "op_safe (Fold i) s \<longleftrightarrow> True"

abbreviation words :: "int list \<Rightarrow> limbs" where
  "words s \<equiv> map word_of_int s"

lemma add_limb_words: "j < length s \<Longrightarrow> add_limb j (word_of_int v) (words s) = words (add_at j v s)"
  by (simp add: add_limb_def add_at_def map_update)

lemma sub_limb_words: "j < length s \<Longrightarrow> sub_limb j (word_of_int v) (words s) = words (add_at j (- v) s)"
  by (simp add: sub_limb_def add_at_def map_update)

lemma times_words: "word_of_int x * (numeral n :: int64) = word_of_int (x * numeral n)"
  by simp

lemma step_words:
  assumes "op_fits (length s) op" "op_safe op s"
  shows "sc_step op (words s) = words (zstep op s)"
proof (cases op)
  case (Fold i)
  then have i: "i < length s" using assms by simp
  then have n: "words s ! i = word_of_int (s ! i)" by simp
  show ?thesis
    using i by (simp only: Fold sc_step.simps zstep.simps Let_def n times_words)
      (simp add: add_limb_words sub_limb_words map_update del: of_int_mult)
next
  case (Round i)
  then have i: "i < length s" "Suc i < length s" "in_word (s ! i + 2 ^ 20)" using assms by simp_all
  have n: "words s ! i + push_bit 20 1 = word_of_int (s ! i + 2 ^ 20)" using i(1) by (simp add: push_bit_eq_mult)
  show ?thesis
    using i by (simp only: Round sc_step.simps zstep.simps Let_def n signed_drop_bit_of_int push_bit_of_int)
      (simp add: add_limb_words sub_limb_words del: of_int_mult)
next
  case (Floor i)
  then have i: "i < length s" "Suc i < length s" "in_word (s ! i)" using assms by simp_all
  have n: "words s ! i = word_of_int (s ! i)" using i(1) by simp
  show ?thesis
    using i by (simp only: Floor sc_step.simps zstep.simps Let_def n signed_drop_bit_of_int push_bit_of_int)
      (simp add: add_limb_words sub_limb_words del: of_int_mult)
qed


section \<open>Bounds\<close>

type_synonym interval = "int \<times> int"

definition within :: "int \<Rightarrow> interval \<Rightarrow> bool" where
  "within x b \<longleftrightarrow> fst b \<le> x \<and> x \<le> snd b"

definition iv_add :: "nat \<Rightarrow> interval \<Rightarrow> interval list \<Rightarrow> interval list" where
  "iv_add i d b = b[i := (fst (b ! i) + fst d, snd (b ! i) + snd d)]"

definition iv_times :: "interval \<Rightarrow> int \<Rightarrow> interval" where
  "iv_times d k = (if 0 \<le> k then (fst d * k, snd d * k) else (snd d * k, fst d * k))"

definition iv_carry :: "nat \<Rightarrow> int \<Rightarrow> interval list \<Rightarrow> interval list" where
  "iv_carry i r b =
     (let d = ((fst (b ! i) + r) div 2097152, (snd (b ! i) + r) div 2097152)
      in (iv_add (Suc i) d b)[i := (- r, 2097151 - r)])"

text \<open>Bounds of the limbs after a step, from bounds before it.\<close>

fun iv_step :: "sc_op \<Rightarrow> interval list \<Rightarrow> interval list" where
  "iv_step (Round i) b = iv_carry i 1048576 b"
| "iv_step (Floor i) b = iv_carry i 0 b"
| "iv_step (Fold i) b =
     (let x = b ! i
      in (iv_add (i - 7) (iv_times x (- 683901)) (iv_add (i - 8) (iv_times x 136657)
         (iv_add (i - 9) (iv_times x (- 997805)) (iv_add (i - 10) (iv_times x 654183)
         (iv_add (i - 11) (iv_times x 470296) (iv_add (i - 12) (iv_times x 666643) b))))))[i := (0, 0)])"

fun iv_safe :: "sc_op \<Rightarrow> interval list \<Rightarrow> bool" where
  "iv_safe (Round i) b \<longleftrightarrow> - 9223372036854775808 \<le> fst (b ! i) + 1048576 \<and> snd (b ! i) + 1048576 < 9223372036854775808"
| "iv_safe (Floor i) b \<longleftrightarrow> - 9223372036854775808 \<le> fst (b ! i) \<and> snd (b ! i) < 9223372036854775808"
| "iv_safe (Fold i) b \<longleftrightarrow> True"

fun iv_run :: "sc_op list \<Rightarrow> interval list \<Rightarrow> interval list option" where
  "iv_run [] b = Some b"
| "iv_run (op # ops) b = (if iv_safe op b then iv_run ops (iv_step op b) else None)"

abbreviation bounded :: "int list \<Rightarrow> interval list \<Rightarrow> bool" where
  "bounded s b \<equiv> list_all2 within s b"

lemma bounded_update: "bounded s b \<Longrightarrow> within x d \<Longrightarrow> bounded (s[i := x]) (b[i := d])"
  by (rule list_all2_update_cong)

lemma bounded_nth: "bounded s b \<Longrightarrow> i < length s \<Longrightarrow> within (s ! i) (b ! i)"
  by (rule list_all2_nthD)

lemma bounded_add:
  "bounded s b \<Longrightarrow> within x d \<Longrightarrow> i < length s \<Longrightarrow> bounded (add_at i x s) (iv_add i d b)"
  unfolding add_at_def iv_add_def by (rule bounded_update) (auto dest: bounded_nth simp: within_def)

lemma within_times: "within x d \<Longrightarrow> within (x * k) (iv_times d k)"
  by (auto simp: within_def iv_times_def mult_right_mono mult_right_mono_neg)

lemma within_div: "within x d \<Longrightarrow> within ((x + r) div 2097152) ((fst d + r) div 2097152, (snd d + r) div 2097152)"
  by (auto simp: within_def zdiv_mono1)

lemma bounded_carry:
  assumes "bounded s b" "Suc i < length s"
  shows "bounded (let c = (s ! i + r) div 2097152 in add_at i (- (c * 2097152)) (add_at (Suc i) c s)) (iv_carry i r b)"
proof -
  define c where "c = (s ! i + r) div 2097152"
  have "s ! i + - (c * 2097152) = (s ! i + r) mod 2097152 - r" by (simp add: c_def minus_mult_div_eq_mod [symmetric])
  moreover have "0 \<le> (s ! i + r) mod 2097152 \<and> (s ! i + r) mod 2097152 < 2097152" by simp
  ultimately have "within (s ! i + - (c * 2097152)) (- r, 2097151 - r)" by (simp add: within_def)
  moreover have "bounded (add_at (Suc i) c s) (iv_add (Suc i) ((fst (b ! i) + r) div 2097152, (snd (b ! i) + r) div 2097152) b)"
    using assms bounded_nth [OF assms(1), of i] by (auto intro!: bounded_add within_div simp: c_def)
  moreover have "add_at (Suc i) c s ! i = s ! i" using assms by (simp add: nth_add_at)
  ultimately show ?thesis
    unfolding iv_carry_def Let_def c_def [symmetric] by (subst add_at_def) (auto intro: bounded_update)
qed

lemma bounded_step:
  assumes "bounded s b" "op_fits (length s) op"
  shows "bounded (zstep op s) (iv_step op b)"
proof (cases op)
  case (Fold i)
  have "within (s ! i) (b ! i)" using assms Fold by (auto intro: bounded_nth)
  then show ?thesis
    using assms Fold unfolding Fold zstep.simps iv_step.simps Let_def
    by (intro bounded_update bounded_add within_times) (auto simp: within_def)
next
  case (Round i)
  then show ?thesis using bounded_carry [of s b i 1048576] assms by (simp add: Let_def)
next
  case (Floor i)
  then show ?thesis using bounded_carry [of s b i 0] assms by (simp add: Let_def)
qed

lemma safe_step: "bounded s b \<Longrightarrow> op_fits (length s) op \<Longrightarrow> iv_safe op b \<Longrightarrow> op_safe op s"
  by (cases op) (auto dest!: bounded_nth [where i = "op_index op"] simp: within_def in_word_def)

lemma run_words:
  assumes "bounded s b" "list_all (op_fits (length s)) ops" "iv_run ops b = Some b'"
  shows "fold sc_step ops (words s) = words (fold zstep ops s) \<and> bounded (fold zstep ops s) b'"
  using assms
proof (induction ops arbitrary: s b)
  case (Cons op ops)
  have op: "op_fits (length s) op" "iv_safe op b" "iv_run ops (iv_step op b) = Some b'"
    using Cons.prems by (auto split: if_splits)
  have "bounded (zstep op s) (iv_step op b)" using bounded_step Cons.prems(1) op(1) .
  moreover have "sc_step op (words s) = words (zstep op s)"
    using step_words op(1) safe_step [OF Cons.prems(1) op(1,2)] by blast
  ultimately show ?case using Cons.IH [of "zstep op s" "iv_step op b"] op(3) Cons.prems(2) by simp
qed simp

section \<open>The reduction is exact\<close>

lemma val21_bounds: "bounded s b \<Longrightarrow> val21 (map fst b) \<le> val21 s \<and> val21 s \<le> val21 (map snd b)"
  by (induction rule: list_all2_induct) (auto simp: within_def)

lemma val21_append: "val21 (xs @ ys) = val21 xs + 2097152 ^ length xs * val21 ys"
  by (induction xs) (auto simp: algebra_simps)

lemma val21_zeros [simp]: "val21 (replicate n 0) = 0"
  by (induction n) auto

definition limb_range :: interval where
  "limb_range = (0, 2097151)"

text \<open>The steps up to the second fold of limb 12, the carries to limb 12, its last fold, and the last carries.\<close>

definition front_ops :: "sc_op list" where
  "front_ops = take 36 reduce_ops"

definition back_ops :: "sc_op list" where
  "back_ops = map Floor [0, 1, 2, 3, 4, 5, 6, 7, 8, 9, 10, 11]"

definition last_ops :: "sc_op list" where
  "last_ops = Fold 12 # map Floor [0, 1, 2, 3, 4, 5, 6, 7, 8, 9, 10]"

lemma reduce_ops_split: "reduce_ops = front_ops @ back_ops @ last_ops"
  by (simp add: reduce_ops_def front_ops_def back_ops_def last_ops_def)

lemma ops_fit: "list_all (op_fits 24) carry_ops" "list_all (op_fits 24) front_ops" "list_all (op_fits 24) back_ops"
    "list_all (op_fits 24) last_ops"
  by (simp_all add: carry_ops_def front_ops_def reduce_ops_def back_ops_def last_ops_def)

definition reduces :: "interval list \<Rightarrow> interval list \<Rightarrow> interval list \<Rightarrow> interval list \<Rightarrow> bool" where
  "reduces b b1 b2 b3 \<longleftrightarrow>
     iv_run front_ops b = Some b1 \<and> - (2 ^ 252) \<le> val21 (map fst b1) \<and> val21 (map snd b1) < 2 ^ 252 \<and>
     iv_run back_ops b1 = Some b2 \<and> take 12 b2 = replicate 12 limb_range \<and> drop 13 b2 = replicate 11 (0, 0) \<and>
     iv_run last_ops b2 = Some b3 \<and> take 11 b3 = replicate 11 limb_range \<and> drop 12 b3 = replicate 12 (0, 0)"

lemma bounded_take: "bounded s b \<Longrightarrow> bounded (take n s) (take n b)"
  by (rule list_all2_takeI)

lemma bounded_zeros: "bounded s (replicate n (0, 0)) \<Longrightarrow> s = replicate n 0"
  by (induction n arbitrary: s) (auto simp: list_all2_Cons2 within_def)

lemma val21_digits: "bounded s (replicate n limb_range) \<Longrightarrow> 0 \<le> val21 s \<and> val21 s < 2097152 ^ n"
proof (induction n arbitrary: s)
  case (Suc n)
  then obtain x t where s: "s = x # t" "within x limb_range" "bounded t (replicate n limb_range)"
    by (auto simp: list_all2_Cons2)
  then show ?case using Suc.IH [OF s(3)] by (simp add: within_def limb_range_def)
qed simp

lemma split_at_limb:
  assumes "bounded s b" "take n b = replicate n limb_range" "drop (Suc n) b = replicate m (0, 0)" "n < length s"
  shows "val21 s = val21 (take n s) + 2097152 ^ n * s ! n" "0 \<le> val21 (take n s)" "val21 (take n s) < 2097152 ^ n"
proof -
  have "drop (Suc n) s = replicate m 0"
    using list_all2_dropI [OF assms(1), of "Suc n"] assms(3) by (auto intro: bounded_zeros)
  then have "s = take n s @ s ! n # replicate m 0" using id_take_nth_drop [OF assms(4)] by simp
  then have "val21 s = val21 (take n s @ s ! n # replicate m 0)" by simp
  also have "\<dots> = val21 (take n s) + 2097152 ^ n * s ! n" using assms(4) by (simp add: val21_append)
  finally show "val21 s = val21 (take n s) + 2097152 ^ n * s ! n" .
  have "bounded (take n s) (replicate n limb_range)" using bounded_take [OF assms(1)] assms(2) by metis
  then show "0 \<le> val21 (take n s)" "val21 (take n s) < 2097152 ^ n" using val21_digits by blast+
qed

lemma order_bounds: "2 ^ 252 < GetBigIntOrder" "GetBigIntOrder < 2 ^ 253"
  by (simp_all add: GetBigIntOrder_def)

lemma carries_keep: "list_all (op_fits (length s)) (map Floor is) \<Longrightarrow> val21 (fold zstep (map Floor is) s) = val21 s"
  by (induction "is" arbitrary: s) (auto simp: zstep_carry simp del: zstep.simps)

text \<open>
  After the first steps the value is between \<open>- 2 ^ 252\<close> and \<open>2 ^ 252\<close>, so limb 12 becomes 0 or -1, and folding it
  adds the order exactly when the value is negative.
\<close>

lemma last_value:
  assumes "bounded s b" "length s = 24" "reduces b b1 b2 b3"
  defines "t \<equiv> fold zstep last_ops (fold zstep back_ops (fold zstep front_ops s))"
  shows "bounded t b3" "val21 t = val21 s mod GetBigIntOrder" "length t = 24"
    "fold sc_step reduce_ops (words s) = words t"
proof -
  define s1 s2 where "s1 = fold zstep front_ops s" and "s2 = fold zstep back_ops s1"
  note r = assms(3) [unfolded reduces_def]
  have 1: "fold sc_step front_ops (words s) = words s1" "bounded s1 b1" "length s1 = 24"
      "val21 s1 mod GetBigIntOrder = val21 s mod GetBigIntOrder"
    unfolding s1_def using run_words [OF assms(1), of front_ops b1] run_mod [of s front_ops] r assms(2) ops_fit(2) by simp_all
  have 2: "fold sc_step back_ops (words s1) = words s2" "bounded s2 b2" "length s2 = 24"
    unfolding s2_def using run_words [OF 1(2), of back_ops b2] run_mod [of s1 back_ops] r 1(3) ops_fit(3) by simp_all
  have 3: "fold sc_step last_ops (words s2) = words t" "bounded t b3" "length t = 24"
    unfolding t_def s1_def [symmetric] s2_def [symmetric]
    using run_words [OF 2(2), of last_ops b3] run_mod [of s2 last_ops] r 2(3) ops_fit(4) by simp_all
  have v2: "val21 s2 = val21 s1"
    unfolding s2_def back_ops_def using ops_fit(3) 1(3) by (intro carries_keep) (simp add: back_ops_def)
  have "val21 t = val21 (zstep (Fold 12) s2)"
    unfolding t_def s1_def [symmetric] s2_def [symmetric] last_ops_def fold_simps
    using ops_fit(4) 2(3) by (intro carries_keep) (simp add: last_ops_def del: zstep.simps)
  also have "\<dots> = val21 s2 - GetBigIntOrder * s2 ! 12" using zstep_fold [of 12 s2] 2(3) by simp
  finally have vt: "val21 t = val21 s1 - GetBigIntOrder * s2 ! 12" by (simp add: v2)
  have "- (2 ^ 252) \<le> val21 s1" "val21 s1 < 2 ^ 252" using val21_bounds [OF 1(2)] r by auto
  moreover have "val21 s1 = val21 (take 12 s2) + 2 ^ 252 * s2 ! 12" "0 \<le> val21 (take 12 s2)" "val21 (take 12 s2) < 2 ^ 252"
    using split_at_limb [OF 2(2), of 12 11] r 2(3) v2 by simp_all
  ultimately have "s2 ! 12 = 0 \<and> 0 \<le> val21 s1 \<or> s2 ! 12 = - 1 \<and> val21 s1 < 0" by auto
  then have "0 \<le> val21 t" "val21 t < GetBigIntOrder"
    using vt order_bounds \<open>- (2 ^ 252) \<le> val21 s1\<close> \<open>val21 s1 < 2 ^ 252\<close> by auto
  moreover have "val21 t mod GetBigIntOrder = val21 s mod GetBigIntOrder"
    unfolding vt 1(4) [symmetric] by (metis mod_mult_self2 minus_mult_right uminus_add_conv_diff add.commute)
  ultimately show "val21 t = val21 s mod GetBigIntOrder" by simp
  show "bounded t b3" "length t = 24" by (rule 3)+
  show "fold sc_step reduce_ops (words s) = words t" by (simp add: reduce_ops_split 1(1) 2(1) 3(1))
qed

definition product_bounds :: "interval list" where
  "product_bounds = replicate 23 (- 33554432, 14636698788954112) @ [(0, 0)]"

definition wide_bounds :: "interval list" where
  "wide_bounds = replicate 23 limb_range @ [(0, 536870911)]"

lemma wide_reduces: "reduces wide_bounds (the (iv_run front_ops wide_bounds))
    (the (iv_run (front_ops @ back_ops) wide_bounds)) (the (iv_run (front_ops @ back_ops @ last_ops) wide_bounds))"
  by code_simp

lemma product_carries: "iv_run carry_ops product_bounds \<noteq> None"
  by code_simp

lemma product_reduces: "reduces (the (iv_run carry_ops product_bounds)) (the (iv_run (carry_ops @ front_ops) product_bounds))
    (the (iv_run (carry_ops @ front_ops @ back_ops) product_bounds)) (the (iv_run (carry_ops @ front_ops @ back_ops @ last_ops) product_bounds))"
  by code_simp


section \<open>Bytes and limbs\<close>

text \<open>The number in an array of bytes, least significant byte first.\<close>

fun le :: "byte list \<Rightarrow> int" where
  "le [] = 0"
| "le (b # bs) = uint b + 256 * le bs"

fun digits21 :: "nat \<Rightarrow> int \<Rightarrow> int list" where
  "digits21 0 v = [v]"
| "digits21 (Suc n) v = take_bit 21 v # digits21 n (drop_bit 21 v)"

lemma val21_digits21 [simp]: "val21 (digits21 n v) = v"
  by (induction n arbitrary: v) (simp_all add: take_bit_eq_mod drop_bit_eq_div)

lemma length_digits21 [simp]: "length (digits21 n v) = Suc n"
  by (induction n arbitrary: v) auto

lemma le_bounds: "0 \<le> le bs \<and> le bs < 256 ^ length bs"
proof (induction bs)
  case (Cons b bs)
  have "0 \<le> uint b" "uint b < 256" using uint_lt2p [of b] by simp_all
  then show ?case using Cons by simp
qed simp

lemma le_drop: "le (drop k bs) = drop_bit (8 * k) (le bs)"
proof (induction bs arbitrary: k)
  case (Cons b bs)
  have "uint b div 256 = 0" using uint_lt2p [of b] by simp
  then have "drop_bit (8 * Suc j) (le (b # bs)) = drop_bit (8 * j) (le bs)" for j
    by (simp add: drop_bit_eq_div power_add zdiv_zmult2_eq)
  with Cons show ?case by (cases k) simp_all
qed simp

lemma uint_byte: "0 \<le> uint (b :: byte)" "uint b < 256"
  using uint_lt2p [of b] by simp_all

lemma push_bit_word: "push_bit n (word_of_int x :: int64) = word_of_int (push_bit n x)"
  by (simp add: push_bit_eq_mult)

lemma or_shifted: "0 \<le> x \<Longrightarrow> x < 2 ^ n \<Longrightarrow> x OR push_bit n y = x + 2 ^ n * (y :: int)"
  using concat_bit_eq [of n x y] by (simp add: concat_bit_def take_bit_int_eq_self push_bit_eq_mult mult.commute)

text \<open>The bytes of a load do not overlap.\<close>

lemma or_bytes:
  "(ucast (x :: byte) :: int64) OR push_bit 8 (ucast (y :: byte)) OR push_bit 16 (ucast (z :: byte)) OR push_bit 24 (word_of_int w)
     = word_of_int (uint x + 256 * (uint y + 256 * (uint z + 256 * w)))"
proof -
  have u: "ucast b = (word_of_int (uint b) :: int64)" for b :: byte by simp
  have "(ucast x :: int64) OR push_bit 8 (ucast y) OR push_bit 16 (ucast z) OR push_bit 24 (word_of_int w)
      = word_of_int (uint x OR push_bit 8 (uint y OR push_bit 8 (uint z OR push_bit 8 w)))"
    unfolding u push_bit_word word_wi_log_defs by (simp add: push_bit_or push_bit_push_bit)
  also have "uint x OR push_bit 8 (uint y OR push_bit 8 (uint z OR push_bit 8 w)) = uint x + 256 * (uint y + 256 * (uint z + 256 * w))"
    using uint_byte [of x] uint_byte [of y] uint_byte [of z] by (simp add: or_shifted)
  finally show ?thesis .
qed

lemma take_bit_bytes: "take_bit (8 + n) (uint (b :: byte) + 256 * v) = uint b + 256 * take_bit n v"
proof -
  have "take_bit (8 + n) (uint b + 256 * v) = (uint b + 256 * v) mod (256 * 2 ^ n)" by (simp add: take_bit_eq_mod power_add)
  also have "\<dots> = 256 * ((uint b + 256 * v) div 256 mod 2 ^ n) + (uint b + 256 * v) mod 256" by (rule zmod_zmult2_eq) simp
  finally show ?thesis using uint_byte [of b] by (simp add: take_bit_eq_mod)
qed

lemma load3_le:
  assumes "k + 3 \<le> length a"
  shows "load3 (drop k a) = word_of_int (take_bit 24 (drop_bit (8 * k) (le a)))"
proof -
  have "3 \<le> length (drop k a)" using assms by simp
  then obtain x y z bs where d: "drop k a = x # y # z # bs"
    by (auto simp: Suc_le_length_iff numeral_eq_Suc simp del: length_drop)
  have "load3 (drop k a) = word_of_int (uint x + 256 * (uint y + 256 * uint z))"
    using or_bytes [of x y z 0] by (simp add: load3_def d)
  also have "uint x + 256 * (uint y + 256 * uint z) = take_bit 24 (le (drop k a))"
    by (simp only: d le.simps take_bit_bytes [of 16, simplified] take_bit_bytes [of 8, simplified] take_bit_bytes [of 0, simplified])
  finally show ?thesis by (simp add: le_drop)
qed

lemma load4_le:
  assumes "k + 4 \<le> length a"
  shows "load4 (drop k a) = word_of_int (take_bit 32 (drop_bit (8 * k) (le a)))"
proof -
  have "4 \<le> length (drop k a)" using assms by simp
  then obtain x y z w bs where d: "drop k a = x # y # z # w # bs"
    by (auto simp: Suc_le_length_iff numeral_eq_Suc simp del: length_drop)
  have "load4 (drop k a) = word_of_int (uint x + 256 * (uint y + 256 * (uint z + 256 * uint w)))"
    using or_bytes [of x y z "uint w"] by (simp add: load4_def d)
  also have "uint x + 256 * (uint y + 256 * (uint z + 256 * uint w)) = take_bit 32 (le (drop k a))"
    by (simp only: d le.simps take_bit_bytes [of 24, simplified] take_bit_bytes [of 16, simplified] take_bit_bytes [of 8, simplified]
        take_bit_bytes [of 0, simplified])
  finally show ?thesis by (simp add: le_drop)
qed

lemma in_word_take_bit: "n < 63 \<Longrightarrow> in_word (take_bit n v)"
proof -
  assume "n < 63"
  then have "(2::int) ^ n \<le> 2 ^ 63" by (intro power_increasing) auto
  moreover have "0 \<le> take_bit n v" "take_bit n v < 2 ^ n" by (simp_all add: take_bit_int_less_exp)
  ultimately show ?thesis unfolding in_word_def by linarith
qed

lemma shift_field:
  assumes "m < 63"
  shows "signed_drop_bit n (word_of_int (take_bit m v) :: int64) = word_of_int (take_bit (m - n) (drop_bit n v))"
  using assms by (simp add: signed_drop_bit_of_int in_word_take_bit drop_bit_take_bit flip: drop_bit_eq_div)

lemma mask_word: "2097151 AND (word_of_int x :: int64) = word_of_int (take_bit 21 x)"
proof -
  have "2097151 AND (word_of_int x :: int64) = word_of_int (2097151 AND x)"
    using word_wi_log_defs(2) [of 2097151 x] by simp
  also have "2097151 AND x = take_bit 21 x" by (simp add: take_bit_eq_mask mask_eq_exp_minus_1 and.commute)
  finally show ?thesis .
qed

lemma limb3_le:
  "k + 3 \<le> length a \<Longrightarrow> n \<le> 3 \<Longrightarrow> limb3 a k n = word_of_int (take_bit 21 (drop_bit (8 * k + n) (le a)))"
  by (simp add: limb3_def load3_le shift_field mask_word take_bit_take_bit drop_bit_drop_bit add.commute)

lemma limb4_le:
  "k + 4 \<le> length a \<Longrightarrow> n \<le> 11 \<Longrightarrow> limb4 a k n = word_of_int (take_bit 21 (drop_bit (8 * k + n) (le a)))"
  by (simp add: limb4_def load4_le shift_field mask_word take_bit_take_bit drop_bit_drop_bit add.commute)

lemma int_div_less: "(x :: int) < y * 2 ^ m \<Longrightarrow> x div 2 ^ m < y"
proof (rule ccontr)
  assume "x < y * 2 ^ m" "\<not> x div 2 ^ m < y"
  then have "y * 2 ^ m \<le> x div 2 ^ m * 2 ^ m" by (intro mult_right_mono) auto
  moreover have "x div 2 ^ m * 2 ^ m \<le> x" by (simp add: minus_mod_eq_div_mult [symmetric])
  ultimately show False using \<open>x < y * 2 ^ m\<close> by linarith
qed

lemma top_bits: "length a * 8 = m + n \<Longrightarrow> take_bit n (drop_bit m (le a)) = drop_bit m (le a)"
proof -
  assume n: "length a * 8 = m + n"
  have "256 ^ length a = (2::int) ^ (m + n)" using power_mult [of "2::int" 8 "length a"] by (simp add: n [symmetric] mult.commute)
  then have "le a div 2 ^ m < 2 ^ n" using le_bounds [of a] by (intro int_div_less) (simp add: power_add mult.commute)
  then show ?thesis using le_bounds [of a] by (simp add: drop_bit_eq_div take_bit_int_eq_self pos_imp_zdiv_nonneg_iff)
qed

lemma sc_limbs_le: "length a = 32 \<Longrightarrow> sc_limbs a = words (digits21 11 (le a))"
  using top_bits [of a 231 25]
  by (simp add: sc_limbs_def low_limbs_def limb3_le limb4_le load4_le shift_field drop_bit_drop_bit numeral_eq_Suc)

lemma sc_limbs64_le: "length s = 64 \<Longrightarrow> sc_limbs64 s = words (digits21 23 (le s))"
  using top_bits [of s 483 29]
  by (simp add: sc_limbs64_def low_limbs_def limb3_le limb4_le load4_le shift_field drop_bit_drop_bit numeral_eq_Suc)

text \<open>Storing: the bytes are the bytes of the number in the limbs.\<close>

lemma digits21_unique:
  "bounded (take n s) (replicate n limb_range) \<Longrightarrow> length s = Suc n \<Longrightarrow> s = digits21 n (val21 s)"
proof (induction n arbitrary: s)
  case 0
  then show ?case by (cases s) auto
next
  case (Suc n)
  then obtain x t where s: "s = x # t" by (cases s) auto
  then have x: "0 \<le> x" "x < 2097152" and t: "t = digits21 n (val21 t)"
    using Suc by (auto simp: within_def limb_range_def)
  have "drop_bit 21 (x + 2097152 * val21 t) = val21 t" "take_bit 21 (x + 2097152 * val21 t) = x"
    using x by (simp_all add: drop_bit_eq_div take_bit_eq_mod)
  with s t show ?case by simp
qed

lemma to_byte_word: "to_byte (word_of_int x) = word_of_int (take_bit 8 x)"
  unfolding to_byte_def by transfer (simp add: take_bit_take_bit)

lemma byte1_digit:
  "s ! i = word_of_int (take_bit 21 v) \<Longrightarrow> n + 8 \<le> 21 \<Longrightarrow> byte1 s i n = word_of_int (take_bit 8 (drop_bit n v))"
  by (simp add: byte1_def shift_field to_byte_word take_bit_take_bit)

lemma byte1_top:
  "s ! i = word_of_int v \<Longrightarrow> in_word v \<Longrightarrow> byte1 s i n = word_of_int (take_bit 8 (drop_bit n v))"
  by (simp add: byte1_def signed_drop_bit_of_int to_byte_word drop_bit_eq_div)

lemma byte2_digit:
  assumes "s ! i = word_of_int (take_bit 21 v)" "s ! Suc i = word_of_int u" "take_bit 8 u = take_bit 8 (drop_bit 21 v)" "n + k = 21"
  shows "byte2 s i n k = word_of_int (take_bit 8 (drop_bit n v))"
proof -
  have "21 - n = k" using assms(4) by simp
  then have "byte2 s i n k = word_of_int (take_bit 8 (take_bit k (drop_bit n v) OR push_bit k u))"
    using assms(1,2) by (simp add: byte2_def shift_field push_bit_word word_wi_log_defs to_byte_word)
  also have "take_bit 8 (take_bit k (drop_bit n v) OR push_bit k u) = take_bit 8 (drop_bit n v)"
  proof (rule bit_eqI)
    fix j
    have u: "bit u m = bit v (21 + m)" if "m < 8" for m
    proof -
      have "bit (take_bit 8 u) m = bit (take_bit 8 (drop_bit 21 v)) m" by (simp add: assms(3))
      then show ?thesis using that by (simp add: bit_take_bit_iff bit_drop_bit_eq)
    qed
    show "bit (take_bit 8 (take_bit k (drop_bit n v) OR push_bit k u)) j = bit (take_bit 8 (drop_bit n v)) j"
    proof (cases "j < k")
      case False
      then have "21 + (j - k) = n + j" using assms(4) by simp
      then show ?thesis using False u [of "j - k"] by (auto simp: bit_take_bit_iff bit_drop_bit_eq bit_or_iff bit_push_bit_iff)
    qed (auto simp: bit_take_bit_iff bit_drop_bit_eq bit_or_iff bit_push_bit_iff)
  qed
  finally show ?thesis .
qed


fun bytes_le :: "nat \<Rightarrow> int \<Rightarrow> byte list" where
  "bytes_le 0 v = []"
| "bytes_le (Suc n) v = word_of_int (take_bit 8 v) # bytes_le n (drop_bit 8 v)"

lemma length_bytes_le [simp]: "length (bytes_le n v) = n"
  by (induction n arbitrary: v) auto

lemma le_bytes_le: "le (bytes_le n v) = take_bit (8 * n) v"
proof (induction n arbitrary: v)
  case (Suc n)
  have "uint (word_of_int (take_bit 8 v) :: byte) = take_bit 8 v" by (simp add: uint_word_of_int_eq)
  then show ?case
    using Suc [of "drop_bit 8 v"] zmod_zmult2_eq [of "2 ^ (8 * n)" v 256]
    by (simp add: take_bit_eq_mod drop_bit_eq_div power_add)
qed simp

lemma bytes_le_le: "bytes_le (length bs) (le bs) = bs"
proof (induction bs)
  case (Cons b bs)
  have "take_bit 8 (uint b + 256 * le bs) = uint b" "drop_bit 8 (uint b + 256 * le bs) = le bs"
    using uint_byte [of b] by (simp_all add: take_bit_eq_mod drop_bit_eq_div)
  with Cons show ?case by simp
qed simp

lemma le_inject: "length a = length b \<Longrightarrow> le a = le b \<longleftrightarrow> a = b"
  by (metis bytes_le_le)

lemma bytes_le_map: "bytes_le n v = map (\<lambda>j. word_of_int (take_bit 8 (drop_bit (8 * j) v))) [0..<n]"
proof (induction n arbitrary: v)
  case (Suc n)
  then show ?case by (simp add: upt_conv_Cons map_Suc_upt [symmetric] drop_bit_drop_bit add.commute del: upt_Suc)
qed simp

lemma nth_digits21: "i < n \<Longrightarrow> digits21 n v ! i = take_bit 21 (drop_bit (21 * i) v)"
proof (induction n arbitrary: i v)
  case (Suc n)
  then show ?case by (cases i) (simp_all add: drop_bit_drop_bit add.commute)
qed simp

lemma last_digits21: "digits21 n v ! n = drop_bit (21 * n) v"
  by (induction n arbitrary: v) (simp_all add: drop_bit_drop_bit add.commute)

lemma sc_bytes_digits:
  assumes "0 \<le> v" "v < 2 ^ 256"
  shows "sc_bytes (words (digits21 11 v @ r)) = bytes_le 32 v"
proof -
  define s where "s = words (digits21 11 v @ r)"
  have d: "s ! i = word_of_int (take_bit 21 (drop_bit (21 * i) v))" if "i < 11" for i
    using that by (simp add: s_def nth_append nth_digits21)
  have t: "s ! 11 = word_of_int (drop_bit 231 v)"
    using last_digits21 [of 11 v] by (simp add: s_def nth_append)
  have "v div 2 ^ 231 < 2 ^ 25" using int_div_less [of v "2 ^ 25" 231] assms by simp
  then have w: "in_word (drop_bit 231 v)" using assms by (simp add: in_word_def drop_bit_eq_div pos_imp_zdiv_nonneg_iff)
  have b1: "byte1 s i n = word_of_int (take_bit 8 (drop_bit (21 * i + n) v))" if "i < 11" "n + 8 \<le> 21" for i n
    using byte1_digit [OF d [OF that(1)] that(2)] by (simp add: drop_bit_drop_bit add.commute)
  have b11: "byte1 s 11 n = word_of_int (take_bit 8 (drop_bit (231 + n) v))" for n
    using byte1_top [OF t w] by (simp add: drop_bit_drop_bit add.commute)
  have b2: "byte2 s i n k = word_of_int (take_bit 8 (drop_bit (21 * i + n) v))" if "i < 11" "n + k = 21" for i n k
  proof (cases "i < 10")
    case True
    then show ?thesis using byte2_digit [OF d [OF that(1)] d [of "Suc i"] _ that(2)]
      by (simp add: drop_bit_drop_bit add.commute take_bit_take_bit)
  next
    case False
    then have "i = 10" using that by simp
    then show ?thesis using byte2_digit [OF d [OF that(1)], of "drop_bit 231 v" n k] t that
      by (simp add: drop_bit_drop_bit add.commute)
  qed
  show ?thesis
    unfolding s_def [symmetric] sc_bytes_def by (simp add: b1 b2 b11 bytes_le_map upt_rec)
qed

section \<open>The product\<close>

definition zproduct :: "int list \<Rightarrow> int list \<Rightarrow> nat \<Rightarrow> int" where
  "zproduct a b k = (\<Sum>i\<leftarrow>[0..<12]. if i \<le> k \<and> k - i < 12 then a ! i * b ! (k - i) else 0)"

definition zproducts :: "int list \<Rightarrow> int list \<Rightarrow> int list \<Rightarrow> int list" where
  "zproducts a b c = map (\<lambda>k. (if k < 12 then c ! k else 0) + zproduct a b k) [0..<23] @ [0]"

lemma limb_product_words:
  "length a = 12 \<Longrightarrow> length b = 12 \<Longrightarrow> limb_product (words a) (words b) k = word_of_int (zproduct a b k)"
  unfolding limb_product_def zproduct_def
  by (simp add: interv_sum_list_conv_sum_set_nat of_int_sum) (intro sum.cong refl, auto)

lemma product_words:
  "length a = 12 \<Longrightarrow> length b = 12 \<Longrightarrow> length c = 12 \<Longrightarrow> product_limbs (words a) (words b) (words c) = words (zproducts a b c)"
  by (auto simp: product_limbs_def zproducts_def limb_product_words)

lemma val21_sum: "val21 s = (\<Sum>i<length s. s ! i * 2097152 ^ i)"
  by (induction s) (simp_all add: sum.lessThan_Suc_shift sum_distrib_left mult_ac del: sum.lessThan_Suc)

lemma shifted_sum:
  assumes "(i :: nat) < 12"
  shows "(\<Sum>k<23. if i \<le> k \<and> k - i < 12 then f (k - i) else 0) = (\<Sum>j<12. f j :: int)"
proof -
  have "(\<Sum>j<12. f j) = (\<Sum>k \<in> {k. k < 23 \<and> i \<le> k \<and> k - i < 12}. f (k - i))"
    by (rule sum.reindex_bij_witness [where i = "\<lambda>k. k - i" and j = "\<lambda>j. j + i"]) (use assms in auto)
  also have "\<dots> = (\<Sum>k<23. if i \<le> k \<and> k - i < 12 then f (k - i) else 0)"
    by (rule sum.mono_neutral_cong_left) auto
  finally show ?thesis by simp
qed

lemma val21_zproducts:
  assumes "length a = 12" "length b = 12" "length c = 12"
  shows "val21 (zproducts a b c) = val21 a * val21 b + val21 c"
proof -
  have "val21 (zproducts a b c) = (\<Sum>k<23. ((if k < 12 then c ! k else 0) + zproduct a b k) * 2097152 ^ k)"
    unfolding zproducts_def val21_append val21_sum [of "map _ _"] by (intro sum.cong refl | simp)+
  also have "\<dots> = (\<Sum>k<23. if k < 12 then c ! k * 2097152 ^ k else 0) + (\<Sum>k<23. zproduct a b k * 2097152 ^ k)"
    by (simp add: distrib_right sum.distrib if_distrib [of "\<lambda>x. x * _"] cong: if_cong)
  also have "(\<Sum>k<23. if k < 12 then c ! k * 2097152 ^ k else 0) = val21 c"
    unfolding val21_sum assms(3) by (rule sum.mono_neutral_cong_right) auto
  also have "(\<Sum>k<23. zproduct a b k * 2097152 ^ k) =
      (\<Sum>k<23. \<Sum>i<12. if i \<le> k \<and> k - i < 12 then a ! i * 2097152 ^ i * (b ! (k - i) * 2097152 ^ (k - i)) else 0)"
    unfolding zproduct_def interv_sum_list_conv_sum_set_nat set_upt sum_distrib_right atLeast0LessThan
    by (intro sum.cong refl) (auto simp: mult_ac simp flip: power_add)
  also have "\<dots> = (\<Sum>i<12. \<Sum>k<23. if i \<le> k \<and> k - i < 12 then a ! i * 2097152 ^ i * (b ! (k - i) * 2097152 ^ (k - i)) else 0)"
    by (rule sum.swap)
  also have "\<dots> = (\<Sum>i<12. a ! i * 2097152 ^ i * val21 b)"
    by (intro sum.cong refl) (simp add: shifted_sum [where f = "\<lambda>j. a ! _ * _ * (b ! j * 2097152 ^ j)"] val21_sum assms sum_distrib_left)
  also have "\<dots> = val21 a * val21 b" by (simp add: val21_sum assms sum_distrib_right)
  finally show ?thesis by simp
qed

text \<open>The limbs of an argument: eleven of 21 bits, the last one of 25 bits.\<close>

definition arg_bounds :: "interval list" where
  "arg_bounds = replicate 11 limb_range @ [(0, 33554431)]"

lemma take_bit_within: "within (take_bit 21 v) limb_range"
proof -
  have "take_bit 21 v < 2 ^ 21" by (rule take_bit_int_less_exp)
  then show ?thesis by (simp add: within_def limb_range_def)
qed

lemma digits21_bounded:
  "0 \<le> v \<Longrightarrow> v < 2097152 ^ n * m \<Longrightarrow> bounded (digits21 n v) (replicate n limb_range @ [(0, m - 1)])"
proof (induction n arbitrary: v)
  case (Suc n)
  then have "drop_bit 21 v < 2097152 ^ n * m"
    using int_div_less [of v "2097152 ^ n * m" 21] by (simp add: drop_bit_eq_div mult_ac)
  then show ?case using Suc by (simp add: take_bit_within)
qed (simp add: within_def)

lemma arg_digits: "length a = 32 \<Longrightarrow> bounded (digits21 11 (le a)) arg_bounds"
  using digits21_bounded [of "le a" 11 33554432] le_bounds [of a] by (simp add: arg_bounds_def)

lemma arg_nth:
  assumes "bounded x arg_bounds" "i < 12"
  shows "0 \<le> x ! i" "x ! i \<le> 33554431"
proof -
  have "within (x ! i) (arg_bounds ! i)" using assms by (intro bounded_nth) (auto simp: arg_bounds_def dest: list_all2_lengthD)
  moreover have "arg_bounds ! i = (if i = 11 then (0, 33554431) else limb_range)"
    using assms(2) by (auto simp: arg_bounds_def nth_append)
  ultimately show "0 \<le> x ! i" "x ! i \<le> 33554431"
    by (auto simp: within_def limb_range_def split: if_splits)
qed

lemma zproduct_bounds:
  assumes "bounded x arg_bounds" "bounded y arg_bounds"
  shows "0 \<le> zproduct x y k" "zproduct x y k \<le> 12 * (33554431 * 33554431)"
proof -
  define f where "f i = (if i \<le> k \<and> k - i < 12 then x ! i * y ! (k - i) else 0)" for i
  have t: "0 \<le> f i \<and> f i \<le> 33554431 * 33554431" if "i < 12" for i
  proof (cases "i \<le> k \<and> k - i < 12")
    case True
    then have "0 \<le> x ! i * y ! (k - i)" "x ! i * y ! (k - i) \<le> 33554431 * 33554431"
      using arg_nth [OF assms(1), of i] arg_nth [OF assms(2), of "k - i"] that by (intro mult_nonneg_nonneg mult_mono; simp)+
    then show ?thesis using True by (simp add: f_def)
  qed (auto simp: f_def)
  show "0 \<le> zproduct x y k"
    unfolding zproduct_def f_def [symmetric] using t by (intro sum_list_nonneg) auto
  have "zproduct x y k \<le> (\<Sum>i\<leftarrow>[0..<12]. 33554431 * 33554431)"
    unfolding zproduct_def f_def [symmetric] using t by (intro sum_list_mono) auto
  then show "zproduct x y k \<le> 12 * (33554431 * 33554431)" by (simp add: sum_list_triv)
qed

lemma zproducts_bounded:
  assumes "bounded x arg_bounds" "bounded y arg_bounds" "\<And>i. i < 12 \<Longrightarrow> \<bar>z ! i\<bar> \<le> 33554431"
  shows "bounded (zproducts x y z) product_bounds"
proof -
  have "within ((if k < 12 then z ! k else 0) + zproduct x y k) (- 33554432, 14636698788954112)" for k
    using zproduct_bounds [OF assms(1,2), of k] assms(3) [of k] by (auto simp: within_def)
  then have "bounded (map (\<lambda>k. (if k < 12 then z ! k else 0) + zproduct x y k) ks)
      (replicate (length ks) (- 33554432, 14636698788954112))" for ks by (induction ks) simp_all
  from this [of "[0..<23]"]
  have "bounded (map (\<lambda>k. (if k < 12 then z ! k else 0) + zproduct x y k) [0..<23])
      (replicate 23 (- 33554432, 14636698788954112))" by simp
  moreover have "bounded [0] [(0, 0)]" by (simp add: within_def)
  ultimately show ?thesis unfolding zproducts_def product_bounds_def by (rule list_all2_appendI)
qed

section \<open>The functions are arithmetic modulo the order\<close>

lemma stored:
  assumes "bounded s b" "length s = 24" "reduces b b1 b2 b3"
  shows "sc_bytes (fold sc_step reduce_ops (words s)) = bytes_le 32 (val21 s mod GetBigIntOrder)"
proof -
  obtain t where t: "bounded t b3" "val21 t = val21 s mod GetBigIntOrder" "length t = 24"
      "fold sc_step reduce_ops (words s) = words t" using last_value [OF assms] by blast
  have r: "take 11 b3 = replicate 11 limb_range" "drop 12 b3 = replicate 12 (0, 0)"
    using assms(3) by (simp_all add: reduces_def)
  have "drop 12 t = replicate 12 0"
    using list_all2_dropI [OF t(1), of 12] r(2) by (auto intro: bounded_zeros)
  moreover have "take 12 t = digits21 11 (val21 (take 12 t))"
    using bounded_take [OF t(1), of 11] r(1) t(3) by (intro digits21_unique) (simp_all add: take_take min_def)
  moreover have "t = take 12 t @ drop 12 t" by simp
  ultimately have "t = digits21 11 (val21 t) @ replicate 12 0" by (metis val21_append val21_zeros mult_zero_right add.right_neutral)
  moreover have "0 \<le> val21 t" "val21 t < 2 ^ 256" using t(2) order_bounds by (auto intro: order.strict_trans [OF pos_mod_bound])
  ultimately show ?thesis using sc_bytes_digits [of "val21 t" "replicate 12 0"] t(2,4) by simp
qed

lemma product_stored:
  assumes "bounded x arg_bounds" "bounded y arg_bounds" "length z = 12" "\<And>i. i < 12 \<Longrightarrow> \<bar>z ! i\<bar> \<le> 33554431"
  shows "sc_bytes (fold sc_step reduce_ops (fold sc_step carry_ops (product_limbs (words x) (words y) (words z)))) =
    bytes_le 32 ((val21 x * val21 y + val21 z) mod GetBigIntOrder)"
proof -
  have l: "length x = 12" "length y = 12" using assms(1,2) by (auto dest!: list_all2_lengthD simp: arg_bounds_def)
  have n: "length (zproducts x y z) = 24" by (simp add: zproducts_def)
  obtain b where b: "iv_run carry_ops product_bounds = Some b"
    using product_carries by auto
  define s where "s = fold zstep carry_ops (zproducts x y z)"
  have s: "fold sc_step carry_ops (words (zproducts x y z)) = words s" "bounded s b"
    unfolding s_def using run_words [OF zproducts_bounded [OF assms(1,2,4)] _ b] n ops_fit(1) by simp_all
  have v: "length s = 24" "val21 s mod GetBigIntOrder = val21 (zproducts x y z) mod GetBigIntOrder"
    unfolding s_def using run_mod [of "zproducts x y z" carry_ops] n ops_fit(1) by simp_all
  show ?thesis
    using stored [OF s(2) v(1), OF product_reduces [unfolded b option.sel]] s(1) v(2) l assms(3)
    by (simp add: product_words val21_zproducts)
qed

lemma ScMulAdd_bytes:
  assumes "length a = 32" "length b = 32" "length c = 32"
  shows "ScMulAdd a b c = bytes_le 32 ((le a * le b + le c) mod GetBigIntOrder)"
  unfolding ScMulAdd_def Let_def sc_limbs_le [OF assms(1)] sc_limbs_le [OF assms(2)] sc_limbs_le [OF assms(3)]
  using product_stored [OF arg_digits [OF assms(1)] arg_digits [OF assms(2)], of "digits21 11 (le c)"]
    arg_nth [OF arg_digits [OF assms(3)]] by (simp add: abs_le_iff)

lemma val21_uminus: "val21 (map uminus s) = - val21 s"
  by (induction s) auto

lemma ScMulSub_bytes:
  assumes "length a = 32" "length b = 32" "length c = 32"
  shows "ScMulSub a b c = bytes_le 32 ((le a * le b - le c) mod GetBigIntOrder)"
proof -
  have "map uminus (words (digits21 11 (le c))) = words (map uminus (digits21 11 (le c)))" by simp
  then show ?thesis
  unfolding ScMulSub_def Let_def sc_limbs_le [OF assms(1)] sc_limbs_le [OF assms(2)] sc_limbs_le [OF assms(3)]
  using product_stored [OF arg_digits [OF assms(1)] arg_digits [OF assms(2)], of "map uminus (digits21 11 (le c))"]
    arg_nth [OF arg_digits [OF assms(3)]] by (simp add: abs_le_iff val21_uminus del: map_map)
qed

lemma ScReduce_bytes:
  assumes "length s = 64"
  shows "ScReduce s = bytes_le 32 (le s mod GetBigIntOrder)"
proof -
  have "bounded (digits21 23 (le s)) wide_bounds"
    using digits21_bounded [of "le s" 23 "2 ^ 29"] le_bounds [of s] assms
    by (simp add: wide_bounds_def)
  then show ?thesis
    unfolding ScReduce_def sc_limbs64_le [OF assms] using stored [OF _ _ wide_reduces] by simp
qed

section \<open>Functions built on them\<close>

lemma le_replicate_0 [simp]: "le (replicate n 0) = 0"
  by (induction n) auto

lemma le_consts [simp]: "le sc_zero = 0" "le sc_one = 1" "length sc_zero = 32" "length sc_one = 32"
  by (simp_all add: sc_zero_def sc_one_def)

lemma order_pos [simp]: "0 < GetBigIntOrder"
  by (simp add: GetBigIntOrder_def)

lemma order_256: "GetBigIntOrder < 2 ^ 256"
  by (simp add: GetBigIntOrder_def)

lemma le_reduced [simp]: "le (bytes_le 32 (x mod GetBigIntOrder)) = x mod GetBigIntOrder"
proof -
  have "0 \<le> x mod GetBigIntOrder" "x mod GetBigIntOrder < 2 ^ 256"
    using order.strict_trans [OF pos_mod_bound [OF order_pos] order_256] by simp_all
  then show ?thesis by (simp add: le_bytes_le take_bit_int_eq_self)
qed

lemma ScMul_bytes: "length a = 32 \<Longrightarrow> length b = 32 \<Longrightarrow> ScMul a b = bytes_le 32 (le a * le b mod GetBigIntOrder)"
  by (simp add: ScMul_def ScMulAdd_bytes)

lemma ScAdd_bytes: "length a = 32 \<Longrightarrow> length b = 32 \<Longrightarrow> ScAdd a b = bytes_le 32 ((le a + le b) mod GetBigIntOrder)"
  by (simp add: ScAdd_def ScMulAdd_bytes)

lemma ScSub_bytes: "length a = 32 \<Longrightarrow> length b = 32 \<Longrightarrow> ScSub a b = bytes_le 32 ((le a - le b) mod GetBigIntOrder)"
  by (simp add: ScSub_def ScMulSub_bytes)

lemma le_append: "le (as @ bs) = le as + 256 ^ length as * le bs"
  by (induction as) (simp_all add: algebra_simps)

lemma le_rev: "le (rev bs) = SetBytes bs"
  by (induction bs) (simp_all add: le_append SetBytes_Cons)

lemma le_pad: "le (rev (pad_scalar bs)) = SetBytes bs"
  by (simp add: pad_scalar_def le_append le_rev)

lemma ScModInverse_spec:
  assumes "coprime (le a) GetBigIntOrder"
  shows "length (ScModInverse a) = 32" "le (ScModInverse a) * le a mod GetBigIntOrder = 1"
    "0 \<le> le (ScModInverse a)" "le (ScModInverse a) < GetBigIntOrder"
proof -
  have a: "SetBytes (rev a) = le a" using le_rev [of "rev a"] by simp
  have "gcd (le a) GetBigIntOrder = 1" using assms by (simp only: coprime_iff_gcd_eq_1)
  from ModInverse_coprime [OF order_pos this] obtain u where u: "ModInverse (le a) GetBigIntOrder = Some u" by blast
  note r = ModInverse_Some [OF order_pos u]
  have "\<bar>u\<bar> < 256 ^ 32" using r(2,3) order_256 by simp
  then have "length (Bytes u) \<le> 32" by (rule length_Bytes_le)
  then show "length (ScModInverse a) = 32" by (simp add: ScModInverse_def a u pad_scalar_def)
  have "le (ScModInverse a) = u" using r by (simp add: ScModInverse_def a u le_pad)
  moreover have "1 mod GetBigIntOrder = 1" by (simp add: GetBigIntOrder_def)
  ultimately show "le (ScModInverse a) * le a mod GetBigIntOrder = 1" "0 \<le> le (ScModInverse a)"
    "le (ScModInverse a) < GetBigIntOrder" using r by (simp_all add: mult.commute)
qed

text \<open>\<^verbatim>\<open>ModInverse\<close> of a number that is not a unit is \<^verbatim>\<open>nil\<close>, and the result is the zero array.\<close>

lemma ScModInverse_none: "\<not> coprime (le a) GetBigIntOrder \<Longrightarrow> ScModInverse a = replicate 32 0"
  using le_rev [of "rev a"] ModInverse_None_iff [OF order_pos, of "le a"] by (simp add: ScModInverse_def coprime_iff_gcd_eq_1)

lemma Uint64_le: "8 \<le> length bs \<Longrightarrow> uint (Uint64 bs) = take_bit 64 (le bs)"
proof -
  assume "8 \<le> length bs"
  then have "(\<Sum>i\<leftarrow>[0..<8]. uint (bs ! i) * 256 ^ i) = le (take 8 bs)"
    by (auto simp: Suc_le_length_iff numeral_eq_Suc algebra_simps)
  moreover have "take_bit 64 (le bs) = le (take 8 bs)" "take_bit 64 (le (take 8 bs)) = le (take 8 bs)"
  proof -
    have "le bs = le (take 8 bs) + 2 ^ 64 * le (drop 8 bs)" using le_append [of "take 8 bs" "drop 8 bs"] \<open>8 \<le> length bs\<close> by simp
    moreover have "0 \<le> le (take 8 bs)" "le (take 8 bs) < 2 ^ 64" using le_bounds [of "take 8 bs"] \<open>8 \<le> length bs\<close> by simp_all
    ultimately show "take_bit 64 (le bs) = le (take 8 bs)" "take_bit 64 (le (take 8 bs)) = le (take 8 bs)"
      by (simp_all add: take_bit_eq_mod)
  qed
  ultimately show ?thesis by (simp add: Uint64_def uint_word_of_int_eq)
qed

lemma ScMinimal_iff:
  assumes "length s = 32"
  shows "ScMinimal s \<longleftrightarrow> le s < GetBigIntOrder"
proof -
  define v where "v i = uint (Uint64 (drop (i * 8) s))" for i
  have v: "v i = take_bit 64 (drop_bit (64 * i) (le s))" if "i < 4" for i
    unfolding v_def using that assms by (subst Uint64_le) (auto simp: le_drop mult.commute)
  have l: "le s = v 0 + 2 ^ 64 * (v 1 + 2 ^ 64 * (v 2 + 2 ^ 64 * v 3))"
  proof -
    have q: "x = take_bit 64 x + 2 ^ 64 * drop_bit 64 x" for x :: int by (simp add: take_bit_eq_mod drop_bit_eq_div)
    have "v 3 = drop_bit 64 (drop_bit 128 (le s))" using top_bits [of s 192 64] assms v [of 3] by (simp add: drop_bit_drop_bit)
    then show ?thesis
      using v [of 0] v [of 1] v [of 2] q [of "le s"] q [of "drop_bit 64 (le s)"] q [of "drop_bit 128 (le s)"]
      by (simp add: drop_bit_drop_bit)
  qed
  have r: "0 \<le> v i \<and> v i < 18446744073709551616" for i using uint_lt2p [of "Uint64 (drop (i * 8) s)"] by (simp_all add: v_def)
  have "ScMinimal s \<longleftrightarrow> v 3 < 1152921504606846976 \<or> v 3 = 1152921504606846976 \<and> (v 2 < 0 \<or> v 2 = 0 \<and>
      (v 1 < 1503914060200516822 \<or> v 1 = 1503914060200516822 \<and> v 0 < 6346243789798364141))"
  proof -
    have step: "ScMinimal_from i s \<longleftrightarrow>
        v i < uint (order_words ! i) \<or> v i = uint (order_words ! i) \<and> i \<noteq> 0 \<and> ScMinimal_from (i - 1) s" for i
      by (subst ScMinimal_from.simps) (auto simp: v_def word_less_alt Let_def)
    have "ScMinimal_from 0 s \<longleftrightarrow> v 0 < 6346243789798364141"
      by (subst step) (simp add: order_words_def)
    moreover have "ScMinimal_from 1 s \<longleftrightarrow> v 1 < 1503914060200516822 \<or> v 1 = 1503914060200516822 \<and> ScMinimal_from 0 s"
      by (subst step) (simp add: order_words_def)
    moreover have "ScMinimal_from 2 s \<longleftrightarrow> v 2 < 0 \<or> v 2 = 0 \<and> ScMinimal_from 1 s"
      by (subst step) (simp add: order_words_def)
    moreover have "ScMinimal_from 3 s \<longleftrightarrow> v 3 < 1152921504606846976 \<or> v 3 = 1152921504606846976 \<and> ScMinimal_from 2 s"
      by (subst step) (simp add: order_words_def)
    ultimately show ?thesis by (simp only: ScMinimal_def)
  qed
  then show ?thesis using r [of 0] r [of 1] r [of 2] r [of 3] unfolding l GetBigIntOrder_def by simp linarith
qed

text \<open>Evaluation: on arrays of the right length the functions compute with numbers.\<close>

lemma ScMulAdd_code [code]:
  "ScMulAdd a b c =
     (if length a = 32 \<and> length b = 32 \<and> length c = 32 then bytes_le 32 ((le a * le b + le c) mod GetBigIntOrder)
      else sc_bytes (fold sc_step reduce_ops (fold sc_step carry_ops (product_limbs (sc_limbs a) (sc_limbs b) (sc_limbs c)))))"
  by (simp add: ScMulAdd_bytes) (simp add: ScMulAdd_def Let_def)

lemma ScMulSub_code [code]:
  "ScMulSub a b c =
     (if length a = 32 \<and> length b = 32 \<and> length c = 32 then bytes_le 32 ((le a * le b - le c) mod GetBigIntOrder)
      else sc_bytes (fold sc_step reduce_ops (fold sc_step carry_ops (product_limbs (sc_limbs a) (sc_limbs b) (map uminus (sc_limbs c))))))"
  by (simp add: ScMulSub_bytes) (simp add: ScMulSub_def Let_def)

lemma ScReduce_code [code]:
  "ScReduce s =
     (if length s = 64 then bytes_le 32 (le s mod GetBigIntOrder)
      else sc_bytes (fold sc_step reduce_ops (sc_limbs64 s)))"
  by (simp add: ScReduce_bytes) (simp add: ScReduce_def)

text \<open>C9: the scalar functions of \<^verbatim>\<open>edwards25519.go\<close> compute with numbers modulo the order of the base point: on arrays
  of 32 bytes \<^verbatim>\<open>ScMulAdd\<close> is \<open>a * b + c\<close> and \<^verbatim>\<open>ScMulSub\<close> is \<open>a * b - c\<close>, and \<^verbatim>\<open>ScReduce\<close> reduces 64 bytes; the
  results are the least residues, no \<^verbatim>\<open>int64\<close> overflows on the way, and \<^verbatim>\<open>ScMinimal\<close> accepts exactly these residues.\<close>

theorem scalar_functions:
  assumes "length a = 32" "length b = 32" "length c = 32" "length s = 64"
  shows "le (ScMulAdd a b c) = (le a * le b + le c) mod GetBigIntOrder \<and> ScMinimal (ScMulAdd a b c) \<and>
    le (ScMulSub a b c) = (le a * le b - le c) mod GetBigIntOrder \<and> ScMinimal (ScMulSub a b c) \<and>
    le (ScReduce s) = le s mod GetBigIntOrder \<and> ScMinimal (ScReduce s) \<and>
    (ScMinimal a \<longleftrightarrow> le a < GetBigIntOrder)"
  using assms by (simp add: ScMulAdd_bytes ScMulSub_bytes ScReduce_bytes ScMinimal_iff)

theorem scalar_functions_witness:
  "le (ScMulAdd (bytes_le 32 7) (bytes_le 32 5) sc_one) = 36 \<and>
   le (ScMulSub sc_one sc_one (bytes_le 32 5)) = GetBigIntOrder - 4 \<and>
   le (ScReduce (bytes_le 64 (GetBigIntOrder + 3))) = 3 \<and> ScMinimal (bytes_le 32 7)"
proof -
  have le: "le (bytes_le 32 7) = 7" "le (bytes_le 32 5) = 5" "le (bytes_le 64 (GetBigIntOrder + 3)) = GetBigIntOrder + 3"
    by code_simp+
  show ?thesis
    using scalar_functions [of "bytes_le 32 7" "bytes_le 32 5" sc_one "bytes_le 64 (GetBigIntOrder + 3)"]
      scalar_functions [of sc_one sc_one "bytes_le 32 5" "bytes_le 64 0"]
    by (simp add: le) (simp add: GetBigIntOrder_def)
qed

end
