(* ===== verification/NodeUid.thy ===== *)
theory NodeUid
  imports Keygen EdScalar
begin

text \<open>
  The identifiers of the parties, \<^verbatim>\<open>smpc/base.go\<close>: a node of the network is numbered by the position of the hash of its
  name among the hashes of its group.  The hash functions, the list of the nodes of a group and the parser of node
  addresses are arguments: the last two are callbacks into the network layer.
\<close>

section \<open>Groups\<close>

record GroupEnv =
  ge_keccak :: "byte list \<Rightarrow> byte list"
  ge_sha3 :: "byte list \<Rightarrow> byte list"
  ge_GetGroup :: "string \<Rightarrow> string"
  ge_ParseNode :: "string \<Rightarrow> string"

definition Sep2 :: string where
  "Sep2 = ''smpcmsg''"

text \<open>\<^verbatim>\<open>strings.Split\<close> with a separator of several characters; \<open>acc\<close> is the part before the rest \<open>s\<close>.\<close>

function split_at :: "string \<Rightarrow> string \<Rightarrow> string \<Rightarrow> string list" where
  "split_at sep acc s =
     (case s of
        [] \<Rightarrow> [acc]
      | c # s' \<Rightarrow>
          if sep \<noteq> [] \<and> take (length sep) s = sep then acc # split_at sep [] (drop (length sep) s)
          else split_at sep (acc @ [c]) s')"
  by pat_completeness auto
termination
  by (relation "measure (\<lambda>(sep, acc, s). length s)") (auto simp: Suc_le_eq)

declare split_at.simps [simp del]

definition SplitStr :: "string \<Rightarrow> string \<Rightarrow> string list" where
  "SplitStr s sep = split_at sep [] s"

definition group_nodes :: "('e GroupEnv_scheme) \<Rightarrow> string \<Rightarrow> string list" where
  "group_nodes env gid = map (ge_ParseNode env) (SplitStr (ge_GetGroup env gid) Sep2)"

definition DoubleHash :: "'e GroupEnv_scheme \<Rightarrow> string \<Rightarrow> string \<Rightarrow> int option" where
  "DoubleHash env idn keytype =
     (if idn = [] \<or> keytype = [] then None
      else
        (let digest = ge_sha3 env (ge_keccak env (string_bytes idn))
         in if keytype = ''ED25519'' then Some (SetBytes (ScMulAdd (take 32 (digest @ replicate 32 0)) sc_one sc_zero))
            else Some (SetBytes digest)))"

definition svc_GetIDs :: "'e GroupEnv_scheme \<Rightarrow> string \<Rightarrow> string \<Rightarrow> int option list res" where
  "svc_GetIDs env keytype gid =
     (if keytype = [] \<or> gid = [] then Ok []
      else sort_ids (map (\<lambda>n. DoubleHash env n keytype) (group_nodes env gid)))"

fun uid_loop :: "int \<Rightarrow> int option list \<Rightarrow> int \<Rightarrow> int \<Rightarrow> (int \<times> int option) res" where
  "uid_loop k [] uid n = Ok (- 1, None)"
| "uid_loop k (v # vs) uid n =
     bindr (deref v) (\<lambda>v. if v = uid \<and> k + 1 \<le> n then Ok (k, Some (k + 1)) else uid_loop (k + 1) vs uid n)"

definition GetNodeUID :: "'e GroupEnv_scheme \<Rightarrow> string \<Rightarrow> string \<Rightarrow> string \<Rightarrow> (int \<times> int option) res" where
  "GetNodeUID env EnodeID keytype gid =
     (if EnodeID = [] \<or> keytype = [] \<or> gid = [] then Ok (- 1, None)
      else
        (case DoubleHash env EnodeID keytype of
           None \<Rightarrow> Ok (- 1, None)
         | Some uid \<Rightarrow>
             bindr (svc_GetIDs env keytype gid) (\<lambda>ids.
               if ids = [] then Ok (- 1, None)
               else uid_loop 0 ids uid (int (length (SplitStr (ge_GetGroup env gid) Sep2))))))"

text \<open>The inner loop of \<^verbatim>\<open>GetGroupNodeUIDs\<close>: the number of one node, if it is in the larger group.\<close>

fun number_of :: "int \<Rightarrow> int option list \<Rightarrow> int option \<Rightarrow> int option list res" where
  "number_of k [] idn = Ok []"
| "number_of k (v # vs) idn =
     bindr (deref v) (\<lambda>v. bindr (deref idn) (\<lambda>i. if v = i then Ok [Some (k + 1)] else number_of (k + 1) vs idn))"

definition GetGroupNodeUIDs :: "'e GroupEnv_scheme \<Rightarrow> string \<Rightarrow> string \<Rightarrow> string \<Rightarrow> int option list res" where
  "GetGroupNodeUIDs env keytype gid subgid =
     (if keytype = [] \<or> gid = [] \<or> subgid = [] then Ok []
      else
        bindr (svc_GetIDs env keytype gid) (\<lambda>allids.
        bindr (mapM (\<lambda>n. number_of 0 allids (DoubleHash env n keytype)) (group_nodes env subgid)) (\<lambda>ids.
          sort_ids (concat ids))))"

section \<open>Numbering\<close>

text \<open>The position of a value in a list without repetitions.\<close>

definition pos :: "'a \<Rightarrow> 'a list \<Rightarrow> nat" where
  "pos x xs = length (takeWhile (\<lambda>y. y \<noteq> x) xs)"

lemma pos_Cons [simp]: "pos x (y # ys) = (if x = y then 0 else Suc (pos x ys))"
  by (auto simp: pos_def)

lemma pos_less: "x \<in> set xs \<Longrightarrow> pos x xs < length xs"
  by (induction xs) auto

lemma nth_pos: "x \<in> set xs \<Longrightarrow> xs ! pos x xs = x"
  by (induction xs) auto

lemma uid_loop_pos:
  "uid \<in> set xs \<Longrightarrow> k + int (length xs) \<le> n \<Longrightarrow>
   uid_loop k (map Some xs) uid n = Ok (k + int (pos uid xs), Some (k + int (pos uid xs) + 1))"
  by (induction xs arbitrary: k) auto

lemma uid_loop_Some:
  "uid_loop k (map Some xs) uid n = Ok (i, Some u) \<Longrightarrow> \<exists>j < length xs. u = k + int j + 1 \<and> i = k + int j \<and> xs ! j = uid"
proof (induction xs arbitrary: k)
  case (Cons x xs)
  show ?case
  proof (cases "x = uid \<and> k + 1 \<le> n")
    case True
    then show ?thesis using Cons.prems by auto
  next
    case False
    then have "uid_loop (k + 1) (map Some xs) uid n = Ok (i, Some u)" using Cons.prems by auto
    from Cons.IH [OF this] obtain j where "j < length xs" "u = k + 1 + int j + 1" "i = k + 1 + int j" "xs ! j = uid" by blast
    then show ?thesis by (intro exI [of _ "Suc j"]) auto
  qed
qed simp

lemma number_of_pos: "i \<in> set xs \<Longrightarrow> number_of k (map Some xs) (Some i) = Ok [Some (k + int (pos i xs) + 1)]"
  by (induction xs arbitrary: k) auto

lemma sort_ids_Some: "sort_ids (map Some xs) = Ok (map Some (sort xs))"
proof (cases "length xs < 2")
  case True
  then have "xs = [] \<or> (\<exists>x. xs = [x])" by (cases xs; cases "tl xs") auto
  then show ?thesis by (auto simp: sort_ids_def)
next
  case False
  have "mapM deref (map Some xs) = Ok xs" by (induction xs) auto
  with False show ?thesis by (simp add: sort_ids_def)
qed

text \<open>The hash of a node, when there is one.\<close>

definition hash_of :: "'e GroupEnv_scheme \<Rightarrow> string \<Rightarrow> string \<Rightarrow> int" where
  "hash_of env keytype n = the (DoubleHash env n keytype)"

definition group_ids :: "'e GroupEnv_scheme \<Rightarrow> string \<Rightarrow> string \<Rightarrow> int list" where
  "group_ids env keytype gid = sort (map (hash_of env keytype) (group_nodes env gid))"

definition well_named :: "'e GroupEnv_scheme \<Rightarrow> string \<Rightarrow> bool" where
  "well_named env gid = (gid \<noteq> [] \<and> [] \<notin> set (group_nodes env gid))"

lemma DoubleHash_Some: "n \<noteq> [] \<Longrightarrow> kt \<noteq> [] \<Longrightarrow> DoubleHash env n kt = Some (hash_of env kt n)"
  by (simp add: hash_of_def DoubleHash_def Let_def)

lemma svc_GetIDs_Ok:
  assumes "well_named env gid" "kt \<noteq> []"
  shows "svc_GetIDs env kt gid = Ok (map Some (group_ids env kt gid))"
proof -
  have "DoubleHash env n kt = Some (hash_of env kt n)" if "n \<in> set (group_nodes env gid)" for n
    using that assms by (intro DoubleHash_Some) (auto simp: well_named_def)
  then have "map (\<lambda>n. DoubleHash env n kt) (group_nodes env gid) = map Some (map (hash_of env kt) (group_nodes env gid))"
    by simp
  then show ?thesis using assms sort_ids_Some by (simp add: svc_GetIDs_def well_named_def group_ids_def del: map_map)
qed

lemma split_at_ne: "split_at sep acc s \<noteq> []"
  by (induction sep acc s rule: split_at.induct) (subst split_at.simps, auto split: list.split)

lemma length_group [simp]: "length (SplitStr (ge_GetGroup env gid) Sep2) = length (group_nodes env gid)"
  by (simp add: group_nodes_def)

lemma group_nodes_ne [simp]: "group_nodes env gid \<noteq> []"
  by (simp add: group_nodes_def SplitStr_def split_at_ne)

lemma set_group_ids [simp]: "set (group_ids env kt gid) = hash_of env kt ` set (group_nodes env gid)"
  by (simp add: group_ids_def)

lemma length_group_ids [simp]: "length (group_ids env kt gid) = length (group_nodes env gid)"
  by (simp add: group_ids_def)

definition uid_of :: "'e GroupEnv_scheme \<Rightarrow> string \<Rightarrow> string \<Rightarrow> string \<Rightarrow> int" where
  "uid_of env kt gid n = int (pos (hash_of env kt n) (group_ids env kt gid)) + 1"

lemma GetNodeUID_Ok:
  assumes "well_named env gid" "kt \<noteq> []" "n \<noteq> []" "hash_of env kt n \<in> hash_of env kt ` set (group_nodes env gid)"
  shows "GetNodeUID env n kt gid = Ok (uid_of env kt gid n - 1, Some (uid_of env kt gid n))"
  using assms uid_loop_pos [of "hash_of env kt n" "group_ids env kt gid" 0 "int (length (group_nodes env gid))"]
  by (auto simp: GetNodeUID_def DoubleHash_Some svc_GetIDs_Ok well_named_def uid_of_def group_ids_def)

lemma uid_of_range: "n \<in> set (group_nodes env gid) \<Longrightarrow> uid_of env kt gid n \<in> {1..int (length (group_nodes env gid))}"
  using pos_less [of "hash_of env kt n" "group_ids env kt gid"] by (force simp: uid_of_def)

lemma uid_of_inj: "inj_on (hash_of env kt) (set (group_nodes env gid)) \<Longrightarrow> inj_on (uid_of env kt gid) (set (group_nodes env gid))"
proof (rule inj_onI)
  fix m n
  assume inj: "inj_on (hash_of env kt) (set (group_nodes env gid))" and m: "m \<in> set (group_nodes env gid)"
    and n: "n \<in> set (group_nodes env gid)" and eq: "uid_of env kt gid m = uid_of env kt gid n"
  then have "group_ids env kt gid ! pos (hash_of env kt m) (group_ids env kt gid) =
      group_ids env kt gid ! pos (hash_of env kt n) (group_ids env kt gid)"
    by (simp add: uid_of_def)
  with m n have "hash_of env kt m = hash_of env kt n" by (simp add: nth_pos)
  with inj m n show "m = n" by (auto dest: inj_onD)
qed

lemma uid_of_bij:
  assumes "inj_on (hash_of env kt) (set (group_nodes env gid))" "distinct (group_nodes env gid)"
  shows "bij_betw (uid_of env kt gid) (set (group_nodes env gid)) {1..int (length (group_nodes env gid))}"
proof -
  have "card (uid_of env kt gid ` set (group_nodes env gid)) = length (group_nodes env gid)"
    using assms by (simp add: card_image uid_of_inj distinct_card)
  then have "uid_of env kt gid ` set (group_nodes env gid) = {1..int (length (group_nodes env gid))}"
    by (intro card_subset_eq image_subsetI uid_of_range) auto
  then show ?thesis using uid_of_inj [OF assms(1)] by (simp add: bij_betw_def)
qed

lemma mapM_singletons: "(\<And>x. x \<in> set xs \<Longrightarrow> f x = Ok [g x]) \<Longrightarrow> mapM f xs = Ok (map (\<lambda>x. [g x]) xs)"
  by (induction xs) auto

lemma GetGroupNodeUIDs_Ok:
  assumes "well_named env gid" "well_named env sub" "kt \<noteq> []" "set (group_nodes env sub) \<subseteq> set (group_nodes env gid)"
  shows "GetGroupNodeUIDs env kt gid sub = Ok (map Some (sort (map (uid_of env kt gid) (group_nodes env sub))))"
proof -
  have "mapM (\<lambda>n. number_of 0 (map Some (group_ids env kt gid)) (DoubleHash env n kt)) (group_nodes env sub) =
      Ok (map (\<lambda>n. [Some (uid_of env kt gid n)]) (group_nodes env sub))"
  proof (rule mapM_singletons)
    fix n assume "n \<in> set (group_nodes env sub)"
    then have "n \<noteq> []" "hash_of env kt n \<in> set (group_ids env kt gid)" using assms by (auto simp: well_named_def)
    then show "number_of 0 (map Some (group_ids env kt gid)) (DoubleHash env n kt) = Ok [Some (uid_of env kt gid n)]"
      using number_of_pos [of "hash_of env kt n" "group_ids env kt gid" 0] assms(3) by (simp add: DoubleHash_Some uid_of_def)
  qed
  moreover have "concat (map (\<lambda>n. [Some (uid_of env kt gid n)]) ns) = map Some (map (uid_of env kt gid) ns)" for ns
    by (induction ns) auto
  ultimately show ?thesis
    using assms sort_ids_Some by (simp add: GetGroupNodeUIDs_def svc_GetIDs_Ok well_named_def del: map_map)
qed

text \<open>C23: The parties of a group are numbered from 1.  When the hash separates the nodes of a group, \<^verbatim>\<open>GetNodeUID\<close> is a
  bijection between the nodes and the numbers up to the size of the group, and \<^verbatim>\<open>GetGroupNodeUIDs\<close> returns the numbers of
  the nodes of a subgroup in increasing order.\<close>

theorem node_numbers:
  assumes "well_named env gid" "well_named env sub" "kt \<noteq> []" "set (group_nodes env sub) \<subseteq> set (group_nodes env gid)"
    "distinct (group_nodes env gid)" "inj_on (hash_of env kt) (set (group_nodes env gid))"
  shows "\<exists>f. bij_betw f (set (group_nodes env gid)) {1..int (length (group_nodes env gid))} \<and>
    (\<forall>n \<in> set (group_nodes env gid). GetNodeUID env n kt gid = Ok (f n - 1, Some (f n))) \<and>
    GetGroupNodeUIDs env kt gid sub = Ok (map Some (sort (map f (group_nodes env sub))))"
proof (intro exI [of _ "uid_of env kt gid"] conjI ballI)
  show "bij_betw (uid_of env kt gid) (set (group_nodes env gid)) {1..int (length (group_nodes env gid))}"
    by (rule uid_of_bij [OF assms(6,5)])
  show "GetGroupNodeUIDs env kt gid sub = Ok (map Some (sort (map (uid_of env kt gid) (group_nodes env sub))))"
    by (rule GetGroupNodeUIDs_Ok [OF assms(1-4)])
  fix n assume "n \<in> set (group_nodes env gid)"
  then show "GetNodeUID env n kt gid = Ok (uid_of env kt gid n - 1, Some (uid_of env kt gid n))"
    using assms by (intro GetNodeUID_Ok) (auto simp: well_named_def)
qed

definition toy_groups :: GroupEnv where
  "toy_groups = \<lparr>ge_keccak = id, ge_sha3 = id,
     ge_GetGroup = (\<lambda>g. if g = ''g'' then ''cosmpcmsgabsmpcmsgbo'' else ''bosmpcmsgab''), ge_ParseNode = id\<rparr>"

lemma toy_group_nodes: "group_nodes toy_groups ''g'' = [''co'', ''ab'', ''bo'']" "group_nodes toy_groups ''s'' = [''bo'', ''ab'']"
  by code_simp+

theorem node_numbers_witness:
  "\<exists>f. bij_betw f {''co'', ''ab'', ''bo''} {1..3} \<and>
    (\<forall>n \<in> {''co'', ''ab'', ''bo''}. GetNodeUID toy_groups n ''EC256K1'' ''g'' = Ok (f n - 1, Some (f n))) \<and>
    GetGroupNodeUIDs toy_groups ''EC256K1'' ''g'' ''s'' = Ok (map Some (sort (map f [''bo'', ''ab''])))"
proof -
  have h: "hash_of toy_groups ''EC256K1'' ''co'' = 25455" "hash_of toy_groups ''EC256K1'' ''ab'' = 24930"
      "hash_of toy_groups ''EC256K1'' ''bo'' = 25199"
    by code_simp+
  have "well_named toy_groups ''g''" "well_named toy_groups ''s''" by (simp_all add: well_named_def toy_group_nodes)
  then show ?thesis
    using node_numbers [of toy_groups "''g''" "''s''" "''EC256K1''"] by (simp add: toy_group_nodes inj_on_def h)
qed

end
