(* ===== verification/KeyText.thy ===== *)
theory KeyText
  imports NodeUid "HOL-Library.Sublist"
begin

text \<open>
  The text a node keeps of a generated key: \<^verbatim>\<open>processKeyGen\<close> of \<^verbatim>\<open>smpc/key_ec.go\<close> writes the Paillier keys and the auxiliary
  moduli as raw bytes with a separator after each of them, and \<^verbatim>\<open>PreSignEC3\<close> and its helpers in \<^verbatim>\<open>smpc/reqsign.go\<close> read them
  back before a signature is computed.  The data base, which stores the text, is not modelled.
\<close>

section \<open>Writing\<close>

definition SepSave :: string where
  "SepSave = ''dcrmsepsave''"

text \<open>\<^verbatim>\<open>string(x.Bytes())\<close>\<close>

definition raw :: "int \<Rightarrow> string" where
  "raw x = bytes_string (Bytes x)"

definition ended :: "string list \<Rightarrow> string" where
  "ended ss = concat (map (\<lambda>s. s @ SepSave) ss)"




section \<open>Reading\<close>

text \<open>\<^verbatim>\<open>new(big.Int).SetBytes([]byte(s))\<close>\<close>

definition number :: "string \<Rightarrow> int" where
  "number s = SetBytes (string_bytes s)"






text \<open>The guard admits a text with \<^verbatim>\<open>s + 3\<close> parts, of which \<^verbatim>\<open>mm[s+3]\<close> is none.\<close>

definition GetNtildePrivDataByIndexFromSaveData :: "string \<Rightarrow> int \<Rightarrow> NtildePrivData option res" where
  "GetNtildePrivDataByIndexFromSaveData save NodeCnt =
     (if save = [] \<or> NodeCnt < 0 then Ok None
      else
        (let mm = SplitStr save SepSave; s = nat (4 + 4 * NodeCnt + 3 * NodeCnt)
         in if length mm < s + 3 then Ok None
            else bindr (slice_get mm (int s + 3)) (\<lambda>q2.
              Ok (Some \<lparr>npd_Alpha = number (mm ! s), npd_Beta = number (mm ! (s + 1)), npd_Q1 = number (mm ! (s + 2)), npd_Q2 = number q2\<rparr>))))"


section \<open>Splitting at the separator\<close>






section \<open>What was written is read\<close>


lemma ended_append [simp]: "ended (xs @ ys) = ended xs @ ended ys" "ended [] = []"
  by (simp_all add: ended_def)



lemma mapM_deref [simp]: "mapM deref (map Some xs) = Ok xs"
  by (induction xs) auto



lemma string_bytes_bytes_string [simp]: "string_bytes (bytes_string bs) = bs"
  by (induction bs) (simp_all add: string_bytes_def bytes_string_def byte_of_def of_char_of unsigned_less)

lemma number_raw [simp]: "0 \<le> x \<Longrightarrow> number (raw x) = x"
  by (simp add: number_def raw_def)











section \<open>The numbers of a group\<close>




section \<open>The key of a signing node is the generated key\<close>







section \<open>Texts that are not read\<close>

text \<open>The separator is not escaped: a field that contains it is read as two.\<close>

lemma separator_not_escaped: "SplitStr (ended [''adcrmsepsaveb'']) SepSave = [''a'', ''b'', []]"
  by code_simp

text \<open>A text with one part too few passes the guard for the factors of the auxiliary modulus.\<close>

lemma priv_guard_too_weak:
  "length (SplitStr (ended (replicate 6 [])) SepSave) = 7"
  "GetNtildePrivDataByIndexFromSaveData (ended (replicate 6 [])) 0 = Panic ''index out of range''"
  by code_simp+

end
