(* ===== verification/Json.thy ===== *)
theory Json
  imports Strings
begin

text \<open>
  What the program uses of Go's \<^verbatim>\<open>encoding/json\<close>: \<open>Marshal\<close> of a structure whose fields are strings, and
  \<open>Unmarshal\<close> into such a structure.  A Go string is a list of bytes; texts are taken to be valid UTF-8, so bytes
  from 128 on are copied.  The parser is a recursive descent over the text, bounded by its length.
\<close>

section \<open>Writing\<close>

definition quote :: char where
  "quote = CHR 0x22"

definition backslash :: char where
  "backslash = CHR 0x5C"

definition newline :: char where
  "newline = CHR 0x0A"

definition return :: char where
  "return = CHR 0x0D"

definition tab :: char where
  "tab = CHR 0x09"

text \<open>The escapes of \<^verbatim>\<open>Marshal\<close>, those for HTML included.\<close>

definition escape :: "char \<Rightarrow> string" where
  "escape c =
     (if c = quote \<or> c = backslash then [backslash, c]
      else if c = newline then [backslash, CHR ''n'']
      else if c = return then [backslash, CHR ''r'']
      else if c = tab then [backslash, CHR ''t'']
      else if (of_char c :: nat) < 32 \<or> c = CHR ''<'' \<or> c = CHR ''>'' \<or> c = CHR ''&''
      then [backslash, CHR ''u'', CHR ''0'', CHR ''0'', hex_digit (of_char c div 16), hex_digit (of_char c mod 16)]
      else [c])"

definition write_string :: "string \<Rightarrow> string" where
  "write_string s = quote # concat (map escape s) @ [quote]"

fun write_members :: "(string \<times> string) list \<Rightarrow> string" where
  "write_members [] = []"
| "write_members [(k, v)] = write_string k @ CHR '':'' # write_string v"
| "write_members ((k, v) # m # ms) = write_string k @ CHR '':'' # write_string v @ CHR '','' # write_members (m # ms)"

definition json_Marshal :: "(string \<times> string) list \<Rightarrow> string" where
  "json_Marshal fields = CHR ''{'' # write_members fields @ ''}''"

section \<open>Reading\<close>

datatype json = JNull | JBool bool | JNumber string | JString string | JArray "json list" | JObject "(string \<times> json) list"

fun skip_ws :: "string \<Rightarrow> string" where
  "skip_ws [] = []"
| "skip_ws (c # s) = (if c = CHR '' '' \<or> c = tab \<or> c = newline \<or> c = return then skip_ws s else c # s)"

text \<open>The UTF-8 encoding of a code point; a surrogate that is not part of a pair becomes U+FFFD.\<close>

definition utf8 :: "nat \<Rightarrow> string" where
  "utf8 n =
     map char_of
       (if n < 0x80 then [n]
        else if n < 0x800 then [0xC0 + n div 64, 0x80 + n mod 64]
        else if 0xD800 \<le> n \<and> n < 0xE000 then [0xEF, 0xBF, 0xBD]
        else if n < 0x10000 then [0xE0 + n div 4096, 0x80 + n div 64 mod 64, 0x80 + n mod 64]
        else [0xF0 + n div 262144, 0x80 + n div 4096 mod 64, 0x80 + n div 64 mod 64, 0x80 + n mod 64])"

definition hex_any :: "char \<Rightarrow> nat option" where
  "hex_any c = (let n = of_char c in
     if 48 \<le> n \<and> n \<le> 57 then Some (n - 48)
     else if 97 \<le> n \<and> n \<le> 102 then Some (n - 87)
     else if 65 \<le> n \<and> n \<le> 70 then Some (n - 55) else None)"

fun hex4 :: "string \<Rightarrow> (nat \<times> string) option" where
  "hex4 (a # b # c # d # s) =
     (case (hex_any a, hex_any b, hex_any c, hex_any d) of
        (Some w, Some x, Some y, Some z) \<Rightarrow> Some (4096 * w + 256 * x + 16 * y + z, s)
      | _ \<Rightarrow> None)"
| "hex4 _ = None"

text \<open>After \<^verbatim>\<open>\u\<close>: a pair of surrogates is one code point.\<close>

definition unicode :: "string \<Rightarrow> (string \<times> string) option" where
  "unicode s =
     (case hex4 s of
        None \<Rightarrow> None
      | Some (n, r) \<Rightarrow>
          (case r of
             b # u # r' \<Rightarrow>
               (if 0xD800 \<le> n \<and> n < 0xDC00 \<and> b = backslash \<and> u = CHR ''u'' then
                  (case hex4 r' of
                     Some (m, r'') \<Rightarrow>
                       if 0xDC00 \<le> m \<and> m < 0xE000 then Some (utf8 (0x10000 + (n - 0xD800) * 1024 + (m - 0xDC00)), r'')
                       else Some (utf8 n, r)
                   | None \<Rightarrow> Some (utf8 n, r))
                else Some (utf8 n, r))
           | _ \<Rightarrow> Some (utf8 n, r)))"

definition simple_escape :: "char \<Rightarrow> char option" where
  "simple_escape c =
     (if c = quote \<or> c = backslash \<or> c = CHR ''/'' then Some c
      else if c = CHR ''n'' then Some newline
      else if c = CHR ''r'' then Some return
      else if c = CHR ''t'' then Some tab
      else if c = CHR ''b'' then Some (CHR 0x08)
      else if c = CHR ''f'' then Some (CHR 0x0C)
      else None)"

text \<open>The rest of a string after its opening quote; the first argument bounds the number of steps.\<close>

fun read_string :: "nat \<Rightarrow> string \<Rightarrow> (string \<times> string) option" where
  "read_string 0 s = None"
| "read_string (Suc n) [] = None"
| "read_string (Suc n) (c # s) =
     (if c = quote then Some ([], s)
      else if (of_char c :: nat) < 32 then None
      else if c \<noteq> backslash then map_option (\<lambda>(v, r). (c # v, r)) (read_string n s)
      else
        (case s of
           [] \<Rightarrow> None
         | e # s' \<Rightarrow>
             if e = CHR ''u'' then
               (case unicode s' of
                  None \<Rightarrow> None
                | Some (u, r) \<Rightarrow> map_option (\<lambda>(v, r). (u @ v, r)) (read_string n r))
             else
               (case simple_escape e of
                  None \<Rightarrow> None
                | Some x \<Rightarrow> map_option (\<lambda>(v, r). (x # v, r)) (read_string n s'))))"

text \<open>Numbers: an optional sign, an integer without leading zeros, an optional fraction and exponent.\<close>

definition is_digit :: "char \<Rightarrow> bool" where
  "is_digit c = (digit_val c \<noteq> None)"

definition read_fraction :: "string \<Rightarrow> string option" where
  "read_fraction s =
     (case s of
        c # r \<Rightarrow> if c = CHR ''.'' then (if takeWhile is_digit r = [] then None else Some (dropWhile is_digit r)) else Some s
      | [] \<Rightarrow> Some s)"

definition read_exponent :: "string \<Rightarrow> string option" where
  "read_exponent s =
     (case s of
        c # r \<Rightarrow>
          if c = CHR ''e'' \<or> c = CHR ''E'' then
            (let r = (case r of d # r' \<Rightarrow> if d = CHR ''+'' \<or> d = CHR ''-'' then r' else r | [] \<Rightarrow> r)
             in if takeWhile is_digit r = [] then None else Some (dropWhile is_digit r))
          else Some s
      | [] \<Rightarrow> Some s)"

definition read_number :: "string \<Rightarrow> (json \<times> string) option" where
  "read_number s =
     (let r = (case s of c # r \<Rightarrow> if c = CHR ''-'' then r else s | [] \<Rightarrow> s); ds = takeWhile is_digit r
      in if ds = [] then None
         else
           (let r = (if hd ds = CHR ''0'' then tl r else dropWhile is_digit r)
            in case read_fraction r of
                 None \<Rightarrow> None
               | Some r \<Rightarrow> map_option (\<lambda>r. (JNumber (take (length s - length r) s), r)) (read_exponent r)))"

definition read_literal :: "string \<Rightarrow> (json \<times> string) option" where
  "read_literal s =
     (if take 4 s = ''null'' then Some (JNull, drop 4 s)
      else if take 4 s = ''true'' then Some (JBool True, drop 4 s)
      else if take 5 s = ''false'' then Some (JBool False, drop 5 s)
      else None)"

fun read_value :: "nat \<Rightarrow> string \<Rightarrow> (json \<times> string) option"
and read_elements :: "nat \<Rightarrow> string \<Rightarrow> (json list \<times> string) option"
and read_members :: "nat \<Rightarrow> string \<Rightarrow> ((string \<times> json) list \<times> string) option" where
  "read_value 0 s = None"
| "read_value (Suc n) s =
     (case skip_ws s of
        [] \<Rightarrow> None
      | c # r \<Rightarrow>
          if c = quote then map_option (\<lambda>(v, r). (JString v, r)) (read_string (Suc (length r)) r)
          else if c = CHR ''{'' then
            (case skip_ws r of
               d # r' \<Rightarrow> if d = CHR ''}'' then Some (JObject [], r')
                          else map_option (\<lambda>(ms, r). (JObject ms, r)) (read_members n r)
             | [] \<Rightarrow> None)
          else if c = CHR ''['' then
            (case skip_ws r of
               d # r' \<Rightarrow> if d = CHR '']'' then Some (JArray [], r')
                          else map_option (\<lambda>(vs, r). (JArray vs, r)) (read_elements n r)
             | [] \<Rightarrow> None)
          else if c = CHR ''-'' \<or> is_digit c then read_number (c # r)
          else read_literal (c # r))"
| "read_elements 0 s = None"
| "read_elements (Suc n) s =
     (case read_value n s of
        None \<Rightarrow> None
      | Some (v, r) \<Rightarrow>
          (case skip_ws r of
             [] \<Rightarrow> None
           | c # r' \<Rightarrow>
               if c = CHR '']'' then Some ([v], r')
               else if c = CHR '','' then map_option (\<lambda>(vs, r). (v # vs, r)) (read_elements n r')
               else None))"
| "read_members 0 s = None"
| "read_members (Suc n) s =
     (case skip_ws s of
        [] \<Rightarrow> None
      | q # r \<Rightarrow>
          if q \<noteq> quote then None
          else case read_string (Suc (length r)) r of
            None \<Rightarrow> None
          | Some (k, r) \<Rightarrow>
              (case skip_ws r of
                 [] \<Rightarrow> None
               | c # r \<Rightarrow>
                   if c \<noteq> CHR '':'' then None
                   else case read_value n r of
                     None \<Rightarrow> None
                   | Some (v, r) \<Rightarrow>
                       (case skip_ws r of
                          [] \<Rightarrow> None
                        | c # r' \<Rightarrow>
                            if c = CHR ''}'' then Some ([(k, v)], r')
                            else if c = CHR '','' then map_option (\<lambda>(ms, r). ((k, v) # ms, r)) (read_members n r')
                            else None)))"

definition json_read :: "string \<Rightarrow> json option" where
  "json_read s =
     (case read_value (Suc (length s)) s of
        Some (v, r) \<Rightarrow> if skip_ws r = [] then Some v else None
      | None \<Rightarrow> None)"

section \<open>Structures of strings\<close>

text \<open>
  The field a key stands for: the field of this name, or else the first one equal up to case.  A
  structure is the list of its fields with their values, initially empty strings.
\<close>

definition field_of :: "string list \<Rightarrow> string \<Rightarrow> string option" where
  "field_of fields k =
     (if k \<in> set fields then Some k
      else (case filter (\<lambda>f. ToLower f = ToLower k) fields of f # _ \<Rightarrow> Some f | [] \<Rightarrow> None))"

fun set_members :: "string list \<Rightarrow> (string \<times> json) list \<Rightarrow> (string \<Rightarrow> string) \<Rightarrow> (string \<Rightarrow> string) option" where
  "set_members fields [] st = Some st"
| "set_members fields ((k, v) # ms) st =
     (case field_of fields k of
        None \<Rightarrow> set_members fields ms st
      | Some f \<Rightarrow>
          (case v of
             JString s \<Rightarrow> set_members fields ms (st(f := s))
           | JNull \<Rightarrow> set_members fields ms st
           | _ \<Rightarrow> None))"

definition json_Unmarshal :: "string list \<Rightarrow> string \<Rightarrow> (string \<Rightarrow> string) option" where
  "json_Unmarshal fields raw =
     (case json_read raw of
        Some (JObject ms) \<Rightarrow> set_members fields ms (\<lambda>_. [])
      | Some JNull \<Rightarrow> Some (\<lambda>_. [])
      | _ \<Rightarrow> None)"

section \<open>Reading back what was written\<close>

lemma hex_any_digit [simp]: "d < 16 \<Longrightarrow> hex_any (hex_digit d) = Some d"
  by (simp add: hex_any_def hex_digit_def Let_def)

lemma hex_any_zero [simp]: "hex_any (CHR ''0'') = Some 0"
  by (simp add: hex_any_def)

lemma utf8_ascii: "(of_char c :: nat) < 128 \<Longrightarrow> utf8 (of_char c) = [c]"
  by (simp add: utf8_def)

lemma hex4_small: "n < 128 \<Longrightarrow> hex4 (CHR ''0'' # CHR ''0'' # hex_digit (n div 16) # hex_digit (n mod 16) # t) = Some (n, t)"
  by simp

lemma unicode_small:
  assumes "(of_char c :: nat) < 128"
  shows "unicode (CHR ''0'' # CHR ''0'' # hex_digit (of_char c div 16) # hex_digit (of_char c mod 16) # t) = Some ([c], t)"
  unfolding unicode_def hex4_small [OF assms] using assms utf8_ascii [OF assms] by (simp split: list.split)

lemma read_escape:
  "read_string (Suc n) (escape c @ t) = map_option (\<lambda>(v, r). (c # v, r)) (read_string n t)"
proof -
  consider "c = quote \<or> c = backslash" | "c = newline" | "c = return" | "c = tab"
    | "c \<notin> {quote, backslash, newline, return, tab}" "(of_char c :: nat) < 32 \<or> c = CHR ''<'' \<or> c = CHR ''>'' \<or> c = CHR ''&''"
    | "c \<notin> {quote, backslash, newline, return, tab}" "\<not> ((of_char c :: nat) < 32 \<or> c = CHR ''<'' \<or> c = CHR ''>'' \<or> c = CHR ''&'')"
    by blast
  then show ?thesis
  proof cases
    case 5
    then have small: "(of_char c :: nat) < 128" by auto
    show ?thesis using 5 unicode_small [OF small] by (simp add: escape_def) (auto simp: backslash_def quote_def)
  next
    case 6
    then show ?thesis by (simp add: escape_def)
  qed (auto simp: escape_def simple_escape_def quote_def backslash_def newline_def return_def tab_def)
qed

lemma read_write_string:
  "length s < n \<Longrightarrow> read_string n (concat (map escape s) @ quote # r) = Some (s, r)"
proof (induction s arbitrary: n)
  case Nil
  then show ?case by (cases n) auto
next
  case (Cons c s)
  then obtain m where "n = Suc m" "length s < m" by (cases n) auto
  then show ?case using Cons.IH [of m] by (simp add: read_escape del: read_string.simps)
qed

lemma length_escape: "1 \<le> length (escape c)"
  by (simp add: escape_def)

lemma length_escapes: "length s \<le> length (concat (map escape s))"
proof (induction s)
  case (Cons c s)
  then show ?case using length_escape [of c] by simp
qed simp

lemma quote_ne: "quote \<noteq> CHR ''{''" "quote \<noteq> CHR ''}''" "CHR ''{'' \<noteq> quote"
  by (simp_all add: quote_def)

lemma skip_ws_solid [simp]:
  "skip_ws (quote # s) = quote # s" "skip_ws (CHR ''{'' # s) = CHR ''{'' # s" "skip_ws (CHR ''}'' # s) = CHR ''}'' # s"
  "skip_ws (CHR '':'' # s) = CHR '':'' # s" "skip_ws (CHR '','' # s) = CHR '','' # s"
  by (simp_all add: quote_def tab_def newline_def return_def)

declare skip_ws.simps [simp del]

lemma read_back_string:
  "read_string (Suc (length (concat (map escape s) @ quote # r))) (concat (map escape s) @ quote # r) = Some (s, r)"
  by (rule read_write_string) (use length_escapes [of s] in simp)

lemma read_value_string:
  "0 < n \<Longrightarrow> read_value n (write_string s @ r) = Some (JString s, r)"
  using read_back_string [of s r] by (cases n) (simp_all add: write_string_def del: read_string.simps)

lemma read_member:
  assumes "0 < n"
  shows "read_members (Suc n) (write_string k @ CHR '':'' # write_string v @ CHR ''}'' # r) = Some ([(k, JString v)], r)"
    and "read_members (Suc n) (write_string k @ CHR '':'' # write_string v @ CHR '','' # r) =
      map_option (\<lambda>(ms, r). ((k, JString v) # ms, r)) (read_members n r)"
proof -
  have step: "read_string (Suc (length (concat (map escape k) @ quote # CHR '':'' # write_string v @ r)))
      (concat (map escape k) @ quote # CHR '':'' # write_string v @ r) = Some (k, CHR '':'' # write_string v @ r)" for r
    by (rule read_back_string)
  have val: "read_value n (write_string v @ r) = Some (JString v, r)" for r
    by (rule read_value_string [OF assms])
  show "read_members (Suc n) (write_string k @ CHR '':'' # write_string v @ CHR ''}'' # r) = Some ([(k, JString v)], r)"
    using step [of "CHR ''}'' # r"] val [of "CHR ''}'' # r"] by (simp add: write_string_def del: read_string.simps)
  show "read_members (Suc n) (write_string k @ CHR '':'' # write_string v @ CHR '','' # r) =
      map_option (\<lambda>(ms, r). ((k, JString v) # ms, r)) (read_members n r)"
    using step [of "CHR '','' # r"] val [of "CHR '','' # r"] by (simp add: write_string_def del: read_string.simps)
qed

lemma read_write_members:
  "fs \<noteq> [] \<Longrightarrow> length fs < n \<Longrightarrow>
   read_members n (write_members fs @ CHR ''}'' # r) = Some (map (\<lambda>(k, v). (k, JString v)) fs, r)"
proof (induction fs arbitrary: n rule: write_members.induct)
  case (2 k v)
  then obtain m where "n = Suc m" "0 < m" by (cases n) auto
  then show ?case using read_member(1) [of m k v r] by simp
next
  case (3 k v m ms)
  then obtain l where l: "n = Suc l" "length (m # ms) < l" by (cases n) auto
  then have "0 < l" by simp
  then show ?case
    using read_member(2) [of l k v "write_members (m # ms) @ CHR ''}'' # r"] 3(1) [OF _ l(2)] l(1) by simp
qed simp

lemma write_members_head: "fs \<noteq> [] \<Longrightarrow> \<exists>t. write_members fs @ r = quote # t"
  by (induction fs rule: write_members.induct) (auto simp: write_string_def)

lemma length_write_members: "length fs \<le> length (write_members fs)"
  by (induction fs rule: write_members.induct) (auto simp: write_string_def)

lemma json_read_Marshal:
  assumes "fs \<noteq> []"
  shows "json_read (json_Marshal fs) = Some (JObject (map (\<lambda>(k, v). (k, JString v)) fs))"
proof -
  obtain t where t: "write_members fs @ ''}'' = quote # t"
    using write_members_head [OF assms] by blast
  have "read_members (Suc (Suc (length (write_members fs)))) (write_members fs @ ''}'') = Some (map (\<lambda>(k, v). (k, JString v)) fs, [])"
    using read_write_members [OF assms, of "Suc (Suc (length (write_members fs)))" "[]"] length_write_members [of fs] by simp
  then have "read_value (Suc (Suc (Suc (length (write_members fs))))) (json_Marshal fs) = Some (JObject (map (\<lambda>(k, v). (k, JString v)) fs), [])"
    unfolding json_Marshal_def using t by (simp add: quote_ne del: read_members.simps)
  moreover have "length (json_Marshal fs) = Suc (Suc (length (write_members fs)))" by (simp add: json_Marshal_def)
  ultimately show ?thesis by (simp add: json_read_def skip_ws.simps del: read_value.simps)
qed

lemma set_members_strings:
  assumes "distinct (map fst fs)" "set (map fst fs) \<subseteq> set fields"
  shows "set_members fields (map (\<lambda>(k, v). (k, JString v)) fs) st = Some (\<lambda>k. case map_of fs k of Some v \<Rightarrow> v | None \<Rightarrow> st k)"
  using assms
proof (induction fs arbitrary: st)
  case (Cons f fs)
  obtain k v where f: "f = (k, v)" by fastforce
  have "k \<notin> dom (map_of fs)" using Cons.prems(1) by (simp add: f dom_map_of_conv_image_fst)
  then have "(\<lambda>x. case map_of fs x of Some v \<Rightarrow> v | None \<Rightarrow> (st(k := v)) x) = (\<lambda>x. case map_of (f # fs) x of Some v \<Rightarrow> v | None \<Rightarrow> st x)"
    by (intro ext) (auto simp: f split: option.split)
  then show ?case using Cons by (simp add: f field_of_def)
qed simp

text \<open>What was written is read back, field by field.\<close>

lemma json_Unmarshal_Marshal:
  assumes "fs \<noteq> []" "distinct (map fst fs)"
  shows "json_Unmarshal (map fst fs) (json_Marshal fs) = Some (\<lambda>k. case map_of fs k of Some v \<Rightarrow> v | None \<Rightarrow> [])"
  using set_members_strings [OF assms(2) order.refl] by (simp add: json_Unmarshal_def json_read_Marshal [OF assms(1)])

end
