(* ===== verification/Codec.thy ===== *)
theory Codec
  imports Json Signing
begin

text \<open>
  The methods \<^verbatim>\<open>MarshalJSON\<close> and \<^verbatim>\<open>UnmarshalJSON\<close> of the keys and proofs in \<^verbatim>\<open>smpc-lib/crypto/ec2\<close>.  A number
  is written in decimal, a \<^verbatim>\<open>nil\<close> number as \<^verbatim>\<open><nil>\<close>; reading rejects what is not a number.  The
  object a failed \<^verbatim>\<open>UnmarshalJSON\<close> leaves behind is not used by its callers and is not modelled.
\<close>

section \<open>Numbers as texts\<close>

text \<open>\<^verbatim>\<open>fmt.Sprintf("%v", n)\<close> of a \<^verbatim>\<open>*big.Int\<close>.\<close>

definition Sprintf_v :: "int option \<Rightarrow> string" where
  "Sprintf_v n = (case n of Some n \<Rightarrow> show_int n | None \<Rightarrow> ''<nil>'')"

text \<open>\<^verbatim>\<open>strconv.Atoi\<close>: a number of 64 bits.\<close>

definition Atoi :: "string \<Rightarrow> int res" where
  "Atoi s =
     (case SetString10 s of
        Some n \<Rightarrow> if - (2 ^ 63) \<le> n \<and> n < 2 ^ 63 then Ok n else Err ''value out of range''
      | None \<Rightarrow> Err ''invalid syntax'')"

text \<open>A list of texts read as numbers, all of which must be valid.\<close>

definition SetStrings :: "string list \<Rightarrow> int option list option" where
  "SetStrings ss = map_option (map Some) (those (map SetString10 ss))"

definition complete :: "int option list \<Rightarrow> bool" where
  "complete ns = (ns \<noteq> [] \<and> None \<notin> set ns)"

lemma Sprintf_v_Some [simp]: "Sprintf_v (Some n) = show_int n"
  by (simp add: Sprintf_v_def)

lemma Sprintf_v_ne [simp]: "Sprintf_v n \<noteq> []"
  by (simp add: Sprintf_v_def split: option.split)

lemma Atoi_show_int: "- (2 ^ 63) \<le> n \<Longrightarrow> n < 2 ^ 63 \<Longrightarrow> Atoi (show_int n) = Ok n"
  by (simp add: Atoi_def)

lemma those_map_Some: "those (map Some xs) = Some xs"
  by (induction xs) simp_all

lemma SetStrings_Sprintf_v: "None \<notin> set ns \<Longrightarrow> SetStrings (map Sprintf_v ns) = Some ns"
proof -
  assume "None \<notin> set ns"
  then have "ns = map Some (map the ns)" by (induction ns) auto
  then obtain ms where "ns = map Some ms" by blast
  then show ?thesis by (simp add: SetStrings_def comp_def those_map_Some)
qed

lemma set_Sprintf_v: "c \<in> set (Sprintf_v n) \<Longrightarrow> c \<noteq> CHR '':'' \<and> c \<noteq> CHR ''|''"
  using set_show_int by (fastforce simp: Sprintf_v_def split: option.splits)

lemma Split_Sprintf_v:
  assumes "ns \<noteq> []" "sep = CHR '':'' \<or> sep = CHR ''|''"
  shows "Split (Join (map Sprintf_v ns) sep) sep = map Sprintf_v ns"
  using assms set_Sprintf_v by (intro Split_Join) fastforce+

lemma SetStrings_Split_Join:
  "complete ns \<Longrightarrow> sep = CHR '':'' \<or> sep = CHR ''|'' \<Longrightarrow> SetStrings (Split (Join (map Sprintf_v ns) sep) sep) = Some ns"
  by (simp add: Split_Sprintf_v SetStrings_Sprintf_v complete_def)

lemma Join_Sprintf_v_ne: "ns \<noteq> [] \<Longrightarrow> Join (map Sprintf_v ns) sep \<noteq> []"
  by (cases ns; cases "tl ns") auto

section \<open>Structures of numbers\<close>

definition ints_MarshalJSON :: "(string \<times> int option) list \<Rightarrow> string" where
  "ints_MarshalJSON fs = json_Marshal (map (\<lambda>(k, n). (k, Sprintf_v n)) fs)"

definition ints_UnmarshalJSON :: "string list \<Rightarrow> string \<Rightarrow> int list res" where
  "ints_UnmarshalJSON ks raw =
     (case json_Unmarshal ks raw of
        None \<Rightarrow> Err ''json''
      | Some v \<Rightarrow>
          (case those (map (\<lambda>f. SetString10 (v f)) ks) of
             Some ns \<Rightarrow> Ok ns
           | None \<Rightarrow> Err ''unmarshal json error''))"

lemma ints_UnmarshalJSON_MarshalJSON:
  assumes "ks \<noteq> []" "distinct ks" "length ns = length ks"
  shows "ints_UnmarshalJSON ks (ints_MarshalJSON (zip ks (map Some ns))) = Ok ns"
proof -
  let ?fs = "zip ks (map show_int ns)"
  have fs: "map (\<lambda>(k, n). (k, Sprintf_v n)) (zip ks (map Some ns)) = ?fs"
    by (simp add: zip_map2 comp_def case_prod_unfold)
  have fst: "map fst ?fs = ks" using assms(3) by simp
  have look: "json_Unmarshal ks (json_Marshal ?fs) = Some (\<lambda>k. case map_of ?fs k of Some v \<Rightarrow> v | None \<Rightarrow> [])"
    using json_Unmarshal_Marshal [of ?fs] assms fst by (metis zip_eq_Nil_iff length_0_conv map_is_Nil_conv)
  have "map (\<lambda>f. SetString10 (case map_of ?fs f of Some v \<Rightarrow> v | None \<Rightarrow> [])) ks = map Some ns"
  proof (rule nth_equalityI)
    fix i assume "i < length (map (\<lambda>f. SetString10 (case map_of ?fs f of Some v \<Rightarrow> v | None \<Rightarrow> [])) ks)"
    then show "map (\<lambda>f. SetString10 (case map_of ?fs f of Some v \<Rightarrow> v | None \<Rightarrow> [])) ks ! i = map Some ns ! i"
      using assms by (simp add: map_of_zip_nth)
  qed (use assms in simp)
  then show ?thesis
    unfolding ints_UnmarshalJSON_def ints_MarshalJSON_def fs look by (simp add: those_map_Some)
qed

lemma json_Marshal_ne [simp]: "json_Marshal fs \<noteq> []"
  by (simp add: json_Marshal_def)

lemma ints_MarshalJSON_ne [simp]: "ints_MarshalJSON fs \<noteq> []"
  by (simp add: ints_MarshalJSON_def)

section \<open>The structures\<close>

subsection \<open>Auxiliary moduli and Schnorr proofs\<close>

definition nt_MarshalJSON :: "NtildeH1H2 \<Rightarrow> string" where
  "nt_MarshalJSON x =
     ints_MarshalJSON
       [(''Ntilde'', Some (nt_Ntilde x)), (''H1'', Some (nt_H1 x)), (''H2'', Some (nt_H2 x))]"

definition nt_UnmarshalJSON :: "string \<Rightarrow> NtildeH1H2 res" where
  "nt_UnmarshalJSON raw =
     mapr (\<lambda>ns. case ns of
         [n1, n2, n3] \<Rightarrow>
           \<lparr>nt_Ntilde = n1, nt_H1 = n2, nt_H2 = n3\<rparr>)
       (ints_UnmarshalJSON [''Ntilde'', ''H1'', ''H2''] raw)"

definition npd_MarshalJSON :: "NtildePrivData \<Rightarrow> string" where
  "npd_MarshalJSON x =
     ints_MarshalJSON
       [(''Alpha'', Some (npd_Alpha x)), (''Beta'', Some (npd_Beta x)), (''Q1'', Some (npd_Q1 x)),
        (''Q2'', Some (npd_Q2 x))]"

definition npd_UnmarshalJSON :: "string \<Rightarrow> NtildePrivData res" where
  "npd_UnmarshalJSON raw =
     mapr (\<lambda>ns. case ns of
         [n1, n2, n3, n4] \<Rightarrow>
           \<lparr>npd_Alpha = n1, npd_Beta = n2, npd_Q1 = n3, npd_Q2 = n4\<rparr>)
       (ints_UnmarshalJSON [''Alpha'', ''Beta'', ''Q1'', ''Q2''] raw)"

definition zku_MarshalJSON :: "ZkUProof \<Rightarrow> string" where
  "zku_MarshalJSON x =
     ints_MarshalJSON
       [(''E'', zku_E x), (''S'', zku_S x)]"

definition zku_UnmarshalJSON :: "string \<Rightarrow> ZkUProof res" where
  "zku_UnmarshalJSON raw =
     mapr (\<lambda>ns. case ns of
         [n1, n2] \<Rightarrow>
           \<lparr>zku_E = Some n1, zku_S = Some n2\<rparr>)
       (ints_UnmarshalJSON [''E'', ''S''] raw)"

definition zkx_MarshalJSON :: "ZkXiProof \<Rightarrow> string" where
  "zkx_MarshalJSON x =
     ints_MarshalJSON
       [(''E'', zkx_E x), (''S'', zkx_S x)]"

definition zkx_UnmarshalJSON :: "string \<Rightarrow> ZkXiProof res" where
  "zkx_UnmarshalJSON raw =
     mapr (\<lambda>ns. case ns of
         [n1, n2] \<Rightarrow>
           \<lparr>zkx_E = Some n1, zkx_S = Some n2\<rparr>)
       (ints_UnmarshalJSON [''E'', ''S''] raw)"

definition ra_MarshalJSON :: "MtARangeProof \<Rightarrow> string" where
  "ra_MarshalJSON x =
     ints_MarshalJSON
       [(''Z'', ra_Z x), (''U'', ra_U x), (''W'', ra_W x), (''S'', ra_S x), (''S1'', ra_S1 x), (''S2'', ra_S2 x)]"

definition ra_UnmarshalJSON :: "string \<Rightarrow> MtARangeProof res" where
  "ra_UnmarshalJSON raw =
     mapr (\<lambda>ns. case ns of
         [n1, n2, n3, n4, n5, n6] \<Rightarrow>
           \<lparr>ra_Z = Some n1, ra_U = Some n2, ra_W = Some n3, ra_S = Some n4, ra_S1 = Some n5, ra_S2 = Some n6\<rparr>)
       (ints_UnmarshalJSON [''Z'', ''U'', ''W'', ''S'', ''S1'', ''S2''] raw)"

definition rp_MarshalJSON :: "MtARespZKProof \<Rightarrow> string" where
  "rp_MarshalJSON x =
     ints_MarshalJSON
       [(''Z'', rp_Z x), (''ZBar'', rp_ZBar x), (''T'', rp_T x), (''V'', rp_V x), (''W'', rp_W x), (''S'', rp_S x),
        (''S1'', rp_S1 x), (''S2'', rp_S2 x), (''T1'', rp_T1 x), (''T2'', rp_T2 x)]"

definition rp_UnmarshalJSON :: "string \<Rightarrow> MtARespZKProof res" where
  "rp_UnmarshalJSON raw =
     mapr (\<lambda>ns. case ns of
         [n1, n2, n3, n4, n5, n6, n7, n8, n9, n10] \<Rightarrow>
           \<lparr>rp_Z = Some n1, rp_ZBar = Some n2, rp_T = Some n3, rp_V = Some n4, rp_W = Some n5, rp_S = Some n6,
            rp_S1 = Some n7, rp_S2 = Some n8, rp_T1 = Some n9, rp_T2 = Some n10\<rparr>)
       (ints_UnmarshalJSON [''Z'', ''ZBar'', ''T'', ''V'', ''W'', ''S'', ''S1'', ''S2'', ''T1'', ''T2''] raw)"

definition pd_MarshalJSON :: "PDLwSlackProof \<Rightarrow> string" where
  "pd_MarshalJSON x =
     ints_MarshalJSON
       [(''Z'', Some (pd_Z x)), (''U1X'', Some (pd_U1X x)), (''U1Y'', Some (pd_U1Y x)), (''U2'', Some (pd_U2 x)),
        (''U3'', Some (pd_U3 x)), (''S1'', Some (pd_S1 x)), (''S2'', Some (pd_S2 x)), (''S3'', Some (pd_S3 x))]"

definition pd_UnmarshalJSON :: "string \<Rightarrow> PDLwSlackProof res" where
  "pd_UnmarshalJSON raw =
     mapr (\<lambda>ns. case ns of
         [n1, n2, n3, n4, n5, n6, n7, n8] \<Rightarrow>
           \<lparr>pd_Z = n1, pd_U1X = n2, pd_U1Y = n3, pd_U2 = n4, pd_U3 = n5, pd_S1 = n6, pd_S2 = n7, pd_S3 = n8\<rparr>)
       (ints_UnmarshalJSON [''Z'', ''U1X'', ''U1Y'', ''U2'', ''U3'', ''S1'', ''S2'', ''S3''] raw)"

definition st_MarshalJSON :: "STProof \<Rightarrow> string" where
  "st_MarshalJSON x =
     ints_MarshalJSON
       [(''AlphaX'', Some (st_AlphaX x)), (''AlphaY'', Some (st_AlphaY x)), (''BetaX'', Some (st_BetaX x)),
        (''BetaY'', Some (st_BetaY x)), (''T'', Some (st_T x)), (''U'', Some (st_U x))]"

definition st_UnmarshalJSON :: "string \<Rightarrow> STProof res" where
  "st_UnmarshalJSON raw =
     mapr (\<lambda>ns. case ns of
         [n1, n2, n3, n4, n5, n6] \<Rightarrow>
           \<lparr>st_AlphaX = n1, st_AlphaY = n2, st_BetaX = n3, st_BetaY = n4, st_T = n5, st_U = n6\<rparr>)
       (ints_UnmarshalJSON [''AlphaX'', ''AlphaY'', ''BetaX'', ''BetaY'', ''T'', ''U''] raw)"

definition tp_MarshalJSON :: "TProof \<Rightarrow> string" where
  "tp_MarshalJSON x =
     ints_MarshalJSON
       [(''AlphaX'', Some (tp_AlphaX x)), (''AlphaY'', Some (tp_AlphaY x)), (''T'', Some (tp_T x)),
        (''U'', Some (tp_U x))]"

definition tp_UnmarshalJSON :: "string \<Rightarrow> TProof res" where
  "tp_UnmarshalJSON raw =
     mapr (\<lambda>ns. case ns of
         [n1, n2, n3, n4] \<Rightarrow>
           \<lparr>tp_AlphaX = n1, tp_AlphaY = n2, tp_T = n3, tp_U = n4\<rparr>)
       (ints_UnmarshalJSON [''AlphaX'', ''AlphaY'', ''T'', ''U''] raw)"

text \<open>The last one extends the response proof by a point.\<close>

definition rw_MarshalJSON :: "MtAwcRespZKProof \<Rightarrow> string" where
  "rw_MarshalJSON x =
     ints_MarshalJSON
       [(''Ux'', rw_Ux x), (''Uy'', rw_Uy x), (''Z'', rp_Z (rw_resp x)), (''ZBar'', rp_ZBar (rw_resp x)),
        (''T'', rp_T (rw_resp x)), (''V'', rp_V (rw_resp x)), (''W'', rp_W (rw_resp x)), (''S'', rp_S (rw_resp x)),
        (''S1'', rp_S1 (rw_resp x)), (''S2'', rp_S2 (rw_resp x)), (''T1'', rp_T1 (rw_resp x)), (''T2'', rp_T2 (rw_resp x))]"

definition rw_UnmarshalJSON :: "string \<Rightarrow> MtAwcRespZKProof res" where
  "rw_UnmarshalJSON raw =
     mapr (\<lambda>ns. case ns of
         [ux, uy, n1, n2, n3, n4, n5, n6, n7, n8, n9, n10] \<Rightarrow>
           \<lparr>rw_Ux = Some ux, rw_Uy = Some uy,
            rw_resp = \<lparr>rp_Z = Some n1, rp_ZBar = Some n2, rp_T = Some n3, rp_V = Some n4, rp_W = Some n5, rp_S = Some n6,
              rp_S1 = Some n7, rp_S2 = Some n8, rp_T1 = Some n9, rp_T2 = Some n10\<rparr>\<rparr>)
       (ints_UnmarshalJSON [''Ux'', ''Uy'', ''Z'', ''ZBar'', ''T'', ''V'', ''W'', ''S'', ''S1'', ''S2'', ''T1'', ''T2''] raw)"

subsection \<open>Paillier keys\<close>

definition pk_MarshalJSON :: "PublicKey \<Rightarrow> string" where
  "pk_MarshalJSON pk =
     json_Marshal [(''Length'', pk_Length pk), (''N'', Sprintf_v (Some (pk_N pk))), (''G'', Sprintf_v (Some (pk_G pk))),
       (''N2'', Sprintf_v (Some (pk_N2 pk)))]"

definition pk_UnmarshalJSON :: "string \<Rightarrow> PublicKey res" where
  "pk_UnmarshalJSON raw =
     (case json_Unmarshal [''Length'', ''N'', ''G'', ''N2''] raw of
        None \<Rightarrow> Err ''json''
      | Some pub \<Rightarrow>
          bindr (Atoi (pub ''Length'')) (\<lambda>l.
            if l \<le> 0 then Err ''unmarshal length error''
            else
              (case (SetString10 (pub ''N''), SetString10 (pub ''G''), SetString10 (pub ''N2'')) of
                 (Some n, Some g, Some n2) \<Rightarrow> Ok \<lparr>pk_Length = pub ''Length'', pk_N = n, pk_G = g, pk_N2 = n2\<rparr>
               | _ \<Rightarrow> Err ''unmarshal json error'')))"

definition sk_MarshalJSON :: "PrivateKey \<Rightarrow> string" where
  "sk_MarshalJSON sk =
     json_Marshal [(''Length'', sk_Length sk), (''PublicKey'', pk_MarshalJSON (sk_PublicKey sk)),
       (''L'', Sprintf_v (Some (sk_L sk))), (''U'', Sprintf_v (Some (sk_U sk)))]"

definition sk_UnmarshalJSON :: "string \<Rightarrow> PrivateKey res" where
  "sk_UnmarshalJSON raw =
     (case json_Unmarshal [''Length'', ''PublicKey'', ''L'', ''U''] raw of
        None \<Rightarrow> Err ''json''
      | Some pri \<Rightarrow>
          bindr (Atoi (pri ''Length'')) (\<lambda>l.
            if l \<le> 0 then Err ''unmarshal length error''
            else
              bindr (pk_UnmarshalJSON (pri ''PublicKey'')) (\<lambda>pub.
                case (SetString10 (pri ''L''), SetString10 (pri ''U'')) of
                  (Some l, Some u) \<Rightarrow> Ok \<lparr>sk_Length = pri ''Length'', sk_PublicKey = pub, sk_L = l, sk_U = u\<rparr>
                | _ \<Rightarrow> Err ''unmarshal json error'')))"

subsection \<open>Proofs that are lists of numbers\<close>

definition sf_MarshalJSON :: "SquareFreeProof \<Rightarrow> string" where
  "sf_MarshalJSON x = json_Marshal [(''Y'', Join (map Sprintf_v (sf_Sigma x)) (CHR '':''))]"

definition sigma_of :: "string \<Rightarrow> int option list res" where
  "sigma_of raw =
     (case json_Unmarshal [''Y''] raw of
        None \<Rightarrow> Err ''json''
      | Some zk \<Rightarrow>
          (case SetStrings (Split (zk ''Y'') (CHR '':'')) of
             Some sigma \<Rightarrow> Ok sigma
           | None \<Rightarrow> Err ''get sigma fail''))"

definition sf_UnmarshalJSON :: "string \<Rightarrow> SquareFreeProof res" where
  "sf_UnmarshalJSON raw = mapr (\<lambda>sigma. \<lparr>sf_Sigma = sigma\<rparr>) (sigma_of raw)"

definition hv_MarshalJSON :: "HvProof \<Rightarrow> string" where
  "hv_MarshalJSON x = json_Marshal [(''Y'', Join (map Sprintf_v (hv_Sigma x)) (CHR '':''))]"

definition hv_UnmarshalJSON :: "string \<Rightarrow> HvProof res" where
  "hv_UnmarshalJSON raw = mapr (\<lambda>sigma. \<lparr>hv_Sigma = sigma\<rparr>) (sigma_of raw)"

text \<open>
  The lists of \<^verbatim>\<open>NtildeProof\<close>: a bar follows the element number \<open>k\<close> unless \<open>k\<close> is \<open>l - 1\<close>, where \<open>l\<close> is the length of
  \<^verbatim>\<open>Alpha\<close> for both lists.
\<close>

fun bars :: "nat \<Rightarrow> nat \<Rightarrow> string list \<Rightarrow> string" where
  "bars l k [] = []"
| "bars l k (v # vs) = v @ (if k \<noteq> l - 1 then ''|'' else []) @ bars l (Suc k) vs"

definition np_MarshalJSON :: "NtildeProof \<Rightarrow> string" where
  "np_MarshalJSON p =
     (let l = length (np_Alpha p)
      in json_Marshal [(''Alpha'', bars l 0 (map Sprintf_v (np_Alpha p))), (''T'', bars l 0 (map Sprintf_v (np_T p)))])"

definition np_list :: "string \<Rightarrow> string \<Rightarrow> string \<Rightarrow> int option list res" where
  "np_list s e1 e2 =
     (let al = Split s (CHR ''|'')
      in if length al \<noteq> Iterations then Err e1
         else (case SetStrings al of Some ns \<Rightarrow> Ok ns | None \<Rightarrow> Err e2))"

definition np_UnmarshalJSON :: "string \<Rightarrow> NtildeProof res" where
  "np_UnmarshalJSON raw =
     (case json_Unmarshal [''Alpha'', ''T''] raw of
        None \<Rightarrow> Err ''json''
      | Some pf \<Rightarrow>
          bindr (np_list (pf ''Alpha'') ''unmarshal ntilde zk proof alpha json data fail'' ''unmarshal alpha error'') (\<lambda>alpha.
          bindr (np_list (pf ''T'') ''unmarshal ntilde zk proof t json data fail'' ''unmarshal t error'') (\<lambda>t.
            Ok \<lparr>np_Alpha = alpha, np_T = t\<rparr>)))"

section \<open>Reading what was written\<close>

text \<open>
  What a receiver relies on: a value that passes \<open>whole\<close> is read back from its text, and no text is empty.
\<close>

locale wire_codec =
  fixes enc :: "'a \<Rightarrow> string" and dec :: "string \<Rightarrow> 'a res" and whole :: "'a \<Rightarrow> bool"
  assumes dec_enc: "whole x \<Longrightarrow> dec (enc x) = Ok x"
    and enc_ne: "enc x \<noteq> []"
begin

lemma enc_inj: "whole x \<Longrightarrow> whole y \<Longrightarrow> enc x = enc y \<Longrightarrow> x = y"
  by (metis dec_enc res.inject(1))

lemma enc_total: "whole x \<Longrightarrow> \<exists>y. dec (enc x) = Ok y"
  by (simp add: dec_enc)

end

definition zku_whole :: "ZkUProof \<Rightarrow> bool" where
  "zku_whole x = complete [zku_E x, zku_S x]"

definition zkx_whole :: "ZkXiProof \<Rightarrow> bool" where
  "zkx_whole x = complete [zkx_E x, zkx_S x]"

definition ra_whole :: "MtARangeProof \<Rightarrow> bool" where
  "ra_whole x = complete [ra_Z x, ra_U x, ra_W x, ra_S x, ra_S1 x, ra_S2 x]"

definition rp_whole :: "MtARespZKProof \<Rightarrow> bool" where
  "rp_whole x = complete [rp_Z x, rp_ZBar x, rp_T x, rp_V x, rp_W x, rp_S x, rp_S1 x, rp_S2 x, rp_T1 x, rp_T2 x]"

definition rw_whole :: "MtAwcRespZKProof \<Rightarrow> bool" where
  "rw_whole x = (complete [rw_Ux x, rw_Uy x] \<and> rp_whole (rw_resp x))"

definition sf_whole :: "SquareFreeProof \<Rightarrow> bool" where
  "sf_whole x = complete (sf_Sigma x)"

definition hv_whole :: "HvProof \<Rightarrow> bool" where
  "hv_whole x = complete (hv_Sigma x)"

definition np_whole :: "NtildeProof \<Rightarrow> bool" where
  "np_whole x =
     (length (np_Alpha x) = Iterations \<and> length (np_T x) = Iterations \<and> None \<notin> set (np_Alpha x) \<and> None \<notin> set (np_T x))"

definition length_ok :: "string \<Rightarrow> bool" where
  "length_ok s = (case Atoi s of Ok l \<Rightarrow> 0 < l | _ \<Rightarrow> False)"

definition pk_whole :: "PublicKey \<Rightarrow> bool" where
  "pk_whole pk = length_ok (pk_Length pk)"

definition sk_whole :: "PrivateKey \<Rightarrow> bool" where
  "sk_whole sk = (length_ok (sk_Length sk) \<and> pk_whole (sk_PublicKey sk))"

lemma length_ok_cases:
  assumes "length_ok s"
  obtains l where "Atoi s = Ok l" "0 < l"
  using assms by (auto simp: length_ok_def split: res.splits)

lemma complete_Cons: "complete (n # ns) \<longleftrightarrow> (\<exists>k. n = Some k) \<and> (ns = [] \<or> complete ns)"
  by (cases n) (auto simp: complete_def)

lemmas codec_defs =
  nt_MarshalJSON_def nt_UnmarshalJSON_def
  npd_MarshalJSON_def npd_UnmarshalJSON_def
  zku_MarshalJSON_def zku_UnmarshalJSON_def
  zkx_MarshalJSON_def zkx_UnmarshalJSON_def
  ra_MarshalJSON_def ra_UnmarshalJSON_def
  rp_MarshalJSON_def rp_UnmarshalJSON_def
  rw_MarshalJSON_def rw_UnmarshalJSON_def
  pd_MarshalJSON_def pd_UnmarshalJSON_def
  st_MarshalJSON_def st_UnmarshalJSON_def
  tp_MarshalJSON_def tp_UnmarshalJSON_def

lemma mapr_ints:
  assumes "ks \<noteq> []" "distinct ks" "length ns = length ks"
  shows "mapr f (ints_UnmarshalJSON ks (ints_MarshalJSON (zip ks (map Some ns)))) = Ok (f ns)"
  by (simp add: ints_UnmarshalJSON_MarshalJSON [OF assms])

interpretation nt_wire: wire_codec nt_MarshalJSON nt_UnmarshalJSON "\<lambda>_. True"
proof
  fix x :: NtildeH1H2
  show "nt_UnmarshalJSON (nt_MarshalJSON x) = Ok x"
    using ints_UnmarshalJSON_MarshalJSON [of "[''Ntilde'', ''H1'', ''H2'']"
      "[nt_Ntilde x, nt_H1 x, nt_H2 x]"]
    by (simp add: codec_defs)
qed (simp_all add: codec_defs)

interpretation npd_wire: wire_codec npd_MarshalJSON npd_UnmarshalJSON "\<lambda>_. True"
proof
  fix x :: NtildePrivData
  show "npd_UnmarshalJSON (npd_MarshalJSON x) = Ok x"
    using ints_UnmarshalJSON_MarshalJSON [of "[''Alpha'', ''Beta'', ''Q1'', ''Q2'']"
      "[npd_Alpha x, npd_Beta x, npd_Q1 x, npd_Q2 x]"]
    by (simp add: codec_defs)
qed (simp_all add: codec_defs)

interpretation pd_wire: wire_codec pd_MarshalJSON pd_UnmarshalJSON "\<lambda>_. True"
proof
  fix x :: PDLwSlackProof
  show "pd_UnmarshalJSON (pd_MarshalJSON x) = Ok x"
    using ints_UnmarshalJSON_MarshalJSON [of "[''Z'', ''U1X'', ''U1Y'', ''U2'', ''U3'', ''S1'', ''S2'', ''S3'']"
      "[pd_Z x, pd_U1X x, pd_U1Y x, pd_U2 x, pd_U3 x, pd_S1 x, pd_S2 x, pd_S3 x]"]
    by (simp add: codec_defs)
qed (simp_all add: codec_defs)

interpretation st_wire: wire_codec st_MarshalJSON st_UnmarshalJSON "\<lambda>_. True"
proof
  fix x :: STProof
  show "st_UnmarshalJSON (st_MarshalJSON x) = Ok x"
    using ints_UnmarshalJSON_MarshalJSON [of "[''AlphaX'', ''AlphaY'', ''BetaX'', ''BetaY'', ''T'', ''U'']"
      "[st_AlphaX x, st_AlphaY x, st_BetaX x, st_BetaY x, st_T x, st_U x]"]
    by (simp add: codec_defs)
qed (simp_all add: codec_defs)

interpretation tp_wire: wire_codec tp_MarshalJSON tp_UnmarshalJSON "\<lambda>_. True"
proof
  fix x :: TProof
  show "tp_UnmarshalJSON (tp_MarshalJSON x) = Ok x"
    using ints_UnmarshalJSON_MarshalJSON [of "[''AlphaX'', ''AlphaY'', ''T'', ''U'']"
      "[tp_AlphaX x, tp_AlphaY x, tp_T x, tp_U x]"]
    by (simp add: codec_defs)
qed (simp_all add: codec_defs)

interpretation zku_wire: wire_codec zku_MarshalJSON zku_UnmarshalJSON zku_whole
proof
  fix x :: ZkUProof
  assume "zku_whole x"
  then show "zku_UnmarshalJSON (zku_MarshalJSON x) = Ok x"
    using ints_UnmarshalJSON_MarshalJSON [of "[''E'', ''S'']"
      "map the [zku_E x, zku_S x]"]
    by (auto simp: codec_defs zku_whole_def complete_Cons)
qed (simp_all add: codec_defs)

interpretation zkx_wire: wire_codec zkx_MarshalJSON zkx_UnmarshalJSON zkx_whole
proof
  fix x :: ZkXiProof
  assume "zkx_whole x"
  then show "zkx_UnmarshalJSON (zkx_MarshalJSON x) = Ok x"
    using ints_UnmarshalJSON_MarshalJSON [of "[''E'', ''S'']"
      "map the [zkx_E x, zkx_S x]"]
    by (auto simp: codec_defs zkx_whole_def complete_Cons)
qed (simp_all add: codec_defs)

interpretation ra_wire: wire_codec ra_MarshalJSON ra_UnmarshalJSON ra_whole
proof
  fix x :: MtARangeProof
  assume "ra_whole x"
  then show "ra_UnmarshalJSON (ra_MarshalJSON x) = Ok x"
    using ints_UnmarshalJSON_MarshalJSON [of "[''Z'', ''U'', ''W'', ''S'', ''S1'', ''S2'']"
      "map the [ra_Z x, ra_U x, ra_W x, ra_S x, ra_S1 x, ra_S2 x]"]
    by (auto simp: codec_defs ra_whole_def complete_Cons)
qed (simp_all add: codec_defs)

interpretation rp_wire: wire_codec rp_MarshalJSON rp_UnmarshalJSON rp_whole
proof
  fix x :: MtARespZKProof
  assume "rp_whole x"
  then show "rp_UnmarshalJSON (rp_MarshalJSON x) = Ok x"
    using ints_UnmarshalJSON_MarshalJSON [of "[''Z'', ''ZBar'', ''T'', ''V'', ''W'', ''S'', ''S1'', ''S2'', ''T1'', ''T2'']"
      "map the [rp_Z x, rp_ZBar x, rp_T x, rp_V x, rp_W x, rp_S x, rp_S1 x, rp_S2 x, rp_T1 x, rp_T2 x]"]
    by (auto simp: codec_defs rp_whole_def complete_Cons)
qed (simp_all add: codec_defs)

interpretation rw_wire: wire_codec rw_MarshalJSON rw_UnmarshalJSON rw_whole
proof
  fix x :: MtAwcRespZKProof
  assume "rw_whole x"
  then show "rw_UnmarshalJSON (rw_MarshalJSON x) = Ok x"
    using ints_UnmarshalJSON_MarshalJSON [of "[''Ux'', ''Uy'', ''Z'', ''ZBar'', ''T'', ''V'', ''W'', ''S'', ''S1'', ''S2'', ''T1'', ''T2'']"
      "map the [rw_Ux x, rw_Uy x, rp_Z (rw_resp x), rp_ZBar (rw_resp x), rp_T (rw_resp x), rp_V (rw_resp x), rp_W (rw_resp x),
        rp_S (rw_resp x), rp_S1 (rw_resp x), rp_S2 (rw_resp x), rp_T1 (rw_resp x), rp_T2 (rw_resp x)]"]
    by (auto simp: codec_defs rw_whole_def rp_whole_def complete_Cons)
qed (simp_all add: codec_defs)

interpretation pk_wire: wire_codec pk_MarshalJSON pk_UnmarshalJSON pk_whole
proof
  fix pk :: PublicKey
  assume "pk_whole pk"
  then obtain l where "Atoi (pk_Length pk) = Ok l" "0 < l" unfolding pk_whole_def by (rule length_ok_cases)
  then show "pk_UnmarshalJSON (pk_MarshalJSON pk) = Ok pk"
    using json_Unmarshal_Marshal [of "[(''Length'', pk_Length pk), (''N'', show_int (pk_N pk)), (''G'', show_int (pk_G pk)),
       (''N2'', show_int (pk_N2 pk))]"]
    by (simp add: pk_UnmarshalJSON_def pk_MarshalJSON_def)
qed (simp add: pk_MarshalJSON_def)

interpretation sk_wire: wire_codec sk_MarshalJSON sk_UnmarshalJSON sk_whole
proof
  fix sk :: PrivateKey
  assume whole: "sk_whole sk"
  then obtain l where "Atoi (sk_Length sk) = Ok l" "0 < l" using length_ok_cases by (auto simp: sk_whole_def)
  then show "sk_UnmarshalJSON (sk_MarshalJSON sk) = Ok sk"
    using whole json_Unmarshal_Marshal [of "[(''Length'', sk_Length sk), (''PublicKey'', pk_MarshalJSON (sk_PublicKey sk)),
       (''L'', show_int (sk_L sk)), (''U'', show_int (sk_U sk))]"]
    by (simp add: sk_UnmarshalJSON_def sk_MarshalJSON_def sk_whole_def pk_wire.dec_enc)
qed (simp add: sk_MarshalJSON_def)

lemma sigma_of_Marshal: "complete ns \<Longrightarrow> sigma_of (json_Marshal [(''Y'', Join (map Sprintf_v ns) (CHR '':''))]) = Ok ns"
  using json_Unmarshal_Marshal [of "[(''Y'', Join (map Sprintf_v ns) (CHR '':''))]"] SetStrings_Split_Join [of ns "CHR '':''"]
  by (simp add: sigma_of_def)

interpretation sf_wire: wire_codec sf_MarshalJSON sf_UnmarshalJSON sf_whole
  by unfold_locales (simp_all add: sf_MarshalJSON_def sf_UnmarshalJSON_def sf_whole_def sigma_of_Marshal)

interpretation hv_wire: wire_codec hv_MarshalJSON hv_UnmarshalJSON hv_whole
  by unfold_locales (simp_all add: hv_MarshalJSON_def hv_UnmarshalJSON_def hv_whole_def sigma_of_Marshal)

text \<open>The loop of \<^verbatim>\<open>NtildeProof.MarshalJSON\<close> is \<^verbatim>\<open>strings.Join\<close>.\<close>

lemma bars_Join: "bars (k + length vs) k vs = Join vs (CHR ''|'')"
proof (induction vs arbitrary: k)
  case (Cons v vs)
  then show ?case using Cons.IH [of "Suc k"] by (cases vs) auto
qed simp

lemma np_list_bars:
  assumes "length ns = Iterations" "None \<notin> set ns"
  shows "np_list (bars Iterations 0 (map Sprintf_v ns)) e1 e2 = Ok ns"
proof -
  have ne: "ns \<noteq> []" using assms by (auto simp: Iterations_def)
  have "bars Iterations 0 (map Sprintf_v ns) = Join (map Sprintf_v ns) (CHR ''|'')"
    using bars_Join [of 0 "map Sprintf_v ns"] assms(1) by simp
  then show ?thesis using ne assms by (simp add: np_list_def Let_def Split_Sprintf_v SetStrings_Sprintf_v)
qed

interpretation np_wire: wire_codec np_MarshalJSON np_UnmarshalJSON np_whole
proof
  fix p :: NtildeProof
  assume "np_whole p"
  then show "np_UnmarshalJSON (np_MarshalJSON p) = Ok p"
    using json_Unmarshal_Marshal [of "[(''Alpha'', bars Iterations 0 (map Sprintf_v (np_Alpha p))),
      (''T'', bars Iterations 0 (map Sprintf_v (np_T p)))]"]
    by (simp add: np_whole_def np_UnmarshalJSON_def np_MarshalJSON_def np_list_bars)
qed (simp add: np_MarshalJSON_def Let_def)

end
