(* ===== verification/Wire.thy ===== *)
theory Wire
  imports Codec "HOL-Library.AList" "HOL-Library.List_Lexorder" "HOL-Library.Char_ord"
begin

text \<open>
  Messages between the nodes: \<^verbatim>\<open>OutMap\<close> turns a message into a \<^verbatim>\<open>map[string]string\<close>, \<^verbatim>\<open>ProcessOutCh\<close> of
  \<^verbatim>\<open>smpc/key_ec.go\<close> adds the session key, the sender and its signature and sends the map as a JSON text,
  and \<^verbatim>\<open>ProcessInboundMessages\<close> reads the text back into a map.  A map is an association list without
  repeated keys.
\<close>

section \<open>Maps of strings\<close>

type_synonym go_map = "(string \<times> string) list"

text \<open>\<^verbatim>\<open>m[k]\<close>: the empty string when the key is missing.\<close>

definition at :: "go_map \<Rightarrow> string \<Rightarrow> string" where
  "at m k = (case map_of m k of Some v \<Rightarrow> v | None \<Rightarrow> [])"

text \<open>\<^verbatim>\<open>json.Marshal\<close> of a map writes the keys in increasing order.\<close>

definition map_Marshal :: "go_map \<Rightarrow> string" where
  "map_Marshal m = json_Marshal (sort_key fst m)"

fun store_members :: "(string \<times> json) list \<Rightarrow> go_map \<Rightarrow> go_map option" where
  "store_members [] m = Some m"
| "store_members ((k, v) # ms) m =
     (case v of
        JString s \<Rightarrow> store_members ms (AList.update k s m)
      | JNull \<Rightarrow> store_members ms (AList.update k [] m)
      | _ \<Rightarrow> None)"

definition map_Unmarshal :: "string \<Rightarrow> go_map option" where
  "map_Unmarshal raw =
     (case json_read raw of
        Some (JObject ms) \<Rightarrow> store_members ms []
      | Some JNull \<Rightarrow> Some []
      | _ \<Rightarrow> None)"

lemma at_Cons [simp]: "at ((k, v) # m) x = (if x = k then v else at m x)"
  by (simp add: at_def)

lemma at_Nil [simp]: "at [] x = []"
  by (simp add: at_def)

lemma at_update [simp]: "at (AList.update k v m) x = (if x = k then v else at m x)"
  by (simp add: at_def update_conv')

lemma update_new: "k \<notin> fst ` set m \<Longrightarrow> AList.update k v m = m @ [(k, v)]"
  by (induction m) auto

lemma store_members_strings:
  "distinct (map fst (m @ fs)) \<Longrightarrow> store_members (map (\<lambda>(k, v). (k, JString v)) fs) m = Some (m @ fs)"
  by (induction fs arbitrary: m) (auto simp: update_new)

lemma json_Marshal_Nil: "json_read (json_Marshal []) = Some (JObject [])"
  by code_simp

lemma map_Unmarshal_Marshal:
  assumes "distinct (map fst m)"
  shows "map_Unmarshal (map_Marshal m) = Some (sort_key fst m)"
proof -
  have d: "distinct (map fst (sort_key fst m))" using assms by (simp add: distinct_map)
  have "json_read (json_Marshal (sort_key fst m)) = Some (JObject (map (\<lambda>(k, v). (k, JString v)) (sort_key fst m)))"
    using json_read_Marshal json_Marshal_Nil by (cases "sort_key fst m = []") auto
  then show ?thesis
    using store_members_strings [of "[]" "sort_key fst m"] d by (simp add: map_Unmarshal_def map_Marshal_def)
qed

lemma at_sort_key: "distinct (map fst m) \<Longrightarrow> at (sort_key fst m) k = at m k"
  using map_of_inject_set [of "sort_key fst m" m] by (simp add: at_def distinct_map)

section \<open>Sending and receiving\<close>

text \<open>
  The text \<^verbatim>\<open>ProcessOutCh\<close> sends for the map of a message; writing to a map that is \<^verbatim>\<open>nil\<close> panics.
\<close>

definition out_text :: "string \<Rightarrow> string \<Rightarrow> string \<Rightarrow> go_map option \<Rightarrow> string res" where
  "out_text key enode sig msgmap =
     (case msgmap of
        None \<Rightarrow> Panic ''assignment to entry in nil map''
      | Some m \<Rightarrow>
          Ok (map_Marshal (AList.update ''Sig'' sig (AList.update ''ENode'' enode (AList.update ''Key'' key m)))))"

definition envelope :: "string set" where
  "envelope = {''Key'', ''ENode'', ''Sig''}"

text \<open>The head of every message: the sender, its index, the receivers and the type.\<close>

definition head_map :: "string \<Rightarrow> int \<Rightarrow> string \<Rightarrow> string \<Rightarrow> go_map" where
  "head_map fid idx tos ty = [(''FromID'', fid), (''FromIndex'', show_int idx), (''ToID'', tos), (''Type'', ty)]"

definition receivers :: "go_map \<Rightarrow> string list" where
  "receivers m = (if at m ''ToID'' \<noteq> [] then Split (at m ''ToID'') (CHR '':'') else [])"

definition addressable :: "string list \<Rightarrow> bool" where
  "addressable ids = (\<forall>i \<in> set ids. i \<noteq> [] \<and> CHR '':'' \<notin> set i)"

definition index_ok :: "int \<Rightarrow> bool" where
  "index_ok n = (- (2 ^ 63) \<le> n \<and> n < 2 ^ 63)"

lemma head_map_at [simp]:
  "at (head_map fid idx tos ty @ m) ''FromID'' = fid" "at (head_map fid idx tos ty @ m) ''FromIndex'' = show_int idx"
  "at (head_map fid idx tos ty @ m) ''ToID'' = tos" "at (head_map fid idx tos ty @ m) ''Type'' = ty"
  by (simp_all add: head_map_def)

lemma at_head_map:
  "k \<notin> {''FromID'', ''FromIndex'', ''ToID'', ''Type''} \<Longrightarrow> at (head_map fid idx tos ty @ m) k = at m k"
  by (simp add: head_map_def)

lemma Join_ne: "addressable ids \<Longrightarrow> ids \<noteq> [] \<Longrightarrow> Join ids sep \<noteq> []"
  by (cases ids; cases "tl ids") (auto simp: addressable_def)

lemma receivers_Join: "addressable ids \<Longrightarrow> receivers (head_map fid idx (Join ids (CHR '':'')) ty @ m) = ids"
  using Join_ne [of ids "CHR '':''"] Split_Join [of ids "CHR '':''"]
  by (cases "ids = []") (auto simp: receivers_def addressable_def)

lemma receivers_broadcast [simp]: "receivers (head_map fid idx [] ty @ m) = []"
  by (simp add: receivers_def)

section \<open>Lists of numbers\<close>

definition join_ints :: "int option list \<Rightarrow> string" where
  "join_ints ns = Join (map Sprintf_v ns) (CHR '':'')"

definition join_rows :: "int option list list \<Rightarrow> string" where
  "join_rows nss = Join (map join_ints nss) (CHR ''|'')"

definition split_ints :: "string \<Rightarrow> int option list option" where
  "split_ints s = SetStrings (Split s (CHR '':''))"

definition split_rows :: "string \<Rightarrow> int option list list option" where
  "split_rows s = those (map split_ints (Split s (CHR ''|'')))"

fun parsed :: "'a res \<Rightarrow> ('a \<Rightarrow> 'b option) \<Rightarrow> 'b option" where
  "parsed (Ok a) f = f a"
| "parsed _ f = None"

definition rectangular :: "int option list list \<Rightarrow> bool" where
  "rectangular nss = (nss \<noteq> [] \<and> list_all complete nss)"

lemma join_ints_ne: "complete ns \<Longrightarrow> join_ints ns \<noteq> []"
  unfolding join_ints_def complete_def by (blast dest: Join_Sprintf_v_ne)

lemma split_join_ints: "complete ns \<Longrightarrow> split_ints (join_ints ns) = Some ns"
  by (simp add: split_ints_def join_ints_def SetStrings_Split_Join)

lemma set_Join: "c \<in> set (Join ss sep) \<Longrightarrow> c = sep \<or> (\<exists>s \<in> set ss. c \<in> set s)"
  by (induction ss sep rule: Join.induct) auto

lemma no_bar_join_ints: "CHR ''|'' \<notin> set (join_ints ns)"
  using set_Join [of "CHR ''|''" "map Sprintf_v ns" "CHR '':''"] set_Sprintf_v by (fastforce simp: join_ints_def)

lemma split_join_rows:
  assumes "rectangular nss"
  shows "split_rows (join_rows nss) = Some nss"
proof -
  have "Split (join_rows nss) (CHR ''|'') = map join_ints nss"
    unfolding join_rows_def using assms no_bar_join_ints by (intro Split_Join) (auto simp: rectangular_def)
  moreover have "map split_ints (map join_ints nss) = map Some nss"
    using assms by (auto simp: rectangular_def list_all_iff split_join_ints)
  ultimately show ?thesis by (simp add: split_rows_def those_map_Some del: map_map)
qed

lemma join_rows_ne:
  assumes "rectangular nss"
  shows "join_rows nss \<noteq> []"
proof -
  obtain ns mss where nss: "nss = ns # mss" "complete ns" using assms by (cases nss) (auto simp: rectangular_def)
  then show ?thesis using join_ints_ne [of ns] by (cases mss) (auto simp: join_rows_def)
qed

section \<open>The contract of a protocol\<close>

text \<open>What was sent is read back: the entries of the message and the three added ones.\<close>

lemma text_read_back:
  assumes "distinct (map fst m)"
  shows "\<exists>t m'. out_text key enode sig (Some m) = Ok t \<and> map_Unmarshal t = Some m' \<and> (\<forall>k. k \<notin> envelope \<longrightarrow> at m' k = at m k) \<and>
    at m' ''Key'' = key \<and> at m' ''ENode'' = enode \<and> at m' ''Sig'' = sig"
proof -
  let ?m = "AList.update ''Sig'' sig (AList.update ''ENode'' enode (AList.update ''Key'' key m))"
  have d: "distinct (map fst ?m)" using assms by (simp add: distinct_update)
  then show ?thesis
    by (intro exI [of _ "map_Marshal ?m"] exI [of _ "sort_key fst ?m"])
      (simp add: out_text_def map_Unmarshal_Marshal [OF d] at_sort_key [OF d] envelope_def)
qed

text \<open>
  The contract between the two ends of a protocol.  \<open>arrived x\<close> is what the receiver makes of the message
  \<open>x\<close>; it depends only on the entries of the message itself.
\<close>

locale message_wire =
  fixes out :: "'m \<Rightarrow> go_map option res" and recv :: "go_map option \<Rightarrow> 'm option"
    and whole :: "'m \<Rightarrow> bool" and arrived :: "'m \<Rightarrow> 'm"
  assumes out_recv: "whole x \<Longrightarrow>
      \<exists>m. out x = Ok (Some m) \<and> distinct (map fst m) \<and> fst ` set m \<inter> envelope = {} \<and> recv (Some m) = Some (arrived x)"
    and recv_cong: "(\<And>k. k \<notin> envelope \<Longrightarrow> at m k = at m' k) \<Longrightarrow> recv (Some m) = recv (Some m')"
begin

lemma transported:
  assumes "whole x"
  shows "\<exists>t m. bindr (out x) (out_text key enode sig) = Ok t \<and> map_Unmarshal t = Some m \<and>
    recv (Some m) = Some (arrived x) \<and> at m ''Key'' = key \<and> at m ''ENode'' = enode \<and> at m ''Sig'' = sig"
proof -
  obtain m where m: "out x = Ok (Some m)" "distinct (map fst m)" "recv (Some m) = Some (arrived x)"
    using out_recv [OF assms] by blast
  from text_read_back [OF m(2)] obtain t m' where
    t: "out_text key enode sig (Some m) = Ok t" "map_Unmarshal t = Some m'" "\<forall>k. k \<notin> envelope \<longrightarrow> at m' k = at m k"
      "at m' ''Key'' = key" "at m' ''ENode'' = enode" "at m' ''Sig'' = sig"
    by blast
  have "recv (Some m') = recv (Some m)" using t(3) by (intro recv_cong) blast
  with m t show ?thesis by auto
qed

end

end
