(* ===== verification/KgWire.thy ===== *)
theory KgWire
  imports Wire
begin

text \<open>
  The \<^verbatim>\<open>OutMap\<close> methods of \<^verbatim>\<open>smpc-lib/ecdsa/keygen/message.go\<close> and their counterpart \<^verbatim>\<open>GetRealMessage\<close> of
  \<^verbatim>\<open>smpc/key_ec.go\<close>.
\<close>

section \<open>From messages to maps\<close>

definition kg_head :: "KGRoundMessage \<Rightarrow> string \<Rightarrow> go_map" where
  "kg_head b ty = head_map (FromID b) (FromIndex b) [] ty"

definition kg_head_to :: "KGRoundMessage \<Rightarrow> string \<Rightarrow> go_map" where
  "kg_head_to b ty = head_map (FromID b) (FromIndex b) (Join (ToID b) (CHR '':'')) ty"

definition kg_out0 :: "KGRoundMessage \<Rightarrow> go_map option res" where
  "kg_out0 b =
     Ok (Some (kg_head b ''KGRound0Message''))"

definition kg_out1 :: "KGRoundMessage \<Rightarrow> int option \<Rightarrow> int option \<Rightarrow> PublicKey option \<Rightarrow> go_map option res" where
  "kg_out1 b c cb pk =
     bindr (deref pk) (\<lambda>pk.
       Ok (Some (kg_head b ''KGRound1Message'' @
         [(''ComC'', Sprintf_v c), (''ComC_bip32'', Sprintf_v cb), (''U1PaillierPk'', pk_MarshalJSON pk)])))"

definition kg_out2 :: "KGRoundMessage \<Rightarrow> int option \<Rightarrow> int option \<Rightarrow> go_map option res" where
  "kg_out2 b i sh =
     Ok (Some (kg_head_to b ''KGRound2Message'' @ [(''ID'', Sprintf_v i), (''Share'', Sprintf_v sh)]))"

definition kg_out2_1 :: "KGRoundMessage \<Rightarrow> int option \<Rightarrow> go_map option res" where
  "kg_out2_1 b c1 =
     Ok (Some (kg_head b ''KGRound2Message1'' @ [(''C1'', Sprintf_v c1)]))"

definition kg_out2_2 :: "KGRoundMessage \<Rightarrow> int option \<Rightarrow> SquareFreeProof option \<Rightarrow> go_map option res" where
  "kg_out2_2 b num sf =
     (case sf of
        None \<Rightarrow> Ok None
      | Some sf \<Rightarrow>
          Ok (Some (kg_head b ''KGRound2Message2'' @ [(''SfPf'', sf_MarshalJSON sf), (''Num'', Sprintf_v num)])))"

definition kg_out3 :: "KGRoundMessage \<Rightarrow> int option list \<Rightarrow> int option list \<Rightarrow> int option list list \<Rightarrow> go_map option res" where
  "kg_out3 b ugd ucd ugg =
     Ok (Some (kg_head b ''KGRound3Message'' @
       [(''ComU1GD'', join_ints ugd), (''ComC1GD'', join_ints ucd), (''U1PolyGG'', join_rows ugg)]))"

definition kg_out3_1 :: "KGRoundMessage \<Rightarrow> int option \<Rightarrow> go_map option res" where
  "kg_out3_1 b y =
     Ok (Some (kg_head_to b ''KGRound3Message1'' @ [(''Y'', Sprintf_v y)]))"

definition kg_out4 :: "KGRoundMessage \<Rightarrow> NtildeH1H2 option \<Rightarrow> NtildeProof option \<Rightarrow> NtildeProof option \<Rightarrow> int option \<Rightarrow> go_map option res" where
  "kg_out4 b nt pf1 pf2 c =
     bindr (deref nt) (\<lambda>nt. bindr (deref pf1) (\<lambda>pf1. bindr (deref pf2) (\<lambda>pf2.
       Ok (Some (kg_head b ''KGRound4Message'' @
         [(''U1NtildeH1H2'', nt_MarshalJSON nt), (''NtildeProof1'', np_MarshalJSON pf1), (''NtildeProof2'', np_MarshalJSON pf2),
          (''ComXiC'', Sprintf_v c)])))))"

definition kg_out5 :: "KGRoundMessage \<Rightarrow> int option list \<Rightarrow> go_map option res" where
  "kg_out5 b xgd =
     Ok (Some (kg_head b ''KGRound5Message'' @ [(''ComXiGD'', join_ints xgd)]))"

definition kg_out5_1 :: "KGRoundMessage \<Rightarrow> int option \<Rightarrow> HvProof option \<Rightarrow> go_map option res" where
  "kg_out5_1 b num hv =
     (case hv of
        None \<Rightarrow> Ok None
      | Some hv \<Rightarrow>
          Ok (Some (kg_head b ''KGRound5Message1'' @ [(''HvPf'', hv_MarshalJSON hv), (''Num'', Sprintf_v num)])))"

definition kg_out5_2 :: "KGRoundMessage \<Rightarrow> int option \<Rightarrow> SquareFreeProof option \<Rightarrow> go_map option res" where
  "kg_out5_2 b num sf =
     (case sf of
        None \<Rightarrow> Ok None
      | Some sf \<Rightarrow>
          Ok (Some (kg_head b ''KGRound5Message2'' @ [(''SfPf'', sf_MarshalJSON sf), (''Num'', Sprintf_v num)])))"

definition kg_out6 :: "KGRoundMessage \<Rightarrow> ZkXiProof option \<Rightarrow> bool \<Rightarrow> go_map option res" where
  "kg_out6 b zk ok =
     bindr (deref zk) (\<lambda>zk.
       Ok (Some (kg_head b ''KGRound6Message'' @
         [(''U1zkXiProof'', zkx_MarshalJSON zk), (''CheckPubkeyStatus'', if ok then ''true'' else ''false'')])))"

fun kg_OutMap :: "KGMessage \<Rightarrow> go_map option res" where
  "kg_OutMap (KGRound0Message b) = kg_out0 b"
| "kg_OutMap (KGRound1Message b c cb pk) = kg_out1 b c cb pk"
| "kg_OutMap (KGRound2Message b i sh) = kg_out2 b i sh"
| "kg_OutMap (KGRound2Message1 b c1) = kg_out2_1 b c1"
| "kg_OutMap (KGRound2Message2 b num sf) = kg_out2_2 b num sf"
| "kg_OutMap (KGRound3Message b ugd ucd ugg) = kg_out3 b ugd ucd ugg"
| "kg_OutMap (KGRound3Message1 b y) = kg_out3_1 b y"
| "kg_OutMap (KGRound4Message b nt pf1 pf2 c) = kg_out4 b nt pf1 pf2 c"
| "kg_OutMap (KGRound5Message b xgd) = kg_out5 b xgd"
| "kg_OutMap (KGRound5Message1 b num hv) = kg_out5_1 b num hv"
| "kg_OutMap (KGRound5Message2 b num sf) = kg_out5_2 b num sf"
| "kg_OutMap (KGRound6Message b zk ok) = kg_out6 b zk ok"

lemmas kg_outs [simp] = kg_out0_def kg_out1_def kg_out2_def kg_out2_1_def kg_out2_2_def kg_out3_def kg_out3_1_def kg_out4_def kg_out5_def kg_out5_1_def kg_out5_2_def kg_out6_def

section \<open>From maps to messages\<close>

text \<open>
  The blocks of \<^verbatim>\<open>GetRealMessage\<close>, one for each type.  A block returns a message (\<open>Some (Some _)\<close>), returns \<^verbatim>\<open>nil\<close>
  (\<open>Some None\<close>) or, when a proof or key cannot be read, falls through (\<open>None\<close>).
\<close>

definition get_kg1 :: "KGRoundMessage \<Rightarrow> go_map \<Rightarrow> KGMessage option option" where
  "get_kg1 b m =
     (if at m ''U1PaillierPk'' = [] then Some None
      else parsed (pk_UnmarshalJSON (at m ''U1PaillierPk'')) (\<lambda>pub.
        case (SetString10 (at m ''ComC''), SetString10 (at m ''ComC_bip32'')) of
          (Some c, Some cb) \<Rightarrow> Some (Some (KGRound1Message b (Some c) (Some cb) (Some pub)))
        | _ \<Rightarrow> Some None))"

definition get_kg2 :: "KGRoundMessage \<Rightarrow> go_map \<Rightarrow> KGMessage option option" where
  "get_kg2 b m =
     (case (SetString10 (at m ''ID''), SetString10 (at m ''Share'')) of
        (Some i, Some sh) \<Rightarrow> Some (Some (KGRound2Message b (Some i) (Some sh)))
      | _ \<Rightarrow> Some None)"

definition get_kg21 :: "KGRoundMessage \<Rightarrow> go_map \<Rightarrow> KGMessage option option" where
  "get_kg21 b m = Some (map_option (\<lambda>c. KGRound2Message1 b (Some c)) (SetString10 (at m ''C1'')))"

definition get_sf :: "(int option \<Rightarrow> SquareFreeProof option \<Rightarrow> KGMessage) \<Rightarrow> go_map \<Rightarrow> KGMessage option option" where
  "get_sf mk m =
     (if at m ''SfPf'' = [] \<or> at m ''Num'' = [] then Some None
      else parsed (sf_UnmarshalJSON (at m ''SfPf'')) (\<lambda>pf.
        Some (map_option (\<lambda>num. mk (Some num) (Some pf)) (SetString10 (at m ''Num'')))))"

definition get_kg3 :: "KGRoundMessage \<Rightarrow> go_map \<Rightarrow> KGMessage option option" where
  "get_kg3 b m =
     (if at m ''ComU1GD'' = [] \<or> at m ''ComC1GD'' = [] \<or> at m ''U1PolyGG'' = [] then Some None
      else
        (case (split_ints (at m ''ComU1GD''), split_ints (at m ''ComC1GD''), split_rows (at m ''U1PolyGG'')) of
           (Some ugd, Some ucd, Some ugg) \<Rightarrow> Some (Some (KGRound3Message b ugd ucd ugg))
         | _ \<Rightarrow> Some None))"

definition get_kg31 :: "KGRoundMessage \<Rightarrow> go_map \<Rightarrow> KGMessage option option" where
  "get_kg31 b m =
     (if at m ''Y'' = [] then Some None
      else Some (map_option (\<lambda>y. KGRound3Message1 b (Some y)) (SetString10 (at m ''Y''))))"

definition get_kg4 :: "KGRoundMessage \<Rightarrow> go_map \<Rightarrow> KGMessage option option" where
  "get_kg4 b m =
     (if at m ''U1NtildeH1H2'' = [] then Some None
      else parsed (nt_UnmarshalJSON (at m ''U1NtildeH1H2'')) (\<lambda>nti.
        if at m ''NtildeProof1'' = [] then Some None
        else parsed (np_UnmarshalJSON (at m ''NtildeProof1'')) (\<lambda>pf1.
          if at m ''NtildeProof2'' = [] then Some None
          else parsed (np_UnmarshalJSON (at m ''NtildeProof2'')) (\<lambda>pf2.
            if at m ''ComXiC'' = [] then Some None
            else Some (Some (KGRound4Message b (Some nti) (Some pf1) (Some pf2) (SetString10 (at m ''ComXiC''))))))))"

definition get_kg5 :: "KGRoundMessage \<Rightarrow> go_map \<Rightarrow> KGMessage option option" where
  "get_kg5 b m =
     (if at m ''ComXiGD'' = [] then Some None
      else Some (map_option (KGRound5Message b) (split_ints (at m ''ComXiGD''))))"

definition get_kg51 :: "KGRoundMessage \<Rightarrow> go_map \<Rightarrow> KGMessage option option" where
  "get_kg51 b m =
     (if at m ''HvPf'' = [] \<or> at m ''Num'' = [] then Some None
      else parsed (hv_UnmarshalJSON (at m ''HvPf'')) (\<lambda>pf.
        Some (map_option (\<lambda>num. KGRound5Message1 b (Some num) (Some pf)) (SetString10 (at m ''Num'')))))"

definition get_kg6 :: "KGRoundMessage \<Rightarrow> go_map \<Rightarrow> KGMessage option option" where
  "get_kg6 b m =
     (let ok = (at m ''CheckPubkeyStatus'' = ''true'')
      in if at m ''U1zkXiProof'' = [] then Some None
         else parsed (zkx_UnmarshalJSON (at m ''U1zkXiProof'')) (\<lambda>zk. Some (Some (KGRound6Message b (Some zk) ok))))"

definition get_kg :: "string \<Rightarrow> KGRoundMessage \<Rightarrow> go_map \<Rightarrow> KGMessage option option" where
  "get_kg ty b m =
     (if ty = ''KGRound1Message'' then get_kg1 b m
      else if ty = ''KGRound2Message'' then get_kg2 b m
      else if ty = ''KGRound2Message1'' then get_kg21 b m
      else if ty = ''KGRound2Message2'' then get_sf (KGRound2Message2 b) m
      else if ty = ''KGRound3Message'' then get_kg3 b m
      else if ty = ''KGRound3Message1'' then get_kg31 b m
      else if ty = ''KGRound4Message'' then get_kg4 b m
      else if ty = ''KGRound5Message'' then get_kg5 b m
      else if ty = ''KGRound5Message1'' then get_kg51 b m
      else if ty = ''KGRound5Message2'' then get_sf (KGRound5Message2 b) m
      else if ty = ''KGRound6Message'' then get_kg6 b m
      else None)"

text \<open>What no block returned becomes a message of round 0.\<close>

definition GetRealMessage :: "go_map option \<Rightarrow> KGMessage option" where
  "GetRealMessage msg =
     (case msg of
        None \<Rightarrow> None
      | Some m \<Rightarrow>
          let from = at m ''FromID''; to = receivers m
          in if from = [] then None
             else
               (case Atoi (at m ''FromIndex'') of
                  Ok index \<Rightarrow>
                    (case get_kg (at m ''Type'') \<lparr>FromID = from, FromIndex = index, ToID = to\<rparr> m of
                       Some r \<Rightarrow> r
                     | None \<Rightarrow> Some (KGRound0Message \<lparr>FromID = from, FromIndex = - 1, ToID = to\<rparr>))
                | _ \<Rightarrow> None))"

section \<open>Messages arrive\<close>

fun kg_rebase :: "(KGRoundMessage \<Rightarrow> KGRoundMessage) \<Rightarrow> KGMessage \<Rightarrow> KGMessage" where
  "kg_rebase f (KGRound0Message b) = KGRound0Message (f b)"
| "kg_rebase f (KGRound1Message b c cb pk) = KGRound1Message (f b) c cb pk"
| "kg_rebase f (KGRound2Message b i sh) = KGRound2Message (f b) i sh"
| "kg_rebase f (KGRound2Message1 b c) = KGRound2Message1 (f b) c"
| "kg_rebase f (KGRound2Message2 b num sf) = KGRound2Message2 (f b) num sf"
| "kg_rebase f (KGRound3Message b ugd ucd ugg) = KGRound3Message (f b) ugd ucd ugg"
| "kg_rebase f (KGRound3Message1 b y) = KGRound3Message1 (f b) y"
| "kg_rebase f (KGRound4Message b nt pf1 pf2 c) = KGRound4Message (f b) nt pf1 pf2 c"
| "kg_rebase f (KGRound5Message b xgd) = KGRound5Message (f b) xgd"
| "kg_rebase f (KGRound5Message1 b num hv) = KGRound5Message1 (f b) num hv"
| "kg_rebase f (KGRound5Message2 b num sf) = KGRound5Message2 (f b) num sf"
| "kg_rebase f (KGRound6Message b zk ok) = KGRound6Message (f b) zk ok"

text \<open>A broadcast message arrives without receivers, and one of round 0 with the index \<open>- 1\<close>.\<close>

definition kg_arrived :: "KGMessage \<Rightarrow> KGMessage" where
  "kg_arrived x =
     kg_rebase (\<lambda>b. b\<lparr>FromIndex := (if is_KGRound0Message x then - 1 else FromIndex b),
       ToID := (if IsBroadcast x then [] else ToID b)\<rparr>) x"

fun kg_fields_whole :: "KGMessage \<Rightarrow> bool" where
  "kg_fields_whole (KGRound0Message b) = True"
| "kg_fields_whole (KGRound1Message b c cb pk) = (complete [c, cb] \<and> pred_option pk_whole pk \<and> pk \<noteq> None)"
| "kg_fields_whole (KGRound2Message b i sh) = (complete [i, sh] \<and> addressable (ToID b))"
| "kg_fields_whole (KGRound2Message1 b c) = complete [c]"
| "kg_fields_whole (KGRound2Message2 b num sf) = (complete [num] \<and> pred_option sf_whole sf \<and> sf \<noteq> None)"
| "kg_fields_whole (KGRound3Message b ugd ucd ugg) = (complete ugd \<and> complete ucd \<and> rectangular ugg)"
| "kg_fields_whole (KGRound3Message1 b y) = (complete [y] \<and> addressable (ToID b))"
| "kg_fields_whole (KGRound4Message b nt pf1 pf2 c) =
     (nt \<noteq> None \<and> pred_option np_whole pf1 \<and> pf1 \<noteq> None \<and> pred_option np_whole pf2 \<and> pf2 \<noteq> None \<and> complete [c])"
| "kg_fields_whole (KGRound5Message b xgd) = complete xgd"
| "kg_fields_whole (KGRound5Message1 b num hv) = (complete [num] \<and> pred_option hv_whole hv \<and> hv \<noteq> None)"
| "kg_fields_whole (KGRound5Message2 b num sf) = (complete [num] \<and> pred_option sf_whole sf \<and> sf \<noteq> None)"
| "kg_fields_whole (KGRound6Message b zk ok) = (pred_option zkx_whole zk \<and> zk \<noteq> None)"

definition kg_whole :: "KGMessage \<Rightarrow> bool" where
  "kg_whole x = (GetFromID x \<noteq> [] \<and> index_ok (GetFromIndex x) \<and> kg_fields_whole x)"

lemmas get_kg_defs =
  get_kg1_def get_kg2_def get_kg21_def get_sf_def get_kg3_def get_kg31_def get_kg4_def get_kg5_def get_kg51_def get_kg6_def

lemma GetRealMessage_cong:
  assumes "\<And>k. k \<notin> envelope \<Longrightarrow> at m k = at m' k"
  shows "GetRealMessage (Some m) = GetRealMessage (Some m')"
  using assms by (simp add: GetRealMessage_def get_kg_def get_kg_defs receivers_def envelope_def Let_def
    cong: if_cong option.case_cong res.case_cong split del: if_split)

lemma kg_out_keys:
  "kg_OutMap x = Ok (Some m) \<Longrightarrow> distinct (map fst m) \<and> fst ` set m \<inter> envelope = {}"
  by (cases x) (auto simp: kg_head_def kg_head_to_def head_map_def envelope_def bindr_Ok_iff split: option.splits)

text \<open>The round trip of one message, given that of its block.\<close>

lemma kg_recv:
  assumes "FromID b \<noteq> []" "index_ok (FromIndex b)" "m = head_map (FromID b) (FromIndex b) tos ty @ fs"
    "get_kg ty (b\<lparr>ToID := receivers m\<rparr>) m = Some (Some y)"
  shows "GetRealMessage (Some m) = Some y"
  using assms Atoi_show_int [of "FromIndex b"] by (cases b) (simp add: GetRealMessage_def Let_def index_ok_def)

lemmas kg_recv_simps =
  kg_head_def kg_head_to_def kg_arrived_def at_head_map get_kg_def get_kg_defs receivers_Join complete_Cons
  pk_wire.dec_enc pk_wire.enc_ne nt_wire.dec_enc nt_wire.enc_ne np_wire.dec_enc np_wire.enc_ne sf_wire.dec_enc sf_wire.enc_ne
  hv_wire.dec_enc hv_wire.enc_ne zkx_wire.dec_enc zkx_wire.enc_ne split_join_ints split_join_rows join_ints_ne join_rows_ne

lemma kg_recv_block:
  assumes "kg_fields_whole x" "kg_OutMap x = Ok (Some m)" "\<not> is_KGRound0Message x"
  shows "get_kg (GetMsgType x) ((kg_base x)\<lparr>ToID := receivers m\<rparr>) m = Some (Some (kg_arrived x))"
  using assms by (cases x) (auto simp: kg_recv_simps)

lemma kg_out_map:
  assumes "kg_fields_whole x"
  obtains fs tos where "kg_OutMap x = Ok (Some (head_map (GetFromID x) (GetFromIndex x) tos (GetMsgType x) @ fs))"
  using assms by (cases x) (auto simp: kg_head_def kg_head_to_def GetFromID_def GetFromIndex_def)

lemma kg_out_recv:
  assumes "kg_whole x"
  shows "\<exists>m. kg_OutMap x = Ok (Some m) \<and> distinct (map fst m) \<and> fst ` set m \<inter> envelope = {} \<and>
    GetRealMessage (Some m) = Some (kg_arrived x)"
proof -
  from assms have w: "GetFromID x \<noteq> []" "index_ok (GetFromIndex x)" "kg_fields_whole x" by (simp_all add: kg_whole_def)
  from kg_out_map [OF w(3)] obtain fs tos where
    m: "kg_OutMap x = Ok (Some (head_map (GetFromID x) (GetFromIndex x) tos (GetMsgType x) @ fs))" .
  have "GetRealMessage (Some (head_map (GetFromID x) (GetFromIndex x) tos (GetMsgType x) @ fs)) = Some (kg_arrived x)"
  proof (cases "is_KGRound0Message x")
    case True
    then obtain b where x: "x = KGRound0Message b" by (cases x) auto
    then have "tos = []" using m by (simp add: kg_head_def head_map_def GetFromID_def GetFromIndex_def)
    then show ?thesis using w Atoi_show_int [of "FromIndex b"]
      by (cases b) (simp add: x GetRealMessage_def Let_def index_ok_def kg_arrived_def get_kg_def GetFromID_def GetFromIndex_def)
  next
    case False
    show ?thesis
      by (rule kg_recv [OF w(1,2) [unfolded GetFromID_def GetFromIndex_def] refl, folded GetFromID_def GetFromIndex_def])
        (rule kg_recv_block [OF w(3) m False])
  qed
  with m kg_out_keys [OF m] show ?thesis by blast
qed

interpretation kg_wire: message_wire kg_OutMap GetRealMessage kg_whole kg_arrived
proof
  show "kg_whole x \<Longrightarrow> \<exists>m. kg_OutMap x = Ok (Some m) \<and> distinct (map fst m) \<and> fst ` set m \<inter> envelope = {} \<and>
      GetRealMessage (Some m) = Some (kg_arrived x)" for x
    by (rule kg_out_recv)
  show "(\<And>k. k \<notin> envelope \<Longrightarrow> at m k = at m' k) \<Longrightarrow> GetRealMessage (Some m) = GetRealMessage (Some m')" for m m'
    by (rule GetRealMessage_cong)
qed

text \<open>C17: Key generation messages survive the wire: a message whose fields are all set, sent as
  \<^verbatim>\<open>ProcessOutCh\<close> does, is read by the receiver as the same message, with the session key, the sender and
  the signature that were put into the envelope.\<close>

theorem keygen_messages_arrive:
  assumes "kg_whole x"
  shows "\<exists>t m. bindr (kg_OutMap x) (out_text key enode sig) = Ok t \<and> map_Unmarshal t = Some m \<and>
    GetRealMessage (Some m) = Some (kg_arrived x) \<and> at m ''Key'' = key \<and> at m ''ENode'' = enode \<and> at m ''Sig'' = sig"
  by (rule kg_wire.transported [OF assms])

definition toy_share_message :: KGMessage where
  "toy_share_message = KGRound2Message \<lparr>FromID = ''31'', FromIndex = 0, ToID = [''32'', ''33'']\<rparr> (Some 2) (Some (- 7))"

lemma toy_share_whole: "kg_whole toy_share_message" "kg_arrived toy_share_message = toy_share_message"
  by (simp_all add: kg_whole_def toy_share_message_def complete_def addressable_def index_ok_def GetFromID_def GetFromIndex_def
      kg_arrived_def)

theorem keygen_messages_arrive_witness:
  "\<exists>t m. bindr (kg_OutMap toy_share_message) (out_text ''k'' ''e'' ''00'') = Ok t \<and> map_Unmarshal t = Some m \<and>
    GetRealMessage (Some m) = Some toy_share_message \<and> at m ''Key'' = ''k'' \<and> at m ''ENode'' = ''e'' \<and> at m ''Sig'' = ''00''"
  using keygen_messages_arrive [OF toy_share_whole(1), of "''k''" "''e''" "''00''"] unfolding toy_share_whole(2) .

text \<open>
  \<^verbatim>\<open>GetRealMessage\<close> does not report a part it cannot read: a round 2 message with an empty square-free proof is read as
  a message of round 0 from the same sender.  The signature of the sender covers the round 2 message, so the receiver
  still rejects it, but as a wrong signature.
\<close>

lemma unreadable_proof_becomes_round0:
  assumes "FromID b \<noteq> []" "index_ok (FromIndex b)"
  shows "\<exists>m. kg_OutMap (KGRound2Message2 b num (Some \<lparr>sf_Sigma = []\<rparr>)) = Ok (Some m) \<and>
    GetRealMessage (Some m) = Some (KGRound0Message (b\<lparr>FromIndex := - 1, ToID := []\<rparr>))"
proof -
  have "sigma_of (sf_MarshalJSON \<lparr>sf_Sigma = []\<rparr>) = Err ''get sigma fail''" by code_simp
  then have "sf_UnmarshalJSON (sf_MarshalJSON \<lparr>sf_Sigma = []\<rparr>) = Err ''get sigma fail''" by (simp add: sf_UnmarshalJSON_def)
  then show ?thesis using assms Atoi_show_int [of "FromIndex b"]
    by (cases b) (simp add: kg_head_def GetRealMessage_def Let_def index_ok_def get_kg_def get_sf_def at_head_map sf_wire.enc_ne)
qed

end
