(* ===== verification/SignWire.thy ===== *)
theory SignWire
  imports Wire
begin

text \<open>
  The \<^verbatim>\<open>OutMap\<close> methods of \<^verbatim>\<open>smpc-lib/ecdsa/signing/message.go\<close> and their counterpart \<^verbatim>\<open>SignGetRealMessage\<close> of
  \<^verbatim>\<open>smpc/sign_ec.go\<close>.
\<close>

section \<open>From messages to maps\<close>

definition sm_head :: "SignRoundMessage \<Rightarrow> string \<Rightarrow> go_map" where
  "sm_head b ty = head_map (sm_FromID b) (sm_FromIndex b) [] ty"

definition sm_head_to :: "SignRoundMessage \<Rightarrow> string \<Rightarrow> go_map" where
  "sm_head_to b ty = head_map (sm_FromID b) (sm_FromIndex b) (Join (sm_ToID b) (CHR '':'')) ty"

definition coord_x :: "point \<Rightarrow> string" where
  "coord_x p = Sprintf_v (map_option fst p)"

definition coord_y :: "point \<Rightarrow> string" where
  "coord_y p = Sprintf_v (map_option snd p)"

definition sign_out1 :: "SignRoundMessage \<Rightarrow> int option \<Rightarrow> int option \<Rightarrow> go_map option res" where
  "sign_out1 b c wic =
     Ok (Some (sm_head b ''SignRound1Message'' @ [(''C11'', Sprintf_v c), (''ComWiC'', Sprintf_v wic)]))"

definition sign_out2 :: "SignRoundMessage \<Rightarrow> MtARangeProof option \<Rightarrow> go_map option res" where
  "sign_out2 b pf =
     bindr (deref pf) (\<lambda>pf.
       Ok (Some (sm_head_to b ''SignRound2Message'' @ [(''U1u1MtAZK1Proof'', ra_MarshalJSON pf)])))"

definition sign_out3 :: "SignRoundMessage \<Rightarrow> int option \<Rightarrow> int option list \<Rightarrow> go_map option res" where
  "sign_out3 b kc wid =
     Ok (Some (sm_head b ''SignRound3Message'' @ [(''Kc'', Sprintf_v kc), (''ComWiD'', join_ints wid)]))"

definition sign_out4 :: "SignRoundMessage \<Rightarrow> int option \<Rightarrow> MtARespZKProof option \<Rightarrow> go_map option res" where
  "sign_out4 b c pf =
     bindr (deref pf) (\<lambda>pf.
       Ok (Some (sm_head_to b ''SignRound4Message'' @
         [(''U1u1MtAZK2Proof'', rp_MarshalJSON pf), (''U1KGamma1Cipher'', Sprintf_v c)])))"

definition sign_out4_1 :: "SignRoundMessage \<Rightarrow> int option \<Rightarrow> MtAwcRespZKProof option \<Rightarrow> go_map option res" where
  "sign_out4_1 b c pf =
     bindr (deref pf) (\<lambda>pf.
       Ok (Some (sm_head_to b ''SignRound4Message1'' @
         [(''U1u1MtAZK3Proof'', rw_MarshalJSON pf), (''U1Kw1Cipher'', Sprintf_v c)])))"

definition sign_out5 :: "SignRoundMessage \<Rightarrow> int option \<Rightarrow> point \<Rightarrow> TProof option \<Rightarrow> go_map option res" where
  "sign_out5 b delta t1 pf =
     bindr (deref pf) (\<lambda>pf.
       Ok (Some (sm_head b ''SignRound5Message'' @
         [(''Delta1'', Sprintf_v delta), (''T1X'', coord_x t1), (''T1Y'', coord_y t1), (''Tpf'', tp_MarshalJSON pf)])))"

definition sign_out6 :: "SignRoundMessage \<Rightarrow> int option list \<Rightarrow> ZkUProof option \<Rightarrow> go_map option res" where
  "sign_out6 b d pf =
     bindr (deref pf) (\<lambda>pf.
       Ok (Some (sm_head b ''SignRound6Message'' @ [(''U1GammaZKProof'', zku_MarshalJSON pf), (''CommU1D'', join_ints d)])))"

definition sign_out7 :: "SignRoundMessage \<Rightarrow> point \<Rightarrow> PDLwSlackProof option \<Rightarrow> go_map option res" where
  "sign_out7 b k1r pf =
     bindr (deref pf) (\<lambda>pf.
       Ok (Some (sm_head b ''SignRound7Message'' @
         [(''K1RX'', coord_x k1r), (''K1RY'', coord_y k1r), (''PdlwSlackPf'', pd_MarshalJSON pf)])))"

definition sign_out8 :: "SignRoundMessage \<Rightarrow> point \<Rightarrow> STProof option \<Rightarrow> go_map option res" where
  "sign_out8 b s1 pf =
     bindr (deref pf) (\<lambda>pf.
       Ok (Some (sm_head b ''SignRound8Message'' @
         [(''S1X'', coord_x s1), (''S1Y'', coord_y s1), (''STpf'', st_MarshalJSON pf)])))"

definition sign_out9 :: "SignRoundMessage \<Rightarrow> int option \<Rightarrow> go_map option res" where
  "sign_out9 b us1 =
     Ok (Some (sm_head b ''SignRound9Message'' @ [(''Us1'', Sprintf_v us1)]))"

fun sign_OutMap :: "SignMessage \<Rightarrow> go_map option res" where
  "sign_OutMap (SignRound1Message b c wic) = sign_out1 b c wic"
| "sign_OutMap (SignRound2Message b pf) = sign_out2 b pf"
| "sign_OutMap (SignRound3Message b kc wid) = sign_out3 b kc wid"
| "sign_OutMap (SignRound4Message b c pf) = sign_out4 b c pf"
| "sign_OutMap (SignRound4Message1 b c pf) = sign_out4_1 b c pf"
| "sign_OutMap (SignRound5Message b delta t1 pf) = sign_out5 b delta t1 pf"
| "sign_OutMap (SignRound6Message b d pf) = sign_out6 b d pf"
| "sign_OutMap (SignRound7Message b k1r pf) = sign_out7 b k1r pf"
| "sign_OutMap (SignRound8Message b s1 pf) = sign_out8 b s1 pf"
| "sign_OutMap (SignRound9Message b us1) = sign_out9 b us1"

lemmas sign_outs [simp] = sign_out1_def sign_out2_def sign_out3_def sign_out4_def sign_out4_1_def sign_out5_def sign_out6_def sign_out7_def sign_out8_def sign_out9_def

section \<open>From maps to messages\<close>

text \<open>The blocks of \<^verbatim>\<open>SignGetRealMessage\<close>, one for each type; unlike those of the key generation they never fall through.\<close>

definition some_at :: "go_map \<Rightarrow> string \<Rightarrow> int option" where
  "some_at m k = (if at m k = [] then None else SetString10 (at m k))"

definition point_at :: "go_map \<Rightarrow> string \<Rightarrow> string \<Rightarrow> (int \<times> int) option" where
  "point_at m kx ky =
     (case (some_at m kx, some_at m ky) of (Some x, Some y) \<Rightarrow> Some (x, y) | _ \<Rightarrow> None)"

definition ints_at :: "go_map \<Rightarrow> string \<Rightarrow> int option list option" where
  "ints_at m k = (if at m k = [] then None else split_ints (at m k))"

definition proof_at :: "(string \<Rightarrow> 'a res) \<Rightarrow> go_map \<Rightarrow> string \<Rightarrow> 'a option" where
  "proof_at dec m k = (if at m k = [] then None else parsed (dec (at m k)) Some)"

definition get_sign1 :: "SignRoundMessage \<Rightarrow> go_map \<Rightarrow> SignMessage option" where
  "get_sign1 b m =
     (case (some_at m ''C11'', some_at m ''ComWiC'') of
        (Some c, Some wic) \<Rightarrow> Some (SignRound1Message b (Some c) (Some wic))
      | _ \<Rightarrow> None)"

definition get_sign2 :: "SignRoundMessage \<Rightarrow> go_map \<Rightarrow> SignMessage option" where
  "get_sign2 b m = map_option (\<lambda>pf. SignRound2Message b (Some pf)) (proof_at ra_UnmarshalJSON m ''U1u1MtAZK1Proof'')"

definition get_sign3 :: "SignRoundMessage \<Rightarrow> go_map \<Rightarrow> SignMessage option" where
  "get_sign3 b m =
     (case (some_at m ''Kc'', ints_at m ''ComWiD'') of
        (Some kc, Some d) \<Rightarrow> Some (SignRound3Message b (Some kc) d)
      | _ \<Rightarrow> None)"

definition get_sign4 :: "SignRoundMessage \<Rightarrow> go_map \<Rightarrow> SignMessage option" where
  "get_sign4 b m =
     (case (proof_at rp_UnmarshalJSON m ''U1u1MtAZK2Proof'', some_at m ''U1KGamma1Cipher'') of
        (Some pf, Some c) \<Rightarrow> Some (SignRound4Message b (Some c) (Some pf))
      | _ \<Rightarrow> None)"

definition get_sign41 :: "SignRoundMessage \<Rightarrow> go_map \<Rightarrow> SignMessage option" where
  "get_sign41 b m =
     (case (proof_at rw_UnmarshalJSON m ''U1u1MtAZK3Proof'', some_at m ''U1Kw1Cipher'') of
        (Some pf, Some c) \<Rightarrow> Some (SignRound4Message1 b (Some c) (Some pf))
      | _ \<Rightarrow> None)"

definition get_sign5 :: "SignRoundMessage \<Rightarrow> go_map \<Rightarrow> SignMessage option" where
  "get_sign5 b m =
     (case (proof_at tp_UnmarshalJSON m ''Tpf'', some_at m ''Delta1'', point_at m ''T1X'' ''T1Y'') of
        (Some pf, Some delta, Some t1) \<Rightarrow> Some (SignRound5Message b (Some delta) (Some t1) (Some pf))
      | _ \<Rightarrow> None)"

definition get_sign6 :: "SignRoundMessage \<Rightarrow> go_map \<Rightarrow> SignMessage option" where
  "get_sign6 b m =
     (case (proof_at zku_UnmarshalJSON m ''U1GammaZKProof'', ints_at m ''CommU1D'') of
        (Some pf, Some d) \<Rightarrow> Some (SignRound6Message b d (Some pf))
      | _ \<Rightarrow> None)"

definition get_sign7 :: "SignRoundMessage \<Rightarrow> go_map \<Rightarrow> SignMessage option" where
  "get_sign7 b m =
     (case (proof_at pd_UnmarshalJSON m ''PdlwSlackPf'', point_at m ''K1RX'' ''K1RY'') of
        (Some pf, Some k1r) \<Rightarrow> Some (SignRound7Message b (Some k1r) (Some pf))
      | _ \<Rightarrow> None)"

definition get_sign8 :: "SignRoundMessage \<Rightarrow> go_map \<Rightarrow> SignMessage option" where
  "get_sign8 b m =
     (case (proof_at st_UnmarshalJSON m ''STpf'', point_at m ''S1X'' ''S1Y'') of
        (Some pf, Some s1) \<Rightarrow> Some (SignRound8Message b (Some s1) (Some pf))
      | _ \<Rightarrow> None)"

definition get_sign9 :: "SignRoundMessage \<Rightarrow> go_map \<Rightarrow> SignMessage option" where
  "get_sign9 b m = map_option (\<lambda>us1. SignRound9Message b (Some us1)) (some_at m ''Us1'')"

definition get_sign :: "string \<Rightarrow> SignRoundMessage \<Rightarrow> go_map \<Rightarrow> SignMessage option" where
  "get_sign ty b m =
     (if ty = ''SignRound1Message'' then get_sign1 b m
      else if ty = ''SignRound2Message'' then get_sign2 b m
      else if ty = ''SignRound3Message'' then get_sign3 b m
      else if ty = ''SignRound4Message'' then get_sign4 b m
      else if ty = ''SignRound4Message1'' then get_sign41 b m
      else if ty = ''SignRound5Message'' then get_sign5 b m
      else if ty = ''SignRound6Message'' then get_sign6 b m
      else if ty = ''SignRound7Message'' then get_sign7 b m
      else if ty = ''SignRound8Message'' then get_sign8 b m
      else if ty = ''SignRound9Message'' then get_sign9 b m
      else None)"

definition SignGetRealMessage :: "go_map option \<Rightarrow> SignMessage option" where
  "SignGetRealMessage msg =
     (case msg of
        None \<Rightarrow> None
      | Some m \<Rightarrow>
          let from = at m ''FromID''; to = receivers m
          in if from = [] then None
             else parsed (Atoi (at m ''FromIndex'')) (\<lambda>index.
               get_sign (at m ''Type'') \<lparr>sm_FromID = from, sm_FromIndex = index, sm_ToID = to\<rparr> m))"

section \<open>Messages arrive\<close>

fun sign_rebase :: "(SignRoundMessage \<Rightarrow> SignRoundMessage) \<Rightarrow> SignMessage \<Rightarrow> SignMessage" where
  "sign_rebase f (SignRound1Message b c wic) = SignRound1Message (f b) c wic"
| "sign_rebase f (SignRound2Message b pf) = SignRound2Message (f b) pf"
| "sign_rebase f (SignRound3Message b kc wid) = SignRound3Message (f b) kc wid"
| "sign_rebase f (SignRound4Message b c pf) = SignRound4Message (f b) c pf"
| "sign_rebase f (SignRound4Message1 b c pf) = SignRound4Message1 (f b) c pf"
| "sign_rebase f (SignRound5Message b delta t1 pf) = SignRound5Message (f b) delta t1 pf"
| "sign_rebase f (SignRound6Message b d pf) = SignRound6Message (f b) d pf"
| "sign_rebase f (SignRound7Message b k1r pf) = SignRound7Message (f b) k1r pf"
| "sign_rebase f (SignRound8Message b s1 pf) = SignRound8Message (f b) s1 pf"
| "sign_rebase f (SignRound9Message b us1) = SignRound9Message (f b) us1"

definition sign_arrived :: "SignMessage \<Rightarrow> SignMessage" where
  "sign_arrived x = sign_rebase (\<lambda>b. b\<lparr>sm_ToID := (if sm_IsBroadcast x then [] else sm_ToID b)\<rparr>) x"

fun sign_fields_whole :: "SignMessage \<Rightarrow> bool" where
  "sign_fields_whole (SignRound1Message b c wic) = complete [c, wic]"
| "sign_fields_whole (SignRound2Message b pf) = (pred_option ra_whole pf \<and> pf \<noteq> None \<and> addressable (sm_ToID b))"
| "sign_fields_whole (SignRound3Message b kc wid) = (complete [kc] \<and> complete wid)"
| "sign_fields_whole (SignRound4Message b c pf) =
     (complete [c] \<and> pred_option rp_whole pf \<and> pf \<noteq> None \<and> addressable (sm_ToID b))"
| "sign_fields_whole (SignRound4Message1 b c pf) =
     (complete [c] \<and> pred_option rw_whole pf \<and> pf \<noteq> None \<and> addressable (sm_ToID b))"
| "sign_fields_whole (SignRound5Message b delta t1 pf) = (complete [delta] \<and> t1 \<noteq> None \<and> pf \<noteq> None)"
| "sign_fields_whole (SignRound6Message b d pf) = (complete d \<and> pred_option zku_whole pf \<and> pf \<noteq> None)"
| "sign_fields_whole (SignRound7Message b k1r pf) = (k1r \<noteq> None \<and> pf \<noteq> None)"
| "sign_fields_whole (SignRound8Message b s1 pf) = (s1 \<noteq> None \<and> pf \<noteq> None)"
| "sign_fields_whole (SignRound9Message b us1) = complete [us1]"

definition sign_whole :: "SignMessage \<Rightarrow> bool" where
  "sign_whole x = (sm_GetFromID x \<noteq> [] \<and> index_ok (sm_GetFromIndex x) \<and> sign_fields_whole x)"

lemmas get_sign_defs =
  get_sign1_def get_sign2_def get_sign3_def get_sign4_def get_sign41_def get_sign5_def get_sign6_def get_sign7_def
  get_sign8_def get_sign9_def some_at_def point_at_def ints_at_def proof_at_def

lemma SignGetRealMessage_cong:
  assumes "\<And>k. k \<notin> envelope \<Longrightarrow> at m k = at m' k"
  shows "SignGetRealMessage (Some m) = SignGetRealMessage (Some m')"
  using assms by (simp add: SignGetRealMessage_def get_sign_def get_sign_defs receivers_def envelope_def Let_def
    cong: if_cong option.case_cong res.case_cong split del: if_split)

lemma sign_out_keys:
  "sign_OutMap x = Ok (Some m) \<Longrightarrow> distinct (map fst m) \<and> fst ` set m \<inter> envelope = {}"
  by (cases x) (auto simp: sm_head_def sm_head_to_def head_map_def envelope_def split: option.splits)

lemmas sign_recv_simps =
  sm_head_def sm_head_to_def sign_arrived_def at_head_map get_sign_def get_sign_defs receivers_Join complete_Cons
  ra_wire.dec_enc ra_wire.enc_ne rp_wire.dec_enc rp_wire.enc_ne rw_wire.dec_enc rw_wire.enc_ne tp_wire.dec_enc tp_wire.enc_ne
  zku_wire.dec_enc zku_wire.enc_ne pd_wire.dec_enc pd_wire.enc_ne st_wire.dec_enc st_wire.enc_ne split_join_ints join_ints_ne coord_x_def coord_y_def

lemma sign_recv_block:
  assumes "sign_fields_whole x" "sign_OutMap x = Ok (Some m)"
  shows "get_sign (sm_GetMsgType x) ((sm_base x)\<lparr>sm_ToID := receivers m\<rparr>) m = Some (sign_arrived x)"
  using assms by (cases x) (auto simp: sign_recv_simps)

lemma sign_out_map:
  assumes "sign_fields_whole x"
  obtains fs tos where
    "sign_OutMap x = Ok (Some (head_map (sm_GetFromID x) (sm_GetFromIndex x) tos (sm_GetMsgType x) @ fs))"
  using assms by (cases x) (auto simp: sm_head_def sm_head_to_def sm_GetFromID_def sm_GetFromIndex_def)

lemma sign_recv:
  assumes "sm_FromID b \<noteq> []" "index_ok (sm_FromIndex b)" "m = head_map (sm_FromID b) (sm_FromIndex b) tos ty @ fs"
    "get_sign ty (b\<lparr>sm_ToID := receivers m\<rparr>) m = Some y"
  shows "SignGetRealMessage (Some m) = Some y"
  using assms Atoi_show_int [of "sm_FromIndex b"] by (cases b) (simp add: SignGetRealMessage_def Let_def index_ok_def)

lemma sign_out_recv:
  assumes "sign_whole x"
  shows "\<exists>m. sign_OutMap x = Ok (Some m) \<and> distinct (map fst m) \<and> fst ` set m \<inter> envelope = {} \<and>
    SignGetRealMessage (Some m) = Some (sign_arrived x)"
proof -
  from assms have w: "sm_GetFromID x \<noteq> []" "index_ok (sm_GetFromIndex x)" "sign_fields_whole x"
    by (simp_all add: sign_whole_def)
  from sign_out_map [OF w(3)] obtain fs tos where
    m: "sign_OutMap x = Ok (Some (head_map (sm_GetFromID x) (sm_GetFromIndex x) tos (sm_GetMsgType x) @ fs))" .
  have "SignGetRealMessage (Some (head_map (sm_GetFromID x) (sm_GetFromIndex x) tos (sm_GetMsgType x) @ fs)) = Some (sign_arrived x)"
    by (rule sign_recv [OF w(1,2) [unfolded sm_GetFromID_def sm_GetFromIndex_def] refl, folded sm_GetFromID_def sm_GetFromIndex_def])
      (rule sign_recv_block [OF w(3) m])
  with m sign_out_keys [OF m] show ?thesis by blast
qed

interpretation sign_wire: message_wire sign_OutMap SignGetRealMessage sign_whole sign_arrived
proof
  show "sign_whole x \<Longrightarrow> \<exists>m. sign_OutMap x = Ok (Some m) \<and> distinct (map fst m) \<and> fst ` set m \<inter> envelope = {} \<and>
      SignGetRealMessage (Some m) = Some (sign_arrived x)" for x
    by (rule sign_out_recv)
  show "(\<And>k. k \<notin> envelope \<Longrightarrow> at m k = at m' k) \<Longrightarrow> SignGetRealMessage (Some m) = SignGetRealMessage (Some m')" for m m'
    by (rule SignGetRealMessage_cong)
qed

text \<open>C18: Signing messages survive the wire: a message whose fields are all set is read by the receiver as the same
  message, with the envelope it was sent with.\<close>

theorem sign_messages_arrive:
  assumes "sign_whole x"
  shows "\<exists>t m. bindr (sign_OutMap x) (out_text key enode sig) = Ok t \<and> map_Unmarshal t = Some m \<and>
    SignGetRealMessage (Some m) = Some (sign_arrived x) \<and> at m ''Key'' = key \<and> at m ''ENode'' = enode \<and> at m ''Sig'' = sig"
  by (rule sign_wire.transported [OF assms])

definition toy_range_message :: SignMessage where
  "toy_range_message = SignRound2Message \<lparr>sm_FromID = ''31'', sm_FromIndex = 0, sm_ToID = [''32'']\<rparr>
     (Some \<lparr>ra_Z = Some 1, ra_U = Some 2, ra_W = Some 3, ra_S = Some 4, ra_S1 = Some 5, ra_S2 = Some 6\<rparr>)"

lemma toy_range_whole: "sign_whole toy_range_message" "sign_arrived toy_range_message = toy_range_message"
  by (simp_all add: sign_whole_def toy_range_message_def complete_def addressable_def index_ok_def sm_GetFromID_def
      sm_GetFromIndex_def sign_arrived_def ra_whole_def)

theorem sign_messages_arrive_witness:
  "\<exists>t m. bindr (sign_OutMap toy_range_message) (out_text ''k'' ''e'' ''00'') = Ok t \<and> map_Unmarshal t = Some m \<and>
    SignGetRealMessage (Some m) = Some toy_range_message \<and> at m ''Key'' = ''k'' \<and> at m ''ENode'' = ''e'' \<and> at m ''Sig'' = ''00''"
  using sign_messages_arrive [OF toy_range_whole(1), of "''k''" "''e''" "''00''"] unfolding toy_range_whole(2) .

end
