(* ===== verification/ReshareWire.thy ===== *)
theory ReshareWire
  imports Wire Reshare
begin

text \<open>
  The \<^verbatim>\<open>OutMap\<close> methods of \<^verbatim>\<open>smpc-lib/ecdsa/reshare/message.go\<close> and their counterpart \<^verbatim>\<open>ReshareGetRealMessage\<close> of
  \<^verbatim>\<open>smpc/reshare.go\<close>.  The last message of the protocol carries the type of another one, see
  \<open>reshare_last_message_lost\<close>.
\<close>

section \<open>From messages to maps\<close>

definition rm_head :: "ReRoundMessage \<Rightarrow> string \<Rightarrow> go_map" where
  "rm_head b ty = head_map (rm_FromID b) (rm_FromIndex b) [] ty"

definition rm_head_to :: "ReRoundMessage \<Rightarrow> string \<Rightarrow> go_map" where
  "rm_head_to b ty = head_map (rm_FromID b) (rm_FromIndex b) (Join (rm_ToID b) (CHR '':'')) ty"

definition re_out0 :: "ReRoundMessage \<Rightarrow> go_map option res" where
  "re_out0 b =
     Ok (Some (rm_head b ''ReRound0Message''))"

definition re_out1 :: "ReRoundMessage \<Rightarrow> int option \<Rightarrow> go_map option res" where
  "re_out1 b c =
     Ok (Some (rm_head b ''ReRound1Message'' @ [(''ComC'', Sprintf_v c)]))"

definition re_out2 :: "ReRoundMessage \<Rightarrow> int option \<Rightarrow> int option \<Rightarrow> go_map option res" where
  "re_out2 b i sh =
     Ok (Some (rm_head_to b ''ReRound2Message'' @ [(''ID'', Sprintf_v i), (''Share'', Sprintf_v sh)]))"

definition re_out2_1 :: "ReRoundMessage \<Rightarrow> int option list \<Rightarrow> int option list list \<Rightarrow> go_map option res" where
  "re_out2_1 b d gg =
     Ok (Some (rm_head b ''ReRound2Message1'' @ [(''ComD'', join_ints d), (''SkP1PolyG'', join_rows gg)]))"

definition re_out3 :: "ReRoundMessage \<Rightarrow> PublicKey option \<Rightarrow> go_map option res" where
  "re_out3 b pk =
     bindr (deref pk) (\<lambda>pk. Ok (Some (rm_head b ''ReRound3Message'' @ [(''U1PaillierPk'', pk_MarshalJSON pk)])))"

definition re_out4 :: "ReRoundMessage \<Rightarrow> NtildeH1H2 option \<Rightarrow> NtildeProof option \<Rightarrow> NtildeProof option \<Rightarrow> go_map option res" where
  "re_out4 b nt pf1 pf2 =
     bindr (deref nt) (\<lambda>nt. bindr (deref pf1) (\<lambda>pf1. bindr (deref pf2) (\<lambda>pf2.
       Ok (Some (rm_head b ''ReRound4Message'' @
         [(''U1NtildeH1H2'', nt_MarshalJSON nt), (''NtildeProof1'', np_MarshalJSON pf1),
          (''NtildeProof2'', np_MarshalJSON pf2)])))))"

definition re_out5 :: "ReRoundMessage \<Rightarrow> string \<Rightarrow> go_map option res" where
  "re_out5 b ok =
     Ok (Some (rm_head b ''ReRound4Message'' @ [(''NewSkOk'', ok)]))"

fun re_OutMap :: "ReMessage \<Rightarrow> go_map option res" where
  "re_OutMap (ReRound0Message b) = re_out0 b"
| "re_OutMap (ReRound1Message b c) = re_out1 b c"
| "re_OutMap (ReRound2Message b i sh) = re_out2 b i sh"
| "re_OutMap (ReRound2Message1 b d gg) = re_out2_1 b d gg"
| "re_OutMap (ReRound3Message b pk) = re_out3 b pk"
| "re_OutMap (ReRound4Message b nt pf1 pf2) = re_out4 b nt pf1 pf2"
| "re_OutMap (ReRound5Message b ok) = re_out5 b ok"

lemmas re_outs [simp] = re_out0_def re_out1_def re_out2_def re_out2_1_def re_out3_def re_out4_def re_out5_def

section \<open>From maps to messages\<close>

text \<open>The blocks of \<^verbatim>\<open>ReshareGetRealMessage\<close>; \<open>None\<close> falls through.\<close>

definition get_re1 :: "ReRoundMessage \<Rightarrow> go_map \<Rightarrow> ReMessage option option" where
  "get_re1 b m =
     (if at m ''ComC'' = [] then Some None
      else Some (map_option (\<lambda>c. ReRound1Message b (Some c)) (SetString10 (at m ''ComC''))))"

definition get_re2 :: "ReRoundMessage \<Rightarrow> go_map \<Rightarrow> ReMessage option option" where
  "get_re2 b m =
     (if at m ''ID'' = [] \<or> at m ''Share'' = [] then Some None
      else Some (Some (ReRound2Message b (SetString10 (at m ''ID'')) (SetString10 (at m ''Share'')))))"

definition get_re21 :: "ReRoundMessage \<Rightarrow> go_map \<Rightarrow> ReMessage option option" where
  "get_re21 b m =
     (if at m ''ComD'' = [] \<or> at m ''SkP1PolyG'' = [] then Some None
      else
        (case (split_ints (at m ''ComD''), split_rows (at m ''SkP1PolyG'')) of
           (Some d, Some gg) \<Rightarrow> Some (Some (ReRound2Message1 b d gg))
         | _ \<Rightarrow> Some None))"

definition get_re3 :: "ReRoundMessage \<Rightarrow> go_map \<Rightarrow> ReMessage option option" where
  "get_re3 b m =
     (if at m ''U1PaillierPk'' = [] then Some None
      else parsed (pk_UnmarshalJSON (at m ''U1PaillierPk'')) (\<lambda>pub. Some (Some (ReRound3Message b (Some pub)))))"

definition get_re4 :: "ReRoundMessage \<Rightarrow> go_map \<Rightarrow> ReMessage option option" where
  "get_re4 b m =
     (if at m ''U1NtildeH1H2'' = [] \<or> at m ''NtildeProof1'' = [] \<or> at m ''NtildeProof2'' = [] then Some None
      else parsed (nt_UnmarshalJSON (at m ''U1NtildeH1H2'')) (\<lambda>nti.
        parsed (np_UnmarshalJSON (at m ''NtildeProof1'')) (\<lambda>pf1.
          parsed (np_UnmarshalJSON (at m ''NtildeProof2'')) (\<lambda>pf2.
            Some (Some (ReRound4Message b (Some nti) (Some pf1) (Some pf2)))))))"

definition get_re5 :: "ReRoundMessage \<Rightarrow> go_map \<Rightarrow> ReMessage option option" where
  "get_re5 b m = (if at m ''NewSkOk'' = [] then Some None else Some (Some (ReRound5Message b (at m ''NewSkOk''))))"

definition get_re :: "string \<Rightarrow> ReRoundMessage \<Rightarrow> go_map \<Rightarrow> ReMessage option option" where
  "get_re ty b m =
     (if ty = ''ReRound1Message'' then get_re1 b m
      else if ty = ''ReRound2Message'' then get_re2 b m
      else if ty = ''ReRound2Message1'' then get_re21 b m
      else if ty = ''ReRound3Message'' then get_re3 b m
      else if ty = ''ReRound4Message'' then get_re4 b m
      else if ty = ''ReRound5Message'' then get_re5 b m
      else None)"

definition ReshareGetRealMessage :: "go_map option \<Rightarrow> ReMessage option" where
  "ReshareGetRealMessage msg =
     (case msg of
        None \<Rightarrow> None
      | Some m \<Rightarrow>
          let from = at m ''FromID''; to = receivers m
          in if from = [] then None
             else
               (case Atoi (at m ''FromIndex'') of
                  Ok index \<Rightarrow>
                    (case get_re (at m ''Type'') \<lparr>rm_FromID = from, rm_FromIndex = index, rm_ToID = to\<rparr> m of
                       Some r \<Rightarrow> r
                     | None \<Rightarrow> Some (ReRound0Message \<lparr>rm_FromID = from, rm_FromIndex = - 1, rm_ToID = to\<rparr>))
                | _ \<Rightarrow> None))"

section \<open>Messages arrive\<close>

fun re_rebase :: "(ReRoundMessage \<Rightarrow> ReRoundMessage) \<Rightarrow> ReMessage \<Rightarrow> ReMessage" where
  "re_rebase f (ReRound0Message b) = ReRound0Message (f b)"
| "re_rebase f (ReRound1Message b c) = ReRound1Message (f b) c"
| "re_rebase f (ReRound2Message b i sh) = ReRound2Message (f b) i sh"
| "re_rebase f (ReRound2Message1 b d gg) = ReRound2Message1 (f b) d gg"
| "re_rebase f (ReRound3Message b pk) = ReRound3Message (f b) pk"
| "re_rebase f (ReRound4Message b nt pf1 pf2) = ReRound4Message (f b) nt pf1 pf2"
| "re_rebase f (ReRound5Message b ok) = ReRound5Message (f b) ok"

definition re_arrived :: "ReMessage \<Rightarrow> ReMessage" where
  "re_arrived x =
     re_rebase (\<lambda>b. b\<lparr>rm_FromIndex := (if is_ReRound0Message x then - 1 else rm_FromIndex b),
       rm_ToID := (if re_IsBroadcast x then [] else rm_ToID b)\<rparr>) x"

fun re_fields_whole :: "ReMessage \<Rightarrow> bool" where
  "re_fields_whole (ReRound0Message b) = True"
| "re_fields_whole (ReRound1Message b c) = complete [c]"
| "re_fields_whole (ReRound2Message b i sh) = (complete [i, sh] \<and> addressable (rm_ToID b))"
| "re_fields_whole (ReRound2Message1 b d gg) = (complete d \<and> rectangular gg)"
| "re_fields_whole (ReRound3Message b pk) = (pred_option pk_whole pk \<and> pk \<noteq> None)"
| "re_fields_whole (ReRound4Message b nt pf1 pf2) =
     (nt \<noteq> None \<and> pred_option np_whole pf1 \<and> pf1 \<noteq> None \<and> pred_option np_whole pf2 \<and> pf2 \<noteq> None)"
| "re_fields_whole (ReRound5Message b ok) = False"

definition re_whole :: "ReMessage \<Rightarrow> bool" where
  "re_whole x = (re_GetFromID x \<noteq> [] \<and> index_ok (re_GetFromIndex x) \<and> re_fields_whole x)"

lemmas get_re_defs = get_re1_def get_re2_def get_re21_def get_re3_def get_re4_def get_re5_def

lemma ReshareGetRealMessage_cong:
  assumes "\<And>k. k \<notin> envelope \<Longrightarrow> at m k = at m' k"
  shows "ReshareGetRealMessage (Some m) = ReshareGetRealMessage (Some m')"
  using assms by (simp add: ReshareGetRealMessage_def get_re_def get_re_defs receivers_def envelope_def Let_def
    cong: if_cong option.case_cong res.case_cong split del: if_split)

lemma re_out_keys:
  "re_OutMap x = Ok (Some m) \<Longrightarrow> distinct (map fst m) \<and> fst ` set m \<inter> envelope = {}"
  by (cases x) (auto simp: rm_head_def rm_head_to_def head_map_def envelope_def split: option.splits)

lemmas re_recv_simps =
  rm_head_def rm_head_to_def re_arrived_def at_head_map get_re_def get_re_defs receivers_Join complete_Cons
  pk_wire.dec_enc pk_wire.enc_ne nt_wire.dec_enc nt_wire.enc_ne np_wire.dec_enc np_wire.enc_ne
  split_join_ints split_join_rows join_ints_ne join_rows_ne

lemma re_recv_block:
  assumes "re_fields_whole x" "re_OutMap x = Ok (Some m)" "\<not> is_ReRound0Message x"
  shows "get_re (re_GetMsgType x) ((re_base x)\<lparr>rm_ToID := receivers m\<rparr>) m = Some (Some (re_arrived x))"
  using assms by (cases x) (auto simp: re_recv_simps)

lemma re_out_map:
  assumes "re_fields_whole x"
  obtains fs tos where
    "re_OutMap x = Ok (Some (head_map (re_GetFromID x) (re_GetFromIndex x) tos (re_GetMsgType x) @ fs))"
  using assms by (cases x) (auto simp: rm_head_def rm_head_to_def re_GetFromID_def re_GetFromIndex_def)

lemma re_recv:
  assumes "rm_FromID b \<noteq> []" "index_ok (rm_FromIndex b)" "m = head_map (rm_FromID b) (rm_FromIndex b) tos ty @ fs"
    "get_re ty (b\<lparr>rm_ToID := receivers m\<rparr>) m = Some r"
  shows "ReshareGetRealMessage (Some m) = r"
  using assms Atoi_show_int [of "rm_FromIndex b"] by (cases b) (simp add: ReshareGetRealMessage_def Let_def index_ok_def)

lemma re_out_recv:
  assumes "re_whole x"
  shows "\<exists>m. re_OutMap x = Ok (Some m) \<and> distinct (map fst m) \<and> fst ` set m \<inter> envelope = {} \<and>
    ReshareGetRealMessage (Some m) = Some (re_arrived x)"
proof -
  from assms have w: "re_GetFromID x \<noteq> []" "index_ok (re_GetFromIndex x)" "re_fields_whole x" by (simp_all add: re_whole_def)
  from re_out_map [OF w(3)] obtain fs tos where
    m: "re_OutMap x = Ok (Some (head_map (re_GetFromID x) (re_GetFromIndex x) tos (re_GetMsgType x) @ fs))" .
  have "ReshareGetRealMessage (Some (head_map (re_GetFromID x) (re_GetFromIndex x) tos (re_GetMsgType x) @ fs)) = Some (re_arrived x)"
  proof (cases "is_ReRound0Message x")
    case True
    then obtain b where x: "x = ReRound0Message b" by (cases x) auto
    then have "tos = []" using m by (simp add: rm_head_def head_map_def re_GetFromID_def re_GetFromIndex_def)
    then show ?thesis using w Atoi_show_int [of "rm_FromIndex b"]
      by (cases b) (simp add: x ReshareGetRealMessage_def Let_def index_ok_def re_arrived_def get_re_def re_GetFromID_def re_GetFromIndex_def)
  next
    case False
    show ?thesis
      by (rule re_recv [OF w(1,2) [unfolded re_GetFromID_def re_GetFromIndex_def] refl, folded re_GetFromID_def re_GetFromIndex_def])
        (rule re_recv_block [OF w(3) m False])
  qed
  with m re_out_keys [OF m] show ?thesis by blast
qed

interpretation re_wire: message_wire re_OutMap ReshareGetRealMessage re_whole re_arrived
proof
  show "re_whole x \<Longrightarrow> \<exists>m. re_OutMap x = Ok (Some m) \<and> distinct (map fst m) \<and> fst ` set m \<inter> envelope = {} \<and>
      ReshareGetRealMessage (Some m) = Some (re_arrived x)" for x
    by (rule re_out_recv)
  show "(\<And>k. k \<notin> envelope \<Longrightarrow> at m k = at m' k) \<Longrightarrow> ReshareGetRealMessage (Some m) = ReshareGetRealMessage (Some m')" for m m'
    by (rule ReshareGetRealMessage_cong)
qed

text \<open>The resharing messages of the rounds 0 to 4 survive the wire: a message whose fields are all set is read by the
  receiver as the same message, with the envelope it was sent with.\<close>

theorem reshare_messages_arrive:
  assumes "re_whole x"
  shows "\<exists>t m. bindr (re_OutMap x) (out_text key enode sig) = Ok t \<and> map_Unmarshal t = Some m \<and>
    ReshareGetRealMessage (Some m) = Some (re_arrived x) \<and> at m ''Key'' = key \<and> at m ''ENode'' = enode \<and> at m ''Sig'' = sig"
  by (rule re_wire.transported [OF assms])

definition toy_poly_message :: ReMessage where
  "toy_poly_message = ReRound2Message1 \<lparr>rm_FromID = ''31'', rm_FromIndex = 0, rm_ToID = []\<rparr> [Some 5, Some 1, Some 2]
     [[Some 1, Some 2], [Some 6, Some 3]]"

lemma toy_poly_whole: "re_whole toy_poly_message" "re_arrived toy_poly_message = toy_poly_message"
  by (simp_all add: re_whole_def toy_poly_message_def complete_def rectangular_def index_ok_def re_GetFromID_def
      re_GetFromIndex_def re_arrived_def)

theorem reshare_messages_arrive_witness:
  "\<exists>t m. bindr (re_OutMap toy_poly_message) (out_text ''k'' ''e'' ''00'') = Ok t \<and> map_Unmarshal t = Some m \<and>
    ReshareGetRealMessage (Some m) = Some toy_poly_message \<and> at m ''Key'' = ''k'' \<and> at m ''ENode'' = ''e'' \<and> at m ''Sig'' = ''00''"
  using reshare_messages_arrive [OF toy_poly_whole(1), of "''k''" "''e''" "''00''"] unfolding toy_poly_whole(2) .

text \<open>C19: The confirmation of round 5 never arrives.  Its map carries the type of round 4, so the receiver looks for the
  auxiliary modulus, does not find it and rejects the message, whatever its contents.\<close>

theorem reshare_last_message_lost:
  "\<exists>t m. bindr (re_OutMap (ReRound5Message b ok)) (out_text key enode sig) = Ok t \<and> map_Unmarshal t = Some m \<and>
    ReshareGetRealMessage (Some m) = None"
proof -
  let ?m = "rm_head b ''ReRound4Message'' @ [(''NewSkOk'', ok)]"
  have "distinct (map fst ?m)" by (simp add: rm_head_def head_map_def)
  from text_read_back [OF this] obtain t m where
    t: "out_text key enode sig (Some ?m) = Ok t" "map_Unmarshal t = Some m" "\<forall>k. k \<notin> envelope \<longrightarrow> at m k = at ?m k"
    by blast
  then have "ReshareGetRealMessage (Some m) = ReshareGetRealMessage (Some ?m)" by (intro ReshareGetRealMessage_cong) blast
  also have "\<dots> = None"
    by (simp add: rm_head_def ReshareGetRealMessage_def Let_def get_re_def get_re4_def at_head_map split: res.split)
  finally show ?thesis using t by auto
qed

end
