(* ===== verification/Inbound.thy ===== *)
theory Inbound
  imports KgWire SignWire ReshareWire ReshareRounds KeygenProps NodeUid
begin

text \<open>
  The service around the protocols: \<^verbatim>\<open>sigP2pMsg\<close> and \<^verbatim>\<open>checkP2pSig\<close> of \<^verbatim>\<open>smpc/msg.go\<close>, the senders
  \<^verbatim>\<open>ProcessOutCh\<close>, \<^verbatim>\<open>SignProcessOutCh\<close>, \<^verbatim>\<open>ReshareProcessOutCh\<close> and the receivers \<^verbatim>\<open>ProcessInboundMessages\<close>,
  \<^verbatim>\<open>SignProcessInboundMessages\<close>, \<^verbatim>\<open>ReshareProcessInboundMessages\<close>.  A receiver handles the texts of its channel one
  after the other; each is one call of the functions below.  \<open>Err\<close> says that the error was sent to the caller and
  the receiver has stopped.  What a node hands to the network is kept in the list \<open>w_sent\<close>.

  The signature scheme (a C library), the file of the node's key, the JSON text of a message structure, and the data
  base of keys are arguments.  \<^verbatim>\<open>strings.EqualFold\<close> is only called on hexadecimal texts here, so its model folds the
  letters of the ASCII alphabet.
\<close>

section \<open>Messages and workers\<close>

text \<open>The interface \<^verbatim>\<open>Message\<close>.\<close>

record 'm Message =
  mi_FromID :: "'m \<Rightarrow> string"
  mi_ToID :: "'m \<Rightarrow> string list"
  mi_IsBroadcast :: "'m \<Rightarrow> bool"
  mi_OutMap :: "'m \<Rightarrow> go_map option res"

definition kg_message :: "KGMessage Message" where
  "kg_message = \<lparr>mi_FromID = GetFromID, mi_ToID = GetToID, mi_IsBroadcast = IsBroadcast, mi_OutMap = kg_OutMap\<rparr>"

definition sm_GetToID :: "SignMessage \<Rightarrow> string list" where
  "sm_GetToID msg = sm_ToID (sm_base msg)"

definition sign_message :: "SignMessage Message" where
  "sign_message = \<lparr>mi_FromID = sm_GetFromID, mi_ToID = sm_GetToID, mi_IsBroadcast = sm_IsBroadcast, mi_OutMap = sign_OutMap\<rparr>"

definition re_message :: "ReMessage Message" where
  "re_message = \<lparr>mi_FromID = re_GetFromID, mi_ToID = re_GetToID, mi_IsBroadcast = re_IsBroadcast, mi_OutMap = re_OutMap\<rparr>"

record 'm SvcEnv = GroupEnv +
  se_curve :: Curve
  se_json :: "'m \<Rightarrow> byte list res"
  se_SigToPub :: "byte list \<Rightarrow> byte list \<Rightarrow> (int \<times> int) res"
  se_Sign :: "byte list \<Rightarrow> int \<Rightarrow> byte list res"
  se_KeyFile :: string
  se_LoadECDSA :: "string \<Rightarrow> int res"
  se_PubKeyGroup :: "byte list \<Rightarrow> string option"
  se_curEnode :: string

datatype sending = ToGroup (s_gid: string) (s_text: string) | ToPeer (s_node: string) (s_text: string)
  | ToPeerWithBrodcast (s_node: string) (s_gid: string) (s_text: string)

record 'd Worker =
  w_sid :: string
  w_groupid :: string
  w_SmpcFrom :: string
  w_Msg56 :: "string list"
  w_MsgToEnode :: go_map
  w_DNode :: "'d option"
  w_sent :: "sending list"

definition EqualFold :: "string \<Rightarrow> string \<Rightarrow> bool" where
  "EqualFold s t = (ToLower s = ToLower t)"

section \<open>Signatures\<close>

definition getNodePrivate :: "'m SvcEnv \<Rightarrow> string \<Rightarrow> int res" where
  "getNodePrivate env keyfile = (if keyfile = [] then Err ''key file is invalid'' else se_LoadECDSA env keyfile)"

definition getUnSignMsgByte :: "'m SvcEnv \<Rightarrow> 'm \<Rightarrow> byte list res" where
  "getUnSignMsgByte env msg = bindr (se_json env msg) (\<lambda>s. Ok (ge_keccak env s))"

text \<open>
  The name of the node that signed a hash: its public key in hexadecimal without the leading \<^verbatim>\<open>04\<close>.  When it is not
  the expected name the code still calls \<^verbatim>\<open>VerifySignature\<close>, but answers \<^verbatim>\<open>false\<close> whatever the result.
\<close>

definition signer_name :: "'m SvcEnv \<Rightarrow> int \<times> int \<Rightarrow> string" where
  "signer_name env pub = drop 2 (EncodeToString (Marshal (se_curve env) (fst pub) (snd pub)))"

definition checkP2pSig :: "'m SvcEnv \<Rightarrow> byte list \<Rightarrow> 'm \<Rightarrow> string \<Rightarrow> bool res" where
  "checkP2pSig env sig msg enodeID =
     (if enodeID = [] then Ok False
      else
        (case bindr (getUnSignMsgByte env msg) (\<lambda>hash. se_SigToPub env hash sig) of
           Ok pub \<Rightarrow> Ok (signer_name env pub = enodeID)
         | Err e \<Rightarrow> Ok False
         | Panic p \<Rightarrow> Panic p
         | Hang \<Rightarrow> Hang))"

definition sigP2pMsg :: "'m SvcEnv \<Rightarrow> 'm \<Rightarrow> string \<Rightarrow> byte list res" where
  "sigP2pMsg env msg enodeID =
     (if enodeID = [] then Err ''param error''
      else
        bindr (case getNodePrivate env (se_KeyFile env) of Err e \<Rightarrow> Err ''get private fail'' | r \<Rightarrow> r) (\<lambda>priv.
        bindr (getUnSignMsgByte env msg) (\<lambda>hash.
          if length hash \<noteq> 32 then Err ''hash len != 32''
          else
            bindr (se_Sign env hash priv) (\<lambda>sig.
            bindr (checkP2pSig env sig msg enodeID) (\<lambda>ok.
              if ok then Ok sig else Err ''check sig error'')))))"

section \<open>Sending\<close>

text \<open>The node of a group with a given name, as its address; nothing when there is none.\<close>

fun find_peer :: "'e GroupEnv_scheme \<Rightarrow> string \<Rightarrow> string list \<Rightarrow> string option" where
  "find_peer env enode [] = None"
| "find_peer env enode (node # nodes) =
     (if EqualFold enode (ge_ParseNode env node) then Some node else find_peer env enode nodes)"

definition peers :: "'e GroupEnv_scheme \<Rightarrow> string \<Rightarrow> go_map \<Rightarrow> string list \<Rightarrow> string list" where
  "peers env gid msgtoenode toids =
     concat (map (\<lambda>v. case find_peer env (at msgtoenode v) (SplitStr (ge_GetGroup env gid) Sep2) of
       Some node \<Rightarrow> [node] | None \<Rightarrow> []) toids)"

text \<open>The text of a message, and the sends for it.\<close>

definition signed_text :: "'m SvcEnv \<Rightarrow> 'm Message \<Rightarrow> string \<Rightarrow> 'm \<Rightarrow> string res" where
  "signed_text env M key msg =
     bindr (sigP2pMsg env msg (se_curEnode env)) (\<lambda>sig.
     bindr (mi_OutMap M msg) (out_text key (se_curEnode env) (EncodeToString sig)))"

definition ProcessOutCh :: "'m SvcEnv \<Rightarrow> 'm Message \<Rightarrow> 'm \<Rightarrow> 'd Worker \<Rightarrow> ('d Worker, unit) st" where
  "ProcessOutCh env M msg w =
     tryr (signed_text env M (w_sid w) msg) w (\<lambda>s.
       (w\<lparr>w_sent := w_sent w @
           (if mi_IsBroadcast M msg then [ToGroup (w_groupid w) s]
            else map (\<lambda>node. ToPeerWithBrodcast node (w_groupid w) s)
              (peers env (w_groupid w) (w_MsgToEnode w) (mi_ToID M msg)))\<rparr>, Ok ()))"

definition SignProcessOutCh :: "'m SvcEnv \<Rightarrow> 'm Message \<Rightarrow> go_map \<Rightarrow> 'm \<Rightarrow> string \<Rightarrow> 'd Worker \<Rightarrow> ('d Worker, unit) st" where
  "SignProcessOutCh env M msgtoenode msg gid w =
     (if w_sid w = [] then (w, Err ''smpc info error'')
      else tryr (signed_text env M (w_sid w) msg) w (\<lambda>s.
       let gid = (if gid = [] then w_groupid w else gid)
       in (w\<lparr>w_sent := w_sent w @
             (if mi_IsBroadcast M msg then [ToGroup gid s]
              else map (\<lambda>node. ToPeerWithBrodcast node gid s) (peers env gid msgtoenode (mi_ToID M msg)))\<rparr>, Ok ())))"

definition ReshareProcessOutCh :: "ReMessage SvcEnv \<Rightarrow> string \<Rightarrow> ReMessage \<Rightarrow> 'd Worker \<Rightarrow> ('d Worker, unit) st" where
  "ReshareProcessOutCh env gid msg w =
     (if gid = [] then (w, Err ''smpc info error'')
      else
        tryr (signed_text env re_message (w_sid w) msg) w (\<lambda>s.
          (w\<lparr>w_sent := w_sent w @
              (if re_IsBroadcast msg then [ToGroup gid s]
               else map (\<lambda>node. ToPeer node s) (peers env gid (w_MsgToEnode w) (re_GetToID msg)))\<rparr>, Ok ())))"

section \<open>Receiving\<close>

text \<open>
  The checks between reading a message and handing it to the node.  \<open>keygen_group\<close> is the group whose numbering the
  sender's identifier refers to, \<open>gid\<close> the group of the session.
\<close>

definition check_sender :: "string \<Rightarrow> 'm SvcEnv \<Rightarrow> 'm Message \<Rightarrow> string res \<Rightarrow> string \<Rightarrow> go_map \<Rightarrow> 'm \<Rightarrow> unit res" where
  "check_sender kt env M keygen_group gid msgmap mm =
     (if at msgmap ''Sig'' = [] then Err ''verify sig fail''
      else if at msgmap ''ENode'' = [] then Err ''verify sig fail''
      else
        bindr (DecodeString (at msgmap ''Sig'')) (\<lambda>sig.
        bindr (checkP2pSig env sig mm (at msgmap ''ENode'')) (\<lambda>ok.
          if \<not> ok then Err ''check msg sig fail''
          else
            bindr keygen_group (\<lambda>g.
            bindr (GetNodeUID env (at msgmap ''ENode'') kt g) (\<lambda>(_, UID).
              if \<not> EqualFold (EncodeToString (string_bytes (Sprintf_v UID))) (mi_FromID M mm) then Err ''check from ID fail''
              else if \<not> list_ex (\<lambda>n. EqualFold n (at msgmap ''ENode'')) (group_nodes env gid) then Err ''check msg sig fail''
              else Ok ())))))"

text \<open>The key generation group of the key that is used to sign or reshared.\<close>

definition key_group :: "'m SvcEnv \<Rightarrow> string \<Rightarrow> string res" where
  "key_group env SmpcFrom =
     bindr (DecodeString SmpcFrom) (\<lambda>pk.
       case se_PubKeyGroup env pk of
         None \<Rightarrow> Err ''get local save data fail''
       | Some g \<Rightarrow> if g = [] then Err ''get local save data fail'' else Ok g)"

definition msg_hash :: "'m SvcEnv \<Rightarrow> string \<Rightarrow> string" where
  "msg_hash env m = ''0x'' @ EncodeToString (ge_keccak env (string_bytes (ToLower m)))"

text \<open>\<^verbatim>\<open>DNode.Update\<close>; the fuel is enough, see \<open>deliveries_bounded\<close>.\<close>

definition deliver :: "nat \<Rightarrow> ('s, 'm) DNode \<Rightarrow> 's \<Rightarrow> 'm \<Rightarrow> ('s, bool) st" where
  "deliver fuel D s msg = (case BaseUpdate fuel D s msg of Some r \<Rightarrow> r | None \<Rightarrow> (s, Hang))"

definition handed :: "'m Message \<Rightarrow> string \<Rightarrow> string \<Rightarrow> 'm \<Rightarrow> ('d, bool) st \<Rightarrow> 'd Worker \<Rightarrow> ('d Worker, unit) st" where
  "handed M hexs m mm r w =
     (let w = w\<lparr>w_DNode := Some (fst r)\<rparr>
      in tryr (snd r) w (\<lambda>_.
           (w\<lparr>w_Msg56 := hexs # w_Msg56 w,
              w_sent := w_sent w @ (if mi_IsBroadcast M mm then [ToGroup (w_groupid w) m] else [])\<rparr>, Ok ())))"

text \<open>The network name of a sender is noted when its message of round 0 arrives.\<close>

definition note_enode :: "string \<Rightarrow> string \<Rightarrow> go_map \<Rightarrow> 'd Worker \<Rightarrow> 'd Worker" where
  "note_enode ty key msgmap w =
     (if at msgmap ''Type'' = ty then w\<lparr>w_MsgToEnode := AList.update key (at msgmap ''ENode'') (w_MsgToEnode w)\<rparr> else w)"

definition ProcessInboundMessage :: "KGMessage SvcEnv \<Rightarrow> KgEnv \<Rightarrow> string \<Rightarrow> LocalDNode Worker \<Rightarrow> (LocalDNode Worker, unit) st" where
  "ProcessInboundMessage env kenv m w =
     (case w_DNode w of
        None \<Rightarrow> (w, Err ''node data error'')
      | Some node \<Rightarrow>
          let hexs = msg_hash env m
          in if hexs \<in> set (w_Msg56 w) then (w, Ok ())
             else
               (case map_Unmarshal m of
                  None \<Rightarrow> (w, Err ''json'')
                | Some msgmap \<Rightarrow>
                    let w = note_enode ''KGRound0Message'' (at msgmap ''FromID'') msgmap w
                    in (case GetRealMessage (Some msgmap) of
                          None \<Rightarrow> (w, Err ''fail to process inbound messages'')
                        | Some mm \<Rightarrow>
                            tryr (check_sender ''EC256K1'' env kg_message (Ok (w_groupid w)) (w_groupid w) msgmap mm) w (\<lambda>_.
                              handed kg_message hexs m mm (deliver 9 (kg_node kenv) node mm) w))))"

definition SignProcessInboundMessage :: "SignMessage SvcEnv \<Rightarrow> SgEnv \<Rightarrow> string \<Rightarrow> SignDNode Worker \<Rightarrow> (SignDNode Worker, unit) st" where
  "SignProcessInboundMessage env senv m w =
     (let hexs = msg_hash env m
      in if hexs \<in> set (w_Msg56 w) then (w, Ok ())
         else
           (case map_Unmarshal m of
              None \<Rightarrow> (w, Err ''json'')
            | Some msgmap \<Rightarrow>
                (case SignGetRealMessage (Some msgmap) of
                   None \<Rightarrow> (w, Err ''fail to sign process inbound messages'')
                 | Some mm \<Rightarrow>
                     tryr (check_sender ''EC256K1'' env sign_message (key_group env (w_SmpcFrom w)) (w_groupid w) msgmap mm) w (\<lambda>_.
                       case w_DNode w of
                         None \<Rightarrow> (w, Panic ''nil pointer dereference'')
                       | Some node \<Rightarrow> handed sign_message hexs m mm (deliver 11 (sign_node senv) node mm) w))))"

text \<open>
  \<^verbatim>\<open>GetIDReshareByGroupID\<close>.  The loop over the map stops at the first entry with the name of the node; the order of
  the entries is that of the association list.  An identifier that is not a number is \<^verbatim>\<open>nil\<close>, and comparing it panics.
\<close>

fun find_key :: "string \<Rightarrow> go_map \<Rightarrow> string option" where
  "find_key node [] = None"
| "find_key node ((k, v) # m) = (if EqualFold v node then Some k else find_key node m)"

definition GetIDReshareByGroupID :: "'e GroupEnv_scheme \<Rightarrow> go_map \<Rightarrow> string \<Rightarrow> int list res" where
  "GetIDReshareByGroupID env msgtoenode gid =
     (if gid = [] then Ok []
      else
        bindr (mapM (\<lambda>key. deref (SetString10 key))
          (concat (map (\<lambda>n. case find_key n msgtoenode of Some k \<Rightarrow> [k] | None \<Rightarrow> []) (group_nodes env gid)))) (\<lambda>ids.
          Ok (sort ids)))"

definition ReshareProcessInboundMessage :: "ReMessage SvcEnv \<Rightarrow> KgEnv \<Rightarrow> string \<Rightarrow> ReDNode Worker \<Rightarrow> (ReDNode Worker, unit) st" where
  "ReshareProcessInboundMessage env kenv m w =
     (case map_Unmarshal m of
        None \<Rightarrow> (w, Err ''json'')
      | Some msgmap \<Rightarrow>
          let w = note_enode ''ReRound0Message'' (Sprintf_v (SetString10 (at msgmap ''FromID''))) msgmap w
          in (case ReshareGetRealMessage (Some msgmap) of
                None \<Rightarrow> (w, Err ''fail to process inbound messages'')
              | Some mm \<Rightarrow>
                  tryr (check_sender ''EC256K1'' env re_message (key_group env (w_SmpcFrom w)) (w_groupid w) msgmap mm) w (\<lambda>_.
                    case w_DNode w of
                      None \<Rightarrow> (w, Panic ''nil pointer dereference'')
                    | Some node \<Rightarrow>
                        (case CheckReshareMsg0 node mm of
                           (node, full) \<Rightarrow>
                             let w = w\<lparr>w_DNode := Some node\<rparr>
                             in tryr (if full then mapr (\<lambda>ids. SetIDReshare ids node)
                                        (GetIDReshareByGroupID env (w_MsgToEnode w) (w_groupid w)) else Ok node) w (\<lambda>node.
                                  (case deliver 8 (re_node kenv) node mm of
                                     (node, r) \<Rightarrow> tryr r (w\<lparr>w_DNode := Some node\<rparr>) (\<lambda>_. (w\<lparr>w_DNode := Some node\<rparr>, Ok ()))))))))"

section \<open>What a delivered message has passed\<close>

text \<open>
  What a receiver knows of a message \<open>mm\<close> it has read from the entries \<open>msgmap\<close> of a text: the signature in the text
  recovers, for the hash of the message, to the key of the node the text names; the number of this node in the group of
  the key is the identifier of the sender; and the node is a member of the group of the session.
\<close>

definition authentic :: "string \<Rightarrow> 'm SvcEnv \<Rightarrow> 'm Message \<Rightarrow> string \<Rightarrow> string \<Rightarrow> go_map \<Rightarrow> 'm \<Rightarrow> bool" where
  "authentic kt env M keygen_gid gid msgmap mm =
     ((\<exists>sig json pub. DecodeString (at msgmap ''Sig'') = Ok sig \<and> se_json env mm = Ok json \<and>
         se_SigToPub env (ge_keccak env json) sig = Ok pub \<and> signer_name env pub = at msgmap ''ENode'') \<and>
      (\<exists>k UID. GetNodeUID env (at msgmap ''ENode'') kt keygen_gid = Ok (k, UID) \<and>
         EqualFold (EncodeToString (string_bytes (Sprintf_v UID))) (mi_FromID M mm)) \<and>
      (\<exists>n \<in> set (group_nodes env gid). EqualFold n (at msgmap ''ENode'')))"

lemma checkP2pSig_True:
  "checkP2pSig env sig msg e = Ok True \<Longrightarrow>
   \<exists>json pub. se_json env msg = Ok json \<and> se_SigToPub env (ge_keccak env json) sig = Ok pub \<and> signer_name env pub = e"
  by (auto simp: checkP2pSig_def getUnSignMsgByte_def split: if_splits res.splits)

lemma check_sender_authentic:
  assumes "check_sender kt env M g gid msgmap mm = Ok ()"
  shows "\<exists>kgid. g = Ok kgid \<and> authentic kt env M kgid gid msgmap mm"
proof -
  obtain sig kgid k UID where c: "DecodeString (at msgmap ''Sig'') = Ok sig" "checkP2pSig env sig mm (at msgmap ''ENode'') = Ok True"
    "g = Ok kgid" "GetNodeUID env (at msgmap ''ENode'') kt kgid = Ok (k, UID)"
    "EqualFold (EncodeToString (string_bytes (Sprintf_v UID))) (mi_FromID M mm)"
    "list_ex (\<lambda>n. EqualFold n (at msgmap ''ENode'')) (group_nodes env gid)"
    using assms by (auto simp: check_sender_def split: if_splits)
  then show ?thesis using checkP2pSig_True [OF c(2)] by (auto simp: authentic_def list_ex_iff)
qed

lemma note_enode_simps [simp]:
  "w_DNode (note_enode ty key m w) = w_DNode w" "w_groupid (note_enode ty key m w) = w_groupid w"
  "w_Msg56 (note_enode ty key m w) = w_Msg56 w" "w_SmpcFrom (note_enode ty key m w) = w_SmpcFrom w"
  by (simp_all add: note_enode_def)

lemma handed_DNode: "w_DNode (fst (handed M h m mm r w)) = Some (fst r)"
  by (cases "snd r") (simp_all add: handed_def Let_def)

lemma handed_snd: "snd (handed M h m mm r w) = mapr (\<lambda>_. ()) (snd r)"
  by (cases "snd r") (simp_all add: handed_def Let_def)

lemma kg_inbound_checked:
  assumes "w_DNode (fst (ProcessInboundMessage env kenv t w)) \<noteq> w_DNode w"
  shows "\<exists>m mm node. map_Unmarshal t = Some m \<and> GetRealMessage (Some m) = Some mm \<and> msg_hash env t \<notin> set (w_Msg56 w) \<and>
    check_sender ''EC256K1'' env kg_message (Ok (w_groupid w)) (w_groupid w) m mm = Ok () \<and>
    w_DNode w = Some node \<and> w_DNode (fst (ProcessInboundMessage env kenv t w)) = Some (fst (deliver 9 (kg_node kenv) node mm))"
proof -
  obtain node where node: "w_DNode w = Some node"
    using assms by (cases "w_DNode w") (auto simp: ProcessInboundMessage_def)
  have new: "msg_hash env t \<notin> set (w_Msg56 w)"
    using assms by (auto simp: ProcessInboundMessage_def node Let_def)
  obtain m where m: "map_Unmarshal t = Some m"
    using assms new by (cases "map_Unmarshal t") (auto simp: ProcessInboundMessage_def node Let_def)
  obtain mm where mm: "GetRealMessage (Some m) = Some mm"
    using assms new m by (cases "GetRealMessage (Some m)") (auto simp: ProcessInboundMessage_def node Let_def)
  have ok: "check_sender ''EC256K1'' env kg_message (Ok (w_groupid w)) (w_groupid w) m mm = Ok ()"
    using assms new m mm by (cases "check_sender ''EC256K1'' env kg_message (Ok (w_groupid w)) (w_groupid w) m mm")
      (auto simp: ProcessInboundMessage_def node Let_def)
  have "w_DNode (fst (ProcessInboundMessage env kenv t w)) = Some (fst (deliver 9 (kg_node kenv) node mm))"
    using new m mm ok by (simp add: ProcessInboundMessage_def node Let_def handed_DNode)
  with node new m mm ok show ?thesis by blast
qed

lemma kg_inbound_authentic:
  assumes "w_DNode (fst (ProcessInboundMessage env kenv t w)) \<noteq> w_DNode w"
  shows "\<exists>m mm node. map_Unmarshal t = Some m \<and> GetRealMessage (Some m) = Some mm \<and> msg_hash env t \<notin> set (w_Msg56 w) \<and>
    authentic ''EC256K1'' env kg_message (w_groupid w) (w_groupid w) m mm \<and>
    w_DNode w = Some node \<and> w_DNode (fst (ProcessInboundMessage env kenv t w)) = Some (fst (deliver 9 (kg_node kenv) node mm))"
  using kg_inbound_checked [OF assms] check_sender_authentic by fastforce

lemma sign_inbound_authentic:
  assumes "w_DNode (fst (SignProcessInboundMessage env senv t w)) \<noteq> w_DNode w"
  shows "\<exists>m mm kgid node. map_Unmarshal t = Some m \<and> SignGetRealMessage (Some m) = Some mm \<and> msg_hash env t \<notin> set (w_Msg56 w) \<and>
    key_group env (w_SmpcFrom w) = Ok kgid \<and> authentic ''EC256K1'' env sign_message kgid (w_groupid w) m mm \<and>
    w_DNode w = Some node \<and> w_DNode (fst (SignProcessInboundMessage env senv t w)) = Some (fst (deliver 11 (sign_node senv) node mm))"
proof -
  have new: "msg_hash env t \<notin> set (w_Msg56 w)"
    using assms by (auto simp: SignProcessInboundMessage_def Let_def)
  obtain m where m: "map_Unmarshal t = Some m"
    using assms new by (cases "map_Unmarshal t") (auto simp: SignProcessInboundMessage_def Let_def)
  obtain mm where mm: "SignGetRealMessage (Some m) = Some mm"
    using assms new m by (cases "SignGetRealMessage (Some m)") (auto simp: SignProcessInboundMessage_def Let_def)
  have ok: "check_sender ''EC256K1'' env sign_message (key_group env (w_SmpcFrom w)) (w_groupid w) m mm = Ok ()"
    using assms new m mm by (cases "check_sender ''EC256K1'' env sign_message (key_group env (w_SmpcFrom w)) (w_groupid w) m mm")
      (auto simp: SignProcessInboundMessage_def Let_def)
  obtain node where node: "w_DNode w = Some node"
    using assms new m mm ok by (cases "w_DNode w") (auto simp: SignProcessInboundMessage_def Let_def)
  have "w_DNode (fst (SignProcessInboundMessage env senv t w)) = Some (fst (deliver 11 (sign_node senv) node mm))"
    using new m mm ok node by (simp add: SignProcessInboundMessage_def Let_def handed_DNode)
  with new m mm node check_sender_authentic [OF ok] show ?thesis by blast
qed

lemma reshare_inbound_authentic:
  assumes "w_DNode (fst (ReshareProcessInboundMessage env kenv t w)) \<noteq> w_DNode w"
  shows "\<exists>m mm kgid. map_Unmarshal t = Some m \<and> ReshareGetRealMessage (Some m) = Some mm \<and>
    key_group env (w_SmpcFrom w) = Ok kgid \<and> authentic ''EC256K1'' env re_message kgid (w_groupid w) m mm"
proof -
  obtain m where m: "map_Unmarshal t = Some m"
    using assms by (cases "map_Unmarshal t") (auto simp: ReshareProcessInboundMessage_def Let_def)
  obtain mm where mm: "ReshareGetRealMessage (Some m) = Some mm"
    using assms m by (cases "ReshareGetRealMessage (Some m)") (auto simp: ReshareProcessInboundMessage_def Let_def)
  have ok: "check_sender ''EC256K1'' env re_message (key_group env (w_SmpcFrom w)) (w_groupid w) m mm = Ok ()"
    using assms m mm by (cases "check_sender ''EC256K1'' env re_message (key_group env (w_SmpcFrom w)) (w_groupid w) m mm")
      (auto simp: ReshareProcessInboundMessage_def Let_def)
  with m mm check_sender_authentic [OF ok] show ?thesis by blast
qed

section \<open>No node speaks for another\<close>

lemma to_lower_hex_digit: "d < 16 \<Longrightarrow> to_lower_char (hex_digit d) = hex_digit d"
  by (auto simp: to_lower_char_def hex_digit_def Let_def)

lemma ToLower_EncodeToString [simp]: "ToLower (EncodeToString bs) = EncodeToString bs"
proof (induction bs)
  case (Cons b bs)
  have "unat b div 16 < 16" using unsigned_less [of b] by (intro less_mult_imp_div_less) simp
  then show ?case using Cons by (simp add: EncodeToString_def ToLower_def to_lower_hex_digit)
qed (simp add: EncodeToString_def ToLower_def)

lemma ToLower_signer_name [simp]: "ToLower (signer_name env pub) = signer_name env pub"
  using ToLower_EncodeToString [of "Marshal (se_curve env) (fst pub) (snd pub)"] by (simp add: signer_name_def ToLower_def drop_map [symmetric])

lemma authentic_member:
  assumes "authentic kt env M kgid gid m mm" "\<And>n. n \<in> set (group_nodes env gid) \<Longrightarrow> ToLower n = n"
  shows "at m ''ENode'' \<in> set (group_nodes env gid)"
proof -
  from assms(1) obtain pub n where "signer_name env pub = at m ''ENode''" "n \<in> set (group_nodes env gid)" "EqualFold n (at m ''ENode'')"
    by (auto simp: authentic_def)
  then show ?thesis using assms(2) [of n] ToLower_signer_name [of env pub] by (simp add: EqualFold_def)
qed

lemma authentic_uid:
  assumes "authentic kt env M kgid gid m mm" "well_named env kgid" "at m ''ENode'' \<in> set (group_nodes env kgid)" "kt \<noteq> []"
  shows "ToLower (mi_FromID M mm) = EncodeToString (string_bytes (show_int (uid_of env kt kgid (at m ''ENode''))))"
proof -
  let ?e = "at m ''ENode''"
  have "GetNodeUID env ?e kt kgid = Ok (uid_of env kt kgid ?e - 1, Some (uid_of env kt kgid ?e))"
    using assms by (intro GetNodeUID_Ok) (auto simp: well_named_def)
  then show ?thesis using assms(1) by (auto simp: authentic_def EqualFold_def)
qed

text \<open>C15: No node speaks for another.  When two messages with the same sender identifier pass the checks of the
  receivers of a session, for any of the protocols, the texts they came in name the same node, whose key signed both.  It
  is assumed that the hash separates the nodes of the key's group, that the nodes of the session are among them, and that
  node names are written in lower case.\<close>

theorem senders_are_bound:
  assumes "check_sender kt env M (Ok kgid) gid m1 x1 = Ok ()" "check_sender kt env M (Ok kgid) gid m2 x2 = Ok ()"
    and "EqualFold (mi_FromID M x1) (mi_FromID M x2)"
    and "well_named env kgid" "set (group_nodes env gid) \<subseteq> set (group_nodes env kgid)"
    and "inj_on (hash_of env kt) (set (group_nodes env kgid))" "\<forall>n \<in> set (group_nodes env gid). ToLower n = n" "kt \<noteq> []"
  shows "at m1 ''ENode'' = at m2 ''ENode'' \<and>
    (\<forall>(m, x) \<in> {(m1, x1), (m2, x2)}. \<exists>sig json pub. DecodeString (at m ''Sig'') = Ok sig \<and> se_json env x = Ok json \<and>
       se_SigToPub env (ge_keccak env json) sig = Ok pub \<and> signer_name env pub = at m1 ''ENode'')"
proof -
  let ?e1 = "at m1 ''ENode''" and ?e2 = "at m2 ''ENode''"
  have a: "authentic kt env M kgid gid m1 x1" "authentic kt env M kgid gid m2 x2"
    using assms(1,2) check_sender_authentic by fastforce+
  have "?e1 \<in> set (group_nodes env gid)" by (rule authentic_member [OF a(1)]) (use assms(7) in blast)
  moreover have "?e2 \<in> set (group_nodes env gid)" by (rule authentic_member [OF a(2)]) (use assms(7) in blast)
  ultimately have e: "?e1 \<in> set (group_nodes env kgid)" "?e2 \<in> set (group_nodes env kgid)" using assms(5) by auto
  have "ToLower (mi_FromID M x1) = ToLower (mi_FromID M x2)" using assms(3) by (simp add: EqualFold_def)
  then have "EncodeToString (string_bytes (show_int (uid_of env kt kgid ?e1))) =
      EncodeToString (string_bytes (show_int (uid_of env kt kgid ?e2)))"
    using authentic_uid [OF a(1) assms(4) e(1) assms(8)] authentic_uid [OF a(2) assms(4) e(2) assms(8)] by simp
  then have "string_bytes (show_int (uid_of env kt kgid ?e1)) = string_bytes (show_int (uid_of env kt kgid ?e2))"
    by (rule EncodeToString_inj)
  then have "uid_of env kt kgid ?e1 = uid_of env kt kgid ?e2"
    by (metis bytes_string_string_bytes show_int_inject)
  then have "?e1 = ?e2" using uid_of_inj [OF assms(6)] e by (auto dest: inj_onD)
  with a show ?thesis by (auto simp: authentic_def)
qed

section \<open>Honest messages are delivered\<close>

lemma EncodeToString_ne: "bs \<noteq> [] \<Longrightarrow> EncodeToString bs \<noteq> []"
  by (cases bs) (simp_all add: EncodeToString_def)

lemma sigP2pMsg_checks: "sigP2pMsg env x e = Ok sig \<Longrightarrow> checkP2pSig env sig x e = Ok True \<and> e \<noteq> []"
  by (auto simp: sigP2pMsg_def split: if_splits)

lemma check_sender_honest:
  assumes "sigP2pMsg env x e = Ok sig" "sig \<noteq> []" "at m ''Sig'' = EncodeToString sig" "at m ''ENode'' = e"
    "well_named env gid" "e \<in> set (group_nodes env gid)"
    "mi_FromID M x = EncodeToString (string_bytes (show_int (uid_of env kt gid e)))" "kt \<noteq> []"
  shows "check_sender kt env M (Ok gid) gid m x = Ok ()"
proof -
  have "GetNodeUID env e kt gid = Ok (uid_of env kt gid e - 1, Some (uid_of env kt gid e))"
    using assms(5,6,8) by (intro GetNodeUID_Ok) (auto simp: well_named_def)
  then show ?thesis
    using assms sigP2pMsg_checks [OF assms(1)] by (auto simp: check_sender_def EncodeToString_ne EqualFold_def list_ex_iff)
qed

lemma honest_delivered:
  assumes "kg_whole x" "kg_arrived x = x" "sigP2pMsg env x (se_curEnode env) = Ok sig" "sig \<noteq> []"
    "well_named env (w_groupid w)" "se_curEnode env \<in> set (group_nodes env (w_groupid w))"
    "GetFromID x = EncodeToString (string_bytes (show_int (uid_of env ''EC256K1'' (w_groupid w) (se_curEnode env))))"
    "w_DNode w = Some node"
  shows "\<exists>t. signed_text env kg_message key x = Ok t \<and>
    (msg_hash env t \<notin> set (w_Msg56 w) \<longrightarrow>
      w_DNode (fst (ProcessInboundMessage env kenv t w)) = Some (fst (deliver 9 (kg_node kenv) node x)) \<and>
      snd (ProcessInboundMessage env kenv t w) = mapr (\<lambda>_. ()) (snd (deliver 9 (kg_node kenv) node x)))"
proof -
  obtain t m where t: "bindr (kg_OutMap x) (out_text key (se_curEnode env) (EncodeToString sig)) = Ok t"
    "map_Unmarshal t = Some m" "GetRealMessage (Some m) = Some x" "at m ''ENode'' = se_curEnode env" "at m ''Sig'' = EncodeToString sig"
    using kg_wire.transported [OF assms(1)] assms(2) by metis
  have "check_sender ''EC256K1'' env kg_message (Ok (w_groupid w)) (w_groupid w) m x = Ok ()"
    using assms t by (intro check_sender_honest) (auto simp: kg_message_def)
  then have "msg_hash env t \<notin> set (w_Msg56 w) \<Longrightarrow> ProcessInboundMessage env kenv t w =
      handed kg_message (msg_hash env t) t x (deliver 9 (kg_node kenv) node x) (note_enode ''KGRound0Message'' (at m ''FromID'') m w)"
    using t assms(8) by (simp add: ProcessInboundMessage_def Let_def)
  moreover have "signed_text env kg_message key x = Ok t"
    using t(1) assms(3) by (simp add: signed_text_def kg_message_def)
  ultimately show ?thesis by (simp add: handed_DNode handed_snd)
qed

text \<open>C16: An honest key generation message is delivered.  A member of the group signs and sends a key generation message
  whose fields are all set, whose sender identifier is its number and which reads back as itself (\<open>kg_arrived\<close>: a
  round 0 message has the index -1, and a broadcast names no receivers); a node of the group that has not seen the text yet
  hands exactly this message to its key generation.\<close>

theorem honest_message_delivered:
  assumes "kg_whole x" "kg_arrived x = x" "sigP2pMsg env x (se_curEnode env) = Ok sig" "sig \<noteq> []"
    "well_named env (w_groupid w)" "se_curEnode env \<in> set (group_nodes env (w_groupid w))"
    "GetFromID x = EncodeToString (string_bytes (show_int (uid_of env ''EC256K1'' (w_groupid w) (se_curEnode env))))"
    "w_DNode w = Some node"
  shows "\<exists>t. signed_text env kg_message key x = Ok t \<and>
    (msg_hash env t \<notin> set (w_Msg56 w) \<longrightarrow>
      w_DNode (fst (ProcessInboundMessage env kenv t w)) = Some (fst (deliver 9 (kg_node kenv) node x)) \<and>
      snd (ProcessInboundMessage env kenv t w) = mapr (\<lambda>_. ()) (snd (deliver 9 (kg_node kenv) node x)))"
  by (rule honest_delivered [OF assms])

text \<open>
  Two nodes with the names \<^verbatim>\<open>0102\<close> and \<^verbatim>\<open>0304\<close>; the signature \<^verbatim>\<open>07\<close> is the second node's, all others are the first node's.
\<close>

definition toy_service :: "KGMessage SvcEnv" where
  "toy_service = \<lparr>ge_keccak = (\<lambda>bs. take 32 (bs @ replicate 32 0)), ge_sha3 = id, ge_GetGroup = (\<lambda>_. ''0102smpcmsg0304''),
     ge_ParseNode = id, se_curve = toy_curve, se_json = (\<lambda>x. Ok (string_bytes (GetFromID x))),
     se_SigToPub = (\<lambda>_ sig. Ok (if sig = [7] then (3, 4) else (1, 2))), se_Sign = (\<lambda>_ _. Ok [7]), se_KeyFile = ''key'',
     se_LoadECDSA = (\<lambda>_. Ok 5), se_PubKeyGroup = (\<lambda>_. None), se_curEnode = ''0304''\<rparr>"

definition toy_worker :: "LocalDNode Worker" where
  "toy_worker = \<lparr>w_sid = ''k'', w_groupid = ''g'', w_SmpcFrom = [], w_Msg56 = [], w_MsgToEnode = [], w_DNode = Some toy_start,
     w_sent = []\<rparr>"

definition toy_hello :: KGMessage where
  "toy_hello = KGRound0Message \<lparr>FromID = ''32'', FromIndex = - 1, ToID = []\<rparr>"

lemma toy_group: "group_nodes toy_service ''g'' = [''0102'', ''0304'']"
  by code_simp

lemma toy_names: "well_named toy_service ''g''" "inj_on (hash_of toy_service ''EC256K1'') (set (group_nodes toy_service ''g''))"
  "\<forall>n \<in> set (group_nodes toy_service ''g''). ToLower n = n"
proof -
  have "hash_of toy_service ''EC256K1'' ''0102'' \<noteq> hash_of toy_service ''EC256K1'' ''0304''" "ToLower ''0102'' = ''0102''" "ToLower ''0304'' = ''0304''"
    by code_simp+
  then show "inj_on (hash_of toy_service ''EC256K1'') (set (group_nodes toy_service ''g''))"
    "\<forall>n \<in> set (group_nodes toy_service ''g''). ToLower n = n" by (simp_all add: toy_group)
  show "well_named toy_service ''g''" by (simp add: well_named_def toy_group)
qed

lemma toy_service_facts:
  "kg_whole toy_hello" "kg_arrived toy_hello = toy_hello" "sigP2pMsg toy_service toy_hello (se_curEnode toy_service) = Ok [7]"
  "well_named toy_service (w_groupid toy_worker)"
  "se_curEnode toy_service \<in> set (group_nodes toy_service (w_groupid toy_worker))"
  "GetFromID toy_hello = EncodeToString (string_bytes (show_int (uid_of toy_service ''EC256K1'' (w_groupid toy_worker) (se_curEnode toy_service))))"
proof -
  show "kg_whole toy_hello" "kg_arrived toy_hello = toy_hello"
    by (simp_all add: kg_whole_def toy_hello_def GetFromID_def GetFromIndex_def index_ok_def kg_arrived_def)
  show "sigP2pMsg toy_service toy_hello (se_curEnode toy_service) = Ok [7]" by code_simp
  have w: "w_groupid toy_worker = ''g''" "se_curEnode toy_service = ''0304''" by (simp_all add: toy_worker_def toy_service_def)
  show "well_named toy_service (w_groupid toy_worker)"
    "se_curEnode toy_service \<in> set (group_nodes toy_service (w_groupid toy_worker))" using toy_names(1) by (simp_all add: w toy_group)
  have "GetFromID toy_hello = EncodeToString (string_bytes (show_int (uid_of toy_service ''EC256K1'' ''g'' ''0304'')))" by code_simp
  then show "GetFromID toy_hello =
      EncodeToString (string_bytes (show_int (uid_of toy_service ''EC256K1'' (w_groupid toy_worker) (se_curEnode toy_service))))"
    by (simp only: w)
qed

theorem honest_message_delivered_witness:
  "\<exists>t. signed_text toy_service kg_message ''k'' toy_hello = Ok t \<and>
    w_DNode (fst (ProcessInboundMessage toy_service toy_env t toy_worker)) = Some (fst (deliver 9 (kg_node toy_env) toy_start toy_hello)) \<and>
    snd (ProcessInboundMessage toy_service toy_env t toy_worker) = mapr (\<lambda>_. ()) (snd (deliver 9 (kg_node toy_env) toy_start toy_hello))"
  using honest_message_delivered [OF toy_service_facts(1-3) _ toy_service_facts(4-6), of toy_start "''k''" toy_env]
  by (simp add: toy_worker_def)

text \<open>Two messages of the second node pass the checks; a message in its name signed by the first node does not.\<close>

theorem senders_are_bound_witness:
  "check_sender ''EC256K1'' toy_service kg_message (Ok ''g'') ''g'' [(''Sig'', ''07''), (''ENode'', ''0304'')] toy_hello = Ok () \<and>
   check_sender ''EC256K1'' toy_service kg_message (Ok ''g'') ''g'' [(''Sig'', ''07''), (''ENode'', ''0304'')]
     (KGRound2Message1 (kg_base toy_hello) (Some 5)) = Ok () \<and>
   check_sender ''EC256K1'' toy_service kg_message (Ok ''g'') ''g'' [(''Sig'', ''01''), (''ENode'', ''0102'')] toy_hello \<noteq> Ok ()"
proof -
  let ?check = "check_sender ''EC256K1'' toy_service kg_message (Ok ''g'') ''g''"
  have a: "?check [(''Sig'', ''07''), (''ENode'', ''0304'')] toy_hello = Ok ()"
    "?check [(''Sig'', ''07''), (''ENode'', ''0304'')] (KGRound2Message1 (kg_base toy_hello) (Some 5)) = Ok ()" by code_simp+
  have "?check [(''Sig'', ''01''), (''ENode'', ''0102'')] toy_hello \<noteq> Ok ()"
  proof
    assume b: "?check [(''Sig'', ''01''), (''ENode'', ''0102'')] toy_hello = Ok ()"
    show False using senders_are_bound [OF a(1) b _ toy_names(1) _ toy_names(2,3)] by (simp add: EqualFold_def)
  qed
  with a show ?thesis by blast
qed

section \<open>Repetition\<close>

text \<open>A text that was handled is ignored from then on, also when it is repeated in other letter case.\<close>

lemma handed_Ok: "snd (handed M h m mm r w) = Ok () \<Longrightarrow> h \<in> set (w_Msg56 (fst (handed M h m mm r w)))"
  by (cases "snd r") (simp_all add: handed_def Let_def)

lemma tryr_snd_Ok: "snd (tryr r s k) = Ok b \<longleftrightarrow> (\<exists>a. r = Ok a \<and> snd (k a) = Ok b)"
  by (cases r) auto

lemma inbound_once:
  assumes "snd (ProcessInboundMessage env kenv t w) = Ok ()" "ToLower t' = ToLower t"
  shows "ProcessInboundMessage env kenv t' (fst (ProcessInboundMessage env kenv t w)) = (fst (ProcessInboundMessage env kenv t w), Ok ())"
proof -
  let ?w = "fst (ProcessInboundMessage env kenv t w)"
  have "msg_hash env t \<in> set (w_Msg56 ?w)"
    using assms(1)
    by (auto simp: ProcessInboundMessage_def Let_def tryr_snd_Ok intro!: handed_Ok split: option.splits if_splits)
  moreover have "w_DNode ?w \<noteq> None"
    using assms(1) kg_inbound_checked [of env kenv t w] by (cases "w_DNode w") (auto simp: ProcessInboundMessage_def)
  ultimately show ?thesis using assms(2) by (auto simp: ProcessInboundMessage_def Let_def msg_hash_def)
qed

section \<open>Replay\<close>

lemma distinct_store_members: "store_members ms m = Some m' \<Longrightarrow> distinct (map fst m) \<Longrightarrow> distinct (map fst m')"
  by (induction ms m rule: store_members.induct) (auto simp: distinct_update split: json.splits)

lemma distinct_map_Unmarshal: "map_Unmarshal t = Some m \<Longrightarrow> distinct (map fst m)"
  using distinct_store_members by (fastforce simp: map_Unmarshal_def split: option.splits json.splits)

lemma check_sender_cong:
  assumes "\<And>k. k \<noteq> ''Key'' \<Longrightarrow> at m' k = at m k"
  shows "check_sender kt env M g gid m' mm = check_sender kt env M g gid m mm"
proof -
  have "at m' ''Sig'' = at m ''Sig''" "at m' ''ENode'' = at m ''ENode''" using assms by simp_all
  then show ?thesis unfolding check_sender_def by (simp only:)
qed

text \<open>C24: The signature does not cover the session.  A text that a session of a key generation has accepted can be
  replayed: written with any other session key, it is a new text, and another session of the same group that has not
  seen this text hands the same message to its own node.\<close>

theorem session_not_signed:
  assumes "map_Unmarshal t = Some m" "w_DNode (fst (ProcessInboundMessage env kenv t w)) \<noteq> w_DNode w"
    and "t' = map_Marshal (AList.update ''Key'' key m)" "msg_hash env t' \<notin> set (w_Msg56 w')"
    and "w_groupid w' = w_groupid w" "w_DNode w' = Some node'"
  shows "\<exists>node mm m'. w_DNode w = Some node \<and>
    w_DNode (fst (ProcessInboundMessage env kenv t w)) = Some (fst (deliver 9 (kg_node kenv) node mm)) \<and>
    w_DNode (fst (ProcessInboundMessage env kenv' t' w')) = Some (fst (deliver 9 (kg_node kenv') node' mm)) \<and>
    map_Unmarshal t' = Some m' \<and> at m' ''Key'' = key"
proof -
  let ?u = "AList.update ''Key'' key m"
  obtain mm node where mm: "GetRealMessage (Some m) = Some mm" "w_DNode w = Some node"
      "check_sender ''EC256K1'' env kg_message (Ok (w_groupid w)) (w_groupid w) m mm = Ok ()"
      "w_DNode (fst (ProcessInboundMessage env kenv t w)) = Some (fst (deliver 9 (kg_node kenv) node mm))"
    using kg_inbound_checked [OF assms(2)] assms(1) by auto
  have d: "distinct (map fst ?u)" using distinct_map_Unmarshal [OF assms(1)] by (simp add: distinct_update)
  then have m': "map_Unmarshal t' = Some (sort_key fst ?u)" "at (sort_key fst ?u) k = (if k = ''Key'' then key else at m k)" for k
    by (simp_all add: assms(3) map_Unmarshal_Marshal at_sort_key)
  have real: "GetRealMessage (Some (sort_key fst ?u)) = Some mm"
    using GetRealMessage_cong [of "sort_key fst ?u" m] mm(1) m'(2) by (simp add: envelope_def)
  have "check_sender ''EC256K1'' env kg_message (Ok (w_groupid w')) (w_groupid w') (sort_key fst ?u) mm = Ok ()"
    unfolding assms(5) by (rule trans [OF check_sender_cong mm(3)]) (simp add: m'(2))
  then have "w_DNode (fst (ProcessInboundMessage env kenv' t' w')) = Some (fst (deliver 9 (kg_node kenv') node' mm))"
    using assms(4,6) m'(1) real by (simp add: ProcessInboundMessage_def Let_def handed_DNode)
  then show ?thesis using mm m' by auto
qed

text \<open>The greeting of the second node, sent in the session \<^verbatim>\<open>k\<close>, starts round 1 in the session \<^verbatim>\<open>l\<close> too.\<close>

theorem session_not_signed_witness:
  "\<exists>t m. signed_text toy_service kg_message ''k'' toy_hello = Ok t \<and> map_Unmarshal t = Some m \<and>
     w_DNode (fst (ProcessInboundMessage toy_service toy_env (map_Marshal (AList.update ''Key'' ''l'' m)) (toy_worker\<lparr>w_sid := ''l''\<rparr>))) =
       Some toy_after"
proof -
  have "toy_hello = KGRound0Message (toy_from 2 (-1))" by code_simp
  moreover obtain r where "BaseUpdate 9 (kg_node toy_env) toy_start toy_hello = Some r"
    using kg.update_returns [OF kg_rank_less] by blast
  ultimately have after: "fst (deliver 9 (kg_node toy_env) toy_start toy_hello) = toy_after"
    by (simp add: deliver_def toy_after_def)
  have rounds: "p_rnd toy_start = Some 0" "p_rnd toy_after = Some 1" by code_simp+
  obtain t where t: "signed_text toy_service kg_message ''k'' toy_hello = Ok t"
      "w_DNode (fst (ProcessInboundMessage toy_service toy_env t toy_worker)) = Some toy_after"
    using honest_delivered [OF toy_service_facts(1-3) _ toy_service_facts(4-6), of toy_start "''k''" toy_env]
    by (auto simp: toy_worker_def after)
  then have c: "w_DNode (fst (ProcessInboundMessage toy_service toy_env t toy_worker)) \<noteq> w_DNode toy_worker"
    using rounds by (auto simp: toy_worker_def)
  obtain m where m: "map_Unmarshal t = Some m" using kg_inbound_checked [OF c] by blast
  show ?thesis
    using session_not_signed [OF m c refl, of "''l''" "toy_worker\<lparr>w_sid := ''l''\<rparr>" toy_start toy_env] t m after
    by (fastforce simp: toy_worker_def)
qed

end
