(* ===== verification/EdCrypto.thy ===== *)
theory EdCrypto
  imports EdScalar Vss2
begin

text \<open>
  \<^verbatim>\<open>smpc-lib/crypto/ed/commit.go\<close>, \<^verbatim>\<open>vss.go\<close> and \<^verbatim>\<open>schnorrZK.go\<close>: commitments, secret sharing and proofs of
  knowledge over Curve25519.  A \<^verbatim>\<open>[32]byte\<close> is a list of 32 bytes.  The operations on points are fields of
  \<open>EdOps\<close>, and what the code relies on is \<open>ed_laws\<close>: the points of a relation \<open>rep\<close> between points and integers are
  multiples of the base point.  \<^verbatim>\<open>crypto/rand\<close> is a list of the bytes it delivers; \<^verbatim>\<open>io.ReadFull\<close> fails when
  there are not enough.  The hash functions are fields of \<open>EdEnv\<close>.
\<close>

section \<open>Points, hashes, randomness\<close>

record 'g EdOps =
  ge_zero :: 'g
  GeScalarMultBase :: "byte list \<Rightarrow> 'g"
  GeScalarMult :: "byte list \<Rightarrow> 'g \<Rightarrow> 'g"
  GeAdd :: "'g \<Rightarrow> 'g \<Rightarrow> 'g"
  ToBytes :: "'g \<Rightarrow> byte list"
  FromBytes :: "byte list \<Rightarrow> 'g \<Rightarrow> 'g \<times> bool"
  FeNegXT :: "'g \<Rightarrow> 'g"
  GeDoubleScalarMult :: "byte list \<Rightarrow> 'g \<Rightarrow> byte list \<Rightarrow> byte list"

record 'g EdEnv =
  ee_ops :: "'g EdOps"
  ee_sha512 :: "byte list \<Rightarrow> byte list"
  ee_sha256 :: "byte list \<Rightarrow> byte list"
  ee_Verify :: "byte list \<Rightarrow> byte list \<Rightarrow> byte list \<Rightarrow> bool"

definition ReadFull :: "nat \<Rightarrow> byte list \<Rightarrow> (byte list \<times> byte list) res" where
  "ReadFull n rand = (if length rand < n then Err ''unexpected EOF'' else Ok (take n rand, drop n rand))"

definition ed_message :: "byte list" where
  "ed_message = string_bytes ''hello thresholdeddsa''"

text \<open>The scalars on which the point operations are specified: \<^verbatim>\<open>a[31] <= 127\<close>.\<close>

definition scalar :: "byte list \<Rightarrow> bool" where
  "scalar a \<longleftrightarrow> length a = 32 \<and> le a < 2 ^ 255"

definition ed_laws :: "'g EdOps \<Rightarrow> ('g \<Rightarrow> int \<Rightarrow> bool) \<Rightarrow> bool" where
  "ed_laws G rep \<longleftrightarrow>
     (\<forall>a. scalar a \<longrightarrow> rep (GeScalarMultBase G a) (le a)) \<and>
     (\<forall>a g m. scalar a \<longrightarrow> rep g m \<longrightarrow> rep (GeScalarMult G a g) (le a * m)) \<and>
     (\<forall>g m h n. rep g m \<longrightarrow> rep h n \<longrightarrow> rep (GeAdd G g h) (m + n)) \<and>
     (\<forall>g m. rep g m \<longrightarrow> rep (FeNegXT G g) (- m)) \<and>
     (\<forall>g m h n. rep g m \<longrightarrow> rep h n \<longrightarrow> (ToBytes G g = ToBytes G h \<longleftrightarrow> m mod GetBigIntOrder = n mod GetBigIntOrder)) \<and>
     (\<forall>g m old. rep g m \<longrightarrow> snd (FromBytes G (ToBytes G g) old) \<and> rep (fst (FromBytes G (ToBytes G g) old)) m) \<and>
     (\<forall>g m. rep g m \<longrightarrow> length (ToBytes G g) = 32) \<and>
     (\<forall>a g m b h n. scalar a \<longrightarrow> rep g m \<longrightarrow> scalar b \<longrightarrow> rep h n \<longrightarrow>
        n mod GetBigIntOrder = (le a * m + le b) mod GetBigIntOrder \<longrightarrow> GeDoubleScalarMult G a g b = ToBytes G h)"

definition ed_hashes :: "'g EdEnv \<Rightarrow> bool" where
  "ed_hashes env \<longleftrightarrow> (\<forall>x. length (ee_sha512 env x) = 64) \<and> (\<forall>x. length (ee_sha256 env x) = 32)"

section \<open>commit.go\<close>

definition ed_digest :: "'g EdEnv \<Rightarrow> byte list \<Rightarrow> byte list \<Rightarrow> byte list" where
  "ed_digest env rndNum secret = ee_sha256 env (ee_sha512 env (rndNum @ ed_message @ secret @ ed_message))"

definition ed_Commit :: "'g EdEnv \<Rightarrow> byte list \<Rightarrow> byte list \<Rightarrow> ((byte list \<times> byte list) \<times> byte list) res" where
  "ed_Commit env secret rand =
     bindr (ReadFull 32 rand) (\<lambda>(rndNum, rand). Ok ((ed_digest env rndNum secret, rndNum @ secret), rand))"

definition ed_Verify :: "'g EdEnv \<Rightarrow> byte list \<Rightarrow> byte list \<Rightarrow> bool" where
  "ed_Verify env C D = (C = ed_digest env (take 32 D) (drop 32 D))"

section \<open>vss.go\<close>

definition calculatePolynomial :: "byte list list \<Rightarrow> byte list \<Rightarrow> byte list res" where
  "calculatePolynomial cfs i =
     (let idnum = SetBytes i; idnum2 = idnum mod GetBigIntOrder
      in if idnum = 0 \<or> idnum2 = 0
         then Err ''id can not be equal to 0 or 0 modulo the order of the curve''
         else if cfs = [] then Panic ''index out of range''
         else Ok (fold (\<lambda>c result. ScAdd (ScMul result i) c) (rev (butlast cfs)) (last cfs)))"

text \<open>\<^verbatim>\<open>ScMulAdd(&rndNum, &rndNum, &one, &zero)\<close> after reading \<^verbatim>\<open>rndNum\<close>.\<close>

definition read_scalar :: "byte list \<Rightarrow> (byte list \<times> byte list) res" where
  "read_scalar rand = bindr (ReadFull 32 rand) (\<lambda>(rndNum, rand). Ok (ScMulAdd rndNum sc_one sc_zero, rand))"

fun read_scalars :: "nat \<Rightarrow> byte list \<Rightarrow> (byte list list \<times> byte list) res" where
  "read_scalars 0 rand = Ok ([], rand)"
| "read_scalars (Suc n) rand =
     bindr (read_scalar rand) (\<lambda>(c, rand). bindr (read_scalars n rand) (\<lambda>(cs, rand). Ok (c # cs, rand)))"

definition base_bytes :: "'g EdOps \<Rightarrow> byte list \<Rightarrow> byte list" where
  "base_bytes G a = ToBytes G (GeScalarMultBase G a)"

definition ed_Vss :: "'g EdOps \<Rightarrow> byte list \<Rightarrow> byte list list \<Rightarrow> int \<Rightarrow> int \<Rightarrow> byte list \<Rightarrow>
    ((byte list list \<times> byte list list \<times> byte list list) \<times> byte list) res" where
  "ed_Vss G secret ids t n rand =
     (if t \<le> 1 \<or> t > n then Err ''threshold must > 1 and <= n''
      else bindr (read_scalars (nat (t - 1)) rand) (\<lambda>(cs, rand).
        let cfs = secret # cs
        in bindr (mapM (\<lambda>i. bindr (slice_get ids (int i)) (calculatePolynomial cfs)) [0..<nat n]) (\<lambda>shares.
             Ok ((cfs, map (base_bytes G) cfs, shares), rand))))"

text \<open>\<^verbatim>\<open>Vss2\<close>: the same with a map of identifiers; the order in which Go ranges over it is the order of the list.\<close>

definition ed_Vss2 :: "'g EdOps \<Rightarrow> byte list \<Rightarrow> int \<Rightarrow> int \<Rightarrow> (string \<times> byte list) list \<Rightarrow> byte list \<Rightarrow>
    ((byte list list \<times> byte list list \<times> (string \<times> byte list) list) \<times> byte list) res" where
  "ed_Vss2 G secret t n uids rand =
     (if t \<le> 1 \<or> t > n then Err ''threshold must > 1 and <= n''
      else bindr (read_scalars (nat (t - 1)) rand) (\<lambda>(cs, rand).
        let cfs = secret # cs
        in bindr (mapM (\<lambda>(k, v). bindr (calculatePolynomial cfs v) (\<lambda>share. Ok (k, share))) uids) (\<lambda>shares.
             Ok ((cfs, map (base_bytes G) cfs, shares), rand))))"

text \<open>The loop of \<^verbatim>\<open>VerifyVss\<close>: \<^verbatim>\<open>rlt1\<close>, \<^verbatim>\<open>tem\<close> and \<^verbatim>\<open>idVal\<close>.\<close>

definition VerifyVss_step :: "'g EdOps \<Rightarrow> byte list \<Rightarrow> byte list \<Rightarrow> 'g \<times> 'g \<times> byte list \<Rightarrow> 'g \<times> 'g \<times> byte list" where
  "VerifyVss_step G i cfB st =
     (case st of (rlt1, tem, idVal) \<Rightarrow>
        let tem = GeScalarMult G idVal (fst (FromBytes G cfB tem))
        in (GeAdd G rlt1 tem, tem, ScMul idVal i))"

definition VerifyVss :: "'g EdOps \<Rightarrow> byte list \<Rightarrow> byte list \<Rightarrow> byte list list \<Rightarrow> bool res" where
  "VerifyVss G share i cfsBBytes =
     bindr (slice_get cfsBBytes 0) (\<lambda>c0.
       let rlt1 = fst (FromBytes G c0 (ge_zero G))
       in case fold (VerifyVss_step G i) (tl cfsBBytes) (rlt1, ge_zero G, i) of
            (rlt1, _, _) \<Rightarrow> Ok (ToBytes G rlt1 = base_bytes G share))"

text \<open>
  The factor of \<^verbatim>\<open>ids[i]\<close> in the coefficient of \<^verbatim>\<open>ids[j]\<close>.  The check for a failed inversion counts the bytes
  that are the character \<^verbatim>\<open>'0'\<close>.
\<close>

definition inverse_failed :: "byte list \<Rightarrow> bool" where
  "inverse_failed time = (length (filter (\<lambda>b. b = 48) time) = 32)"

fun Combine_times :: "byte list list \<Rightarrow> nat \<Rightarrow> nat list \<Rightarrow> byte list \<Rightarrow> (byte list + byte list) res" where
  "Combine_times ids j [] tm = Ok (Inr tm)"
| "Combine_times ids j (i # is) tm =
     (if j \<noteq> i then
        bindr (slice_get ids (int i)) (\<lambda>idi.
        bindr (slice_get ids (int j)) (\<lambda>idj.
        let time = ScModInverse (ScSub idi idj)
        in if inverse_failed time then Ok (Inl time)
           else Combine_times ids j is (ScMul tm (ScMul time idi))))
      else Combine_times ids j is tm)"

text \<open>\<^verbatim>\<open>Combine\<close>; a failed inversion ends the function with the inverse as its result.\<close>

fun Combine_loop :: "byte list list \<Rightarrow> byte list list \<Rightarrow> nat list \<Rightarrow> byte list \<Rightarrow> byte list res" where
  "Combine_loop shares ids [] secret = Ok secret"
| "Combine_loop shares ids (j # js) secret =
     bindr (Combine_times ids j [0..<length shares] sc_one) (\<lambda>r.
       case r of
         Inl time \<Rightarrow> Ok time
       | Inr tm \<Rightarrow> Combine_loop shares ids js (ScAdd (ScMul (shares ! j) tm) secret))"

definition ed_Combine :: "byte list list \<Rightarrow> byte list list \<Rightarrow> byte list res" where
  "ed_Combine shares ids = Combine_loop shares ids [0..<length shares] sc_zero"

section \<open>schnorrZK.go\<close>

definition challenge :: "'g EdEnv \<Rightarrow> byte list \<Rightarrow> byte list \<Rightarrow> byte list" where
  "challenge env RBytes extra = ScReduce (ee_sha512 env (RBytes @ ed_message @ extra))"

text \<open>\<^verbatim>\<open>Prove\<close> and \<^verbatim>\<open>Prove2\<close> differ in what is hashed after \<^verbatim>\<open>R\<close>, and so do \<^verbatim>\<open>VerifyZk\<close> and \<^verbatim>\<open>VerifyZk2\<close>.\<close>

definition prove_with :: "'g EdEnv \<Rightarrow> byte list \<Rightarrow> byte list \<Rightarrow> byte list \<Rightarrow> (byte list \<times> byte list) res" where
  "prove_with env extra sk rand =
     bindr (read_scalar rand) (\<lambda>(rndNum, rand).
       let e = challenge env (base_bytes (ee_ops env) rndNum) extra
       in Ok (e @ ScMulAdd e sk rndNum, rand))"

definition ed_Prove :: "'g EdEnv \<Rightarrow> byte list \<Rightarrow> byte list \<Rightarrow> (byte list \<times> byte list) res" where
  "ed_Prove env = prove_with env []"

definition ed_Prove2 :: "'g EdEnv \<Rightarrow> byte list \<Rightarrow> byte list \<Rightarrow> byte list \<Rightarrow> (byte list \<times> byte list) res" where
  "ed_Prove2 env sk pk = prove_with env (pk @ ed_message) sk"

definition verify_with :: "'g EdEnv \<Rightarrow> byte list \<Rightarrow> byte list \<Rightarrow> byte list \<Rightarrow> bool" where
  "verify_with env extra signature pk =
     (let G = ee_ops env;
          sTem = drop 32 signature;
          sG = GeScalarMultBase G sTem;
          X = FeNegXT G (fst (FromBytes G pk (ge_zero G)));
          eTem = take 32 signature;
          RCal = GeAdd G sG (GeScalarMult G eTem X)
      in challenge env (ToBytes G RCal) extra = eTem)"

definition VerifyZk :: "'g EdEnv \<Rightarrow> byte list \<Rightarrow> byte list \<Rightarrow> bool" where
  "VerifyZk env signature pk = verify_with env [] signature pk"

definition VerifyZk2 :: "'g EdEnv \<Rightarrow> byte list \<Rightarrow> byte list \<Rightarrow> bool" where
  "VerifyZk2 env signature pk = verify_with env (pk @ ed_message) signature pk"

section \<open>Scalars\<close>

lemma sc_length [simp]:
  "length a = 32 \<Longrightarrow> length b = 32 \<Longrightarrow> length c = 32 \<Longrightarrow> length (ScMulAdd a b c) = 32"
  "length a = 32 \<Longrightarrow> length b = 32 \<Longrightarrow> length (ScMul a b) = 32"
  "length a = 32 \<Longrightarrow> length b = 32 \<Longrightarrow> length (ScAdd a b) = 32"
  "length a = 32 \<Longrightarrow> length b = 32 \<Longrightarrow> length (ScSub a b) = 32"
  "length s = 64 \<Longrightarrow> length (ScReduce s) = 32"
  by (simp_all add: ScMulAdd_bytes ScMul_bytes ScAdd_bytes ScSub_bytes ScReduce_bytes)

lemma sc_le:
  "length a = 32 \<Longrightarrow> length b = 32 \<Longrightarrow> length c = 32 \<Longrightarrow> le (ScMulAdd a b c) = (le a * le b + le c) mod GetBigIntOrder"
  "length a = 32 \<Longrightarrow> length b = 32 \<Longrightarrow> le (ScMul a b) = le a * le b mod GetBigIntOrder"
  "length a = 32 \<Longrightarrow> length b = 32 \<Longrightarrow> le (ScAdd a b) = (le a + le b) mod GetBigIntOrder"
  "length a = 32 \<Longrightarrow> length b = 32 \<Longrightarrow> le (ScSub a b) = (le a - le b) mod GetBigIntOrder"
  "length s = 64 \<Longrightarrow> le (ScReduce s) = le s mod GetBigIntOrder"
  by (simp_all add: ScMulAdd_bytes ScMul_bytes ScAdd_bytes ScSub_bytes ScReduce_bytes)

definition reduced :: "byte list \<Rightarrow> bool" where
  "reduced a \<longleftrightarrow> length a = 32 \<and> le a < GetBigIntOrder"

lemma reduced_length: "reduced a \<Longrightarrow> length a = 32"
  by (simp add: reduced_def)

lemma reduced_scalar: "reduced a \<Longrightarrow> scalar a"
  using order_bounds(2) by (auto simp: reduced_def scalar_def)

lemma sc_reduced [simp]:
  "length a = 32 \<Longrightarrow> length b = 32 \<Longrightarrow> length c = 32 \<Longrightarrow> reduced (ScMulAdd a b c)"
  "length a = 32 \<Longrightarrow> length b = 32 \<Longrightarrow> reduced (ScMul a b)"
  "length a = 32 \<Longrightarrow> length b = 32 \<Longrightarrow> reduced (ScAdd a b)"
  "length s = 64 \<Longrightarrow> reduced (ScReduce s)"
  by (simp_all add: reduced_def sc_le)

lemma ReadFull_Ok: "ReadFull n rand = Ok (bs, rest) \<Longrightarrow> length bs = n"
  by (auto simp: ReadFull_def split: if_splits)

lemma read_scalar_Ok: "read_scalar rand = Ok (c, rest) \<Longrightarrow> reduced c"
  by (auto simp: read_scalar_def dest: ReadFull_Ok)

lemma read_scalars_Ok: "read_scalars n rand = Ok (cs, rest) \<Longrightarrow> length cs = n \<and> (\<forall>c \<in> set cs. reduced c)"
  by (induction n arbitrary: rand cs) (force dest: read_scalar_Ok)+

section \<open>Commitments open\<close>

lemma ed_Commit_Verify: "ed_Commit env secret rand = Ok ((C, D), rest) \<Longrightarrow> ed_Verify env C D \<and> drop 32 D = secret"
  by (auto simp: ed_Commit_def ed_Verify_def dest!: ReadFull_Ok)

section \<open>Points\<close>

text \<open>The bytes of the multiple \<open>n\<close> of the base point.\<close>

definition opens :: "'g EdOps \<Rightarrow> ('g \<Rightarrow> int \<Rightarrow> bool) \<Rightarrow> byte list \<Rightarrow> int \<Rightarrow> bool" where
  "opens G rep bs n \<longleftrightarrow> (\<exists>g. rep g n \<and> bs = ToBytes G g)"

lemma ed_lawsD:
  assumes "ed_laws G rep"
  shows "scalar a \<Longrightarrow> rep (GeScalarMultBase G a) (le a)"
    and "scalar a \<Longrightarrow> rep g m \<Longrightarrow> rep (GeScalarMult G a g) (le a * m)"
    and "rep g m \<Longrightarrow> rep h n \<Longrightarrow> rep (GeAdd G g h) (m + n)"
    and "rep g m \<Longrightarrow> rep (FeNegXT G g) (- m)"
    and "rep g m \<Longrightarrow> rep h n \<Longrightarrow> ToBytes G g = ToBytes G h \<longleftrightarrow> m mod GetBigIntOrder = n mod GetBigIntOrder"
    and "rep g m \<Longrightarrow> snd (FromBytes G (ToBytes G g) old)"
    and "rep g m \<Longrightarrow> rep (fst (FromBytes G (ToBytes G g) old)) m"
    and "rep g m \<Longrightarrow> length (ToBytes G g) = 32"
    and "scalar a \<Longrightarrow> rep g m \<Longrightarrow> scalar b \<Longrightarrow> rep h n \<Longrightarrow>
      n mod GetBigIntOrder = (le a * m + le b) mod GetBigIntOrder \<Longrightarrow> GeDoubleScalarMult G a g b = ToBytes G h"
  using assms by (auto simp: ed_laws_def)

lemma opens_rep:
  assumes "ed_laws G rep" "opens G rep bs n"
  shows "rep (fst (FromBytes G bs old)) n"
  using assms(2) ed_lawsD(7) [OF assms(1)] by (auto simp: opens_def)

lemma opens_base:
  assumes "ed_laws G rep" "scalar a"
  shows "opens G rep (base_bytes G a) (le a)"
  using ed_lawsD(1) [OF assms] by (auto simp: opens_def base_bytes_def)

lemma opens_length:
  assumes "ed_laws G rep" "opens G rep bs n"
  shows "length bs = 32"
  using assms(2) ed_lawsD(8) [OF assms(1)] by (auto simp: opens_def)

lemma opens_eq:
  assumes "ed_laws G rep" "opens G rep bs m" "opens G rep bs' n"
  shows "bs = bs' \<longleftrightarrow> eqm GetBigIntOrder m n"
  using assms(2,3) ed_lawsD(5) [OF assms(1)] by (auto simp: opens_def eqm_mod_iff)

lemma opens_cong:
  assumes "ed_laws G rep" "opens G rep bs m" "eqm GetBigIntOrder m n" "opens G rep bs' n"
  shows "opens G rep bs n"
  using opens_eq [OF assms(1,2,4)] assms(3,4) by simp

section \<open>Shares\<close>

lemma calculatePolynomial_eqm:
  assumes "calculatePolynomial cfs i = Ok v" "\<forall>c \<in> set cfs. length c = 32" "length i = 32"
  shows "length v = 32 \<and> eqm GetBigIntOrder (le v) (peval (map le cfs) (le i))"
proof -
  have "length (fold (\<lambda>c result. ScAdd (ScMul result i) c) (rev cs) r) = 32 \<and>
      eqm GetBigIntOrder (le (fold (\<lambda>c result. ScAdd (ScMul result i) c) (rev cs) r)) (peval (map le (cs @ [r])) (le i))"
    if "\<forall>c \<in> set cs. length c = 32" "length r = 32" for cs r
    using that
  proof (induction cs)
    case (Cons c cs)
    let ?h = "fold (\<lambda>c result. ScAdd (ScMul result i) c) (rev cs) r"
    have h: "length ?h = 32" "eqm GetBigIntOrder (le ?h) (peval (map le (cs @ [r])) (le i))" using Cons by simp_all
    have "eqm GetBigIntOrder (le ?h * le i + le c) (peval (map le (cs @ [r])) (le i) * le i + le c)"
      by (intro eqm_intros h)
    moreover have "eqm GetBigIntOrder (le (ScAdd (ScMul ?h i) c)) (le ?h * le i + le c)"
      using h(1) assms(3) Cons.prems by (simp add: sc_le eqm_mod_iff mod_simps)
    ultimately show ?case using h(1) assms(3) Cons.prems by (auto simp: algebra_simps intro: eqm_trans)
  qed simp
  note horner = this
  have c: "cfs \<noteq> []" "v = fold (\<lambda>c result. ScAdd (ScMul result i) c) (rev (butlast cfs)) (last cfs)"
    using assms(1) by (auto simp: calculatePolynomial_def Let_def split: if_splits)
  have "\<forall>c \<in> set (butlast cfs). length c = 32" "length (last cfs) = 32" using assms(2) c(1) by (auto dest: in_set_butlastD)
  from horner [OF this, unfolded append_butlast_last_id [OF c(1)]] show ?thesis unfolding c(2) .
qed

lemma calculatePolynomial_reduced:
  assumes "calculatePolynomial cfs i = Ok v" "\<forall>c \<in> set cfs. reduced c" "length i = 32"
  shows "reduced v"
proof -
  have "reduced (fold (\<lambda>c result. ScAdd (ScMul result i) c) cs r)" if "\<forall>c \<in> set cs. length c = 32" "reduced r" for cs r
    using that assms(3) by (induction cs arbitrary: r) (auto simp: reduced_length)
  note horner = this
  have c: "cfs \<noteq> []" "v = fold (\<lambda>c result. ScAdd (ScMul result i) c) (rev (butlast cfs)) (last cfs)"
    using assms(1) by (auto simp: calculatePolynomial_def Let_def split: if_splits)
  show ?thesis unfolding c(2) using assms(2) c(1) by (intro horner) (auto dest: in_set_butlastD simp: reduced_def)
qed

text \<open>\<^verbatim>\<open>VerifyVss\<close> decides whether the share is the value of the committed polynomial.\<close>

lemma VerifyVss_loop:
  assumes "ed_laws G rep" "list_all2 (opens G rep) cs vs" "rep rlt1 a" "reduced idVal \<or> idVal = i \<and> scalar i" "length i = 32"
  shows "\<exists>r tem iv. fold (VerifyVss_step G i) cs (rlt1, tem0, idVal) = (r, tem, iv) \<and>
    (\<exists>b. rep r b \<and> eqm GetBigIntOrder b (a + le idVal * peval vs (le i)))"
  using assms(2-5)
proof (induction cs vs arbitrary: rlt1 tem0 a idVal rule: list_all2_induct)
  case Nil
  then show ?case by (auto intro: eqm_refl)
next
  case (Cons c cs v vs)
  let ?tem = "GeScalarMult G idVal (fst (FromBytes G c tem0))"
  have s: "scalar idVal" "length idVal = 32" using Cons.prems reduced_scalar reduced_length by blast+
  have "rep ?tem (le idVal * v)" using ed_lawsD(2) [OF assms(1) s(1)] opens_rep [OF assms(1) Cons.hyps(1)] by blast
  then have "rep (GeAdd G rlt1 ?tem) (a + le idVal * v)" using ed_lawsD(3) [OF assms(1)] Cons.prems(1) by blast
  then obtain r tem iv b where r: "fold (VerifyVss_step G i) cs (GeAdd G rlt1 ?tem, ?tem, ScMul idVal i) = (r, tem, iv)"
      "rep r b" "eqm GetBigIntOrder b (a + le idVal * v + le (ScMul idVal i) * peval vs (le i))"
    using Cons.IH [of "GeAdd G rlt1 ?tem" "a + le idVal * v" "ScMul idVal i" ?tem] Cons.prems(3) s(2) by auto
  have "eqm GetBigIntOrder (a + le idVal * v + le (ScMul idVal i) * peval vs (le i))
      (a + le idVal * v + (le idVal * le i) * peval vs (le i))"
    using s(2) Cons.prems(3) by (intro eqm_intros) (simp add: sc_le)
  then have "eqm GetBigIntOrder b (a + le idVal * peval (v # vs) (le i))"
    using r(3) by (auto simp: algebra_simps intro: eqm_trans)
  moreover have "VerifyVss_step G i c (rlt1, tem0, idVal) = (GeAdd G rlt1 ?tem, ?tem, ScMul idVal i)"
    by (simp add: VerifyVss_step_def Let_def)
  ultimately show ?case using r(1,2) by auto
qed

lemma VerifyVss_iff:
  assumes "ed_laws G rep" "list_all2 (opens G rep) cfsB vs" "vs \<noteq> []" "scalar i" "scalar share"
  shows "VerifyVss G share i cfsB = Ok (eqm GetBigIntOrder (le share) (peval vs (le i)))"
proof -
  obtain c cs v vs' where cs: "cfsB = c # cs" "vs = v # vs'" "opens G rep c v" "list_all2 (opens G rep) cs vs'"
    using assms(2,3) by (cases vs) (auto simp: list_all2_Cons2)
  obtain r tem iv b where r: "fold (VerifyVss_step G i) cs (fst (FromBytes G c (ge_zero G)), ge_zero G, i) = (r, tem, iv)"
      "rep r b" "eqm GetBigIntOrder b (v + le i * peval vs' (le i))"
    using VerifyVss_loop [OF assms(1) cs(4) opens_rep [OF assms(1) cs(3)], of i i] assms(4)
    by (metis scalar_def)
  have "ToBytes G r = base_bytes G share \<longleftrightarrow> eqm GetBigIntOrder b (le share)"
    unfolding base_bytes_def eqm_mod_iff using ed_lawsD(5) [OF assms(1) r(2) ed_lawsD(1) [OF assms(1,5)]] .
  then show ?thesis
    using r(1,3) cs(1,2) by (auto simp: VerifyVss_def slice_get_def intro: eqm_trans eqm_sym)
qed

section \<open>Interpolation\<close>

text \<open>
  The check for a failed inversion never succeeds: an inverse is below the order, which the number of 32
  characters \<^verbatim>\<open>'0'\<close> is not, and a failed inversion gives zeros.
\<close>

lemma inverse_never_failed: "\<not> inverse_failed (ScModInverse a)"
proof
  assume "inverse_failed (ScModInverse a)"
  then have f: "length (filter (\<lambda>b. b = 48) (ScModInverse a)) = 32" by (simp add: inverse_failed_def)
  show False
  proof (cases "coprime (le a) GetBigIntOrder")
    case True
    note r = ScModInverse_spec [OF True]
    have "\<forall>b \<in> set (ScModInverse a). b = 48"
      using f r(1) by (metis (mono_tags, lifting) filter_id_conv length_filter_less less_irrefl)
    then have "ScModInverse a = replicate 32 48" using r(1) by (metis replicate_length_same)
    moreover have "GetBigIntOrder < le (replicate 32 48)" by code_simp
    ultimately show False using r(4) by simp
  next
    case False
    then show False using f by (simp add: ScModInverse_none)
  qed
qed

definition lagrange_step :: "byte list \<Rightarrow> byte list \<Rightarrow> byte list \<Rightarrow> byte list" where
  "lagrange_step idj idi tm = ScMul tm (ScMul (ScModInverse (ScSub idi idj)) idi)"

definition lagrange_weight :: "byte list list \<Rightarrow> nat \<Rightarrow> nat \<Rightarrow> int" where
  "lagrange_weight ids i j = le (ScModInverse (ScSub (ids ! j) (ids ! i)))"

lemma lagrange_weight_inverse:
  assumes "\<forall>x \<in> set ids. length x = 32" "unit_diffs GetBigIntOrder (map le ids)" "i < length ids" "j < length ids" "j \<noteq> i"
  shows "eqm GetBigIntOrder ((map le ids ! j - map le ids ! i) * lagrange_weight ids i j) 1"
    and "length (ScModInverse (ScSub (ids ! j) (ids ! i))) = 32"
proof -
  have l: "length (ids ! i) = 32" "length (ids ! j) = 32" using assms by auto
  have "coprime (le (ids ! j) - le (ids ! i)) GetBigIntOrder" using assms by (auto simp: unit_diffs_def)
  then have "coprime (le (ScSub (ids ! j) (ids ! i))) GetBigIntOrder"
    using l by (simp add: sc_le coprime_iff_gcd_eq_1 gcd.commute flip: gcd_red_int)
  note r = ScModInverse_spec [OF this]
  show "length (ScModInverse (ScSub (ids ! j) (ids ! i))) = 32" by (rule r)
  have "eqm GetBigIntOrder (lagrange_weight ids i j * le (ScSub (ids ! j) (ids ! i))) 1"
    using r(2) by (simp add: eqm_mod_iff lagrange_weight_def GetBigIntOrder_def)
  moreover have "eqm GetBigIntOrder (lagrange_weight ids i j * le (ScSub (ids ! j) (ids ! i)))
      (lagrange_weight ids i j * (le (ids ! j) - le (ids ! i)))" using l by (intro eqm_intros) (simp add: sc_le)
  ultimately show "eqm GetBigIntOrder ((map le ids ! j - map le ids ! i) * lagrange_weight ids i j) 1"
    using assms(3,4) by (simp add: mult.commute) (metis eqm_sym eqm_trans)
qed

lemma lagrange_product:
  assumes "\<forall>x \<in> set ids. length x = 32" "unit_diffs GetBigIntOrder (map le ids)" "i < length ids"
    and "distinct js" "\<forall>j \<in> set js. j < length ids \<and> j \<noteq> i" "length tm = 32"
  defines "r \<equiv> fold (\<lambda>j. lagrange_step (ids ! i) (ids ! j)) js tm"
  shows "length r = 32 \<and> eqm GetBigIntOrder (le r) (le tm * (\<Prod>j \<in> set js. map le ids ! j * lagrange_weight ids i j))"
  unfolding r_def using assms(4-6)
proof (induction js arbitrary: tm)
  case (Cons j js)
  have l: "length (ids ! j) = 32" "length (ScModInverse (ScSub (ids ! j) (ids ! i))) = 32"
    using Cons.prems(2) assms(1) lagrange_weight_inverse(2) [OF assms(1-3), of j] by auto
  let ?tm = "lagrange_step (ids ! i) (ids ! j) tm"
  have t: "length ?tm = 32" "eqm GetBigIntOrder (le ?tm) (le tm * (map le ids ! j * lagrange_weight ids i j))"
    using l Cons.prems(2,3) by (simp_all add: lagrange_step_def sc_le lagrange_weight_def eqm_mod_iff mod_simps mult_ac)
  have "length (fold (\<lambda>j. lagrange_step (ids ! i) (ids ! j)) js ?tm) = 32"
    "eqm GetBigIntOrder (le (fold (\<lambda>j. lagrange_step (ids ! i) (ids ! j)) js ?tm))
       (le ?tm * (\<Prod>j \<in> set js. map le ids ! j * lagrange_weight ids i j))"
    using Cons.IH [of ?tm] Cons.prems t(1) by simp_all
  moreover have "eqm GetBigIntOrder (le ?tm * (\<Prod>j \<in> set js. map le ids ! j * lagrange_weight ids i j))
      (le tm * (\<Prod>j \<in> set (j # js). map le ids ! j * lagrange_weight ids i j))"
    using eqm_mult [OF t(2) eqm_refl] Cons.prems(1) by (simp add: mult.assoc)
  ultimately show ?case by (auto intro: eqm_trans)
qed simp

text \<open>The coefficient of the identifier \<open>i\<close> for the value at 0.\<close>

lemma lagrange_basis:
  assumes "\<forall>x \<in> set ids. length x = 32" "unit_diffs GetBigIntOrder (map le ids)" "i < length ids"
  defines "r \<equiv> fold (\<lambda>j. lagrange_step (ids ! i) (ids ! j)) (filter (\<lambda>j. j \<noteq> i) [0..<length ids]) sc_one"
  shows "length r = 32" "eqm GetBigIntOrder (le r) (basis_poly (map le ids) (lagrange_weight ids) i 0)"
proof -
  define js where "js = filter (\<lambda>j. j \<noteq> i) [0..<length ids]"
  have js: "distinct js" "\<forall>j \<in> set js. j < length ids \<and> j \<noteq> i" "set js = {..<length (map le ids)} - {i}"
    by (auto simp: js_def)
  have "basis_poly (map le ids) (lagrange_weight ids) i 0 = (\<Prod>j \<in> set js. map le ids ! j * lagrange_weight ids i j)"
    unfolding basis_poly_def js(3) diff_0_right ..
  then show "length r = 32" "eqm GetBigIntOrder (le r) (basis_poly (map le ids) (lagrange_weight ids) i 0)"
    using lagrange_product [OF assms(1-3) js(1,2), of sc_one] unfolding r_def js_def [symmetric] by simp_all
qed

text \<open>Shares of a polynomial of at most as many coefficients recombine to its value at 0.\<close>

lemma shares_interpolate:
  assumes "\<forall>x \<in> set ids. length x = 32" "unit_diffs GetBigIntOrder (map le ids)" "polyf t f" "t \<le> length ids"
    and "\<And>i. i < length ids \<Longrightarrow> eqm GetBigIntOrder (s i) (f (le (ids ! i)))"
  shows "eqm GetBigIntOrder (\<Sum>i<length ids. s i * basis_poly (map le ids) (lagrange_weight ids) i 0) (f 0)"
proof -
  have "eqm GetBigIntOrder (\<Sum>i<length (map le ids). s i * basis_poly (map le ids) (lagrange_weight ids) i 0) (f 0)"
  proof (rule interpolation [OF assms(3) _ assms(2)])
    show "t \<le> length (map le ids)" using assms(4) by simp
    show "eqm GetBigIntOrder (s i) (f (map le ids ! i))" if "i < length (map le ids)" for i
      using assms(5) [of i] that by simp
    show "eqm GetBigIntOrder ((map le ids ! j - map le ids ! i) * lagrange_weight ids i j) 1"
      if "i < length (map le ids)" "j < length (map le ids)" "j \<noteq> i" for i j
      using that by (intro lagrange_weight_inverse(1) [OF assms(1,2)]) simp_all
  qed
  then show ?thesis by simp
qed

lemma Combine_times_fold:
  assumes "j < length ids" "\<forall>i \<in> set is. i < length ids"
  shows "Combine_times ids j is tm = Ok (Inr (fold (\<lambda>i. lagrange_step (ids ! j) (ids ! i)) (filter (\<lambda>i. i \<noteq> j) is) tm))"
  using assms(2)
  by (induction "is" arbitrary: tm) (auto simp: slice_get_def assms(1) inverse_never_failed lagrange_step_def Let_def)

lemma Combine_correct:
  assumes "\<forall>x \<in> set ids. length x = 32" "unit_diffs GetBigIntOrder (map le ids)" "polyf t f" "t \<le> length ids" "ids \<noteq> []"
    and "length shares = length ids"
    and sh: "\<And>i. i < length ids \<Longrightarrow> length (shares ! i) = 32" "\<And>i. i < length ids \<Longrightarrow> eqm GetBigIntOrder (le (shares ! i)) (f (le (ids ! i)))"
  shows "\<exists>secret. ed_Combine shares ids = Ok secret \<and> length secret = 32 \<and> le secret = f 0 mod GetBigIntOrder"
proof -
  let ?b = "basis_poly (map le ids) (lagrange_weight ids)"
  have loop: "\<exists>r. Combine_loop shares ids js secret = Ok r \<and> length r = 32 \<and>
      le r = (if js = [] then le secret else (le secret + (\<Sum>j\<leftarrow>js. le (shares ! j) * ?b j 0)) mod GetBigIntOrder)"
    if "\<forall>j \<in> set js. j < length ids" "length secret = 32" for js secret
    using that
  proof (induction js arbitrary: secret)
    case (Cons j js)
    let ?w = "fold (\<lambda>i. lagrange_step (ids ! j) (ids ! i)) (filter (\<lambda>i. i \<noteq> j) [0..<length ids]) sc_one"
    let ?s = "ScAdd (ScMul (shares ! j) ?w) secret"
    have j: "j < length ids" using Cons.prems(1) by simp
    have w: "length ?w = 32" "eqm GetBigIntOrder (le ?w) (?b j 0)" using lagrange_basis [OF assms(1,2) j] by simp_all
    have "eqm GetBigIntOrder (le (shares ! j) * le ?w + le secret) (le secret + le (shares ! j) * ?b j 0)"
      unfolding add.commute [of "le secret"] by (intro eqm_intros w)
    then have s: "length ?s = 32" "le ?s = (le secret + le (shares ! j) * ?b j 0) mod GetBigIntOrder"
      using w(1) sh(1) [OF j] Cons.prems(2) by (simp_all add: sc_le eqm_mod_iff mod_simps)
    obtain r where r: "Combine_loop shares ids js ?s = Ok r" "length r = 32"
        "le r = (if js = [] then le ?s else (le ?s + (\<Sum>j\<leftarrow>js. le (shares ! j) * ?b j 0)) mod GetBigIntOrder)"
      using Cons.IH [of ?s] Cons.prems s(1) by auto
    have "Combine_loop shares ids (j # js) secret = Ok r"
      using Combine_times_fold [OF j, of "[0..<length ids]" sc_one] r(1) by (simp add: assms(6))
    moreover have "le r = (le secret + (\<Sum>j\<leftarrow>j # js. le (shares ! j) * ?b j 0)) mod GetBigIntOrder"
      using r(3) s(2) by (auto simp: mod_simps add_ac)
    ultimately show ?case using r(2) by (simp only: list.distinct if_False) blast
  qed simp
  have "eqm GetBigIntOrder (\<Sum>j<length ids. le (shares ! j) * ?b j 0) (f 0)"
    using shares_interpolate [OF assms(1-4), of "\<lambda>j. le (shares ! j)"] sh(2) by simp
  then show ?thesis
    using loop [of "[0..<length ids]" sc_zero] assms(5,6)
    by (simp add: ed_Combine_def eqm_mod_iff interv_sum_list_conv_sum_set_nat atLeast0LessThan)
qed

section \<open>Proofs of knowledge\<close>

lemma prove_verify:
  assumes "ed_laws (ee_ops env) rep" "ed_hashes env" "prove_with env extra sk rand = Ok (sig, rest)"
    and "length sk = 32" "opens (ee_ops env) rep pk (le sk)"
  shows "verify_with env extra sig pk"
proof -
  let ?G = "ee_ops env"
  obtain c where c: "read_scalar rand = Ok (c, rest)"
      "sig = challenge env (base_bytes ?G c) extra @ ScMulAdd (challenge env (base_bytes ?G c) extra) sk c"
    using assms(3) by (auto simp: prove_with_def Let_def)
  define e where "e = challenge env (base_bytes ?G c) extra"
  have e: "reduced e" using assms(2) by (simp add: e_def challenge_def ed_hashes_def)
  have r: "reduced c" using read_scalar_Ok [OF c(1)] .
  have l: "length e = 32" "length c = 32" using e r by (simp_all add: reduced_def)
  define s where "s = ScMulAdd e sk c"
  have s: "scalar s" "le s = (le e * le sk + le c) mod GetBigIntOrder"
    using l assms(4) by (simp_all add: s_def sc_le reduced_scalar)
  have sig: "take 32 sig = e" "drop 32 sig = s" using c(2) l(1) by (simp_all add: e_def [symmetric] s_def)
  let ?X = "FeNegXT ?G (fst (FromBytes ?G pk (ge_zero ?G)))"
  let ?R = "GeAdd ?G (GeScalarMultBase ?G s) (GeScalarMult ?G e ?X)"
  have "rep ?X (- le sk)" using ed_lawsD(4) [OF assms(1)] opens_rep [OF assms(1,5)] by blast
  then have "rep ?R (le s + le e * - le sk)"
    using ed_lawsD(1) [OF assms(1) s(1)] ed_lawsD(2) [OF assms(1) reduced_scalar [OF e]] ed_lawsD(3) [OF assms(1)] by blast
  moreover have "(le s + le e * - le sk) mod GetBigIntOrder = le c mod GetBigIntOrder"
    unfolding s(2) by (simp add: mod_simps)
  ultimately have "ToBytes ?G ?R = base_bytes ?G c"
    unfolding base_bytes_def
    using ed_lawsD(5) [OF assms(1) _ ed_lawsD(1) [OF assms(1) reduced_scalar [OF r]]] by blast
  then show ?thesis unfolding verify_with_def Let_def sig by (simp add: e_def)
qed

section \<open>A group with the laws\<close>

text \<open>The integers modulo the order, each represented by its own bytes, satisfy the laws.\<close>

definition dlog_ops :: "int EdOps" where
  "dlog_ops =
     \<lparr>ge_zero = 0, GeScalarMultBase = (\<lambda>a. le a mod GetBigIntOrder), GeScalarMult = (\<lambda>a g. le a * g mod GetBigIntOrder),
      GeAdd = (\<lambda>g h. (g + h) mod GetBigIntOrder), ToBytes = bytes_le 32, FromBytes = (\<lambda>bs old. (le bs, True)),
      FeNegXT = (\<lambda>g. (- g) mod GetBigIntOrder), GeDoubleScalarMult = (\<lambda>a g b. bytes_le 32 ((le a * g + le b) mod GetBigIntOrder))\<rparr>"

definition dlog_rep :: "int \<Rightarrow> int \<Rightarrow> bool" where
  "dlog_rep g n \<longleftrightarrow> g = n mod GetBigIntOrder"

lemma dlog_laws: "ed_laws dlog_ops dlog_rep"
proof -
  have "bytes_le 32 (m mod GetBigIntOrder) = bytes_le 32 (n mod GetBigIntOrder) \<longleftrightarrow> m mod GetBigIntOrder = n mod GetBigIntOrder" for m n
    using le_reduced by metis
  moreover have "(le a * (m mod GetBigIntOrder) + le b) mod GetBigIntOrder = (le a * m + le b) mod GetBigIntOrder" for a b m
    by (metis mod_add_left_eq mod_mult_right_eq)
  ultimately show ?thesis by (auto simp: ed_laws_def dlog_ops_def dlog_rep_def mod_simps)
qed

end
