(* ===== verification/EdKeygen.thy ===== *)
theory EdKeygen
  imports EdCrypto KeygenRounds
begin

text \<open>
  \<^verbatim>\<open>smpc-lib/eddsa/keygen\<close>: the key generation for Ed25519.  The messages embed the same structure as those of
  ECDSA (\<open>KGRoundMessage\<close>), and the node is run by the same driver.  The state of a node has the fields of
  \<^verbatim>\<open>LocalDNode\<close> and of the \<^verbatim>\<open>base\<close> object the rounds share, and the bytes \<^verbatim>\<open>crypto/rand\<close> will deliver.
\<close>

section \<open>Messages\<close>

datatype EdKGMessage =
  EdKGRound0Message (ek_base: KGRoundMessage)
| EdKGRound1Message (ek_base: KGRoundMessage) (ek_CPk: "byte list")
| EdKGRound2Message (ek_base: KGRoundMessage) (ek_ZkPk: "byte list")
| EdKGRound3Message (ek_base: KGRoundMessage) (ek_DPk: "byte list")
| EdKGRound4Message (ek_base: KGRoundMessage) (ek_Share: "byte list")
| EdKGRound5Message (ek_base: KGRoundMessage) (ek_CfsBBytes: "byte list list")

fun ek_GetMsgType :: "EdKGMessage \<Rightarrow> string" where
  "ek_GetMsgType (EdKGRound0Message _) = ''KGRound0Message''"
| "ek_GetMsgType (EdKGRound1Message _ _) = ''KGRound1Message''"
| "ek_GetMsgType (EdKGRound2Message _ _) = ''KGRound2Message''"
| "ek_GetMsgType (EdKGRound3Message _ _) = ''KGRound3Message''"
| "ek_GetMsgType (EdKGRound4Message _ _) = ''KGRound4Message''"
| "ek_GetMsgType (EdKGRound5Message _ _) = ''KGRound5Message''"

fun ek_IsBroadcast :: "EdKGMessage \<Rightarrow> bool" where
  "ek_IsBroadcast (EdKGRound4Message _ _) = False"
| "ek_IsBroadcast _ = True"

definition ek_GetFromID :: "EdKGMessage \<Rightarrow> string" where
  "ek_GetFromID msg = FromID (ek_base msg)"

definition ek_GetFromIndex :: "EdKGMessage \<Rightarrow> int" where
  "ek_GetFromIndex msg = FromIndex (ek_base msg)"

section \<open>The state\<close>

type_synonym ek_slots = "EdKGMessage option list"

record EdSaveData =
  es_Sk :: "byte list"
  es_Pk :: "byte list"
  es_TSk :: "byte list"
  es_FinalPkBytes :: "byte list"
  es_IDs :: "int option list"
  es_CurDNodeID :: "int option"

record EdKgTemp =
  ek_Round0Messages :: ek_slots
  ek_Round1Messages :: ek_slots
  ek_Round2Messages :: ek_slots
  ek_Round3Messages :: ek_slots
  ek_Round4Messages :: ek_slots
  ek_Round5Messages :: ek_slots
  et_sk :: "byte list"
  et_pk :: "byte list"
  et_DPk :: "byte list"
  et_zkPk :: "byte list"
  et_cfsBBytes :: "byte list list"
  et_uids :: "byte list list"

record EdKgNode =
  en_ID :: string
  en_rnd :: "nat option"
  en_DNodeCountInGroup :: int
  en_ThresHold :: int
  en_temp :: EdKgTemp
  en_data :: EdSaveData
  en_out :: "EdKGMessage list"
  en_end :: "EdSaveData list"
  en_ok :: "bool list"
  en_started :: bool
  en_number :: nat
  en_dnodeid :: string
  en_dnodecount :: int
  en_threshold :: int
  en_rand :: "byte list"

definition zeros :: "nat \<Rightarrow> byte list" where
  "zeros n = replicate n 0"

definition ed_NewSaveData :: EdSaveData where
  "ed_NewSaveData =
     \<lparr>es_Sk = zeros 32, es_Pk = zeros 32, es_TSk = zeros 32, es_FinalPkBytes = zeros 32, es_IDs = [], es_CurDNodeID = None\<rparr>"

definition ed_NewLocalDNode :: "int \<Rightarrow> int \<Rightarrow> byte list \<Rightarrow> EdKgNode option res" where
  "ed_NewLocalDNode DNodeCountInGroup threshold rand =
     (case ReadFull 32 rand of
        Ok (i, rand) \<Rightarrow>
          if DNodeCountInGroup < 0 then Panic ''makeslice: len out of range''
          else
          let none = replicate (nat DNodeCountInGroup) None
          in Ok (Some \<lparr>en_ID = EncodeToString (ScMulAdd i sc_one sc_zero), en_rnd = None,
                en_DNodeCountInGroup = DNodeCountInGroup, en_ThresHold = threshold,
                en_temp = \<lparr>ek_Round0Messages = [], ek_Round1Messages = none, ek_Round2Messages = none, ek_Round3Messages = none,
                  ek_Round4Messages = none, ek_Round5Messages = none, et_sk = zeros 32, et_pk = zeros 32, et_DPk = zeros 64,
                  et_zkPk = zeros 64, et_cfsBBytes = [], et_uids = []\<rparr>,
                en_data = ed_NewSaveData, en_out = [], en_end = [], en_ok = [], en_started = False, en_number = 0,
                en_dnodeid = [], en_dnodecount = 0, en_threshold = 0, en_rand = rand\<rparr>)
      | _ \<Rightarrow> Ok None)"

definition ed_SetDNodeID :: "string \<Rightarrow> EdKgNode \<Rightarrow> EdKgNode" where
  "ed_SetDNodeID i p = p\<lparr>en_ID := EncodeToString (string_bytes i)\<rparr>"

definition ed_newRound0 :: "EdKgNode \<Rightarrow> EdKgNode \<times> nat option" where
  "ed_newRound0 p =
     (p\<lparr>en_ok := replicate (nat (en_DNodeCountInGroup p)) False, en_started := False, en_number := 0,
        en_dnodeid := en_ID p, en_dnodecount := en_DNodeCountInGroup p, en_threshold := en_ThresHold p\<rparr>, Some 0)"

section \<open>Storing messages\<close>

definition ek_CheckFull :: "ek_slots \<Rightarrow> bool" where
  "ek_CheckFull msg = (if length msg = 0 then False else list_all (\<lambda>v. v \<noteq> None) msg)"

definition ek_find :: "ek_slots \<Rightarrow> EdKGMessage \<Rightarrow> bool" where
  "ek_find l msg = list_ex (\<lambda>v. case v of None \<Rightarrow> False
     | Some v \<Rightarrow> ek_GetMsgType v = ek_GetMsgType msg \<and> ek_GetFromID v = ek_GetFromID msg) l"

fun ek_slots_of :: "EdKGMessage \<Rightarrow> EdKgTemp \<Rightarrow> ek_slots" where
  "ek_slots_of (EdKGRound0Message _) = ek_Round0Messages"
| "ek_slots_of (EdKGRound1Message _ _) = ek_Round1Messages"
| "ek_slots_of (EdKGRound2Message _ _) = ek_Round2Messages"
| "ek_slots_of (EdKGRound3Message _ _) = ek_Round3Messages"
| "ek_slots_of (EdKGRound4Message _ _) = ek_Round4Messages"
| "ek_slots_of (EdKGRound5Message _ _) = ek_Round5Messages"

fun ek_slots_update :: "EdKGMessage \<Rightarrow> ek_slots \<Rightarrow> EdKgTemp \<Rightarrow> EdKgTemp" where
  "ek_slots_update (EdKGRound0Message _) ms t = t\<lparr>ek_Round0Messages := ms\<rparr>"
| "ek_slots_update (EdKGRound1Message _ _) ms t = t\<lparr>ek_Round1Messages := ms\<rparr>"
| "ek_slots_update (EdKGRound2Message _ _) ms t = t\<lparr>ek_Round2Messages := ms\<rparr>"
| "ek_slots_update (EdKGRound3Message _ _) ms t = t\<lparr>ek_Round3Messages := ms\<rparr>"
| "ek_slots_update (EdKGRound4Message _ _) ms t = t\<lparr>ek_Round4Messages := ms\<rparr>"
| "ek_slots_update (EdKGRound5Message _ _) ms t = t\<lparr>ek_Round5Messages := ms\<rparr>"

definition ek_DulMessage :: "EdKgNode \<Rightarrow> EdKGMessage \<Rightarrow> bool" where
  "ek_DulMessage p msg = ek_find (ek_slots_of msg (en_temp p)) msg"

text \<open>\<^verbatim>\<open>p.temp.kgRoundXMessages[index] = msg\<close>\<close>

definition ek_put :: "int \<Rightarrow> EdKGMessage \<Rightarrow> EdKgNode \<Rightarrow> (EdKgNode, ek_slots) st" where
  "ek_put index msg p =
     tryr (slice_set (ek_slots_of msg (en_temp p)) index (Some msg)) p (\<lambda>ms.
       (p\<lparr>en_temp := ek_slots_update msg ms (en_temp p)\<rparr>, Ok ms))"

definition ek_StoreMessage :: "EdKgNode \<Rightarrow> EdKGMessage \<Rightarrow> (EdKgNode, bool) st" where
  "ek_StoreMessage p msg =
     (case msg of
        EdKGRound0Message _ \<Rightarrow>
          if \<not> ek_find (ek_Round0Messages (en_temp p)) msg then
            (let p = (if int (length (ek_Round0Messages (en_temp p))) < en_DNodeCountInGroup p
                      then p\<lparr>en_temp := (en_temp p)\<lparr>ek_Round0Messages := ek_Round0Messages (en_temp p) @ [Some msg]\<rparr>\<rparr>
                      else p)
             in (p, Ok (int (length (ek_Round0Messages (en_temp p))) = en_DNodeCountInGroup p)))
          else (p, Ok False)
      | _ \<Rightarrow>
          if ek_find (ek_slots_of msg (en_temp p)) msg then (p, Ok False)
          else bindst (ek_put (ek_GetFromIndex msg) msg p) (\<lambda>p ms.
            (p, Ok (int (length ms) = en_DNodeCountInGroup p \<and> ek_CheckFull ms))))"

section \<open>rounds.go\<close>

definition ek_CanProceed :: "EdKgNode \<Rightarrow> bool" where
  "ek_CanProceed p = (if \<not> en_started p then False else list_all (\<lambda>ok. ok) (en_ok p))"

definition ek_ResetOK :: "EdKgNode \<Rightarrow> EdKgNode" where
  "ek_ResetOK p = p\<lparr>en_ok := map (\<lambda>_. False) (en_ok p)\<rparr>"

definition ek_GetIDs :: "EdKgNode \<Rightarrow> int option list res" where
  "ek_GetIDs p =
     bindr (mapM (\<lambda>v. bindr (deref v) (\<lambda>v. decode_id (ek_GetFromID v))) (ek_Round0Messages (en_temp p))) sort_ids"

text \<open>The position of an identifier in a list; comparing with \<^verbatim>\<open>nil\<close> panics.\<close>

fun ek_position :: "int \<Rightarrow> int option list \<Rightarrow> int option \<Rightarrow> int res" where
  "ek_position k [] uid = Err ''get dnode index fail,no found in kgRound0Messages''"
| "ek_position k (v # vs) uid =
     bindr (deref v) (\<lambda>v. bindr (deref uid) (\<lambda>u. if v = u then Ok k else ek_position (k + 1) vs uid))"

definition ek_GetDNodeIDIndex :: "EdKgNode \<Rightarrow> string \<Rightarrow> int res" where
  "ek_GetDNodeIDIndex p i =
     (if i = [] \<or> int (length (ek_Round0Messages (en_temp p))) \<noteq> en_dnodecount p then Ok (-1)
      else bindr (ek_GetIDs p) (\<lambda>ids. bindr (decode_id i) (\<lambda>uid. ek_position 0 ids uid)))"

section \<open>Shared steps of the rounds\<close>

definition ek_from :: "EdKgNode \<Rightarrow> int \<Rightarrow> KGRoundMessage" where
  "ek_from p index = SetFromIndex index (SetFromID (en_dnodeid p) new_KGRoundMessage)"

definition ek_send :: "EdKGMessage \<Rightarrow> EdKgNode \<Rightarrow> EdKgNode" where
  "ek_send kg p = p\<lparr>en_out := en_out p @ [kg]\<rparr>"

definition ek_put_send :: "int \<Rightarrow> EdKGMessage \<Rightarrow> EdKgNode \<Rightarrow> (EdKgNode, unit) st" where
  "ek_put_send index kg p = bindst (ek_put index kg p) (\<lambda>p _. (ek_send kg p, Ok ()))"

definition ek_begin :: "nat \<Rightarrow> EdKgNode \<Rightarrow> (EdKgNode, unit) st" where
  "ek_begin n p =
     (if en_started p then (p, Err (if n \<le> 1 then ''round already started'' else ''ed,round already started''))
      else (ek_ResetOK (p\<lparr>en_number := n, en_started := True\<rparr>), Ok ()))"

definition ek_temp :: "(EdKgTemp \<Rightarrow> EdKgTemp) \<Rightarrow> EdKgNode \<Rightarrow> EdKgNode" where
  "ek_temp f p = p\<lparr>en_temp := f (en_temp p)\<rparr>"

definition ek_save :: "(EdSaveData \<Rightarrow> EdSaveData) \<Rightarrow> EdKgNode \<Rightarrow> EdKgNode" where
  "ek_save f p = p\<lparr>en_data := f (en_data p)\<rparr>"

definition ek_sample :: "EdKgNode \<Rightarrow> (byte list \<Rightarrow> ('a \<times> byte list) res) \<Rightarrow> (EdKgNode, 'a) st" where
  "ek_sample p f = tryr (f (en_rand p)) p (\<lambda>(a, rand). (p\<lparr>en_rand := rand\<rparr>, Ok a))"

text \<open>The type assertion on the slot \<open>k\<close> of a slice.\<close>

definition ek_slot :: "(EdKGMessage \<Rightarrow> bool) \<Rightarrow> string \<Rightarrow> ek_slots \<Rightarrow> nat \<Rightarrow> EdKGMessage res" where
  "ek_slot P e ms k =
     bindr (slice_get ms (int k)) (\<lambda>slot.
       case slot of Some msg \<Rightarrow> if P msg then Ok msg else Err e | None \<Rightarrow> Err e)"

section \<open>Rounds 0 to 3\<close>

definition ek_round0_Start :: "EdKgNode \<Rightarrow> (EdKgNode, unit) st" where
  "ek_round0_Start p =
     bindst (ek_begin 0 p) (\<lambda>p _.
       let kg = EdKGRound0Message (ek_from p (-1))
       in (ek_send kg (ek_temp (\<lambda>t. t\<lparr>ek_Round0Messages := ek_Round0Messages t @ [Some kg]\<rparr>) p), Ok ()))"

text \<open>The error of this read is only printed: the bytes that were read stay in the array, the others are 0.\<close>

definition read_or_zero :: "byte list \<Rightarrow> (byte list \<times> byte list) res" where
  "read_or_zero rand = Ok (take 32 (rand @ zeros 32), drop 32 rand)"

text \<open>\<^verbatim>\<open>sk[0] &= 248; sk[31] &= 127; sk[31] |= 64\<close>\<close>

definition clamp :: "byte list \<Rightarrow> byte list" where
  "clamp sk = (let sk = sk[0 := and (sk ! 0) 248]; sk = sk[31 := and (sk ! 31) 127] in sk[31 := or (sk ! 31) 64])"

definition ek_round1_Start :: "'g EdEnv \<Rightarrow> EdKgNode \<Rightarrow> (EdKgNode, unit) st" where
  "ek_round1_Start env p =
     bindst (ek_begin 1 p) (\<lambda>p _.
     bindst (ek_sample p read_or_zero) (\<lambda>p sk.
     let sk = ScReduce (clamp sk @ zeros 32); pk = base_bytes (ee_ops env) sk
     in bindst (ek_sample p (ed_Commit env pk)) (\<lambda>p (CPk, DPk).
        bindst (ek_sample p (ed_Prove2 env sk pk)) (\<lambda>p zkPk.
        let p = ek_temp (\<lambda>t. t\<lparr>et_sk := sk, et_pk := pk, et_DPk := DPk, et_zkPk := zkPk\<rparr>) p
        in tryr (ek_GetDNodeIDIndex p (en_dnodeid p)) p (\<lambda>index.
           ek_put_send index (EdKGRound1Message (ek_from p index) CPk)
             (ek_save (\<lambda>d. d\<lparr>es_Sk := sk, es_Pk := pk\<rparr>) p))))))"

definition ek_round2_Start :: "EdKgNode \<Rightarrow> (EdKgNode, unit) st" where
  "ek_round2_Start p =
     bindst (ek_begin 2 p) (\<lambda>p _.
     tryr (ek_GetIDs p) p (\<lambda>ids.
     let p = ek_save (\<lambda>d. d\<lparr>es_IDs := ids\<rparr>) p
     in tryr (ek_GetDNodeIDIndex p (en_dnodeid p)) p (\<lambda>curIndex.
        tryr (slice_get ids curIndex) p (\<lambda>cur.
          ek_put_send curIndex (EdKGRound2Message (ek_from p curIndex) (et_zkPk (en_temp p)))
            (ek_save (\<lambda>d. d\<lparr>es_CurDNodeID := cur\<rparr>) p)))))"

definition ek_round3_Start :: "EdKgNode \<Rightarrow> (EdKgNode, unit) st" where
  "ek_round3_Start p =
     bindst (ek_begin 3 p) (\<lambda>p _.
     tryr (ek_GetDNodeIDIndex p (en_dnodeid p)) p (\<lambda>curIndex.
       ek_put_send curIndex (EdKGRound3Message (ek_from p curIndex) (et_DPk (en_temp p))) p))"

section \<open>Round 4\<close>

text \<open>The checks of the messages of party \<open>k\<close>; the result is the key the party committed to.\<close>

definition ek_round4_check :: "'g EdEnv \<Rightarrow> EdKgNode \<Rightarrow> nat \<Rightarrow> byte list res" where
  "ek_round4_check env p k =
     bindr (ek_slot is_EdKGRound1Message ''round.Start get round1 msg fail'' (ek_Round1Messages (en_temp p)) k) (\<lambda>msg1.
     bindr (ek_slot is_EdKGRound3Message ''round.Start get round3 msg fail'' (ek_Round3Messages (en_temp p)) k) (\<lambda>msg3.
     if \<not> ed_Verify env (ek_CPk msg1) (ek_DPk msg3)
     then Err ''smpc back-end internal error:commitment check fail in req ed pubkey''
     else bindr (ek_slot is_EdKGRound2Message ''round.Start get round2 msg fail'' (ek_Round2Messages (en_temp p)) k) (\<lambda>msg2.
       if \<not> VerifyZk2 env (ek_ZkPk msg2) (drop 32 (ek_DPk msg3))
       then Err ''smpc back-end internal error:zeroknowledge check fail''
       else Ok (drop 32 (ek_DPk msg3)))))"

text \<open>\<^verbatim>\<open>a = SHA512(Pk, PkSet)\<close>, reduced.\<close>

definition key_factor :: "'g EdEnv \<Rightarrow> byte list \<Rightarrow> byte list list \<Rightarrow> byte list" where
  "key_factor env pk PkSet = ScReduce (ee_sha512 env (pk @ concat PkSet))"

text \<open>\<^verbatim>\<open>copy(tem[:], v.Bytes())\<close>: the bytes of the number, most significant first, and then zeros.\<close>

definition uid_bytes :: "int \<Rightarrow> byte list" where
  "uid_bytes v = take 32 (Bytes v @ zeros 32)"

fun ek_give_shares :: "int \<Rightarrow> byte list list \<Rightarrow> nat \<Rightarrow> int option list \<Rightarrow> EdKgNode \<Rightarrow> (EdKgNode, unit) st" where
  "ek_give_shares curIndex shares k [] p = (p, Ok ())"
| "ek_give_shares curIndex shares k (i # ids) p =
     tryr (slice_get shares (int k)) p (\<lambda>share.
     let b = ek_from p curIndex
     in if int k = curIndex
        then bindst (ek_put (int k) (EdKGRound4Message b share) p) (\<lambda>p _. ek_give_shares curIndex shares (Suc k) ids p)
        else ek_give_shares curIndex shares (Suc k) ids (ek_send (EdKGRound4Message (AppendToID (to_id i) b) share) p))"

definition ek_round4_Start :: "'g EdEnv \<Rightarrow> EdKgNode \<Rightarrow> (EdKgNode, unit) st" where
  "ek_round4_Start env p =
     bindst (ek_begin 4 p) (\<lambda>p _.
     tryr (ek_GetDNodeIDIndex p (en_dnodeid p)) p (\<lambda>curIndex.
     tryr (ek_GetIDs p) p (\<lambda>ids.
     tryr (mapM (ek_round4_check env p) [0..<length ids]) p (\<lambda>PkSet.
     tryr (bindr (slice_get (ek_Round3Messages (en_temp p)) curIndex) (\<lambda>slot.
             case slot of Some msg \<Rightarrow> if is_EdKGRound3Message msg then Ok msg else Err ''round get msg3 fail''
             | None \<Rightarrow> Err ''round get msg3 fail'')) p (\<lambda>msg3.
     let a = key_factor env (drop 32 (ek_DPk msg3)) PkSet; ask = ScMul a (et_sk (en_temp p))
     in tryr (mapM (\<lambda>v. bindr (deref v) (\<lambda>v. Ok (uid_bytes v))) ids) p (\<lambda>uids.
        let p = ek_temp (\<lambda>t. t\<lparr>et_uids := uids\<rparr>) p
        in bindst (ek_sample p (ed_Vss (ee_ops env) ask uids (en_threshold p) (en_dnodecount p))) (\<lambda>p (_, cfsBBytes, shares).
             ek_give_shares curIndex shares 0 ids (ek_temp (\<lambda>t. t\<lparr>et_cfsBBytes := cfsBBytes\<rparr>) p))))))))"

section \<open>Rounds 5 and 6\<close>

definition ek_round5_Start :: "EdKgNode \<Rightarrow> (EdKgNode, unit) st" where
  "ek_round5_Start p =
     bindst (ek_begin 5 p) (\<lambda>p _.
     tryr (ek_GetDNodeIDIndex p (en_dnodeid p)) p (\<lambda>curIndex.
       ek_put_send curIndex (EdKGRound5Message (ek_from p curIndex) (et_cfsBBytes (en_temp p))) p))"

text \<open>The three loops of round 6.\<close>

definition ek_round6_share :: "'g EdEnv \<Rightarrow> EdKgNode \<Rightarrow> int \<Rightarrow> nat \<Rightarrow> byte list res" where
  "ek_round6_share env p curIndex k =
     bindr (ek_slot is_EdKGRound4Message ''ed,round.start get round4 msg fail'' (ek_Round4Messages (en_temp p)) k) (\<lambda>msg4.
     bindr (ek_slot is_EdKGRound5Message ''ed,round.start get round5 msg fail'' (ek_Round5Messages (en_temp p)) k) (\<lambda>msg5.
     bindr (ek_slot is_EdKGRound3Message ''ed,round.start get round3 msg fail'' (ek_Round3Messages (en_temp p)) k) (\<lambda>msg3.
     bindr (slice_get (et_uids (en_temp p)) curIndex) (\<lambda>uid.
     bindr (VerifyVss (ee_ops env) (ek_Share msg4) uid (ek_CfsBBytes msg5)) (\<lambda>ok.
       if \<not> ok then Err ''smpc back-end internal error:vss share verification fail''
       else Ok (drop 32 (ek_DPk msg3)))))))"

definition ask_point :: "'g EdEnv \<Rightarrow> byte list list \<Rightarrow> byte list \<Rightarrow> 'g" where
  "ask_point env PkSet pk =
     GeScalarMult (ee_ops env) (key_factor env pk PkSet) (fst (FromBytes (ee_ops env) pk (ge_zero (ee_ops env))))"

definition ek_round6_sum :: "'g EdEnv \<Rightarrow> EdKgNode \<Rightarrow> byte list list \<Rightarrow> byte list \<Rightarrow> nat \<Rightarrow> byte list res" where
  "ek_round6_sum env p PkSet2 tSk k =
     bindr (ek_slot is_EdKGRound3Message ''ed,round.Start get round3 msg fail'' (ek_Round3Messages (en_temp p)) k) (\<lambda>msg3.
     let askB = ask_point env PkSet2 (drop 32 (ek_DPk msg3))
     in bindr (ek_slot is_EdKGRound5Message ''ed,round.Start get round5 msg fail'' (ek_Round5Messages (en_temp p)) k) (\<lambda>msg5.
        bindr (slice_get (ek_CfsBBytes msg5) 0) (\<lambda>tt.
        if ToBytes (ee_ops env) askB \<noteq> tt then Err ''smpc back-end internal error:VSS Coefficient verification fail''
        else bindr (ek_slot is_EdKGRound4Message ''ed,round.Start get round4 msg fail'' (ek_Round4Messages (en_temp p)) k) (\<lambda>msg4.
          Ok (ScAdd tSk (ek_Share msg4))))))"

definition ek_round6_point :: "'g EdEnv \<Rightarrow> EdKgNode \<Rightarrow> byte list list \<Rightarrow> nat \<Rightarrow> 'g res" where
  "ek_round6_point env p PkSet2 k =
     bindr (ek_slot is_EdKGRound3Message ''ed,round.Start get round3 msg fail'' (ek_Round3Messages (en_temp p)) k) (\<lambda>msg3.
       Ok (ask_point env PkSet2 (drop 32 (ek_DPk msg3))))"

text \<open>The first point, and then \<^verbatim>\<open>GeAdd\<close>; the zero value when there is none.\<close>

fun ed_sum_points :: "'g EdOps \<Rightarrow> 'g list \<Rightarrow> 'g" where
  "ed_sum_points G [] = ge_zero G"
| "ed_sum_points G (g # gs) = foldl (GeAdd G) g gs"

definition ek_round6_Start :: "'g EdEnv \<Rightarrow> EdKgNode \<Rightarrow> (EdKgNode, unit) st" where
  "ek_round6_Start env p =
     bindst (ek_begin 6 p) (\<lambda>p _.
     tryr (ek_GetDNodeIDIndex p (en_dnodeid p)) p (\<lambda>curIndex.
     tryr (ek_GetIDs p) p (\<lambda>ids.
     tryr (mapM (ek_round6_share env p curIndex) [0..<length ids]) p (\<lambda>PkSet2.
     tryr (foldM (ek_round6_sum env p PkSet2) (zeros 32) [0..<length ids]) p (\<lambda>tSk.
     tryr (mapM (ek_round6_point env p PkSet2) [0..<length ids]) p (\<lambda>points.
     let finalPkBytes = ToBytes (ee_ops env) (ed_sum_points (ee_ops env) points);
         p = ek_save (\<lambda>d. d\<lparr>es_TSk := tSk, es_FinalPkBytes := finalPkBytes\<rparr>) p
     in (p\<lparr>en_end := en_end p @ [en_data p]\<rparr>, Ok ())))))))"

section \<open>CanAccept, Update and NextRound\<close>

definition ek_CanAccept :: "nat \<Rightarrow> EdKGMessage \<Rightarrow> bool" where
  "ek_CanAccept n msg =
     (if n = 0 then is_EdKGRound0Message msg \<and> ek_IsBroadcast msg
      else if n = 1 then is_EdKGRound1Message msg \<and> ek_IsBroadcast msg
      else if n = 2 then is_EdKGRound2Message msg \<and> ek_IsBroadcast msg
      else if n = 3 then is_EdKGRound3Message msg \<and> ek_IsBroadcast msg
      else if n = 4 then is_EdKGRound4Message msg \<and> \<not> ek_IsBroadcast msg
      else if n = 5 then is_EdKGRound5Message msg \<and> ek_IsBroadcast msg
      else False)"

definition ek_round_slots :: "nat \<Rightarrow> EdKgTemp \<Rightarrow> ek_slots" where
  "ek_round_slots n t =
     (if n = 0 then ek_Round0Messages t else if n = 1 then ek_Round1Messages t else if n = 2 then ek_Round2Messages t
      else if n = 3 then ek_Round3Messages t else if n = 4 then ek_Round4Messages t else ek_Round5Messages t)"

fun ek_update_loop :: "nat \<Rightarrow> nat \<Rightarrow> ek_slots \<Rightarrow> EdKgNode \<Rightarrow> (EdKgNode, bool) st" where
  "ek_update_loop n j [] p = (p, Ok True)"
| "ek_update_loop n j (msg # ms) p =
     tryr (slice_get (en_ok p) (int j)) p (\<lambda>okj.
       if okj then ek_update_loop n (Suc j) ms p
       else case msg of
         None \<Rightarrow> (p, Ok False)
       | Some m \<Rightarrow> if \<not> ek_CanAccept n m then (p, Ok False)
                    else ek_update_loop n (Suc j) ms (p\<lparr>en_ok := (en_ok p)[j := True]\<rparr>))"

definition ek_Update :: "EdKgNode \<Rightarrow> (EdKgNode, bool) st" where
  "ek_Update p =
     (case en_rnd p of
        None \<Rightarrow> (p, Panic ''nil pointer dereference'')
      | Some n \<Rightarrow> if n < 6 then ek_update_loop n 0 (ek_round_slots n (en_temp p)) p else (p, Ok False))"

definition ek_NextRound :: "EdKgNode \<Rightarrow> EdKgNode \<times> nat option" where
  "ek_NextRound p =
     (case en_rnd p of
        None \<Rightarrow> (p, None)
      | Some n \<Rightarrow> if n < 6 then (p\<lparr>en_started := False\<rparr>, Some (n + 1)) else (p, None))"

definition ek_Start :: "'g EdEnv \<Rightarrow> EdKgNode \<Rightarrow> (EdKgNode, unit) st" where
  "ek_Start env p =
     (case en_rnd p of
        None \<Rightarrow> (p, Panic ''nil pointer dereference'')
      | Some n \<Rightarrow>
          if n = 0 then ek_round0_Start p
          else if n = 1 then ek_round1_Start env p
          else if n = 2 then ek_round2_Start p
          else if n = 3 then ek_round3_Start p
          else if n = 4 then ek_round4_Start env p
          else if n = 5 then ek_round5_Start p
          else ek_round6_Start env p)"

definition ek_node :: "'g EdEnv \<Rightarrow> (EdKgNode, EdKGMessage) DNode" where
  "ek_node env =
     \<lparr>dn_DNodeID = en_ID, dn_Round = en_rnd, dn_rnd = (\<lambda>r p. p\<lparr>en_rnd := r\<rparr>),
      dn_Finalize = (\<lambda>_. False), dn_FinalizeRound = (\<lambda>p. (p, None)), dn_FirstRound = ed_newRound0,
      dn_StoreMessage = ek_StoreMessage, dn_Start = ek_Start env, dn_Update = ek_Update,
      dn_CanProceed = ek_CanProceed, dn_NextRound = ek_NextRound, dn_ResetOK = ek_ResetOK\<rparr>"

end
