(* ===== verification/EdSigning.thy ===== *)
theory EdSigning
  imports EdKeygen Signing
begin

text \<open>
  \<^verbatim>\<open>smpc-lib/eddsa/signing\<close>: the signing protocol for Ed25519, in seven rounds.  The signers commit to points \<open>R\<close>,
  open them, commit to their part of the number \<open>S\<close> times the base point, open it, and add up the parts.  The messages embed
  the same structure as those of ECDSA signing (\<open>SignRoundMessage\<close>).  \<^verbatim>\<open>ed25519.Verify\<close> of the package
  \<^verbatim>\<open>agl/ed25519\<close> is the field \<open>ee_Verify\<close> of the environment.
\<close>

section \<open>Messages\<close>

datatype EdSignMessage =
  EdSignRound1Message (xm_base: SignRoundMessage) (xm_CR: "byte list")
| EdSignRound2Message (xm_base: SignRoundMessage) (xm_ZkR: "byte list")
| EdSignRound3Message (xm_base: SignRoundMessage) (xm_DR: "byte list")
| EdSignRound4Message (xm_base: SignRoundMessage) (xm_CSB: "byte list")
| EdSignRound5Message (xm_base: SignRoundMessage) (xm_DSB: "byte list")
| EdSignRound6Message (xm_base: SignRoundMessage) (xm_S: "byte list")

fun xs_GetMsgType :: "EdSignMessage \<Rightarrow> string" where
  "xs_GetMsgType (EdSignRound1Message _ _) = ''SignRound1Message''"
| "xs_GetMsgType (EdSignRound2Message _ _) = ''SignRound2Message''"
| "xs_GetMsgType (EdSignRound3Message _ _) = ''SignRound3Message''"
| "xs_GetMsgType (EdSignRound4Message _ _) = ''SignRound4Message''"
| "xs_GetMsgType (EdSignRound5Message _ _) = ''SignRound5Message''"
| "xs_GetMsgType (EdSignRound6Message _ _) = ''SignRound6Message''"

definition xs_IsBroadcast :: "EdSignMessage \<Rightarrow> bool" where
  "xs_IsBroadcast msg = True"

definition xs_GetFromID :: "EdSignMessage \<Rightarrow> string" where
  "xs_GetFromID msg = sm_FromID (xm_base msg)"

definition xs_GetFromIndex :: "EdSignMessage \<Rightarrow> int" where
  "xs_GetFromIndex msg = sm_FromIndex (xm_base msg)"

section \<open>The state\<close>

type_synonym xs_slots = "EdSignMessage option list"

record EdSignData =
  Rx :: "byte list"
  Sx :: "byte list"

record EdSignTemp =
  xs_Round1Messages :: xs_slots
  xs_Round2Messages :: xs_slots
  xs_Round3Messages :: xs_slots
  xs_Round4Messages :: xs_slots
  xs_Round5Messages :: xs_slots
  xs_Round6Messages :: xs_slots
  xt_uids :: "byte list list"
  xt_sk :: "byte list"
  xt_tsk :: "byte list"
  xt_pkfinal :: "byte list"
  xt_message :: "byte list"
  xt_DR :: "byte list"
  xt_zkR :: "byte list"
  xt_r :: "byte list"
  xt_s :: "byte list"
  xt_sBBytes :: "byte list"
  xt_DSB :: "byte list"
  xt_FinalRBytes :: "byte list"

record EdSignNode =
  xn_ID :: string
  xn_rnd :: "nat option"
  xn_ThresHold :: int
  xn_PaillierKeyLength :: int
  xn_temp :: EdSignTemp
  xn_save :: EdSaveData
  xn_idsign :: "int list"
  xn_out :: "EdSignMessage list"
  xn_end :: "EdSignData list"
  xn_finalize :: bool
  xn_txhash :: "int option"
  xn_ok :: "bool list"
  xn_started :: bool
  xn_number :: nat
  xn_kgid :: string
  xn_threshold :: int
  xn_rand :: "byte list"

definition xs_NewLocalDNode ::
  "EdSaveData \<Rightarrow> int list \<Rightarrow> int \<Rightarrow> int \<Rightarrow> int \<Rightarrow> bool \<Rightarrow> int option \<Rightarrow> byte list \<Rightarrow> EdSignNode res" where
  "xs_NewLocalDNode save idsign kgid threshold paillierkeylength finalize txhash rand =
     (if threshold < 0 then Panic ''makeslice: len out of range''
      else
      let none = replicate (nat threshold) None
      in Ok \<lparr>xn_ID = EncodeToString (uid_bytes kgid), xn_rnd = None, xn_ThresHold = threshold,
           xn_PaillierKeyLength = paillierkeylength,
           xn_temp = \<lparr>xs_Round1Messages = none, xs_Round2Messages = none, xs_Round3Messages = none, xs_Round4Messages = none,
             xs_Round5Messages = none, xs_Round6Messages = none, xt_uids = [], xt_sk = zeros 32, xt_tsk = zeros 32,
             xt_pkfinal = zeros 32, xt_message = [], xt_DR = zeros 64, xt_zkR = zeros 64, xt_r = zeros 32, xt_s = zeros 32,
             xt_sBBytes = zeros 32, xt_DSB = zeros 64, xt_FinalRBytes = zeros 32\<rparr>,
           xn_save = save, xn_idsign = idsign, xn_out = [], xn_end = [], xn_finalize = finalize, xn_txhash = txhash,
           xn_ok = [], xn_started = False, xn_number = 0, xn_kgid = [], xn_threshold = 0, xn_rand = rand\<rparr>)"

definition xs_SetDNodeID :: "string \<Rightarrow> EdSignNode \<Rightarrow> EdSignNode" where
  "xs_SetDNodeID i p = p\<lparr>xn_ID := EncodeToString (string_bytes i)\<rparr>"

definition xs_newRound1 :: "EdSignNode \<Rightarrow> EdSignNode \<times> nat option" where
  "xs_newRound1 p =
     (p\<lparr>xn_ok := replicate (nat (xn_ThresHold p)) False, xn_started := False, xn_number := 0,
        xn_kgid := xn_ID p, xn_threshold := xn_ThresHold p\<rparr>, Some 1)"

section \<open>Storing messages\<close>

definition xs_CheckFull :: "xs_slots \<Rightarrow> bool" where
  "xs_CheckFull msg = (if length msg = 0 then False else list_all (\<lambda>v. v \<noteq> None) msg)"

definition xs_find :: "xs_slots \<Rightarrow> EdSignMessage \<Rightarrow> bool" where
  "xs_find l msg = list_ex (\<lambda>v. case v of None \<Rightarrow> False
     | Some v \<Rightarrow> xs_GetMsgType v = xs_GetMsgType msg \<and> xs_GetFromID v = xs_GetFromID msg) l"

fun xs_slots_of :: "EdSignMessage \<Rightarrow> EdSignTemp \<Rightarrow> xs_slots" where
  "xs_slots_of (EdSignRound1Message _ _) = xs_Round1Messages"
| "xs_slots_of (EdSignRound2Message _ _) = xs_Round2Messages"
| "xs_slots_of (EdSignRound3Message _ _) = xs_Round3Messages"
| "xs_slots_of (EdSignRound4Message _ _) = xs_Round4Messages"
| "xs_slots_of (EdSignRound5Message _ _) = xs_Round5Messages"
| "xs_slots_of (EdSignRound6Message _ _) = xs_Round6Messages"

fun xs_slots_update :: "EdSignMessage \<Rightarrow> xs_slots \<Rightarrow> EdSignTemp \<Rightarrow> EdSignTemp" where
  "xs_slots_update (EdSignRound1Message _ _) ms t = t\<lparr>xs_Round1Messages := ms\<rparr>"
| "xs_slots_update (EdSignRound2Message _ _) ms t = t\<lparr>xs_Round2Messages := ms\<rparr>"
| "xs_slots_update (EdSignRound3Message _ _) ms t = t\<lparr>xs_Round3Messages := ms\<rparr>"
| "xs_slots_update (EdSignRound4Message _ _) ms t = t\<lparr>xs_Round4Messages := ms\<rparr>"
| "xs_slots_update (EdSignRound5Message _ _) ms t = t\<lparr>xs_Round5Messages := ms\<rparr>"
| "xs_slots_update (EdSignRound6Message _ _) ms t = t\<lparr>xs_Round6Messages := ms\<rparr>"

definition xs_DulMessage :: "EdSignNode \<Rightarrow> EdSignMessage \<Rightarrow> bool" where
  "xs_DulMessage p msg = xs_find (xs_slots_of msg (xn_temp p)) msg"

definition xs_put :: "int \<Rightarrow> EdSignMessage \<Rightarrow> EdSignNode \<Rightarrow> (EdSignNode, xs_slots) st" where
  "xs_put index msg p =
     tryr (slice_set (xs_slots_of msg (xn_temp p)) index (Some msg)) p (\<lambda>ms.
       (p\<lparr>xn_temp := xs_slots_update msg ms (xn_temp p)\<rparr>, Ok ms))"

definition xs_StoreMessage :: "EdSignNode \<Rightarrow> EdSignMessage \<Rightarrow> (EdSignNode, bool) st" where
  "xs_StoreMessage p msg =
     (if xs_find (xs_slots_of msg (xn_temp p)) msg then (p, Ok False)
      else bindst (xs_put (xs_GetFromIndex msg) msg p) (\<lambda>p ms.
        (p, Ok (int (length ms) = xn_ThresHold p \<and> xs_CheckFull ms))))"

section \<open>rounds.go\<close>

definition xs_CanProceed :: "EdSignNode \<Rightarrow> bool" where
  "xs_CanProceed p = (if \<not> xn_started p then False else list_all (\<lambda>ok. ok) (xn_ok p))"

definition xs_ResetOK :: "EdSignNode \<Rightarrow> EdSignNode" where
  "xs_ResetOK p = p\<lparr>xn_ok := map (\<lambda>_. False) (xn_ok p)\<rparr>"

definition xs_GetIDs :: "EdSignNode \<Rightarrow> int list res" where
  "xs_GetIDs p = Ok (xn_idsign p)"

definition xs_GetDNodeIDIndex :: "EdSignNode \<Rightarrow> string \<Rightarrow> int res" where
  "xs_GetDNodeIDIndex p i =
     (if i = [] then Ok (-1)
      else bindr (decode_id i) (\<lambda>idtmp.
           bindr (index_of idtmp (xn_idsign p) 0) (\<lambda>k.
             ofOption ''get dnode index fail,no found in kgRound0Messages'' k)))"

section \<open>Shared steps of the rounds\<close>

definition xs_from :: "EdSignNode \<Rightarrow> int \<Rightarrow> SignRoundMessage" where
  "xs_from p index = sm_SetFromIndex index (sm_SetFromID (xn_kgid p) \<lparr>sm_FromID = [], sm_FromIndex = 0, sm_ToID = []\<rparr>)"

definition xs_send :: "EdSignMessage \<Rightarrow> EdSignNode \<Rightarrow> EdSignNode" where
  "xs_send srm p = p\<lparr>xn_out := xn_out p @ [srm]\<rparr>"

definition xs_put_send :: "int \<Rightarrow> EdSignMessage \<Rightarrow> EdSignNode \<Rightarrow> (EdSignNode, unit) st" where
  "xs_put_send index srm p = bindst (xs_put index srm p) (\<lambda>p _. (xs_send srm p, Ok ()))"

definition xs_started :: "nat \<Rightarrow> string" where
  "xs_started n =
     (if n = 1 then ''ed sign,round1 already started'' else if n = 2 then ''ed sign,round2 already started''
      else if n = 3 then ''ed sign,round3 already started'' else if n = 4 then ''ed sign,round4 already started''
      else if n = 5 then ''round already started'' else ''ed sign,round already started'')"

definition xs_begin :: "nat \<Rightarrow> EdSignNode \<Rightarrow> (EdSignNode, unit) st" where
  "xs_begin n p =
     (if xn_started p then (p, Err (xs_started n))
      else (xs_ResetOK (p\<lparr>xn_number := n, xn_started := True\<rparr>), Ok ()))"

definition xs_temp :: "(EdSignTemp \<Rightarrow> EdSignTemp) \<Rightarrow> EdSignNode \<Rightarrow> EdSignNode" where
  "xs_temp f p = p\<lparr>xn_temp := f (xn_temp p)\<rparr>"

definition xs_sample :: "EdSignNode \<Rightarrow> (byte list \<Rightarrow> ('a \<times> byte list) res) \<Rightarrow> (EdSignNode, 'a) st" where
  "xs_sample p f = tryr (f (xn_rand p)) p (\<lambda>(a, rand). (p\<lparr>xn_rand := rand\<rparr>, Ok a))"

definition xs_slot :: "(EdSignMessage \<Rightarrow> bool) \<Rightarrow> string \<Rightarrow> xs_slots \<Rightarrow> nat \<Rightarrow> EdSignMessage res" where
  "xs_slot P e ms k =
     bindr (slice_get ms (int k)) (\<lambda>slot.
       case slot of Some msg \<Rightarrow> if P msg then Ok msg else Err e | None \<Rightarrow> Err e)"

text \<open>The sum of the points with the bytes \<open>bs\<close>: the first is assigned, the others are added.\<close>

definition add_point :: "'g EdOps \<Rightarrow> 'g \<times> 'g \<Rightarrow> nat \<Rightarrow> byte list \<Rightarrow> 'g \<times> 'g" where
  "add_point G st k bs =
     (case st of (acc, tem) \<Rightarrow>
        let tem = fst (FromBytes G bs tem) in (if k = 0 then tem else GeAdd G acc tem, tem))"

text \<open>\<^verbatim>\<open>k = SHA512(R, pk, M)\<close>, reduced.\<close>

definition ed_k :: "'g EdEnv \<Rightarrow> byte list \<Rightarrow> byte list \<Rightarrow> byte list \<Rightarrow> byte list" where
  "ed_k env R pk M = ScReduce (ee_sha512 env (R @ pk @ M))"

section \<open>signature\_data.go\<close>

record InputVerify =
  iv_FinalR :: "byte list"
  iv_FinalS :: "byte list"
  iv_Message :: "byte list"
  iv_FinalPk :: "byte list"

definition EdVerify :: "'g EdEnv \<Rightarrow> InputVerify \<Rightarrow> bool" where
  "EdVerify env input =
     (let G = ee_ops env;
          k = ed_k env (iv_FinalR input) (iv_FinalPk input) (iv_Message input);
          pkB = fst (FromBytes G (iv_FinalPk input) (ge_zero G));
          R = fst (FromBytes G (iv_FinalR input) (ge_zero G));
          sBCal = GeAdd G R (GeScalarMult G k pkB)
      in ToBytes G (GeScalarMultBase G (iv_FinalS input)) = ToBytes G sBCal)"

definition ed_lib_Verify :: "'g EdEnv \<Rightarrow> byte list \<Rightarrow> byte list \<Rightarrow> byte list \<Rightarrow> bool" where
  "ed_lib_Verify env publicKey message sig =
     (if length publicKey \<noteq> 32 then False
      else if length sig \<noteq> 64 \<or> and (sig ! 63) 224 \<noteq> 0 then False
      else case FromBytes (ee_ops env) publicKey (ge_zero (ee_ops env)) of
        (A, ok) \<Rightarrow>
          if \<not> ok then False
          else
          let A = FeNegXT (ee_ops env) A;
              hReduced = ed_k env (take 32 sig) publicKey message;
              s = drop 32 sig
          in if \<not> ScMinimal s then False else take 32 sig = GeDoubleScalarMult (ee_ops env) hReduced A s)"

section \<open>Rounds 1 to 3\<close>

definition xs_round1_Start :: "'g EdEnv \<Rightarrow> EdSignNode \<Rightarrow> (EdSignNode, unit) st" where
  "xs_round1_Start env p =
     bindst (xs_begin 1 p) (\<lambda>p _.
     tryr (xs_GetDNodeIDIndex p (xn_kgid p)) p (\<lambda>curIndex.
     tryr (mapM (\<lambda>v. bindr (deref v) (\<lambda>v. Ok (uid_bytes v))) (es_IDs (xn_save p))) p (\<lambda>uids.
     let p = xs_temp (\<lambda>t. t\<lparr>xt_uids := uids, xt_sk := es_Sk (xn_save p), xt_tsk := es_TSk (xn_save p),
               xt_pkfinal := es_FinalPkBytes (xn_save p)\<rparr>) p
     in case xn_txhash p of
          None \<Rightarrow> (p, Err ''no unsign hash'')
        | Some txhash \<Rightarrow>
            let p = xs_temp (\<lambda>t. t\<lparr>xt_message := Bytes txhash\<rparr>) p
            in bindst (xs_sample p (ReadFull 32)) (\<lambda>p r.
               let r = ScReduce (r @ zeros 32); RBytes = base_bytes (ee_ops env) r
               in bindst (xs_sample p (ed_Commit env RBytes)) (\<lambda>p (CR, DR).
                  bindst (xs_sample p (ed_Prove2 env r RBytes)) (\<lambda>p zkR.
                    xs_put_send curIndex (EdSignRound1Message (xs_from p curIndex) CR)
                      (xs_temp (\<lambda>t. t\<lparr>xt_DR := DR, xt_zkR := zkR, xt_r := r\<rparr>) p)))))))"

definition xs_round2_Start :: "EdSignNode \<Rightarrow> (EdSignNode, unit) st" where
  "xs_round2_Start p =
     bindst (xs_begin 2 p) (\<lambda>p _.
     tryr (xs_GetDNodeIDIndex p (xn_kgid p)) p (\<lambda>curIndex.
       xs_put_send curIndex (EdSignRound2Message (xs_from p curIndex) (xt_zkR (xn_temp p))) p))"

definition xs_round3_Start :: "EdSignNode \<Rightarrow> (EdSignNode, unit) st" where
  "xs_round3_Start p =
     bindst (xs_begin 3 p) (\<lambda>p _.
     tryr (xs_GetDNodeIDIndex p (xn_kgid p)) p (\<lambda>curIndex.
       xs_put_send curIndex (EdSignRound3Message (xs_from p curIndex) (xt_DR (xn_temp p))) p))"

section \<open>Round 4\<close>

text \<open>The checks of party \<open>k\<close>, and its point is added to \<^verbatim>\<open>FinalR\<close>.\<close>

definition xs_round4_step :: "'g EdEnv \<Rightarrow> EdSignNode \<Rightarrow> 'g \<times> 'g \<Rightarrow> nat \<Rightarrow> ('g \<times> 'g) res" where
  "xs_round4_step env p st k =
     bindr (xs_slot is_EdSignRound1Message ''get cr fail'' (xs_Round1Messages (xn_temp p)) k) (\<lambda>msg1.
     bindr (xs_slot is_EdSignRound3Message ''get dr fail'' (xs_Round3Messages (xn_temp p)) k) (\<lambda>msg3.
     if \<not> ed_Verify env (xm_CR msg1) (xm_DR msg3)
     then Err ''smpc back-end internal error:commitment verification fail in ed sign''
     else bindr (xs_slot is_EdSignRound2Message ''get zkr fail'' (xs_Round2Messages (xn_temp p)) k) (\<lambda>msg2.
       let temR = drop 32 (xm_DR msg3)
       in if \<not> VerifyZk2 env (xm_ZkR msg2) temR
          then Err ''smpc back-end internal error:zeroknowledge verification fail in ed sign''
          else Ok (add_point (ee_ops env) st k temR))))"

text \<open>The Lagrange coefficient of the node for the signers \<open>ids\<close>.\<close>

definition xs_lambda_step :: "int \<Rightarrow> byte list \<Rightarrow> byte list \<Rightarrow> nat \<times> int \<Rightarrow> byte list res" where
  "xs_lambda_step curIndex curByte lambda kv =
     (case kv of (kk, vv) \<Rightarrow>
        if int kk = curIndex then Ok lambda
        else
        let t = uid_bytes vv; time = ScModInverse (ScSub t curByte)
        in if inverse_failed time then Err ''calc time mod inverse fail''
           else Ok (ScMul lambda (ScMul time t)))"

definition xs_round4_Start :: "'g EdEnv \<Rightarrow> EdSignNode \<Rightarrow> (EdSignNode, unit) st" where
  "xs_round4_Start env p =
     bindst (xs_begin 4 p) (\<lambda>p _.
     tryr (xs_GetDNodeIDIndex p (xn_kgid p)) p (\<lambda>curIndex.
     tryr (foldM (xs_round4_step env p) (ge_zero (ee_ops env), ge_zero (ee_ops env)) [0..<length (xn_idsign p)]) p (\<lambda>(FinalR, _).
     let FinalRBytes = ToBytes (ee_ops env) FinalR;
         p = xs_temp (\<lambda>t. t\<lparr>xt_FinalRBytes := FinalRBytes\<rparr>) p;
         k = ed_k env FinalRBytes (xt_pkfinal (xn_temp p)) (xt_message (xn_temp p))
     in tryr (deref (es_CurDNodeID (xn_save p))) p (\<lambda>cur.
        tryr (foldM (xs_lambda_step curIndex (uid_bytes cur)) sc_one (enumerate 0 (xn_idsign p))) p (\<lambda>lambda.
        let s = ScAdd (ScMul (ScMul lambda (xt_tsk (xn_temp p))) k) (xt_r (xn_temp p));
            sBBytes = base_bytes (ee_ops env) s
        in bindst (xs_sample p (ed_Commit env sBBytes)) (\<lambda>p (CSB, DSB).
             xs_put_send curIndex (EdSignRound4Message (xs_from p curIndex) CSB)
               (xs_temp (\<lambda>t. t\<lparr>xt_DSB := DSB, xt_sBBytes := sBBytes, xt_s := s\<rparr>) p)))))))"

section \<open>Rounds 5 to 7\<close>

definition xs_round5_Start :: "EdSignNode \<Rightarrow> (EdSignNode, unit) st" where
  "xs_round5_Start p =
     bindst (xs_begin 5 p) (\<lambda>p _.
     tryr (xs_GetDNodeIDIndex p (xn_kgid p)) p (\<lambda>curIndex.
       xs_put_send curIndex (EdSignRound5Message (xs_from p curIndex) (xt_DSB (xn_temp p))) p))"

definition xs_round6_step :: "'g EdEnv \<Rightarrow> EdSignNode \<Rightarrow> 'g \<times> 'g \<Rightarrow> nat \<Rightarrow> ('g \<times> 'g) res" where
  "xs_round6_step env p st k =
     bindr (xs_slot is_EdSignRound4Message ''get csb fail'' (xs_Round4Messages (xn_temp p)) k) (\<lambda>msg4.
     bindr (xs_slot is_EdSignRound5Message ''get dsb fail'' (xs_Round5Messages (xn_temp p)) k) (\<lambda>msg5.
     if \<not> ed_Verify env (xm_CSB msg4) (xm_DSB msg5) then Err ''smpc back-end internal error:commitment(CSB) not pass''
     else Ok (add_point (ee_ops env) st k (drop 32 (xm_DSB msg5)))))"

text \<open>\<^verbatim>\<open>k * pk + R\<close>\<close>

definition sB_expected :: "'g EdEnv \<Rightarrow> EdSignTemp \<Rightarrow> 'g" where
  "sB_expected env t =
     (let G = ee_ops env; k2 = ed_k env (xt_FinalRBytes t) (xt_pkfinal t) (xt_message t)
      in GeAdd G (GeScalarMult G k2 (fst (FromBytes G (xt_pkfinal t) (ge_zero G))))
           (fst (FromBytes G (xt_FinalRBytes t) (ge_zero G))))"

definition xs_round6_Start :: "'g EdEnv \<Rightarrow> EdSignNode \<Rightarrow> (EdSignNode, unit) st" where
  "xs_round6_Start env p =
     bindst (xs_begin 6 p) (\<lambda>p _.
     tryr (xs_GetDNodeIDIndex p (xn_kgid p)) p (\<lambda>curIndex.
     tryr (foldM (xs_round6_step env p) (ge_zero (ee_ops env), ge_zero (ee_ops env)) [0..<length (xn_idsign p)]) p (\<lambda>(sB2, _).
     if ToBytes (ee_ops env) sB2 \<noteq> ToBytes (ee_ops env) (sB_expected env (xn_temp p))
     then (p, Err ''error: not pass verification (sb = sbcal)'')
     else xs_put_send curIndex (EdSignRound6Message (xs_from p curIndex) (xt_s (xn_temp p))) p)))"

definition xs_round7_step :: "EdSignNode \<Rightarrow> byte list \<Rightarrow> nat \<Rightarrow> byte list res" where
  "xs_round7_step p FinalS k =
     bindr (xs_slot is_EdSignRound6Message ''get s fail'' (xs_Round6Messages (xn_temp p)) k) (\<lambda>msg6.
       Ok (ScAdd FinalS (xm_S msg6)))"

definition xs_round7_Start :: "'g EdEnv \<Rightarrow> EdSignNode \<Rightarrow> (EdSignNode, unit) st" where
  "xs_round7_Start env p =
     bindst (xs_begin 7 p) (\<lambda>p _.
     tryr (foldM (xs_round7_step p) (zeros 32) [0..<length (xn_idsign p)]) p (\<lambda>s.
     let R = xt_FinalRBytes (xn_temp p); pk = xt_pkfinal (xn_temp p); M = xt_message (xn_temp p)
     in if \<not> EdVerify env \<lparr>iv_FinalR = R, iv_FinalS = s, iv_Message = M, iv_FinalPk = pk\<rparr> then (p, Err ''ed verify (r,s) fail'')
        else if \<not> ee_Verify env pk M (R @ s) then (p, Err ''ed verify (r,s) fail'')
        else (p\<lparr>xn_end := xn_end p @ [\<lparr>Rx = R, Sx = s\<rparr>]\<rparr>, Ok ())))"

section \<open>CanAccept, Update and NextRound\<close>

definition xs_CanAccept :: "nat \<Rightarrow> EdSignMessage \<Rightarrow> bool" where
  "xs_CanAccept n msg =
     (if n = 1 then is_EdSignRound1Message msg \<and> xs_IsBroadcast msg
      else if n = 2 then is_EdSignRound2Message msg \<and> xs_IsBroadcast msg
      else if n = 3 then is_EdSignRound3Message msg \<and> xs_IsBroadcast msg
      else if n = 4 then is_EdSignRound4Message msg \<and> xs_IsBroadcast msg
      else if n = 5 then is_EdSignRound5Message msg \<and> xs_IsBroadcast msg
      else if n = 6 then is_EdSignRound6Message msg \<and> xs_IsBroadcast msg
      else False)"

definition xs_round_slots :: "nat \<Rightarrow> EdSignTemp \<Rightarrow> xs_slots" where
  "xs_round_slots n t =
     (if n = 1 then xs_Round1Messages t else if n = 2 then xs_Round2Messages t else if n = 3 then xs_Round3Messages t
      else if n = 4 then xs_Round4Messages t else if n = 5 then xs_Round5Messages t else xs_Round6Messages t)"

fun xs_update_loop :: "nat \<Rightarrow> nat \<Rightarrow> xs_slots \<Rightarrow> EdSignNode \<Rightarrow> (EdSignNode, bool) st" where
  "xs_update_loop n j [] p = (p, Ok True)"
| "xs_update_loop n j (msg # ms) p =
     tryr (slice_get (xn_ok p) (int j)) p (\<lambda>okj.
       if okj then xs_update_loop n (Suc j) ms p
       else case msg of
         None \<Rightarrow> (p, Ok False)
       | Some m \<Rightarrow> if \<not> xs_CanAccept n m then (p, Ok False)
                    else xs_update_loop n (Suc j) ms (p\<lparr>xn_ok := (xn_ok p)[j := True]\<rparr>))"

definition xs_Update :: "EdSignNode \<Rightarrow> (EdSignNode, bool) st" where
  "xs_Update p =
     (case xn_rnd p of
        None \<Rightarrow> (p, Panic ''nil pointer dereference'')
      | Some n \<Rightarrow> if n < 7 then xs_update_loop n 0 (xs_round_slots n (xn_temp p)) p else (p, Ok False))"

definition xs_NextRound :: "EdSignNode \<Rightarrow> EdSignNode \<times> nat option" where
  "xs_NextRound p =
     (case xn_rnd p of
        None \<Rightarrow> (p, None)
      | Some n \<Rightarrow> if n < 7 then (p\<lparr>xn_started := False\<rparr>, Some (n + 1)) else (p, None))"

definition xs_Start :: "'g EdEnv \<Rightarrow> EdSignNode \<Rightarrow> (EdSignNode, unit) st" where
  "xs_Start env p =
     (case xn_rnd p of
        None \<Rightarrow> (p, Panic ''nil pointer dereference'')
      | Some n \<Rightarrow>
          if n = 1 then xs_round1_Start env p
          else if n = 2 then xs_round2_Start p
          else if n = 3 then xs_round3_Start p
          else if n = 4 then xs_round4_Start env p
          else if n = 5 then xs_round5_Start p
          else if n = 6 then xs_round6_Start env p
          else xs_round7_Start env p)"

definition xs_node :: "'g EdEnv \<Rightarrow> (EdSignNode, EdSignMessage) DNode" where
  "xs_node env =
     \<lparr>dn_DNodeID = xn_ID, dn_Round = xn_rnd, dn_rnd = (\<lambda>r p. p\<lparr>xn_rnd := r\<rparr>),
      dn_Finalize = xn_finalize, dn_FinalizeRound = (\<lambda>p. (p, None)), dn_FirstRound = xs_newRound1,
      dn_StoreMessage = xs_StoreMessage, dn_Start = xs_Start env, dn_Update = xs_Update,
      dn_CanProceed = xs_CanProceed, dn_NextRound = xs_NextRound, dn_ResetOK = xs_ResetOK\<rparr>"

end
