(* ===== verification/SaveData.thy ===== *)
theory SaveData
  imports Wire
begin

text \<open>
  The text form of the saved key data: \<^verbatim>\<open>OutMap\<close> and \<^verbatim>\<open>GetLocalDNodeSaveData\<close> of \<^verbatim>\<open>smpc-lib/ecdsa/keygen/save_data.go\<close>,
  and the wrapper \<^verbatim>\<open>KGLocalDBSaveData\<close> of \<^verbatim>\<open>smpc/key_ec.go\<close>, which adds the network name of every party.
\<close>

section \<open>Writing and reading\<close>

definition sd_OutMap :: "LocalDNodeSaveData \<Rightarrow> go_map res" where
  "sd_OutMap sd =
     bindr (deref (sd_U1PaillierSk sd)) (\<lambda>usk.
     bindr (mapM deref (sd_U1PaillierPk sd)) (\<lambda>pks.
     bindr (deref (sd_U1NtildePrivData sd)) (\<lambda>priv.
     bindr (mapM deref (sd_U1NtildeH1H2 sd)) (\<lambda>nts.
       Ok [(''Pkx'', Sprintf_v (sd_Pkx sd)), (''Pky'', Sprintf_v (sd_Pky sd)), (''C'', Sprintf_v (sd_C sd)),
           (''SkU1'', Sprintf_v (sd_SkU1 sd)), (''U1PaillierSk'', sk_MarshalJSON usk),
           (''U1PaillierPk'', Join (map pk_MarshalJSON pks) (CHR ''|'')), (''U1NtildePrivData'', npd_MarshalJSON priv),
           (''U1NtildeH1H2'', Join (map nt_MarshalJSON nts) (CHR ''|'')),
           (''IDs'', Join (map Sprintf_v (sd_IDs sd)) (CHR ''|'')), (''CurDNodeID'', Sprintf_v (sd_CurDNodeID sd))]))))"

text \<open>An error of a codec makes the result \<^verbatim>\<open>nil\<close>; a number that cannot be read is \<^verbatim>\<open>nil\<close>.\<close>

definition read_list :: "(string \<Rightarrow> 'a res) \<Rightarrow> string \<Rightarrow> 'a option list option" where
  "read_list dec s = those (map (\<lambda>v. parsed (dec v) (\<lambda>x. Some (Some x))) (Split s (CHR ''|'')))"

definition GetLocalDNodeSaveData :: "go_map \<Rightarrow> LocalDNodeSaveData option" where
  "GetLocalDNodeSaveData data =
     parsed (sk_UnmarshalJSON (at data ''U1PaillierSk'')) (\<lambda>usk.
       case read_list pk_UnmarshalJSON (at data ''U1PaillierPk'') of
         None \<Rightarrow> None
       | Some pk \<Rightarrow>
           parsed (npd_UnmarshalJSON (at data ''U1NtildePrivData'')) (\<lambda>priv.
             case read_list nt_UnmarshalJSON (at data ''U1NtildeH1H2'') of
               None \<Rightarrow> None
             | Some nt \<Rightarrow>
                 Some \<lparr>sd_Pkx = SetString10 (at data ''Pkx''), sd_Pky = SetString10 (at data ''Pky''),
                   sd_C = SetString10 (at data ''C''), sd_SkU1 = SetString10 (at data ''SkU1''),
                   sd_U1PaillierSk = Some usk, sd_U1PaillierPk = pk, sd_U1NtildePrivData = Some priv, sd_U1NtildeH1H2 = nt,
                   sd_IDs = map SetString10 (Split (at data ''IDs'') (CHR ''|'')),
                   sd_CurDNodeID = SetString10 (at data ''CurDNodeID'')\<rparr>))"

record KGLocalDBSaveData =
  ks_Save :: LocalDNodeSaveData
  ks_MsgToEnode :: go_map

definition ks_OutMap :: "KGLocalDBSaveData \<Rightarrow> go_map res" where
  "ks_OutMap ks =
     bindr (sd_OutMap (ks_Save ks)) (\<lambda>out.
       Ok (fold (\<lambda>(key, value) out. AList.update key value out) (ks_MsgToEnode ks) out))"

definition enode_key :: "int option \<Rightarrow> string" where
  "enode_key v = ToLower (EncodeToString (string_bytes (Sprintf_v v)))"

definition GetKGLocalDBSaveData :: "go_map \<Rightarrow> KGLocalDBSaveData res" where
  "GetKGLocalDBSaveData data =
     bindr (deref (GetLocalDNodeSaveData data)) (\<lambda>save.
       Ok \<lparr>ks_Save = save,
           ks_MsgToEnode = fold (\<lambda>v m. AList.update (enode_key v) (at data (enode_key v)) m) (sd_IDs save) []\<rparr>)"

section \<open>Round trips\<close>

lemma SetString10_nil: "SetString10 ''<nil>'' = None"
  by code_simp

lemma SetString10_Sprintf_v [simp]: "SetString10 (Sprintf_v n) = n"
  by (cases n) (simp_all add: Sprintf_v_def SetString10_nil)

text \<open>No text of a number or of a structure of numbers contains a bar.\<close>

lemma hex_digit_no_bar: "d < 16 \<Longrightarrow> hex_digit d \<noteq> CHR ''|''"
proof
  assume "d < 16" "hex_digit d = CHR ''|''"
  then have "hex_val (CHR ''|'') = Some d" using hex_val_digit by metis
  then show False by (simp add: hex_val_def)
qed

lemma bar_escape:
  assumes "CHR ''|'' \<in> set (escape c)"
  shows "c = CHR ''|''"
proof -
  have "of_char c div 16 < (16 :: nat)" by (rule less_mult_imp_div_less) simp
  moreover have "of_char c mod 16 < (16 :: nat)" by simp
  ultimately have h: "hex_digit (of_char c div 16) \<noteq> CHR ''|''" "hex_digit (of_char c mod 16) \<noteq> CHR ''|''"
    by (simp_all add: hex_digit_no_bar)
  have b: "backslash \<noteq> CHR ''|''" "CHR ''|'' \<noteq> quote" by (simp_all add: backslash_def quote_def)
  show ?thesis
  proof (rule ccontr)
    assume "c \<noteq> CHR ''|''"
    with h b have "CHR ''|'' \<notin> set (escape c)"
      by (simp only: escape_def split: if_splits) simp
    with assms show False by simp
  qed
qed

lemma bar_write_string: "CHR ''|'' \<in> set (write_string s) \<Longrightarrow> CHR ''|'' \<in> set s"
  using bar_escape by (fastforce simp: write_string_def quote_def)

lemma bar_json_Marshal:
  assumes "\<And>k v. (k, v) \<in> set fs \<Longrightarrow> CHR ''|'' \<notin> set k \<and> CHR ''|'' \<notin> set v"
  shows "CHR ''|'' \<notin> set (json_Marshal fs)"
proof -
  have "CHR ''|'' \<notin> set (write_members fs)"
    using assms by (induction fs rule: write_members.induct) (auto dest!: bar_write_string)
  then show ?thesis by (simp add: json_Marshal_def)
qed

lemma bar_Sprintf_v [simp]: "CHR ''|'' \<notin> set (Sprintf_v n)"
  using set_Sprintf_v by blast

lemma bar_show_int [simp]: "CHR ''|'' \<notin> set (show_int n)"
  using bar_Sprintf_v [of "Some n"] by simp

lemma digit_val_bar [simp]: "digit_val (CHR ''|'') = None"
  by (simp add: digit_val_def)

lemma parse_digits_no_bar: "parse_digits a s = Some n \<Longrightarrow> CHR ''|'' \<notin> set s"
proof (induction s arbitrary: a)
  case (Cons c s)
  then show ?case by (auto split: option.splits)
qed simp

lemma length_ok_no_bar: "length_ok s \<Longrightarrow> CHR ''|'' \<notin> set s"
  by (auto simp: length_ok_def Atoi_def SetString10_def parse_nat_def dest: parse_digits_no_bar
      split: res.splits option.splits list.splits if_splits)

lemma bar_pk: "pk_whole pk \<Longrightarrow> CHR ''|'' \<notin> set (pk_MarshalJSON pk)"
  unfolding pk_MarshalJSON_def pk_whole_def by (rule bar_json_Marshal) (auto dest: length_ok_no_bar)

lemma bar_nt: "CHR ''|'' \<notin> set (nt_MarshalJSON nt)"
  unfolding nt_MarshalJSON_def ints_MarshalJSON_def by (rule bar_json_Marshal) auto

definition sd_whole :: "LocalDNodeSaveData \<Rightarrow> bool" where
  "sd_whole sd =
     (pred_option sk_whole (sd_U1PaillierSk sd) \<and> sd_U1PaillierSk sd \<noteq> None \<and>
      sd_U1PaillierPk sd \<noteq> [] \<and> (\<forall>pk \<in> set (sd_U1PaillierPk sd). pk \<noteq> None \<and> pred_option pk_whole pk) \<and>
      sd_U1NtildePrivData sd \<noteq> None \<and> sd_U1NtildeH1H2 sd \<noteq> [] \<and> None \<notin> set (sd_U1NtildeH1H2 sd) \<and> sd_IDs sd \<noteq> [])"

lemma mapM_deref_pointers: "mapM deref (map Some xs) = Ok xs"
  by (induction xs) auto

lemma not_None_map_Some: "None \<notin> set xs \<Longrightarrow> \<exists>ys. xs = map Some ys"
  by (metis ex_map_conv not_Some_eq)

lemma read_list_Join:
  assumes "xs \<noteq> []" "\<And>x. x \<in> set xs \<Longrightarrow> dec (enc x) = Ok x \<and> CHR ''|'' \<notin> set (enc x)"
  shows "read_list dec (Join (map enc xs) (CHR ''|'')) = Some (map Some xs)"
proof -
  have "Split (Join (map enc xs) (CHR ''|'')) (CHR ''|'') = map enc xs"
    using assms by (intro Split_Join) auto
  moreover have "map (\<lambda>v. parsed (dec v) (\<lambda>x. Some (Some x))) (map enc xs) = map Some (map Some xs)"
    using assms(2) by auto
  ultimately show ?thesis unfolding read_list_def by (simp only: those_map_Some)
qed

lemma sd_OutMap_read:
  assumes "sd_whole sd"
  obtains m where "sd_OutMap sd = Ok m"
    "fst ` set m = {''Pkx'', ''Pky'', ''C'', ''SkU1'', ''U1PaillierSk'', ''U1PaillierPk'', ''U1NtildePrivData'', ''U1NtildeH1H2'',
       ''IDs'', ''CurDNodeID''}"
    "\<And>m'. (\<And>k. k \<in> fst ` set m \<Longrightarrow> at m' k = at m k) \<Longrightarrow> GetLocalDNodeSaveData m' = Some sd"
proof -
  have "None \<notin> set (sd_U1PaillierPk sd)" using assms by (auto simp: sd_whole_def)
  then obtain pks nts where pks: "sd_U1PaillierPk sd = map Some pks" and nts: "sd_U1NtildeH1H2 sd = map Some nts"
    using assms not_None_map_Some unfolding sd_whole_def by metis
  obtain sk priv where sk: "sd_U1PaillierSk sd = Some sk" "sk_whole sk" and priv: "sd_U1NtildePrivData sd = Some priv"
    using assms by (auto simp: sd_whole_def)
  have w: "pks \<noteq> []" "nts \<noteq> []" "\<And>pk. pk \<in> set pks \<Longrightarrow> pk_whole pk" "sd_IDs sd \<noteq> []"
    using assms by (auto simp: sd_whole_def pks nts)
  have r: "read_list pk_UnmarshalJSON (Join (map pk_MarshalJSON pks) (CHR ''|'')) = Some (map Some pks)"
      "read_list nt_UnmarshalJSON (Join (map nt_MarshalJSON nts) (CHR ''|'')) = Some (map Some nts)"
    using w by (auto intro!: read_list_Join simp: pk_wire.dec_enc bar_pk nt_wire.dec_enc bar_nt)
  have ids: "map SetString10 (Split (Join (map Sprintf_v (sd_IDs sd)) (CHR ''|'')) (CHR ''|'')) = sd_IDs sd"
    using w(4) by (simp add: Split_Sprintf_v comp_def)
  obtain m where m: "sd_OutMap sd = Ok m" by (simp add: sd_OutMap_def sk priv pks nts mapM_deref_pointers)
  show thesis
  proof
    show "sd_OutMap sd = Ok m" by (rule m)
    show "fst ` set m = {''Pkx'', ''Pky'', ''C'', ''SkU1'', ''U1PaillierSk'', ''U1PaillierPk'', ''U1NtildePrivData'',
        ''U1NtildeH1H2'', ''IDs'', ''CurDNodeID''}"
      using m by (auto simp: sd_OutMap_def sk priv pks nts mapM_deref_pointers)
    fix m' assume "\<And>k. k \<in> fst ` set m \<Longrightarrow> at m' k = at m k"
    with m have "at m' ''Pkx'' = Sprintf_v (sd_Pkx sd)" "at m' ''Pky'' = Sprintf_v (sd_Pky sd)" "at m' ''C'' = Sprintf_v (sd_C sd)"
      "at m' ''SkU1'' = Sprintf_v (sd_SkU1 sd)" "at m' ''U1PaillierSk'' = sk_MarshalJSON sk"
      "at m' ''U1PaillierPk'' = Join (map pk_MarshalJSON pks) (CHR ''|'')" "at m' ''U1NtildePrivData'' = npd_MarshalJSON priv"
      "at m' ''U1NtildeH1H2'' = Join (map nt_MarshalJSON nts) (CHR ''|'')"
      "at m' ''IDs'' = Join (map Sprintf_v (sd_IDs sd)) (CHR ''|'')" "at m' ''CurDNodeID'' = Sprintf_v (sd_CurDNodeID sd)"
      by (auto simp: sd_OutMap_def sk priv pks nts mapM_deref_pointers)
    then show "GetLocalDNodeSaveData m' = Some sd"
      by (simp add: GetLocalDNodeSaveData_def sk_wire.dec_enc sk npd_wire.dec_enc r ids priv pks [symmetric] nts [symmetric])
  qed
qed

section \<open>The data base record\<close>

lemma at_fold_update:
  "distinct (map fst kvs) \<Longrightarrow>
   at (fold (\<lambda>(key, value) out. AList.update key value out) kvs m) k = (if k \<in> fst ` set kvs then at kvs k else at m k)"
proof (induction kvs arbitrary: m)
  case (Cons kv kvs)
  then show ?case by (cases kv) (auto simp: image_iff)
qed simp

lemma at_fold_keys:
  "at (fold (\<lambda>v m. AList.update (f v) (g (f v)) m) vs m) k = (if k \<in> f ` set vs then g k else at m k)"
  by (induction vs arbitrary: m) auto

text \<open>The key of a party is the hexadecimal text of a number, which is none of the field names.\<close>

lemma Sprintf_v_head: "\<exists>c s. Sprintf_v n = c # s \<and> of_char c div 16 \<in> {2, 3 :: nat}"
proof (cases n)
  case (Some i)
  have d: "of_char (hd (show_nat m)) div 16 = (3 :: nat)" for m
    using set_show_nat [of "hd (show_nat m)" m] by (auto intro!: div_nat_eqI)
  show ?thesis
    using d [of "nat i"] by (cases "i < 0"; cases "show_nat (nat i)") (auto simp: Some show_int_def)
qed (auto simp: Sprintf_v_def)

lemma enode_key_head: "\<exists>c s. enode_key v = c # s \<and> (c = CHR ''2'' \<or> c = CHR ''3'')"
proof -
  obtain c s where c: "Sprintf_v v = c # s" "of_char c div 16 \<in> {2, 3 :: nat}" using Sprintf_v_head by blast
  have u: "unat (byte_of (of_char c)) = of_char c" by simp
  have "to_lower_char (hex_digit 2) = CHR ''2''" "to_lower_char (hex_digit 3) = CHR ''3''" by code_simp+
  with c(2) show ?thesis by (auto simp: enode_key_def c(1) string_bytes_def EncodeToString_def ToLower_def u)
qed

text \<open>C22: The saved data of a key generation is read back from the map it is stored as, together with the network name of
  every party.\<close>

theorem saved_data_read_back:
  assumes "sd_whole (ks_Save ks)" "distinct (map fst (ks_MsgToEnode ks))"
    "fst ` set (ks_MsgToEnode ks) = enode_key ` set (sd_IDs (ks_Save ks))"
  shows "\<exists>m ks'. ks_OutMap ks = Ok m \<and> GetKGLocalDBSaveData m = Ok ks' \<and> ks_Save ks' = ks_Save ks \<and>
    (\<forall>k. at (ks_MsgToEnode ks') k = at (ks_MsgToEnode ks) k)"
proof -
  obtain out where out: "sd_OutMap (ks_Save ks) = Ok out"
    "fst ` set out = {''Pkx'', ''Pky'', ''C'', ''SkU1'', ''U1PaillierSk'', ''U1PaillierPk'', ''U1NtildePrivData'', ''U1NtildeH1H2'',
       ''IDs'', ''CurDNodeID''}"
    "\<And>m'. (\<And>k. k \<in> fst ` set out \<Longrightarrow> at m' k = at out k) \<Longrightarrow> GetLocalDNodeSaveData m' = Some (ks_Save ks)"
    using sd_OutMap_read [OF assms(1)] by metis
  let ?m = "fold (\<lambda>(key, value) out. AList.update key value out) (ks_MsgToEnode ks) out"
  have m: "at ?m k = (if k \<in> fst ` set (ks_MsgToEnode ks) then at (ks_MsgToEnode ks) k else at out k)" for k
    by (rule at_fold_update [OF assms(2)])
  have new: "enode_key v \<notin> fst ` set out" for v
    using enode_key_head [of v] by (auto simp: out(2))
  have "at ?m k = at out k" if "k \<in> fst ` set out" for k
    using that new by (force simp: m assms(3))
  then have read: "GetLocalDNodeSaveData ?m = Some (ks_Save ks)" by (rule out(3))
  have "at (ks_MsgToEnode ks) k = []" if "k \<notin> enode_key ` set (sd_IDs (ks_Save ks))" for k
    using that unfolding assms(3) [symmetric] map_of_eq_None_iff [symmetric] by (simp add: at_def)
  moreover have "at (fold (\<lambda>v m. AList.update (enode_key v) (at ?m (enode_key v)) m) (sd_IDs (ks_Save ks)) []) k =
      (if k \<in> enode_key ` set (sd_IDs (ks_Save ks)) then at ?m k else at [] k)" for k
    by (rule at_fold_keys)
  ultimately have "\<forall>k. at (fold (\<lambda>v m. AList.update (enode_key v) (at ?m (enode_key v)) m) (sd_IDs (ks_Save ks)) []) k =
      at (ks_MsgToEnode ks) k"
    by (simp add: m assms(3))
  with read show ?thesis by (simp add: ks_OutMap_def out(1) GetKGLocalDBSaveData_def)
qed

definition toy_saved :: KGLocalDBSaveData where
  "toy_saved =
     (let pk = \<lparr>pk_Length = ''6'', pk_N = 35, pk_G = 36, pk_N2 = 1225\<rparr>
      in \<lparr>ks_Save = \<lparr>sd_Pkx = Some 2, sd_Pky = Some 2, sd_C = Some 9, sd_SkU1 = Some 3,
            sd_U1PaillierSk = Some \<lparr>sk_Length = ''6'', sk_PublicKey = pk, sk_L = 12, sk_U = 3\<rparr>,
            sd_U1PaillierPk = [Some pk, Some pk],
            sd_U1NtildePrivData = Some \<lparr>npd_Alpha = 1, npd_Beta = 1, npd_Q1 = 2, npd_Q2 = 3\<rparr>,
            sd_U1NtildeH1H2 = [Some \<lparr>nt_Ntilde = 35, nt_H1 = 4, nt_H2 = 4\<rparr>, Some \<lparr>nt_Ntilde = 77, nt_H1 = 4, nt_H2 = 16\<rparr>],
            sd_IDs = [Some 1, Some 2], sd_CurDNodeID = Some 1\<rparr>,
          ks_MsgToEnode = [(''31'', ''a0''), (''32'', ''b0'')]\<rparr>)"

lemma toy_saved_whole:
  "sd_whole (ks_Save toy_saved)" "distinct (map fst (ks_MsgToEnode toy_saved))"
  "fst ` set (ks_MsgToEnode toy_saved) = enode_key ` set (sd_IDs (ks_Save toy_saved))"
proof -
  have "length_ok ''6''" by code_simp
  then show "sd_whole (ks_Save toy_saved)" by (simp add: sd_whole_def toy_saved_def Let_def sk_whole_def pk_whole_def)
  show "distinct (map fst (ks_MsgToEnode toy_saved))" by code_simp
  show "fst ` set (ks_MsgToEnode toy_saved) = enode_key ` set (sd_IDs (ks_Save toy_saved))" by code_simp
qed

theorem saved_data_read_back_witness:
  "\<exists>m ks'. ks_OutMap toy_saved = Ok m \<and> GetKGLocalDBSaveData m = Ok ks' \<and> ks_Save ks' = ks_Save toy_saved \<and>
    (\<forall>k. at (ks_MsgToEnode ks') k = at (ks_MsgToEnode toy_saved) k)"
  by (rule saved_data_read_back [OF toy_saved_whole])

end
