(* ===== verification/EdWire.thy ===== *)
theory EdWire
  imports EdSigning SaveData
begin

text \<open>
  The text form of the messages and of the saved data of the Ed25519 protocols: the \<^verbatim>\<open>OutMap\<close> methods of
  \<^verbatim>\<open>smpc-lib/eddsa\<close>, \<^verbatim>\<open>GetRealMessageEDDSA\<close> and \<^verbatim>\<open>KGLocalDBSaveDataED\<close> of \<^verbatim>\<open>smpc/key_ed.go\<close>, and
  \<^verbatim>\<open>EdSignGetRealMessage\<close> of \<^verbatim>\<open>smpc/sign_ed.go\<close>.  An array is sent as its hexadecimal text.
\<close>

section \<open>Arrays as texts\<close>

text \<open>\<^verbatim>\<open>var a [n]byte; copy(a[:], bs)\<close>\<close>

definition copy_to :: "nat \<Rightarrow> byte list \<Rightarrow> byte list" where
  "copy_to n bs = take n (bs @ zeros n)"

definition read_array :: "nat \<Rightarrow> string \<Rightarrow> byte list option" where
  "read_array n s = (case DecodeString s of Ok bs \<Rightarrow> Some (copy_to n bs) | _ \<Rightarrow> None)"

text \<open>The block of a message with one array, and that of the message with the commitments to the coefficients.\<close>

definition array_at :: "nat \<Rightarrow> string \<Rightarrow> go_map \<Rightarrow> byte list option" where
  "array_at n key m = (if at m key = [] then None else read_array n (at m key))"

definition arrays_at :: "nat \<Rightarrow> string \<Rightarrow> go_map \<Rightarrow> byte list list option" where
  "arrays_at n key m = (if at m key = [] then None else those (map (read_array n) (Split (at m key) (CHR '':''))))"

section \<open>Key generation\<close>

definition ek_head :: "KGRoundMessage \<Rightarrow> string \<Rightarrow> string \<Rightarrow> go_map" where
  "ek_head b tos ty = head_map (FromID b) (FromIndex b) tos ty"

fun ek_OutMap :: "EdKGMessage \<Rightarrow> go_map option res" where
  "ek_OutMap (EdKGRound0Message b) = Ok (Some (ek_head b [] ''KGRound0Message''))"
| "ek_OutMap (EdKGRound1Message b CPk) = Ok (Some (ek_head b [] ''KGRound1Message'' @ [(''CPk'', EncodeToString CPk)]))"
| "ek_OutMap (EdKGRound2Message b ZkPk) = Ok (Some (ek_head b [] ''KGRound2Message'' @ [(''ZkPk'', EncodeToString ZkPk)]))"
| "ek_OutMap (EdKGRound3Message b DPk) = Ok (Some (ek_head b [] ''KGRound3Message'' @ [(''DPk'', EncodeToString DPk)]))"
| "ek_OutMap (EdKGRound4Message b Share) =
     Ok (Some (ek_head b (Join (ToID b) (CHR '':'')) ''KGRound4Message'' @ [(''Share'', EncodeToString Share)]))"
| "ek_OutMap (EdKGRound5Message b CfsBBytes) =
     Ok (Some (ek_head b [] ''KGRound5Message'' @ [(''CfsBBytes'', Join (map EncodeToString CfsBBytes) (CHR '':''))]))"

definition GetRealMessageEDDSA :: "go_map option \<Rightarrow> EdKGMessage option" where
  "GetRealMessageEDDSA msg =
     (case msg of
        None \<Rightarrow> None
      | Some m \<Rightarrow>
          let from = at m ''FromID''; to = receivers m
          in if from = [] then None
             else
               (case Atoi (at m ''FromIndex'') of
                  Ok index \<Rightarrow>
                    let b = \<lparr>FromID = from, FromIndex = index, ToID = to\<rparr>; ty = at m ''Type''
                    in if ty = ''KGRound1Message'' then map_option (EdKGRound1Message b) (array_at 32 ''CPk'' m)
                       else if ty = ''KGRound2Message'' then map_option (EdKGRound2Message b) (array_at 64 ''ZkPk'' m)
                       else if ty = ''KGRound3Message'' then map_option (EdKGRound3Message b) (array_at 64 ''DPk'' m)
                       else if ty = ''KGRound4Message'' then map_option (EdKGRound4Message b) (array_at 32 ''Share'' m)
                       else if ty = ''KGRound5Message'' then map_option (EdKGRound5Message b) (arrays_at 32 ''CfsBBytes'' m)
                       else Some (EdKGRound0Message \<lparr>FromID = from, FromIndex = - 1, ToID = to\<rparr>)
                | _ \<Rightarrow> None))"

section \<open>Signing\<close>

definition xs_head :: "SignRoundMessage \<Rightarrow> string \<Rightarrow> string \<Rightarrow> go_map" where
  "xs_head b tos ty = head_map (sm_FromID b) (sm_FromIndex b) tos ty"

fun xs_OutMap :: "EdSignMessage \<Rightarrow> go_map option res" where
  "xs_OutMap (EdSignRound1Message b CR) = Ok (Some (xs_head b [] ''SignRound1Message'' @ [(''CR'', EncodeToString CR)]))"
| "xs_OutMap (EdSignRound2Message b ZkR) =
     Ok (Some (xs_head b (Join (sm_ToID b) (CHR '':'')) ''SignRound2Message'' @ [(''ZkR'', EncodeToString ZkR)]))"
| "xs_OutMap (EdSignRound3Message b DR) = Ok (Some (xs_head b [] ''SignRound3Message'' @ [(''DR'', EncodeToString DR)]))"
| "xs_OutMap (EdSignRound4Message b CSB) =
     Ok (Some (xs_head b (Join (sm_ToID b) (CHR '':'')) ''SignRound4Message'' @ [(''CSB'', EncodeToString CSB)]))"
| "xs_OutMap (EdSignRound5Message b DSB) = Ok (Some (xs_head b [] ''SignRound5Message'' @ [(''DSB'', EncodeToString DSB)]))"
| "xs_OutMap (EdSignRound6Message b S) = Ok (Some (xs_head b [] ''SignRound6Message'' @ [(''S'', EncodeToString S)]))"

definition EdSignGetRealMessage :: "go_map option \<Rightarrow> EdSignMessage option" where
  "EdSignGetRealMessage msg =
     (case msg of
        None \<Rightarrow> None
      | Some m \<Rightarrow>
          let from = at m ''FromID''; to = receivers m
          in if from = [] then None
             else
               (case Atoi (at m ''FromIndex'') of
                  Ok index \<Rightarrow>
                    let b = \<lparr>sm_FromID = from, sm_FromIndex = index, sm_ToID = to\<rparr>; ty = at m ''Type''
                    in if ty = ''SignRound1Message'' then map_option (EdSignRound1Message b) (array_at 32 ''CR'' m)
                       else if ty = ''SignRound2Message'' then map_option (EdSignRound2Message b) (array_at 64 ''ZkR'' m)
                       else if ty = ''SignRound3Message'' then map_option (EdSignRound3Message b) (array_at 64 ''DR'' m)
                       else if ty = ''SignRound4Message'' then map_option (EdSignRound4Message b) (array_at 32 ''CSB'' m)
                       else if ty = ''SignRound5Message'' then map_option (EdSignRound5Message b) (array_at 64 ''DSB'' m)
                       else if ty = ''SignRound6Message'' then map_option (EdSignRound6Message b) (array_at 32 ''S'' m)
                       else None
                | _ \<Rightarrow> None))"

section \<open>Saved data\<close>

definition es_OutMap :: "EdSaveData \<Rightarrow> go_map" where
  "es_OutMap sd =
     [(''Sk'', EncodeToString (es_Sk sd)), (''Pk'', EncodeToString (es_Pk sd)), (''TSk'', EncodeToString (es_TSk sd)),
      (''FinalPkBytes'', EncodeToString (es_FinalPkBytes sd)), (''IDs'', Join (map Sprintf_v (es_IDs sd)) (CHR ''|'')),
      (''CurDNodeID'', Sprintf_v (es_CurDNodeID sd))]"

definition es_GetLocalDNodeSaveData :: "go_map \<Rightarrow> EdSaveData option" where
  "es_GetLocalDNodeSaveData data =
     (case read_array 32 (at data ''Sk'') of None \<Rightarrow> None
      | Some Sk \<Rightarrow> case read_array 32 (at data ''TSk'') of None \<Rightarrow> None
      | Some TSk \<Rightarrow> case read_array 32 (at data ''Pk'') of None \<Rightarrow> None
      | Some Pk \<Rightarrow> case read_array 32 (at data ''FinalPkBytes'') of None \<Rightarrow> None
      | Some FinalPkBytes \<Rightarrow>
          Some \<lparr>es_Sk = Sk, es_Pk = Pk, es_TSk = TSk, es_FinalPkBytes = FinalPkBytes,
            es_IDs = map SetString10 (Split (at data ''IDs'') (CHR ''|'')), es_CurDNodeID = SetString10 (at data ''CurDNodeID'')\<rparr>)"

record KGLocalDBSaveDataED =
  ksd_Save :: EdSaveData
  ksd_MsgToEnode :: go_map

definition ksd_OutMap :: "KGLocalDBSaveDataED \<Rightarrow> go_map" where
  "ksd_OutMap ks = fold (\<lambda>(key, value) out. AList.update key value out) (ksd_MsgToEnode ks) (es_OutMap (ksd_Save ks))"

definition GetKGLocalDBSaveDataED :: "go_map \<Rightarrow> KGLocalDBSaveDataED res" where
  "GetKGLocalDBSaveDataED data =
     bindr (deref (es_GetLocalDNodeSaveData data)) (\<lambda>save.
       Ok \<lparr>ksd_Save = save,
           ksd_MsgToEnode = fold (\<lambda>v m. AList.update (enode_key v) (at data (enode_key v)) m) (es_IDs save) []\<rparr>)"

section \<open>Messages arrive\<close>

lemma copy_to_same [simp]: "length bs = n \<Longrightarrow> copy_to n bs = bs"
  by (simp add: copy_to_def)

lemma read_array_same [simp]: "length bs = n \<Longrightarrow> read_array n (EncodeToString bs) = Some bs"
  by (simp add: read_array_def)

lemma Encode_ne: "0 < length bs \<Longrightarrow> EncodeToString bs \<noteq> []"
  using length_EncodeToString [of bs] by fastforce

lemma hex_digit_no_colon: "d < 16 \<Longrightarrow> hex_digit d \<noteq> CHR '':''"
proof
  assume "d < 16" "hex_digit d = CHR '':''"
  then have "hex_val (CHR '':'') = Some d" using hex_val_digit by metis
  then show False by (simp add: hex_val_def)
qed

lemma Encode_no_colon: "CHR '':'' \<notin> set (EncodeToString bs)"
proof -
  have "unat b div 16 < 16" "unat b mod 16 < 16" for b :: byte
    using unat_byte_less [of b] by (auto intro!: less_mult_imp_div_less)
  then have "hex_digit (unat b div 16) \<noteq> CHR '':''" "hex_digit (unat b mod 16) \<noteq> CHR '':''" for b :: byte
    by (simp_all add: hex_digit_no_colon)
  then show ?thesis by (induction bs) (auto simp: EncodeToString_def eq_commute)
qed

lemma arrays_joined:
  assumes "vs \<noteq> []" "\<forall>v \<in> set vs. length v = n" "0 < n"
  shows "Join (map EncodeToString vs) (CHR '':'') \<noteq> []"
    and "those (map (read_array n) (Split (Join (map EncodeToString vs) (CHR '':'')) (CHR '':''))) = Some vs"
proof -
  have "addressable (map EncodeToString vs)" using assms(2,3) Encode_ne Encode_no_colon by (fastforce simp: addressable_def)
  then show "Join (map EncodeToString vs) (CHR '':'') \<noteq> []" using assms(1) by (intro Join_ne) simp_all
  have "Split (Join (map EncodeToString vs) (CHR '':'')) (CHR '':'') = map EncodeToString vs"
    using assms(1) Encode_no_colon by (intro Split_Join) auto
  moreover have "map (read_array n) (map EncodeToString vs) = map Some vs" using assms(2) by auto
  ultimately show "those (map (read_array n) (Split (Join (map EncodeToString vs) (CHR '':'')) (CHR '':''))) = Some vs"
    by (simp add: those_map_Some del: map_map)
qed

text \<open>The lengths of the arrays; \<^verbatim>\<open>CfsBBytes\<close> has at least one element.\<close>

fun ek_fields_whole :: "EdKGMessage \<Rightarrow> bool" where
  "ek_fields_whole (EdKGRound0Message b) = True"
| "ek_fields_whole (EdKGRound1Message b CPk) = (length CPk = 32)"
| "ek_fields_whole (EdKGRound2Message b ZkPk) = (length ZkPk = 64)"
| "ek_fields_whole (EdKGRound3Message b DPk) = (length DPk = 64)"
| "ek_fields_whole (EdKGRound4Message b Share) = (length Share = 32 \<and> addressable (ToID b))"
| "ek_fields_whole (EdKGRound5Message b cfs) = (cfs \<noteq> [] \<and> (\<forall>c \<in> set cfs. length c = 32))"

definition ek_whole :: "EdKGMessage \<Rightarrow> bool" where
  "ek_whole x = (ek_GetFromID x \<noteq> [] \<and> index_ok (ek_GetFromIndex x) \<and> ek_fields_whole x)"

fun ek_rebase :: "(KGRoundMessage \<Rightarrow> KGRoundMessage) \<Rightarrow> EdKGMessage \<Rightarrow> EdKGMessage" where
  "ek_rebase f (EdKGRound0Message b) = EdKGRound0Message (f b)"
| "ek_rebase f (EdKGRound1Message b x) = EdKGRound1Message (f b) x"
| "ek_rebase f (EdKGRound2Message b x) = EdKGRound2Message (f b) x"
| "ek_rebase f (EdKGRound3Message b x) = EdKGRound3Message (f b) x"
| "ek_rebase f (EdKGRound4Message b x) = EdKGRound4Message (f b) x"
| "ek_rebase f (EdKGRound5Message b x) = EdKGRound5Message (f b) x"

definition ek_arrived :: "EdKGMessage \<Rightarrow> EdKGMessage" where
  "ek_arrived x =
     ek_rebase (\<lambda>b. b\<lparr>FromIndex := (if is_EdKGRound0Message x then - 1 else FromIndex b),
       ToID := (if ek_IsBroadcast x then [] else ToID b)\<rparr>) x"

fun xs_fields_whole :: "EdSignMessage \<Rightarrow> bool" where
  "xs_fields_whole (EdSignRound1Message b x) = (length x = 32)"
| "xs_fields_whole (EdSignRound2Message b x) = (length x = 64 \<and> addressable (sm_ToID b))"
| "xs_fields_whole (EdSignRound3Message b x) = (length x = 64)"
| "xs_fields_whole (EdSignRound4Message b x) = (length x = 32 \<and> addressable (sm_ToID b))"
| "xs_fields_whole (EdSignRound5Message b x) = (length x = 64)"
| "xs_fields_whole (EdSignRound6Message b x) = (length x = 32)"

definition xs_whole :: "EdSignMessage \<Rightarrow> bool" where
  "xs_whole x = (xs_GetFromID x \<noteq> [] \<and> index_ok (xs_GetFromIndex x) \<and> xs_fields_whole x)"

fun xs_arrived :: "EdSignMessage \<Rightarrow> EdSignMessage" where
  "xs_arrived (EdSignRound1Message b x) = EdSignRound1Message (b\<lparr>sm_ToID := []\<rparr>) x"
| "xs_arrived (EdSignRound2Message b x) = EdSignRound2Message b x"
| "xs_arrived (EdSignRound3Message b x) = EdSignRound3Message (b\<lparr>sm_ToID := []\<rparr>) x"
| "xs_arrived (EdSignRound4Message b x) = EdSignRound4Message b x"
| "xs_arrived (EdSignRound5Message b x) = EdSignRound5Message (b\<lparr>sm_ToID := []\<rparr>) x"
| "xs_arrived (EdSignRound6Message b x) = EdSignRound6Message (b\<lparr>sm_ToID := []\<rparr>) x"

lemma ed_cong:
  assumes "\<And>k. k \<notin> envelope \<Longrightarrow> at m k = at m' k"
  shows "GetRealMessageEDDSA (Some m) = GetRealMessageEDDSA (Some m')" "EdSignGetRealMessage (Some m) = EdSignGetRealMessage (Some m')"
  using assms by (simp_all add: GetRealMessageEDDSA_def EdSignGetRealMessage_def array_at_def arrays_at_def receivers_def envelope_def Let_def
    cong: if_cong option.case_cong res.case_cong split del: if_split)

lemmas ed_out_simps = head_map_def envelope_def ek_head_def xs_head_def

lemmas ed_recv_simps = GetRealMessageEDDSA_def EdSignGetRealMessage_def Let_def ek_head_def xs_head_def array_at_def arrays_at_def
  at_head_map receivers_Join Encode_ne index_ok_def Atoi_show_int
  head_map_at [where m = "[]", simplified append_Nil2] receivers_broadcast [where m = "[]", simplified append_Nil2]

lemma ek_out_recv:
  assumes "ek_whole x"
  shows "\<exists>m. ek_OutMap x = Ok (Some m) \<and> distinct (map fst m) \<and> fst ` set m \<inter> envelope = {} \<and>
    GetRealMessageEDDSA (Some m) = Some (ek_arrived x)"
proof -
  obtain m where m: "ek_OutMap x = Ok (Some m)" by (cases x) auto
  then have "distinct (map fst m) \<and> fst ` set m \<inter> envelope = {}" by (cases x) (auto simp: ed_out_simps)
  moreover have "GetRealMessageEDDSA (Some m) = Some (ek_arrived x)"
    using assms m arrays_joined [of _ 32]
    by (cases x; cases "ek_base x") (auto simp: ek_whole_def ek_GetFromID_def ek_GetFromIndex_def ek_arrived_def ed_recv_simps)
  ultimately show ?thesis using m by blast
qed

lemma xs_out_recv:
  assumes "xs_whole x"
  shows "\<exists>m. xs_OutMap x = Ok (Some m) \<and> distinct (map fst m) \<and> fst ` set m \<inter> envelope = {} \<and>
    EdSignGetRealMessage (Some m) = Some (xs_arrived x)"
proof -
  obtain m where m: "xs_OutMap x = Ok (Some m)" by (cases x) auto
  then have "distinct (map fst m) \<and> fst ` set m \<inter> envelope = {}" by (cases x) (auto simp: ed_out_simps)
  moreover have "EdSignGetRealMessage (Some m) = Some (xs_arrived x)"
    using assms m
    by (cases x; cases "xm_base x") (auto simp: xs_whole_def xs_GetFromID_def xs_GetFromIndex_def ed_recv_simps)
  ultimately show ?thesis using m by blast
qed

interpretation ek_wire: message_wire ek_OutMap GetRealMessageEDDSA ek_whole ek_arrived
  by unfold_locales (rule ek_out_recv, assumption, rule ed_cong(1), blast)

interpretation xs_wire: message_wire xs_OutMap EdSignGetRealMessage xs_whole xs_arrived
  by unfold_locales (rule xs_out_recv, assumption, rule ed_cong(2), blast)

text \<open>C20: the messages of the Ed25519 key generation and signing survive the wire: a message whose arrays have their lengths,
  sent as \<^verbatim>\<open>ProcessOutCh\<close> and \<^verbatim>\<open>SignProcessOutCh\<close> do, is read by the receiver as the same message, with the session
  key, the sender and the signature that were put into the envelope.\<close>

theorem ed_messages_arrive:
  "(ek_whole x \<longrightarrow> (\<exists>t m. bindr (ek_OutMap x) (out_text key enode sig) = Ok t \<and> map_Unmarshal t = Some m \<and>
      GetRealMessageEDDSA (Some m) = Some (ek_arrived x) \<and> at m ''Key'' = key \<and> at m ''ENode'' = enode \<and> at m ''Sig'' = sig)) \<and>
   (xs_whole y \<longrightarrow> (\<exists>t m. bindr (xs_OutMap y) (out_text key enode sig) = Ok t \<and> map_Unmarshal t = Some m \<and>
      EdSignGetRealMessage (Some m) = Some (xs_arrived y) \<and> at m ''Key'' = key \<and> at m ''ENode'' = enode \<and> at m ''Sig'' = sig))"
  using ek_wire.transported [of x key enode sig] xs_wire.transported [of y key enode sig] by blast

definition toy_share_sent :: EdKGMessage where
  "toy_share_sent = EdKGRound4Message \<lparr>FromID = ''31'', FromIndex = 0, ToID = [''32'']\<rparr> (zeros 32)"

definition toy_part_sent :: EdSignMessage where
  "toy_part_sent = EdSignRound6Message \<lparr>sm_FromID = ''31'', sm_FromIndex = 0, sm_ToID = []\<rparr> (zeros 32)"

theorem ed_messages_arrive_witness:
  "(\<exists>t m. bindr (ek_OutMap toy_share_sent) (out_text ''k'' ''e'' ''00'') = Ok t \<and> map_Unmarshal t = Some m \<and>
      GetRealMessageEDDSA (Some m) = Some toy_share_sent) \<and>
   (\<exists>t m. bindr (xs_OutMap toy_part_sent) (out_text ''k'' ''e'' ''00'') = Ok t \<and> map_Unmarshal t = Some m \<and>
      EdSignGetRealMessage (Some m) = Some toy_part_sent)"
proof -
  have w: "ek_whole toy_share_sent" "xs_whole toy_part_sent" "ek_arrived toy_share_sent = toy_share_sent" "xs_arrived toy_part_sent = toy_part_sent"
    by (simp_all add: ek_whole_def xs_whole_def toy_share_sent_def toy_part_sent_def ek_GetFromID_def ek_GetFromIndex_def
        xs_GetFromID_def xs_GetFromIndex_def index_ok_def addressable_def zeros_def ek_arrived_def)
  show ?thesis using ed_messages_arrive [of toy_share_sent "''k''" "''e''" "''00''" toy_part_sent] w by auto
qed

section \<open>Saved data is read back\<close>

definition es_whole :: "EdSaveData \<Rightarrow> bool" where
  "es_whole sd =
     (length (es_Sk sd) = 32 \<and> length (es_Pk sd) = 32 \<and> length (es_TSk sd) = 32 \<and> length (es_FinalPkBytes sd) = 32 \<and> es_IDs sd \<noteq> [])"

lemma ksd_read_back:
  assumes "es_whole (ksd_Save ks)" "distinct (map fst (ksd_MsgToEnode ks))"
    "fst ` set (ksd_MsgToEnode ks) = enode_key ` set (es_IDs (ksd_Save ks))"
  shows "\<exists>ks'. GetKGLocalDBSaveDataED (ksd_OutMap ks) = Ok ks' \<and> ksd_Save ks' = ksd_Save ks \<and>
    (\<forall>k. at (ksd_MsgToEnode ks') k = at (ksd_MsgToEnode ks) k)"
proof -
  let ?sd = "ksd_Save ks"
  have m: "at (ksd_OutMap ks) k = (if k \<in> fst ` set (ksd_MsgToEnode ks) then at (ksd_MsgToEnode ks) k else at (es_OutMap ?sd) k)" for k
    unfolding ksd_OutMap_def by (rule at_fold_update [OF assms(2)])
  have new: "enode_key v \<noteq> k" if "k \<in> {''Sk'', ''Pk'', ''TSk'', ''FinalPkBytes'', ''IDs'', ''CurDNodeID''}" for v k
    using enode_key_head [of v] that by auto
  have f: "at (ksd_OutMap ks) k = at (es_OutMap ?sd) k" if "k \<in> {''Sk'', ''Pk'', ''TSk'', ''FinalPkBytes'', ''IDs'', ''CurDNodeID''}" for k
    using new [OF that] by (auto simp: m assms(3))
  have ids: "map SetString10 (Split (Join (map Sprintf_v (es_IDs ?sd)) (CHR ''|'')) (CHR ''|'')) = es_IDs ?sd"
    using assms(1) by (simp add: es_whole_def Split_Sprintf_v comp_def)
  have read: "es_GetLocalDNodeSaveData (ksd_OutMap ks) = Some ?sd"
    using assms(1) f [of "''Sk''"] f [of "''Pk''"] f [of "''TSk''"] f [of "''FinalPkBytes''"] f [of "''IDs''"] f [of "''CurDNodeID''"]
    by (simp add: es_GetLocalDNodeSaveData_def es_whole_def es_OutMap_def ids)
  have "at (ksd_MsgToEnode ks) k = []" if "k \<notin> enode_key ` set (es_IDs ?sd)" for k
    using that unfolding assms(3) [symmetric] map_of_eq_None_iff [symmetric] by (simp add: at_def)
  moreover have "at (fold (\<lambda>v m. AList.update (enode_key v) (at (ksd_OutMap ks) (enode_key v)) m) (es_IDs ?sd) []) k =
      (if k \<in> enode_key ` set (es_IDs ?sd) then at (ksd_OutMap ks) k else at [] k)" for k
    by (rule at_fold_keys)
  ultimately have "\<forall>k. at (fold (\<lambda>v m. AList.update (enode_key v) (at (ksd_OutMap ks) (enode_key v)) m) (es_IDs ?sd) []) k =
      at (ksd_MsgToEnode ks) k" by (simp add: m assms(3))
  with read show ?thesis by (simp add: GetKGLocalDBSaveDataED_def)
qed

end
