(* ===== verification/EdInbound.thy ===== *)
theory EdInbound
  imports Inbound EdWire
begin

text \<open>
  The receivers of the Ed25519 protocols, \<^verbatim>\<open>ProcessInboundMessagesEDDSA\<close> of \<^verbatim>\<open>smpc/key_ed.go\<close> and
  \<^verbatim>\<open>EdSignProcessInboundMessages\<close> of \<^verbatim>\<open>smpc/sign_ed.go\<close>.  They make the same checks as the receivers of the ECDSA
  protocols, but do not remember the texts they have handled and pass nothing on.  The section at the end states for all
  five receivers what a message has passed before it reaches a node.
\<close>

section \<open>Receivers\<close>

definition ek_GetToID :: "EdKGMessage \<Rightarrow> string list" where
  "ek_GetToID msg = ToID (ek_base msg)"

definition ek_message :: "EdKGMessage Message" where
  "ek_message = \<lparr>mi_FromID = ek_GetFromID, mi_ToID = ek_GetToID, mi_IsBroadcast = ek_IsBroadcast, mi_OutMap = ek_OutMap\<rparr>"

definition xs_GetToID :: "EdSignMessage \<Rightarrow> string list" where
  "xs_GetToID msg = sm_ToID (xm_base msg)"

definition xs_message :: "EdSignMessage Message" where
  "xs_message = \<lparr>mi_FromID = xs_GetFromID, mi_ToID = xs_GetToID, mi_IsBroadcast = xs_IsBroadcast, mi_OutMap = xs_OutMap\<rparr>"

text \<open>\<^verbatim>\<open>w.DNode.Update(mm)\<close>\<close>

definition ed_handed :: "('d, bool) st \<Rightarrow> 'd Worker \<Rightarrow> ('d Worker, unit) st" where
  "ed_handed r w = (w\<lparr>w_DNode := Some (fst r)\<rparr>, mapr (\<lambda>_. ()) (snd r))"

definition ProcessInboundMessageEDDSA :: "EdKGMessage SvcEnv \<Rightarrow> 'g EdEnv \<Rightarrow> string \<Rightarrow> EdKgNode Worker \<Rightarrow> (EdKgNode Worker, unit) st" where
  "ProcessInboundMessageEDDSA env eenv m w =
     (case map_Unmarshal m of
        None \<Rightarrow> (w, Err ''json'')
      | Some msgmap \<Rightarrow>
          let w = note_enode ''KGRound0Message'' (at msgmap ''FromID'') msgmap w
          in (case GetRealMessageEDDSA (Some msgmap) of
                None \<Rightarrow> (w, Err ''ed,fail to process inbound messages'')
              | Some mm \<Rightarrow>
                  tryr (check_sender ''ED25519'' env ek_message (Ok (w_groupid w)) (w_groupid w) msgmap mm) w (\<lambda>_.
                    case w_DNode w of
                      None \<Rightarrow> (w, Panic ''nil pointer dereference'')
                    | Some node \<Rightarrow> ed_handed (deliver 8 (ek_node eenv) node mm) w)))"

definition EdSignProcessInboundMessage :: "EdSignMessage SvcEnv \<Rightarrow> 'g EdEnv \<Rightarrow> string \<Rightarrow> EdSignNode Worker \<Rightarrow> (EdSignNode Worker, unit) st" where
  "EdSignProcessInboundMessage env eenv m w =
     (case map_Unmarshal m of
        None \<Rightarrow> (w, Err ''json'')
      | Some msgmap \<Rightarrow>
          (case EdSignGetRealMessage (Some msgmap) of
             None \<Rightarrow> (w, Err ''fail to ed sign process inbound messages'')
           | Some mm \<Rightarrow>
               tryr (check_sender ''ED25519'' env xs_message (key_group env (w_SmpcFrom w)) (w_groupid w) msgmap mm) w (\<lambda>_.
                 case w_DNode w of
                   None \<Rightarrow> (w, Panic ''nil pointer dereference'')
                 | Some node \<Rightarrow> ed_handed (deliver 9 (xs_node eenv) node mm) w)))"

section \<open>What a delivered message has passed\<close>

lemma ed_keygen_inbound:
  assumes "w_DNode (fst (ProcessInboundMessageEDDSA env eenv t w)) \<noteq> w_DNode w"
  shows "\<exists>m mm node. map_Unmarshal t = Some m \<and> GetRealMessageEDDSA (Some m) = Some mm \<and>
    authentic ''ED25519'' env ek_message (w_groupid w) (w_groupid w) m mm \<and>
    w_DNode w = Some node \<and> w_DNode (fst (ProcessInboundMessageEDDSA env eenv t w)) = Some (fst (deliver 8 (ek_node eenv) node mm))"
proof -
  obtain m where m: "map_Unmarshal t = Some m"
    using assms by (cases "map_Unmarshal t") (auto simp: ProcessInboundMessageEDDSA_def)
  obtain mm where mm: "GetRealMessageEDDSA (Some m) = Some mm"
    using assms m by (cases "GetRealMessageEDDSA (Some m)") (auto simp: ProcessInboundMessageEDDSA_def Let_def)
  have ok: "check_sender ''ED25519'' env ek_message (Ok (w_groupid w)) (w_groupid w) m mm = Ok ()"
    using assms m mm by (cases "check_sender ''ED25519'' env ek_message (Ok (w_groupid w)) (w_groupid w) m mm")
      (auto simp: ProcessInboundMessageEDDSA_def Let_def)
  obtain node where node: "w_DNode w = Some node"
    using assms m mm ok by (cases "w_DNode w") (auto simp: ProcessInboundMessageEDDSA_def Let_def)
  then show ?thesis
    using m mm check_sender_authentic [OF ok] ok by (simp add: ProcessInboundMessageEDDSA_def Let_def ed_handed_def)
qed

lemma ed_sign_inbound:
  assumes "w_DNode (fst (EdSignProcessInboundMessage env eenv t w)) \<noteq> w_DNode w"
  shows "\<exists>m mm kgid node. map_Unmarshal t = Some m \<and> EdSignGetRealMessage (Some m) = Some mm \<and>
    key_group env (w_SmpcFrom w) = Ok kgid \<and> authentic ''ED25519'' env xs_message kgid (w_groupid w) m mm \<and>
    w_DNode w = Some node \<and> w_DNode (fst (EdSignProcessInboundMessage env eenv t w)) = Some (fst (deliver 9 (xs_node eenv) node mm))"
proof -
  obtain m where m: "map_Unmarshal t = Some m"
    using assms by (cases "map_Unmarshal t") (auto simp: EdSignProcessInboundMessage_def)
  obtain mm where mm: "EdSignGetRealMessage (Some m) = Some mm"
    using assms m by (cases "EdSignGetRealMessage (Some m)") (auto simp: EdSignProcessInboundMessage_def)
  have ok: "check_sender ''ED25519'' env xs_message (key_group env (w_SmpcFrom w)) (w_groupid w) m mm = Ok ()"
    using assms m mm by (cases "check_sender ''ED25519'' env xs_message (key_group env (w_SmpcFrom w)) (w_groupid w) m mm")
      (auto simp: EdSignProcessInboundMessage_def)
  obtain node where node: "w_DNode w = Some node"
    using assms m mm ok by (cases "w_DNode w") (auto simp: EdSignProcessInboundMessage_def)
  then show ?thesis
    using m mm check_sender_authentic [OF ok] ok by (simp add: EdSignProcessInboundMessage_def ed_handed_def)
qed

text \<open>C14: Only authentic messages reach a node, in all five protocols.  When handling a text changes the state of the node,
  the text carries a message \<open>mm\<close> that is authentic: the signature in the text recovers, for the hash of the message, to the
  key of the node the text names, this node is a member of the group of the session, and the identifier of the sender is
  its number in the group of the key.  The two receivers that remember texts have not handled the text before, and outside
  of the resharing, where \<^verbatim>\<open>CheckReshareMsg0\<close> comes first, the new state is that of a delivery of this message.\<close>

theorem inbound_authentic:
  "(w_DNode (fst (ProcessInboundMessage kgenv kenv t w)) = w_DNode w \<or>
    (\<exists>m mm node. map_Unmarshal t = Some m \<and> GetRealMessage (Some m) = Some mm \<and> msg_hash kgenv t \<notin> set (w_Msg56 w) \<and>
      authentic ''EC256K1'' kgenv kg_message (w_groupid w) (w_groupid w) m mm \<and> w_DNode w = Some node \<and>
      w_DNode (fst (ProcessInboundMessage kgenv kenv t w)) = Some (fst (deliver 9 (kg_node kenv) node mm)))) \<and>
   (w_DNode (fst (SignProcessInboundMessage sgenv senv t v)) = w_DNode v \<or>
    (\<exists>m mm kgid node. map_Unmarshal t = Some m \<and> SignGetRealMessage (Some m) = Some mm \<and> msg_hash sgenv t \<notin> set (w_Msg56 v) \<and>
      key_group sgenv (w_SmpcFrom v) = Ok kgid \<and> authentic ''EC256K1'' sgenv sign_message kgid (w_groupid v) m mm \<and> w_DNode v = Some node \<and>
      w_DNode (fst (SignProcessInboundMessage sgenv senv t v)) = Some (fst (deliver 11 (sign_node senv) node mm)))) \<and>
   (w_DNode (fst (ReshareProcessInboundMessage rhenv kenv t u)) = w_DNode u \<or>
    (\<exists>m mm kgid. map_Unmarshal t = Some m \<and> ReshareGetRealMessage (Some m) = Some mm \<and>
      key_group rhenv (w_SmpcFrom u) = Ok kgid \<and> authentic ''EC256K1'' rhenv re_message kgid (w_groupid u) m mm)) \<and>
   (w_DNode (fst (ProcessInboundMessageEDDSA ekenv eenv t x)) = w_DNode x \<or>
    (\<exists>m mm node. map_Unmarshal t = Some m \<and> GetRealMessageEDDSA (Some m) = Some mm \<and>
      authentic ''ED25519'' ekenv ek_message (w_groupid x) (w_groupid x) m mm \<and> w_DNode x = Some node \<and>
      w_DNode (fst (ProcessInboundMessageEDDSA ekenv eenv t x)) = Some (fst (deliver 8 (ek_node eenv) node mm)))) \<and>
   (w_DNode (fst (EdSignProcessInboundMessage xsenv eenv t y)) = w_DNode y \<or>
    (\<exists>m mm kgid node. map_Unmarshal t = Some m \<and> EdSignGetRealMessage (Some m) = Some mm \<and>
      key_group xsenv (w_SmpcFrom y) = Ok kgid \<and> authentic ''ED25519'' xsenv xs_message kgid (w_groupid y) m mm \<and> w_DNode y = Some node \<and>
      w_DNode (fst (EdSignProcessInboundMessage xsenv eenv t y)) = Some (fst (deliver 9 (xs_node eenv) node mm))))"
  by (intro conjI disjCI; rule ccontr; erule notE)
    (rule kg_inbound_authentic sign_inbound_authentic reshare_inbound_authentic ed_keygen_inbound ed_sign_inbound; assumption)+

end
