(* ===== verification/EdKeygenProps.thy ===== *)
theory EdKeygenProps
  imports EdKeygen
begin

text \<open>
  The key generation for Ed25519 is correct: whatever the other parties sent, a node that completes round 6 has a
  share of the polynomials the parties committed to, and the public key is the multiple of the base point by the
  shared secret.  The node is an instance of the driver's contract.
\<close>

section \<open>The driver's contract\<close>

definition same_round :: "EdKgNode \<Rightarrow> EdKgNode \<Rightarrow> bool" where
  "same_round p p' \<longleftrightarrow> en_rnd p' = en_rnd p"

interpretation ekf: framing same_round
  by unfold_locales (simp add: same_round_def)

lemma same_round_steps [simp, intro]:
  "same_round p s \<Longrightarrow> same_round p (ek_send kg s)"
  "same_round p s \<Longrightarrow> same_round p (ek_temp f s)"
  "same_round p s \<Longrightarrow> same_round p (ek_save g s)"
  "same_round p s \<Longrightarrow> same_round p (ek_ResetOK s)"
  "same_round p s \<Longrightarrow> same_round p (s\<lparr>en_end := e\<rparr>)"
  "same_round p s \<Longrightarrow> same_round p (s\<lparr>en_ok := ok\<rparr>)"
  by (simp_all add: same_round_def ek_send_def ek_temp_def ek_save_def ek_ResetOK_def)

lemma same_round_sample: "same_round p s \<Longrightarrow> same_round p (fst (ek_sample s f))"
  by (cases "f (en_rand s)") (auto simp: ek_sample_def same_round_def)

lemma same_round_put: "same_round p s \<Longrightarrow> same_round p (fst (ek_put i kg s))"
  by (cases "slice_set (ek_slots_of kg (en_temp s)) i (Some kg)") (auto simp: ek_put_def same_round_def)

lemma same_round_begin: "same_round p s \<Longrightarrow> same_round p (fst (ek_begin n s))"
  by (simp add: ek_begin_def same_round_def ek_ResetOK_def)

lemmas same_round_intros = ekf.fr_intros same_round_sample same_round_put same_round_begin same_round_steps

lemma same_round_put_send: "same_round p s \<Longrightarrow> same_round p (fst (ek_put_send i kg s))"
  unfolding ek_put_send_def by (intro same_round_intros)

lemma same_round_give: "same_round p s \<Longrightarrow> same_round p (fst (ek_give_shares c shares k ids s))"
proof (induction ids arbitrary: k s)
  case (Cons i ids)
  then show ?case unfolding ek_give_shares.simps Let_def by (intro same_round_intros Cons.IH)
qed simp

lemma same_round_Start: "same_round p (fst (ek_Start env p))"
  unfolding ek_Start_def ek_round0_Start_def ek_round1_Start_def ek_round2_Start_def ek_round3_Start_def
    ek_round4_Start_def ek_round5_Start_def ek_round6_Start_def Let_def
  by (intro same_round_intros same_round_put_send same_round_give)

lemma same_round_Store: "same_round p (fst (ek_StoreMessage p msg))"
  unfolding ek_StoreMessage_def Let_def
  by (cases msg) (simp_all only: EdKGMessage.case, (intro same_round_intros | simp add: same_round_def)+)

lemma same_round_loop: "same_round p s \<Longrightarrow> same_round p (fst (ek_update_loop n j ms s))"
proof (induction ms arbitrary: j s)
  case (Cons m ms)
  then show ?case unfolding ek_update_loop.simps by (intro same_round_intros Cons.IH)
qed simp

lemma same_round_Update: "same_round p (fst (ek_Update p))"
  unfolding ek_Update_def by (intro same_round_intros same_round_loop)

definition ek_rank :: "EdKgNode \<Rightarrow> nat" where
  "ek_rank p = (case en_rnd p of None \<Rightarrow> 0 | Some n \<Rightarrow> Suc (6 - n))"

lemma ek_rank_less: "ek_rank p < 8"
  by (cases "en_rnd p") (simp_all add: ek_rank_def)

interpretation ek: round_machine "ek_node env" ek_rank for env :: "'g EdEnv"
proof
  fix p :: EdKgNode and msg
  note r = same_round_Store [of p msg] same_round_Start [of p env] same_round_Update [of p]
  show "ek_rank (fst (dn_StoreMessage (ek_node env) p msg)) = ek_rank p"
    "dn_Round (ek_node env) (fst (dn_StoreMessage (ek_node env) p msg)) = dn_Round (ek_node env) p"
    "ek_rank (fst (dn_Start (ek_node env) p)) = ek_rank p"
    "dn_Round (ek_node env) (fst (dn_Start (ek_node env) p)) = dn_Round (ek_node env) p"
    "ek_rank (fst (dn_Update (ek_node env) p)) = ek_rank p"
    "dn_Round (ek_node env) (fst (dn_Update (ek_node env) p)) = dn_Round (ek_node env) p"
    "ek_rank (dn_ResetOK (ek_node env) p) = ek_rank p"
    using r by (simp_all add: ek_node_def ek_rank_def same_round_def ek_ResetOK_def)
  show "ek_rank (advance (ek_node env) p) < ek_rank p" if "dn_Round (ek_node env) p \<noteq> None"
    using that by (auto simp: advance_def ek_node_def ek_NextRound_def ek_rank_def)
qed

lemma ek_Update_returns: "\<exists>r. \<forall>k. BaseUpdate (8 + k) (ek_node env) p msg = Some r"
  using ek.update_returns [OF ek_rank_less, of env p msg] BaseUpdate_mono by (metis le_add1)

section \<open>Round 6\<close>

text \<open>What a node received from party \<open>k\<close>: the share, the commitments to the coefficients, the key.\<close>

definition got_share :: "EdKgTemp \<Rightarrow> nat \<Rightarrow> byte list" where
  "got_share t k = ek_Share (the (ek_Round4Messages t ! k))"

definition got_cfs :: "EdKgTemp \<Rightarrow> nat \<Rightarrow> byte list list" where
  "got_cfs t k = ek_CfsBBytes (the (ek_Round5Messages t ! k))"

definition got_key :: "EdKgTemp \<Rightarrow> nat \<Rightarrow> byte list" where
  "got_key t k = drop 32 (ek_DPk (the (ek_Round3Messages t ! k)))"

definition has_slot :: "(EdKGMessage \<Rightarrow> bool) \<Rightarrow> ek_slots \<Rightarrow> nat \<Rightarrow> bool" where
  "has_slot P ms k \<longleftrightarrow> k < length ms \<and> (\<exists>m. ms ! k = Some m \<and> P m)"

text \<open>
  The messages of party \<open>k\<close> are there, the commitments are multiples of the base point by the coefficients \<open>vs\<close>, the
  key is the multiple by \<open>y\<close>, and the share is a scalar.
\<close>

definition ek_party :: "'g EdEnv \<Rightarrow> ('g \<Rightarrow> int \<Rightarrow> bool) \<Rightarrow> EdKgTemp \<Rightarrow> nat \<Rightarrow> int list \<Rightarrow> int \<Rightarrow> bool" where
  "ek_party env rep t k vs y \<longleftrightarrow>
     has_slot is_EdKGRound3Message (ek_Round3Messages t) k \<and> has_slot is_EdKGRound4Message (ek_Round4Messages t) k \<and>
     has_slot is_EdKGRound5Message (ek_Round5Messages t) k \<and> opens (ee_ops env) rep (got_key t k) y \<and>
     scalar (got_share t k) \<and> list_all2 (opens (ee_ops env) rep) (got_cfs t k) vs \<and> vs \<noteq> []"

text \<open>The view of the node with the identifier \<open>uid\<close>: the parties have the keys \<open>ys\<close> and committed to \<open>polys\<close>.\<close>

definition ek_view :: "'g EdEnv \<Rightarrow> ('g \<Rightarrow> int \<Rightarrow> bool) \<Rightarrow> int list list \<Rightarrow> int list \<Rightarrow> byte list \<Rightarrow> EdKgNode \<Rightarrow> bool" where
  "ek_view env rep polys ys uid p \<longleftrightarrow>
     (\<exists>ids curIndex. ek_GetIDs p = Ok ids \<and> length ids = length polys \<and> ek_GetDNodeIDIndex p (en_dnodeid p) = Ok curIndex \<and>
        slice_get (et_uids (en_temp p)) curIndex = Ok uid) \<and> scalar uid \<and>
     (\<forall>k < length polys. ek_party env rep (en_temp p) k (polys ! k) (ys ! k))"

text \<open>The shares are values of the committed polynomials, whose constant coefficients belong to the keys.\<close>

definition ek_consistent :: "'g EdEnv \<Rightarrow> int list list \<Rightarrow> int list \<Rightarrow> byte list \<Rightarrow> EdKgTemp \<Rightarrow> bool" where
  "ek_consistent env polys ys uid t \<longleftrightarrow>
     (\<forall>k < length polys. eqm GetBigIntOrder (le (got_share t k)) (peval (polys ! k) (le uid)) \<and>
        eqm GetBigIntOrder (le (key_factor env (got_key t k) (map (got_key t) [0..<length polys])) * ys ! k) (hd (polys ! k)))"

lemma ek_slot_has: "has_slot P ms k \<Longrightarrow> ek_slot P e ms k = Ok (the (ms ! k))"
  by (auto simp: has_slot_def ek_slot_def slice_get_def)

lemma key_factor_scalar: "ed_hashes env \<Longrightarrow> scalar (key_factor env pk PkSet)"
  by (simp add: key_factor_def ed_hashes_def reduced_scalar)

lemma ask_point_rep:
  assumes "ed_laws (ee_ops env) rep" "ed_hashes env" "opens (ee_ops env) rep pk y"
  shows "rep (ask_point env PkSet pk) (le (key_factor env pk PkSet) * y)"
  unfolding ask_point_def
  using ed_lawsD(2) [OF assms(1) key_factor_scalar [OF assms(2)] opens_rep [OF assms(1,3)]] .

lemma ed_sum_points_rep:
  assumes "ed_laws G rep" "list_all2 rep gs ns" "gs \<noteq> []"
  shows "rep (ed_sum_points G gs) (sum_list ns)"
proof -
  have "rep (foldl (GeAdd G) g hs) (n + sum_list ms)" if "rep g n" "list_all2 rep hs ms" for g n hs ms
    using that(2,1)
  proof (induction hs ms arbitrary: g n rule: list_all2_induct)
    case (Cons h hs m ms)
    then show ?case using ed_lawsD(3) [OF assms(1), of g n h m] by (simp flip: add.assoc)
  qed simp
  then show ?thesis using assms(2,3) by (cases gs) (auto simp: list_all2_Cons1)
qed

text \<open>Each check of round 6 decides one part of the consistency.\<close>

lemma round6_share_eq:
  assumes "ed_laws (ee_ops env) rep" "ek_party env rep (en_temp p) k vs y"
    and "slice_get (et_uids (en_temp p)) curIndex = Ok uid" "scalar uid"
  shows "ek_round6_share env p curIndex k =
    (if eqm GetBigIntOrder (le (got_share (en_temp p) k)) (peval vs (le uid)) then Ok (got_key (en_temp p) k)
     else Err ''smpc back-end internal error:vss share verification fail'')"
  using VerifyVss_iff [OF assms(1) _ _ assms(4), of "got_cfs (en_temp p) k" vs "got_share (en_temp p) k"] assms(2,3)
  by (simp add: ek_round6_share_def ek_party_def ek_slot_has got_share_def got_cfs_def got_key_def)

lemma round6_sum_eq:
  assumes "ed_laws (ee_ops env) rep" "ed_hashes env" "ek_party env rep (en_temp p) k vs y"
  shows "ek_round6_sum env p PkSet tSk k =
    (if eqm GetBigIntOrder (le (key_factor env (got_key (en_temp p) k) PkSet) * y) (hd vs)
     then Ok (ScAdd tSk (got_share (en_temp p) k))
     else Err ''smpc back-end internal error:VSS Coefficient verification fail'')"
proof -
  let ?key = "got_key (en_temp p) k" and ?cfs = "got_cfs (en_temp p) k"
  have c: "?cfs \<noteq> []" "opens (ee_ops env) rep (hd ?cfs) (hd vs)"
    using assms(3) by (auto simp: ek_party_def list_all2_Cons2 neq_Nil_conv)
  have "opens (ee_ops env) rep (ToBytes (ee_ops env) (ask_point env PkSet ?key)) (le (key_factor env ?key PkSet) * y)"
    using ask_point_rep [OF assms(1,2), of ?key y] assms(3) by (auto simp: opens_def ek_party_def)
  then have "ToBytes (ee_ops env) (ask_point env PkSet ?key) = hd ?cfs \<longleftrightarrow>
      eqm GetBigIntOrder (le (key_factor env ?key PkSet) * y) (hd vs)" using opens_eq [OF assms(1) _ c(2)] by blast
  then show ?thesis
    using assms(3) c(1)
    by (simp add: ek_round6_sum_def ek_party_def ek_slot_has got_share_def got_cfs_def got_key_def slice_get_def hd_conv_nth Let_def)
qed

lemma round6_point_eq:
  assumes "ek_party env rep (en_temp p) k vs y"
  shows "ek_round6_point env p PkSet k = Ok (ask_point env PkSet (got_key (en_temp p) k))"
  using assms by (simp add: ek_round6_point_def ek_party_def ek_slot_has got_key_def)

lemma foldM_Ok_each: "foldM f b xs = Ok r \<Longrightarrow> x \<in> set xs \<Longrightarrow> \<exists>b r. f b x = Ok r"
  by (induction xs arbitrary: b) auto

definition base_multiple :: "'g EdOps \<Rightarrow> int \<Rightarrow> byte list" where
  "base_multiple G n = base_bytes G (bytes_le 32 (n mod GetBigIntOrder))"

lemma reduced_bytes [simp]: "reduced (bytes_le 32 (n mod GetBigIntOrder))"
  by (simp add: reduced_def)

lemma base_multiple_eq:
  assumes "ed_laws G rep" "rep g m" "eqm GetBigIntOrder m n"
  shows "ToBytes G g = base_multiple G n"
proof -
  have "rep (GeScalarMultBase G (bytes_le 32 (n mod GetBigIntOrder))) (n mod GetBigIntOrder)"
    using ed_lawsD(1) [OF assms(1) reduced_scalar [OF reduced_bytes, of n]] by simp
  then show ?thesis
    unfolding base_multiple_def base_bytes_def using ed_lawsD(5) [OF assms(1,2)] assms(3) by (simp add: eqm_mod_iff)
qed

lemma eqm_sum_list: "(\<And>x. x \<in> set xs \<Longrightarrow> eqm m (f x) (g x)) \<Longrightarrow> eqm m (\<Sum>x\<leftarrow>xs. f x) (\<Sum>x\<leftarrow>xs. g x)"
  by (induction xs) (auto intro: eqm_intros)

lemma sum_list_index: "(\<Sum>k\<leftarrow>[0..<length xs]. f (xs ! k)) = (\<Sum>x\<leftarrow>xs. f x)"
  using map_map [of f "(!) xs" "[0..<length xs]"] by (simp add: map_nth o_def)

lemma ek_sum_shares:
  "\<forall>k \<in> set ks. length (s k) = 32 \<Longrightarrow> length t = 32 \<Longrightarrow> length (fold (\<lambda>k t. ScAdd t (s k)) ks t) = 32 \<and>
     eqm GetBigIntOrder (le (fold (\<lambda>k t. ScAdd t (s k)) ks t)) (le t + (\<Sum>k\<leftarrow>ks. le (s k)))"
proof (induction ks arbitrary: t)
  case (Cons k ks)
  have "eqm GetBigIntOrder (le (ScAdd t (s k)) + (\<Sum>k\<leftarrow>ks. le (s k))) (le t + le (s k) + (\<Sum>k\<leftarrow>ks. le (s k)))"
    using Cons.prems by (intro eqm_intros) (simp add: sc_le)
  then show ?case using Cons.IH [of "ScAdd t (s k)"] Cons.prems by (auto simp: add.assoc intro: eqm_trans)
qed simp

text \<open>The state after round 6.\<close>

definition round6_done :: "'g EdEnv \<Rightarrow> nat \<Rightarrow> EdKgNode \<Rightarrow> EdKgNode" where
  "round6_done env n p =
     (let t = en_temp p; keys = map (got_key t) [0..<n];
          q = ek_save (\<lambda>d. d\<lparr>es_TSk := fold (\<lambda>k tSk. ScAdd tSk (got_share t k)) [0..<n] (zeros 32),
            es_FinalPkBytes := ToBytes (ee_ops env) (ed_sum_points (ee_ops env) (map (ask_point env keys) keys))\<rparr>)
            (ek_ResetOK (p\<lparr>en_number := 6, en_started := True\<rparr>))
      in q\<lparr>en_end := en_end q @ [en_data q]\<rparr>)"

lemma round6_exact:
  assumes laws: "ed_laws (ee_ops env) rep" "ed_hashes env" and view: "ek_view env rep polys ys uid p"
  shows "ek_round6_Start env p = (p', Ok ()) \<longleftrightarrow>
    \<not> en_started p \<and> ek_consistent env polys ys uid (en_temp p) \<and> p' = round6_done env (length polys) p"
proof (cases "en_started p")
  case True
  then show ?thesis by (simp add: ek_round6_Start_def ek_begin_def)
next
  case False
  define q where "q = ek_ResetOK (p\<lparr>en_number := 6, en_started := True\<rparr>)"
  have q: "en_temp q = en_temp p" "en_dnodeid q = en_dnodeid p" "ek_GetIDs q = ek_GetIDs p"
      "ek_GetDNodeIDIndex q i = ek_GetDNodeIDIndex p i" for i
    by (simp_all add: q_def ek_ResetOK_def ek_GetIDs_def ek_GetDNodeIDIndex_def)
  obtain ids curIndex where ids: "ek_GetIDs p = Ok ids" "length ids = length polys"
      "ek_GetDNodeIDIndex p (en_dnodeid p) = Ok curIndex" "slice_get (et_uids (en_temp q)) curIndex = Ok uid"
    and uid: "scalar uid" and party: "\<And>k. k < length polys \<Longrightarrow> ek_party env rep (en_temp q) k (polys ! k) (ys ! k)"
    using view unfolding ek_view_def q(1) by blast
  let ?ks = "[0..<length polys]" and ?t = "en_temp q"
  let ?keys = "map (got_key ?t) ?ks"
  note share = round6_share_eq [OF laws(1) party ids(4) uid]
  note sums = round6_sum_eq [OF laws party]
  have points: "mapM (ek_round6_point env q ?keys) ?ks = Ok (map (ask_point env ?keys) ?keys)"
    using round6_point_eq [OF party] by (auto intro!: mapM_Ok_map [THEN trans] simp: o_def)
  show ?thesis
  proof (cases "ek_consistent env polys ys uid ?t")
    case True
    then have "mapM (ek_round6_share env q curIndex) ?ks = Ok ?keys"
      "foldM (ek_round6_sum env q ?keys) (zeros 32) ?ks = Ok (fold (\<lambda>k tSk. ScAdd tSk (got_share ?t k)) ?ks (zeros 32))"
      using share sums by (auto simp: ek_consistent_def intro!: mapM_Ok_map foldM_Ok_fold)
    then show ?thesis
      using True False ids points q
      by (auto simp: ek_round6_Start_def ek_begin_def Let_def q_def [symmetric] round6_done_def)
  next
    case inconsistent: False
    have "\<not> (\<exists>PkSet tSk. mapM (ek_round6_share env q curIndex) ?ks = Ok PkSet \<and> foldM (ek_round6_sum env q PkSet) (zeros 32) ?ks = Ok tSk)"
    proof
      assume "\<exists>PkSet tSk. mapM (ek_round6_share env q curIndex) ?ks = Ok PkSet \<and> foldM (ek_round6_sum env q PkSet) (zeros 32) ?ks = Ok tSk"
      then obtain PkSet tSk where run: "mapM (ek_round6_share env q curIndex) ?ks = Ok PkSet"
        "foldM (ek_round6_sum env q PkSet) (zeros 32) ?ks = Ok tSk" by blast
      have k: "PkSet ! k = got_key ?t k" "eqm GetBigIntOrder (le (got_share ?t k)) (peval (polys ! k) (le uid))"
        if "k < length polys" for k
        using mapM_Ok_nth [OF run(1), of k] share [OF that] that by (auto split: if_splits)
      then have "PkSet = ?keys" using mapM_Ok_length [OF run(1)] by (auto intro: nth_equalityI)
      then have "eqm GetBigIntOrder (le (key_factor env (got_key ?t k) ?keys) * ys ! k) (hd (polys ! k))" if "k < length polys" for k
        using foldM_Ok_each [OF run(2), of k] sums [OF that] that by (auto split: if_splits)
      then show False using inconsistent k by (auto simp: ek_consistent_def)
    qed
    then have "ek_round6_Start env p \<noteq> (p', Ok ())"
      using False ids q by (auto simp: ek_round6_Start_def ek_begin_def Let_def q_def [symmetric])
    then show ?thesis using inconsistent q(1) by simp
  qed
qed

lemma round6_result:
  assumes laws: "ed_laws (ee_ops env) rep" "ed_hashes env" and view: "ek_view env rep polys ys uid p" "polys \<noteq> []"
    and start: "ek_round6_Start env p = (p', Ok ())"
  shows "length (es_TSk (en_data p')) = 32"
    and "eqm GetBigIntOrder (le (es_TSk (en_data p'))) (\<Sum>poly\<leftarrow>polys. peval poly (le uid))"
    and "es_FinalPkBytes (en_data p') = base_multiple (ee_ops env) (\<Sum>poly\<leftarrow>polys. hd poly)"
    and "en_end p' = en_end p @ [en_data p']"
proof -
  let ?ks = "[0..<length polys]" and ?t = "en_temp p"
  let ?keys = "map (got_key ?t) ?ks"
  have p': "p' = round6_done env (length polys) p" and ok: "ek_consistent env polys ys uid ?t"
    using round6_exact [OF laws view(1)] start by blast+
  have party: "ek_party env rep ?t k (polys ! k) (ys ! k)" if "k < length polys" for k using view(1) that by (simp add: ek_view_def)
  have "\<forall>k \<in> set ?ks. length (got_share ?t k) = 32" using party by (simp add: ek_party_def scalar_def)
  note s = ek_sum_shares [OF this, of "zeros 32"]
  have "eqm GetBigIntOrder (\<Sum>k\<leftarrow>?ks. le (got_share ?t k)) (\<Sum>k\<leftarrow>?ks. peval (polys ! k) (le uid))"
    using ok by (intro eqm_sum_list) (simp add: ek_consistent_def)
  then show "length (es_TSk (en_data p')) = 32"
    "eqm GetBigIntOrder (le (es_TSk (en_data p'))) (\<Sum>poly\<leftarrow>polys. peval poly (le uid))"
    using s sum_list_index [of "\<lambda>poly. peval poly (le uid)" polys]
    by (auto simp: p' round6_done_def Let_def ek_save_def zeros_def intro: eqm_trans)
  let ?y = "\<lambda>k. le (key_factor env (got_key ?t k) ?keys) * ys ! k"
  have "rep (ask_point env ?keys (got_key ?t k)) (?y k)" if "k < length polys" for k
    using ask_point_rep [OF laws] party [OF that] by (auto simp: ek_party_def)
  then have "rep (ed_sum_points (ee_ops env) (map (ask_point env ?keys) ?keys)) (sum_list (map ?y ?ks))"
    using view(2) by (intro ed_sum_points_rep [OF laws(1)]) (auto simp: list_all2_conv_all_nth)
  moreover have "eqm GetBigIntOrder (\<Sum>k\<leftarrow>?ks. ?y k) (\<Sum>k\<leftarrow>?ks. hd (polys ! k))"
    using ok by (intro eqm_sum_list) (simp add: ek_consistent_def)
  ultimately have "ToBytes (ee_ops env) (ed_sum_points (ee_ops env) (map (ask_point env ?keys) ?keys)) =
      base_multiple (ee_ops env) (\<Sum>poly\<leftarrow>polys. hd poly)"
    unfolding sum_list_index [of hd polys] by (rule base_multiple_eq [OF laws(1)])
  then show "es_FinalPkBytes (en_data p') = base_multiple (ee_ops env) (\<Sum>poly\<leftarrow>polys. hd poly)"
    by (simp add: p' round6_done_def Let_def ek_save_def)
  show "en_end p' = en_end p @ [en_data p']" by (simp add: p' round6_done_def Let_def ek_save_def ek_ResetOK_def)
qed

section \<open>The generated key\<close>

text \<open>C8: the Ed25519 key generation is correct: let the keys and the commitments that the nodes hold be encodings of
  multiples of the base point, with the same committed polynomials at all nodes, let the shares and the
  identifiers be below \<open>2 ^ 255\<close>, and let at least as many nodes as the polynomials have coefficients complete the \<^verbatim>\<open>Start\<close> of round 6, with
  identifiers whose differences are invertible.  Nothing else is assumed of the shares and the keys: that they fit the
  commitments is what round 6 checks.  Then \<^verbatim>\<open>ed.Combine\<close> of the secret shares the nodes save is the sum of the constant
  coefficients modulo the order, and every one of them saves as public key, and hands out, the bytes of the multiple of
  the base point by it.  The operations on points satisfy \<open>ed_laws\<close>, and the hashes have their lengths.\<close>

theorem ed_keygen_correct:
  assumes "ed_laws (ee_ops env) rep" "ed_hashes env" "polys \<noteq> []" "nodes \<noteq> []"
    and "\<forall>poly \<in> set polys. length poly \<le> length nodes"
    and "\<forall>(uid, p, p') \<in> set nodes. (\<exists>ys. ek_view env rep polys ys uid p) \<and> ek_round6_Start env p = (p', Ok ())"
    and "unit_diffs GetBigIntOrder (map (\<lambda>node. le (fst node)) nodes)"
  shows "\<exists>secret. ed_Combine (map (\<lambda>(uid, p, p'). es_TSk (en_data p')) nodes) (map fst nodes) = Ok secret \<and>
    le secret = (\<Sum>poly\<leftarrow>polys. hd poly) mod GetBigIntOrder \<and>
    (\<forall>(uid, p, p') \<in> set nodes. es_FinalPkBytes (en_data p') = base_bytes (ee_ops env) secret \<and>
       en_end p' = en_end p @ [en_data p'])"
proof -
  define f where "f z = (\<Sum>poly\<leftarrow>polys. peval poly z)" for z
  have hd: "hd poly = peval poly 0" if "poly \<in> set polys" for poly
  proof -
    obtain uid p p' where "(uid, p, p') \<in> set nodes" using assms(4) by (cases nodes) auto
    then obtain ys where "ek_view env rep polys ys uid p" using assms(6) by auto
    then have "poly \<noteq> []" using that by (auto simp: ek_view_def ek_party_def in_set_conv_nth)
    then show ?thesis by (simp add: peval_0)
  qed
  then have f0: "(\<Sum>poly\<leftarrow>polys. hd poly) = f 0" by (simp add: f_def cong: map_cong)
  have "polyf (length nodes) f"
    unfolding f_def using assms(5)
    by (induction polys) (auto simp: polyf_zero intro!: polyf_add polyf_mono [OF polyf_peval])
  moreover have r: "length (es_TSk (en_data p')) = 32" "eqm GetBigIntOrder (le (es_TSk (en_data p'))) (f (le uid))"
      "es_FinalPkBytes (en_data p') = base_multiple (ee_ops env) (\<Sum>poly\<leftarrow>polys. hd poly)"
      "en_end p' = en_end p @ [en_data p']" "length uid = 32" if "(uid, p, p') \<in> set nodes" for uid p p'
  proof -
    obtain ys where v: "ek_view env rep polys ys uid p" "ek_round6_Start env p = (p', Ok ())" using assms(6) \<open>(uid, p, p') \<in> set nodes\<close> by auto
    show "length (es_TSk (en_data p')) = 32" "eqm GetBigIntOrder (le (es_TSk (en_data p'))) (f (le uid))"
      "es_FinalPkBytes (en_data p') = base_multiple (ee_ops env) (\<Sum>poly\<leftarrow>polys. hd poly)"
      "en_end p' = en_end p @ [en_data p']" using round6_result [OF assms(1,2) v(1) assms(3) v(2)] by (simp_all add: f_def)
    show "length uid = 32" using v(1) by (simp add: ek_view_def scalar_def)
  qed
  moreover have "length (es_TSk (en_data (snd (snd (nodes ! i))))) = 32"
      "eqm GetBigIntOrder (le (es_TSk (en_data (snd (snd (nodes ! i)))))) (f (le (fst (nodes ! i))))" if "i < length nodes" for i
    using r(1,2) [of "fst (nodes ! i)" "fst (snd (nodes ! i))" "snd (snd (nodes ! i))"] that by simp_all
  moreover have "\<forall>x \<in> set nodes. length (fst x) = 32" using r(5) by fastforce
  ultimately obtain secret where s: "ed_Combine (map (\<lambda>(uid, p, p'). es_TSk (en_data p')) nodes) (map fst nodes) = Ok secret"
      "length secret = 32" "le secret = f 0 mod GetBigIntOrder"
    using Combine_correct [of "map fst nodes" "length nodes" f "map (\<lambda>(uid, p, p'). es_TSk (en_data p')) nodes"] assms(4,7)
    by (auto simp: case_prod_beta o_def)
  have "secret = bytes_le 32 (f 0 mod GetBigIntOrder)" using s(2,3) bytes_le_le [of secret] by simp
  then have "es_FinalPkBytes (en_data p') = base_bytes (ee_ops env) secret \<and> en_end p' = en_end p @ [en_data p']"
    if "(uid, p, p') \<in> set nodes" for uid p p'
    using r(3,4) [OF that] f0 by (simp add: base_multiple_def)
  then show ?thesis using s(1,3) f0 by auto
qed

text \<open>Two parties with the keys 3 and 4, sharing polynomials with two coefficients; the hash of everything is 2.\<close>

definition toy_ed :: "int EdEnv" where
  "toy_ed = \<lparr>ee_ops = dlog_ops, ee_sha512 = (\<lambda>x. bytes_le 64 2), ee_sha256 = (\<lambda>x. bytes_le 32 2), ee_Verify = (\<lambda>pk msg sig. True)\<rparr>"

definition toy_ed_polys :: "int list list" where
  "toy_ed_polys = [[6, 5], [8, 6]]"

definition toy_ed_from :: "nat \<Rightarrow> KGRoundMessage" where
  "toy_ed_from k = \<lparr>FromID = to_id (Some (int k + 1)), FromIndex = int k, ToID = []\<rparr>"

definition toy_ed_node :: "nat \<Rightarrow> EdKgNode" where
  "toy_ed_node i =
     \<lparr>en_ID = to_id (Some (int i + 1)), en_rnd = Some 6, en_DNodeCountInGroup = 2, en_ThresHold = 2,
      en_temp = \<lparr>ek_Round0Messages = map (\<lambda>k. Some (EdKGRound0Message (toy_ed_from k))) [0, 1],
        ek_Round1Messages = [], ek_Round2Messages = [],
        ek_Round3Messages = map (\<lambda>k. Some (EdKGRound3Message (toy_ed_from k) (zeros 32 @ bytes_le 32 (int k + 3)))) [0, 1],
        ek_Round4Messages = map (\<lambda>k. Some (EdKGRound4Message (toy_ed_from k)
          (bytes_le 32 (peval (toy_ed_polys ! k) (int i + 1))))) [0, 1],
        ek_Round5Messages = map (\<lambda>k. Some (EdKGRound5Message (toy_ed_from k) (map (bytes_le 32) (toy_ed_polys ! k)))) [0, 1],
        et_sk = [], et_pk = [], et_DPk = [], et_zkPk = [], et_cfsBBytes = [], et_uids = [uid_bytes 1, uid_bytes 2]\<rparr>,
      en_data = ed_NewSaveData\<lparr>es_IDs := [Some 1, Some 2], es_CurDNodeID := Some (int i + 1)\<rparr>, en_out = [], en_end = [], en_ok = [False, False], en_started = False, en_number = 5,
      en_dnodeid = to_id (Some (int i + 1)), en_dnodecount = 2, en_threshold = 2, en_rand = []\<rparr>"

definition toy_ed_done :: "nat \<Rightarrow> EdKgNode" where
  "toy_ed_done i = fst (ek_round6_Start toy_ed (toy_ed_node i))"

lemma toy_ed_laws: "ed_laws (ee_ops toy_ed) dlog_rep" "ed_hashes toy_ed"
  using dlog_laws by (simp_all add: toy_ed_def ed_hashes_def)

lemma dlog_opens: "opens (ee_ops toy_ed) dlog_rep bs n \<longleftrightarrow> bs = bytes_le 32 (n mod GetBigIntOrder)"
  by (auto simp: opens_def dlog_rep_def toy_ed_def dlog_ops_def)

lemma small_mod: "0 \<le> n \<Longrightarrow> n < 1000 \<Longrightarrow> n mod GetBigIntOrder = n"
  by (simp add: GetBigIntOrder_def)

lemma small_scalar: "0 \<le> n \<Longrightarrow> n < 1000 \<Longrightarrow> scalar (bytes_le 32 n) \<and> le (bytes_le 32 n) = n"
  using reduced_scalar [OF reduced_bytes, of n] le_reduced [of n] by (simp add: small_mod)

lemma toy_ed_got:
  assumes "k < 2" "i < 2"
  shows "got_share (en_temp (toy_ed_node i)) k = bytes_le 32 (peval (toy_ed_polys ! k) (int i + 1))"
    "got_cfs (en_temp (toy_ed_node i)) k = map (bytes_le 32) (toy_ed_polys ! k)"
    "got_key (en_temp (toy_ed_node i)) k = bytes_le 32 (int k + 3)"
    "0 \<le> peval (toy_ed_polys ! k) (int i + 1)" "peval (toy_ed_polys ! k) (int i + 1) < 1000"
  using assms by (auto simp: less_Suc_eq numeral_2_eq_2 got_share_def got_cfs_def got_key_def toy_ed_node_def toy_ed_polys_def zeros_def)

lemma toy_ed_party:
  assumes "k < 2" "i < 2"
  shows "ek_party toy_ed dlog_rep (en_temp (toy_ed_node i)) k (toy_ed_polys ! k) ([3, 4] ! k)"
proof -
  have "has_slot is_EdKGRound3Message (ek_Round3Messages (en_temp (toy_ed_node i))) k"
    "has_slot is_EdKGRound4Message (ek_Round4Messages (en_temp (toy_ed_node i))) k"
    "has_slot is_EdKGRound5Message (ek_Round5Messages (en_temp (toy_ed_node i))) k"
    using assms(1) by (auto simp: less_Suc_eq numeral_2_eq_2 has_slot_def toy_ed_node_def)
  moreover have "toy_ed_polys ! k \<noteq> [] \<and> (\<forall>c \<in> set (toy_ed_polys ! k). 0 \<le> c \<and> c < 1000) \<and> [3, 4] ! k = int k + 3"
    using assms(1) by (auto simp: less_Suc_eq numeral_2_eq_2 toy_ed_polys_def)
  ultimately show ?thesis
    unfolding ek_party_def dlog_opens toy_ed_got [OF assms] using assms small_scalar toy_ed_got(4,5) [OF assms]
    by (auto simp: small_mod list_all2_map1 list.rel_refl_strong)
qed

lemma toy_ed_consistent:
  assumes "i < 2"
  shows "ek_consistent toy_ed toy_ed_polys [3, 4] (uid_bytes (int i + 1)) (en_temp (toy_ed_node i))"
proof -
  have "le (uid_bytes 1) = 1" "le (uid_bytes 2) = 2" by code_simp+
  then have u: "le (uid_bytes (int i + 1)) = int i + 1" using assms by (auto simp: less_Suc_eq numeral_2_eq_2)
  have f: "le (key_factor toy_ed pk PkSet) = 2" for pk PkSet
    by (simp add: key_factor_def toy_ed_def sc_le le_bytes_le take_bit_int_eq_self small_mod)
  have h: "k < 2 \<Longrightarrow> 2 * [3, 4] ! k = hd (toy_ed_polys ! k)" for k by (auto simp: less_Suc_eq numeral_2_eq_2 toy_ed_polys_def)
  have n: "length toy_ed_polys = 2" by (simp add: toy_ed_polys_def)
  show ?thesis
    unfolding ek_consistent_def n f u
    using assms small_scalar toy_ed_got(4,5) h by (auto simp: toy_ed_got(1))
qed

lemma toy_ed_ids: "ek_GetIDs (toy_ed_node i) = Ok [Some 1, Some 2]"
proof -
  have "ek_GetIDs (toy_ed_node i) = bindr (mapM (\<lambda>v. bindr (deref v) (\<lambda>v. decode_id (ek_GetFromID v)))
      (map (\<lambda>k. Some (EdKGRound0Message (toy_ed_from k))) [0, 1])) sort_ids"
    by (simp only: ek_GetIDs_def toy_ed_node_def EdKgNode.simps EdKgTemp.simps)
  also have "\<dots> = Ok [Some 1, Some 2]" by code_simp
  finally show ?thesis .
qed

lemma toy_ed_index:
  assumes "i < 2"
  shows "ek_GetDNodeIDIndex (toy_ed_node i) (en_dnodeid (toy_ed_node i)) = Ok (int i)"
proof -
  have e: "\<forall>i \<in> {0, 1}. to_id (Some (int i + 1)) \<noteq> [] \<and>
      bindr (decode_id (to_id (Some (int i + 1)))) (ek_position 0 [Some 1, Some 2]) = Ok (int i)" by code_simp
  have n: "en_dnodeid (toy_ed_node i) = to_id (Some (int i + 1))" "en_dnodecount (toy_ed_node i) = 2"
      "length (ek_Round0Messages (en_temp (toy_ed_node i))) = 2" by (simp_all add: toy_ed_node_def)
  have "i \<in> {0, 1}" using assms by auto
  from bspec [OF e this] show ?thesis
    unfolding ek_GetDNodeIDIndex_def n toy_ed_ids bindr.simps by (simp del: ek_position.simps)
qed

lemma toy_ed_run:
  assumes "i < 2"
  shows "ek_view toy_ed dlog_rep toy_ed_polys [3, 4] (uid_bytes (int i + 1)) (toy_ed_node i) \<and>
    ek_round6_Start toy_ed (toy_ed_node i) = (toy_ed_done i, Ok ())"
proof -
  have n: "length toy_ed_polys = 2" by (simp add: toy_ed_polys_def)
  have "scalar (uid_bytes 1)" "scalar (uid_bytes 2)" by code_simp+
  then have "slice_get (et_uids (en_temp (toy_ed_node i))) (int i) = Ok (uid_bytes (int i + 1)) \<and> scalar (uid_bytes (int i + 1))"
    using assms by (auto simp: less_Suc_eq numeral_2_eq_2 toy_ed_node_def slice_get_def)
  then have v: "ek_view toy_ed dlog_rep toy_ed_polys [3, 4] (uid_bytes (int i + 1)) (toy_ed_node i)"
    using toy_ed_ids [of i] toy_ed_index [OF assms] toy_ed_party [OF _ assms] unfolding ek_view_def n by auto
  have "\<not> en_started (toy_ed_node i)" by (simp add: toy_ed_node_def)
  then have "ek_round6_Start toy_ed (toy_ed_node i) = (round6_done toy_ed (length toy_ed_polys) (toy_ed_node i), Ok ())"
    unfolding round6_exact [OF toy_ed_laws v] using toy_ed_consistent [OF assms] by blast
  then have "ek_round6_Start toy_ed (toy_ed_node i) = (toy_ed_done i, Ok ())" unfolding toy_ed_done_def by (simp only: fst_conv)
  with v show ?thesis by (rule conjI)
qed

theorem ed_keygen_correct_witness:
  "\<exists>secret. ed_Combine [es_TSk (en_data (toy_ed_done 0)), es_TSk (en_data (toy_ed_done 1))] [uid_bytes 1, uid_bytes 2] = Ok secret \<and>
    le secret = 14 \<and> es_FinalPkBytes (en_data (toy_ed_done 0)) = base_bytes dlog_ops secret"
proof -
  let ?nodes = "[(uid_bytes 1, toy_ed_node 0, toy_ed_done 0), (uid_bytes 2, toy_ed_node 1, toy_ed_done 1)]"
  have le: "le (uid_bytes 1) = 1" "le (uid_bytes 2) = 2" by code_simp+
  have u: "unit_diffs GetBigIntOrder (map (\<lambda>node. le (fst node)) ?nodes)"
    by (auto simp: unit_diffs_def le less_Suc_eq nth_Cons')
  show ?thesis
    using ed_keygen_correct [OF toy_ed_laws, of toy_ed_polys ?nodes] u toy_ed_run [of 0] toy_ed_run [of 1]
    by (auto simp: toy_ed_polys_def toy_ed_def small_mod)
qed

end
