(* ===== verification/EdSigningProps.thy ===== *)
theory EdSigningProps
  imports EdSigning EdKeygenProps SigningCorrect
begin

text \<open>
  The signing protocol for Ed25519 is correct: a set of nodes that holds shares of a generated key, at least as many as the
  sharing polynomials have coefficients, computes a signature that every verifier accepts.  The node is an instance of
  the driver's contract.
\<close>

section \<open>The driver's contract\<close>

definition xs_same :: "EdSignNode \<Rightarrow> EdSignNode \<Rightarrow> bool" where
  "xs_same p p' \<longleftrightarrow> xn_rnd p' = xn_rnd p"

interpretation xsf: framing xs_same
  by unfold_locales (simp add: xs_same_def)

lemma xs_same_steps [simp, intro]:
  "xs_same p s \<Longrightarrow> xs_same p (xs_send srm s)"
  "xs_same p s \<Longrightarrow> xs_same p (xs_temp f s)"
  "xs_same p s \<Longrightarrow> xs_same p (xs_ResetOK s)"
  "xs_same p s \<Longrightarrow> xs_same p (s\<lparr>xn_end := e\<rparr>)"
  "xs_same p s \<Longrightarrow> xs_same p (s\<lparr>xn_ok := ok\<rparr>)"
  by (simp_all add: xs_same_def xs_send_def xs_temp_def xs_ResetOK_def)

lemma xs_same_sample: "xs_same p s \<Longrightarrow> xs_same p (fst (xs_sample s f))"
  by (cases "f (xn_rand s)") (auto simp: xs_sample_def xs_same_def)

lemma xs_same_put: "xs_same p s \<Longrightarrow> xs_same p (fst (xs_put i srm s))"
  by (cases "slice_set (xs_slots_of srm (xn_temp s)) i (Some srm)") (auto simp: xs_put_def xs_same_def)

lemma xs_same_begin: "xs_same p s \<Longrightarrow> xs_same p (fst (xs_begin n s))"
  by (simp add: xs_begin_def xs_same_def xs_ResetOK_def)

lemmas xs_same_intros = xsf.fr_intros xs_same_sample xs_same_put xs_same_begin xs_same_steps

lemma xs_same_put_send: "xs_same p s \<Longrightarrow> xs_same p (fst (xs_put_send i srm s))"
  unfolding xs_put_send_def by (intro xs_same_intros)

lemma xs_same_Start: "xs_same p (fst (xs_Start env p))"
  unfolding xs_Start_def xs_round1_Start_def xs_round2_Start_def xs_round3_Start_def xs_round4_Start_def
    xs_round5_Start_def xs_round6_Start_def xs_round7_Start_def Let_def
  by (intro xs_same_intros xs_same_put_send)

lemma xs_same_Store: "xs_same p (fst (xs_StoreMessage p msg))"
  unfolding xs_StoreMessage_def by (intro xs_same_intros)

lemma xs_same_loop: "xs_same p s \<Longrightarrow> xs_same p (fst (xs_update_loop n j ms s))"
proof (induction ms arbitrary: j s)
  case (Cons m ms)
  then show ?case unfolding xs_update_loop.simps by (intro xs_same_intros Cons.IH)
qed simp

lemma xs_same_Update: "xs_same p (fst (xs_Update p))"
  unfolding xs_Update_def by (intro xs_same_intros xs_same_loop)

definition xs_rank :: "EdSignNode \<Rightarrow> nat" where
  "xs_rank p = (case xn_rnd p of None \<Rightarrow> 0 | Some n \<Rightarrow> Suc (7 - n))"

lemma xs_rank_less: "xs_rank p < 9"
  by (cases "xn_rnd p") (simp_all add: xs_rank_def)

interpretation xs: round_machine "xs_node env" xs_rank for env :: "'g EdEnv"
proof
  fix p :: EdSignNode and msg
  note r = xs_same_Store [of p msg] xs_same_Start [of p env] xs_same_Update [of p]
  show "xs_rank (fst (dn_StoreMessage (xs_node env) p msg)) = xs_rank p"
    "dn_Round (xs_node env) (fst (dn_StoreMessage (xs_node env) p msg)) = dn_Round (xs_node env) p"
    "xs_rank (fst (dn_Start (xs_node env) p)) = xs_rank p"
    "dn_Round (xs_node env) (fst (dn_Start (xs_node env) p)) = dn_Round (xs_node env) p"
    "xs_rank (fst (dn_Update (xs_node env) p)) = xs_rank p"
    "dn_Round (xs_node env) (fst (dn_Update (xs_node env) p)) = dn_Round (xs_node env) p"
    "xs_rank (dn_ResetOK (xs_node env) p) = xs_rank p"
    using r by (simp_all add: xs_node_def xs_rank_def xs_same_def xs_ResetOK_def)
  show "xs_rank (advance (xs_node env) p) < xs_rank p" if "dn_Round (xs_node env) p \<noteq> None"
    using that by (auto simp: advance_def xs_node_def xs_NextRound_def xs_rank_def)
qed

lemma xs_Update_returns: "\<exists>r. \<forall>k. BaseUpdate (9 + k) (xs_node env) p msg = Some r"
  using xs.update_returns [OF xs_rank_less, of env p msg] BaseUpdate_mono by (metis le_add1)

section \<open>Sums of points\<close>

definition slot_msg :: "(EdSignMessage \<Rightarrow> bool) \<Rightarrow> xs_slots \<Rightarrow> nat \<Rightarrow> EdSignMessage \<Rightarrow> bool" where
  "slot_msg P ms k m \<longleftrightarrow> k < length ms \<and> ms ! k = Some m \<and> P m"

lemma xs_slot_msg: "slot_msg P ms k m \<Longrightarrow> xs_slot P e ms k = Ok m"
  by (simp add: slot_msg_def xs_slot_def slice_get_def)

lemma foldM_is_fold:
  "foldM f b xs = Ok r \<Longrightarrow> (\<And>b x r. x \<in> set xs \<Longrightarrow> f b x = Ok r \<Longrightarrow> r = g x b) \<Longrightarrow> r = fold g xs b"
  by (induction xs arbitrary: b) auto

lemma add_points_rep:
  assumes "ed_laws G rep" "\<forall>k < n. opens G rep (b k) (r k)" "0 < n"
  shows "rep (fst (fold (\<lambda>k st. add_point G st k (b k)) [0..<n] st)) (\<Sum>k<n. r k)"
  using assms(3,2)
proof (induction n rule: nat_induct_non_zero)
  case 1
  then show ?case using opens_rep [OF assms(1)] by (simp add: add_point_def case_prod_beta Let_def)
next
  case (Suc n)
  let ?st = "fold (\<lambda>k st. add_point G st k (b k)) [0..<n] st"
  have "rep (fst ?st) (\<Sum>k<n. r k)" "rep (fst (FromBytes G (b n) (snd ?st))) (r n)"
    using Suc opens_rep [OF assms(1)] by simp_all
  from ed_lawsD(3) [OF assms(1) this] show ?case using Suc.hyps by (simp add: add_point_def case_prod_beta Let_def)
qed

section \<open>Round 4\<close>

text \<open>
  A signer before round 4: the node of position \<open>i\<close> among the signers \<open>ids\<close>, with the public key, the message and the
  openings of all points \<open>R\<close>, of the nonces \<open>rs\<close>.
\<close>

definition xs_signer :: "'g EdEnv \<Rightarrow> ('g \<Rightarrow> int \<Rightarrow> bool) \<Rightarrow> int list \<Rightarrow> (nat \<Rightarrow> int) \<Rightarrow> byte list \<Rightarrow> nat \<Rightarrow> EdSignNode \<Rightarrow> bool" where
  "xs_signer env rep ids rs M i p \<longleftrightarrow>
     xn_idsign p = ids \<and> xs_GetDNodeIDIndex p (xn_kgid p) = Ok (int i) \<and> es_CurDNodeID (xn_save p) = Some (ids ! i) \<and>
     xt_pkfinal (xn_temp p) = es_FinalPkBytes (xn_save p) \<and> xt_message (xn_temp p) = M \<and> xt_tsk (xn_temp p) = es_TSk (xn_save p) \<and>
     length (xt_r (xn_temp p)) = 32 \<and> le (xt_r (xn_temp p)) = rs i \<and>
     (\<forall>k < length ids. \<exists>m. slot_msg is_EdSignRound3Message (xs_Round3Messages (xn_temp p)) k m \<and>
        opens (ee_ops env) rep (drop 32 (xm_DR m)) (rs k))"

lemma fold_if_filter: "fold (\<lambda>x b. if P x then f x b else b) xs b = fold f (filter P xs) b"
  by (induction xs arbitrary: b) auto

lemma xs_lambda:
  assumes "i < length ids"
  shows "foldM (xs_lambda_step (int i) (uid_bytes (ids ! i))) sc_one (enumerate 0 ids) =
    Ok (fold (\<lambda>j. lagrange_step (map uid_bytes ids ! i) (map uid_bytes ids ! j)) (filter (\<lambda>j. j \<noteq> i) [0..<length ids]) sc_one)"
proof -
  have "foldM (\<lambda>b j. xs_lambda_step (int i) (uid_bytes (ids ! i)) b (j, ids ! j)) sc_one [0..<length ids] =
      Ok (fold (\<lambda>j b. if j \<noteq> i then lagrange_step (map uid_bytes ids ! i) (map uid_bytes ids ! j) b else b) [0..<length ids] sc_one)"
    using assms
    by (intro foldM_Ok_fold) (simp add: xs_lambda_step_def inverse_never_failed lagrange_step_def Let_def)
  then show ?thesis unfolding enumerate_map foldM_map fold_if_filter .
qed

text \<open>What round 4 computes.\<close>

definition xs_part :: "int list \<Rightarrow> nat \<Rightarrow> int" where
  "xs_part ids i = basis_poly (map le (map uid_bytes ids)) (lagrange_weight (map uid_bytes ids)) i 0"

lemma length_uid_bytes [simp]: "length (uid_bytes v) = 32"
  by (simp add: uid_bytes_def zeros_def)

lemma xs_GetDNodeIDIndex_cong: "xn_idsign q = xn_idsign p \<Longrightarrow> xs_GetDNodeIDIndex q x = xs_GetDNodeIDIndex p x"
  by (simp add: xs_GetDNodeIDIndex_def)

definition xs_share :: "'g EdEnv \<Rightarrow> EdSignNode \<Rightarrow> byte list \<Rightarrow> byte list \<Rightarrow> byte list" where
  "xs_share env p R lambda =
     ScAdd (ScMul (ScMul lambda (xt_tsk (xn_temp p))) (ed_k env R (xt_pkfinal (xn_temp p)) (xt_message (xn_temp p)))) (xt_r (xn_temp p))"

lemma round4_run:
  assumes node: "xs_signer env rep ids rs M i p" and start: "xs_round4_Start env p = (p', Ok ())"
  defines "q \<equiv> xs_ResetOK (p\<lparr>xn_number := 4, xn_started := True\<rparr>)"
  obtains FR tem lambda b CSB DSB rand ms where
    "foldM (xs_round4_step env q) (ge_zero (ee_ops env), ge_zero (ee_ops env)) [0..<length ids] = Ok (FR, tem)"
    "foldM (xs_lambda_step (int i) (uid_bytes (ids ! i))) sc_one (enumerate 0 ids) = Ok lambda"
    "ed_Commit env (base_bytes (ee_ops env) (xs_share env p (ToBytes (ee_ops env) FR) lambda)) (xn_rand p) = Ok ((CSB, DSB), rand)"
    "slice_set (xs_Round4Messages (xn_temp p)) (int i) (Some (EdSignRound4Message b CSB)) = Ok ms"
    "xn_temp p' = (xn_temp p)\<lparr>xt_FinalRBytes := ToBytes (ee_ops env) FR, xt_DSB := DSB,
       xt_sBBytes := base_bytes (ee_ops env) (xs_share env p (ToBytes (ee_ops env) FR) lambda),
       xt_s := xs_share env p (ToBytes (ee_ops env) FR) lambda, xs_Round4Messages := ms\<rparr>"
proof -
  have q: "xn_temp q = xn_temp p" "xn_save q = xn_save p" "xn_idsign q = ids" "xn_kgid q = xn_kgid p" "xn_rand q = xn_rand p"
    using node by (simp_all add: q_def xs_ResetOK_def xs_signer_def)
  have i: "xs_GetDNodeIDIndex q (xn_kgid p) = Ok (int i)"
    using node xs_GetDNodeIDIndex_cong [of q p] q(3) by (simp add: xs_signer_def)
  show ?thesis
    using start i q node that
    by (auto simp: xs_round4_Start_def xs_begin_def Let_def q_def [symmetric] xs_share_def xs_signer_def xs_temp_def xs_sample_def
        xs_put_send_def xs_put_def xs_send_def split: if_splits)
qed

lemma round4_FinalR:
  assumes laws: "ed_laws (ee_ops env) rep" and node: "xs_signer env rep ids rs M i p" "i < length ids"
    and run: "xn_temp q = xn_temp p" "foldM (xs_round4_step env q) (z, z) [0..<length ids] = Ok (FR, tem)"
  shows "ToBytes (ee_ops env) FR = base_multiple (ee_ops env) (\<Sum>k<length ids. rs k)"
proof -
  define DR where "DR k = drop 32 (xm_DR (the (xs_Round3Messages (xn_temp p) ! k)))" for k
  have dr: "\<forall>k < length ids. opens (ee_ops env) rep (DR k) (rs k)"
    using node(1) by (force simp: xs_signer_def slot_msg_def DR_def)
  have step: "st' = add_point (ee_ops env) st k (DR k)" if k: "k \<in> set [0..<length ids]" "xs_round4_step env q st k = Ok st'" for st st' k
  proof -
    obtain m where m: "slot_msg is_EdSignRound3Message (xs_Round3Messages (xn_temp p)) k m"
      using node(1) k(1) by (auto simp: xs_signer_def)
    then have "DR k = drop 32 (xm_DR m)" by (simp add: slot_msg_def DR_def)
    then show ?thesis
      using k(2) by (auto simp: xs_round4_step_def Let_def run(1) xs_slot_msg [OF m] split: if_splits)
  qed
  have "(FR, tem) = fold (\<lambda>k st. add_point (ee_ops env) st k (DR k)) [0..<length ids] (z, z)"
    using run(2) step by (rule foldM_is_fold)
  moreover have "rep (fst \<dots>) (\<Sum>k<length ids. rs k)" using node(2) by (intro add_points_rep [OF laws dr]) linarith
  ultimately have "rep FR (\<Sum>k<length ids. rs k)" by (metis fst_conv)
  then show ?thesis by (rule base_multiple_eq [OF laws]) (rule eqm_refl)
qed

lemma round4_result:
  assumes laws: "ed_laws (ee_ops env) rep" "ed_hashes env" and node: "xs_signer env rep ids rs M i p" "i < length ids"
    and ids: "unit_diffs GetBigIntOrder (map le (map uid_bytes ids))" and tsk: "length (es_TSk (xn_save p)) = 32"
    and start: "xs_round4_Start env p = (p', Ok ())"
  defines "R \<equiv> base_multiple (ee_ops env) (\<Sum>k<length ids. rs k)"
  shows "xt_FinalRBytes (xn_temp p') = R" and "reduced (xt_s (xn_temp p'))"
    and "eqm GetBigIntOrder (le (xt_s (xn_temp p'))) (le (ed_k env R (es_FinalPkBytes (xn_save p)) M) * (le (es_TSk (xn_save p)) * xs_part ids i) + rs i)"
    and "\<exists>m. slot_msg is_EdSignRound4Message (xs_Round4Messages (xn_temp p')) i m \<and> ed_Verify env (xm_CSB m) (xt_DSB (xn_temp p'))"
    and "drop 32 (xt_DSB (xn_temp p')) = base_bytes (ee_ops env) (xt_s (xn_temp p'))"
proof -
  obtain FR tem lambda b CSB DSB rand ms where run:
    "foldM (xs_round4_step env (xs_ResetOK (p\<lparr>xn_number := 4, xn_started := True\<rparr>))) (ge_zero (ee_ops env), ge_zero (ee_ops env))
       [0..<length ids] = Ok (FR, tem)"
    "foldM (xs_lambda_step (int i) (uid_bytes (ids ! i))) sc_one (enumerate 0 ids) = Ok lambda"
    "ed_Commit env (base_bytes (ee_ops env) (xs_share env p (ToBytes (ee_ops env) FR) lambda)) (xn_rand p) = Ok ((CSB, DSB), rand)"
    "slice_set (xs_Round4Messages (xn_temp p)) (int i) (Some (EdSignRound4Message b CSB)) = Ok ms"
    "xn_temp p' = (xn_temp p)\<lparr>xt_FinalRBytes := ToBytes (ee_ops env) FR, xt_DSB := DSB,
       xt_sBBytes := base_bytes (ee_ops env) (xs_share env p (ToBytes (ee_ops env) FR) lambda),
       xt_s := xs_share env p (ToBytes (ee_ops env) FR) lambda, xs_Round4Messages := ms\<rparr>"
    using round4_run [OF node(1) start] .
  have R: "ToBytes (ee_ops env) FR = R"
    unfolding R_def by (rule round4_FinalR [OF laws(1) node _ run(1)]) (simp add: xs_ResetOK_def)
  have lam: "length lambda = 32" "eqm GetBigIntOrder (le lambda) (xs_part ids i)"
    using lagrange_basis [of "map uid_bytes ids" i] ids node(2) run(2) by (auto simp: xs_lambda [OF node(2)] xs_part_def)
  let ?k = "ed_k env R (es_FinalPkBytes (xn_save p)) M" and ?t = "es_TSk (xn_save p)"
  have k: "length ?k = 32" using laws(2) by (simp add: ed_k_def ed_hashes_def)
  have s: "xt_s (xn_temp p') = ScAdd (ScMul (ScMul lambda ?t) ?k) (xt_r (xn_temp p))" and r: "length (xt_r (xn_temp p)) = 32" "le (xt_r (xn_temp p)) = rs i"
    using node(1) R by (simp_all add: run(5) xs_share_def xs_signer_def)
  show "xt_FinalRBytes (xn_temp p') = R" by (simp add: run(5) R)
  show "reduced (xt_s (xn_temp p'))" using lam(1) k r(1) tsk by (simp add: s)
  have "eqm GetBigIntOrder (le (xt_s (xn_temp p'))) (le ?k * (le ?t * le lambda) + rs i)"
    using lam(1) k r tsk by (simp add: s sc_le eqm_mod_iff mod_simps mult_ac)
  moreover have "eqm GetBigIntOrder (le ?k * (le ?t * le lambda) + rs i) (le ?k * (le ?t * xs_part ids i) + rs i)"
    by (intro eqm_intros lam)
  ultimately show "eqm GetBigIntOrder (le (xt_s (xn_temp p'))) (le ?k * (le ?t * xs_part ids i) + rs i)" by (rule eqm_trans)
  have c: "ed_Verify env CSB DSB" "drop 32 DSB = base_bytes (ee_ops env) (xt_s (xn_temp p'))"
    using ed_Commit_Verify [OF run(3)] by (simp_all add: run(5))
  have "slot_msg is_EdSignRound4Message (xs_Round4Messages (xn_temp p')) i (EdSignRound4Message b CSB)"
    using run(4) by (auto simp: slot_msg_def run(5) slice_set_Ok_iff)
  then show "\<exists>m. slot_msg is_EdSignRound4Message (xs_Round4Messages (xn_temp p')) i m \<and> ed_Verify env (xm_CSB m) (xt_DSB (xn_temp p'))"
    using c(1) by (auto simp: run(5) intro: exI [of _ "EdSignRound4Message b CSB"])
  show "drop 32 (xt_DSB (xn_temp p')) = base_bytes (ee_ops env) (xt_s (xn_temp p'))" using c(2) by (simp add: run(5))
qed

section \<open>The equation\<close>

text \<open>What the protocol relies on of \<^verbatim>\<open>ed25519.Verify\<close>: it accepts a reduced solution of the equation.\<close>

definition ed_accepts :: "'g EdEnv \<Rightarrow> ('g \<Rightarrow> int \<Rightarrow> bool) \<Rightarrow> bool" where
  "ed_accepts env rep \<longleftrightarrow>
     (\<forall>pk a R r s M. opens (ee_ops env) rep pk a \<longrightarrow> opens (ee_ops env) rep R r \<longrightarrow> reduced s \<longrightarrow>
        eqm GetBigIntOrder (le s) (r + le (ed_k env R pk M) * a) \<longrightarrow> ee_Verify env pk M (R @ s))"

lemma ed_k_scalar: "ed_hashes env \<Longrightarrow> scalar (ed_k env R pk M)"
  by (simp add: ed_k_def ed_hashes_def reduced_scalar)

lemma EdVerify_iff:
  assumes "ed_laws (ee_ops env) rep" "ed_hashes env" "opens (ee_ops env) rep pk a" "opens (ee_ops env) rep R r" "scalar s"
  shows "EdVerify env \<lparr>iv_FinalR = R, iv_FinalS = s, iv_Message = M, iv_FinalPk = pk\<rparr> \<longleftrightarrow>
    eqm GetBigIntOrder (le s) (r + le (ed_k env R pk M) * a)"
proof -
  let ?G = "ee_ops env"
  have "rep (GeAdd ?G (fst (FromBytes ?G R (ge_zero ?G))) (GeScalarMult ?G (ed_k env R pk M) (fst (FromBytes ?G pk (ge_zero ?G)))))
      (r + le (ed_k env R pk M) * a)"
    by (rule ed_lawsD(3) [OF assms(1) opens_rep [OF assms(1,4)] ed_lawsD(2) [OF assms(1) ed_k_scalar [OF assms(2)] opens_rep [OF assms(1,3)]]])
  from ed_lawsD(5) [OF assms(1) ed_lawsD(1) [OF assms(1,5)] this] show ?thesis by (simp add: EdVerify_def Let_def eqm_mod_iff)
qed

lemma top_bits_reduced:
  assumes "reduced s"
  shows "and (s ! 31) 224 = 0"
proof -
  have l: "length s = 32" "le s < 2 ^ 253" using assms by (simp_all add: reduced_def GetBigIntOrder_def)
  have "drop 31 s = [s ! 31]" using l(1) by (subst Cons_nth_drop_Suc [symmetric]) simp_all
  then have "uint (s ! 31) = drop_bit 248 (le s)" using le_drop [of 31 s] by simp
  also have "\<dots> < 2 ^ 5" using l(2) by (simp add: drop_bit_eq_div)
  finally have "uint (s ! 31) < 2 ^ 5" .
  then have "take_bit 5 (uint (s ! 31)) = uint (s ! 31)" by (intro take_bit_int_eq_self) simp_all
  then have "take_bit 5 (s ! 31) = s ! 31" by (simp add: word_uint_eq_iff unsigned_take_bit_eq)
  moreover have "bit (224 :: byte) n \<Longrightarrow> 5 \<le> n" for n using bit_push_bit_iff [of 5 "7 :: byte" n] by simp
  then have "and (take_bit 5 (s ! 31)) 224 = (0 :: byte)" by (intro bit_eqI) (force simp: bit_simps)
  ultimately show ?thesis by simp
qed

lemma ed_lib_Verify_accepts:
  assumes "ed_laws (ee_ops env) rep" "ed_hashes env" "opens (ee_ops env) rep pk a" "opens (ee_ops env) rep R r" "reduced s"
    and "eqm GetBigIntOrder (le s) (r + le (ed_k env R pk M) * a)"
  shows "ed_lib_Verify env pk M (R @ s)"
proof -
  let ?G = "ee_ops env" and ?k = "ed_k env R pk M"
  obtain A where A: "rep A a" "pk = ToBytes ?G A" using assms(3) by (auto simp: opens_def)
  obtain B where B: "rep B r" "R = ToBytes ?G B" using assms(4) by (auto simp: opens_def)
  have l: "length pk = 32" "length R = 32" "length s = 32" "ScMinimal s"
    using opens_length [OF assms(1)] assms(3-5) by (auto simp: reduced_def ScMinimal_iff)
  have n: "(R @ s) ! 63 = s ! 31" using l(2) by (simp add: nth_append)
  have "rep (FeNegXT ?G (fst (FromBytes ?G pk (ge_zero ?G)))) (- a)"
    using ed_lawsD(4) [OF assms(1) opens_rep [OF assms(1,3)]] .
  moreover have "r mod GetBigIntOrder = (le ?k * - a + le s) mod GetBigIntOrder"
    using eqm_add [OF assms(6) eqm_refl, of "le ?k * - a"] by (simp add: eqm_mod_iff add.commute)
  ultimately have "GeDoubleScalarMult ?G ?k (FeNegXT ?G (fst (FromBytes ?G pk (ge_zero ?G)))) s = R"
    unfolding B(2) using ed_lawsD(9) [OF assms(1) ed_k_scalar [OF assms(2)] _ reduced_scalar [OF assms(5)] B(1)] B(2) by simp
  moreover have "snd (FromBytes ?G pk (ge_zero ?G))" using ed_lawsD(6) [OF assms(1) A(1)] A(2) by simp
  ultimately show ?thesis
    using l n top_bits_reduced [OF assms(5)] by (simp add: ed_lib_Verify_def case_prod_beta Let_def)
qed

text \<open>The parts add up to a solution.\<close>

lemma parts_sum:
  assumes "unit_diffs GetBigIntOrder (map le (map uid_bytes ids))" "polyf t f" "t \<le> length ids"
    and "\<And>i. i < length ids \<Longrightarrow> eqm GetBigIntOrder (x i) (f (le (uid_bytes (ids ! i))))"
    and "\<And>i. i < length ids \<Longrightarrow> eqm GetBigIntOrder (s i) (c * (x i * xs_part ids i) + r i)"
  shows "eqm GetBigIntOrder (\<Sum>i<length ids. s i) ((\<Sum>i<length ids. r i) + c * f 0)"
proof -
  have "eqm GetBigIntOrder (\<Sum>i<length ids. s i) (\<Sum>i<length ids. c * (x i * xs_part ids i) + r i)"
    using assms(5) by (intro eqm_sum) auto
  also have "(\<Sum>i<length ids. c * (x i * xs_part ids i) + r i) = (\<Sum>i<length ids. r i) + c * (\<Sum>i<length ids. x i * xs_part ids i)"
    by (simp add: sum.distrib sum_distrib_left)
  finally have 1: "eqm GetBigIntOrder (\<Sum>i<length ids. s i) \<dots>" .
  have "eqm GetBigIntOrder (\<Sum>i<length ids. x i * xs_part ids i) (f 0)"
    using shares_interpolate [of "map uid_bytes ids" t f x] assms(1-4) by (simp add: xs_part_def o_def)
  then have "eqm GetBigIntOrder ((\<Sum>i<length ids. r i) + c * (\<Sum>i<length ids. x i * xs_part ids i)) ((\<Sum>i<length ids. r i) + c * f 0)"
    by (intro eqm_intros)
  with 1 show ?thesis by (rule eqm_trans)
qed

section \<open>Signatures\<close>

text \<open>
  The node \<open>j\<close> after round 4, at whose end it was \<open>p'\<close>; the openings of all parts have arrived; the parts have arrived.
\<close>

definition xs_follows :: "int list \<Rightarrow> nat \<Rightarrow> EdSignNode \<Rightarrow> EdSignNode \<Rightarrow> bool" where
  "xs_follows ids j p' q \<longleftrightarrow>
     \<not> xn_started q \<and> xn_idsign q = ids \<and> xs_GetDNodeIDIndex q (xn_kgid q) = Ok (int j) \<and>
     j < length (xs_Round6Messages (xn_temp q)) \<and> xt_pkfinal (xn_temp q) = es_FinalPkBytes (xn_save p') \<and>
     xt_message (xn_temp q) = xt_message (xn_temp p') \<and> xt_FinalRBytes (xn_temp q) = xt_FinalRBytes (xn_temp p') \<and>
     xt_s (xn_temp q) = xt_s (xn_temp p')"

definition xs_opened :: "nat \<Rightarrow> (nat \<Rightarrow> EdSignNode) \<Rightarrow> EdSignNode \<Rightarrow> bool" where
  "xs_opened n p' q \<longleftrightarrow>
     (\<forall>k < n. k < length (xs_Round4Messages (xn_temp q)) \<and>
        xs_Round4Messages (xn_temp q) ! k = xs_Round4Messages (xn_temp (p' k)) ! k \<and>
        (\<exists>m. slot_msg is_EdSignRound5Message (xs_Round5Messages (xn_temp q)) k m \<and> xm_DSB m = xt_DSB (xn_temp (p' k))))"

definition xs_summed :: "nat \<Rightarrow> (nat \<Rightarrow> EdSignNode) \<Rightarrow> EdSignNode \<Rightarrow> bool" where
  "xs_summed n p' q \<longleftrightarrow>
     (\<forall>k < n. \<exists>m. slot_msg is_EdSignRound6Message (xs_Round6Messages (xn_temp q)) k m \<and> xm_S m = xt_s (xn_temp (p' k)))"

lemma ek_sum_reduced:
  "\<forall>k \<in> set ks. length (s k) = 32 \<Longrightarrow> length t = 32 \<Longrightarrow> ks \<noteq> [] \<Longrightarrow> reduced (fold (\<lambda>k t. ScAdd t (s k)) ks t)"
proof (induction ks arbitrary: t)
  case (Cons k ks)
  then show ?case by (cases "ks = []") simp_all
qed simp

lemma round7_accepts:
  assumes "ed_laws (ee_ops env) rep" "ed_hashes env" "ed_accepts env rep" "opens (ee_ops env) rep pk a" "opens (ee_ops env) rep R r"
    and q: "\<not> xn_started q" "xt_pkfinal (xn_temp q) = pk" "xt_FinalRBytes (xn_temp q) = R" "xt_message (xn_temp q) = M" "xn_idsign q \<noteq> []"
    and s: "xs_summed (length (xn_idsign q)) p' q" "\<And>k. k < length (xn_idsign q) \<Longrightarrow> reduced (xt_s (xn_temp (p' k)))"
    and sum: "eqm GetBigIntOrder (\<Sum>k<length (xn_idsign q). le (xt_s (xn_temp (p' k)))) (r + le (ed_k env R pk M) * a)"
  shows "\<exists>q' S. xs_round7_Start env q = (q', Ok ()) \<and> xn_end q' = xn_end q @ [\<lparr>Rx = R, Sx = S\<rparr>] \<and>
    le S = (r + le (ed_k env R pk M) * a) mod GetBigIntOrder \<and> ed_lib_Verify env pk M (R @ S)"
proof -
  let ?ks = "[0..<length (xn_idsign q)]" and ?s = "\<lambda>k. xt_s (xn_temp (p' k))"
  define q0 where "q0 = xs_ResetOK (q\<lparr>xn_number := 7, xn_started := True\<rparr>)"
  have q0: "xn_temp q0 = xn_temp q" "xn_idsign q0 = xn_idsign q" "xn_end q0 = xn_end q" by (simp_all add: q0_def xs_ResetOK_def)
  define S where "S = fold (\<lambda>k t. ScAdd t (?s k)) ?ks (zeros 32)"
  have "xs_round7_step q0 t k = Ok (ScAdd t (?s k))" if k: "k \<in> set ?ks" for t k
  proof -
    obtain m where m: "slot_msg is_EdSignRound6Message (xs_Round6Messages (xn_temp q0)) k m" "xm_S m = ?s k"
      using s(1) k by (auto simp: xs_summed_def q0)
    then show ?thesis by (simp add: xs_round7_step_def xs_slot_msg [OF m(1)])
  qed
  then have S: "foldM (xs_round7_step q0) (zeros 32) ?ks = Ok S" unfolding S_def by (rule foldM_Ok_fold)
  have l: "\<forall>k \<in> set ?ks. length (?s k) = 32" using s(2) by (simp add: reduced_def)
  have "eqm GetBigIntOrder (le S) (\<Sum>k<length (xn_idsign q). le (?s k))"
    using ek_sum_shares [OF l, of "zeros 32"] unfolding S_def
    by (simp add: zeros_def interv_sum_list_conv_sum_set_nat atLeast0LessThan)
  then have eq: "eqm GetBigIntOrder (le S) (r + le (ed_k env R pk M) * a)" using sum by (rule eqm_trans)
  have red: "reduced S" unfolding S_def using l q(5) by (intro ek_sum_reduced) (simp_all add: zeros_def)
  have "xs_round7_Start env q = (q0\<lparr>xn_end := xn_end q0 @ [\<lparr>Rx = R, Sx = S\<rparr>]\<rparr>, Ok ())"
    using S q EdVerify_iff [OF assms(1,2,4,5) reduced_scalar [OF red], of M] eq assms(3-5) red
    by (simp add: xs_round7_Start_def xs_begin_def q0_def [symmetric] q0(1,2) ed_accepts_def Let_def)
  moreover have "le S = (r + le (ed_k env R pk M) * a) mod GetBigIntOrder"
    using eq red le_bounds [of S] by (simp add: eqm_mod_iff reduced_def)
  ultimately show ?thesis using q0(3) ed_lib_Verify_accepts [OF assms(1,2,4,5) red eq] by auto
qed

lemma round6_accepts:
  assumes "ed_laws (ee_ops env) rep" "ed_hashes env" "opens (ee_ops env) rep pk a" "opens (ee_ops env) rep R r"
    and q: "xs_follows ids j p0 q" "xt_pkfinal (xn_temp q) = pk" "xt_FinalRBytes (xn_temp q) = R" "xt_message (xn_temp q) = M" "ids \<noteq> []"
    and o: "xs_opened (length ids) p' q"
    and s: "\<And>k. k < length ids \<Longrightarrow> reduced (xt_s (xn_temp (p' k)))"
      "\<And>k. k < length ids \<Longrightarrow> drop 32 (xt_DSB (xn_temp (p' k))) = base_bytes (ee_ops env) (xt_s (xn_temp (p' k)))"
      "\<And>k. k < length ids \<Longrightarrow> \<exists>m. slot_msg is_EdSignRound4Message (xs_Round4Messages (xn_temp (p' k))) k m \<and>
         ed_Verify env (xm_CSB m) (xt_DSB (xn_temp (p' k)))"
    and sum: "eqm GetBigIntOrder (\<Sum>k<length ids. le (xt_s (xn_temp (p' k)))) (r + le (ed_k env R pk M) * a)"
  shows "\<exists>q' b. xs_round6_Start env q = (q', Ok ()) \<and> xn_out q' = xn_out q @ [EdSignRound6Message b (xt_s (xn_temp q))]"
proof -
  let ?G = "ee_ops env" and ?s = "\<lambda>k. xt_s (xn_temp (p' k))"
  define q0 where "q0 = xs_ResetOK (q\<lparr>xn_number := 6, xn_started := True\<rparr>)"
  have q0: "xn_temp q0 = xn_temp q" "xn_idsign q0 = ids" "xn_out q0 = xn_out q" "xn_kgid q0 = xn_kgid q"
    using q(1) by (simp_all add: q0_def xs_ResetOK_def xs_follows_def)
  have j: "xs_GetDNodeIDIndex q0 (xn_kgid q) = Ok (int j)" "j < length (xs_Round6Messages (xn_temp q))" "\<not> xn_started q"
    using q(1) xs_GetDNodeIDIndex_cong [of q0 q] q0(2) by (simp_all add: xs_follows_def)
  have "xs_round6_step env q0 st k = Ok (add_point ?G st k (base_bytes ?G (?s k)))" if k: "k \<in> set [0..<length ids]" for st k
  proof -
    have k: "k < length ids" using k by simp
    obtain m where m: "slot_msg is_EdSignRound4Message (xs_Round4Messages (xn_temp (p' k))) k m" "ed_Verify env (xm_CSB m) (xt_DSB (xn_temp (p' k)))"
      using s(3) [OF k] by blast
    then have m4: "slot_msg is_EdSignRound4Message (xs_Round4Messages (xn_temp q0)) k m"
      using o k by (simp add: xs_opened_def slot_msg_def q0)
    obtain m' where m5: "slot_msg is_EdSignRound5Message (xs_Round5Messages (xn_temp q0)) k m'" "xm_DSB m' = xt_DSB (xn_temp (p' k))"
      using o k by (auto simp: xs_opened_def q0)
    show ?thesis
      using m(2) m5(2) s(2) [OF k] by (simp add: xs_round6_step_def xs_slot_msg [OF m4] xs_slot_msg [OF m5(1)])
  qed
  then have f: "foldM (xs_round6_step env q0) z [0..<length ids] =
      Ok (fold (\<lambda>k st. add_point ?G st k (base_bytes ?G (?s k))) [0..<length ids] z)" for z
    by (intro foldM_Ok_fold) simp
  let ?sB = "fst (fold (\<lambda>k st. add_point ?G st k (base_bytes ?G (?s k))) [0..<length ids] (ge_zero ?G, ge_zero ?G))"
  have "rep ?sB (\<Sum>k<length ids. le (?s k))"
    using q(5) opens_base [OF assms(1) reduced_scalar [OF s(1)]] by (intro add_points_rep [OF assms(1)]) auto
  moreover have "rep (sB_expected env (xn_temp q)) (le (ed_k env R pk M) * a + r)"
    unfolding sB_expected_def Let_def q(2-4)
    by (rule ed_lawsD(3) [OF assms(1) ed_lawsD(2) [OF assms(1) ed_k_scalar [OF assms(2)] opens_rep [OF assms(1,3)]] opens_rep [OF assms(1,4)]])
  ultimately have "ToBytes ?G ?sB = ToBytes ?G (sB_expected env (xn_temp q))"
    using ed_lawsD(5) [OF assms(1), of ?sB _ "sB_expected env (xn_temp q)"] sum by (simp add: eqm_mod_iff add.commute)
  then show ?thesis
    using j by (auto simp: xs_round6_Start_def xs_begin_def q0_def [symmetric] q0 f case_prod_beta xs_put_send_def xs_put_def
        slice_set_def xs_send_def)
qed

text \<open>
  The signers of a session: node \<open>i\<close> completed the key generation (\<open>key i\<close> before and \<open>key' i\<close> after round 6), and round 4
  of the signing protocol on the saved data (\<open>p i\<close> before and \<open>p' i\<close> after it).
\<close>

definition xs_session :: "'g EdEnv \<Rightarrow> ('g \<Rightarrow> int \<Rightarrow> bool) \<Rightarrow> int list list \<Rightarrow> int list \<Rightarrow> byte list \<Rightarrow>
    (nat \<Rightarrow> EdKgNode) \<Rightarrow> (nat \<Rightarrow> EdKgNode) \<Rightarrow> (nat \<Rightarrow> EdSignNode) \<Rightarrow> (nat \<Rightarrow> EdSignNode) \<Rightarrow> bool" where
  "xs_session env rep polys ids M key key' p p' \<longleftrightarrow>
     (\<forall>i < length ids. (\<exists>ys. ek_view env rep polys ys (uid_bytes (ids ! i)) (key i)) \<and>
        ek_round6_Start env (key i) = (key' i, Ok ()) \<and> xn_save (p i) = en_data (key' i) \<and>
        xs_signer env rep ids (\<lambda>k. le (xt_r (xn_temp (p k)))) M i (p i) \<and> xs_round4_Start env (p i) = (p' i, Ok ()))"

lemma round4_keeps:
  assumes "xs_signer env rep ids rs M i p" "xs_round4_Start env p = (p', Ok ())"
  shows "xn_save p' = xn_save p" "xt_message (xn_temp p') = M"
proof -
  obtain FR tem lambda b CSB DSB rand ms where t: "xn_temp p' = (xn_temp p)\<lparr>xt_FinalRBytes := ToBytes (ee_ops env) FR, xt_DSB := DSB,
       xt_sBBytes := base_bytes (ee_ops env) (xs_share env p (ToBytes (ee_ops env) FR) lambda),
       xt_s := xs_share env p (ToBytes (ee_ops env) FR) lambda, xs_Round4Messages := ms\<rparr>"
    using round4_run [OF assms] by metis
  then show "xt_message (xn_temp p') = M" using assms(1) by (simp add: xs_signer_def)
  show "xn_save p' = xn_save p"
    using assms(2) by (auto simp: xs_round4_Start_def xs_begin_def Let_def xs_temp_def xs_sample_def xs_put_send_def xs_put_def
        xs_send_def xs_ResetOK_def split: if_splits)
qed

text \<open>C7: signing for Ed25519 is correct: let at least as many nodes as the sharing polynomials have coefficients complete the
  key generation and then round 4 of the signing protocol, with nonces that open the points they committed to.  A node
  that received the openings of round 5 passes round 6 and sends its part; a node that received the parts hands over in
  round 7 the pair of the bytes of the sum of the points \<open>R\<close> and \<open>S = r + k * secret\<close> modulo the order, and the
  verification of \<^verbatim>\<open>signature_data.go\<close> accepts the pair for the generated public key.\<close>

theorem ed_signing_correct:
  assumes "ed_laws (ee_ops env) rep" "ed_hashes env" "ed_accepts env rep"
    and "polys \<noteq> []" "ids \<noteq> []" "\<forall>poly \<in> set polys. length poly \<le> length ids"
    and "unit_diffs GetBigIntOrder (map (\<lambda>v. le (uid_bytes v)) ids)"
    and "xs_session env rep polys ids M key key' p p'" "j < length ids"
    and "xs_follows ids j (p' j) q6" "xs_opened (length ids) p' q6"
    and "xs_follows ids j (p' j) q7" "xs_summed (length ids) p' q7"
  defines "r \<equiv> \<Sum>k<length ids. le (xt_r (xn_temp (p k)))" and "secret \<equiv> \<Sum>poly\<leftarrow>polys. hd poly"
  defines "R \<equiv> base_multiple (ee_ops env) r" and "pk \<equiv> base_multiple (ee_ops env) secret"
  shows "(\<exists>q' b. xs_round6_Start env q6 = (q', Ok ()) \<and> xn_out q' = xn_out q6 @ [EdSignRound6Message b (xt_s (xn_temp q6))]) \<and>
    (\<exists>q' S. xs_round7_Start env q7 = (q', Ok ()) \<and> xn_end q' = xn_end q7 @ [\<lparr>Rx = R, Sx = S\<rparr>] \<and>
       le S = (r + le (ed_k env R pk M) * secret) mod GetBigIntOrder \<and> ed_lib_Verify env pk M (R @ S)) \<and>
    (\<forall>i < length ids. es_FinalPkBytes (en_data (key' i)) = pk)"
proof -
  define f where "f z = (\<Sum>poly\<leftarrow>polys. peval poly z)" for z
  let ?ids = "map le (map uid_bytes ids)"
  have u: "unit_diffs GetBigIntOrder ?ids" using assms(7) by (simp add: o_def)
  have opn: "opens (ee_ops env) rep (base_multiple (ee_ops env) n) (n mod GetBigIntOrder)" for n
    using opens_base [OF assms(1) reduced_scalar [OF reduced_bytes, of n]] by (simp add: base_multiple_def)
  have key: "length (es_TSk (xn_save (p i))) = 32" "eqm GetBigIntOrder (le (es_TSk (xn_save (p i)))) (f (le (uid_bytes (ids ! i))))"
      "es_FinalPkBytes (en_data (key' i)) = pk" "xn_save (p i) = en_data (key' i)" if "i < length ids" for i
  proof -
    obtain ys where v: "ek_view env rep polys ys (uid_bytes (ids ! i)) (key i)" "ek_round6_Start env (key i) = (key' i, Ok ())"
        and sv: "xn_save (p i) = en_data (key' i)" using assms(8) \<open>i < length ids\<close> by (auto simp: xs_session_def)
    note r6 = round6_result [OF assms(1,2) v(1) assms(4) v(2)]
    show "length (es_TSk (xn_save (p i))) = 32" "eqm GetBigIntOrder (le (es_TSk (xn_save (p i)))) (f (le (uid_bytes (ids ! i))))"
      using r6(1,2) by (simp_all add: sv f_def)
    show "es_FinalPkBytes (en_data (key' i)) = pk" using r6(3) by (simp add: pk_def secret_def)
    show "xn_save (p i) = en_data (key' i)" by (rule sv)
  qed
  let ?k = "le (ed_k env R pk M)"
  have sign: "xt_FinalRBytes (xn_temp (p' i)) = R" "reduced (xt_s (xn_temp (p' i)))"
      "eqm GetBigIntOrder (le (xt_s (xn_temp (p' i)))) (?k * (le (es_TSk (xn_save (p i))) * xs_part ids i) + le (xt_r (xn_temp (p i))))"
      "\<exists>m. slot_msg is_EdSignRound4Message (xs_Round4Messages (xn_temp (p' i))) i m \<and> ed_Verify env (xm_CSB m) (xt_DSB (xn_temp (p' i)))"
      "drop 32 (xt_DSB (xn_temp (p' i))) = base_bytes (ee_ops env) (xt_s (xn_temp (p' i)))"
      "es_FinalPkBytes (xn_save (p' i)) = pk" "xt_message (xn_temp (p' i)) = M" if i: "i < length ids" for i
  proof -
    have n: "xs_signer env rep ids (\<lambda>k. le (xt_r (xn_temp (p k)))) M i (p i)" "xs_round4_Start env (p i) = (p' i, Ok ())"
      using assms(8) i by (auto simp: xs_session_def)
    note r4 = round4_result [OF assms(1,2) n(1) i u key(1) [OF i] n(2), folded r_def, folded R_def]
    show "xt_FinalRBytes (xn_temp (p' i)) = R" "reduced (xt_s (xn_temp (p' i)))"
      "\<exists>m. slot_msg is_EdSignRound4Message (xs_Round4Messages (xn_temp (p' i))) i m \<and> ed_Verify env (xm_CSB m) (xt_DSB (xn_temp (p' i)))"
      "drop 32 (xt_DSB (xn_temp (p' i))) = base_bytes (ee_ops env) (xt_s (xn_temp (p' i)))" by (fact r4)+
    show "eqm GetBigIntOrder (le (xt_s (xn_temp (p' i)))) (?k * (le (es_TSk (xn_save (p i))) * xs_part ids i) + le (xt_r (xn_temp (p i))))"
      using r4(3) key(3,4) [OF i] by simp
    show "es_FinalPkBytes (xn_save (p' i)) = pk" "xt_message (xn_temp (p' i)) = M"
      using round4_keeps [OF n] key(3,4) [OF i] by simp_all
  qed
  have "polyf (length ids) f"
    unfolding f_def using assms(6)
    by (induction polys) (auto simp: polyf_zero intro!: polyf_add polyf_mono [OF polyf_peval])
  from parts_sum [OF u this order_refl key(2) sign(3)]
  have "eqm GetBigIntOrder (\<Sum>i<length ids. le (xt_s (xn_temp (p' i)))) (r + ?k * f 0)" by (simp add: r_def)
  moreover have "f 0 = secret"
  proof -
    obtain ys where "ek_view env rep polys ys (uid_bytes (ids ! j)) (key j)" using assms(8,9) by (auto simp: xs_session_def)
    then have "poly \<noteq> []" if "poly \<in> set polys" for poly using that by (auto simp: ek_view_def ek_party_def in_set_conv_nth)
    then show ?thesis unfolding f_def secret_def by (intro arg_cong [where f = sum_list] map_cong refl) (simp add: peval_0)
  qed
  moreover have m: "(r mod GetBigIntOrder + ?k * (secret mod GetBigIntOrder)) mod GetBigIntOrder = (r + ?k * secret) mod GetBigIntOrder"
    by (metis mod_add_left_eq mod_add_right_eq mod_mult_right_eq)
  ultimately have sum: "eqm GetBigIntOrder (\<Sum>i<length ids. le (xt_s (xn_temp (p' i))))
      (r mod GetBigIntOrder + ?k * (secret mod GetBigIntOrder))" unfolding eqm_mod_iff m by simp
  have f6: "xt_pkfinal (xn_temp q6) = pk" "xt_FinalRBytes (xn_temp q6) = R" "xt_message (xn_temp q6) = M"
    and f7: "\<not> xn_started q7" "xt_pkfinal (xn_temp q7) = pk" "xt_FinalRBytes (xn_temp q7) = R" "xt_message (xn_temp q7) = M" "xn_idsign q7 = ids"
    using assms(10,12) sign [OF assms(9)] by (simp_all add: xs_follows_def)
  have opk: "opens (ee_ops env) rep pk (secret mod GetBigIntOrder)" "opens (ee_ops env) rep R (r mod GetBigIntOrder)" by (simp_all add: pk_def R_def opn)
  show ?thesis
    using round6_accepts [OF assms(1,2) opk assms(10) f6 assms(5,11) sign(2,5,4) sum]
      round7_accepts [OF assms(1-3) opk f7(1-4), unfolded f7(5) m, OF assms(5,13) sign(2) sum] key(3) by blast
qed

text \<open>Round 4 completes when the checks of all parties pass.\<close>

lemma round4_completes:
  assumes "\<not> xn_started p" "xs_GetDNodeIDIndex p (xn_kgid p) = Ok (int i)" "i < length (xn_idsign p)"
    and "i < length (xs_Round4Messages (xn_temp p))" "es_CurDNodeID (xn_save p) = Some (xn_idsign p ! i)" "32 \<le> length (xn_rand p)"
    and msgs: "\<And>k. k < length (xn_idsign p) \<Longrightarrow> \<exists>m1 m2 m3. slot_msg is_EdSignRound1Message (xs_Round1Messages (xn_temp p)) k m1 \<and>
      slot_msg is_EdSignRound2Message (xs_Round2Messages (xn_temp p)) k m2 \<and>
      slot_msg is_EdSignRound3Message (xs_Round3Messages (xn_temp p)) k m3 \<and>
      ed_Verify env (xm_CR m1) (xm_DR m3) \<and> VerifyZk2 env (xm_ZkR m2) (drop 32 (xm_DR m3))"
  shows "\<exists>p'. xs_round4_Start env p = (p', Ok ())"
proof -
  define q where "q = xs_ResetOK (p\<lparr>xn_number := 4, xn_started := True\<rparr>)"
  have q: "xn_temp q = xn_temp p" "xn_save q = xn_save p" "xn_idsign q = xn_idsign p" "xn_kgid q = xn_kgid p" "xn_rand q = xn_rand p"
      "xs_GetDNodeIDIndex q (xn_kgid p) = Ok (int i)"
    using assms(2) xs_GetDNodeIDIndex_cong [of q p] by (simp_all add: q_def xs_ResetOK_def)
  have "xs_round4_step env q st k = Ok (add_point (ee_ops env) st k (drop 32 (xm_DR (the (xs_Round3Messages (xn_temp p) ! k)))))"
    if k: "k \<in> set [0..<length (xn_idsign p)]" for st k
  proof -
    obtain m1 m2 m3 where m: "slot_msg is_EdSignRound1Message (xs_Round1Messages (xn_temp p)) k m1"
      "slot_msg is_EdSignRound2Message (xs_Round2Messages (xn_temp p)) k m2"
      "slot_msg is_EdSignRound3Message (xs_Round3Messages (xn_temp p)) k m3"
      "ed_Verify env (xm_CR m1) (xm_DR m3)" "VerifyZk2 env (xm_ZkR m2) (drop 32 (xm_DR m3))" using msgs k by fastforce
    then have "the (xs_Round3Messages (xn_temp p) ! k) = m3" by (simp add: slot_msg_def)
    then show ?thesis
      using m(4,5) by (simp add: xs_round4_step_def q xs_slot_msg [OF m(1)] xs_slot_msg [OF m(2)] xs_slot_msg [OF m(3)] Let_def)
  qed
  then have "\<exists>st. foldM (xs_round4_step env q) (ge_zero (ee_ops env), ge_zero (ee_ops env)) [0..<length (xn_idsign p)] = Ok st"
    using foldM_Ok_fold [of "[0..<length (xn_idsign p)]" "xs_round4_step env q"
      "\<lambda>k st. add_point (ee_ops env) st k (drop 32 (xm_DR (the (xs_Round3Messages (xn_temp p) ! k))))"] by blast
  then show ?thesis
    using assms(1-6) xs_lambda [OF assms(3)] q
    by (auto simp: xs_round4_Start_def xs_begin_def q_def [symmetric] Let_def case_prod_beta xs_temp_def xs_sample_def ed_Commit_def ReadFull_def
        xs_put_send_def xs_put_def slice_set_def)
qed

text \<open>The two parties of the key generation above sign, with the nonces 10 and 20.\<close>

definition toy_xs_from :: SignRoundMessage where
  "toy_xs_from = \<lparr>sm_FromID = [], sm_FromIndex = 0, sm_ToID = []\<rparr>"

definition toy_xs_nonce :: "nat \<Rightarrow> int" where
  "toy_xs_nonce k = 10 * (int k + 1)"

definition toy_xs :: "nat \<Rightarrow> EdSignNode" where
  "toy_xs i =
     \<lparr>xn_ID = to_id (Some (int i + 1)), xn_rnd = Some 4, xn_ThresHold = 2, xn_PaillierKeyLength = 0,
      xn_temp = \<lparr>xs_Round1Messages = map (\<lambda>k. Some (EdSignRound1Message toy_xs_from (bytes_le 32 2))) [0, 1 :: nat],
        xs_Round2Messages = map (\<lambda>k. Some (EdSignRound2Message toy_xs_from (bytes_le 32 2 @ zeros 32))) [0, 1 :: nat],
        xs_Round3Messages = map (\<lambda>k. Some (EdSignRound3Message toy_xs_from (zeros 32 @ bytes_le 32 (toy_xs_nonce k)))) [0, 1],
        xs_Round4Messages = [None, None], xs_Round5Messages = [None, None], xs_Round6Messages = [None, None],
        xt_uids = [uid_bytes 1, uid_bytes 2], xt_sk = [], xt_tsk = es_TSk (en_data (toy_ed_done i)),
        xt_pkfinal = es_FinalPkBytes (en_data (toy_ed_done i)), xt_message = [7], xt_DR = [], xt_zkR = [],
        xt_r = bytes_le 32 (toy_xs_nonce i), xt_s = [], xt_sBBytes = [], xt_DSB = [], xt_FinalRBytes = []\<rparr>,
      xn_save = en_data (toy_ed_done i), xn_idsign = [1, 2], xn_out = [], xn_end = [], xn_finalize = False, xn_txhash = Some 7,
      xn_ok = [False, False], xn_started = False, xn_number = 3, xn_kgid = to_id (Some (int i + 1)), xn_threshold = 2,
      xn_rand = zeros 32\<rparr>"

definition toy_xs4 :: "nat \<Rightarrow> EdSignNode" where
  "toy_xs4 i = fst (xs_round4_Start toy_ed (toy_xs i))"

definition toy_xs_final :: EdSignNode where
  "toy_xs_final = (toy_xs 0)\<lparr>xn_temp := (xn_temp (toy_xs 0))\<lparr>
     xs_Round4Messages := map (\<lambda>k. xs_Round4Messages (xn_temp (toy_xs4 k)) ! k) [0, 1],
     xs_Round5Messages := map (\<lambda>k. Some (EdSignRound5Message toy_xs_from (xt_DSB (xn_temp (toy_xs4 k))))) [0, 1],
     xs_Round6Messages := map (\<lambda>k. Some (EdSignRound6Message toy_xs_from (xt_s (xn_temp (toy_xs4 k))))) [0, 1],
     xt_FinalRBytes := xt_FinalRBytes (xn_temp (toy_xs4 0)), xt_s := xt_s (xn_temp (toy_xs4 0))\<rparr>\<rparr>"

lemma two_cases: "k < (2 :: nat) \<Longrightarrow> k = 0 \<or> k = 1"
  by auto

lemma toy_xs_index:
  assumes "i < 2"
  shows "xs_GetDNodeIDIndex (toy_xs i) (xn_kgid (toy_xs i)) = Ok (int i)"
proof -
  have e: "\<forall>i \<in> {0, 1}. to_id (Some (int i + 1)) \<noteq> [] \<and> bindr (decode_id (to_id (Some (int i + 1)))) (\<lambda>x.
      bindr (index_of x [1, 2] 0) (\<lambda>k. ofOption ''get dnode index fail,no found in kgRound0Messages'' k)) = Ok (int i)" by code_simp
  have n: "xn_kgid (toy_xs i) = to_id (Some (int i + 1))" "xn_idsign (toy_xs i) = [1, 2]" by (simp_all add: toy_xs_def)
  have "i \<in> {0, 1}" using assms by auto
  from bspec [OF e this] show ?thesis unfolding xs_GetDNodeIDIndex_def n by (simp del: index_of.simps)
qed

lemma toy_xs_cur: "i < 2 \<Longrightarrow> es_CurDNodeID (en_data (toy_ed_done i)) = Some (int i + 1)"
  using toy_ed_run [of i] round6_exact [OF toy_ed_laws, of toy_ed_polys "[3, 4]" "uid_bytes (int i + 1)" "toy_ed_node i" "toy_ed_done i"]
  by (auto simp: round6_done_def Let_def ek_save_def ek_ResetOK_def toy_ed_node_def ed_NewSaveData_def)

lemma toy_xs_opens: "opens (ee_ops toy_ed) dlog_rep (bytes_le 32 (toy_xs_nonce k)) (le (bytes_le 32 (toy_xs_nonce k)))" if "k < 2"
proof -
  have "0 \<le> toy_xs_nonce k" "toy_xs_nonce k < 1000" using that by (auto simp: toy_xs_nonce_def)
  then show ?thesis using small_scalar [of "toy_xs_nonce k"] by (simp add: dlog_opens small_mod)
qed

lemma toy_xs_run:
  assumes "i < 2"
  shows "xs_signer toy_ed dlog_rep [1, 2] (\<lambda>k. le (xt_r (xn_temp (toy_xs k)))) [7] i (toy_xs i) \<and>
    xs_round4_Start toy_ed (toy_xs i) = (toy_xs4 i, Ok ())"
proof -
  have r: "xt_r (xn_temp (toy_xs k)) = bytes_le 32 (toy_xs_nonce k)" for k by (simp add: toy_xs_def)
  have slots: "slot_msg is_EdSignRound1Message (xs_Round1Messages (xn_temp (toy_xs i))) k (EdSignRound1Message toy_xs_from (bytes_le 32 2))"
      "slot_msg is_EdSignRound2Message (xs_Round2Messages (xn_temp (toy_xs i))) k (EdSignRound2Message toy_xs_from (bytes_le 32 2 @ zeros 32))"
      "slot_msg is_EdSignRound3Message (xs_Round3Messages (xn_temp (toy_xs i))) k (EdSignRound3Message toy_xs_from (zeros 32 @ bytes_le 32 (toy_xs_nonce k)))"
    if "k < 2" for k using two_cases [OF that] by (auto simp: slot_msg_def toy_xs_def)
  have c: "xn_idsign (toy_xs i) = [1, 2]" "xn_save (toy_xs i) = en_data (toy_ed_done i)" "\<not> xn_started (toy_xs i)"
      "length (xs_Round4Messages (xn_temp (toy_xs i))) = 2" "length (xn_rand (toy_xs i)) = 32"
      "xt_pkfinal (xn_temp (toy_xs i)) = es_FinalPkBytes (en_data (toy_ed_done i))" "xt_message (xn_temp (toy_xs i)) = [7]"
      "xt_tsk (xn_temp (toy_xs i)) = es_TSk (en_data (toy_ed_done i))"
    by (simp_all add: toy_xs_def zeros_def)
  have v: "es_CurDNodeID (en_data (toy_ed_done i)) = Some ([1, 2] ! i)" using toy_xs_cur [OF assms] two_cases [OF assms] by auto
  have h: "ed_Verify toy_ed (bytes_le 32 2) D" "VerifyZk2 toy_ed (bytes_le 32 2 @ zeros 32) pk" for D pk
  proof -
    have "ScReduce (bytes_le 64 2) = bytes_le 32 2" by (simp add: ScReduce_bytes le_bytes_le take_bit_int_eq_self small_mod)
    then show "ed_Verify toy_ed (bytes_le 32 2) D" "VerifyZk2 toy_ed (bytes_le 32 2 @ zeros 32) pk"
      by (simp_all add: ed_Verify_def ed_digest_def VerifyZk2_def verify_with_def challenge_def toy_ed_def Let_def)
  qed
  have lr: "length (bytes_le 32 (toy_xs_nonce i)) = 32" by simp
  have small: "\<exists>m. slot_msg is_EdSignRound3Message (xs_Round3Messages (xn_temp (toy_xs i))) k m \<and>
      opens (ee_ops toy_ed) dlog_rep (drop 32 (xm_DR m)) (le (bytes_le 32 (toy_xs_nonce k)))" if "k < length [1, 2 :: int]" for k
    using slots(3) [of k] toy_xs_opens [of k] that by (intro exI [of _ "EdSignRound3Message toy_xs_from (zeros 32 @ bytes_le 32 (toy_xs_nonce k))"]) (simp add: zeros_def)
  have "xs_signer toy_ed dlog_rep [1, 2] (\<lambda>k. le (xt_r (xn_temp (toy_xs k)))) [7] i (toy_xs i)"
    unfolding xs_signer_def c v r toy_xs_index [OF assms] using assms v by (intro conjI refl allI impI lr small) auto
  moreover have "\<exists>p'. xs_round4_Start toy_ed (toy_xs i) = (p', Ok ())"
  proof (rule round4_completes [where i = i])
    show "\<exists>m1 m2 m3. slot_msg is_EdSignRound1Message (xs_Round1Messages (xn_temp (toy_xs i))) k m1 \<and>
      slot_msg is_EdSignRound2Message (xs_Round2Messages (xn_temp (toy_xs i))) k m2 \<and>
      slot_msg is_EdSignRound3Message (xs_Round3Messages (xn_temp (toy_xs i))) k m3 \<and>
      ed_Verify toy_ed (xm_CR m1) (xm_DR m3) \<and> VerifyZk2 toy_ed (xm_ZkR m2) (drop 32 (xm_DR m3))" if "k < length (xn_idsign (toy_xs i))" for k
      using slots [of k] that h by (intro exI conjI) (auto simp: c(1))
  qed (use assms c v toy_xs_index [OF assms] in \<open>simp_all add: c(1)\<close>)
  ultimately show ?thesis by (auto simp: toy_xs4_def)
qed

theorem ed_signing_correct_witness:
  "\<exists>q' S. xs_round7_Start toy_ed toy_xs_final = (q', Ok ()) \<and> xn_end q' = [\<lparr>Rx = base_multiple dlog_ops 30, Sx = S\<rparr>] \<and> le S = 58"
proof -
  have v: "xs_signer toy_ed dlog_rep [1, 2] (\<lambda>k. le (xt_r (xn_temp (toy_xs k)))) [7] i (toy_xs i)"
      "xs_round4_Start toy_ed (toy_xs i) = (toy_xs4 i, Ok ())" if "i < 2" for i using toy_xs_run [OF that] by auto
  have sv: "xn_save (toy_xs i) = en_data (toy_ed_done i)" for i by (simp add: toy_xs_def)
  have k: "[1, 2] ! i = int i + 1" if "i < 2" for i using two_cases [OF that] by auto
  have ses: "xs_session toy_ed dlog_rep toy_ed_polys [1, 2] [7] toy_ed_node toy_ed_done toy_xs toy_xs4"
    unfolding xs_session_def
  proof (intro allI impI)
    fix i assume "i < length [1, 2 :: int]"
    then have i: "i < 2" by simp
    have "\<exists>ys. ek_view toy_ed dlog_rep toy_ed_polys ys (uid_bytes ([1, 2] ! i)) (toy_ed_node i)"
      "ek_round6_Start toy_ed (toy_ed_node i) = (toy_ed_done i, Ok ())" unfolding k [OF i] using toy_ed_run [OF i] by blast+
    then show "(\<exists>ys. ek_view toy_ed dlog_rep toy_ed_polys ys (uid_bytes ([1, 2] ! i)) (toy_ed_node i)) \<and>
        ek_round6_Start toy_ed (toy_ed_node i) = (toy_ed_done i, Ok ()) \<and> xn_save (toy_xs i) = en_data (toy_ed_done i) \<and>
        xs_signer toy_ed dlog_rep [1, 2] (\<lambda>k. le (xt_r (xn_temp (toy_xs k)))) [7] i (toy_xs i) \<and>
        xs_round4_Start toy_ed (toy_xs i) = (toy_xs4 i, Ok ())" by (intro conjI sv v i)
  qed
  have fol: "xs_follows [1, 2] 0 (toy_xs4 0) toy_xs_final"
    using round4_keeps [OF v, of 0] toy_xs_index [of 0] xs_GetDNodeIDIndex_cong [of toy_xs_final "toy_xs 0"]
    by (simp add: xs_follows_def toy_xs_final_def) (simp add: toy_xs_def)
  have opn: "xs_opened (length [1, 2 :: int]) toy_xs4 toy_xs_final" and smd: "xs_summed (length [1, 2 :: int]) toy_xs4 toy_xs_final"
    by (auto simp: xs_opened_def xs_summed_def toy_xs_final_def slot_msg_def less_Suc_eq numeral_2_eq_2)
  have le: "le (uid_bytes 1) = 1" "le (uid_bytes 2) = 2" by code_simp+
  have u: "unit_diffs GetBigIntOrder (map (\<lambda>v. le (uid_bytes v)) [1, 2])"
    by (auto simp: unit_diffs_def le less_Suc_eq nth_Cons')
  have acc: "ed_accepts toy_ed dlog_rep" by (simp add: ed_accepts_def toy_ed_def)
  have nonce: "xt_r (xn_temp (toy_xs k)) = bytes_le 32 (toy_xs_nonce k)" for k by (simp add: toy_xs_def)
  have r: "(\<Sum>k<length [1, 2 :: int]. le (xt_r (xn_temp (toy_xs k)))) = 30"
    using small_scalar [of 10] small_scalar [of 20] by (simp add: nonce toy_xs_nonce_def)
  have h: "le (ed_k toy_ed R pk M) = 2" for R pk M by (simp add: ed_k_def toy_ed_def sc_le le_bytes_le take_bit_int_eq_self small_mod)
  have e: "xn_end toy_xs_final = []" by (simp add: toy_xs_final_def toy_xs_def)
  show ?thesis
    using ed_signing_correct [OF toy_ed_laws acc _ _ _ u ses _ fol opn fol smd] unfolding r h e
    by (auto simp: toy_ed_polys_def small_mod toy_ed_def)
qed

end
