(* ===== verification/EdReturns.thy ===== *)
theory EdReturns
  imports EdSigningProps
begin

text \<open>
  No step of the Ed25519 protocols waits or repeats a sample until it fits, so every delivery of a message to a node
  of them returns, with a result, an error or a panic.
\<close>

section \<open>Where a computation may hang\<close>

named_theorems never_hangs \<open>functions whose result is never \<open>Hang\<close>\<close>

lemma bindr_Hang [simp]: "bindr r f = Hang \<longleftrightarrow> r = Hang \<or> (\<exists>a. r = Ok a \<and> f a = Hang)"
  by (cases r) auto

lemma tryr_Hang [simp]: "snd (tryr r s k) = Hang \<longleftrightarrow> r = Hang \<or> (\<exists>a. r = Ok a \<and> snd (k a) = Hang)"
  by (cases r) auto

lemma bindst_Hang [simp]: "snd (bindst r k) = Hang \<longleftrightarrow> snd r = Hang \<or> (\<exists>s a. r = (s, Ok a) \<and> snd (k s a) = Hang)"
  by (cases "(r, k)" rule: bindst.cases) auto

lemma mapM_returns [never_hangs]: "(\<And>x. x \<in> set xs \<Longrightarrow> f x \<noteq> Hang) \<Longrightarrow> mapM f xs \<noteq> Hang"
  by (induction xs) auto

lemma foldM_returns [never_hangs]: "(\<And>b x. f b x \<noteq> Hang) \<Longrightarrow> foldM f b xs \<noteq> Hang"
  by (induction xs arbitrary: b) auto

lemma DecodeString_returns: "DecodeString s \<noteq> Hang"
  by (induction s rule: DecodeString.induct) (auto split: option.splits)

lemma basic_return [never_hangs]:
  "deref x \<noteq> Hang" "ofOption e x \<noteq> Hang" "slice_get xs i \<noteq> Hang" "slice_set xs i y \<noteq> Hang" "decode_id s \<noteq> Hang"
  "index_of u vs n \<noteq> Hang" "ReadFull cnt rand \<noteq> Hang"
proof -
  show d: "deref x \<noteq> Hang" for x :: "'z option" by (cases x) auto
  show "ofOption e x \<noteq> Hang" by (cases x) auto
  show "slice_get xs i \<noteq> Hang" "slice_set xs i y \<noteq> Hang" by (simp_all add: slice_get_def slice_set_def)
  show "decode_id s \<noteq> Hang" using DecodeString_returns by (simp add: decode_id_def)
  show "index_of u vs n \<noteq> Hang" by (induction vs arbitrary: n) (auto simp: d)
  show "ReadFull cnt rand \<noteq> Hang" by (simp add: ReadFull_def)
qed

lemma sort_ids_returns [never_hangs]: "sort_ids ids \<noteq> Hang"
  by (auto simp: sort_ids_def never_hangs)

section \<open>The driver\<close>

text \<open>A node whose operations return.\<close>

locale returning_machine =
  fixes D :: "('s, 'm) DNode"
  assumes start_returns: "snd (dn_Start D s) \<noteq> Hang"
    and store_returns: "snd (dn_StoreMessage D s msg) \<noteq> Hang"
    and update_step_returns: "snd (dn_Update D s) \<noteq> Hang"
begin

lemma proceed_again_returns: "snd (proceed_again D s) \<noteq> Hang"
  using start_returns by (simp add: proceed_again_def Let_def)

lemma resetRound_returns: "snd (resetRound D s) \<noteq> Hang"
  by (simp add: resetRound_def)

lemma proceed_returns: "snd (proceed D s) \<noteq> Hang"
  using start_returns proceed_again_returns resetRound_returns update_step_returns
  by (auto simp: proceed_def Let_def split: prod.splits res.splits) (metis snd_conv)+

lemma delivery_returns: "BaseUpdate fuel D s msg = Some r \<Longrightarrow> snd r \<noteq> Hang"
proof (induction fuel arbitrary: s)
  case (Suc fuel)
  obtain t a u b v c where steps: "dn_StoreMessage D s msg = (t, a)" "dn_Update D t = (u, b)" "proceed D u = (v, c)"
    by (meson surj_pair)
  then have "a \<noteq> Hang" "b \<noteq> Hang" "c \<noteq> Hang"
    using store_returns [of s msg] update_step_returns [of t] proceed_returns [of u] by simp_all
  then show ?case
    using Suc.prems Suc.IH [of v] by (auto simp: BaseUpdate.simps steps split: if_splits res.splits)
qed (simp add: BaseUpdate.simps)

end

section \<open>Key generation\<close>

lemma read_scalars_return [never_hangs]: "read_scalars n rand \<noteq> Hang"
  by (induction n arbitrary: rand) (auto simp: read_scalar_def never_hangs)

lemma ed_crypto_returns [never_hangs]:
  "ed_Commit env s rand \<noteq> Hang" "ed_Prove2 env sk pk rand \<noteq> Hang" "calculatePolynomial cfs i \<noteq> Hang"
  "ed_Vss G s ids t n rand \<noteq> Hang" "VerifyVss G sh i cfs \<noteq> Hang"
proof -
  show c: "calculatePolynomial cfs i \<noteq> Hang" for cfs i by (simp add: calculatePolynomial_def Let_def)
  show "ed_Commit env s rand \<noteq> Hang" "ed_Prove2 env sk pk rand \<noteq> Hang" "VerifyVss G sh i cfs \<noteq> Hang"
    by (auto simp: ed_Commit_def ed_Prove2_def prove_with_def read_scalar_def VerifyVss_def Let_def never_hangs split: prod.splits)
  show "ed_Vss G s ids t n rand \<noteq> Hang"
    by (auto simp: ed_Vss_def Let_def never_hangs c split: prod.splits)
qed

lemma ek_ids_return [never_hangs]: "ek_GetIDs p \<noteq> Hang" "ek_position k vs uid \<noteq> Hang" "ek_GetDNodeIDIndex p i \<noteq> Hang"
proof -
  show g: "ek_GetIDs p \<noteq> Hang" by (auto simp: ek_GetIDs_def never_hangs)
  show q: "ek_position k vs uid \<noteq> Hang" for k vs uid by (induction vs arbitrary: k) (auto simp: never_hangs)
  show "ek_GetDNodeIDIndex p i \<noteq> Hang" by (auto simp: ek_GetDNodeIDIndex_def never_hangs g q)
qed

lemma ek_pieces_return [never_hangs]:
  "snd (ek_put index msg p) \<noteq> Hang" "snd (ek_begin n p) \<noteq> Hang" "ek_slot P e ms k \<noteq> Hang"
  by (auto simp: ek_put_def ek_begin_def ek_slot_def never_hangs split: option.splits)

lemma ek_put_send_returns [never_hangs]: "snd (ek_put_send index msg p) \<noteq> Hang"
  by (auto simp: ek_put_send_def never_hangs)

lemma ek_sample_returns [never_hangs]: "f (en_rand p) \<noteq> Hang \<Longrightarrow> snd (ek_sample p f) \<noteq> Hang"
  by (auto simp: ek_sample_def split: prod.splits)

lemma ek_give_shares_returns [never_hangs]: "snd (ek_give_shares c shares k ids p) \<noteq> Hang"
  by (induction c shares k ids p rule: ek_give_shares.induct) (auto simp: never_hangs Let_def split: if_splits)

lemma ek_checks_return [never_hangs]:
  "ek_round4_check env p k \<noteq> Hang" "ek_round6_share env p c k \<noteq> Hang" "ek_round6_sum env p pks tSk k \<noteq> Hang"
  "ek_round6_point env p pks k \<noteq> Hang"
  by (auto simp: ek_round4_check_def ek_round6_share_def ek_round6_sum_def ek_round6_point_def Let_def never_hangs
      split: if_splits)

lemma ek_rounds_return:
  "snd (ek_round0_Start p) \<noteq> Hang" "snd (ek_round1_Start env p) \<noteq> Hang" "snd (ek_round2_Start p) \<noteq> Hang"
  "snd (ek_round3_Start p) \<noteq> Hang" "snd (ek_round4_Start env p) \<noteq> Hang" "snd (ek_round5_Start p) \<noteq> Hang"
  "snd (ek_round6_Start env p) \<noteq> Hang"
  unfolding ek_round0_Start_def ek_round1_Start_def ek_round2_Start_def ek_round3_Start_def ek_round4_Start_def
    ek_round5_Start_def ek_round6_Start_def Let_def
  by (auto simp: never_hangs read_or_zero_def split: prod.splits option.splits if_splits)

lemma ek_update_loop_returns: "snd (ek_update_loop n j ms p) \<noteq> Hang"
  by (induction n j ms p rule: ek_update_loop.induct) (auto simp: never_hangs split: option.splits if_splits)

interpretation ek_returning: returning_machine "ek_node env"
proof
  show "snd (dn_Start (ek_node env) s) \<noteq> Hang" for s
    by (cases "en_rnd s") (simp_all add: ek_node_def ek_Start_def ek_rounds_return)
  show "snd (dn_StoreMessage (ek_node env) s msg) \<noteq> Hang" for s msg
    by (auto simp: ek_node_def ek_StoreMessage_def Let_def never_hangs split: EdKGMessage.splits)
  show "snd (dn_Update (ek_node env) s) \<noteq> Hang" for s
    using ek_update_loop_returns by (simp add: ek_node_def ek_Update_def split: option.splits)
qed

section \<open>Signing\<close>

lemma xs_index_returns [never_hangs]: "xs_GetDNodeIDIndex p i \<noteq> Hang"
  by (auto simp: xs_GetDNodeIDIndex_def never_hangs)

lemma xs_pieces_return [never_hangs]:
  "snd (xs_put index msg p) \<noteq> Hang" "snd (xs_begin n p) \<noteq> Hang" "xs_slot P e ms k \<noteq> Hang"
  by (auto simp: xs_put_def xs_begin_def xs_slot_def never_hangs split: option.splits)

lemma xs_put_send_returns [never_hangs]: "snd (xs_put_send index msg p) \<noteq> Hang"
  by (auto simp: xs_put_send_def never_hangs)

lemma xs_sample_returns [never_hangs]: "f (xn_rand p) \<noteq> Hang \<Longrightarrow> snd (xs_sample p f) \<noteq> Hang"
  by (auto simp: xs_sample_def split: prod.splits)

lemma xs_steps_return [never_hangs]:
  "xs_round4_step env p st k \<noteq> Hang" "xs_lambda_step c b l kv \<noteq> Hang" "xs_round6_step env p st k \<noteq> Hang" "xs_round7_step p s k \<noteq> Hang"
  by (auto simp: xs_round4_step_def xs_lambda_step_def xs_round6_step_def xs_round7_step_def Let_def never_hangs
      split: if_splits prod.splits)

lemma xs_rounds_return:
  "snd (xs_round1_Start env p) \<noteq> Hang" "snd (xs_round2_Start p) \<noteq> Hang" "snd (xs_round3_Start p) \<noteq> Hang"
  "snd (xs_round4_Start env p) \<noteq> Hang" "snd (xs_round5_Start p) \<noteq> Hang" "snd (xs_round6_Start env p) \<noteq> Hang"
  "snd (xs_round7_Start env p) \<noteq> Hang"
  unfolding xs_round1_Start_def xs_round2_Start_def xs_round3_Start_def xs_round4_Start_def xs_round5_Start_def
    xs_round6_Start_def xs_round7_Start_def Let_def
  by (auto simp: never_hangs split: prod.splits option.splits if_splits)

lemma xs_update_loop_returns: "snd (xs_update_loop n j ms p) \<noteq> Hang"
  by (induction n j ms p rule: xs_update_loop.induct) (auto simp: never_hangs split: option.splits if_splits)

interpretation xs_returning: returning_machine "xs_node env"
proof
  show "snd (dn_Start (xs_node env) s) \<noteq> Hang" for s
    by (cases "xn_rnd s") (simp_all add: xs_node_def xs_Start_def xs_rounds_return)
  show "snd (dn_StoreMessage (xs_node env) s msg) \<noteq> Hang" for s msg
    by (auto simp: xs_node_def xs_StoreMessage_def never_hangs)
  show "snd (dn_Update (xs_node env) s) \<noteq> Hang" for s
    using xs_update_loop_returns by (simp add: xs_node_def xs_Update_def split: option.splits)
qed

text \<open>With fuel 8 and 9 a delivery returns, and it does not hang.\<close>

lemma ek_delivery_returns: "\<exists>r. snd r \<noteq> Hang \<and> (\<forall>k. BaseUpdate (8 + k) (ek_node env) p msg = Some r)"
  using ek_Update_returns [of env p msg] ek_returning.delivery_returns by blast

lemma xs_delivery_returns: "\<exists>r. snd r \<noteq> Hang \<and> (\<forall>k. BaseUpdate (9 + k) (xs_node env) p msg = Some r)"
  using xs_Update_returns [of env p msg] xs_returning.delivery_returns by blast

end
